(* ===== verification/Go_Prelude.thy ===== *)
theory Go_Prelude
  imports Main "HOL-Library.Word"
begin

text \<open>
  Shared vocabulary of the development.

  The theory names the machine types of the Go program (\<^typ>\<open>8 word\<close> for a byte,
  \<^typ>\<open>64 word\<close> for \<open>uint64\<close> and so on), the outcome of a Go call (a value, an
  error value, or a panic), and the simp sets and generic list facts that the
  component theories use.  Go's \<open>int\<close> is 64 bits wide on every platform the
  program is released for; where a computation on it can leave that range the
  component writes the wrap-around with \<open>int64\<close>.
\<close>

section \<open>Machine types\<close>

type_synonym byte = "8 word"
type_synonym bytes = "8 word list"
type_synonym uint16 = "16 word"
type_synonym uint32 = "32 word"
type_synonym uint64 = "64 word"

text \<open>The value a mathematical integer has after it is stored in a Go \<open>int64\<close> or \<open>int32\<close>.\<close>

definition int64 :: "int \<Rightarrow> int" where
  "int64 x = sint (word_of_int x :: 64 word)"

definition int32 :: "int \<Rightarrow> int" where
  "int32 x = sint (word_of_int x :: 32 word)"

lemma int64_id: "- (2 ^ 63) \<le> x \<Longrightarrow> x < 2 ^ 63 \<Longrightarrow> int64 x = x"
  by (simp add: int64_def signed_of_int signed_take_bit_int_eq_self)

lemma int64_negative: "2 ^ 63 \<le> x \<Longrightarrow> x < 2 ^ 64 \<Longrightarrow> int64 x = x - 2 ^ 64"
proof -
  assume "2 ^ 63 \<le> x" and "x < 2 ^ 64"
  have "(word_of_int (x - 2 ^ 64) :: 64 word) = word_of_int x"
    by (rule word_of_int_eq_iff [THEN iffD2]) (simp add: take_bit_eq_mod)
  then have "int64 x = int64 (x - 2 ^ 64)" by (simp only: int64_def)
  also have "\<dots> = x - 2 ^ 64"
    by (rule int64_id) (use \<open>2 ^ 63 \<le> x\<close> \<open>x < 2 ^ 64\<close> in simp_all)
  finally show ?thesis .
qed

lemma int32_id: "- (2 ^ 31) \<le> x \<Longrightarrow> x < 2 ^ 31 \<Longrightarrow> int32 x = x"
  by (simp add: int32_def signed_of_int signed_take_bit_int_eq_self)

lemma int32_negative: "2 ^ 31 \<le> x \<Longrightarrow> x < 2 ^ 32 \<Longrightarrow> int32 x = x - 2 ^ 32"
proof -
  assume "2 ^ 31 \<le> x" and "x < 2 ^ 32"
  have "(word_of_int (x - 2 ^ 32) :: 32 word) = word_of_int x"
    by (rule word_of_int_eq_iff [THEN iffD2]) (simp add: take_bit_eq_mod)
  then have "int32 x = int32 (x - 2 ^ 32)" by (simp only: int32_def)
  also have "\<dots> = x - 2 ^ 32"
    by (rule int32_id) (use \<open>2 ^ 31 \<le> x\<close> \<open>x < 2 ^ 32\<close> in simp_all)
  finally show ?thesis .
qed

lemma unat_bound: "unat (w :: 'a::len word) < 2 ^ LENGTH('a)"
  by simp

lemma unat_byte_less [simp]: "unat (b :: byte) < 256"
  using unat_bound [of b] by simp

lemma unat_of_nat_id: "n < 2 ^ LENGTH('a) \<Longrightarrow> unat (of_nat n :: 'a::len word) = n"
  by (simp only: unat_of_nat mod_less)

lemma unat_byte_id: "n < 256 \<Longrightarrow> unat (of_nat n :: byte) = n"
  by (rule unat_of_nat_id) simp

lemma unat_plus_small:
  "unat a + unat b < 2 ^ LENGTH('a) \<Longrightarrow> unat (a + b :: 'a::len word) = unat a + unat b"
  by (simp add: unat_word_ariths)

lemma unat_mult_small:
  "unat a * unat b < 2 ^ LENGTH('a) \<Longrightarrow> unat (a * b :: 'a::len word) = unat a * unat b"
  by (simp add: unat_word_ariths)

section \<open>Outcomes of a call\<close>

text \<open>
  A Go function of this program ends in one of three ways: it returns a value, it
  returns an error, or it panics.  The third one is kept apart from an error,
  because nothing above it in the call chain expects it.
\<close>

datatype ('e, 'a) outcome = Ok 'a | Err 'e | Panic

fun obind :: "('e, 'a) outcome \<Rightarrow> ('a \<Rightarrow> ('e, 'b) outcome) \<Rightarrow> ('e, 'b) outcome" where
  "obind (Ok x) f = f x"
| "obind (Err e) f = Err e"
| "obind Panic f = Panic"

lemma obind_eq_Ok [simp]: "obind m f = Ok y \<longleftrightarrow> (\<exists>x. m = Ok x \<and> f x = Ok y)"
  by (cases m) auto

lemma obind_cong [fundef_cong]:
  "m = m' \<Longrightarrow> (\<And>x. m' = Ok x \<Longrightarrow> f x = g x) \<Longrightarrow> obind m f = obind m' g"
  by (cases m') auto

lemma obind_assoc: "obind (obind m f) g = obind m (\<lambda>x. obind (f x) g)"
  by (cases m) auto

text \<open>A loop that converts a list and stops at the first error or panic.\<close>

fun omap :: "('a \<Rightarrow> ('e, 'b) outcome) \<Rightarrow> 'a list \<Rightarrow> ('e, 'b list) outcome" where
  "omap f [] = Ok []"
| "omap f (x # xs) = obind (f x) (\<lambda>y. obind (omap f xs) (\<lambda>ys. Ok (y # ys)))"

lemma omap_Ok: "omap (\<lambda>x. Ok (f x)) xs = Ok (map f xs)"
  by (induction xs) auto

section \<open>Lists\<close>

named_theorems chunk_simps \<open>splitting and rejoining byte strings\<close>

lemma take_append_drop_nth:
  assumes "0 < n" and "n \<le> length xs"
  shows "take n xs = take (n - 1) xs @ [xs ! (n - 1)]"
  using assms by (metis Suc_diff_1 Suc_le_eq take_Suc_conv_app_nth)

lemma take_take_drop [chunk_simps]: "take m xs @ take n (drop m xs) = take (m + n) xs"
  by (simp add: take_add)

lemma replicate_numeral: "replicate (numeral n) x = x # replicate (pred_numeral n) x"
  by (simp add: numeral_eq_Suc)

lemma concat_replicate_single [simp]: "concat (map (\<lambda>x. [x]) xs) = xs"
  by (induction xs) auto

end
