(* ===== verification/Version_Vector.thy ===== *)
theory Version_Vector
  imports Go_Prelude
begin

text \<open>
  Version vectors, \<^verbatim>\<open>lib/protocol/vector.go\<close>.

  A vector is a slice of counters.  The Go code keeps the slice sorted by device
  ID and every loop relies on it; \<open>wf_vector\<close> is that invariant.  The abstract
  view of a vector is the total function from device IDs to counter values given
  by \<open>counter_of\<close> (the method \<open>Counter\<close>), zero where a device has no entry.
  The theory shows that \<open>Compare\<close> decides the pointwise order of that view,
  that \<open>Merge\<close> is its least upper bound and that \<open>Update\<close> moves strictly up.
\<close>

section \<open>Data\<close>

type_synonym short_id = uint64

record counter =
  ID :: short_id
  Value :: uint64

record vector =
  Counters :: "counter list"

definition mk_counter :: "short_id \<Rightarrow> uint64 \<Rightarrow> counter" where
  "mk_counter i v = \<lparr>ID = i, Value = v\<rparr>"

datatype ordering = Equal | Greater | Lesser | ConcurrentLesser | ConcurrentGreater

definition empty_vector :: vector where
  "empty_vector = \<lparr>Counters = []\<rparr>"

section \<open>Operations\<close>

text \<open>
  \<open>updateWithNow\<close>: the loop stops at the first counter whose ID is the wanted one
  (its value becomes the maximum of its successor and the clock) or is greater (a
  new counter is inserted before it); past the end a new counter is appended.
  The successor wraps around as \<open>uint64\<close> does.
\<close>

fun update_counters :: "counter list \<Rightarrow> short_id \<Rightarrow> uint64 \<Rightarrow> counter list" where
  "update_counters [] i now = [mk_counter i (max 1 now)]"
| "update_counters (c # cs) i now =
     (if ID c = i then c\<lparr>Value := max (Value c + 1) now\<rparr> # cs
      else if ID c > i then mk_counter i (max 1 now) # c # cs
      else c # update_counters cs i now)"

definition updateWithNow :: "vector \<Rightarrow> short_id \<Rightarrow> uint64 \<Rightarrow> vector" where
  "updateWithNow v i now = \<lparr>Counters = update_counters (Counters v) i now\<rparr>"

text \<open>
  \<open>Merge\<close>: \<open>vi\<close> and \<open>bi\<close> walk over the two slices; what lies before \<open>vi\<close> is
  final, so the recursion is over the two remaining suffixes.  In the insertion
  branch the new element equals the one of \<open>b\<close>, hence both indices advance.
\<close>

fun merge_counters :: "counter list \<Rightarrow> counter list \<Rightarrow> counter list" where
  "merge_counters v [] = v"
| "merge_counters [] (b # bs) = b # bs"
| "merge_counters (c # cs) (b # bs) =
     (if ID c > ID b then b # merge_counters (c # cs) bs
      else if ID c = ID b
      then (if Value b > Value c then c\<lparr>Value := Value b\<rparr> else c) # merge_counters cs bs
      else c # merge_counters cs (b # bs))"

definition Merge :: "vector \<Rightarrow> vector \<Rightarrow> vector" where
  "Merge v b = \<lparr>Counters = merge_counters (Counters v) (Counters b)\<rparr>"

text \<open>\<open>Counter\<close>: the value of the first counter with the given ID, or zero.\<close>

fun counter_of :: "counter list \<Rightarrow> short_id \<Rightarrow> uint64" where
  "counter_of [] i = 0"
| "counter_of (c # cs) i = (if ID c = i then Value c else counter_of cs i)"

definition Counter :: "vector \<Rightarrow> short_id \<Rightarrow> uint64" where
  "Counter v i = counter_of (Counters v) i"

definition IsEmpty :: "vector \<Rightarrow> bool" where
  "IsEmpty v \<longleftrightarrow> length (Counters v) = 0"

fun drop_others :: "counter list \<Rightarrow> short_id \<Rightarrow> counter list" where
  "drop_others [] i = []"
| "drop_others (c # cs) i = (if ID c = i then [c] else drop_others cs i)"

definition DropOthers :: "vector \<Rightarrow> short_id \<Rightarrow> vector" where
  "DropOthers v i = \<lparr>Counters = drop_others (Counters v) i\<rparr>"

text \<open>
  \<open>Compare\<close>.  \<open>found_greater\<close> and \<open>found_lesser\<close> are the two bodies of the
  \<open>switch\<close>: an early return (\<open>Inl\<close>) or the new value of \<open>result\<close> (\<open>Inr\<close>).
\<close>

definition found_greater :: "ordering \<Rightarrow> ordering + ordering" where
  "found_greater result = (if result = Lesser then Inl ConcurrentLesser else Inr Greater)"

definition found_lesser :: "ordering \<Rightarrow> ordering + ordering" where
  "found_lesser result = (if result = Greater then Inl ConcurrentGreater else Inr Lesser)"

definition compare_switch ::
  "bool \<Rightarrow> bool \<Rightarrow> counter \<Rightarrow> counter \<Rightarrow> ordering \<Rightarrow> ordering + ordering" where
  "compare_switch aMissing bMissing av bv result =
     (if ID av = ID bv then
        (if Value av > Value bv then found_greater result
         else if Value av < Value bv then found_lesser result
         else Inr result)
      else if \<not> aMissing \<and> ID av < ID bv \<or> bMissing then
        (if Value av > 0 then found_greater result else Inr result)
      else if \<not> bMissing \<and> ID bv < ID av \<or> aMissing then
        (if Value bv > 0 then found_lesser result else Inr result)
      else Inr result)"

function compare_loop :: "counter list \<Rightarrow> counter list \<Rightarrow> ordering \<Rightarrow> ordering" where
  "compare_loop a b result =
     (if a = [] \<and> b = [] then result
      else
        let aMissing = (a = []);
            bMissing = (b = []);
            av = (if aMissing then mk_counter 0 0 else hd a);
            bv = (if bMissing then mk_counter 0 0 else hd b)
        in case compare_switch aMissing bMissing av bv result of
             Inl r \<Rightarrow> r
           | Inr r \<Rightarrow>
               compare_loop
                 (if \<not> aMissing \<and> (ID av \<le> ID bv \<or> bMissing) then tl a else a)
                 (if \<not> bMissing \<and> (ID bv \<le> ID av \<or> aMissing) then tl b else b) r)"
  by pat_completeness auto
termination
  by (relation "measure (\<lambda>(a, b, r). length a + length b)")
    (auto simp: Let_def neq_Nil_conv split: if_splits)

declare compare_loop.simps [simp del]

definition Compare :: "vector \<Rightarrow> vector \<Rightarrow> ordering" where
  "Compare v b = compare_loop (Counters v) (Counters b) Equal"

definition VEqual :: "vector \<Rightarrow> vector \<Rightarrow> bool" where
  "VEqual v b \<longleftrightarrow> Compare v b = Equal"

definition LesserEqual :: "vector \<Rightarrow> vector \<Rightarrow> bool" where
  "LesserEqual v b \<longleftrightarrow> Compare v b = Lesser \<or> Compare v b = Equal"

definition GreaterEqual :: "vector \<Rightarrow> vector \<Rightarrow> bool" where
  "GreaterEqual v b \<longleftrightarrow> Compare v b = Greater \<or> Compare v b = Equal"

definition Concurrent :: "vector \<Rightarrow> vector \<Rightarrow> bool" where
  "Concurrent v b \<longleftrightarrow> Compare v b = ConcurrentGreater \<or> Compare v b = ConcurrentLesser"


section \<open>The invariant and the abstract view\<close>

definition sorted_counters :: "counter list \<Rightarrow> bool" where
  "sorted_counters cs \<longleftrightarrow> sorted_wrt (<) (map ID cs)"

definition wf_vector :: "vector \<Rightarrow> bool" where
  "wf_vector v \<longleftrightarrow> sorted_counters (Counters v)"

lemma ID_mk_counter [simp]: "ID (mk_counter i v) = i"
  and Value_mk_counter [simp]: "Value (mk_counter i v) = v"
  by (simp_all add: mk_counter_def)

lemma sorted_counters_Nil [simp]: "sorted_counters []"
  by (simp add: sorted_counters_def)

lemma sorted_counters_Cons [simp]:
  "sorted_counters (c # cs) \<longleftrightarrow> (\<forall>d \<in> set cs. ID c < ID d) \<and> sorted_counters cs"
  by (simp add: sorted_counters_def)

lemma counter_of_notin: "i \<notin> ID ` set cs \<Longrightarrow> counter_of cs i = 0"
  by (induction cs) auto

lemma counter_of_less: "\<forall>d \<in> set cs. i < ID d \<Longrightarrow> counter_of cs i = 0"
  by (rule counter_of_notin) auto

lemma counter_of_pos_in: "counter_of cs i \<noteq> 0 \<Longrightarrow> i \<in> ID ` set cs"
  using counter_of_notin by blast

subsection \<open>Update\<close>

lemma IDs_update_counters:
  "ID ` set (update_counters cs i now) = insert i (ID ` set cs)"
  by (induction cs) auto

lemma sorted_update_counters:
  "sorted_counters cs \<Longrightarrow> sorted_counters (update_counters cs i now)"
proof (induction cs)
  case (Cons c cs)
  have "ID c < ID d" if "d \<in> set (update_counters cs i now)" and "\<not> ID c \<ge> i" for d
  proof -
    from that(1) have "ID d \<in> insert i (ID ` set cs)"
      by (metis IDs_update_counters imageI)
    with Cons.prems that(2) show ?thesis by auto
  qed
  with Cons show ?case by (auto simp: not_less_iff_gr_or_eq)
qed simp

lemma counter_of_update_other:
  "j \<noteq> i \<Longrightarrow> counter_of (update_counters cs i now) j = counter_of cs j"
  by (induction cs) auto

lemma counter_of_update_self:
  "sorted_counters cs \<Longrightarrow>
   counter_of (update_counters cs i now) i =
     (if i \<in> ID ` set cs then max (counter_of cs i + 1) now else max 1 now)"
  by (induction cs) fastforce+

subsection \<open>Merge\<close>

lemma IDs_merge_counters:
  "ID ` set (merge_counters v b) = ID ` set v \<union> ID ` set b"
  by (induction v b rule: merge_counters.induct) auto

lemma sorted_merge_counters:
  "sorted_counters v \<Longrightarrow> sorted_counters b \<Longrightarrow> sorted_counters (merge_counters v b)"
proof (induction v b rule: merge_counters.induct)
  case (3 c cs b bs)
  have mem: "ID d \<in> ID ` set v \<union> ID ` set w" if "d \<in> set (merge_counters v w)" for d v w
    using that by (metis IDs_merge_counters imageI)
  show ?case using 3
    by (auto dest!: mem) (meson less_trans not_less_iff_gr_or_eq)+
qed auto

lemma counter_of_below:
  "sorted_counters (c # cs) \<Longrightarrow> i \<le> ID c \<Longrightarrow> counter_of cs i = 0"
  by (rule counter_of_less) auto

lemma counter_of_below_Cons:
  "sorted_counters (c # cs) \<Longrightarrow> i < ID c \<Longrightarrow> counter_of (c # cs) i = 0"
  by (rule counter_of_less) auto

lemma counter_of_merge:
  "sorted_counters v \<Longrightarrow> sorted_counters b \<Longrightarrow>
   counter_of (merge_counters v b) i = max (counter_of v i) (counter_of b i)"
proof (induction v b rule: merge_counters.induct)
  case (3 c cs b bs)
  consider "ID b < ID c" | "ID b = ID c" | "ID c < ID b" by fastforce
  then show ?case
  proof cases
    case 1
    with 3 have "counter_of (merge_counters (c # cs) bs) i =
        max (counter_of (c # cs) i) (counter_of bs i)" by simp
    moreover have "counter_of (c # cs) i = 0" if "ID b = i"
      using counter_of_below_Cons [OF 3(4)] 1 that by blast
    ultimately show ?thesis using 1 by (auto simp del: counter_of.simps(2) simp: counter_of.simps(2) [of b])
  next
    case 2
    have "counter_of (merge_counters cs bs) i = max (counter_of cs i) (counter_of bs i)"
      by (rule 3(2)) (use 2 3(4,5) in simp_all)
    moreover have "counter_of (merge_counters (c # cs) (b # bs)) i =
        (if ID c = i then max (Value c) (Value b) else counter_of (merge_counters cs bs) i)"
      using 2 by (simp add: max_def less_le)
    ultimately show ?thesis using 2 by (cases "ID c = i") (simp_all del: merge_counters.simps)
  next
    case less: 3
    with 3 have "counter_of (merge_counters cs (b # bs)) i =
        max (counter_of cs i) (counter_of (b # bs) i)" by simp
    moreover have "counter_of (b # bs) i = 0" if "ID c = i"
      using counter_of_below_Cons [OF 3(5)] less that by blast
    ultimately show ?thesis using less
      by (auto simp del: counter_of.simps(2) simp: counter_of.simps(2) [of c])
  qed
qed auto

subsection \<open>Compare\<close>

text \<open>
  One step of the comparison loop, for each way the two heads can relate.  The
  zero counter that stands for a missing side needs no case of its own.
\<close>

lemma compare_loop_Nil [simp]: "compare_loop [] [] r = r"
  by (simp add: compare_loop.simps)

lemma compare_loop_left:
  "b = [] \<or> ID c < ID (hd b) \<Longrightarrow>
   compare_loop (c # cs) b r =
     (if Value c > 0
      then (if r = Lesser then ConcurrentLesser else compare_loop cs b Greater)
      else compare_loop cs b r)"
  by (subst compare_loop.simps)
    (auto simp: Let_def compare_switch_def found_greater_def)

lemma compare_loop_right:
  "a = [] \<or> ID d < ID (hd a) \<Longrightarrow>
   compare_loop a (d # ds) r =
     (if Value d > 0
      then (if r = Greater then ConcurrentGreater else compare_loop a ds Lesser)
      else compare_loop a ds r)"
  by (subst compare_loop.simps)
    (auto simp: Let_def compare_switch_def found_lesser_def)

lemma compare_loop_both:
  "ID c = ID d \<Longrightarrow>
   compare_loop (c # cs) (d # ds) r =
     (if Value c > Value d
      then (if r = Lesser then ConcurrentLesser else compare_loop cs ds Greater)
      else if Value c < Value d
      then (if r = Greater then ConcurrentGreater else compare_loop cs ds Lesser)
      else compare_loop cs ds r)"
  by (subst compare_loop.simps)
    (auto simp: Let_def compare_switch_def found_lesser_def found_greater_def)

text \<open>The two sides advance together; this is the induction that goes with it.\<close>

lemma counters_induct [consumes 2, case_names Nil Left Right Both]:
  assumes "sorted_counters a" and "sorted_counters b"
    and "P [] []"
    and "\<And>c cs b. sorted_counters (c # cs) \<Longrightarrow> sorted_counters b \<Longrightarrow>
           \<forall>d \<in> set b. ID c < ID d \<Longrightarrow> b = [] \<or> ID c < ID (hd b) \<Longrightarrow> P cs b \<Longrightarrow> P (c # cs) b"
    and "\<And>d ds a. sorted_counters a \<Longrightarrow> sorted_counters (d # ds) \<Longrightarrow>
           \<forall>c \<in> set a. ID d < ID c \<Longrightarrow> a = [] \<or> ID d < ID (hd a) \<Longrightarrow> P a ds \<Longrightarrow> P a (d # ds)"
    and "\<And>c cs d ds. sorted_counters (c # cs) \<Longrightarrow> sorted_counters (d # ds) \<Longrightarrow>
           ID c = ID d \<Longrightarrow> P cs ds \<Longrightarrow> P (c # cs) (d # ds)"
  shows "P a b"
  using assms(1,2)
proof (induction "length a + length b" arbitrary: a b rule: less_induct)
  case less
  show ?case
  proof (cases a)
    case Nil
    show ?thesis
    proof (cases b)
      case Nil
      with \<open>a = []\<close> show ?thesis by (simp add: assms(3))
    next
      case (Cons d ds)
      with \<open>a = []\<close> less.prems less.hyps [of a ds] show ?thesis by (simp add: assms(5))
    qed
  next
    case (Cons c cs)
    note a = this
    show ?thesis
    proof (cases b)
      case Nil
      with a less.prems less.hyps [of cs b] show ?thesis by (simp add: assms(4))
    next
      case (Cons d ds)
      have rest: "\<forall>e \<in> set cs. ID c < ID e" "\<forall>e \<in> set ds. ID d < ID e"
        using a Cons less.prems by simp_all
      consider "ID c < ID d" | "ID d < ID c" | "ID c = ID d" by fastforce
      then show ?thesis
      proof cases
        case 1
        with a Cons rest less.prems less.hyps [of cs b] show ?thesis
          by (auto intro!: assms(4) intro: less_trans)
      next
        case 2
        with a Cons rest less.prems less.hyps [of a ds] show ?thesis
          by (auto intro!: assms(5) intro: less_trans)
      next
        case 3
        with a Cons less.prems less.hyps [of cs ds] show ?thesis
          by (simp add: assms(6))
      qed
    qed
  qed
qed

text \<open>The pointwise relations on the abstract view, and how one step changes them.\<close>

definition some_less :: "counter list \<Rightarrow> counter list \<Rightarrow> bool" where
  "some_less a b \<longleftrightarrow> (\<exists>i. counter_of a i < counter_of b i)"

definition first_greater :: "counter list \<Rightarrow> counter list \<Rightarrow> bool" where
  "first_greater a b \<longleftrightarrow>
     (\<exists>i. counter_of b i < counter_of a i \<and> (\<forall>j < i. counter_of a j = counter_of b j))"

lemma counter_of_zero_head:
  "sorted_counters (c # cs) \<Longrightarrow> Value c = 0 \<Longrightarrow> counter_of (c # cs) = counter_of cs"
  using counter_of_below [of c cs] by fastforce

lemma some_less_head:
  assumes "sorted_counters (c # cs)" and "\<forall>d \<in> set b. ID c < ID d"
  shows "some_less (c # cs) b \<longleftrightarrow> some_less cs b"
    and "some_less b (c # cs) \<longleftrightarrow> Value c > 0 \<or> some_less b cs"
  using counter_of_less [OF assms(2)] counter_of_below [OF assms(1), of "ID c"]
  by (auto simp: some_less_def) (metis word_not_simps(1))+

lemma some_less_both:
  assumes "sorted_counters (c # cs)" and "sorted_counters (d # ds)" and "ID c = ID d"
  shows "some_less (c # cs) (d # ds) \<longleftrightarrow> Value c < Value d \<or> some_less cs ds"
  using counter_of_below [OF assms(1), of "ID c"] counter_of_below [OF assms(2), of "ID c"] assms(3)
  by (auto simp: some_less_def) (metis word_not_simps(1))+

lemma first_greater_zero_left:
  "sorted_counters (c # cs) \<Longrightarrow> Value c = 0 \<Longrightarrow> first_greater (c # cs) b = first_greater cs b"
  and first_greater_zero_right:
  "sorted_counters (c # cs) \<Longrightarrow> Value c = 0 \<Longrightarrow> first_greater b (c # cs) = first_greater b cs"
  by (simp_all only: first_greater_def counter_of_zero_head)

lemma first_greater_left:
  assumes "sorted_counters (c # cs)" and "\<forall>d \<in> set b. ID c < ID d" and "Value c > 0"
  shows "first_greater (c # cs) b"
  unfolding first_greater_def
proof (intro exI conjI allI impI)
  have zero: "counter_of b j = 0" if "j \<le> ID c" for j
    by (rule counter_of_less) (use that assms(2) in \<open>auto intro: le_less_trans\<close>)
  show "counter_of b (ID c) < counter_of (c # cs) (ID c)"
    using assms(3) zero by simp
  show "counter_of (c # cs) j = counter_of b j" if "j < ID c" for j
    using counter_of_below_Cons [OF assms(1) that] zero that by simp
qed

lemma first_greater_right:
  assumes "sorted_counters (d # ds)" and "\<forall>c \<in> set a. ID d < ID c" and "Value d > 0"
  shows "\<not> first_greater a (d # ds)"
proof
  assume "first_greater a (d # ds)"
  then obtain i where i: "counter_of (d # ds) i < counter_of a i"
    and eq: "\<And>j. j < i \<Longrightarrow> counter_of a j = counter_of (d # ds) j"
    by (auto simp: first_greater_def)
  have zero: "counter_of a j = 0" if "j \<le> ID d" for j
    by (rule counter_of_less) (use that assms(2) in \<open>auto intro: le_less_trans\<close>)
  from i zero [of i] have "ID d < i" by (cases "i \<le> ID d") auto
  from eq [OF this] zero [of "ID d"] assms(3) show False by simp
qed

lemma first_greater_both:
  assumes "sorted_counters (c # cs)" and "sorted_counters (d # ds)" and "ID c = ID d"
  shows "Value d < Value c \<Longrightarrow> first_greater (c # cs) (d # ds)"
    and "Value c < Value d \<Longrightarrow> \<not> first_greater (c # cs) (d # ds)"
    and "Value c = Value d \<Longrightarrow> first_greater (c # cs) (d # ds) = first_greater cs ds"
proof -
  have below: "counter_of (c # cs) j = 0" "counter_of (d # ds) j = 0" if "j < ID c" for j
    using counter_of_below_Cons [OF assms(1) that] counter_of_below_Cons [OF assms(2)] that assms(3)
    by simp_all
  show "first_greater (c # cs) (d # ds)" if "Value d < Value c"
    unfolding first_greater_def
    by (rule exI [of _ "ID c"]) (use that assms(3) below in simp)
  show "\<not> first_greater (c # cs) (d # ds)" if "Value c < Value d"
  proof
    assume "first_greater (c # cs) (d # ds)"
    then obtain i where i: "counter_of (d # ds) i < counter_of (c # cs) i"
      and eq: "\<And>j. j < i \<Longrightarrow> counter_of (c # cs) j = counter_of (d # ds) j"
      unfolding first_greater_def by blast
    have "i \<noteq> ID c" using i that assms(3) by auto
    moreover have "\<not> i < ID c" using i below by auto
    ultimately have "ID c < i" by auto
    from eq [OF this] that assms(3) show False by simp
  qed
  have at: "counter_of cs (ID c) = 0" "counter_of ds (ID c) = 0"
    using counter_of_below [OF assms(1)] counter_of_below [OF assms(2)] assms(3) by simp_all
  show "first_greater (c # cs) (d # ds) = first_greater cs ds" if "Value c = Value d"
    unfolding first_greater_def using that assms(3) at
    by (intro ex_cong1) (auto simp del: not_less simp: not_less_iff_gr_or_eq, metis)
qed

lemma compare_loop_Greater:
  "sorted_counters a \<Longrightarrow> sorted_counters b \<Longrightarrow>
   compare_loop a b Greater = (if some_less a b then ConcurrentGreater else Greater)"
  by (induction a b rule: counters_induct)
    (auto simp: compare_loop_left compare_loop_right compare_loop_both
      some_less_head some_less_both some_less_def [of "[]" "[]"] dest: order.asym)

lemma compare_loop_Lesser:
  "sorted_counters a \<Longrightarrow> sorted_counters b \<Longrightarrow>
   compare_loop a b Lesser = (if some_less b a then ConcurrentLesser else Lesser)"
  by (induction a b rule: counters_induct)
    (auto simp: compare_loop_left compare_loop_right compare_loop_both
      some_less_head some_less_both some_less_def [of "[]" "[]"] dest: order.asym)

definition ordering_of :: "bool \<Rightarrow> bool \<Rightarrow> bool \<Rightarrow> ordering" where
  "ordering_of ge le fst_gt =
     (if ge \<and> le then Equal else if ge then Greater else if le then Lesser
      else if fst_gt then ConcurrentGreater else ConcurrentLesser)"

lemma ordering_of_iff [simp]:
  "ordering_of ge le gt = Equal \<longleftrightarrow> ge \<and> le"
  "ordering_of ge le gt = Greater \<longleftrightarrow> ge \<and> \<not> le"
  "ordering_of ge le gt = Lesser \<longleftrightarrow> \<not> ge \<and> le"
  "ordering_of ge le gt = ConcurrentGreater \<longleftrightarrow> \<not> ge \<and> \<not> le \<and> gt"
  "ordering_of ge le gt = ConcurrentLesser \<longleftrightarrow> \<not> ge \<and> \<not> le \<and> \<not> gt"
  by (auto simp: ordering_of_def)

lemma compare_loop_Equal:
  "sorted_counters a \<Longrightarrow> sorted_counters b \<Longrightarrow>
   compare_loop a b Equal = ordering_of (\<not> some_less a b) (\<not> some_less b a) (first_greater a b)"
proof (induction a b rule: counters_induct)
  case Nil
  show ?case by (simp add: some_less_def ordering_of_def)
next
  case (Left c cs b)
  then show ?case
    by (cases "Value c = 0")
      (simp_all add: word_gt_0 compare_loop_left compare_loop_Greater some_less_head first_greater_left
        first_greater_zero_left ordering_of_def)
next
  case (Right d ds a)
  then show ?case
    by (cases "Value d = 0")
      (simp_all add: word_gt_0 compare_loop_right compare_loop_Lesser some_less_head first_greater_right
        first_greater_zero_right ordering_of_def)
next
  case (Both c cs d ds)
  consider "Value d < Value c" | "Value c < Value d" | "Value c = Value d" by fastforce
  then show ?case
    by cases (use Both in \<open>auto simp: compare_loop_both compare_loop_Greater compare_loop_Lesser
        some_less_both first_greater_both ordering_of_def\<close>)
qed

text \<open>Exchanging the operands mirrors the result, also on unsorted vectors.\<close>

fun flip_ordering :: "ordering \<Rightarrow> ordering" where
  "flip_ordering Equal = Equal"
| "flip_ordering Greater = Lesser"
| "flip_ordering Lesser = Greater"
| "flip_ordering ConcurrentLesser = ConcurrentGreater"
| "flip_ordering ConcurrentGreater = ConcurrentLesser"

lemma flip_flip [simp]: "flip_ordering (flip_ordering r) = r"
  by (cases r) auto

lemma flip_eq_iff [simp]:
  "flip_ordering r = Equal \<longleftrightarrow> r = Equal"
  "flip_ordering r = Greater \<longleftrightarrow> r = Lesser"
  "flip_ordering r = Lesser \<longleftrightarrow> r = Greater"
  "flip_ordering r = ConcurrentGreater \<longleftrightarrow> r = ConcurrentLesser"
  "flip_ordering r = ConcurrentLesser \<longleftrightarrow> r = ConcurrentGreater"
  by (cases r; simp)+

lemma found_flip:
  "found_lesser (flip_ordering r) = map_sum flip_ordering flip_ordering (found_greater r)"
  "found_greater (flip_ordering r) = map_sum flip_ordering flip_ordering (found_lesser r)"
  by (simp_all add: found_lesser_def found_greater_def)

lemma compare_switch_flip:
  "\<not> (aM \<and> bM) \<Longrightarrow>
   compare_switch bM aM bv av (flip_ordering r) =
     map_sum flip_ordering flip_ordering (compare_switch aM bM av bv r)"
  by (cases "ID av" "ID bv" rule: linorder_cases; cases "Value av" "Value bv" rule: linorder_cases)
    (auto simp: compare_switch_def found_flip not_less_iff_gr_or_eq)

lemma compare_loop_flip:
  "compare_loop b a (flip_ordering r) = flip_ordering (compare_loop a b r)"
proof (induction a b r rule: compare_loop.induct)
  case (1 a b r)
  show ?case
  proof (cases "a = [] \<and> b = []")
    case False
    define av where "av = (if a = [] then mk_counter 0 0 else hd a)"
    define bv where "bv = (if b = [] then mk_counter 0 0 else hd b)"
    define a' where "a' = (if a \<noteq> [] \<and> (ID av \<le> ID bv \<or> b = []) then tl a else a)"
    define b' where "b' = (if b \<noteq> [] \<and> (ID bv \<le> ID av \<or> a = []) then tl b else b)"
    have "compare_loop a b r =
        (case compare_switch (a = []) (b = []) av bv r of Inl r \<Rightarrow> r | Inr r \<Rightarrow> compare_loop a' b' r)"
      by (subst compare_loop.simps) (simp only: False if_False Let_def av_def bv_def a'_def b'_def)
    moreover have "compare_loop b a (flip_ordering r) =
        (case compare_switch (b = []) (a = []) bv av (flip_ordering r)
         of Inl r \<Rightarrow> r | Inr r \<Rightarrow> compare_loop b' a' r)"
      by (subst compare_loop.simps)
        (simp only: False conj_commute [of "b = []"] if_False Let_def av_def bv_def a'_def b'_def)
    moreover have "compare_loop b' a' (flip_ordering r') = flip_ordering (compare_loop a' b' r')"
      if "compare_switch (a = []) (b = []) av bv r = Inr r'" for r'
      unfolding a'_def b'_def
      by (rule 1 [OF False refl refl av_def bv_def that])
    ultimately show ?thesis
      using compare_switch_flip [of "a = []" "b = []"] False by (auto split: sum.splits)
  qed simp
qed

lemma Compare_flip: "Compare b a = flip_ordering (Compare a b)"
  using compare_loop_flip [of "Counters b" "Counters a" Equal] by (simp add: Compare_def)

lemma Compare_wf:
  "wf_vector a \<Longrightarrow> wf_vector b \<Longrightarrow>
   Compare a b = ordering_of (\<forall>i. Counter b i \<le> Counter a i) (\<forall>i. Counter a i \<le> Counter b i)
     (\<exists>i. Counter b i < Counter a i \<and> (\<forall>j < i. Counter a j = Counter b j))"
  by (simp add: Compare_def wf_vector_def Counter_def compare_loop_Equal some_less_def
      first_greater_def not_less)

section \<open>The contract the rest of the program relies on\<close>

text \<open>
  What file metadata, conflict resolution and the download trackers use of a
  version vector: a well-formedness predicate, the comparison and a pointwise view.
\<close>

locale version_order =
  fixes wf :: "'v \<Rightarrow> bool"
    and view :: "'v \<Rightarrow> 'k::linorder \<Rightarrow> 'n::linorder"
    and cmp :: "'v \<Rightarrow> 'v \<Rightarrow> ordering"
  assumes cmp_view: "wf a \<Longrightarrow> wf b \<Longrightarrow>
      cmp a b = ordering_of (\<forall>i. view b i \<le> view a i) (\<forall>i. view a i \<le> view b i)
        (\<exists>i. view b i < view a i \<and> (\<forall>j < i. view a j = view b j))"
    and cmp_flip: "cmp b a = flip_ordering (cmp a b)"
begin

lemma cmp_Equal_iff: "wf a \<Longrightarrow> wf b \<Longrightarrow> cmp a b = Equal \<longleftrightarrow> view a = view b"
  by (auto simp: cmp_view fun_eq_iff antisym)

lemma cmp_refl: "wf a \<Longrightarrow> cmp a a = Equal"
  by (simp add: cmp_Equal_iff)

lemma cmp_sym: "cmp a b = Equal \<Longrightarrow> cmp b a = Equal"
  using cmp_flip [of b a] by simp

lemma cmp_Equal_trans:
  "wf a \<Longrightarrow> wf b \<Longrightarrow> wf c \<Longrightarrow> cmp a b = Equal \<Longrightarrow> cmp b c = Equal \<Longrightarrow> cmp a c = Equal"
  by (simp add: cmp_Equal_iff)

lemma cmp_ge_iff:
  "wf a \<Longrightarrow> wf b \<Longrightarrow> cmp a b = Greater \<or> cmp a b = Equal \<longleftrightarrow> (\<forall>i. view b i \<le> view a i)"
  by (auto simp: cmp_view)

lemma cmp_Greater_iff:
  "wf a \<Longrightarrow> wf b \<Longrightarrow>
   cmp a b = Greater \<longleftrightarrow> (\<forall>i. view b i \<le> view a i) \<and> (\<exists>i. view b i < view a i)"
  by (simp add: cmp_view not_le)

lemma cmp_Greater_trans:
  "wf a \<Longrightarrow> wf b \<Longrightarrow> wf c \<Longrightarrow> cmp a b = Greater \<Longrightarrow> cmp b c = Greater \<Longrightarrow> cmp a c = Greater"
  by (simp add: cmp_Greater_iff) (meson order_trans order_less_le_trans)

text \<open>Of two concurrent versions exactly one is the greater one.\<close>

lemma concurrent_tie_break:
  assumes "cmp a b = ConcurrentGreater \<or> cmp a b = ConcurrentLesser"
  shows "cmp a b = ConcurrentGreater \<longleftrightarrow> cmp b a \<noteq> ConcurrentGreater"
  using assms cmp_flip [of b a] by auto

end

text \<open>The operations that produce new versions.\<close>

locale version_lattice = version_order wf view cmp
  for wf :: "'v \<Rightarrow> bool" and view :: "'v \<Rightarrow> 'k::linorder \<Rightarrow> 'n::linorder"
    and cmp :: "'v \<Rightarrow> 'v \<Rightarrow> ordering" +
  fixes merge :: "'v \<Rightarrow> 'v \<Rightarrow> 'v"
  assumes wf_merge: "wf a \<Longrightarrow> wf b \<Longrightarrow> wf (merge a b)"
    and view_merge: "wf a \<Longrightarrow> wf b \<Longrightarrow> view (merge a b) i = max (view a i) (view b i)"
begin

lemma merge_upper:
  "wf a \<Longrightarrow> wf b \<Longrightarrow> cmp (merge a b) a = Greater \<or> cmp (merge a b) a = Equal"
  by (simp add: cmp_ge_iff wf_merge view_merge)

lemma merge_least:
  assumes "wf a" and "wf b" and "wf c"
    and "cmp c a = Greater \<or> cmp c a = Equal" and "cmp c b = Greater \<or> cmp c b = Equal"
  shows "cmp c (merge a b) = Greater \<or> cmp c (merge a b) = Equal"
  using assms by (simp add: cmp_ge_iff wf_merge view_merge)

lemma merge_commute: "wf a \<Longrightarrow> wf b \<Longrightarrow> cmp (merge a b) (merge b a) = Equal"
  by (simp add: cmp_Equal_iff wf_merge view_merge fun_eq_iff max.commute)

lemma merge_assoc:
  "wf a \<Longrightarrow> wf b \<Longrightarrow> wf c \<Longrightarrow> cmp (merge (merge a b) c) (merge a (merge b c)) = Equal"
  by (simp add: cmp_Equal_iff wf_merge view_merge fun_eq_iff max.assoc)

end

lemma wf_Merge: "wf_vector a \<Longrightarrow> wf_vector b \<Longrightarrow> wf_vector (Merge a b)"
  by (simp add: wf_vector_def Merge_def sorted_merge_counters)

lemma wf_updateWithNow: "wf_vector v \<Longrightarrow> wf_vector (updateWithNow v i now)"
  by (simp add: wf_vector_def updateWithNow_def sorted_update_counters)

lemma wf_DropOthers: "wf_vector (DropOthers v i)"
proof -
  have "sorted_counters (drop_others cs i)" for cs
    by (induction cs) auto
  then show ?thesis by (simp add: wf_vector_def DropOthers_def)
qed

interpretation vv: version_lattice wf_vector Counter Compare Merge
  by unfold_locales
    (simp_all add: Compare_wf Compare_flip [symmetric] wf_Merge,
      simp add: Counter_def Merge_def counter_of_merge wf_vector_def)

lemma GreaterEqual_iff:
  "wf_vector a \<Longrightarrow> wf_vector b \<Longrightarrow> GreaterEqual a b \<longleftrightarrow> (\<forall>i. Counter b i \<le> Counter a i)"
  by (simp add: GreaterEqual_def vv.cmp_ge_iff)

section \<open>Properties\<close>

definition vec_a :: vector where
  "vec_a = \<lparr>Counters = [mk_counter 1 3, mk_counter 5 2]\<rparr>"

definition vec_b :: vector where
  "vec_b = \<lparr>Counters = [mk_counter 1 3, mk_counter 2 7]\<rparr>"

lemma wf_examples [simp]: "wf_vector vec_a" "wf_vector vec_b"
  by (simp_all add: wf_vector_def vec_a_def vec_b_def)

text \<open>C13: On sorted vectors, \<open>Compare\<close> returns exactly what the counter values say:
  \<open>Equal\<close> when all counters agree, \<open>Greater\<close> (\<open>Lesser\<close>) when none is below
  (above) and they differ, and otherwise a concurrent result whose direction is decided by
  the smallest device ID at which the two vectors differ.\<close>

theorem compare_decides_pointwise_order:
  assumes "wf_vector a" and "wf_vector b"
  shows "(Compare a b = Equal \<longleftrightarrow> (\<forall>i. Counter a i = Counter b i)) \<and>
    (Compare a b = Greater \<longleftrightarrow>
       (\<forall>i. Counter b i \<le> Counter a i) \<and> (\<exists>i. Counter b i < Counter a i)) \<and>
    (Compare a b = Lesser \<longleftrightarrow>
       (\<forall>i. Counter a i \<le> Counter b i) \<and> (\<exists>i. Counter a i < Counter b i)) \<and>
    (Concurrent a b \<longleftrightarrow>
       (\<exists>i. Counter a i < Counter b i) \<and> (\<exists>i. Counter b i < Counter a i)) \<and>
    (Compare a b = ConcurrentGreater \<longleftrightarrow> Concurrent a b \<and>
       (\<exists>i. Counter b i < Counter a i \<and> (\<forall>j < i. Counter a j = Counter b j)))"
proof -
  have "Compare a b = Equal \<longleftrightarrow> (\<forall>i. Counter a i = Counter b i)"
    using vv.cmp_Equal_iff [OF assms] by (simp add: fun_eq_iff)
  moreover have "Compare a b = Lesser \<longleftrightarrow>
      (\<forall>i. Counter a i \<le> Counter b i) \<and> (\<exists>i. Counter a i < Counter b i)"
    using vv.cmp_Greater_iff [OF assms(2,1)] vv.cmp_flip [of b a] by simp
  moreover have "Concurrent a b \<longleftrightarrow>
      (\<exists>i. Counter a i < Counter b i) \<and> (\<exists>i. Counter b i < Counter a i)"
    using Compare_wf [OF assms] by (auto simp: Concurrent_def not_le)
  ultimately show ?thesis
    using vv.cmp_Greater_iff [OF assms] Compare_wf [OF assms]
    by (simp add: Concurrent_def not_le)
qed

theorem compare_decides_pointwise_order_witness:
  "wf_vector vec_a \<and> wf_vector vec_b \<and> Compare vec_a vec_b = ConcurrentLesser \<and>
   Concurrent vec_a vec_b \<and>
   (\<exists>i. Counter vec_a i < Counter vec_b i) \<and> (\<exists>i. Counter vec_b i < Counter vec_a i)"
proof -
  have "Compare vec_a vec_b = ConcurrentLesser"
    by (simp add: Compare_def vec_a_def vec_b_def compare_loop_both compare_loop_left compare_loop_right)
  then show ?thesis
    using compare_decides_pointwise_order [of vec_a vec_b] by (auto simp: Concurrent_def)
qed

text \<open>Exchanging the two vectors mirrors the result of \<open>Compare\<close>, for all vectors
  (sorted or not): two devices that compare the same pair of versions in opposite order
  reach the same verdict.\<close>

theorem compare_antisymmetric: "Compare b a = flip_ordering (Compare a b)"
  by (rule vv.cmp_flip)

text \<open>C14: \<open>Merge\<close> keeps vectors sorted and is the least upper bound: its counters are the
  pointwise maxima, it is greater than or equal to both operands, and every vector that is
  greater than or equal to both is greater than or equal to it.\<close>

theorem merge_is_least_upper_bound:
  assumes "wf_vector a" and "wf_vector b"
  shows "wf_vector (Merge a b) \<and>
    (\<forall>i. Counter (Merge a b) i = max (Counter a i) (Counter b i)) \<and>
    GreaterEqual (Merge a b) a \<and> GreaterEqual (Merge a b) b \<and>
    (\<forall>w. wf_vector w \<and> GreaterEqual w a \<and> GreaterEqual w b \<longrightarrow> GreaterEqual w (Merge a b))"
  using assms by (auto simp: GreaterEqual_iff wf_Merge vv.view_merge)

theorem merge_is_least_upper_bound_witness:
  "wf_vector (Merge vec_a vec_b) \<and> Counter (Merge vec_a vec_b) 2 = 7 \<and>
   Counter (Merge vec_a vec_b) 5 = 2 \<and> GreaterEqual (Merge vec_a vec_b) vec_b"
proof -
  have "Counter (Merge vec_a vec_b) 2 = 7" "Counter (Merge vec_a vec_b) 5 = 2"
    by (simp_all add: Counter_def Merge_def vec_a_def vec_b_def)
  then show ?thesis
    using merge_is_least_upper_bound [OF wf_examples] by simp
qed

text \<open>\<open>Update\<close> (with the clock as an argument) keeps the vector sorted, leaves the other
  counters alone, sets the own counter to at least the clock, and yields a strictly greater
  version, unless the own counter already holds the largest 64-bit value.\<close>

theorem update_strictly_greater:
  assumes "wf_vector v" and "Counter v i < - 1"
  shows "wf_vector (updateWithNow v i now) \<and> Compare (updateWithNow v i now) v = Greater \<and>
    now \<le> Counter (updateWithNow v i now) i \<and>
    (\<forall>j. j \<noteq> i \<longrightarrow> Counter (updateWithNow v i now) j = Counter v j)"
proof -
  let ?u = "updateWithNow v i now"
  have other: "Counter ?u j = Counter v j" if "j \<noteq> i" for j
    using that by (simp add: Counter_def updateWithNow_def counter_of_update_other)
  have succ: "Counter v i < Counter v i + 1"
    using assms(2) by unat_arith
  have self: "Counter ?u i = max (Counter v i + 1) now"
    using assms(1) counter_of_notin [of i "Counters v"]
    by (auto simp: Counter_def updateWithNow_def wf_vector_def counter_of_update_self)
  have up: "Counter v i < Counter ?u i"
    using succ by (simp add: self less_max_iff_disj)
  have "\<forall>j. Counter v j \<le> Counter ?u j"
    using other up by (metis order.refl less_imp_le)
  with up have "Compare ?u v = Greater"
    using vv.cmp_Greater_iff [OF wf_updateWithNow [OF assms(1)] assms(1)] by blast
  then show ?thesis
    using wf_updateWithNow [OF assms(1)] other by (simp add: self)
qed

theorem update_strictly_greater_witness:
  "Compare (updateWithNow vec_a 5 100) vec_a = Greater \<and> Counter (updateWithNow vec_a 5 100) 5 = 100"
proof -
  have "Counter vec_a 5 < - 1" by (simp add: Counter_def vec_a_def)
  moreover have "Counter (updateWithNow vec_a 5 100) 5 = 100"
    by (simp add: Counter_def updateWithNow_def vec_a_def max_def)
  ultimately show ?thesis
    using update_strictly_greater [of vec_a 5 100] by simp
qed

end
