(* ===== verification/Go_Strings.thy ===== *)
theory Go_Strings
  imports Go_Prelude
begin

text \<open>
  The parts of Go's standard library that the program's text and byte formats use:
  positional number systems (the base of \<open>encoding/binary\<close>, \<open>encoding/hex\<close>,
  \<open>strconv\<close> and \<open>encoding/base32\<close>), the functions of package \<open>strings\<close>, and
  unsigned varints.  A string is a list of bytes, written as \<^typ>\<open>char list\<close>.
  Each encoder comes with the fact that its decoder inverts it.
\<close>

section \<open>Positional number systems\<close>

text \<open>\<open>n\<close> digits of \<open>v\<close> in base \<open>b\<close>, most significant first, and back.\<close>

fun to_digits :: "nat \<Rightarrow> nat \<Rightarrow> nat \<Rightarrow> nat list" where
  "to_digits b 0 v = []"
| "to_digits b (Suc n) v = to_digits b n (v div b) @ [v mod b]"

definition from_digits :: "nat \<Rightarrow> nat list \<Rightarrow> nat" where
  "from_digits b ds = foldl (\<lambda>v d. v * b + d) 0 ds"

lemma from_digits_Nil [simp]: "from_digits b [] = 0"
  by (simp add: from_digits_def)

lemma from_digits_snoc [simp]: "from_digits b (ds @ [d]) = from_digits b ds * b + d"
  by (simp add: from_digits_def)

lemma length_to_digits [simp]: "length (to_digits b n v) = n"
  by (induction n arbitrary: v) auto

lemma to_digits_less: "0 < b \<Longrightarrow> d \<in> set (to_digits b n v) \<Longrightarrow> d < b"
  by (induction n arbitrary: v) auto

lemma from_to_digits: "from_digits b (to_digits b n v) = v mod b ^ n"
proof (induction n arbitrary: v)
  case (Suc n)
  have "v mod (b * b ^ n) = b * (v div b mod b ^ n) + v mod b"
    by (rule mod_mult2_eq)
  then show ?case by (simp add: Suc mult.commute)
qed simp

lemma from_to_digits_id: "v < b ^ n \<Longrightarrow> from_digits b (to_digits b n v) = v"
  by (simp add: from_to_digits)

lemma to_from_digits:
  assumes "\<forall>d \<in> set ds. d < b"
  shows "to_digits b (length ds) (from_digits b ds) = ds"
  using assms
proof (induction ds rule: rev_induct)
  case (snoc d ds)
  then have "d < b" and IH: "to_digits b (length ds) (from_digits b ds) = ds" by simp_all
  then have "(from_digits b ds * b + d) div b = from_digits b ds"
    and "(from_digits b ds * b + d) mod b = d" by simp_all
  then show ?case using IH by simp
qed simp

lemma from_digits_bound: "\<forall>d \<in> set ds. d < b \<Longrightarrow> from_digits b ds < b ^ length ds"
proof (induction ds rule: rev_induct)
  case (snoc d ds)
  then have d: "d < b" and "from_digits b ds < b ^ length ds" by simp_all
  then have "from_digits b ds * b + b \<le> b ^ length ds * b"
    by (metis Suc_leI add.commute mult_Suc mult_le_mono1)
  with d show ?case by (simp add: mult.commute)
qed simp

lemma from_digits_append:
  "from_digits b (xs @ ys) = from_digits b xs * b ^ length ys + from_digits b ys"
  by (induction ys rule: rev_induct) (auto simp: algebra_simps simp flip: append_assoc)

lemma to_digits_add:
  "0 < b \<Longrightarrow> to_digits b (m + n) v = to_digits b m (v div b ^ n) @ to_digits b n v"
  by (induction n arbitrary: v) (auto simp: div_mult2_eq)

lemma take_to_digits: "0 < b \<Longrightarrow> m \<le> n \<Longrightarrow> take m (to_digits b n v) = to_digits b m (v div b ^ (n - m))"
  using to_digits_add [of b m "n - m" v] by simp

section \<open>Big-endian integers (encoding/binary)\<close>

definition bytes_of_nats :: "nat list \<Rightarrow> bytes" where
  "bytes_of_nats = map of_nat"

definition nats_of_bytes :: "bytes \<Rightarrow> nat list" where
  "nats_of_bytes = map unat"

lemma nats_of_bytes_of_nats: "\<forall>d \<in> set ds. d < 256 \<Longrightarrow> nats_of_bytes (bytes_of_nats ds) = ds"
  by (induction ds) (auto simp: nats_of_bytes_def bytes_of_nats_def unat_of_nat)

lemma bytes_of_nats_of_bytes [simp]: "bytes_of_nats (nats_of_bytes bs) = bs"
  by (simp add: nats_of_bytes_def bytes_of_nats_def comp_def)

lemma nats_of_bytes_less: "d \<in> set (nats_of_bytes bs) \<Longrightarrow> d < 256"
  by (auto simp: nats_of_bytes_def)

lemma length_nats_of_bytes [simp]: "length (nats_of_bytes bs) = length bs"
  and length_bytes_of_nats [simp]: "length (bytes_of_nats ds) = length ds"
  by (simp_all add: nats_of_bytes_def bytes_of_nats_def)

definition PutUint64 :: "uint64 \<Rightarrow> bytes" where
  "PutUint64 w = bytes_of_nats (to_digits 256 8 (unat w))"

definition PutUint32 :: "uint32 \<Rightarrow> bytes" where
  "PutUint32 w = bytes_of_nats (to_digits 256 4 (unat w))"

definition Uint64 :: "bytes \<Rightarrow> uint64" where
  "Uint64 bs = of_nat (from_digits 256 (nats_of_bytes (take 8 bs)))"

definition Uint32 :: "bytes \<Rightarrow> uint32" where
  "Uint32 bs = of_nat (from_digits 256 (nats_of_bytes (take 4 bs)))"

lemma length_PutUint64 [simp]: "length (PutUint64 w) = 8"
  by (simp add: PutUint64_def)

lemma length_PutUint32 [simp]: "length (PutUint32 w) = 4"
  by (simp add: PutUint32_def)

lemma nats_of_be: "nats_of_bytes (bytes_of_nats (to_digits 256 n v)) = to_digits 256 n v"
  by (rule nats_of_bytes_of_nats) (auto intro: to_digits_less)

lemma Uint64_Put [simp]: "Uint64 (PutUint64 w @ rest) = w"
proof -
  have "unat w < 256 ^ 8" using unat_bound [of w] by simp
  then show ?thesis by (simp add: Uint64_def PutUint64_def nats_of_be from_to_digits_id)
qed

lemma Uint32_Put [simp]: "Uint32 (PutUint32 w @ rest) = w"
proof -
  have "unat w < 256 ^ 4" using unat_bound [of w] by simp
  then show ?thesis by (simp add: Uint32_def PutUint32_def nats_of_be from_to_digits_id)
qed

lemma Put_Uint64: "length bs = 8 \<Longrightarrow> PutUint64 (Uint64 bs) = bs"
proof -
  assume len: "length bs = 8"
  have "from_digits 256 (nats_of_bytes bs) < 256 ^ length (nats_of_bytes bs)"
    by (rule from_digits_bound) (use nats_of_bytes_less in blast)
  then have "unat (Uint64 bs) = from_digits 256 (nats_of_bytes bs)"
    using len by (simp add: Uint64_def unat_of_nat)
  moreover have "to_digits 256 8 (from_digits 256 (nats_of_bytes bs)) = nats_of_bytes bs"
    using to_from_digits [of "nats_of_bytes bs" 256] nats_of_bytes_less len by auto
  ultimately show ?thesis by (simp add: PutUint64_def)
qed

section \<open>Unsigned varints (encoding/binary)\<close>

fun uvarint_digits :: "nat \<Rightarrow> nat list" where
  "uvarint_digits n = (if n < 128 then [n] else (n mod 128 + 128) # uvarint_digits (n div 128))"

declare uvarint_digits.simps [simp del]

definition AppendUvarint :: "bytes \<Rightarrow> uint64 \<Rightarrow> bytes" where
  "AppendUvarint buf x = buf @ bytes_of_nats (uvarint_digits (unat x))"

text \<open>
  \<open>ReadUvarint\<close>: at most ten bytes, the tenth at most 1; \<open>None\<close> stands for the
  errors (end of input, overflow), which no caller tells apart.
\<close>

fun read_uvarint :: "nat \<Rightarrow> nat \<Rightarrow> nat \<Rightarrow> bytes \<Rightarrow> (nat \<times> bytes) option" where
  "read_uvarint i x s [] = None"
| "read_uvarint i x s (b # bs) =
     (if 10 \<le> i then None
      else if unat b < 128
      then (if i = 9 \<and> 1 < unat b then None else Some (x + unat b * 2 ^ s, bs))
      else read_uvarint (Suc i) (x + (unat b mod 128) * 2 ^ s) (s + 7) bs)"

definition ReadUvarint :: "bytes \<Rightarrow> (uint64 \<times> bytes) option" where
  "ReadUvarint bs = map_option (\<lambda>(x, rest). (of_nat x, rest)) (read_uvarint 0 0 0 bs)"

lemma read_uvarint_digits:
  assumes "n < 2 ^ (64 - 7 * i)" and "i < 10" and "s = 7 * i"
  shows "read_uvarint i x s (bytes_of_nats (uvarint_digits n) @ rest) = Some (x + n * 2 ^ s, rest)"
  using assms
proof (induction n arbitrary: i x s rule: uvarint_digits.induct)
  case (1 n)
  show ?case
  proof (cases "n < 128")
    case True
    have "\<not> (i = 9 \<and> 1 < n)" using "1.prems" by auto
    with True "1.prems" show ?thesis
      by (simp add: uvarint_digits.simps [of n] bytes_of_nats_def unat_of_nat)
  next
    case False
    have i: "Suc i < 10"
    proof (rule ccontr)
      assume "\<not> Suc i < 10"
      with "1.prems" have "i = 9" by simp
      with "1.prems" False show False by simp
    qed
    have split: "(64 - 7 * i) = (64 - 7 * Suc i) + 7" using i by simp
    have "n div 128 < 2 ^ (64 - 7 * Suc i)"
      using "1.prems"(1) unfolding split by (simp add: power_add less_mult_imp_div_less)
    from "1.IH" [OF False this i, of "s + 7" "x + n mod 128 * 2 ^ s"] "1.prems"(3)
    have IH: "read_uvarint (Suc i) (x + n mod 128 * 2 ^ s) (s + 7)
        (bytes_of_nats (uvarint_digits (n div 128)) @ rest) =
        Some (x + n mod 128 * 2 ^ s + n div 128 * 2 ^ (s + 7), rest)" by simp
    have byte: "unat (of_nat (n mod 128 + 128) :: 8 word) = n mod 128 + 128"
    proof -
      have "n mod 128 + 128 < 256" using mod_less_divisor [of 128 n] by linarith
      then show ?thesis by (rule unat_byte_id)
    qed
    have "n mod 128 * 2 ^ s + n div 128 * 2 ^ (s + 7) = (n div 128 * 128 + n mod 128) * 2 ^ s"
      by (simp only: power_add distrib_right mult.assoc) (simp add: mult.commute mult.left_commute)
    then have sum: "x + n mod 128 * 2 ^ s + n div 128 * 2 ^ (s + 7) = x + n * 2 ^ s"
      by (simp add: add.assoc)
    have "uvarint_digits n = (n mod 128 + 128) # uvarint_digits (n div 128)"
      using False by (simp add: uvarint_digits.simps [of n])
    then have "read_uvarint i x s (bytes_of_nats (uvarint_digits n) @ rest) =
        read_uvarint (Suc i) (x + n mod 128 * 2 ^ s) (s + 7)
          (bytes_of_nats (uvarint_digits (n div 128)) @ rest)"
      using i byte by (simp add: bytes_of_nats_def)
    with IH sum show ?thesis by simp
  qed
qed

lemma ReadUvarint_Append: "ReadUvarint (AppendUvarint [] x @ rest) = Some (x, rest)"
  using read_uvarint_digits [of "unat x" 0 0 0 rest] unat_bound [of x]
  by (simp add: ReadUvarint_def AppendUvarint_def)

lemma AppendUvarint_append: "AppendUvarint buf x = buf @ AppendUvarint [] x"
  by (simp add: AppendUvarint_def)

lemma AppendUvarint_nonempty: "1 \<le> length (AppendUvarint [] x)"
  by (subst AppendUvarint_def) (simp add: uvarint_digits.simps [of "unat x"])

section \<open>Package strings\<close>

definition HasPrefix :: "string \<Rightarrow> string \<Rightarrow> bool" where
  "HasPrefix s p \<longleftrightarrow> take (length p) s = p"

text \<open>\<open>Split\<close> at a one-byte separator: always at least one field.\<close>

fun Split :: "string \<Rightarrow> char \<Rightarrow> string list" where
  "Split [] sep = [[]]"
| "Split (c # s) sep =
     (if c = sep then [] # Split s sep
      else (case Split s sep of [] \<Rightarrow> [[c]] | f # fs \<Rightarrow> (c # f) # fs))"

text \<open>\<open>Cut\<close> around the first occurrence of a one-byte separator.\<close>

fun Cut :: "string \<Rightarrow> char \<Rightarrow> (string \<times> string) option" where
  "Cut [] sep = None"
| "Cut (c # s) sep =
     (if c = sep then Some ([], s)
      else map_option (\<lambda>(before, after). (c # before, after)) (Cut s sep))"

fun Join :: "string list \<Rightarrow> string \<Rightarrow> string" where
  "Join [] sep = []"
| "Join [f] sep = f"
| "Join (f # fs) sep = f @ sep @ Join fs sep"

definition TrimLeft :: "string \<Rightarrow> char \<Rightarrow> string" where
  "TrimLeft s c = dropWhile (\<lambda>x. x = c) s"

definition Trim :: "string \<Rightarrow> char \<Rightarrow> string" where
  "Trim s c = rev (dropWhile (\<lambda>x. x = c) (rev (TrimLeft s c)))"

definition ReplaceAll1 :: "string \<Rightarrow> char \<Rightarrow> char \<Rightarrow> string" where
  "ReplaceAll1 s c d = map (\<lambda>x. if x = c then d else x) s"

definition RemoveAll1 :: "string \<Rightarrow> char \<Rightarrow> string" where
  "RemoveAll1 s c = filter (\<lambda>x. x \<noteq> c) s"

text \<open>\<open>ToUpper\<close> on ASCII text.\<close>

definition upper_char :: "char \<Rightarrow> char" where
  "upper_char c = (let n = of_char c :: nat in if 97 \<le> n \<and> n \<le> 122 then char_of (n - 32) else c)"

definition ToUpper :: "string \<Rightarrow> string" where
  "ToUpper s = map upper_char s"

lemma Split_not_Nil [simp]: "Split s sep \<noteq> []"
  by (cases s) (auto split: list.splits)

lemma Split_no_sep: "sep \<notin> set s \<Longrightarrow> Split s sep = [s]"
  by (induction s) auto

lemma Split_append_sep: "sep \<notin> set f \<Longrightarrow> Split (f @ sep # s) sep = f # Split s sep"
  by (induction f) auto

lemma Split_Join:
  "fs \<noteq> [] \<Longrightarrow> \<forall>f \<in> set fs. sep \<notin> set f \<Longrightarrow> Split (Join fs [sep]) sep = fs"
  by (induction fs "[sep]" rule: Join.induct) (auto simp: Split_no_sep Split_append_sep)

lemma Join_Split: "Join (Split s sep) [sep] = s"
proof (induction s)
  case (Cons c s)
  obtain f fs where f: "Split s sep = f # fs" by (cases "Split s sep") auto
  with Cons show ?case by (cases fs) auto
qed simp

lemma Split_fields_no_sep: "f \<in> set (Split s sep) \<Longrightarrow> sep \<notin> set f"
  by (induction s arbitrary: f) (auto split: list.splits if_splits)

lemma Cut_append: "sep \<notin> set f \<Longrightarrow> Cut (f @ sep # s) sep = Some (f, s)"
  by (induction f) auto

lemma Trim_id: "s = [] \<or> hd s \<noteq> c \<and> last s \<noteq> c \<Longrightarrow> Trim s c = s"
proof -
  assume a: "s = [] \<or> hd s \<noteq> c \<and> last s \<noteq> c"
  then have "TrimLeft s c = s" by (cases s) (auto simp: TrimLeft_def)
  moreover have "dropWhile (\<lambda>x. x = c) (rev s) = rev s"
    using a by (cases s rule: rev_cases) auto
  ultimately show ?thesis by (simp add: Trim_def)
qed

section \<open>Decimal and hexadecimal text\<close>

definition digit_char :: "nat \<Rightarrow> char" where
  "digit_char d = (if d < 10 then char_of (48 + d) else char_of (87 + d))"

fun format_uint :: "nat \<Rightarrow> string" where
  "format_uint n = (if n < 10 then [digit_char n] else format_uint (n div 10) @ [digit_char (n mod 10)])"

declare format_uint.simps [simp del]

definition dec_value :: "char \<Rightarrow> nat option" where
  "dec_value c = (let n = of_char c :: nat in if 48 \<le> n \<and> n \<le> 57 then Some (n - 48) else None)"

text \<open>\<open>strconv.ParseUint(s, 10, 64)\<close>: no sign, at least one digit, at most \<open>2 ^ 64 - 1\<close>.\<close>

fun parse_digits :: "nat \<Rightarrow> string \<Rightarrow> nat option" where
  "parse_digits v [] = Some v"
| "parse_digits v (c # s) =
     (case dec_value c of None \<Rightarrow> None | Some d \<Rightarrow> parse_digits (v * 10 + d) s)"

definition ParseUint :: "string \<Rightarrow> uint64 option" where
  "ParseUint s =
     (if s = [] then None
      else case parse_digits 0 s of
          None \<Rightarrow> None
        | Some v \<Rightarrow> if v < 2 ^ 64 then Some (of_nat v) else None)"

lemma dec_value_digit [simp]: "d < 10 \<Longrightarrow> dec_value (digit_char d) = Some d"
  by (simp add: dec_value_def digit_char_def)

lemma parse_digits_append:
  "parse_digits v (s @ t) = Option.bind (parse_digits v s) (\<lambda>w. parse_digits w t)"
  by (induction s arbitrary: v) (auto split: option.splits)

lemma parse_format: "parse_digits 0 (format_uint n) = Some n"
proof (induction n rule: format_uint.induct)
  case (1 n)
  then show ?case
    by (cases "n < 10") (simp_all add: format_uint.simps [of n] parse_digits_append)
qed

lemma format_uint_not_Nil [simp]: "format_uint n \<noteq> []"
  by (simp add: format_uint.simps [of n])

lemma ParseUint_format: "ParseUint (format_uint (unat x)) = Some x"
  using unat_bound [of x] by (simp add: ParseUint_def parse_format)

definition hex_value :: "char \<Rightarrow> nat option" where
  "hex_value c =
     (let n = of_char c :: nat in
      if 48 \<le> n \<and> n \<le> 57 then Some (n - 48)
      else if 97 \<le> n \<and> n \<le> 102 then Some (n - 87)
      else if 65 \<le> n \<and> n \<le> 70 then Some (n - 55)
      else None)"

fun hex_encode :: "bytes \<Rightarrow> string" where
  "hex_encode [] = []"
| "hex_encode (b # bs) = digit_char (unat b div 16) # digit_char (unat b mod 16) # hex_encode bs"

text \<open>\<open>hex.DecodeString\<close>: an odd length or a byte that is no hexadecimal digit is an error.\<close>

fun hex_decode :: "string \<Rightarrow> bytes option" where
  "hex_decode [] = Some []"
| "hex_decode [c] = None"
| "hex_decode (c # d # s) =
     (case (hex_value c, hex_value d) of
        (Some h, Some l) \<Rightarrow> map_option (\<lambda>bs. of_nat (h * 16 + l) # bs) (hex_decode s)
      | _ \<Rightarrow> None)"

lemma hex_value_digit [simp]: "d < 16 \<Longrightarrow> hex_value (digit_char d) = Some d"
  by (simp add: hex_value_def digit_char_def)

lemma hex_decode_encode: "hex_decode (hex_encode bs) = Some bs"
  by (induction bs) (auto simp: less_mult_imp_div_less simp del: of_nat_add of_nat_mult)

lemma length_hex_encode [simp]: "length (hex_encode bs) = 2 * length bs"
  by (induction bs) auto

end
