(* ===== verification/Device_ID.thy ===== *)
theory Device_ID
  imports Go_Strings
begin

text \<open>
  Device identifiers, \<^verbatim>\<open>lib/protocol/deviceid.go\<close> and \<^verbatim>\<open>lib/protocol/luhn.go\<close>.

  A device ID is 32 bytes (the SHA-256 of a certificate).  Its text form is base32
  with a check character after every 13 characters, in groups of seven joined by
  dashes.  The theory models the text form in both directions, with the decoder of
  \<open>encoding/base32\<close>, and shows that reading inverts writing and that the check
  characters catch every single wrong character.
\<close>

section \<open>Check characters (luhn.go)\<close>

datatype id_error = BadDigit | CheckDigit | BadLength | CorruptInput | ShortBuffer

definition luhnBase32 :: string where
  "luhnBase32 = ''ABCDEFGHIJKLMNOPQRSTUVWXYZ234567''"

definition codepoint32 :: "char \<Rightarrow> int" where
  "codepoint32 c =
     (let b = of_char c :: int in
      if 65 \<le> b \<and> b \<le> 90 then b - 65
      else if 50 \<le> b \<and> b \<le> 55 then b + 26 - 50
      else - 1)"

text \<open>The loop of \<open>luhn32\<close>: \<open>factor\<close> alternates between 1 and 2.\<close>

fun luhn_sum :: "int \<Rightarrow> int \<Rightarrow> string \<Rightarrow> int option" where
  "luhn_sum factor acc [] = Some acc"
| "luhn_sum factor acc (c # s) =
     (if codepoint32 c = - 1 then None
      else
        let addend = factor * codepoint32 c
        in luhn_sum (if factor = 2 then 1 else 2) (acc + (addend div 32 + addend mod 32)) s)"

definition luhn32 :: "string \<Rightarrow> (id_error, char) outcome" where
  "luhn32 s =
     (case luhn_sum 1 0 s of
        None \<Rightarrow> Err BadDigit
      | Some acc \<Rightarrow> Ok (luhnBase32 ! nat ((32 - acc mod 32) mod 32)))"

section \<open>Base32 (encoding/base32, standard alphabet)\<close>

text \<open>
  Encoding one quantum of one to five bytes: the bytes are the leading digits of a
  40-bit number; its eight 5-bit digits are cut to those that carry input.
\<close>

definition base32_digits :: "nat \<Rightarrow> nat" where
  "base32_digits k = (k * 8 + 4) div 5"

definition encode_quantum :: "bytes \<Rightarrow> string" where
  "encode_quantum bs =
     (let v = from_digits 256 (nats_of_bytes bs @ replicate (5 - length bs) 0);
          n = base32_digits (length bs)
      in map (\<lambda>d. luhnBase32 ! d) (take n (to_digits 32 8 v)) @ replicate (8 - n) (CHR ''=''))"

fun base32_encode :: "bytes \<Rightarrow> string" where
  "base32_encode bs =
     (if bs = [] then [] else encode_quantum (take 5 bs) @ base32_encode (drop 5 bs))"

declare base32_encode.simps [simp del]

text \<open>
  Decoding one quantum.  \<open>decode_chars\<close> reads up to eight characters; padding is
  accepted from the third character on when fewer than eight characters follow,
  there must be enough of it, and the number of data characters before it must not
  be 1, 3 or 6.  The result is the digits, whether the end was reached, and the
  rest of the input.
\<close>

fun decode_chars :: "nat \<Rightarrow> nat list \<Rightarrow> string \<Rightarrow> (nat list \<times> bool \<times> string) option" where
  "decode_chars j ds src =
     (if 8 \<le> j then Some (ds, False, src)
      else case src of
          [] \<Rightarrow> None
        | c # rest \<Rightarrow>
            if c = CHR ''='' \<and> 2 \<le> j \<and> length rest < 8
            then (if length rest + j < 7 then None
                  else if \<not> list_all (\<lambda>x. x = CHR ''='') (take (7 - j) rest) then None
                  else if j = 1 \<or> j = 3 \<or> j = 6 then None
                  else Some (ds, True, rest))
            else if codepoint32 c = - 1 then None
            else decode_chars (Suc j) (ds @ [nat (codepoint32 c)]) rest)"

declare decode_chars.simps [simp del]

text \<open>Eight digits make five bytes; \<open>n\<close> digits make \<open>n * 5 div 8\<close>.\<close>

definition quantum_bytes :: "nat list \<Rightarrow> bytes" where
  "quantum_bytes ds =
     take (length ds * 5 div 8)
       (bytes_of_nats (to_digits 256 5 (from_digits 32 (ds @ replicate (8 - length ds) 0))))"

lemma decode_chars_le:
  "decode_chars j ds src = Some (ds', e, rest) \<Longrightarrow> length rest \<le> length src"
proof (induction j ds src rule: decode_chars.induct)
  case (1 j ds src)
  note IH = 1(1) and eq = 1(2) [unfolded decode_chars.simps [of j ds src]]
  show ?case
  proof (cases "8 \<le> j")
    case False
    with eq obtain c t where src: "src = c # t" by (cases src) auto
    show ?thesis
    proof (cases "c = CHR ''='' \<and> 2 \<le> j \<and> length t < 8")
      case True
      with eq src False show ?thesis by (auto split: if_splits)
    next
      case no_pad: False
      with eq src False have "codepoint32 c \<noteq> - 1"
        and "decode_chars (Suc j) (ds @ [nat (codepoint32 c)]) t = Some (ds', e, rest)"
        by (auto split: if_splits)
      from IH [OF False src no_pad this] src show ?thesis by simp
    qed
  qed (use eq in simp)
qed

lemma decode_chars_shorter:
  "decode_chars 0 [] src = Some (ds', e, rest) \<Longrightarrow> length rest < length src"
  by (subst (asm) decode_chars.simps)
    (auto split: list.splits if_splits dest!: decode_chars_le)

function base32_decode :: "string \<Rightarrow> bytes option" where
  "base32_decode src =
     (if src = [] then Some []
      else case decode_chars 0 [] src of
          None \<Rightarrow> None
        | Some (ds, end_seen, rest) \<Rightarrow>
            if end_seen then Some (quantum_bytes ds)
            else map_option (\<lambda>bs. quantum_bytes ds @ bs) (base32_decode rest))"
  by pat_completeness auto
termination
  by (relation "measure length") (auto dest: decode_chars_shorter)

declare base32_decode.simps [simp del]

text \<open>\<open>DecodeString\<close> drops carriage returns and newlines first.\<close>

definition DecodeString :: "string \<Rightarrow> (id_error, bytes) outcome" where
  "DecodeString s =
     (case base32_decode (filter (\<lambda>c. c \<noteq> CHR 0x0D \<and> c \<noteq> CHR 0x0A) s) of
        None \<Rightarrow> Err CorruptInput
      | Some bs \<Rightarrow> Ok bs)"

section \<open>The text form (deviceid.go)\<close>

type_synonym device_id = bytes

definition DeviceIDLength :: nat where
  "DeviceIDLength = 32"

definition ShortIDStringLength :: nat where
  "ShortIDStringLength = 7"

definition repeatedDeviceID :: "byte \<Rightarrow> device_id" where
  "repeatedDeviceID v = replicate DeviceIDLength v"

definition LocalDeviceID :: device_id where
  "LocalDeviceID = repeatedDeviceID 0xff"

definition GlobalDeviceID :: device_id where
  "GlobalDeviceID = repeatedDeviceID 0xf8"

definition EmptyDeviceID :: device_id where
  "EmptyDeviceID = replicate DeviceIDLength 0"

definition wf_device :: "device_id \<Rightarrow> bool" where
  "wf_device n \<longleftrightarrow> length n = DeviceIDLength"

text \<open>
  \<open>luhnify\<close> and \<open>unluhnify\<close> process groups of 13 (14) characters; the \<open>i\<close>-th
  group of the output is the group and its check character.
\<close>

fun luhnify_groups :: "nat list \<Rightarrow> string \<Rightarrow> (id_error, string) outcome" where
  "luhnify_groups [] s = Ok []"
| "luhnify_groups (i # is) s =
     (let p = take 13 (drop (i * 13) s)
      in obind (luhn32 p) (\<lambda>l. obind (luhnify_groups is s) (\<lambda>r. Ok (p @ l # r))))"

definition luhnify :: "string \<Rightarrow> (id_error, string) outcome" where
  "luhnify s = (if length s \<noteq> 52 then Panic else luhnify_groups [0..<4] s)"

fun unluhnify_groups :: "nat list \<Rightarrow> string \<Rightarrow> (id_error, string) outcome" where
  "unluhnify_groups [] s = Ok []"
| "unluhnify_groups (i # is) s =
     (let p = take 13 (drop (i * 14) s)
      in obind (luhn32 p) (\<lambda>l.
           if s ! (i * 14 + 13) \<noteq> l then Err CheckDigit
           else obind (unluhnify_groups is s) (\<lambda>r. Ok (p @ r))))"

definition unluhnify :: "string \<Rightarrow> (id_error, string) outcome" where
  "unluhnify s = (if length s \<noteq> 56 then Err BadLength else unluhnify_groups [0..<4] s)"

text \<open>\<open>chunkify\<close> on fewer than seven characters would make a slice of negative length.\<close>

definition chunkify :: "string \<Rightarrow> (id_error, string) outcome" where
  "chunkify s =
     (let chunks = length s div 7
      in if chunks = 0 then Panic
         else Ok (Join (map (\<lambda>i. take 7 (drop (i * 7) s)) [0..<chunks]) ''-''))"

definition unchunkify :: "string \<Rightarrow> string" where
  "unchunkify s = RemoveAll1 (RemoveAll1 s (CHR ''-'')) (CHR '' '')"

definition untypeoify :: "string \<Rightarrow> string" where
  "untypeoify s =
     ReplaceAll1 (ReplaceAll1 (ReplaceAll1 s (CHR ''0'') (CHR ''O'')) (CHR ''1'') (CHR ''I''))
       (CHR ''8'') (CHR ''B'')"

definition DeviceID_String :: "device_id \<Rightarrow> (id_error, string) outcome" where
  "DeviceID_String n =
     (if n = EmptyDeviceID then Ok []
      else case luhnify (Trim (base32_encode n) (CHR ''='')) of
          Err e \<Rightarrow> Panic
        | Panic \<Rightarrow> Panic
        | Ok s \<Rightarrow> chunkify s)"

text \<open>\<open>copy(n[:], dec)\<close>: the decoded bytes replace a prefix of the receiver.\<close>

definition copy_into :: "bytes \<Rightarrow> bytes \<Rightarrow> bytes" where
  "copy_into dst src = take (length dst) src @ drop (length src) dst"

definition decode_id :: "device_id \<Rightarrow> string \<Rightarrow> (id_error, device_id) outcome" where
  "decode_id n s = obind (DecodeString (s @ ''====''))  (\<lambda>dec. Ok (copy_into n dec))"

definition UnmarshalText :: "device_id \<Rightarrow> string \<Rightarrow> (id_error, device_id) outcome" where
  "UnmarshalText n bs =
     (let s = unchunkify (untypeoify (ToUpper (Trim bs (CHR ''=''))))
      in if length s = 0 then Ok EmptyDeviceID
         else if length s = 56 then obind (unluhnify s) (\<lambda>s'. decode_id n s')
         else if length s = 52 then decode_id n s
         else Err BadLength)"

definition DeviceIDFromString :: "string \<Rightarrow> (id_error, device_id) outcome" where
  "DeviceIDFromString s = UnmarshalText EmptyDeviceID s"

definition DeviceIDFromBytes :: "bytes \<Rightarrow> (id_error, device_id) outcome" where
  "DeviceIDFromBytes bs =
     (if length bs \<noteq> DeviceIDLength then Err BadLength else Ok (copy_into EmptyDeviceID bs))"

text \<open>\<open>Compare\<close> is \<open>bytes.Compare\<close>: lexicographic, a proper prefix is smaller.\<close>

fun bytes_compare :: "bytes \<Rightarrow> bytes \<Rightarrow> int" where
  "bytes_compare [] [] = 0"
| "bytes_compare [] (b # bs) = - 1"
| "bytes_compare (a # as) [] = 1"
| "bytes_compare (a # as) (b # bs) =
     (if a < b then - 1 else if b < a then 1 else bytes_compare as bs)"

definition DeviceID_Compare :: "device_id \<Rightarrow> device_id \<Rightarrow> int" where
  "DeviceID_Compare n other = bytes_compare n other"

definition DeviceID_Equals :: "device_id \<Rightarrow> device_id \<Rightarrow> bool" where
  "DeviceID_Equals n other \<longleftrightarrow> n = other"

definition Short :: "device_id \<Rightarrow> uint64" where
  "Short n = Uint64 n"

definition ShortID_String :: "uint64 \<Rightarrow> string" where
  "ShortID_String s =
     (if s = 0 then [] else take ShortIDStringLength (base32_encode (PutUint64 s)))"

definition DeviceID_MarshalTo :: "device_id \<Rightarrow> bytes \<Rightarrow> (id_error, bytes \<times> nat) outcome" where
  "DeviceID_MarshalTo n bs =
     (if length bs < DeviceIDLength then Err ShortBuffer else Ok (copy_into bs n, DeviceIDLength))"

definition DeviceID_Unmarshal :: "device_id \<Rightarrow> bytes \<Rightarrow> (id_error, device_id) outcome" where
  "DeviceID_Unmarshal n bs =
     (if length bs < DeviceIDLength then Err ShortBuffer else Ok (copy_into n bs))"

section \<open>Base32 decoding inverts encoding\<close>

lemma luhnBase32_length [simp]: "length luhnBase32 = 32"
  by (simp add: luhnBase32_def)

lemma less_32_cases:
  assumes "d < (32::nat)" and "list_all P [0..<32]"
  shows "P d"
  using assms by (simp add: list_all_iff)

lemma codepoint32_digit [simp]: "d < 32 \<Longrightarrow> codepoint32 (luhnBase32 ! d) = int d"
  by (erule less_32_cases) code_simp

lemma luhnBase32_letters: "list_all (\<lambda>d. luhnBase32 ! d = char_of (65 + d)) [0..<26]"
  by code_simp

lemma luhnBase32_numbers: "list_all (\<lambda>d. luhnBase32 ! (26 + d) = char_of (50 + d)) [0..<6]"
  by code_simp

lemma luhnBase32_codepoint32:
  assumes "codepoint32 c \<noteq> - 1"
  shows "luhnBase32 ! nat (codepoint32 c) = c \<and> 0 \<le> codepoint32 c \<and> codepoint32 c < 32"
proof -
  define n :: nat where "n = of_char c"
  have c: "c = char_of n" and i: "of_char c = int n" by (simp_all add: n_def of_nat_of_char)
  from assms consider "65 \<le> n" "n \<le> 90" | "50 \<le> n" "n \<le> 55"
    by (fastforce simp: codepoint32_def Let_def i split: if_splits)
  then show ?thesis
  proof cases
    case 1
    moreover from 1 have "n - 65 \<in> set [0..<26]" by auto
    ultimately have "luhnBase32 ! (n - 65) = char_of (65 + (n - 65))"
      using luhnBase32_letters unfolding list_all_iff by blast
    moreover have "codepoint32 c = int (n - 65)" using 1 by (simp add: codepoint32_def i)
    ultimately show ?thesis using 1 c by (simp add: nat_diff_distrib)
  next
    case 2
    moreover from 2 have "n - 50 \<in> set [0..<6]" by auto
    ultimately have "luhnBase32 ! (26 + (n - 50)) = char_of (50 + (n - 50))"
      using luhnBase32_numbers unfolding list_all_iff by blast
    moreover have "codepoint32 c = int (26 + (n - 50))" using 2 by (simp add: codepoint32_def i)
    ultimately show ?thesis using 2 c by (simp add: nat_diff_distrib)
  qed
qed

definition alphabetic :: "string \<Rightarrow> bool" where
  "alphabetic s \<longleftrightarrow> list_all (\<lambda>c. codepoint32 c \<noteq> - 1) s"

lemma alphabetic_Nil [simp]: "alphabetic []"
  by (simp add: alphabetic_def)

lemma alphabetic_append [simp]: "alphabetic (s @ t) \<longleftrightarrow> alphabetic s \<and> alphabetic t"
  by (simp add: alphabetic_def)

lemma alphabetic_Cons [simp]: "alphabetic (c # t) \<longleftrightarrow> codepoint32 c \<noteq> - 1 \<and> alphabetic t"
  by (simp add: alphabetic_def)

lemma alphabetic_take: "alphabetic s \<Longrightarrow> alphabetic (take n s)"
  and alphabetic_drop: "alphabetic s \<Longrightarrow> alphabetic (drop n s)"
  by (auto simp: alphabetic_def list_all_iff dest: in_set_takeD in_set_dropD)

lemma alphabetic_digits: "\<forall>d \<in> set ds. d < 32 \<Longrightarrow> alphabetic (map (\<lambda>d. luhnBase32 ! d) ds)"
  by (auto simp: alphabetic_def list_all_iff)

lemma codepoint32_pad [simp]: "codepoint32 (CHR ''='') = - 1"
  by code_simp

lemma decode_chars_digits:
  assumes "\<forall>d \<in> set ds. d < 32" and "j + length ds \<le> 8"
  shows "decode_chars j acc (map (\<lambda>d. luhnBase32 ! d) ds @ rest) =
    decode_chars (j + length ds) (acc @ ds) rest"
  using assms
proof (induction ds arbitrary: j acc)
  case (Cons d ds)
  then have d: "codepoint32 (luhnBase32 ! d) = int d" by simp
  have pad: "luhnBase32 ! d \<noteq> CHR ''=''"
  proof
    assume "luhnBase32 ! d = CHR ''=''"
    with d show False by simp
  qed
  have "decode_chars j acc (map (\<lambda>d. luhnBase32 ! d) (d # ds) @ rest) =
      decode_chars (Suc j) (acc @ [d]) (map (\<lambda>d. luhnBase32 ! d) ds @ rest)"
    using Cons.prems d pad by (subst decode_chars.simps) simp
  also have "\<dots> = decode_chars (Suc j + length ds) ((acc @ [d]) @ ds) rest"
    using Cons.prems by (intro Cons.IH) auto
  finally show ?case by simp
qed simp

lemma decode_chars_full:
  assumes "\<forall>d \<in> set ds. d < 32" and "length ds = 8"
  shows "decode_chars 0 [] (map (\<lambda>d. luhnBase32 ! d) ds @ rest) = Some (ds, False, rest)"
  using decode_chars_digits [of ds 0 "[]" rest] assms by (simp add: decode_chars.simps [of 8])

lemma decode_chars_padded:
  assumes "\<forall>d \<in> set ds. d < 32" and "length ds \<in> {2, 4, 5, 7}"
  shows "decode_chars 0 [] (map (\<lambda>d. luhnBase32 ! d) ds @ replicate (8 - length ds) (CHR ''='')) =
    Some (ds, True, replicate (7 - length ds) (CHR ''=''))"
proof -
  have pads: "replicate (8 - length ds) (CHR ''='') =
      CHR ''='' # replicate (7 - length ds) (CHR ''='')"
    using assms(2) by (auto simp flip: replicate_Suc)
  have "decode_chars 0 [] (map (\<lambda>d. luhnBase32 ! d) ds @ replicate (8 - length ds) (CHR ''='')) =
      decode_chars (length ds) ds (CHR ''='' # replicate (7 - length ds) (CHR ''=''))"
    using decode_chars_digits [of ds 0 "[]"] assms by (auto simp: pads)
  also have "\<dots> = Some (ds, True, replicate (7 - length ds) (CHR ''=''))"
    using assms(2) by (subst decode_chars.simps) (auto simp: list_all_iff)
  finally show ?thesis .
qed

text \<open>The digits of a quantum of one to five bytes give the bytes back.\<close>

definition quantum_digits :: "bytes \<Rightarrow> nat list" where
  "quantum_digits bs = take (base32_digits (length bs))
     (to_digits 32 8 (from_digits 256 (nats_of_bytes bs @ replicate (5 - length bs) 0)))"

lemma encode_quantum_digits:
  "encode_quantum bs = map (\<lambda>d. luhnBase32 ! d) (quantum_digits bs) @
     replicate (8 - base32_digits (length bs)) (CHR ''='')"
  by (simp add: encode_quantum_def quantum_digits_def Let_def)

lemma quantum_digits_less: "d \<in> set (quantum_digits bs) \<Longrightarrow> d < 32"
  by (auto simp: quantum_digits_def dest!: in_set_takeD intro: to_digits_less)

lemma length_quantum_digits: "length bs \<le> 5 \<Longrightarrow> length (quantum_digits bs) = base32_digits (length bs)"
  by (auto simp: quantum_digits_def base32_digits_def)

lemma from_digits_zeros [simp]: "from_digits b (xs @ replicate n 0) = from_digits b xs * b ^ n"
proof -
  have "from_digits b (replicate n 0) = 0"
    by (induction n) (auto simp: from_digits_def)
  then show ?thesis by (simp add: from_digits_append)
qed

lemma quantum_bytes_digits:
  assumes "1 \<le> length bs" and "length bs \<le> 5"
  shows "quantum_bytes (quantum_digits bs) = bs"
proof -
  let ?k = "length bs" and ?n = "base32_digits (length bs)"
  let ?v = "from_digits 256 (nats_of_bytes bs @ replicate (5 - length bs) 0)"
  have k: "?k \<in> {1, 2, 3, 4, 5}" using assms by auto
  have v: "?v = from_digits 256 (nats_of_bytes bs) * 256 ^ (5 - ?k)" by simp
  have small: "from_digits 256 (nats_of_bytes bs) < 256 ^ ?k"
    using from_digits_bound [of "nats_of_bytes bs" 256] nats_of_bytes_less by auto
  then have less: "?v < 256 ^ 5"
  proof -
    have "?v < 256 ^ ?k * 256 ^ (5 - ?k)" unfolding v using small by simp
    then show ?thesis using assms(2) by (simp flip: power_add)
  qed
  have dvd: "32 ^ (8 - ?n) dvd ?v"
  proof -
    have "(32::nat) ^ (8 - ?n) dvd 256 ^ (5 - ?k)"
      using k by (elim insertE) (auto simp: base32_digits_def)
    then show ?thesis unfolding v by simp
  qed
  have n: "?n \<le> 8" using k by (auto simp: base32_digits_def)
  have "from_digits 32 (quantum_digits bs) = ?v div 32 ^ (8 - ?n) mod 32 ^ ?n"
    using n by (simp add: quantum_digits_def take_to_digits from_to_digits)
  also have "\<dots> = ?v div 32 ^ (8 - ?n)"
  proof -
    have "?v < 32 ^ ?n * 32 ^ (8 - ?n)"
      using less n by (simp flip: power_add)
    then show ?thesis by (simp add: less_mult_imp_div_less)
  qed
  finally have "from_digits 32 (quantum_digits bs) * 32 ^ (8 - ?n) = ?v"
    using dvd by simp
  moreover have "length (quantum_digits bs) = ?n" by (rule length_quantum_digits [OF assms(2)])
  ultimately have "quantum_bytes (quantum_digits bs) =
      take (?n * 5 div 8) (bytes_of_nats (to_digits 256 5 ?v))"
    by (simp add: quantum_bytes_def)
  also have "to_digits 256 5 ?v = nats_of_bytes bs @ replicate (5 - ?k) 0"
  proof -
    have "\<forall>d \<in> set (nats_of_bytes bs @ replicate (5 - ?k) 0). d < 256"
      using nats_of_bytes_less by auto
    from to_from_digits [OF this] assms(2) show ?thesis by simp
  qed
  also have "?n * 5 div 8 = ?k" using k by (auto simp: base32_digits_def)
  finally show ?thesis by (simp add: bytes_of_nats_def nats_of_bytes_def comp_def)
qed

theorem base32_decode_encode: "base32_decode (base32_encode bs) = Some bs"
proof (induction bs rule: base32_encode.induct)
  case (1 bs)
  show ?case
  proof (cases "bs = []")
    case True
    then show ?thesis by (simp add: base32_encode.simps base32_decode.simps)
  next
    case False
    define q where "q = quantum_digits (take 5 bs)"
    have len: "1 \<le> length (take 5 bs)" "length (take 5 bs) \<le> 5"
      using False by (cases bs; simp)+
    have lenq: "length q = base32_digits (length (take 5 bs))"
      unfolding q_def by (rule length_quantum_digits [OF len(2)])
    have less: "\<forall>d \<in> set q. d < 32" by (auto simp: q_def quantum_digits_less)
    have bytes: "quantum_bytes q = take 5 bs" unfolding q_def by (rule quantum_bytes_digits [OF len])
    have enc: "base32_encode bs =
        map (\<lambda>d. luhnBase32 ! d) q @ replicate (8 - length q) (CHR ''='') @ base32_encode (drop 5 bs)"
      using False by (subst base32_encode.simps) (simp only: encode_quantum_digits q_def [symmetric] lenq if_False append_assoc)
    have ne: "base32_encode bs \<noteq> []"
    proof -
      have "q \<noteq> []" using lenq len by (cases q) (auto simp: base32_digits_def)
      then show ?thesis by (simp add: enc)
    qed
    show ?thesis
    proof (cases "5 \<le> length bs")
      case True
      then have "length q = 8" using lenq by (simp add: base32_digits_def)
      then have "decode_chars 0 [] (base32_encode bs) = Some (q, False, base32_encode (drop 5 bs))"
        using decode_chars_full [OF less] by (simp add: enc)
      then show ?thesis using ne bytes 1 [OF False] by (subst base32_decode.simps) simp
    next
      case short: False
      then have "length (take 5 bs) \<in> {1, 2, 3, 4}" using len by auto
      then have "length q \<in> {2, 4, 5, 7}" using lenq by (auto simp: base32_digits_def)
      moreover have "drop 5 bs = []" using short by simp
      ultimately have "decode_chars 0 [] (base32_encode bs) =
          Some (q, True, replicate (7 - length q) (CHR ''=''))"
        using decode_chars_padded [OF less] by (simp add: enc base32_encode.simps [of "[]"])
      then show ?thesis using ne bytes short by (subst base32_decode.simps) simp
    qed
  qed
qed

section \<open>Check characters\<close>

lemma luhn_sum_total: "alphabetic s \<Longrightarrow> \<exists>v. luhn_sum f acc s = Some v"
  by (induction s arbitrary: f acc) (auto simp: Let_def)

lemma luhn_sum_alphabetic: "luhn_sum f acc s = Some v \<Longrightarrow> alphabetic s"
  by (induction s arbitrary: f acc) (auto simp: Let_def alphabetic_def split: if_splits)

lemma luhn32_total:
  assumes "alphabetic s"
  obtains l where "luhn32 s = Ok l" and "codepoint32 l \<noteq> - 1"
proof -
  obtain v where v: "luhn_sum 1 0 s = Some v" using luhn_sum_total [OF assms] by blast
  have "nat ((32 - v mod 32) mod 32) < 32" by simp
  from codepoint32_digit [OF this] v show ?thesis
    by (intro that [of "luhnBase32 ! nat ((32 - v mod 32) mod 32)"]) (simp_all add: luhn32_def)
qed

lemma luhn32_alphabetic: "luhn32 s = Ok l \<Longrightarrow> alphabetic s"
  by (auto simp: luhn32_def split: option.splits intro: luhn_sum_alphabetic)

lemma luhnify_ok:
  assumes "alphabetic s" and "length s = 52"
  obtains t where "luhnify s = Ok t" and "length t = 56" and "alphabetic t"
    and "unluhnify t = Ok s"
proof -
  define p where "p i = take 13 (drop (i * 13) s)" for i
  have ap: "alphabetic (p i)" for i
    by (simp add: p_def assms(1) alphabetic_take alphabetic_drop)
  have "\<exists>l. luhn32 (p i) = Ok l \<and> codepoint32 l \<noteq> - 1" for i
    using luhn32_total [OF ap [of i]] by blast
  then obtain l where l: "\<And>i. luhn32 (p i) = Ok (l i)" and cl: "\<And>i. codepoint32 (l i) \<noteq> - 1"
    by metis
  define t where "t = p 0 @ l 0 # p 1 @ l 1 # p 2 @ l 2 # p 3 @ [l 3]"
  have up: "[0..<4] = [0, 1, 2, 3::nat]" by code_simp
  have len: "length (p 0) = 13" "length (p 1) = 13" "length (p 2) = 13" "length (p 3) = 13"
    using assms(2) by (simp_all add: p_def)
  have s: "p 0 @ p 1 @ p 2 @ p 3 = s"
    using assms(2) by (simp add: p_def take_add [symmetric] flip: append_assoc)
  have groups: "luhnify_groups is s = Ok (concat (map (\<lambda>i. p i @ [l i]) is))" for "is"
    using l by (induction "is") (auto simp: p_def)
  have "luhnify s = Ok t"
    using assms(2) by (simp add: luhnify_def groups up t_def)
  moreover have "length t = 56" using len by (simp add: t_def)
  moreover have "alphabetic t" using ap cl by (simp add: t_def)
  moreover have "unluhnify t = Ok s"
    using len l s by (simp add: unluhnify_def up t_def Let_def nth_append)
  ultimately show ?thesis by (rule that)
qed

section \<open>The text form round trip\<close>

lemma codepoint32_other:
  "c \<in> {CHR ''='', CHR ''-'', CHR '' '', CHR ''0'', CHR ''1'', CHR ''8'', CHR 0x0D, CHR 0x0A} \<Longrightarrow>
   codepoint32 c = - 1"
  by (elim insertE) (simp_all add: codepoint32_def)

lemma alphabetic_char:
  assumes "codepoint32 c \<noteq> - 1"
  shows "c \<notin> {CHR ''='', CHR ''-'', CHR '' '', CHR ''0'', CHR ''1'', CHR ''8'', CHR 0x0D, CHR 0x0A}"
    and "upper_char c = c"
proof -
  show "c \<notin> {CHR ''='', CHR ''-'', CHR '' '', CHR ''0'', CHR ''1'', CHR ''8'', CHR 0x0D, CHR 0x0A}"
    using assms codepoint32_other by blast
  have "\<not> (97 \<le> (of_char c :: int))"
    using assms by (auto simp: codepoint32_def Let_def split: if_splits)
  then have "\<not> 97 \<le> (of_char c :: nat)"
    by (metis of_nat_of_char of_nat_le_iff of_nat_numeral)
  then show "upper_char c = c" by (simp add: upper_char_def Let_def)
qed

lemma alphabetic_in: "alphabetic s \<Longrightarrow> c \<in> set s \<Longrightarrow> codepoint32 c \<noteq> - 1"
  by (simp add: alphabetic_def list_all_iff)

definition dashed :: "string \<Rightarrow> bool" where
  "dashed s \<longleftrightarrow> (\<forall>c \<in> set s. c = CHR ''-'' \<or> codepoint32 c \<noteq> - 1)"

lemma upper_dash: "upper_char (CHR ''-'') = CHR ''-''"
  by code_simp

lemma dashed_char:
  assumes "dashed s" and "c \<in> set s"
  shows "c \<notin> {CHR ''='', CHR '' '', CHR ''0'', CHR ''1'', CHR ''8''} \<and> upper_char c = c"
proof (cases "c = CHR ''-''")
  case True
  then show ?thesis using upper_dash by simp
next
  case False
  with assms have "codepoint32 c \<noteq> - 1" unfolding dashed_def by blast
  with alphabetic_char show ?thesis by blast
qed

lemma dashed_normal:
  assumes "dashed s"
  shows "unchunkify (untypeoify (ToUpper (Trim s (CHR ''='')))) = RemoveAll1 s (CHR ''-'')"
proof -
  have "\<forall>c \<in> set s. c \<noteq> CHR ''=''" using dashed_char [OF assms] by blast
  then have "Trim s (CHR ''='') = s" by (intro Trim_id) (metis hd_in_set last_in_set)
  moreover have "ToUpper s = s"
    using dashed_char [OF assms] by (simp add: ToUpper_def map_idI)
  moreover have "untypeoify s = s"
    using dashed_char [OF assms] by (auto simp: untypeoify_def ReplaceAll1_def intro!: map_idI)
  moreover have "unchunkify s = RemoveAll1 s (CHR ''-'')"
    using dashed_char [OF assms]
    by (auto simp: unchunkify_def RemoveAll1_def intro!: filter_cong)
  ultimately show ?thesis by simp
qed

lemma RemoveAll1_Join:
  "\<forall>f \<in> set fs. c \<notin> set f \<Longrightarrow> RemoveAll1 (Join fs [c]) c = concat fs"
  by (induction fs "[c]" rule: Join.induct) (auto simp: RemoveAll1_def filter_id_conv)

lemma set_Join: "set (Join fs sep) \<subseteq> \<Union> (set ` set fs) \<union> set sep"
  by (induction fs sep rule: Join.induct) auto

lemma concat_chunks: "concat (map (\<lambda>i. take k (drop (i * k) s)) [0..<n]) = take (n * k) s"
  by (induction n) (auto simp: take_take_drop add.commute)

lemma chunkify_ok:
  assumes "alphabetic s" and "length s = 56"
  obtains t where "chunkify s = Ok t" and "dashed t" and "RemoveAll1 t (CHR ''-'') = s"
proof -
  define cs where "cs = map (\<lambda>i. take 7 (drop (i * 7) s)) [0..<8]"
  have sub: "set f \<subseteq> set s" if "f \<in> set cs" for f
    using that by (auto simp: cs_def dest: in_set_takeD in_set_dropD)
  have no: "CHR ''-'' \<notin> set s" using alphabetic_in [OF assms(1)] alphabetic_char by blast
  have "chunkify s = Ok (Join cs ''-'')"
    using assms(2) by (simp add: chunkify_def cs_def)
  moreover have "dashed (Join cs ''-'')"
    using set_Join [of cs "''-''"] sub alphabetic_in [OF assms(1)] by (fastforce simp: dashed_def)
  moreover have "RemoveAll1 (Join cs ''-'') (CHR ''-'') = s"
  proof -
    have "RemoveAll1 (Join cs ''-'') (CHR ''-'') = concat cs"
      using sub no by (intro RemoveAll1_Join) blast
    also have "\<dots> = s" using assms(2) by (simp add: cs_def concat_chunks)
    finally show ?thesis .
  qed
  ultimately show ?thesis by (rule that)
qed

lemma base32_encode_device:
  assumes "wf_device n"
  obtains s where "base32_encode n = s @ ''===='' " and "alphabetic s" and "length s = 52"
proof -
  have full: "\<exists>q. base32_encode bs = q @ base32_encode (drop 5 bs) \<and> length q = 8 \<and> alphabetic q"
    if "5 \<le> length bs" for bs
    using that quantum_digits_less [of _ "take 5 bs"] length_quantum_digits [of "take 5 bs"]
    by (subst base32_encode.simps)
      (auto simp: encode_quantum_digits base32_digits_def intro!: alphabetic_digits)
  have pads: "replicate 4 (CHR ''='') = ''===='' " by code_simp
  have last: "\<exists>q. base32_encode bs = q @ ''===='' \<and> length q = 4 \<and> alphabetic q"
    if "length bs = 2" for bs
  proof -
    have "bs \<noteq> []" and "take 5 bs = bs" and "drop 5 bs = []" using that by auto
    then have "base32_encode bs = encode_quantum bs"
      by (subst base32_encode.simps) (simp add: base32_encode.simps [of "[]"])
    also have "\<dots> = map (\<lambda>d. luhnBase32 ! d) (quantum_digits bs) @ ''===='' "
      using that pads by (simp add: encode_quantum_digits base32_digits_def)
    finally show ?thesis
      using that quantum_digits_less [of _ bs] length_quantum_digits [of bs]
      by (auto simp: base32_digits_def intro!: alphabetic_digits)
  qed
  have n: "length n = 32" using assms by (simp add: wf_device_def DeviceIDLength_def)
  obtain q1 where q1: "base32_encode n = q1 @ base32_encode (drop 5 n)" "length q1 = 8" "alphabetic q1"
    using full [of n] n by auto
  obtain q2 where q2: "base32_encode (drop 5 n) = q2 @ base32_encode (drop 10 n)" "length q2 = 8" "alphabetic q2"
    using full [of "drop 5 n"] n by auto
  obtain q3 where q3: "base32_encode (drop 10 n) = q3 @ base32_encode (drop 15 n)" "length q3 = 8" "alphabetic q3"
    using full [of "drop 10 n"] n by auto
  obtain q4 where q4: "base32_encode (drop 15 n) = q4 @ base32_encode (drop 20 n)" "length q4 = 8" "alphabetic q4"
    using full [of "drop 15 n"] n by auto
  obtain q5 where q5: "base32_encode (drop 20 n) = q5 @ base32_encode (drop 25 n)" "length q5 = 8" "alphabetic q5"
    using full [of "drop 20 n"] n by auto
  obtain q6 where q6: "base32_encode (drop 25 n) = q6 @ base32_encode (drop 30 n)" "length q6 = 8" "alphabetic q6"
    using full [of "drop 25 n"] n by auto
  obtain q7 where q7: "base32_encode (drop 30 n) = q7 @ ''===='' " "length q7 = 4" "alphabetic q7"
    using last [of "drop 30 n"] n by auto
  show ?thesis
    by (rule that [of "q1 @ q2 @ q3 @ q4 @ q5 @ q6 @ q7"])
      (simp_all add: q1 q2 q3 q4 q5 q6 q7)
qed

lemma decode_id_encode:
  assumes "wf_device n" and "wf_device m" and "base32_encode n = s @ ''====''" and "alphabetic s"
  shows "decode_id m s = Ok n"
proof -
  have "filter (\<lambda>c. c \<noteq> CHR 0x0D \<and> c \<noteq> CHR 0x0A) (s @ ''===='') = s @ ''====''"
    using alphabetic_in [OF assms(4)] alphabetic_char(1) by (auto intro!: filter_True)
  then show ?thesis
    using assms(1-2) base32_decode_encode [of n]
    by (simp add: decode_id_def DecodeString_def assms(3) copy_into_def wf_device_def)
qed

text \<open>C21: The text form of a device ID can always be built (it never panics), and reading it
  back gives the same ID, whatever the receiver held before.\<close>

theorem device_id_text_round_trip:
  assumes "wf_device n" and "wf_device m"
  shows "\<exists>s. DeviceID_String n = Ok s \<and> UnmarshalText m s = Ok n"
proof (cases "n = EmptyDeviceID")
  case True
  then show ?thesis
    by (simp add: DeviceID_String_def UnmarshalText_def Trim_def TrimLeft_def ToUpper_def
        untypeoify_def ReplaceAll1_def unchunkify_def RemoveAll1_def)
next
  case False
  obtain s where s: "base32_encode n = s @ ''====''" "alphabetic s" "length s = 52"
    by (rule base32_encode_device [OF assms(1)])
  have trim: "Trim (s @ ''===='') (CHR ''='') = s"
  proof -
    obtain c s' where c: "rev s = c # s'" "c \<noteq> CHR ''=''"
      using s(2, 3) alphabetic_char(1) by (cases s rule: rev_cases) auto
    obtain d r where "s = d # r" "d \<noteq> CHR ''=''"
      using s(2, 3) alphabetic_char(1) by (cases s) auto
    then have "TrimLeft (s @ ''===='') (CHR ''='') = s @ ''===='' " by (simp add: TrimLeft_def)
    moreover have "rev (c # s') = s" by (simp flip: c(1))
    ultimately show ?thesis using c(2) by (simp add: Trim_def c(1) del: rev_eq_Cons_iff)
  qed
  obtain t where t: "luhnify s = Ok t" "length t = 56" "alphabetic t" "unluhnify t = Ok s"
    by (rule luhnify_ok [OF s(2, 3)])
  obtain u where u: "chunkify t = Ok u" "dashed u" "RemoveAll1 u (CHR ''-'') = t"
    by (rule chunkify_ok [OF t(3, 2)])
  have "DeviceID_String n = Ok u"
    using False u(1) t(1) trim by (simp add: DeviceID_String_def s(1))
  moreover have "UnmarshalText m u = Ok n"
    using decode_id_encode [OF assms s(1, 2)] t
    by (auto simp: UnmarshalText_def dashed_normal [OF u(2)] u(3))
  ultimately show ?thesis by blast
qed

theorem device_id_text_round_trip_witness:
  "\<exists>s. DeviceID_String LocalDeviceID = Ok s \<and> UnmarshalText GlobalDeviceID s = Ok LocalDeviceID"
  by (rule device_id_text_round_trip)
    (simp_all add: wf_device_def LocalDeviceID_def GlobalDeviceID_def repeatedDeviceID_def)

section \<open>Error detection\<close>

definition luhn_addend :: "int \<Rightarrow> int \<Rightarrow> int" where
  "luhn_addend f x = f * x div 32 + f * x mod 32"

lemma luhn_addend_1: "0 \<le> x \<Longrightarrow> x < 32 \<Longrightarrow> luhn_addend 1 x = x"
  by (simp add: luhn_addend_def)

lemma luhn_addend_2:
  assumes "0 \<le> x" "x < 32"
  shows "luhn_addend 2 x = (if x < 16 then 2 * x else 2 * x - 31)"
proof (cases "x < 16")
  case True
  then show ?thesis using assms by (simp add: luhn_addend_def)
next
  case False
  have "2 * x div 32 = (2 * x - 32) div 32 + 1" and "2 * x mod 32 = (2 * x - 32) mod 32" by simp_all
  moreover have "(2 * x - 32) div 32 = 0" using False assms by simp
  moreover have "(2 * x - 32) mod 32 = 2 * x - 32"
    by (rule mod_pos_pos_trivial) (use False assms in simp_all)
  ultimately show ?thesis using False by (simp add: luhn_addend_def)
qed

lemma luhn_addend_range:
  "f \<in> {1, 2} \<Longrightarrow> 0 \<le> x \<Longrightarrow> x < 32 \<Longrightarrow> 0 \<le> luhn_addend f x \<and> luhn_addend f x < 32"
  by (auto simp: luhn_addend_1 luhn_addend_2)

lemma luhn_addend_inj:
  assumes "f \<in> {1, 2}" and "0 \<le> x" "x < 32" and "0 \<le> y" "y < 32"
    and "luhn_addend f x = luhn_addend f y"
  shows "x = y"
  using assms by (auto simp: luhn_addend_1 luhn_addend_2 split: if_splits) presburger+

lemma luhn_sum_shift: "luhn_sum f (acc + d) s = map_option (\<lambda>v. v + d) (luhn_sum f acc s)"
proof (induction s arbitrary: f acc)
  case (Cons c s)
  have "luhn_sum g (acc + d + a) s = map_option (\<lambda>v. v + d) (luhn_sum g (acc + a) s)" for g a
    using Cons [of g "acc + a"] by (simp add: add.assoc add.commute add.left_commute)
  then show ?case by (simp add: Let_def)
qed simp

lemma luhn_sum_update:
  assumes "k < length p" and "f \<in> {1, 2}"
    and "luhn_sum f acc p = Some v" and "luhn_sum f acc (p[k := c]) = Some v'"
  shows "\<exists>g \<in> {1, 2}. v' - v = luhn_addend g (codepoint32 c) - luhn_addend g (codepoint32 (p ! k))"
  using assms
proof (induction p arbitrary: k f acc)
  case (Cons x p)
  let ?f' = "if f = 2 then 1 else 2"
  show ?case
  proof (cases k)
    case 0
    with Cons.prems have "luhn_sum ?f' (acc + luhn_addend f (codepoint32 x)) p = Some v"
      and "luhn_sum ?f' (acc + luhn_addend f (codepoint32 c)) p = Some v'"
      by (auto simp: Let_def luhn_addend_def split: if_splits)
    then have "v' - v = luhn_addend f (codepoint32 c) - luhn_addend f (codepoint32 x)"
      unfolding luhn_sum_shift [of _ acc] by auto
    with 0 Cons.prems(2) show ?thesis by auto
  next
    case (Suc j)
    have f': "?f' \<in> {1, 2}" by simp
    from Suc Cons.prems
    have "luhn_sum ?f' (acc + luhn_addend f (codepoint32 x)) p = Some v"
      and "luhn_sum ?f' (acc + luhn_addend f (codepoint32 x)) (p[j := c]) = Some v'"
      by (auto simp: Let_def luhn_addend_def split: if_splits)
    from Cons.IH [OF _ f' this] Suc Cons.prems(1) show ?thesis by simp
  qed
qed simp

lemma complement32: "0 \<le> a \<Longrightarrow> a < 32 \<Longrightarrow> (32 - a) mod 32 = (if a = 0 then 0 else 32 - a :: int)"
  by (simp add: mod_pos_pos_trivial del: minus_mod_self1 minus_mod_self2)

lemma luhn32_update:
  assumes "k < length p" and "luhn32 p = Ok l" and "luhn32 (p[k := c]) = Ok l"
  shows "p ! k = c"
proof -
  obtain v where v: "luhn_sum 1 0 p = Some v" "l = luhnBase32 ! nat ((32 - v mod 32) mod 32)"
    using assms(2) by (auto simp: luhn32_def split: option.splits)
  obtain v' where v': "luhn_sum 1 0 (p[k := c]) = Some v'"
      "l = luhnBase32 ! nat ((32 - v' mod 32) mod 32)"
    using assms(3) by (auto simp: luhn32_def split: option.splits)
  have digit: "codepoint32 l = (32 - v mod 32) mod 32" if "l = luhnBase32 ! nat ((32 - v mod 32) mod 32)" for v
    using that codepoint32_digit [of "nat ((32 - v mod 32) mod 32)"] by simp
  have "(32 - v mod 32) mod 32 = (32 - v' mod 32) mod 32"
    using digit [OF v(2)] digit [OF v'(2)] by simp
  then have mods: "v' mod 32 = v mod 32"
    using complement32 [of "v mod 32"] complement32 [of "v' mod 32"]
    by (auto split: if_splits)
  obtain g where g: "g \<in> {1, 2}"
    and diff: "v' - v = luhn_addend g (codepoint32 c) - luhn_addend g (codepoint32 (p ! k))"
    using luhn_sum_update [OF assms(1) _ v(1) v'(1)] by auto
  have cp: "codepoint32 (p ! k) \<noteq> - 1" "codepoint32 c \<noteq> - 1"
    using alphabetic_in [OF luhn_sum_alphabetic [OF v(1)]]
      alphabetic_in [OF luhn_sum_alphabetic [OF v'(1)]] assms(1)
    by (simp_all add: set_update_memI)
  note x = luhnBase32_codepoint32 [OF cp(1)] and y = luhnBase32_codepoint32 [OF cp(2)]
  have "luhn_addend g (codepoint32 c) mod 32 = luhn_addend g (codepoint32 (p ! k)) mod 32"
    using mods diff mod_eq_dvd_iff by metis
  then have "luhn_addend g (codepoint32 c) = luhn_addend g (codepoint32 (p ! k))"
    using luhn_addend_range [OF g] x y by (metis mod_pos_pos_trivial)
  then have "codepoint32 c = codepoint32 (p ! k)"
    using luhn_addend_inj [OF g] x y by blast
  with x y show ?thesis by metis
qed

lemma unluhnify_groups_Ok:
  "unluhnify_groups is s = Ok r \<Longrightarrow> i \<in> set is \<Longrightarrow>
   luhn32 (take 13 (drop (i * 14) s)) = Ok (s ! (i * 14 + 13))"
  by (induction "is" arbitrary: r) (auto simp: Let_def split: if_splits)

lemma luhn32_no_Panic: "luhn32 s \<noteq> Panic"
  by (auto simp: luhn32_def split: option.splits)

lemma unluhnify_no_Panic: "unluhnify s \<noteq> Panic"
proof -
  have "unluhnify_groups is s \<noteq> Panic" for "is"
  proof (induction "is")
    case (Cons i "is")
    then show ?case
      using luhn32_no_Panic [of "take 13 (drop (i * 14) s)"]
      by (cases "luhn32 (take 13 (drop (i * 14) s))"; cases "unluhnify_groups is s") auto
  qed simp
  then show ?thesis by (simp add: unluhnify_def)
qed

text \<open>The check characters detect every error in one character: changing any single
  character of a 56-character ID that passes the check makes \<open>unluhnify\<close> return an error.\<close>

theorem unluhnify_detects_one_error:
  assumes "unluhnify s = Ok r" and "i < 56" and "c \<noteq> s ! i"
  shows "\<exists>e. unluhnify (s[i := c]) = Err e"
proof (rule ccontr)
  assume "\<nexists>e. unluhnify (s[i := c]) = Err e"
  then obtain r' where ok': "unluhnify (s[i := c]) = Ok r'"
    using unluhnify_no_Panic [of "s[i := c]"] by (cases "unluhnify (s[i := c])") auto
  have len: "length s = 56" using assms(1) by (auto simp: unluhnify_def split: if_splits)
  define g k where "g = i div 14" and "k = i mod 14"
  have i: "i = g * 14 + k" and g: "g \<in> set [0..<4]" and k: "k < 14"
    using assms(2) by (auto simp: g_def k_def)
  let ?p = "take 13 (drop (g * 14) s)"
  have ok: "luhn32 ?p = Ok (s ! (g * 14 + 13))"
    using assms(1) unluhnify_groups_Ok [OF _ g] by (auto simp: unluhnify_def split: if_splits)
  have ok'': "luhn32 (take 13 (drop (g * 14) (s[i := c]))) = Ok (s[i := c] ! (g * 14 + 13))"
    using ok' unluhnify_groups_Ok [OF _ g] by (auto simp: unluhnify_def split: if_splits)
  show False
  proof (cases "k = 13")
    case True
    have "take 13 (drop (g * 14) (s[i := c])) = ?p"
      using True i by (simp add: drop_update_swap take_update_cancel)
    then have "c = s ! i" using ok ok'' True i len assms(2) by simp
    with assms(3) show False by simp
  next
    case False
    with k have "k < 13" by simp
    then have "take 13 (drop (g * 14) (s[i := c])) = ?p[k := c]" and "s[i := c] ! (g * 14 + 13) = s ! (g * 14 + 13)"
      using i by (simp_all add: drop_update_swap take_update_swap)
    with ok'' have "luhn32 (?p[k := c]) = Ok (s ! (g * 14 + 13))" by simp
    moreover have "k < length ?p" using \<open>k < 13\<close> len g by auto
    ultimately have "?p ! k = c" using luhn32_update [OF _ ok] by blast
    then have "s ! i = c" using \<open>k < 13\<close> i len assms(2) by simp
    with assms(3) show False by simp
  qed
qed

text \<open>A text that passes the check: 52 times the letter A, whose check characters are A too.\<close>

theorem unluhnify_detects_one_error_witness:
  "unluhnify (replicate 56 (CHR ''A'')) = Ok (replicate 52 (CHR ''A'')) \<and>
   (\<exists>e. unluhnify ((replicate 56 (CHR ''A''))[20 := CHR ''Q'']) = Err e)"
proof
  show ok: "unluhnify (replicate 56 (CHR ''A'')) = Ok (replicate 52 (CHR ''A''))" by code_simp
  show "\<exists>e. unluhnify ((replicate 56 (CHR ''A''))[20 := CHR ''Q'']) = Err e"
    by (rule unluhnify_detects_one_error [OF ok]) simp_all
qed

lemma base32_decode_full:
  assumes "\<forall>d \<in> set ds. d < 32" and "length ds = 8"
  shows "base32_decode (map (\<lambda>d. luhnBase32 ! d) ds @ rest) =
    map_option (\<lambda>bs. quantum_bytes ds @ bs) (base32_decode rest)"
proof -
  have "ds \<noteq> []" using assms(2) by auto
  then show ?thesis
    using decode_chars_full [OF assms] by (subst base32_decode.simps) simp
qed

lemma to_digits_numeral:
  "to_digits b (numeral n) v = to_digits b (pred_numeral n) (v div b) @ [v mod b]"
  by (simp add: numeral_eq_Suc)

lemma base32_decode_sevens:
  "base32_decode (replicate 8 (CHR ''7'') @ rest) = map_option (\<lambda>bs. replicate 5 0xff @ bs) (base32_decode rest)"
proof -
  have "replicate 8 (CHR ''7'') = map (\<lambda>d. luhnBase32 ! d) (replicate 8 31)"
    by (simp add: luhnBase32_def)
  moreover have "quantum_bytes (replicate 8 31) = replicate 5 0xff"
    by (simp add: quantum_bytes_def from_digits_def to_digits_numeral replicate_numeral bytes_of_nats_def)
  ultimately show ?thesis using base32_decode_full [of "replicate 8 31" rest] by simp
qed

text \<open>The length of the text is checked before \<open>encoding/base32\<close> drops line breaks: 52
  bytes of which eight are line breaks pass as an ID without check characters, and the ID
  keeps the last bytes of the receiver (zeros, for \<open>DeviceIDFromString\<close>).\<close>

theorem newlines_pass_the_length_check:
  "DeviceIDFromString (replicate 44 (CHR ''7'') @ replicate 8 (CHR 0x0A)) =
     Ok (replicate 27 0xff @ replicate 5 0)"
proof -
  have norm: "unchunkify (untypeoify (ToUpper (Trim (replicate 44 (CHR ''7'') @ replicate 8 (CHR 0x0A)) (CHR ''='')))) =
      replicate 44 (CHR ''7'') @ replicate 8 (CHR 0x0A)"
    by code_simp
  have "quantum_bytes (replicate 4 31) = [0xff, 0xff]"
    by (simp add: quantum_bytes_def from_digits_def to_digits_numeral replicate_numeral bytes_of_nats_def)
  moreover have "map (\<lambda>d. luhnBase32 ! d) (replicate 4 31) @ replicate 4 (CHR ''='') = ''7777===='' "
    by (simp add: luhnBase32_def replicate_numeral)
  ultimately have "base32_decode ''7777===='' = Some [0xff, 0xff]"
    using decode_chars_padded [of "replicate 4 31"] by (subst base32_decode.simps) simp
  then have "base32_decode (replicate 44 (CHR ''7'') @ ''===='') = Some (replicate 27 0xff)"
    using base32_decode_sevens by (simp add: replicate_numeral)
  then show ?thesis
    by (simp add: DeviceIDFromString_def UnmarshalText_def norm decode_id_def DecodeString_def
        copy_into_def EmptyDeviceID_def DeviceIDLength_def)
qed

end
