(* ===== verification/Vector_Text.thy ===== *)
theory Vector_Text
  imports Version_Vector Device_ID
begin

text \<open>
  The text and wire forms of version vectors, the first part of
  \<^verbatim>\<open>lib/protocol/vector.go\<close>.  The text form is what the database stores; it is a list of
  pairs \<open>id:value\<close>, the ID as 16 hexadecimal digits and the value in decimal.
\<close>

section \<open>Wire form\<close>

text \<open>The generated messages \<open>bep.Counter\<close> and \<open>bep.Vector\<close>; \<open>None\<close> is a nil message.\<close>

record bep_counter =
  Id :: uint64
  WValue :: uint64

record bep_vector =
  WCounters :: "bep_counter list"

definition toWire :: "counter \<Rightarrow> bep_counter" where
  "toWire c = \<lparr>Id = ID c, WValue = Value c\<rparr>"

definition counterFromWire :: "bep_counter \<Rightarrow> counter" where
  "counterFromWire w = \<lparr>ID = Id w, Value = WValue w\<rparr>"

definition ToWire :: "vector \<Rightarrow> bep_vector option" where
  "ToWire v = Some \<lparr>WCounters = map toWire (Counters v)\<rparr>"

definition VectorFromWire :: "bep_vector option \<Rightarrow> vector" where
  "VectorFromWire w =
     (case w of
        None \<Rightarrow> \<lparr>Counters = []\<rparr>
      | Some m \<Rightarrow>
          if length (WCounters m) = 0 then \<lparr>Counters = []\<rparr>
          else \<lparr>Counters = map counterFromWire (WCounters m)\<rparr>)"

lemma counterFromWire_toWire [simp]: "counterFromWire (toWire c) = c"
  by (simp add: counterFromWire_def toWire_def)

lemma VectorFromWire_ToWire [simp]: "VectorFromWire (ToWire v) = v"
  by (simp add: VectorFromWire_def ToWire_def comp_def)

section \<open>Text form\<close>

definition counter_text :: "counter \<Rightarrow> string" where
  "counter_text c = hex_encode (PutUint64 (ID c)) @ '':'' @ format_uint (unat (Value c))"

definition Vector_String :: "vector \<Rightarrow> string" where
  "Vector_String v = Join (map counter_text (Counters v)) '',''"

definition Vector_HumanString :: "vector \<Rightarrow> string" where
  "Vector_HumanString v =
     Join (map (\<lambda>c. ShortID_String (ID c) @ '':'' @ format_uint (unat (Value c))) (Counters v)) '',''"

datatype vector_error = BadPair string | BadPairId string | BadPairVal string

text \<open>
  One pair.  The slice expression \<open>idbs[8-len(idslice):]\<close> has a negative bound when the ID
  has more than eight bytes; Go panics there.
\<close>

definition parse_pair :: "string \<Rightarrow> (vector_error, counter) outcome" where
  "parse_pair pair =
     (case Cut pair (CHR '':'') of
        None \<Rightarrow> Err (BadPair pair)
      | Some (idStr, valStr) \<Rightarrow>
          (case hex_decode idStr of
             None \<Rightarrow> Err (BadPairId pair)
           | Some idslice \<Rightarrow>
               if 8 < length idslice then Panic
               else
                 let idbs = replicate (8 - length idslice) 0 @ idslice
                 in case ParseUint valStr of
                      None \<Rightarrow> Err (BadPairVal pair)
                    | Some val \<Rightarrow> Ok \<lparr>ID = Uint64 idbs, Value = val\<rparr>))"

fun parse_pairs :: "string list \<Rightarrow> (vector_error, counter list) outcome" where
  "parse_pairs [] = Ok []"
| "parse_pairs (pair # pairs) =
     obind (parse_pair pair) (\<lambda>c. obind (parse_pairs pairs) (\<lambda>cs. Ok (c # cs)))"

definition VectorFromString :: "string \<Rightarrow> (vector_error, vector) outcome" where
  "VectorFromString s = obind (parse_pairs (Split s (CHR '',''))) (\<lambda>cs. Ok \<lparr>Counters = cs\<rparr>)"

section \<open>Reading what was written\<close>

lemma digit_char_not_sep: "d < 16 \<Longrightarrow> digit_char d \<noteq> CHR '':'' \<and> digit_char d \<noteq> CHR '',''"
proof -
  have "list_all (\<lambda>d. digit_char d \<noteq> CHR '':'' \<and> digit_char d \<noteq> CHR '','') [0..<16]" by code_simp
  then show "d < 16 \<Longrightarrow> digit_char d \<noteq> CHR '':'' \<and> digit_char d \<noteq> CHR '',''"
    by (simp add: list_all_iff)
qed

lemma hex_encode_no_sep: "CHR '':'' \<notin> set (hex_encode bs) \<and> CHR '','' \<notin> set (hex_encode bs)"
proof (induction bs)
  case (Cons b bs)
  have "unat b div 16 < 16" and "unat b mod 16 < 16"
    by (simp_all add: less_mult_imp_div_less)
  from digit_char_not_sep [OF this(1)] digit_char_not_sep [OF this(2)] Cons show ?case by auto
qed simp

lemma format_uint_no_sep: "CHR '','' \<notin> set (format_uint n)"
proof (induction n rule: format_uint.induct)
  case (1 n)
  have "digit_char (n mod 10) \<noteq> CHR '',''"
    using digit_char_not_sep [of "n mod 10"] by (simp add: less_trans [of _ 10 16])
  moreover have "n < 10 \<Longrightarrow> digit_char n \<noteq> CHR '',''" using digit_char_not_sep [of n] by simp
  ultimately show ?case using 1 by (cases "n < 10") (auto simp: format_uint.simps [of n])
qed

lemma parse_pair_text: "parse_pair (counter_text c) = Ok c"
proof -
  have "Cut (counter_text c) (CHR '':'') =
      Some (hex_encode (PutUint64 (ID c)), format_uint (unat (Value c)))"
    using Cut_append hex_encode_no_sep by (simp add: counter_text_def)
  then show ?thesis
    using Uint64_Put [of "ID c" "[]"] by (simp add: parse_pair_def hex_decode_encode ParseUint_format)
qed

lemma parse_pairs_text: "parse_pairs (map counter_text cs) = Ok cs"
  by (induction cs) (auto simp: parse_pair_text)

lemma counter_text_no_comma: "CHR '','' \<notin> set (counter_text c)"
  using hex_encode_no_sep format_uint_no_sep by (auto simp: counter_text_def)

lemma VectorFromString_text: "Counters v \<noteq> [] \<Longrightarrow> VectorFromString (Vector_String v) = Ok v"
proof -
  assume "Counters v \<noteq> []"
  then have "Split (Vector_String v) (CHR '','') = map counter_text (Counters v)"
    unfolding Vector_String_def by (intro Split_Join) (auto simp: counter_text_no_comma)
  then show ?thesis by (simp add: VectorFromString_def parse_pairs_text)
qed

text \<open>Parsing the text form of a version vector gives the vector back, except that the
  text of the empty vector (the empty string) is refused as a bad pair.\<close>

theorem vector_text_round_trip:
  "VectorFromString (Vector_String v) =
     (if IsEmpty v then Err (BadPair []) else Ok v)"
proof (cases "Counters v = []")
  case True
  then show ?thesis
    by (simp add: IsEmpty_def Vector_String_def VectorFromString_def parse_pair_def)
next
  case False
  with VectorFromString_text [OF this] show ?thesis by (simp add: IsEmpty_def)
qed

text \<open>A counter ID of more than eight bytes makes \<open>VectorFromString\<close> panic instead of
  returning an error, whatever follows the colon.\<close>

theorem vector_text_long_id_panics:
  assumes "8 < length bs"
  shows "VectorFromString (hex_encode bs @ '':'' @ format_uint n) = Panic"
proof -
  let ?s = "hex_encode bs @ '':'' @ format_uint n"
  have "Split ?s (CHR '','') = [?s]"
    by (rule Split_no_sep) (use hex_encode_no_sep format_uint_no_sep in auto)
  moreover have "Cut ?s (CHR '':'') = Some (hex_encode bs, format_uint n)"
    using Cut_append hex_encode_no_sep by simp
  ultimately show ?thesis
    using assms by (simp add: VectorFromString_def parse_pair_def hex_decode_encode)
qed

theorem vector_text_long_id_panics_witness:
  "VectorFromString (hex_encode (replicate 9 0xab) @ '':'' @ format_uint 1) = Panic"
  by (rule vector_text_long_id_panics) simp

end
