(* ===== verification/Rsync_Hash.thy ===== *)
theory Rsync_Hash
  imports Go_Strings
begin

unbundle bit_operations_syntax

text \<open>
  The weak checksum and the block size of the rsync engine,
  \<^verbatim>\<open>lib/rsync/rolling.go\<close> and \<^verbatim>\<open>lib/rsync/operation.go\<close>.

  A \<open>RollingHash\<close> keeps two 16-bit sums over a circular window.  The main fact is that
  rolling the window by one byte gives the same sums as computing them afresh.  The block
  size is the integer square root of 24 times the file length, kept between 1 KiB and
  64 KiB; the Newton iteration that computes it is shown to end at the floor of the root.
\<close>

section \<open>The rolling hash (rolling.go)\<close>

record rolling_hash =
  ra :: uint16
  rb :: uint16
  blockSize :: nat
  window :: bytes
  pos :: nat

definition NewRollingHash :: "nat \<Rightarrow> rolling_hash" where
  "NewRollingHash n = \<lparr>ra = 0, rb = 0, blockSize = n, window = replicate n 0, pos = 0\<rparr>"

fun write_loop :: "nat \<Rightarrow> nat \<Rightarrow> bytes \<Rightarrow> rolling_hash \<Rightarrow> rolling_hash" where
  "write_loop len i [] r = r"
| "write_loop len i (v # data) r =
     write_loop len (Suc i) data
       (r\<lparr>ra := ra r + ucast v,
          rb := rb r + of_nat (len - i) * ucast v,
          window := (if i < length (window r) then (window r)[i := v] else window r)\<rparr>)"

definition Reset :: "rolling_hash \<Rightarrow> rolling_hash" where
  "Reset r = r\<lparr>ra := 0, rb := 0, pos := 0, window := replicate (length (window r)) 0\<rparr>"

definition Write :: "rolling_hash \<Rightarrow> bytes \<Rightarrow> rolling_hash" where
  "Write r data = write_loop (length data) 0 data
     (r\<lparr>ra := 0, rb := 0, pos := 0, window := replicate (length (window r)) 0\<rparr>)"

text \<open>\<open>r.window[r.pos]\<close> is out of range when the window is empty.\<close>

definition Roll :: "rolling_hash \<Rightarrow> byte \<Rightarrow> ('e, rolling_hash) outcome" where
  "Roll r inb =
     (if length (window r) \<le> pos r then Panic
      else
        let out = window r ! pos r;
            a = ra r + (ucast inb - ucast out);
            b = rb r - of_nat (blockSize r) * ucast out + a
        in Ok (r\<lparr>ra := a, rb := b, window := (window r)[pos r := inb],
                 pos := (pos r + 1) mod blockSize r\<rparr>))"

definition Sum :: "rolling_hash \<Rightarrow> uint32" where
  "Sum r = (ucast (ra r) OR push_bit 16 (ucast (rb r)))"

text \<open>What the two sums are of a window, oldest byte first.\<close>

definition sum_a :: "bytes \<Rightarrow> uint16" where
  "sum_a w = sum_list (map ucast w)"

fun sum_b :: "bytes \<Rightarrow> uint16" where
  "sum_b [] = 0"
| "sum_b (v # w) = of_nat (Suc (length w)) * ucast v + sum_b w"

definition weak_of :: "bytes \<Rightarrow> uint32" where
  "weak_of w = (ucast (sum_a w) OR push_bit 16 (ucast (sum_b w)))"

definition hashes_window :: "rolling_hash \<Rightarrow> bytes \<Rightarrow> bool" where
  "hashes_window r w \<longleftrightarrow>
     blockSize r = length w \<and> length (window r) = length w \<and> pos r < length w \<and>
     drop (pos r) (window r) @ take (pos r) (window r) = w \<and> ra r = sum_a w \<and> rb r = sum_b w"

lemma sum_b_snoc: "sum_b (w @ [v]) = sum_b w + sum_a w + ucast v"
  by (induction w) (simp_all add: sum_a_def algebra_simps)

lemma write_loop_sums:
  "len = i + length data \<Longrightarrow> ra (write_loop len i data r) = ra r + sum_a data"
  "len = i + length data \<Longrightarrow> rb (write_loop len i data r) = rb r + sum_b data"
  by (induction data arbitrary: i r) (simp_all add: sum_a_def algebra_simps)

lemma write_loop_frame:
  "blockSize (write_loop len i data r) = blockSize r"
  "pos (write_loop len i data r) = pos r"
  "length (window (write_loop len i data r)) = length (window r)"
  by (induction data arbitrary: i r) simp_all

lemma write_loop_window:
  "i + length data \<le> length (window r) \<Longrightarrow>
   window (write_loop len i data r) = take i (window r) @ data @ drop (i + length data) (window r)"
proof (induction data arbitrary: i r)
  case (Cons v data)
  then show ?case
    by (simp add: take_Suc_conv_app_nth drop_update_cancel)
qed simp

lemma Write_Sum: "Sum (Write r data) = weak_of data"
  using write_loop_sums [of "length data" 0 data] by (simp add: Sum_def Write_def weak_of_def)

lemma Write_hashes:
  "0 < n \<Longrightarrow> length data = n \<Longrightarrow> hashes_window (Write (NewRollingHash n) data) data"
  using write_loop_sums [of "length data" 0 data] write_loop_frame write_loop_window [of 0 data]
  by (simp add: hashes_window_def Write_def NewRollingHash_def)

lemma hashes_window_Sum: "hashes_window r w \<Longrightarrow> Sum r = weak_of w"
  by (simp add: hashes_window_def Sum_def weak_of_def)

text \<open>One roll keeps the invariant for the window moved by one byte.\<close>

lemma Roll_hashes:
  assumes "hashes_window r (v # w)"
  obtains r' where "Roll r x = Ok r'" and "hashes_window r' (w @ [x])"
proof -
  let ?n = "length (v # w)" and ?p = "pos r" and ?win = "window r"
  from assms have p: "?p < ?n" and len: "length ?win = ?n"
    and rot: "drop ?p ?win @ take ?p ?win = v # w"
    by (simp_all add: hashes_window_def)
  have "drop ?p ?win = ?win ! ?p # drop (Suc ?p) ?win"
    using p len by (simp add: Cons_nth_drop_Suc)
  with rot have out: "?win ! ?p = v" and w: "drop (Suc ?p) ?win @ take ?p ?win = w" by simp_all
  define r' where "r' = r\<lparr>ra := ra r + (ucast x - ucast v),
      rb := rb r - of_nat (blockSize r) * ucast v + (ra r + (ucast x - ucast v)),
      window := ?win[?p := x], pos := (?p + 1) mod blockSize r\<rparr>"
  have "Roll r x = Ok r'"
    using p len out by (simp add: Roll_def r'_def Let_def)
  moreover have "drop (pos r') (window r') @ take (pos r') (window r') = w @ [x]"
  proof (cases "Suc ?p < ?n")
    case True
    then have "pos r' = Suc ?p" using assms by (simp add: r'_def hashes_window_def)
    then show ?thesis
      using w p len by (simp add: r'_def take_Suc_conv_app_nth)
  next
    case False
    with p have last: "Suc ?p = ?n" by simp
    then have "pos r' = 0" using assms by (simp add: r'_def hashes_window_def)
    moreover have "?win[?p := x] = take ?p ?win @ [x]"
      using last len by (simp add: upd_conv_take_nth_drop)
    moreover have "take ?p ?win = w" using w last len by simp
    ultimately show ?thesis by (simp add: r'_def)
  qed
  moreover have "ra r' = sum_a (w @ [x])" and "rb r' = sum_b (w @ [x])"
    using assms by (simp_all add: r'_def hashes_window_def sum_b_snoc sum_a_def algebra_simps)
  ultimately have "hashes_window r' (w @ [x])"
    using assms p by (simp add: hashes_window_def r'_def)
  with \<open>Roll r x = Ok r'\<close> show ?thesis by (rule that)
qed

fun roll_all :: "rolling_hash \<Rightarrow> bytes \<Rightarrow> ('e, rolling_hash) outcome" where
  "roll_all r [] = Ok r"
| "roll_all r (x # xs) = obind (Roll r x) (\<lambda>r'. roll_all r' xs)"

lemma roll_all_hashes:
  "hashes_window r w \<Longrightarrow>
   \<exists>r'. roll_all r xs = (Ok r' :: ('e, rolling_hash) outcome) \<and> hashes_window r' (drop (length xs) (w @ xs))"
proof (induction xs arbitrary: r w)
  case (Cons x xs)
  from Cons.prems obtain v w' where w: "w = v # w'"
    by (cases w) (auto simp: hashes_window_def)
  from Cons.prems obtain r1 where r1: "Roll r x = (Ok r1 :: ('e, rolling_hash) outcome)" "hashes_window r1 (w' @ [x])"
    unfolding w by (rule Roll_hashes)
  from Cons.IH [OF r1(2)] r1(1) w show ?case by auto
qed simp

text \<open>Sliding the window over any further bytes one at a time never panics and always
  gives the checksum that \<open>Write\<close> computes from scratch on the bytes in the window.\<close>

theorem rolling_equals_recomputing:
  assumes "data \<noteq> []"
  shows "\<exists>r. roll_all (Write (NewRollingHash (length data)) data) extra = Ok r \<and>
    Sum r = Sum (Write (NewRollingHash (length data)) (drop (length extra) (data @ extra)))"
proof -
  have "hashes_window (Write (NewRollingHash (length data)) data) data"
    using assms by (intro Write_hashes) simp_all
  from roll_all_hashes [OF this, of extra] show ?thesis
    by (metis hashes_window_Sum Write_Sum)
qed

theorem rolling_equals_recomputing_witness:
  "\<exists>r. roll_all (Write (NewRollingHash 3) [250, 9, 77]) [1, 255] = Ok r \<and>
    Sum r = Sum (Write (NewRollingHash 3) [77, 1, 255])"
  using rolling_equals_recomputing [of "[250, 9, 77]" "[1, 255]"]
  by (simp add: numeral_3_eq_3)

section \<open>Block size (operation.go)\<close>

definition minBlockSize :: uint64 where
  "minBlockSize = 1024"

definition maxBlockSize :: uint64 where
  "maxBlockSize = 64 * 1024"

definition maxUint64 :: uint64 where
  "maxUint64 = NOT 0"

text \<open>\<open>bits.Len64\<close>, the number of bits needed for a number.\<close>

fun Len64 :: "nat \<Rightarrow> nat" where
  "Len64 n = (if n = 0 then 0 else Suc (Len64 (n div 2)))"

declare Len64.simps [simp del]

function isqrt_loop :: "uint64 \<Rightarrow> uint64 \<Rightarrow> uint64" where
  "isqrt_loop n x =
     (let y = (x + n div x) div 2
      in if x \<le> y then x else isqrt_loop n y)"
  by pat_completeness auto
termination
  by (relation "measure (\<lambda>(n, x). unat x)") (auto simp: word_less_nat_alt Let_def not_le)

declare isqrt_loop.simps [simp del]

definition isqrt :: "uint64 \<Rightarrow> uint64" where
  "isqrt n = (if n = 0 then 0 else isqrt_loop n (push_bit ((Len64 (unat n) + 1) div 2) 1))"

definition OptimalBlockSizeForBaseLength :: "uint64 \<Rightarrow> uint64" where
  "OptimalBlockSizeForBaseLength l =
     (if l = 0 then minBlockSize
      else if maxUint64 div 24 < l then maxBlockSize
      else
        let optimal = isqrt (l * 24)
        in if optimal < minBlockSize then minBlockSize
           else if maxBlockSize < optimal then maxBlockSize
           else optimal)"

lemma Len64_bound: "n < 2 ^ Len64 n"
proof (induction n rule: Len64.induct)
  case (1 n)
  show ?case
  proof (cases "n = 0")
    case False
    then have "n div 2 < 2 ^ Len64 (n div 2)" using 1 by blast
    then show ?thesis using False by (simp add: Len64.simps [of n])
  qed simp
qed

lemma Len64_le: "n < 2 ^ k \<Longrightarrow> Len64 n \<le> k"
proof (induction n arbitrary: k rule: Len64.induct)
  case (1 n)
  show ?case
  proof (cases "n = 0")
    case True
    then show ?thesis by (simp add: Len64.simps)
  next
    case False
    with "1.prems" obtain j where k: "k = Suc j" by (cases k) auto
    with "1.prems" have "n div 2 < 2 ^ j" by auto
    from "1.IH" [OF False this] False k show ?thesis by (simp add: Len64.simps [of n])
  qed
qed

text \<open>One Newton step never goes below the root.\<close>

lemma newton_above:
  fixes n x :: nat
  assumes "0 < x"
  defines "y \<equiv> (x + n div x) div 2"
  shows "n < (y + 1)\<^sup>2"
proof -
  let ?q = "n div x + 1"
  have q: "n < x * ?q"
    using assms(1) dividend_less_times_div [of x n] by (simp add: algebra_simps)
  have "x + ?q \<le> 2 * (y + 1)" by (simp add: y_def)
  then have "(x + ?q)\<^sup>2 \<le> (2 * (y + 1))\<^sup>2" by (rule power_mono) simp
  moreover have "4 * (x * ?q) \<le> (x + ?q)\<^sup>2"
  proof -
    have "int (4 * (x * ?q)) \<le> int ((x + ?q)\<^sup>2)"
      using zero_le_power2 [of "int x - int ?q"] by (simp add: power2_eq_square algebra_simps)
    then show ?thesis by (simp only: of_nat_le_iff)
  qed
  moreover have "(2 * (y + 1))\<^sup>2 = 4 * (y + 1)\<^sup>2" by (simp only: power_mult_distrib) simp
  ultimately have "4 * n < 4 * (y + 1)\<^sup>2" using q by linarith
  then show ?thesis by simp
qed

lemma isqrt_loop_correct:
  assumes "0 < x" and "unat x \<le> 2 ^ 32" and "unat n < (unat x + 1)\<^sup>2" and "0 < n"
  shows "(unat (isqrt_loop n x))\<^sup>2 \<le> unat n \<and> unat n < (unat (isqrt_loop n x) + 1)\<^sup>2"
  using assms
proof (induction n x rule: isqrt_loop.induct)
  case (1 n x)
  let ?N = "unat n" and ?X = "unat x"
  let ?y = "(x + n div x) div 2"
  have X: "0 < ?X" using "1.prems"(1) by (simp add: word_gt_0_no unat_gt_0)
  have "?N div ?X \<le> ?X + 2"
  proof -
    have "?N < ?X * (?X + 3)"
      using "1.prems"(3) X by (simp add: power2_eq_square algebra_simps)
    then have "?N div ?X < ?X + 3" by (simp add: less_mult_imp_div_less mult.commute)
    then show ?thesis by simp
  qed
  then have sum: "?X + ?N div ?X < 2 ^ 64" using "1.prems"(2) by simp
  have y: "unat ?y = (?X + ?N div ?X) div 2"
    using sum by (simp add: unat_div unat_word_ariths)
  have above: "?N < (unat ?y + 1)\<^sup>2" unfolding y by (rule newton_above [OF X])
  show ?case
  proof (cases "x \<le> ?y")
    case True
    then have "2 * ?X \<le> ?X + ?N div ?X" by (simp add: word_le_nat_alt y)
    then have "?X \<le> ?N div ?X" by simp
    then have "?X * ?X \<le> ?N" using X by (simp add: less_eq_div_iff_mult_less_eq)
    with True "1.prems"(3) show ?thesis
      by (simp add: isqrt_loop.simps [of n x] power2_eq_square)
  next
    case False
    then have less: "unat ?y < ?X" by (simp add: word_le_nat_alt)
    have pos: "0 < ?y"
    proof (rule ccontr)
      assume "\<not> 0 < ?y"
      then have "unat ?y = 0" by (metis unat_gt_0 word_gt_0 unat_0)
      with above "1.prems"(4) show False by (simp add: word_less_nat_alt)
    qed
    from "1.IH" [OF refl False pos _ above "1.prems"(4)] less "1.prems"(2) False
    show ?thesis by (simp add: isqrt_loop.simps [of n x])
  qed
qed

text \<open>\<open>isqrt\<close> ends and returns the floor of the square root of every 64-bit number; no
  intermediate sum overflows and no division is by zero.\<close>

theorem isqrt_correct:
  "(unat (isqrt n))\<^sup>2 \<le> unat n \<and> unat n < (unat (isqrt n) + 1)\<^sup>2"
proof (cases "n = 0")
  case True
  then show ?thesis by (simp add: isqrt_def)
next
  case False
  define k where "k = (Len64 (unat n) + 1) div 2"
  define x :: uint64 where "x = push_bit k 1"
  have "unat n < 2 ^ 64" using unat_bound [of n] by simp
  then have "Len64 (unat n) \<le> 64" by (rule Len64_le)
  then have k: "k \<le> 32" by (simp add: k_def)
  have p: "(2::nat) ^ k \<le> 2 ^ 32" using k by (rule power_increasing) simp
  have x: "unat x = 2 ^ k"
  proof -
    have "x = of_nat (2 ^ k)" by (simp add: x_def push_bit_eq_mult)
    then show ?thesis using p by (simp only:) (rule unat_of_nat_id, simp)
  qed
  have "0 < n" and "0 < x" using False x by (auto simp: word_gt_0)
  moreover have "unat x \<le> 2 ^ 32" using x p by simp
  moreover have "unat n < (unat x + 1)\<^sup>2"
  proof -
    have "unat n < 2 ^ Len64 (unat n)" by (rule Len64_bound)
    also have "\<dots> \<le> 2 ^ (2 * k)" by (rule power_increasing) (simp_all add: k_def)
    also have "\<dots> = (2 ^ k)\<^sup>2" by (metis mult.commute power_mult)
    also have "\<dots> \<le> (unat x + 1)\<^sup>2" using x by (simp add: power_mono)
    finally show ?thesis .
  qed
  ultimately show ?thesis
    using isqrt_loop_correct [of x n] False by (simp add: isqrt_def x_def k_def)
qed

lemma OptimalBlockSize_bounds:
  "1024 \<le> unat (OptimalBlockSizeForBaseLength l)"
  "unat (OptimalBlockSizeForBaseLength l) \<le> 65536"
  by (auto simp: OptimalBlockSizeForBaseLength_def minBlockSize_def maxBlockSize_def Let_def
      word_less_nat_alt not_less)

lemma OptimalBlockSize_pos: "0 < unat (OptimalBlockSizeForBaseLength l)"
  by (rule less_le_trans [OF _ OptimalBlockSize_bounds(1)]) simp

end
