(* ===== verification/Rsync_Engine.thy ===== *)
theory Rsync_Engine
  imports Rsync_Hash
begin

text \<open>
  The delta engine, \<^verbatim>\<open>lib/rsync/engine.go\<close>: signatures, the streaming scan
  \<open>Deltify\<close> and \<open>Patch\<close>.

  SHA-1 is a parameter of the definitions.  A reader is the bytes it still delivers and
  whether it then fails instead of ending.  The handler that receives operations is a
  parameter that threads a state of any type.  Allocation is modelled as far as the
  language defines it: \<open>make\<close> with more than \<open>maxAlloc\<close> bytes panics.
\<close>

section \<open>Types (operation.go)\<close>

datatype operation_type = OpBlock | OpData | OpOther int

record operation =
  Type :: operation_type
  BlockStart :: uint64
  BlockCount :: uint64
  Data :: bytes

record block_hash =
  WeakHash :: uint32
  StrongHash :: bytes

record signature =
  BlockSize :: uint64
  LastBlockSize :: uint64
  Hashes :: "block_hash list"

datatype rsync_error =
    ReadError
  | NilSignature | ZeroBlockSize | LastExceedsBlock | ZeroLastBlock
  | PatchZeroBlockSize | ZeroBlockCount | BlocksBeyondBase | UnknownOperation int
  | CorruptSignature | CorruptDelta

section \<open>Readers\<close>

record reader =
  unread :: bytes
  fails :: bool

datatype read_status = ReadOk | AtEOF | ReadFailed

text \<open>\<open>io.ReadFull\<close>; the callers treat \<open>io.EOF\<close> and \<open>io.ErrUnexpectedEOF\<close> alike.\<close>

definition ReadFull :: "reader \<Rightarrow> nat \<Rightarrow> bytes \<times> read_status \<times> reader" where
  "ReadFull r n =
     (if n \<le> length (unread r) then (take n (unread r), ReadOk, r\<lparr>unread := drop n (unread r)\<rparr>)
      else (unread r, if fails r then ReadFailed else AtEOF, r\<lparr>unread := []\<rparr>))"

definition NewReader :: "bytes \<Rightarrow> reader" where
  "NewReader bs = \<lparr>unread = bs, fails = False\<rparr>"

text \<open>The largest allocation of the Go runtime on 64-bit platforms.\<close>

definition maxAlloc :: nat where
  "maxAlloc = 2 ^ 48"

definition maxDataOperationSize :: nat where
  "maxDataOperationSize = 1024 * 1024"

definition deltaReadChunk :: nat where
  "deltaReadChunk = 64 * 1024"

record engine =
  bufferLen :: nat

definition NewEngine :: "int \<Rightarrow> engine" where
  "NewEngine bufferSize =
     \<lparr>bufferLen = (if bufferSize < 1 then unat maxBlockSize else nat bufferSize)\<rparr>"

section \<open>Signatures\<close>

definition block_hash_of :: "(bytes \<Rightarrow> bytes) \<Rightarrow> bytes \<Rightarrow> block_hash" where
  "block_hash_of sha1 block =
     \<lparr>WeakHash = Sum (Write (NewRollingHash (length block)) block), StrongHash = sha1 block\<rparr>"

function gen_loop ::
  "(bytes \<Rightarrow> bytes) \<Rightarrow> uint64 \<Rightarrow> reader \<Rightarrow> signature \<Rightarrow> (rsync_error, signature) outcome" where
  "gen_loop sha1 fileSize r sig =
     (case ReadFull r (unat (OptimalBlockSizeForBaseLength fileSize)) of
        (block, st, r') \<Rightarrow>
          let sig' =
            (if 0 < length block
             then sig\<lparr>Hashes := Hashes sig @ [block_hash_of sha1 block],
                      LastBlockSize := of_nat (length block)\<rparr>
             else sig)
          in case st of
               AtEOF \<Rightarrow> Ok sig'
             | ReadFailed \<Rightarrow> Err ReadError
             | ReadOk \<Rightarrow> gen_loop sha1 fileSize r' sig')"
  by pat_completeness auto
termination
  by (relation "measure (\<lambda>(sha1, f, r, sig). length (unread r))")
    (auto simp: ReadFull_def split: if_splits intro!: diff_less OptimalBlockSize_pos
      dest: le_trans [OF OptimalBlockSize_bounds(1)])

declare gen_loop.simps [simp del]

definition GenerateSignature ::
  "(bytes \<Rightarrow> bytes) \<Rightarrow> reader \<Rightarrow> uint64 \<Rightarrow> (rsync_error, signature) outcome" where
  "GenerateSignature sha1 r fileSize =
     obind (gen_loop sha1 fileSize r
         \<lparr>BlockSize = OptimalBlockSizeForBaseLength fileSize, LastBlockSize = 0, Hashes = []\<rparr>)
       (\<lambda>sig. Ok (if length (Hashes sig) = 0 then sig\<lparr>LastBlockSize := 0\<rparr> else sig))"

text \<open>A nil signature is \<open>None\<close>.\<close>

definition validateSignature :: "signature option \<Rightarrow> (rsync_error, signature) outcome" where
  "validateSignature osig =
     (case osig of
        None \<Rightarrow> Err NilSignature
      | Some sig \<Rightarrow>
          if BlockSize sig = 0 then Err ZeroBlockSize
          else if BlockSize sig < LastBlockSize sig then Err LastExceedsBlock
          else if 0 < length (Hashes sig) \<and> LastBlockSize sig = 0 then Err ZeroLastBlock
          else Ok sig)"

definition blockLength :: "signature \<Rightarrow> nat \<Rightarrow> uint64" where
  "blockLength sig index =
     (if int index = int (length (Hashes sig)) - 1 then LastBlockSize sig else BlockSize sig)"

section \<open>Matching\<close>

type_synonym weak_map = "uint32 \<rightharpoonup> nat list"

fun weak_loop :: "nat \<Rightarrow> block_hash list \<Rightarrow> weak_map \<Rightarrow> weak_map" where
  "weak_loop i [] m = m"
| "weak_loop i (h # hs) m =
     weak_loop (Suc i) hs
       (m(WeakHash h \<mapsto> (case m (WeakHash h) of None \<Rightarrow> [] | Some is \<Rightarrow> is) @ [i]))"

definition build_weak_map :: "signature \<Rightarrow> weak_map" where
  "build_weak_map sig = weak_loop 0 (Hashes sig) (\<lambda>w. None)"

definition matchBlockWithWeak ::
  "(bytes \<Rightarrow> bytes) \<Rightarrow> bytes \<Rightarrow> uint32 \<Rightarrow> weak_map \<Rightarrow> signature \<Rightarrow> nat option" where
  "matchBlockWithWeak sha1 data weak wm sig =
     (case wm weak of
        None \<Rightarrow> None
      | Some candidates \<Rightarrow>
          let strong = sha1 data
          in find (\<lambda>idx. blockLength sig idx = of_nat (length data) \<and>
                         StrongHash (Hashes sig ! idx) = strong) candidates)"

definition matchBlock :: "(bytes \<Rightarrow> bytes) \<Rightarrow> bytes \<Rightarrow> weak_map \<Rightarrow> signature \<Rightarrow> nat option" where
  "matchBlock sha1 data wm sig =
     matchBlockWithWeak sha1 data (Sum (Write (NewRollingHash (length data)) data)) wm sig"

section \<open>The sliding window\<close>

text \<open>
  The window is the buffer, the cursor, the end-of-input mark and the reader behind it.  The
  capacity of the buffer is not part of the state: it decides only whether memory is reused.
\<close>

record delta_window =
  wr :: reader
  wbuf :: bytes
  wpos :: nat
  weof :: bool

definition avail :: "delta_window \<Rightarrow> int" where
  "avail w = int (length (wbuf w)) - int (wpos w)"

function ensure :: "delta_window \<Rightarrow> int \<Rightarrow> (rsync_error, delta_window) outcome" where
  "ensure w n =
     (if avail w < n \<and> \<not> weof w
      then
        let rest = drop (wpos w) (wbuf w);
            want = (if n < int deltaReadChunk then deltaReadChunk else nat n)
        in if maxAlloc < length rest + want then Panic
           else
             case ReadFull (wr w) want of
               (bs, st, r') \<Rightarrow>
                 let w' = w\<lparr>wr := r', wbuf := rest @ bs, wpos := 0\<rparr>
                 in case st of
                      AtEOF \<Rightarrow> ensure (w'\<lparr>weof := True\<rparr>) n
                    | ReadFailed \<Rightarrow> Err ReadError
                    | ReadOk \<Rightarrow> ensure w' n
      else Ok w)"
  by pat_completeness auto
termination
  by (relation "measure (\<lambda>(w, n). if weof w then 0 else Suc (length (unread (wr w))))")
    (auto simp: ReadFull_def deltaReadChunk_def split: if_splits)

declare ensure.simps [simp del]

text \<open>
  \<open>peek\<close> slices the buffer.  A slice beyond the length of the buffer is made a panic here,
  also where the capacity would allow it; the scan is shown never to ask for one.
\<close>

definition peek :: "delta_window \<Rightarrow> int \<Rightarrow> (rsync_error, bytes) outcome" where
  "peek w n = (if n < 0 \<or> avail w < n then Panic else Ok (take (nat n) (drop (wpos w) (wbuf w))))"

definition advance :: "delta_window \<Rightarrow> int \<Rightarrow> delta_window" where
  "advance w n = w\<lparr>wpos := wpos w + nat n\<rparr>"

section \<open>Emitting operations\<close>

type_synonym 's handler = "operation \<Rightarrow> 's \<Rightarrow> (rsync_error, 's) outcome"

record 's delta_state =
  pending :: bytes
  pendingBlock :: "operation option"
  sink :: 's

definition data_op :: "bytes \<Rightarrow> operation" where
  "data_op bs = \<lparr>Type = OpData, BlockStart = 0, BlockCount = 0, Data = bs\<rparr>"

definition block_op :: "uint64 \<Rightarrow> uint64 \<Rightarrow> operation" where
  "block_op start count = \<lparr>Type = OpBlock, BlockStart = start, BlockCount = count, Data = []\<rparr>"

definition flushBlock :: "'s handler \<Rightarrow> 's delta_state \<Rightarrow> (rsync_error, 's delta_state) outcome" where
  "flushBlock h d =
     (case pendingBlock d of
        None \<Rightarrow> Ok d
      | Some op \<Rightarrow> obind (h op (sink d)) (\<lambda>s. Ok (d\<lparr>pendingBlock := None, sink := s\<rparr>)))"

function emit_chunks :: "'s handler \<Rightarrow> bytes \<Rightarrow> 's \<Rightarrow> (rsync_error, 's) outcome" where
  "emit_chunks h data s =
     (if 0 < length data
      then
        let n = (if maxDataOperationSize < length data then maxDataOperationSize else length data)
        in obind (h (data_op (take n data)) s) (\<lambda>s. emit_chunks h (drop n data) s)
      else Ok s)"
  by pat_completeness auto
termination
  by (relation "measure (\<lambda>(h, data, s). length data)") (auto simp: maxDataOperationSize_def)

declare emit_chunks.simps [simp del]

definition emitData ::
  "'s handler \<Rightarrow> bytes \<Rightarrow> 's delta_state \<Rightarrow> (rsync_error, 's delta_state) outcome" where
  "emitData h data d =
     obind (flushBlock h d) (\<lambda>d. obind (emit_chunks h data (sink d)) (\<lambda>s. Ok (d\<lparr>sink := s\<rparr>)))"

definition flushPending :: "'s handler \<Rightarrow> 's delta_state \<Rightarrow> (rsync_error, 's delta_state) outcome" where
  "flushPending h d =
     (if length (pending d) = 0 then Ok d
      else obind (emitData h (pending d) d) (\<lambda>d. Ok (d\<lparr>pending := []\<rparr>)))"

definition emitBlock ::
  "'s handler \<Rightarrow> nat \<Rightarrow> 's delta_state \<Rightarrow> (rsync_error, 's delta_state) outcome" where
  "emitBlock h blockIndex d =
     obind (flushPending h d) (\<lambda>d.
       case pendingBlock d of
         Some op \<Rightarrow>
           if BlockStart op + BlockCount op = of_nat blockIndex
           then Ok (d\<lparr>pendingBlock := Some (op\<lparr>BlockCount := BlockCount op + 1\<rparr>)\<rparr>)
           else obind (flushBlock h d) (\<lambda>d.
             Ok (d\<lparr>pendingBlock := Some (block_op (of_nat blockIndex) 1)\<rparr>))
       | None \<Rightarrow>
           obind (flushBlock h d) (\<lambda>d.
             Ok (d\<lparr>pendingBlock := Some (block_op (of_nat blockIndex) 1)\<rparr>)))"

definition addLiteral ::
  "'s handler \<Rightarrow> bytes \<Rightarrow> 's delta_state \<Rightarrow> (rsync_error, 's delta_state) outcome" where
  "addLiteral h b d =
     (let d' = d\<lparr>pending := pending d @ b\<rparr>
      in if maxDataOperationSize \<le> length (pending d') then flushPending h d' else Ok d')"

section \<open>The scan\<close>

text \<open>The bytes of the target that the scan has not passed yet.\<close>

definition remaining :: "delta_window \<Rightarrow> bytes" where
  "remaining w = drop (wpos w) (wbuf w) @ unread (wr w)"

lemma ensure_remaining: "ensure w n = Ok w' \<Longrightarrow> remaining w' = remaining w"
proof (induction w n rule: ensure.induct)
  case (1 w n)
  show ?case
  proof (cases "avail w < n \<and> \<not> weof w")
    case False
    with "1.prems" show ?thesis by (simp add: ensure.simps [of w n])
  next
    case True
    define rest where "rest = drop (wpos w) (wbuf w)"
    define want where "want = (if n < int deltaReadChunk then deltaReadChunk else nat n)"
    obtain bs st r' where rd: "ReadFull (wr w) want = (bs, st, r')" by (cases "ReadFull (wr w) want")
    then have split: "bs @ unread r' = unread (wr w)" by (auto simp: ReadFull_def split: if_splits)
    have small: "\<not> maxAlloc < length rest + want"
      using "1.prems" True by (auto simp: ensure.simps [of w n] rest_def want_def Let_def)
    note IH = "1.IH" [OF True rest_def want_def small rd [symmetric] refl refl]
    from "1.prems" True small rd show ?thesis
      using IH split
      by (cases st) (simp_all add: ensure.simps [of w n] Let_def remaining_def
          rest_def [symmetric] want_def [symmetric])
  qed
qed

lemma remaining_advance:
  assumes "0 < n" and "n \<le> avail w"
  shows "remaining w = take (nat n) (drop (wpos w) (wbuf w)) @ remaining (advance w n)"
    and "length (remaining (advance w n)) < length (remaining w)"
proof -
  have "drop (wpos w) (wbuf w) = take (nat n) (drop (wpos w) (wbuf w)) @ drop (wpos w + nat n) (wbuf w)"
    by (metis append_take_drop_id drop_drop add.commute)
  then show "remaining w = take (nat n) (drop (wpos w) (wbuf w)) @ remaining (advance w n)"
    by (simp add: remaining_def advance_def)
  then show "length (remaining (advance w n)) < length (remaining w)"
    using assms by (simp add: avail_def)
qed

lemma advance_shorter:
  "0 < n \<Longrightarrow> n \<le> avail w \<Longrightarrow> remaining w = remaining v \<Longrightarrow>
   length (remaining (advance w n)) < length (remaining v)"
  using remaining_advance(2) [of n w] by simp

lemma peek_Ok: "peek w n = Ok bs \<Longrightarrow> 0 \<le> n \<and> n \<le> avail w \<and> bs = take (nat n) (drop (wpos w) (wbuf w))"
  by (auto simp: peek_def split: if_splits)

text \<open>
  The two nested loops of \<open>Deltify\<close> as one function.  \<open>None\<close> is the head of the outer
  loop; \<open>Some rh\<close> is the head of the inner loop with its rolling hash.  A block size of zero
  does not get here, \<open>validateSignature\<close> has refused it; \<open>make\<close> panics for a negative one.
\<close>

function delta_loop ::
  "(bytes \<Rightarrow> bytes) \<Rightarrow> 's handler \<Rightarrow> signature \<Rightarrow> weak_map \<Rightarrow> int \<Rightarrow> int \<Rightarrow>
   rolling_hash option \<Rightarrow> delta_window \<Rightarrow> 's delta_state \<Rightarrow> (rsync_error, 's delta_state) outcome" where
  "delta_loop sha1 h sig wm bsize lsize None w d =
     obind (ensure w bsize) (\<lambda>w.
       if avail w = 0 then Ok d
       else if avail w < bsize then
         obind (peek w (avail w)) (\<lambda>tail.
           case (if (0 < lsize \<and> lsize < bsize) \<and> lsize \<le> avail w
                 then matchBlock sha1 (take (nat lsize) tail) wm sig else None) of
             Some idx \<Rightarrow>
               obind (emitBlock h idx d) (\<lambda>d.
                 delta_loop sha1 h sig wm bsize lsize None (advance w lsize) d)
           | None \<Rightarrow>
               obind (addLiteral h tail d) (\<lambda>d.
                 delta_loop sha1 h sig wm bsize lsize None (advance w (avail w)) d))
       else if bsize \<le> 0 then Panic
       else
         obind (peek w bsize) (\<lambda>block.
           delta_loop sha1 h sig wm bsize lsize
             (Some (Write (NewRollingHash (nat bsize)) block)) w d))"
| "delta_loop sha1 h sig wm bsize lsize (Some rh) w d =
     (if bsize \<le> 0 then Panic
      else
        obind (peek w bsize) (\<lambda>block.
          case matchBlockWithWeak sha1 block (Sum rh) wm sig of
            Some idx \<Rightarrow>
              obind (emitBlock h idx d) (\<lambda>d.
                delta_loop sha1 h sig wm bsize lsize None (advance w bsize) d)
          | None \<Rightarrow>
              obind (if 0 < lsize \<and> lsize < bsize
                     then obind (peek w lsize) (\<lambda>last. Ok (matchBlock sha1 last wm sig))
                     else Ok None) (\<lambda>m.
                case m of
                  Some idx \<Rightarrow>
                    obind (emitBlock h idx d) (\<lambda>d.
                      delta_loop sha1 h sig wm bsize lsize None (advance w lsize) d)
                | None \<Rightarrow>
                    obind (peek w 1) (\<lambda>b.
                    obind (addLiteral h b d) (\<lambda>d.
                    obind (ensure (advance w 1) bsize) (\<lambda>w.
                      if avail w < bsize
                      then delta_loop sha1 h sig wm bsize lsize None w d
                      else
                        obind (peek w bsize) (\<lambda>block.
                        obind (Roll rh (block ! nat (bsize - 1))) (\<lambda>rh.
                          delta_loop sha1 h sig wm bsize lsize (Some rh) w d))))))))"
  by pat_completeness auto

termination
proof (relation "measures [\<lambda>(sha1, h, sig, wm, bs, ls, rh, w, d). length (remaining w),
      \<lambda>(sha1, h, sig, wm, bs, ls, rh, w, d). if rh = None then 1 else 0]", goal_cases)
  case 1 show ?case by simp
qed (auto dest!: peek_Ok ensure_remaining intro!: advance_shorter split: if_splits)

declare delta_loop.simps [simp del]

function emitAllAsData :: "'s handler \<Rightarrow> reader \<Rightarrow> 's \<Rightarrow> (rsync_error, 's) outcome" where
  "emitAllAsData h r s =
     (case ReadFull r maxDataOperationSize of
        (bs, st, r') \<Rightarrow>
          obind (if 0 < length bs then h (data_op bs) s else Ok s) (\<lambda>s.
            case st of
              AtEOF \<Rightarrow> Ok s
            | ReadFailed \<Rightarrow> Err ReadError
            | ReadOk \<Rightarrow> emitAllAsData h r' s))"
  by pat_completeness auto
termination
  by (relation "measure (\<lambda>(h, r, s). length (unread r))")
    (auto simp: ReadFull_def maxDataOperationSize_def split: if_splits)

declare emitAllAsData.simps [simp del]

definition Deltify ::
  "(bytes \<Rightarrow> bytes) \<Rightarrow> reader \<Rightarrow> signature option \<Rightarrow> 's handler \<Rightarrow> 's \<Rightarrow> (rsync_error, 's) outcome" where
  "Deltify sha1 r osig h s =
     obind (validateSignature osig) (\<lambda>sig.
       if length (Hashes sig) = 0 then emitAllAsData h r s
       else
         obind (delta_loop sha1 h sig (build_weak_map sig)
             (int64 (uint (BlockSize sig))) (int64 (uint (LastBlockSize sig))) None
             \<lparr>wr = r, wbuf = [], wpos = 0, weof = False\<rparr>
             \<lparr>pending = [], pendingBlock = None, sink = s\<rparr>) (\<lambda>d.
         obind (flushPending h d) (\<lambda>d.
         obind (flushBlock h d) (\<lambda>d. Ok (sink d)))))"

section \<open>Patch\<close>

text \<open>
  One block of an \<open>OpBlock\<close>.  The base is read at a 64-bit offset; a negative one is an error
  of \<open>Seek\<close>, and an offset where fewer than \<open>size\<close> bytes are left is one of \<open>ReadFull\<close>.
\<close>

definition patch_block :: "bytes \<Rightarrow> uint64 \<Rightarrow> uint64 \<Rightarrow> (rsync_error, bytes) outcome" where
  "patch_block base bsize blockIndex =
     (let offset = int64 (uint (blockIndex * bsize));
          left = of_nat (length base) - word_of_int offset :: uint64;
          size = (if left < bsize then left else bsize)
      in if offset < 0 \<or> length base - nat offset < unat size then Err ReadError
         else Ok (take (unat size) (drop (nat offset) base)))"

fun patch_blocks :: "bytes \<Rightarrow> uint64 \<Rightarrow> uint64 \<Rightarrow> nat list \<Rightarrow> bytes \<Rightarrow> (rsync_error, bytes) outcome" where
  "patch_blocks base bsize start [] out = Ok out"
| "patch_blocks base bsize start (i # is) out =
     obind (patch_block base bsize (start + of_nat i)) (\<lambda>bs.
       patch_blocks base bsize start is (out @ bs))"

definition patch_op ::
  "bytes \<Rightarrow> uint64 \<Rightarrow> uint64 \<Rightarrow> operation \<Rightarrow> bytes \<Rightarrow> (rsync_error, bytes) outcome" where
  "patch_op base bsize blockCount op out =
     (case Type op of
        OpData \<Rightarrow> Ok (out @ Data op)
      | OpBlock \<Rightarrow>
          if BlockCount op = 0 then Err ZeroBlockCount
          else if blockCount \<le> BlockStart op \<or> blockCount - BlockStart op < BlockCount op
          then Err BlocksBeyondBase
          else patch_blocks base bsize (BlockStart op) [0..<unat (BlockCount op)] out
      | OpOther t \<Rightarrow> Err (UnknownOperation t))"

fun patch_ops ::
  "bytes \<Rightarrow> uint64 \<Rightarrow> uint64 \<Rightarrow> operation list \<Rightarrow> bytes \<Rightarrow> (rsync_error, bytes) outcome" where
  "patch_ops base bsize blockCount [] out = Ok out"
| "patch_ops base bsize blockCount (op # ops) out =
     obind (patch_op base bsize blockCount op out) (\<lambda>out. patch_ops base bsize blockCount ops out)"

definition Patch ::
  "engine \<Rightarrow> bytes \<Rightarrow> operation list \<Rightarrow> uint64 \<Rightarrow> bytes \<Rightarrow> (rsync_error, bytes) outcome" where
  "Patch e base ops bsize out =
     (if bsize = 0 then Err PatchZeroBlockSize
      else
        let baseSize = of_nat (length base) :: uint64;
            blockCount = (if 0 < length base then (baseSize + bsize - 1) div bsize else 0)
        in if bufferLen e < unat bsize \<and> maxAlloc < unat bsize then Panic
           else patch_ops base bsize blockCount ops out)"

end
