(* ===== verification/Rsync_Delta.thy ===== *)
theory Rsync_Delta
  imports Rsync_Engine
begin

text \<open>
  Correctness of the delta engine.  The interface between the scan and whoever receives its
  operations is the locale \<open>op_sink\<close>: a handler that never fails and records every operation
  in order.  Inside it, each emitting operation is shown to add exactly its bytes to the
  stream that the operations stand for, and the scan to add exactly the bytes it reads.  The
  handler of \<open>DeltaBytes\<close>, which appends to a slice, is an instance.
\<close>

section \<open>What operations stand for\<close>

definition block_at :: "bytes \<Rightarrow> nat \<Rightarrow> nat \<Rightarrow> bytes" where
  "block_at base bs i = take bs (drop (i * bs) base)"

definition op_bytes :: "bytes \<Rightarrow> nat \<Rightarrow> operation \<Rightarrow> bytes" where
  "op_bytes base bs op =
     (case Type op of
        OpData \<Rightarrow> Data op
      | OpBlock \<Rightarrow> concat (map (block_at base bs)
          [unat (BlockStart op)..<unat (BlockStart op) + unat (BlockCount op)])
      | OpOther t \<Rightarrow> [])"

definition ops_bytes :: "bytes \<Rightarrow> nat \<Rightarrow> operation list \<Rightarrow> bytes" where
  "ops_bytes base bs ops = concat (map (op_bytes base bs) ops)"

definition good_op :: "nat \<Rightarrow> operation \<Rightarrow> bool" where
  "good_op n op =
     (case Type op of
        OpData \<Rightarrow> op = data_op (Data op) \<and> 0 < length (Data op) \<and> length (Data op) \<le> maxDataOperationSize
      | OpBlock \<Rightarrow> op = block_op (BlockStart op) (BlockCount op) \<and> 0 < unat (BlockCount op) \<and>
          unat (BlockStart op) + unat (BlockCount op) \<le> n
      | OpOther t \<Rightarrow> False)"

lemma ops_bytes_simps [simp]:
  "ops_bytes base bs [] = []"
  "ops_bytes base bs (op # ops) = op_bytes base bs op @ ops_bytes base bs ops"
  "ops_bytes base bs (ops @ ops') = ops_bytes base bs ops @ ops_bytes base bs ops'"
  by (simp_all add: ops_bytes_def)

lemma op_bytes_data [simp]: "op_bytes base bs (data_op data) = data"
  and op_bytes_block: "op_bytes base bs (block_op s c) =
    concat (map (block_at base bs) [unat s..<unat s + unat c])"
  by (simp_all add: op_bytes_def data_op_def block_op_def)

lemma good_op_data [simp]: "good_op n (data_op data) \<longleftrightarrow> 0 < length data \<and> length data \<le> maxDataOperationSize"
  and good_op_block: "good_op n (block_op s c) \<longleftrightarrow> 0 < unat c \<and> unat s + unat c \<le> n"
  by (simp_all add: good_op_def data_op_def block_op_def)

definition pending_bytes :: "bytes \<Rightarrow> nat \<Rightarrow> 's delta_state \<Rightarrow> bytes" where
  "pending_bytes base bs d =
     (case pendingBlock d of None \<Rightarrow> [] | Some op \<Rightarrow> op_bytes base bs op) @ pending d"

definition good_pending :: "nat \<Rightarrow> 's delta_state \<Rightarrow> bool" where
  "good_pending n d =
     (case pendingBlock d of None \<Rightarrow> True | Some op \<Rightarrow> Type op = OpBlock \<and> good_op n op)"

section \<open>The interface to the receiver of operations\<close>

locale op_sink =
  fixes h :: "'s handler" and ops :: "'s \<Rightarrow> operation list"
  assumes handle: "\<exists>s'. h op s = Ok s' \<and> ops s' = ops s @ [op]"
begin

definition stream :: "bytes \<Rightarrow> nat \<Rightarrow> 's delta_state \<Rightarrow> bytes" where
  "stream base bs d = ops_bytes base bs (ops (sink d)) @ pending_bytes base bs d"

definition good_state :: "nat \<Rightarrow> 's delta_state \<Rightarrow> bool" where
  "good_state n d \<longleftrightarrow> list_all (good_op n) (ops (sink d)) \<and> good_pending n d"

lemma flushBlock_ok:
  assumes "good_state n d"
  obtains d' where "flushBlock h d = Ok d'" and "good_state n d'"
    and "stream base bs d' = stream base bs d" and "pendingBlock d' = None" and "pending d' = pending d"
proof (cases "pendingBlock d")
  case None
  with assms show ?thesis by (intro that [of d]) (simp_all add: flushBlock_def)
next
  case (Some op)
  obtain s' where "h op (sink d) = Ok s'" "ops s' = ops (sink d) @ [op]" using handle by blast
  with Some assms show ?thesis
    by (intro that [of "d\<lparr>pendingBlock := None, sink := s'\<rparr>"])
      (simp_all add: flushBlock_def good_state_def good_pending_def stream_def pending_bytes_def)
qed

lemma emit_chunks_ok:
  "list_all (good_op n) (ops s) \<Longrightarrow>
   \<exists>s'. emit_chunks h data s = Ok s' \<and> list_all (good_op n) (ops s') \<and>
     ops_bytes base bs (ops s') = ops_bytes base bs (ops s) @ data"
proof (induction "length data" arbitrary: data s rule: less_induct)
  case less
  show ?case
  proof (cases "data = []")
    case True
    with less.prems show ?thesis by (simp add: emit_chunks.simps)
  next
    case False
    define k where "k = (if maxDataOperationSize < length data then maxDataOperationSize else length data)"
    have k: "0 < k" "k \<le> length data" "k \<le> maxDataOperationSize"
      using False by (auto simp: k_def maxDataOperationSize_def)
    obtain s1 where s1: "h (data_op (take k data)) s = Ok s1" "ops s1 = ops s @ [data_op (take k data)]"
      using handle by blast
    have good: "list_all (good_op n) (ops s1)" using s1(2) less.prems k False by simp
    have "length (drop k data) < length data" using k by simp
    from less.hyps [OF this good] obtain s' where
      "emit_chunks h (drop k data) s1 = Ok s'" "list_all (good_op n) (ops s')"
      "ops_bytes base bs (ops s') = ops_bytes base bs (ops s1) @ drop k data" by blast
    then show ?thesis
      using False s1 by (subst emit_chunks.simps) (simp add: k_def [symmetric] Let_def)
  qed
qed

lemma flushPending_ok:
  assumes "good_state n d"
  obtains d' where "flushPending h d = Ok d'" and "good_state n d'"
    and "stream base bs d' = stream base bs d" and "pending d' = []"
proof (cases "pending d = []")
  case True
  with assms show ?thesis by (intro that [of d]) (simp_all add: flushPending_def)
next
  case False
  obtain d1 where d1: "flushBlock h d = Ok d1" "good_state n d1"
    "stream base bs d1 = stream base bs d" "pendingBlock d1 = None" "pending d1 = pending d"
    by (rule flushBlock_ok [OF assms])
  have "list_all (good_op n) (ops (sink d1))" using d1(2) by (simp add: good_state_def)
  from emit_chunks_ok [OF this] obtain s' where
    s': "emit_chunks h (pending d) (sink d1) = Ok s'" "list_all (good_op n) (ops s')"
    "ops_bytes base bs (ops s') = ops_bytes base bs (ops (sink d1)) @ pending d" by blast
  show ?thesis
  proof (rule that [of "d1\<lparr>sink := s', pending := []\<rparr>"])
    show "flushPending h d = Ok (d1\<lparr>sink := s', pending := []\<rparr>)"
      using False d1(1) s'(1) by (simp add: flushPending_def emitData_def)
    show "stream base bs (d1\<lparr>sink := s', pending := []\<rparr>) = stream base bs d"
      using d1(3, 4, 5) s'(3) by (simp add: stream_def pending_bytes_def)
  qed (use d1(4) s'(2) in \<open>simp_all add: good_state_def good_pending_def\<close>)
qed

lemma emitBlock_ok:
  assumes "good_state n d" and "i < n" and "n < 2 ^ 64"
  obtains d' where "emitBlock h i d = Ok d'" and "good_state n d'"
    and "stream base bs d' = stream base bs d @ block_at base bs i"
proof -
  obtain d1 where d1: "flushPending h d = Ok d1" "good_state n d1"
    "stream base bs d1 = stream base bs d" "pending d1 = []"
    by (rule flushPending_ok [OF assms(1)])
  have i: "unat (of_nat i :: uint64) = i" using assms(2, 3) by (intro unat_of_nat_id) simp
  show ?thesis
  proof (cases "\<exists>op. pendingBlock d1 = Some op \<and> BlockStart op + BlockCount op = of_nat i")
    case True
    then obtain op where op: "pendingBlock d1 = Some op" "BlockStart op + BlockCount op = of_nat i" by blast
    define s c where "s = BlockStart op" and "c = BlockCount op"
    have sc: "op = block_op s c" "0 < unat c" "unat s + unat c \<le> n"
      using d1(2) op(1) by (auto simp: good_state_def good_pending_def good_op_def s_def c_def)
    have sum: "unat s + unat c = i"
    proof -
      have "unat (s + c) = unat s + unat c" using sc(3) assms(3) by (intro unat_plus_small) simp
      with op(2) i show ?thesis by (simp add: s_def c_def)
    qed
    have c1: "unat (c + 1) = unat c + 1"
    proof -
      have "unat c + 1 < 2 ^ 64" using sum assms(2, 3) by simp
      then show ?thesis by (simp add: unat_word_ariths)
    qed
    have bytes: "op_bytes base bs (block_op s (c + 1)) = op_bytes base bs op @ block_at base bs i"
      using sum by (simp add: op_bytes_block c1 sc(1))
    have op': "op\<lparr>BlockCount := c + 1\<rparr> = block_op s (c + 1)"
      by (subst sc(1)) (simp add: block_op_def)
    show ?thesis
    proof (rule that [of "d1\<lparr>pendingBlock := Some (block_op s (c + 1))\<rparr>"])
      show "emitBlock h i d = Ok (d1\<lparr>pendingBlock := Some (block_op s (c + 1))\<rparr>)"
        using d1(1) op op' by (simp add: emitBlock_def flip: s_def c_def)
      have "good_op n (block_op s (c + 1))"
        using sum assms(2) by (simp add: good_op_block c1)
      then show "good_state n (d1\<lparr>pendingBlock := Some (block_op s (c + 1))\<rparr>)"
        using d1(2) by (simp add: good_state_def good_pending_def block_op_def)
      show "stream base bs (d1\<lparr>pendingBlock := Some (block_op s (c + 1))\<rparr>) =
          stream base bs d @ block_at base bs i"
        using d1(3, 4) op(1) bytes by (simp add: stream_def pending_bytes_def)
    qed
  next
    case False
    obtain d2 where d2: "flushBlock h d1 = Ok d2" "good_state n d2"
      "stream base bs d2 = stream base bs d1" "pendingBlock d2 = None" "pending d2 = pending d1"
      by (rule flushBlock_ok [OF d1(2)])
    show ?thesis
    proof (rule that [of "d2\<lparr>pendingBlock := Some (block_op (of_nat i) 1)\<rparr>"])
      show "emitBlock h i d = Ok (d2\<lparr>pendingBlock := Some (block_op (of_nat i) 1)\<rparr>)"
        using False d1(1) d2(1) by (auto simp: emitBlock_def split: option.splits)
      have "good_op n (block_op (of_nat i) 1)" using i assms(2) by (simp add: good_op_block)
      then show "good_state n (d2\<lparr>pendingBlock := Some (block_op (of_nat i) 1)\<rparr>)"
        using d2(2) by (simp add: good_state_def good_pending_def block_op_def)
      show "stream base bs (d2\<lparr>pendingBlock := Some (block_op (of_nat i) 1)\<rparr>) =
          stream base bs d @ block_at base bs i"
        using d1(3, 4) d2(3, 4, 5) i by (simp add: stream_def pending_bytes_def op_bytes_block)
    qed
  qed
qed

lemma addLiteral_ok:
  assumes "good_state n d"
  obtains d' where "addLiteral h b d = Ok d'" and "good_state n d'"
    and "stream base bs d' = stream base bs d @ b"
proof -
  let ?d = "d\<lparr>pending := pending d @ b\<rparr>"
  have d: "good_state n ?d" "stream base bs ?d = stream base bs d @ b"
    using assms by (simp_all add: good_state_def good_pending_def stream_def pending_bytes_def)
  obtain d' where d': "flushPending h ?d = Ok d'" "good_state n d'" "stream base bs d' = stream base bs ?d"
    by (rule flushPending_ok [OF d(1)])
  show ?thesis
  proof (cases "maxDataOperationSize \<le> length (pending ?d)")
    case True
    then show ?thesis using d' d by (intro that [of d']) (simp_all add: addLiteral_def)
  next
    case False
    then show ?thesis using d by (intro that [of ?d]) (simp_all add: addLiteral_def)
  qed
qed

end

section \<open>The scan\<close>

definition wf_window :: "delta_window \<Rightarrow> bool" where
  "wf_window w \<longleftrightarrow> wpos w \<le> length (wbuf w) \<and> \<not> fails (wr w) \<and> (weof w \<longrightarrow> unread (wr w) = [])"

lemma ensure_read:
  assumes "avail w < n" and "\<not> weof w" and "n \<le> 65536"
    and "\<not> maxAlloc < length (drop (wpos w) (wbuf w)) + 65536"
  shows "ensure w n =
    (case ReadFull (wr w) 65536 of
       (bs, st, r') \<Rightarrow>
         let w' = w\<lparr>wr := r', wbuf := drop (wpos w) (wbuf w) @ bs, wpos := 0\<rparr>
         in case st of
              AtEOF \<Rightarrow> ensure (w'\<lparr>weof := True\<rparr>) n
            | ReadFailed \<Rightarrow> Err ReadError
            | ReadOk \<Rightarrow> ensure w' n)"
proof -
  have want: "(if n < int deltaReadChunk then deltaReadChunk else nat n) = 65536"
    using assms(3) by (auto simp: deltaReadChunk_def)
  show ?thesis
    by (subst ensure.simps) (simp only: assms want Let_def simp_thms if_True if_False)
qed

lemma ensure_ok:
  assumes "wf_window w" and "0 < n" and "n \<le> 65536"
  obtains w' where "ensure w (int n) = Ok w'" and "wf_window w'" and "remaining w' = remaining w"
    and "int n \<le> avail w' \<or> avail w' = int (length (remaining w))"
proof (cases "avail w < int n \<and> \<not> weof w")
  case False
  then have "ensure w (int n) = Ok w" by (subst ensure.simps) (rule if_not_P)
  with False assms show ?thesis
    by (intro that [of w]) (auto simp: wf_window_def remaining_def avail_def)
next
  case True
  define rest where "rest = drop (wpos w) (wbuf w)"
  have rest: "length rest < n" using True assms(1) by (auto simp: rest_def avail_def wf_window_def)
  have nofail: "\<not> fails (wr w)" using assms(1) by (simp add: wf_window_def)
  have read: "ensure w (int n) =
    (case ReadFull (wr w) 65536 of
       (bs, st, r') \<Rightarrow>
         let w' = w\<lparr>wr := r', wbuf := rest @ bs, wpos := 0\<rparr>
         in case st of
              AtEOF \<Rightarrow> ensure (w'\<lparr>weof := True\<rparr>) (int n)
            | ReadFailed \<Rightarrow> Err ReadError
            | ReadOk \<Rightarrow> ensure w' (int n))"
    unfolding rest_def by (rule ensure_read) (use True rest assms in \<open>simp_all add: maxAlloc_def rest_def\<close>)
  show ?thesis
  proof (cases "65536 \<le> length (unread (wr w))")
    case full: True
    let ?r = "(wr w)\<lparr>unread := drop 65536 (unread (wr w))\<rparr>"
    let ?w' = "w\<lparr>wr := ?r, wbuf := rest @ take 65536 (unread (wr w)), wpos := 0\<rparr>"
    have av: "int n \<le> avail ?w'" using full assms(3) by (simp add: avail_def)
    have "ensure w (int n) = ensure ?w' (int n)"
      using full by (simp add: read ReadFull_def)
    also have "\<dots> = Ok ?w'" by (subst ensure.simps) (rule if_not_P, use av in simp)
    finally show ?thesis
      using av nofail True by (intro that [of ?w']) (simp_all add: wf_window_def remaining_def rest_def)
  next
    case False
    let ?r = "(wr w)\<lparr>unread := []\<rparr>"
    let ?w' = "w\<lparr>wr := ?r, wbuf := rest @ unread (wr w), wpos := 0, weof := True\<rparr>"
    have "ensure w (int n) = ensure ?w' (int n)"
      using False nofail by (simp add: read ReadFull_def)
    also have "\<dots> = Ok ?w'" by (subst ensure.simps) (rule if_not_P, simp)
    finally show ?thesis
      using nofail by (intro that [of ?w']) (simp_all add: wf_window_def remaining_def rest_def avail_def)
  qed
qed

text \<open>A match is sound for a target when it finds the very bytes among the base blocks.\<close>

definition sound_match ::
  "(bytes \<Rightarrow> bytes) \<Rightarrow> weak_map \<Rightarrow> signature \<Rightarrow> bytes \<Rightarrow> nat \<Rightarrow> nat \<Rightarrow> bytes \<Rightarrow> bool" where
  "sound_match sha1 wm sig base bs n target \<longleftrightarrow>
     (\<forall>j k weak idx. matchBlockWithWeak sha1 (take k (drop j target)) weak wm sig = Some idx \<longrightarrow>
        idx < n \<and> block_at base bs idx = take k (drop j target))"

lemma avail_take: "wf_window w \<Longrightarrow> int k \<le> avail w \<Longrightarrow>
  take k (drop (wpos w) (wbuf w)) = take k (remaining w)"
  by (simp add: wf_window_def remaining_def avail_def)

lemma wf_window_advance: "wf_window w \<Longrightarrow> int k \<le> avail w \<Longrightarrow> wf_window (advance w (int k))"
  by (simp add: wf_window_def advance_def avail_def)

lemma remaining_advance_drop:
  "wf_window w \<Longrightarrow> int k \<le> avail w \<Longrightarrow> remaining (advance w (int k)) = drop k (remaining w)"
  by (simp add: wf_window_def remaining_def advance_def avail_def add.commute)

lemma peek_ok: "wf_window w \<Longrightarrow> int k \<le> avail w \<Longrightarrow> peek w (int k) = Ok (take k (remaining w))"
  using avail_take by (simp add: peek_def)

lemma next_window:
  assumes "length xs \<ge> Suc n" and "0 < n"
  shows "take n (tl xs) = tl (take n xs) @ [take n (tl xs) ! (n - 1)]"
    and "take n xs = hd xs # tl (take n xs)"
proof -
  show "take n (tl xs) = tl (take n xs) @ [take n (tl xs) ! (n - 1)]"
    using assms by (cases xs; cases n) (auto simp: take_Suc_conv_app_nth nth_append)
  show "take n xs = hd xs # tl (take n xs)"
    using assms by (cases xs; cases n) auto
qed

context op_sink
begin

text \<open>
  The scan at either loop head adds exactly the remaining bytes to the stream.  The proof is
  by induction on the bytes left, with the outer head above the inner one.
\<close>

lemma delta_loop_ok:
  assumes match: "sound_match sha1 wm sig base bs n target"
    and n: "n < 2 ^ 64" and bs: "0 < bs" "bs \<le> 65536"
  shows "wf_window w \<Longrightarrow> good_state n d \<Longrightarrow> remaining w = drop j target \<Longrightarrow>
    (\<And>rh. rho = Some rh \<Longrightarrow> hashes_window rh (take bs (remaining w)) \<and> int bs \<le> avail w) \<Longrightarrow>
    \<exists>d'. delta_loop sha1 h sig wm (int bs) (int ls) rho w d = Ok d' \<and> good_state n d' \<and>
      stream base bs d' = stream base bs d @ remaining w"
proof (induction "2 * length (remaining w) + (if rho = None then 1 else 0)"
    arbitrary: rho w d j rule: less_induct)
  case less
  note wf = less.prems(1) and good = less.prems(2) and rem = less.prems(3)
  have found: "idx < n \<and> block_at base bs idx = take k (remaining v)"
    if "matchBlockWithWeak sha1 (take k (remaining v)) weak wm sig = Some idx"
      and "remaining v = remaining w" for k weak idx v
    using match that rem unfolding sound_match_def by metis
  \<comment> \<open>taking a matched block of \<open>k\<close> bytes and going on\<close>
  have take_block: "\<exists>d'. obind (emitBlock h idx d)
        (\<lambda>d. delta_loop sha1 h sig wm (int bs) (int ls) None (advance v (int k)) d) = Ok d' \<and>
      good_state n d' \<and> stream base bs d' = stream base bs d @ remaining w"
    if v: "wf_window v" "remaining v = remaining w" and k: "0 < k" "int k \<le> avail v"
      and idx: "matchBlockWithWeak sha1 (take k (remaining v)) weak wm sig = Some idx" for v k weak idx
  proof -
    from found [OF idx v(2)] have i: "idx < n" "block_at base bs idx = take k (remaining v)" by auto
    obtain d1 where d1: "emitBlock h idx d = Ok d1" "good_state n d1"
      "stream base bs d1 = stream base bs d @ block_at base bs idx"
      by (rule emitBlock_ok [OF good i(1) n])
    let ?v = "advance v (int k)"
    have r: "remaining ?v = drop k (remaining v)" by (rule remaining_advance_drop [OF v(1) k(2)])
    have "length (remaining ?v) < length (remaining w)"
      using advance_shorter [OF _ k(2) v(2)] k(1) by simp
    then have "2 * length (remaining ?v) + 1 < 2 * length (remaining w)" by simp
    then have dec: "2 * length (remaining ?v) + (if (None :: rolling_hash option) = None then 1 else 0)
        < 2 * length (remaining w) + (if rho = None then 1 else 0)" by simp
    have "remaining ?v = drop (j + k) target" using r v(2) rem by (simp add: add.commute)
    from less.hyps [OF dec wf_window_advance [OF v(1) k(2)] d1(2) this] d1 i(2) r v(2)
    show ?thesis by auto
  qed
  \<comment> \<open>taking \<open>k\<close> literal bytes and going on\<close>
  have take_literal: "\<exists>d'. obind (addLiteral h (take k (remaining v)) d) f = Ok d' \<and>
      good_state n d' \<and> stream base bs d' = stream base bs d @ remaining w"
    if v: "remaining v = remaining w"
      and f: "\<And>d1. good_state n d1 \<Longrightarrow> \<exists>d'. f d1 = Ok d' \<and> good_state n d' \<and>
        stream base bs d' = stream base bs d1 @ drop k (remaining v)" for v k f
  proof -
    obtain d1 where d1: "addLiteral h (take k (remaining v)) d = Ok d1" "good_state n d1"
      "stream base bs d1 = stream base bs d @ take k (remaining v)"
      by (rule addLiteral_ok [OF good])
    from f [OF d1(2)] d1 v show ?thesis by auto
  qed
  show ?case
  proof (cases rho)
    case None
    obtain v where v: "ensure w (int bs) = Ok v" "wf_window v" "remaining v = remaining w"
      and av: "int bs \<le> avail v \<or> avail v = int (length (remaining w))"
      by (rule ensure_ok [OF wf bs])
    show ?thesis
    proof (cases "avail v = 0")
      case True
      with av bs v(1) good None show ?thesis by (auto simp: delta_loop.simps(1))
    next
      case nonzero: False
      show ?thesis
      proof (cases "avail v < int bs")
        case True
        define k where "k = length (remaining w)"
        have k: "avail v = int k" "0 < k" using av True nonzero by (auto simp: k_def)
        have peek: "peek v (avail v) = Ok (take k (remaining v))" using peek_ok [OF v(2)] k(1) by simp
        show ?thesis
        proof (cases "if (0 < int ls \<and> int ls < int bs) \<and> int ls \<le> avail v
            then matchBlock sha1 (take (nat (int ls)) (take k (remaining v))) wm sig else None")
          case (Some idx)
          then have ls: "0 < ls" "int ls \<le> avail v" "ls \<le> k"
            and m: "matchBlock sha1 (take ls (take k (remaining v))) wm sig = Some idx"
            using k(1) by (auto split: if_splits)
          have "take ls (take k (remaining v)) = take ls (remaining v)" using ls(3) by (simp add: min_def)
          with m have "\<exists>weak. matchBlockWithWeak sha1 (take ls (remaining v)) weak wm sig = Some idx"
            unfolding matchBlock_def by metis
          then obtain weak where "matchBlockWithWeak sha1 (take ls (remaining v)) weak wm sig = Some idx" ..
          from take_block [OF v(2, 3) ls(1, 2) this] None nonzero True Some peek v(1) show ?thesis
            by (simp add: delta_loop.simps(1))
        next
          case no_match: None
          let ?v = "advance v (avail v)"
          have r: "remaining ?v = drop k (remaining v)"
            using remaining_advance_drop [OF v(2), of k] k(1) by simp
          have dec: "2 * length (remaining ?v) + (if (None :: rolling_hash option) = None then 1 else 0)
              < 2 * length (remaining w) + (if rho = None then 1 else 0)"
            using r k v(3) None by (simp add: k_def)
          have wf': "wf_window ?v" using wf_window_advance [OF v(2), of k] k(1) by simp
          have "remaining ?v = drop (j + k) target" using r v(3) rem by (simp add: add.commute)
          from take_literal [OF v(3), where k = k and f = "\<lambda>d. delta_loop sha1 h sig wm (int bs) (int ls) None ?v d"]
            less.hyps [OF dec wf' _ this] r None nonzero True no_match peek v(1)
          show ?thesis by (auto simp: delta_loop.simps(1))
        qed
      next
        case False
        then have full: "int bs \<le> avail v" by simp
        let ?rh = "Write (NewRollingHash bs) (take bs (remaining v))"
        have len: "length (take bs (remaining v)) = bs"
          using full v(2) by (simp add: wf_window_def remaining_def avail_def)
        have hash: "hashes_window ?rh (take bs (remaining v))"
          using Write_hashes [OF bs(1) len] by simp
        have dec: "2 * length (remaining v) + (if Some ?rh = None then 1 else 0)
            < 2 * length (remaining w) + (if rho = None then 1 else 0)"
          using None v(3) by simp
        have "remaining v = drop j target" using v(3) rem by simp
        from less.hyps [OF dec v(2) good this] hash full None nonzero False bs peek_ok [OF v(2) full] v(1, 3)
        show ?thesis by (auto simp: delta_loop.simps(1))
      qed
    qed
  next
    case (Some rh)
    from less.prems(4) [OF Some] have hash: "hashes_window rh (take bs (remaining w))"
      and full: "int bs \<le> avail w" by auto
    have len: "bs \<le> length (remaining w)"
      using full wf by (simp add: wf_window_def remaining_def avail_def)
    note peek = peek_ok [OF wf full]
    show ?thesis
    proof (cases "matchBlockWithWeak sha1 (take bs (remaining w)) (Sum rh) wm sig")
      case m: (Some idx)
      from take_block [OF wf refl bs(1) full m] Some m peek bs show ?thesis
        by (simp add: delta_loop.simps(2))
    next
      case no: None
      define short where "short = (if 0 < int ls \<and> int ls < int bs
          then obind (peek w (int ls)) (\<lambda>last. Ok (matchBlock sha1 last wm sig)) else Ok None)"
      have short: "short = Ok (if 0 < int ls \<and> int ls < int bs
          then matchBlock sha1 (take ls (remaining w)) wm sig else None)"
        using full peek_ok [OF wf, of ls] by (simp add: short_def)
      show ?thesis
      proof (cases "if 0 < int ls \<and> int ls < int bs
          then matchBlock sha1 (take ls (remaining w)) wm sig else None")
        case m: (Some idx)
        then have ls: "0 < ls" "int ls \<le> avail w" using full by (auto split: if_splits)
        from m obtain weak where "matchBlockWithWeak sha1 (take ls (remaining w)) weak wm sig = Some idx"
          by (auto simp: matchBlock_def split: if_splits)
        from take_block [OF wf refl ls this] Some no m short peek bs show ?thesis
          by (simp add: delta_loop.simps(2) short_def)
      next
        case none: None
        have one: "int 1 \<le> avail w" using full bs by simp
        let ?w = "advance w 1"
        have wf1: "wf_window ?w" using wf_window_advance [OF wf one] by simp
        have r1: "remaining ?w = drop 1 (remaining w)" using remaining_advance_drop [OF wf one] by simp
        obtain v where v: "ensure ?w (int bs) = Ok v" "wf_window v" "remaining v = remaining ?w"
          and av: "int bs \<le> avail v \<or> avail v = int (length (remaining ?w))"
          by (rule ensure_ok [OF wf1 bs])
        have shorter: "2 * length (remaining v) + 1 < 2 * length (remaining w)"
          using r1 v(3) len bs by simp
        have jv: "remaining v = drop (j + 1) target" using r1 v(3) rem by simp
        define go where "go d = (if avail v < int bs
            then delta_loop sha1 h sig wm (int bs) (int ls) None v d
            else obind (peek v (int bs)) (\<lambda>block. obind (Roll rh (block ! nat (int bs - 1)))
              (\<lambda>rh. delta_loop sha1 h sig wm (int bs) (int ls) (Some rh) v d)))" for d
        have go: "\<exists>d'. go d1 = Ok d' \<and> good_state n d' \<and>
            stream base bs d' = stream base bs d1 @ drop 1 (remaining w)" if "good_state n d1" for d1
        proof (cases "avail v < int bs")
          case True
          have "2 * length (remaining v) + (if (None :: rolling_hash option) = None then 1 else 0)
              < 2 * length (remaining w) + (if rho = None then 1 else 0)" using shorter by simp
          from less.hyps [OF this v(2) that jv] True r1 v(3) show ?thesis by (simp add: go_def)
        next
          case False
          then have full': "int bs \<le> avail v" by simp
          then have "bs \<le> length (remaining v)"
            using v(2) by (simp add: wf_window_def remaining_def avail_def)
          then have longer: "Suc bs \<le> length (remaining w)" using v(3) r1 bs by (cases "remaining w") auto
          let ?b = "take bs (remaining v) ! (bs - 1)"
          have tl: "remaining v = tl (remaining w)" using v(3) r1 by (simp add: drop_Suc)
          have nw: "take bs (remaining v) = tl (take bs (remaining w)) @ [?b]"
            "take bs (remaining w) = hd (remaining w) # tl (take bs (remaining w))"
            using next_window [OF longer bs(1)] unfolding tl by auto
          obtain rh' where rh': "Roll rh ?b = (Ok rh' :: (rsync_error, rolling_hash) outcome)"
            "hashes_window rh' (take bs (remaining v))"
            using Roll_hashes [of rh "hd (remaining w)" "tl (take bs (remaining w))" ?b] hash nw by metis
          have dec: "2 * length (remaining v) + (if Some rh' = None then 1 else 0)
              < 2 * length (remaining w) + (if rho = None then 1 else 0)" using shorter by simp
          have "nat (int bs - 1) = bs - 1" using bs by simp
          then have "go d1 = delta_loop sha1 h sig wm (int bs) (int ls) (Some rh') v d1"
            using False peek_ok [OF v(2) full'] rh'(1) by (simp add: go_def)
          with less.hyps [OF dec v(2) that jv] full' rh'(2) r1 v(3) show ?thesis by auto
        qed
        have peek1: "peek w 1 = Ok (take 1 (remaining w))" using peek_ok [OF wf one] by simp
        have "delta_loop sha1 h sig wm (int bs) (int ls) rho w d =
            obind (addLiteral h (take 1 (remaining w)) d) go"
        proof -
          have short': "(if 0 < int ls \<and> int ls < int bs
              then obind (peek w (int ls)) (\<lambda>last. Ok (matchBlock sha1 last wm sig)) else Ok None) = Ok None"
            using short none by (simp only: short_def)
          have bs': "(int bs \<le> 0) = False" using bs by simp
          have go': "(\<lambda>d. if avail v < int bs
              then delta_loop sha1 h sig wm (int bs) (int ls) None v d
              else obind (peek v (int bs)) (\<lambda>block. obind (Roll rh (block ! nat (int bs - 1)))
                (\<lambda>rh. delta_loop sha1 h sig wm (int bs) (int ls) (Some rh) v d))) = go"
            by (rule ext) (simp only: go_def)
          show ?thesis
            unfolding Some
            by (subst delta_loop.simps(2))
              (simp only: bs' if_False peek obind.simps no option.case short' peek1 v(1) go')
        qed
        with take_literal [OF refl, where k = 1 and f = go] go show ?thesis by auto
      qed
    qed
  qed
qed

end

section \<open>Signatures describe the base\<close>

definition num_blocks :: "bytes \<Rightarrow> nat \<Rightarrow> nat" where
  "num_blocks base bs = (length base + bs - 1) div bs"

definition describes :: "(bytes \<Rightarrow> bytes) \<Rightarrow> bytes \<Rightarrow> signature \<Rightarrow> bool" where
  "describes sha1 base sig \<longleftrightarrow>
     (let bs = unat (BlockSize sig); n = num_blocks base bs
      in 0 < bs \<and> bs \<le> 65536 \<and>
         Hashes sig = map (\<lambda>i. block_hash_of sha1 (block_at base bs i)) [0..<n] \<and>
         LastBlockSize sig = (if n = 0 then 0 else of_nat (length (block_at base bs (n - 1)))))"

lemma num_blocks_last:
  assumes "0 < bs" and "i * bs \<le> length base" and "length base - i * bs < bs"
  shows "num_blocks base bs = (if length base = i * bs then i else Suc i)"
proof (cases "length base = i * bs")
  case True
  then show ?thesis
    using assms(1) by (auto simp: num_blocks_def mult.commute intro!: div_nat_eqI)
next
  case False
  with assms show ?thesis
    by (auto simp: num_blocks_def mult.commute intro!: div_nat_eqI)
qed

lemma num_blocks_less:
  assumes "0 < bs" and "i < num_blocks base bs"
  shows "i * bs < length base"
proof -
  have "Suc i * bs \<le> length base + bs - 1"
    using assms by (simp add: num_blocks_def less_eq_div_iff_mult_less_eq Suc_le_eq [symmetric])
  then show ?thesis using assms(1) by simp
qed

lemma num_blocks_le:
  assumes "0 < bs"
  shows "num_blocks base bs \<le> length base"
proof (cases "num_blocks base bs")
  case (Suc m)
  with num_blocks_less [OF assms, of m base] have "m * bs < length base" by simp
  moreover have "m \<le> m * bs" using assms by simp
  ultimately have "m < length base" by (rule le_less_trans [rotated])
  then show ?thesis using Suc by simp
qed simp

lemma gen_loop_ok:
  assumes bs: "bs = unat (OptimalBlockSizeForBaseLength f)"
  shows "i * bs \<le> length base \<Longrightarrow> length base < 2 ^ 64 \<Longrightarrow>
    Hashes sig = map (\<lambda>i. block_hash_of sha1 (block_at base bs i)) [0..<i] \<Longrightarrow>
    LastBlockSize sig = (if i = 0 then 0 else of_nat bs) \<Longrightarrow>
    BlockSize sig = OptimalBlockSizeForBaseLength f \<Longrightarrow>
    \<exists>sig'. gen_loop sha1 f \<lparr>unread = drop (i * bs) base, fails = False\<rparr> sig = Ok sig' \<and>
      describes sha1 base sig' \<and> BlockSize sig' = OptimalBlockSizeForBaseLength f"
proof (induction "length base - i * bs" arbitrary: i sig rule: less_induct)
  case less
  have pos: "0 < bs" and le: "bs \<le> 65536"
    using OptimalBlockSize_pos OptimalBlockSize_bounds(2) by (simp_all add: bs)
  let ?rest = "drop (i * bs) base" and ?h = "\<lambda>i. block_hash_of sha1 (block_at base bs i)"
  show ?case
  proof (cases "bs \<le> length ?rest")
    case True
    let ?sig = "sig\<lparr>Hashes := Hashes sig @ [?h i], LastBlockSize := of_nat bs\<rparr>"
    have "length base - Suc i * bs < length base - i * bs" and "Suc i * bs \<le> length base"
      using True pos less.prems(1) by auto
    from less.hyps [OF this less.prems(2), of ?sig] less.prems
    obtain sig' where "gen_loop sha1 f \<lparr>unread = drop (Suc i * bs) base, fails = False\<rparr> ?sig = Ok sig'"
      "describes sha1 base sig'" "BlockSize sig' = OptimalBlockSizeForBaseLength f" by auto
    moreover have "take bs ?rest = block_at base bs i" by (simp add: block_at_def)
    moreover have "gen_loop sha1 f \<lparr>unread = ?rest, fails = False\<rparr> sig =
        gen_loop sha1 f \<lparr>unread = drop (Suc i * bs) base, fails = False\<rparr> ?sig"
      using True pos less_le_trans [OF pos True]
      by (subst gen_loop.simps) (simp add: ReadFull_def bs [symmetric] block_at_def Let_def add.commute)
    ultimately show ?thesis by simp
  next
    case False
    then have short: "length base - i * bs < bs" by simp
    note nb = num_blocks_last [OF pos less.prems(1) short]
    show ?thesis
    proof (cases "?rest = []")
      case True
      then have "gen_loop sha1 f \<lparr>unread = ?rest, fails = False\<rparr> sig = Ok sig"
        using pos by (subst gen_loop.simps) (simp add: ReadFull_def bs [symmetric])
      moreover have "length base = i * bs" using True less.prems(1) by simp
      moreover have "length (block_at base bs (i - 1)) = bs" if "0 < i" using that True less.prems(1)
        by (cases i) (auto simp: block_at_def)
      ultimately show ?thesis
        using nb less.prems(3-5) pos le by (auto simp: describes_def Let_def bs [symmetric])
    next
      case nonempty: False
      let ?sig = "sig\<lparr>Hashes := Hashes sig @ [?h i], LastBlockSize := of_nat (length ?rest)\<rparr>"
      have "?rest = block_at base bs i" using short by (simp add: block_at_def)
      moreover have "gen_loop sha1 f \<lparr>unread = ?rest, fails = False\<rparr> sig = Ok ?sig"
        using False nonempty calculation
        by (subst gen_loop.simps) (simp add: ReadFull_def bs [symmetric] Let_def)
      moreover have "length base \<noteq> i * bs" using nonempty by auto
      ultimately show ?thesis
        using nb less.prems(3-5) pos le by (auto simp: describes_def Let_def bs [symmetric])
    qed
  qed
qed

lemma GenerateSignature_describes:
  assumes "length base < 2 ^ 64"
  obtains sig where "GenerateSignature sha1 (NewReader base) (of_nat (length base)) = Ok sig"
    and "describes sha1 base sig"
    and "BlockSize sig = OptimalBlockSizeForBaseLength (of_nat (length base))"
proof -
  let ?f = "of_nat (length base) :: uint64"
  let ?sig = "\<lparr>BlockSize = OptimalBlockSizeForBaseLength ?f, LastBlockSize = 0, Hashes = []\<rparr>"
  obtain sig where sig: "gen_loop sha1 ?f (NewReader base) ?sig = Ok sig" "describes sha1 base sig"
    "BlockSize sig = OptimalBlockSizeForBaseLength ?f"
    using gen_loop_ok [OF refl, of 0 ?f base ?sig sha1] assms by (auto simp: NewReader_def)
  have "(if length (Hashes sig) = 0 then sig\<lparr>LastBlockSize := 0\<rparr> else sig) = sig"
    using sig(2) by (auto simp: describes_def Let_def)
  with sig show ?thesis by (intro that [of sig]) (simp_all add: GenerateSignature_def)
qed

lemma describes_valid: "describes sha1 base sig \<Longrightarrow> validateSignature (Some sig) = Ok sig"
proof -
  assume d: "describes sha1 base sig"
  define bs n where "bs = unat (BlockSize sig)" and "n = num_blocks base bs"
  have bs: "0 < bs" "bs \<le> 65536" using d by (simp_all add: describes_def Let_def bs_def)
  have last: "unat (LastBlockSize sig) = (if n = 0 then 0 else length (block_at base bs (n - 1)))"
  proof -
    have "length (block_at base bs (n - 1)) < 2 ^ 64" using bs by (simp add: block_at_def)
    then have "unat (of_nat (length (block_at base bs (n - 1))) :: uint64) = length (block_at base bs (n - 1))"
      by (intro unat_of_nat_id) simp
    then show ?thesis using d by (simp add: describes_def Let_def bs_def n_def)
  qed
  have "BlockSize sig \<noteq> 0" using bs(1) by (auto simp: bs_def)
  moreover have "\<not> BlockSize sig < LastBlockSize sig"
    unfolding word_less_nat_alt last by (simp add: bs_def [symmetric] block_at_def)
  moreover have "LastBlockSize sig \<noteq> 0" if "0 < length (Hashes sig)"
  proof -
    have "0 < n" using that d by (simp add: describes_def Let_def bs_def n_def)
    moreover from this have "(n - 1) * bs < length base"
      using num_blocks_less [OF bs(1), of "n - 1" base] by (simp add: n_def)
    ultimately have "unat (LastBlockSize sig) \<noteq> 0" using last bs(1) by (simp add: block_at_def)
    then show ?thesis by auto
  qed
  ultimately show ?thesis by (auto simp: validateSignature_def)
qed

section \<open>Matching\<close>

text \<open>
  SHA-1 tells the blocks of the base from the substrings of the target: two of them with the
  same digest are the same.  This is the one assumption the delta transfer rests on.
\<close>

definition collision_free :: "(bytes \<Rightarrow> bytes) \<Rightarrow> bytes \<Rightarrow> nat \<Rightarrow> bytes \<Rightarrow> bool" where
  "collision_free sha1 base bs target \<longleftrightarrow>
     list_all (\<lambda>i. list_all (\<lambda>j. list_all (\<lambda>k.
         sha1 (take k (drop j target)) = sha1 (block_at base bs i) \<longrightarrow>
         take k (drop j target) = block_at base bs i)
       [0..<Suc (length target)]) [0..<Suc (length target)]) [0..<num_blocks base bs]"

lemma collision_freeD:
  assumes "collision_free sha1 base bs target" and "i < num_blocks base bs"
    and "sha1 (take k (drop j target)) = sha1 (block_at base bs i)"
  shows "take k (drop j target) = block_at base bs i"
proof -
  define k' j' where "k' = min k (length target)" and "j' = min j (length target)"
  have eq: "take k (drop j target) = take k' (drop j' target)"
    by (auto simp: k'_def j'_def min_def)
  have "k' \<in> set [0..<Suc (length target)]" and "j' \<in> set [0..<Suc (length target)]"
    and "i \<in> set [0..<num_blocks base bs]"
    using assms(2) by (auto simp: k'_def j'_def)
  with assms(1, 3) show ?thesis unfolding collision_free_def list_all_iff eq by blast
qed

lemma weak_loop_range:
  "weak_loop i hs m w = Some is \<Longrightarrow> idx \<in> set is \<Longrightarrow>
   (\<forall>w is idx. m w = Some is \<longrightarrow> idx \<in> set is \<longrightarrow> idx < i) \<Longrightarrow> idx < i + length hs"
proof (induction hs arbitrary: i m)
  case (Cons x hs)
  have "\<forall>w is idx. (m(WeakHash x \<mapsto> (case m (WeakHash x) of None \<Rightarrow> [] | Some is \<Rightarrow> is) @ [i])) w = Some is \<longrightarrow>
      idx \<in> set is \<longrightarrow> idx < Suc i"
    using Cons.prems(3) by (fastforce split: option.splits if_splits simp: less_Suc_eq)
  from Cons.IH [OF Cons.prems(1) [simplified weak_loop.simps] Cons.prems(2) this] show ?case by simp
qed fastforce

lemma describes_sound_match:
  assumes d: "describes sha1 base sig" and free: "collision_free sha1 base (unat (BlockSize sig)) target"
  shows "sound_match sha1 (build_weak_map sig) sig base (unat (BlockSize sig))
    (num_blocks base (unat (BlockSize sig))) target"
  unfolding sound_match_def
proof (intro allI impI)
  let ?bs = "unat (BlockSize sig)" and ?n = "num_blocks base (unat (BlockSize sig))"
  fix j k weak idx
  assume m: "matchBlockWithWeak sha1 (take k (drop j target)) weak (build_weak_map sig) sig = Some idx"
  have H: "Hashes sig = map (\<lambda>i. block_hash_of sha1 (block_at base ?bs i)) [0..<?n]"
    using d by (simp add: describes_def Let_def)
  from m obtain cs where cs: "build_weak_map sig weak = Some cs" "idx \<in> set cs"
    and strong: "StrongHash (Hashes sig ! idx) = sha1 (take k (drop j target))"
    by (auto simp: matchBlockWithWeak_def Let_def find_Some_iff split: option.splits)
  have idx: "idx < ?n"
    using weak_loop_range [of 0 "Hashes sig" "\<lambda>w. None" weak cs idx] cs H
    by (simp add: build_weak_map_def)
  have "sha1 (take k (drop j target)) = sha1 (block_at base ?bs idx)"
    using strong idx by (simp add: H block_hash_of_def)
  with collision_freeD [OF free idx] idx
  show "idx < ?n \<and> block_at base ?bs idx = take k (drop j target)" by metis
qed

section \<open>Deltify\<close>

text \<open>The handler of \<open>DeltaBytes\<close>, \<open>ops = append(ops, op)\<close>.\<close>

definition collect_op :: "operation list handler" where
  "collect_op op s = Ok (s @ [op])"

interpretation collect: op_sink collect_op "\<lambda>s. s"
  by unfold_locales (simp add: collect_op_def)

context op_sink
begin

lemma emitAllAsData_ok:
  "list_all (good_op n) (ops s) \<Longrightarrow>
   \<exists>s'. emitAllAsData h \<lparr>unread = data, fails = False\<rparr> s = Ok s' \<and> list_all (good_op n) (ops s') \<and>
     ops_bytes base bs (ops s') = ops_bytes base bs (ops s) @ data"
proof (induction "length data" arbitrary: data s rule: less_induct)
  case less
  let ?m = "maxDataOperationSize"
  have m: "0 < ?m" by (simp add: maxDataOperationSize_def)
  show ?case
  proof (cases "?m \<le> length data")
    case True
    obtain s1 where s1: "h (data_op (take ?m data)) s = Ok s1" "ops s1 = ops s @ [data_op (take ?m data)]"
      using handle by blast
    have good: "list_all (good_op n) (ops s1)" using s1(2) less.prems m True by auto
    have "length (drop ?m data) < length data" using m True by simp
    from less.hyps [OF this good] obtain s' where
      "emitAllAsData h \<lparr>unread = drop ?m data, fails = False\<rparr> s1 = Ok s'" "list_all (good_op n) (ops s')"
      "ops_bytes base bs (ops s') = ops_bytes base bs (ops s1) @ drop ?m data" by blast
    then show ?thesis
      using True s1 m less_le_trans [OF m True]
      by (subst emitAllAsData.simps) (auto simp: ReadFull_def)
  next
    case False
    obtain s1 where s1: "h (data_op data) s = Ok s1" "ops s1 = ops s @ [data_op data]"
      using handle by blast
    show ?thesis
      using False s1 less.prems by (subst emitAllAsData.simps) (auto simp: ReadFull_def)
  qed
qed

lemma Deltify_ok:
  assumes d: "describes sha1 base sig" and free: "collision_free sha1 base (unat (BlockSize sig)) target"
    and len: "length base < 2 ^ 64" and s: "ops s = []"
  shows "\<exists>s'. Deltify sha1 (NewReader target) (Some sig) h s = Ok s' \<and>
    list_all (good_op (num_blocks base (unat (BlockSize sig)))) (ops s') \<and>
    ops_bytes base (unat (BlockSize sig)) (ops s') = target"
proof (cases "Hashes sig = []")
  case True
  have "list_all (good_op (num_blocks base (unat (BlockSize sig)))) (ops s)" using s by simp
  from emitAllAsData_ok [OF this, of target base "unat (BlockSize sig)"] True s show ?thesis
    by (simp add: Deltify_def describes_valid [OF d] NewReader_def)
next
  case False
  define bs n where "bs = unat (BlockSize sig)" and "n = num_blocks base bs"
  have bs: "0 < bs" "bs \<le> 65536" using d by (simp_all add: describes_def Let_def bs_def)
  have "uint (BlockSize sig) = int bs" by (simp add: bs_def)
  then have ibs: "int64 (uint (BlockSize sig)) = int bs" using bs(2) by (simp add: int64_id)
  define ls where "ls = unat (LastBlockSize sig)"
  have "\<not> BlockSize sig < LastBlockSize sig"
    using describes_valid [OF d] by (auto simp: validateSignature_def split: if_splits)
  then have "ls \<le> 65536" using bs(2) by (simp add: word_less_nat_alt ls_def bs_def)
  moreover have "uint (LastBlockSize sig) = int ls" by (simp add: ls_def)
  ultimately have ils: "int64 (uint (LastBlockSize sig)) = int ls" by (simp add: int64_id)
  have n: "n < 2 ^ 64" using num_blocks_le [OF bs(1), of base] len by (simp add: n_def)
  let ?w = "\<lparr>wr = NewReader target, wbuf = [], wpos = 0, weof = False\<rparr>"
  let ?d = "\<lparr>pending = [], pendingBlock = None, sink = s\<rparr>"
  have good: "good_state n ?d" using s by (simp add: good_state_def good_pending_def)
  obtain d1 where d1: "delta_loop sha1 h sig (build_weak_map sig) (int bs) (int ls) None ?w ?d = Ok d1"
    "good_state n d1" "stream base bs d1 = target"
    using delta_loop_ok [OF describes_sound_match [OF d free, folded bs_def, folded n_def] n bs,
        of ?w ?d 0 None ls] good s
    by (auto simp: wf_window_def remaining_def NewReader_def stream_def pending_bytes_def)
  obtain d2 where d2: "flushPending h d1 = Ok d2" "good_state n d2"
    "stream base bs d2 = stream base bs d1" "pending d2 = []"
    by (rule flushPending_ok [OF d1(2)])
  obtain d3 where d3: "flushBlock h d2 = Ok d3" "good_state n d3"
    "stream base bs d3 = stream base bs d2" "pendingBlock d3 = None" "pending d3 = pending d2"
    by (rule flushBlock_ok [OF d2(2)])
  have "Deltify sha1 (NewReader target) (Some sig) h s = Ok (sink d3)"
    using False d1(1) d2(1) d3(1) by (simp add: Deltify_def describes_valid [OF d] ibs ils)
  moreover have "ops_bytes base bs (ops (sink d3)) = target"
    using d1(3) d2(3, 4) d3(3-5) by (simp add: stream_def pending_bytes_def)
  moreover have "list_all (good_op n) (ops (sink d3))" using d3(2) by (simp add: good_state_def)
  ultimately show ?thesis by (simp add: n_def bs_def)
qed

end

section \<open>Patch\<close>

lemma patch_block_ok:
  assumes "0 < unat bsize" and "i < num_blocks base (unat bsize)" and "length base < 2 ^ 63"
  shows "patch_block base bsize (of_nat i) = Ok (block_at base (unat bsize) i)"
proof -
  let ?bs = "unat bsize"
  have off: "i * ?bs < length base" by (rule num_blocks_less [OF assms(1, 2)])
  have i: "unat (of_nat i :: uint64) = i"
    by (rule unat_of_nat_id) (use num_blocks_le [OF assms(1), of base] assms(2, 3) in simp)
  have "unat (of_nat i * bsize) = i * ?bs"
    using off assms(3) by (subst unat_mult_small) (simp_all add: i)
  then have "uint (of_nat i * bsize) = int (i * ?bs)" by (metis uint_nat)
  then have offset: "int64 (uint (of_nat i * bsize)) = int (i * ?bs)"
  proof (simp only:, intro int64_id)
    have "int (i * ?bs) < int (2 ^ 63)" using off assms(3) by (subst of_nat_less_iff) simp
    then show "int (i * ?bs) < 2 ^ 63" by simp
    show "- (2 ^ 63) \<le> int (i * ?bs)" by (rule order_trans [OF _ of_nat_0_le_iff]) simp
  qed
  have "(of_nat (length base) - word_of_int (int (i * ?bs)) :: uint64) = of_nat (length base - i * ?bs)"
    using off by (simp add: of_nat_diff)
  moreover have "unat (of_nat (length base - i * ?bs) :: uint64) = length base - i * ?bs"
    by (rule unat_of_nat_id) (use assms(3) in simp)
  ultimately have left: "unat (of_nat (length base) - word_of_int (int (i * ?bs)) :: uint64) = length base - i * ?bs"
    by simp
  show ?thesis
    unfolding patch_block_def Let_def offset
    using off left by (auto simp: word_less_nat_alt block_at_def simp del: of_nat_mult)
qed

lemma patch_blocks_ok:
  assumes "0 < unat bsize" and "length base < 2 ^ 63"
    and "\<And>i. i \<in> set is \<Longrightarrow> start + i < num_blocks base (unat bsize)"
  shows "patch_blocks base bsize (of_nat start) is out =
    Ok (out @ concat (map (\<lambda>i. block_at base (unat bsize) (start + i)) is))"
  using assms(3)
proof (induction "is" arbitrary: out)
  case (Cons i "is")
  have "patch_block base bsize (of_nat start + of_nat i) = Ok (block_at base (unat bsize) (start + i))"
    using patch_block_ok [OF assms(1) _ assms(2), of "start + i"] Cons.prems by simp
  with Cons show ?case by simp
qed simp

lemma Patch_ok:
  assumes bs: "0 < unat bsize" "unat bsize \<le> 65536" and len: "length base < 2 ^ 63"
    and good: "list_all (good_op (num_blocks base (unat bsize))) ops"
  shows "Patch e base ops bsize out = Ok (out @ ops_bytes base (unat bsize) ops)"
proof -
  let ?n = "num_blocks base (unat bsize)"
  define bc :: uint64 where
    "bc = (if 0 < length base then (of_nat (length base) + bsize - 1) div bsize else 0)"
  have bc: "unat bc = ?n"
  proof (cases "base = []")
    case True
    then show ?thesis using bs by (simp add: bc_def num_blocks_def)
  next
    case False
    have l: "unat (of_nat (length base) :: uint64) = length base"
      by (rule unat_of_nat_id) (use len in simp)
    have s: "unat (of_nat (length base) + bsize) = length base + unat bsize"
      using len bs(2) by (subst unat_plus_small) (simp_all add: l)
    have "unat (of_nat (length base) + bsize - 1) = length base + unat bsize - 1"
      using s bs(1) by (subst unat_sub) (simp_all add: word_le_nat_alt)
    then show ?thesis using False by (simp add: bc_def num_blocks_def unat_div)
  qed
  have op: "patch_op base bsize bc op out = Ok (out @ op_bytes base (unat bsize) op)"
    if "good_op ?n op" for op out
  proof (cases "Type op")
    case OpData
    then show ?thesis by (simp add: patch_op_def op_bytes_def)
  next
    case OpBlock
    define s c where "s = BlockStart op" and "c = BlockCount op"
    have c: "0 < unat c" and sc: "unat s + unat c \<le> ?n"
      using that OpBlock by (simp_all add: good_op_def s_def c_def)
    have "c \<noteq> 0" using c by auto
    moreover have lt: "\<not> bc \<le> s" using c sc by (simp add: word_le_nat_alt bc)
    moreover have "\<not> bc - s < c"
    proof -
      have "unat (bc - s) = ?n - unat s" using lt by (subst unat_sub) (simp_all add: bc)
      then show ?thesis using sc by (simp add: word_less_nat_alt)
    qed
    ultimately have "patch_op base bsize bc op out = patch_blocks base bsize s [0..<unat c] out"
      using OpBlock by (simp add: patch_op_def s_def c_def)
    also have "\<dots> = Ok (out @ concat (map (\<lambda>i. block_at base (unat bsize) (unat s + i)) [0..<unat c]))"
      using patch_blocks_ok [OF bs(1) len, of "[0..<unat c]" "unat s" out] sc by simp
    also have "map (\<lambda>i. block_at base (unat bsize) (unat s + i)) [0..<unat c] =
        map (block_at base (unat bsize)) [unat s..<unat s + unat c]"
      by (rule nth_equalityI) simp_all
    finally show ?thesis using OpBlock by (simp add: op_bytes_def s_def c_def)
  qed (use that in \<open>simp add: good_op_def\<close>)
  have "patch_ops base bsize bc ops out = Ok (out @ ops_bytes base (unat bsize) ops)"
    using good by (induction ops arbitrary: out) (simp_all add: op)
  moreover have "bsize \<noteq> 0" using bs(1) by auto
  moreover have "\<not> maxAlloc < unat bsize" using bs(2) by (simp add: maxAlloc_def)
  ultimately show ?thesis by (simp add: Patch_def bc_def Let_def del: length_greater_0_conv)
qed

end
