(* ===== verification/Rsync_Wire.thy ===== *)
theory Rsync_Wire
  imports Rsync_Delta
begin

text \<open>
  The byte forms of signatures and deltas and the three calls of the transfer,
  \<^verbatim>\<open>lib/rsync/wire.go\<close>.

  Every item on the wire is read by a function that returns the rest of the input.  The
  locale \<open>byte_codec\<close> states the law that reading an encoded item gives the item and leaves
  what follows it; hashes and operations are instances, and lists of items are read back by a
  lemma of the locale.
\<close>

section \<open>Codecs\<close>

fun read_many :: "(bytes \<Rightarrow> ('e, 'a \<times> bytes) outcome) \<Rightarrow> nat \<Rightarrow> bytes \<Rightarrow> ('e, 'a list \<times> bytes) outcome" where
  "read_many dec 0 bs = Ok ([], bs)"
| "read_many dec (Suc n) bs =
     obind (dec bs) (\<lambda>(x, bs). obind (read_many dec n bs) (\<lambda>(xs, bs). Ok (x # xs, bs)))"

locale byte_codec =
  fixes ok :: "'a \<Rightarrow> bool" and enc :: "'a \<Rightarrow> bytes" and dec :: "bytes \<Rightarrow> ('e, 'a \<times> bytes) outcome"
    and width :: nat
  assumes dec_enc: "ok x \<Longrightarrow> dec (enc x @ rest) = Ok (x, rest)"
    and enc_width: "ok x \<Longrightarrow> width \<le> length (enc x)"
begin

lemma read_many_enc:
  "list_all ok xs \<Longrightarrow> read_many dec (length xs) (concat (map enc xs) @ rest) = Ok (xs, rest)"
  by (induction xs) (simp_all add: dec_enc)

lemma length_enc: "list_all ok xs \<Longrightarrow> length xs * width \<le> length (concat (map enc xs))"
  by (induction xs) (auto dest: enc_width)

lemma count_fits:
  assumes "list_all ok xs" and "0 < width"
  shows "length xs \<le> length (concat (map enc xs) @ rest) div width"
  using length_enc [OF assms(1)] assms(2) by (simp add: less_eq_div_iff_mult_less_eq)

end

definition read_uvarint_or :: "rsync_error \<Rightarrow> bytes \<Rightarrow> (rsync_error, uint64 \<times> bytes) outcome" where
  "read_uvarint_or e bs = (case ReadUvarint bs of None \<Rightarrow> Err e | Some p \<Rightarrow> Ok p)"

lemma read_uvarint_or_Append [simp]:
  "read_uvarint_or e (AppendUvarint [] x @ rest) = Ok (x, rest)"
  by (simp add: read_uvarint_or_def ReadUvarint_Append)

definition sigCodecVersion :: byte where
  "sigCodecVersion = 1"

definition deltaCodecVersion :: byte where
  "deltaCodecVersion = 1"

section \<open>Signatures\<close>

definition encode_hash :: "block_hash \<Rightarrow> bytes" where
  "encode_hash h = PutUint32 (WeakHash h) @ StrongHash h"

definition encodeSignature :: "signature \<Rightarrow> bytes" where
  "encodeSignature sig =
     (let buf = [sigCodecVersion];
          buf = AppendUvarint buf (BlockSize sig);
          buf = AppendUvarint buf (LastBlockSize sig);
          buf = AppendUvarint buf (of_nat (length (Hashes sig)))
      in buf @ concat (map encode_hash (Hashes sig)))"

definition decode_hash :: "bytes \<Rightarrow> (rsync_error, block_hash \<times> bytes) outcome" where
  "decode_hash bs =
     (if length bs < 4 then Err CorruptSignature
      else if length (drop 4 bs) < 20 then Err CorruptSignature
      else Ok (\<lparr>WeakHash = Uint32 (take 4 bs), StrongHash = take 20 (drop 4 bs)\<rparr>, drop 24 bs))"

definition decodeSignature :: "bytes \<Rightarrow> (rsync_error, signature) outcome" where
  "decodeSignature b =
     (case b of
        [] \<Rightarrow> Err CorruptSignature
      | ver # r \<Rightarrow>
          if ver \<noteq> sigCodecVersion then Err CorruptSignature
          else
            obind (read_uvarint_or CorruptSignature r) (\<lambda>(bsize, r).
            obind (read_uvarint_or CorruptSignature r) (\<lambda>(lsize, r).
            obind (read_uvarint_or CorruptSignature r) (\<lambda>(n, r).
              if length r div 24 < unat n then Err CorruptSignature
              else
                obind (read_many decode_hash (unat n) r) (\<lambda>(hs, r).
                  Ok \<lparr>BlockSize = bsize, LastBlockSize = lsize, Hashes = hs\<rparr>)))))"

definition wf_hash :: "block_hash \<Rightarrow> bool" where
  "wf_hash h \<longleftrightarrow> length (StrongHash h) = 20"

interpretation hash_codec: byte_codec wf_hash encode_hash decode_hash 24
proof
  fix h :: block_hash and rest :: bytes
  assume "wf_hash h"
  then show "decode_hash (encode_hash h @ rest) = Ok (h, rest)" and "24 \<le> length (encode_hash h)"
    using Uint32_Put [of "WeakHash h" "[]"]
    by (simp_all add: decode_hash_def encode_hash_def wf_hash_def)
qed

lemma decode_encodeSignature:
  assumes "list_all wf_hash (Hashes sig)" and "length (Hashes sig) < 2 ^ 64"
  shows "decodeSignature (encodeSignature sig) = Ok sig"
proof -
  have n: "unat (of_nat (length (Hashes sig)) :: uint64) = length (Hashes sig)"
    by (rule unat_of_nat_id) (use assms(2) in simp)
  have "encodeSignature sig = sigCodecVersion # AppendUvarint [] (BlockSize sig) @
      AppendUvarint [] (LastBlockSize sig) @ AppendUvarint [] (of_nat (length (Hashes sig))) @
      concat (map encode_hash (Hashes sig))"
    by (simp add: encodeSignature_def AppendUvarint_def Let_def)
  then show ?thesis
    using hash_codec.count_fits [OF assms(1), of "[]"] hash_codec.read_many_enc [OF assms(1), of "[]"]
    by (simp add: decodeSignature_def n)
qed

section \<open>Deltas\<close>

definition type_byte :: "operation_type \<Rightarrow> byte" where
  "type_byte t = (case t of OpBlock \<Rightarrow> 0 | OpData \<Rightarrow> 1 | OpOther i \<Rightarrow> of_int i)"

definition encode_op :: "operation \<Rightarrow> bytes" where
  "encode_op op =
     type_byte (Type op) #
     (case Type op of
        OpBlock \<Rightarrow> AppendUvarint (AppendUvarint [] (BlockStart op)) (BlockCount op)
      | OpData \<Rightarrow> AppendUvarint [] (of_nat (length (Data op))) @ Data op
      | OpOther i \<Rightarrow> [])"

definition encodeDelta :: "uint64 \<Rightarrow> operation list \<Rightarrow> bytes" where
  "encodeDelta bsize ops =
     (let buf = [deltaCodecVersion];
          buf = AppendUvarint buf bsize;
          buf = AppendUvarint buf (of_nat (length ops))
      in buf @ concat (map encode_op ops))"

definition decode_op :: "bytes \<Rightarrow> (rsync_error, operation \<times> bytes) outcome" where
  "decode_op bs =
     (case bs of
        [] \<Rightarrow> Err CorruptDelta
      | t # r \<Rightarrow>
          if t = 0 then
            obind (read_uvarint_or CorruptDelta r) (\<lambda>(start, r).
            obind (read_uvarint_or CorruptDelta r) (\<lambda>(count, r).
              Ok (block_op start count, r)))
          else if t = 1 then
            obind (read_uvarint_or CorruptDelta r) (\<lambda>(size, r).
              if maxDataOperationSize < unat size \<or> length r < unat size then Err CorruptDelta
              else Ok (data_op (take (unat size) r), drop (unat size) r))
          else Err CorruptDelta)"

definition decodeDelta :: "bytes \<Rightarrow> (rsync_error, uint64 \<times> operation list) outcome" where
  "decodeDelta b =
     (case b of
        [] \<Rightarrow> Err CorruptDelta
      | ver # r \<Rightarrow>
          if ver \<noteq> deltaCodecVersion then Err CorruptDelta
          else
            obind (read_uvarint_or CorruptDelta r) (\<lambda>(bsize, r).
            obind (read_uvarint_or CorruptDelta r) (\<lambda>(n, r).
              if length r div 2 < unat n then Err CorruptDelta
              else obind (read_many decode_op (unat n) r) (\<lambda>(ops, r). Ok (bsize, ops)))))"

text \<open>The operations that have a byte form: blocks, and data of at most 1 MiB.\<close>

definition wire_op :: "operation \<Rightarrow> bool" where
  "wire_op op =
     (case Type op of
        OpBlock \<Rightarrow> op = block_op (BlockStart op) (BlockCount op)
      | OpData \<Rightarrow> op = data_op (Data op) \<and> length (Data op) \<le> maxDataOperationSize
      | OpOther i \<Rightarrow> False)"

lemma good_wire_op: "good_op n op \<Longrightarrow> wire_op op"
  by (auto simp: good_op_def wire_op_def split: operation_type.splits)

interpretation op_codec: byte_codec wire_op encode_op decode_op 2
proof
  fix op :: operation and rest :: bytes
  assume ok: "wire_op op"
  show "decode_op (encode_op op @ rest) = Ok (op, rest)"
  proof (cases "Type op")
    case OpBlock
    then have "op = block_op (BlockStart op) (BlockCount op)" using ok by (simp add: wire_op_def)
    with OpBlock show ?thesis
      using AppendUvarint_append [of "AppendUvarint [] (BlockStart op)" "BlockCount op"]
      by (simp add: encode_op_def decode_op_def type_byte_def)
  next
    case OpData
    then have op: "op = data_op (Data op)" "length (Data op) \<le> maxDataOperationSize"
      using ok by (simp_all add: wire_op_def)
    have "unat (of_nat (length (Data op)) :: uint64) = length (Data op)"
      by (rule unat_of_nat_id) (use op(2) in \<open>simp add: maxDataOperationSize_def\<close>)
    with OpData op show ?thesis by (simp add: encode_op_def decode_op_def type_byte_def)
  qed (use ok in \<open>simp add: wire_op_def\<close>)
  show "2 \<le> length (encode_op op)"
    using ok AppendUvarint_nonempty [of "BlockStart op"]
      AppendUvarint_nonempty [of "of_nat (length (Data op))"]
      AppendUvarint_append [of "AppendUvarint [] (BlockStart op)" "BlockCount op"]
    by (cases "Type op") (auto simp: encode_op_def wire_op_def)
qed

lemma decode_encodeDelta:
  assumes "list_all wire_op ops" and "length ops < 2 ^ 64"
  shows "decodeDelta (encodeDelta bsize ops) = Ok (bsize, ops)"
proof -
  have n: "unat (of_nat (length ops) :: uint64) = length ops"
    by (rule unat_of_nat_id) (use assms(2) in simp)
  have "encodeDelta bsize ops = deltaCodecVersion # AppendUvarint [] bsize @
      AppendUvarint [] (of_nat (length ops)) @ concat (map encode_op ops)"
    by (simp add: encodeDelta_def AppendUvarint_def Let_def)
  then show ?thesis
    using op_codec.count_fits [OF assms(1), of "[]"] op_codec.read_many_enc [OF assms(1), of "[]"]
    by (simp add: decodeDelta_def n)
qed

section \<open>The calls of the transfer\<close>

definition SignatureBytes :: "(bytes \<Rightarrow> bytes) \<Rightarrow> bytes \<Rightarrow> (rsync_error, bytes) outcome" where
  "SignatureBytes sha1 base =
     obind (GenerateSignature sha1 (NewReader base) (of_nat (length base))) (\<lambda>sig.
       Ok (encodeSignature sig))"

definition DeltaBytes :: "(bytes \<Rightarrow> bytes) \<Rightarrow> bytes \<Rightarrow> bytes \<Rightarrow> (rsync_error, bytes) outcome" where
  "DeltaBytes sha1 target sigBytes =
     obind (decodeSignature sigBytes) (\<lambda>sig.
     obind (Deltify sha1 (NewReader target) (Some sig) collect_op []) (\<lambda>ops.
       Ok (encodeDelta (BlockSize sig) ops)))"

definition ApplyDelta :: "bytes \<Rightarrow> bytes \<Rightarrow> (rsync_error, bytes) outcome" where
  "ApplyDelta base deltaBytes =
     obind (decodeDelta deltaBytes) (\<lambda>(bsize, ops). Patch (NewEngine 0) base ops bsize [])"


lemma good_op_bytes:
  assumes "good_op (num_blocks base bs) op" and "0 < bs"
  shows "0 < length (op_bytes base bs op)"
proof (cases "Type op")
  case OpBlock
  let ?s = "unat (BlockStart op)" and ?c = "unat (BlockCount op)"
  have "0 < ?c" and "?s + ?c \<le> num_blocks base bs" using assms(1) OpBlock by (simp_all add: good_op_def)
  then have "?s * bs < length base" using num_blocks_less [OF assms(2), of ?s base] by simp
  then have "block_at base bs ?s \<noteq> []" using assms(2) by (simp add: block_at_def)
  moreover have "[?s..<?s + ?c] = ?s # [Suc ?s..<?s + ?c]" using \<open>0 < ?c\<close> by (simp add: upt_conv_Cons)
  ultimately show ?thesis using OpBlock by (simp add: op_bytes_def)
qed (use assms in \<open>simp_all add: good_op_def op_bytes_def\<close>)

lemma ops_fewer_than_bytes:
  "list_all (good_op (num_blocks base bs)) ops \<Longrightarrow> 0 < bs \<Longrightarrow> length ops \<le> length (ops_bytes base bs ops)"
proof (induction ops)
  case (Cons op ops)
  then have "0 < length (op_bytes base bs op)" by (intro good_op_bytes) simp_all
  with Cons show ?case by (simp del: length_greater_0_conv)
qed simp

text \<open>C8: The delta transfer is correct.  For any two byte strings a Go slice can hold, when
  SHA-1 does not confuse a block of the base with a different substring of the target, the
  signature of the base can be computed, the delta of the target against it can be computed,
  and applying that delta to the base returns exactly the target: no call fails or panics.\<close>

theorem delta_transfer_correct:
  assumes "length base < 2 ^ 63" and "length target < 2 ^ 63"
    and "\<forall>x. length (sha1 x) = 20"
    and "collision_free sha1 base
      (unat (OptimalBlockSizeForBaseLength (of_nat (length base)))) target"
  shows "\<exists>sig delta. SignatureBytes sha1 base = Ok sig \<and> DeltaBytes sha1 target sig = Ok delta \<and>
    ApplyDelta base delta = Ok target"
proof -
  have len: "length base < 2 ^ 64" using assms(1) by simp
  obtain sig where sig: "GenerateSignature sha1 (NewReader base) (of_nat (length base)) = Ok sig"
    and d: "describes sha1 base sig" and bsz: "BlockSize sig = OptimalBlockSizeForBaseLength (of_nat (length base))"
    by (rule GenerateSignature_describes [OF len])
  define bs where "bs = unat (BlockSize sig)"
  have bs: "0 < bs" "bs \<le> 65536" using d by (simp_all add: describes_def Let_def bs_def)
  have n: "num_blocks base bs < 2 ^ 63" using num_blocks_le [OF bs(1), of base] assms(1) by simp
  have "list_all wf_hash (Hashes sig)" and "length (Hashes sig) < 2 ^ 64"
    using d n assms(3) by (auto simp: describes_def Let_def bs_def [symmetric] wf_hash_def
        block_hash_of_def list_all_iff)
  then have dec: "decodeSignature (encodeSignature sig) = Ok sig" by (rule decode_encodeSignature)
  have free: "collision_free sha1 base (unat (BlockSize sig)) target" using assms(4) bsz by simp
  from collect.Deltify_ok [OF d free len refl] obtain ops where
    ops: "Deltify sha1 (NewReader target) (Some sig) collect_op [] = Ok ops"
    "list_all (good_op (num_blocks base bs)) ops" "ops_bytes base bs ops = target"
    by (auto simp: bs_def)
  have wire: "list_all wire_op ops" using ops(2) good_wire_op by (auto simp: list_all_iff)
  have "length ops < 2 ^ 64" using ops_fewer_than_bytes [OF ops(2) bs(1)] ops(3) assms(2) by simp
  from decode_encodeDelta [OF wire this]
  have "ApplyDelta base (encodeDelta (BlockSize sig) ops) = Ok target"
    using Patch_ok [of "BlockSize sig" base ops "NewEngine 0" "[]"] bs assms(1) ops(2, 3)
    by (simp add: ApplyDelta_def bs_def)
  then show ?thesis
    using sig dec ops(1) by (simp add: SignatureBytes_def DeltaBytes_def)
qed

text \<open>A digest of 20 bytes that keeps the first 20 bytes is enough for short inputs.\<close>

definition short_digest :: "bytes \<Rightarrow> bytes" where
  "short_digest bs = take 20 (bs @ replicate 20 0)"

theorem delta_transfer_correct_witness:
  "\<exists>sig delta. SignatureBytes short_digest [1, 2, 3] = Ok sig \<and>
    DeltaBytes short_digest [9, 1, 2, 3] sig = Ok delta \<and> ApplyDelta [1, 2, 3] delta = Ok [9, 1, 2, 3]"
proof (rule delta_transfer_correct)
  show "\<forall>x. length (short_digest x) = 20" by (simp add: short_digest_def min_def)
  have "OptimalBlockSizeForBaseLength (of_nat (length [1, 2, 3 :: byte])) = 1024"
    by code_simp
  moreover have "collision_free short_digest [1, 2, 3] 1024 [9, 1, 2, 3]"
    by (simp add: collision_free_def short_digest_def block_at_def num_blocks_def upt_rec
        replicate_numeral)
  ultimately show "collision_free short_digest [1, 2, 3]
      (unat (OptimalBlockSizeForBaseLength (of_nat (length [1, 2, 3 :: byte])))) [9, 1, 2, 3]" by simp
qed simp_all

text \<open>The block size of a delta is not bounded when it is decoded: a delta of a dozen bytes
  that names a block size above the largest allocation makes \<open>ApplyDelta\<close> panic.\<close>

theorem hostile_block_size_panics:
  "ApplyDelta base (encodeDelta 0x8000000000000000 []) = Panic"
proof -
  have "decodeDelta (encodeDelta 0x8000000000000000 []) = Ok (0x8000000000000000, [])"
    by (rule decode_encodeDelta) simp_all
  then show ?thesis
    by (simp add: ApplyDelta_def Patch_def NewEngine_def maxBlockSize_def maxAlloc_def)
qed

text \<open>A signature whose block size does not fit a signed 64-bit integer passes the checks,
  and \<open>Deltify\<close> then reads nothing and emits nothing: the delta of any target is empty and
  the call reports success.\<close>

theorem oversized_signature_loses_target:
  assumes "Hashes sig \<noteq> []" and "0x8000000000000000 \<le> BlockSize sig"
    and "0 < LastBlockSize sig" and "LastBlockSize sig \<le> BlockSize sig"
  shows "Deltify sha1 (NewReader target) (Some sig) collect_op [] = Ok []"
proof -
  have "BlockSize sig \<noteq> 0" using assms(2) by auto
  then have valid: "validateSignature (Some sig) = Ok sig"
    using assms by (auto simp: validateSignature_def)
  have neg: "int64 (uint (BlockSize sig)) < 0"
  proof -
    have "\<not> uint (BlockSize sig) < 2 ^ 63" using assms(2) by (simp add: word_le_def)
    moreover have "uint (BlockSize sig) < 2 ^ 64" using uint_lt2p [of "BlockSize sig"] by simp
    ultimately show ?thesis using int64_negative [of "uint (BlockSize sig)"] by simp
  qed
  then have "avail \<lparr>wr = NewReader target, wbuf = [], wpos = 0, weof = False\<rparr> \<ge> int64 (uint (BlockSize sig))"
    by (simp add: avail_def)
  then have "ensure \<lparr>wr = NewReader target, wbuf = [], wpos = 0, weof = False\<rparr> (int64 (uint (BlockSize sig))) =
      Ok \<lparr>wr = NewReader target, wbuf = [], wpos = 0, weof = False\<rparr>"
    by (subst ensure.simps) (rule if_not_P, simp)
  then show ?thesis
    using assms(1) valid
    by (simp add: Deltify_def delta_loop.simps(1) avail_def flushPending_def flushBlock_def)
qed

theorem oversized_signature_loses_target_witness:
  "Deltify short_digest (NewReader [1, 2, 3])
     (Some \<lparr>BlockSize = 0x8000000000000000, LastBlockSize = 3,
        Hashes = [block_hash_of short_digest [1, 2, 3]]\<rparr>) collect_op [] = Ok []"
  by (rule oversized_signature_loses_target) simp_all

end
