(* ===== verification/File_Info.thy ===== *)
theory File_Info
  imports Vector_Text
begin

unbundle bit_operations_syntax

text \<open>
  File metadata, \<^verbatim>\<open>lib/protocol/bep_fileinfo.go\<close>: the \<open>FileInfo\<close> record that the
  database, the scanner and the wire protocol exchange, its conversions, the decision which of
  two conflicting files wins, and the comparison of a file with what is on disk.

  Go's \<open>int64\<close>, \<open>int32\<close> and \<open>int\<close> fields are mathematical integers here; every narrowing
  conversion of the code is written with \<open>int32\<close>.  A nil pointer is \<open>None\<close>, a nil slice is
  the empty list (the code never tells it from an empty one).
\<close>

section \<open>Local flags\<close>

definition FlagLocalUnsupported :: uint32 where "FlagLocalUnsupported = push_bit 0 1"
definition FlagLocalIgnored :: uint32 where "FlagLocalIgnored = push_bit 1 1"
definition FlagLocalMustRescan :: uint32 where "FlagLocalMustRescan = push_bit 2 1"
definition FlagLocalReceiveOnly :: uint32 where "FlagLocalReceiveOnly = push_bit 3 1"
definition FlagLocalGlobal :: uint32 where "FlagLocalGlobal = push_bit 4 1"
definition FlagLocalNeeded :: uint32 where "FlagLocalNeeded = push_bit 5 1"
definition FlagLocalRemoteInvalid :: uint32 where "FlagLocalRemoteInvalid = push_bit 6 1"

definition LocalInvalidFlags :: uint32 where
  "LocalInvalidFlags = (FlagLocalUnsupported OR FlagLocalIgnored OR FlagLocalMustRescan OR
     FlagLocalReceiveOnly OR FlagLocalRemoteInvalid)"

definition LocalConflictFlags :: uint32 where
  "LocalConflictFlags = (FlagLocalUnsupported OR FlagLocalIgnored OR FlagLocalReceiveOnly)"

definition LocalAllFlags :: uint32 where
  "LocalAllFlags = (FlagLocalUnsupported OR FlagLocalIgnored OR FlagLocalMustRescan OR
     FlagLocalReceiveOnly OR FlagLocalGlobal OR FlagLocalNeeded OR FlagLocalRemoteInvalid)"

lemmas flag_defs = FlagLocalUnsupported_def FlagLocalIgnored_def FlagLocalMustRescan_def
  FlagLocalReceiveOnly_def FlagLocalGlobal_def FlagLocalNeeded_def FlagLocalRemoteInvalid_def
  LocalInvalidFlags_def LocalConflictFlags_def LocalAllFlags_def

definition Flag_IsInvalid :: "uint32 \<Rightarrow> bool" where
  "Flag_IsInvalid f \<longleftrightarrow> (f AND LocalInvalidFlags) \<noteq> 0"

definition localFlagBitNames :: "(uint32 \<times> char) list" where
  "localFlagBitNames =
     [(FlagLocalUnsupported, CHR ''u''), (FlagLocalIgnored, CHR ''i''),
      (FlagLocalMustRescan, CHR ''r''), (FlagLocalReceiveOnly, CHR ''e''),
      (FlagLocalGlobal, CHR ''G''), (FlagLocalNeeded, CHR ''n''),
      (FlagLocalRemoteInvalid, CHR ''v'')]"

text \<open>Lower-case hexadecimal without leading zeros, the verb \<open>%x\<close>.\<close>

fun format_hex :: "nat \<Rightarrow> string" where
  "format_hex n = (if n < 16 then [digit_char n] else format_hex (n div 16) @ [digit_char (n mod 16)])"

declare format_hex.simps [simp del]

text \<open>The loop over the bits; \<open>k\<close> is the number of the bit, after 32 of them none is left.\<close>

function flag_loop :: "nat \<Rightarrow> uint32 \<Rightarrow> string \<Rightarrow> string \<Rightarrow> string \<times> string" where
  "flag_loop k f res extra =
     (if f = 0 \<or> 32 \<le> k then (res, extra)
      else
        let bit = push_bit k 1;
            (res', extra') =
              (if (f AND bit) \<noteq> 0
               then (case map_of localFlagBitNames bit of
                       Some name \<Rightarrow> (res @ [name], extra)
                     | None \<Rightarrow> (res, extra @ ''+0x'' @ format_hex (unat bit)))
               else (res @ ''-'', extra))
        in flag_loop (Suc k) (f AND NOT bit) res' extra')"
  by pat_completeness auto
termination
  by (relation "measure (\<lambda>(k, f, res, extra). 32 - k)") auto

declare flag_loop.simps [simp del]

definition Flag_HumanString :: "uint32 \<Rightarrow> string" where
  "Flag_HumanString f =
     (if f = 0 then replicate (length localFlagBitNames) (CHR ''-'')
      else
        case flag_loop 0 f [] [] of
          (res, extra) \<Rightarrow>
            rev (if length res < length localFlagBitNames
                 then res @ replicate (length localFlagBitNames - length res) (CHR ''-'')
                 else res) @ extra)"

section \<open>Block sizes\<close>

definition MinBlockSize :: nat where "MinBlockSize = 128 * 2 ^ 10"
definition MaxBlockSize :: nat where "MaxBlockSize = 16 * 2 ^ 20"
definition DesiredPerFileBlocks :: nat where "DesiredPerFileBlocks = 2000"
definition SyntheticDirectorySize :: int where "SyntheticDirectorySize = 128"

function block_sizes_from :: "nat \<Rightarrow> nat list" where
  "block_sizes_from b =
     (if b = 0 \<or> MaxBlockSize < b then [] else b # block_sizes_from (b * 2))"
  by pat_completeness auto
termination
  by (relation "measure (\<lambda>b. Suc MaxBlockSize - b)") auto

declare block_sizes_from.simps [simp del]

definition BlockSizes :: "nat list" where
  "BlockSizes = block_sizes_from MinBlockSize"

text \<open>The loop of \<open>BlockSize\<close>: it stops at the first size that is large enough, and its
  variable keeps the last size when none is.\<close>

fun block_size_loop :: "nat list \<Rightarrow> int \<Rightarrow> nat \<Rightarrow> nat" where
  "block_size_loop [] fileSize cur = cur"
| "block_size_loop (b # bs) fileSize cur =
     (if fileSize < int (DesiredPerFileBlocks * b) then b else block_size_loop bs fileSize b)"

definition BlockSize :: "int \<Rightarrow> nat" where
  "BlockSize fileSize = block_size_loop BlockSizes fileSize 0"

section \<open>Platform data\<close>

record UnixData =
  OwnerName :: string
  GroupName :: string
  UID :: int
  GID :: int

record WindowsData =
  WOwnerName :: string
  OwnerIsGroup :: bool

record Xattr =
  XName :: string
  XValue :: bytes

record XattrData =
  Xattrs :: "Xattr list"

record PlatformData =
  Unix :: "UnixData option"
  Windows :: "WindowsData option"
  Linux :: "XattrData option"
  Darwin :: "XattrData option"
  FreeBSD :: "XattrData option"
  NetBSD :: "XattrData option"

text \<open>The operating system the program is built for (package \<open>build\<close>).\<close>

datatype goos = GoLinux | GoDarwin | GoFreeBSD | GoNetBSD | GoWindows | GoOther

definition PlatformData_Xattrs :: "goos \<Rightarrow> PlatformData \<Rightarrow> Xattr list" where
  "PlatformData_Xattrs os p =
     (case os of
        GoLinux \<Rightarrow> (case Linux p of Some d \<Rightarrow> Xattrs d | None \<Rightarrow> [])
      | GoDarwin \<Rightarrow> (case Darwin p of Some d \<Rightarrow> Xattrs d | None \<Rightarrow> [])
      | GoFreeBSD \<Rightarrow> (case FreeBSD p of Some d \<Rightarrow> Xattrs d | None \<Rightarrow> [])
      | GoNetBSD \<Rightarrow> (case NetBSD p of Some d \<Rightarrow> Xattrs d | None \<Rightarrow> [])
      | _ \<Rightarrow> [])"

definition SetXattrs :: "goos \<Rightarrow> PlatformData \<Rightarrow> Xattr list \<Rightarrow> PlatformData" where
  "SetXattrs os p xs =
     (case os of
        GoLinux \<Rightarrow> p\<lparr>Linux := Some \<lparr>Xattrs = xs\<rparr>\<rparr>
      | GoDarwin \<Rightarrow> p\<lparr>Darwin := Some \<lparr>Xattrs = xs\<rparr>\<rparr>
      | GoFreeBSD \<Rightarrow> p\<lparr>FreeBSD := Some \<lparr>Xattrs = xs\<rparr>\<rparr>
      | GoNetBSD \<Rightarrow> p\<lparr>NetBSD := Some \<lparr>Xattrs = xs\<rparr>\<rparr>
      | _ \<Rightarrow> p)"

definition or_else :: "'a option \<Rightarrow> 'a option \<Rightarrow> 'a option" where
  "or_else a b = (case a of None \<Rightarrow> b | Some x \<Rightarrow> a)"

definition MergeWith :: "PlatformData \<Rightarrow> PlatformData \<Rightarrow> PlatformData" where
  "MergeWith p q =
     \<lparr>Unix = or_else (Unix p) (Unix q), Windows = or_else (Windows p) (Windows q),
      Linux = or_else (Linux p) (Linux q), Darwin = or_else (Darwin p) (Darwin q),
      FreeBSD = or_else (FreeBSD p) (FreeBSD q), NetBSD = or_else (NetBSD p) (NetBSD q)\<rparr>"

fun xattr_lists_equal :: "Xattr list \<Rightarrow> Xattr list \<Rightarrow> bool" where
  "xattr_lists_equal (x # xs) (y # ys) \<longleftrightarrow>
     \<not> (XName x \<noteq> XName y) \<and> \<not> (XValue x \<noteq> XValue y) \<and> xattr_lists_equal xs ys"
| "xattr_lists_equal _ _ \<longleftrightarrow> True"

definition xattrsEqual :: "XattrData option \<Rightarrow> XattrData option \<Rightarrow> bool" where
  "xattrsEqual a b =
     (let xs = (case a of None \<Rightarrow> [] | Some d \<Rightarrow> Xattrs d);
          ys = (case b of None \<Rightarrow> [] | Some d \<Rightarrow> Xattrs d);
          aEmpty = (a = None \<or> length xs = 0); bEmpty = (b = None \<or> length ys = 0)
      in if aEmpty \<and> bEmpty then True
         else if aEmpty \<or> bEmpty then False
         else if length xs \<noteq> length ys then False
         else xattr_lists_equal xs ys)"

definition unixOwnershipEqual :: "UnixData option \<Rightarrow> UnixData option \<Rightarrow> bool" where
  "unixOwnershipEqual a b =
     (case (a, b) of
        (None, None) \<Rightarrow> True
      | (Some a, Some b) \<Rightarrow>
          UID a = UID b \<and> GID a = GID b \<or> OwnerName a = OwnerName b \<and> GroupName a = GroupName b
      | _ \<Rightarrow> False)"

definition windowsOwnershipEqual :: "WindowsData option \<Rightarrow> WindowsData option \<Rightarrow> bool" where
  "windowsOwnershipEqual a b =
     (case (a, b) of
        (None, None) \<Rightarrow> True
      | (Some a, Some b) \<Rightarrow> WOwnerName a = WOwnerName b \<and> OwnerIsGroup a = OwnerIsGroup b
      | _ \<Rightarrow> False)"

section \<open>Blocks\<close>

record BlockInfo =
  Hash :: bytes
  Offset :: int
  BSize :: int

text \<open>For each block size, the SHA-256 of a block of zeroes.\<close>

definition sha256OfEmptyBlock :: "(int \<times> bytes) list" where
  "sha256OfEmptyBlock =
     [(131072, [0xfa, 0x43, 0x23, 0x9b, 0xce, 0xe7, 0xb9, 0x7c, 0xa6, 0x2f, 0x0, 0x7c, 0xc6, 0x84, 0x87, 0x56, 0xa, 0x39, 0xe1, 0x9f, 0x74, 0xf3, 0xdd, 0xe7, 0x48, 0x6d, 0xb3, 0xf9, 0x8d, 0xf8, 0xe4, 0x71]),
      (262144, [0x8a, 0x39, 0xd2, 0xab, 0xd3, 0x99, 0x9a, 0xb7, 0x3c, 0x34, 0xdb, 0x24, 0x76, 0x84, 0x9c, 0xdd, 0xf3, 0x3, 0xce, 0x38, 0x9b, 0x35, 0x82, 0x68, 0x50, 0xf9, 0xa7, 0x0, 0x58, 0x9b, 0x4a, 0x90]),
      (524288, [0x7, 0x85, 0x4d, 0x2f, 0xef, 0x29, 0x7a, 0x6, 0xba, 0x81, 0x68, 0x5e, 0x66, 0xc, 0x33, 0x2d, 0xe3, 0x6d, 0x5d, 0x18, 0xd5, 0x46, 0x92, 0x7d, 0x30, 0xda, 0xad, 0x6d, 0x7f, 0xda, 0x15, 0x41]),
      (1048576, [0x30, 0xe1, 0x49, 0x55, 0xeb, 0xf1, 0x35, 0x22, 0x66, 0xdc, 0x2f, 0xf8, 0x6, 0x7e, 0x68, 0x10, 0x46, 0x7, 0xe7, 0x50, 0xab, 0xb9, 0xd3, 0xb3, 0x65, 0x82, 0xb8, 0xaf, 0x90, 0x9f, 0xcb, 0x58]),
      (2097152, [0x56, 0x47, 0xf0, 0x5e, 0xc1, 0x89, 0x58, 0x94, 0x7d, 0x32, 0x87, 0x4e, 0xeb, 0x78, 0x8f, 0xa3, 0x96, 0xa0, 0x5d, 0xb, 0xab, 0x7c, 0x1b, 0x71, 0xf1, 0x12, 0xce, 0xb7, 0xe9, 0xb3, 0x1e, 0xee]),
      (4194304, [0xbb, 0x9f, 0x8d, 0xf6, 0x14, 0x74, 0xd2, 0x5e, 0x71, 0xfa, 0x0, 0x72, 0x23, 0x18, 0xcd, 0x38, 0x73, 0x96, 0xca, 0x17, 0x36, 0x60, 0x5e, 0x12, 0x48, 0x82, 0x1c, 0xc0, 0xde, 0x3d, 0x3a, 0xf8]),
      (8388608, [0x2d, 0xae, 0xb1, 0xf3, 0x60, 0x95, 0xb4, 0x4b, 0x31, 0x84, 0x10, 0xb3, 0xf4, 0xe8, 0xb5, 0xd9, 0x89, 0xdc, 0xc7, 0xbb, 0x2, 0x3d, 0x14, 0x26, 0xc4, 0x92, 0xda, 0xb0, 0xa3, 0x5, 0x3e, 0x74]),
      (16777216, [0x8, 0xa, 0xcf, 0x35, 0xa5, 0x7, 0xac, 0x98, 0x49, 0xcf, 0xcb, 0xa4, 0x7d, 0xc2, 0xad, 0x83, 0xe0, 0x1b, 0x75, 0x66, 0x3a, 0x51, 0x62, 0x79, 0xc8, 0xb9, 0xd2, 0x43, 0xb7, 0x19, 0x64, 0x3e])]"

definition Block_IsEmpty :: "BlockInfo \<Rightarrow> bool" where
  "Block_IsEmpty b =
     (case map_of sha256OfEmptyBlock (BSize b) of Some v \<Rightarrow> Hash b = v | None \<Rightarrow> False)"

definition BlocksHash_of :: "(bytes \<Rightarrow> bytes) \<Rightarrow> BlockInfo list \<Rightarrow> bytes" where
  "BlocksHash_of sha256 bs = sha256 (concat (map Hash bs))"

definition VectorHash :: "(bytes \<Rightarrow> bytes) \<Rightarrow> vector \<Rightarrow> bytes" where
  "VectorHash sha256 v = sha256 (concat (map (\<lambda>c. PutUint64 (ID c) @ PutUint64 (Value c)) (Counters v)))"

fun block_hashes_equal :: "BlockInfo list \<Rightarrow> BlockInfo list \<Rightarrow> bool" where
  "block_hashes_equal (a # as) (b # bs) \<longleftrightarrow> Hash a = Hash b \<and> block_hashes_equal as bs"
| "block_hashes_equal _ _ \<longleftrightarrow> True"

definition blocksEqual :: "BlockInfo list \<Rightarrow> BlockInfo list \<Rightarrow> bool" where
  "blocksEqual a b \<longleftrightarrow> length b = length a \<and> block_hashes_equal a b"

section \<open>File infos\<close>

datatype FileInfoType =
    FileInfoTypeFile | FileInfoTypeDirectory | FileInfoTypeSymlinkFile
  | FileInfoTypeSymlinkDirectory | FileInfoTypeSymlink | FileInfoTypeUnknown int

record FileInfo =
  Name :: string
  Size :: int
  ModifiedS :: int
  ModifiedBy :: short_id
  Version :: vector
  Sequence :: int
  Blocks :: "BlockInfo list"
  SymlinkTarget :: bytes
  BlocksHash :: bytes
  PreviousBlocksHash :: bytes
  Encrypted :: bytes
  Platform :: PlatformData
  Type :: FileInfoType
  Permissions :: uint32
  ModifiedNs :: int
  RawBlockSize :: int
  LocalFlags :: uint32
  EncryptionTrailerSize :: int
  Deleted :: bool
  NoPermissions :: bool
  truncated :: bool

definition IsDeleted :: "FileInfo \<Rightarrow> bool" where "IsDeleted f \<longleftrightarrow> Deleted f"
definition IsInvalid :: "FileInfo \<Rightarrow> bool" where "IsInvalid f \<longleftrightarrow> Flag_IsInvalid (LocalFlags f)"
definition IsUnsupported :: "FileInfo \<Rightarrow> bool" where
  "IsUnsupported f \<longleftrightarrow> (LocalFlags f AND FlagLocalUnsupported) \<noteq> 0"
definition IsIgnored :: "FileInfo \<Rightarrow> bool" where
  "IsIgnored f \<longleftrightarrow> (LocalFlags f AND FlagLocalIgnored) \<noteq> 0"
definition MustRescan :: "FileInfo \<Rightarrow> bool" where
  "MustRescan f \<longleftrightarrow> (LocalFlags f AND FlagLocalMustRescan) \<noteq> 0"
definition IsReceiveOnlyChanged :: "FileInfo \<Rightarrow> bool" where
  "IsReceiveOnlyChanged f \<longleftrightarrow> (LocalFlags f AND FlagLocalReceiveOnly) \<noteq> 0"
definition IsDirectory :: "FileInfo \<Rightarrow> bool" where "IsDirectory f \<longleftrightarrow> Type f = FileInfoTypeDirectory"
definition ShouldConflict :: "FileInfo \<Rightarrow> bool" where
  "ShouldConflict f \<longleftrightarrow> (LocalFlags f AND LocalConflictFlags) \<noteq> 0"
definition IsSymlink :: "FileInfo \<Rightarrow> bool" where
  "IsSymlink f \<longleftrightarrow>
     Type f \<in> {FileInfoTypeSymlink, FileInfoTypeSymlinkDirectory, FileInfoTypeSymlinkFile}"
definition HasPermissionBits :: "FileInfo \<Rightarrow> bool" where "HasPermissionBits f \<longleftrightarrow> \<not> NoPermissions f"

definition FileSize :: "FileInfo \<Rightarrow> int" where
  "FileSize f =
     (if Deleted f then 0
      else if IsDirectory f \<or> IsSymlink f then SyntheticDirectorySize
      else Size f)"

definition FileInfo_BlockSize :: "FileInfo \<Rightarrow> int" where
  "FileInfo_BlockSize f = (if RawBlockSize f < int MinBlockSize then int MinBlockSize else RawBlockSize f)"

definition setNoContent :: "FileInfo \<Rightarrow> FileInfo" where
  "setNoContent f = f\<lparr>Blocks := [], BlocksHash := [], Size := 0\<rparr>"

definition setLocalFlags :: "FileInfo \<Rightarrow> uint32 \<Rightarrow> FileInfo" where
  "setLocalFlags f flags = setNoContent (f\<lparr>LocalFlags := flags\<rparr>)"

definition SetMustRescan :: "FileInfo \<Rightarrow> FileInfo" where
  "SetMustRescan f = setLocalFlags f FlagLocalMustRescan"

definition SetIgnored :: "FileInfo \<Rightarrow> FileInfo" where
  "SetIgnored f = setLocalFlags f FlagLocalIgnored"

definition SetUnsupported :: "FileInfo \<Rightarrow> FileInfo" where
  "SetUnsupported f = setLocalFlags f FlagLocalUnsupported"

text \<open>The clock is read twice, for the counter and for the modification time.\<close>

definition SetDeleted :: "FileInfo \<Rightarrow> short_id \<Rightarrow> uint64 \<Rightarrow> int \<Rightarrow> FileInfo" where
  "SetDeleted f by now1 now2 =
     setNoContent (f\<lparr>ModifiedBy := by, Deleted := True, Version := updateWithNow (Version f) by now1,
       ModifiedS := now2\<rparr>)"

end
