(* ===== verification/File_Wire.thy ===== *)
theory File_Wire
  imports File_Info
begin

unbundle bit_operations_syntax

text \<open>
  Conversions of file infos to and from their messages, \<^verbatim>\<open>lib/protocol/bep_fileinfo.go\<close>.
  The records named \<open>bep_\<close> are the generated protocol buffer types.  A file info goes to
  other devices without its internal fields and to the database with them.
\<close>

section \<open>Messages\<close>

record bep_block_info =
  wHash :: bytes
  wOffset :: int
  wBSize :: int

record bep_unix_data =
  wOwnerName :: string
  wGroupName :: string
  wUid :: int
  wGid :: int

record bep_xattr =
  wXName :: string
  wXValue :: bytes

record bep_xattr_data =
  wXattrs :: "bep_xattr list"

record bep_platform_data =
  wUnix :: "bep_unix_data option"
  wWindows :: "WindowsData option"
  wLinux :: "bep_xattr_data option"
  wDarwin :: "bep_xattr_data option"
  wFreebsd :: "bep_xattr_data option"
  wNetbsd :: "bep_xattr_data option"

record bep_file_info =
  wName :: string
  wSize :: int
  wModifiedS :: int
  wModifiedBy :: uint64
  wVersion :: "bep_vector option"
  wSequence :: int
  wBlocks :: "bep_block_info list"
  wSymlinkTarget :: bytes
  wBlocksHash :: bytes
  wPreviousBlocksHash :: bytes
  wEncrypted :: bytes
  wType :: FileInfoType
  wPermissions :: uint32
  wModifiedNs :: int
  wBlockSize :: int
  wPlatform :: "bep_platform_data option"
  wLocalFlags :: uint32
  wEncryptionTrailerSize :: int
  wDeleted :: bool
  wInvalid :: bool
  wNoPermissions :: bool

section \<open>Conversions of the parts\<close>

definition Block_ToWire :: "BlockInfo \<Rightarrow> bep_block_info" where
  "Block_ToWire b = \<lparr>wHash = Hash b, wOffset = Offset b, wBSize = int32 (BSize b)\<rparr>"

definition BlockInfoFromWire :: "bep_block_info \<Rightarrow> BlockInfo" where
  "BlockInfoFromWire w = \<lparr>Hash = wHash w, Offset = wOffset w, BSize = wBSize w\<rparr>"

definition Unix_toWire :: "UnixData option \<Rightarrow> bep_unix_data option" where
  "Unix_toWire u =
     (case u of
        None \<Rightarrow> None
      | Some u \<Rightarrow> Some \<lparr>wOwnerName = OwnerName u, wGroupName = GroupName u,
          wUid = int32 (UID u), wGid = int32 (GID u)\<rparr>)"

definition unixDataFromWire :: "bep_unix_data option \<Rightarrow> UnixData option" where
  "unixDataFromWire w =
     (case w of
        None \<Rightarrow> None
      | Some w \<Rightarrow> Some \<lparr>OwnerName = wOwnerName w, GroupName = wGroupName w, UID = wUid w, GID = wGid w\<rparr>)"

definition Xattr_toWire :: "Xattr \<Rightarrow> bep_xattr" where
  "Xattr_toWire a = \<lparr>wXName = XName a, wXValue = XValue a\<rparr>"

definition xattrFromWire :: "bep_xattr \<Rightarrow> Xattr" where
  "xattrFromWire w = \<lparr>XName = wXName w, XValue = wXValue w\<rparr>"

definition XattrData_toWire :: "XattrData option \<Rightarrow> bep_xattr_data option" where
  "XattrData_toWire x =
     (case x of None \<Rightarrow> None | Some x \<Rightarrow> Some \<lparr>wXattrs = map Xattr_toWire (Xattrs x)\<rparr>)"

definition xattrDataFromWire :: "bep_xattr_data option \<Rightarrow> XattrData option" where
  "xattrDataFromWire w =
     (case w of None \<Rightarrow> None | Some w \<Rightarrow> Some \<lparr>Xattrs = map xattrFromWire (wXattrs w)\<rparr>)"

definition Platform_toWire :: "PlatformData \<Rightarrow> bep_platform_data option" where
  "Platform_toWire p =
     Some \<lparr>wUnix = Unix_toWire (Unix p), wWindows = Windows p, wLinux = XattrData_toWire (Linux p),
       wDarwin = XattrData_toWire (Darwin p), wFreebsd = XattrData_toWire (FreeBSD p),
       wNetbsd = XattrData_toWire (NetBSD p)\<rparr>"

definition empty_platform :: PlatformData where
  "empty_platform = \<lparr>Unix = None, Windows = None, Linux = None, Darwin = None, FreeBSD = None, NetBSD = None\<rparr>"

definition platformDataFromWire :: "bep_platform_data option \<Rightarrow> PlatformData" where
  "platformDataFromWire w =
     (case w of
        None \<Rightarrow> empty_platform
      | Some w \<Rightarrow>
          \<lparr>Unix = unixDataFromWire (wUnix w), Windows = wWindows w,
           Linux = xattrDataFromWire (wLinux w), Darwin = xattrDataFromWire (wDarwin w),
           FreeBSD = xattrDataFromWire (wFreebsd w), NetBSD = xattrDataFromWire (wNetbsd w)\<rparr>)"

section \<open>Conversions of file infos\<close>

text \<open>The message without internal fields.\<close>

definition wire_of :: "FileInfo \<Rightarrow> bep_file_info" where
  "wire_of f =
     \<lparr>wName = Name f, wSize = Size f, wModifiedS = ModifiedS f, wModifiedBy = ModifiedBy f,
      wVersion = ToWire (Version f), wSequence = Sequence f,
      wBlocks = map Block_ToWire (Blocks f), wSymlinkTarget = SymlinkTarget f,
      wBlocksHash = BlocksHash f, wPreviousBlocksHash = PreviousBlocksHash f,
      wEncrypted = Encrypted f, wType = Type f, wPermissions = Permissions f,
      wModifiedNs = ModifiedNs f, wBlockSize = RawBlockSize f,
      wPlatform = Platform_toWire (Platform f), wLocalFlags = 0, wEncryptionTrailerSize = 0,
      wDeleted = Deleted f, wInvalid = IsInvalid f, wNoPermissions = NoPermissions f\<rparr>"

definition FileInfo_ToWire :: "bool \<Rightarrow> FileInfo \<Rightarrow> ('e, bep_file_info) outcome" where
  "FileInfo_ToWire withInternalFields f =
     (if truncated f \<and> \<not> (IsDeleted f \<or> IsInvalid f \<or> IsIgnored f) then Panic
      else
        Ok (if withInternalFields
            then (wire_of f)\<lparr>wLocalFlags := LocalFlags f,
                   wEncryptionTrailerSize := int32 (EncryptionTrailerSize f)\<rparr>
            else wire_of f))"

definition fileInfoFromWireWithBlocks :: "bep_file_info \<Rightarrow> BlockInfo list \<Rightarrow> FileInfo" where
  "fileInfoFromWireWithBlocks w blocks =
     (let localFlags = (if wInvalid w then FlagLocalRemoteInvalid else 0)
      in \<lparr>Name = wName w, Size = wSize w, ModifiedS = wModifiedS w, ModifiedBy = wModifiedBy w,
          Version = VectorFromWire (wVersion w), Sequence = wSequence w, Blocks = blocks,
          SymlinkTarget = wSymlinkTarget w, BlocksHash = wBlocksHash w,
          PreviousBlocksHash = wPreviousBlocksHash w, Encrypted = wEncrypted w,
          Platform = platformDataFromWire (wPlatform w), Type = wType w,
          Permissions = wPermissions w, ModifiedNs = wModifiedNs w, RawBlockSize = wBlockSize w,
          LocalFlags = localFlags, EncryptionTrailerSize = 0, Deleted = wDeleted w,
          NoPermissions = wNoPermissions w, truncated = False\<rparr>)"

definition FileInfoFromWire :: "bep_file_info \<Rightarrow> FileInfo" where
  "FileInfoFromWire w =
     fileInfoFromWireWithBlocks w (if 0 < length (wBlocks w) then map BlockInfoFromWire (wBlocks w) else [])"

definition FileInfoFromDB :: "bep_file_info \<Rightarrow> FileInfo" where
  "FileInfoFromDB w =
     (FileInfoFromWire w)\<lparr>LocalFlags := wLocalFlags w, EncryptionTrailerSize := wEncryptionTrailerSize w\<rparr>"

definition FileInfoFromDBTruncated :: "bep_file_info \<Rightarrow> FileInfo" where
  "FileInfoFromDBTruncated w =
     (fileInfoFromWireWithBlocks w [])\<lparr>LocalFlags := wLocalFlags w,
        EncryptionTrailerSize := wEncryptionTrailerSize w, truncated := True\<rparr>"

section \<open>Round trips\<close>

text \<open>
  The fields that a message narrows to 32 bits: block sizes, Unix owner and group IDs, and
  the length of the encryption trailer.
\<close>

definition fits32 :: "int \<Rightarrow> bool" where
  "fits32 x \<longleftrightarrow> - (2 ^ 31) \<le> x \<and> x < 2 ^ 31"

definition wire_sized :: "FileInfo \<Rightarrow> bool" where
  "wire_sized f \<longleftrightarrow>
     list_all (\<lambda>b. fits32 (BSize b)) (Blocks f) \<and>
     (case Unix (Platform f) of None \<Rightarrow> True | Some u \<Rightarrow> fits32 (UID u) \<and> fits32 (GID u)) \<and>
     fits32 (EncryptionTrailerSize f)"

lemma fits32_id [simp]: "fits32 x \<Longrightarrow> int32 x = x"
  by (simp add: fits32_def int32_id)

lemma BlockInfoFromWire_ToWire [simp]: "fits32 (BSize b) \<Longrightarrow> BlockInfoFromWire (Block_ToWire b) = b"
  by (simp add: BlockInfoFromWire_def Block_ToWire_def)

lemma xattrFromWire_toWire [simp]: "xattrFromWire (Xattr_toWire a) = a"
  by (simp add: xattrFromWire_def Xattr_toWire_def)

lemma xattrDataFromWire_toWire [simp]: "xattrDataFromWire (XattrData_toWire x) = x"
  by (cases x) (simp_all add: xattrDataFromWire_def XattrData_toWire_def comp_def)

lemma unixDataFromWire_toWire:
  "case u of None \<Rightarrow> True | Some u \<Rightarrow> fits32 (UID u) \<and> fits32 (GID u) \<Longrightarrow>
   unixDataFromWire (Unix_toWire u) = u"
  by (cases u) (simp_all add: unixDataFromWire_def Unix_toWire_def)

lemma platformDataFromWire_toWire:
  "case Unix p of None \<Rightarrow> True | Some u \<Rightarrow> fits32 (UID u) \<and> fits32 (GID u) \<Longrightarrow>
   platformDataFromWire (Platform_toWire p) = p"
  by (simp add: platformDataFromWire_def Platform_toWire_def unixDataFromWire_toWire)

lemma map_BlockInfoFromWire:
  "list_all (\<lambda>b. fits32 (BSize b)) bs \<Longrightarrow> map BlockInfoFromWire (map Block_ToWire bs) = bs"
  by (induction bs) simp_all

lemma FromWire_wire_of:
  assumes "wire_sized f"
  shows "FileInfoFromWire (wire_of f) =
    f\<lparr>LocalFlags := (if IsInvalid f then FlagLocalRemoteInvalid else 0),
      EncryptionTrailerSize := 0, truncated := False\<rparr>"
proof -
  have "map BlockInfoFromWire (map Block_ToWire (Blocks f)) = Blocks f"
    using assms by (intro map_BlockInfoFromWire) (simp add: wire_sized_def)
  moreover have "platformDataFromWire (Platform_toWire (Platform f)) = Platform f"
    using assms by (intro platformDataFromWire_toWire) (simp add: wire_sized_def)
  ultimately show ?thesis
    by (cases f) (simp add: FileInfoFromWire_def fileInfoFromWireWithBlocks_def wire_of_def del: map_map)
qed

lemma FromWire_internal [simp]:
  "FileInfoFromWire (w\<lparr>wLocalFlags := x, wEncryptionTrailerSize := y\<rparr>) = FileInfoFromWire w"
  by (simp add: FileInfoFromWire_def fileInfoFromWireWithBlocks_def)

lemma FromWire_ToWire:
  assumes "wire_sized f" and "FileInfo_ToWire withInternal f = Ok w"
  shows "FileInfoFromWire w =
    f\<lparr>LocalFlags := (if IsInvalid f then FlagLocalRemoteInvalid else 0),
      EncryptionTrailerSize := 0, truncated := False\<rparr>"
proof -
  have "FileInfoFromWire w = FileInfoFromWire (wire_of f)"
    using assms(2) by (auto simp: FileInfo_ToWire_def split: if_splits)
  then show ?thesis using FromWire_wire_of [OF assms(1)] by simp
qed

text \<open>A complete file info survives the database: writing it with its internal fields and
  reading it back gives the same file info, when its 32-bit fields fit.\<close>

theorem database_round_trip:
  assumes "wire_sized f" and "\<not> truncated f"
  shows "\<exists>w. FileInfo_ToWire True f = Ok w \<and> FileInfoFromDB w = f"
proof -
  define w where "w = (wire_of f)\<lparr>wLocalFlags := LocalFlags f,
    wEncryptionTrailerSize := int32 (EncryptionTrailerSize f)\<rparr>"
  have w: "FileInfo_ToWire True f = Ok w" using assms(2) by (simp add: FileInfo_ToWire_def w_def)
  have "int32 (EncryptionTrailerSize f) = EncryptionTrailerSize f"
    using assms(1) by (simp add: wire_sized_def)
  then have "FileInfoFromDB w = f"
    using FromWire_wire_of [OF assms(1)] assms(2)
    by (cases f) (simp add: FileInfoFromDB_def w_def)
  with w show ?thesis by blast
qed

definition sample_file :: FileInfo where
  "sample_file =
     \<lparr>Name = ''a'', Size = 131072, ModifiedS = 1700000000, ModifiedBy = 7, Version = vec_a, Sequence = 3,
      Blocks = [\<lparr>Hash = [1, 2], Offset = 0, BSize = 131072\<rparr>], SymlinkTarget = [], BlocksHash = [9],
      PreviousBlocksHash = [], Encrypted = [], Platform = empty_platform, Type = FileInfoTypeFile,
      Permissions = 0x1A4, ModifiedNs = 5, RawBlockSize = 131072, LocalFlags = 2,
      EncryptionTrailerSize = 0, Deleted = False, NoPermissions = False, truncated = False\<rparr>"

lemma sample_file_sized: "wire_sized sample_file" "\<not> truncated sample_file"
  by (simp_all add: sample_file_def wire_sized_def fits32_def empty_platform_def)

theorem database_round_trip_witness:
  "\<exists>w. FileInfo_ToWire True sample_file = Ok w \<and> FileInfoFromDB w = sample_file"
  by (rule database_round_trip [OF sample_file_sized])

text \<open>What another device receives keeps whether the file is invalid but none of the local
  flags: the received flags are empty or just \<open>FlagLocalRemoteInvalid\<close>, and the encryption
  trailer size is not sent.  All other fields arrive as they were.\<close>

theorem local_flags_stay_local:
  assumes "wire_sized f" and "FileInfo_ToWire False f = Ok w"
  shows "wLocalFlags w = 0 \<and> wEncryptionTrailerSize w = 0 \<and>
    IsInvalid (FileInfoFromWire w) = IsInvalid f \<and>
    FileInfoFromWire w =
      f\<lparr>LocalFlags := (if IsInvalid f then FlagLocalRemoteInvalid else 0),
        EncryptionTrailerSize := 0, truncated := False\<rparr>"
proof -
  have "Flag_IsInvalid FlagLocalRemoteInvalid" and "\<not> Flag_IsInvalid 0"
    by (simp_all add: Flag_IsInvalid_def flag_defs)
  moreover have "wLocalFlags w = 0" and "wEncryptionTrailerSize w = 0"
    using assms(2) by (auto simp: FileInfo_ToWire_def wire_of_def split: if_splits)
  ultimately show ?thesis using FromWire_ToWire [OF assms] by (simp add: IsInvalid_def)
qed

lemma sample_file_wire:
  "FileInfo_ToWire False sample_file = Ok (case FileInfo_ToWire False sample_file of Ok w \<Rightarrow> w)"
  by (simp add: FileInfo_ToWire_def sample_file_def)

theorem local_flags_stay_local_witness:
  "IsInvalid (FileInfoFromWire (case FileInfo_ToWire False sample_file of Ok w \<Rightarrow> w)) = IsInvalid sample_file"
  using local_flags_stay_local [OF sample_file_sized(1) sample_file_wire] by blast

end
