(* ===== verification/BEP_Messages.thy ===== *)
theory BEP_Messages
  imports File_Wire
begin

text \<open>
  The messages of the block exchange protocol and their conversions:
  \<^verbatim>\<open>lib/protocol/bep_clusterconfig.go\<close>, \<^verbatim>\<open>bep_index_updates.go\<close>,
  \<^verbatim>\<open>bep_request_response.go\<close>, \<^verbatim>\<open>bep_download_progress.go\<close>, \<^verbatim>\<open>bep_hello.go\<close>,
  \<^verbatim>\<open>errors.go\<close> and \<^verbatim>\<open>indexid.go\<close>.

  The law that a message read back equals the message sent is the locale \<open>wire_message\<close>;
  it extends to lists of messages, and every message type is an instance for the values that
  fit the wire.  Marshalling itself (protocol buffers) is a parameter.
\<close>

section \<open>The law of a message type\<close>

locale wire_message =
  fixes ok :: "'a \<Rightarrow> bool" and to_wire :: "'a \<Rightarrow> ('e, 'w) outcome" and from_wire :: "'w \<Rightarrow> ('e, 'a) outcome"
  assumes round_trip: "ok x \<Longrightarrow> obind (to_wire x) from_wire = Ok x"
begin

lemma sent: "ok x \<Longrightarrow> \<exists>w. to_wire x = Ok w \<and> from_wire w = Ok x"
  using round_trip [of x] by (cases "to_wire x") auto

lemma list_round_trip:
  "list_all ok xs \<Longrightarrow> \<exists>ws. omap to_wire xs = Ok ws \<and> omap from_wire ws = Ok xs"
proof (induction xs)
  case (Cons x xs)
  from Cons.prems sent [of x] obtain w where "to_wire x = Ok w" "from_wire w = Ok x" by auto
  with Cons show ?case by auto
qed simp

end

section \<open>Cluster configuration\<close>

datatype Compression = CompressionMetadata | CompressionNever | CompressionAlways | CompressionOther int

datatype FolderType =
    FolderTypeSendReceive | FolderTypeSendOnly | FolderTypeReceiveOnly | FolderTypeReceiveEncrypted
  | FolderTypeOther int

datatype FolderStopReason = FolderStopReasonRunning | FolderStopReasonPaused | FolderStopReasonOther int

datatype wire_error = WriteError | ReadShort | HelloTooBig | UnmarshalError | ErrTooOldVersion | ErrUnknownMagic
  | BadIndexIDLength

record Device =
  DevID :: device_id
  DevName :: string
  Addresses :: "string list"
  DevCompression :: Compression
  CertName :: string
  MaxSequence :: int
  Introducer :: bool
  IndexID :: uint64
  SkipIntroductionRemovals :: bool
  EncryptionPasswordToken :: bytes

record bep_device =
  bId :: bytes
  bName :: string
  bAddresses :: "string list"
  bCompression :: Compression
  bCertName :: string
  bMaxSequence :: int
  bIntroducer :: bool
  bIndexId :: uint64
  bSkipIntroductionRemovals :: bool
  bEncryptionPasswordToken :: bytes

definition Device_toWire :: "Device \<Rightarrow> bep_device" where
  "Device_toWire d =
     \<lparr>bId = DevID d, bName = DevName d, bAddresses = Addresses d, bCompression = DevCompression d,
      bCertName = CertName d, bMaxSequence = MaxSequence d, bIntroducer = Introducer d,
      bIndexId = IndexID d, bSkipIntroductionRemovals = SkipIntroductionRemovals d,
      bEncryptionPasswordToken = EncryptionPasswordToken d\<rparr>"

text \<open>
  \<open>DeviceID(w.Id)\<close> converts a slice to an array of 32 bytes: Go panics when the slice is
  shorter and drops the tail when it is longer.
\<close>

definition deviceFromWire :: "bep_device \<Rightarrow> (wire_error, Device) outcome" where
  "deviceFromWire w =
     (if length (bId w) < DeviceIDLength then Panic
      else
        Ok \<lparr>DevID = take DeviceIDLength (bId w), DevName = bName w, Addresses = bAddresses w,
            DevCompression = bCompression w, CertName = bCertName w, MaxSequence = bMaxSequence w,
            Introducer = bIntroducer w, IndexID = bIndexId w,
            SkipIntroductionRemovals = bSkipIntroductionRemovals w,
            EncryptionPasswordToken = bEncryptionPasswordToken w\<rparr>)"

record Folder =
  FolderID :: string
  Label :: string
  FType :: FolderType
  StopReason :: FolderStopReason
  Devices :: "Device list"

record bep_folder =
  bfId :: string
  bfLabel :: string
  bfType :: FolderType
  bfStopReason :: FolderStopReason
  bfDevices :: "bep_device list"

definition Folder_toWire :: "Folder \<Rightarrow> bep_folder" where
  "Folder_toWire f =
     \<lparr>bfId = FolderID f, bfLabel = Label f, bfType = FType f, bfStopReason = StopReason f,
      bfDevices = map Device_toWire (Devices f)\<rparr>"

definition folderFromWire :: "bep_folder \<Rightarrow> (wire_error, Folder) outcome" where
  "folderFromWire w =
     obind (omap deviceFromWire (bfDevices w)) (\<lambda>ds.
       Ok \<lparr>FolderID = bfId w, Label = bfLabel w, FType = bfType w, StopReason = bfStopReason w, Devices = ds\<rparr>)"

definition IsRunning :: "Folder \<Rightarrow> bool" where
  "IsRunning f = (case StopReason f of FolderStopReasonPaused \<Rightarrow> False | _ \<Rightarrow> True)"

record ClusterConfig =
  Folders :: "Folder list"
  Secondary :: bool

record bep_cluster_config =
  bcFolders :: "bep_folder list"
  bcSecondary :: bool

definition ClusterConfig_toWire :: "ClusterConfig \<Rightarrow> bep_cluster_config" where
  "ClusterConfig_toWire c = \<lparr>bcFolders = map Folder_toWire (Folders c), bcSecondary = Secondary c\<rparr>"

definition clusterConfigFromWire :: "bep_cluster_config \<Rightarrow> (wire_error, ClusterConfig) outcome" where
  "clusterConfigFromWire w =
     obind (omap folderFromWire (bcFolders w)) (\<lambda>fs. Ok \<lparr>Folders = fs, Secondary = bcSecondary w\<rparr>)"

section \<open>Requests and responses\<close>

datatype ErrorCode = ErrorCodeNoError | ErrorCodeGeneric | ErrorCodeNoSuchFile | ErrorCodeInvalidFile
  | ErrorCodeOther int

datatype request_error = ErrGeneric | ErrNoSuchFile | ErrInvalid | OtherError

definition codeToError :: "ErrorCode \<Rightarrow> request_error option" where
  "codeToError code =
     (case code of
        ErrorCodeNoError \<Rightarrow> None
      | ErrorCodeNoSuchFile \<Rightarrow> Some ErrNoSuchFile
      | ErrorCodeInvalidFile \<Rightarrow> Some ErrInvalid
      | _ \<Rightarrow> Some ErrGeneric)"

definition errorToCode :: "request_error option \<Rightarrow> ErrorCode" where
  "errorToCode err =
     (case err of
        None \<Rightarrow> ErrorCodeNoError
      | Some ErrNoSuchFile \<Rightarrow> ErrorCodeNoSuchFile
      | Some ErrInvalid \<Rightarrow> ErrorCodeInvalidFile
      | Some _ \<Rightarrow> ErrorCodeGeneric)"

record Request =
  ReqID :: int
  ReqFolder :: string
  ReqName :: string
  ReqOffset :: int
  ReqSize :: int
  ReqHash :: bytes
  FromTemporary :: bool
  BlockNo :: int

text \<open>The generated message has the same fields; the integers are 32 bits wide.\<close>

type_synonym bep_request = Request

definition Request_toWire :: "Request \<Rightarrow> bep_request" where
  "Request_toWire r = r\<lparr>ReqID := int32 (ReqID r), ReqSize := int32 (ReqSize r), BlockNo := int32 (BlockNo r)\<rparr>"

definition requestFromWire :: "bep_request \<Rightarrow> Request" where
  "requestFromWire w = w"

record Response =
  RespID :: int
  RespData :: bytes
  RespCode :: ErrorCode

type_synonym bep_response = Response

definition Response_toWire :: "Response \<Rightarrow> bep_response" where
  "Response_toWire r = r\<lparr>RespID := int32 (RespID r)\<rparr>"

definition responseFromWire :: "bep_response \<Rightarrow> Response" where
  "responseFromWire w = w"

section \<open>Indexes\<close>

record Index =
  IdxFolder :: string
  Files :: "FileInfo list"
  LastSequence :: int

record bep_index =
  biFolder :: string
  biFiles :: "bep_file_info list"
  biLastSequence :: int

definition Index_toWire :: "Index \<Rightarrow> (wire_error, bep_index) outcome" where
  "Index_toWire i =
     obind (omap (FileInfo_ToWire False) (Files i)) (\<lambda>fs.
       Ok \<lparr>biFolder = IdxFolder i, biFiles = fs, biLastSequence = LastSequence i\<rparr>)"

definition indexFromWire :: "bep_index \<Rightarrow> Index" where
  "indexFromWire w =
     \<lparr>IdxFolder = biFolder w, Files = map FileInfoFromWire (biFiles w), LastSequence = biLastSequence w\<rparr>"

record IndexUpdate = Index +
  PrevSequence :: int

record bep_index_update = bep_index +
  biPrevSequence :: int

definition IndexUpdate_toWire :: "IndexUpdate \<Rightarrow> (wire_error, bep_index_update) outcome" where
  "IndexUpdate_toWire i =
     obind (omap (FileInfo_ToWire False) (Files i)) (\<lambda>fs.
       Ok \<lparr>biFolder = IdxFolder i, biFiles = fs, biLastSequence = LastSequence i,
           biPrevSequence = PrevSequence i\<rparr>)"

definition indexUpdateFromWire :: "bep_index_update \<Rightarrow> IndexUpdate" where
  "indexUpdateFromWire w =
     \<lparr>IdxFolder = biFolder w, Files = map FileInfoFromWire (biFiles w), LastSequence = biLastSequence w,
      PrevSequence = biPrevSequence w\<rparr>"

section \<open>Download progress\<close>

datatype ProgressUpdateType =
    FileDownloadProgressUpdateTypeAppend | FileDownloadProgressUpdateTypeForget
  | FileDownloadProgressUpdateTypeOther int

record FileDownloadProgressUpdate =
  UpdateType :: ProgressUpdateType
  UpdName :: string
  UpdVersion :: vector
  BlockIndexes :: "int list"
  UpdBlockSize :: int

record bep_progress_update =
  buUpdateType :: ProgressUpdateType
  buName :: string
  buVersion :: "bep_vector option"
  buBlockIndexes :: "int list"
  buBlockSize :: int

definition Update_toWire :: "FileDownloadProgressUpdate \<Rightarrow> bep_progress_update" where
  "Update_toWire f =
     \<lparr>buUpdateType = UpdateType f, buName = UpdName f, buVersion = ToWire (UpdVersion f),
      buBlockIndexes = map int32 (BlockIndexes f), buBlockSize = int32 (UpdBlockSize f)\<rparr>"

definition fileDownloadProgressUpdateFromWire :: "bep_progress_update \<Rightarrow> FileDownloadProgressUpdate" where
  "fileDownloadProgressUpdateFromWire w =
     \<lparr>UpdateType = buUpdateType w, UpdName = buName w, UpdVersion = VectorFromWire (buVersion w),
      BlockIndexes = buBlockIndexes w, UpdBlockSize = buBlockSize w\<rparr>"

record DownloadProgress =
  DPFolder :: string
  Updates :: "FileDownloadProgressUpdate list"

record bep_download_progress =
  bdFolder :: string
  bdUpdates :: "bep_progress_update list"

definition DownloadProgress_toWire :: "DownloadProgress \<Rightarrow> bep_download_progress" where
  "DownloadProgress_toWire d = \<lparr>bdFolder = DPFolder d, bdUpdates = map Update_toWire (Updates d)\<rparr>"

definition downloadProgressFromWire :: "bep_download_progress \<Rightarrow> DownloadProgress" where
  "downloadProgressFromWire w =
     \<lparr>DPFolder = bdFolder w, Updates = map fileDownloadProgressUpdateFromWire (bdUpdates w)\<rparr>"

section \<open>Index IDs\<close>

definition IndexID_Marshal :: "uint64 \<Rightarrow> bytes" where
  "IndexID_Marshal i = PutUint64 i"

definition IndexID_Unmarshal :: "bytes \<Rightarrow> (wire_error, uint64) outcome" where
  "IndexID_Unmarshal bs = (if length bs \<noteq> 8 then Err BadIndexIDLength else Ok (Uint64 bs))"

section \<open>Every message type obeys the law\<close>

definition wf_dev :: "Device \<Rightarrow> bool" where
  "wf_dev d \<longleftrightarrow> wf_device (DevID d)"

interpretation device_msg: wire_message wf_dev "\<lambda>d. Ok (Device_toWire d)" deviceFromWire
  by unfold_locales (auto simp: wf_dev_def wf_device_def deviceFromWire_def Device_toWire_def)

definition wf_folder :: "Folder \<Rightarrow> bool" where
  "wf_folder f \<longleftrightarrow> list_all wf_dev (Devices f)"

interpretation folder_msg: wire_message wf_folder "\<lambda>f. Ok (Folder_toWire f)" folderFromWire
proof
  fix f :: Folder
  assume "wf_folder f"
  then have "omap deviceFromWire (map Device_toWire (Devices f)) = Ok (Devices f)"
    using device_msg.list_round_trip [of "Devices f"] by (auto simp: wf_folder_def omap_Ok)
  then show "obind (Ok (Folder_toWire f)) folderFromWire = Ok f"
    by (simp add: folderFromWire_def Folder_toWire_def)
qed

definition wf_cluster :: "ClusterConfig \<Rightarrow> bool" where
  "wf_cluster c \<longleftrightarrow> list_all wf_folder (Folders c)"

interpretation cluster_msg: wire_message wf_cluster "\<lambda>c. Ok (ClusterConfig_toWire c)" clusterConfigFromWire
proof
  fix c :: ClusterConfig
  assume "wf_cluster c"
  then have "omap folderFromWire (map Folder_toWire (Folders c)) = Ok (Folders c)"
    using folder_msg.list_round_trip [of "Folders c"] by (auto simp: wf_cluster_def omap_Ok)
  then show "obind (Ok (ClusterConfig_toWire c)) clusterConfigFromWire = Ok c"
    by (simp add: clusterConfigFromWire_def ClusterConfig_toWire_def)
qed

definition wf_request :: "Request \<Rightarrow> bool" where
  "wf_request r \<longleftrightarrow> fits32 (ReqID r) \<and> fits32 (ReqSize r) \<and> fits32 (BlockNo r)"

interpretation request_msg: wire_message wf_request "\<lambda>r. Ok (Request_toWire r)" "\<lambda>w. Ok (requestFromWire w)"
  by unfold_locales (auto simp: wf_request_def Request_toWire_def requestFromWire_def)

definition wf_response :: "Response \<Rightarrow> bool" where
  "wf_response r \<longleftrightarrow> fits32 (RespID r)"

interpretation response_msg: wire_message wf_response "\<lambda>r. Ok (Response_toWire r)" "\<lambda>w. Ok (responseFromWire w)"
  by unfold_locales (auto simp: wf_response_def Response_toWire_def responseFromWire_def)

text \<open>A file info that another device can reproduce: complete, without local flags.\<close>

definition sendable :: "FileInfo \<Rightarrow> bool" where
  "sendable f \<longleftrightarrow> wire_sized f \<and> \<not> truncated f \<and> EncryptionTrailerSize f = 0 \<and>
     LocalFlags f \<in> {0, FlagLocalRemoteInvalid}"

interpretation file_msg: wire_message sendable
    "FileInfo_ToWire False :: FileInfo \<Rightarrow> (wire_error, bep_file_info) outcome" "\<lambda>w. Ok (FileInfoFromWire w)"
proof
  fix f :: FileInfo
  assume s: "sendable f"
  have w: "FileInfo_ToWire False f = (Ok (wire_of f) :: (wire_error, bep_file_info) outcome)"
    using s by (simp add: FileInfo_ToWire_def sendable_def)
  have "Flag_IsInvalid FlagLocalRemoteInvalid" and "\<not> Flag_IsInvalid 0"
    by (simp_all add: Flag_IsInvalid_def flag_defs)
  then have "(if IsInvalid f then FlagLocalRemoteInvalid else 0) = LocalFlags f"
    using s by (auto simp: sendable_def IsInvalid_def)
  moreover have "f\<lparr>LocalFlags := LocalFlags f, EncryptionTrailerSize := 0, truncated := False\<rparr> = f"
    using s by (cases f) (simp add: sendable_def)
  ultimately have "FileInfoFromWire (wire_of f) = f"
    using FromWire_wire_of [of f] s by (simp only: sendable_def)
  with w show "obind (FileInfo_ToWire False f) (\<lambda>w. Ok (FileInfoFromWire w)) =
      (Ok f :: (wire_error, FileInfo) outcome)" by simp
qed

definition wf_index :: "Index \<Rightarrow> bool" where
  "wf_index i \<longleftrightarrow> list_all sendable (Files i)"

interpretation index_msg: wire_message wf_index Index_toWire "\<lambda>w. Ok (indexFromWire w)"
proof
  fix i :: Index
  assume "wf_index i"
  then obtain ws where "omap (FileInfo_ToWire False) (Files i) = (Ok ws :: (wire_error, _) outcome)"
    and "map FileInfoFromWire ws = Files i"
    using file_msg.list_round_trip [of "Files i"] by (auto simp: wf_index_def omap_Ok)
  then show "obind (Index_toWire i) (\<lambda>w. Ok (indexFromWire w)) = Ok i"
    by (simp add: Index_toWire_def indexFromWire_def)
qed

definition wf_index_update :: "IndexUpdate \<Rightarrow> bool" where
  "wf_index_update i \<longleftrightarrow> list_all sendable (Files i)"

interpretation index_update_msg: wire_message wf_index_update IndexUpdate_toWire "\<lambda>w. Ok (indexUpdateFromWire w)"
proof
  fix i :: IndexUpdate
  assume "wf_index_update i"
  then obtain ws where "omap (FileInfo_ToWire False) (Files i) = (Ok ws :: (wire_error, _) outcome)"
    and "map FileInfoFromWire ws = Files i"
    using file_msg.list_round_trip [of "Files i"] by (auto simp: wf_index_update_def omap_Ok)
  then show "obind (IndexUpdate_toWire i) (\<lambda>w. Ok (indexUpdateFromWire w)) = Ok i"
    by (simp add: IndexUpdate_toWire_def indexUpdateFromWire_def)
qed

definition wf_update :: "FileDownloadProgressUpdate \<Rightarrow> bool" where
  "wf_update u \<longleftrightarrow> list_all fits32 (BlockIndexes u) \<and> fits32 (UpdBlockSize u)"

lemma map_int32: "list_all fits32 xs \<Longrightarrow> map int32 xs = xs"
  by (induction xs) auto

interpretation update_msg: wire_message wf_update "\<lambda>u. Ok (Update_toWire u)"
    "\<lambda>w. Ok (fileDownloadProgressUpdateFromWire w)"
  by unfold_locales (auto simp: wf_update_def Update_toWire_def fileDownloadProgressUpdateFromWire_def map_int32)

definition wf_progress :: "DownloadProgress \<Rightarrow> bool" where
  "wf_progress d \<longleftrightarrow> list_all wf_update (Updates d)"

interpretation progress_msg: wire_message wf_progress "\<lambda>d. Ok (DownloadProgress_toWire d)"
    "\<lambda>w. Ok (downloadProgressFromWire w)"
proof
  fix d :: DownloadProgress
  assume "wf_progress d"
  then have "map fileDownloadProgressUpdateFromWire (map Update_toWire (Updates d)) = Updates d"
    using update_msg.list_round_trip [of "Updates d"] by (auto simp: wf_progress_def omap_Ok simp del: map_map)
  then show "obind (Ok (DownloadProgress_toWire d)) (\<lambda>w. Ok (downloadProgressFromWire w)) = Ok d"
    by (simp add: DownloadProgress_toWire_def downloadProgressFromWire_def)
qed

section \<open>Hello messages\<close>

definition HelloMessageMagic :: uint32 where "HelloMessageMagic = 0x2EA7D90B"
definition Version13HelloMagic :: uint32 where "Version13HelloMagic = 0x9F79BC40"

record Hello =
  DeviceName :: string
  ClientName :: string
  ClientVersion :: string
  NumConnections :: int
  Timestamp :: int

type_synonym bep_hello = Hello

definition Hello_toWire :: "Hello \<Rightarrow> bep_hello" where
  "Hello_toWire h = h\<lparr>NumConnections := int32 (NumConnections h)\<rparr>"

definition helloFromWire :: "bep_hello \<Rightarrow> Hello" where
  "helloFromWire w = w"

definition PutUint16 :: "nat \<Rightarrow> bytes" where
  "PutUint16 n = bytes_of_nats (to_digits 256 2 n)"

definition Uint16 :: "bytes \<Rightarrow> nat" where
  "Uint16 bs = from_digits 256 (nats_of_bytes (take 2 bs))"

text \<open>What is written to the connection; \<open>marshal\<close> is \<open>proto.Marshal\<close>.\<close>

definition writeHello :: "(bep_hello \<Rightarrow> bytes option) \<Rightarrow> Hello \<Rightarrow> (wire_error, bytes) outcome" where
  "writeHello marshal h =
     (case marshal (Hello_toWire h) of
        None \<Rightarrow> Err WriteError
      | Some msg \<Rightarrow>
          if 32767 < length msg then Panic
          else Ok (PutUint32 HelloMessageMagic @ PutUint16 (length msg) @ msg))"

text \<open>Reading from a connection that delivers \<open>c\<close>; the second component is what is left.\<close>

definition readHello :: "(bytes \<Rightarrow> bep_hello option) \<Rightarrow> bytes \<Rightarrow> (wire_error, Hello \<times> bytes) outcome" where
  "readHello unmarshal c =
     (if length c < 4 then Err ReadShort
      else
        let magic = Uint32 (take 4 c); c = drop 4 c
        in if magic = HelloMessageMagic then
             (if length c < 2 then Err ReadShort
              else
                let msgSize = Uint16 (take 2 c); c = drop 2 c
                in if 32767 < msgSize then Err HelloTooBig
                   else if length c < msgSize then Err ReadShort
                   else case unmarshal (take msgSize c) of
                          None \<Rightarrow> Err UnmarshalError
                        | Some wh \<Rightarrow> Ok (helloFromWire wh, drop msgSize c))
           else if magic = 0x00010001 \<or> magic = 0x00010000 \<or> magic = Version13HelloMagic
           then Err ErrTooOldVersion
           else Err ErrUnknownMagic)"

text \<open>\<open>ExchangeHello\<close>: what is written, and the hello of the other side.\<close>

definition ExchangeHello ::
  "(bep_hello \<Rightarrow> bytes option) \<Rightarrow> (bytes \<Rightarrow> bep_hello option) \<Rightarrow> bytes \<Rightarrow> Hello \<Rightarrow>
   (wire_error, bytes \<times> Hello \<times> bytes) outcome" where
  "ExchangeHello marshal unmarshal c h =
     (if Timestamp h = 0 then Panic
      else
        obind (writeHello marshal h) (\<lambda>sent.
        obind (readHello unmarshal c) (\<lambda>r. Ok (sent, r))))"

definition IsVersionMismatch :: "wire_error \<Rightarrow> bool" where
  "IsVersionMismatch err \<longleftrightarrow> err = ErrTooOldVersion \<or> err = ErrUnknownMagic"

lemma Uint16_Put: "n < 65536 \<Longrightarrow> Uint16 (PutUint16 n @ rest) = n"
  by (simp add: Uint16_def PutUint16_def nats_of_be from_to_digits_id)

lemma length_PutUint16 [simp]: "length (PutUint16 n) = 2"
  by (simp add: PutUint16_def)

text \<open>Two devices that exchange hellos learn each other's: what one writes, the other reads
  back with nothing of the following data consumed, provided marshalling is invertible (the
  documented contract of \<open>proto.Marshal\<close> and \<open>proto.Unmarshal\<close>), the message is at most
  32767 bytes and the number of connections fits 32 bits.\<close>

theorem hello_round_trip:
  assumes "\<forall>m. case marshal m of None \<Rightarrow> True | Some bs \<Rightarrow> unmarshal bs = Some m"
    and "marshal (Hello_toWire h) = Some msg" and "length msg \<le> 32767" and "fits32 (NumConnections h)"
  shows "\<exists>bs. writeHello marshal h = Ok bs \<and> readHello unmarshal (bs @ rest) = Ok (h, rest)"
proof -
  have un: "unmarshal msg = Some h"
    using assms(1) [rule_format, of "Hello_toWire h"] assms(2, 4) by (simp add: Hello_toWire_def)
  have "Uint16 (PutUint16 (length msg)) = length msg" using Uint16_Put [of "length msg" "[]"] assms(3) by simp
  moreover have "Uint32 (PutUint32 HelloMessageMagic) = HelloMessageMagic"
    using Uint32_Put [of HelloMessageMagic "[]"] by simp
  ultimately show ?thesis
    using assms(2, 3) un by (simp add: writeHello_def readHello_def Let_def helloFromWire_def)
qed

text \<open>A toy marshaller: it keeps the device name and the timestamp of small hellos.\<close>

definition toy_marshal :: "bep_hello \<Rightarrow> bytes option" where
  "toy_marshal h =
     (if ClientName h = [] \<and> ClientVersion h = [] \<and> DeviceName h = [] \<and> NumConnections h = 1 \<and>
         0 \<le> Timestamp h \<and> Timestamp h < 256
      then Some [of_int (Timestamp h)] else None)"

definition toy_unmarshal :: "bytes \<Rightarrow> bep_hello option" where
  "toy_unmarshal bs =
     (case bs of
        [b] \<Rightarrow> Some \<lparr>DeviceName = [], ClientName = [], ClientVersion = [], NumConnections = 1, Timestamp = uint b\<rparr>
      | _ \<Rightarrow> None)"

definition toy_hello :: Hello where
  "toy_hello = \<lparr>DeviceName = [], ClientName = [], ClientVersion = [], NumConnections = 1, Timestamp = 42\<rparr>"

lemma toy_marshal_inverse:
  "\<forall>m. case toy_marshal m of None \<Rightarrow> True | Some bs \<Rightarrow> toy_unmarshal bs = Some m"
proof
  fix m :: bep_hello
  have "uint (of_int (Timestamp m) :: byte) = Timestamp m" if "0 \<le> Timestamp m" "Timestamp m < 256"
    using that by (simp add: uint_word_of_int take_bit_int_eq_self)
  then show "case toy_marshal m of None \<Rightarrow> True | Some bs \<Rightarrow> toy_unmarshal bs = Some m"
    by (cases m) (auto simp: toy_marshal_def toy_unmarshal_def)
qed

theorem hello_round_trip_witness:
  "\<exists>bs. writeHello toy_marshal toy_hello = Ok bs \<and> readHello toy_unmarshal (bs @ [7]) = Ok (toy_hello, [7])"
proof (rule hello_round_trip [OF toy_marshal_inverse])
  have "int32 1 = 1" by (rule int32_id) simp_all
  then show "toy_marshal (Hello_toWire toy_hello) = Some [42]"
    by (simp add: toy_marshal_def Hello_toWire_def toy_hello_def)
qed (simp_all add: toy_hello_def fits32_def)

section \<open>Properties of the messages\<close>

text \<open>A cluster configuration, an index and an index update arrive as they were sent, for
  device IDs of 32 bytes and complete file infos without local flags.\<close>

theorem index_and_config_round_trip:
  assumes "wf_cluster c" and "wf_index i" and "wf_index_update u"
  shows "clusterConfigFromWire (ClusterConfig_toWire c) = Ok c \<and>
    (\<exists>w. Index_toWire i = Ok w \<and> indexFromWire w = i) \<and>
    (\<exists>w. IndexUpdate_toWire u = Ok w \<and> indexUpdateFromWire w = u)"
  using cluster_msg.sent [OF assms(1)] index_msg.sent [OF assms(2)] index_update_msg.sent [OF assms(3)]
  by simp

definition sample_cluster :: ClusterConfig where
  "sample_cluster =
     \<lparr>Folders = [\<lparr>FolderID = ''default'', Label = ''Sync'', FType = FolderTypeSendReceive,
        StopReason = FolderStopReasonRunning, Devices = [\<lparr>DevID = LocalDeviceID, DevName = ''a'', Addresses = [],
          DevCompression = CompressionMetadata, CertName = [], MaxSequence = 7, Introducer = False,
          IndexID = 3, SkipIntroductionRemovals = False, EncryptionPasswordToken = []\<rparr>]\<rparr>],
      Secondary = False\<rparr>"

definition sample_index :: IndexUpdate where
  "sample_index =
     \<lparr>IdxFolder = ''default'', Files = [sample_file\<lparr>LocalFlags := 0\<rparr>], LastSequence = 3, PrevSequence = 0\<rparr>"

lemma sample_sendable: "sendable (sample_file\<lparr>LocalFlags := 0\<rparr>)"
  by (simp add: sendable_def sample_file_def wire_sized_def fits32_def empty_platform_def)

theorem index_and_config_round_trip_witness:
  "clusterConfigFromWire (ClusterConfig_toWire sample_cluster) = Ok sample_cluster \<and>
   (\<exists>w. Index_toWire (Index.truncate sample_index) = Ok w \<and> indexFromWire w = Index.truncate sample_index) \<and>
   (\<exists>w. IndexUpdate_toWire sample_index = Ok w \<and> indexUpdateFromWire w = sample_index)"
proof (rule index_and_config_round_trip)
  show "wf_cluster sample_cluster"
    by (simp add: wf_cluster_def sample_cluster_def wf_folder_def wf_dev_def wf_device_def
        LocalDeviceID_def repeatedDeviceID_def)
  show "wf_index (Index.truncate sample_index)" and "wf_index_update sample_index"
    using sample_sendable
    by (simp_all add: wf_index_def wf_index_update_def sample_index_def Index.truncate_def)
qed

text \<open>A cluster configuration that names a device with fewer than 32 bytes of ID makes the
  conversion panic.  It runs in the dispatcher on data from the other device, before any
  check.\<close>

theorem short_device_id_panics:
  assumes "length (bId d) < DeviceIDLength"
  shows "clusterConfigFromWire
    \<lparr>bcFolders = [\<lparr>bfId = fid, bfLabel = l, bfType = t, bfStopReason = r, bfDevices = d # ds\<rparr>],
     bcSecondary = s\<rparr> = Panic"
  using assms by (simp add: clusterConfigFromWire_def folderFromWire_def deviceFromWire_def)

definition nameless_device :: bep_device where
  "nameless_device =
     \<lparr>bId = [], bName = [], bAddresses = [], bCompression = CompressionMetadata, bCertName = [],
      bMaxSequence = 0, bIntroducer = False, bIndexId = 0, bSkipIntroductionRemovals = False,
      bEncryptionPasswordToken = []\<rparr>"

theorem short_device_id_panics_witness:
  "clusterConfigFromWire
    \<lparr>bcFolders = [\<lparr>bfId = [], bfLabel = [], bfType = FolderTypeSendReceive,
       bfStopReason = FolderStopReasonRunning, bfDevices = [nameless_device]\<rparr>], bcSecondary = False\<rparr> = Panic"
  by (rule short_device_id_panics) (simp add: nameless_device_def DeviceIDLength_def)

text \<open>The codes of a response say what went wrong: the two specific errors and success come
  back as they were, every other error as the generic one.\<close>

lemma error_code_round_trip:
  "codeToError (errorToCode e) =
     (case e of None \<Rightarrow> None | Some ErrNoSuchFile \<Rightarrow> Some ErrNoSuchFile | Some ErrInvalid \<Rightarrow> Some ErrInvalid
      | Some _ \<Rightarrow> Some ErrGeneric)"
  by (auto simp: codeToError_def errorToCode_def split: option.splits request_error.splits)

end
