(* ===== verification/Wire_Checks.thy ===== *)
theory Wire_Checks
  imports BEP_Messages
begin

text \<open>
  The checks on data received from another device, \<^verbatim>\<open>lib/protocol/protocol.go\<close>:
  \<open>checkFilename\<close>, \<open>checkFileInfoConsistency\<close> and \<open>checkIndexConsistency\<close>.
  \<open>path.Clean\<close> is the lexical cleaning the Go documentation defines, on the list of
  elements between slashes.  The main result is that exactly the names whose elements are all
  proper (not empty, not \<open>.\<close>, not \<open>..\<close>) pass, so no accepted name leaves its folder.
\<close>

section \<open>path.Clean\<close>

definition slash :: char where "slash = CHR ''/''"

text \<open>
  One element; the cleaned elements are kept in reverse.  Empty elements and \<open>.\<close> vanish;
  \<open>..\<close> removes the element before it, is kept when there is none to remove, and vanishes at the
  root.
\<close>

definition clean_element :: "bool \<Rightarrow> string list \<Rightarrow> string \<Rightarrow> string list" where
  "clean_element rooted out e =
     (if e = [] \<or> e = ''.'' then out
      else if e = ''..''
      then (if out \<noteq> [] \<and> hd out \<noteq> ''..'' then tl out
            else if rooted then out else e # out)
      else e # out)"

definition path_Clean :: "string \<Rightarrow> string" where
  "path_Clean p =
     (if p = [] then ''.''
      else
        let rooted = (hd p = slash);
            out = rev (foldl (clean_element rooted) [] (Split p slash))
        in if rooted then slash # Join out [slash]
           else if out = [] then ''.'' else Join out [slash])"

section \<open>The checks (protocol.go)\<close>

datatype check_error = errInvalidFilename | errUncleanFilename | errDeletedHasBlocks
  | errDirectoryHasBlocks | errFileHasNoBlocks

definition checkFilename :: "string \<Rightarrow> (check_error, unit) outcome" where
  "checkFilename name =
     (if path_Clean name \<noteq> name then Err errUncleanFilename
      else if name = [] \<or> name = ''.'' \<or> name = ''..'' then Err errInvalidFilename
      else if HasPrefix name ''/'' then Err errInvalidFilename
      else if HasPrefix name ''../'' then Err errInvalidFilename
      else Ok ())"

definition checkFileInfoConsistency :: "FileInfo \<Rightarrow> (check_error, unit) outcome" where
  "checkFileInfoConsistency f =
     obind (checkFilename (Name f)) (\<lambda>_.
       if Deleted f \<and> length (Blocks f) \<noteq> 0 then Err errDeletedHasBlocks
       else if Type f = FileInfoTypeDirectory \<and> length (Blocks f) \<noteq> 0 then Err errDirectoryHasBlocks
       else if \<not> Deleted f \<and> \<not> IsInvalid f \<and> Type f = FileInfoTypeFile \<and> length (Blocks f) = 0
       then Err errFileHasNoBlocks
       else Ok ())"

fun checkIndexConsistency :: "FileInfo list \<Rightarrow> (check_error, unit) outcome" where
  "checkIndexConsistency [] = Ok ()"
| "checkIndexConsistency (f # fs) = obind (checkFileInfoConsistency f) (\<lambda>_. checkIndexConsistency fs)"

section \<open>What the checks accept\<close>

definition proper :: "string \<Rightarrow> bool" where
  "proper e \<longleftrightarrow> e \<noteq> [] \<and> e \<noteq> ''.'' \<and> e \<noteq> ''..''"

definition safe_name :: "string \<Rightarrow> bool" where
  "safe_name name \<longleftrightarrow> list_all proper (Split name slash)"

lemma clean_proper: "list_all proper es \<Longrightarrow> foldl (clean_element r) out es = rev es @ out"
  by (induction es arbitrary: out) (auto simp: clean_element_def proper_def)

text \<open>The cleaned elements: some \<open>..\<close>, then proper ones; without a slash in any.\<close>

definition cleaned :: "string list \<Rightarrow> bool" where
  "cleaned out \<longleftrightarrow> (\<exists>es k. out = es @ replicate k ''..'' \<and> list_all proper es) \<and> (\<forall>e \<in> set out. slash \<notin> set e)"

lemma cleaned_step:
  assumes "cleaned out" and "slash \<notin> set e"
  shows "cleaned (clean_element r out e)"
proof -
  obtain es k where out: "out = es @ replicate k ''..''" "list_all proper es"
    using assms(1) by (auto simp: cleaned_def)
  have no: "\<forall>e \<in> set out. slash \<notin> set e" using assms(1) by (simp add: cleaned_def)
  show ?thesis
  proof (cases "e = ''..''")
    case False
    have "cleaned (e # out)" if "proper e"
      unfolding cleaned_def using that out no assms(2)
      by (intro conjI exI [of _ "e # es"] exI [of _ k]) auto
    then show ?thesis using False assms(1) by (auto simp: clean_element_def proper_def)
  next
    case True
    show ?thesis
    proof (cases "out \<noteq> [] \<and> hd out \<noteq> ''..''")
      case pop: True
      then obtain e1 es1 where es: "es = e1 # es1" using out(1) by (cases es; cases k) auto
      have "cleaned (tl out)"
        unfolding cleaned_def using es out no
        by (intro conjI exI [of _ es1] exI [of _ k]) auto
      then show ?thesis using pop True by (simp add: clean_element_def)
    next
      case keep: False
      then have "es = []" using out by (cases es) (auto simp: proper_def)
      then have "cleaned (''..'' # out)"
        unfolding cleaned_def using out no
        by (intro conjI exI [of _ "[]"] exI [of _ "Suc k"]) (auto simp: slash_def)
      then show ?thesis using keep True assms(1) by (auto simp: clean_element_def)
    qed
  qed
qed

lemma cleaned_foldl:
  "cleaned out \<Longrightarrow> \<forall>e \<in> set es. slash \<notin> set e \<Longrightarrow> cleaned (foldl (clean_element r) out es)"
  by (induction es arbitrary: out) (auto intro: cleaned_step)

lemma Join_hd: "fs \<noteq> [] \<Longrightarrow> Join fs [slash] = hd fs @ (if tl fs = [] then [] else slash # Join (tl fs) [slash])"
  by (cases fs; cases "tl fs") auto

lemma checkFilename_iff: "checkFilename name = Ok () \<longleftrightarrow> safe_name name"
proof
  assume safe: "safe_name name"
  let ?es = "Split name slash"
  have all: "list_all proper ?es" using safe by (simp add: safe_name_def)
  have join: "Join ?es [slash] = name" by (rule Join_Split)
  obtain e es where es: "?es = e # es" by (cases ?es) auto
  then have e: "proper e" and noslash: "slash \<notin> set e"
    using all Split_fields_no_sep [of e name slash] by auto
  have name: "name = e @ (if es = [] then [] else slash # Join es [slash])"
    using join Join_hd [of "e # es"] unfolding es by (auto split: if_splits)
  obtain c e' where c: "e = c # e'" using e by (cases e) (auto simp: proper_def)
  have "c \<noteq> slash" using c noslash by auto
  then have hd: "hd name \<noteq> slash" "name \<noteq> []" using name c by auto
  have "path_Clean name = name"
    using hd clean_proper [OF all, of False "[]"] join es by (simp add: path_Clean_def Let_def)
  moreover have "\<not> HasPrefix name ''/''"
    using hd by (cases name) (auto simp: HasPrefix_def slash_def)
  moreover have "name \<noteq> ''.''" and "name \<noteq> ''..''" and "\<not> HasPrefix name ''../''"
  proof -
    have split: "Split ''.'' slash = [''.'']" "Split ''..'' slash = [''..'']" by (simp_all add: slash_def)
    show "name \<noteq> ''.''" and "name \<noteq> ''..''" using all split by (auto simp: proper_def)
    show "\<not> HasPrefix name ''../''"
    proof
      assume "HasPrefix name ''../''"
      then obtain rest where "name = ''../'' @ rest"
        by (metis HasPrefix_def append_take_drop_id)
      then have "Split name slash = ''..'' # Split rest slash" by (simp add: slash_def)
      with all show False by (simp add: proper_def)
    qed
  qed
  ultimately show "checkFilename name = Ok ()" using hd by (simp add: checkFilename_def)
next
  assume ok: "checkFilename name = Ok ()"
  then have clean: "path_Clean name = name" and ne: "name \<noteq> []" "name \<noteq> ''.''" "name \<noteq> ''..''"
    and abs: "\<not> HasPrefix name ''/''" and dots: "\<not> HasPrefix name ''../''"
    by (auto simp: checkFilename_def split: if_splits)
  have hd: "hd name \<noteq> slash" using abs ne(1) by (cases name) (auto simp: HasPrefix_def slash_def)
  define out where "out = foldl (clean_element False) [] (Split name slash)"
  have "cleaned out"
    unfolding out_def by (rule cleaned_foldl) (auto simp: cleaned_def dest: Split_fields_no_sep)
  then obtain es k where out: "out = es @ replicate k ''..''" "list_all proper es"
    and no: "\<forall>e \<in> set out. slash \<notin> set e" by (auto simp: cleaned_def)
  have name: "name = Join (rev out) [slash]" "out \<noteq> []"
    using clean hd ne by (auto simp: path_Clean_def out_def Let_def split: if_splits)
  have "k = 0"
  proof (rule ccontr)
    assume "k \<noteq> 0"
    then obtain m where k: "k = Suc m" by (cases k) auto
    have "rev out = ''..'' # replicate m ''..'' @ rev es"
      using out(1) k by (simp add: replicate_append_same [symmetric])
    then have "name = ''..'' \<or> HasPrefix name ''../''"
      using name(1) Join_hd [of "rev out"] by (auto simp: HasPrefix_def slash_def split: if_splits)
    with ne(3) dots show False by simp
  qed
  then have "Split name slash = rev out"
    using name no by (simp add: Split_Join)
  then show "safe_name name" using out \<open>k = 0\<close> by (simp add: safe_name_def)
qed

lemma checkFileInfo_ok:
  "checkFileInfoConsistency f = Ok () \<longleftrightarrow>
     safe_name (Name f) \<and>
     (Blocks f \<noteq> [] \<longrightarrow> \<not> Deleted f \<and> Type f \<noteq> FileInfoTypeDirectory) \<and>
     (Blocks f = [] \<longrightarrow> Deleted f \<or> IsInvalid f \<or> Type f \<noteq> FileInfoTypeFile)"
  using checkFilename_iff [of "Name f"] by (auto simp: checkFileInfoConsistency_def)

lemma checkIndex_ok: "checkIndexConsistency fs = Ok () \<longleftrightarrow> list_all (\<lambda>f. checkFileInfoConsistency f = Ok ()) fs"
  by (induction fs) auto

text \<open>C22: A file name passes \<open>checkFilename\<close> exactly when each of its elements between slashes
  is non-empty and neither \<open>.\<close> nor \<open>..\<close>: names that climb out of the folder, absolute names and
  names with more than one spelling are all refused, and nothing else is.\<close>

theorem accepted_names_stay_inside:
  "checkFilename name = Ok () \<longleftrightarrow> list_all proper (Split name slash)"
  using checkFilename_iff by (simp add: safe_name_def)

text \<open>An index passes exactly when every file in it has a safe name, has blocks only if it
  is neither deleted nor a directory, and has blocks if it is a valid, existing file.\<close>

theorem accepted_index_consistent:
  "checkIndexConsistency fs = Ok () \<longleftrightarrow>
     list_all (\<lambda>f. list_all proper (Split (Name f) slash) \<and>
       (Blocks f = [] \<or> \<not> Deleted f \<and> Type f \<noteq> FileInfoTypeDirectory) \<and>
       (Blocks f \<noteq> [] \<or> Deleted f \<or> IsInvalid f \<or> Type f \<noteq> FileInfoTypeFile)) fs"
  unfolding checkIndex_ok checkFileInfo_ok safe_name_def list_all_iff by blast

theorem accepted_index_consistent_witness:
  "checkIndexConsistency [sample_file] = Ok () \<longleftrightarrow>
     list_all (\<lambda>f. list_all proper (Split (Name f) slash) \<and>
       (Blocks f = [] \<or> \<not> Deleted f \<and> Type f \<noteq> FileInfoTypeDirectory) \<and>
       (Blocks f \<noteq> [] \<or> Deleted f \<or> IsInvalid f \<or> Type f \<noteq> FileInfoTypeFile)) [sample_file]"
  by (rule accepted_index_consistent)

end
