(* ===== verification/Connection.thy ===== *)
theory Connection
  imports Wire_Checks
begin

text \<open>
  The raw connection, \<^verbatim>\<open>lib/protocol/protocol.go\<close>: the dispatcher that hands received
  messages to the model, and the bookkeeping of outstanding requests.

  The dispatcher is a function over the sequence of received messages; the model above it is a
  parameter that answers every call with success or an error, and the calls made are the
  trace, which is kept when the loop ends with an error.  Requests run concurrently with responses and with closing; they are a step relation
  whose steps are the sections the code runs under a lock or as one channel operation.
\<close>

section \<open>Messages\<close>

datatype bep_message =
    MClusterConfig bep_cluster_config
  | MIndex bep_index
  | MIndexUpdate bep_index_update
  | MRequest bep_request
  | MResponse bep_response
  | MDownloadProgress bep_download_progress
  | MPing
  | MClose string

datatype MessageType = TypeClusterConfig | TypeIndex | TypeIndexUpdate | TypeRequest | TypeResponse
  | TypeDownloadProgress | TypePing | TypeClose | TypeOther int

definition typeOf :: "bep_message \<Rightarrow> MessageType" where
  "typeOf msg =
     (case msg of
        MClusterConfig _ \<Rightarrow> TypeClusterConfig
      | MIndex _ \<Rightarrow> TypeIndex
      | MIndexUpdate _ \<Rightarrow> TypeIndexUpdate
      | MRequest _ \<Rightarrow> TypeRequest
      | MResponse _ \<Rightarrow> TypeResponse
      | MDownloadProgress _ \<Rightarrow> TypeDownloadProgress
      | MPing \<Rightarrow> TypePing
      | MClose _ \<Rightarrow> TypeClose)"

section \<open>The dispatcher\<close>

definition MaxRequestSize :: nat where
  "MaxRequestSize = 2 * MaxBlockSize"

datatype conn_state = stateInitial | stateReady

text \<open>The calls of the model interface that the dispatcher makes.\<close>

datatype model_call =
    CallClusterConfig ClusterConfig
  | CallIndex Index
  | CallIndexUpdate IndexUpdate
  | CallRequest Request
  | CallDownloadProgress DownloadProgress

datatype 'e dispatch_error =
    ClosedByRemote string
  | InvalidState
  | CheckFailed check_error
  | RequestTooSmall
  | RequestTooLarge
  | HandleError 'e

record dispatcher =
  dstate :: conn_state
  calls :: "model_call list"
  responses :: "Response list"

type_synonym 'e model = "model_call \<Rightarrow> 'e option"

definition call_model :: "'e model \<Rightarrow> dispatcher \<Rightarrow> model_call \<Rightarrow> ('e dispatch_error \<times> dispatcher, dispatcher) outcome" where
  "call_model model d call =
     (let d' = d\<lparr>calls := calls d @ [call]\<rparr>
      in case model call of None \<Rightarrow> Ok d' | Some e \<Rightarrow> Err (HandleError e, d'))"

definition check :: "dispatcher \<Rightarrow> (check_error, unit) outcome \<Rightarrow> ('e dispatch_error \<times> dispatcher, unit) outcome" where
  "check d r = (case r of Ok u \<Rightarrow> Ok () | Err e \<Rightarrow> Err (CheckFailed e, d) | Panic \<Rightarrow> Panic)"

text \<open>The conversion of a cluster configuration returns no error; it returns or panics.\<close>

definition lift_wire :: "(wire_error, 'a) outcome \<Rightarrow> ('e dispatch_error \<times> dispatcher, 'a) outcome" where
  "lift_wire r = (case r of Ok x \<Rightarrow> Ok x | _ \<Rightarrow> Panic)"

text \<open>
  One turn of \<open>dispatcherLoop\<close>.  \<open>go c.handleRequest\<close> starts the request without waiting: its
  error does not end the loop.  Responses go to \<open>handleResponse\<close>, below.
\<close>

definition dispatch :: "'e model \<Rightarrow> dispatcher \<Rightarrow> bep_message \<Rightarrow> ('e dispatch_error \<times> dispatcher, dispatcher) outcome" where
  "dispatch model d msg =
     obind
       (case msg of
          MClusterConfig _ \<Rightarrow> Ok (if dstate d = stateInitial then d\<lparr>dstate := stateReady\<rparr> else d)
        | MClose reason \<Rightarrow> Err (ClosedByRemote reason, d)
        | _ \<Rightarrow> if dstate d \<noteq> stateReady then Err (InvalidState, d) else Ok d)
       (\<lambda>d. case msg of
          MClusterConfig w \<Rightarrow>
            obind (lift_wire (clusterConfigFromWire w)) (\<lambda>cc. call_model model d (CallClusterConfig cc))
        | MIndex w \<Rightarrow>
            let idx = indexFromWire w
            in obind (check d (checkIndexConsistency (Files idx))) (\<lambda>_. call_model model d (CallIndex idx))
        | MIndexUpdate w \<Rightarrow>
            let idx = indexUpdateFromWire w
            in obind (check d (checkIndexConsistency (Files idx))) (\<lambda>_. call_model model d (CallIndexUpdate idx))
        | MRequest w \<Rightarrow>
            obind (check d (checkFilename (ReqName w))) (\<lambda>_.
              if ReqSize w < 0 then Err (RequestTooSmall, d)
              else if int MaxRequestSize < ReqSize w then Err (RequestTooLarge, d)
              else Ok (d\<lparr>calls := calls d @ [CallRequest (requestFromWire w)]\<rparr>))
        | MResponse w \<Rightarrow> Ok (d\<lparr>responses := responses d @ [responseFromWire w]\<rparr>)
        | MDownloadProgress w \<Rightarrow> call_model model d (CallDownloadProgress (downloadProgressFromWire w))
        | MPing \<Rightarrow> Ok d
        | MClose reason \<Rightarrow> Ok d)"

fun dispatcherLoop :: "'e model \<Rightarrow> dispatcher \<Rightarrow> bep_message list \<Rightarrow> ('e dispatch_error \<times> dispatcher, dispatcher) outcome" where
  "dispatcherLoop model d [] = Ok d"
| "dispatcherLoop model d (msg # msgs) = obind (dispatch model d msg) (\<lambda>d. dispatcherLoop model d msgs)"

definition new_dispatcher :: dispatcher where
  "new_dispatcher = \<lparr>dstate = stateInitial, calls = [], responses = []\<rparr>"

text \<open>
  The names of indexes, index updates and requests are checked before the model gets them, and the
  size of a request; the names of a download progress update are not.
\<close>

definition checked_call :: "model_call \<Rightarrow> bool" where
  "checked_call call =
     (case call of
        CallIndex i \<Rightarrow> list_all (\<lambda>f. safe_name (Name f)) (Files i)
      | CallIndexUpdate i \<Rightarrow> list_all (\<lambda>f. safe_name (Name f)) (Files i)
      | CallRequest r \<Rightarrow> safe_name (ReqName r) \<and> 0 \<le> ReqSize r \<and> ReqSize r \<le> int MaxRequestSize
      | _ \<Rightarrow> True)"

definition is_cluster_config :: "model_call \<Rightarrow> bool" where
  "is_cluster_config call = (case call of CallClusterConfig _ \<Rightarrow> True | _ \<Rightarrow> False)"

definition dispatcher_inv :: "dispatcher \<Rightarrow> bool" where
  "dispatcher_inv d \<longleftrightarrow> list_all checked_call (calls d) \<and>
     (dstate d = stateInitial \<longrightarrow> calls d = [] \<and> responses d = []) \<and>
     (calls d \<noteq> [] \<longrightarrow> is_cluster_config (hd (calls d))) \<and>
     (dstate d = stateReady \<longrightarrow> calls d \<noteq> [])"

lemma check_Ok [simp]: "check d r = Ok u \<longleftrightarrow> r = Ok ()"
  by (cases r) (auto simp: check_def)

lemma checkIndex_safe: "checkIndexConsistency fs = Ok () \<Longrightarrow> list_all (\<lambda>f. safe_name (Name f)) fs"
  by (simp add: checkIndex_ok checkFileInfo_ok list_all_iff)

text \<open>The dispatcher after a call, whether it continues or ends.\<close>

fun final :: "('e dispatch_error \<times> dispatcher, dispatcher) outcome \<Rightarrow> dispatcher option" where
  "final (Ok d) = Some d"
| "final (Err (e, d)) = Some d"
| "final Panic = None"

lemma final_obind:
  "final (obind m f) = Some d' \<Longrightarrow>
   (\<exists>x. m = Ok x \<and> final (f x) = Some d') \<or> (\<exists>e. m = Err (e, d'))"
  by (cases m) auto

lemma final_call_model: "final (call_model model d call) = Some (d\<lparr>calls := calls d @ [call]\<rparr>)"
  by (simp add: call_model_def Let_def split: option.splits)

lemma check_Err: "check d r = Err (e, d') \<Longrightarrow> d' = d"
  by (cases r) (auto simp: check_def)

lemma inv_call:
  assumes "dispatcher_inv d" and "dstate d = stateReady" and "checked_call call"
  shows "dispatcher_inv (d\<lparr>calls := calls d @ [call]\<rparr>)"
  using assms by (auto simp: dispatcher_inv_def)

lemma inv_cluster_call:
  assumes "dispatcher_inv d"
  shows "dispatcher_inv (d\<lparr>dstate := stateReady, calls := calls d @ [CallClusterConfig cc]\<rparr>)"
  using assms by (cases "calls d") (auto simp: dispatcher_inv_def checked_call_def is_cluster_config_def)

lemma ready_update: "dstate d = stateReady \<Longrightarrow> d\<lparr>dstate := stateReady\<rparr> = d"
  by simp

lemma dispatch_inv:
  assumes inv: "dispatcher_inv d" and fin: "final (dispatch model d msg) = Some d'"
  shows "dispatcher_inv d'"
proof (cases msg)
  case (MClusterConfig w)
  have "dispatch model d msg = obind (lift_wire (clusterConfigFromWire w)) (\<lambda>cc.
      call_model model (d\<lparr>dstate := stateReady\<rparr>) (CallClusterConfig cc))"
    using MClusterConfig by (cases "dstate d") (simp_all add: dispatch_def ready_update)
  with fin obtain cc where "d' = d\<lparr>dstate := stateReady, calls := calls d @ [CallClusterConfig cc]\<rparr>"
    by (cases "clusterConfigFromWire w") (auto simp: lift_wire_def final_call_model)
  then show ?thesis using inv_cluster_call [OF inv] by simp
next
  case (MIndex w)
  show ?thesis
  proof (cases "dstate d = stateReady \<and> checkIndexConsistency (Files (indexFromWire w)) = Ok ()")
    case True
    then have "checked_call (CallIndex (indexFromWire w))"
      using checkIndex_safe by (simp add: checked_call_def)
    with True fin MIndex inv_call [OF inv] show ?thesis
      by (auto simp: dispatch_def Let_def check_def final_call_model)
  next
    case False
    with fin MIndex have "d' = d"
      by (auto simp: dispatch_def Let_def check_def split: if_splits outcome.splits dest!: final_obind)
    with inv show ?thesis by simp
  qed
next
  case (MIndexUpdate w)
  show ?thesis
  proof (cases "dstate d = stateReady \<and> checkIndexConsistency (Files (indexUpdateFromWire w)) = Ok ()")
    case True
    then have "checked_call (CallIndexUpdate (indexUpdateFromWire w))"
      using checkIndex_safe by (simp add: checked_call_def)
    with True fin MIndexUpdate inv_call [OF inv] show ?thesis
      by (auto simp: dispatch_def Let_def check_def final_call_model)
  next
    case False
    with fin MIndexUpdate have "d' = d"
      by (auto simp: dispatch_def Let_def check_def split: if_splits outcome.splits dest!: final_obind)
    with inv show ?thesis by simp
  qed
next
  case (MRequest w)
  show ?thesis
  proof (cases "dstate d = stateReady \<and> checkFilename (ReqName w) = Ok () \<and> 0 \<le> ReqSize w \<and>
      ReqSize w \<le> int MaxRequestSize")
    case True
    then have "checked_call (CallRequest (requestFromWire w))"
      by (simp add: checked_call_def requestFromWire_def checkFilename_iff)
    with True fin MRequest inv_call [OF inv] show ?thesis by (auto simp: dispatch_def check_def)
  next
    case False
    with fin MRequest have "d' = d"
      by (auto simp: dispatch_def check_def split: if_splits outcome.splits dest!: final_obind)
    with inv show ?thesis by simp
  qed
next
  case (MDownloadProgress w)
  then have "d' = d \<or> dstate d = stateReady \<and> d' = d\<lparr>calls := calls d @ [CallDownloadProgress (downloadProgressFromWire w)]\<rparr>"
    using fin by (auto simp: dispatch_def final_call_model split: if_splits)
  then show ?thesis using inv inv_call [OF inv] by (auto simp: checked_call_def)
qed (use assms in \<open>auto simp: dispatch_def dispatcher_inv_def split: if_splits\<close>)

lemma dispatcherLoop_inv:
  "dispatcher_inv d \<Longrightarrow> final (dispatcherLoop model d msgs) = Some d' \<Longrightarrow> dispatcher_inv d'"
proof (induction msgs arbitrary: d)
  case (Cons msg msgs)
  from final_obind [OF Cons.prems(2) [simplified dispatcherLoop.simps]] show ?case
  proof
    assume "\<exists>d1. dispatch model d msg = Ok d1 \<and> final (dispatcherLoop model d1 msgs) = Some d'"
    then obtain d1 where d1: "dispatch model d msg = Ok d1" "final (dispatcherLoop model d1 msgs) = Some d'" by blast
    have "dispatcher_inv d1" by (rule dispatch_inv [OF Cons.prems(1), of model msg]) (simp add: d1(1))
    from Cons.IH [OF this d1(2)] show ?thesis .
  next
    assume "\<exists>e. dispatch model d msg = Err (e, d')"
    then obtain e where e: "dispatch model d msg = Err (e, d')" by blast
    show ?thesis by (rule dispatch_inv [OF Cons.prems(1), of model msg]) (simp add: e)
  qed
qed simp

text \<open>C15: Whatever a device sends and however the loop ends, the first call the model gets is
  the cluster configuration, and every index, index update and request that reaches it has
  only file names inside the folder and a size between 0 and 32 MiB.  Download progress updates
  reach it as they are, with names that are not checked.\<close>

theorem model_sees_checked_data_only:
  assumes "final (dispatcherLoop model new_dispatcher msgs) = Some d"
  shows "list_all checked_call (calls d) \<and> (calls d = [] \<or> is_cluster_config (hd (calls d)))"
proof -
  have "dispatcher_inv new_dispatcher" by (simp add: dispatcher_inv_def new_dispatcher_def)
  from dispatcherLoop_inv [OF this assms] show ?thesis by (auto simp: dispatcher_inv_def)
qed

definition sample_request :: Request where
  "sample_request =
     \<lparr>ReqID = 0, ReqFolder = ''default'', ReqName = ''a/b'', ReqOffset = 0, ReqSize = 131072, ReqHash = [],
      FromTemporary = False, BlockNo = 0\<rparr>"

theorem model_sees_checked_data_only_witness:
  "\<exists>d. final (dispatcherLoop (\<lambda>_. None :: unit option) new_dispatcher
      [MClusterConfig \<lparr>bcFolders = [], bcSecondary = False\<rparr>, MRequest sample_request]) = Some d \<and>
    length (calls d) = 2 \<and>
    list_all checked_call (calls d) \<and> (calls d = [] \<or> is_cluster_config (hd (calls d)))"
proof -
  let ?msgs = "[MClusterConfig \<lparr>bcFolders = [], bcSecondary = False\<rparr>, MRequest sample_request]"
  have "checkFilename ''a/b'' = Ok ()" by (simp add: checkFilename_iff safe_name_def slash_def proper_def)
  then obtain d where d: "final (dispatcherLoop (\<lambda>_. None :: unit option) new_dispatcher ?msgs) = Some d"
    "length (calls d) = 2"
    by (simp add: dispatch_def new_dispatcher_def clusterConfigFromWire_def lift_wire_def call_model_def
        check_def sample_request_def MaxRequestSize_def MaxBlockSize_def)
  from d model_sees_checked_data_only [OF d(1)] show ?thesis by blast
qed

text \<open>Before the cluster configuration nothing but closing is accepted: any other first
  message ends the loop with a protocol error.\<close>

theorem first_message_must_be_cluster_config:
  assumes "\<forall>w. msg \<noteq> MClusterConfig w" and "\<forall>r. msg \<noteq> MClose r"
  shows "dispatcherLoop model new_dispatcher (msg # msgs) = Err (InvalidState, new_dispatcher)"
  using assms by (cases msg) (auto simp: dispatch_def new_dispatcher_def)

theorem first_message_must_be_cluster_config_witness:
  "dispatcherLoop (\<lambda>_. None :: unit option) new_dispatcher [MPing] =
     Err (InvalidState, new_dispatcher)"
  by (rule first_message_must_be_cluster_config) simp_all

end
