(* ===== verification/Requests.thy ===== *)
theory Requests
  imports Connection
begin

text \<open>
  Outstanding requests of a connection, \<^verbatim>\<open>lib/protocol/protocol.go\<close>: \<open>Request\<close>,
  \<open>handleResponse\<close> and \<open>internalClose\<close>.

  \<open>Request\<close> takes an ID and a result channel under \<open>awaitingMut\<close>, hands the message to the
  writer, and waits on the channel; \<open>handleResponse\<close> removes the entry, sends the result and
  closes the channel; \<open>internalClose\<close> closes the connection and then closes and removes all
  entries.  The steps of the relation are those critical sections and channel operations, in
  any interleaving.  Sending on or closing a closed channel panics in Go; the steps that could
  do so return an outcome, and the invariant shows that they never panic.
\<close>

section \<open>State\<close>

record asyncResult =
  res_val :: bytes
  res_err :: "request_error option"

datatype chan = Open | ClosedWith asyncResult | ClosedEmpty

datatype request_phase =
    Registered      \<comment> \<open>has its ID, message not yet accepted by the writer\<close>
  | Waiting         \<comment> \<open>message accepted, waiting on the channel\<close>
  | Finished "asyncResult option"  \<comment> \<open>returned a result, or an error when \<open>None\<close>\<close>

record conn =
  is_closed :: bool
  cleared :: bool
  awaiting :: "int list"
  nextID :: int
  chans :: "int \<Rightarrow> chan option"
  phases :: "int \<Rightarrow> request_phase option"

definition new_conn :: conn where
  "new_conn = \<lparr>is_closed = False, cleared = False, awaiting = [], nextID = 0, chans = Map.empty, phases = Map.empty\<rparr>"

section \<open>Operations\<close>

text \<open>The section of \<open>Request\<close> under the lock, with its panic when the ID is taken.\<close>

definition register :: "conn \<Rightarrow> (unit, int \<times> conn) outcome" where
  "register c =
     (let rid = nextID c
      in if rid \<in> set (awaiting c) then Panic
         else Ok (rid, c\<lparr>nextID := int64 (rid + 1), awaiting := rid # awaiting c,
                chans := (chans c)(rid \<mapsto> Open), phases := (phases c)(rid \<mapsto> Registered)\<rparr>))"

definition handleResponse :: "conn \<Rightarrow> Response \<Rightarrow> (unit, conn) outcome" where
  "handleResponse c resp =
     (let rid = RespID resp
      in if rid \<in> set (awaiting c) then
           (case chans c rid of
              Some Open \<Rightarrow>
                Ok (c\<lparr>awaiting := removeAll rid (awaiting c),
                      chans := (chans c)(rid \<mapsto> ClosedWith \<lparr>res_val = RespData resp,
                        res_err = codeToError (RespCode resp)\<rparr>)\<rparr>)
            | _ \<Rightarrow> Panic)
         else Ok c)"

text \<open>The loop of \<open>internalClose\<close> over the outstanding requests.\<close>

fun close_all :: "int list \<Rightarrow> conn \<Rightarrow> (unit, conn) outcome" where
  "close_all [] c = Ok c"
| "close_all (rid # ids) c =
     (case chans c rid of
        Some Open \<Rightarrow>
          close_all ids (c\<lparr>awaiting := removeAll rid (awaiting c), chans := (chans c)(rid \<mapsto> ClosedEmpty)\<rparr>)
      | _ \<Rightarrow> Panic)"

definition clear_awaiting :: "conn \<Rightarrow> (unit, conn) outcome" where
  "clear_awaiting c = obind (close_all (awaiting c) c) (\<lambda>c. Ok (c\<lparr>cleared := True\<rparr>))"

section \<open>Interleavings\<close>

inductive conn_step :: "conn \<Rightarrow> conn \<Rightarrow> bool" where
  step_register: "register c = Ok (rid, c') \<Longrightarrow> conn_step c c'"
| step_send_ok: "phases c rid = Some Registered \<Longrightarrow> \<not> is_closed c \<Longrightarrow>
    conn_step c (c\<lparr>phases := (phases c)(rid \<mapsto> Waiting)\<rparr>)"
| step_send_fail: "phases c rid = Some Registered \<Longrightarrow>
    conn_step c (c\<lparr>phases := (phases c)(rid \<mapsto> Finished None)\<rparr>)"
| step_response: "handleResponse c resp = Ok c' \<Longrightarrow> conn_step c c'"
| step_receive: "phases c rid = Some Waiting \<Longrightarrow> chans c rid = Some (ClosedWith r) \<Longrightarrow>
    conn_step c (c\<lparr>phases := (phases c)(rid \<mapsto> Finished (Some r))\<rparr>)"
| step_receive_closed: "phases c rid = Some Waiting \<Longrightarrow> chans c rid = Some ClosedEmpty \<Longrightarrow>
    conn_step c (c\<lparr>phases := (phases c)(rid \<mapsto> Finished None)\<rparr>)"
| step_cancel: "phases c rid = Some Waiting \<Longrightarrow>
    conn_step c (c\<lparr>phases := (phases c)(rid \<mapsto> Finished None)\<rparr>)"
| step_close: "\<not> is_closed c \<Longrightarrow> conn_step c (c\<lparr>is_closed := True\<rparr>)"
| step_clear: "is_closed c \<Longrightarrow> \<not> cleared c \<Longrightarrow> clear_awaiting c = Ok c' \<Longrightarrow> conn_step c c'"

inductive conn_reachable :: "conn \<Rightarrow> bool" where
  reach_init: "conn_reachable new_conn"
| reach_step: "conn_reachable c \<Longrightarrow> conn_step c c' \<Longrightarrow> nextID c' < 2 ^ 62 \<Longrightarrow> conn_reachable c'"

text \<open>
  The relation is explored up to \<open>2 ^ 62\<close> requests on one connection; the counter does not
  wrap before that.
\<close>

section \<open>Invariant\<close>

definition conn_inv :: "conn \<Rightarrow> bool" where
  "conn_inv c \<longleftrightarrow>
     0 \<le> nextID c \<and> nextID c < 2 ^ 62 \<and> distinct (awaiting c) \<and>
     (\<forall>rid \<in> set (awaiting c). 0 \<le> rid \<and> rid < nextID c) \<and>
     (\<forall>rid. chans c rid = Some Open \<longleftrightarrow> rid \<in> set (awaiting c)) \<and>
     (cleared c \<longrightarrow> is_closed c) \<and>
     (\<forall>rid. phases c rid \<noteq> None \<longrightarrow> chans c rid \<noteq> None) \<and>
     (\<forall>rid. cleared c \<longrightarrow> phases c rid = Some Waiting \<longrightarrow> chans c rid \<noteq> Some Open)"

lemma inv_register:
  assumes "conn_inv c" and "register c = Ok (rid, c')" and "nextID c' < 2 ^ 62"
  shows "conn_inv c'"
proof -
  have wrap: "int64 (nextID c + 1) = nextID c + 1"
    using assms(1) by (intro int64_id) (simp_all add: conn_inv_def)
  have rid: "rid = nextID c" "c' = c\<lparr>nextID := nextID c + 1, awaiting := rid # awaiting c,
      chans := (chans c)(rid \<mapsto> Open), phases := (phases c)(rid \<mapsto> Registered)\<rparr>"
    using assms(2) wrap by (auto simp: register_def Let_def split: if_splits)
  show ?thesis using assms(1, 3) unfolding conn_inv_def rid by auto
qed

lemma inv_response:
  assumes "conn_inv c"
  obtains c' where "handleResponse c resp = Ok c'" and "conn_inv c'" and "nextID c' = nextID c"
proof (cases "RespID resp \<in> set (awaiting c)")
  case True
  then have "chans c (RespID resp) = Some Open" using assms by (simp add: conn_inv_def)
  then have "handleResponse c resp = Ok (c\<lparr>awaiting := removeAll (RespID resp) (awaiting c),
      chans := (chans c)(RespID resp \<mapsto> ClosedWith \<lparr>res_val = RespData resp,
        res_err = codeToError (RespCode resp)\<rparr>)\<rparr>)"
    using True by (simp add: handleResponse_def Let_def)
  then show ?thesis
    by (rule that) (use assms in \<open>auto simp: conn_inv_def distinct_removeAll\<close>)
next
  case False
  with assms show ?thesis by (intro that [of c]) (simp_all add: handleResponse_def)
qed

lemma close_all_ok:
  "\<forall>rid \<in> set ids. chans c rid = Some Open \<Longrightarrow> distinct ids \<Longrightarrow>
   close_all ids c = Ok (c\<lparr>awaiting := filter (\<lambda>rid. rid \<notin> set ids) (awaiting c),
     chans := (\<lambda>rid. if rid \<in> set ids then Some ClosedEmpty else chans c rid)\<rparr>)"
proof (induction ids arbitrary: c)
  case (Cons rid ids)
  have "filter (\<lambda>i. i \<notin> set ids) (removeAll rid (awaiting c)) = filter (\<lambda>i. i \<notin> set (rid # ids)) (awaiting c)"
    by (auto simp: removeAll_filter_not_eq intro: filter_cong)
  moreover have "\<forall>i \<in> set ids. ((chans c)(rid \<mapsto> ClosedEmpty)) i = Some Open"
    using Cons.prems by auto
  ultimately show ?case
    using Cons.IH [of "c\<lparr>awaiting := removeAll rid (awaiting c), chans := (chans c)(rid \<mapsto> ClosedEmpty)\<rparr>"]
      Cons.prems by (auto simp: fun_eq_iff)
qed simp

lemma inv_clear:
  assumes "conn_inv c" and "is_closed c"
  obtains c' where "clear_awaiting c = Ok c'" and "conn_inv c'" and "nextID c' = nextID c"
    and "cleared c'" and "awaiting c' = []"
proof -
  let ?c = "c\<lparr>awaiting := [], chans := (\<lambda>rid. if rid \<in> set (awaiting c) then Some ClosedEmpty else chans c rid)\<rparr>"
  have "close_all (awaiting c) c = Ok ?c"
    using assms(1) by (subst close_all_ok) (simp_all add: conn_inv_def)
  then show ?thesis
    using assms by (intro that [of "?c\<lparr>cleared := True\<rparr>"]) (auto simp: clear_awaiting_def conn_inv_def)
qed

inductive_cases conn_stepE: "conn_step c c'"

lemma conn_step_inv:
  assumes "conn_step c c'" and inv: "conn_inv c" and "nextID c' < 2 ^ 62"
  shows "conn_inv c'"
  using assms(1)
proof cases
  case (step_register rid)
  then show ?thesis by (rule inv_register [OF inv _ assms(3)])
next
  case (step_send_ok rid)
  moreover have "\<not> cleared c" using step_send_ok(3) inv by (auto simp: conn_inv_def)
  ultimately show ?thesis using inv by (auto simp: conn_inv_def)
next
  case (step_response resp)
  obtain c1 where "handleResponse c resp = Ok c1" "conn_inv c1" by (rule inv_response [OF inv])
  with step_response show ?thesis by simp
next
  case step_clear
  obtain c1 where "clear_awaiting c = Ok c1" "conn_inv c1" by (rule inv_clear [OF inv step_clear(1)])
  with step_clear show ?thesis by simp
qed (use inv in \<open>auto simp: conn_inv_def\<close>)

lemma reachable_inv: "conn_reachable c \<Longrightarrow> conn_inv c"
proof (induction rule: conn_reachable.induct)
  case reach_init
  show ?case by (simp add: conn_inv_def new_conn_def)
next
  case (reach_step c c')
  show ?case by (rule conn_step_inv [OF reach_step.hyps(2) reach_step.IH reach_step.hyps(3)])
qed

section \<open>Properties\<close>

text \<open>C20: In every interleaving of requests, responses (also unasked-for or repeated ones) and
  closing, none of the critical sections panics: the ID is never taken, no channel is closed
  twice and nothing is sent on a closed channel.\<close>

theorem request_bookkeeping_never_panics:
  assumes "conn_reachable c"
  shows "(\<exists>r. register c = Ok r) \<and> (\<exists>c'. handleResponse c resp = Ok c') \<and>
    (is_closed c \<longrightarrow> (\<exists>c'. clear_awaiting c = Ok c' \<and> awaiting c' = []))"
proof -
  have inv: "conn_inv c" by (rule reachable_inv [OF assms])
  then have "\<exists>r. register c = Ok r" by (auto simp: register_def conn_inv_def Let_def)
  moreover have "\<exists>c'. handleResponse c resp = Ok c'" using inv_response [OF inv] by metis
  moreover have "is_closed c \<longrightarrow> (\<exists>c'. clear_awaiting c = Ok c' \<and> awaiting c' = [])"
    using inv_clear [OF inv] by metis
  ultimately show ?thesis by blast
qed

text \<open>Closing the connection releases every waiting request: once the outstanding requests
  are cleared, each request that still waits has a result or a closed channel and can return,
  even one that registered while the connection was being closed.\<close>

theorem closing_releases_waiting_requests:
  assumes "conn_reachable c" and "cleared c" and "phases c rid = Some Waiting"
  shows "\<exists>r. conn_step c (c\<lparr>phases := (phases c)(rid \<mapsto> Finished r)\<rparr>) \<and>
    (\<forall>v. r = Some v \<longleftrightarrow> chans c rid = Some (ClosedWith v))"
proof -
  have "conn_inv c" by (rule reachable_inv [OF assms(1)])
  then have "chans c rid \<noteq> None" and "chans c rid \<noteq> Some Open"
    using assms(2, 3) unfolding conn_inv_def by blast+
  then obtain ch where "chans c rid = Some ch" and "ch \<noteq> Open" by auto
  then show ?thesis
    using step_receive [OF assms(3)] step_receive_closed [OF assms(3)]
    by (cases ch) (auto intro: exI [of _ "Some _"] exI [of _ None])
qed

text \<open>A run: one request is sent, then the connection closes.\<close>

definition c_registered :: conn where
  "c_registered = new_conn\<lparr>nextID := 1, awaiting := [0], chans := [0 \<mapsto> Open], phases := [0 \<mapsto> Registered]\<rparr>"

definition c_waiting :: conn where
  "c_waiting = c_registered\<lparr>phases := [0 \<mapsto> Waiting]\<rparr>"

definition c_closed :: conn where
  "c_closed = c_waiting\<lparr>is_closed := True\<rparr>"

definition c_cleared :: conn where
  "c_cleared = c_closed\<lparr>awaiting := [], chans := [0 \<mapsto> ClosedEmpty], cleared := True\<rparr>"

lemma sample_run: "conn_reachable c_closed" "conn_reachable c_cleared"
proof -
  have one: "int64 1 = 1" by (rule int64_id) simp_all
  have "register new_conn = Ok (0, c_registered)"
    by (simp add: register_def new_conn_def c_registered_def one)
  from reach_step [OF reach_init step_register [OF this]] have "conn_reachable c_registered"
    by (simp add: c_registered_def new_conn_def)
  moreover have "conn_step c_registered c_waiting"
    using step_send_ok [of c_registered 0] by (simp add: c_registered_def c_waiting_def new_conn_def)
  ultimately have "conn_reachable c_waiting"
    by (rule reach_step) (simp add: c_waiting_def c_registered_def new_conn_def)
  moreover have "conn_step c_waiting c_closed"
    using step_close [of c_waiting] by (simp add: c_closed_def c_waiting_def c_registered_def new_conn_def)
  ultimately show closed: "conn_reachable c_closed"
    by (rule reach_step) (simp add: c_closed_def c_waiting_def c_registered_def new_conn_def)
  have "clear_awaiting c_closed = Ok c_cleared"
    by (simp add: clear_awaiting_def c_closed_def c_waiting_def c_registered_def c_cleared_def new_conn_def)
  then have "conn_step c_closed c_cleared"
    by (intro step_clear) (simp_all add: c_closed_def c_waiting_def c_registered_def new_conn_def)
  with closed show "conn_reachable c_cleared"
    by (rule reach_step) (simp add: c_cleared_def c_closed_def c_waiting_def c_registered_def new_conn_def)
qed

theorem request_bookkeeping_never_panics_witness:
  "\<exists>c'. clear_awaiting c_closed = Ok c' \<and> awaiting c' = []"
proof -
  have "is_closed c_closed" by (simp add: c_closed_def)
  with request_bookkeeping_never_panics [OF sample_run(1)] show ?thesis by blast
qed

theorem closing_releases_waiting_requests_witness:
  "\<exists>r. conn_step c_cleared (c_cleared\<lparr>phases := (phases c_cleared)(0 \<mapsto> Finished r)\<rparr>)"
  using closing_releases_waiting_requests [OF sample_run(2), of 0]
  by (auto simp: c_cleared_def c_closed_def c_waiting_def)

text \<open>Request IDs are counted in 64 bits but sent in 32.  The answer to a request with an ID
  from \<open>2 ^ 31\<close> on comes back with a different ID and leaves the outstanding requests as they
  are, so the request is not answered.\<close>

theorem large_request_ids_are_not_answered:
  assumes "conn_reachable c" and "2 ^ 31 \<le> ReqID req" and "ReqID req < 2 ^ 32"
    and "resp = responseFromWire (Response_toWire \<lparr>RespID = ReqID (requestFromWire (Request_toWire req)),
      RespData = bs, RespCode = code\<rparr>)"
  shows "RespID resp \<noteq> ReqID req \<and> handleResponse c resp = Ok c"
proof -
  have wrap: "int32 (ReqID req) = ReqID req - 2 ^ 32" by (rule int32_negative) (use assms in simp_all)
  then have "int32 (int32 (ReqID req)) = ReqID req - 2 ^ 32"
    using assms(2, 3) by (simp add: int32_id)
  then have rid: "RespID resp = ReqID req - 2 ^ 32"
    by (simp add: assms(4) responseFromWire_def Response_toWire_def requestFromWire_def Request_toWire_def)
  then have "RespID resp < 0" using assms(3) by simp
  then have "RespID resp \<notin> set (awaiting c)" using reachable_inv [OF assms(1)] by (auto simp: conn_inv_def)
  with rid show ?thesis by (simp add: handleResponse_def)
qed

theorem large_request_ids_are_not_answered_witness:
  "\<exists>resp. resp = responseFromWire (Response_toWire \<lparr>RespID = ReqID (requestFromWire
       (Request_toWire (sample_request\<lparr>ReqID := 2 ^ 31\<rparr>))), RespData = [], RespCode = ErrorCodeNoError\<rparr>) \<and>
     RespID resp \<noteq> 2 ^ 31 \<and> handleResponse c_closed resp = Ok c_closed"
  using large_request_ids_are_not_answered [OF sample_run(1), of "sample_request\<lparr>ReqID := 2 ^ 31\<rparr>" _ "[]"
    ErrorCodeNoError] by simp

end
