(* ===== verification/Framing.thy ===== *)
theory Framing
  imports Connection
begin

text \<open>
  Frames on the wire, \<^verbatim>\<open>lib/protocol/protocol.go\<close>: \<open>writeMessage\<close> and \<open>readMessage\<close> with
  their helpers, and the loops \<open>readerLoop\<close> and \<open>writerLoop\<close> around them.

  A frame is a 2 byte header length, the header (message type and compression), a 4 byte message
  length and the message, which may be compressed.  Protocol buffer marshalling and the LZ4 block
  functions are not part of the repository: they are the fields of the parameter \<open>wire_lib\<close>, and
  \<open>lib_ok\<close> states their documented contract.  The buffers of the pool are reused without being
  cleared; what they hold is a field of the parameter too.
\<close>

section \<open>Libraries\<close>

datatype MessageCompression = CompressionNone | CompressionLZ4 | MessageCompressionOther int

record bep_header =
  hType :: MessageType
  hCompression :: MessageCompression

record wire_lib =
  SizeMsg :: "bep_message \<Rightarrow> nat"
  MarshalMsg :: "bep_message \<Rightarrow> bytes option"
  UnmarshalMsg :: "bep_message \<Rightarrow> bytes \<Rightarrow> bep_message option"  \<comment> \<open>into a new message of the type\<close>
  SizeHdr :: "bep_header \<Rightarrow> nat"
  MarshalHdr :: "bep_header \<Rightarrow> bytes option"
  UnmarshalHdr :: "bytes \<Rightarrow> bep_header option"
  CompressBlock :: "bytes \<Rightarrow> nat \<Rightarrow> bytes option"    \<comment> \<open>source and room in the destination\<close>
  UncompressBlock :: "bytes \<Rightarrow> nat \<Rightarrow> bytes option"
  PoolGet :: "nat \<Rightarrow> bytes"                         \<comment> \<open>\<open>BufferPool.Get\<close>: any contents of that length\<close>
  WriteFails :: "bytes \<Rightarrow> bool"                     \<comment> \<open>the socket refuses the write\<close>

definition lib_ok :: "wire_lib \<Rightarrow> bool" where
  "lib_ok L \<longleftrightarrow>
     (\<forall>m bs. MarshalMsg L m = Some bs \<longrightarrow> length bs = SizeMsg L m \<and>
        (\<forall>z. typeOf z = typeOf m \<longrightarrow> UnmarshalMsg L z bs = Some m)) \<and>
     (\<forall>h bs. MarshalHdr L h = Some bs \<longrightarrow> length bs = SizeHdr L h \<and> UnmarshalHdr L bs = Some h) \<and>
     (\<forall>src n out. CompressBlock L src n = Some out \<longrightarrow> length out \<le> n \<and>
        (out \<noteq> [] \<longrightarrow> UncompressBlock L out (length src) = Some src)) \<and>
     (\<forall>n. length (PoolGet L n) = n)"

datatype frame_error =
    ReadShort | NegativeLength | MessageTooLong | CompressedTooShort | DecompressedTooLong
  | LZ4Error | NotCompressible | UnknownCompression | UnknownMessage | UnmarshalFailed
  | MarshalFailed | BufferTooSmall | WriteFailed

definition MaxMessageLen :: nat where
  "MaxMessageLen = 500 * 1000 * 1000"

definition compressionThreshold :: nat where
  "compressionThreshold = 128"

section \<open>Writing\<close>

text \<open>Storing into a buffer from an offset on, as \<open>copy(buf[off:], bs)\<close>.\<close>

definition store_at :: "nat \<Rightarrow> bytes \<Rightarrow> bytes \<Rightarrow> bytes" where
  "store_at off bs buf = take off buf @ take (length buf - off) bs @ drop (off + length bs) buf"

text \<open>
  \<open>protoutil.MarshalTo(buf[off:], pb)\<close> with the size and the marshalled form of \<open>pb\<close>; the result
  is the buffer afterwards.
\<close>

definition MarshalTo :: "nat \<Rightarrow> bytes \<Rightarrow> nat \<Rightarrow> bytes option \<Rightarrow> (frame_error, bytes) outcome" where
  "MarshalTo off buf sz marshalled =
     (if length buf - off < sz then Err BufferTooSmall
      else if sz = 0 then Ok buf
      else case marshalled of
             None \<Rightarrow> Err MarshalFailed
           | Some bs \<Rightarrow> if length buf - off < length bs then Panic else Ok (store_at off bs buf))"

definition shouldCompressMessage :: "wire_lib \<Rightarrow> Compression \<Rightarrow> bep_message \<Rightarrow> (frame_error, bool) outcome" where
  "shouldCompressMessage L compression msg =
     (case compression of
        CompressionNever \<Rightarrow> Ok False
      | CompressionAlways \<Rightarrow> Ok (compressionThreshold \<le> SizeMsg L msg)
      | CompressionMetadata \<Rightarrow>
          let isResponse = (case msg of MResponse _ \<Rightarrow> True | _ \<Rightarrow> False)
          in Ok (\<not> isResponse \<and> compressionThreshold \<le> SizeMsg L msg)
      | CompressionOther _ \<Rightarrow> Panic)"

text \<open>\<open>lz4Compress(src, buf[off:])\<close>: the number of bytes stored and the buffer.\<close>

definition lz4Compress :: "wire_lib \<Rightarrow> bytes \<Rightarrow> nat \<Rightarrow> bytes \<Rightarrow> (frame_error, nat \<times> bytes) outcome" where
  "lz4Compress L src off buf =
     (if length buf - off < 4 then Panic
      else case CompressBlock L src (length buf - off - 4) of
             None \<Rightarrow> Err LZ4Error
           | Some out \<Rightarrow>
               if length out = 0 then Err NotCompressible
               else Ok (length out + 4,
                        store_at off (PutUint32 (of_nat (length src))) (store_at (off + 4) out buf)))"

text \<open>
  The first result of \<open>writeCompressedMessage\<close> says whether compression succeeded; the second is
  what reached the socket.
\<close>

definition writeCompressedMessage ::
  "wire_lib \<Rightarrow> bep_message \<Rightarrow> bytes \<Rightarrow> (frame_error, bool \<times> bytes) outcome" where
  "writeCompressedMessage L msg marshaled =
     (let hdr = \<lparr>hType = typeOf msg, hCompression = CompressionLZ4\<rparr>;
          hdrSize = SizeHdr L hdr
      in if 65535 < hdrSize then Panic
         else
           let cOverhead = 2 + hdrSize + 4;
               maxCompressed = cOverhead + length marshaled - length marshaled div 32;
               buf = PoolGet L maxCompressed
           in case lz4Compress L marshaled cOverhead buf of
                Panic \<Rightarrow> Panic
              | Err _ \<Rightarrow> Ok (False, [])
              | Ok (compressedSize, buf) \<Rightarrow>
                  let totSize = compressedSize + cOverhead;
                      buf = store_at 0 (PutUint16 hdrSize) buf
                  in obind (MarshalTo 2 buf hdrSize (MarshalHdr L hdr)) (\<lambda>buf.
                       let buf = store_at (2 + hdrSize) (PutUint32 (of_nat compressedSize)) buf;
                           sent = take totSize buf
                       in if WriteFails L sent then Err WriteFailed else Ok (True, sent)))"

definition writeMessage :: "wire_lib \<Rightarrow> Compression \<Rightarrow> bep_message \<Rightarrow> (frame_error, bytes) outcome" where
  "writeMessage L compression msg =
     (let sz = SizeMsg L msg;
          hdr = \<lparr>hType = typeOf msg, hCompression = CompressionNone\<rparr>;
          hdrSize = SizeHdr L hdr
      in if 65535 < hdrSize then Panic
         else
           let overhead = 2 + hdrSize + 4;
               totSize = overhead + sz;
               buf = PoolGet L totSize
           in obind (MarshalTo overhead buf sz (MarshalMsg L msg)) (\<lambda>buf.
              obind (shouldCompressMessage L compression msg) (\<lambda>compress.
              obind (if compress then writeCompressedMessage L msg (drop overhead buf) else Ok (False, []))
                (\<lambda>(ok, sent).
                   if ok then Ok sent
                   else
                     let buf = store_at 0 (PutUint16 hdrSize) buf
                     in obind (MarshalTo 2 buf hdrSize (MarshalHdr L hdr)) (\<lambda>buf.
                          let buf = store_at (2 + hdrSize) (PutUint32 (of_nat sz)) buf
                          in if WriteFails L buf then Err WriteFailed else Ok buf)))))"

section \<open>Reading\<close>

text \<open>
  The reading functions return the value and what the connection still delivers; an error comes
  with the latter too, since the loop goes on after one of them.
\<close>

type_synonym 'a reading = "(frame_error \<times> bytes, 'a \<times> bytes) outcome"

definition read_exactly :: "nat \<Rightarrow> bytes \<Rightarrow> bytes reading" where
  "read_exactly n c = (if length c < n then Err (ReadShort, []) else Ok (take n c, drop n c))"

definition with_rest :: "bytes \<Rightarrow> (frame_error, 'a) outcome \<Rightarrow> (frame_error \<times> bytes, 'a) outcome" where
  "with_rest c r = (case r of Ok x \<Rightarrow> Ok x | Err e \<Rightarrow> Err (e, c) | Panic \<Rightarrow> Panic)"

definition lz4Decompress :: "wire_lib \<Rightarrow> bytes \<Rightarrow> (frame_error, bytes) outcome" where
  "lz4Decompress L src =
     (if length src < 4 then Err CompressedTooShort
      else
        let sz = unat (Uint32 src)
        in if MaxMessageLen < sz then Err DecompressedTooLong
           else case UncompressBlock L (drop 4 src) sz of None \<Rightarrow> Err LZ4Error | Some buf \<Rightarrow> Ok buf)"

definition newMessage :: "MessageType \<Rightarrow> (frame_error, bep_message) outcome" where
  "newMessage t =
     (case t of
        TypeClusterConfig \<Rightarrow> Ok (MClusterConfig \<lparr>bcFolders = [], bcSecondary = False\<rparr>)
      | TypeIndex \<Rightarrow> Ok (MIndex \<lparr>biFolder = [], biFiles = [], biLastSequence = 0\<rparr>)
      | TypeIndexUpdate \<Rightarrow>
          Ok (MIndexUpdate \<lparr>biFolder = [], biFiles = [], biLastSequence = 0, biPrevSequence = 0\<rparr>)
      | TypeRequest \<Rightarrow>
          Ok (MRequest \<lparr>ReqID = 0, ReqFolder = [], ReqName = [], ReqOffset = 0, ReqSize = 0, ReqHash = [],
                FromTemporary = False, BlockNo = 0\<rparr>)
      | TypeResponse \<Rightarrow> Ok (MResponse \<lparr>RespID = 0, RespData = [], RespCode = ErrorCodeNoError\<rparr>)
      | TypeDownloadProgress \<Rightarrow> Ok (MDownloadProgress \<lparr>bdFolder = [], bdUpdates = []\<rparr>)
      | TypePing \<Rightarrow> Ok MPing
      | TypeClose \<Rightarrow> Ok (MClose [])
      | TypeOther _ \<Rightarrow> Err UnknownMessage)"

definition readHeader :: "wire_lib \<Rightarrow> bytes \<Rightarrow> bep_header reading" where
  "readHeader L c =
     obind (read_exactly 2 c) (\<lambda>(len, c).
       let hdrLen = Uint16 len
       in if 32768 \<le> hdrLen then Err (NegativeLength, c)
          else obind (read_exactly hdrLen c) (\<lambda>(buf, c).
                 case UnmarshalHdr L buf of None \<Rightarrow> Err (UnmarshalFailed, c) | Some hdr \<Rightarrow> Ok (hdr, c)))"

definition readMessageAfterHeader ::
  "wire_lib \<Rightarrow> bep_header \<Rightarrow> bytes \<Rightarrow> bep_message reading" where
  "readMessageAfterHeader L hdr c =
     obind (read_exactly 4 c) (\<lambda>(len, c).
       let msgLen = sint (Uint32 len)
       in if msgLen < 0 then Err (NegativeLength, c)
          else if int MaxMessageLen < msgLen then Err (MessageTooLong, c)
          else
            obind (read_exactly (nat msgLen) c) (\<lambda>(buf, c).
            obind (with_rest c
                    (case hCompression hdr of
                       CompressionNone \<Rightarrow> Ok buf
                     | CompressionLZ4 \<Rightarrow> lz4Decompress L buf
                     | MessageCompressionOther _ \<Rightarrow> Err UnknownCompression)) (\<lambda>buf.
            obind (with_rest c (newMessage (hType hdr))) (\<lambda>msg.
              case UnmarshalMsg L msg buf of
                None \<Rightarrow> Err (UnmarshalFailed, c)
              | Some msg \<Rightarrow> Ok (msg, c)))))"

definition readMessage :: "wire_lib \<Rightarrow> bytes \<Rightarrow> bep_message reading" where
  "readMessage L c = obind (readHeader L c) (\<lambda>(hdr, c). readMessageAfterHeader L hdr c)"


section \<open>One frame\<close>

definition frame :: "bytes \<Rightarrow> bytes \<Rightarrow> bytes" where
  "frame hdr body = PutUint16 (length hdr) @ hdr @ PutUint32 (of_nat (length body)) @ body"

lemma store_at_append:
  "length a = off \<Longrightarrow> length b = length bs \<Longrightarrow> store_at off bs (a @ b @ c) = a @ bs @ c"
  by (simp add: store_at_def)

lemma MarshalTo_append:
  "length a = off \<Longrightarrow> length b = length bs \<Longrightarrow> length bs = sz \<Longrightarrow>
   MarshalTo off (a @ b @ c) sz (Some bs) = Ok (a @ bs @ c)"
  by (auto simp: MarshalTo_def store_at_append)

lemma split_buffer:
  assumes "length buf = k + m"
  obtains a b where "buf = a @ b" and "length a = k" and "length b = m"
  using assms by (intro that [of "take k buf" "drop k buf"]) simp_all

lemma split_frame:
  assumes "length buf = 2 + h + 4 + n"
  obtains p q r s where "buf = p @ q @ r @ s" and "length p = 2" and "length q = h" and "length r = 4"
    and "length s = n"
  by (rule that [of "take 2 buf" "take h (drop 2 buf)" "take 4 (drop (2 + h) buf)" "drop (2 + h + 4) buf"])
     (use assms in \<open>simp_all add: take_add [symmetric] append_assoc [symmetric] take_take_drop
        del: append_assoc\<close>)

text \<open>Filling in the length fields and the header of a buffer whose body is in place.\<close>

lemma fill_header:
  assumes "length p = 2" and "length q = length hdr" and "length r = 4" and "sz = length hdr" and "length w = 4"
  shows "obind (MarshalTo 2 (store_at 0 (PutUint16 sz) (p @ q @ r @ body)) sz (Some hdr))
      (\<lambda>buf. f (store_at (2 + sz) w buf)) = f (PutUint16 sz @ hdr @ w @ body)"
proof -
  have "store_at 0 (PutUint16 sz) ([] @ p @ q @ r @ body) = [] @ PutUint16 sz @ q @ r @ body"
    by (rule store_at_append) (simp_all add: assms)
  moreover have "MarshalTo 2 (PutUint16 sz @ q @ r @ body) sz (Some hdr) = Ok (PutUint16 sz @ hdr @ r @ body)"
    by (rule MarshalTo_append) (simp_all add: assms)
  moreover have "store_at (2 + sz) w ((PutUint16 sz @ hdr) @ r @ body) = (PutUint16 sz @ hdr) @ w @ body"
    by (rule store_at_append) (simp_all add: assms)
  ultimately show ?thesis by simp
qed

lemma msgLen_small: "n \<le> MaxMessageLen \<Longrightarrow> sint (of_nat n :: uint32) = int n"
proof -
  assume "n \<le> MaxMessageLen"
  then have "int32 (int n) = int n" by (intro int32_id) (simp_all add: MaxMessageLen_def)
  then show ?thesis by (simp add: int32_def)
qed

lemma read_frame:
  assumes "length hdr \<le> 32767" and "UnmarshalHdr L hdr = Some h" and "length body \<le> MaxMessageLen"
  shows "readMessage L (frame hdr body @ rest) =
    obind (with_rest rest
            (case hCompression h of
               CompressionNone \<Rightarrow> Ok body
             | CompressionLZ4 \<Rightarrow> lz4Decompress L body
             | MessageCompressionOther _ \<Rightarrow> Err UnknownCompression)) (\<lambda>buf.
    obind (with_rest rest (newMessage (hType h))) (\<lambda>msg.
      case UnmarshalMsg L msg buf of None \<Rightarrow> Err (UnmarshalFailed, rest) | Some msg \<Rightarrow> Ok (msg, rest)))"
proof -
  have len: "Uint16 (PutUint16 (length hdr)) = length hdr"
    using Uint16_Put [of "length hdr" "[]"] assms(1) by simp
  have "readHeader L (frame hdr body @ rest) = Ok (h, PutUint32 (of_nat (length body)) @ body @ rest)"
    using assms(1, 2) len by (simp add: readHeader_def frame_def read_exactly_def)
  moreover have "Uint32 (PutUint32 (of_nat (length body))) = of_nat (length body)"
    using Uint32_Put [of "of_nat (length body)" "[]"] by simp
  ultimately show ?thesis
    using msgLen_small [OF assms(3)] assms(3)
    by (simp add: readMessage_def readMessageAfterHeader_def read_exactly_def)
qed

lemma newMessage_typeOf: "\<exists>z. newMessage (typeOf msg) = Ok z \<and> typeOf z = typeOf msg"
  by (cases msg) (simp_all add: newMessage_def typeOf_def)

lemma lib_okD:
  assumes "lib_ok L"
  shows "MarshalMsg L m = Some bs \<Longrightarrow> length bs = SizeMsg L m"
    and "MarshalMsg L m = Some bs \<Longrightarrow> typeOf z = typeOf m \<Longrightarrow> UnmarshalMsg L z bs = Some m"
    and "MarshalHdr L h = Some hs \<Longrightarrow> length hs = SizeHdr L h \<and> UnmarshalHdr L hs = Some h"
    and "CompressBlock L src n = Some out \<Longrightarrow> length out \<le> n"
    and "CompressBlock L src n = Some out \<Longrightarrow> out \<noteq> [] \<Longrightarrow> UncompressBlock L out (length src) = Some src"
    and "length (PoolGet L n) = n"
  using assms unfolding lib_ok_def by blast+

lemma read_plain_frame:
  assumes "lib_ok L" and "MarshalHdr L \<lparr>hType = typeOf msg, hCompression = CompressionNone\<rparr> = Some hdr"
    and "length hdr \<le> 32767" and "MarshalMsg L msg = Some bs" and "length bs \<le> MaxMessageLen"
  shows "readMessage L (frame hdr bs @ rest) = Ok (msg, rest)"
  using newMessage_typeOf [of msg] lib_okD [OF assms(1)] assms by (auto simp: read_frame with_rest_def)

lemma read_compressed_frame:
  assumes "lib_ok L" and "MarshalHdr L \<lparr>hType = typeOf msg, hCompression = CompressionLZ4\<rparr> = Some hdr"
    and "length hdr \<le> 32767" and "MarshalMsg L msg = Some bs" and "length bs \<le> MaxMessageLen"
    and "CompressBlock L bs n = Some out" and "out \<noteq> []" and "length out + 4 \<le> MaxMessageLen"
  shows "readMessage L (frame hdr (PutUint32 (of_nat (length bs)) @ out) @ rest) = Ok (msg, rest)"
proof -
  have "unat (of_nat (length bs) :: uint32) = length bs"
    using assms(5) by (intro unat_of_nat_id) (simp add: MaxMessageLen_def)
  then have "lz4Decompress L (PutUint32 (of_nat (length bs)) @ out) = Ok bs"
    using lib_okD(5) [OF assms(1, 6, 7)] assms(5) by (simp add: lz4Decompress_def Let_def)
  then show ?thesis
    using newMessage_typeOf [of msg] lib_okD [OF assms(1)] assms by (auto simp: read_frame with_rest_def)
qed


lemma lz4Compress_buffer:
  assumes "length pre = off" and "length s = room" and "4 \<le> room"
    and "CompressBlock L bs (room - 4) = Some out" and "out \<noteq> []" and "length out \<le> room - 4"
  shows "lz4Compress L bs off (pre @ s) = Ok (length out + 4,
    pre @ PutUint32 (of_nat (length bs)) @ out @ drop (4 + length out) s)"
proof -
  have s: "s = take 4 s @ take (length out) (drop 4 s) @ drop (4 + length out) s"
    by (simp add: take_take_drop flip: append_assoc)
  have "store_at (off + 4) out ((pre @ take 4 s) @ take (length out) (drop 4 s) @ drop (4 + length out) s) =
      (pre @ take 4 s) @ out @ drop (4 + length out) s"
    by (rule store_at_append) (use assms in simp_all)
  then have "store_at (off + 4) out (pre @ s) = pre @ take 4 s @ out @ drop (4 + length out) s"
    using s by (metis append_assoc)
  moreover have "store_at off (PutUint32 (of_nat (length bs))) (pre @ take 4 s @ out @ drop (4 + length out) s) =
      pre @ PutUint32 (of_nat (length bs)) @ out @ drop (4 + length out) s"
    by (rule store_at_append) (use assms in simp_all)
  ultimately show ?thesis using assms by (simp add: lz4Compress_def)
qed

lemma writeCompressed_frame:
  assumes ok: "lib_ok L" and hdr: "MarshalHdr L \<lparr>hType = typeOf msg, hCompression = CompressionLZ4\<rparr> = Some hdr"
    and "length hdr \<le> 32767" and big: "compressionThreshold \<le> length bs" and nofail: "\<forall>sent. \<not> WriteFails L sent"
  shows "writeCompressedMessage L msg bs = Ok (False, []) \<or>
    (\<exists>out. CompressBlock L bs (length bs - length bs div 32 - 4) = Some out \<and> out \<noteq> [] \<and>
      writeCompressedMessage L msg bs = Ok (True, frame hdr (PutUint32 (of_nat (length bs)) @ out)))"
proof -
  define room where "room = length bs - length bs div 32"
  have sz: "SizeHdr L \<lparr>hType = typeOf msg, hCompression = CompressionLZ4\<rparr> = length hdr"
    using lib_okD(3) [OF ok hdr] by simp
  have room: "4 \<le> room" "2 + length hdr + 4 + length bs - length bs div 32 = 2 + length hdr + 4 + room"
    using big by (simp_all add: compressionThreshold_def room_def)
  obtain p q r s where buf: "PoolGet L (2 + length hdr + 4 + room) = p @ q @ r @ s"
    and len: "length p = 2" "length q = length hdr" "length r = 4" "length s = room"
    by (rule split_frame [OF lib_okD(6) [OF ok]])
  have pre: "length (p @ q @ r) = 2 + length hdr + 4" by (simp add: len)
  show ?thesis
  proof (cases "\<exists>out. CompressBlock L bs (room - 4) = Some out \<and> out \<noteq> []")
    case True
    then obtain out where out: "CompressBlock L bs (room - 4) = Some out" "out \<noteq> []" by blast
    let ?w = "PutUint32 (of_nat (length out + 4))" and ?z = "PutUint32 (of_nat (length bs)) @ out"
    have lz: "lz4Compress L bs (2 + length hdr + 4) (p @ q @ r @ s) = Ok (length out + 4,
        p @ q @ r @ ?z @ drop (4 + length out) s)"
      using lz4Compress_buffer [OF pre len(4) room(1) out lib_okD(4) [OF ok out(1)]] by simp
    have "writeCompressedMessage L msg bs =
        obind (MarshalTo 2 (store_at 0 (PutUint16 (length hdr)) (p @ q @ r @ ?z @ drop (4 + length out) s))
            (length hdr) (Some hdr))
          (\<lambda>buf. (\<lambda>buf. Ok (True, take (length out + 4 + (2 + length hdr + 4)) buf)) (store_at (2 + length hdr) ?w buf))"
      unfolding writeCompressedMessage_def Let_def sz hdr room(2) buf lz using assms(3) nofail by simp
    also have "\<dots> = Ok (True, take (length out + 4 + (2 + length hdr + 4))
        (PutUint16 (length hdr) @ hdr @ ?w @ ?z @ drop (4 + length out) s))"
      by (rule fill_header) (simp_all add: len)
    also have "\<dots> = Ok (True, frame hdr ?z)"
      by (simp add: frame_def add.commute [of 4])
    finally have "writeCompressedMessage L msg bs = Ok (True, frame hdr ?z)" .
    with out show ?thesis unfolding room_def by blast
  next
    case False
    then obtain e where lz: "lz4Compress L bs (2 + length hdr + 4) (p @ q @ r @ s) = Err e"
      using room(1) len by (cases "CompressBlock L bs (room - 4)") (auto simp: lz4Compress_def)
    have "writeCompressedMessage L msg bs = Ok (False, [])"
      unfolding writeCompressedMessage_def Let_def sz hdr room(2) buf lz using assms(3) by simp
    then show ?thesis by (rule disjI1)
  qed
qed

text \<open>The conditions under which a message can be sent at all.\<close>

definition writable :: "wire_lib \<Rightarrow> Compression \<Rightarrow> bep_message \<Rightarrow> bool" where
  "writable L compression msg \<longleftrightarrow>
     (case MarshalMsg L msg of None \<Rightarrow> False | Some bs \<Rightarrow> length bs \<le> MaxMessageLen) \<and>
     list_all (\<lambda>k. case MarshalHdr L \<lparr>hType = typeOf msg, hCompression = k\<rparr> of
        None \<Rightarrow> False | Some hs \<Rightarrow> length hs \<le> 32767) [CompressionNone, CompressionLZ4] \<and>
     (case compression of CompressionOther _ \<Rightarrow> False | _ \<Rightarrow> True)"

lemma shouldCompress_threshold:
  "writable L compression msg \<Longrightarrow> \<exists>b. shouldCompressMessage L compression msg = Ok b \<and>
     (b \<longrightarrow> compressionThreshold \<le> SizeMsg L msg)"
  by (auto simp: shouldCompressMessage_def writable_def Let_def split: Compression.splits)

lemma writeMessage_readMessage:
  assumes ok: "lib_ok L" and "writable L compression msg" and nofail: "\<forall>sent. \<not> WriteFails L sent"
  shows "\<exists>bs. writeMessage L compression msg = Ok bs \<and> (\<forall>rest. readMessage L (bs @ rest) = Ok (msg, rest))"
proof -
  obtain bs hdr zhdr where bs: "MarshalMsg L msg = Some bs" "length bs \<le> MaxMessageLen"
    and hdr: "MarshalHdr L \<lparr>hType = typeOf msg, hCompression = CompressionNone\<rparr> = Some hdr" "length hdr \<le> 32767"
    and zhdr: "MarshalHdr L \<lparr>hType = typeOf msg, hCompression = CompressionLZ4\<rparr> = Some zhdr" "length zhdr \<le> 32767"
    using assms(2) by (auto simp: writable_def split: option.splits)
  obtain compress where compress: "shouldCompressMessage L compression msg = Ok compress"
      "compress \<longrightarrow> compressionThreshold \<le> SizeMsg L msg"
    using shouldCompress_threshold [OF assms(2)] by blast
  have sz: "SizeHdr L \<lparr>hType = typeOf msg, hCompression = CompressionNone\<rparr> = length hdr" "SizeMsg L msg = length bs"
    using lib_okD [OF ok] bs(1) hdr(1) by simp_all
  obtain p q r s where buf: "PoolGet L (2 + length hdr + 4 + length bs) = p @ q @ r @ s"
    and len: "length p = 2" "length q = length hdr" "length r = 4" "length s = length bs"
    by (rule split_frame [OF lib_okD(6) [OF ok]])
  have body: "MarshalTo (2 + length hdr + 4) (p @ q @ r @ s) (length bs) (Some bs) = Ok (p @ q @ r @ bs)"
    using MarshalTo_append [of "p @ q @ r" _ s bs "length bs" "[]"] len by simp
  let ?z = "if compress then writeCompressedMessage L msg bs else Ok (False, [])"
  let ?w = "PutUint32 (of_nat (length bs))"
  have "obind (MarshalTo 2 (store_at 0 (PutUint16 (length hdr)) (p @ q @ r @ bs)) (length hdr) (Some hdr))
      (\<lambda>buf. Ok (store_at (2 + length hdr) ?w buf)) = Ok (PutUint16 (length hdr) @ hdr @ ?w @ bs)"
    by (rule fill_header [where f = Ok]) (simp_all add: len)
  then have filled: "obind (MarshalTo 2 (store_at 0 (PutUint16 (length hdr)) (p @ q @ r @ bs)) (length hdr) (Some hdr))
      (\<lambda>buf. Ok (store_at (2 + length hdr) ?w buf)) = Ok (frame hdr bs)" by (simp only: frame_def)
  have dropped: "drop (2 + length hdr + 4) (p @ q @ r @ bs) = bs" by (simp add: len)
  have written: "writeMessage L compression msg =
      obind ?z (\<lambda>(ok, sent). if ok then Ok sent else Ok (frame hdr bs))"
    unfolding writeMessage_def Let_def sz bs(1) hdr(1) buf compress(1) body obind.simps dropped
    using hdr(2) nofail by (simp only: filled if_False not_less if_not_P cong: if_cong)
  have plain: "\<forall>rest. readMessage L (frame hdr bs @ rest) = Ok (msg, rest)"
    using read_plain_frame [OF ok hdr bs] by blast
  consider "?z = Ok (False, [])"
    | out where "CompressBlock L bs (length bs - length bs div 32 - 4) = Some out" "out \<noteq> []"
      "?z = Ok (True, frame zhdr (PutUint32 (of_nat (length bs)) @ out))" "compress"
    using writeCompressed_frame [OF ok zhdr _ nofail, of bs] compress(2) sz(2) by (cases compress) auto
  then show ?thesis
  proof cases
    case 1
    then show ?thesis using written plain by simp
  next
    case (2 out)
    have "length out + 4 \<le> MaxMessageLen"
      using lib_okD(4) [OF ok 2(1)] compress(2) 2(4) sz(2) bs(2) by (simp add: compressionThreshold_def)
    then show ?thesis using written 2(3) read_compressed_frame [OF ok zhdr bs 2(1, 2)] by simp
  qed
qed


section \<open>The loops\<close>

text \<open>
  \<open>readerLoop\<close> on everything the connection delivers: the messages put into the inbox, and the
  error it closes the connection with (an end of the data in the middle of a frame is one, too).
\<close>

definition rest_of :: "'a reading \<Rightarrow> bytes" where
  "rest_of r = (case r of Ok (x, c) \<Rightarrow> c | Err (e, c) \<Rightarrow> c | Panic \<Rightarrow> [])"

lemma rest_of_simps [simp]: "rest_of (Ok (x, c)) = c" "rest_of (Err (e, c)) = c"
  by (simp_all add: rest_of_def)

lemma read_exactly_less: "read_exactly n c = Ok (bs, rest) \<Longrightarrow> length c = n + length rest"
  by (auto simp: read_exactly_def split: if_splits)

lemma rest_of_with_rest:
  "length (rest_of (obind (with_rest c m) f)) \<le> length c" if "\<And>x. length (rest_of (f x)) \<le> length c"
  using that by (cases m) (auto simp: with_rest_def rest_of_def)

lemma rest_of_read:
  assumes "n \<le> length c \<Longrightarrow> length (rest_of (f (take n c, drop n c))) \<le> length c - n"
  shows "length (rest_of (obind (read_exactly n c) f)) \<le> length c - n"
  using assms by (auto simp: read_exactly_def)

lemma rest_of_header: "length (rest_of (readHeader L c)) \<le> length c - 2"
  unfolding readHeader_def
  by (rule rest_of_read) (auto simp: Let_def read_exactly_def split: option.splits)

lemma rest_of_body:
  "length (rest_of (obind (with_rest c m) (\<lambda>buf. obind (with_rest c m')
     (\<lambda>msg. case u msg buf of None \<Rightarrow> Err (e, c) | Some msg \<Rightarrow> Ok (msg, c))))) \<le> length c"
  by (intro rest_of_with_rest) (simp split: option.splits)

lemma rest_of_after_header: "length (rest_of (readMessageAfterHeader L hdr c)) \<le> length c - 4"
  unfolding readMessageAfterHeader_def
proof (rule rest_of_read, simp add: Let_def, intro impI)
  let ?n = "nat (sint (Uint32 (take 4 c)))" and ?c = "drop 4 c"
  have "length (rest_of (obind (read_exactly ?n ?c) (\<lambda>(buf, c).
      obind (with_rest c (k buf)) (\<lambda>buf. obind (with_rest c (newMessage (hType hdr)))
        (\<lambda>msg. case UnmarshalMsg L msg buf of None \<Rightarrow> Err (UnmarshalFailed, c) | Some msg \<Rightarrow> Ok (msg, c))))))
      \<le> length ?c - ?n" for k
    by (rule rest_of_read) (simp only: prod.case, rule order_trans [OF rest_of_body], simp)
  then show "length (rest_of (obind (read_exactly ?n ?c) (\<lambda>(buf, c).
      obind (with_rest c (case hCompression hdr of CompressionNone \<Rightarrow> Ok buf | CompressionLZ4 \<Rightarrow> lz4Decompress L buf
        | MessageCompressionOther x \<Rightarrow> Err UnknownCompression)) (\<lambda>buf. obind (with_rest c (newMessage (hType hdr)))
        (\<lambda>msg. case UnmarshalMsg L msg buf of None \<Rightarrow> Err (UnmarshalFailed, c) | Some msg \<Rightarrow> Ok (msg, c))))))
      \<le> length c - 4"
    by (rule order_trans) simp
qed

lemma rest_of_message: "c \<noteq> [] \<Longrightarrow> length (rest_of (readMessage L c)) < length c"
proof -
  assume "c \<noteq> []"
  have "length (rest_of (readMessage L c)) \<le> length c - 2"
  proof (cases "readHeader L c")
    case (Ok r)
    then obtain hdr c' where r: "readHeader L c = Ok (hdr, c')" by (cases r) auto
    have "length c' \<le> length c - 2" using rest_of_header [of L c] r by simp
    then show ?thesis using rest_of_after_header [of L hdr c'] r by (simp add: readMessage_def)
  qed (use rest_of_header [of L c] in \<open>simp_all add: readMessage_def rest_of_def split: prod.splits\<close>)
  also have "\<dots> < length c" using \<open>c \<noteq> []\<close> by simp
  finally show ?thesis .
qed

lemma readMessage_nothing: "readMessage L [] = Err (ReadShort, [])"
  by (simp add: readMessage_def readHeader_def read_exactly_def)

function readerLoop :: "wire_lib \<Rightarrow> bytes \<Rightarrow> bep_message list \<times> frame_error option" where
  "readerLoop L c =
     (case readMessage L c of
        Ok (msg, rest) \<Rightarrow> (case readerLoop L rest of (msgs, e) \<Rightarrow> (msg # msgs, e))
      | Err (e, rest) \<Rightarrow> if e = UnknownMessage then readerLoop L rest else ([], Some e)
      | Panic \<Rightarrow> ([], None))"
  by pat_completeness auto
termination
proof (relation "measure (\<lambda>(L, c). length c)", goal_cases)
  case (2 L c r msg rest)
  then show ?case using rest_of_message [of c L] by (cases c) (auto simp: readMessage_nothing)
next
  case (3 L c r e rest)
  then show ?case using rest_of_message [of c L] by (cases c) (auto simp: readMessage_nothing)
qed simp

declare readerLoop.simps [simp del]

text \<open>
  What becomes ready for \<open>writerLoop\<close>, in the order in which it does: a cluster configuration, a
  message in the outbox, a close message, or the connection being closed.
\<close>

datatype offer = OfferClusterConfig ClusterConfig | OfferMessage bep_message | OfferClose bep_message | ConnClosed

definition then_write ::
  "(frame_error, bytes) outcome \<Rightarrow> (frame_error \<times> bytes, bytes) outcome \<Rightarrow> (frame_error \<times> bytes, bytes) outcome" where
  "then_write r rest =
     (case r of
        Ok bs \<Rightarrow> (case rest of Ok cs \<Rightarrow> Ok (bs @ cs) | Err (e, cs) \<Rightarrow> Err (e, bs @ cs) | Panic \<Rightarrow> Panic)
      | Err e \<Rightarrow> Err (e, [])
      | Panic \<Rightarrow> Panic)"

text \<open>The error of writing the close message is ignored.\<close>

definition write_last :: "(frame_error, bytes) outcome \<Rightarrow> (frame_error \<times> bytes, bytes) outcome" where
  "write_last r = (case r of Ok bs \<Rightarrow> Ok bs | Err e \<Rightarrow> Ok [] | Panic \<Rightarrow> Panic)"

fun writer_rest :: "wire_lib \<Rightarrow> Compression \<Rightarrow> offer list \<Rightarrow> (frame_error \<times> bytes, bytes) outcome" where
  "writer_rest L compression [] = Ok []"
| "writer_rest L compression (OfferClusterConfig cc # offers) =
     then_write (writeMessage L compression (MClusterConfig (ClusterConfig_toWire cc)))
       (writer_rest L compression offers)"
| "writer_rest L compression (OfferMessage msg # offers) =
     then_write (writeMessage L compression msg) (writer_rest L compression offers)"
| "writer_rest L compression (OfferClose msg # offers) = write_last (writeMessage L compression msg)"
| "writer_rest L compression (ConnClosed # offers) = Ok []"

text \<open>
  The first \<open>select\<close> does not look at the outbox: what is offered there waits, in the first argument,
  and is taken after the cluster configuration.
\<close>

fun writer_first :: "wire_lib \<Rightarrow> Compression \<Rightarrow> offer list \<Rightarrow> offer list \<Rightarrow> (frame_error \<times> bytes, bytes) outcome" where
  "writer_first L compression waiting [] = Ok []"
| "writer_first L compression waiting (OfferMessage msg # offers) =
     writer_first L compression (waiting @ [OfferMessage msg]) offers"
| "writer_first L compression waiting (OfferClusterConfig cc # offers) =
     then_write (writeMessage L compression (MClusterConfig (ClusterConfig_toWire cc)))
       (writer_rest L compression (waiting @ offers))"
| "writer_first L compression waiting (OfferClose msg # offers) = write_last (writeMessage L compression msg)"
| "writer_first L compression waiting (ConnClosed # offers) = Ok []"

definition writerLoop :: "wire_lib \<Rightarrow> Compression \<Rightarrow> offer list \<Rightarrow> (frame_error \<times> bytes, bytes) outcome" where
  "writerLoop L compression offers = writer_first L compression [] offers"

text \<open>The messages the writer takes out of the boxes, in order.\<close>

definition offered :: "offer \<Rightarrow> bep_message option" where
  "offered o' =
     (case o' of OfferClusterConfig cc \<Rightarrow> Some (MClusterConfig (ClusterConfig_toWire cc)) | OfferMessage m \<Rightarrow> Some m
      | OfferClose m \<Rightarrow> Some m | ConnClosed \<Rightarrow> None)"

definition ends_writer :: "offer \<Rightarrow> bool" where
  "ends_writer o' = (case o' of OfferClose _ \<Rightarrow> True | ConnClosed \<Rightarrow> True | _ \<Rightarrow> False)"

fun taken :: "offer list \<Rightarrow> bep_message list" where
  "taken [] = []"
| "taken (o' # offers) =
     (case offered o' of None \<Rightarrow> [] | Some m \<Rightarrow> m # (if ends_writer o' then [] else taken offers))"

text \<open>The order in which they are taken.\<close>

fun selected_after :: "offer list \<Rightarrow> offer list \<Rightarrow> offer list" where
  "selected_after waiting [] = []"
| "selected_after waiting (OfferMessage msg # offers) = selected_after (waiting @ [OfferMessage msg]) offers"
| "selected_after waiting (OfferClusterConfig cc # offers) = OfferClusterConfig cc # waiting @ offers"
| "selected_after waiting (OfferClose msg # offers) = [OfferClose msg]"
| "selected_after waiting (ConnClosed # offers) = [ConnClosed]"

definition selected :: "offer list \<Rightarrow> offer list" where
  "selected offers = selected_after [] offers"

definition sent_messages :: "offer list \<Rightarrow> bep_message list" where
  "sent_messages offers = taken (selected offers)"

lemma readerLoop_empty [simp]: "readerLoop L [] = ([], Some ReadShort)"
  by (simp add: readerLoop.simps readMessage_nothing)

lemma read_sent:
  assumes "\<forall>rest. readMessage L (bs @ rest) = Ok (msg, rest)"
  shows "readerLoop L (bs @ rest) = (msg # fst (readerLoop L rest), snd (readerLoop L rest))"
  using assms by (subst readerLoop.simps) (simp split: prod.splits)

lemma writer_rest_read:
  assumes "lib_ok L" and "\<forall>sent. \<not> WriteFails L sent" and "\<forall>m \<in> set (taken offers). writable L compression m"
  shows "\<exists>bs. writer_rest L compression offers = Ok bs \<and> readerLoop L bs = (taken offers, Some ReadShort)"
  using assms(3)
proof (induction offers rule: taken.induct)
  case (2 o' offers)
  show ?case
  proof (cases "offered o'")
    case (Some m)
    with 2(2) have "writable L compression m" by simp
    then obtain bs where bs: "writeMessage L compression m = Ok bs" "\<forall>rest. readMessage L (bs @ rest) = Ok (m, rest)"
      using writeMessage_readMessage [OF assms(1) _ assms(2)] by blast
    have last: "readerLoop L bs = ([m], Some ReadShort)" using read_sent [OF bs(2), of "[]"] by simp
    have more: "\<exists>cs. writer_rest L compression offers = Ok cs \<and> readerLoop L cs = (taken offers, Some ReadShort)"
      if "\<not> ends_writer o'" using 2(1) [OF Some that] 2(2) Some that by simp
    show ?thesis
      using Some bs last more read_sent [OF bs(2)]
      by (cases o') (fastforce simp: offered_def ends_writer_def write_last_def then_write_def)+
  qed (auto simp: offered_def split: offer.splits)
qed simp

lemma writer_first_rest: "writer_first L compression waiting offers = writer_rest L compression (selected_after waiting offers)"
  by (induction L compression waiting offers rule: writer_first.induct) simp_all

lemma writerLoop_rest: "writerLoop L compression offers = writer_rest L compression (selected offers)"
  by (simp add: writerLoop_def writer_first_rest selected_def)

section \<open>Properties\<close>

text \<open>C17: Whatever compression is configured and whatever the buffers held before, the messages that
  \<open>writerLoop\<close> takes out of its boxes are exactly the messages the \<open>readerLoop\<close> at the other end
  puts into its inbox, in that order, given the contract of the marshalling and LZ4 libraries and
  messages of at most 500 MB.  Messages offered before the cluster configuration wait until it is sent.\<close>

theorem messages_arrive_in_order:
  assumes "lib_ok L" and "\<forall>sent. \<not> WriteFails L sent" and "list_all (writable L compression) (sent_messages offers)"
  shows "\<exists>bs. writerLoop L compression offers = Ok bs \<and> readerLoop L bs = (sent_messages offers, Some ReadShort)"
  using writer_rest_read [OF assms(1, 2), of "selected offers"] assms(3)
  by (simp add: writerLoop_rest sent_messages_def list_all_iff)

text \<open>A frame with an unknown message type does not end the connection: the reader skips it and
  goes on with the next frame.\<close>

theorem unknown_types_are_skipped:
  assumes "length hdr \<le> 32767" and "UnmarshalHdr L hdr = Some \<lparr>hType = TypeOther t, hCompression = CompressionNone\<rparr>"
    and "length body \<le> MaxMessageLen"
  shows "readerLoop L (frame hdr body @ rest) = readerLoop L rest"
proof -
  have "readMessage L (frame hdr body @ rest) = Err (UnknownMessage, rest)"
    using read_frame [OF assms] by (simp add: with_rest_def newMessage_def)
  then show ?thesis by (subst readerLoop.simps) simp
qed

text \<open>
  A small instance of the libraries: it marshals an empty cluster configuration, pings and closes,
  and compresses runs of one byte.
\<close>

definition empty_config :: bep_message where
  "empty_config = MClusterConfig \<lparr>bcFolders = [], bcSecondary = False\<rparr>"

definition toy_lib :: wire_lib where
  "toy_lib =
     \<lparr>SizeMsg = (\<lambda>m. if m = MPing \<or> m = empty_config then 0 else case m of MClose s \<Rightarrow> length s | _ \<Rightarrow> 1),
      MarshalMsg = (\<lambda>m. if m = MPing \<or> m = empty_config then Some []
         else case m of MClose s \<Rightarrow> Some (map (\<lambda>c. of_nat (of_char c)) s) | _ \<Rightarrow> None),
      UnmarshalMsg = (\<lambda>z bs. case z of MPing \<Rightarrow> Some MPing | MClusterConfig _ \<Rightarrow> Some empty_config
       | MClose _ \<Rightarrow> Some (MClose (map (\<lambda>b. char_of (unat b)) bs)) | _ \<Rightarrow> None),
      SizeHdr = (\<lambda>h. 2),
      MarshalHdr = (\<lambda>h. if hCompression h = CompressionNone \<or> hCompression h = CompressionLZ4 then
         (let k = (if hCompression h = CompressionNone then 0 else 1)
          in case hType h of TypePing \<Rightarrow> Some [1, k] | TypeClose \<Rightarrow> Some [2, k] | TypeClusterConfig \<Rightarrow> Some [3, k]
             | _ \<Rightarrow> None) else None),
      UnmarshalHdr = (\<lambda>bs. case bs of
         [t, k] \<Rightarrow> Some \<lparr>hType = if t = 1 then TypePing else if t = 2 then TypeClose
             else if t = 3 then TypeClusterConfig else TypeOther (uint t),
           hCompression = if k = 0 then CompressionNone else CompressionLZ4\<rparr>
       | _ \<Rightarrow> None),
      CompressBlock = (\<lambda>src n. if src \<noteq> [] \<and> 1 \<le> n \<and> src = replicate (length src) (hd src)
         then Some [hd src] else None),
      UncompressBlock = (\<lambda>src n. case src of [b] \<Rightarrow> Some (replicate n b) | _ \<Rightarrow> None),
      PoolGet = (\<lambda>n. replicate n 0xFF),
      WriteFails = (\<lambda>sent. False)\<rparr>"

lemma char_byte: "char_of (unat (of_nat (of_char c) :: byte)) = c"
  by (simp add: unat_byte_id of_char_of flip: unat_of_nat)

lemma toy_lib_ok: "lib_ok toy_lib"
proof -
  have "length bs = SizeMsg toy_lib m \<and> (\<forall>z. typeOf z = typeOf m \<longrightarrow> UnmarshalMsg toy_lib z bs = Some m)"
    if "MarshalMsg toy_lib m = Some bs" for m bs
    using that by (cases m) (auto simp: toy_lib_def empty_config_def typeOf_def char_byte comp_def split: bep_message.splits if_splits)
  moreover have "length bs = SizeHdr toy_lib h \<and> UnmarshalHdr toy_lib bs = Some h"
    if "MarshalHdr toy_lib h = Some bs" for h bs
    using that by (cases h) (auto simp: toy_lib_def Let_def split: if_splits MessageType.splits)
  moreover have "length out \<le> n \<and> (out \<noteq> [] \<longrightarrow> UncompressBlock toy_lib out (length src) = Some src)"
    if "CompressBlock toy_lib src n = Some out" for src n out
    using that by (auto simp: toy_lib_def split: if_splits)
  ultimately show ?thesis by (simp add: lib_ok_def) (simp add: toy_lib_def)
qed

definition toy_offers :: "offer list" where
  "toy_offers = [OfferMessage MPing, OfferClusterConfig \<lparr>Folders = [], Secondary = False\<rparr>, OfferMessage MPing,
     OfferClose (MClose (replicate 200 (CHR ''a''))), OfferMessage MPing]"

lemma toy_sent:
  "sent_messages toy_offers = [empty_config, MPing, MPing, MClose (replicate 200 (CHR ''a''))]"
  by (simp add: sent_messages_def selected_def offered_def ends_writer_def toy_offers_def empty_config_def
      ClusterConfig_toWire_def)

lemma toy_writable: "list_all (writable toy_lib CompressionAlways) (sent_messages toy_offers)"
  unfolding toy_sent by (simp add: writable_def toy_lib_def MaxMessageLen_def typeOf_def empty_config_def)

lemma toy_no_fail: "\<forall>sent. \<not> WriteFails toy_lib sent"
  by (simp add: toy_lib_def)

theorem messages_arrive_in_order_witness:
  "\<exists>bs. writerLoop toy_lib CompressionAlways toy_offers = Ok bs \<and>
     readerLoop toy_lib bs = ([empty_config, MPing, MPing, MClose (replicate 200 (CHR ''a''))], Some ReadShort)"
  using messages_arrive_in_order [OF toy_lib_ok toy_no_fail toy_writable] unfolding toy_sent .

theorem unknown_types_are_skipped_witness:
  "readerLoop toy_lib (frame [9, 0] [1, 2, 3] @ frame [1, 0] []) = ([MPing], Some ReadShort)"
proof -
  have "readMessage toy_lib (frame [1, 0] [] @ rest) = Ok (MPing, rest)" for rest
    by (rule read_plain_frame [OF toy_lib_ok]) (simp_all add: toy_lib_def typeOf_def)
  then have "readerLoop toy_lib (frame [1, 0] []) = ([MPing], Some ReadShort)"
    using read_sent [of toy_lib "frame [1, 0] []" MPing "[]"] by simp
  moreover have "UnmarshalHdr toy_lib [9, 0] = Some \<lparr>hType = TypeOther 9, hCompression = CompressionNone\<rparr>"
    by (simp add: toy_lib_def)
  ultimately show ?thesis
    using unknown_types_are_skipped [of "[9, 0]" toy_lib 9 "[1, 2, 3]"] by (simp add: MaxMessageLen_def)
qed

end
