(* ===== verification/File_Compare.thy ===== *)
theory File_Compare
  imports File_Wire
begin

unbundle bit_operations_syntax

text \<open>
  Decisions about two file infos, \<^verbatim>\<open>lib/protocol/bep_fileinfo.go\<close>: whether one is in
  conflict with the other, which one wins, and whether they stand for the same file content.
  Modification times follow package \<open>time\<close>: seconds in a wrapping 64-bit counter,
  nanoseconds from 0 to 999999999, and a saturating difference.
\<close>

section \<open>Times\<close>

type_synonym gotime = "int \<times> int"

definition unixToInternal :: int where
  "unixToInternal = 62135596800"

definition time_Unix :: "int \<Rightarrow> int \<Rightarrow> gotime" where
  "time_Unix sec nsec = (int64 (sec + nsec div 1000000000 + unixToInternal), nsec mod 1000000000)"

definition time_After :: "gotime \<Rightarrow> gotime \<Rightarrow> bool" where
  "time_After t u \<longleftrightarrow> fst u < fst t \<or> fst t = fst u \<and> snd u < snd t"

definition time_Before :: "gotime \<Rightarrow> gotime \<Rightarrow> bool" where
  "time_Before t u \<longleftrightarrow> fst t < fst u \<or> fst t = fst u \<and> snd t < snd u"

definition nanoseconds :: "gotime \<Rightarrow> gotime \<Rightarrow> int" where
  "nanoseconds t u = (fst t - fst u) * 1000000000 + (snd t - snd u)"

definition minDuration :: int where "minDuration = - (2 ^ 63)"
definition maxDuration :: int where "maxDuration = 2 ^ 63 - 1"

text \<open>\<open>Sub\<close> returns the largest or smallest duration when the difference does not fit.\<close>

definition time_Sub :: "gotime \<Rightarrow> gotime \<Rightarrow> int" where
  "time_Sub t u = max minDuration (min maxDuration (nanoseconds t u))"

definition ModTimeEqual :: "gotime \<Rightarrow> gotime \<Rightarrow> int \<Rightarrow> bool" where
  "ModTimeEqual a b modTimeWindow =
     (if a = b then True
      else
        let diff = time_Sub a b;
            diff = (if diff < 0 then int64 (diff * - 1) else diff)
        in diff < modTimeWindow)"

definition ModTime :: "FileInfo \<Rightarrow> gotime" where
  "ModTime f = time_Unix (ModifiedS f) (ModifiedNs f)"

section \<open>Conflicts\<close>

definition InConflictWith :: "FileInfo \<Rightarrow> FileInfo \<Rightarrow> bool" where
  "InConflictWith f previous =
     (if GreaterEqual (Version f) (Version previous) then False
      else if length (PreviousBlocksHash f) = 0 \<or> length (BlocksHash f) = 0 then True
      else PreviousBlocksHash f \<noteq> BlocksHash previous)"

definition WinsConflict :: "FileInfo \<Rightarrow> FileInfo \<Rightarrow> bool" where
  "WinsConflict f other =
     (if IsInvalid f \<noteq> IsInvalid other then \<not> IsInvalid f
      else if time_After (ModTime f) (ModTime other) then True
      else if time_Before (ModTime f) (ModTime other) then False
      else Compare (Version f) (Version other) = ConcurrentGreater)"

text \<open>C16: Of two files with concurrent versions exactly one wins: two devices that each hold
  one of them and compare it with the other's reach opposite answers.\<close>

theorem exactly_one_wins_conflict:
  assumes "Concurrent (Version f) (Version g)"
  shows "WinsConflict f g \<longleftrightarrow> \<not> WinsConflict g f"
proof -
  have "Compare (Version g) (Version f) = flip_ordering (Compare (Version f) (Version g))"
    by (rule vv.cmp_flip)
  moreover have "Compare (Version f) (Version g) \<in> {ConcurrentGreater, ConcurrentLesser}"
    using assms by (auto simp: Concurrent_def)
  ultimately have tie: "Compare (Version f) (Version g) = ConcurrentGreater \<longleftrightarrow>
      Compare (Version g) (Version f) \<noteq> ConcurrentGreater" by auto
  consider "IsInvalid f \<noteq> IsInvalid g" | "IsInvalid f = IsInvalid g" "time_After (ModTime f) (ModTime g)"
    | "IsInvalid f = IsInvalid g" "time_Before (ModTime f) (ModTime g)"
    | "IsInvalid f = IsInvalid g" "ModTime f = ModTime g"
    by (force simp: time_After_def time_Before_def prod_eq_iff)
  then show ?thesis
    by cases (auto simp: WinsConflict_def time_After_def time_Before_def tie)
qed

definition rival_file :: FileInfo where
  "rival_file = sample_file\<lparr>Version := vec_b\<rparr>"

theorem exactly_one_wins_conflict_witness:
  "WinsConflict sample_file rival_file \<longleftrightarrow> \<not> WinsConflict rival_file sample_file"
  by (rule exactly_one_wins_conflict)
    (simp add: sample_file_def rival_file_def Concurrent_def vec_a_def vec_b_def mk_counter_def; code_simp)

section \<open>Equivalence\<close>

record FileInfoComparison =
  ModTimeWindow :: int
  IgnorePerms :: bool
  IgnoreBlocks :: bool
  IgnoreFlags :: uint32
  IgnoreOwnership :: bool
  IgnoreXattrs :: bool

definition PermsEqual :: "goos \<Rightarrow> uint32 \<Rightarrow> uint32 \<Rightarrow> bool" where
  "PermsEqual os a b =
     (if os = GoWindows then (a AND 0x180) = (b AND 0x180) else (a AND 0x1FF) = (b AND 0x1FF))"

definition BlocksEqual :: "FileInfo \<Rightarrow> FileInfo \<Rightarrow> bool" where
  "BlocksEqual f other =
     (if 0 < length (BlocksHash f) \<and> 0 < length (BlocksHash other) \<and> BlocksHash f = BlocksHash other
      then True else blocksEqual (Blocks f) (Blocks other))"

text \<open>
  \<open>f.Platform != other.Platform\<close> compares pointers in the code.  Equal pointers have equal
  contents, and for different pointers with equal contents all comparisons below it succeed,
  so comparing contents gives the same answer.
\<close>

definition isEquivalent :: "goos \<Rightarrow> FileInfo \<Rightarrow> FileInfo \<Rightarrow> FileInfoComparison \<Rightarrow> bool" where
  "isEquivalent os f0 other0 cmp =
     (if MustRescan f0 \<or> MustRescan other0 then False
      else
        let f = f0\<lparr>LocalFlags := LocalFlags f0 AND NOT (IgnoreFlags cmp)\<rparr>;
            other = other0\<lparr>LocalFlags := LocalFlags other0 AND NOT (IgnoreFlags cmp)\<rparr>
        in if Name f \<noteq> Name other \<or> Type f \<noteq> Type other \<or> Deleted f \<noteq> Deleted other \<or>
              IsInvalid f \<noteq> IsInvalid other then False
           else if \<not> IgnoreOwnership cmp \<and> Platform f \<noteq> Platform other \<and>
              (\<not> unixOwnershipEqual (Unix (Platform f)) (Unix (Platform other)) \<or>
               \<not> windowsOwnershipEqual (Windows (Platform f)) (Windows (Platform other))) then False
           else if \<not> IgnoreXattrs cmp \<and> Platform f \<noteq> Platform other \<and>
              (\<not> xattrsEqual (Linux (Platform f)) (Linux (Platform other)) \<or>
               \<not> xattrsEqual (Darwin (Platform f)) (Darwin (Platform other)) \<or>
               \<not> xattrsEqual (FreeBSD (Platform f)) (FreeBSD (Platform other)) \<or>
               \<not> xattrsEqual (NetBSD (Platform f)) (NetBSD (Platform other))) then False
           else if \<not> IgnorePerms cmp \<and> \<not> NoPermissions f \<and> \<not> NoPermissions other \<and>
              \<not> PermsEqual os (Permissions f) (Permissions other) then False
           else
             case Type f of
               FileInfoTypeFile \<Rightarrow>
                 Size f = Size other \<and> ModTimeEqual (ModTime f) (ModTime other) (ModTimeWindow cmp) \<and>
                 (IgnoreBlocks cmp \<or> BlocksEqual f other)
             | FileInfoTypeSymlink \<Rightarrow> SymlinkTarget f = SymlinkTarget other
             | FileInfoTypeDirectory \<Rightarrow> True
             | _ \<Rightarrow> False)"

definition IsEquivalent :: "goos \<Rightarrow> FileInfo \<Rightarrow> FileInfo \<Rightarrow> int \<Rightarrow> bool" where
  "IsEquivalent os f other modTimeWindow =
     isEquivalent os f other
       \<lparr>ModTimeWindow = modTimeWindow, IgnorePerms = False, IgnoreBlocks = False, IgnoreFlags = 0,
        IgnoreOwnership = False, IgnoreXattrs = False\<rparr>"

definition IsEquivalentOptional :: "goos \<Rightarrow> FileInfo \<Rightarrow> FileInfo \<Rightarrow> FileInfoComparison \<Rightarrow> bool" where
  "IsEquivalentOptional os f other cmp = isEquivalent os f other cmp"

lemma xattr_lists_equal_iff: "length xs = length ys \<Longrightarrow> xattr_lists_equal xs ys \<longleftrightarrow> xs = ys"
  by (induction xs ys rule: list_induct2) auto

lemma xattrsEqual_iff:
  "xattrsEqual a b \<longleftrightarrow>
     (case a of None \<Rightarrow> [] | Some d \<Rightarrow> Xattrs d) = (case b of None \<Rightarrow> [] | Some d \<Rightarrow> Xattrs d)"
  by (auto simp: xattrsEqual_def Let_def xattr_lists_equal_iff split: option.splits)

lemma xattrsEqual_sym: "xattrsEqual a b \<longleftrightarrow> xattrsEqual b a"
  by (auto simp: xattrsEqual_iff)

lemma unixOwnershipEqual_sym: "unixOwnershipEqual a b \<longleftrightarrow> unixOwnershipEqual b a"
  by (auto simp: unixOwnershipEqual_def split: option.splits)

lemma windowsOwnershipEqual_sym: "windowsOwnershipEqual a b \<longleftrightarrow> windowsOwnershipEqual b a"
  by (auto simp: windowsOwnershipEqual_def split: option.splits)

lemma block_hashes_equal_iff:
  "length a = length b \<Longrightarrow> block_hashes_equal a b \<longleftrightarrow> map Hash a = map Hash b"
  by (induction a b rule: list_induct2) auto

lemma blocksEqual_iff: "blocksEqual a b \<longleftrightarrow> map Hash a = map Hash b"
  by (metis blocksEqual_def block_hashes_equal_iff length_map)

lemma BlocksEqual_sym: "BlocksEqual f g \<longleftrightarrow> BlocksEqual g f"
  by (auto simp: BlocksEqual_def blocksEqual_iff)

lemma PermsEqual_sym: "PermsEqual os a b \<longleftrightarrow> PermsEqual os b a"
  by (auto simp: PermsEqual_def)

lemma time_Sub_in_range:
  "\<bar>nanoseconds a b\<bar> < 2 ^ 63 \<Longrightarrow> time_Sub a b = nanoseconds a b"
  by (auto simp: time_Sub_def minDuration_def maxDuration_def max_def min_def)

lemma ModTimeEqual_in_range:
  assumes "\<bar>nanoseconds a b\<bar> < 2 ^ 63"
  shows "ModTimeEqual a b w \<longleftrightarrow> a = b \<or> \<bar>nanoseconds a b\<bar> < w"
proof (cases "nanoseconds a b < 0")
  case True
  then have "int64 (nanoseconds a b * - 1) = - nanoseconds a b" using assms by (simp add: int64_id)
  with True show ?thesis by (simp add: ModTimeEqual_def time_Sub_in_range [OF assms] Let_def)
next
  case False
  then show ?thesis by (simp add: ModTimeEqual_def time_Sub_in_range [OF assms] Let_def)
qed

lemma nanoseconds_flip: "nanoseconds b a = - nanoseconds a b"
  by (simp add: nanoseconds_def)

lemma ModTimeEqual_sym:
  assumes "\<bar>nanoseconds a b\<bar> < 2 ^ 63"
  shows "ModTimeEqual a b w \<longleftrightarrow> ModTimeEqual b a w"
  using ModTimeEqual_in_range [of a b] ModTimeEqual_in_range [of b a] assms
  by (auto simp: nanoseconds_flip [of b a])

lemma ModTime_flags [simp]: "ModTime (f\<lparr>LocalFlags := x\<rparr>) = ModTime f"
  by (simp add: ModTime_def)

lemma BlocksEqual_flags [simp]: "BlocksEqual (f\<lparr>LocalFlags := x\<rparr>) (g\<lparr>LocalFlags := y\<rparr>) = BlocksEqual f g"
  by (simp add: BlocksEqual_def)

text \<open>Equivalence as a conjunction of symmetric conditions.\<close>

definition platform_equal :: "FileInfoComparison \<Rightarrow> PlatformData \<Rightarrow> PlatformData \<Rightarrow> bool" where
  "platform_equal cmp p q \<longleftrightarrow>
     (IgnoreOwnership cmp \<or> unixOwnershipEqual (Unix p) (Unix q) \<and> windowsOwnershipEqual (Windows p) (Windows q)) \<and>
     (IgnoreXattrs cmp \<or> xattrsEqual (Linux p) (Linux q) \<and> xattrsEqual (Darwin p) (Darwin q) \<and>
        xattrsEqual (FreeBSD p) (FreeBSD q) \<and> xattrsEqual (NetBSD p) (NetBSD q))"

definition content_equal :: "FileInfoComparison \<Rightarrow> FileInfo \<Rightarrow> FileInfo \<Rightarrow> bool" where
  "content_equal cmp f g \<longleftrightarrow>
     (case Type f of
        FileInfoTypeFile \<Rightarrow>
          Size f = Size g \<and> ModTimeEqual (ModTime f) (ModTime g) (ModTimeWindow cmp) \<and>
          (IgnoreBlocks cmp \<or> BlocksEqual f g)
      | FileInfoTypeSymlink \<Rightarrow> SymlinkTarget f = SymlinkTarget g
      | FileInfoTypeDirectory \<Rightarrow> True
      | _ \<Rightarrow> False)"

lemma ownership_refl [simp]: "unixOwnershipEqual a a" "windowsOwnershipEqual b b" "xattrsEqual c c"
  by (auto simp: unixOwnershipEqual_def windowsOwnershipEqual_def xattrsEqual_iff split: option.splits)

lemma platform_guard:
  "\<not> (\<not> IgnoreOwnership cmp \<and> p \<noteq> q \<and> (\<not> unixOwnershipEqual (Unix p) (Unix q) \<or>
        \<not> windowsOwnershipEqual (Windows p) (Windows q))) \<and>
   \<not> (\<not> IgnoreXattrs cmp \<and> p \<noteq> q \<and> (\<not> xattrsEqual (Linux p) (Linux q) \<or>
        \<not> xattrsEqual (Darwin p) (Darwin q) \<or> \<not> xattrsEqual (FreeBSD p) (FreeBSD q) \<or>
        \<not> xattrsEqual (NetBSD p) (NetBSD q))) \<longleftrightarrow> platform_equal cmp p q"
  by (cases "p = q") (auto simp: platform_equal_def)

lemma guard_False: "(if P then False else Q) \<longleftrightarrow> \<not> P \<and> Q"
  by simp

lemma isEquivalent_iff:
  "isEquivalent os f g cmp \<longleftrightarrow>
     \<not> MustRescan f \<and> \<not> MustRescan g \<and> Name f = Name g \<and> Type f = Type g \<and> Deleted f = Deleted g \<and>
     Flag_IsInvalid (LocalFlags f AND NOT (IgnoreFlags cmp)) =
       Flag_IsInvalid (LocalFlags g AND NOT (IgnoreFlags cmp)) \<and>
     platform_equal cmp (Platform f) (Platform g) \<and>
     (IgnorePerms cmp \<or> NoPermissions f \<or> NoPermissions g \<or> PermsEqual os (Permissions f) (Permissions g)) \<and>
     content_equal cmp f g"
  unfolding isEquivalent_def Let_def guard_False platform_guard [symmetric] content_equal_def
  by (cases "Type f") (simp_all add: IsInvalid_def conj_ac)

lemma platform_equal_sym: "platform_equal cmp p q \<longleftrightarrow> platform_equal cmp q p"
  by (simp only: platform_equal_def xattrsEqual_sym [of _ "Linux q"] xattrsEqual_sym [of _ "Darwin q"]
      xattrsEqual_sym [of _ "FreeBSD q"] xattrsEqual_sym [of _ "NetBSD q"]
      unixOwnershipEqual_sym [of _ "Unix q"] windowsOwnershipEqual_sym [of _ "Windows q"])

lemma content_equal_sym:
  assumes "\<bar>nanoseconds (ModTime f) (ModTime g)\<bar> < 2 ^ 63" and "Type f = Type g"
  shows "content_equal cmp f g \<longleftrightarrow> content_equal cmp g f"
  using ModTimeEqual_sym [OF assms(1)] BlocksEqual_sym [of f g] assms(2)
  by (auto simp: content_equal_def split: FileInfoType.splits)

text \<open>Equivalence of file infos does not depend on which one is asked, as long as the two
  modification times are less than \<open>2 ^ 63\<close> nanoseconds (about 292 years) apart.\<close>

theorem isEquivalent_symmetric:
  assumes "\<bar>nanoseconds (ModTime f) (ModTime g)\<bar> < 2 ^ 63"
  shows "isEquivalent os f g cmp \<longleftrightarrow> isEquivalent os g f cmp"
  using content_equal_sym [OF assms, of cmp] platform_equal_sym [of cmp "Platform f" "Platform g"]
    PermsEqual_sym [of os "Permissions f" "Permissions g"]
  unfolding isEquivalent_iff by metis

theorem isEquivalent_symmetric_witness:
  "isEquivalent GoLinux sample_file rival_file
     \<lparr>ModTimeWindow = 0, IgnorePerms = False, IgnoreBlocks = False, IgnoreFlags = 0,
      IgnoreOwnership = False, IgnoreXattrs = False\<rparr> \<longleftrightarrow>
   isEquivalent GoLinux rival_file sample_file
     \<lparr>ModTimeWindow = 0, IgnorePerms = False, IgnoreBlocks = False, IgnoreFlags = 0,
      IgnoreOwnership = False, IgnoreXattrs = False\<rparr>"
  by (rule isEquivalent_symmetric) (simp add: ModTime_def sample_file_def rival_file_def nanoseconds_def)

text \<open>\<open>ModTimeEqual\<close> overflows for times far apart.  When \<open>a\<close> lies more than \<open>2 ^ 63\<close>
  nanoseconds before \<open>b\<close>, the difference saturates at the smallest duration, negating it
  gives that number again, and the two times count as equal for every window, even zero; with
  the arguments exchanged they count as different.\<close>

theorem distant_times_count_as_equal:
  assumes "nanoseconds a b < - (2 ^ 63)" and "0 \<le> w" and "w < 2 ^ 63"
  shows "ModTimeEqual a b w \<and> \<not> ModTimeEqual b a w"
proof -
  have ne: "a \<noteq> b" using assms(1) by (auto simp: nanoseconds_def)
  have "time_Sub a b = minDuration" and sub': "time_Sub b a = maxDuration"
    using assms(1) nanoseconds_flip [of b a] by (simp_all add: time_Sub_def minDuration_def maxDuration_def)
  moreover have "int64 (minDuration * - 1) = minDuration"
    using int64_negative [of "2 ^ 63"] by (simp add: minDuration_def)
  moreover have "minDuration < 0" by (simp add: minDuration_def)
  ultimately show ?thesis
    using ne assms(2, 3) by (simp add: ModTimeEqual_def Let_def maxDuration_def)
qed

theorem distant_times_count_as_equal_witness:
  "ModTimeEqual (time_Unix 0 0) (time_Unix 10000000000 0) 0 \<and>
   \<not> ModTimeEqual (time_Unix 10000000000 0) (time_Unix 0 0) 0"
proof (rule distant_times_count_as_equal)
  have "time_Unix 0 0 = (unixToInternal, 0)" and "time_Unix 10000000000 0 = (10000000000 + unixToInternal, 0)"
    by (simp_all add: time_Unix_def unixToInternal_def int64_id)
  then show "nanoseconds (time_Unix 0 0) (time_Unix 10000000000 0) < - (2 ^ 63)"
    by (simp add: nanoseconds_def)
qed simp_all

text \<open>Unix owners count as equal when their names are unknown on both sides, whatever the
  numeric IDs are: two empty names are compared like names.\<close>

theorem unknown_owner_names_match:
  "unixOwnershipEqual (Some \<lparr>OwnerName = [], GroupName = [], UID = u, GID = g\<rparr>)
     (Some \<lparr>OwnerName = [], GroupName = [], UID = u', GID = g'\<rparr>)"
  by (simp add: unixOwnershipEqual_def)

section \<open>Block sizes\<close>

lemma BlockSizes_value:
  "BlockSizes = [131072, 262144, 524288, 1048576, 2097152, 4194304, 8388608, 16777216]"
  by (simp add: BlockSizes_def MinBlockSize_def block_sizes_from.simps MaxBlockSize_def)

text \<open>The check of \<open>init\<close>: there is a hash of the empty block for every block size.\<close>

lemma empty_block_table_complete:
  "list_all (\<lambda>b. map_of sha256OfEmptyBlock (int b) \<noteq> None) BlockSizes"
  by (simp add: BlockSizes_value sha256OfEmptyBlock_def)

lemma block_size_loop_spec:
  "bs \<noteq> [] \<Longrightarrow> sorted bs \<Longrightarrow>
   block_size_loop bs n c \<in> set bs \<and>
   (n < int (DesiredPerFileBlocks * block_size_loop bs n c) \<or> block_size_loop bs n c = last bs) \<and>
   (\<forall>b \<in> set bs. b < block_size_loop bs n c \<longrightarrow> \<not> n < int (DesiredPerFileBlocks * b))"
proof (induction bs arbitrary: c)
  case (Cons b bs)
  show ?case
  proof (cases "n < int (DesiredPerFileBlocks * b) \<or> bs = []")
    case True
    then show ?thesis using Cons.prems(2) by auto
  next
    case False
    with Cons.IH [of b] Cons.prems show ?thesis by (auto simp del: of_nat_mult)
  qed
qed simp

text \<open>\<open>BlockSize\<close> returns one of the eight block sizes: the smallest with which the file
  has fewer than 2000 full blocks, or 16 MiB when there is none.\<close>

theorem BlockSize_smallest_sufficient:
  "BlockSize n \<in> set BlockSizes \<and>
   (n < int (DesiredPerFileBlocks * BlockSize n) \<or> BlockSize n = MaxBlockSize) \<and>
   list_all (\<lambda>b. b < BlockSize n \<longrightarrow> int (DesiredPerFileBlocks * b) \<le> n) BlockSizes"
proof -
  have "sorted BlockSizes" and "BlockSizes \<noteq> []" and "last BlockSizes = MaxBlockSize"
    by (simp_all add: BlockSizes_value MaxBlockSize_def)
  then show ?thesis
    using block_size_loop_spec [of BlockSizes n 0] by (auto simp: BlockSize_def list_all_iff not_less simp del: of_nat_mult)
qed

theorem BlockSize_smallest_sufficient_witness: "BlockSize 300000000 \<in> set BlockSizes"
  using BlockSize_smallest_sufficient [of 300000000] by blast

end
