(* ===== verification/Row_Order.thy ===== *)
theory Row_Order
  imports File_Compare "HOL-Library.Multiset"
begin

text \<open>
  Which announced version of a file is the global one: the order on the rows of the files table,
  \<^verbatim>\<open>internal/db/sqlite/folderdb_update.go\<close>, with the optional last-writer-wins order
  of \<^verbatim>\<open>internal/db/sqlite/folderdb_ancestor.go\<close>.

  A comparison returns a negative number when the first row is better.  The properties relate it
  to the conflict rule of the protocol package, and show where the order is and is not one.
\<close>

section \<open>Rows\<close>

text \<open>
  Vectors are stored as text and sorted when they are read.  A stable sort stands for
  \<open>slices.SortFunc\<close>; they differ only on vectors with several counters for one ID.
\<close>

definition dbVector_Value :: "vector \<Rightarrow> string" where
  "dbVector_Value v = Vector_String v"

definition sort_counters :: "vector \<Rightarrow> vector" where
  "sort_counters v = \<lparr>Counters = sort_key ID (Counters v)\<rparr>"

definition dbVector_Scan :: "string \<Rightarrow> (vector_error, vector) outcome" where
  "dbVector_Scan str =
     (if str = [] then Ok \<lparr>Counters = []\<rparr>
      else obind (VectorFromString str) (\<lambda>vec. Ok (sort_counters vec)))"

text \<open>
  The columns of \<open>files\<close>, with the name and the version joined in; a null hash is the empty one.
  The version is there as its text and as the vector read from it.
\<close>

record fileRow =
  rName :: string
  rVersion :: vector
  rVersionText :: string
  DeviceIdx :: int
  rSequence :: int
  rRemoteSequence :: "int option"
  rType :: FileInfoType
  rModified :: int
  rSize :: int
  BlocklistHash :: bytes
  rLocalFlags :: uint32
  rDeleted :: bool

record AncestorEntry =
  aName :: string
  ModifiedNanos :: int
  aSize :: int
  aBlocklistHash :: bytes
  aDeleted :: bool
  UpdatedNanos :: int

definition Row_IsInvalid :: "fileRow \<Rightarrow> bool" where
  "Row_IsInvalid e = Flag_IsInvalid (rLocalFlags e)"

text \<open>\<open>cmp.Compare\<close> on integers.\<close>

definition cmp_Compare :: "int \<Rightarrow> int \<Rightarrow> int" where
  "cmp_Compare a b = (if a < b then - 1 else if b < a then 1 else 0)"

section \<open>Comparisons\<close>

definition rowMatchesAncestor :: "fileRow \<Rightarrow> AncestorEntry option \<Rightarrow> bool" where
  "rowMatchesAncestor row ancestor =
     (case ancestor of
        None \<Rightarrow> False
      | Some a \<Rightarrow>
          if rDeleted row \<and> aDeleted a then True
          else if rDeleted row \<noteq> aDeleted a then False
          else rModified row = ModifiedNanos a \<and> rSize row = aSize a \<and> BlocklistHash row = aBlocklistHash a)"

definition rowsEqualByAncestorMetadata :: "fileRow \<Rightarrow> fileRow \<Rightarrow> bool" where
  "rowsEqualByAncestorMetadata a b =
     (if rDeleted a \<and> rDeleted b then True
      else if rDeleted a \<noteq> rDeleted b then False
      else rModified a = rModified b \<and> rSize a = rSize b \<and> BlocklistHash a = BlocklistHash b)"

definition compareLWWAncestor :: "fileRow \<Rightarrow> fileRow \<Rightarrow> AncestorEntry option \<Rightarrow> int" where
  "compareLWWAncestor e other ancestor =
     (let eMatches = rowMatchesAncestor e ancestor;
          otherMatches = rowMatchesAncestor other ancestor
      in if eMatches \<and> \<not> otherMatches then 1
         else if \<not> eMatches \<and> otherMatches then - 1
         else if rowsEqualByAncestorMetadata e other then cmp_Compare (DeviceIdx e) (DeviceIdx other)
         else if rDeleted e \<and> \<not> rDeleted other then 1
         else if \<not> rDeleted e \<and> rDeleted other then - 1
         else
           let d = cmp_Compare (rModified e) (rModified other)
           in if d \<noteq> 0 then - d else cmp_Compare (DeviceIdx e) (DeviceIdx other))"

definition CompareWithAncestor :: "fileRow \<Rightarrow> fileRow \<Rightarrow> AncestorEntry option \<Rightarrow> bool \<Rightarrow> int" where
  "CompareWithAncestor e other ancestor useLWW =
     (let vc = Compare (rVersion e) (rVersion other)
      in case vc of
           Equal \<Rightarrow>
             if Row_IsInvalid e \<noteq> Row_IsInvalid other then (if Row_IsInvalid e then 1 else - 1)
             else cmp_Compare (DeviceIdx e) (DeviceIdx other)
         | Greater \<Rightarrow> - 1
         | Lesser \<Rightarrow> 1
         | _ \<Rightarrow>
             if Row_IsInvalid e \<noteq> Row_IsInvalid other then (if Row_IsInvalid e then 1 else - 1)
             else
               let lww = (if useLWW then compareLWWAncestor e other ancestor else 0)
               in if lww \<noteq> 0 then lww
                  else
                    let d = cmp_Compare (rModified e) (rModified other)
                    in if d \<noteq> 0 then - d else if vc = ConcurrentGreater then - 1 else 1)"

definition Row_Compare :: "fileRow \<Rightarrow> fileRow \<Rightarrow> int" where
  "Row_Compare e other = CompareWithAncestor e other None False"

section \<open>Laws of the comparison\<close>

lemma Scan_Value: "dbVector_Scan (dbVector_Value v) = Ok (sort_counters v)"
proof (cases "Counters v = []")
  case True
  then show ?thesis by (simp add: dbVector_Scan_def dbVector_Value_def Vector_String_def sort_counters_def)
next
  case False
  then have "VectorFromString (Vector_String v) = Ok v" by (rule VectorFromString_text)
  moreover have "Vector_String v \<noteq> []"
    using calculation by (auto simp: VectorFromString_def parse_pair_def)
  ultimately show ?thesis by (simp add: dbVector_Scan_def dbVector_Value_def)
qed

lemma sort_counters_wf [simp]: "wf_vector v \<Longrightarrow> sort_counters v = v"
proof -
  assume "wf_vector v"
  then have "sorted (map ID (Counters v))"
    by (auto simp: wf_vector_def sorted_counters_def intro: strict_sorted_imp_sorted)
  then show ?thesis by (cases v) (simp add: sort_counters_def sort_key_id_if_sorted)
qed

lemma cmp_Compare_flip: "cmp_Compare b a = - cmp_Compare a b"
  by (simp add: cmp_Compare_def)

lemma cmp_Compare_zero [simp]: "cmp_Compare a b = 0 \<longleftrightarrow> a = b"
  by (auto simp: cmp_Compare_def)

lemma cmp_Compare_neg: "cmp_Compare a b < 0 \<longleftrightarrow> a < b"
  by (auto simp: cmp_Compare_def)

lemma rowsEqual_sym: "rowsEqualByAncestorMetadata b a = rowsEqualByAncestorMetadata a b"
  by (auto simp: rowsEqualByAncestorMetadata_def)

lemma compareLWW_flip: "compareLWWAncestor b a anc = - compareLWWAncestor a b anc"
  by (auto simp: compareLWWAncestor_def Let_def rowsEqual_sym [of b a] cmp_Compare_flip [of "DeviceIdx b"]
      cmp_Compare_flip [of "rModified b"])

section \<open>Sorting\<close>

text \<open>
  \<open>slices.SortFunc\<close> permutes its list, and sorts it when the comparator is a strict order on the
  elements.  On at most twelve elements it is the insertion sort below, which moves each element
  to the left as long as it is smaller than its neighbour; \<open>done'\<close> is the sorted part, reversed.
\<close>

definition strict_order :: "('a \<Rightarrow> 'a \<Rightarrow> int) \<Rightarrow> 'a list \<Rightarrow> bool" where
  "strict_order c xs \<longleftrightarrow> distinct xs \<and>
     list_all (\<lambda>x. list_all (\<lambda>y.
       (c y x < 0 \<longleftrightarrow> 0 < c x y) \<and> (x \<noteq> y \<longrightarrow> c x y \<noteq> 0) \<and>
       list_all (\<lambda>z. c x y < 0 \<longrightarrow> c y z < 0 \<longrightarrow> c x z < 0) xs) xs) xs"

type_synonym 'a sorter = "('a \<Rightarrow> 'a \<Rightarrow> int) \<Rightarrow> 'a list \<Rightarrow> 'a list"

definition sort_ok :: "'a sorter \<Rightarrow> bool" where
  "sort_ok srt \<longleftrightarrow> (\<forall>c xs. mset (srt c xs) = mset xs \<and>
     (strict_order c xs \<longrightarrow> sorted_wrt (\<lambda>a b. c a b < 0) (srt c xs)))"

fun insert_left :: "('a \<Rightarrow> 'a \<Rightarrow> int) \<Rightarrow> 'a \<Rightarrow> 'a list \<Rightarrow> 'a list" where
  "insert_left c x [] = [x]"
| "insert_left c x (y # done') = (if c x y < 0 then y # insert_left c x done' else x # y # done')"

definition insertionSort :: "'a sorter" where
  "insertionSort c xs = rev (foldl (\<lambda>done' x. insert_left c x done') [] xs)"

lemma mset_insert_left [simp]: "mset (insert_left c x ys) = add_mset x (mset ys)"
  by (induction ys) auto

lemma set_insert_left [simp]: "set (insert_left c x ys) = insert x (set ys)"
  by (induction ys) auto

lemma mset_insertion_fold: "mset (foldl (\<lambda>acc x. insert_left c x acc) acc xs) = mset acc + mset xs"
  by (induction xs arbitrary: acc) auto

text \<open>The laws of a strict order, on the elements of a list.\<close>

lemma strict_orderD:
  assumes "strict_order c xs" and "x \<in> set xs" and "y \<in> set xs"
  shows "c y x < 0 \<longleftrightarrow> 0 < c x y" and "x \<noteq> y \<Longrightarrow> c x y \<noteq> 0"
    and "z \<in> set xs \<Longrightarrow> c x y < 0 \<Longrightarrow> c y z < 0 \<Longrightarrow> c x z < 0"
  using assms unfolding strict_order_def list_all_iff by blast+

lemma insert_left_sorted:
  assumes "strict_order c xs" and "insert x (set ys) \<subseteq> set xs" and "x \<notin> set ys"
    and "sorted_wrt (\<lambda>a b. c b a < 0) ys"
  shows "sorted_wrt (\<lambda>a b. c b a < 0) (insert_left c x ys)"
  using assms(2-)
proof (induction ys)
  case (Cons y ys)
  have in_xs: "x \<in> set xs" "y \<in> set xs" and "x \<noteq> y" using Cons.prems by auto
  show ?case
  proof (cases "c x y < 0")
    case True
    then show ?thesis using Cons by auto
  next
    case False
    then have less: "c y x < 0"
      using strict_orderD [OF assms(1) in_xs] \<open>x \<noteq> y\<close> by linarith
    have "c z x < 0" if "z \<in> set ys" for z
      using strict_orderD(3) [OF assms(1) _ in_xs(2) in_xs(1), of z] that less Cons.prems by auto
    with less False Cons.prems show ?thesis by auto
  qed
qed simp

lemma insertion_fold_sorted:
  assumes "strict_order c xs" and "set acc \<union> set ys \<subseteq> set xs" and "distinct (acc @ ys)"
    and "sorted_wrt (\<lambda>a b. c b a < 0) acc"
  shows "sorted_wrt (\<lambda>a b. c b a < 0) (foldl (\<lambda>acc x. insert_left c x acc) acc ys)"
  using assms(2-)
proof (induction ys arbitrary: acc)
  case (Cons y ys)
  have "distinct (insert_left c y acc)"
    using Cons.prems(2) by (metis distinct_append distinct_count_atmost_1 mset_insert_left set_mset_mset
        disjoint_insert(1) distinct.simps(2) list.set_intros(1) disjoint_iff mset.simps(2))
  then show ?case
    using Cons.prems insert_left_sorted [OF assms(1), of y acc] by (auto intro!: Cons.IH)
qed simp

lemma insertionSort_ok: "sort_ok insertionSort"
proof -
  have "sorted_wrt (\<lambda>a b. c a b < 0) (insertionSort c xs)" if "strict_order c xs" for c :: "'a \<Rightarrow> 'a \<Rightarrow> int" and xs
    using insertion_fold_sorted [OF that, of "[]" xs] that
    by (simp add: insertionSort_def sorted_wrt_rev strict_order_def)
  moreover have "mset (insertionSort c xs) = mset xs" for c :: "'a \<Rightarrow> 'a \<Rightarrow> int" and xs
    by (simp add: insertionSort_def mset_insertion_fold)
  ultimately show ?thesis by (simp add: sort_ok_def)
qed

text \<open>
  The interface between a comparator and its clients: \<open>good\<close> lists of elements, on which it is a
  strict order.
\<close>

locale comparator_on =
  fixes cmp :: "'a \<Rightarrow> 'a \<Rightarrow> int" and good :: "'a list \<Rightarrow> bool"
  assumes good_distinct: "good xs \<Longrightarrow> distinct xs"
    and cmp_antisym: "good xs \<Longrightarrow> a \<in> set xs \<Longrightarrow> b \<in> set xs \<Longrightarrow> cmp b a < 0 \<longleftrightarrow> 0 < cmp a b"
    and cmp_trans: "good xs \<Longrightarrow> a \<in> set xs \<Longrightarrow> b \<in> set xs \<Longrightarrow> c \<in> set xs \<Longrightarrow>
      cmp a b < 0 \<Longrightarrow> cmp b c < 0 \<Longrightarrow> cmp a c < 0"
    and cmp_total: "good xs \<Longrightarrow> a \<in> set xs \<Longrightarrow> b \<in> set xs \<Longrightarrow> a \<noteq> b \<Longrightarrow> cmp a b \<noteq> 0"
begin

lemma good_strict_order: "good xs \<Longrightarrow> strict_order cmp xs"
  unfolding strict_order_def list_all_iff
  by (intro conjI ballI impI) (erule good_distinct cmp_antisym cmp_total cmp_trans; assumption)+

text \<open>The first element of the sorted list that satisfies a condition is the best one that does.\<close>

lemma first_satisfying_best:
  assumes "sort_ok srt" and "good xs" and "List.find P (srt cmp xs) = Some g" and "r \<in> set xs" and "P r"
  shows "r = g \<or> cmp g r < 0"
proof -
  let ?ys = "srt cmp xs"
  have sorted: "sorted_wrt (\<lambda>a b. cmp a b < 0) ?ys" and "mset ?ys = mset xs"
    using assms(1) good_strict_order [OF assms(2)] by (auto simp: sort_ok_def)
  then have "r \<in> set ?ys" using assms(4) by (metis mset_eq_setD)
  obtain i where i: "i < length ?ys" "g = ?ys ! i" "\<And>k. k < i \<Longrightarrow> \<not> P (?ys ! k)"
    using assms(3) by (auto simp: find_Some_iff)
  obtain j where j: "j < length ?ys" "r = ?ys ! j" using \<open>r \<in> set ?ys\<close> by (auto simp: in_set_conv_nth)
  have "\<not> j < i" using i(3) j assms(5) by auto
  then consider "i = j" | "i < j" by linarith
  then show ?thesis using sorted i j by cases (auto simp: sorted_wrt_iff_nth_less)
qed

end

section \<open>Files without conflicts\<close>

definition conflict_free :: "fileRow list \<Rightarrow> bool" where
  "conflict_free es \<longleftrightarrow> distinct (map DeviceIdx es) \<and> list_all (\<lambda>e. wf_vector (rVersion e)) es \<and>
     list_all (\<lambda>e. list_all (\<lambda>e'. \<not> Concurrent (rVersion e) (rVersion e')) es) es"

lemma CompareWithAncestor_flip:
  "CompareWithAncestor b a anc lww = - CompareWithAncestor a b anc lww"
proof -
  have vc: "Compare (rVersion b) (rVersion a) = flip_ordering (Compare (rVersion a) (rVersion b))"
    by (rule Compare_flip)
  show ?thesis
    unfolding CompareWithAncestor_def Let_def vc
    using compareLWW_flip [of b a anc] cmp_Compare_flip [of "rModified b" "rModified a"]
      cmp_Compare_flip [of "DeviceIdx b" "DeviceIdx a"]
    by (cases "Compare (rVersion a) (rVersion b)") (simp_all split: if_splits)
qed

lemma better_conflict_free:
  assumes "\<not> Concurrent (rVersion a) (rVersion b)"
  shows "CompareWithAncestor a b anc lww < 0 \<longleftrightarrow>
    Compare (rVersion a) (rVersion b) = Greater \<or>
    Compare (rVersion a) (rVersion b) = Equal \<and>
      (\<not> Row_IsInvalid a \<and> Row_IsInvalid b \<or> Row_IsInvalid a = Row_IsInvalid b \<and> DeviceIdx a < DeviceIdx b)"
  using assms
  by (cases "Compare (rVersion a) (rVersion b)")
     (auto simp: CompareWithAncestor_def Concurrent_def cmp_Compare_neg)

lemma Compare_Equal_left:
  assumes "wf_vector a" and "wf_vector b" and "wf_vector c" and "Compare a b = Equal"
  shows "Compare a c = Compare b c"
proof -
  have "Counter a = Counter b" using assms vv.cmp_Equal_iff by blast
  then show ?thesis using assms(1-3) by (simp only: Compare_wf)
qed

lemma Compare_Equal_right:
  assumes "wf_vector a" and "wf_vector b" and "wf_vector c" and "Compare b c = Equal"
  shows "Compare a b = Compare a c"
proof -
  have "Counter b = Counter c" using assms vv.cmp_Equal_iff by blast
  then show ?thesis using assms(1-3) by (simp only: Compare_wf)
qed

interpretation rows: comparator_on "\<lambda>a b. CompareWithAncestor a b anc lww" conflict_free for anc lww
proof
  fix xs :: "fileRow list"
  assume good: "conflict_free xs"
  show "distinct xs" using good by (simp add: conflict_free_def distinct_map)
  fix a b
  assume ab: "a \<in> set xs" "b \<in> set xs"
  show "(CompareWithAncestor b a anc lww < 0) = (0 < CompareWithAncestor a b anc lww)"
    using CompareWithAncestor_flip [of b a anc lww] by simp
  have nc: "\<And>x y. x \<in> set xs \<Longrightarrow> y \<in> set xs \<Longrightarrow> \<not> Concurrent (rVersion x) (rVersion y) \<and> wf_vector (rVersion x)"
    using good by (auto simp: conflict_free_def list_all_iff)
  show "a \<noteq> b \<Longrightarrow> CompareWithAncestor a b anc lww \<noteq> 0"
  proof -
    assume "a \<noteq> b"
    then have "DeviceIdx a \<noteq> DeviceIdx b" using good ab by (auto simp: conflict_free_def distinct_map inj_on_def)
    then show ?thesis using nc [OF ab]
      by (cases "Compare (rVersion a) (rVersion b)") (auto simp: CompareWithAncestor_def Concurrent_def)
  qed
  fix c
  assume c: "c \<in> set xs" and less: "CompareWithAncestor a b anc lww < 0" "CompareWithAncestor b c anc lww < 0"
  have wf: "wf_vector (rVersion a)" "wf_vector (rVersion b)" "wf_vector (rVersion c)" using nc ab c by blast+
  note better = better_conflict_free [of a b] better_conflict_free [of b c] better_conflict_free [of a c]
  show "CompareWithAncestor a c anc lww < 0"
    using less better nc ab c vv.cmp_Greater_trans [OF wf]
      Compare_Equal_left [OF wf] Compare_Equal_right [OF wf]
    by auto
qed

section \<open>Properties\<close>

text \<open>The order on the rows is antisymmetric, with and without the last-writer-wins order and
  for every ancestor: the better of two rows does not depend on which is asked.\<close>

theorem row_compare_antisymmetric:
  "CompareWithAncestor other e ancestor useLWW = - CompareWithAncestor e other ancestor useLWW"
  by (rule CompareWithAncestor_flip)

definition UnixNano :: "gotime \<Rightarrow> int" where
  "UnixNano t = int64 ((fst t - unixToInternal) * 1000000000 + snd t)"

definition in_nano_range :: "gotime \<Rightarrow> bool" where
  "in_nano_range t \<longleftrightarrow> 0 \<le> snd t \<and> snd t < 1000000000 \<and>
     - (2 ^ 63) \<le> (fst t - unixToInternal) * 1000000000 + snd t \<and>
     (fst t - unixToInternal) * 1000000000 + snd t < 2 ^ 63"

lemma UnixNano_after:
  assumes "in_nano_range t" and "in_nano_range u"
  shows "UnixNano u < UnixNano t \<longleftrightarrow> time_After t u" and "UnixNano t < UnixNano u \<longleftrightarrow> time_Before t u"
proof -
  have "UnixNano t = (fst t - unixToInternal) * 1000000000 + snd t"
      "UnixNano u = (fst u - unixToInternal) * 1000000000 + snd u"
    using assms by (simp_all add: UnixNano_def in_nano_range_def int64_id)
  then show "UnixNano u < UnixNano t \<longleftrightarrow> time_After t u" and "UnixNano t < UnixNano u \<longleftrightarrow> time_Before t u"
    using assms by (auto simp: time_After_def time_Before_def in_nano_range_def)
qed

text \<open>The database and the protocol package agree on conflicts: for files with concurrent
  versions and times a 64-bit nanosecond count can hold, the row of a file is better than another
  one exactly when the file wins the conflict.\<close>

theorem database_agrees_with_WinsConflict:
  assumes "Concurrent (Version f) (Version g)" and "in_nano_range (ModTime f)" and "in_nano_range (ModTime g)"
    and "rVersion a = Version f" and "rLocalFlags a = LocalFlags f" and "rModified a = UnixNano (ModTime f)"
    and "rVersion b = Version g" and "rLocalFlags b = LocalFlags g" and "rModified b = UnixNano (ModTime g)"
  shows "Row_Compare a b < 0 \<longleftrightarrow> WinsConflict f g"
proof -
  have inv: "Row_IsInvalid a = IsInvalid f" "Row_IsInvalid b = IsInvalid g"
    using assms by (simp_all add: Row_IsInvalid_def IsInvalid_def)
  show ?thesis
    using assms(1) UnixNano_after [OF assms(2, 3)]
    by (auto simp: Row_Compare_def CompareWithAncestor_def WinsConflict_def inv assms(4, 6, 7, 9) cmp_Compare_def
        Concurrent_def)
qed

text \<open>The order is not transitive on files in conflict: a version that is newer than another
  but has an older modification time, and a third, concurrent version with a time in between,
  form a cycle, so sorting them gives a result that depends on the order of the rows.\<close>

theorem three_way_conflict_cycles:
  assumes "Compare (rVersion a) (rVersion b) = Greater" and "Concurrent (rVersion b) (rVersion c)"
    and "Concurrent (rVersion c) (rVersion a)"
    and "\<not> Row_IsInvalid a" and "\<not> Row_IsInvalid b" and "\<not> Row_IsInvalid c"
    and "rModified a < rModified c" and "rModified c < rModified b"
  shows "Row_Compare a b < 0 \<and> Row_Compare b c < 0 \<and> Row_Compare c a < 0"
  using assms by (auto simp: Row_Compare_def CompareWithAncestor_def Concurrent_def cmp_Compare_def)

text \<open>With the last-writer-wins order, a conflict between two different files with the same
  modification time is decided by the index of the device.  Every device gives itself the lowest
  index, so each of two devices keeps its own file as the global version.\<close>

theorem lww_equal_times_never_converge:
  assumes "Concurrent (rVersion x) (rVersion y)" and "Row_IsInvalid x = Row_IsInvalid y" and "\<not> rDeleted x" and "\<not> rDeleted y"
    and "rModified x = rModified y" and "rowMatchesAncestor x ancestor = rowMatchesAncestor y ancestor"
    and "mine < theirs"
  shows "CompareWithAncestor (x\<lparr>DeviceIdx := mine\<rparr>) (y\<lparr>DeviceIdx := theirs\<rparr>) ancestor True < 0 \<and>
    CompareWithAncestor (y\<lparr>DeviceIdx := mine\<rparr>) (x\<lparr>DeviceIdx := theirs\<rparr>) ancestor True < 0"
proof -
  have "rowMatchesAncestor (e\<lparr>DeviceIdx := i\<rparr>) ancestor = rowMatchesAncestor e ancestor" for e :: fileRow and i
    by (simp add: rowMatchesAncestor_def split: option.splits)
  moreover have "Concurrent (rVersion y) (rVersion x)"
    using assms(1) Compare_flip [of "rVersion x" "rVersion y"] by (auto simp: Concurrent_def)
  ultimately show ?thesis
    using assms by (auto simp: CompareWithAncestor_def compareLWWAncestor_def Let_def Row_IsInvalid_def
        cmp_Compare_def Concurrent_def rowsEqualByAncestorMetadata_def)
qed

text \<open>Sample rows of one file on three devices.\<close>

definition sample_row :: "int \<Rightarrow> counter list \<Rightarrow> int \<Rightarrow> fileRow" where
  "sample_row dev cs modified =
     \<lparr>rName = ''a'', rVersion = \<lparr>Counters = cs\<rparr>, rVersionText = dbVector_Value \<lparr>Counters = cs\<rparr>, DeviceIdx = dev, rSequence = dev, rRemoteSequence = None,
      rType = FileInfoTypeFile, rModified = modified, rSize = 1, BlocklistHash = [], rLocalFlags = 0, rDeleted = False\<rparr>"

definition row_a :: fileRow where "row_a = sample_row 1 [mk_counter 1 2] 10"
definition row_b :: fileRow where "row_b = sample_row 2 [mk_counter 1 1] 30"
definition row_c :: fileRow where "row_c = sample_row 3 [mk_counter 2 1] 20"

lemmas row_samples = row_a_def row_b_def row_c_def sample_row_def

lemma sample_versions:
  "Compare (rVersion row_a) (rVersion row_b) = Greater" "Compare (rVersion row_b) (rVersion row_c) = ConcurrentGreater"
  "Compare (rVersion row_c) (rVersion row_a) = ConcurrentLesser"
  by code_simp+

lemma sample_valid: "\<not> Row_IsInvalid row_a" "\<not> Row_IsInvalid row_b" "\<not> Row_IsInvalid row_c"
  by (simp_all add: row_samples Row_IsInvalid_def Flag_IsInvalid_def)

theorem three_way_conflict_cycles_witness:
  "Row_Compare row_a row_b < 0 \<and> Row_Compare row_b row_c < 0 \<and> Row_Compare row_c row_a < 0"
  by (rule three_way_conflict_cycles)
     (use sample_versions sample_valid in \<open>simp_all add: Concurrent_def row_samples\<close>)

theorem lww_equal_times_never_converge_witness:
  "CompareWithAncestor ((row_b\<lparr>rModified := 5\<rparr>)\<lparr>DeviceIdx := 1\<rparr>) ((row_c\<lparr>rModified := 5\<rparr>)\<lparr>DeviceIdx := 2\<rparr>) None True < 0 \<and>
   CompareWithAncestor ((row_c\<lparr>rModified := 5\<rparr>)\<lparr>DeviceIdx := 1\<rparr>) ((row_b\<lparr>rModified := 5\<rparr>)\<lparr>DeviceIdx := 2\<rparr>) None True < 0"
  by (rule lww_equal_times_never_converge)
     (use sample_versions in \<open>simp_all add: Concurrent_def rowMatchesAncestor_def row_samples Row_IsInvalid_def\<close>)

theorem database_agrees_with_WinsConflict_witness:
  "Row_Compare (row_b\<lparr>rModified := 5\<rparr>) row_c < 0 \<longleftrightarrow>
   WinsConflict (sample_file\<lparr>Version := rVersion row_b, LocalFlags := 0, ModifiedS := 0, ModifiedNs := 5\<rparr>)
     (sample_file\<lparr>Version := rVersion row_c, LocalFlags := 0, ModifiedS := 0, ModifiedNs := 20\<rparr>)"
proof (rule database_agrees_with_WinsConflict)
  have "int64 62135596800 = 62135596800" "int64 5 = 5" "int64 20 = 20" by (simp_all add: int64_id)
  then show "in_nano_range (ModTime (sample_file\<lparr>Version := rVersion row_b, LocalFlags := 0, ModifiedS := 0, ModifiedNs := 5\<rparr>))"
    "in_nano_range (ModTime (sample_file\<lparr>Version := rVersion row_c, LocalFlags := 0, ModifiedS := 0, ModifiedNs := 20\<rparr>))"
    "rModified (row_b\<lparr>rModified := 5\<rparr>) =
      UnixNano (ModTime (sample_file\<lparr>Version := rVersion row_b, LocalFlags := 0, ModifiedS := 0, ModifiedNs := 5\<rparr>))"
    "rModified row_c =
      UnixNano (ModTime (sample_file\<lparr>Version := rVersion row_c, LocalFlags := 0, ModifiedS := 0, ModifiedNs := 20\<rparr>))"
    by (simp_all add: in_nano_range_def ModTime_def time_Unix_def unixToInternal_def UnixNano_def row_samples)
qed (use sample_versions in \<open>simp_all add: Concurrent_def row_samples\<close>)

end
