(* ===== verification/Folder_DB.thy ===== *)
theory Folder_DB
  imports Row_Order BEP_Messages
begin

unbundle bit_operations_syntax

text \<open>
  The database of a folder, \<^verbatim>\<open>internal/db/sqlite/folderdb_update.go\<close>,
  \<^verbatim>\<open>folderdb_ancestor.go\<close>, \<^verbatim>\<open>folderdb_indexid.go\<close>,
  \<^verbatim>\<open>folderdb_local.go\<close> and the schema they run on.

  A table is a list of rows or a map on its primary key; a statement is the function of the tables
  it denotes, its conflict clauses, cascades and triggers included.  Names and versions are kept in
  the rows instead of being interned.  A transaction that returns an error leaves the tables as
  they were.  Marshalled file infos and block lists are kept as the messages they encode.
  Statements run under the update lock, so the operations are functions on the state.
\<close>

section \<open>Tables\<close>

record block_row =
  kHash :: bytes
  kBlocklistHash :: bytes
  kIdx :: nat
  kOffset :: int
  kSize :: int

text \<open>A row of the table \<open>counts\<close>, as it is read into \<open>countsRow\<close>; the table keeps it with its device.\<close>

record countsRow =
  cType :: FileInfoType
  Count :: int
  cSize :: int
  cDeleted :: bool
  cLocalFlags :: uint32

record folder_db =
  devices :: "(bytes \<times> int) list"
  nextDevice :: int
  rows :: "fileRow list"
  countsTable :: "(int \<times> countsRow) list"
  nextSequence :: int
  fileinfos :: "int \<Rightarrow> bep_file_info option"
  blocklists :: "bytes \<Rightarrow> bep_block_info list option"
  block_index :: "block_row list"
  indexids :: "int \<Rightarrow> (string \<times> int) option"
  ancestors :: "string \<Rightarrow> AncestorEntry option"
  useLWWReconciler :: bool
  localDeviceIdx :: int

text \<open>What the code takes from outside: the forms of names, SHA-256, sorting and the clock.\<close>

record db_env =
  NormalizedFilename :: "string \<Rightarrow> string"
  NativeFilename :: "string \<Rightarrow> string"
  Sha256 :: "bytes \<Rightarrow> bytes"
  SortFunc :: "fileRow sorter"
  Now :: int

datatype db_error = DuplicateRemoteSequence int

definition rows_of :: "folder_db \<Rightarrow> string \<Rightarrow> fileRow list" where
  "rows_of db name = filter (\<lambda>r. rName r = name) (rows db)"

definition deviceIdxLocked :: "bytes \<Rightarrow> folder_db \<Rightarrow> int \<times> folder_db" where
  "deviceIdxLocked dev db =
     (case map_of (devices db) dev of
        Some idx \<Rightarrow> (idx, db)
      | None \<Rightarrow> (nextDevice db,
          db\<lparr>devices := devices db @ [(dev, nextDevice db)], nextDevice := nextDevice db + 1\<rparr>))"

text \<open>
  The triggers that keep the table \<open>counts\<close>: its rows are found by device, type, flags and deletion,
  their primary key.  A group whose last file goes stays in the table with a count of zero.
\<close>

definition counts_match :: "fileRow \<Rightarrow> int \<times> countsRow \<Rightarrow> bool" where
  "counts_match r e \<longleftrightarrow> fst e = DeviceIdx r \<and> cType (snd e) = rType r \<and> cLocalFlags (snd e) = rLocalFlags r \<and>
     cDeleted (snd e) = rDeleted r"

definition counts_add :: "int \<Rightarrow> fileRow \<Rightarrow> int \<times> countsRow \<Rightarrow> int \<times> countsRow" where
  "counts_add n r e =
     (if counts_match r e
      then (fst e, (snd e)\<lparr>Count := Count (snd e) + n, cSize := cSize (snd e) + n * rSize r\<rparr>) else e)"

definition counts_insert :: "fileRow \<Rightarrow> (int \<times> countsRow) list \<Rightarrow> (int \<times> countsRow) list" where
  "counts_insert new tab =
     (if list_ex (counts_match new) tab then map (counts_add 1 new) tab
      else tab @ [(DeviceIdx new, \<lparr>cType = rType new, Count = 1, cSize = rSize new, cDeleted = rDeleted new,
                                  cLocalFlags = rLocalFlags new\<rparr>)])"

definition counts_delete :: "fileRow \<Rightarrow> (int \<times> countsRow) list \<Rightarrow> (int \<times> countsRow) list" where
  "counts_delete old tab = map (counts_add (- 1) old) tab"

definition counts_update :: "fileRow \<Rightarrow> fileRow \<Rightarrow> (int \<times> countsRow) list \<Rightarrow> (int \<times> countsRow) list" where
  "counts_update old new tab =
     (if rLocalFlags new \<noteq> rLocalFlags old then counts_delete old (counts_insert new tab) else tab)"

text \<open>Deleting rows cascades to their file infos; the trigger runs for each of them.\<close>

definition delete_rows :: "(fileRow \<Rightarrow> bool) \<Rightarrow> folder_db \<Rightarrow> folder_db" where
  "delete_rows P db =
     db\<lparr>rows := filter (\<lambda>r. \<not> P r) (rows db),
        countsTable := fold counts_delete (filter P (rows db)) (countsTable db),
        fileinfos := (\<lambda>s. if list_ex (\<lambda>r. P r \<and> rSequence r = s) (rows db) then None else fileinfos db s)\<rparr>"

text \<open>
  \<open>INSERT OR REPLACE INTO files ... RETURNING sequence\<close>: rows of the same device with the same name,
  or with the same remote sequence number, are replaced; the trigger records the sequence number.
\<close>

definition replaces :: "fileRow \<Rightarrow> fileRow \<Rightarrow> bool" where
  "replaces new r \<longleftrightarrow> DeviceIdx r = DeviceIdx new \<and>
     (rName r = rName new \<or> rRemoteSequence new \<noteq> None \<and> rRemoteSequence r = rRemoteSequence new)"

definition insert_row :: "fileRow \<Rightarrow> folder_db \<Rightarrow> int \<times> folder_db" where
  "insert_row new db =
     (let sq = nextSequence db;
          row = new\<lparr>rSequence := sq\<rparr>;
          dev = DeviceIdx new;
          reported = (case rRemoteSequence new of Some s \<Rightarrow> s | None \<Rightarrow> sq);
          db = delete_rows (replaces row) db
      in (sq, db\<lparr>rows := rows db @ [row], countsTable := counts_insert row (countsTable db), nextSequence := sq + 1,
            indexids := (indexids db)(dev \<mapsto> (case indexids db dev of Some (i, _) \<Rightarrow> (i, reported) | None \<Rightarrow> ([], reported)))\<rparr>))"

section \<open>The ancestor store\<close>

definition getAncestorLocked :: "folder_db \<Rightarrow> string \<Rightarrow> AncestorEntry option" where
  "getAncestorLocked db name = ancestors db name"

definition putAncestorLocked :: "int \<Rightarrow> fileRow \<Rightarrow> folder_db \<Rightarrow> folder_db" where
  "putAncestorLocked now row db =
     db\<lparr>ancestors := (ancestors db)(rName row \<mapsto>
          \<lparr>aName = rName row, ModifiedNanos = rModified row, aSize = rSize row,
           aBlocklistHash = BlocklistHash row, aDeleted = rDeleted row, UpdatedNanos = now\<rparr>)\<rparr>"

definition deleteAncestorLocked :: "string \<Rightarrow> folder_db \<Rightarrow> folder_db" where
  "deleteAncestorLocked name db = db\<lparr>ancestors := (ancestors db)(name := None)\<rparr>"

section \<open>Global and need\<close>

fun IndexFunc :: "('a \<Rightarrow> bool) \<Rightarrow> 'a list \<Rightarrow> int" where
  "IndexFunc P [] = - 1"
| "IndexFunc P (x # xs) = (if P x then 0 else let i = IndexFunc P xs in if i < 0 then - 1 else i + 1)"

definition needGlobal :: uint32 where
  "needGlobal = (FlagLocalNeeded OR FlagLocalGlobal)"

text \<open>The two \<open>UPDATE\<close> statements on the flags; the trigger runs for each row that is changed.\<close>

definition update_flags :: "(fileRow \<Rightarrow> fileRow) \<Rightarrow> folder_db \<Rightarrow> folder_db" where
  "update_flags f db = db\<lparr>rows := map f (rows db), countsTable := fold (\<lambda>r. counts_update r (f r)) (rows db) (countsTable db)\<rparr>"

definition set_flags :: "fileRow \<Rightarrow> uint32 \<Rightarrow> folder_db \<Rightarrow> folder_db" where
  "set_flags g flags =
     update_flags (\<lambda>r. if DeviceIdx r = DeviceIdx g \<and> rSequence r = rSequence g
                       then r\<lparr>rLocalFlags := flags\<rparr> else r)"

definition clear_others :: "fileRow \<Rightarrow> folder_db \<Rightarrow> folder_db" where
  "clear_others g =
     update_flags (\<lambda>r. if rName r = rName g \<and> rSequence r \<noteq> rSequence g \<and> (rLocalFlags r AND needGlobal) \<noteq> 0
                       then r\<lparr>rLocalFlags := rLocalFlags r AND NOT needGlobal\<rparr> else r)"

definition has_local :: "folder_db \<Rightarrow> fileRow list \<Rightarrow> int \<Rightarrow> fileRow \<Rightarrow> bool" where
  "has_local db es globIdx global =
     (let localIdx = IndexFunc (\<lambda>e. DeviceIdx e = localDeviceIdx db) es
      in 0 \<le> localIdx \<and> localIdx \<le> globIdx \<or>
         0 \<le> localIdx \<and> VEqual (rVersion (es ! nat localIdx)) (rVersion global) \<or>
         localIdx < 0 \<and> rDeleted global)"

text \<open>The entries of the file, the global one at the head unless it is invalid.\<close>

definition sorted_rows :: "db_env \<Rightarrow> string \<Rightarrow> folder_db \<Rightarrow> fileRow list" where
  "sorted_rows env file db =
     (let ancestor = (if useLWWReconciler db then getAncestorLocked db file else None)
      in SortFunc env (\<lambda>a b. CompareWithAncestor a b ancestor (useLWWReconciler db)) (rows_of db file))"

definition global_idx :: "fileRow list \<Rightarrow> int" where
  "global_idx es = (let i = IndexFunc (\<lambda>e. \<not> Row_IsInvalid e) es in if i < 0 then 0 else i)"

definition global_row :: "fileRow list \<Rightarrow> fileRow" where
  "global_row es = es ! nat (global_idx es)"

definition global_flags :: "folder_db \<Rightarrow> fileRow list \<Rightarrow> uint32" where
  "global_flags db es =
     (let flags = (rLocalFlags (global_row es) OR FlagLocalGlobal)
      in if has_local db es (global_idx es) (global_row es) \<or> Flag_IsInvalid flags
         then flags AND NOT FlagLocalNeeded
         else flags OR FlagLocalNeeded)"

definition update_ancestor :: "int \<Rightarrow> fileRow list \<Rightarrow> folder_db \<Rightarrow> folder_db" where
  "update_ancestor now es db =
     (let global = global_row es;
          localIdx = IndexFunc (\<lambda>e. DeviceIdx e = localDeviceIdx db) es;
          localHasGlobalVersion = (0 \<le> localIdx \<and> VEqual (rVersion (es ! nat localIdx)) (rVersion global));
          remoteHasGlobalVersion =
            list_ex (\<lambda>e. DeviceIdx e \<noteq> localDeviceIdx db \<and> VEqual (rVersion e) (rVersion global)) es
      in if useLWWReconciler db then
           (if localHasGlobalVersion \<and> remoteHasGlobalVersion then putAncestorLocked now global db
            else if rDeleted global \<and> localIdx < 0 \<and> remoteHasGlobalVersion
            then deleteAncestorLocked (rName global) db
            else db)
         else db)"

definition recalcGlobalForFile :: "db_env \<Rightarrow> string \<Rightarrow> folder_db \<Rightarrow> folder_db" where
  "recalcGlobalForFile env file db =
     (if rows_of db file = [] then db
      else
        let es = sorted_rows env file db
        in update_ancestor (Now env) es
             (clear_others (global_row es) (set_flags (global_row es) (global_flags db es) db)))"

fun recalc_names :: "db_env \<Rightarrow> string list \<Rightarrow> folder_db \<Rightarrow> folder_db" where
  "recalc_names env [] db = db"
| "recalc_names env (name # names) db = recalc_names env names (recalcGlobalForFile env name db)"

definition is_global :: "fileRow \<Rightarrow> bool" where
  "is_global r \<longleftrightarrow> (rLocalFlags r AND FlagLocalGlobal) \<noteq> 0"

definition is_needed :: "fileRow \<Rightarrow> bool" where
  "is_needed r \<longleftrightarrow> (rLocalFlags r AND FlagLocalNeeded) \<noteq> 0"

text \<open>The names selected by the query: those with rows but without a global one.\<close>

definition names_without_global :: "folder_db \<Rightarrow> string list" where
  "names_without_global db =
     remdups (map rName (filter (\<lambda>f. \<not> list_ex (\<lambda>g. rName g = rName f \<and> is_global g) (rows db)) (rows db)))"

definition recalcGlobalForFolder :: "db_env \<Rightarrow> folder_db \<Rightarrow> folder_db" where
  "recalcGlobalForFolder env db = recalc_names env (names_without_global db) db"

definition recalcAllGlobalsForFolder :: "db_env \<Rightarrow> folder_db \<Rightarrow> folder_db" where
  "recalcAllGlobalsForFolder env db = recalc_names env (remdups (map rName (rows db))) db"

section \<open>Updates\<close>

text \<open>The rows of the block index for one block list; rows that exist are left alone.\<close>

definition block_rows :: "bytes \<Rightarrow> BlockInfo list \<Rightarrow> block_row list" where
  "block_rows h blocks =
     map (\<lambda>(i, b). \<lparr>kHash = Hash b, kBlocklistHash = h, kIdx = i, kOffset = Offset b, kSize = BSize b\<rparr>)
       (enumerate 0 blocks)"

definition block_key :: "block_row \<Rightarrow> bytes \<times> bytes \<times> nat" where
  "block_key k = (kHash k, kBlocklistHash k, kIdx k)"

fun insert_or_ignore :: "block_row list \<Rightarrow> block_row list \<Rightarrow> block_row list" where
  "insert_or_ignore old [] = old"
| "insert_or_ignore old (k # ks) =
     insert_or_ignore (if block_key k \<in> set (map block_key old) then old else old @ [k]) ks"

definition insertBlocksLocked :: "bytes \<Rightarrow> BlockInfo list \<Rightarrow> folder_db \<Rightarrow> folder_db" where
  "insertBlocksLocked h blocks db = db\<lparr>block_index := insert_or_ignore (block_index db) (block_rows h blocks)\<rparr>"

definition prepare_file :: "db_env \<Rightarrow> FileInfo \<Rightarrow> FileInfo" where
  "prepare_file env f =
     (let f = f\<lparr>Name := NormalizedFilename env (Name f),
                BlocksHash := (if 0 < length (Blocks f) then BlocksHash_of (Sha256 env) (Blocks f) else [])\<rparr>
      in if Type f = FileInfoTypeDirectory then f\<lparr>Size := 128\<rparr> else f)"

definition row_of_file :: "int \<Rightarrow> int option \<Rightarrow> FileInfo \<Rightarrow> fileRow" where
  "row_of_file deviceIdx remoteSeq f =
     \<lparr>rName = Name f, rVersion = sort_counters (Version f), rVersionText = dbVector_Value (Version f), DeviceIdx = deviceIdx, rSequence = 0, rRemoteSequence = remoteSeq,
      rType = Type f, rModified = UnixNano (ModTime f), rSize = Size f, BlocklistHash = BlocksHash f,
      rLocalFlags = LocalFlags f, rDeleted = IsDeleted f\<rparr>"

text \<open>The block list is stored once per hash; the blocks of local files go into the index, too.\<close>

definition store_blocks :: "bool \<Rightarrow> bool \<Rightarrow> FileInfo \<Rightarrow> folder_db \<Rightarrow> folder_db" where
  "store_blocks isLocal skipBlockIndex f db =
     (if 0 < length (Blocks f) then
        let db = (case blocklists db (BlocksHash f) of
                    None \<Rightarrow> db\<lparr>blocklists := (blocklists db)(BlocksHash f \<mapsto> map Block_ToWire (Blocks f))\<rparr>
                  | Some _ \<Rightarrow> db)
        in if isLocal \<and> \<not> skipBlockIndex then insertBlocksLocked (BlocksHash f) (Blocks f) db else db
      else db)"

text \<open>
  The body of the loop of \<open>Update\<close>; \<open>isLocal\<close> says whether the device is the local one.  Writing the
  file info panics for a truncated one.
\<close>

definition update_file :: "db_env \<Rightarrow> bool \<Rightarrow> bool \<Rightarrow> int \<Rightarrow> FileInfo \<Rightarrow> folder_db \<Rightarrow> (db_error, folder_db) outcome" where
  "update_file env isLocal skipBlockIndex deviceIdx f db =
     (let f = prepare_file env f;
          remoteSeq = (if isLocal then None else Some (Sequence f));
          ins = insert_row (row_of_file deviceIdx remoteSeq f) db;
          localSeq = fst ins;
          db = store_blocks isLocal skipBlockIndex f (snd ins);
          f = f\<lparr>Blocks := []\<rparr>;
          f = (if isLocal then f\<lparr>Sequence := localSeq\<rparr> else f)
      in obind (FileInfo_ToWire True f) (\<lambda>w.
           Ok (recalcGlobalForFile env (Name f) (db\<lparr>fileinfos := (fileinfos db)(localSeq \<mapsto> w)\<rparr>))))"

fun update_loop ::
  "db_env \<Rightarrow> bool \<Rightarrow> bool \<Rightarrow> int \<Rightarrow> int option \<Rightarrow> FileInfo list \<Rightarrow> folder_db \<Rightarrow> (db_error, folder_db) outcome" where
  "update_loop env isLocal skip deviceIdx prev [] db = Ok db"
| "update_loop env isLocal skip deviceIdx prev (f # fs) db =
     (if \<not> isLocal \<and> prev = Some (Sequence f) then Err (DuplicateRemoteSequence (Sequence f))
      else obind (update_file env isLocal skip deviceIdx f db) (\<lambda>db.
             update_loop env isLocal skip deviceIdx (Some (Sequence f)) fs db))"

definition Update :: "db_env \<Rightarrow> bytes \<Rightarrow> FileInfo list \<Rightarrow> bool \<Rightarrow> folder_db \<Rightarrow> (db_error, folder_db) outcome" where
  "Update env device fs skipBlockIndex db =
     (case deviceIdxLocked device db of
        (deviceIdx, db) \<Rightarrow> update_loop env (device = LocalDeviceID) skipBlockIndex deviceIdx None fs db)"

section \<open>Dropping\<close>

definition DropDevice :: "db_env \<Rightarrow> bytes \<Rightarrow> folder_db \<Rightarrow> (db_error, folder_db) outcome" where
  "DropDevice env device db =
     (if device = LocalDeviceID then Panic
      else
        Ok (recalcGlobalForFolder env
             (case map_of (devices db) device of
                None \<Rightarrow> db
              | Some idx \<Rightarrow>
                  let del = delete_rows (\<lambda>r. DeviceIdx r = idx) db
                  in del\<lparr>devices := filter (\<lambda>(d, i). d \<noteq> device) (devices db),
                       countsTable := filter (\<lambda>e. fst e \<noteq> idx) (countsTable del), indexids := (indexids db)(idx := None)\<rparr>)))"

definition DropAllFiles :: "db_env \<Rightarrow> bytes \<Rightarrow> folder_db \<Rightarrow> folder_db" where
  "DropAllFiles env device db =
     (case deviceIdxLocked device db of
        (idx, db) \<Rightarrow>
          let db = db\<lparr>indexids := (indexids db)(idx := map_option (\<lambda>(i, _). (i, 0)) (indexids db idx))\<rparr>
          in if list_ex (\<lambda>r. DeviceIdx r = idx) (rows db)
             then recalcGlobalForFolder env (delete_rows (\<lambda>r. DeviceIdx r = idx) db)
             else db)"

text \<open>An empty list of names is refused when the query is built; the tables stay as they are, too.\<close>

definition DropFilesNamed :: "db_env \<Rightarrow> bytes \<Rightarrow> string list \<Rightarrow> folder_db \<Rightarrow> folder_db" where
  "DropFilesNamed env device names db =
     (let names = map (NormalizedFilename env) names
      in case deviceIdxLocked device db of
           (idx, db) \<Rightarrow>
             recalc_names env names (delete_rows (\<lambda>r. DeviceIdx r = idx \<and> rName r \<in> set names) db))"

text \<open>
  The periodic maintenance forgets old deletions that need no work; the global flags are not
  calculated again, so that a name can be left without a global record.
\<close>

definition collectable :: "int \<Rightarrow> fileRow \<Rightarrow> bool" where
  "collectable before r \<longleftrightarrow> rDeleted r \<and> rModified r < before \<and> (rLocalFlags r AND FlagLocalNeeded) = 0"

definition garbageCollectOldDeletedLocked :: "int \<Rightarrow> int \<Rightarrow> folder_db \<Rightarrow> folder_db" where
  "garbageCollectOldDeletedLocked deleteRetention now db =
     (if deleteRetention \<le> 0 then db else delete_rows (collectable (now - deleteRetention)) db)"

definition DropBlockIndex :: "folder_db \<Rightarrow> folder_db" where
  "DropBlockIndex db = (if block_index db = [] then db else db\<lparr>block_index := []\<rparr>)"

fun populate :: "fileRow list \<Rightarrow> folder_db \<Rightarrow> folder_db" where
  "populate [] db = db"
| "populate (r # rs) db =
     populate rs
       (if DeviceIdx r = localDeviceIdx db \<and> BlocklistHash r \<noteq> [] then
          (case blocklists db (BlocklistHash r) of
             None \<Rightarrow> db
           | Some bl \<Rightarrow> insertBlocksLocked (BlocklistHash r) (map BlockInfoFromWire bl) db)
        else db)"

definition PopulateBlockIndex :: "folder_db \<Rightarrow> folder_db" where
  "PopulateBlockIndex db = (if block_index db \<noteq> [] then db else populate (rows db) db)"

section \<open>Reading\<close>

text \<open>The file info with its block list joined in, as \<open>indirectFI.FileInfo\<close> builds it.\<close>

definition indirectFI_FileInfo :: "db_env \<Rightarrow> bep_file_info \<Rightarrow> bep_block_info list option \<Rightarrow> FileInfo" where
  "indirectFI_FileInfo env fi bl =
     (let fi = (case bl of None \<Rightarrow> fi | Some bs \<Rightarrow> if bs = [] then fi else fi\<lparr>wBlocks := bs\<rparr>)
      in FileInfoFromDB (fi\<lparr>wName := NativeFilename env (wName fi)\<rparr>))"

definition row_FileInfo :: "db_env \<Rightarrow> folder_db \<Rightarrow> fileRow \<Rightarrow> FileInfo option" where
  "row_FileInfo env db r =
     (case fileinfos db (rSequence r) of
        None \<Rightarrow> None
      | Some w \<Rightarrow>
          Some (indirectFI_FileInfo env w (if BlocklistHash r = [] then None else blocklists db (BlocklistHash r))))"

definition GetDeviceFile :: "db_env \<Rightarrow> bytes \<Rightarrow> string \<Rightarrow> folder_db \<Rightarrow> FileInfo option" where
  "GetDeviceFile env device file db =
     (case map_of (devices db) device of
        None \<Rightarrow> None
      | Some idx \<Rightarrow>
          (case List.find (\<lambda>r. DeviceIdx r = idx \<and> rName r = NormalizedFilename env file) (rows db) of
             None \<Rightarrow> None
           | Some r \<Rightarrow> row_FileInfo env db r))"

definition GetDeviceSequence :: "bytes \<Rightarrow> folder_db \<Rightarrow> int" where
  "GetDeviceSequence device db =
     (case map_of (devices db) device of
        None \<Rightarrow> 0
      | Some idx \<Rightarrow> (case indexids db idx of None \<Rightarrow> 0 | Some (_, s) \<Rightarrow> s))"

definition indexIDToHex :: "uint64 \<Rightarrow> string" where
  "indexIDToHex i = hex_encode (IndexID_Marshal i)"

definition SetIndexID :: "bytes \<Rightarrow> uint64 \<Rightarrow> folder_db \<Rightarrow> folder_db" where
  "SetIndexID device i db =
     (case deviceIdxLocked device db of (idx, db) \<Rightarrow> db\<lparr>indexids := (indexids db)(idx \<mapsto> (indexIDToHex i, 0))\<rparr>)"

definition DropAllIndexIDs :: "folder_db \<Rightarrow> folder_db" where
  "DropAllIndexIDs db = db\<lparr>indexids := Map.empty\<rparr>"

section \<open>Flags\<close>

lemma is_global_bit: "is_global r \<longleftrightarrow> bit (rLocalFlags r) 4"
  by (simp add: is_global_def FlagLocalGlobal_def bit_iff_and_push_bit_not_eq_0)

lemma is_needed_bit: "is_needed r \<longleftrightarrow> bit (rLocalFlags r) 5"
  by (simp add: is_needed_def FlagLocalNeeded_def bit_iff_and_push_bit_not_eq_0)

lemma flag_bits:
  "bit FlagLocalGlobal n \<longleftrightarrow> n = 4" "bit FlagLocalNeeded n \<longleftrightarrow> n = 5"
  unfolding FlagLocalGlobal_def FlagLocalNeeded_def bit_push_bit_iff bit_1_iff by auto

lemma needGlobal_bits: "bit needGlobal n \<longleftrightarrow> n = 4 \<or> n = 5"
  by (auto simp: needGlobal_def flag_bits bit_simps)

lemma Flag_IsInvalid_bits:
  "Flag_IsInvalid f \<longleftrightarrow> bit f 0 \<or> bit f 1 \<or> bit f 2 \<or> bit f 3 \<or> bit f 6"
  unfolding Flag_IsInvalid_def LocalInvalidFlags_def bit.conj_disj_distrib or_eq_0_iff
  by (simp add: FlagLocalUnsupported_def FlagLocalIgnored_def FlagLocalMustRescan_def FlagLocalReceiveOnly_def
      FlagLocalRemoteInvalid_def bit_iff_and_push_bit_not_eq_0)

lemma cleared_flags:
  "\<not> bit (x AND NOT needGlobal) 4" "\<not> bit (x AND NOT needGlobal) 5" for x :: uint32
  by (simp_all add: bit_simps needGlobal_bits)

lemma no_needGlobal: "(x AND needGlobal) = 0 \<Longrightarrow> \<not> bit x 4 \<and> \<not> bit x 5" for x :: uint32
proof -
  assume "(x AND needGlobal) = 0"
  then have "\<not> bit (x AND needGlobal) 4" "\<not> bit (x AND needGlobal) 5" by simp_all
  then show ?thesis by (simp add: bit_simps needGlobal_bits)
qed

section \<open>Invariants\<close>

text \<open>The keys of the tables, and one global entry per file.\<close>

definition db_keys :: "folder_db \<Rightarrow> bool" where
  "db_keys db \<longleftrightarrow> distinct (map rSequence (rows db)) \<and> list_all (\<lambda>s. s < nextSequence db) (map rSequence (rows db)) \<and>
     distinct (map (\<lambda>r. (DeviceIdx r, rName r)) (rows db))"

definition file_ok :: "folder_db \<Rightarrow> string \<Rightarrow> bool" where
  "file_ok db name \<longleftrightarrow>
     (rows_of db name \<noteq> [] \<longrightarrow> length (filter is_global (rows_of db name)) = 1) \<and>
     list_all (\<lambda>r. is_needed r \<longrightarrow> is_global r \<and> DeviceIdx r \<noteq> localDeviceIdx db \<and> \<not> Row_IsInvalid r) (rows_of db name)"

text \<open>Without the promise of a global record, which a collection can break.\<close>

definition file_fine :: "folder_db \<Rightarrow> string \<Rightarrow> bool" where
  "file_fine db name \<longleftrightarrow>
     length (filter is_global (rows_of db name)) \<le> 1 \<and>
     list_all (\<lambda>r. is_needed r \<longrightarrow> is_global r \<and> DeviceIdx r \<noteq> localDeviceIdx db \<and> \<not> Row_IsInvalid r) (rows_of db name)"

lemma file_ok_fine: "file_ok db name \<Longrightarrow> file_fine db name"
  by (cases "rows_of db name = []") (auto simp: file_ok_def file_fine_def)

lemma db_keys_cong:
  "map rSequence (rows db) = map rSequence (rows db') \<Longrightarrow> nextSequence db = nextSequence db' \<Longrightarrow>
   map (\<lambda>r. (DeviceIdx r, rName r)) (rows db) = map (\<lambda>r. (DeviceIdx r, rName r)) (rows db') \<Longrightarrow> db_keys db = db_keys db'"
  by (simp only: db_keys_def)

lemma rows_of_set: "r \<in> set (rows_of db name) \<longleftrightarrow> r \<in> set (rows db) \<and> rName r = name"
  by (auto simp: rows_of_def)

lemma length_filter_key:
  "distinct (map k xs) \<Longrightarrow> g \<in> set xs \<Longrightarrow> length (filter (\<lambda>x. k x = k g) xs) = 1"
proof (induction xs)
  case (Cons x xs)
  show ?case
  proof (cases "k x = k g")
    case True
    then have "\<forall>y \<in> set xs. k y \<noteq> k g" using Cons.prems(1) by (metis distinct.simps(2) image_eqI list.set_map list.simps(9))
    then show ?thesis using True by (simp add: filter_empty_conv)
  next
    case False
    then show ?thesis using Cons by auto
  qed
qed simp

lemma distinct_map_filter_rows: "distinct (map k (rows db)) \<Longrightarrow> distinct (map k (rows_of db name))"
  by (simp add: rows_of_def distinct_map_filter)

text \<open>What the two statements do to the rows of the file and to the others.\<close>

definition reflag :: "fileRow \<Rightarrow> uint32 \<Rightarrow> fileRow \<Rightarrow> fileRow" where
  "reflag g flags r =
     (if rSequence r = rSequence g then r\<lparr>rLocalFlags := flags\<rparr>
      else r\<lparr>rLocalFlags := (if (rLocalFlags r AND needGlobal) \<noteq> 0 then rLocalFlags r AND NOT needGlobal
                            else rLocalFlags r)\<rparr>)"

lemma reflag_keys [simp]:
  "rName (reflag g flags r) = rName r" "rSequence (reflag g flags r) = rSequence r"
  "DeviceIdx (reflag g flags r) = DeviceIdx r" "rVersion (reflag g flags r) = rVersion r"
  "rDeleted (reflag g flags r) = rDeleted r" "rRemoteSequence (reflag g flags r) = rRemoteSequence r"
  "BlocklistHash (reflag g flags r) = BlocklistHash r"
  by (simp_all add: reflag_def)

lemma statements_reflag:
  assumes "db_keys db" and "g \<in> set (rows db)"
  shows "rows (clear_others g (set_flags g flags db)) =
    map (\<lambda>r. if rName r = rName g then reflag g flags r else r) (rows db)"
proof -
  have same: "r = g" if "r \<in> set (rows db)" "rSequence r = rSequence g" for r
    using that assms by (auto simp: db_keys_def distinct_map inj_on_def)
  show ?thesis
    unfolding clear_others_def set_flags_def update_flags_def
    by (auto simp: comp_def reflag_def dest: same)
qed

lemma rows_of_reflag:
  assumes "rows db' = map (\<lambda>r. if rName r = file then reflag g flags r else r) (rows db)"
  shows "rows_of db' name = (if name = file then map (reflag g flags) (rows_of db name) else rows_of db name)"
proof -
  have "filter (\<lambda>r. rName r = name) (map (\<lambda>r. if rName r = file then reflag g flags r else r) xs) =
      (if name = file then map (reflag g flags) (filter (\<lambda>r. rName r = name) xs) else filter (\<lambda>r. rName r = name) xs)" for xs
    by (induction xs) auto
  then show ?thesis by (simp add: rows_of_def assms)
qed

text \<open>The row that becomes global is one of the rows of the file.\<close>

lemma IndexFunc_bounds: "IndexFunc P xs < int (length xs)" "- 1 \<le> IndexFunc P xs"
  by (induction xs) (auto simp: Let_def)

lemma IndexFunc_nth: "0 \<le> IndexFunc P xs \<Longrightarrow> P (xs ! nat (IndexFunc P xs))"
  by (induction xs) (auto simp: Let_def nat_add_distrib split: if_splits)

lemma IndexFunc_none: "IndexFunc P xs < 0 \<longleftrightarrow> (\<forall>x \<in> set xs. \<not> P x)"
  by (induction xs) (auto simp: Let_def)

lemma sorted_rows_mset: "sort_ok (SortFunc env) \<Longrightarrow> mset (sorted_rows env file db) = mset (rows_of db file)"
  by (simp add: sorted_rows_def sort_ok_def Let_def)

lemma global_row_in:
  assumes "sort_ok (SortFunc env)" and "rows_of db file \<noteq> []"
  shows "global_row (sorted_rows env file db) \<in> set (rows_of db file)"
proof -
  let ?es = "sorted_rows env file db"
  have "mset ?es = mset (rows_of db file)" by (rule sorted_rows_mset [OF assms(1)])
  then have same: "set ?es = set (rows_of db file)" "?es \<noteq> []"
    using assms(2) by (metis mset_eq_setD, metis mset_zero_iff_right)
  have "nat (global_idx ?es) < length ?es"
    using IndexFunc_bounds(1) [of "\<lambda>e. \<not> Row_IsInvalid e" ?es] same(2) by (auto simp: global_idx_def Let_def)
  then show ?thesis unfolding global_row_def same(1) [symmetric] by (rule nth_mem)
qed

lemma update_ancestor_tables [simp]:
  "rows (update_ancestor now es db) = rows db" "nextSequence (update_ancestor now es db) = nextSequence db"
  "fileinfos (update_ancestor now es db) = fileinfos db" "blocklists (update_ancestor now es db) = blocklists db"
  "devices (update_ancestor now es db) = devices db" "localDeviceIdx (update_ancestor now es db) = localDeviceIdx db"
  by (simp_all add: update_ancestor_def Let_def putAncestorLocked_def deleteAncestorLocked_def)

lemma flags_tables [simp]:
  "nextSequence (clear_others g db) = nextSequence db" "nextSequence (set_flags g flags db) = nextSequence db"
  "fileinfos (clear_others g db) = fileinfos db" "fileinfos (set_flags g flags db) = fileinfos db"
  "blocklists (clear_others g db) = blocklists db" "blocklists (set_flags g flags db) = blocklists db"
  "devices (clear_others g db) = devices db" "devices (set_flags g flags db) = devices db"
  "localDeviceIdx (clear_others g db) = localDeviceIdx db" "localDeviceIdx (set_flags g flags db) = localDeviceIdx db"
  by (simp_all add: clear_others_def set_flags_def update_flags_def)

lemma recalc_tables [simp]:
  "nextSequence (recalcGlobalForFile env file db) = nextSequence db"
  "fileinfos (recalcGlobalForFile env file db) = fileinfos db"
  "block_index (recalcGlobalForFile env file db) = block_index db"
  "blocklists (recalcGlobalForFile env file db) = blocklists db"
  "devices (recalcGlobalForFile env file db) = devices db"
  "nextDevice (recalcGlobalForFile env file db) = nextDevice db"
  "localDeviceIdx (recalcGlobalForFile env file db) = localDeviceIdx db"
  by (simp_all add: recalcGlobalForFile_def update_ancestor_def putAncestorLocked_def deleteAncestorLocked_def
      clear_others_def set_flags_def update_flags_def Let_def)

lemma recalc_rows:
  assumes "sort_ok (SortFunc env)" and "db_keys db" and "rows_of db file \<noteq> []"
  shows "rows (recalcGlobalForFile env file db) =
    map (\<lambda>r. if rName r = file then reflag (global_row (sorted_rows env file db)) (global_flags db (sorted_rows env file db)) r
             else r) (rows db)"
proof -
  have g: "global_row (sorted_rows env file db) \<in> set (rows db)" "rName (global_row (sorted_rows env file db)) = file"
    using global_row_in [OF assms(1, 3)] by (auto simp: rows_of_set)
  show ?thesis
    using statements_reflag [OF assms(2) g(1)] g(2) assms(3) by (simp add: recalcGlobalForFile_def Let_def)
qed

lemma global_flags_bits:
  "bit (global_flags db es) 4"
  "bit (global_flags db es) 5 \<longleftrightarrow> \<not> has_local db es (global_idx es) (global_row es) \<and> \<not> Row_IsInvalid (global_row es)"
proof -
  have inv: "Flag_IsInvalid (rLocalFlags (global_row es) OR FlagLocalGlobal) = Row_IsInvalid (global_row es)"
    by (simp add: Row_IsInvalid_def Flag_IsInvalid_bits bit_simps flag_bits)
  show "bit (global_flags db es) 4"
    by (simp add: global_flags_def Let_def bit_simps flag_bits)
  show "bit (global_flags db es) 5 \<longleftrightarrow> \<not> has_local db es (global_idx es) (global_row es) \<and> \<not> Row_IsInvalid (global_row es)"
    by (auto simp: global_flags_def Let_def inv bit_simps flag_bits)
qed

lemma global_flags_valid: "Flag_IsInvalid (global_flags db es) = Row_IsInvalid (global_row es)"
  by (simp add: global_flags_def Let_def Row_IsInvalid_def Flag_IsInvalid_bits bit_simps flag_bits)

lemma IndexFunc_le: "i < length xs \<Longrightarrow> P (xs ! i) \<Longrightarrow> 0 \<le> IndexFunc P xs \<and> IndexFunc P xs \<le> int i"
proof (induction xs arbitrary: i)
  case (Cons x xs)
  show ?case
  proof (cases i)
    case (Suc n)
    then show ?thesis using Cons.IH [of n] Cons.prems by (auto simp: Let_def)
  qed (use Cons.prems in simp)
qed simp

text \<open>A needed file is not the local one.\<close>

lemma local_not_needed:
  assumes "sort_ok (SortFunc env)" and "rows_of db file \<noteq> []" and "bit (global_flags db (sorted_rows env file db)) 5"
  shows "DeviceIdx (global_row (sorted_rows env file db)) \<noteq> localDeviceIdx db"
proof
  let ?es = "sorted_rows env file db"
  assume local: "DeviceIdx (global_row ?es) = localDeviceIdx db"
  have "mset ?es = mset (rows_of db file)" by (rule sorted_rows_mset [OF assms(1)])
  then have "?es \<noteq> []" using assms(2) by (metis mset_zero_iff_right)
  then have "nat (global_idx ?es) < length ?es" "0 \<le> global_idx ?es"
    using IndexFunc_bounds(1) [of "\<lambda>e. \<not> Row_IsInvalid e" ?es] by (auto simp: global_idx_def Let_def)
  then have "has_local db ?es (global_idx ?es) (global_row ?es)"
    using IndexFunc_le [of "nat (global_idx ?es)" ?es "\<lambda>e. DeviceIdx e = localDeviceIdx db"] local
    by (simp add: has_local_def global_row_def Let_def)
  then show False using assms(3) by (simp add: global_flags_bits(2))
qed

lemma reflag_global:
  "bit flags 4 \<Longrightarrow> is_global (reflag g flags r) \<longleftrightarrow> rSequence r = rSequence g"
  "is_needed (reflag g flags r) \<longleftrightarrow> rSequence r = rSequence g \<and> bit flags 5"
  using no_needGlobal [of "rLocalFlags r"] cleared_flags [of "rLocalFlags r"]
  by (auto simp: is_global_bit is_needed_bit reflag_def)

lemma recalc_file_ok:
  assumes "sort_ok (SortFunc env)" and "db_keys db"
  shows "db_keys (recalcGlobalForFile env file db) \<and> file_ok (recalcGlobalForFile env file db) file \<and>
    (\<forall>name. name \<noteq> file \<longrightarrow> rows_of (recalcGlobalForFile env file db) name = rows_of db name)"
proof (cases "rows_of db file = []")
  case True
  then show ?thesis using assms(2) by (simp add: recalcGlobalForFile_def file_ok_def)
next
  case False
  let ?es = "sorted_rows env file db" and ?db = "recalcGlobalForFile env file db"
  let ?g = "global_row ?es" and ?flags = "global_flags db (sorted_rows env file db)"
  note rows = recalc_rows [OF assms False]
  note of_rows = rows_of_reflag [OF rows]
  have "db_keys ?db = db_keys db" by (rule db_keys_cong) (simp_all add: rows)
  then have "db_keys ?db" using assms(2) by simp
  moreover have "length (filter is_global (rows_of ?db file)) = 1"
  proof -
    have "filter is_global (rows_of ?db file) = map (reflag ?g ?flags) (filter (\<lambda>r. rSequence r = rSequence ?g) (rows_of db file))"
      by (simp add: of_rows filter_map comp_def reflag_global(1) [OF global_flags_bits(1)])
    then show ?thesis
      using length_filter_key [of rSequence "rows_of db file" ?g] distinct_map_filter_rows [of rSequence db "file"]
        global_row_in [OF assms(1) False] assms(2)
      by (simp add: db_keys_def)
  qed
  moreover have "list_all (\<lambda>r. is_needed r \<longrightarrow> is_global r \<and> DeviceIdx r \<noteq> localDeviceIdx ?db \<and> \<not> Row_IsInvalid r) (rows_of ?db file)"
  proof -
    have "bit ?flags 5 \<Longrightarrow> \<not> Flag_IsInvalid ?flags" using global_flags_bits(2) global_flags_valid by blast
    then have valid: "bit ?flags 5 \<Longrightarrow> \<not> Row_IsInvalid (reflag ?g ?flags ?g)" by (simp add: Row_IsInvalid_def reflag_def)
    have "r = ?g" if "r \<in> set (rows_of db file)" "rSequence r = rSequence ?g" for r
      using that global_row_in [OF assms(1) False] assms(2) by (auto simp: db_keys_def distinct_map inj_on_def rows_of_set)
    then show ?thesis
      using local_not_needed [OF assms(1) False] valid
      by (auto simp: of_rows list_all_iff reflag_global(1) [OF global_flags_bits(1)] reflag_global(2))
  qed
  ultimately show ?thesis by (simp add: file_ok_def of_rows)
qed

section \<open>Every operation keeps one global entry per file\<close>

lemma file_ok_cong:
  "rows_of db name = rows_of db' name \<Longrightarrow> localDeviceIdx db = localDeviceIdx db' \<Longrightarrow> file_ok db name = file_ok db' name"
  by (simp add: file_ok_def)

lemma file_fine_cong:
  "rows_of db name = rows_of db' name \<Longrightarrow> localDeviceIdx db = localDeviceIdx db' \<Longrightarrow> file_fine db name = file_fine db' name"
  by (simp add: file_fine_def)

lemma recalc_names_ok:
  assumes "sort_ok (SortFunc env)" and "db_keys db"
  shows "db_keys (recalc_names env names db) \<and>
    (\<forall>n. n \<in> set names \<or> file_ok db n \<longrightarrow> file_ok (recalc_names env names db) n) \<and>
    (\<forall>n. file_fine db n \<longrightarrow> file_fine (recalc_names env names db) n)"
  using assms(2)
proof (induction names arbitrary: db)
  case (Cons m names)
  let ?db = "recalcGlobalForFile env m db"
  have step: "db_keys ?db" "file_ok ?db m" "\<forall>n. n \<noteq> m \<longrightarrow> rows_of ?db n = rows_of db n"
    using recalc_file_ok [OF assms(1) Cons.prems(1)] by blast+
  have "file_ok ?db n" if "n = m \<or> file_ok db n" for n
    using that step(2, 3) file_ok_cong [of ?db n db] by (cases "n = m") auto
  moreover have "file_fine ?db n" if "file_fine db n" for n
    using that step(2, 3) file_fine_cong [of ?db n db] file_ok_fine by (cases "n = m") auto
  ultimately show ?case using Cons.IH [OF step(1)] by auto
qed simp

lemma delete_keys: "db_keys db \<Longrightarrow> db_keys (delete_rows P db)"
  by (auto simp: db_keys_def delete_rows_def distinct_map_filter list_all_iff)

lemma delete_local [simp]: "localDeviceIdx (delete_rows P db) = localDeviceIdx db"
  by (simp add: delete_rows_def)

lemma rows_of_delete: "rows_of (delete_rows P db) name = filter (\<lambda>r. \<not> P r) (rows_of db name)"
  by (simp add: rows_of_def delete_rows_def conj_commute)

lemma names_without_global_iff:
  "n \<in> set (names_without_global db) \<longleftrightarrow> rows_of db n \<noteq> [] \<and> filter is_global (rows_of db n) = []"
  by (force simp: names_without_global_def rows_of_def list_ex_iff filter_empty_conv)

lemma file_fine_sub:
  assumes "file_fine db n" and "rows_of db' n = filter P (rows_of db n)" and "localDeviceIdx db' = localDeviceIdx db"
  shows "file_fine db' n"
proof -
  have "filter is_global (filter P (rows_of db n)) = filter P (filter is_global (rows_of db n))" by (simp add: conj_commute)
  then have "length (filter is_global (filter P (rows_of db n))) \<le> length (filter is_global (rows_of db n))"
    by (metis length_filter_le)
  then show ?thesis using assms by (auto simp: file_fine_def list_all_iff)
qed

lemma delete_file_fine: "file_fine db n \<Longrightarrow> file_fine (delete_rows P db) n"
  by (rule file_fine_sub [OF _ rows_of_delete]) simp_all

lemma fine_with_global: "file_fine db n \<Longrightarrow> n \<notin> set (names_without_global db) \<Longrightarrow> file_ok db n"
  unfolding names_without_global_iff file_ok_def file_fine_def by (metis One_nat_def le_Suc_eq le_zero_eq length_0_conv)

lemma delete_keeps_global:
  assumes "file_ok db n" and "\<forall>r \<in> set (rows_of db n). P r \<longrightarrow> \<not> is_global r"
  shows "file_ok (delete_rows P db) n"
proof (rule fine_with_global [OF delete_file_fine [OF file_ok_fine [OF assms(1)]]])
  have "filter is_global (filter (\<lambda>r. \<not> P r) (rows_of db n)) = filter is_global (rows_of db n)"
    using assms(2) by (auto intro!: filter_cong)
  then show "n \<notin> set (names_without_global (delete_rows P db))"
    using assms(1) unfolding names_without_global_iff rows_of_delete file_ok_def by (metis filter.simps(1) length_0_conv zero_neq_one)
qed

lemma recalc_folder_file_ok:
  assumes "sort_ok (SortFunc env)" and "db_keys db" and "\<forall>n. file_fine db n"
  shows "db_keys (recalcGlobalForFolder env db) \<and> (\<forall>n. file_ok (recalcGlobalForFolder env db) n)"
  using recalc_names_ok [OF assms(1, 2), of "names_without_global db"] assms(3) fine_with_global
  unfolding recalcGlobalForFolder_def by blast

lemma insert_row_rows:
  "rows (snd (insert_row new db)) = filter (\<lambda>r. \<not> replaces new r) (rows db) @ [new\<lparr>rSequence := nextSequence db\<rparr>]"
  "nextSequence (snd (insert_row new db)) = nextSequence db + 1" "localDeviceIdx (snd (insert_row new db)) = localDeviceIdx db"
  "devices (snd (insert_row new db)) = devices db" "blocklists (snd (insert_row new db)) = blocklists db" "fst (insert_row new db) = nextSequence db"
  by (simp_all add: insert_row_def Let_def delete_rows_def replaces_def)

lemma insert_row_keys: "db_keys db \<Longrightarrow> db_keys (snd (insert_row new db))"
proof -
  assume keys: "db_keys db"
  have "rSequence r < nextSequence db" if "r \<in> set (rows db)" for r
    using keys that by (simp add: db_keys_def list_all_iff)
  moreover have "(DeviceIdx new, rName new) \<notin> (\<lambda>r. (DeviceIdx r, rName r)) ` set (filter (\<lambda>r. \<not> replaces new r) (rows db))"
    by (auto simp: replaces_def)
  ultimately show ?thesis
    using keys by (fastforce simp: db_keys_def insert_row_rows list_all_iff distinct_map_filter)
qed

lemma rows_of_insert:
  "n \<noteq> rName new \<Longrightarrow> rows_of (snd (insert_row new db)) n = filter (\<lambda>r. \<not> replaces new r) (rows_of db n)"
  unfolding rows_of_def insert_row_rows by (auto intro!: filter_cong simp: conj_commute)

lemma store_blocks_tables [simp]:
  "rows (store_blocks l s f db) = rows db" "nextSequence (store_blocks l s f db) = nextSequence db"
  "fileinfos (store_blocks l s f db) = fileinfos db" "devices (store_blocks l s f db) = devices db"
  "localDeviceIdx (store_blocks l s f db) = localDeviceIdx db" "nextDevice (store_blocks l s f db) = nextDevice db"
  by (simp_all add: store_blocks_def insertBlocksLocked_def Let_def split: option.splits)

text \<open>The state before the flags are recalculated.\<close>

lemma update_file_Ok:
  assumes "update_file env isLocal skip idx f db = Ok db'"
  obtains db1 where "db' = recalcGlobalForFile env (Name (prepare_file env f)) db1"
    and "rows db1 = rows (snd (insert_row (row_of_file idx (if isLocal then None else Some (Sequence (prepare_file env f)))
           (prepare_file env f)) db))"
    and "nextSequence db1 = nextSequence db + 1" and "localDeviceIdx db1 = localDeviceIdx db"
proof -
  let ?f = "prepare_file env f"
  let ?ins = "insert_row (row_of_file idx (if isLocal then None else Some (Sequence ?f)) ?f) db"
  obtain w where "db' = recalcGlobalForFile env (Name ?f) ((store_blocks isLocal skip ?f (snd ?ins))
      \<lparr>fileinfos := (fileinfos (store_blocks isLocal skip ?f (snd ?ins)))(fst ?ins \<mapsto> w)\<rparr>)"
    using assms by (auto simp: update_file_def Let_def split: if_splits)
  then show ?thesis by (rule that) (simp_all add: insert_row_rows)
qed

lemma keys_rows: "rows db = rows db' \<Longrightarrow> nextSequence db = nextSequence db' \<Longrightarrow> db_keys db = db_keys db'"
  by (simp add: db_keys_def)

lemma prepare_Sequence [simp]: "Sequence (prepare_file env f) = Sequence f"
  by (simp add: prepare_file_def Let_def)

lemma prepare_Name [simp]: "Name (prepare_file env f) = NormalizedFilename env (Name f)"
  by (simp add: prepare_file_def Let_def)

lemma row_of_file_simps [simp]:
  "rName (row_of_file idx s f) = Name f" "DeviceIdx (row_of_file idx s f) = idx" "rRemoteSequence (row_of_file idx s f) = s"
  "rVersion (row_of_file idx s f) = sort_counters (Version f)" "BlocklistHash (row_of_file idx s f) = BlocksHash f"
  by (simp_all add: row_of_file_def)

text \<open>
  The names that lose a row to another name, because a device reports the same sequence number for
  both: a number in the table that the batch uses again, or one that the batch uses twice.
\<close>

definition retitled :: "db_env \<Rightarrow> bool \<Rightarrow> int \<Rightarrow> FileInfo list \<Rightarrow> folder_db \<Rightarrow> string set" where
  "retitled env isLocal idx fs db =
     (if isLocal then {}
      else rName ` {r \<in> set (rows db). DeviceIdx r = idx \<and>
             (\<exists>f \<in> set fs. rRemoteSequence r = Some (Sequence f) \<and> rName r \<noteq> NormalizedFilename env (Name f))} \<union>
           (\<lambda>f. NormalizedFilename env (Name f)) ` {f \<in> set fs. \<exists>f' \<in> set fs. Sequence f' = Sequence f \<and>
             NormalizedFilename env (Name f') \<noteq> NormalizedFilename env (Name f)})"

lemma update_file_ok:
  assumes "sort_ok (SortFunc env)" and "db_keys db" and "update_file env isLocal skip idx f db = Ok db'"
  defines "row \<equiv> row_of_file idx (if isLocal then None else Some (Sequence f)) (prepare_file env f)"
  shows "db_keys db'" and "localDeviceIdx db' = localDeviceIdx db" and "file_ok db' (NormalizedFilename env (Name f))"
    and "n \<noteq> NormalizedFilename env (Name f) \<Longrightarrow> rows_of db' n = filter (\<lambda>r. \<not> replaces row r) (rows_of db n)"
proof -
  obtain db1 where db': "db' = recalcGlobalForFile env (NormalizedFilename env (Name f)) db1"
    and rows1: "rows db1 = rows (snd (insert_row row db))" and next1: "nextSequence db1 = nextSequence db + 1" "localDeviceIdx db1 = localDeviceIdx db"
    using update_file_Ok [OF assms(3)] unfolding row_def prepare_Sequence prepare_Name by blast
  have keys1: "db_keys db1"
    using insert_row_keys [OF assms(2), of row] keys_rows [OF rows1] next1 by (simp add: insert_row_rows)
  have step: "db_keys db'" "file_ok db' (NormalizedFilename env (Name f))"
      "\<forall>n. n \<noteq> NormalizedFilename env (Name f) \<longrightarrow> rows_of db' n = rows_of db1 n"
    using recalc_file_ok [OF assms(1) keys1, of "NormalizedFilename env (Name f)"] db' by blast+
  then show "db_keys db'" "file_ok db' (NormalizedFilename env (Name f))" by blast+
  show "localDeviceIdx db' = localDeviceIdx db" by (simp add: db' next1)
  have "rName row = NormalizedFilename env (Name f)" by (simp add: row_def)
  then show "n \<noteq> NormalizedFilename env (Name f) \<Longrightarrow> rows_of db' n = filter (\<lambda>r. \<not> replaces row r) (rows_of db n)"
    using step(3) rows_of_insert [of n row db] rows1 by (simp add: rows_of_def)
qed

text \<open>After an announced file, the rows are old ones, with other flags, or the row of this file.\<close>

lemma update_file_names:
  assumes "sort_ok (SortFunc env)" and "db_keys db" and "update_file env isLocal skip idx f db = Ok db'" and "r \<in> set (rows db')"
  shows "(\<exists>r' \<in> set (rows db). DeviceIdx r' = DeviceIdx r \<and> rRemoteSequence r' = rRemoteSequence r \<and> rName r' = rName r) \<or>
    rName r = NormalizedFilename env (Name f) \<and> rRemoteSequence r = (if isLocal then None else Some (Sequence f))"
proof -
  let ?row = "row_of_file idx (if isLocal then None else Some (Sequence f)) (prepare_file env f)"
  obtain db1 where db': "db' = recalcGlobalForFile env (NormalizedFilename env (Name f)) db1"
    and rows1: "rows db1 = rows (snd (insert_row ?row db))" and next1: "nextSequence db1 = nextSequence db + 1"
    using update_file_Ok [OF assms(3)] unfolding prepare_Sequence prepare_Name by blast
  have keys1: "db_keys db1"
    using insert_row_keys [OF assms(2), of ?row] keys_rows [OF rows1] next1 by (simp add: insert_row_rows)
  obtain r1 where r1: "r1 \<in> set (rows db1)" "DeviceIdx r1 = DeviceIdx r" "rRemoteSequence r1 = rRemoteSequence r" "rName r1 = rName r"
  proof (cases "rows_of db1 (NormalizedFilename env (Name f)) = []")
    case True
    then show ?thesis using that assms(4) db' by (simp add: recalcGlobalForFile_def)
  next
    case False
    show ?thesis using that assms(4) recalc_rows [OF assms(1) keys1 False] db' by (force split: if_splits)
  qed
  then show ?thesis unfolding rows1 insert_row_rows(1) by (fastforce split: if_splits)
qed

lemma retitledI:
  "\<not> isLocal \<Longrightarrow> r \<in> set (rows db) \<Longrightarrow> DeviceIdx r = idx \<Longrightarrow> f \<in> set fs \<Longrightarrow> rRemoteSequence r = Some (Sequence f) \<Longrightarrow>
   rName r \<noteq> NormalizedFilename env (Name f) \<Longrightarrow> rName r \<in> retitled env isLocal idx fs db"
  by (auto simp: retitled_def)

lemma retitledI2:
  "\<not> isLocal \<Longrightarrow> f \<in> set fs \<Longrightarrow> f' \<in> set fs \<Longrightarrow> Sequence f' = Sequence f \<Longrightarrow>
   NormalizedFilename env (Name f') \<noteq> NormalizedFilename env (Name f) \<Longrightarrow> NormalizedFilename env (Name f) \<in> retitled env isLocal idx fs db"
  by (auto simp: retitled_def)

lemma retitled_step:
  assumes "sort_ok (SortFunc env)" and "db_keys db" and "update_file env isLocal skip idx f db = Ok db'"
  shows "retitled env isLocal idx fs db' \<subseteq> retitled env isLocal idx (f # fs) db"
proof
  fix n assume n: "n \<in> retitled env isLocal idx fs db'"
  then have remote: "\<not> isLocal" by (auto simp: retitled_def)
  show "n \<in> retitled env isLocal idx (f # fs) db"
  proof (cases "\<exists>r \<in> set (rows db'). n = rName r \<and> DeviceIdx r = idx \<and>
      (\<exists>f \<in> set fs. rRemoteSequence r = Some (Sequence f) \<and> rName r \<noteq> NormalizedFilename env (Name f))")
    case True
    then obtain r f' where r: "r \<in> set (rows db')" "n = rName r" "DeviceIdx r = idx" "f' \<in> set fs"
        "rRemoteSequence r = Some (Sequence f')" "rName r \<noteq> NormalizedFilename env (Name f')" by blast
    from update_file_names [OF assms r(1)] show ?thesis
    proof
      assume "\<exists>r' \<in> set (rows db). DeviceIdx r' = DeviceIdx r \<and> rRemoteSequence r' = rRemoteSequence r \<and> rName r' = rName r"
      then obtain r' where r': "r' \<in> set (rows db)" "DeviceIdx r' = idx" "rRemoteSequence r' = Some (Sequence f')" "rName r' = n"
        using r by auto
      then show ?thesis using retitledI [OF remote, of r' db idx f' "f # fs" env] r(2, 4, 6) by simp
    next
      assume "rName r = NormalizedFilename env (Name f) \<and> rRemoteSequence r = (if isLocal then None else Some (Sequence f))"
      then show ?thesis using retitledI2 [OF remote, of f "f # fs" f' env idx db] r(2, 4-6) remote by simp
    qed
  next
    case False
    then obtain f1 f2 where "f1 \<in> set fs" "f2 \<in> set fs" "n = NormalizedFilename env (Name f1)" "Sequence f2 = Sequence f1"
        "NormalizedFilename env (Name f2) \<noteq> NormalizedFilename env (Name f1)"
      using n remote unfolding retitled_def by auto
    then show ?thesis using retitledI2 [OF remote, of f1 "f # fs" f2 env idx db] by simp
  qed
qed

lemma update_loop_ok:
  assumes "sort_ok (SortFunc env)" and "db_keys db" and "update_loop env isLocal skip idx prev fs db = Ok db'"
  shows "db_keys db' \<and> localDeviceIdx db' = localDeviceIdx db \<and> (\<forall>n. file_fine db n \<longrightarrow> file_fine db' n) \<and>
    (\<forall>n. n \<notin> retitled env isLocal idx fs db \<and>
      (n \<in> (\<lambda>f. NormalizedFilename env (Name f)) ` set fs \<or> file_ok db n) \<longrightarrow> file_ok db' n)"
  using assms(2-)
proof (induction fs arbitrary: db prev)
  case (Cons f fs)
  let ?n = "NormalizedFilename env (Name f)"
  obtain db1 where db1: "update_file env isLocal skip idx f db = Ok db1"
      "update_loop env isLocal skip idx (Some (Sequence f)) fs db1 = Ok db'"
    using Cons.prems(2) by (auto split: if_splits)
  note upd = update_file_ok [OF assms(1) Cons.prems(1) db1(1)]
  note sub = retitled_step [OF assms(1) Cons.prems(1) db1(1), of fs]
  have fine: "file_fine db1 n" if "file_fine db n" for n
    using that file_fine_sub [OF that upd(4) upd(2)] file_ok_fine [OF upd(3)] by blast
  have ok: "file_ok db1 n" if "n \<notin> retitled env isLocal idx (f # fs) db" "n = ?n \<or> file_ok db n" for n
  proof (cases "n = ?n")
    case False
    have "\<not> replaces (row_of_file idx (if isLocal then None else Some (Sequence f)) (prepare_file env f)) r"
      if "r \<in> set (rows_of db n)" for r
      using that \<open>n \<notin> retitled env isLocal idx (f # fs) db\<close> False
      by (auto simp: replaces_def retitled_def rows_of_set split: if_splits)
    then have "rows_of db1 n = rows_of db n" by (simp add: upd(4) [OF False] filter_id_conv)
    then show ?thesis using file_ok_cong [OF _ upd(2)] that(2) False by blast
  qed (simp add: upd(3))
  show ?case using Cons.IH [OF upd(1) db1(2)] upd(2) fine ok sub by auto
qed simp

end
