(* ===== verification/Folder_Global.thy ===== *)
theory Folder_Global
  imports Folder_DB
begin

text \<open>
  What the operations of \<^verbatim>\<open>Folder_DB\<close> promise together: the states that sequences of
  operations reach, the version of a file that becomes the global one, when a file is needed, and
  what is read back after an update.
\<close>

section \<open>Reachable states\<close>

text \<open>The tables of a new folder, \<open>openFolderDB\<close>: only the local device is there.\<close>

definition new_folder_db :: "bool \<Rightarrow> folder_db" where
  "new_folder_db lww =
     (let empty = \<lparr>devices = [], nextDevice = 1, rows = [], countsTable = [], nextSequence = 1, fileinfos = Map.empty,
                   blocklists = Map.empty, block_index = [], indexids = Map.empty, ancestors = Map.empty,
                   useLWWReconciler = lww, localDeviceIdx = 0\<rparr>
      in case deviceIdxLocked LocalDeviceID empty of (idx, db) \<Rightarrow> db\<lparr>localDeviceIdx := idx\<rparr>)"

text \<open>
  The second argument of the reachable states is the set of the names whose global record can have
  got lost: the periodic collection has forgotten it, or a device has reported its sequence number
  for another name, and the name has not been announced again since, nor has a device been dropped.
\<close>

inductive db_reach :: "db_env \<Rightarrow> string set \<Rightarrow> folder_db \<Rightarrow> bool" for env where
  init: "db_reach env {} (new_folder_db lww)"
| update: "db_reach env lost db \<Longrightarrow> Update env device fs skip db = Ok db' \<Longrightarrow>
    db_reach env (lost - (\<lambda>f. NormalizedFilename env (Name f)) ` set fs \<union>
      retitled env (device = LocalDeviceID) (fst (deviceIdxLocked device db)) fs db) db'"
| drop_device: "db_reach env lost db \<Longrightarrow> DropDevice env device db = Ok db' \<Longrightarrow> db_reach env {} db'"
| drop_all: "db_reach env lost db \<Longrightarrow> db_reach env lost (DropAllFiles env device db)"
| drop_named: "db_reach env lost db \<Longrightarrow> db_reach env lost (DropFilesNamed env device names db)"
| recalc_all: "db_reach env lost db \<Longrightarrow> db_reach env {} (recalcAllGlobalsForFolder env db)"
| collect: "db_reach env lost db \<Longrightarrow>
    db_reach env (lost \<union> rName ` {r \<in> set (rows db). is_global r \<and> collectable (now - retention) r})
      (garbageCollectOldDeletedLocked retention now db)"
| drop_blocks: "db_reach env lost db \<Longrightarrow> db_reach env lost (DropBlockIndex db)"
| populate_blocks: "db_reach env lost db \<Longrightarrow> db_reach env lost (PopulateBlockIndex db)"
| set_index_id: "db_reach env lost db \<Longrightarrow> db_reach env lost (SetIndexID device i db)"
| drop_index_ids: "db_reach env lost db \<Longrightarrow> db_reach env lost (DropAllIndexIDs db)"

definition db_ok :: "string set \<Rightarrow> folder_db \<Rightarrow> bool" where
  "db_ok lost db \<longleftrightarrow> db_keys db \<and> (\<forall>n. file_fine db n) \<and> (\<forall>n. n \<notin> lost \<longrightarrow> file_ok db n)"

lemma db_ok_all: "db_ok {} db \<longleftrightarrow> db_keys db \<and> (\<forall>n. file_ok db n)"
  using file_ok_fine by (auto simp: db_ok_def)

lemma db_ok_keys [dest]: "db_ok lost db \<Longrightarrow> db_keys db"
  by (simp add: db_ok_def)

lemma db_ok_fine [dest]: "db_ok lost db \<Longrightarrow> \<forall>n. file_fine db n"
  by (simp add: db_ok_def)

lemma db_ok_less: "db_ok {} db \<Longrightarrow> db_ok lost db"
  by (simp add: db_ok_def)

lemma db_ok_cong:
  "rows db = rows db' \<Longrightarrow> nextSequence db = nextSequence db' \<Longrightarrow> localDeviceIdx db = localDeviceIdx db' \<Longrightarrow>
   db_ok lost db = db_ok lost db'"
  by (simp add: db_ok_def db_keys_def file_ok_def file_fine_def rows_of_def)

lemma deviceIdx_tables:
  "rows (snd (deviceIdxLocked dev db)) = rows db" "nextSequence (snd (deviceIdxLocked dev db)) = nextSequence db"
  "localDeviceIdx (snd (deviceIdxLocked dev db)) = localDeviceIdx db" "countsTable (snd (deviceIdxLocked dev db)) = countsTable db"
  "fileinfos (snd (deviceIdxLocked dev db)) = fileinfos db" "blocklists (snd (deviceIdxLocked dev db)) = blocklists db"
  by (simp_all add: deviceIdxLocked_def split: option.splits)

lemma deviceIdx_found: "map_of (devices (snd (deviceIdxLocked dev db))) dev = Some (fst (deviceIdxLocked dev db))"
  by (auto simp: deviceIdxLocked_def map_add_def split: option.splits)

lemma deviceIdx_ok: "db_ok lost (snd (deviceIdxLocked dev db)) = db_ok lost db"
  by (rule db_ok_cong) (simp_all add: deviceIdx_tables)

lemma delete_fine: "db_keys db \<and> (\<forall>n. file_fine db n) \<Longrightarrow> db_keys (delete_rows P db) \<and> (\<forall>n. file_fine (delete_rows P db) n)"
  using delete_keys delete_file_fine by blast

lemma recalc_folder_ok:
  "sort_ok (SortFunc env) \<Longrightarrow> db_keys db \<and> (\<forall>n. file_fine db n) \<Longrightarrow> db_ok {} (recalcGlobalForFolder env db)"
  using recalc_folder_file_ok by (simp add: db_ok_all)

lemma Update_ok:
  assumes "sort_ok (SortFunc env)" and "db_ok lost db" and "Update env device fs skip db = Ok db'"
  shows "db_ok (lost - (\<lambda>f. NormalizedFilename env (Name f)) ` set fs \<union>
    retitled env (device = LocalDeviceID) (fst (deviceIdxLocked device db)) fs db) db'"
proof -
  let ?db = "snd (deviceIdxLocked device db)" and ?idx = "fst (deviceIdxLocked device db)"
  have ok: "db_ok lost ?db" using assms(2) by (simp add: deviceIdx_ok)
  have "retitled env isLocal ?idx fs ?db = retitled env isLocal ?idx fs db" for isLocal
    by (simp add: retitled_def deviceIdx_tables)
  moreover have "update_loop env (device = LocalDeviceID) skip ?idx None fs ?db = Ok db'"
    using assms(3) by (simp add: Update_def case_prod_beta)
  ultimately show ?thesis
    using update_loop_ok [OF assms(1) db_ok_keys [OF ok]] ok unfolding db_ok_def by (metis DiffI UnCI)
qed

lemma DropDevice_ok:
  assumes "sort_ok (SortFunc env)" and "db_ok lost db" and "DropDevice env device db = Ok db'"
  shows "db_ok {} db'"
proof (cases "map_of (devices db) device")
  case None
  then show ?thesis using assms recalc_folder_ok [OF assms(1), of db] by (auto simp: DropDevice_def split: if_splits)
next
  case (Some idx)
  let ?del = "delete_rows (\<lambda>r. DeviceIdx r = idx) db"
  have "db_keys ?del \<and> (\<forall>n. file_fine ?del n)" using assms(2) by (intro delete_fine) blast
  then have "db_keys (?del\<lparr>devices := d, countsTable := c, indexids := i\<rparr>) \<and>
      (\<forall>n. file_fine (?del\<lparr>devices := d, countsTable := c, indexids := i\<rparr>) n)" for d c i
    by (simp add: db_keys_def file_fine_def rows_of_def)
  then show ?thesis
    using assms(3) Some recalc_folder_ok [OF assms(1)] by (auto simp: DropDevice_def Let_def split: if_splits)
qed

lemma DropAllFiles_ok:
  assumes "sort_ok (SortFunc env)" and "db_ok lost db"
  shows "db_ok lost (DropAllFiles env device db)"
proof -
  obtain idx db1 where idx: "deviceIdxLocked device db = (idx, db1)" by fastforce
  have ok: "db_ok lost (db1\<lparr>indexids := i\<rparr>)" for i
    using assms(2) deviceIdx_ok [of lost device db] db_ok_cong [of "db1\<lparr>indexids := i\<rparr>" db1] by (simp add: idx)
  moreover have "db_ok {} (recalcGlobalForFolder env (delete_rows P (db1\<lparr>indexids := i\<rparr>)))" for P i
    by (rule recalc_folder_ok [OF assms(1) delete_fine]) (use ok in blast)
  ultimately show ?thesis using db_ok_less by (simp add: DropAllFiles_def idx Let_def)
qed

lemma DropFilesNamed_ok:
  assumes "sort_ok (SortFunc env)" and "db_ok lost db"
  shows "db_ok lost (DropFilesNamed env device names db)"
proof -
  obtain idx db1 where idx: "deviceIdxLocked device db = (idx, db1)" by fastforce
  have ok: "db_ok lost db1" using assms(2) deviceIdx_ok [of lost device db] by (simp add: idx)
  let ?names = "map (NormalizedFilename env) names"
  let ?del = "delete_rows (\<lambda>r. DeviceIdx r = idx \<and> rName r \<in> set ?names) db1"
  have fine: "db_keys ?del \<and> (\<forall>n. file_fine ?del n)" using ok by (intro delete_fine) blast
  have "rows_of ?del n = rows_of db1 n" if "n \<notin> set ?names" for n
    unfolding rows_of_delete using that by (auto simp: filter_id_conv rows_of_set)
  then have "file_ok ?del n" if "n \<notin> set ?names" "n \<notin> lost" for n
    using ok that file_ok_cong [of ?del n db1] by (simp add: db_ok_def)
  then show ?thesis
    using recalc_names_ok [OF assms(1) conjunct1 [OF fine], of ?names] fine
    by (auto simp: DropFilesNamed_def idx db_ok_def)
qed

lemma recalcAll_ok:
  assumes "sort_ok (SortFunc env)" and "db_ok lost db"
  shows "db_ok {} (recalcAllGlobalsForFolder env db)"
proof -
  have "file_ok db n" if "n \<notin> set (remdups (map rName (rows db)))" for n
    using that by (auto simp: file_ok_def rows_of_def filter_empty_conv list_all_iff)
  then show ?thesis
    using recalc_names_ok [OF assms(1) db_ok_keys [OF assms(2)], of "remdups (map rName (rows db))"]
    unfolding recalcAllGlobalsForFolder_def db_ok_all by blast
qed

lemma collect_ok:
  assumes "db_ok lost db"
  shows "db_ok (lost \<union> rName ` {r \<in> set (rows db). is_global r \<and> collectable (now - retention) r})
    (garbageCollectOldDeletedLocked retention now db)"
proof (cases "retention \<le> 0")
  case True
  then show ?thesis using assms by (auto simp: garbageCollectOldDeletedLocked_def db_ok_def)
next
  case False
  have "file_ok (delete_rows P db) n" if "n \<notin> lost" "n \<notin> rName ` {r \<in> set (rows db). is_global r \<and> P r}" for n P
    using assms that by (intro delete_keeps_global) (auto simp: db_ok_def rows_of_set)
  then show ?thesis
    using False delete_fine [of db] assms by (auto simp: garbageCollectOldDeletedLocked_def db_ok_def)
qed

lemma populate_tables:
  "rows (populate rs db) = rows db" "nextSequence (populate rs db) = nextSequence db"
  "localDeviceIdx (populate rs db) = localDeviceIdx db" "countsTable (populate rs db) = countsTable db"
  by (induction rs arbitrary: db) (simp_all add: insertBlocksLocked_def split: option.splits)

lemma other_tables:
  "rows (DropBlockIndex db) = rows db" "rows (PopulateBlockIndex db) = rows db" "rows (SetIndexID device i db) = rows db"
  "rows (DropAllIndexIDs db) = rows db" "countsTable (DropBlockIndex db) = countsTable db"
  "countsTable (PopulateBlockIndex db) = countsTable db" "countsTable (SetIndexID device i db) = countsTable db"
  "countsTable (DropAllIndexIDs db) = countsTable db"
  by (simp_all add: DropBlockIndex_def PopulateBlockIndex_def populate_tables SetIndexID_def deviceIdxLocked_def DropAllIndexIDs_def
      split: option.splits)

lemma other_tables_ok:
  "db_ok lost (DropBlockIndex db) = db_ok lost db" "db_ok lost (PopulateBlockIndex db) = db_ok lost db"
  "db_ok lost (SetIndexID device i db) = db_ok lost db" "db_ok lost (DropAllIndexIDs db) = db_ok lost db"
proof -
  show "db_ok lost (DropBlockIndex db) = db_ok lost db" by (rule db_ok_cong) (simp_all add: DropBlockIndex_def)
  show "db_ok lost (PopulateBlockIndex db) = db_ok lost db"
    by (rule db_ok_cong) (simp_all add: PopulateBlockIndex_def populate_tables)
  show "db_ok lost (SetIndexID device i db) = db_ok lost db"
    by (rule db_ok_cong) (simp_all add: SetIndexID_def deviceIdxLocked_def split: option.splits)
  show "db_ok lost (DropAllIndexIDs db) = db_ok lost db" by (rule db_ok_cong) (simp_all add: DropAllIndexIDs_def)
qed

lemma new_folder_ok: "db_ok {} (new_folder_db lww)"
  by (simp add: new_folder_db_def deviceIdxLocked_def db_ok_all db_keys_def file_ok_def rows_of_def)

lemma db_reach_ok: "db_reach env lost db \<Longrightarrow> sort_ok (SortFunc env) \<Longrightarrow> db_ok lost db"
proof (induction rule: db_reach.induct)
  case (update lost db device fs skip db')
  then show ?case using Update_ok by blast
next
  case (drop_device lost db device db')
  then show ?case using DropDevice_ok by blast
next
  case (recalc_all lost db)
  then show ?case using recalcAll_ok by blast
qed (simp_all add: new_folder_ok DropAllFiles_ok DropFilesNamed_ok collect_ok other_tables_ok)

lemma one_global:
  assumes "file_ok db n" and "rows_of db n \<noteq> []"
  shows "\<exists>g. \<forall>x. x \<in> set (rows_of db n) \<and> is_global x \<longleftrightarrow> x = g"
proof -
  obtain g where "filter is_global (rows_of db n) = [g]"
    using assms by (auto simp: file_ok_def length_Suc_conv)
  then have "{x \<in> set (rows_of db n). is_global x} = {g}" by (metis empty_set list.simps(15) set_filter)
  then show ?thesis by blast
qed

text \<open>C9: In every state that updates, drops, recalculations, the periodic collection of old deletions
  and the index operations reach from a new folder, a name has at most one global record, and only
  a valid global record of another device is needed.  A name with records has exactly one, unless
  the collection has forgotten its global deletion, or a device has reported the same sequence
  number for another name, and it has not been announced since.\<close>

theorem every_file_has_one_global:
  assumes "db_reach env lost db" and "sort_ok (SortFunc env)"
  shows "(\<forall>name. rows_of db name \<noteq> [] \<and> name \<notin> lost \<longrightarrow> (\<exists>!g. g \<in> set (rows_of db name) \<and> is_global g)) \<and>
    (\<forall>g \<in> set (rows db). \<forall>g' \<in> set (rows db). is_global g \<and> is_global g' \<and> rName g = rName g' \<longrightarrow> g = g') \<and>
    (\<forall>r \<in> set (rows db). is_needed r \<longrightarrow> is_global r \<and> DeviceIdx r \<noteq> localDeviceIdx db \<and> \<not> Row_IsInvalid r)"
proof -
  note ok = db_reach_ok [OF assms]
  have fine: "file_fine db n" for n using ok by (simp add: db_ok_def)
  have "\<exists>!g. g \<in> set (rows_of db n) \<and> is_global g" if "rows_of db n \<noteq> []" "n \<notin> lost" for n
  proof -
    have "file_ok db n" using ok that(2) by (simp add: db_ok_def)
    from one_global [OF this that(1)] show ?thesis by (metis (no_types, lifting))
  qed
  moreover have "g = g'" if "g \<in> set (rows db)" "g' \<in> set (rows db)" "is_global g" "is_global g'" "rName g = rName g'" for g g'
  proof -
    have "g \<in> set (filter is_global (rows_of db (rName g)))" "g' \<in> set (filter is_global (rows_of db (rName g)))"
      using that by (auto simp: rows_of_set)
    then show ?thesis using fine [of "rName g"] unfolding file_fine_def
      by (cases "filter is_global (rows_of db (rName g))") auto
  qed
  moreover have "is_global r \<and> DeviceIdx r \<noteq> localDeviceIdx db \<and> \<not> Row_IsInvalid r" if "r \<in> set (rows db)" "is_needed r" for r
    using fine [of "rName r"] that by (auto simp: file_fine_def list_all_iff rows_of_set)
  ultimately show ?thesis by blast
qed

section \<open>The global version\<close>

lemma find_IndexFunc: "List.find P xs = (if IndexFunc P xs < 0 then None else Some (xs ! nat (IndexFunc P xs)))"
  by (induction xs) (auto simp: Let_def nat_add_distrib)

lemma global_row_find:
  assumes "List.find (\<lambda>e. \<not> Row_IsInvalid e) es = Some g"
  shows "global_row es = g" and "global_idx es = IndexFunc (\<lambda>e. \<not> Row_IsInvalid e) es" and "0 \<le> global_idx es"
  using assms by (auto simp: global_row_def global_idx_def find_IndexFunc Let_def split: if_splits)

lemma global_after_recalc:
  assumes "sort_ok (SortFunc env)" and "db_keys db" and "rows_of db name \<noteq> []"
  defines "es \<equiv> sorted_rows env name db"
  shows "(global_row es)\<lparr>rLocalFlags := global_flags db es\<rparr> \<in> set (rows_of (recalcGlobalForFile env name db) name)"
proof -
  have "global_row es \<in> set (rows_of db name)" unfolding es_def by (rule global_row_in [OF assms(1, 3)])
  then have "reflag (global_row es) (global_flags db es) (global_row es) \<in> set (rows_of (recalcGlobalForFile env name db) name)"
    unfolding rows_of_reflag [OF recalc_rows [OF assms(1-3)]] es_def by simp
  then show ?thesis by (simp add: reflag_def)
qed

text \<open>The order of the sorted rows, for a file without conflicts.\<close>

lemma sorted_conflict_free:
  assumes "sort_ok (SortFunc env)" and "conflict_free (rows_of db name)"
  defines "es \<equiv> sorted_rows env name db"
  shows "\<exists>anc lww. sorted_wrt (\<lambda>a b. CompareWithAncestor a b anc lww < 0) es"
  using assms(1) rows.good_strict_order [OF assms(2)] unfolding es_def sorted_rows_def Let_def sort_ok_def by blast

lemma sorted_version:
  assumes "sorted_wrt (\<lambda>a b. CompareWithAncestor a b anc lww < 0) es" and "i < j" and "j < length es"
    and "list_all (\<lambda>e. list_all (\<lambda>e'. \<not> Concurrent (rVersion e) (rVersion e')) es) es"
  shows "Compare (rVersion (es ! i)) (rVersion (es ! j)) = Greater \<or> Compare (rVersion (es ! i)) (rVersion (es ! j)) = Equal"
proof -
  have "CompareWithAncestor (es ! i) (es ! j) anc lww < 0" using assms(1-3) by (simp add: sorted_wrt_iff_nth_less)
  moreover have "\<not> Concurrent (rVersion (es ! i)) (rVersion (es ! j))" using assms(2-4) by (simp add: list_all_length)
  ultimately show ?thesis using better_conflict_free by blast
qed

lemma conflict_free_sorted:
  assumes "sort_ok (SortFunc env)" and "conflict_free (rows_of db name)"
  shows "list_all (\<lambda>e. list_all (\<lambda>e'. \<not> Concurrent (rVersion e) (rVersion e')) (sorted_rows env name db)) (sorted_rows env name db)"
    and "set (sorted_rows env name db) = set (rows_of db name)"
  using assms(2) mset_eq_setD [OF sorted_rows_mset [OF assms(1)]] by (simp_all add: conflict_free_def list_all_iff)

lemma Compare_refl: "Compare v v = Equal"
  using Compare_flip [of v v] by (cases "Compare v v") simp_all

text \<open>The code's test for having the global version, in terms of versions.\<close>

lemma has_local_iff:
  assumes "sort_ok (SortFunc env)" and "conflict_free (rows_of db name)"
  defines "es \<equiv> sorted_rows env name db"
  assumes "List.find (\<lambda>e. \<not> Row_IsInvalid e) es = Some g"
  shows "has_local db es (global_idx es) g \<longleftrightarrow>
    (case List.find (\<lambda>e. DeviceIdx e = localDeviceIdx db) es of
       None \<Rightarrow> rDeleted g | Some l \<Rightarrow> Compare (rVersion l) (rVersion g) \<noteq> Lesser)"
proof (cases "IndexFunc (\<lambda>e. DeviceIdx e = localDeviceIdx db) es < 0")
  case True
  then show ?thesis by (simp add: has_local_def find_IndexFunc Let_def)
next
  case False
  define j k where "j = nat (IndexFunc (\<lambda>e. DeviceIdx e = localDeviceIdx db) es)" and "k = nat (global_idx es)"
  obtain anc lww where sorted: "sorted_wrt (\<lambda>a b. CompareWithAncestor a b anc lww < 0) es"
    using sorted_conflict_free [OF assms(1, 2)] es_def by blast
  note nc = conflict_free_sorted(1) [OF assms(1, 2), folded es_def]
  have bounds: "j < length es" "k < length es"
    using False IndexFunc_bounds(1) [of _ es] global_row_find(2, 3) [OF assms(4)] unfolding j_def k_def
    by (metis linorder_not_le nat_less_iff of_nat_0_le_iff order_le_less_trans zless_nat_eq_int_zless zle_int nat_0_le)+
  have g: "g = es ! k" using global_row_find(1) [OF assms(4)] by (simp add: global_row_def k_def)
  have "has_local db es (global_idx es) g \<longleftrightarrow> j \<le> k \<or> Compare (rVersion (es ! j)) (rVersion g) = Equal"
    using False global_row_find(3) [OF assms(4)]
    by (auto simp: has_local_def Let_def j_def k_def VEqual_def)
  also have "\<dots> \<longleftrightarrow> Compare (rVersion (es ! j)) (rVersion g) \<noteq> Lesser"
    using sorted_version [OF sorted _ _ nc, of j k] sorted_version [OF sorted _ _ nc, of k j] bounds g
      Compare_flip [of "rVersion g" "rVersion (es ! j)"]
    by (cases j k rule: linorder_cases) (auto simp: Compare_refl)
  finally show ?thesis using False by (simp add: find_IndexFunc j_def)
qed

lemma find_unique:
  assumes "\<And>x y. x \<in> set xs \<Longrightarrow> y \<in> set xs \<Longrightarrow> P x \<Longrightarrow> P y \<Longrightarrow> x = y"
  shows "(case List.find P xs of None \<Rightarrow> A | Some x \<Rightarrow> B x) \<longleftrightarrow>
    (\<exists>x \<in> set xs. P x \<and> B x) \<or> (\<forall>x \<in> set xs. \<not> P x) \<and> A"
proof (cases "List.find P xs")
  case None
  moreover from None have "\<forall>x \<in> set xs. \<not> P x" by (auto simp: find_None_iff)
  ultimately show ?thesis by auto
next
  case (Some x)
  then have "x \<in> set xs" "P x" by (auto simp: find_Some_iff)
  then show ?thesis using Some assms by auto
qed

text \<open>C10: For a file whose versions are ordered and of which a valid copy exists, the version
  that becomes global is valid and at least as new as every valid one.  The file is needed
  exactly when the local device announces an older version, or announces none and the global
  version is not a deletion.\<close>

theorem newest_valid_version_is_global:
  assumes "sort_ok (SortFunc env)" and "db_keys db" and "conflict_free (rows_of db name)"
    and "\<exists>r \<in> set (rows_of db name). \<not> Row_IsInvalid r"
  shows "\<exists>g \<in> set (rows_of (recalcGlobalForFile env name db) name). is_global g \<and> \<not> Row_IsInvalid g \<and>
    (\<forall>r \<in> set (rows_of db name). \<not> Row_IsInvalid r \<longrightarrow> GreaterEqual (rVersion g) (rVersion r)) \<and>
    (is_needed g \<longleftrightarrow>
      (\<exists>l \<in> set (rows_of db name). DeviceIdx l = localDeviceIdx db \<and> Compare (rVersion l) (rVersion g) = Lesser) \<or>
      (\<forall>l \<in> set (rows_of db name). DeviceIdx l \<noteq> localDeviceIdx db) \<and> \<not> rDeleted g)"
proof -
  define es where "es = sorted_rows env name db"
  note es_set = conflict_free_sorted(2) [OF assms(1, 3), folded es_def]
  obtain g where g: "List.find (\<lambda>e. \<not> Row_IsInvalid e) es = Some g"
    using assms(4) es_set by (metis find_None_iff option.exhaust)
  then have valid: "\<not> Row_IsInvalid g" by (auto simp: find_Some_iff)
  have g_row: "global_row es = g" by (rule global_row_find(1) [OF g])
  have best: "GreaterEqual (rVersion g) (rVersion r)" if r: "r \<in> set (rows_of db name)" "\<not> Row_IsInvalid r" for r
  proof -
    obtain anc lww where "es = SortFunc env (\<lambda>a b. CompareWithAncestor a b anc lww) (rows_of db name)"
      by (simp add: es_def sorted_rows_def Let_def)
    then have "r = g \<or> CompareWithAncestor g r anc lww < 0"
      using rows.first_satisfying_best [OF assms(1, 3) _ r(1)] g r(2) by simp
    moreover have "g \<in> set (rows_of db name)" using g es_set by (metis find_Some_iff nth_mem)
    then have "\<not> Concurrent (rVersion g) (rVersion r)" using assms(3) r(1) by (simp add: conflict_free_def list_all_iff)
    ultimately show ?thesis using better_conflict_free [of g r anc lww] by (auto simp: GreaterEqual_def Compare_refl)
  qed
  have uniq: "l = l'" if "l \<in> set es" "l' \<in> set es" "DeviceIdx l = DeviceIdx l'" for l l'
    using that assms(3) es_set by (auto simp: conflict_free_def distinct_map inj_on_def)
  let ?g = "g\<lparr>rLocalFlags := global_flags db es\<rparr>"
  have needed: "is_needed ?g \<longleftrightarrow> \<not> has_local db es (global_idx es) g"
    using global_flags_bits(2) [of db es] valid g_row by (simp add: is_needed_bit)
  have iff: "is_needed ?g \<longleftrightarrow>
      (\<exists>l \<in> set (rows_of db name). DeviceIdx l = localDeviceIdx db \<and> Compare (rVersion l) (rVersion g) = Lesser) \<or>
      (\<forall>l \<in> set (rows_of db name). DeviceIdx l \<noteq> localDeviceIdx db) \<and> \<not> rDeleted g"
    unfolding needed has_local_iff [OF assms(1, 3) g [unfolded es_def], folded es_def]
    by (subst find_unique) (use uniq es_set in \<open>simp, metis\<close>)
  have "?g \<in> set (rows_of (recalcGlobalForFile env name db) name)"
    using global_after_recalc [OF assms(1, 2), of name] assms(4) g_row by (fastforce simp: es_def)
  moreover have "is_global ?g" using global_flags_bits(1) [of db es] by (simp add: is_global_bit)
  moreover have "\<not> Row_IsInvalid ?g" using global_flags_valid [of db es] valid g_row by (simp add: Row_IsInvalid_def)
  ultimately show ?thesis using best iff by (intro bexI [of _ ?g]) simp_all
qed

section \<open>Reading back\<close>

text \<open>A file as it is read: with its name in the form of the platform.\<close>

definition read_back :: "db_env \<Rightarrow> FileInfo \<Rightarrow> FileInfo" where
  "read_back env f = f\<lparr>Name := NativeFilename env (Name f)\<rparr>"

lemma FileInfoFromDB_name:
  "FileInfoFromDB (w\<lparr>wName := n\<rparr>) = (FileInfoFromDB w)\<lparr>Name := n\<rparr>" "Name (FileInfoFromDB w) = wName w"
  by (simp_all add: FileInfoFromDB_def FileInfoFromWire_def fileInfoFromWireWithBlocks_def)

lemma FromDB_ToWire:
  assumes "wire_sized f" and "FileInfo_ToWire True (f\<lparr>Blocks := []\<rparr>) = Ok w"
  shows "FileInfoFromDB w = f\<lparr>Blocks := [], truncated := False\<rparr>"
    and "Blocks f \<noteq> [] \<Longrightarrow> FileInfoFromDB (w\<lparr>wBlocks := map Block_ToWire (Blocks f)\<rparr>) = f\<lparr>truncated := False\<rparr>"
proof -
  have w: "w = (wire_of (f\<lparr>Blocks := []\<rparr>))\<lparr>wLocalFlags := LocalFlags f, wEncryptionTrailerSize := int32 (EncryptionTrailerSize f)\<rparr>"
    using assms(2) by (auto simp: FileInfo_ToWire_def split: if_splits)
  have trailer: "int32 (EncryptionTrailerSize f) = EncryptionTrailerSize f" using assms(1) by (simp add: wire_sized_def)
  have "wire_sized (f\<lparr>Blocks := []\<rparr>)" using assms(1) by (simp add: wire_sized_def)
  then show "FileInfoFromDB w = f\<lparr>Blocks := [], truncated := False\<rparr>"
    using FromWire_wire_of trailer by (cases f) (simp add: FileInfoFromDB_def w)
  have "w\<lparr>wBlocks := map Block_ToWire (Blocks f)\<rparr> =
      (wire_of f)\<lparr>wLocalFlags := LocalFlags f, wEncryptionTrailerSize := int32 (EncryptionTrailerSize f)\<rparr>"
    by (simp add: w wire_of_def IsInvalid_def)
  then show "Blocks f \<noteq> [] \<Longrightarrow> FileInfoFromDB (w\<lparr>wBlocks := map Block_ToWire (Blocks f)\<rparr>) = f\<lparr>truncated := False\<rparr>"
    using FromWire_wire_of [OF assms(1)] trailer by (cases f) (simp add: FileInfoFromDB_def)
qed

text \<open>The row of a device and name is unique.\<close>

lemma find_row:
  assumes "db_keys db" and "r \<in> set (rows db)" and "DeviceIdx r = idx" and "rName r = name"
  shows "List.find (\<lambda>r. DeviceIdx r = idx \<and> rName r = name) (rows db) = Some r"
proof -
  obtain x where x: "List.find (\<lambda>r. DeviceIdx r = idx \<and> rName r = name) (rows db) = Some x"
    using assms(2-) by (metis (mono_tags, lifting) find_None_iff option.exhaust)
  then have "x \<in> set (rows db)" "DeviceIdx x = DeviceIdx r" "rName x = rName r"
    using assms(3, 4) by (auto simp: find_Some_iff)
  then show ?thesis using x assms(1, 2) by (auto simp: db_keys_def distinct_map inj_on_def)
qed

lemma recalc_row:
  assumes "sort_ok (SortFunc env)" and "db_keys db" and "r \<in> set (rows db)" and "rName r = name"
  shows "\<exists>r' \<in> set (rows (recalcGlobalForFile env name db)). rName r' = rName r \<and> DeviceIdx r' = DeviceIdx r \<and>
    rSequence r' = rSequence r \<and> BlocklistHash r' = BlocklistHash r"
proof -
  have "rows_of db name \<noteq> []" using assms(3, 4) by (metis empty_iff list.set(1) rows_of_set)
  note rows = recalc_rows [OF assms(1, 2) this]
  let ?f = "reflag (global_row (sorted_rows env name db)) (global_flags db (sorted_rows env name db))"
  have "?f r \<in> (\<lambda>r. if rName r = name then ?f r else r) ` set (rows db)"
    using assms(3, 4) by (intro image_eqI [of _ _ r]) simp_all
  then show ?thesis unfolding rows set_map by (rule bexI [rotated]) simp
qed

lemma store_blocks_blocklist:
  "Blocks f \<noteq> [] \<Longrightarrow> blocklists db (BlocksHash f) \<in> {None, Some (map Block_ToWire (Blocks f))} \<Longrightarrow>
   blocklists (store_blocks l s f db) (BlocksHash f) = Some (map Block_ToWire (Blocks f))"
  by (auto simp: store_blocks_def insertBlocksLocked_def Let_def)

lemma store_blocks_none: "Blocks f = [] \<Longrightarrow> store_blocks l s f db = db"
  by (simp add: store_blocks_def)

lemma prepare_simps [simp]:
  "Blocks (prepare_file env f) = Blocks f" "truncated (prepare_file env f) = truncated f"
  "wire_sized (prepare_file env f) = wire_sized f" "wire_sized (f\<lparr>Sequence := s\<rparr>) = wire_sized f"
  by (simp_all add: prepare_file_def Let_def wire_sized_def)

lemma update_file_read:
  assumes "sort_ok (SortFunc env)" and "db_keys db" and "wire_sized f" and "\<not> truncated f"
    and "\<And>x. Sha256 env x \<noteq> []"
    and "Blocks f \<noteq> [] \<longrightarrow> blocklists db (BlocksHash (prepare_file env f)) \<in> {None, Some (map Block_ToWire (Blocks f))}"
    and "map_of (devices db) device = Some idx"
  shows "\<exists>db'. update_file env isLocal skip idx f db = Ok db' \<and>
    GetDeviceFile env device (Name f) db' =
      Some (read_back env (if isLocal then (prepare_file env f)\<lparr>Sequence := nextSequence db\<rparr> else prepare_file env f))"
proof -
  let ?p = "prepare_file env f"
  define q where "q = (if isLocal then ?p\<lparr>Sequence := nextSequence db\<rparr> else ?p)"
  define row where "row = row_of_file idx (if isLocal then None else Some (Sequence f)) ?p"
  define db1 where "db1 = store_blocks isLocal skip ?p (snd (insert_row row db))"
  have q: "wire_sized q" "Blocks q = Blocks f" "truncated q = False"
    using assms(3, 4) by (simp_all add: q_def)
  then obtain w where w: "FileInfo_ToWire True (q\<lparr>Blocks := []\<rparr>) = (Ok w :: (db_error, bep_file_info) outcome)"
    by (simp add: FileInfo_ToWire_def)
  then have name: "wName w = Name q" by (auto simp: FileInfo_ToWire_def wire_of_def split: if_splits)
  define db2 where "db2 = db1\<lparr>fileinfos := (fileinfos db1)(nextSequence db \<mapsto> w)\<rparr>"
  have "q\<lparr>Blocks := []\<rparr> = (if isLocal then ?p\<lparr>Blocks := [], Sequence := nextSequence db\<rparr> else ?p\<lparr>Blocks := []\<rparr>)"
    by (simp add: q_def)
  note w' = w [unfolded this]
  have up: "update_file env isLocal skip idx f db = Ok (recalcGlobalForFile env (Name ?p) db2)"
    using w' by (cases isLocal) (simp_all add: update_file_def Let_def db2_def db1_def row_def q_def insert_row_rows(6))
  have rows2: "rows db2 = rows (snd (insert_row row db))" by (simp add: db2_def db1_def)
  have "nextSequence db2 = nextSequence (snd (insert_row row db))" by (simp add: db2_def db1_def)
  then have keys: "db_keys db2" using insert_row_keys [OF assms(2), of row] keys_rows [OF rows2] by simp
  let ?db' = "recalcGlobalForFile env (Name ?p) db2"
  have "row\<lparr>rSequence := nextSequence db\<rparr> \<in> set (rows db2)" by (simp add: rows2 insert_row_rows(1))
  from recalc_row [OF assms(1) keys this] obtain r where r: "r \<in> set (rows ?db')" "rName r = Name ?p" "DeviceIdx r = idx"
      "rSequence r = nextSequence db" "BlocklistHash r = BlocksHash ?p"
    by (auto simp: row_def)
  have "db_keys ?db'" using recalc_file_ok [OF assms(1) keys] by blast
  then have find: "List.find (\<lambda>r. DeviceIdx r = idx \<and> rName r = NormalizedFilename env (Name f)) (rows ?db') = Some r"
    by (rule find_row) (use r in simp_all)
  have "row_FileInfo env ?db' r = Some (read_back env q)"
  proof (cases "Blocks f = []")
    case True
    then have "BlocksHash ?p = []" by (simp add: prepare_file_def Let_def)
    then show ?thesis
      using FromDB_ToWire(1) [OF q(1) w] q True r by (cases q) (simp add: row_FileInfo_def indirectFI_FileInfo_def FileInfoFromDB_name name read_back_def db2_def)
  next
    case False
    then have "BlocksHash ?p \<noteq> []" using assms(5) by (simp add: prepare_file_def Let_def BlocksHash_of_def)
    moreover have "blocklists db2 (BlocksHash ?p) = Some (map Block_ToWire (Blocks f))"
      using store_blocks_blocklist [of ?p "snd (insert_row row db)" isLocal skip] False assms(6)
      by (simp add: db2_def db1_def insert_row_rows(5))
    ultimately show ?thesis
      using FromDB_ToWire(2) [OF q(1) w] q False r by (cases q) (simp add: row_FileInfo_def indirectFI_FileInfo_def FileInfoFromDB_name name read_back_def db2_def)
  qed
  then show ?thesis
    using up find assms(7) by (simp add: GetDeviceFile_def db2_def db1_def insert_row_rows(4) q_def)
qed

text \<open>C12: A file that is announced is read back: after an update with a complete file, the file of
  the device is the announced one with its name normalised and brought to the form of the platform, its block list hash computed and, for
  the local device, the next sequence number.  No different block list has the same hash.\<close>

theorem stored_file_is_read_back:
  assumes "sort_ok (SortFunc env)" and "db_keys db" and "wire_sized f" and "\<not> truncated f"
    and "\<And>x. Sha256 env x \<noteq> []"
    and "blocklists db (BlocksHash (prepare_file env f)) \<in> {None, Some (map Block_ToWire (Blocks f))}"
  shows "\<exists>db'. Update env device [f] skip db = Ok db' \<and>
    GetDeviceFile env device (Name f) db' =
      Some (read_back env
        (if device = LocalDeviceID then (prepare_file env f)\<lparr>Sequence := nextSequence db\<rparr> else prepare_file env f))"
proof -
  define idx db1 where "idx = fst (deviceIdxLocked device db)" and "db1 = snd (deviceIdxLocked device db)"
  have "db_keys db1" using assms(2) keys_rows [of db1 db] by (simp add: db1_def deviceIdx_tables)
  moreover have "blocklists db1 = blocklists db" "nextSequence db1 = nextSequence db" by (simp_all add: db1_def deviceIdx_tables)
  moreover have "map_of (devices db1) device = Some idx" by (simp add: db1_def idx_def deviceIdx_found)
  ultimately show ?thesis
    using update_file_read [OF assms(1) _ assms(3-5), of db1 device idx "device = LocalDeviceID" skip] assms(6)
    by (auto simp: Update_def case_prod_beta idx_def db1_def)
qed

text \<open>A device that uses a sequence number for a second file takes the first one out of the
  table: the duplicate check of \<open>Update\<close> only sees neighbours in one batch, the row is replaced
  because of the unique index, and only the name of the second file is recalculated.  When the
  first file was the global one, no global version is left, although other devices have the file.\<close>

theorem reused_sequence_leaves_no_global:
  assumes "sort_ok (SortFunc env)" and "db_keys db" and "\<forall>n. file_ok db n"
    and "map_of (devices db) device = Some idx" and "device \<noteq> LocalDeviceID"
    and "r \<in> set (rows db)" and "is_global r" and "DeviceIdx r = idx" and "rRemoteSequence r = Some (Sequence f)"
    and "rName r \<noteq> NormalizedFilename env (Name f)"
    and "Update env device [f] skip db = Ok db'"
  shows "(\<forall>g \<in> set (rows_of db' (rName r)). \<not> is_global g) \<and>
    (\<forall>x \<in> set (rows_of db (rName r)). DeviceIdx x \<noteq> idx \<longrightarrow> x \<in> set (rows_of db' (rName r)))"
proof -
  let ?p = "prepare_file env f"
  let ?row = "row_of_file idx (Some (Sequence f)) ?p"
  have up: "update_file env False skip idx f db = Ok db'"
    using assms(4, 5, 11) by (auto simp: Update_def deviceIdxLocked_def)
  obtain db1 where db': "db' = recalcGlobalForFile env (Name ?p) db1" and rows1: "rows db1 = rows (snd (insert_row ?row db))"
      and next1: "nextSequence db1 = nextSequence db + 1"
    by (rule update_file_Ok [OF up], rule that) simp_all
  have "db_keys db1" using insert_row_keys [OF assms(2), of ?row] keys_rows [OF rows1] next1 by (simp add: insert_row_rows)
  then have "rows_of db' (rName r) = rows_of db1 (rName r)"
    using recalc_file_ok [OF assms(1), of db1 "Name ?p"] assms(10) by (simp add: db')
  also have "\<dots> = filter (\<lambda>x. \<not> replaces ?row x) (rows_of db (rName r))"
    using assms(10) by (simp add: rows_of_def rows1 insert_row_rows(1) conj_commute)
  finally have rows: "rows_of db' (rName r) = filter (\<lambda>x. \<not> replaces ?row x) (rows_of db (rName r))" .
  have "r \<in> set (rows_of db (rName r))" using assms(6) by (simp add: rows_of_set)
  then have "x = r" if "x \<in> set (rows_of db (rName r))" "is_global x" for x
    using one_global [of db "rName r"] assms(3, 7) that by (metis empty_iff list.set(1))
  moreover have "replaces ?row r" using assms(8, 9) by (simp add: replaces_def)
  ultimately show ?thesis by (auto simp: rows replaces_def)
qed

section \<open>Examples\<close>

definition sample_env :: db_env where
  "sample_env = \<lparr>NormalizedFilename = (\<lambda>n. n), NativeFilename = (\<lambda>n. n), Sha256 = (\<lambda>_. [0]), SortFunc = insertionSort, Now = 0\<rparr>"

lemma sample_env_sort [simp]: "sort_ok (SortFunc sample_env)"
  by (simp add: sample_env_def insertionSort_ok)

lemma sample_remote: "([1] = LocalDeviceID) = False"
proof -
  have "length LocalDeviceID = 32" by (simp add: LocalDeviceID_def repeatedDeviceID_def DeviceIDLength_def)
  then show ?thesis by (metis One_nat_def length_Cons list.size(3) numeral_eq_one_iff num.distinct(1))
qed

lemma new_folder_keys: "db_keys (new_folder_db lww)"
  using new_folder_ok by (simp add: db_ok_def)

theorem stored_file_is_read_back_witness:
  "\<exists>db'. Update sample_env [1] [sample_file] False (new_folder_db False) = Ok db' \<and>
    GetDeviceFile sample_env [1] (Name sample_file) db' =
      Some (read_back sample_env
        (if [1] = LocalDeviceID then (prepare_file sample_env sample_file)\<lparr>Sequence := nextSequence (new_folder_db False)\<rparr>
         else prepare_file sample_env sample_file))"
  by (rule stored_file_is_read_back)
     (simp_all add: new_folder_keys sample_file_sized, simp_all add: sample_env_def new_folder_db_def deviceIdxLocked_def)

lemma GetDeviceFile_row: "GetDeviceFile env device name db = Some f \<Longrightarrow> rows_of db (NormalizedFilename env name) \<noteq> []"
  by (auto simp: GetDeviceFile_def rows_of_def filter_empty_conv find_Some_iff split: option.splits)

lemma sample_update:
  obtains db' where "Update sample_env [1] [sample_file] False (new_folder_db False) = Ok db'"
    and "rows_of db' ''a'' \<noteq> []" and "db_reach sample_env {} db'"
proof -
  let ?db = "snd (deviceIdxLocked [1] (new_folder_db False))"
  have new: "rows (new_folder_db False) = []" "blocklists (new_folder_db False) = Map.empty"
    by (simp_all add: new_folder_db_def deviceIdxLocked_def)
  note loc = sample_remote
  have "db_keys ?db" using new_folder_keys keys_rows [of ?db "new_folder_db False"] by (simp add: deviceIdx_tables)
  then obtain db' where db': "update_file sample_env False False (fst (deviceIdxLocked [1] (new_folder_db False))) sample_file ?db = Ok db'"
      "GetDeviceFile sample_env [1] (Name sample_file) db' \<noteq> None"
    using update_file_read [of sample_env ?db sample_file "[1]" _ False False] new sample_file_sized
    by (auto simp: deviceIdx_tables deviceIdx_found sample_env_def insertionSort_ok)
  show ?thesis
  proof (rule that)
    show up: "Update sample_env [1] [sample_file] False (new_folder_db False) = Ok db'"
      using db'(1) by (simp add: Update_def case_prod_beta loc)
    show "rows_of db' ''a'' \<noteq> []" using db'(2) GetDeviceFile_row [of sample_env "[1]" "''a''" db']
      by (auto simp: sample_env_def sample_file_def)
    have "retitled sample_env False (fst (deviceIdxLocked [1] (new_folder_db False))) [sample_file] (new_folder_db False) = {}"
      by (simp add: retitled_def new)
    then show "db_reach sample_env {} db'"
      using db_reach.update [OF db_reach.init up] loc by simp
  qed
qed

theorem every_file_has_one_global_witness:
  "\<exists>db. db_reach sample_env {} db \<and> (\<exists>!g. g \<in> set (rows_of db ''a'') \<and> is_global g)"
  using every_file_has_one_global [OF _ sample_env_sort, of "{}"] by (metis empty_iff sample_update)

text \<open>The collection of old deletions does not recalculate: when the global record of a name is a
  deletion that it forgets, and a device still announces the file, no global version is left.\<close>

theorem forgotten_deletion_leaves_no_global:
  assumes "db_ok lost db" and "0 < retention"
    and "g \<in> set (rows db)" and "is_global g" and "collectable (now - retention) g"
    and "r \<in> set (rows_of db (rName g))" and "\<not> rDeleted r"
  shows "r \<in> set (rows_of (garbageCollectOldDeletedLocked retention now db) (rName g)) \<and>
    (\<forall>x \<in> set (rows_of (garbageCollectOldDeletedLocked retention now db) (rName g)). \<not> is_global x)"
proof -
  let ?P = "collectable (now - retention)"
  have rows: "rows_of (garbageCollectOldDeletedLocked retention now db) (rName g) = filter (\<lambda>r. \<not> ?P r) (rows_of db (rName g))"
    using assms(2) by (simp add: garbageCollectOldDeletedLocked_def rows_of_delete)
  have one: "length (filter is_global (rows_of db (rName g))) \<le> 1" using assms(1) by (simp add: db_ok_def file_fine_def)
  have "x = g" if "x \<in> set (rows_of db (rName g))" "is_global x" for x
  proof -
    have "x \<in> set (filter is_global (rows_of db (rName g)))" "g \<in> set (filter is_global (rows_of db (rName g)))"
      using that assms(3, 4) by (auto simp: rows_of_set)
    then show ?thesis using one by (cases "filter is_global (rows_of db (rName g))") auto
  qed
  then show ?thesis using assms(5-7) by (auto simp: rows collectable_def)
qed

definition forgotten_db :: folder_db where
  "forgotten_db = (new_folder_db False)\<lparr>devices := [(LocalDeviceID, 1), ([1], 2)], nextSequence := 3,
     rows := [row_b\<lparr>rSequence := 1, DeviceIdx := 1, rDeleted := True, rModified := 5, rLocalFlags := FlagLocalGlobal\<rparr>,
              row_c\<lparr>rSequence := 2, rDeleted := False\<rparr>]\<rparr>"

theorem forgotten_deletion_leaves_no_global_witness:
  "\<forall>x \<in> set (rows_of (garbageCollectOldDeletedLocked 10 100 forgotten_db) ''a''). \<not> is_global x"
proof -
  let ?g = "row_b\<lparr>rSequence := 1, DeviceIdx := 1, rDeleted := True, rModified := 5, rLocalFlags := FlagLocalGlobal\<rparr>"
    and ?r = "row_c\<lparr>rSequence := 2, rDeleted := False\<rparr>"
  have rows: "rows forgotten_db = [?g, ?r]" "nextSequence forgotten_db = 3" by (simp_all add: forgotten_db_def)
  have "file_fine forgotten_db n" for n
    by (simp add: file_fine_def rows_of_def rows is_global_bit is_needed_bit row_samples flag_bits)
  moreover have "db_keys forgotten_db" by (simp add: db_keys_def rows row_samples)
  ultimately have "db_ok UNIV forgotten_db" by (simp add: db_ok_def)
  moreover have "rName ?g = ''a''" by (simp add: row_samples)
  moreover have "collectable (100 - 10) ?g" by (simp add: collectable_def) (simp add: flag_defs)
  moreover have "is_global ?g" by (simp add: is_global_bit flag_bits)
  moreover have "?r \<in> set (rows_of forgotten_db ''a'')" by (simp add: rows_of_def rows row_samples)
  ultimately show ?thesis
    using forgotten_deletion_leaves_no_global [of UNIV forgotten_db 10 ?g 100 ?r] by (simp add: rows)
qed

text \<open>Two devices announce a file, the first one under the sequence number of the sample file.\<close>

definition shared_db :: folder_db where
  "shared_db = (new_folder_db False)\<lparr>devices := [(LocalDeviceID, 1), ([1], 2)], nextSequence := 3,
     rows := [row_b\<lparr>rSequence := 1, rRemoteSequence := Some 3, rLocalFlags := FlagLocalGlobal\<rparr>, row_c\<lparr>rSequence := 2\<rparr>]\<rparr>"

lemma shared_db_ok: "db_keys shared_db" "file_ok shared_db n"
proof -
  have rows: "rows shared_db = [row_b\<lparr>rSequence := 1, rRemoteSequence := Some 3, rLocalFlags := FlagLocalGlobal\<rparr>, row_c\<lparr>rSequence := 2\<rparr>]"
      "nextSequence shared_db = 3"
    by (simp_all add: shared_db_def)
  show "db_keys shared_db" by (simp add: db_keys_def rows row_samples)
  show "file_ok shared_db n"
    by (simp add: file_ok_def rows_of_def rows is_global_bit is_needed_bit row_samples flag_bits)
qed

theorem reused_sequence_leaves_no_global_witness:
  "\<exists>db'. Update sample_env [1] [sample_file\<lparr>Name := ''b''\<rparr>] False shared_db = Ok db' \<and>
    (\<forall>g \<in> set (rows_of db' ''a''). \<not> is_global g) \<and> row_c\<lparr>rSequence := 2\<rparr> \<in> set (rows_of db' ''a'')"
proof -
  let ?f = "sample_file\<lparr>Name := ''b''\<rparr>" and ?r = "row_b\<lparr>rSequence := 1, rRemoteSequence := Some 3, rLocalFlags := FlagLocalGlobal\<rparr>"
  note loc = sample_remote
  have dev: "map_of (devices shared_db) [1] = Some 2" by (auto simp: shared_db_def loc)
  have "wire_sized ?f" "\<not> truncated ?f" using sample_file_sized by (simp_all add: wire_sized_def)
  moreover have "blocklists shared_db = Map.empty" by (simp add: shared_db_def new_folder_db_def deviceIdxLocked_def)
  ultimately obtain db' where "update_file sample_env False False 2 ?f shared_db = Ok db'"
    using update_file_read [OF sample_env_sort shared_db_ok(1) _ _ _ _ dev, of ?f False False]
    by (auto simp: sample_env_def)
  then have up: "Update sample_env [1] [?f] False shared_db = Ok db'"
    using dev loc by (simp add: Update_def deviceIdxLocked_def)
  have rows: "rows shared_db = [?r, row_c\<lparr>rSequence := 2\<rparr>]" by (simp add: shared_db_def)
  have "rName ?r = ''a''" "rName row_c = ''a''" "DeviceIdx row_c = 3" by (simp_all add: row_samples)
  then show ?thesis
    using reused_sequence_leaves_no_global [OF sample_env_sort shared_db_ok(1) _ dev, of ?r ?f False db'] up loc shared_db_ok(2)
    by (simp add: rows rows_of_def sample_env_def sample_file_def is_global_bit flag_bits) (simp add: row_samples)
qed

definition sample_db :: folder_db where
  "sample_db = (new_folder_db False)\<lparr>rows := [row_a, row_b], nextSequence := 3, localDeviceIdx := 2\<rparr>"

lemma sample_db_rows:
  "rows_of sample_db ''a'' = [row_a, row_b]" "localDeviceIdx sample_db = 2" "db_keys sample_db"
  by (simp_all add: sample_db_def rows_of_def db_keys_def row_samples)

lemma sample_conflict_free: "conflict_free [row_a, row_b]"
proof -
  have "wf_vector (rVersion row_a)" "wf_vector (rVersion row_b)" by (simp_all add: row_samples wf_vector_def)
  moreover have "Compare (rVersion row_b) (rVersion row_a) = Lesser"
    using Compare_flip [of "rVersion row_b" "rVersion row_a"] sample_versions(1) by simp
  ultimately show ?thesis
    using sample_versions(1) by (simp add: conflict_free_def Concurrent_def Compare_refl) (simp add: row_samples)
qed

theorem newest_valid_version_is_global_witness:
  "\<exists>g \<in> set (rows_of (recalcGlobalForFile sample_env ''a'' sample_db) ''a''). is_global g \<and> GreaterEqual (rVersion g) (rVersion row_a)"
  using newest_valid_version_is_global [OF sample_env_sort sample_db_rows(3), of "''a''"]
  by (simp add: sample_db_rows sample_conflict_free sample_valid) blast

end
