(* ===== verification/Folder_Counts.thy ===== *)
theory Folder_Counts
  imports Folder_Global "HOL-Library.Multiset"
begin

text \<open>
  The table \<open>counts\<close> that triggers keep beside the table of files, and that the sizes of a folder are
  read from (\<^verbatim>\<open>40-counts.sql\<close>, \<^verbatim>\<open>folderdb_counts.go\<close>).  The triggers are in \<^verbatim>\<open>Folder_DB\<close>, with the
  statements that run them; here it is shown that in every reachable state each group of the table
  holds the number of its files and the sum of their sizes, whatever groups a query selects.
\<close>

section \<open>What the table should hold\<close>

type_synonym group_key = "int \<times> FileInfoType \<times> uint32 \<times> bool"

definition counts_key :: "fileRow \<Rightarrow> group_key" where
  "counts_key r = (DeviceIdx r, rType r, rLocalFlags r, rDeleted r)"

definition entry_key :: "int \<times> countsRow \<Rightarrow> group_key" where
  "entry_key e = (fst e, cType (snd e), cLocalFlags (snd e), cDeleted (snd e))"

text \<open>What the files are to the table: their groups and sizes, in any order.\<close>

definition file_groups :: "fileRow list \<Rightarrow> (group_key \<times> int) multiset" where
  "file_groups rs = mset (map (\<lambda>r. (counts_key r, rSize r)) rs)"

definition table_sum :: "(countsRow \<Rightarrow> int) \<Rightarrow> (group_key \<Rightarrow> bool) \<Rightarrow> (int \<times> countsRow) list \<Rightarrow> int" where
  "table_sum g Q tab = sum_list (map (\<lambda>e. g (snd e)) (filter (\<lambda>e. Q (entry_key e)) tab))"

definition files_sum :: "(int \<Rightarrow> int) \<Rightarrow> (group_key \<Rightarrow> bool) \<Rightarrow> (group_key \<times> int) multiset \<Rightarrow> int" where
  "files_sum h Q fs = (\<Sum>x \<in># fs. if Q (fst x) then h (snd x) else 0)"

definition counts_ok :: "(int \<times> countsRow) list \<Rightarrow> (group_key \<times> int) multiset \<Rightarrow> bool" where
  "counts_ok tab fs \<longleftrightarrow> distinct (map entry_key tab) \<and>
     (\<forall>Q. table_sum Count Q tab = files_sum (\<lambda>_. 1) Q fs \<and> table_sum cSize Q tab = files_sum id Q fs)"

lemma counts_match_key: "counts_match r e \<longleftrightarrow> entry_key e = counts_key r"
  by (auto simp: counts_match_def entry_key_def counts_key_def)

lemma counts_add_key [simp]: "entry_key (counts_add n r e) = entry_key e"
  by (simp add: counts_add_def entry_key_def)

lemma table_sum_simps [simp]:
  "table_sum g Q [] = 0" "table_sum g Q (e # tab) = (if Q (entry_key e) then g (snd e) else 0) + table_sum g Q tab"
  "table_sum g Q (tab @ tab') = table_sum g Q tab + table_sum g Q tab'"
  by (simp_all add: table_sum_def)

lemma files_sum_simps [simp]:
  "files_sum h Q {#} = 0" "files_sum h Q (add_mset x fs) = (if Q (fst x) then h (snd x) else 0) + files_sum h Q fs"
  by (simp_all add: files_sum_def)

section \<open>The triggers\<close>

lemma table_sum_no_match:
  "counts_key r \<notin> entry_key ` set tab \<Longrightarrow> map (counts_add n r) tab = tab"
  by (induction tab) (auto simp: counts_add_def counts_match_key)

lemma table_sum_add:
  assumes "distinct (map entry_key tab)" and "counts_key r \<in> entry_key ` set tab"
    and "\<And>e. counts_match r e \<Longrightarrow> g (snd (counts_add n r e)) = g (snd e) + d"
  shows "table_sum g Q (map (counts_add n r) tab) = table_sum g Q tab + (if Q (counts_key r) then d else 0)"
  using assms(1, 2)
proof (induction tab)
  case (Cons e tab)
  show ?case
  proof (cases "entry_key e = counts_key r")
    case True
    then have "counts_key r \<notin> entry_key ` set tab" using Cons.prems(1) by simp
    then show ?thesis
      using True assms(3) [of e] Cons.prems(1) by (simp add: table_sum_no_match counts_match_key)
  next
    case False
    then have "counts_add n r e = e" by (simp add: counts_add_def counts_match_key)
    then show ?thesis using False Cons by auto
  qed
qed simp

lemma table_sum_adds:
  assumes "distinct (map entry_key tab)" and "counts_key r \<in> entry_key ` set tab"
  shows "table_sum Count Q (map (counts_add n r) tab) = table_sum Count Q tab + (if Q (counts_key r) then n else 0)"
    and "table_sum cSize Q (map (counts_add n r) tab) = table_sum cSize Q tab + (if Q (counts_key r) then n * rSize r else 0)"
    and "distinct (map entry_key (map (counts_add n r) tab))"
proof -
  have "map entry_key (map (counts_add n r) tab) = map entry_key tab" by simp
  then show "distinct (map entry_key (map (counts_add n r) tab))" using assms(1) by metis
qed (rule table_sum_add [OF assms], simp add: counts_add_def)+

lemma present:
  assumes "counts_ok tab fs" and "x \<in># fs"
  shows "fst x \<in> entry_key ` set tab"
proof (rule ccontr)
  assume "fst x \<notin> entry_key ` set tab"
  then have "filter (\<lambda>e. entry_key e = fst x) tab = []" by (force simp: filter_empty_conv)
  then have "table_sum Count (\<lambda>k. k = fst x) tab = 0" by (simp add: table_sum_def)
  moreover obtain fs' where "fs = add_mset x fs'" using assms(2) by (metis mset_add)
  then have "files_sum (\<lambda>_. 1) (\<lambda>k. k = fst x) fs = 1 + files_sum (\<lambda>_. 1) (\<lambda>k. k = fst x) fs'" by simp
  moreover have "0 \<le> files_sum (\<lambda>_. 1) (\<lambda>k. k = fst x) fs'" by (induction fs') auto
  moreover have "table_sum Count (\<lambda>k. k = fst x) tab = files_sum (\<lambda>_. 1) (\<lambda>k. k = fst x) fs"
    using assms(1) by (simp add: counts_ok_def)
  ultimately show False by linarith
qed

lemma counts_insert_ok:
  assumes "counts_ok tab fs"
  shows "counts_ok (counts_insert r tab) (add_mset (counts_key r, rSize r) fs)"
proof (cases "list_ex (counts_match r) tab")
  case True
  then have "counts_key r \<in> entry_key ` set tab" by (auto simp: list_ex_iff counts_match_key intro: rev_image_eqI)
  with assms show ?thesis
    using True table_sum_adds [where tab = tab and r = r and n = 1] by (simp add: counts_ok_def counts_insert_def del: map_map)
next
  case False
  then have "counts_key r \<notin> entry_key ` set tab" by (auto simp: list_ex_iff counts_match_key)
  then show ?thesis
    using False assms by (simp add: counts_ok_def counts_insert_def) (simp add: entry_key_def counts_key_def)
qed

lemma counts_delete_ok:
  assumes "counts_ok tab (add_mset (counts_key r, rSize r) fs)"
  shows "counts_ok (counts_delete r tab) fs"
proof -
  have "counts_key r \<in> entry_key ` set tab" using present [OF assms, of "(counts_key r, rSize r)"] by simp
  with assms show ?thesis
    using table_sum_adds [where tab = tab and r = r and n = "- 1"] by (simp add: counts_ok_def counts_delete_def del: map_map)
qed

lemma counts_update_ok:
  assumes "counts_ok tab (add_mset (counts_key r, rSize r) fs)" and "r' = r\<lparr>rLocalFlags := fl\<rparr>"
  shows "counts_ok (counts_update r r' tab) (add_mset (counts_key r', rSize r') fs)"
proof (cases "rLocalFlags r' = rLocalFlags r")
  case True
  then have "r' = r" using assms(2) by simp
  then show ?thesis using assms(1) by (simp add: counts_update_def)
next
  case False
  have "counts_ok (counts_insert r' tab) (add_mset (counts_key r, rSize r) (add_mset (counts_key r', rSize r') fs))"
    using counts_insert_ok [OF assms(1), of r'] by (simp add: add_mset_commute)
  then show ?thesis using False counts_delete_ok by (simp add: counts_update_def)
qed

section \<open>The statements\<close>

definition tables_agree :: "folder_db \<Rightarrow> bool" where
  "tables_agree db \<longleftrightarrow> counts_ok (countsTable db) (file_groups (rows db))"

lemma tables_agree_cong:
  "rows db = rows db' \<Longrightarrow> countsTable db = countsTable db' \<Longrightarrow> tables_agree db = tables_agree db'"
  by (simp add: tables_agree_def)

lemma delete_all_ok:
  "counts_ok tab (file_groups rs + fs) \<Longrightarrow> counts_ok (fold counts_delete rs tab) fs"
  by (induction rs arbitrary: tab) (simp_all add: file_groups_def counts_delete_ok)

lemma update_all_ok:
  assumes "\<And>r. \<exists>fl. f r = r\<lparr>rLocalFlags := fl\<rparr>" and "counts_ok tab (file_groups rs + fs)"
  shows "counts_ok (fold (\<lambda>r. counts_update r (f r)) rs tab) (file_groups (map f rs) + fs)"
  using assms(2)
proof (induction rs arbitrary: tab fs)
  case (Cons r rs)
  obtain fl where "f r = r\<lparr>rLocalFlags := fl\<rparr>" using assms(1) by blast
  then have "counts_ok (counts_update r (f r) tab) (file_groups rs + add_mset (counts_key (f r), rSize (f r)) fs)"
    using counts_update_ok [of tab r "file_groups rs + fs"] Cons.prems by (simp add: file_groups_def)
  from Cons.IH [OF this] show ?case by (simp add: file_groups_def)
qed simp

lemma update_flags_agree:
  "(\<And>r. \<exists>fl. f r = r\<lparr>rLocalFlags := fl\<rparr>) \<Longrightarrow> tables_agree db \<Longrightarrow> tables_agree (update_flags f db)"
  using update_all_ok [of f "countsTable db" "rows db" "{#}"] by (simp add: tables_agree_def update_flags_def)

lemma flags_only: "\<exists>fl. r = r\<lparr>rLocalFlags := fl\<rparr>" "\<exists>fl. r\<lparr>rLocalFlags := f\<rparr> = r\<lparr>rLocalFlags := fl\<rparr>"
  by (rule exI [of _ "rLocalFlags r"], simp) blast

lemma flags_agree:
  "tables_agree db \<Longrightarrow> tables_agree (set_flags g flags db)" "tables_agree db \<Longrightarrow> tables_agree (clear_others g db)"
  unfolding set_flags_def clear_others_def by (rule update_flags_agree, auto simp: flags_only)+

lemma recalc_agree: "tables_agree db \<Longrightarrow> tables_agree (recalcGlobalForFile env name db)"
proof -
  assume "tables_agree db"
  then have "tables_agree (clear_others g (set_flags g flags db))" for g flags by (simp add: flags_agree)
  moreover have "countsTable (update_ancestor now es db') = countsTable db'" for now es db'
    by (simp add: update_ancestor_def putAncestorLocked_def deleteAncestorLocked_def Let_def)
  then have "tables_agree (update_ancestor now es db') = tables_agree db'" for now es db' by (simp add: tables_agree_def)
  ultimately show ?thesis using \<open>tables_agree db\<close> by (simp add: recalcGlobalForFile_def Let_def)
qed

lemma recalc_names_agree: "tables_agree db \<Longrightarrow> tables_agree (recalc_names env names db)"
  by (induction names arbitrary: db) (simp_all add: recalc_agree)

lemma delete_agree: "tables_agree db \<Longrightarrow> tables_agree (delete_rows P db)"
proof -
  have "file_groups (filter P rs) + file_groups (filter (\<lambda>r. \<not> P r) rs) = file_groups rs" for rs
    by (induction rs) (simp_all add: file_groups_def)
  then show "tables_agree db \<Longrightarrow> tables_agree (delete_rows P db)"
    using delete_all_ok [of "countsTable db" "filter P (rows db)" "file_groups (filter (\<lambda>r. \<not> P r) (rows db))"]
    by (simp add: tables_agree_def delete_rows_def)
qed

lemma insert_row_agree:
  assumes "tables_agree db"
  shows "tables_agree (snd (insert_row new db))"
proof -
  let ?row = "new\<lparr>rSequence := nextSequence db\<rparr>"
  have "tables_agree (delete_rows (replaces ?row) db)" using assms by (rule delete_agree)
  from counts_insert_ok [OF this [unfolded tables_agree_def], of ?row] show ?thesis
    by (simp add: insert_row_def Let_def tables_agree_def file_groups_def)
qed

lemma update_file_agree:
  assumes "tables_agree db" and "update_file env isLocal skip idx f db = Ok db'"
  shows "tables_agree db'"
proof -
  have "tables_agree ((store_blocks l s p (snd (insert_row row db)))\<lparr>fileinfos := i\<rparr>)" for l s p row i
    using insert_row_agree [OF assms(1), of row] tables_agree_cong
    by (simp add: store_blocks_def insertBlocksLocked_def tables_agree_def Let_def split: option.split)
  then show ?thesis using assms(2) recalc_agree by (auto simp: update_file_def Let_def split: if_splits)
qed

lemma update_loop_agree:
  "tables_agree db \<Longrightarrow> update_loop env isLocal skip idx prev fs db = Ok db' \<Longrightarrow> tables_agree db'"
proof (induction fs arbitrary: db prev)
  case (Cons f fs)
  then show ?case using update_file_agree by (fastforce split: if_splits)
qed simp

text \<open>Dropping a device: its groups go with it, when their counts are down to zero.\<close>

lemma counts_ok_filter:
  assumes "counts_ok tab fs" and "\<And>x. x \<in># fs \<Longrightarrow> P (fst x)"
  shows "counts_ok (filter (\<lambda>e. P (entry_key e)) tab) fs"
proof -
  have table: "table_sum g Q (filter (\<lambda>e. P (entry_key e)) tab) = table_sum g (\<lambda>k. P k \<and> Q k) tab" for g Q
    by (simp add: table_sum_def conj_commute)
  have files: "files_sum h (\<lambda>k. P k \<and> Q k) fs = files_sum h Q fs" for h Q
    using assms(2) by (induction fs) auto
  show ?thesis using assms(1) files unfolding counts_ok_def table by (simp add: distinct_map_filter)
qed

lemma DropDevice_agree:
  assumes "tables_agree db" and "DropDevice env device db = Ok db'"
  shows "tables_agree db'"
proof (cases "map_of (devices db) device")
  case None
  then show ?thesis
    using assms recalc_names_agree by (auto simp: DropDevice_def recalcGlobalForFolder_def split: if_splits)
next
  case (Some idx)
  let ?del = "delete_rows (\<lambda>r. DeviceIdx r = idx) db"
  have "counts_ok (filter (\<lambda>e. fst (entry_key e) \<noteq> idx) (countsTable ?del)) (file_groups (rows ?del))"
    using delete_agree [OF assms(1), of "\<lambda>r. DeviceIdx r = idx", unfolded tables_agree_def]
    by (rule counts_ok_filter) (auto simp: file_groups_def delete_rows_def counts_key_def)
  then have "tables_agree (?del\<lparr>devices := d, countsTable := filter (\<lambda>e. fst e \<noteq> idx) (countsTable ?del), indexids := i\<rparr>)" for d i
    by (simp add: tables_agree_def entry_key_def)
  then show ?thesis
    using assms(2) Some recalc_names_agree
    by (auto simp: DropDevice_def recalcGlobalForFolder_def Let_def split: if_splits)
qed

lemma deviceIdx_agree: "tables_agree (snd (deviceIdxLocked dev db)) = tables_agree db"
  by (rule tables_agree_cong) (simp_all add: deviceIdx_tables)

section \<open>Reachable states\<close>

lemma reach_agree: "db_reach env lost db \<Longrightarrow> tables_agree db"
proof (induction rule: db_reach.induct)
  case (init lww)
  then show ?case by (simp add: tables_agree_def new_folder_db_def deviceIdxLocked_def counts_ok_def file_groups_def)
next
  case (update lost db device fs skip db')
  then show ?case using update_loop_agree [of "snd (deviceIdxLocked device db)"]
    by (simp add: Update_def case_prod_beta deviceIdx_agree)
next
  case (drop_device lost db device db')
  then show ?case using DropDevice_agree by blast
next
  case (drop_all lost db device)
  have "tables_agree ((snd (deviceIdxLocked device db))\<lparr>indexids := i\<rparr>)" for i
    using drop_all(2) deviceIdx_agree [of device db] by (simp add: tables_agree_def)
  then show ?case
    by (simp add: DropAllFiles_def case_prod_beta Let_def recalcGlobalForFolder_def recalc_names_agree delete_agree)
next
  case (drop_named lost db device names)
  then show ?case
    using deviceIdx_agree [of device db]
    by (simp add: DropFilesNamed_def case_prod_beta Let_def recalc_names_agree delete_agree)
next
  case (recalc_all lost db)
  then show ?case by (simp add: recalcAllGlobalsForFolder_def recalc_names_agree)
next
  case (collect lost db now retention)
  then show ?case by (simp add: garbageCollectOldDeletedLocked_def delete_agree)
qed (simp_all add: tables_agree_def other_tables)

text \<open>Whatever groups a query selects, their counts and sizes are those of the files in them.\<close>

lemma files_sum_rows:
  "files_sum h Q (file_groups rs) = sum_list (map (\<lambda>r. h (rSize r)) (filter (\<lambda>r. Q (counts_key r)) rs))"
  by (induction rs) (simp_all add: file_groups_def)

lemma reach_counts:
  assumes "db_reach env lost db"
  shows "table_sum Count Q (countsTable db) = int (length (filter (\<lambda>r. Q (counts_key r)) (rows db)))"
    and "table_sum cSize Q (countsTable db) = sum_list (map rSize (filter (\<lambda>r. Q (counts_key r)) (rows db)))"
  using reach_agree [OF assms] unfolding tables_agree_def counts_ok_def files_sum_rows by (simp_all add: sum_list_triv)

end
