(* ===== verification/Folder_Queries.thy ===== *)
theory Folder_Queries
  imports Folder_Counts "HOL-Library.List_Lexorder" "HOL-Library.Char_ord"
begin

text \<open>
  What is read from the database of a folder, \<^verbatim>\<open>internal/db/sqlite/folderdb_global.go\<close>,
  \<^verbatim>\<open>folderdb_counts.go\<close>, \<^verbatim>\<open>folderdb_local.go\<close>,
  \<^verbatim>\<open>folderdb_indexid.go\<close> and \<^verbatim>\<open>util.go\<close>.

  A query is a list of rows; where it has no order of its own the rows come in the order of the
  table, and ties of an order in that order, too.  The counts of a device that is not asked for its
  needs are read from the table \<open>counts\<close>, which triggers keep (\<^verbatim>\<open>Folder_Counts\<close>).
  Device identifiers are the identifiers themselves, not their texts.
\<close>

section \<open>Names with a prefix\<close>

text \<open>The loop runs from the last byte to the first and stops at one that can be incremented.\<close>

definition next_char :: "char \<Rightarrow> char" where
  "next_char c = char_of (of_char c + 1 :: nat)"

fun increment_rev :: "string \<Rightarrow> string" where
  "increment_rev [] = []"
| "increment_rev (c # cs) = (if of_char c < (0xff :: nat) then next_char c # cs else c # increment_rev cs)"

definition prefixEnd :: "string \<Rightarrow> (db_error, string) outcome" where
  "prefixEnd s = (if s = [] then Panic else Ok (rev (increment_rev (rev s))))"

definition in_range :: "string \<Rightarrow> string \<Rightarrow> string \<Rightarrow> bool" where
  "in_range lo hi s \<longleftrightarrow> lo \<le> s \<and> s < hi"

section \<open>Global files\<close>

definition with_info :: "folder_db \<Rightarrow> fileRow list \<Rightarrow> fileRow list" where
  "with_info db rs = filter (\<lambda>r. fileinfos db (rSequence r) \<noteq> None) rs"

definition GetGlobalFile :: "db_env \<Rightarrow> string \<Rightarrow> folder_db \<Rightarrow> FileInfo option" where
  "GetGlobalFile env file db =
     (case List.find (\<lambda>f. rName f = NormalizedFilename env file \<and> is_global f) (with_info db (rows db)) of
        None \<Rightarrow> None
      | Some r \<Rightarrow> row_FileInfo env db r)"

definition device_of :: "folder_db \<Rightarrow> int \<Rightarrow> bytes list" where
  "device_of db idx = map fst (filter (\<lambda>(d, i). i = idx) (devices db))"

text \<open>Devices are listed in the order of their texts.\<close>

definition id_text :: "bytes \<Rightarrow> string" where
  "id_text d = (case DeviceID_String d of Ok s \<Rightarrow> s | _ \<Rightarrow> [])"

definition GetGlobalAvailability :: "db_env \<Rightarrow> string \<Rightarrow> folder_db \<Rightarrow> bytes list" where
  "GetGlobalAvailability env file db =
     sort_key id_text
       (concat (map (\<lambda>f. concat (map (\<lambda>g. device_of db (DeviceIdx f))
          (filter (\<lambda>g. rVersionText g = rVersionText f \<and> rName g = rName f \<and> is_global g) (rows db))))
        (filter (\<lambda>f. rName f = NormalizedFilename env file \<and> DeviceIdx f \<noteq> localDeviceIdx db) (rows db))))"

record FileMetadata =
  mName :: string
  mSequence :: int
  ModNanos :: int
  mSize :: int
  mLocalFlags :: uint32
  mType :: FileInfoType
  mDeleted :: bool

definition metadata_of :: "fileRow \<Rightarrow> FileMetadata" where
  "metadata_of f =
     \<lparr>mName = rName f, mSequence = rSequence f, ModNanos = rModified f, mSize = rSize f, mLocalFlags = rLocalFlags f,
      mType = rType f, mDeleted = rDeleted f\<rparr>"

definition native_metadata :: "db_env \<Rightarrow> FileMetadata \<Rightarrow> FileMetadata" where
  "native_metadata env m = m\<lparr>mName := NativeFilename env (mName m)\<rparr>"

definition AllGlobalFiles :: "db_env \<Rightarrow> folder_db \<Rightarrow> FileMetadata list" where
  "AllGlobalFiles env db = map (native_metadata env \<circ> metadata_of) (sort_key rName (filter is_global (rows db)))"

definition AllGlobalFilesPrefix :: "db_env \<Rightarrow> string \<Rightarrow> folder_db \<Rightarrow> (db_error, FileMetadata list) outcome" where
  "AllGlobalFilesPrefix env prefix db =
     (if prefix = [] then Ok (AllGlobalFiles env db)
      else
        let prefix = NormalizedFilename env prefix
        in obind (prefixEnd prefix) (\<lambda>upper.
             Ok (map (native_metadata env \<circ> metadata_of)
               (sort_key rName (filter (\<lambda>f. in_range prefix upper (rName f) \<and> is_global f) (rows db))))))"

section \<open>Needed files\<close>




definition ignored :: "fileRow \<Rightarrow> bool" where
  "ignored r \<longleftrightarrow> (rLocalFlags r AND FlagLocalIgnored) \<noteq> 0"








section \<open>Counts\<close>

record Counts =
  nFiles :: int
  nDirectories :: int
  nSymlinks :: int
  nDeleted :: int
  nBytes :: int

definition Counts_Add :: "Counts \<Rightarrow> Counts \<Rightarrow> Counts" where
  "Counts_Add c other =
     \<lparr>nFiles = nFiles c + nFiles other, nDirectories = nDirectories c + nDirectories other,
      nSymlinks = nSymlinks c + nSymlinks other, nDeleted = nDeleted c + nDeleted other, nBytes = nBytes c + nBytes other\<rparr>"

definition TotalItems :: "Counts \<Rightarrow> int" where
  "TotalItems c = nFiles c + nDirectories c + nSymlinks c + nDeleted c"

definition count_row :: "Counts \<Rightarrow> countsRow \<Rightarrow> Counts" where
  "count_row c r =
     (if cDeleted r then c\<lparr>nDeleted := nDeleted c + Count r\<rparr>
      else if cType r = FileInfoTypeFile then c\<lparr>nFiles := nFiles c + Count r, nBytes := nBytes c + cSize r\<rparr>
      else if cType r = FileInfoTypeDirectory then c\<lparr>nDirectories := nDirectories c + Count r, nBytes := nBytes c + cSize r\<rparr>
      else if cType r = FileInfoTypeSymlink then c\<lparr>nSymlinks := nSymlinks c + Count r, nBytes := nBytes c + cSize r\<rparr>
      else c)"

definition summarizeCounts :: "countsRow list \<Rightarrow> Counts" where
  "summarizeCounts res = foldl count_row \<lparr>nFiles = 0, nDirectories = 0, nSymlinks = 0, nDeleted = 0, nBytes = 0\<rparr> res"




definition CountLocal :: "bytes \<Rightarrow> folder_db \<Rightarrow> Counts" where
  "CountLocal device db =
     summarizeCounts (map snd (filter (\<lambda>s. (device, fst s) \<in> set (devices db) \<and>
       (cLocalFlags (snd s) AND FlagLocalIgnored) = 0) (countsTable db)))"

definition CountGlobal :: "folder_db \<Rightarrow> Counts" where
  "CountGlobal db =
     summarizeCounts (map snd (filter (\<lambda>s. (cLocalFlags (snd s) AND FlagLocalGlobal) \<noteq> 0 \<and>
       (cLocalFlags (snd s) AND LocalInvalidFlags) = 0) (countsTable db)))"

definition CountReceiveOnlyChanged :: "folder_db \<Rightarrow> Counts" where
  "CountReceiveOnlyChanged db =
     summarizeCounts (map snd (filter (\<lambda>s. (cLocalFlags (snd s) AND FlagLocalReceiveOnly) \<noteq> 0) (countsTable db)))"




section \<open>Local files\<close>

definition device_rows :: "bytes \<Rightarrow> folder_db \<Rightarrow> fileRow list" where
  "device_rows device db = filter (\<lambda>r. (device, DeviceIdx r) \<in> set (devices db)) (with_info db (rows db))"

definition AllLocalFiles :: "db_env \<Rightarrow> bytes \<Rightarrow> folder_db \<Rightarrow> FileInfo list" where
  "AllLocalFiles env device db = map (the \<circ> row_FileInfo env db) (device_rows device db)"

definition AllLocalFilesBySequence :: "db_env \<Rightarrow> bytes \<Rightarrow> int \<Rightarrow> int \<Rightarrow> folder_db \<Rightarrow> FileInfo list" where
  "AllLocalFilesBySequence env device startSeq limit db =
     (let rs = sort_key rSequence (filter (\<lambda>r. startSeq \<le> rSequence r) (device_rows device db))
      in map (the \<circ> row_FileInfo env db) (if 0 < limit then take (nat limit) rs else rs))"

definition AllLocalFilesWithPrefix :: "db_env \<Rightarrow> bytes \<Rightarrow> string \<Rightarrow> folder_db \<Rightarrow> (db_error, FileInfo list) outcome" where
  "AllLocalFilesWithPrefix env device prefix db =
     (if prefix = [] then Ok (AllLocalFiles env device db)
      else
        let prefix = NormalizedFilename env prefix
        in obind (prefixEnd prefix) (\<lambda>upper.
             Ok (map (the \<circ> row_FileInfo env db) (filter (\<lambda>r. in_range prefix upper (rName r)) (device_rows device db)))))"

definition AllLocalFilesWithBlocksHash :: "bytes \<Rightarrow> folder_db \<Rightarrow> FileMetadata list" where
  "AllLocalFilesWithBlocksHash h db =
     map metadata_of (filter (\<lambda>r. DeviceIdx r = localDeviceIdx db \<and> BlocklistHash r \<noteq> [] \<and> BlocklistHash r = h) (rows db))"

record BlockMapEntry =
  eBlocklistHash :: bytes
  eOffset :: int
  eBlockIndex :: nat
  eSize :: int
  FileName :: string

definition AllLocalBlocksWithHash :: "bytes \<Rightarrow> folder_db \<Rightarrow> BlockMapEntry list" where
  "AllLocalBlocksWithHash h db =
     concat (map (\<lambda>f.
        map (\<lambda>b. \<lparr>eBlocklistHash = BlocklistHash f, eOffset = kOffset b, eBlockIndex = kIdx b, eSize = kSize b, FileName = rName f\<rparr>)
          (filter (\<lambda>b. BlocklistHash f \<noteq> [] \<and> kBlocklistHash b = BlocklistHash f \<and> kHash b = h) (block_index db)))
      (filter (\<lambda>f. DeviceIdx f = localDeviceIdx db) (rows db)))"

definition ListDevicesForFolder :: "folder_db \<Rightarrow> bytes list" where
  "ListDevicesForFolder db =
     sort_key id_text
       (remdups (concat (map (\<lambda>s. device_of db (fst s))
          (filter (\<lambda>s. 0 < Count (snd s) \<and> fst s \<noteq> localDeviceIdx db) (countsTable db)))))"

section \<open>Index IDs\<close>

datatype index_error = BadHex | BadIndexID wire_error

definition indexIDFromHex :: "string \<Rightarrow> (index_error, uint64) outcome" where
  "indexIDFromHex s =
     (case hex_decode s of
        None \<Rightarrow> Err BadHex
      | Some bs \<Rightarrow> (case IndexID_Unmarshal bs of Ok i \<Rightarrow> Ok i | Err e \<Rightarrow> Err (BadIndexID e) | Panic \<Rightarrow> Panic))"

text \<open>
  The index ID of a device; a missing one is made for the local device, from the random number
  \<open>newID\<close>, with the highest local sequence number.
\<close>

definition max_local_sequence :: "folder_db \<Rightarrow> int" where
  "max_local_sequence db =
     (case map rSequence (filter (\<lambda>r. DeviceIdx r = localDeviceIdx db) (rows db)) of [] \<Rightarrow> 0 | s # ss \<Rightarrow> fold max ss s)"

definition GetIndexID :: "uint64 \<Rightarrow> bytes \<Rightarrow> folder_db \<Rightarrow> (index_error, uint64 \<times> folder_db) outcome" where
  "GetIndexID newID device db =
     (let stored = (case map_of (devices db) device of None \<Rightarrow> None | Some idx \<Rightarrow> map_option fst (indexids db idx))
      in if stored \<noteq> None \<and> stored \<noteq> Some [] then obind (indexIDFromHex (the stored)) (\<lambda>i. Ok (i, db))
         else if device \<noteq> LocalDeviceID then Ok (0, db)
         else
           let idx = localDeviceIdx db;
               indexID = (case indexids db idx of None \<Rightarrow> [] | Some (i, _) \<Rightarrow> i)
           in if indexID = [] then
                Ok (newID, db\<lparr>indexids := (indexids db)(idx \<mapsto>
                  (indexIDToHex newID, case indexids db idx of None \<Rightarrow> max_local_sequence db | Some (_, s) \<Rightarrow> s))\<rparr>)
              else obind (indexIDFromHex indexID) (\<lambda>i. Ok (i, db)))"

definition RemoteSequences :: "folder_db \<Rightarrow> (bytes \<times> int) list" where
  "RemoteSequences db =
     concat (map (\<lambda>(d, i). if i = localDeviceIdx db then [] else case indexids db i of None \<Rightarrow> [] | Some (_, s) \<Rightarrow> [(d, s)])
       (devices db))"

section \<open>Prefixes\<close>

lemma next_char_of: "of_char c < (255 :: nat) \<Longrightarrow> of_char (next_char c) = (of_char c + 1 :: nat)"
  by (simp add: next_char_def)

lemma char_between: "of_char c < (255 :: nat) \<Longrightarrow> c \<le> d \<and> d < next_char c \<longleftrightarrow> d = c"
proof -
  assume less: "of_char c < (255 :: nat)"
  have "c \<le> d \<and> d < next_char c \<longleftrightarrow> of_char c \<le> (of_char d :: nat) \<and> (of_char d :: nat) < of_char c + 1"
    by (simp add: less_eq_char_def less_char_def next_char_of [OF less])
  also have "\<dots> \<longleftrightarrow> (of_char d :: nat) = of_char c" by linarith
  also have "\<dots> \<longleftrightarrow> d = c" by simp
  finally show ?thesis .
qed

lemma less_next_char: "of_char c < (255 :: nat) \<Longrightarrow> c < next_char c"
  by (simp add: less_char_def next_char_of)

lemma range_prefix:
  assumes "of_char c < (255 :: nat)"
  shows "in_range (q @ [c]) (q @ [next_char c]) s \<longleftrightarrow> take (length q + 1) s = q @ [c]"
proof (induction q arbitrary: s)
  case Nil
  show ?case
  proof (cases s)
    case (Cons d ds)
    have "in_range [c] [next_char c] s \<longleftrightarrow> c \<le> d \<and> d < next_char c"
      using less_next_char [OF assms] by (auto simp: in_range_def Cons)
    then show ?thesis using char_between [OF assms, of d] by (auto simp: Cons)
  qed (simp add: in_range_def)
next
  case (Cons a q)
  show ?case
  proof (cases s)
    case (Cons d ds)
    have "in_range ((a # q) @ [c]) ((a # q) @ [next_char c]) s \<longleftrightarrow> d = a \<and> in_range (q @ [c]) (q @ [next_char c]) ds"
      by (auto simp: in_range_def Cons)
    then show ?thesis using Cons.IH [of ds] by (auto simp: Cons)
  qed (simp add: in_range_def)
qed

lemma prefixEnd_snoc: "of_char c < (255 :: nat) \<Longrightarrow> prefixEnd (q @ [c]) = Ok (q @ [next_char c])"
  by (simp add: prefixEnd_def)

text \<open>The names between a prefix and its \<open>prefixEnd\<close> are exactly the names that start with the
  prefix, when its last byte is not 0xff, as for all valid UTF-8.\<close>

theorem prefix_range_exact:
  assumes "p \<noteq> []" and "of_char (last p) < (255 :: nat)"
  shows "\<exists>upper. prefixEnd p = Ok upper \<and> (\<forall>s. in_range p upper s \<longleftrightarrow> take (length p) s = p)"
proof -
  have p: "p = butlast p @ [last p]" using assms(1) by simp
  have "prefixEnd p = Ok (butlast p @ [next_char (last p)])"
    using prefixEnd_snoc [OF assms(2), of "butlast p"] assms(1) by simp
  moreover have "length p = length (butlast p) + 1" using assms(1) by simp
  ultimately show ?thesis using range_prefix [OF assms(2), of "butlast p"] p by (metis)
qed

theorem prefix_range_exact_witness:
  "\<exists>upper. prefixEnd ''a/'' = Ok upper \<and> in_range ''a/'' upper ''a/b'' \<and> \<not> in_range ''a/'' upper ''a0''"
proof -
  obtain upper where "prefixEnd ''a/'' = Ok upper" "\<forall>s. in_range ''a/'' upper s \<longleftrightarrow> take (length ''a/'') s = ''a/''"
    using prefix_range_exact [of "''a/''"] by auto
  then show ?thesis by simp
qed

section \<open>Every row has its file info\<close>

text \<open>A law \<open>Q\<close> between the rows and their file infos that does not look at flags.\<close>

definition flagless :: "(fileRow \<Rightarrow> bep_file_info \<Rightarrow> bool) \<Rightarrow> bool" where
  "flagless Q \<longleftrightarrow> (\<forall>r w flags. Q (r\<lparr>rLocalFlags := flags\<rparr>) w = Q r w)"

definition infos_sat :: "(fileRow \<Rightarrow> bep_file_info \<Rightarrow> bool) \<Rightarrow> folder_db \<Rightarrow> bool" where
  "infos_sat Q db \<longleftrightarrow> (\<forall>r \<in> set (rows db). \<exists>w. fileinfos db (rSequence r) = Some w \<and> Q r w)"

lemma infos_sat_cong: "rows db = rows db' \<Longrightarrow> fileinfos db = fileinfos db' \<Longrightarrow> infos_sat Q db = infos_sat Q db'"
  by (simp add: infos_sat_def)

lemma delete_infos: "db_keys db \<Longrightarrow> infos_sat Q db \<Longrightarrow> infos_sat Q (delete_rows P db)"
  by (auto simp: infos_sat_def delete_rows_def list_ex_iff db_keys_def distinct_map inj_on_def)

lemma reflag_flagless: "flagless Q \<Longrightarrow> Q (reflag g flags r) w = Q r w"
  by (simp add: flagless_def reflag_def)

lemma recalc_infos:
  assumes "sort_ok (SortFunc env)" and "flagless Q" and "db_keys db" and "infos_sat Q db"
  shows "infos_sat Q (recalcGlobalForFile env name db)"
proof (cases "rows_of db name = []")
  case True
  then show ?thesis using assms(4) by (simp add: recalcGlobalForFile_def)
next
  case False
  then show ?thesis
    using assms(4) reflag_flagless [OF assms(2)] by (auto simp: infos_sat_def recalc_rows [OF assms(1, 3)])
qed

lemma recalc_names_infos:
  "sort_ok (SortFunc env) \<Longrightarrow> flagless Q \<Longrightarrow> db_keys db \<Longrightarrow> infos_sat Q db \<Longrightarrow> infos_sat Q (recalc_names env names db)"
  by (induction names arbitrary: db) (simp_all add: recalc_infos recalc_file_ok)

lemma update_file_infos:
  assumes "sort_ok (SortFunc env)" and "flagless Q" and "db_keys db" and "infos_sat Q db" and "update_file env isLocal skip idx f db = Ok db'"
    and "\<And>r w. DeviceIdx r = idx \<Longrightarrow> rSequence r = nextSequence db \<Longrightarrow> wName w = rName r \<Longrightarrow>
      (isLocal \<Longrightarrow> wSequence w = nextSequence db) \<Longrightarrow> Q r w"
  shows "db_keys db' \<and> infos_sat Q db'"
proof -
  let ?f = "prepare_file env f"
  let ?row = "row_of_file idx (if isLocal then None else Some (Sequence f)) ?f"
  let ?ins = "insert_row ?row db"
  let ?db1 = "store_blocks isLocal skip ?f (snd ?ins)"
  obtain w where db': "db' = recalcGlobalForFile env (Name ?f) (?db1\<lparr>fileinfos := (fileinfos ?db1)(fst ?ins \<mapsto> w)\<rparr>)"
      and w: "isLocal \<Longrightarrow> wSequence w = nextSequence db" "wName w = Name ?f"
    using assms(5) by (auto simp: update_file_def Let_def FileInfo_ToWire_def wire_of_def insert_row_rows(6) split: if_splits)
  let ?db2 = "?db1\<lparr>fileinfos := (fileinfos ?db1)(fst ?ins \<mapsto> w)\<rparr>"
  have del: "infos_sat Q (delete_rows (replaces ?row) db)" by (rule delete_infos [OF assms(3, 4)])
  have below: "rSequence r < nextSequence db" if "r \<in> set (rows db)" for r
    using assms(3) that by (simp add: db_keys_def list_all_iff)
  have rows2: "rows ?db2 = rows (delete_rows (replaces ?row) db) @ [?row\<lparr>rSequence := nextSequence db\<rparr>]"
      "fileinfos ?db2 = (fileinfos (delete_rows (replaces ?row) db))(nextSequence db \<mapsto> w)"
    by (simp_all add: insert_row_rows insert_row_def Let_def delete_rows_def replaces_def)
  have "infos_sat Q ?db2"
    unfolding infos_sat_def rows2
  proof
    fix r
    assume "r \<in> set (rows (delete_rows (replaces ?row) db) @ [?row\<lparr>rSequence := nextSequence db\<rparr>])"
    then consider "r \<in> set (rows (delete_rows (replaces ?row) db))" "rSequence r \<noteq> nextSequence db"
      | "r = ?row\<lparr>rSequence := nextSequence db\<rparr>"
      using below by (fastforce simp: delete_rows_def)
    then show "\<exists>x. ((fileinfos (delete_rows (replaces ?row) db))(nextSequence db \<mapsto> w)) (rSequence r) = Some x \<and> Q r x"
      using del assms(6) [of r w] w by cases (auto simp: infos_sat_def)
  qed
  moreover have "db_keys ?db2"
    using insert_row_keys [OF assms(3), of ?row] keys_rows [of ?db2 "snd ?ins"] by simp
  ultimately show ?thesis using recalc_infos [OF assms(1, 2)] recalc_file_ok [OF assms(1)] db' by blast
qed

lemma update_file_next: "update_file env isLocal skip idx f db = Ok db' \<Longrightarrow> nextSequence db' = nextSequence db + 1"
  by (erule update_file_Ok) simp

lemma update_loop_infos:
  assumes "sort_ok (SortFunc env)" and "flagless Q"
    and "\<And>r w. DeviceIdx r = idx \<Longrightarrow> 0 < rSequence r \<Longrightarrow> wName w = rName r \<Longrightarrow>
      (isLocal \<Longrightarrow> wSequence w = rSequence r) \<Longrightarrow> Q r w"
  shows "db_keys db \<Longrightarrow> infos_sat Q db \<Longrightarrow> 0 < nextSequence db \<Longrightarrow> update_loop env isLocal skip idx prev fs db = Ok db' \<Longrightarrow>
    infos_sat Q db' \<and> 0 < nextSequence db'"
proof (induction fs arbitrary: db prev)
  case (Cons f fs)
  obtain db1 where db1: "update_file env isLocal skip idx f db = Ok db1"
      "update_loop env isLocal skip idx (Some (Sequence f)) fs db1 = Ok db'"
    using Cons.prems(4) by (auto split: if_splits)
  have "db_keys db1 \<and> infos_sat Q db1"
    by (rule update_file_infos [OF assms(1, 2) Cons.prems(1, 2) db1(1)]) (use assms(3) Cons.prems(3) in simp)
  moreover have "0 < nextSequence db1" using update_file_next [OF db1(1)] Cons.prems(3) by simp
  ultimately show ?case using Cons.IH db1(2) by blast
qed simp

text \<open>
  The law that holds: sequence numbers are positive, names agree, and local files carry their
  sequence number.  It needs that the
  local device keeps its index.
\<close>

definition local_law :: "int \<Rightarrow> fileRow \<Rightarrow> bep_file_info \<Rightarrow> bool" where
  "local_law idx r w \<longleftrightarrow> 0 < rSequence r \<and> wName w = rName r \<and> (DeviceIdx r = idx \<longrightarrow> wSequence w = rSequence r)"

definition devs_ok :: "folder_db \<Rightarrow> bool" where
  "devs_ok db \<longleftrightarrow> list_all (\<lambda>(d, i). i < nextDevice db \<and> (d = LocalDeviceID \<longleftrightarrow> i = localDeviceIdx db)) (devices db) \<and>
     map_of (devices db) LocalDeviceID = Some (localDeviceIdx db) \<and> localDeviceIdx db < nextDevice db"

definition infos_ok :: "folder_db \<Rightarrow> bool" where
  "infos_ok db \<longleftrightarrow> infos_sat (local_law (localDeviceIdx db)) db \<and> devs_ok db \<and> 0 < nextSequence db"

lemma local_law_flagless: "flagless (local_law idx)"
  by (simp add: flagless_def local_law_def)

lemma deviceIdx_devs: "devs_ok db \<Longrightarrow> devs_ok (snd (deviceIdxLocked dev db))"
proof (cases "map_of (devices db) dev")
  case (Some i)
  then show "devs_ok db \<Longrightarrow> ?thesis" by (simp add: deviceIdxLocked_def)
next
  case None
  assume ok: "devs_ok db"
  then have "dev \<noteq> LocalDeviceID" using None by (auto simp: devs_ok_def)
  then show ?thesis
    using ok None by (auto simp: devs_ok_def deviceIdxLocked_def list_all_iff map_add_def split: option.splits)
qed

lemma deviceIdx_local: "devs_ok db \<Longrightarrow> fst (deviceIdxLocked dev db) = localDeviceIdx db \<longleftrightarrow> dev = LocalDeviceID"
proof (cases "map_of (devices db) dev")
  case (Some i)
  assume "devs_ok db"
  then show ?thesis using Some map_of_SomeD [OF Some] by (auto simp: devs_ok_def deviceIdxLocked_def list_all_iff)
next
  case None
  assume "devs_ok db"
  then show ?thesis using None by (auto simp: devs_ok_def deviceIdxLocked_def)
qed

lemma infos_ok_deviceIdx: "infos_ok db \<Longrightarrow> infos_ok (snd (deviceIdxLocked dev db))"
  using deviceIdx_devs infos_sat_cong [of "snd (deviceIdxLocked dev db)" db] by (simp add: infos_ok_def deviceIdx_tables)

lemma update_loop_tables:
  "update_loop env isLocal skip idx prev fs db = Ok db' \<Longrightarrow>
   devices db' = devices db \<and> nextDevice db' = nextDevice db \<and> localDeviceIdx db' = localDeviceIdx db"
proof (induction fs arbitrary: db prev)
  case (Cons f fs)
  then obtain db1 where db1: "update_file env isLocal skip idx f db = Ok db1" "update_loop env isLocal skip idx (Some (Sequence f)) fs db1 = Ok db'"
    by (auto split: if_splits)
  have "devices db1 = devices db \<and> nextDevice db1 = nextDevice db \<and> localDeviceIdx db1 = localDeviceIdx db"
    using db1(1) by (auto simp: update_file_def Let_def insert_row_def delete_rows_def split: if_splits)
  then show ?case using Cons.IH [OF db1(2)] by simp
qed simp

lemma recalc_infos_ok:
  assumes "sort_ok (SortFunc env)" and "db_keys db" and "infos_ok db"
  shows "infos_ok (recalc_names env names db)"
proof -
  have "devices (recalc_names env names d) = devices d \<and> nextDevice (recalc_names env names d) = nextDevice d \<and>
      localDeviceIdx (recalc_names env names d) = localDeviceIdx d \<and> nextSequence (recalc_names env names d) = nextSequence d" for d
    by (induction names arbitrary: d) simp_all
  then show ?thesis
    using recalc_names_infos [OF assms(1) local_law_flagless assms(2)] assms(3) by (simp add: infos_ok_def devs_ok_def)
qed

lemma delete_infos_ok: "db_keys db \<Longrightarrow> infos_ok db \<Longrightarrow> infos_ok (delete_rows P db)"
  using delete_infos by (simp add: infos_ok_def devs_ok_def delete_rows_def)

lemma infos_ok_other:
  "infos_ok (db\<lparr>indexids := i\<rparr>) = infos_ok db" "infos_ok (db\<lparr>block_index := k\<rparr>) = infos_ok db"
  by (simp_all add: infos_ok_def infos_sat_def devs_ok_def)

lemma db_keys_other: "db_keys (db\<lparr>indexids := i\<rparr>) = db_keys db"
  by (simp add: db_keys_def)

lemma infos_ok_populate: "infos_ok (populate rs db) = infos_ok db"
  by (induction rs arbitrary: db) (simp_all add: insertBlocksLocked_def infos_ok_other split: option.splits)

lemma db_keys_deviceIdx: "db_keys (snd (deviceIdxLocked dev db)) = db_keys db"
  by (rule keys_rows) (simp_all add: deviceIdx_tables)

lemma db_reach_infos: "db_reach env lost db \<Longrightarrow> sort_ok (SortFunc env) \<Longrightarrow> infos_ok db"
proof (induction rule: db_reach.induct)
  case (init lww)
  then show ?case by (simp add: infos_ok_def infos_sat_def devs_ok_def new_folder_db_def deviceIdxLocked_def)
next
  case (update lost db device fs skip db')
  let ?db = "snd (deviceIdxLocked device db)" and ?idx = "fst (deviceIdxLocked device db)"
  have keys: "db_keys ?db" using db_reach_ok [OF update(1, 4)] by (simp add: db_ok_def db_keys_deviceIdx)
  have ok: "infos_ok db" "infos_ok ?db" using update infos_ok_deviceIdx by blast+
  have loop: "update_loop env (device = LocalDeviceID) skip ?idx None fs ?db = Ok db'"
    using update(2) by (simp add: Update_def case_prod_beta)
  have "local_law (localDeviceIdx ?db) r w" if "DeviceIdx r = ?idx" "0 < rSequence r" "wName w = rName r" "device = LocalDeviceID \<Longrightarrow> wSequence w = rSequence r" for r w
    using that deviceIdx_local [of db device] ok(1) by (auto simp: local_law_def deviceIdx_tables infos_ok_def)
  then have "infos_sat (local_law (localDeviceIdx ?db)) db' \<and> 0 < nextSequence db'"
    using update_loop_infos [OF update(4) local_law_flagless, of ?idx "device = LocalDeviceID" "localDeviceIdx ?db" ?db] keys ok(2) loop
    by (simp add: infos_ok_def)
  then show ?case using update_loop_tables [OF loop] ok(2) by (simp add: infos_ok_def devs_ok_def)
next
  case (drop_device lost db device db')
  have keys: "db_keys db" using db_reach_ok drop_device by (simp add: db_ok_def)
  show ?case
  proof (cases "map_of (devices db) device")
    case None
    then show ?thesis
      using drop_device keys recalc_infos_ok by (auto simp: DropDevice_def recalcGlobalForFolder_def split: if_splits)
  next
    case (Some idx)
    let ?d = "delete_rows (\<lambda>r. DeviceIdx r = idx) db"
    let ?del = "?d\<lparr>devices := filter (\<lambda>(d, i). d \<noteq> device) (devices db),
      countsTable := filter (\<lambda>e. fst e \<noteq> idx) (countsTable ?d), indexids := (indexids db)(idx := None)\<rparr>"
    have dev: "device \<noteq> LocalDeviceID" "db' = recalcGlobalForFolder env ?del"
      using drop_device(2) Some by (auto simp: DropDevice_def Let_def split: if_splits)
    have "map_of (filter (\<lambda>(d, i). d \<noteq> device) xs) LocalDeviceID = map_of xs LocalDeviceID" for xs :: "(bytes \<times> int) list"
      using dev(1) by (induction xs) auto
    then have "infos_ok ?del"
      using delete_infos_ok [OF keys, of "\<lambda>r. DeviceIdx r = idx"] drop_device
      by (auto simp: infos_ok_def infos_sat_def devs_ok_def delete_rows_def list_all_iff)
    moreover have "db_keys ?del" using delete_keys [OF keys] keys_rows [of ?del "delete_rows (\<lambda>r. DeviceIdx r = idx) db"] by simp
    ultimately show ?thesis
      unfolding dev(2) recalcGlobalForFolder_def by (intro recalc_infos_ok [OF drop_device(4)])
  qed
next
  case (drop_all lost db device)
  have keys: "db_keys db" using db_reach_ok drop_all by (simp add: db_ok_def)
  obtain idx db1 where idx: "deviceIdxLocked device db = (idx, db1)" by fastforce
  have "infos_ok db1" "db_keys db1"
    using drop_all infos_ok_deviceIdx [of db device] db_keys_deviceIdx [of device db] keys by (simp_all add: idx)
  then show ?case
    using drop_all(3) delete_infos_ok delete_keys recalc_infos_ok
    by (simp add: DropAllFiles_def idx Let_def recalcGlobalForFolder_def infos_ok_other db_keys_other)
next
  case (drop_named lost db device names)
  have keys: "db_keys db" using db_reach_ok drop_named by (simp add: db_ok_def)
  obtain idx db1 where idx: "deviceIdxLocked device db = (idx, db1)" by fastforce
  have "infos_ok db1" "db_keys db1"
    using drop_named infos_ok_deviceIdx [of db device] db_keys_deviceIdx [of device db] keys by (simp_all add: idx)
  then show ?case
    using drop_named(3) delete_infos_ok delete_keys recalc_infos_ok by (simp add: DropFilesNamed_def idx Let_def)
next
  case (recalc_all lost db)
  then show ?case using db_reach_ok [of env lost db] recalc_infos_ok by (auto simp: recalcAllGlobalsForFolder_def)
next
  case (collect lost db now retention)
  then show ?case using db_reach_ok [of env lost db] delete_infos_ok by (auto simp: garbageCollectOldDeletedLocked_def)
next
  case (set_index_id lost db device i)
  obtain idx db1 where idx: "deviceIdxLocked device db = (idx, db1)" by fastforce
  then show ?case using set_index_id infos_ok_deviceIdx [of db device] by (simp add: SetIndexID_def infos_ok_other)
qed (simp_all add: DropBlockIndex_def PopulateBlockIndex_def DropAllIndexIDs_def infos_ok_other infos_ok_populate)

lemma reach_with_info:
  "db_reach env lost db \<Longrightarrow> sort_ok (SortFunc env) \<Longrightarrow> set rs \<subseteq> set (rows db) \<Longrightarrow> with_info db rs = rs"
  using db_reach_infos [of env lost db] by (fastforce simp: with_info_def infos_ok_def infos_sat_def filter_id_conv)

text \<open>In every reachable state, a name that any device announces has a global file to read, unless its
  global record has got lost.\<close>

theorem announced_files_have_a_global_file:
  assumes "db_reach env lost db" and "sort_ok (SortFunc env)" and "rows_of db (NormalizedFilename env name) \<noteq> []"
    and "NormalizedFilename env name \<notin> lost"
  shows "GetGlobalFile env name db \<noteq> None"
proof -
  let ?n = "NormalizedFilename env name"
  have "file_ok db ?n" using db_reach_ok [OF assms(1, 2)] assms(4) by (simp add: db_ok_def)
  from one_global [OF this assms(3)] obtain g where "g \<in> set (rows_of db ?n)" "is_global g" by blast
  moreover note infos = reach_with_info [OF assms(1, 2), of "rows db", simplified]
  ultimately obtain r where r: "List.find (\<lambda>f. rName f = ?n \<and> is_global f) (rows db) = Some r"
    by (metis (mono_tags, lifting) find_None_iff option.exhaust rows_of_set)
  then have "fileinfos db (rSequence r) \<noteq> None"
    using infos by (metis (mono_tags, lifting) find_Some_iff filter_id_conv nth_mem with_info_def)
  then show ?thesis using r infos by (auto simp: GetGlobalFile_def row_FileInfo_def)
qed

theorem announced_files_have_a_global_file_witness:
  "\<exists>db. db_reach sample_env {} db \<and> GetGlobalFile sample_env ''a'' db \<noteq> None"
  using announced_files_have_a_global_file [OF _ sample_env_sort, of "{}" _ "''a''"] sample_update
  by (metis (no_types, lifting) db_env.select_convs(1) sample_env_def empty_iff)

section \<open>Counts and lists agree\<close>

lemma recalc_all_rows:
  assumes "sort_ok (SortFunc env)" and "db_keys db" and "list_all P (rows db)" and "\<And>r flags. P r \<Longrightarrow> P (r\<lparr>rLocalFlags := flags\<rparr>)"
  shows "list_all P (rows (recalcGlobalForFile env name db))"
proof (cases "rows_of db name = []")
  case True
  then show ?thesis using assms(3) by (simp add: recalcGlobalForFile_def)
next
  case False
  then show ?thesis using assms by (auto simp: recalc_rows list_all_iff reflag_def)
qed

definition known_type :: "fileRow \<Rightarrow> bool" where
  "known_type r \<longleftrightarrow> rDeleted r \<or> rType r \<in> {FileInfoTypeFile, FileInfoTypeDirectory, FileInfoTypeSymlink}"

definition counted_size :: "fileRow \<Rightarrow> int" where
  "counted_size r = (if rDeleted r then 0 else rSize r)"



text \<open>The rows that are counted, and those whose sizes are.\<close>

definition counted_row :: "bool \<Rightarrow> FileInfoType \<Rightarrow> bool" where
  "counted_row del t \<longleftrightarrow> del \<or> t \<in> {FileInfoTypeFile, FileInfoTypeDirectory, FileInfoTypeSymlink}"

lemma count_row_total:
  "TotalItems (count_row c g) = TotalItems c + (if counted_row (cDeleted g) (cType g) then Count g else 0)"
  "nBytes (count_row c g) = nBytes c + (if counted_row (cDeleted g) (cType g) \<and> \<not> cDeleted g then cSize g else 0)"
  by (auto simp: count_row_def TotalItems_def counted_row_def)

lemma count_fold:
  "TotalItems (foldl count_row c gs) =
     TotalItems c + sum_list (map (\<lambda>g. if counted_row (cDeleted g) (cType g) then Count g else 0) gs)"
  "nBytes (foldl count_row c gs) =
     nBytes c + sum_list (map (\<lambda>g. if counted_row (cDeleted g) (cType g) \<and> \<not> cDeleted g then cSize g else 0) gs)"
  by (induction gs arbitrary: c) (simp_all add: count_row_total)

lemma summarize_sums:
  "TotalItems (summarizeCounts gs) = sum_list (map (\<lambda>g. if counted_row (cDeleted g) (cType g) then Count g else 0) gs)"
  "nBytes (summarizeCounts gs) =
     sum_list (map (\<lambda>g. if counted_row (cDeleted g) (cType g) \<and> \<not> cDeleted g then cSize g else 0) gs)"
  by (simp_all add: summarizeCounts_def count_fold) (simp add: TotalItems_def)

text \<open>What a query on the table \<open>counts\<close> adds up to.\<close>

lemma summarize_table:
  "TotalItems (summarizeCounts (map snd (filter (\<lambda>e. Q (entry_key e)) tab))) =
     table_sum Count (\<lambda>k. Q k \<and> counted_row (snd (snd (snd k))) (fst (snd k))) tab"
  "nBytes (summarizeCounts (map snd (filter (\<lambda>e. Q (entry_key e)) tab))) =
     table_sum cSize (\<lambda>k. Q k \<and> counted_row (snd (snd (snd k))) (fst (snd k)) \<and> \<not> snd (snd (snd k))) tab"
  unfolding summarize_sums by (induction tab) (auto simp: entry_key_def)

lemma reach_table:
  assumes "db_reach env lost db" and "list_all known_type (filter (\<lambda>r. Q (counts_key r)) (rows db))"
  shows "TotalItems (summarizeCounts (map snd (filter (\<lambda>e. Q (entry_key e)) (countsTable db)))) =
      int (length (filter (\<lambda>r. Q (counts_key r)) (rows db)))"
    and "nBytes (summarizeCounts (map snd (filter (\<lambda>e. Q (entry_key e)) (countsTable db)))) =
      sum_list (map counted_size (filter (\<lambda>r. Q (counts_key r)) (rows db)))"
proof -
  have "filter (\<lambda>r. Q (counts_key r) \<and> counted_row (rDeleted r) (rType r)) (rows db) = filter (\<lambda>r. Q (counts_key r)) (rows db)"
    using assms(2) by (auto simp: list_all_iff known_type_def counted_row_def intro!: filter_cong)
  then show "TotalItems (summarizeCounts (map snd (filter (\<lambda>e. Q (entry_key e)) (countsTable db)))) =
      int (length (filter (\<lambda>r. Q (counts_key r)) (rows db)))"
    unfolding summarize_table reach_counts [OF assms(1)] by (simp add: counts_key_def)
  have "sum_list (map rSize (filter (\<lambda>r. Q (counts_key r) \<and> counted_row (rDeleted r) (rType r) \<and> \<not> rDeleted r) rs)) =
      sum_list (map counted_size (filter (\<lambda>r. Q (counts_key r)) rs))"
    if "list_all known_type (filter (\<lambda>r. Q (counts_key r)) rs)" for rs
    using that by (induction rs) (simp_all add: counted_size_def known_type_def counted_row_def split: if_splits, blast)
  from this [OF assms(2)] show "nBytes (summarizeCounts (map snd (filter (\<lambda>e. Q (entry_key e)) (countsTable db)))) =
      sum_list (map counted_size (filter (\<lambda>r. Q (counts_key r)) (rows db)))"
    unfolding summarize_table reach_counts [OF assms(1)] by (simp add: counts_key_def)
qed









lemma sample_update_types:
  "\<exists>db. db_reach sample_env {} db \<and> list_all known_type (rows db) \<and> rows_of db ''a'' \<noteq> []"
proof -
  obtain db where db: "Update sample_env [1] [sample_file] False (new_folder_db False) = Ok db"
      "rows_of db ''a'' \<noteq> []" "db_reach sample_env {} db"
    by (rule sample_update)
  let ?db0 = "snd (deviceIdxLocked [1] (new_folder_db False))"
  have "update_file sample_env False False (fst (deviceIdxLocked [1] (new_folder_db False))) sample_file ?db0 = Ok db"
    using db(1) sample_remote by (auto simp: Update_def case_prod_beta)
  then obtain db1 where db1: "db = recalcGlobalForFile sample_env (Name (prepare_file sample_env sample_file)) db1"
      "rows db1 = rows (snd (insert_row (row_of_file (fst (deviceIdxLocked [1] (new_folder_db False)))
        (Some (Sequence (prepare_file sample_env sample_file))) (prepare_file sample_env sample_file)) ?db0))"
      "nextSequence db1 = nextSequence ?db0 + 1"
    by (rule update_file_Ok) simp
  have "db_keys ?db0" using new_folder_keys keys_rows [of ?db0 "new_folder_db False"] by (simp add: deviceIdx_tables)
  then have keys: "db_keys db1" using insert_row_keys keys_rows [OF db1(2)] db1(3) by (simp add: insert_row_rows)
  have "rows ?db0 = []" by (simp add: deviceIdx_tables) (simp add: new_folder_db_def deviceIdxLocked_def)
  then have "list_all known_type (rows db1)"
    by (simp add: db1(2) insert_row_rows known_type_def row_of_file_def prepare_file_def sample_file_def)
  then have "list_all known_type (rows db)"
    unfolding db1(1) by (rule recalc_all_rows [OF sample_env_sort keys]) (simp add: known_type_def)
  then show ?thesis using db by blast
qed


text \<open>C40: The counts that are shown agree with the files: in every reachable state the totals and bytes that
  are read from the table \<open>counts\<close> are those of the files of the device that are not ignored, and of
  the valid global files, however updates, drops, collections and changes of flags came about.  All
  files are of the three types in use.\<close>

theorem counts_are_those_of_the_files:
  assumes "db_reach env lost db" and "list_all known_type (rows db)"
  shows "TotalItems (CountLocal device db) =
      int (length (filter (\<lambda>r. (device, DeviceIdx r) \<in> set (devices db) \<and> \<not> ignored r) (rows db))) \<and>
    nBytes (CountLocal device db) =
      sum_list (map counted_size (filter (\<lambda>r. (device, DeviceIdx r) \<in> set (devices db) \<and> \<not> ignored r) (rows db))) \<and>
    TotalItems (CountGlobal db) = int (length (filter (\<lambda>r. is_global r \<and> \<not> Row_IsInvalid r) (rows db))) \<and>
    nBytes (CountGlobal db) = sum_list (map counted_size (filter (\<lambda>r. is_global r \<and> \<not> Row_IsInvalid r) (rows db)))"
proof -
  have types: "list_all known_type (filter P (rows db))" for P using assms(2) by (auto simp: list_all_iff)
  have valid: "\<not> Row_IsInvalid r \<longleftrightarrow> (rLocalFlags r AND LocalInvalidFlags) = 0" for r
    by (simp add: Row_IsInvalid_def Flag_IsInvalid_def)
  show ?thesis
    using reach_table [OF assms(1), of "\<lambda>(d, _, fl, _). (device, d) \<in> set (devices db) \<and> (fl AND FlagLocalIgnored) = 0", OF types]
      reach_table [OF assms(1), of "\<lambda>(_, _, fl, _). (fl AND FlagLocalGlobal) \<noteq> 0 \<and> (fl AND LocalInvalidFlags) = 0", OF types]
    by (simp add: CountLocal_def CountGlobal_def entry_key_def counts_key_def ignored_def is_global_def valid)
qed

theorem counts_are_those_of_the_files_witness:
  "\<exists>db. rows_of db ''a'' \<noteq> [] \<and> db_reach sample_env {} db \<and>
    TotalItems (CountGlobal db) = int (length (filter (\<lambda>r. is_global r \<and> \<not> Row_IsInvalid r) (rows db)))"
  using counts_are_those_of_the_files [of sample_env "{}"] sample_update_types by metis

section \<open>Finding blocks\<close>

lemma insert_or_ignore_keeps: "k \<in> set old \<Longrightarrow> k \<in> set (insert_or_ignore old ks)"
  by (induction ks arbitrary: old) simp_all

lemma insert_or_ignore_finds:
  "k \<in> set ks \<Longrightarrow> list_all (\<lambda>y. block_key y = block_key k \<longrightarrow> y = k) old \<Longrightarrow>
   list_all (\<lambda>y. block_key y = block_key k \<longrightarrow> y = k) ks \<Longrightarrow> k \<in> set (insert_or_ignore old ks)"
proof (induction ks arbitrary: old)
  case (Cons x ks)
  show ?case
  proof (cases "block_key x = block_key k")
    case True
    then have "x = k" using Cons.prems(3) by simp
    moreover have "k \<in> set old" if "block_key k \<in> set (map block_key old)"
      using that Cons.prems(2) by (auto simp: list_all_iff)
    ultimately show ?thesis by (auto intro: insert_or_ignore_keeps)
  next
    case False
    then show ?thesis using Cons.IH Cons.prems by auto
  qed
qed simp

lemma in_block_rows:
  "k \<in> set (block_rows h bs) \<longleftrightarrow> (\<exists>i < length bs.
     k = \<lparr>kHash = Hash (bs ! i), kBlocklistHash = h, kIdx = i, kOffset = Offset (bs ! i), kSize = BSize (bs ! i)\<rparr>)"
  by (force simp: block_rows_def in_set_enumerate_eq image_iff Bex_def)

lemma block_rows_key_unique:
  "k \<in> set (block_rows h bs) \<Longrightarrow> y \<in> set (block_rows h bs) \<Longrightarrow> block_key y = block_key k \<Longrightarrow> y = k"
  unfolding in_block_rows by (elim exE conjE) (simp add: block_key_def)

lemma insert_blocks_finds:
  assumes "list_all (\<lambda>k. kBlocklistHash k = h \<longrightarrow> k \<in> set (block_rows h bs)) (block_index db)" and "k \<in> set (block_rows h bs)"
  shows "k \<in> set (block_index (insertBlocksLocked h bs db))"
proof -
  have h: "kBlocklistHash k = h" using assms(2) by (auto simp: block_rows_def)
  have "k \<in> set (insert_or_ignore (block_index db) (block_rows h bs))"
  proof (rule insert_or_ignore_finds [OF assms(2)])
    have "kBlocklistHash y = h" if "block_key y = block_key k" for y using that h by (simp add: block_key_def)
    then show "list_all (\<lambda>y. block_key y = block_key k \<longrightarrow> y = k) (block_index db)"
      using assms(1) block_rows_key_unique [OF assms(2)] unfolding list_all_iff by blast
    show "list_all (\<lambda>y. block_key y = block_key k \<longrightarrow> y = k) (block_rows h bs)"
      using block_rows_key_unique [OF assms(2)] unfolding list_all_iff by blast
  qed
  then show ?thesis by (simp add: insertBlocksLocked_def)
qed

text \<open>The blocks of a file that is scanned are found by their hashes: after an update with a
  complete local file, looking up the hash of any of its blocks gives an entry with the name of
  the file, the index, the offset and the size of the block, when the index holds no rows of
  another list with the same hash.\<close>

theorem local_blocks_are_found:
  assumes "sort_ok (SortFunc env)" and "db_keys db" and "map_of (devices db) LocalDeviceID = Some (localDeviceIdx db)"
    and "\<And>x. Sha256 env x \<noteq> []"
    and "list_all (\<lambda>k. kBlocklistHash k = BlocksHash (prepare_file env f) \<longrightarrow>
           k \<in> set (block_rows (BlocksHash (prepare_file env f)) (Blocks f))) (block_index db)"
    and "Update env LocalDeviceID [f] False db = Ok db'" and "i < length (Blocks f)"
  shows "\<lparr>eBlocklistHash = BlocksHash (prepare_file env f), eOffset = Offset (Blocks f ! i), eBlockIndex = i,
      eSize = BSize (Blocks f ! i), FileName = NormalizedFilename env (Name f)\<rparr>
    \<in> set (AllLocalBlocksWithHash (Hash (Blocks f ! i)) db')"
proof -
  let ?p = "prepare_file env f" and ?idx = "localDeviceIdx db"
  let ?h = "BlocksHash ?p" and ?b = "Blocks f ! i" and ?ins = "insert_row (row_of_file ?idx None ?p) db"
  let ?db1 = "store_blocks True False ?p (snd ?ins)"
  have "update_file env True False ?idx f db = Ok db'"
    using assms(3, 6) by (auto simp: Update_def deviceIdxLocked_def)
  then obtain w where db': "db' = recalcGlobalForFile env (Name ?p) (?db1\<lparr>fileinfos := (fileinfos ?db1)(fst ?ins \<mapsto> w)\<rparr>)"
    by (auto simp: update_file_def Let_def split: if_splits)
  let ?db2 = "?db1\<lparr>fileinfos := (fileinfos ?db1)(fst ?ins \<mapsto> w)\<rparr>"
  have ne: "Blocks f \<noteq> []" using assms(7) by auto
  have "db_keys ?db2" using insert_row_keys [OF assms(2)] keys_rows [of ?db2 "snd ?ins"] by simp
  moreover have "(row_of_file ?idx None ?p)\<lparr>rSequence := nextSequence db\<rparr> \<in> set (rows ?db2)" by (simp add: insert_row_rows(1))
  ultimately obtain r where r: "r \<in> set (rows db')" "rName r = Name ?p" "DeviceIdx r = ?idx" "BlocklistHash r = ?h"
    using recalc_row [OF assms(1), of ?db2 _ "Name ?p"] unfolding db' by fastforce
  have "block_index (snd ?ins) = block_index db" by (simp add: insert_row_def Let_def delete_rows_def)
  then have "list_all (\<lambda>k. kBlocklistHash k = ?h \<longrightarrow> k \<in> set (block_rows ?h (Blocks f))) (block_index (d\<lparr>blocklists := x\<rparr>))"
    if "block_index d = block_index (snd ?ins)" for d x using assms(5) that by simp
  moreover have "block_index db' = block_index ?db1" by (simp add: db')
  ultimately have found: "k \<in> set (block_index db')" if "k \<in> set (block_rows ?h (Blocks f))" for k
    using insert_blocks_finds [of ?h "Blocks f"] that ne assms(5) \<open>block_index (snd ?ins) = block_index db\<close>
    by (simp add: store_blocks_def Let_def split: option.split)
  let ?k = "\<lparr>kHash = Hash ?b, kBlocklistHash = ?h, kIdx = i, kOffset = Offset ?b, kSize = BSize ?b\<rparr>"
  have "?k \<in> set (block_rows ?h (Blocks f))"
    using assms(7) unfolding in_block_rows by blast
  moreover have "?h \<noteq> []" using ne assms(4) by (simp add: prepare_file_def Let_def BlocksHash_of_def)
  moreover have "localDeviceIdx db' = ?idx" by (simp add: db' insert_row_rows(3))
  ultimately show ?thesis using found r unfolding AllLocalBlocksWithHash_def by force
qed

section \<open>Index IDs are stable\<close>

lemma indexID_hex: "indexIDFromHex (indexIDToHex i) = Ok i"
  using Uint64_Put [of i "[]"] by (simp add: indexIDFromHex_def indexIDToHex_def hex_decode_encode IndexID_Marshal_def IndexID_Unmarshal_def)

lemma indexIDToHex_nonempty [simp]: "indexIDToHex i \<noteq> []"
proof
  assume "indexIDToHex i = []"
  then show False using indexID_hex [of i] by (simp add: indexIDFromHex_def IndexID_Unmarshal_def)
qed

text \<open>Once the local index has an ID, it keeps it: asking again gives the same ID and leaves
  the database as it is, whatever random number would have been taken.\<close>

theorem local_index_id_is_stable:
  assumes "GetIndexID newID LocalDeviceID db = Ok (i, db')" and "map_of (devices db) LocalDeviceID = Some (localDeviceIdx db)"
  shows "GetIndexID otherID LocalDeviceID db' = Ok (i, db')"
proof (cases "indexids db (localDeviceIdx db)")
  case None
  then have "i = newID" and db': "db' = db\<lparr>indexids := (indexids db)(localDeviceIdx db \<mapsto> (indexIDToHex newID, max_local_sequence db))\<rparr>"
    using assms by (auto simp: GetIndexID_def)
  then show ?thesis using assms(2) indexIDToHex_nonempty by (simp add: GetIndexID_def indexID_hex)
next
  case (Some e)
  obtain h sq where e: "e = (h, sq)" by fastforce
  show ?thesis
  proof (cases "h = []")
    case True
    then have "i = newID" and db': "db' = db\<lparr>indexids := (indexids db)(localDeviceIdx db \<mapsto> (indexIDToHex newID, sq))\<rparr>"
      using assms Some e by (auto simp: GetIndexID_def)
    then show ?thesis using assms(2) indexIDToHex_nonempty by (simp add: GetIndexID_def indexID_hex)
  next
    case False
    then show ?thesis using assms Some e by (auto simp: GetIndexID_def)
  qed
qed

lemma new_folder_local: "map_of (devices (new_folder_db lww)) LocalDeviceID = Some (localDeviceIdx (new_folder_db lww))"
  by (simp add: new_folder_db_def deviceIdxLocked_def)

theorem local_index_id_is_stable_witness:
  "\<exists>db'. GetIndexID 7 LocalDeviceID (new_folder_db False) = Ok (7, db') \<and> GetIndexID 9 LocalDeviceID db' = Ok (7, db')"
proof -
  obtain db' where "GetIndexID 7 LocalDeviceID (new_folder_db False) = Ok (7, db')"
    by (simp add: GetIndexID_def new_folder_local) (simp add: new_folder_db_def deviceIdxLocked_def)
  with local_index_id_is_stable [OF this new_folder_local] show ?thesis by blast
qed

theorem local_blocks_are_found_witness:
  "\<exists>db'. Update sample_env LocalDeviceID [sample_file] False (new_folder_db False) = Ok db' \<and>
    AllLocalBlocksWithHash [1, 2] db' \<noteq> []"
proof -
  let ?db = "new_folder_db False"
  have "blocklists ?db = Map.empty" by (simp add: new_folder_db_def deviceIdxLocked_def)
  then obtain db' where "update_file sample_env True False (localDeviceIdx ?db) sample_file ?db = Ok db'"
    using update_file_read [OF sample_env_sort new_folder_keys sample_file_sized _ _ new_folder_local, of False True False]
    by (auto simp: sample_env_def)
  then have up: "Update sample_env LocalDeviceID [sample_file] False ?db = Ok db'"
    by (simp add: Update_def deviceIdxLocked_def new_folder_local)
  have "block_index ?db = []" by (simp add: new_folder_db_def deviceIdxLocked_def)
  then show ?thesis
    using local_blocks_are_found [OF sample_env_sort new_folder_keys new_folder_local _ _ up, of 0] up
    by (auto simp: sample_env_def sample_file_def)
qed

end
