(* ===== verification/Puller_State.thy ===== *)
theory Puller_State
  imports File_Wire "HOL-Library.Signed_Division" "HOL-Library.Multiset"
begin

text \<open>
  The state shared by everybody who works on one file that is being synced,
  \<^verbatim>\<open>lib/model/sharedpullerstate.go\<close>.

  Copiers and pullers report each block as done, and whoever reports last closes the temporary
  file.  Every method runs under the state's mutex, so the operations are functions on the state,
  and any interleaving of them is a sequence.  Opening, extending, syncing and closing the file are
  calls of the file system; their results are the fields of \<open>fs_results\<close>.  Times are
  nanoseconds, given by the caller as the value of \<open>time.Now()\<close>.
\<close>

type_synonym go_error = string

section \<open>State and operations\<close>

record sharedPullerState =
  pfile :: FileInfo
  reused :: int
  created :: int
  perr :: "go_error option"
  has_writer :: bool
  copyTotal :: int
  pullTotal :: int
  copyOrigin :: int
  copyNeeded :: int
  pullNeeded :: int
  updated :: int
  pclosed :: bool
  available :: "int list"
  availableUpdated :: int

definition newSharedPullerState :: "int \<Rightarrow> FileInfo \<Rightarrow> BlockInfo list \<Rightarrow> int list \<Rightarrow> sharedPullerState" where
  "newSharedPullerState now f blocks reused_blocks =
     \<lparr>pfile = f, reused = int (length reused_blocks), created = now, perr = None, has_writer = False,
      copyTotal = int (length blocks), pullTotal = 0, copyOrigin = 0, copyNeeded = int (length blocks),
      pullNeeded = 0, updated = now, pclosed = False, available = reused_blocks, availableUpdated = now\<rparr>"

text \<open>The results of the file system calls one operation makes.\<close>

record fs_results =
  open_result :: "go_error option"        \<comment> \<open>creating or opening the temporary file\<close>
  trailer_result :: "go_error + int"      \<comment> \<open>writing the encryption trailer: its size\<close>
  close_result :: "go_error option"

definition failLocked :: "go_error option \<Rightarrow> sharedPullerState \<Rightarrow> sharedPullerState" where
  "failLocked err s = (if perr s \<noteq> None \<or> err = None then s else s\<lparr>perr := err\<rparr>)"

definition addWriterLocked :: "fs_results \<Rightarrow> sharedPullerState \<Rightarrow> go_error option \<times> sharedPullerState" where
  "addWriterLocked r s = (case open_result r of Some e \<Rightarrow> (Some e, s) | None \<Rightarrow> (None, s\<lparr>has_writer := True\<rparr>))"

definition tempFile :: "fs_results \<Rightarrow> sharedPullerState \<Rightarrow> go_error option \<times> sharedPullerState" where
  "tempFile r s =
     (if perr s \<noteq> None then (perr s, s)
      else if has_writer s then (None, s)
      else case addWriterLocked r s of
             (Some e, s) \<Rightarrow> (Some e, failLocked (Some e) s)
           | (None, s) \<Rightarrow> (None, s))"

definition fail :: "go_error option \<Rightarrow> sharedPullerState \<Rightarrow> sharedPullerState" where
  "fail err s = failLocked err s"

definition failed :: "sharedPullerState \<Rightarrow> go_error option" where
  "failed s = perr s"

definition block_index :: "FileInfo \<Rightarrow> BlockInfo \<Rightarrow> int" where
  "block_index f b = Offset b sdiv FileInfo_BlockSize f"

definition copyDone :: "int \<Rightarrow> BlockInfo \<Rightarrow> sharedPullerState \<Rightarrow> sharedPullerState" where
  "copyDone now b s =
     s\<lparr>copyNeeded := copyNeeded s - 1, updated := now,
       available := available s @ [block_index (pfile s) b], availableUpdated := now\<rparr>"

definition copiedFromOrigin :: "int \<Rightarrow> sharedPullerState \<Rightarrow> sharedPullerState" where
  "copiedFromOrigin now s = s\<lparr>copyOrigin := copyOrigin s + 1, updated := now\<rparr>"

definition skippedSparseBlock :: "int \<Rightarrow> sharedPullerState \<Rightarrow> sharedPullerState" where
  "skippedSparseBlock now s = s\<lparr>copyOrigin := copyOrigin s + 1, updated := now\<rparr>"

definition pullStarted :: "int \<Rightarrow> sharedPullerState \<Rightarrow> sharedPullerState" where
  "pullStarted now s =
     s\<lparr>copyTotal := copyTotal s - 1, copyNeeded := copyNeeded s - 1, pullTotal := pullTotal s + 1,
       pullNeeded := pullNeeded s + 1, updated := now\<rparr>"

definition pullDone :: "int \<Rightarrow> BlockInfo \<Rightarrow> sharedPullerState \<Rightarrow> sharedPullerState" where
  "pullDone now b s =
     s\<lparr>pullNeeded := pullNeeded s - 1, updated := now,
       available := available s @ [block_index (pfile s) b], availableUpdated := now\<rparr>"

text \<open>\<open>writeEncryptionTrailer\<close> extends the file; its size is a result of the file system.\<close>

definition finalizeEncrypted :: "fs_results \<Rightarrow> sharedPullerState \<Rightarrow> go_error option \<times> sharedPullerState" where
  "finalizeEncrypted r s =
     (case trailer_result r of
        Inl e \<Rightarrow> (Some e, s)
      | Inr n \<Rightarrow> (None, s\<lparr>pfile := (pfile s)\<lparr>Size := int64 (Size (pfile s) + n), EncryptionTrailerSize := n\<rparr>\<rparr>))"

text \<open>\<open>finalClose\<close>: whether the file was closed by this call, the error, and the state.\<close>

definition finalClose :: "fs_results \<Rightarrow> sharedPullerState \<Rightarrow> bool \<times> go_error option \<times> sharedPullerState" where
  "finalClose r s =
     (if pclosed s then (False, None, s)
      else if pullNeeded s + copyNeeded s \<noteq> 0 \<and> perr s = None then (False, None, s)
      else case (if has_writer s then (None, s) else addWriterLocked r s) of
             (Some e, s) \<Rightarrow> (False, Some e, s)
           | (None, s) \<Rightarrow>
               let s = (if Encrypted (pfile s) \<noteq> []
                        then (case finalizeEncrypted r s of (err, s) \<Rightarrow> failLocked err s) else s);
                   s = (if has_writer s then (failLocked (close_result r) s)\<lparr>has_writer := False\<rparr> else s);
                   s = s\<lparr>pclosed := True\<rparr>
               in (True, perr s, s))"

section \<open>Progress\<close>

definition blocksToSize :: "int \<Rightarrow> int \<Rightarrow> int \<Rightarrow> int \<Rightarrow> int" where
  "blocksToSize blocks blocksInFile blk fileSize =
     (if blocksInFile = 0 then 0
      else int64 (int64 (blocks * blk) -
             int64 (int64 (blk - fileSize smod blk) * blocks) sdiv blocksInFile))"

record PullerProgress =
  Total :: int
  Reused :: int
  CopiedFromOrigin :: int
  CopiedFromElsewhere :: int
  Pulled :: int
  Pulling :: int
  BytesDone :: int
  BytesTotal :: int

definition Progress :: "sharedPullerState \<Rightarrow> PullerProgress" where
  "Progress s =
     (let total = reused s + copyTotal s + pullTotal s;
          done' = total - copyNeeded s - pullNeeded s;
          file = int (length (Blocks (pfile s)));
          blk = FileInfo_BlockSize (pfile s)
      in \<lparr>Total = total, Reused = reused s, CopiedFromOrigin = copyOrigin s,
          CopiedFromElsewhere = copyTotal s - copyNeeded s - copyOrigin s,
          Pulled = pullTotal s - pullNeeded s, Pulling = pullNeeded s,
          BytesDone = blocksToSize done' file blk (Size (pfile s)),
          BytesTotal = blocksToSize total file blk (Size (pfile s))\<rparr>)"

section \<open>Interleavings\<close>

text \<open>
  The blocks nobody has taken yet, those being pulled, and the state.  A block is copied, or it is
  first announced as pulled and reported when it arrived; any call may report an error, and the
  file is offered for closing at any time.
\<close>

inductive puller_step ::
  "BlockInfo list \<times> BlockInfo list \<times> sharedPullerState \<Rightarrow> BlockInfo list \<times> BlockInfo list \<times> sharedPullerState \<Rightarrow> bool" where
  copy: "b \<in> set todo \<Longrightarrow> puller_step (todo, pulling, s) (remove1 b todo, pulling, copyDone now b s)"
| start: "b \<in> set todo \<Longrightarrow> puller_step (todo, pulling, s) (remove1 b todo, b # pulling, pullStarted now s)"
| arrive: "b \<in> set pulling \<Longrightarrow> puller_step (todo, pulling, s) (todo, remove1 b pulling, pullDone now b s)"
| origin: "puller_step (todo, pulling, s) (todo, pulling, copiedFromOrigin now s)"
| sparse: "puller_step (todo, pulling, s) (todo, pulling, skippedSparseBlock now s)"
| open': "puller_step (todo, pulling, s) (todo, pulling, snd (tempFile r s))"
| report: "puller_step (todo, pulling, s) (todo, pulling, fail err s)"
| close: "puller_step (todo, pulling, s) (todo, pulling, snd (snd (finalClose r s)))"

inductive puller_reachable ::
  "FileInfo \<Rightarrow> BlockInfo list \<Rightarrow> int list \<Rightarrow> BlockInfo list \<times> BlockInfo list \<times> sharedPullerState \<Rightarrow> bool"
  for f blocks reused_blocks where
  init: "puller_reachable f blocks reused_blocks (blocks, [], newSharedPullerState now f blocks reused_blocks)"
| trans: "puller_reachable f blocks reused_blocks x \<Longrightarrow> puller_step x y \<Longrightarrow> puller_reachable f blocks reused_blocks y"

section \<open>Invariant\<close>

lemmas puller_ops = copyDone_def pullStarted_def pullDone_def copiedFromOrigin_def skippedSparseBlock_def
  fail_def failLocked_def

fun puller_inv ::
  "FileInfo \<Rightarrow> BlockInfo list \<Rightarrow> int list \<Rightarrow> BlockInfo list \<times> BlockInfo list \<times> sharedPullerState \<Rightarrow> bool" where
  "puller_inv f blocks reused_blocks (todo, pulling, s) \<longleftrightarrow>
     copyNeeded s = int (length todo) \<and> pullNeeded s = int (length pulling) \<and>
     reused s = int (length reused_blocks) \<and> copyTotal s + pullTotal s = int (length blocks) \<and>
     pullNeeded s \<le> pullTotal s \<and> copyNeeded s \<le> copyTotal s \<and>
     RawBlockSize (pfile s) = RawBlockSize f \<and>
     mset (available s) + mset (map (block_index f) (todo @ pulling)) =
       mset (reused_blocks @ map (block_index f) blocks)"

lemma block_index_cong: "RawBlockSize f = RawBlockSize g \<Longrightarrow> block_index f = block_index g"
  by (simp add: block_index_def fun_eq_iff FileInfo_BlockSize_def)

lemma take_block:
  "b \<in> set bs \<Longrightarrow> image_mset g (mset bs) = add_mset (g b) (image_mset g (mset bs - {#b#}))"
  by (metis image_mset_add_mset insert_DiffM set_mset_mset)

lemma length_remove1_int: "b \<in> set bs \<Longrightarrow> int (length (remove1 b bs)) = int (length bs) - 1"
proof -
  assume "b \<in> set bs"
  then have "length bs = Suc (length (remove1 b bs))" using length_pos_if_in_set [of b bs] by (simp add: length_remove1)
  then show ?thesis by simp
qed

text \<open>Opening and closing change neither the counters nor the list of blocks.\<close>

definition same_blocks :: "sharedPullerState \<Rightarrow> sharedPullerState \<Rightarrow> bool" where
  "same_blocks s s' \<longleftrightarrow> copyNeeded s' = copyNeeded s \<and> pullNeeded s' = pullNeeded s \<and> reused s' = reused s \<and>
     copyTotal s' = copyTotal s \<and> pullTotal s' = pullTotal s \<and> available s' = available s \<and>
     RawBlockSize (pfile s') = RawBlockSize (pfile s)"

lemma same_blocks_refl [simp]: "same_blocks s s"
  by (simp add: same_blocks_def)

lemma same_blocks_trans: "same_blocks s s' \<Longrightarrow> same_blocks s' s'' \<Longrightarrow> same_blocks s s''"
  by (simp add: same_blocks_def)

lemma same_blocks_upd [simp]:
  "same_blocks s (s\<lparr>has_writer := w\<rparr>)" "same_blocks s (s\<lparr>pclosed := c\<rparr>)" "same_blocks s (failLocked err s)"
  "same_blocks s (copiedFromOrigin now s)" "same_blocks s (skippedSparseBlock now s)"
  by (simp_all add: same_blocks_def puller_ops)

lemma same_blocks_open: "same_blocks s (snd (addWriterLocked r s))"
  by (simp add: addWriterLocked_def split: option.splits)

lemma same_blocks_tempFile: "same_blocks s (snd (tempFile r s))"
  by (auto simp: tempFile_def addWriterLocked_def intro: same_blocks_trans split: option.splits)

lemma same_blocks_trailer: "same_blocks s (snd (finalizeEncrypted r s))"
  by (simp add: finalizeEncrypted_def same_blocks_def split: sum.splits)

text \<open>The part of \<open>finalClose\<close> after the decision to close.\<close>

definition close_file :: "fs_results \<Rightarrow> sharedPullerState \<Rightarrow> sharedPullerState" where
  "close_file r s =
     (let s = (if Encrypted (pfile s) \<noteq> []
               then (case finalizeEncrypted r s of (err, s) \<Rightarrow> failLocked err s) else s);
          s = (if has_writer s then (failLocked (close_result r) s)\<lparr>has_writer := False\<rparr> else s)
      in s\<lparr>pclosed := True\<rparr>)"

lemma finalClose_alt:
  "finalClose r s =
     (if pclosed s then (False, None, s)
      else if pullNeeded s + copyNeeded s \<noteq> 0 \<and> perr s = None then (False, None, s)
      else case (if has_writer s then (None, s) else addWriterLocked r s) of
             (Some e, s) \<Rightarrow> (False, Some e, s)
           | (None, s) \<Rightarrow> (True, perr (close_file r s), close_file r s))"
  by (simp only: finalClose_def close_file_def Let_def)

lemma same_blocks_close_file: "same_blocks s (close_file r s)"
proof -
  let ?s1 = "if Encrypted (pfile s) \<noteq> [] then (case finalizeEncrypted r s of (err, s) \<Rightarrow> failLocked err s) else s"
  let ?s2 = "if has_writer ?s1 then (failLocked (close_result r) ?s1)\<lparr>has_writer := False\<rparr> else ?s1"
  have "same_blocks s ?s1"
    using same_blocks_trailer [of s r] by (auto split: prod.splits intro: same_blocks_trans)
  moreover have "same_blocks ?s1 ?s2"
    using same_blocks_trans [OF same_blocks_upd(3) same_blocks_upd(1)] by simp
  moreover have "same_blocks ?s2 (?s2\<lparr>pclosed := True\<rparr>)" by simp
  ultimately show ?thesis unfolding close_file_def Let_def by (blast intro: same_blocks_trans)
qed

lemma same_blocks_finalClose: "same_blocks s (snd (snd (finalClose r s)))"
  using same_blocks_open [of s r] same_blocks_close_file
  by (auto simp: finalClose_alt split: prod.splits option.splits intro: same_blocks_trans)

lemma inv_same_blocks:
  "puller_inv f blocks ru (todo, pulling, s) \<Longrightarrow> same_blocks s s' \<Longrightarrow> puller_inv f blocks ru (todo, pulling, s')"
  by (simp add: same_blocks_def)

lemma inv_step:
  assumes "puller_step x y" and "puller_inv f blocks ru x"
  shows "puller_inv f blocks ru y"
  using assms
proof (induction rule: puller_step.induct)
  case (copy b todo pulling s now)
  then have "block_index (pfile s) = block_index f" by (auto intro: block_index_cong)
  with copy show ?case
    by (auto simp: copyDone_def take_block [of b todo] length_remove1_int)
next
  case (start b todo pulling s now)
  then show ?case
    by (auto simp: pullStarted_def take_block [of b todo] length_remove1_int)
next
  case (arrive b pulling todo s now)
  then have "block_index (pfile s) = block_index f" by (auto intro: block_index_cong)
  with arrive show ?case
    by (auto simp: pullDone_def take_block [of b pulling] length_remove1_int)
qed (auto intro: inv_same_blocks simp del: puller_inv.simps
      simp: same_blocks_tempFile same_blocks_finalClose fail_def)

lemma puller_reachable_inv: "puller_reachable f blocks ru x \<Longrightarrow> puller_inv f blocks ru x"
  by (induction rule: puller_reachable.induct) (auto simp: newSharedPullerState_def intro: inv_step)

lemma closed_stays: "puller_step x y \<Longrightarrow> pclosed (snd (snd x)) \<Longrightarrow> pclosed (snd (snd y))"
  by (induction rule: puller_step.induct)
     (auto simp: puller_ops tempFile_def finalClose_alt addWriterLocked_def split: option.splits)

section \<open>Properties\<close>

text \<open>C19: However the copiers and pullers interleave, a file is finished without an error only when
  every block has been reused, copied or pulled, each exactly once, and only by one call: after
  any further steps, closing does not succeed again.\<close>

theorem finished_file_is_complete:
  assumes "puller_reachable f blocks reused_blocks (todo, pulling, s)" and "finalClose r s = (True, err, s')"
  shows "(err = None \<longrightarrow> mset (available s) = mset (reused_blocks @ map (block_index f) blocks)) \<and>
    (\<forall>x. puller_step\<^sup>*\<^sup>* (todo, pulling, s') x \<longrightarrow> fst (finalClose r' (snd (snd x))) = False)"
proof (intro conjI impI allI)
  assume "err = None"
  have err: "err = perr s'" "\<And>e. perr s = Some e \<Longrightarrow> perr s' = Some e"
    using assms(2) by (auto simp: finalClose_alt close_file_def addWriterLocked_def finalizeEncrypted_def failLocked_def
        Let_def split: if_splits option.splits sum.splits)
  then have "perr s = None" using \<open>err = None\<close> by (cases "perr s") auto
  then have "pullNeeded s + copyNeeded s = 0"
    using assms(2) by (auto simp: finalClose_alt split: if_splits)
  moreover have "puller_inv f blocks reused_blocks (todo, pulling, s)" by (rule puller_reachable_inv [OF assms(1)])
  ultimately have "int (length todo + length pulling) = 0"
      "mset (available s) + mset (map (block_index f) (todo @ pulling)) = mset (reused_blocks @ map (block_index f) blocks)"
    by simp_all
  moreover from this(1) have "todo = []" "pulling = []" by (simp_all only: of_nat_eq_0_iff add_is_0 length_0_conv)
  ultimately show "mset (available s) = mset (reused_blocks @ map (block_index f) blocks)" by simp
next
  fix x
  assume steps: "puller_step\<^sup>*\<^sup>* (todo, pulling, s') x"
  have "pclosed s'"
    using assms(2) by (auto simp: finalClose_alt close_file_def Let_def split: if_splits option.splits prod.splits)
  with steps have "pclosed (snd (snd x))"
    by (induction rule: rtranclp_induct) (auto intro: closed_stays)
  then show "fst (finalClose r' (snd (snd x))) = False" by (simp add: finalClose_alt)
qed

definition quiet_fs :: fs_results where
  "quiet_fs = \<lparr>open_result = None, trailer_result = Inr 0, close_result = None\<rparr>"

theorem finished_file_is_complete_witness:
  "\<exists>s. finalClose quiet_fs (copyDone 7 (hd (Blocks sample_file)) (newSharedPullerState 5 sample_file (Blocks sample_file) []))
      = (True, None, s) \<and>
     available (copyDone 7 (hd (Blocks sample_file)) (newSharedPullerState 5 sample_file (Blocks sample_file) [])) = [0]"
proof -
  let ?b = "hd (Blocks sample_file)"
  let ?s = "copyDone 7 ?b (newSharedPullerState 5 sample_file (Blocks sample_file) [])"
  have "puller_step (Blocks sample_file, [], newSharedPullerState 5 sample_file (Blocks sample_file) [])
      (remove1 ?b (Blocks sample_file), [], ?s)"
    by (rule copy) (simp add: sample_file_def)
  then have "puller_reachable sample_file (Blocks sample_file) [] (remove1 ?b (Blocks sample_file), [], ?s)"
    by (rule puller_reachable.trans [OF puller_reachable.init])
  moreover obtain s where fin: "finalClose quiet_fs ?s = (True, None, s)"
    by (simp add: finalClose_alt close_file_def quiet_fs_def addWriterLocked_def finalizeEncrypted_def failLocked_def
        copyDone_def newSharedPullerState_def Let_def sample_file_def)
  ultimately have "mset (available ?s) = mset ([] @ map (block_index sample_file) (Blocks sample_file))"
    using finished_file_is_complete by blast
  moreover have "map (block_index sample_file) (Blocks sample_file) = [0]"
    by (simp add: sample_file_def block_index_def)
  ultimately show ?thesis using fin by simp
qed

text \<open>A temporary file that cannot be opened is never finished.  When opening fails, \<open>tempFile\<close>
  records the error, but \<open>finalClose\<close> tries to open the file again and returns that it is not
  ready, so the caller drops the error.\<close>

theorem unopenable_file_is_never_finished:
  assumes "perr s = None" and "\<not> has_writer s" and "\<not> pclosed s" and "open_result r = Some e"
  shows "tempFile r s = (Some e, s\<lparr>perr := Some e\<rparr>) \<and>
    finalClose r (s\<lparr>perr := Some e\<rparr>) = (False, Some e, s\<lparr>perr := Some e\<rparr>)"
  using assms by (simp add: tempFile_def addWriterLocked_def failLocked_def finalClose_alt)

theorem unopenable_file_is_never_finished_witness:
  "finalClose (quiet_fs\<lparr>open_result := Some ''disk full''\<rparr>)
     ((newSharedPullerState 5 sample_file (Blocks sample_file) [])\<lparr>perr := Some ''disk full''\<rparr>) =
   (False, Some ''disk full'', (newSharedPullerState 5 sample_file (Blocks sample_file) [])\<lparr>perr := Some ''disk full''\<rparr>)"
  using unopenable_file_is_never_finished [of "newSharedPullerState 5 sample_file (Blocks sample_file) []"
      "quiet_fs\<lparr>open_result := Some ''disk full''\<rparr>" "''disk full''"]
  by (simp add: newSharedPullerState_def)

text \<open>The size that the progress of a file adds up to is the size of the file, except for files
  whose size is a multiple of the block size: those end one block early.\<close>

theorem progress_total:
  assumes "0 < blk" and "0 < n" and "(n - 1) * blk < sz" and "sz \<le> n * blk" and "n * blk < 2 ^ 62"
  shows "blocksToSize n n blk sz = (if blk dvd sz then sz - blk else sz)"
proof -
  have sz: "0 < sz" using assms(1-3) by (smt (verit) mult_nonneg_nonneg)
  have rem: "sz smod blk = sz mod blk"
    using sz assms(1) by (simp add: signed_modulo_int_def)
  let ?pad = "blk - sz mod blk"
  have pad: "0 < ?pad" "?pad \<le> blk" using assms(1) by simp_all
  have small: "int64 x = x" if "0 \<le> x" "x \<le> n * blk" for x
    by (rule int64_id) (use that assms(5) in simp_all)
  have le: "?pad * n \<le> n * blk" "blk \<le> n * blk"
    using pad(2) assms(1, 2) by (simp_all add: mult.commute)
  have wrap: "int64 (n * blk) = n * blk" "int64 ?pad = ?pad" "int64 (?pad * n) = ?pad * n"
      "int64 (n * blk - ?pad) = n * blk - ?pad"
    using small [of "n * blk"] small [of ?pad] small [of "?pad * n"] small [of "n * blk - ?pad"] le pad assms(1, 2)
    by simp_all
  have "?pad * n sdiv n = ?pad"
    using assms(2) pad(1) by (simp add: signed_divide_int_def sgn_mult)
  then have size: "blocksToSize n n blk sz = n * blk - ?pad"
    using assms(2) by (simp add: blocksToSize_def rem wrap)
  have "sz div blk = (if blk dvd sz then n else n - 1)"
  proof (cases "blk dvd sz")
    case True
    then obtain k where "sz = blk * k" by (elim dvdE)
    with assms(1, 3, 4) have "n - 1 < k" "k \<le> n" by (simp_all add: mult.commute)
    with \<open>sz = blk * k\<close> True assms(1) show ?thesis by simp
  next
    case False
    then have "sz \<noteq> n * blk" by auto
    then have "sz div blk = n - 1"
      using assms by (intro int_div_pos_eq [of _ _ _ "sz - (n - 1) * blk"]) (simp_all add: algebra_simps)
    with False show ?thesis by simp
  qed
  then show ?thesis
    using size div_mult_mod_eq [of sz blk] by (auto simp: algebra_simps dvd_eq_mod_eq_0)
qed

theorem progress_total_witness:
  "blocksToSize 2 2 131072 262144 = 131072 \<and> blocksToSize 2 2 131072 262143 = 262143"
  using progress_total [of 131072 2 262144] progress_total [of 131072 2 262143] by simp

end
