(* ===== verification/Download_State.thy ===== *)
theory Download_State
  imports Puller_State BEP_Messages "HOL-Library.Sublist"
begin

text \<open>
  What devices tell each other about unfinished downloads: the announcing side,
  \<^verbatim>\<open>lib/model/sentdownloadstate.go\<close>, and the receiving side,
  \<^verbatim>\<open>lib/model/devicedownloadstate.go\<close>.

  The announcer keeps, per folder, what it has told a device about every file, and turns the
  present state of the pullers into a list of updates; the receiver applies the updates, and asks
  it for blocks.  Maps are HOL maps; where the code ranges over a map the order is an argument
  that enumerates the keys, since Go leaves it open.
\<close>

section \<open>The receiving side\<close>

record deviceFolderFileDownloadState =
  dfBlockIndexes :: "int list"
  dfVersion :: vector
  dfBlockSize :: int

type_synonym deviceFolderDownloadState = "string \<Rightarrow> deviceFolderFileDownloadState option"

definition Has :: "deviceFolderDownloadState \<Rightarrow> string \<Rightarrow> vector \<Rightarrow> int \<Rightarrow> bool" where
  "Has p file version index =
     (case p file of
        None \<Rightarrow> False
      | Some local \<Rightarrow> VEqual (dfVersion local) version \<and> index \<in> set (dfBlockIndexes local))"

definition update_one ::
  "deviceFolderDownloadState \<Rightarrow> FileDownloadProgressUpdate \<Rightarrow> deviceFolderDownloadState" where
  "update_one p u =
     (let fresh = \<lparr>dfBlockIndexes = BlockIndexes u, dfVersion = UpdVersion u, dfBlockSize = UpdBlockSize u\<rparr>
      in case UpdateType u of
           FileDownloadProgressUpdateTypeForget \<Rightarrow>
             (case p (UpdName u) of
                Some local \<Rightarrow> if VEqual (dfVersion local) (UpdVersion u) then p(UpdName u := None) else p
              | None \<Rightarrow> p)
         | FileDownloadProgressUpdateTypeAppend \<Rightarrow>
             (case p (UpdName u) of
                None \<Rightarrow> p(UpdName u \<mapsto> fresh)
              | Some local \<Rightarrow>
                  if \<not> VEqual (dfVersion local) (UpdVersion u) then p(UpdName u \<mapsto> fresh)
                  else p(UpdName u \<mapsto> local\<lparr>dfBlockIndexes := dfBlockIndexes local @ BlockIndexes u\<rparr>))
         | FileDownloadProgressUpdateTypeOther _ \<Rightarrow> p)"

definition Folder_Update ::
  "deviceFolderDownloadState \<Rightarrow> FileDownloadProgressUpdate list \<Rightarrow> deviceFolderDownloadState" where
  "Folder_Update p updates = foldl update_one p updates"

definition file_bytes :: "deviceFolderFileDownloadState \<Rightarrow> int" where
  "file_bytes state =
     (if dfBlockSize state \<noteq> 0 then int64 (int (length (dfBlockIndexes state)) * dfBlockSize state)
      else int64 (int (length (dfBlockIndexes state)) * int MinBlockSize))"

fun bytes_loop :: "deviceFolderDownloadState \<Rightarrow> string list \<Rightarrow> int \<Rightarrow> int" where
  "bytes_loop p [] res = res"
| "bytes_loop p (name # names) res =
     bytes_loop p names (case p name of None \<Rightarrow> res | Some state \<Rightarrow> int64 (res + file_bytes state))"

definition Folder_BytesDownloaded :: "deviceFolderDownloadState \<Rightarrow> string list \<Rightarrow> int" where
  "Folder_BytesDownloaded p order = bytes_loop p order 0"

definition Folder_GetBlockCounts :: "deviceFolderDownloadState \<Rightarrow> string \<Rightarrow> int option" where
  "Folder_GetBlockCounts p = (\<lambda>name. map_option (\<lambda>state. int (length (dfBlockIndexes state))) (p name))"

text \<open>All folders of a device; the methods accept a nil receiver, which is \<open>None\<close>.\<close>

type_synonym deviceDownloadState = "(string \<Rightarrow> deviceFolderDownloadState option) option"

definition newDeviceDownloadState :: deviceDownloadState where
  "newDeviceDownloadState = Some Map.empty"

definition Device_Update ::
  "deviceDownloadState \<Rightarrow> string \<Rightarrow> FileDownloadProgressUpdate list \<Rightarrow> deviceDownloadState" where
  "Device_Update t folder updates =
     (case t of
        None \<Rightarrow> None
      | Some folders \<Rightarrow>
          let f = (case folders folder of Some f \<Rightarrow> f | None \<Rightarrow> Map.empty)
          in Some (folders(folder \<mapsto> Folder_Update f updates)))"

definition Device_Has :: "deviceDownloadState \<Rightarrow> string \<Rightarrow> string \<Rightarrow> vector \<Rightarrow> int \<Rightarrow> bool" where
  "Device_Has t folder file version index =
     (case t of
        None \<Rightarrow> False
      | Some folders \<Rightarrow> (case folders folder of None \<Rightarrow> False | Some f \<Rightarrow> Has f file version index))"

definition Device_GetBlockCounts :: "deviceDownloadState \<Rightarrow> string \<Rightarrow> (string \<Rightarrow> int option) option" where
  "Device_GetBlockCounts t folder =
     (case t of None \<Rightarrow> None | Some folders \<Rightarrow> map_option Folder_GetBlockCounts (folders folder))"

definition Device_BytesDownloaded :: "deviceDownloadState \<Rightarrow> string \<Rightarrow> string list \<Rightarrow> int" where
  "Device_BytesDownloaded t folder order =
     (case t of
        None \<Rightarrow> 0
      | Some folders \<Rightarrow> (case folders folder of None \<Rightarrow> 0 | Some f \<Rightarrow> Folder_BytesDownloaded f order))"

section \<open>The announcing side\<close>

record sentFolderFileDownloadState =
  sfBlockIndexes :: "int list"
  sfVersion :: vector
  sfUpdated :: int
  sfCreated :: int
  sfBlockSize :: int

type_synonym sentFolderDownloadState = "string \<Rightarrow> sentFolderFileDownloadState option"

definition forget_update :: "string \<Rightarrow> vector \<Rightarrow> FileDownloadProgressUpdate" where
  "forget_update name v =
     \<lparr>UpdateType = FileDownloadProgressUpdateTypeForget, UpdName = name, UpdVersion = v, BlockIndexes = [],
      UpdBlockSize = 0\<rparr>"

definition append_update :: "string \<Rightarrow> vector \<Rightarrow> int list \<Rightarrow> int \<Rightarrow> FileDownloadProgressUpdate" where
  "append_update name v idxs sz =
     \<lparr>UpdateType = FileDownloadProgressUpdateTypeAppend, UpdName = name, UpdVersion = v, BlockIndexes = idxs,
      UpdBlockSize = sz\<rparr>"

definition sent_of :: "sharedPullerState \<Rightarrow> sentFolderFileDownloadState" where
  "sent_of puller =
     \<lparr>sfBlockIndexes = available puller, sfVersion = Version (pfile puller), sfUpdated = availableUpdated puller,
      sfCreated = created puller, sfBlockSize = FileInfo_BlockSize (pfile puller)\<rparr>"

text \<open>
  The body of the loop over the pullers: the files and the updates of this puller.  Slicing beyond
  the end of the available blocks panics.
\<close>

definition update_puller ::
  "sentFolderDownloadState \<Rightarrow> sharedPullerState \<Rightarrow>
   (unit, sentFolderDownloadState \<times> FileDownloadProgressUpdate list) outcome" where
  "update_puller files puller =
     (let name = Name (pfile puller);
          idxs = available puller;
          v = Version (pfile puller);
          sz = FileInfo_BlockSize (pfile puller)
      in case files name of
           None \<Rightarrow>
             if 0 < length idxs then Ok (files(name \<mapsto> sent_of puller), [append_update name v idxs sz])
             else Ok (files, [])
         | Some localFile \<Rightarrow>
             if availableUpdated puller = sfUpdated localFile \<and> VEqual v (sfVersion localFile) then Ok (files, [])
             else if \<not> VEqual v (sfVersion localFile) \<or> created puller \<noteq> sfCreated localFile then
               Ok (files(name \<mapsto> sent_of puller),
                   [forget_update name (sfVersion localFile), append_update name v idxs sz])
             else if length idxs < length (sfBlockIndexes localFile) then Panic
             else
               let newBlocks = drop (length (sfBlockIndexes localFile)) idxs
               in Ok (files(name \<mapsto> localFile\<lparr>sfBlockIndexes := sfBlockIndexes localFile @ newBlocks,
                         sfUpdated := availableUpdated puller\<rparr>),
                      if 0 < length newBlocks then [append_update name (sfVersion localFile) newBlocks sz] else []))"

fun update_pullers ::
  "sentFolderDownloadState \<Rightarrow> sharedPullerState list \<Rightarrow>
   (unit, sentFolderDownloadState \<times> FileDownloadProgressUpdate list) outcome" where
  "update_pullers files [] = Ok (files, [])"
| "update_pullers files (puller # pullers) =
     obind (update_puller files puller) (\<lambda>(files, us).
     obind (update_pullers files pullers) (\<lambda>(files, us'). Ok (files, us @ us')))"

text \<open>Forgetting the files in \<open>names\<close>, as the last loop and \<open>destroy\<close> do.\<close>

fun forget_files ::
  "sentFolderDownloadState \<Rightarrow> string list \<Rightarrow> sentFolderDownloadState \<times> FileDownloadProgressUpdate list" where
  "forget_files files [] = (files, [])"
| "forget_files files (name # names) =
     (case files name of
        None \<Rightarrow> forget_files files names
      | Some info \<Rightarrow>
          (case forget_files (files(name := None)) names of
             (files, us) \<Rightarrow> (files, forget_update name (sfVersion info) # us)))"

definition puller_names :: "sharedPullerState list \<Rightarrow> string list" where
  "puller_names pullers = map (\<lambda>p. Name (pfile p)) pullers"

definition Sent_update ::
  "sentFolderDownloadState \<Rightarrow> sharedPullerState list \<Rightarrow> string list \<Rightarrow>
   (unit, sentFolderDownloadState \<times> FileDownloadProgressUpdate list) outcome" where
  "Sent_update files pullers order =
     obind (update_pullers files pullers) (\<lambda>(files, us).
       case forget_files files (filter (\<lambda>name. name \<notin> set (puller_names pullers)) order) of
         (files, us') \<Rightarrow> Ok (files, us @ us'))"

definition Sent_destroy ::
  "sentFolderDownloadState \<Rightarrow> string list \<Rightarrow> sentFolderDownloadState \<times> FileDownloadProgressUpdate list" where
  "Sent_destroy files order = forget_files files order"

type_synonym sentDownloadState = "string \<Rightarrow> sentFolderDownloadState option"

definition SentState_update ::
  "sentDownloadState \<Rightarrow> string \<Rightarrow> sharedPullerState list \<Rightarrow> string list \<Rightarrow>
   (unit, sentDownloadState \<times> FileDownloadProgressUpdate list) outcome" where
  "SentState_update s folder pullers order =
     (let fs = (case s folder of Some fs \<Rightarrow> fs | None \<Rightarrow> Map.empty)
      in obind (Sent_update fs pullers order) (\<lambda>(fs, us). Ok (s(folder \<mapsto> fs), us)))"

definition SentState_cleanup ::
  "sentDownloadState \<Rightarrow> string \<Rightarrow> string list \<Rightarrow> sentDownloadState \<times> FileDownloadProgressUpdate list" where
  "SentState_cleanup s folder order =
     (case s folder of
        None \<Rightarrow> (s, [])
      | Some fs \<Rightarrow> (s(folder := None), snd (Sent_destroy fs order)))"

section \<open>The receiver follows the announcer\<close>

lemma compare_loop_refl: "compare_loop cs cs r = r"
proof (induction cs)
  case (Cons c cs)
  then show ?case by (subst compare_loop_both) (simp_all add: compare_switch_def)
qed simp

lemma VEqual_refl [simp]: "VEqual v v"
  by (simp add: VEqual_def Compare_def compare_loop_refl)

lemma VEqual_sym: "VEqual v w \<longleftrightarrow> VEqual w v"
  using Compare_flip [of v w] by (simp add: VEqual_def)

definition dev_of :: "sentFolderFileDownloadState \<Rightarrow> deviceFolderFileDownloadState" where
  "dev_of f = \<lparr>dfBlockIndexes = sfBlockIndexes f, dfVersion = sfVersion f, dfBlockSize = sfBlockSize f\<rparr>"

text \<open>The abstraction: what the receiver knows is what the announcer remembers having said.\<close>

definition told :: "sentFolderDownloadState \<Rightarrow> deviceFolderDownloadState" where
  "told files = (\<lambda>name. map_option dev_of (files name))"

lemma Folder_Update_simps [simp]:
  "Folder_Update p [] = p" "Folder_Update p (u # us) = Folder_Update (update_one p u) us"
  "Folder_Update p (us @ us') = Folder_Update (Folder_Update p us) us'"
  by (simp_all add: Folder_Update_def)

lemma told_upd: "told (files(name := x)) = (told files)(name := map_option dev_of x)"
  by (auto simp: told_def fun_eq_iff)

lemma update_one_forget:
  "files name = Some f \<Longrightarrow> update_one (told files) (forget_update name (sfVersion f)) = told (files(name := None))"
  by (simp add: update_one_def forget_update_def told_upd) (simp add: told_def dev_of_def)

lemma update_one_append_new:
  "update_one ((told files)(name := None)) (append_update name (Version (pfile p)) (available p)
     (FileInfo_BlockSize (pfile p))) = told (files(name \<mapsto> sent_of p))"
  by (simp add: update_one_def append_update_def told_upd dev_of_def sent_of_def)

lemma update_one_append_more:
  assumes "files name = Some f"
  shows "update_one (told files) (append_update name (sfVersion f) idxs sz) =
    told (files(name \<mapsto> f\<lparr>sfBlockIndexes := sfBlockIndexes f @ idxs, sfUpdated := w\<rparr>))"
  using assms by (simp add: update_one_def append_update_def told_upd) (simp add: told_def dev_of_def)

lemma told_touch:
  "files name = Some f \<Longrightarrow> told (files(name \<mapsto> f\<lparr>sfUpdated := w\<rparr>)) = told files"
  by (auto simp: told_def dev_of_def fun_eq_iff)

lemma update_puller_told:
  "update_puller files p = Ok (files', us) \<Longrightarrow> Folder_Update (told files) us = told files'"
proof -
  assume step: "update_puller files p = Ok (files', us)"
  let ?name = "Name (pfile p)"
  show ?thesis
  proof (cases "files ?name")
    case None
    then have "(told files)(?name := None) = told files" by (auto simp: told_def)
    with None step update_one_append_new [of files ?name p] show ?thesis
      by (auto simp: update_puller_def Let_def split: if_splits)
  next
    case (Some f)
    have forgot: "update_one (told files) (forget_update ?name (sfVersion f)) = (told files)(?name := None)"
      using update_one_forget [of files ?name f, OF Some] by (simp add: told_upd)
    show ?thesis
      using step Some forgot update_one_append_new [of files ?name p]
        update_one_append_more [of files ?name f, OF Some, of "drop (length (sfBlockIndexes f)) (available p)"
          "FileInfo_BlockSize (pfile p)" "availableUpdated p"]
      by (auto simp: update_puller_def Let_def told_touch split: if_splits)
  qed
qed

lemma update_pullers_told:
  "update_pullers files ps = Ok (files', us) \<Longrightarrow> Folder_Update (told files) us = told files'"
  by (induction ps arbitrary: files us) (auto dest!: update_puller_told)

lemma forget_files_told:
  "forget_files files names = (files', us) \<Longrightarrow> Folder_Update (told files) us = told files'"
  by (induction names arbitrary: files us) (auto simp: update_one_forget split: option.splits prod.splits)

lemma forget_files_state:
  "fst (forget_files files names) = (\<lambda>n. if n \<in> set names then None else files n)"
proof (induction names arbitrary: files)
  case (Cons n names)
  show ?case by (cases "files n") (auto simp: Cons case_prod_beta)
qed simp

section \<open>What is announced is what is there\<close>

text \<open>
  The state of a puller when it is looked at again: with the same version, the blocks have not
  changed when their time stamp has not, and the blocks of the same puller are only appended to.
\<close>

definition follows :: "sentFolderDownloadState \<Rightarrow> sharedPullerState \<Rightarrow> bool" where
  "follows files p \<longleftrightarrow>
     (case files (Name (pfile p)) of
        None \<Rightarrow> True
      | Some f \<Rightarrow> VEqual (Version (pfile p)) (sfVersion f) \<longrightarrow>
          (availableUpdated p = sfUpdated f \<longrightarrow> available p = sfBlockIndexes f) \<and>
          (created p = sfCreated f \<longrightarrow> prefix (sfBlockIndexes f) (available p)))"

lemma step_only_appends: "puller_step x y \<Longrightarrow> prefix (available (snd (snd x))) (available (snd (snd y)))"
proof (induction rule: puller_step.induct)
  case (open' todo pulling s r)
  show ?case using same_blocks_tempFile [of s r] by (simp add: same_blocks_def)
next
  case (close todo pulling s r)
  show ?case using same_blocks_finalClose [of s r] by (simp add: same_blocks_def)
qed (simp_all add: puller_ops)

definition announced :: "sentFolderDownloadState \<Rightarrow> sharedPullerState \<Rightarrow> bool" where
  "announced files p \<longleftrightarrow>
     (case files (Name (pfile p)) of
        None \<Rightarrow> available p = []
      | Some f \<Rightarrow> VEqual (sfVersion f) (Version (pfile p)) \<and> sfBlockIndexes f = available p)"

lemma update_puller_announces:
  assumes "follows files p"
  shows "\<exists>files' us. update_puller files p = Ok (files', us) \<and> announced files' p \<and>
    (\<forall>n. n \<noteq> Name (pfile p) \<longrightarrow> files' n = files n)"
proof (cases "files (Name (pfile p))")
  case None
  then show ?thesis by (auto simp: update_puller_def Let_def announced_def sent_of_def)
next
  case (Some f)
  show ?thesis
  proof (cases "VEqual (Version (pfile p)) (sfVersion f) \<and> created p = sfCreated f")
    case True
    then obtain rest where "available p = sfBlockIndexes f @ rest"
      using assms Some by (auto simp: follows_def prefix_def)
    with True Some assms show ?thesis
      by (auto simp: update_puller_def Let_def announced_def follows_def VEqual_sym [of "sfVersion f"])
  next
    case False
    then show ?thesis using assms Some
      by (auto simp: update_puller_def Let_def announced_def follows_def sent_of_def VEqual_sym [of "sfVersion f"])
  qed
qed

lemma update_pullers_announce:
  assumes "distinct (puller_names ps)" and "list_all (follows files) ps"
  shows "\<exists>files' us. update_pullers files ps = Ok (files', us) \<and> list_all (announced files') ps \<and>
    (\<forall>n. n \<notin> set (puller_names ps) \<longrightarrow> files' n = files n)"
  using assms
proof (induction ps arbitrary: files)
  case (Cons p ps)
  obtain files1 us1 where p: "update_puller files p = Ok (files1, us1)" "announced files1 p"
      "\<forall>n. n \<noteq> Name (pfile p) \<longrightarrow> files1 n = files n"
    using update_puller_announces [of files p] Cons.prems(2) by auto
  have "list_all (follows files1) ps"
    unfolding list_all_iff
  proof
    fix q
    assume "q \<in> set ps"
    then have "Name (pfile q) \<in> set (puller_names ps)" by (simp add: puller_names_def)
    then have "Name (pfile q) \<noteq> Name (pfile p)" using Cons.prems(1) by (auto simp: puller_names_def)
    then have "files1 (Name (pfile q)) = files (Name (pfile q))" using p(3) by blast
    then show "follows files1 q" using Cons.prems(2) \<open>q \<in> set ps\<close> by (simp add: list_all_iff follows_def)
  qed
  then obtain files2 us2 where ps: "update_pullers files1 ps = Ok (files2, us2)" "list_all (announced files2) ps"
      "\<forall>n. n \<notin> set (puller_names ps) \<longrightarrow> files2 n = files1 n"
    using Cons.IH [of files1] Cons.prems(1) by (auto simp: puller_names_def)
  have "files2 (Name (pfile p)) = files1 (Name (pfile p))"
    using ps(3) Cons.prems(1) by (auto simp: puller_names_def)
  then have "announced files2 p" using p(2) by (simp add: announced_def)
  with p ps show ?case by (auto simp: puller_names_def)
qed simp

lemma Has_told:
  "Has (told files) n v i \<longleftrightarrow> (\<exists>f. files n = Some f \<and> VEqual (sfVersion f) v \<and> i \<in> set (sfBlockIndexes f))"
  by (auto simp: Has_def told_def dev_of_def split: option.splits)

lemma destroy_clears_receiver:
  "dom files \<subseteq> set order \<Longrightarrow> Folder_Update (told files) (snd (Sent_destroy files order)) = Map.empty"
proof -
  assume "dom files \<subseteq> set order"
  then have "fst (forget_files files order) = Map.empty"
    by (auto simp: forget_files_state fun_eq_iff dom_def)
  then show ?thesis
    using forget_files_told [of files order] by (cases "forget_files files order") (simp add: Sent_destroy_def told_def)
qed

section \<open>Properties\<close>

text \<open>C18: After an announcement has been sent and applied, the receiving device knows exactly the
  blocks that are available in the temporary files: for every puller, the block is known to the
  receiver if and only if the puller has it, and nothing is known of files without a puller.  The
  announcement never panics.  The updates go through the message conversion; the pullers have
  distinct names and their lists of blocks only grow.\<close>

theorem receiver_knows_available_blocks:
  assumes "distinct (puller_names ps)" and "list_all (follows files) ps" and "dom files \<subseteq> set order"
    and "\<forall>files' us. Sent_update files ps order = Ok (files', us) \<longrightarrow> list_all wf_update us"
  shows "\<exists>files' us. Sent_update files ps order = Ok (files', us) \<and>
    (let dev = Folder_Update (told files) (map (\<lambda>u. fileDownloadProgressUpdateFromWire (Update_toWire u)) us)
     in dev = told files' \<and>
        (\<forall>p \<in> set ps. \<forall>i. Has dev (Name (pfile p)) (Version (pfile p)) i \<longleftrightarrow> i \<in> set (available p)) \<and>
        (\<forall>n v i. n \<notin> set (puller_names ps) \<longrightarrow> \<not> Has dev n v i))"
proof -
  obtain files1 us1 where up: "update_pullers files ps = Ok (files1, us1)" "list_all (announced files1) ps"
      "\<forall>n. n \<notin> set (puller_names ps) \<longrightarrow> files1 n = files n"
    using update_pullers_announce [OF assms(1, 2)] by blast
  let ?gone = "filter (\<lambda>n. n \<notin> set (puller_names ps)) order"
  obtain files2 us2 where gone: "forget_files files1 ?gone = (files2, us2)" by fastforce
  have res: "Sent_update files ps order = Ok (files2, us1 @ us2)" by (simp add: Sent_update_def up gone)
  have sync: "Folder_Update (told files) (us1 @ us2) = told files2"
    using update_pullers_told [OF up(1)] forget_files_told [OF gone] by simp
  have wire: "map (\<lambda>u. fileDownloadProgressUpdateFromWire (Update_toWire u)) (us1 @ us2) = us1 @ us2"
    using assms(4) res update_msg.round_trip by (auto intro!: map_idI simp: list_all_iff)
  have files2: "files2 n = (if n \<in> set (puller_names ps) then files1 n else None)" for n
    using forget_files_state [of files1 ?gone] gone up(3) assms(3) by auto
  have "Has (told files2) (Name (pfile p)) (Version (pfile p)) i \<longleftrightarrow> i \<in> set (available p)" if "p \<in> set ps" for p i
  proof -
    have "files2 (Name (pfile p)) = files1 (Name (pfile p))" using that files2 by (simp add: puller_names_def)
    moreover have "announced files1 p" using that up(2) by (simp add: list_all_iff)
    ultimately show ?thesis by (auto simp: Has_told announced_def split: option.splits)
  qed
  moreover have "\<not> Has (told files2) n v i" if "n \<notin> set (puller_names ps)" for n v i
    using that files2 by (simp add: Has_told)
  ultimately show ?thesis using res sync wire by (auto simp: Let_def)
qed

definition sample_puller :: sharedPullerState where
  "sample_puller = copyDone 7 (hd (Blocks sample_file)) (newSharedPullerState 5 sample_file (Blocks sample_file) [])"

lemma sample_puller_available: "available sample_puller = [0]" "pfile sample_puller = sample_file"
  by (simp_all add: sample_puller_def copyDone_def newSharedPullerState_def sample_file_def block_index_def)

theorem receiver_knows_available_blocks_witness:
  "\<exists>us. Has (Folder_Update Map.empty us) ''a'' (Version sample_file) 0 \<and>
     \<not> Has (Folder_Update Map.empty us) ''a'' (Version sample_file) 1"
proof -
  have name: "Name sample_file = ''a''" by (simp add: sample_file_def)
  have "Sent_update Map.empty [sample_puller] [] =
      Ok ([''a'' \<mapsto> sent_of sample_puller], [append_update ''a'' (Version sample_file) [0] 131072])"
    by (simp add: Sent_update_def update_puller_def sample_puller_available name Let_def FileInfo_BlockSize_def
        sample_file_def MinBlockSize_def)
  moreover have "wf_update (append_update ''a'' (Version sample_file) [0] 131072)"
    by (simp add: wf_update_def append_update_def fits32_def)
  ultimately have wf: "\<forall>files' us. Sent_update Map.empty [sample_puller] [] = Ok (files', us) \<longrightarrow> list_all wf_update us"
    by simp
  have told: "told Map.empty = Map.empty" by (simp add: told_def)
  show ?thesis
    using receiver_knows_available_blocks [OF _ _ _ wf]
    by (auto simp: told puller_names_def follows_def sample_puller_available name Let_def)
qed

end
