(* ===== verification/Index_Handler.thy ===== *)
theory Index_Handler
  imports Folder_Queries Download_State
begin

text \<open>
  Sending and receiving the index of a folder, \<^verbatim>\<open>lib/model/indexhandler.go\<close> and
  \<^verbatim>\<open>lib/model/fileinfobatch.go\<close>.

  The handler of a folder and device reads local files by sequence number, sends them in batches and
  remembers how far it came.  The size of a marshalled message, the connection and the state of the
  context are arguments.  The database is the one of \<^verbatim>\<open>Folder_DB\<close>; a query that fails
  does so at the end of its rows.
\<close>

section \<open>Batches of file infos\<close>

definition MaxBatchSizeBytes :: int where "MaxBatchSizeBytes = 250 * 1024"
definition MaxBatchSizeFiles :: nat where "MaxBatchSizeFiles = 1000"

datatype send_error = CtxDone | ConnError | DatabaseMisbehaved | DatabaseError

record file_batch =
  infos :: "FileInfo list"
  bsize :: int
  berror :: "send_error option"

definition NewFileInfoBatch :: file_batch where
  "NewFileInfoBatch = \<lparr>infos = [], bsize = 0, berror = None\<rparr>"

definition batch_Append :: "(bep_file_info \<Rightarrow> int) \<Rightarrow> FileInfo \<Rightarrow> file_batch \<Rightarrow> (send_error, file_batch) outcome" where
  "batch_Append proto_Size f b =
     (if berror b \<noteq> None then Panic
      else obind (FileInfo_ToWire True f) (\<lambda>w.
             Ok (b\<lparr>infos := infos b @ [f], bsize := bsize b + proto_Size w\<rparr>)))"

definition Full :: "file_batch \<Rightarrow> bool" where
  "Full b \<longleftrightarrow> MaxBatchSizeFiles \<le> length (infos b) \<or> MaxBatchSizeBytes \<le> bsize b"

definition batch_Reset :: "file_batch \<Rightarrow> file_batch" where
  "batch_Reset b = b\<lparr>infos := [], berror := None, bsize := 0\<rparr>"

text \<open>Flushing calls a function with a state of its own.\<close>

definition Flush ::
  "(FileInfo list \<Rightarrow> 's \<Rightarrow> (send_error, send_error option \<times> 's) outcome) \<Rightarrow> file_batch \<Rightarrow> 's
   \<Rightarrow> (send_error, send_error option \<times> file_batch \<times> 's) outcome" where
  "Flush flushFn b s =
     (if berror b \<noteq> None then Ok (berror b, b, s)
      else if length (infos b) = 0 then Ok (None, b, s)
      else obind (flushFn (infos b) s) (\<lambda>(err, s).
             if err \<noteq> None then Ok (err, b\<lparr>berror := err\<rparr>, s) else Ok (None, batch_Reset b, s)))"

definition FlushIfFull ::
  "(FileInfo list \<Rightarrow> 's \<Rightarrow> (send_error, send_error option \<times> 's) outcome) \<Rightarrow> file_batch \<Rightarrow> 's
   \<Rightarrow> (send_error, send_error option \<times> file_batch \<times> 's) outcome" where
  "FlushIfFull flushFn b s =
     (if berror b \<noteq> None then Ok (berror b, b, s)
      else if Full b then Flush flushFn b s else Ok (None, b, s))"

section \<open>The handler\<close>

record index_handler =
  hFolder :: string
  folderIsReceiveEncrypted :: bool
  localPrevSequence :: int
  sentPrevSequence :: int
  paused :: bool

text \<open>What the other side says about us and about itself.\<close>

record start_info =
  localIndexID :: uint64
  localMaxSequence :: int
  remoteIndexID :: uint64

definition start_sequence :: "uint64 \<Rightarrow> int \<Rightarrow> start_info \<Rightarrow> int" where
  "start_sequence myIndexID mySequence info =
     (if localIndexID info = myIndexID then
        (if mySequence < localMaxSequence info then 0 else localMaxSequence info)
      else 0)"

definition newIndexHandler ::
  "db_env \<Rightarrow> uint64 \<Rightarrow> bytes \<Rightarrow> string \<Rightarrow> bool \<Rightarrow> start_info \<Rightarrow> folder_db \<Rightarrow> (index_error, index_handler \<times> folder_db) outcome" where
  "newIndexHandler env newID device folder recvEnc info db =
     obind (GetIndexID newID LocalDeviceID db) (\<lambda>(myIndexID, db).
       let mySequence = GetDeviceSequence LocalDeviceID db;
           startSequence = start_sequence myIndexID mySequence info;
           theirIndexID = (case GetIndexID newID device db of Ok (i, _) \<Rightarrow> i | _ \<Rightarrow> 0);
           db = (if remoteIndexID info = 0 then DropAllFiles env device db
                 else if remoteIndexID info \<noteq> theirIndexID
                 then SetIndexID device (remoteIndexID info) (DropAllFiles env device db)
                 else db)
       in Ok (\<lparr>hFolder = folder, folderIsReceiveEncrypted = recvEnc, localPrevSequence = startSequence,
               sentPrevSequence = startSequence, paused = False\<rparr>, db))"

definition handler_resume :: "index_handler \<Rightarrow> index_handler" where
  "handler_resume s = s\<lparr>paused := False\<rparr>"

definition handler_pause :: "index_handler \<Rightarrow> index_handler" where
  "handler_pause s = s\<lparr>paused := True\<rparr>"

section \<open>Sending\<close>

definition prepareFileInfoForIndex :: "FileInfo \<Rightarrow> FileInfo" where
  "prepareFileInfoForIndex f =
     (let f = (if IsReceiveOnlyChanged f then f\<lparr>Version := \<lparr>Counters = []\<rparr>\<rparr> else f)
      in f\<lparr>Size := Size f - EncryptionTrailerSize f\<rparr>)"

datatype index_message = IndexMsg Index | IndexUpdateMsg IndexUpdate

definition index_files :: "index_message \<Rightarrow> FileInfo list" where
  "index_files m = (case m of IndexMsg i \<Rightarrow> Files i | IndexUpdateMsg u \<Rightarrow> Files u)"

definition is_update :: "index_message \<Rightarrow> bool" where
  "is_update m = (case m of IndexMsg _ \<Rightarrow> False | IndexUpdateMsg _ \<Rightarrow> True)"

record send_state =
  sHandler :: index_handler
  initial :: bool
  batchError :: "send_error option"
  outbox :: "index_message list"

definition send_flush ::
  "bool \<Rightarrow> (index_message \<Rightarrow> bool) \<Rightarrow> FileInfo list \<Rightarrow> send_state \<Rightarrow> (send_error, send_error option \<times> send_state) outcome" where
  "send_flush ctxDone accepts fs s =
     (if ctxDone then Ok (Some CtxDone, s)
      else if length fs = 0 then Panic
      else if batchError s \<noteq> None then Panic
      else
        let lastSequence = Sequence (last fs);
            h = sHandler s;
            msg = (if initial s
                   then IndexMsg \<lparr>IdxFolder = hFolder h, Files = fs, LastSequence = lastSequence\<rparr>
                   else IndexUpdateMsg \<lparr>IdxFolder = hFolder h, Files = fs, LastSequence = lastSequence,
                          PrevSequence = sentPrevSequence h\<rparr>);
            s = s\<lparr>initial := False\<rparr>
        in if accepts msg
           then Ok (None, s\<lparr>sHandler := h\<lparr>sentPrevSequence := lastSequence\<rparr>, outbox := outbox s @ [msg]\<rparr>)
           else Ok (Some ConnError, s\<lparr>batchError := Some ConnError\<rparr>))"

text \<open>The loop over the rows; the sequence number of the file before is zero at first.\<close>

fun send_loop ::
  "(bep_file_info \<Rightarrow> int) \<Rightarrow> bool \<Rightarrow> FileInfo list \<Rightarrow> index_handler \<Rightarrow> file_batch \<Rightarrow> int \<Rightarrow> bool
   \<Rightarrow> (send_error, send_error option \<times> index_handler \<times> file_batch) outcome" where
  "send_loop proto_Size dbFails [] s b fseq previousWasDelete = Ok (if dbFails then Some DatabaseError else None, s, b)"
| "send_loop proto_Size dbFails (fi # fis) s b fseq previousWasDelete =
     (if Full b \<and> (\<not> IsDeleted fi \<or> previousWasDelete) then Ok (None, s, b)
      else if Sequence fi < localPrevSequence s + 1 then Ok (Some DatabaseMisbehaved, s, b)
      else if 0 < fseq \<and> Sequence fi \<le> fseq then Ok (Some DatabaseMisbehaved, s, b)
      else
        let s = s\<lparr>localPrevSequence := Sequence fi\<rparr>
        in if folderIsReceiveEncrypted s \<and> IsReceiveOnlyChanged fi
           then send_loop proto_Size dbFails fis s b (Sequence fi) previousWasDelete
           else
             let f = prepareFileInfoForIndex fi
             in obind (batch_Append proto_Size f b) (\<lambda>b.
                  send_loop proto_Size dbFails fis s b (Sequence f) (IsDeleted f)))"

text \<open>
  The error, the handler and the messages that were sent.  \<open>store\<close> is the query by sequence number:
  it takes the first sequence number and the limit.
\<close>

definition sendIndexTo ::
  "(bep_file_info \<Rightarrow> int) \<Rightarrow> bool \<Rightarrow> (index_message \<Rightarrow> bool) \<Rightarrow> (int \<Rightarrow> int \<Rightarrow> FileInfo list) \<Rightarrow> bool \<Rightarrow> index_handler
   \<Rightarrow> (send_error, send_error option \<times> index_handler \<times> index_message list) outcome" where
  "sendIndexTo proto_Size ctxDone accepts store dbFails s =
     obind (send_loop proto_Size dbFails (store (localPrevSequence s + 1) (int MaxBatchSizeFiles + 1)) s NewFileInfoBatch 0 False)
       (\<lambda>(err, h, b).
         if err \<noteq> None then Ok (err, h, [])
         else obind (Flush (send_flush ctxDone accepts) b
                \<lparr>sHandler = h, initial = (localPrevSequence s = 0), batchError = None, outbox = []\<rparr>)
              (\<lambda>(err, b, st). Ok (err, sHandler st, outbox st)))"

text \<open>
  What \<open>Serve\<close> does between two waits: it sends until it has seen the highest sequence number of the
  database.  \<open>None\<close> when the fuel does not suffice.
\<close>

fun serve_loop ::
  "nat \<Rightarrow> (bep_file_info \<Rightarrow> int) \<Rightarrow> (index_message \<Rightarrow> bool) \<Rightarrow> (int \<Rightarrow> int \<Rightarrow> FileInfo list) \<Rightarrow> int \<Rightarrow> index_handler
   \<Rightarrow> (send_error, index_handler \<times> index_message list) outcome option" where
  "serve_loop 0 proto_Size accepts store sq s = None"
| "serve_loop (Suc n) proto_Size accepts store sq s =
     (if sq \<le> localPrevSequence s then Some (Ok (s, []))
      else case sendIndexTo proto_Size False accepts store False s of
             Panic \<Rightarrow> Some Panic
           | Err e \<Rightarrow> Some (Err e)
           | Ok (Some e, s, ms) \<Rightarrow> Some (Err e)
           | Ok (None, s, ms) \<Rightarrow>
               (case serve_loop n proto_Size accepts store sq s of
                  Some (Ok (s, ms')) \<Rightarrow> Some (Ok (s, ms @ ms'))
                | r \<Rightarrow> r))"

section \<open>Receiving\<close>

datatype anomaly = UnexpectedPrevSequence | BeforePrevSequence nat | AfterLastSequence nat | NonIncreasing nat
  | UnexpectedLastSequence | UnexpectedAfterUpdate

definition makeForgetUpdate :: "FileInfo list \<Rightarrow> FileDownloadProgressUpdate list" where
  "makeForgetUpdate fs =
     map (\<lambda>f. \<lparr>UpdateType = FileDownloadProgressUpdateTypeForget, UpdName = Name f, UpdVersion = Version f,
                BlockIndexes = [], UpdBlockSize = 0\<rparr>)
       (filter (\<lambda>f. \<not> (IsSymlink f \<or> IsDirectory f \<or> IsDeleted f)) fs)"

definition check_file :: "int \<Rightarrow> int \<Rightarrow> FileInfo list \<Rightarrow> nat \<Rightarrow> anomaly list" where
  "check_file prevSequence lastSequence fs i =
     (if Sequence (fs ! i) < prevSequence then [BeforePrevSequence i] else []) @
     (if 0 < lastSequence \<and> lastSequence < Sequence (fs ! i) then [AfterLastSequence i] else []) @
     (if 0 < i \<and> Sequence (fs ! i) \<le> Sequence (fs ! (i - 1)) then [NonIncreasing i] else [])"

datatype receive_error = ErrFolderPaused | ErrFolderMissing | UpdateError db_error

text \<open>The error, the anomalies that are logged, and the new state; a failed update changes nothing.\<close>

definition receive ::
  "db_env \<Rightarrow> bytes \<Rightarrow> FileInfo list \<Rightarrow> bool \<Rightarrow> int \<Rightarrow> int \<Rightarrow> index_handler \<Rightarrow> deviceDownloadState \<Rightarrow> folder_db
   \<Rightarrow> (receive_error, receive_error option \<times> anomaly list \<times> deviceDownloadState \<times> folder_db) outcome" where
  "receive env deviceID fs update prevSequence lastSequence s downloads db =
     (if paused s then Ok (Some ErrFolderPaused, [], downloads, db)
      else
        let downloads = Device_Update downloads (hFolder s) (makeForgetUpdate fs);
            db = (if \<not> update then DropAllFiles env deviceID db else db);
            expected = GetDeviceSequence deviceID db;
            log = (if 0 < prevSequence \<and> prevSequence \<noteq> expected then [UnexpectedPrevSequence] else []) @
                  concat (map (check_file prevSequence lastSequence fs) [0..<length fs]) @
                  (if 0 < lastSequence \<and> 0 < length fs \<and> lastSequence \<noteq> Sequence (last fs) then [UnexpectedLastSequence] else [])
        in case Update env deviceID fs False db of
             Err e \<Rightarrow> Ok (Some (UpdateError e), log, downloads, snd (deviceIdxLocked deviceID db))
           | Panic \<Rightarrow> Panic
           | Ok db \<Rightarrow>
               Ok (None,
                   log @ (if 0 < lastSequence \<and> 0 < length fs \<and> GetDeviceSequence deviceID db \<noteq> lastSequence
                          then [UnexpectedAfterUpdate] else []),
                   downloads, db))"

section \<open>What the sender promises\<close>

text \<open>The files that are sent: all but locally changed ones of a receive-encrypted folder.\<close>

definition announced_file :: "bool \<Rightarrow> FileInfo \<Rightarrow> bool" where
  "announced_file recvEnc f \<longleftrightarrow> \<not> (recvEnc \<and> IsReceiveOnlyChanged f)"

lemma prepare_index_simps [simp]:
  "Sequence (prepareFileInfoForIndex f) = Sequence f" "Name (prepareFileInfoForIndex f) = Name f"
  "truncated (prepareFileInfoForIndex f) = truncated f" "IsDeleted (prepareFileInfoForIndex f) = IsDeleted f"
  "Blocks (prepareFileInfoForIndex f) = Blocks f"
  by (simp_all add: prepareFileInfoForIndex_def Let_def IsDeleted_def)

lemma batch_Append_Ok:
  "berror b = None \<Longrightarrow> \<not> truncated f \<Longrightarrow>
   \<exists>sz. batch_Append proto_Size f b = Ok (b\<lparr>infos := infos b @ [f], bsize := sz\<rparr>)"
  by (simp add: batch_Append_def FileInfo_ToWire_def) blast

text \<open>On rows in ascending order the loop takes a first part of them, and not nothing.\<close>

lemma send_loop_takes:
  assumes "sorted_wrt (<) (map Sequence fis)" and "\<forall>f \<in> set fis. localPrevSequence s < Sequence f \<and> \<not> truncated f"
    and "berror b = None" and "fseq \<le> localPrevSequence s"
  shows "\<exists>n b'. send_loop proto_Size False fis s b fseq pd =
      Ok (None, if n = 0 then s else s\<lparr>localPrevSequence := Sequence (fis ! (n - 1))\<rparr>, b') \<and>
    n \<le> length fis \<and> (fis \<noteq> [] \<and> \<not> Full b \<longrightarrow> 0 < n) \<and> berror b' = None \<and>
    infos b' = infos b @ map prepareFileInfoForIndex (filter (announced_file (folderIsReceiveEncrypted s)) (take n fis))"
  using assms
proof (induction fis arbitrary: s b fseq pd)
  case (Cons fi fis)
  show ?case
  proof (cases "Full b \<and> (\<not> IsDeleted fi \<or> pd)")
    case True
    then show ?thesis using Cons.prems(3) by (intro exI [of _ 0] exI [of _ b]) simp
  next
    case False
    let ?s = "s\<lparr>localPrevSequence := Sequence fi\<rparr>" and ?keep = "announced_file (folderIsReceiveEncrypted s)"
    have seq: "localPrevSequence s < Sequence fi" "\<not> truncated fi" using Cons.prems(2) by auto
    obtain sz where app: "batch_Append proto_Size (prepareFileInfoForIndex fi) b =
        Ok (b\<lparr>infos := infos b @ [prepareFileInfoForIndex fi], bsize := sz\<rparr>)"
      using batch_Append_Ok [OF Cons.prems(3)] seq(2) by (metis prepare_index_simps(3))
    define b1 where "b1 = (if ?keep fi then b\<lparr>infos := infos b @ [prepareFileInfoForIndex fi], bsize := sz\<rparr> else b)"
    define pd1 where "pd1 = (if ?keep fi then IsDeleted fi else pd)"
    have step: "send_loop proto_Size False (fi # fis) s b fseq pd = send_loop proto_Size False fis ?s b1 (Sequence fi) pd1"
      using False seq Cons.prems(4) app by (auto simp: b1_def pd1_def announced_file_def Let_def)
    have "sorted_wrt (<) (map Sequence fis)" "\<forall>f \<in> set fis. localPrevSequence ?s < Sequence f \<and> \<not> truncated f"
      using Cons.prems(1, 2) by auto
    moreover have "berror b1 = None" using Cons.prems(3) by (simp add: b1_def)
    ultimately obtain n b' where n: "send_loop proto_Size False fis ?s b1 (Sequence fi) pd1 =
          Ok (None, if n = 0 then ?s else ?s\<lparr>localPrevSequence := Sequence (fis ! (n - 1))\<rparr>, b')"
        "n \<le> length fis" "berror b' = None"
        "infos b' = infos b1 @ map prepareFileInfoForIndex (filter (announced_file (folderIsReceiveEncrypted ?s)) (take n fis))"
      using Cons.IH [of ?s b1 "Sequence fi" pd1] by auto
    have "infos b1 = infos b @ map prepareFileInfoForIndex (filter ?keep [fi])" by (simp add: b1_def)
    then have "infos b' = infos b @ map prepareFileInfoForIndex (filter ?keep (take (Suc n) (fi # fis)))"
      using n(4) by simp
    moreover have "send_loop proto_Size False (fi # fis) s b fseq pd =
        Ok (None, if Suc n = 0 then s else s\<lparr>localPrevSequence := Sequence ((fi # fis) ! (Suc n - 1))\<rparr>, b')"
      unfolding step n(1) by (cases n) simp_all
    ultimately show ?thesis using n(2, 3) by (intro exI [of _ "Suc n"] exI [of _ b']) simp
  qed
qed (use assms(3) in \<open>simp\<close>)

lemma take_sorted_filter:
  fixes k :: "'a \<Rightarrow> int"
  assumes "sorted_wrt (<) (map k xs)" and "0 < n" and "n \<le> length xs"
  shows "take n xs = filter (\<lambda>x. k x \<le> k (xs ! (n - 1))) xs"
proof -
  have sorted: "k (xs ! i) < k (xs ! j)" if "i < j" "j < length xs" for i j
    using assms(1) that by (simp add: sorted_wrt_iff_nth_less)
  have "filter (\<lambda>x. k x \<le> k (xs ! (n - 1))) (take n xs) = take n xs"
  proof (rule filter_True, rule ballI)
    fix x assume "x \<in> set (take n xs)"
    then obtain i where "i < n" "x = xs ! i" using assms(3) by (auto simp: in_set_conv_nth)
    then consider "i = n - 1" | "i < n - 1" by linarith
    moreover have "n - 1 < length xs" using assms(2, 3) by linarith
    ultimately show "k x \<le> k (xs ! (n - 1))" using sorted [of i "n - 1"] \<open>x = xs ! i\<close> by cases auto
  qed
  moreover have "filter (\<lambda>x. k x \<le> k (xs ! (n - 1))) (drop n xs) = []"
  proof (rule filter_False, rule ballI)
    fix x assume "x \<in> set (drop n xs)"
    then obtain i where "i < length xs - n" "x = xs ! (n + i)" by (auto simp: in_set_conv_nth)
    moreover have "n - 1 < n + i" using assms(2) by linarith
    moreover have "n + i < length xs" using calculation(1) by linarith
    ultimately show "\<not> k x \<le> k (xs ! (n - 1))" using sorted [of "n - 1" "n + i"] by simp
  qed
  ultimately show ?thesis by (metis append_Nil2 append_take_drop_id filter_append)
qed

text \<open>
  The interface between the sender and its database: the local files with a sequence number of at
  least \<open>start\<close>, in ascending order, cut off at the limit when there is one.
\<close>

locale sequence_source =
  fixes source :: "'db \<Rightarrow> int \<Rightarrow> int \<Rightarrow> FileInfo list" and ok :: "'db \<Rightarrow> bool"
  assumes ascending: "ok db \<Longrightarrow> sorted_wrt (<) (map Sequence (source db 0 0))"
    and starting: "ok db \<Longrightarrow> 0 \<le> start \<Longrightarrow> source db start 0 = filter (\<lambda>f. start \<le> Sequence f) (source db 0 0)"
    and limited: "ok db \<Longrightarrow> 0 < limit \<Longrightarrow> source db start limit = take (nat limit) (source db start 0)"
    and whole: "ok db \<Longrightarrow> f \<in> set (source db 0 0) \<Longrightarrow> \<not> truncated f"
begin

definition between :: "'db \<Rightarrow> int \<Rightarrow> int \<Rightarrow> FileInfo list" where
  "between db lo hi = filter (\<lambda>f. lo < Sequence f \<and> Sequence f \<le> hi) (source db 0 0)"

definition above :: "'db \<Rightarrow> int \<Rightarrow> FileInfo list" where
  "above db lo = filter (\<lambda>f. lo < Sequence f) (source db 0 0)"

lemma above_split: "ok db \<Longrightarrow> lo \<le> hi \<Longrightarrow> above db lo = between db lo hi @ above db hi"
proof -
  have "sorted_wrt (<) (map Sequence xs) \<Longrightarrow> lo \<le> hi \<Longrightarrow> filter (\<lambda>f. lo < Sequence f) xs =
      filter (\<lambda>f. lo < Sequence f \<and> Sequence f \<le> hi) xs @ filter (\<lambda>f. hi < Sequence f) xs" for xs :: "FileInfo list"
  proof (induction xs)
    case (Cons x xs)
    have "filter (\<lambda>f. lo < Sequence f \<and> Sequence f \<le> hi) xs = []" if "hi < Sequence x"
      using that Cons.prems(1) by (auto simp: filter_empty_conv)
    then show ?case using Cons by auto
  qed simp
  then show "ok db \<Longrightarrow> lo \<le> hi \<Longrightarrow> ?thesis" using ascending by (simp add: above_def between_def)
qed

lemma between_append:
  assumes "ok db" and "lo \<le> mid" and "mid \<le> hi"
  shows "between db lo hi = between db lo mid @ between db mid hi"
proof -
  have "between db lo hi = filter (\<lambda>f. Sequence f \<le> hi) (above db lo)" by (simp add: between_def above_def conj_commute)
  also have "\<dots> = filter (\<lambda>f. Sequence f \<le> hi) (between db lo mid) @ between db mid hi"
    using above_split [OF assms(1, 2)] by (simp add: between_def above_def conj_commute)
  also have "filter (\<lambda>f. Sequence f \<le> hi) (between db lo mid) = between db lo mid"
    using assms(3) by (auto simp: between_def intro!: filter_cong)
  finally show ?thesis .
qed

lemma send_contiguous:
  assumes "ok db" and "0 \<le> localPrevSequence s"
  shows "\<exists>s' ms. sendIndexTo proto_Size False (\<lambda>_. True) (source db) False s = Ok (None, s', ms) \<and>
    concat (map index_files ms) =
      map prepareFileInfoForIndex (filter (announced_file (folderIsReceiveEncrypted s))
        (between db (localPrevSequence s) (localPrevSequence s'))) \<and>
    localPrevSequence s \<le> localPrevSequence s' \<and> (above db (localPrevSequence s) \<noteq> [] \<longrightarrow> localPrevSequence s < localPrevSequence s') \<and>
    hFolder s' = hFolder s \<and> folderIsReceiveEncrypted s' = folderIsReceiveEncrypted s \<and> paused s' = paused s \<and>
    (ms = [] \<or> (\<exists>m. ms = [m] \<and> index_files m \<noteq> [] \<and> (is_update m \<longleftrightarrow> localPrevSequence s \<noteq> 0))) \<and>
    (localPrevSequence s' = localPrevSequence s \<or> localPrevSequence s' \<in> Sequence ` set (above db (localPrevSequence s)))"
proof -
  let ?lp = "localPrevSequence s" and ?keep = "announced_file (folderIsReceiveEncrypted s)"
  define rs where "rs = above db ?lp"
  have "source db (?lp + 1) 0 = rs"
    using starting [OF assms(1), of "?lp + 1"] assms(2) by (simp add: rs_def above_def zless_iff_Suc_zadd add1_zle_eq)
  then have src: "source db (?lp + 1) (int MaxBatchSizeFiles + 1) = take 1001 rs"
    using limited [OF assms(1), of "int MaxBatchSizeFiles + 1"] by (simp add: MaxBatchSizeFiles_def)
  have rs: "sorted_wrt (<) (map Sequence rs)" "\<forall>f \<in> set rs. ?lp < Sequence f \<and> \<not> truncated f"
    using ascending [OF assms(1)] whole [OF assms(1)] by (auto simp: rs_def above_def sorted_wrt_map sorted_wrt_filter)
  have "sorted_wrt (<) (map Sequence (take 1001 rs))" using rs(1) by (simp add: sorted_wrt_map sorted_wrt_take)
  moreover have "\<forall>f \<in> set (take 1001 rs). ?lp < Sequence f \<and> \<not> truncated f" using rs(2) by (meson in_set_takeD)
  moreover have new: "berror NewFileInfoBatch = None" "infos NewFileInfoBatch = []" by (simp_all add: NewFileInfoBatch_def)
  ultimately obtain n b' where loop: "send_loop proto_Size False (take 1001 rs) s NewFileInfoBatch 0 False =
        Ok (None, if n = 0 then s else s\<lparr>localPrevSequence := Sequence (take 1001 rs ! (n - 1))\<rparr>, b')"
      "n \<le> length (take 1001 rs)" "take 1001 rs \<noteq> [] \<and> \<not> Full NewFileInfoBatch \<longrightarrow> 0 < n" "berror b' = None"
      "infos b' = map prepareFileInfoForIndex (filter ?keep (take n (take 1001 rs)))"
    using send_loop_takes [OF _ _ new(1) assms(2), of "take 1001 rs" proto_Size False] unfolding new(2) append_Nil by blast
  define s1 where "s1 = (if n = 0 then s else s\<lparr>localPrevSequence := Sequence (rs ! (n - 1))\<rparr>)"
  have "take 1001 rs ! (n - 1) = rs ! (n - 1)" if "0 < n" by (rule nth_take) (use loop(2) that in auto)
  then have loop': "send_loop proto_Size False (take 1001 rs) s NewFileInfoBatch 0 False = Ok (None, s1, b')"
    using loop(1, 2) by (simp add: s1_def)
  have taken: "take n rs = between db ?lp (localPrevSequence s1)"
  proof (cases "n = 0")
    case False
    then have "take n rs = filter (\<lambda>f. Sequence f \<le> Sequence (rs ! (n - 1))) rs"
      using take_sorted_filter [OF rs(1), of n] loop(2) by simp
    then show ?thesis using False by (simp add: s1_def rs_def above_def between_def conj_commute)
  qed (simp add: s1_def between_def filter_empty_conv)
  have gt: "?lp < Sequence (rs ! (n - 1))" if "0 < n"
  proof -
    have "n - 1 < length rs" using loop(2) that by (simp, linarith)
    then show ?thesis using rs(2) nth_mem by blast
  qed
  have "infos b' = map prepareFileInfoForIndex (filter ?keep (between db ?lp (localPrevSequence s1)))"
  proof -
    have "take n (take 1001 rs) = take n rs" using loop(2) by (simp add: min_absorb1)
    then show ?thesis using loop(5) taken by simp
  qed
  moreover have progress: "?lp \<le> localPrevSequence s1" "rs \<noteq> [] \<longrightarrow> ?lp < localPrevSequence s1"
    using loop(3) gt by (auto simp: s1_def NewFileInfoBatch_def Full_def MaxBatchSizeFiles_def MaxBatchSizeBytes_def less_imp_le)
  moreover have "localPrevSequence s1 = ?lp \<or> localPrevSequence s1 \<in> Sequence ` set rs"
    using loop(2) by (auto simp: s1_def)
  moreover obtain s' ms where "sendIndexTo proto_Size False (\<lambda>_. True) (source db) False s = Ok (None, s', ms)"
      "concat (map index_files ms) = infos b'" "localPrevSequence s' = localPrevSequence s1"
      "ms = [] \<or> (\<exists>m. ms = [m] \<and> index_files m \<noteq> [] \<and> (is_update m \<longleftrightarrow> ?lp \<noteq> 0))"
      "hFolder s' = hFolder s" "folderIsReceiveEncrypted s' = folderIsReceiveEncrypted s" "paused s' = paused s"
    using loop(4) by (cases "infos b' = []")
      (auto simp: sendIndexTo_def src loop' Flush_def send_flush_def Let_def index_files_def is_update_def s1_def split: if_splits)
  ultimately show ?thesis unfolding rs_def by (intro exI [of _ s'] exI [of _ ms]) simp
qed

text \<open>Between two waits everything above the last sequence number seen is sent.\<close>

lemma above_shrinks: "lo < hi \<Longrightarrow> hi \<in> Sequence ` set (above db lo) \<Longrightarrow> length (above db hi) < length (above db lo)"
proof -
  assume less: "lo < hi" and "hi \<in> Sequence ` set (above db lo)"
  then obtain f where f: "f \<in> set (above db lo)" "Sequence f = hi" by auto
  have "above db hi = filter (\<lambda>f. hi < Sequence f) (above db lo)"
    using less by (auto simp: above_def intro!: filter_cong)
  then show ?thesis using f length_filter_less [of f "above db lo" "\<lambda>f. hi < Sequence f"] by simp
qed

lemma serve_sends_everything:
  assumes "ok db" and "0 \<le> localPrevSequence s" and "length (above db (localPrevSequence s)) < fuel"
    and "sq \<le> localPrevSequence s \<or> sq \<in> Sequence ` set (source db 0 0)"
  shows "\<exists>s' ms. serve_loop fuel proto_Size (\<lambda>_. True) (source db) sq s = Some (Ok (s', ms)) \<and>
    sq \<le> localPrevSequence s' \<and> localPrevSequence s \<le> localPrevSequence s' \<and>
    concat (map index_files ms) =
      map prepareFileInfoForIndex (filter (announced_file (folderIsReceiveEncrypted s))
        (between db (localPrevSequence s) (localPrevSequence s')))"
  using assms(2-)
proof (induction fuel arbitrary: s)
  case (Suc fuel)
  show ?case
  proof (cases "sq \<le> localPrevSequence s")
    case True
    then show ?thesis by (simp add: between_def filter_empty_conv)
  next
    case False
    obtain s1 ms1 where send: "sendIndexTo proto_Size False (\<lambda>_. True) (source db) False s = Ok (None, s1, ms1)"
        "concat (map index_files ms1) = map prepareFileInfoForIndex (filter (announced_file (folderIsReceiveEncrypted s))
           (between db (localPrevSequence s) (localPrevSequence s1)))"
        "localPrevSequence s \<le> localPrevSequence s1" "above db (localPrevSequence s) \<noteq> [] \<longrightarrow> localPrevSequence s < localPrevSequence s1"
        "folderIsReceiveEncrypted s1 = folderIsReceiveEncrypted s"
        "localPrevSequence s1 = localPrevSequence s \<or> localPrevSequence s1 \<in> Sequence ` set (above db (localPrevSequence s))"
      using send_contiguous [OF assms(1) Suc.prems(1), of proto_Size] by metis
    have "above db (localPrevSequence s) \<noteq> []"
      using False Suc.prems(3) by (force simp: above_def filter_empty_conv)
    then have "length (above db (localPrevSequence s1)) < length (above db (localPrevSequence s))"
      using send(4, 6) by (intro above_shrinks) auto
    then obtain s' ms where rest: "serve_loop fuel proto_Size (\<lambda>_. True) (source db) sq s1 = Some (Ok (s', ms))"
        "sq \<le> localPrevSequence s'" "localPrevSequence s1 \<le> localPrevSequence s'"
        "concat (map index_files ms) = map prepareFileInfoForIndex (filter (announced_file (folderIsReceiveEncrypted s1))
           (between db (localPrevSequence s1) (localPrevSequence s')))"
      using Suc.IH [of s1] Suc.prems send(3) by auto
    have "between db (localPrevSequence s) (localPrevSequence s') =
        between db (localPrevSequence s) (localPrevSequence s1) @ between db (localPrevSequence s1) (localPrevSequence s')"
      by (rule between_append [OF assms(1) send(3) rest(3)])
    then show ?thesis using False send rest by auto
  qed
qed simp

end

section \<open>Sending while the files change\<close>

text \<open>
  A source that changes: \<open>high\<close> is above every sequence number given so far, changed files get
  new numbers and stay under their names.
\<close>

locale changing_source = sequence_source source ok
  for source :: "'db \<Rightarrow> int \<Rightarrow> int \<Rightarrow> FileInfo list" and ok :: "'db \<Rightarrow> bool" +
  fixes change :: "'db \<Rightarrow> 'db \<Rightarrow> bool" and high :: "'db \<Rightarrow> int"
  assumes change_ok: "ok db \<Longrightarrow> change db db' \<Longrightarrow> ok db'"
    and below_high: "ok db \<Longrightarrow> f \<in> set (source db 0 0) \<Longrightarrow> 0 < Sequence f \<and> Sequence f < high db"
    and high_mono: "ok db \<Longrightarrow> change db db' \<Longrightarrow> high db \<le> high db'"
    and changed: "ok db \<Longrightarrow> change db db' \<Longrightarrow> f \<in> set (source db' 0 0) \<Longrightarrow> f \<in> set (source db 0 0) \<or> high db \<le> Sequence f"
    and kept: "ok db \<Longrightarrow> change db db' \<Longrightarrow> f \<in> set (source db 0 0) \<Longrightarrow>
      f \<in> set (source db' 0 0) \<or> (\<exists>g \<in> set (source db' 0 0). Name g = Name f \<and> high db \<le> Sequence g)"
    and one_per_name: "ok db \<Longrightarrow> f \<in> set (source db 0 0) \<Longrightarrow> g \<in> set (source db 0 0) \<Longrightarrow> Name f = Name g \<Longrightarrow> f = g"
begin

text \<open>Changes and calls of \<open>sendIndexTo\<close> in any order; \<open>ms\<close> are the messages sent so far.\<close>

inductive sending :: "(bep_file_info \<Rightarrow> int) \<Rightarrow> 'db \<Rightarrow> index_handler \<Rightarrow> index_message list \<Rightarrow> bool" for proto_Size where
  start: "ok db \<Longrightarrow> localPrevSequence s = 0 \<Longrightarrow> 0 < high db \<Longrightarrow> sending proto_Size db s []"
| change: "sending proto_Size db s ms \<Longrightarrow> change db db' \<Longrightarrow> sending proto_Size db' s ms"
| send: "sending proto_Size db s ms \<Longrightarrow> sendIndexTo proto_Size False (\<lambda>_. True) (source db) False s = Ok (None, s', ms') \<Longrightarrow>
    sending proto_Size db s' (ms @ ms')"

definition sent_files :: "index_message list \<Rightarrow> FileInfo list" where
  "sent_files ms = concat (map index_files ms)"

definition sending_inv :: "'db \<Rightarrow> index_handler \<Rightarrow> index_message list \<Rightarrow> bool" where
  "sending_inv db s ms \<longleftrightarrow> ok db \<and> 0 \<le> localPrevSequence s \<and> localPrevSequence s < high db \<and>
     sorted_wrt (<) (map Sequence (sent_files ms)) \<and>
     (\<forall>e \<in> set (sent_files ms). Sequence e \<le> localPrevSequence s \<and>
        (\<exists>g \<in> set (source db 0 0). Name g = Name e \<and> Sequence e \<le> Sequence g)) \<and>
     (\<forall>f \<in> set (source db 0 0). Sequence f \<le> localPrevSequence s \<and> announced_file (folderIsReceiveEncrypted s) f \<longrightarrow>
        prepareFileInfoForIndex f \<in> set (sent_files ms))"

lemma change_inv: "sending_inv db s ms \<Longrightarrow> change db db' \<Longrightarrow> sending_inv db' s ms"
proof -
  assume inv: "sending_inv db s ms" and step: "change db db'"
  have ok: "ok db" and lp: "localPrevSequence s < high db" using inv by (simp_all add: sending_inv_def)
  have "\<exists>g \<in> set (source db' 0 0). Name g = Name e \<and> Sequence e \<le> Sequence g" if e: "e \<in> set (sent_files ms)" for e
  proof -
    obtain g where g: "g \<in> set (source db 0 0)" "Name g = Name e" "Sequence e \<le> Sequence g" "Sequence e \<le> localPrevSequence s"
      using inv e by (auto simp: sending_inv_def)
    from kept [OF ok step g(1)] show ?thesis using g lp by force
  qed
  moreover have "prepareFileInfoForIndex f \<in> set (sent_files ms)"
    if "f \<in> set (source db' 0 0)" "Sequence f \<le> localPrevSequence s" "announced_file (folderIsReceiveEncrypted s) f" for f
    using changed [OF ok step that(1)] that(2, 3) inv lp by (auto simp: sending_inv_def)
  ultimately show ?thesis
    using inv change_ok [OF ok step] high_mono [OF ok step] lp by (auto simp: sending_inv_def)
qed

lemma send_inv:
  assumes "sending_inv db s ms" and "sendIndexTo proto_Size False (\<lambda>_. True) (source db) False s = Ok (None, s', ms')"
  shows "sending_inv db s' (ms @ ms')"
proof -
  let ?lo = "localPrevSequence s" and ?hi = "localPrevSequence s'" and ?keep = "announced_file (folderIsReceiveEncrypted s)"
  have ok: "ok db" and lo: "0 \<le> ?lo" "?lo < high db" using assms(1) by (simp_all add: sending_inv_def)
  have sent: "sent_files ms' = map prepareFileInfoForIndex (filter ?keep (between db ?lo ?hi))"
      and hi: "?lo \<le> ?hi" "?hi = ?lo \<or> ?hi \<in> Sequence ` set (above db ?lo)"
      and enc: "folderIsReceiveEncrypted s' = folderIsReceiveEncrypted s"
    using send_contiguous [OF ok lo(1), of proto_Size] assms(2) by (auto simp: sent_files_def)
  have new: "e \<in> set (sent_files ms') \<longleftrightarrow> (\<exists>f \<in> set (source db 0 0). ?lo < Sequence f \<and> Sequence f \<le> ?hi \<and> ?keep f \<and>
      e = prepareFileInfoForIndex f)" for e
    by (auto simp: sent between_def)
  have split: "sent_files (ms @ ms') = sent_files ms @ sent_files ms'" by (simp add: sent_files_def)
  have "sorted_wrt (<) (map Sequence (sent_files ms'))"
    using ascending [OF ok] by (simp add: sent between_def comp_def sorted_wrt_map sorted_wrt_filter)
  moreover have "\<forall>e \<in> set (sent_files ms). Sequence e \<le> ?lo" using assms(1) by (simp add: sending_inv_def)
  ultimately have "sorted_wrt (<) (map Sequence (sent_files (ms @ ms')))"
    using assms(1) new by (force simp: split sending_inv_def sorted_wrt_append)
  moreover have "?hi < high db" using hi(2) lo(2) below_high [OF ok] by (auto simp: above_def)
  moreover have "Sequence e \<le> ?hi \<and> (\<exists>g \<in> set (source db 0 0). Name g = Name e \<and> Sequence e \<le> Sequence g)"
    if "e \<in> set (sent_files (ms @ ms'))" for e
    using that assms(1) hi(1) new by (force simp: split sending_inv_def)
  moreover have "prepareFileInfoForIndex f \<in> set (sent_files (ms @ ms'))"
    if "f \<in> set (source db 0 0)" "Sequence f \<le> ?hi" "?keep f" for f
  proof -
    consider "Sequence f \<le> ?lo" | "?lo < Sequence f" by linarith
    then show ?thesis
      using that assms(1) new [of "prepareFileInfoForIndex f"] by cases (auto simp: split sending_inv_def)
  qed
  ultimately show ?thesis using ok lo(1) hi(1) by (simp add: sending_inv_def enc)
qed

lemma sending_holds: "sending proto_Size db s ms \<Longrightarrow> sending_inv db s ms"
proof (induction rule: sending.induct)
  case (start db s)
  then show ?case using below_high by (fastforce simp: sending_inv_def sent_files_def)
next
  case (change db s ms db')
  then show ?case using change_inv by blast
next
  case (send db s ms s' ms')
  then show ?case using send_inv by blast
qed

text \<open>Unless files are held back, the messages are one full index and updates.\<close>

lemma sending_full_index:
  assumes "sending proto_Size db s ms" and "\<not> folderIsReceiveEncrypted s"
  shows "ms = [] \<and> localPrevSequence s = 0 \<or> localPrevSequence s \<noteq> 0 \<and> (\<exists>m us. ms = m # us \<and> \<not> is_update m \<and> list_all is_update us)"
  using assms
proof (induction rule: sending.induct)
  case (send db s ms s' ms')
  have ok: "ok db" "0 \<le> localPrevSequence s" using sending_holds [OF send.hyps(1)] by (simp_all add: sending_inv_def)
  have sent: "concat (map index_files ms') = map prepareFileInfoForIndex (filter (announced_file (folderIsReceiveEncrypted s))
        (between db (localPrevSequence s) (localPrevSequence s')))" "folderIsReceiveEncrypted s' = folderIsReceiveEncrypted s"
      and one: "ms' = [] \<or> (\<exists>m. ms' = [m] \<and> index_files m \<noteq> [] \<and> (is_update m \<longleftrightarrow> localPrevSequence s \<noteq> 0))"
      and hi: "localPrevSequence s \<le> localPrevSequence s'"
        "localPrevSequence s' = localPrevSequence s \<or> localPrevSequence s' \<in> Sequence ` set (above db (localPrevSequence s))"
    using send_contiguous [OF ok, of proto_Size] send.hyps(2) by auto
  have enc: "\<not> folderIsReceiveEncrypted s" using send.prems sent(2) by simp
  have some: "ms' \<noteq> []" if ne: "localPrevSequence s' \<noteq> localPrevSequence s"
  proof -
    obtain f where "f \<in> set (above db (localPrevSequence s))" "Sequence f = localPrevSequence s'" using hi(2) ne by auto
    then have "f \<in> set (between db (localPrevSequence s) (localPrevSequence s'))" by (auto simp: above_def between_def)
    then show ?thesis using sent(1) enc by (auto simp: announced_file_def)
  qed
  show ?case
  proof (cases "ms' = []")
    case True
    then show ?thesis using some send.IH [OF enc] by auto
  next
    case False
    then obtain m where m: "ms' = [m]" "index_files m \<noteq> []" "is_update m \<longleftrightarrow> localPrevSequence s \<noteq> 0" using one by blast
    then have "between db (localPrevSequence s) (localPrevSequence s') \<noteq> []" using sent(1) by auto
    then have "localPrevSequence s < localPrevSequence s'" by (auto simp: between_def filter_empty_conv)
    then show ?thesis using send.IH [OF enc] m ok(2) by auto
  qed
qed auto

lemma sending_positive:
  assumes "sending proto_Size db s ms" and "e \<in> set (sent_files ms)"
  shows "0 < Sequence e \<and> \<not> truncated e"
  using assms
proof (induction rule: sending.induct)
  case (send db s ms s' ms')
  have ok: "ok db" "0 \<le> localPrevSequence s" using sending_holds [OF send.hyps(1)] by (simp_all add: sending_inv_def)
  have "sent_files ms' = map prepareFileInfoForIndex (filter (announced_file (folderIsReceiveEncrypted s))
        (between db (localPrevSequence s) (localPrevSequence s')))"
    using send_contiguous [OF ok, of proto_Size] send.hyps(2) by (auto simp: sent_files_def)
  then show ?case
    using send.IH send.prems ok(2) whole [OF ok(1)] by (auto simp: sent_files_def between_def)
qed (auto simp: sent_files_def)

text \<open>The last announcement of a name in the messages.\<close>

lemma last_announcement:
  assumes "sending proto_Size db s ms" and "f \<in> set (source db 0 0)" and "Sequence f \<le> localPrevSequence s"
    and "announced_file (folderIsReceiveEncrypted s) f"
  shows "\<exists>as bs. sent_files ms = as @ prepareFileInfoForIndex f # bs \<and> (\<forall>e \<in> set bs. Name e \<noteq> Name f)"
proof -
  have inv: "sending_inv db s ms" by (rule sending_holds [OF assms(1)])
  then have "prepareFileInfoForIndex f \<in> set (sent_files ms)" using assms(2-) by (simp add: sending_inv_def)
  then obtain as bs where split: "sent_files ms = as @ prepareFileInfoForIndex f # bs" by (meson split_list)
  have "Name e \<noteq> Name f" if e: "e \<in> set bs" for e
  proof
    assume "Name e = Name f"
    moreover obtain g where "g \<in> set (source db 0 0)" "Name g = Name e" "Sequence e \<le> Sequence g"
      using inv e by (auto simp: sending_inv_def split)
    ultimately have "Sequence e \<le> Sequence f" using one_per_name [OF _ assms(2)] inv by (metis sending_inv_def)
    moreover have "Sequence f < Sequence e" using inv e by (auto simp: sending_inv_def split sorted_wrt_append)
    ultimately show False by simp
  qed
  with split show ?thesis by blast
qed

end

end
