(* ===== verification/Index_Exchange.thy ===== *)
theory Index_Exchange
  imports Index_Handler
begin

text \<open>
  The index handler on the folder database: the local files by sequence number satisfy the laws the
  sender relies on, also while files are updated, so that the last announcement of a name is always
  its current file once the sender has caught up.
\<close>

section \<open>Files of a device\<close>

definition local_source :: "db_env \<Rightarrow> folder_db \<Rightarrow> int \<Rightarrow> int \<Rightarrow> FileInfo list" where
  "local_source env db start limit = AllLocalFilesBySequence env LocalDeviceID start limit db"

definition blocks_ok :: "folder_db \<Rightarrow> bool" where
  "blocks_ok db \<longleftrightarrow> (\<forall>r \<in> set (rows db). BlocklistHash r = [] \<or> blocklists db (BlocklistHash r) \<noteq> None)"

definition exchange_ok :: "db_env \<Rightarrow> folder_db \<Rightarrow> bool" where
  "exchange_ok env db \<longleftrightarrow> db_keys db \<and> infos_ok db \<and> blocks_ok db \<and> sort_ok (SortFunc env) \<and> inj (NativeFilename env) \<and>
     (\<forall>x. Sha256 env x \<noteq> [])"

text \<open>The part of a row that does not change when flags are recalculated.\<close>

definition same_row :: "fileRow \<Rightarrow> fileRow \<Rightarrow> bool" where
  "same_row r r' \<longleftrightarrow> rName r' = rName r \<and> DeviceIdx r' = DeviceIdx r \<and> rSequence r' = rSequence r \<and> BlocklistHash r' = BlocklistHash r \<and>
     rRemoteSequence r' = rRemoteSequence r"

definition blocks_grow :: "folder_db \<Rightarrow> folder_db \<Rightarrow> bool" where
  "blocks_grow db db' \<longleftrightarrow> (\<forall>h x. blocklists db h = Some x \<longrightarrow> blocklists db' h = Some x)"

lemma row_FileInfo_same:
  assumes "same_row r r'" and "blocks_ok db" and "r \<in> set (rows db)" and "blocks_grow db db'"
    and "fileinfos db' (rSequence r) = fileinfos db (rSequence r)"
  shows "row_FileInfo env db' r' = row_FileInfo env db r"
proof -
  have "blocklists db' (BlocklistHash r) = blocklists db (BlocklistHash r)" if "BlocklistHash r \<noteq> []"
    using assms(2-4) that by (auto simp: blocks_ok_def blocks_grow_def)
  moreover have "rSequence r' = rSequence r" "BlocklistHash r' = BlocklistHash r" using assms(1) by (simp_all add: same_row_def)
  ultimately show ?thesis using assms(5) unfolding row_FileInfo_def by (cases "BlocklistHash r = []") (simp_all split: option.split)
qed

text \<open>Recalculating keeps the rows apart from their flags, in both directions.\<close>

lemma recalc_same_rows:
  assumes "sort_ok (SortFunc env)" and "db_keys db"
  shows "r' \<in> set (rows (recalcGlobalForFile env name db)) \<Longrightarrow> \<exists>r \<in> set (rows db). same_row r r'"
    and "r \<in> set (rows db) \<Longrightarrow> \<exists>r' \<in> set (rows (recalcGlobalForFile env name db)). same_row r r'"
proof -
  let ?f = "\<lambda>r. if rName r = name then reflag (global_row (sorted_rows env name db)) (global_flags db (sorted_rows env name db)) r else r"
  have rows: "\<exists>f. rows (recalcGlobalForFile env name db) = map f (rows db) \<and> (\<forall>r. same_row r (f r))"
  proof (cases "rows_of db name = []")
    case True
    then show ?thesis by (intro exI [of _ "\<lambda>r. r"]) (simp add: recalcGlobalForFile_def same_row_def)
  next
    case False
    then show ?thesis using recalc_rows [OF assms] by (intro exI [of _ ?f]) (simp add: same_row_def)
  qed
  then show "r' \<in> set (rows (recalcGlobalForFile env name db)) \<Longrightarrow> \<exists>r \<in> set (rows db). same_row r r'"
    and "r \<in> set (rows db) \<Longrightarrow> \<exists>r' \<in> set (rows (recalcGlobalForFile env name db)). same_row r r'"
    by (metis (no_types, lifting) image_iff list.set_map)+
qed

text \<open>What one update does to the rows.\<close>

lemma update_file_rows:
  assumes "sort_ok (SortFunc env)" and "db_keys db" and "blocks_ok db" and "update_file env isLocal skip idx f db = Ok db'"
    and "Blocks f \<noteq> [] \<longrightarrow> BlocksHash (prepare_file env f) \<noteq> []"
  defines "new \<equiv> row_of_file idx (if isLocal then None else Some (Sequence f)) (prepare_file env f)"
  shows "r' \<in> set (rows db') \<Longrightarrow> (\<exists>r \<in> set (rows db). same_row r r' \<and> \<not> replaces new r) \<or> same_row (new\<lparr>rSequence := nextSequence db\<rparr>) r'"
    and "r \<in> set (rows db) \<Longrightarrow> \<not> replaces new r \<Longrightarrow> \<exists>r' \<in> set (rows db'). same_row r r'"
    and "\<exists>r' \<in> set (rows db'). same_row (new\<lparr>rSequence := nextSequence db\<rparr>) r'"
    and "r \<in> set (rows db) \<Longrightarrow> \<not> replaces new r \<Longrightarrow> fileinfos db' (rSequence r) = fileinfos db (rSequence r)"
    and "blocks_grow db db'" and "blocks_ok db'"
proof -
  let ?p = "prepare_file env f" and ?ins = "insert_row new db"
  let ?db1 = "store_blocks isLocal skip ?p (snd ?ins)"
  obtain w where db': "db' = recalcGlobalForFile env (Name ?p) (?db1\<lparr>fileinfos := (fileinfos ?db1)(fst ?ins \<mapsto> w)\<rparr>)"
    using assms(4) by (auto simp: update_file_def Let_def new_def split: if_splits)
  let ?db2 = "?db1\<lparr>fileinfos := (fileinfos ?db1)(fst ?ins \<mapsto> w)\<rparr>"
  have rows2: "rows ?db2 = filter (\<lambda>r. \<not> replaces new r) (rows db) @ [new\<lparr>rSequence := nextSequence db\<rparr>]"
    by (simp add: insert_row_rows)
  have keys2: "db_keys ?db2" using insert_row_keys [OF assms(2), of new] keys_rows [of ?db2 "snd ?ins"] by simp
  note same = recalc_same_rows [OF assms(1) keys2, of _ "Name ?p", folded db']
  show "(\<exists>r \<in> set (rows db). same_row r r' \<and> \<not> replaces new r) \<or> same_row (new\<lparr>rSequence := nextSequence db\<rparr>) r'"
    if "r' \<in> set (rows db')"
    using same(1) [OF that] unfolding rows2 by auto
  show "\<exists>r' \<in> set (rows db'). same_row r r'" if "r \<in> set (rows db)" "\<not> replaces new r"
    using same(2) [of r] that unfolding rows2 by simp
  show "\<exists>r' \<in> set (rows db'). same_row (new\<lparr>rSequence := nextSequence db\<rparr>) r'"
    using same(2) [of "new\<lparr>rSequence := nextSequence db\<rparr>"] unfolding rows2 by simp
  have distinct: "rSequence x \<noteq> rSequence r" if "x \<in> set (rows db)" "r \<in> set (rows db)" "x \<noteq> r" for x r
    using assms(2) that by (auto simp: db_keys_def distinct_map inj_on_def)
  show "fileinfos db' (rSequence r) = fileinfos db (rSequence r)" if r: "r \<in> set (rows db)" "\<not> replaces new r"
  proof -
    have "rSequence r \<noteq> nextSequence db" using assms(2) r(1) by (auto simp: db_keys_def list_all_iff)
    moreover have "\<not> list_ex (\<lambda>x. replaces new x \<and> rSequence x = rSequence r) (rows db)"
      using distinct [OF _ r(1)] r(2) by (auto simp: list_ex_iff)
    moreover have "replaces (new\<lparr>rSequence := nextSequence db\<rparr>) = replaces new" by (simp add: replaces_def fun_eq_iff)
    ultimately show ?thesis
      by (simp add: db' insert_row_def Let_def delete_rows_def)
  qed
  have lists: "blocklists db' = blocklists ?db1" by (simp add: db')
  show grow: "blocks_grow db db'"
    by (auto simp: blocks_grow_def lists store_blocks_def insertBlocksLocked_def insert_row_rows(5) Let_def split: option.splits)
  have stored: "blocklists db' (BlocksHash ?p) \<noteq> None" if "Blocks f \<noteq> []"
    using that by (auto simp: lists store_blocks_def insertBlocksLocked_def Let_def split: option.splits)
  show "blocks_ok db'"
    unfolding blocks_ok_def
  proof
    fix r' assume "r' \<in> set (rows db')"
    from same(1) [OF this] consider r where "r \<in> set (rows db)" "same_row r r'" | "same_row (new\<lparr>rSequence := nextSequence db\<rparr>) r'"
      unfolding rows2 by auto
    then show "BlocklistHash r' = [] \<or> blocklists db' (BlocklistHash r') \<noteq> None"
    proof cases
      case 1
      then show ?thesis using assms(3) grow by (fastforce simp: blocks_ok_def blocks_grow_def same_row_def)
    next
      case 2
      then have "BlocklistHash r' = BlocksHash ?p" by (simp add: same_row_def new_def)
      then show ?thesis using stored by (cases "Blocks f = []") (simp_all add: prepare_file_def Let_def)
    qed
  qed
qed

section \<open>The local files by sequence number\<close>

lemma local_devices: "devs_ok db \<Longrightarrow> (LocalDeviceID, i) \<in> set (devices db) \<longleftrightarrow> i = localDeviceIdx db"
  using map_of_SomeD [of "devices db" LocalDeviceID "localDeviceIdx db"] by (auto simp: devs_ok_def list_all_iff)

lemma local_rows:
  "infos_ok db \<Longrightarrow> device_rows LocalDeviceID db = filter (\<lambda>r. DeviceIdx r = localDeviceIdx db) (rows db)"
  using local_devices [of db]
  by (fastforce simp: device_rows_def with_info_def infos_ok_def infos_sat_def intro!: filter_cong)

lemma local_info:
  assumes "infos_ok db" and "r \<in> set (rows db)"
  shows "\<exists>f. row_FileInfo env db r = Some f \<and> \<not> truncated f \<and> Name f = NativeFilename env (rName r) \<and>
    (DeviceIdx r = localDeviceIdx db \<longrightarrow> Sequence f = rSequence r)"
proof -
  obtain w where w: "fileinfos db (rSequence r) = Some w" "wName w = rName r" "DeviceIdx r = localDeviceIdx db \<longrightarrow> wSequence w = rSequence r"
    using assms by (auto simp: infos_ok_def infos_sat_def local_law_def)
  have "truncated (FileInfoFromDB x) = False" "Sequence (FileInfoFromDB x) = wSequence x" "Name (FileInfoFromDB x) = wName x" for x
    by (simp_all add: FileInfoFromDB_def FileInfoFromWire_def fileInfoFromWireWithBlocks_def)
  then show ?thesis using w by (auto simp: row_FileInfo_def indirectFI_FileInfo_def Let_def split: option.split)
qed

lemma local_info_seq:
  "infos_ok db \<Longrightarrow> r \<in> set (rows db) \<Longrightarrow> DeviceIdx r = localDeviceIdx db \<Longrightarrow> Sequence (the (row_FileInfo env db r)) = rSequence r"
  using local_info [of db r env] by auto

definition local_files :: "db_env \<Rightarrow> folder_db \<Rightarrow> FileInfo set" where
  "local_files env db = (the \<circ> row_FileInfo env db) ` {r \<in> set (rows db). DeviceIdx r = localDeviceIdx db}"

lemma local_filter_sort:
  assumes "infos_ok db" and "0 \<le> start"
  shows "local_source env db start 0 = map (the \<circ> row_FileInfo env db)
    (filter (\<lambda>r. start \<le> rSequence r) (sort_key rSequence (filter (\<lambda>r. DeviceIdx r = localDeviceIdx db) (rows db))))"
  by (simp add: local_source_def AllLocalFilesBySequence_def local_rows [OF assms(1)] filter_sort)

lemma all_local:
  assumes "infos_ok db"
  shows "local_source env db 0 0 = map (the \<circ> row_FileInfo env db) (sort_key rSequence (filter (\<lambda>r. DeviceIdx r = localDeviceIdx db) (rows db)))"
proof -
  have "\<forall>r \<in> set (rows db). 0 \<le> rSequence r" using assms by (fastforce simp: infos_ok_def infos_sat_def local_law_def)
  then have "filter (\<lambda>r. 0 \<le> rSequence r) (sort_key rSequence (filter (\<lambda>r. DeviceIdx r = localDeviceIdx db) (rows db))) =
      sort_key rSequence (filter (\<lambda>r. DeviceIdx r = localDeviceIdx db) (rows db))"
    by (intro filter_True) simp
  then show ?thesis by (simp only: local_filter_sort [OF assms order_refl])
qed

lemma local_source_set: "infos_ok db \<Longrightarrow> set (local_source env db 0 0) = local_files env db"
  by (simp add: all_local local_files_def image_comp)

lemma local_files_row:
  assumes "infos_ok db" and "f \<in> local_files env db"
  obtains r where "r \<in> set (rows db)" "DeviceIdx r = localDeviceIdx db" "row_FileInfo env db r = Some f"
    "Sequence f = rSequence r" "Name f = NativeFilename env (rName r)" "\<not> truncated f"
proof -
  obtain r where r: "r \<in> set (rows db)" "DeviceIdx r = localDeviceIdx db" "f = the (row_FileInfo env db r)"
    using assms(2) by (auto simp: local_files_def)
  then show ?thesis using local_info [OF assms(1) r(1), of env] by (intro that [of r]) auto
qed

lemma local_row_file:
  "infos_ok db \<Longrightarrow> r \<in> set (rows db) \<Longrightarrow> DeviceIdx r = localDeviceIdx db \<Longrightarrow> row_FileInfo env db r = Some f \<Longrightarrow> f \<in> local_files env db"
  by (force simp: local_files_def)

text \<open>One file of an update.\<close>

lemma file_change:
  assumes "exchange_ok env db" and "update_file env isLocal skip idx f db = Ok db'" and "isLocal \<longleftrightarrow> idx = localDeviceIdx db"
  shows "exchange_ok env db'"
    and "g \<in> local_files env db' \<Longrightarrow> g \<in> local_files env db \<or> nextSequence db \<le> Sequence g"
    and "g \<in> local_files env db \<Longrightarrow> g \<in> local_files env db' \<or> (\<exists>h \<in> local_files env db'. Name h = Name g \<and> nextSequence db \<le> Sequence h)"
proof -
  have parts: "db_keys db" "infos_ok db" "blocks_ok db" "sort_ok (SortFunc env)" "inj (NativeFilename env)" "\<And>x. Sha256 env x \<noteq> []"
    using assms(1) by (simp_all add: exchange_ok_def)
  have hash: "Blocks f \<noteq> [] \<longrightarrow> BlocksHash (prepare_file env f) \<noteq> []"
    using parts(6) by (simp add: prepare_file_def Let_def BlocksHash_of_def)
  note rows = update_file_rows [OF parts(4, 1, 3) assms(2) hash]
  have tables: "devices db' = devices db" "nextDevice db' = nextDevice db" "localDeviceIdx db' = localDeviceIdx db"
    using update_loop_tables [of env isLocal skip idx None "[f]" db db'] assms(2) by simp_all
  have "db_keys db' \<and> infos_sat (local_law (localDeviceIdx db)) db'"
    by (rule update_file_infos [OF parts(4) local_law_flagless parts(1) _ assms(2)])
       (use parts(2) assms(3) in \<open>auto simp: infos_ok_def local_law_def\<close>)
  then have keys': "db_keys db'" and infos': "infos_ok db'"
    using parts(2) update_file_next [OF assms(2)] by (simp_all add: infos_ok_def devs_ok_def tables)
  then show "exchange_ok env db'" using rows(6) parts by (simp add: exchange_ok_def)
  let ?new = "row_of_file idx (if isLocal then None else Some (Sequence f)) (prepare_file env f)"
  show "g \<in> local_files env db \<or> nextSequence db \<le> Sequence g" if g: "g \<in> local_files env db'"
  proof -
    obtain r' where r': "r' \<in> set (rows db')" "DeviceIdx r' = localDeviceIdx db" "row_FileInfo env db' r' = Some g" "Sequence g = rSequence r'"
      by (rule local_files_row [OF infos' g]) (simp add: tables)
    from rows(1) [OF r'(1)] consider r where "r \<in> set (rows db)" "same_row r r'" "\<not> replaces ?new r" | "same_row (?new\<lparr>rSequence := nextSequence db\<rparr>) r'"
      by blast
    then show ?thesis
    proof cases
      case 1
      then have "row_FileInfo env db r = Some g"
        using row_FileInfo_same [OF 1(2) parts(3) 1(1) rows(5) rows(4) [OF 1(1, 3)]] r'(3) by simp
      then show ?thesis using local_row_file [OF parts(2) 1(1)] 1(2) r'(2) by (simp add: same_row_def)
    next
      case 2
      then show ?thesis using r'(4) by (simp add: same_row_def)
    qed
  qed
  show "g \<in> local_files env db' \<or> (\<exists>h \<in> local_files env db'. Name h = Name g \<and> nextSequence db \<le> Sequence h)" if g: "g \<in> local_files env db"
  proof -
    obtain r where r: "r \<in> set (rows db)" "DeviceIdx r = localDeviceIdx db" "row_FileInfo env db r = Some g" "Name g = NativeFilename env (rName r)"
      by (rule local_files_row [OF parts(2) g])
    show ?thesis
    proof (cases "replaces ?new r")
      case False
      obtain r' where r': "r' \<in> set (rows db')" "same_row r r'" using rows(2) [OF r(1) False] by blast
      then have "row_FileInfo env db' r' = Some g"
        using row_FileInfo_same [OF r'(2) parts(3) r(1) rows(5) rows(4) [OF r(1) False]] r(3) by simp
      then show ?thesis using local_row_file [OF infos' r'(1)] r'(2) r(2) by (simp add: same_row_def tables)
    next
      case True
      then have name: "isLocal" "rName r = Name (prepare_file env f)" "idx = localDeviceIdx db"
        using r(2) assms(3) by (auto simp: replaces_def)
      obtain r' where r': "r' \<in> set (rows db')" "same_row (?new\<lparr>rSequence := nextSequence db\<rparr>) r'" using rows(3) by blast
      then have dev: "DeviceIdx r' = localDeviceIdx db'" "rName r' = rName r" "rSequence r' = nextSequence db"
        using name by (simp_all add: same_row_def tables)
      obtain h where h: "row_FileInfo env db' r' = Some h" "Name h = NativeFilename env (rName r')" "Sequence h = rSequence r'"
        using local_info [OF infos' r'(1), of env] dev(1) by auto
      then show ?thesis using local_row_file [OF infos' r'(1) dev(1) h(1)] dev r(4) by auto
    qed
  qed
qed

lemma loop_change:
  assumes "exchange_ok env db" and "update_loop env isLocal skip idx prev fs db = Ok db'" and "isLocal \<longleftrightarrow> idx = localDeviceIdx db"
  shows "exchange_ok env db' \<and> nextSequence db \<le> nextSequence db' \<and>
    (\<forall>g \<in> local_files env db'. g \<in> local_files env db \<or> nextSequence db \<le> Sequence g) \<and>
    (\<forall>g \<in> local_files env db. g \<in> local_files env db' \<or> (\<exists>h \<in> local_files env db'. Name h = Name g \<and> nextSequence db \<le> Sequence h))"
  using assms
proof (induction fs arbitrary: db prev)
  case (Cons f fs)
  obtain db1 where db1: "update_file env isLocal skip idx f db = Ok db1" "update_loop env isLocal skip idx (Some (Sequence f)) fs db1 = Ok db'"
    using Cons.prems(2) by (auto split: if_splits)
  note step = file_change [OF Cons.prems(1) db1(1) Cons.prems(3)]
  have up: "nextSequence db1 = nextSequence db + 1" by (rule update_file_next [OF db1(1)])
  have "localDeviceIdx db1 = localDeviceIdx db"
    using update_loop_tables [of env isLocal skip idx None "[f]" db db1] db1(1) by simp
  then have rest: "exchange_ok env db'" "nextSequence db1 \<le> nextSequence db'"
      "\<And>g. g \<in> local_files env db' \<Longrightarrow> g \<in> local_files env db1 \<or> nextSequence db1 \<le> Sequence g"
      "\<And>g. g \<in> local_files env db1 \<Longrightarrow> g \<in> local_files env db' \<or> (\<exists>h \<in> local_files env db'. Name h = Name g \<and> nextSequence db1 \<le> Sequence h)"
    using Cons.IH [OF step(1) db1(2)] Cons.prems(3) by simp_all
  have "g \<in> local_files env db \<or> nextSequence db \<le> Sequence g" if "g \<in> local_files env db'" for g
    using rest(3) [OF that] step(2) [of g] up by auto
  moreover have "g \<in> local_files env db' \<or> (\<exists>h \<in> local_files env db'. Name h = Name g \<and> nextSequence db \<le> Sequence h)"
    if "g \<in> local_files env db" for g
  proof -
    from step(3) [OF that] consider "g \<in> local_files env db1" | h where "h \<in> local_files env db1" "Name h = Name g" "nextSequence db \<le> Sequence h"
      by blast
    then show ?thesis
    proof cases
      case 1
      from rest(4) [OF 1] show ?thesis using up by fastforce
    next
      case 2
      from rest(4) [OF 2(1)] show ?thesis using 2 up by fastforce
    qed
  qed
  ultimately show ?case using rest(1, 2) up by auto
qed simp

definition db_change :: "db_env \<Rightarrow> folder_db \<Rightarrow> folder_db \<Rightarrow> bool" where
  "db_change env db db' \<longleftrightarrow> (\<exists>device fs skip. Update env device fs skip db = Ok db')"

lemma update_change:
  assumes "exchange_ok env db" and "db_change env db db'"
  shows "exchange_ok env db' \<and> nextSequence db \<le> nextSequence db' \<and>
    (\<forall>g \<in> local_files env db'. g \<in> local_files env db \<or> nextSequence db \<le> Sequence g) \<and>
    (\<forall>g \<in> local_files env db. g \<in> local_files env db' \<or> (\<exists>h \<in> local_files env db'. Name h = Name g \<and> nextSequence db \<le> Sequence h))"
proof -
  obtain device fs skip where up: "Update env device fs skip db = Ok db'" using assms(2) by (auto simp: db_change_def)
  let ?idx = "fst (deviceIdxLocked device db)" and ?db = "snd (deviceIdxLocked device db)"
  have loop: "update_loop env (device = LocalDeviceID) skip ?idx None fs ?db = Ok db'"
    using up by (simp add: Update_def case_prod_beta)
  have infos: "infos_ok db" using assms(1) by (simp add: exchange_ok_def)
  then have ok: "exchange_ok env ?db"
    using assms(1) infos_ok_deviceIdx [of db device] db_keys_deviceIdx [of device db]
    by (simp add: exchange_ok_def blocks_ok_def deviceIdx_tables)
  have "row_FileInfo env ?db r = row_FileInfo env db r" for r
    by (simp add: row_FileInfo_def deviceIdx_tables split: option.split)
  then have "row_FileInfo env ?db = row_FileInfo env db" by (rule ext)
  then have same: "local_files env ?db = local_files env db" "nextSequence ?db = nextSequence db"
    by (simp_all add: local_files_def deviceIdx_tables)
  have "device = LocalDeviceID \<longleftrightarrow> ?idx = localDeviceIdx ?db"
    using deviceIdx_local [of db device] infos by (auto simp: infos_ok_def deviceIdx_tables)
  from loop_change [OF ok loop this] show ?thesis by (simp add: same)
qed

lemma local_seq_unique:
  assumes "exchange_ok env db" and "f \<in> local_files env db" and "g \<in> local_files env db" and "Name f = Name g"
  shows "f = g"
proof -
  have infos: "infos_ok db" and keys: "db_keys db" and inj: "inj (NativeFilename env)" using assms(1) by (simp_all add: exchange_ok_def)
  obtain r where r: "r \<in> set (rows db)" "DeviceIdx r = localDeviceIdx db" "row_FileInfo env db r = Some f" "Name f = NativeFilename env (rName r)"
    by (rule local_files_row [OF infos assms(2)])
  obtain s where s: "s \<in> set (rows db)" "DeviceIdx s = localDeviceIdx db" "row_FileInfo env db s = Some g" "Name g = NativeFilename env (rName s)"
    by (rule local_files_row [OF infos assms(3)])
  have "rName r = rName s" using inj r(4) s(4) assms(4) by (simp add: inj_eq)
  then have "r = s" using keys r(1, 2) s(1, 2) by (auto simp: db_keys_def distinct_map inj_on_def)
  then show ?thesis using r(3) s(3) by simp
qed

lemma local_ascending: "exchange_ok env db \<Longrightarrow> sorted_wrt (<) (map Sequence (local_source env db 0 0))"
proof -
  assume ok: "exchange_ok env db"
  then have infos: "infos_ok db" and keys: "db_keys db" by (simp_all add: exchange_ok_def)
  let ?rs = "sort_key rSequence (filter (\<lambda>r. DeviceIdx r = localDeviceIdx db) (rows db))"
  have "map Sequence (local_source env db 0 0) = map rSequence ?rs"
    unfolding all_local [OF infos] map_map by (intro map_cong refl) (simp add: local_info_seq [OF infos])
  moreover have "distinct (map rSequence ?rs)"
    using keys by (simp add: db_keys_def distinct_map inj_on_def)
  moreover have "sorted (map rSequence ?rs)" by simp
  ultimately show ?thesis by (metis strict_sorted_iff)
qed

interpretation local_index: changing_source "local_source env" "exchange_ok env" "db_change env" nextSequence for env
proof
  fix db db' f g start limit
  assume ok: "exchange_ok env db"
  then have infos: "infos_ok db" by (simp add: exchange_ok_def)
  note set = local_source_set [OF infos, of env]
  show "sorted_wrt (<) (map Sequence (local_source env db 0 0))" by (rule local_ascending [OF ok])
  show "local_source env db start 0 = filter (\<lambda>f. start \<le> Sequence f) (local_source env db 0 0)" if "0 \<le> start"
    unfolding local_filter_sort [OF infos that] all_local [OF infos] filter_map
    by (intro arg_cong [of _ _ "map _"] filter_cong refl) (simp add: local_info_seq [OF infos])
  show "local_source env db start limit = take (nat limit) (local_source env db start 0)" if "0 < limit"
    using that by (simp add: local_source_def AllLocalFilesBySequence_def Let_def take_map)
  show "\<not> truncated f" if "f \<in> set (local_source env db 0 0)"
    using that local_files_row [OF infos] unfolding set by metis
  show "0 < Sequence f \<and> Sequence f < nextSequence db" if f: "f \<in> set (local_source env db 0 0)"
  proof -
    obtain r where "r \<in> set (rows db)" "Sequence f = rSequence r"
      using f local_files_row [OF infos] unfolding set by metis
    then show ?thesis using infos ok by (force simp: infos_ok_def infos_sat_def local_law_def exchange_ok_def db_keys_def list_all_iff)
  qed
  show "f = g" if "f \<in> set (local_source env db 0 0)" "g \<in> set (local_source env db 0 0)" "Name f = Name g"
    using local_seq_unique [OF ok] that unfolding set by blast
  assume change: "db_change env db db'"
  note step = update_change [OF ok change]
  show "exchange_ok env db'" and "nextSequence db \<le> nextSequence db'" using step by blast+
  then have "infos_ok db'" by (simp add: exchange_ok_def)
  note set' = local_source_set [OF this, of env]
  show "f \<in> set (local_source env db 0 0) \<or> nextSequence db \<le> Sequence f" if "f \<in> set (local_source env db' 0 0)"
    using step that unfolding set set' by blast
  show "f \<in> set (local_source env db' 0 0) \<or> (\<exists>g \<in> set (local_source env db' 0 0). Name g = Name f \<and> nextSequence db \<le> Sequence g)"
    if "f \<in> set (local_source env db 0 0)"
    using step that unfolding set set' by blast
qed

section \<open>Properties\<close>

text \<open>
  Updates of the database, local and remote, and calls of \<open>sendIndexTo\<close> in any order, from the first
  connection on; the messages sent so far.
\<close>

inductive index_sending ::
  "db_env \<Rightarrow> (bep_file_info \<Rightarrow> int) \<Rightarrow> folder_db \<Rightarrow> index_handler \<Rightarrow> index_message list \<Rightarrow> bool" for env proto_Size where
  start: "exchange_ok env db \<Longrightarrow> localPrevSequence s = 0 \<Longrightarrow> index_sending env proto_Size db s []"
| update: "index_sending env proto_Size db s ms \<Longrightarrow> Update env device fs skip db = Ok db' \<Longrightarrow> index_sending env proto_Size db' s ms"
| send: "index_sending env proto_Size db s ms \<Longrightarrow>
    sendIndexTo proto_Size False (\<lambda>_. True) (local_source env db) False s = Ok (None, s', ms') \<Longrightarrow>
    index_sending env proto_Size db s' (ms @ ms')"

lemma index_sending_refines: "index_sending env proto_Size db s ms \<Longrightarrow> local_index.sending env proto_Size db s ms"
proof (induction rule: index_sending.induct)
  case (start db s)
  then show ?case by (rule local_index.sending.start) (use start in \<open>simp add: exchange_ok_def infos_ok_def\<close>)
next
  case (update db s ms device fs skip db')
  have "db_change env db db'" unfolding db_change_def using update.hyps(2) by blast
  with update.IH show ?case by (rule local_index.sending.change)
next
  case (send db s ms s' ms')
  from send.IH send.hyps(2) show ?case by (rule local_index.sending.send)
qed

text \<open>A database with one local file, and what a handler sends from it.\<close>

definition sample_local_file :: FileInfo where
  "sample_local_file = sample_file\<lparr>LocalFlags := 0, Sequence := 1, BlocksHash := [0]\<rparr>"

definition sample_local_db :: folder_db where
  "sample_local_db = (case Update sample_env LocalDeviceID [sample_local_file] False (new_folder_db False) of Ok db \<Rightarrow> db | _ \<Rightarrow> new_folder_db False)"

definition sample_handler :: "int \<Rightarrow> index_handler" where
  "sample_handler n = \<lparr>hFolder = ''f'', folderIsReceiveEncrypted = False, localPrevSequence = n, sentPrevSequence = n, paused = False\<rparr>"

definition sample_message :: Index where
  "sample_message = \<lparr>IdxFolder = ''f'', Files = [sample_local_file], LastSequence = 1\<rparr>"

lemma new_folder_tables: "infos_ok (new_folder_db lww)" "rows (new_folder_db lww) = []" "blocklists (new_folder_db lww) = (\<lambda>_. None)"
  by (simp_all add: infos_ok_def infos_sat_def devs_ok_def new_folder_db_def deviceIdxLocked_def)

lemma sample_exchange_ok: "exchange_ok sample_env (new_folder_db False)"
  by (simp add: exchange_ok_def new_folder_keys new_folder_tables blocks_ok_def) (simp add: sample_env_def inj_on_def)

lemma sample_local_update: "Update sample_env LocalDeviceID [sample_local_file] False (new_folder_db False) = Ok sample_local_db"
proof -
  have "case Update sample_env LocalDeviceID [sample_local_file] False (new_folder_db False) of Ok db \<Rightarrow> True | _ \<Rightarrow> False" by code_simp
  then show ?thesis by (simp add: sample_local_db_def split: outcome.splits)
qed

lemma sample_local_files: "local_source sample_env sample_local_db 0 0 = [sample_local_file]"
  by code_simp

lemma sample_sent: "sendIndexTo (\<lambda>_. 0) False (\<lambda>_. True) (local_source sample_env sample_local_db) False (sample_handler 0) =
    Ok (None, sample_handler 1, [IndexMsg sample_message])"
  by code_simp

lemma sample_sending: "index_sending sample_env (\<lambda>_. 0) sample_local_db (sample_handler 1) [IndexMsg sample_message]"
proof -
  have "index_sending sample_env (\<lambda>_. 0) (new_folder_db False) (sample_handler 0) []"
    by (rule index_sending.start [OF sample_exchange_ok]) (simp add: sample_handler_def)
  from index_sending.send [OF index_sending.update [OF this sample_local_update] sample_sent] show ?thesis by simp
qed

text \<open>No change is lost while an index is sent: in every interleaving of updates of the database
  with batches sent, each local file with a sequence number up to the last one that the sender has
  looked at has been announced as it is now, and no later announcement in the messages has its name.\<close>

theorem last_announcement_is_current:
  assumes "index_sending env proto_Size db s ms" and "f \<in> set (local_source env db 0 0)"
    and "Sequence f \<le> localPrevSequence s" and "announced_file (folderIsReceiveEncrypted s) f"
  shows "\<exists>as bs. concat (map index_files ms) = as @ prepareFileInfoForIndex f # bs \<and> (\<forall>e \<in> set bs. Name e \<noteq> Name f)"
  using local_index.last_announcement [OF index_sending_refines [OF assms(1)] assms(2-4)]
  unfolding local_index.sent_files_def .

theorem last_announcement_is_current_witness:
  "\<exists>as bs. concat (map index_files [IndexMsg sample_message]) = as @ prepareFileInfoForIndex sample_local_file # bs \<and>
    (\<forall>e \<in> set bs. Name e \<noteq> Name sample_local_file)"
  by (rule last_announcement_is_current [OF sample_sending])
     (simp_all add: sample_local_files sample_handler_def announced_file_def, simp add: sample_local_file_def)

text \<open>C25: The sender catches up: as long as the database does not change, \<open>Serve\<close> sends, in as many
  rounds as there are files at most, all files above the last sequence number it has seen, in
  ascending order and without gaps, and then waits.\<close>

theorem sender_catches_up:
  assumes "exchange_ok env db" and "0 \<le> localPrevSequence s"
    and "sq \<le> localPrevSequence s \<or> sq \<in> Sequence ` set (local_source env db 0 0)"
    and "length (local_source env db 0 0) < fuel"
  shows "\<exists>s' ms. serve_loop fuel proto_Size (\<lambda>_. True) (local_source env db) sq s = Some (Ok (s', ms)) \<and>
    sq \<le> localPrevSequence s' \<and>
    concat (map index_files ms) = map prepareFileInfoForIndex (filter (announced_file (folderIsReceiveEncrypted s))
      (filter (\<lambda>f. localPrevSequence s < Sequence f \<and> Sequence f \<le> localPrevSequence s') (local_source env db 0 0)))"
proof -
  have "length (local_index.above env db (localPrevSequence s)) < fuel"
    unfolding local_index.above_def using assms(4) by (rule le_less_trans [OF length_filter_le])
  from local_index.serve_sends_everything [OF assms(1, 2) this assms(3), of proto_Size] show ?thesis
    unfolding local_index.between_def by blast
qed

theorem sender_catches_up_witness:
  "\<exists>s' ms. serve_loop 2 (\<lambda>_. 0) (\<lambda>_. True) (local_source sample_env sample_local_db) 1 (sample_handler 0) = Some (Ok (s', ms)) \<and>
    1 \<le> localPrevSequence s' \<and> concat (map index_files ms) = [prepareFileInfoForIndex sample_local_file]"
proof -
  have "exchange_ok sample_env sample_local_db"
    using update_change [OF sample_exchange_ok] sample_local_update by (auto simp: db_change_def)
  from sender_catches_up [OF this, of "sample_handler 0" 1 2 "\<lambda>_. 0"] show ?thesis
    by (simp add: sample_local_files sample_handler_def announced_file_def)
      (auto simp: sample_local_file_def)
qed

end
