(* ===== verification/Index_Receive.thy ===== *)
theory Index_Receive
  imports Index_Exchange
begin

text \<open>
  The receiving side of an index exchange: what the database holds for a device after a sequence of
  index messages.
\<close>

section \<open>Updates from a device\<close>

text \<open>The last file of a list with a name, after normalisation.\<close>

definition last_named :: "db_env \<Rightarrow> string \<Rightarrow> FileInfo list \<Rightarrow> FileInfo option" where
  "last_named env n fs = List.find (\<lambda>f. NormalizedFilename env (Name f) = NormalizedFilename env n) (rev fs)"

lemma last_named_Nil [simp]: "last_named env n [] = None"
  by (simp add: last_named_def)

lemma find_append: "List.find P (xs @ ys) = (case List.find P xs of None \<Rightarrow> List.find P ys | Some x \<Rightarrow> Some x)"
  by (induction xs) simp_all

lemma last_named_append:
  "last_named env n (fs @ gs) = (case last_named env n gs of None \<Rightarrow> last_named env n fs | Some g \<Rightarrow> Some g)"
  by (simp add: last_named_def find_append split: option.split)

lemma last_named_Cons:
  "last_named env n (f # fs) = (case last_named env n fs of
     None \<Rightarrow> if NormalizedFilename env (Name f) = NormalizedFilename env n then Some f else None | Some g \<Rightarrow> Some g)"
  using last_named_append [of env n "[f]" fs] by (simp add: last_named_def split: option.splits)

text \<open>Sequence numbers of the rows of a device.\<close>

definition remote_below :: "int \<Rightarrow> int \<Rightarrow> folder_db \<Rightarrow> bool" where
  "remote_below idx q db \<longleftrightarrow> (\<forall>r \<in> set (rows db). DeviceIdx r = idx \<longrightarrow> (\<exists>p. rRemoteSequence r = Some p \<and> p \<le> q))"

text \<open>No two block lists of the files, or of a file and the database, have the same hash.\<close>

definition no_collisions :: "db_env \<Rightarrow> FileInfo set \<Rightarrow> folder_db \<Rightarrow> bool" where
  "no_collisions env F db \<longleftrightarrow> (\<forall>f \<in> F. Blocks f \<noteq> [] \<longrightarrow>
     (\<forall>bl. blocklists db (BlocksHash_of (Sha256 env) (Blocks f)) = Some bl \<longrightarrow> bl = map Block_ToWire (Blocks f)) \<and>
     (\<forall>g \<in> F. Blocks g \<noteq> [] \<and> BlocksHash_of (Sha256 env) (Blocks g) = BlocksHash_of (Sha256 env) (Blocks f) \<longrightarrow> Blocks g = Blocks f))"

definition receiver_ok :: "db_env \<Rightarrow> folder_db \<Rightarrow> bool" where
  "receiver_ok env db \<longleftrightarrow> db_keys db \<and> blocks_ok db \<and> infos_ok db \<and> sort_ok (SortFunc env) \<and> (\<forall>x. Sha256 env x \<noteq> [])"

lemma prepare_hash: "Blocks f \<noteq> [] \<Longrightarrow> BlocksHash (prepare_file env f) = BlocksHash_of (Sha256 env) (Blocks f)"
  by (simp add: prepare_file_def Let_def)

lemma GetDeviceFile_row_iff:
  assumes "db_keys db" and "map_of (devices db) device = Some idx"
  shows "GetDeviceFile env device n db = Some x \<longleftrightarrow>
    (\<exists>r \<in> set (rows db). DeviceIdx r = idx \<and> rName r = NormalizedFilename env n \<and> row_FileInfo env db r = Some x)"
proof
  assume "GetDeviceFile env device n db = Some x"
  then show "\<exists>r \<in> set (rows db). DeviceIdx r = idx \<and> rName r = NormalizedFilename env n \<and> row_FileInfo env db r = Some x"
    using assms(2) by (auto simp: GetDeviceFile_def find_Some_iff split: option.splits)
next
  assume "\<exists>r \<in> set (rows db). DeviceIdx r = idx \<and> rName r = NormalizedFilename env n \<and> row_FileInfo env db r = Some x"
  then show "GetDeviceFile env device n db = Some x"
    using find_row [OF assms(1)] assms(2) by (auto simp: GetDeviceFile_def)
qed

text \<open>An update with one file of another device leaves the files with other names.\<close>

lemma update_other_names:
  assumes "receiver_ok env db" and "update_file env False skip idx f db = Ok db'" and "map_of (devices db) device = Some idx"
    and "remote_below idx q db" and "q < Sequence f" and "NormalizedFilename env (Name f) \<noteq> NormalizedFilename env n"
  shows "GetDeviceFile env device n db' = GetDeviceFile env device n db"
proof -
  have parts: "db_keys db" "blocks_ok db" "sort_ok (SortFunc env)" "\<And>x. Sha256 env x \<noteq> []"
    using assms(1) by (simp_all add: receiver_ok_def)
  have hash: "Blocks f \<noteq> [] \<longrightarrow> BlocksHash (prepare_file env f) \<noteq> []" using parts(4) by (simp add: prepare_hash BlocksHash_of_def)
  let ?new = "row_of_file idx (Some (Sequence f)) (prepare_file env f)"
  note rows = update_file_rows [OF parts(3, 1, 2) assms(2) hash, simplified]
  have keep: "\<not> replaces ?new r" if "r \<in> set (rows db)" "DeviceIdx r = idx" "rName r = NormalizedFilename env n" for r
    using that assms(4-6) by (auto simp: replaces_def remote_below_def)
  have dev': "map_of (devices db') device = Some idx"
    using update_loop_tables [of env False skip idx None "[f]" db db'] assms(2, 3) by simp
  have keys': "db_keys db'" by (rule update_file_Ok [OF assms(2)])
      (use recalc_file_ok [OF parts(3)] insert_row_keys [OF parts(1)] keys_rows in \<open>metis insert_row_rows(2)\<close>)
  have "GetDeviceFile env device n db' = Some x \<longleftrightarrow> GetDeviceFile env device n db = Some x" for x
  proof
    assume "GetDeviceFile env device n db' = Some x"
    then obtain r' where r': "r' \<in> set (rows db')" "DeviceIdx r' = idx" "rName r' = NormalizedFilename env n" "row_FileInfo env db' r' = Some x"
      using GetDeviceFile_row_iff [OF keys' dev'] by blast
    then obtain r where r: "r \<in> set (rows db)" "same_row r r'" "\<not> replaces ?new r"
      using rows(1) [OF r'(1)] assms(6) by (auto simp: same_row_def)
    then have "row_FileInfo env db r = Some x"
      using row_FileInfo_same [OF r(2) parts(2) r(1) rows(5) rows(4) [OF r(1, 3)]] r'(4) by simp
    then show "GetDeviceFile env device n db = Some x"
      using GetDeviceFile_row_iff [OF parts(1) assms(3)] r r'(2, 3) by (auto simp: same_row_def)
  next
    assume "GetDeviceFile env device n db = Some x"
    then obtain r where r: "r \<in> set (rows db)" "DeviceIdx r = idx" "rName r = NormalizedFilename env n" "row_FileInfo env db r = Some x"
      using GetDeviceFile_row_iff [OF parts(1) assms(3)] by blast
    note kept = keep [OF r(1-3)]
    obtain r' where r': "r' \<in> set (rows db')" "same_row r r'" using rows(2) [OF r(1) kept] by blast
    then have "row_FileInfo env db' r' = Some x"
      using row_FileInfo_same [OF r'(2) parts(2) r(1) rows(5) rows(4) [OF r(1) kept]] r(4) by simp
    then show "GetDeviceFile env device n db' = Some x"
      using GetDeviceFile_row_iff [OF keys' dev'] r' r(2, 3) by (auto simp: same_row_def)
  qed
  then show ?thesis by (metis not_None_eq)
qed

lemma update_file_blocklists:
  assumes "update_file env isLocal skip idx f db = Ok db'" and "blocklists db' h = Some bl"
  shows "blocklists db h = Some bl \<or> Blocks f \<noteq> [] \<and> h = BlocksHash_of (Sha256 env) (Blocks f) \<and> bl = map Block_ToWire (Blocks f)"
proof -
  have "blocklists db' = blocklists (store_blocks isLocal skip (prepare_file env f)
      (snd (insert_row (row_of_file idx (if isLocal then None else Some (Sequence f)) (prepare_file env f)) db)))"
    using assms(1) by (auto simp: update_file_def Let_def split: if_splits)
  then show ?thesis
    using assms(2) prepare_hash [of f env]
    by (auto simp: store_blocks_def insertBlocksLocked_def insert_row_rows(5) Let_def split: option.splits if_splits)
qed

lemma update_file_receiver:
  assumes "receiver_ok env db" and "update_file env False skip idx f db = Ok db'" and "idx \<noteq> localDeviceIdx db"
    and "remote_below idx q db" and "q < Sequence f" and "no_collisions env F db" and "f \<in> F"
  shows "receiver_ok env db'" and "remote_below idx (Sequence f) db'" and "no_collisions env F db'"
    and "devices db' = devices db" and "localDeviceIdx db' = localDeviceIdx db"
proof -
  have parts: "db_keys db" "blocks_ok db" "infos_ok db" "sort_ok (SortFunc env)" "\<And>x. Sha256 env x \<noteq> []"
    using assms(1) by (simp_all add: receiver_ok_def)
  have hash: "Blocks f \<noteq> [] \<longrightarrow> BlocksHash (prepare_file env f) \<noteq> []" using parts(5) by (simp add: prepare_hash BlocksHash_of_def)
  note rows = update_file_rows [OF parts(4, 1, 2) assms(2) hash, simplified]
  have tables: "devices db' = devices db" "nextDevice db' = nextDevice db" "localDeviceIdx db' = localDeviceIdx db"
    using update_loop_tables [of env False skip idx None "[f]" db db'] assms(2) by simp_all
  then show "devices db' = devices db" and "localDeviceIdx db' = localDeviceIdx db" by simp_all
  have "db_keys db' \<and> infos_sat (local_law (localDeviceIdx db)) db'"
    by (rule update_file_infos [OF parts(4) local_law_flagless parts(1) _ assms(2)])
       (use parts(3) assms(3) in \<open>auto simp: infos_ok_def local_law_def\<close>)
  then have "db_keys db'" "infos_ok db'"
    using parts(3) update_file_next [OF assms(2)] by (simp_all add: infos_ok_def devs_ok_def tables)
  then show "receiver_ok env db'" using rows(6) parts by (simp add: receiver_ok_def)
  show "remote_below idx (Sequence f) db'"
    unfolding remote_below_def
  proof (intro ballI impI)
    fix r' assume r': "r' \<in> set (rows db')" "DeviceIdx r' = idx"
    from rows(1) [OF r'(1)] consider r where "r \<in> set (rows db)" "same_row r r'" | "rRemoteSequence r' = Some (Sequence f)"
      by (auto simp: same_row_def)
    then show "\<exists>p. rRemoteSequence r' = Some p \<and> p \<le> Sequence f"
      using assms(4, 5) r'(2) by cases (fastforce simp: remote_below_def same_row_def)+
  qed
  show "no_collisions env F db'"
    using assms(6, 7) update_file_blocklists [OF assms(2)] unfolding no_collisions_def by metis
qed

text \<open>A batch from a device: afterwards the last file of each name is the one that is read.\<close>

lemma update_loop_receives:
  assumes "receiver_ok env db" and "map_of (devices db) device = Some idx" and "idx \<noteq> localDeviceIdx db"
    and "remote_below idx q db" and "sorted_wrt (<) (q # map Sequence fs)" and "\<forall>p. prev = Some p \<longrightarrow> p \<le> q"
    and "no_collisions env F db" and "set fs \<subseteq> F" and "\<forall>f \<in> F. wire_sized f \<and> \<not> truncated f"
  shows "\<exists>db'. update_loop env False skip idx prev fs db = Ok db' \<and> receiver_ok env db' \<and> devices db' = devices db \<and>
    localDeviceIdx db' = localDeviceIdx db \<and> remote_below idx (last (q # map Sequence fs)) db' \<and> no_collisions env F db' \<and>
    (\<forall>n. GetDeviceFile env device n db' =
      (case last_named env n fs of None \<Rightarrow> GetDeviceFile env device n db | Some f \<Rightarrow> Some (read_back env (prepare_file env f))))"
  using assms(1-8)
proof (induction fs arbitrary: db q prev)
  case (Cons f fs)
  have f: "wire_sized f" "\<not> truncated f" "f \<in> F" "q < Sequence f" using Cons.prems(5, 8) assms(9) by auto
  have parts: "db_keys db" "sort_ok (SortFunc env)" "\<And>x. Sha256 env x \<noteq> []" using Cons.prems(1) by (simp_all add: receiver_ok_def)
  have "blocklists db (BlocksHash (prepare_file env f)) \<in> {None, Some (map Block_ToWire (Blocks f))}" if "Blocks f \<noteq> []"
    using Cons.prems(7) f(3) that unfolding no_collisions_def prepare_hash [OF that]
    by (cases "blocklists db (BlocksHash_of (Sha256 env) (Blocks f))") auto
  then have lists: "Blocks f \<noteq> [] \<longrightarrow> blocklists db (BlocksHash (prepare_file env f)) \<in> {None, Some (map Block_ToWire (Blocks f))}" by blast
  obtain db1 where db1: "update_file env False skip idx f db = Ok db1"
      "GetDeviceFile env device (Name f) db1 = Some (read_back env (prepare_file env f))"
    using update_file_read [OF parts(2, 1) f(1, 2) parts(3) lists Cons.prems(2), of False skip] by auto
  note step = update_file_receiver [OF Cons.prems(1) db1(1) Cons.prems(3, 4) f(4) Cons.prems(7) f(3)]
  have "update_loop env False skip idx prev (f # fs) db = update_loop env False skip idx (Some (Sequence f)) fs db1"
    using db1(1) Cons.prems(6) f(4) by auto
  moreover obtain db' where rest: "update_loop env False skip idx (Some (Sequence f)) fs db1 = Ok db'" "receiver_ok env db'"
      "devices db' = devices db" "localDeviceIdx db' = localDeviceIdx db" "remote_below idx (last (Sequence f # map Sequence fs)) db'"
      "no_collisions env F db'"
      "\<forall>n. GetDeviceFile env device n db' =
        (case last_named env n fs of None \<Rightarrow> GetDeviceFile env device n db1 | Some f \<Rightarrow> Some (read_back env (prepare_file env f)))"
    using Cons.IH [OF step(1) _ _ step(2) _ _ step(3), of "Some (Sequence f)"] Cons.prems step(4, 5) by auto
  moreover have "GetDeviceFile env device n db1 =
      (if NormalizedFilename env (Name f) = NormalizedFilename env n then Some (read_back env (prepare_file env f))
       else GetDeviceFile env device n db)" for n
  proof (cases "NormalizedFilename env (Name f) = NormalizedFilename env n")
    case True
    then have "GetDeviceFile env device n db1 = GetDeviceFile env device (Name f) db1" by (simp only: GetDeviceFile_def True)
    then show ?thesis using True db1(2) by simp
  next
    case False
    then show ?thesis using update_other_names [OF Cons.prems(1) db1(1) Cons.prems(2, 4) f(4) False] by simp
  qed
  ultimately show ?case
    by (intro exI [of _ db']) (auto simp: last_named_Cons split: option.splits)
qed simp

section \<open>Messages from a device\<close>

text \<open>How the model hands an index message to the handler.\<close>

definition receive_message ::
  "db_env \<Rightarrow> bytes \<Rightarrow> index_handler \<Rightarrow> index_message \<Rightarrow> deviceDownloadState \<Rightarrow> folder_db
   \<Rightarrow> (receive_error, receive_error option \<times> anomaly list \<times> deviceDownloadState \<times> folder_db) outcome" where
  "receive_message env device h m downloads db =
     (case m of
        IndexMsg i \<Rightarrow> receive env device (Files i) False 0 (LastSequence i) h downloads db
      | IndexUpdateMsg u \<Rightarrow> receive env device (Files u) True (PrevSequence u) (LastSequence u) h downloads db)"

fun receive_messages ::
  "db_env \<Rightarrow> bytes \<Rightarrow> index_handler \<Rightarrow> index_message list \<Rightarrow> deviceDownloadState \<Rightarrow> folder_db
   \<Rightarrow> (receive_error, receive_error option \<times> deviceDownloadState \<times> folder_db) outcome" where
  "receive_messages env device h [] downloads db = Ok (None, downloads, db)"
| "receive_messages env device h (m # ms) downloads db =
     obind (receive_message env device h m downloads db) (\<lambda>(err, log, downloads, db).
       if err \<noteq> None then Ok (err, downloads, db) else receive_messages env device h ms downloads db)"

text \<open>Dropping the files of a device.\<close>

lemma recalc_names_keys: "sort_ok (SortFunc env) \<Longrightarrow> db_keys db \<Longrightarrow> db_keys (recalc_names env names db)"
  by (induction names arbitrary: db) (simp_all add: recalc_file_ok)

lemma recalc_names_same:
  "sort_ok (SortFunc env) \<Longrightarrow> db_keys db \<Longrightarrow> r' \<in> set (rows (recalc_names env names db)) \<Longrightarrow> \<exists>r \<in> set (rows db). same_row r r'"
proof (induction names arbitrary: db)
  case (Cons m names)
  have "db_keys (recalcGlobalForFile env m db)" using recalc_file_ok [OF Cons.prems(1, 2)] by blast
  from Cons.IH [OF Cons.prems(1) this] Cons.prems(3)
  obtain r where r: "r \<in> set (rows (recalcGlobalForFile env m db))" "same_row r r'" by auto
  from recalc_same_rows(1) [OF Cons.prems(1, 2) r(1)] r(2) show ?case by (fastforce simp: same_row_def)
qed (auto simp: same_row_def)

lemma recalc_names_tables:
  "devices (recalc_names env names db) = devices db \<and> blocklists (recalc_names env names db) = blocklists db \<and>
   localDeviceIdx (recalc_names env names db) = localDeviceIdx db"
  by (induction names arbitrary: db) simp_all

lemma DropAllFiles_receiver:
  assumes "receiver_ok env db" and "device \<noteq> LocalDeviceID"
  shows "\<exists>idx. map_of (devices (DropAllFiles env device db)) device = Some idx \<and> idx \<noteq> localDeviceIdx (DropAllFiles env device db) \<and>
    remote_below idx 0 (DropAllFiles env device db) \<and> receiver_ok env (DropAllFiles env device db) \<and>
    blocklists (DropAllFiles env device db) = blocklists db \<and> (\<forall>n. GetDeviceFile env device n (DropAllFiles env device db) = None)"
proof -
  have parts: "db_keys db" "blocks_ok db" "infos_ok db" "sort_ok (SortFunc env)" "\<And>x. Sha256 env x \<noteq> []"
    using assms(1) by (simp_all add: receiver_ok_def)
  obtain idx db0 where idx: "deviceIdxLocked device db = (idx, db0)" by fastforce
  define db1 where "db1 = db0\<lparr>indexids := (indexids db0)(idx := map_option (\<lambda>(i, _). (i, 0)) (indexids db0 idx))\<rparr>"
  have db1: "rows db1 = rows db" "blocklists db1 = blocklists db" "db_keys db1" "infos_ok db1" "map_of (devices db1) device = Some idx"
      "localDeviceIdx db1 = localDeviceIdx db"
    using deviceIdx_tables [of device db] deviceIdx_found [of device db] db_keys_deviceIdx [of device db] infos_ok_deviceIdx [OF parts(3), of device] parts(1)
    by (simp_all add: db1_def idx db_keys_other infos_ok_other)
  have noloc: "idx \<noteq> localDeviceIdx db" using deviceIdx_local [of db device] parts(3) assms(2) by (simp add: idx infos_ok_def)
  define db2 where "db2 = delete_rows (\<lambda>r. DeviceIdx r = idx) db1"
  define db' where "db' = DropAllFiles env device db"
  have db': "db' = db1 \<and> (\<forall>r \<in> set (rows db1). DeviceIdx r \<noteq> idx) \<or> db' = recalcGlobalForFolder env db2"
  proof -
    have "rows db1 = rows db0" by (simp add: db1_def)
    then show ?thesis by (auto simp: db'_def DropAllFiles_def idx db1_def [symmetric] db2_def Let_def list_ex_iff)
  qed
  have db2: "db_keys db2" "infos_ok db2" "\<forall>r \<in> set (rows db2). DeviceIdx r \<noteq> idx \<and> r \<in> set (rows db1)"
      "devices db2 = devices db1" "blocklists db2 = blocklists db1" "localDeviceIdx db2 = localDeviceIdx db1"
    using delete_keys [OF db1(3)] delete_infos_ok [OF db1(3, 4)] by (auto simp: db2_def delete_rows_def)
  note tables = recalc_names_tables [of env "names_without_global db2" db2]
  have "db_keys db'" "infos_ok db'" "map_of (devices db') device = Some idx" "localDeviceIdx db' = localDeviceIdx db" "blocklists db' = blocklists db"
    using db' db1 db2 recalc_names_keys [OF parts(4) db2(1)] recalc_infos_ok [OF parts(4) db2(1, 2)] tables
    by (auto simp: recalcGlobalForFolder_def)
  moreover have rows': "\<exists>r \<in> set (rows db). same_row r r' \<and> DeviceIdx r \<noteq> idx" if "r' \<in> set (rows db')" for r'
    using db' that db1(1) db2(3) recalc_names_same [OF parts(4) db2(1)]
    by (auto simp: recalcGlobalForFolder_def same_row_def) metis
  then have none: "DeviceIdx r' \<noteq> idx" if "r' \<in> set (rows db')" for r' using that by (fastforce simp: same_row_def)
  moreover have "blocks_ok db'"
    using parts(2) rows' calculation(5) by (fastforce simp: blocks_ok_def same_row_def)
  moreover have "GetDeviceFile env device n db' = None" for n
    using GetDeviceFile_row_iff [OF calculation(1, 3), of env n] none by (metis not_None_eq)
  ultimately show ?thesis
    using noloc parts by (intro exI [of _ idx]) (auto simp: remote_below_def receiver_ok_def db'_def [symmetric])
qed

lemma Update_receives:
  assumes "receiver_ok env db" and "map_of (devices db) device = Some idx" and "idx \<noteq> localDeviceIdx db" and "device \<noteq> LocalDeviceID"
    and "remote_below idx q db" and "sorted_wrt (<) (q # map Sequence fs)"
    and "no_collisions env F db" and "set fs \<subseteq> F" and "\<forall>f \<in> F. wire_sized f \<and> \<not> truncated f"
  shows "\<exists>db'. Update env device fs skip db = Ok db' \<and> receiver_ok env db' \<and> devices db' = devices db \<and>
    localDeviceIdx db' = localDeviceIdx db \<and> remote_below idx (last (q # map Sequence fs)) db' \<and> no_collisions env F db' \<and>
    (\<forall>n. GetDeviceFile env device n db' =
      (case last_named env n fs of None \<Rightarrow> GetDeviceFile env device n db | Some f \<Rightarrow> Some (read_back env (prepare_file env f))))"
proof -
  have "Update env device fs skip db = update_loop env False skip idx None fs db"
    using assms(2, 4) by (simp add: Update_def deviceIdxLocked_def)
  then show ?thesis
    using update_loop_receives [OF assms(1-3, 5, 6) _ assms(7-9), of None skip] by simp
qed

lemma receive_updates:
  assumes "\<not> paused h" and "device \<noteq> LocalDeviceID" and "list_all is_update ms"
    and "receiver_ok env db" and "map_of (devices db) device = Some idx" and "idx \<noteq> localDeviceIdx db"
    and "remote_below idx q db" and "sorted_wrt (<) (q # map Sequence (concat (map index_files ms)))"
    and "no_collisions env F db" and "set (concat (map index_files ms)) \<subseteq> F" and "\<forall>f \<in> F. wire_sized f \<and> \<not> truncated f"
  shows "\<exists>d' db'. receive_messages env device h ms d db = Ok (None, d', db') \<and>
    (\<forall>n. GetDeviceFile env device n db' = (case last_named env n (concat (map index_files ms)) of
       None \<Rightarrow> GetDeviceFile env device n db | Some f \<Rightarrow> Some (read_back env (prepare_file env f))))"
  using assms(3-10)
proof (induction ms arbitrary: db d q)
  case (Cons m ms)
  let ?fs = "index_files m" and ?rest = "concat (map index_files ms)"
  have sorted: "sorted_wrt (<) (q # map Sequence ?fs)" "sorted_wrt (<) (last (q # map Sequence ?fs) # map Sequence ?rest)"
    using Cons.prems(6) by (auto simp: sorted_wrt_append last_map)
  obtain db1 where up: "Update env device ?fs False db = Ok db1" "receiver_ok env db1" "devices db1 = devices db"
      "localDeviceIdx db1 = localDeviceIdx db" "remote_below idx (last (q # map Sequence ?fs)) db1" "no_collisions env F db1"
      "\<forall>n. GetDeviceFile env device n db1 =
        (case last_named env n ?fs of None \<Rightarrow> GetDeviceFile env device n db | Some f \<Rightarrow> Some (read_back env (prepare_file env f)))"
    using Update_receives [OF Cons.prems(2-4) assms(2) Cons.prems(5) sorted(1) Cons.prems(7) _ assms(11), of False] Cons.prems(8) by auto
  obtain u where u: "m = IndexUpdateMsg u" using Cons.prems(1) by (cases m) (simp_all add: is_update_def)
  have files: "Files u = ?fs" by (simp add: u index_files_def)
  obtain log d1 where msg: "receive_message env device h m d db = Ok (None, log, d1, db1)"
    using up(1) assms(1) by (simp add: receive_message_def u receive_def files [unfolded u] Let_def)
  obtain d' db' where rest: "receive_messages env device h ms d1 db1 = Ok (None, d', db')"
      "\<forall>n. GetDeviceFile env device n db' = (case last_named env n ?rest of
         None \<Rightarrow> GetDeviceFile env device n db1 | Some f \<Rightarrow> Some (read_back env (prepare_file env f)))"
    using Cons.IH [OF _ up(2) _ _ up(5) sorted(2) up(6), of d1] Cons.prems up(3, 4) by auto
  show ?case
    using msg rest up(7) by (auto simp: last_named_append split: option.splits)
qed simp

lemma receive_full_index:
  assumes "\<not> paused h" and "device \<noteq> LocalDeviceID" and "list_all is_update ms" and "receiver_ok env db"
    and "files = Files i @ concat (map index_files ms)" and "sorted_wrt (<) (0 # map Sequence files)"
    and "no_collisions env (set files) db" and "\<forall>f \<in> set files. wire_sized f \<and> \<not> truncated f"
  shows "\<exists>d' db'. receive_messages env device h (IndexMsg i # ms) d db = Ok (None, d', db') \<and>
    (\<forall>n. GetDeviceFile env device n db' = map_option (\<lambda>f. read_back env (prepare_file env f)) (last_named env n files))"
proof -
  let ?db = "DropAllFiles env device db" and ?u = "\<lparr>IdxFolder = IdxFolder i, Files = Files i, LastSequence = LastSequence i, PrevSequence = 0\<rparr>"
  obtain idx where drop: "map_of (devices ?db) device = Some idx" "idx \<noteq> localDeviceIdx ?db" "remote_below idx 0 ?db" "receiver_ok env ?db"
      "blocklists ?db = blocklists db" "\<And>n. GetDeviceFile env device n ?db = None"
    using DropAllFiles_receiver [OF assms(4, 2)] by auto
  have "no_collisions env (set files) ?db" using assms(7) drop(5) by (simp add: no_collisions_def)
  moreover have files: "files = concat (map index_files (IndexUpdateMsg ?u # ms))" using assms(5) by (simp add: index_files_def)
  ultimately obtain d' db' where all: "receive_messages env device h (IndexUpdateMsg ?u # ms) d ?db = Ok (None, d', db')"
      "\<forall>n. GetDeviceFile env device n db' = (case last_named env n files of
         None \<Rightarrow> GetDeviceFile env device n ?db | Some f \<Rightarrow> Some (read_back env (prepare_file env f)))"
    using receive_updates [OF assms(1, 2) _ drop(4, 1, 2, 3), of "IndexUpdateMsg ?u # ms" "set files" d] assms(3, 6, 8)
    by (auto simp: is_update_def)
  have eq: "receive_messages env device h (IndexMsg i # ms) d db = receive_messages env device h (IndexUpdateMsg ?u # ms) d ?db"
    using assms(1) by (simp add: receive_message_def receive_def Let_def)
  have "GetDeviceFile env device n db' = map_option (\<lambda>f. read_back env (prepare_file env f)) (last_named env n files)" for n
    using all(2) drop(6) by (simp split: option.split)
  then show ?thesis unfolding eq all(1) by blast
qed

text \<open>The receiver ends up with what was announced last: after a full index and any updates with
  ascending sequence numbers, the database has for each name the last announced file of that name,
  and no file for a name that was not announced, whatever it had for the device before.  No two
  different block lists have the same hash.\<close>

theorem receiver_has_last_announcement:
  assumes "\<not> paused h" and "device \<noteq> LocalDeviceID" and "list_all is_update ms" and "receiver_ok env db"
    and "files = Files i @ concat (map index_files ms)" and "sorted_wrt (<) (0 # map Sequence files)"
    and "no_collisions env (set files) db" and "\<forall>f \<in> set files. wire_sized f \<and> \<not> truncated f"
  shows "\<exists>d' db'. receive_messages env device h (IndexMsg i # ms) d db = Ok (None, d', db') \<and>
    (\<forall>n. GetDeviceFile env device n db' = map_option (\<lambda>f. read_back env (prepare_file env f)) (last_named env n files))"
  by (rule receive_full_index [OF assms])

lemma sample_receiver_ok: "receiver_ok sample_env (new_folder_db False)"
  using sample_exchange_ok by (simp add: receiver_ok_def exchange_ok_def)

lemma sample_no_collisions: "no_collisions sample_env {f} (new_folder_db False)"
  by (simp add: no_collisions_def new_folder_tables)

theorem receiver_has_last_announcement_witness:
  "\<exists>d' db'. receive_messages sample_env [1] (sample_handler 0) [IndexMsg sample_message] newDeviceDownloadState (new_folder_db False) = Ok (None, d', db') \<and>
    GetDeviceFile sample_env [1] ''a'' db' = Some (read_back sample_env (prepare_file sample_env sample_local_file))"
proof -
  have named: "last_named sample_env ''a'' [sample_local_file] = Some sample_local_file" by code_simp
  have "\<exists>d' db'. receive_messages sample_env [1] (sample_handler 0) [IndexMsg sample_message] newDeviceDownloadState (new_folder_db False) =
      Ok (None, d', db') \<and> (\<forall>n. GetDeviceFile sample_env [1] n db' =
      map_option (\<lambda>f. read_back sample_env (prepare_file sample_env f)) (last_named sample_env n [sample_local_file]))"
  proof (rule receiver_has_last_announcement)
    show "receiver_ok sample_env (new_folder_db False)" by (rule sample_receiver_ok)
    show "no_collisions sample_env (set [sample_local_file]) (new_folder_db False)" by (simp add: sample_no_collisions)
    show "\<not> paused (sample_handler 0)" "[1] \<noteq> LocalDeviceID" "list_all is_update []"
      "\<forall>f \<in> set [sample_local_file]. wire_sized f \<and> \<not> truncated f" "sorted_wrt (<) (0 # map Sequence [sample_local_file])"
      "[sample_local_file] = Files sample_message @ concat (map index_files [])"
      by code_simp+
  qed
  then show ?thesis by (metis (no_types, lifting) named option.map(2))
qed

end
