(* ===== verification/Wire_Format.thy ===== *)
theory Wire_Format
  imports Index_Receive
begin

text \<open>
  Names on the wire, \<^verbatim>\<open>lib/protocol/wireformat.go\<close> and the variants of
  \<^verbatim>\<open>nativemodel_*.go\<close>: the sender brings names to a common form, the receiver to the form of
  its platform.  The forms themselves (Unicode normalisation, path separators) are arguments.
\<close>

section \<open>Sending\<close>

definition rename_files :: "(string \<Rightarrow> string) \<Rightarrow> FileInfo list \<Rightarrow> FileInfo list" where
  "rename_files form fs = map (\<lambda>f. f\<lparr>Name := form (Name f)\<rparr>) fs"

definition wireFormat_Index :: "(string \<Rightarrow> string) \<Rightarrow> Index \<Rightarrow> Index" where
  "wireFormat_Index wireName idx = idx\<lparr>Files := rename_files wireName (Files idx)\<rparr>"

definition wireFormat_IndexUpdate :: "(string \<Rightarrow> string) \<Rightarrow> IndexUpdate \<Rightarrow> IndexUpdate" where
  "wireFormat_IndexUpdate wireName idxUp = idxUp\<lparr>Files := rename_files wireName (Files idxUp)\<rparr>"

definition wireFormat_Request :: "(string \<Rightarrow> string) \<Rightarrow> Request \<Rightarrow> Request" where
  "wireFormat_Request wireName req = req\<lparr>ReqName := wireName (ReqName req)\<rparr>"

section \<open>Receiving\<close>

text \<open>On macOS all names are decomposed.\<close>

definition darwin_Index :: "(string \<Rightarrow> string) \<Rightarrow> Index \<Rightarrow> Index" where
  "darwin_Index nfd idx = idx\<lparr>Files := rename_files nfd (Files idx)\<rparr>"

definition darwin_IndexUpdate :: "(string \<Rightarrow> string) \<Rightarrow> IndexUpdate \<Rightarrow> IndexUpdate" where
  "darwin_IndexUpdate nfd idxUp = idxUp\<lparr>Files := rename_files nfd (Files idxUp)\<rparr>"

definition darwin_Request :: "(string \<Rightarrow> string) \<Rightarrow> Request \<Rightarrow> Request" where
  "darwin_Request nfd req = req\<lparr>ReqName := nfd (ReqName req)\<rparr>"

text \<open>
  On Windows names with a backslash are dropped.  \<open>files\<close> is the array that is changed in place;
  \<open>out\<close> is only made once a file is dropped, as a copy of the files before it.
\<close>

fun fixup_loop ::
  "(string \<Rightarrow> string) \<Rightarrow> nat \<Rightarrow> FileInfo list \<Rightarrow> FileInfo list option \<Rightarrow> nat \<Rightarrow> FileInfo list \<times> FileInfo list option" where
  "fixup_loop fromSlash 0 files out i = (files, out)"
| "fixup_loop fromSlash (Suc n) files out i =
     (if CHR 0x5C \<in> set (Name (files ! i)) then
        fixup_loop fromSlash n files (Some (case out of None \<Rightarrow> take i files | Some fs \<Rightarrow> fs)) (i + 1)
      else
        let f = (files ! i)\<lparr>Name := fromSlash (Name (files ! i))\<rparr>
        in fixup_loop fromSlash n (files[i := f]) (map_option (\<lambda>fs. fs @ [f]) out) (i + 1))"

definition fixupFiles :: "(string \<Rightarrow> string) \<Rightarrow> FileInfo list \<Rightarrow> FileInfo list" where
  "fixupFiles fromSlash files =
     (case fixup_loop fromSlash (length files) files None 0 of (files, out) \<Rightarrow>
        case out of Some fs \<Rightarrow> fs | None \<Rightarrow> files)"

definition windows_Index :: "(string \<Rightarrow> string) \<Rightarrow> Index \<Rightarrow> Index" where
  "windows_Index fromSlash idx = idx\<lparr>Files := fixupFiles fromSlash (Files idx)\<rparr>"

definition windows_IndexUpdate :: "(string \<Rightarrow> string) \<Rightarrow> IndexUpdate \<Rightarrow> IndexUpdate" where
  "windows_IndexUpdate fromSlash idxUp = idxUp\<lparr>Files := fixupFiles fromSlash (Files idxUp)\<rparr>"

definition windows_Request :: "(string \<Rightarrow> string) \<Rightarrow> Request \<Rightarrow> (request_error, Request) outcome" where
  "windows_Request fromSlash req =
     (if CHR 0x5C \<in> set (ReqName req) then Err ErrNoSuchFile else Ok (req\<lparr>ReqName := fromSlash (ReqName req)\<rparr>))"

section \<open>The delayed copy\<close>

definition fixed :: "(string \<Rightarrow> string) \<Rightarrow> FileInfo list \<Rightarrow> FileInfo list" where
  "fixed fromSlash fs = map (\<lambda>f. f\<lparr>Name := fromSlash (Name f)\<rparr>) (filter (\<lambda>f. CHR 0x5C \<notin> set (Name f)) fs)"

lemma fixup_step:
  assumes "length pre = i"
  shows "(pre @ f # rest) ! i = f" "take i (pre @ f # rest) = pre" "(pre @ f # rest)[i := g] = (pre @ [g]) @ rest"
  using assms by (auto simp: list_update_append)

lemma fixup_loop_copied:
  "length pre = i \<Longrightarrow> snd (fixup_loop fromSlash (length rest) (pre @ rest) (Some acc) i) = Some (acc @ fixed fromSlash rest)"
proof (induction rest arbitrary: pre i acc)
  case (Cons f rest)
  let ?f = "f\<lparr>Name := fromSlash (Name f)\<rparr>"
  show ?case
    using Cons.IH [of "pre @ [f]" "i + 1" acc] Cons.IH [of "pre @ [?f]" "i + 1" "acc @ [?f]"] Cons.prems
    by (simp add: fixup_step fixed_def Let_def del: append_assoc) simp
qed (simp add: fixed_def)

lemma fixup_loop_uncopied:
  "length pre = i \<Longrightarrow> (case fixup_loop fromSlash (length rest) (pre @ rest) None i of (files, out) \<Rightarrow>
     case out of Some fs \<Rightarrow> fs | None \<Rightarrow> files) = pre @ fixed fromSlash rest"
proof (induction rest arbitrary: pre i)
  case (Cons f rest)
  let ?f = "f\<lparr>Name := fromSlash (Name f)\<rparr>"
  have copied: "snd (fixup_loop fromSlash (length rest) ((pre @ [f]) @ rest) (Some pre) (i + 1)) = Some (pre @ fixed fromSlash rest)"
    by (rule fixup_loop_copied) (simp add: Cons.prems)
  show ?case
  proof (cases "CHR 0x5C \<in> set (Name f)")
    case True
    then show ?thesis
      using copied fixup_step [OF Cons.prems] by (simp add: fixed_def case_prod_unfold)
  next
    case False
    then show ?thesis
      using Cons.IH [of "pre @ [?f]" "i + 1"] Cons.prems fixup_step [OF Cons.prems] by (simp add: fixed_def Let_def)
  qed
qed (simp add: fixed_def)

text \<open>\<open>fixupFiles\<close>, which copies the files only once it drops one, gives the files without a
  backslash in their name, in order, with their separators converted.\<close>

theorem fixupFiles_is_filter:
  "fixupFiles fromSlash files =
     map (\<lambda>f. f\<lparr>Name := fromSlash (Name f)\<rparr>) (filter (\<lambda>f. CHR 0x5C \<notin> set (Name f)) files)"
  using fixup_loop_uncopied [of "[]" 0 fromSlash files] by (simp add: fixupFiles_def fixed_def)

end
