(* ===== verification/Index_Delivery.thy ===== *)
theory Index_Delivery
  imports Wire_Format Connection
begin

text \<open>
  An index exchange from end to end: the index handler of the sender on its database, the names and
  messages on the wire, the dispatcher of the receiver and the receiving index handler on another
  database.
\<close>

section \<open>Delivery\<close>

text \<open>A model that takes every call.\<close>

definition accept :: "unit model" where "accept call = None"

text \<open>What \<open>Index\<close> and \<open>IndexUpdate\<close> of the connection put on the wire.\<close>

definition send_message :: "(string \<Rightarrow> string) \<Rightarrow> index_message \<Rightarrow> (wire_error, bep_message) outcome" where
  "send_message wireName m =
     (case m of
        IndexMsg i \<Rightarrow> obind (Index_toWire (wireFormat_Index wireName i)) (\<lambda>w. Ok (MIndex w))
      | IndexUpdateMsg u \<Rightarrow> obind (IndexUpdate_toWire (wireFormat_IndexUpdate wireName u)) (\<lambda>w. Ok (MIndexUpdate w)))"

text \<open>The calls of the dispatcher that concern the index, as the index handler sees them.\<close>

fun index_calls :: "model_call list \<Rightarrow> index_message list" where
  "index_calls [] = []"
| "index_calls (CallIndex i # cs) = IndexMsg i # index_calls cs"
| "index_calls (CallIndexUpdate u # cs) = IndexUpdateMsg u # index_calls cs"
| "index_calls (c # cs) = index_calls cs"

text \<open>What the receiver makes of a file.\<close>

definition wire_file :: "(string \<Rightarrow> string) \<Rightarrow> FileInfo \<Rightarrow> FileInfo" where
  "wire_file wireName f = f\<lparr>Name := wireName (Name f), LocalFlags := (if IsInvalid f then FlagLocalRemoteInvalid else 0),
     EncryptionTrailerSize := 0, truncated := False\<rparr>"

definition wire_index_message :: "(string \<Rightarrow> string) \<Rightarrow> index_message \<Rightarrow> index_message" where
  "wire_index_message wireName m =
     (case m of
        IndexMsg i \<Rightarrow> IndexMsg (i\<lparr>Files := map (wire_file wireName) (Files i)\<rparr>)
      | IndexUpdateMsg u \<Rightarrow> IndexUpdateMsg (u\<lparr>Files := map (wire_file wireName) (Files u)\<rparr>))"

definition deliverable :: "(string \<Rightarrow> string) \<Rightarrow> FileInfo \<Rightarrow> bool" where
  "deliverable wireName f \<longleftrightarrow> wire_sized f \<and> \<not> truncated f \<and> checkFileInfoConsistency (wire_file wireName f) = Ok ()"

lemma wire_file_simps [simp]:
  "Name (wire_file wireName f) = wireName (Name f)" "Sequence (wire_file wireName f) = Sequence f"
  "Blocks (wire_file wireName f) = Blocks f" "truncated (wire_file wireName f) = False"
  "wire_sized f \<Longrightarrow> wire_sized (wire_file wireName f)"
  by (simp_all add: wire_file_def wire_sized_def fits32_def)

lemma files_delivered:
  assumes "\<forall>f \<in> set fs. deliverable wireName f"
  shows "\<exists>ws. (omap (FileInfo_ToWire False) (rename_files wireName fs) :: (wire_error, bep_file_info list) outcome) = Ok ws \<and>
    map FileInfoFromWire ws = map (wire_file wireName) fs \<and> checkIndexConsistency (map (wire_file wireName) fs) = Ok ()"
  using assms
proof (induction fs)
  case (Cons f fs)
  let ?f = "f\<lparr>Name := wireName (Name f)\<rparr>"
  have f: "wire_sized ?f" "\<not> truncated ?f" "checkFileInfoConsistency (wire_file wireName f) = Ok ()"
    using Cons.prems by (simp_all add: deliverable_def wire_sized_def)
  then obtain w where w: "(FileInfo_ToWire False ?f :: (wire_error, bep_file_info) outcome) = Ok w" by (simp add: FileInfo_ToWire_def)
  have "FileInfoFromWire w = wire_file wireName f"
    unfolding FromWire_ToWire [OF f(1) w] by (simp add: wire_file_def IsInvalid_def)
  then show ?case using Cons w f(3) by (auto simp: rename_files_def)
qed (simp add: rename_files_def)

lemma message_delivered:
  assumes "\<forall>f \<in> set (index_files m). deliverable wireName f" and "dstate d = stateReady"
  shows "\<exists>w. send_message wireName m = Ok w \<and>
    dispatch accept d w = Ok (d\<lparr>calls := calls d @ [case wire_index_message wireName m of IndexMsg i \<Rightarrow> CallIndex i | IndexUpdateMsg u \<Rightarrow> CallIndexUpdate u]\<rparr>)"
proof (cases m)
  case (IndexMsg i)
  then obtain ws where "(omap (FileInfo_ToWire False) (rename_files wireName (Files i)) :: (wire_error, bep_file_info list) outcome) = Ok ws"
      "map FileInfoFromWire ws = map (wire_file wireName) (Files i)" "checkIndexConsistency (map (wire_file wireName) (Files i)) = Ok ()"
    using files_delivered [of "Files i" wireName] assms(1) by (auto simp: index_files_def)
  then show ?thesis
    using assms(2) IndexMsg by (intro exI [of _ "MIndex \<lparr>biFolder = IdxFolder i, biFiles = ws, biLastSequence = LastSequence i\<rparr>"])
      (simp add: send_message_def wireFormat_Index_def Index_toWire_def wire_index_message_def
        dispatch_def indexFromWire_def check_def call_model_def accept_def Let_def)
next
  case (IndexUpdateMsg u)
  then obtain ws where "(omap (FileInfo_ToWire False) (rename_files wireName (Files u)) :: (wire_error, bep_file_info list) outcome) = Ok ws"
      "map FileInfoFromWire ws = map (wire_file wireName) (Files u)" "checkIndexConsistency (map (wire_file wireName) (Files u)) = Ok ()"
    using files_delivered [of "Files u" wireName] assms(1) by (auto simp: index_files_def)
  then show ?thesis
    using assms(2) IndexUpdateMsg by (intro exI [of _ "MIndexUpdate
        \<lparr>biFolder = IdxFolder u, biFiles = ws, biLastSequence = LastSequence u, biPrevSequence = PrevSequence u\<rparr>"])
      (simp add: send_message_def wireFormat_IndexUpdate_def IndexUpdate_toWire_def wire_index_message_def
        dispatch_def indexUpdateFromWire_def check_def call_model_def accept_def Let_def)
qed

lemma index_calls_append: "index_calls (cs @ cs') = index_calls cs @ index_calls cs'"
  by (induction cs rule: index_calls.induct) simp_all

lemma messages_delivered:
  assumes "\<forall>f \<in> set (concat (map index_files ms)). deliverable wireName f" and "dstate d = stateReady"
  shows "\<exists>ws d'. omap (send_message wireName) ms = Ok ws \<and> dispatcherLoop accept d ws = Ok d' \<and>
    index_calls (calls d') = index_calls (calls d) @ map (wire_index_message wireName) ms"
  using assms
proof (induction ms arbitrary: d)
  case (Cons m ms)
  let ?c = "case wire_index_message wireName m of IndexMsg i \<Rightarrow> CallIndex i | IndexUpdateMsg u \<Rightarrow> CallIndexUpdate u"
  let ?d = "d\<lparr>calls := calls d @ [?c]\<rparr>"
  obtain w where w: "send_message wireName m = Ok w" "dispatch accept d w = Ok ?d"
    using message_delivered [of m wireName d] Cons.prems by auto
  have c: "index_calls [?c] = [wire_index_message wireName m]" by (simp split: index_message.split)
  obtain ws d' where "omap (send_message wireName) ms = Ok ws" "dispatcherLoop accept ?d ws = Ok d'"
      "index_calls (calls d') = index_calls (calls ?d) @ map (wire_index_message wireName) ms"
    using Cons.IH [of ?d] Cons.prems by auto
  then show ?case using w c by (simp add: index_calls_append)
qed simp

lemma wire_index_message_simps [simp]:
  "is_update (wire_index_message wireName m) = is_update m"
  "index_files (wire_index_message wireName m) = map (wire_file wireName) (index_files m)"
  by (simp_all add: wire_index_message_def is_update_def index_files_def split: index_message.split)

lemma last_named_wire:
  assumes "fs = as @ f # bs" and "\<forall>e \<in> set bs. Name e \<noteq> Name f"
    and "inj_on (\<lambda>x. NormalizedFilename env (wireName x)) (Name ` set fs)"
  shows "last_named env (wireName (Name f)) (map (wire_file wireName) fs) = Some (wire_file wireName f)"
proof -
  have "last_named env (wireName (Name f)) (map (wire_file wireName) bs) = None"
    using assms by (auto simp: last_named_def find_None_iff inj_on_def)
  then show ?thesis by (simp add: assms(1) last_named_append last_named_Cons)
qed

end
