(* ===== verification/Service_Map.thy ===== *)
theory Service_Map
  imports Go_Prelude
begin

text \<open>
  A map of services that run on a supervisor, \<^verbatim>\<open>lib/model/service_map.go\<close>.  The
  supervisor is the package \<open>suture\<close>; its operations are a record of functions, and what the map
  relies on is \<open>suture_ok\<close>: a service runs under the fresh token that \<open>Add\<close> returns until that token is
  removed.
\<close>

section \<open>The supervisor\<close>

record ('sup, 'tok, 'svc, 'e) suture =
  sup_Add :: "'svc \<Rightarrow> 'sup \<Rightarrow> 'tok \<times> 'sup"
  sup_Remove :: "'tok \<Rightarrow> 'sup \<Rightarrow> 'sup"
  sup_RemoveAndWait :: "'tok \<Rightarrow> 'sup \<Rightarrow> 'e option \<times> 'sup"

text \<open>\<open>running\<close> gives the service of a token, \<open>used\<close> the tokens handed out so far.\<close>

definition suture_ok ::
  "('sup, 'tok, 'svc, 'e) suture \<Rightarrow> ('sup \<Rightarrow> 'tok \<Rightarrow> 'svc option) \<Rightarrow> ('sup \<Rightarrow> 'tok set) \<Rightarrow> bool" where
  "suture_ok L running used \<longleftrightarrow>
     (\<forall>svc sv. case sup_Add L svc sv of (t, sv') \<Rightarrow>
        t \<notin> used sv \<and> used sv' = insert t (used sv) \<and> running sv' = (running sv)(t \<mapsto> svc)) \<and>
     (\<forall>t sv. running (sup_Remove L t sv) = (running sv)(t := None) \<and> used (sup_Remove L t sv) = used sv) \<and>
     (\<forall>t sv. running (snd (sup_RemoveAndWait L t sv)) = (running sv)(t := None) \<and>
        used (snd (sup_RemoveAndWait L t sv)) = used sv)"

section \<open>The map\<close>

record ('k, 'sup, 'tok, 'svc) serviceMap =
  services :: "'k \<Rightarrow> 'svc option"
  tokens :: "'k \<Rightarrow> 'tok option"
  supervisor :: 'sup

datatype 'e svc_error = ErrSvcNotFound | SupervisorError 'e

definition newServiceMap :: "'sup \<Rightarrow> ('k, 'sup, 'tok, 'svc) serviceMap" where
  "newServiceMap sv = \<lparr>services = (\<lambda>_. None), tokens = (\<lambda>_. None), supervisor = sv\<rparr>"

definition Stop ::
  "('sup, 'tok, 'svc, 'e) suture \<Rightarrow> 'k \<Rightarrow> ('k, 'sup, 'tok, 'svc) serviceMap \<Rightarrow> ('k, 'sup, 'tok, 'svc) serviceMap" where
  "Stop L k s = (case tokens s k of Some tok \<Rightarrow> s\<lparr>supervisor := sup_Remove L tok (supervisor s)\<rparr> | None \<Rightarrow> s)"

definition svc_Add ::
  "('sup, 'tok, 'svc, 'e) suture \<Rightarrow> 'k \<Rightarrow> 'svc \<Rightarrow> ('k, 'sup, 'tok, 'svc) serviceMap \<Rightarrow> ('k, 'sup, 'tok, 'svc) serviceMap" where
  "svc_Add L k v s =
     (let s = (case tokens s k of Some tok \<Rightarrow> s\<lparr>supervisor := sup_Remove L tok (supervisor s)\<rparr> | None \<Rightarrow> s);
          s = s\<lparr>services := (services s)(k \<mapsto> v)\<rparr>
      in case sup_Add L v (supervisor s) of (tok, sv) \<Rightarrow> s\<lparr>tokens := (tokens s)(k \<mapsto> tok), supervisor := sv\<rparr>)"

definition svc_Get :: "'k \<Rightarrow> ('k, 'sup, 'tok, 'svc) serviceMap \<Rightarrow> 'svc option" where
  "svc_Get k s = services s k"

text \<open>The channel of the code delivers the first result once the supervisor has removed the service.\<close>

definition StopAndWaitChan ::
  "('sup, 'tok, 'svc, 'e) suture \<Rightarrow> 'k \<Rightarrow> ('k, 'sup, 'tok, 'svc) serviceMap
   \<Rightarrow> 'e svc_error option \<times> ('k, 'sup, 'tok, 'svc) serviceMap" where
  "StopAndWaitChan L k s =
     (case tokens s k of
        Some tok \<Rightarrow> (case sup_RemoveAndWait L tok (supervisor s) of
                       (err, sv) \<Rightarrow> (map_option SupervisorError err, s\<lparr>supervisor := sv\<rparr>))
      | None \<Rightarrow> (Some ErrSvcNotFound, s))"

definition svc_Remove ::
  "('sup, 'tok, 'svc, 'e) suture \<Rightarrow> 'k \<Rightarrow> ('k, 'sup, 'tok, 'svc) serviceMap \<Rightarrow> bool \<times> ('k, 'sup, 'tok, 'svc) serviceMap" where
  "svc_Remove L k s =
     (case (case tokens s k of
              Some tok \<Rightarrow> (True, s\<lparr>supervisor := sup_Remove L tok (supervisor s)\<rparr>)
            | None \<Rightarrow> (services s k \<noteq> None, s)) of
        (found, s) \<Rightarrow> (found, s\<lparr>services := (services s)(k := None), tokens := (tokens s)(k := None)\<rparr>))"

definition RemoveAndWaitChan ::
  "('sup, 'tok, 'svc, 'e) suture \<Rightarrow> 'k \<Rightarrow> ('k, 'sup, 'tok, 'svc) serviceMap
   \<Rightarrow> 'e svc_error option \<times> ('k, 'sup, 'tok, 'svc) serviceMap" where
  "RemoveAndWaitChan L k s =
     (case StopAndWaitChan L k s of (ret, s) \<Rightarrow> (ret, s\<lparr>services := (services s)(k := None)\<rparr>))"

definition RemoveAndWait ::
  "('sup, 'tok, 'svc, 'e) suture \<Rightarrow> 'k \<Rightarrow> ('k, 'sup, 'tok, 'svc) serviceMap
   \<Rightarrow> 'e svc_error option \<times> ('k, 'sup, 'tok, 'svc) serviceMap" where
  "RemoveAndWait L k s = RemoveAndWaitChan L k s"

text \<open>Ranging over the map takes the keys in some order; the function has a state of its own.\<close>

fun svc_Each :: "('k \<Rightarrow> 'svc \<Rightarrow> 's \<Rightarrow> 'e option \<times> 's) \<Rightarrow> ('s \<Rightarrow> 'k \<Rightarrow> 'svc option) \<Rightarrow> 'k list \<Rightarrow> 's \<Rightarrow> 'e option \<times> 's" where
  "svc_Each fn svcs [] st = (None, st)"
| "svc_Each fn svcs (k # ks) st =
     (case svcs st k of
        None \<Rightarrow> svc_Each fn svcs ks st
      | Some v \<Rightarrow> (case fn k v st of (Some e, st) \<Rightarrow> (Some e, st) | (None, st) \<Rightarrow> svc_Each fn svcs ks st))"

section \<open>What runs\<close>

text \<open>
  A service has a token; different keys have different tokens, all handed out before; and what runs
  is registered under the key of its token.
\<close>

definition svc_inv ::
  "('sup \<Rightarrow> 'tok \<Rightarrow> 'svc option) \<Rightarrow> ('sup \<Rightarrow> 'tok set) \<Rightarrow> ('k, 'sup, 'tok, 'svc) serviceMap \<Rightarrow> bool" where
  "svc_inv running used s \<longleftrightarrow>
     (\<forall>k v. services s k = Some v \<longrightarrow> tokens s k \<noteq> None) \<and>
     (\<forall>k t. tokens s k = Some t \<longrightarrow> t \<in> used (supervisor s)) \<and>
     (\<forall>k k' t. tokens s k = Some t \<and> tokens s k' = Some t \<longrightarrow> k = k') \<and>
     (\<forall>t v. running (supervisor s) t = Some v \<longrightarrow> (\<exists>k. tokens s k = Some t \<and> services s k = Some v))"

lemma suture_laws:
  assumes "suture_ok L running used"
  shows "sup_Add L v sv = (t, sv') \<Longrightarrow> t \<notin> used sv \<and> used sv' = insert t (used sv) \<and> running sv' = (running sv)(t \<mapsto> v)"
    and "running (sup_Remove L t sv) = (running sv)(t := None)" and "used (sup_Remove L t sv) = used sv"
    and "sup_RemoveAndWait L t sv = (e, sv') \<Longrightarrow> running sv' = (running sv)(t := None) \<and> used sv' = used sv"
proof -
  show "sup_Add L v sv = (t, sv') \<Longrightarrow> t \<notin> used sv \<and> used sv' = insert t (used sv) \<and> running sv' = (running sv)(t \<mapsto> v)"
    using assms by (auto simp: suture_ok_def dest: spec [where x = v] split: prod.splits)
  show "running (sup_Remove L t sv) = (running sv)(t := None)" "used (sup_Remove L t sv) = used sv"
    using assms by (simp_all add: suture_ok_def)
  show "sup_RemoveAndWait L t sv = (e, sv') \<Longrightarrow> running sv' = (running sv)(t := None) \<and> used sv' = used sv"
    using assms unfolding suture_ok_def by (metis snd_conv)
qed

lemma Stop_inv: "suture_ok L running used \<Longrightarrow> svc_inv running used s \<Longrightarrow> svc_inv running used (Stop L k s)"
  by (auto simp: Stop_def svc_inv_def suture_laws(2, 3) split: option.split)

lemma Stop_off: "suture_ok L running used \<Longrightarrow> tokens (Stop L k s) k = Some t \<Longrightarrow> running (supervisor (Stop L k s)) t = None"
  by (auto simp: Stop_def suture_laws(2) split: option.splits)

lemma svc_Add_inv:
  assumes "suture_ok L running used" and "svc_inv running used s"
  shows "svc_inv running used (svc_Add L k v s)"
proof -
  let ?s = "Stop L k s"
  obtain t sv where add: "sup_Add L v (supervisor ?s) = (t, sv)" by fastforce
  then have s': "svc_Add L k v s = ?s\<lparr>services := (services ?s)(k \<mapsto> v), tokens := (tokens ?s)(k \<mapsto> t), supervisor := sv\<rparr>"
    by (simp add: svc_Add_def Stop_def split: option.splits)
  have inv: "svc_inv running used ?s" by (rule Stop_inv [OF assms])
  note laws = suture_laws(1) [OF assms(1) add]
  note off = Stop_off [OF assms(1), of k s]
  have "\<exists>k'. ((tokens ?s)(k \<mapsto> t)) k' = Some u \<and> ((services ?s)(k \<mapsto> v)) k' = Some w"
    if run: "running sv u = Some w" for u w
  proof (cases "u = t")
    case True
    then show ?thesis using run laws by (intro exI [of _ k]) simp
  next
    case False
    then have "running (supervisor ?s) u = Some w" using run laws by simp
    then obtain k' where "tokens ?s k' = Some u" "services ?s k' = Some w" using inv unfolding svc_inv_def by blast
    moreover have "k' \<noteq> k" using calculation off \<open>running (supervisor ?s) u = Some w\<close> by auto
    ultimately show ?thesis by (intro exI [of _ k']) simp
  qed
  then show ?thesis using inv laws by (auto simp: s' svc_inv_def)
qed

text \<open>A key whose token does not run can be dropped.\<close>

lemma drop_key_inv:
  assumes "svc_inv running used s" and "\<And>t. tokens s k = Some t \<Longrightarrow> running (supervisor s) t = None"
  shows "svc_inv running used (s\<lparr>services := (services s)(k := None)\<rparr>)"
    and "svc_inv running used (s\<lparr>services := (services s)(k := None), tokens := (tokens s)(k := None)\<rparr>)"
proof -
  have other: "\<exists>k'. k' \<noteq> k \<and> tokens s k' = Some t \<and> services s k' = Some v" if run: "running (supervisor s) t = Some v" for t v
  proof -
    obtain k' where "tokens s k' = Some t" "services s k' = Some v" using assms(1) run unfolding svc_inv_def by blast
    then show ?thesis using assms(2) run by (intro exI [of _ k']) auto
  qed
  show "svc_inv running used (s\<lparr>services := (services s)(k := None)\<rparr>)"
    using assms(1) other by (simp add: svc_inv_def) metis
  show "svc_inv running used (s\<lparr>services := (services s)(k := None), tokens := (tokens s)(k := None)\<rparr>)"
    using assms(1) other by (simp add: svc_inv_def) metis
qed

lemma svc_Remove_inv:
  assumes "suture_ok L running used" and "svc_inv running used s"
  shows "svc_inv running used (snd (svc_Remove L k s))"
proof -
  have "snd (svc_Remove L k s) = (Stop L k s)\<lparr>services := (services (Stop L k s))(k := None), tokens := (tokens (Stop L k s))(k := None)\<rparr>"
    by (simp add: svc_Remove_def Stop_def split: option.split)
  then show ?thesis using drop_key_inv(2) [OF Stop_inv [OF assms] Stop_off [OF assms(1)]] by simp
qed

lemma StopAndWait_inv:
  assumes "suture_ok L running used" and "svc_inv running used s"
  shows "svc_inv running used (snd (StopAndWaitChan L k s))"
    and "tokens (snd (StopAndWaitChan L k s)) k = Some t \<Longrightarrow> running (supervisor (snd (StopAndWaitChan L k s))) t = None"
proof -
  have "svc_inv running used (snd (StopAndWaitChan L k s)) \<and>
    (tokens (snd (StopAndWaitChan L k s)) k = Some t \<longrightarrow> running (supervisor (snd (StopAndWaitChan L k s))) t = None)"
  proof (cases "tokens s k")
    case (Some u)
    obtain e sv where rem: "sup_RemoveAndWait L u (supervisor s) = (e, sv)" by fastforce
    then show ?thesis using assms(2) suture_laws(4) [OF assms(1) rem] Some by (auto simp: StopAndWaitChan_def svc_inv_def)
  qed (use assms(2) in \<open>simp add: StopAndWaitChan_def\<close>)
  then show "svc_inv running used (snd (StopAndWaitChan L k s))"
    and "tokens (snd (StopAndWaitChan L k s)) k = Some t \<Longrightarrow> running (supervisor (snd (StopAndWaitChan L k s))) t = None" by blast+
qed

lemma RemoveAndWait_services: "services (snd (RemoveAndWait L k s)) = (services s)(k := None)"
  by (simp add: RemoveAndWait_def RemoveAndWaitChan_def StopAndWaitChan_def split: option.split prod.split)

lemma RemoveAndWait_inv:
  assumes "suture_ok L running used" and "svc_inv running used s"
  shows "svc_inv running used (snd (RemoveAndWait L k s))"
  using drop_key_inv(1) [OF StopAndWait_inv [OF assms]] by (simp add: RemoveAndWait_def RemoveAndWaitChan_def case_prod_unfold)

text \<open>The operations in any order, from an empty map on a supervisor that runs nothing.\<close>

inductive svc_reach ::
  "('sup, 'tok, 'svc, 'e) suture \<Rightarrow> 'sup \<Rightarrow> ('k, 'sup, 'tok, 'svc) serviceMap \<Rightarrow> bool" for L sv where
  new: "svc_reach L sv (newServiceMap sv)"
| add: "svc_reach L sv s \<Longrightarrow> svc_reach L sv (svc_Add L k v s)"
| stop: "svc_reach L sv s \<Longrightarrow> svc_reach L sv (Stop L k s)"
| stop_wait: "svc_reach L sv s \<Longrightarrow> svc_reach L sv (snd (StopAndWaitChan L k s))"
| remove: "svc_reach L sv s \<Longrightarrow> svc_reach L sv (snd (svc_Remove L k s))"
| remove_wait: "svc_reach L sv s \<Longrightarrow> svc_reach L sv (snd (RemoveAndWait L k s))"

lemma reach_inv:
  assumes "svc_reach L sv s" and "suture_ok L running used" and "\<And>t. running sv t = None"
  shows "svc_inv running used s"
  using assms(1)
proof induction
  case new
  then show ?case using assms(3) by (simp add: newServiceMap_def svc_inv_def)
qed (simp_all add: assms(2) svc_Add_inv Stop_inv StopAndWait_inv svc_Remove_inv RemoveAndWait_inv)

text \<open>No service is lost: whatever operations were made, in any order, each service that runs on
  the supervisor is the one that the map has under exactly one key, so that it can be stopped.\<close>

theorem running_services_are_registered:
  assumes "svc_reach L sv s" and "suture_ok L running used" and "\<And>t. running sv t = None"
    and "running (supervisor s) t = Some v"
  shows "\<exists>!k. tokens s k = Some t \<and> services s k = Some v"
  using reach_inv [OF assms(1-3)] assms(4) unfolding svc_inv_def by blast

text \<open>A supervisor that counts its tokens.\<close>

definition toy_suture :: "(nat \<times> (nat \<Rightarrow> 's option), nat, 's, string) suture" where
  "toy_suture = \<lparr>sup_Add = (\<lambda>v (n, m). (n, (Suc n, m(n \<mapsto> v)))), sup_Remove = (\<lambda>t (n, m). (n, m(t := None))),
     sup_RemoveAndWait = (\<lambda>t (n, m). (if m t = None then Some ''unknown'' else None, (n, m(t := None))))\<rparr>"

lemma toy_suture_ok: "suture_ok toy_suture snd (\<lambda>(n, m). {..<n})"
  by (auto simp: suture_ok_def toy_suture_def)

theorem running_services_are_registered_witness:
  "\<exists>!k. tokens (svc_Add toy_suture ''f'' True (newServiceMap (0, \<lambda>_. None))) k = Some 0 \<and>
     services (svc_Add toy_suture ''f'' True (newServiceMap (0, \<lambda>_. None))) k = Some True"
  by (rule running_services_are_registered [OF svc_reach.add [OF svc_reach.new] toy_suture_ok])
     (simp_all add: svc_Add_def newServiceMap_def toy_suture_def)

text \<open>\<open>RemoveAndWait\<close> keeps the token of the service it removed: asked a second time for a key that
  has no service any more, it does not say that there is none, but passes on what the supervisor says
  about the old token.\<close>

theorem removed_service_keeps_its_token:
  assumes "tokens s k = Some tok"
  shows "services (snd (RemoveAndWait L k s)) k = None \<and>
    fst (RemoveAndWait L k (snd (RemoveAndWait L k s))) =
      map_option SupervisorError (fst (sup_RemoveAndWait L tok (snd (sup_RemoveAndWait L tok (supervisor s)))))"
  using assms by (simp add: RemoveAndWait_def RemoveAndWaitChan_def StopAndWaitChan_def split: prod.split)

theorem removed_service_keeps_its_token_witness:
  "fst (RemoveAndWait toy_suture ''f'' (snd (RemoveAndWait toy_suture ''f'' (svc_Add toy_suture ''f'' True (newServiceMap (0, \<lambda>_. None)))))) =
     Some (SupervisorError ''unknown'')"
  using removed_service_keeps_its_token [of "svc_Add toy_suture ''f'' True (newServiceMap (0, \<lambda>_. None))" "''f''" 0 toy_suture]
  by (simp add: svc_Add_def newServiceMap_def toy_suture_def)

end
