(* ===== verification/Index_Registry.thy ===== *)
theory Index_Registry
  imports Index_Receive Service_Map
begin

text \<open>
  The index handlers of a connection, one per folder, \<open>indexHandlerRegistry\<close> of
  \<^verbatim>\<open>lib/model/indexhandler.go\<close>.  Handlers are objects that the registry pauses and resumes
  while they run, so the service map holds their addresses and a store holds the handlers.  The
  folder's database is passed along; each operation has its lock for its whole body.
\<close>

section \<open>State\<close>

record folder_cfg =
  cfgID :: string
  cfgReceiveEncrypted :: bool
  cfgSharedWith :: bool
  cfgPaused :: bool

type_synonym addr = nat

record ('sup, 'tok) registry =
  indexHandlers :: "(string, 'sup, 'tok, addr) serviceMap"
  startInfos :: "string \<Rightarrow> start_info option"
  folderStates :: "string \<Rightarrow> folder_cfg option"
  handlers :: "index_handler list"

text \<open>What an operation needs from outside: the supervisor, the database library, the device at the
  other end and the random number for a new index ID.\<close>

record ('sup, 'tok, 'e) registry_env =
  rSuture :: "('sup, 'tok, addr, 'e) suture"
  rDB :: db_env
  rDevice :: bytes
  rNewID :: uint64

definition newIndexHandlerRegistry :: "'sup \<Rightarrow> ('sup, 'tok) registry" where
  "newIndexHandlerRegistry sv =
     \<lparr>indexHandlers = newServiceMap sv, startInfos = (\<lambda>_. None), folderStates = (\<lambda>_. None), handlers = []\<rparr>"

section \<open>Operations\<close>

definition removeHandler :: "('sup, 'tok, 'e) registry_env \<Rightarrow> string \<Rightarrow> ('sup, 'tok) registry \<Rightarrow> ('sup, 'tok) registry" where
  "removeHandler env folder r = r\<lparr>indexHandlers := snd (RemoveAndWait (rSuture env) folder (indexHandlers r))\<rparr>"

text \<open>The error, the registry and the folder's database.\<close>

definition startLocked ::
  "('sup, 'tok, 'e) registry_env \<Rightarrow> folder_cfg \<Rightarrow> start_info \<Rightarrow> ('sup, 'tok) registry \<Rightarrow> folder_db
   \<Rightarrow> index_error option \<times> ('sup, 'tok) registry \<times> folder_db" where
  "startLocked env folder startInfo r db =
     (let r = removeHandler env (cfgID folder) r;
          r = r\<lparr>startInfos := (startInfos r)(cfgID folder := None)\<rparr>
      in case newIndexHandler (rDB env) (rNewID env) (rDevice env) (cfgID folder) (cfgReceiveEncrypted folder) startInfo db of
           Ok (is, db) \<Rightarrow>
             (None, r\<lparr>handlers := handlers r @ [is],
                     indexHandlers := svc_Add (rSuture env) (cfgID folder) (length (handlers r)) (indexHandlers r)\<rparr>, db)
         | Err e \<Rightarrow> (Some e, r, db)
         | Panic \<Rightarrow> (None, r, db))"

definition AddIndexInfo ::
  "('sup, 'tok, 'e) registry_env \<Rightarrow> string \<Rightarrow> start_info \<Rightarrow> ('sup, 'tok) registry \<Rightarrow> folder_db \<Rightarrow> ('sup, 'tok) registry \<times> folder_db" where
  "AddIndexInfo env folder startInfo r db =
     (let r = removeHandler env folder r
      in case folderStates r folder of
           None \<Rightarrow> (r\<lparr>startInfos := (startInfos r)(folder \<mapsto> startInfo)\<rparr>, db)
         | Some cfg \<Rightarrow> snd (startLocked env cfg startInfo r db))"

definition registry_Remove :: "('sup, 'tok, 'e) registry_env \<Rightarrow> string \<Rightarrow> ('sup, 'tok) registry \<Rightarrow> ('sup, 'tok) registry" where
  "registry_Remove env folder r = (let r = removeHandler env folder r in r\<lparr>startInfos := (startInfos r)(folder := None)\<rparr>)"

text \<open>Both loops range over maps; \<open>order\<close> is the order of the first.\<close>

definition RemoveAllExcept ::
  "('sup, 'tok, 'e) registry_env \<Rightarrow> string list \<Rightarrow> (string \<Rightarrow> bool) \<Rightarrow> ('sup, 'tok) registry \<Rightarrow> ('sup, 'tok) registry" where
  "RemoveAllExcept env order keep r =
     (let r = snd (svc_Each (\<lambda>folder _ r. (None :: unit option, if \<not> keep folder then removeHandler env folder r else r))
                    (\<lambda>r. services (indexHandlers r)) order r)
      in r\<lparr>startInfos := (\<lambda>folder. if keep folder then startInfos r folder else None)\<rparr>)"

definition update_handler :: "addr \<Rightarrow> (index_handler \<Rightarrow> index_handler) \<Rightarrow> ('sup, 'tok) registry \<Rightarrow> ('sup, 'tok) registry" where
  "update_handler a f r = r\<lparr>handlers := (handlers r)[a := f (handlers r ! a)]\<rparr>"

definition folderPausedLocked :: "string \<Rightarrow> ('sup, 'tok) registry \<Rightarrow> ('sup, 'tok) registry" where
  "folderPausedLocked folder r =
     (let r = r\<lparr>folderStates := (folderStates r)(folder := None)\<rparr>
      in case svc_Get folder (indexHandlers r) of
           Some a \<Rightarrow> update_handler a handler_pause r
         | None \<Rightarrow> r)"

definition folderRunningLocked ::
  "('sup, 'tok, 'e) registry_env \<Rightarrow> folder_cfg \<Rightarrow> ('sup, 'tok) registry \<Rightarrow> folder_db \<Rightarrow> ('sup, 'tok) registry \<times> folder_db" where
  "folderRunningLocked env folder r db =
     (let r = r\<lparr>folderStates := (folderStates r)(cfgID folder \<mapsto> folder)\<rparr>;
          is = svc_Get (cfgID folder) (indexHandlers r)
      in case startInfos r (cfgID folder) of
           Some info \<Rightarrow>
             (let r = (if is \<noteq> None then removeHandler env (cfgID folder) r else r)
              in case startLocked env folder info r db of
                   (_, r, db) \<Rightarrow> (r\<lparr>startInfos := (startInfos r)(cfgID folder := None)\<rparr>, db))
         | None \<Rightarrow> (case is of Some a \<Rightarrow> (update_handler a handler_resume r, db) | None \<Rightarrow> (r, db)))"

definition RegisterFolderState ::
  "('sup, 'tok, 'e) registry_env \<Rightarrow> folder_cfg \<Rightarrow> ('sup, 'tok) registry \<Rightarrow> folder_db \<Rightarrow> ('sup, 'tok) registry \<times> folder_db" where
  "RegisterFolderState env folder r db =
     (if \<not> cfgSharedWith folder then (registry_Remove env (cfgID folder) r, db)
      else if cfgPaused folder then (folderPausedLocked (cfgID folder) r, db)
      else folderRunningLocked env folder r db)"

definition ReceiveIndex ::
  "('sup, 'tok, 'e) registry_env \<Rightarrow> string \<Rightarrow> FileInfo list \<Rightarrow> bool \<Rightarrow> int \<Rightarrow> int \<Rightarrow> ('sup, 'tok) registry \<Rightarrow> deviceDownloadState \<Rightarrow> folder_db
   \<Rightarrow> (receive_error, receive_error option \<times> anomaly list \<times> deviceDownloadState \<times> folder_db) outcome" where
  "ReceiveIndex env folder fs update prevSequence lastSequence r downloads db =
     (case svc_Get folder (indexHandlers r) of
        None \<Rightarrow> Ok (Some ErrFolderMissing, [], downloads, db)
      | Some a \<Rightarrow> receive (rDB env) (rDevice env) fs update prevSequence lastSequence (handlers r ! a) downloads db)"

section \<open>Invariant\<close>

text \<open>
  The handler of a folder is paused exactly when the folder is not running; a folder that waits for
  its handler to be started is not running and has none; folders do not share a handler.
\<close>

definition handler_of :: "('sup, 'tok) registry \<Rightarrow> string \<Rightarrow> index_handler option" where
  "handler_of r folder = map_option (\<lambda>a. handlers r ! a) (services (indexHandlers r) folder)"

definition registry_inv :: "('sup, 'tok) registry \<Rightarrow> bool" where
  "registry_inv r \<longleftrightarrow>
     (\<forall>f a. services (indexHandlers r) f = Some a \<longrightarrow> a < length (handlers r) \<and> (paused (handlers r ! a) \<longleftrightarrow> folderStates r f = None)) \<and>
     (\<forall>f g a. services (indexHandlers r) f = Some a \<and> services (indexHandlers r) g = Some a \<longrightarrow> f = g) \<and>
     (\<forall>f. startInfos r f \<noteq> None \<longrightarrow> services (indexHandlers r) f = None \<and> folderStates r f = None) \<and>
     (\<forall>f cfg. folderStates r f = Some cfg \<longrightarrow> cfgID cfg = f)"

lemma svc_Add_services [simp]: "services (svc_Add L k v s) = (services s)(k \<mapsto> v)"
  by (simp add: svc_Add_def Let_def split: option.split prod.split)

lemma removeHandler_simps [simp]:
  "services (indexHandlers (removeHandler env f r)) = (services (indexHandlers r))(f := None)"
  "startInfos (removeHandler env f r) = startInfos r" "folderStates (removeHandler env f r) = folderStates r"
  "handlers (removeHandler env f r) = handlers r"
  by (simp_all add: removeHandler_def RemoveAndWait_services)

lemma registry_invI:
  assumes "\<And>f a. services (indexHandlers r) f = Some a \<Longrightarrow> a < length (handlers r)"
    and "\<And>f a. services (indexHandlers r) f = Some a \<Longrightarrow> paused (handlers r ! a) \<longleftrightarrow> folderStates r f = None"
    and "\<And>f g a. services (indexHandlers r) f = Some a \<Longrightarrow> services (indexHandlers r) g = Some a \<Longrightarrow> f = g"
    and "\<And>f i. startInfos r f = Some i \<Longrightarrow> services (indexHandlers r) f = None"
    and "\<And>f i. startInfos r f = Some i \<Longrightarrow> folderStates r f = None"
    and "\<And>f cfg. folderStates r f = Some cfg \<Longrightarrow> cfgID cfg = f"
  shows "registry_inv r"
  unfolding registry_inv_def
proof (intro conjI allI impI)
  show "f = g" if "services (indexHandlers r) f = Some a \<and> services (indexHandlers r) g = Some a" for f g a
    using that assms(3) by blast
  show "services (indexHandlers r) f = None" "folderStates r f = None" if "startInfos r f \<noteq> None" for f
    using that assms(4, 5) by blast+
qed (fact assms)+

lemma registry_invD:
  assumes "registry_inv r"
  shows "services (indexHandlers r) f = Some a \<Longrightarrow> a < length (handlers r)"
    and "services (indexHandlers r) f = Some a \<Longrightarrow> paused (handlers r ! a) \<longleftrightarrow> folderStates r f = None"
    and "services (indexHandlers r) f = Some a \<Longrightarrow> services (indexHandlers r) g = Some a \<Longrightarrow> f = g"
    and "startInfos r f = Some i \<Longrightarrow> services (indexHandlers r) f = None"
    and "startInfos r f = Some i \<Longrightarrow> folderStates r f = None"
    and "folderStates r f = Some cfg \<Longrightarrow> cfgID cfg = f"
  using assms unfolding registry_inv_def by blast+

lemma fewer_inv:
  assumes "registry_inv r" and "handlers r' = handlers r" and "folderStates r' = folderStates r"
    and "\<And>f a. services (indexHandlers r') f = Some a \<Longrightarrow> services (indexHandlers r) f = Some a"
    and "\<And>f i. startInfos r' f = Some i \<Longrightarrow> startInfos r f = Some i"
  shows "registry_inv r'"
proof (rule registry_invI)
  note inv = registry_invD [OF assms(1)]
  show "a < length (handlers r')" "paused (handlers r' ! a) \<longleftrightarrow> folderStates r' f = None"
    if "services (indexHandlers r') f = Some a" for f a using inv(1, 2) [OF assms(4) [OF that]] assms(2, 3) by simp_all
  show "f = g" if "services (indexHandlers r') f = Some a" "services (indexHandlers r') g = Some a" for f g a
    using inv(3) assms(4) that by blast
  show "services (indexHandlers r') f = None" "folderStates r' f = None" if "startInfos r' f = Some i" for f i
    using inv(4, 5) [OF assms(5) [OF that]] assms(3, 4) by (metis option.exhaust option.distinct(1), simp)
  show "cfgID cfg = f" if "folderStates r' f = Some cfg" for f cfg using inv(6) assms(3) that by simp
qed

lemma remove_inv: "registry_inv r \<Longrightarrow> registry_inv (removeHandler env f r)"
  by (erule fewer_inv) (auto split: if_splits)

lemma forget_inv: "registry_inv r \<Longrightarrow> registry_inv (r\<lparr>startInfos := (startInfos r)(f := None)\<rparr>)"
  by (erule fewer_inv) (auto split: if_splits)

lemma registry_Remove_inv: "registry_inv r \<Longrightarrow> registry_inv (registry_Remove env f r)"
  by (erule fewer_inv) (auto simp: registry_Remove_def Let_def split: if_splits)

lemma newIndexHandler_fresh: "newIndexHandler env newID dev folder enc info db = Ok (h, db') \<Longrightarrow> \<not> paused h"
  by (auto simp: newIndexHandler_def Let_def)

lemma start_inv:
  assumes "registry_inv (removeHandler env (cfgID cfg) (r\<lparr>startInfos := (startInfos r)(cfgID cfg := None)\<rparr>))"
    and "folderStates r (cfgID cfg) = Some cfg"
  shows "registry_inv (fst (snd (startLocked env cfg info r db)))"
proof -
  define r0 where "r0 = removeHandler env (cfgID cfg) r\<lparr>startInfos := (startInfos (removeHandler env (cfgID cfg) r))(cfgID cfg := None)\<rparr>"
  have inv: "registry_inv r0" by (rule fewer_inv [OF assms(1)]) (simp_all add: r0_def)
  have r0: "services (indexHandlers r0) (cfgID cfg) = None" "startInfos r0 (cfgID cfg) = None" "folderStates r0 (cfgID cfg) = Some cfg"
    using assms(2) by (simp_all add: r0_def)
  show ?thesis
  proof (cases "newIndexHandler (rDB env) (rNewID env) (rDevice env) (cfgID cfg) (cfgReceiveEncrypted cfg) info db")
    case (Ok x)
    obtain h db' where x: "x = (h, db')" by (cases x) auto
    have new: "\<not> paused h" using newIndexHandler_fresh Ok x by blast
    let ?r = "r0\<lparr>handlers := handlers r0 @ [h], indexHandlers := svc_Add (rSuture env) (cfgID cfg) (length (handlers r0)) (indexHandlers r0)\<rparr>"
    note D = registry_invD [OF inv]
    have "registry_inv ?r"
    proof (rule registry_invI)
      show "a < length (handlers ?r)" "paused (handlers ?r ! a) \<longleftrightarrow> folderStates ?r f = None"
        if "services (indexHandlers ?r) f = Some a" for f a
        using that D(1, 2) [of f a] r0 new by (auto simp: nth_append split: if_splits)
      show "f = g" if "services (indexHandlers ?r) f = Some a" "services (indexHandlers ?r) g = Some a" for f g a
        using that D(1) [of f a] D(1) [of g a] D(3) [of f a g] by (auto split: if_splits)
      show "services (indexHandlers ?r) f = None" "folderStates ?r f = None" if "startInfos ?r f = Some i" for f i
        using that D(4, 5) [of f i] r0 by auto
      show "cfgID c = f" if "folderStates ?r f = Some c" for f c using that D(6) by simp
    qed
    then show ?thesis by (simp add: startLocked_def Ok x Let_def r0_def)
  qed (use inv in \<open>simp_all add: startLocked_def Let_def r0_def\<close>)
qed

text \<open>Changing the state of a folder together with its handler.\<close>

lemma update_handler_inv:
  assumes "registry_inv r" and "\<And>h. paused (f h) \<longleftrightarrow> st = None" and "\<And>cfg. st = Some cfg \<Longrightarrow> cfgID cfg = k" and "startInfos r k = None \<or> st = None"
  shows "registry_inv (case services (indexHandlers r) k of
     Some a \<Rightarrow> update_handler a f (r\<lparr>folderStates := (folderStates r)(k := st)\<rparr>) | None \<Rightarrow> r\<lparr>folderStates := (folderStates r)(k := st)\<rparr>)"
proof -
  let ?r = "case services (indexHandlers r) k of
     Some a \<Rightarrow> update_handler a f (r\<lparr>folderStates := (folderStates r)(k := st)\<rparr>) | None \<Rightarrow> r\<lparr>folderStates := (folderStates r)(k := st)\<rparr>"
  note D = registry_invD [OF assms(1)]
  have same: "services (indexHandlers ?r) = services (indexHandlers r)" "startInfos ?r = startInfos r"
      "folderStates ?r = (folderStates r)(k := st)" "length (handlers ?r) = length (handlers r)"
    by (simp_all add: update_handler_def split: option.split)
  show ?thesis
  proof (rule registry_invI)
    show "a < length (handlers ?r)" if "services (indexHandlers ?r) g = Some a" for g a using D(1) that same by simp
    show "paused (handlers ?r ! a) \<longleftrightarrow> folderStates ?r g = None" if g: "services (indexHandlers ?r) g = Some a" for g a
    proof (cases "g = k")
      case True
      then have "handlers ?r ! a = f (handlers r ! a)" using g D(1) [of k a] same by (simp add: update_handler_def)
      then show ?thesis using True assms(2) same by simp
    next
      case False
      then have "services (indexHandlers r) k \<noteq> Some a" using g D(3) [of g a k] same by auto
      then have "handlers ?r ! a = handlers r ! a"
        by (cases "services (indexHandlers r) k") (auto simp: update_handler_def intro: nth_list_update_neq)
      then show ?thesis using False g D(2) [of g a] same by simp
    qed
    show "g = g'" if "services (indexHandlers ?r) g = Some a" "services (indexHandlers ?r) g' = Some a" for g g' a
      using D(3) that same by simp
    show "services (indexHandlers ?r) g = None" "folderStates ?r g = None" if "startInfos ?r g = Some i" for g i
      using D(4, 5) [of g i] that assms(4) same by auto
    show "cfgID cfg = g" if "folderStates ?r g = Some cfg" for g cfg using D(6) [of g cfg] that assms(3) same by (auto split: if_splits)
  qed
qed

lemma AddIndexInfo_inv: "registry_inv r \<Longrightarrow> registry_inv (fst (AddIndexInfo env f info r db))"
proof -
  assume inv: "registry_inv r"
  show ?thesis
  proof (cases "folderStates r f")
    case None
    let ?r = "(removeHandler env f r)\<lparr>startInfos := (startInfos r)(f \<mapsto> info)\<rparr>"
    have "registry_inv ?r"
      by (rule registry_invI) (use registry_invD [OF inv] None in \<open>auto split: if_splits\<close>)
    then show ?thesis using None by (simp add: AddIndexInfo_def Let_def)
  next
    case (Some cfg)
    then have id: "cfgID cfg = f" using inv by (simp add: registry_inv_def)
    have "registry_inv (fst (snd (startLocked env cfg info (removeHandler env f r) db)))"
    proof (rule start_inv)
      show "registry_inv (removeHandler env (cfgID cfg) ((removeHandler env f r)\<lparr>startInfos := (startInfos (removeHandler env f r))(cfgID cfg := None)\<rparr>))"
        by (intro remove_inv forget_inv inv)
    qed (use Some id in simp)
    then show ?thesis using Some by (simp add: AddIndexInfo_def Let_def)
  qed
qed

lemma each_inv:
  "registry_inv r \<Longrightarrow> registry_inv (snd (svc_Each (\<lambda>folder _ r. (None :: unit option, if \<not> keep folder then removeHandler env folder r else r))
     (\<lambda>r. services (indexHandlers r)) order r))"
  by (induction order arbitrary: r) (auto simp: remove_inv split: option.split)

lemma RemoveAllExcept_inv: "registry_inv r \<Longrightarrow> registry_inv (RemoveAllExcept env order keep r)"
  unfolding RemoveAllExcept_def Let_def by (erule fewer_inv [OF each_inv]) (auto split: if_splits)

lemma paused_inv: "registry_inv r \<Longrightarrow> registry_inv (folderPausedLocked f r)"
  using update_handler_inv [of r handler_pause None f]
  by (simp add: folderPausedLocked_def Let_def svc_Get_def handler_pause_def split: option.split)

lemma running_inv:
  assumes "registry_inv r"
  shows "registry_inv (fst (folderRunningLocked env cfg r db))"
proof (cases "startInfos r (cfgID cfg)")
  case None
  have "registry_inv (case services (indexHandlers r) (cfgID cfg) of
      Some a \<Rightarrow> update_handler a handler_resume (r\<lparr>folderStates := (folderStates r)(cfgID cfg \<mapsto> cfg)\<rparr>)
    | None \<Rightarrow> r\<lparr>folderStates := (folderStates r)(cfgID cfg \<mapsto> cfg)\<rparr>)"
    by (rule update_handler_inv [OF assms]) (simp_all add: handler_resume_def None)
  then show ?thesis using None by (simp add: folderRunningLocked_def Let_def svc_Get_def split: option.splits)
next
  case (Some info)
  let ?r = "r\<lparr>folderStates := (folderStates r)(cfgID cfg \<mapsto> cfg)\<rparr>"
  have none: "services (indexHandlers r) (cfgID cfg) = None" using assms Some by (simp add: registry_inv_def)
  have "registry_inv (fst (snd (startLocked env cfg info ?r db)))"
  proof (rule start_inv)
    note D = registry_invD [OF assms]
    show "registry_inv (removeHandler env (cfgID cfg) (?r\<lparr>startInfos := (startInfos ?r)(cfgID cfg := None)\<rparr>))"
      by (rule registry_invI) (use D none in \<open>auto split: if_splits\<close>)
  qed simp
  from forget_inv [OF this] show ?thesis
    using Some none by (simp add: folderRunningLocked_def Let_def svc_Get_def case_prod_unfold)
qed

text \<open>The operations in any order.\<close>

inductive registry_reach :: "('sup, 'tok, 'e) registry_env \<Rightarrow> 'sup \<Rightarrow> ('sup, 'tok) registry \<Rightarrow> bool" for env sv where
  new: "registry_reach env sv (newIndexHandlerRegistry sv)"
| add: "registry_reach env sv r \<Longrightarrow> registry_reach env sv (fst (AddIndexInfo env f info r db))"
| remove: "registry_reach env sv r \<Longrightarrow> registry_reach env sv (registry_Remove env f r)"
| remove_all: "registry_reach env sv r \<Longrightarrow> registry_reach env sv (RemoveAllExcept env order keep r)"
| register: "registry_reach env sv r \<Longrightarrow> registry_reach env sv (fst (RegisterFolderState env cfg r db))"

lemma registry_reach_inv: "registry_reach env sv r \<Longrightarrow> registry_inv r"
proof (induction rule: registry_reach.induct)
  case new
  then show ?case by (simp add: newIndexHandlerRegistry_def newServiceMap_def registry_inv_def)
next
  case (register r cfg db)
  then show ?case by (auto simp: RegisterFolderState_def registry_Remove_inv paused_inv running_inv)
qed (simp_all add: AddIndexInfo_inv RemoveAllExcept_inv registry_Remove_inv)

text \<open>In every reachable state of the registry the handler of a folder is paused exactly when the
  folder is not running, and a folder that still waits for its handler is not running and has none; so
  an index for a folder is refused as paused exactly when the folder has a handler and does not run.\<close>

theorem index_refused_only_when_paused:
  assumes "registry_reach env sv r"
  shows "(startInfos r folder \<noteq> None \<longrightarrow> handler_of r folder = None \<and> folderStates r folder = None) \<and>
    (ReceiveIndex env folder fs update prev lastSeq r dl db = Ok (Some ErrFolderPaused, [], dl, db) \<longleftrightarrow>
       handler_of r folder \<noteq> None \<and> folderStates r folder = None)"
proof -
  have inv: "registry_inv r" by (rule registry_reach_inv [OF assms])
  have "receive (rDB env) (rDevice env) fs update prev lastSeq h dl db = Ok (Some ErrFolderPaused, [], dl, db) \<longleftrightarrow> paused h" for h
    by (auto simp: receive_def Let_def split: outcome.splits)
  then show ?thesis
    using inv by (auto simp: ReceiveIndex_def svc_Get_def handler_of_def registry_inv_def split: option.split)
qed

text \<open>It does not matter whether the index information of the other device or the start of the
  folder comes first: in any reachable state where the folder does not run, both orders lead to the
  same handler, which is not paused and starts where the information says, and to the same database.\<close>

theorem start_order_does_not_matter:
  assumes "registry_reach env sv r" and "folderStates r (cfgID cfg) = None" and "cfgSharedWith cfg" and "\<not> cfgPaused cfg"
    and "newIndexHandler (rDB env) (rNewID env) (rDevice env) (cfgID cfg) (cfgReceiveEncrypted cfg) info db = Ok (h, db')"
    and "startInfos r (cfgID cfg) = None"
  shows "(case RegisterFolderState env cfg r db of (r1, db1) \<Rightarrow>
      case AddIndexInfo env (cfgID cfg) info r1 db1 of (r2, db2) \<Rightarrow> handler_of r2 (cfgID cfg) = Some h \<and> db2 = db') \<and>
    (case AddIndexInfo env (cfgID cfg) info r db of (r1, db1) \<Rightarrow>
      case RegisterFolderState env cfg r1 db1 of (r2, db2) \<Rightarrow> handler_of r2 (cfgID cfg) = Some h \<and> db2 = db')"
proof
  show "case RegisterFolderState env cfg r db of (r1, db1) \<Rightarrow>
      case AddIndexInfo env (cfgID cfg) info r1 db1 of (r2, db2) \<Rightarrow> handler_of r2 (cfgID cfg) = Some h \<and> db2 = db'"
    using assms(3-6) by (cases "services (indexHandlers r) (cfgID cfg)")
      (simp_all add: RegisterFolderState_def folderRunningLocked_def AddIndexInfo_def startLocked_def svc_Get_def Let_def
        update_handler_def handler_of_def nth_append)
  show "case AddIndexInfo env (cfgID cfg) info r db of (r1, db1) \<Rightarrow>
      case RegisterFolderState env cfg r1 db1 of (r2, db2) \<Rightarrow> handler_of r2 (cfgID cfg) = Some h \<and> db2 = db'"
    using assms(2-6)
    by (simp add: RegisterFolderState_def folderRunningLocked_def AddIndexInfo_def startLocked_def svc_Get_def Let_def
        handler_of_def nth_append)
qed

text \<open>A registry on the counting supervisor, and a folder that is not paused.\<close>

definition sample_registry_env :: "(nat \<times> (nat \<Rightarrow> addr option), nat, string) registry_env" where
  "sample_registry_env = \<lparr>rSuture = toy_suture, rDB = sample_env, rDevice = [1], rNewID = 7\<rparr>"

definition sample_registry :: "(nat \<times> (nat \<Rightarrow> addr option), nat) registry" where
  "sample_registry = newIndexHandlerRegistry (0, \<lambda>_. None)"

lemma sample_registry_reach: "registry_reach sample_registry_env (0, \<lambda>_. None) sample_registry"
  unfolding sample_registry_def by (rule registry_reach.new)

definition sample_cfg :: folder_cfg where
  "sample_cfg = \<lparr>cfgID = ''f'', cfgReceiveEncrypted = False, cfgSharedWith = True, cfgPaused = False\<rparr>"

definition sample_info :: start_info where
  "sample_info = \<lparr>localIndexID = 0, localMaxSequence = 0, remoteIndexID = 0\<rparr>"

theorem index_refused_only_when_paused_witness:
  "let r = fst (RegisterFolderState sample_registry_env sample_cfg sample_registry (new_folder_db False))
   in ReceiveIndex sample_registry_env ''f'' [] True 0 0 r newDeviceDownloadState (new_folder_db False) \<noteq>
        Ok (Some ErrFolderPaused, [], newDeviceDownloadState, new_folder_db False)"
proof -
  let ?r = "fst (RegisterFolderState sample_registry_env sample_cfg sample_registry (new_folder_db False))"
  have "folderStates ?r ''f'' \<noteq> None"
    by (simp add: RegisterFolderState_def sample_cfg_def folderRunningLocked_def sample_registry_def newIndexHandlerRegistry_def newServiceMap_def svc_Get_def)
  then show ?thesis
    using index_refused_only_when_paused [OF registry_reach.register [OF sample_registry_reach], of sample_cfg
        "new_folder_db False" "''f''" "[]" True 0 0 newDeviceDownloadState "new_folder_db False"] by (simp add: Let_def)
qed

theorem start_order_does_not_matter_witness:
  "\<exists>h db'. \<not> paused h \<and> (case AddIndexInfo sample_registry_env ''f'' sample_info sample_registry (new_folder_db False) of (r1, db1) \<Rightarrow>
     case RegisterFolderState sample_registry_env sample_cfg r1 db1 of (r2, db2) \<Rightarrow> handler_of r2 ''f'' = Some h \<and> db2 = db')"
proof -
  have "case newIndexHandler sample_env 7 [1] ''f'' False sample_info (new_folder_db False) of Ok _ \<Rightarrow> True | _ \<Rightarrow> False" by code_simp
  then obtain h db' where h: "newIndexHandler sample_env 7 [1] ''f'' False sample_info (new_folder_db False) = Ok (h, db')"
    by (auto split: outcome.splits)
  have "folderStates sample_registry (cfgID sample_cfg) = None" "cfgSharedWith sample_cfg" "\<not> cfgPaused sample_cfg"
      "startInfos sample_registry (cfgID sample_cfg) = None"
    by (simp_all add: sample_registry_def newIndexHandlerRegistry_def sample_cfg_def)
  then show ?thesis
    using start_order_does_not_matter [OF sample_registry_reach, of sample_cfg sample_info "new_folder_db False" h db']
      h newIndexHandler_fresh [OF h] by (intro exI [of _ h] exI [of _ db']) (simp add: sample_cfg_def sample_registry_env_def)
qed

end
