(* ===== verification/Job_Queue.thy ===== *)
theory Job_Queue
  imports Go_Prelude "HOL-Library.Multiset"
begin

text \<open>
  The queue of files to pull, \<^verbatim>\<open>lib/model/queue.go\<close>.  Each method holds the lock for its
  whole body.  A page that is asked for is given in machine integers.
\<close>

section \<open>The queue\<close>

record jobQueueEntry =
  jname :: string
  jsize :: int
  jmodified :: int

record jobQueue =
  progress :: "string list"
  queued :: "jobQueueEntry list"

definition newJobQueue :: jobQueue where
  "newJobQueue = \<lparr>progress = [], queued = []\<rparr>"

definition Push :: "string \<Rightarrow> int \<Rightarrow> int \<Rightarrow> jobQueue \<Rightarrow> jobQueue" where
  "Push file sz unixNano q = q\<lparr>queued := queued q @ [\<lparr>jname = file, jsize = sz, jmodified = unixNano\<rparr>]\<rparr>"

definition Pop :: "jobQueue \<Rightarrow> string option \<times> jobQueue" where
  "Pop q =
     (if length (queued q) = 0 then (None, q)
      else
        let f = jname (queued q ! 0);
            q = q\<lparr>queued := drop 1 (queued q)\<rparr>
        in (Some f, q\<lparr>progress := progress q @ [f]\<rparr>))"

text \<open>The first position from \<open>i\<close> on with a property.\<close>

fun index_of :: "('a \<Rightarrow> bool) \<Rightarrow> 'a list \<Rightarrow> nat \<Rightarrow> nat option" where
  "index_of P [] i = None"
| "index_of P (x # xs) i = (if P x then Some i else index_of P xs (i + 1))"

text \<open>\<open>copy(q.queued[1:i+1], q.queued[0:])\<close> and the assignment to the front.\<close>

definition BringToFront :: "string \<Rightarrow> jobQueue \<Rightarrow> jobQueue" where
  "BringToFront filename q =
     (case index_of (\<lambda>cur. jname cur = filename) (queued q) 0 of
        None \<Rightarrow> q
      | Some i \<Rightarrow>
          if 0 < i
          then let cur = queued q ! i
               in q\<lparr>queued := (take 1 (queued q) @ take i (queued q) @ drop (i + 1) (queued q))[0 := cur]\<rparr>
          else q)"

definition Done :: "string \<Rightarrow> jobQueue \<Rightarrow> jobQueue" where
  "Done file q =
     (case index_of (\<lambda>f. f = file) (progress q) 0 of
        None \<Rightarrow> q
      | Some i \<Rightarrow> q\<lparr>progress := take (length (progress q) - 1)
                     (take i (progress q) @ drop (i + 1) (progress q) @ drop (length (progress q) - 1) (progress q))\<rparr>)"

text \<open>A slice of a slice; a new slice and the copy into it.\<close>

definition go_slice :: "int \<Rightarrow> int \<Rightarrow> 'a list \<Rightarrow> ('e, 'a list) outcome" where
  "go_slice lo hi xs =
     (if 0 \<le> lo \<and> lo \<le> hi \<and> hi \<le> int (length xs) then Ok (take (nat (hi - lo)) (drop (nat lo) xs)) else Panic)"

definition make_copy :: "int \<Rightarrow> 'a \<Rightarrow> 'a list \<Rightarrow> ('e, 'a list) outcome" where
  "make_copy n zero src = (if n < 0 then Panic else Ok (take (nat n) src @ replicate (nat n - length src) zero))"

datatype jobs_error = NoJobsError

definition Jobs :: "int \<Rightarrow> int \<Rightarrow> jobQueue \<Rightarrow> (jobs_error, string list \<times> string list \<times> int) outcome" where
  "Jobs page perpage q =
     (let toSkip = int64 ((page - 1) * perpage);
          plen = int (length (progress q));
          qlen = int (length (queued q))
      in if plen + qlen \<le> toSkip then Ok ([], [], plen + qlen)
         else if int64 (toSkip + perpage) \<le> plen then
           obind (go_slice toSkip (int64 (toSkip + perpage)) (progress q)) (\<lambda>src.
           obind (make_copy perpage [] src) (\<lambda>prog.
           Ok (prog, [], toSkip)))
         else
           obind (if toSkip < plen
                  then obind (go_slice toSkip plen (progress q)) (\<lambda>src.
                       obind (make_copy (int64 (plen - toSkip)) [] src) (\<lambda>prog.
                       Ok (prog, 0)))
                  else Ok ([], toSkip - plen))
             (\<lambda>(prog, toSkip').
                let n = (if qlen - toSkip' < int64 (perpage - int (length prog)) then qlen - toSkip'
                         else int64 (perpage - int (length prog)))
                in if n < 0 then Panic
                   else Ok (prog, map (\<lambda>i. jname (queued q ! (i + nat toSkip'))) [0..<nat n], int64 ((page - 1) * perpage))))"

definition Reset :: "jobQueue \<Rightarrow> jobQueue" where
  "Reset q = q\<lparr>progress := [], queued := []\<rparr>"

definition lenQueued :: "jobQueue \<Rightarrow> nat" where "lenQueued q = length (queued q)"
definition lenProgress :: "jobQueue \<Rightarrow> nat" where "lenProgress q = length (progress q)"

section \<open>Order\<close>

lemma index_of_Some:
  "index_of P xs k = Some i \<Longrightarrow> \<exists>as x bs. xs = as @ x # bs \<and> length as + k = i \<and> P x \<and> (\<forall>y \<in> set as. \<not> P y)"
proof (induction xs arbitrary: k)
  case (Cons y ys)
  show ?case
  proof (cases "P y")
    case True
    then show ?thesis using Cons.prems by (intro exI [of _ "[]"]) auto
  next
    case False
    then obtain as x bs where "ys = as @ x # bs" "length as + (k + 1) = i" "P x" "\<forall>y \<in> set as. \<not> P y"
      using Cons by (auto dest: Cons.IH)
    then show ?thesis using False by (intro exI [of _ "y # as"]) auto
  qed
qed simp

lemma index_of_None: "index_of P xs k = None \<longleftrightarrow> (\<forall>x \<in> set xs. \<not> P x)"
  by (induction xs arbitrary: k) auto

lemma remove1_first: "x \<notin> set as \<Longrightarrow> remove1 x (as @ x # bs) = as @ bs"
  by (simp add: remove1_append)

lemma BringToFront_split:
  assumes "queued q = as @ x # bs" and "\<forall>y \<in> set as. jname y \<noteq> jname x"
  shows "queued (BringToFront (jname x) q) = x # as @ bs" and "progress (BringToFront (jname x) q) = progress q"
proof -
  have i: "index_of (\<lambda>cur. jname cur = jname x) (as @ x # bs) k = Some (length as + k)" for k
    using assms(2) by (induction as arbitrary: k) auto
  show "queued (BringToFront (jname x) q) = x # as @ bs"
    unfolding BringToFront_def assms(1) i by (cases as) (simp_all add: assms(1) Let_def nth_append)
  show "progress (BringToFront (jname x) q) = progress q"
    by (simp add: BringToFront_def Let_def split: option.split)
qed

text \<open>A queued file that is brought to the front is the next one to be popped, and is then in
  progress; the other queued files keep their order, and no job is lost or added.\<close>

theorem brought_to_front_is_next:
  assumes "f \<in> set (map jname (queued q))"
  shows "\<exists>q'. Pop (BringToFront f q) = (Some f, q') \<and> map jname (queued q') = remove1 f (map jname (queued q)) \<and>
    progress q' = progress q @ [f] \<and> mset (queued (BringToFront f q)) = mset (queued q)"
proof -
  obtain i where i: "index_of (\<lambda>cur. jname cur = f) (queued q) 0 = Some i"
    using assms index_of_None [of "\<lambda>cur. jname cur = f" "queued q" 0] by (cases "index_of (\<lambda>cur. jname cur = f) (queued q) 0") auto
  obtain as x bs where x: "queued q = as @ x # bs" "jname x = f" "\<forall>y \<in> set as. jname y \<noteq> jname x"
    using index_of_Some [OF i] by auto
  have "remove1 f (map jname as @ f # map jname bs) = map jname as @ map jname bs"
    using x(2, 3) by (intro remove1_first) auto
  then show ?thesis
    using BringToFront_split [OF x(1, 3)] x(1, 2) by (auto simp: Pop_def)
qed

theorem brought_to_front_is_next_witness:
  "\<exists>q'. Pop (BringToFront ''b'' (Push ''b'' 2 0 (Push ''a'' 1 0 newJobQueue))) = (Some ''b'', q') \<and> map jname (queued q') = [''a'']"
  using brought_to_front_is_next [of "''b''" "Push ''b'' 2 0 (Push ''a'' 1 0 newJobQueue)"] by (auto simp: Push_def newJobQueue_def)

text \<open>A finished file leaves the list of files in progress once.\<close>

lemma Done_remove1: "progress (Done f q) = remove1 f (progress q)" "queued (Done f q) = queued q"
proof -
  show "progress (Done f q) = remove1 f (progress q)"
  proof (cases "index_of (\<lambda>g. g = f) (progress q) 0")
    case None
    then have "f \<notin> set (progress q)" by (auto simp: index_of_None)
    then show ?thesis using None by (simp add: Done_def remove1_idem)
  next
    case (Some i)
    obtain as bs where "progress q = as @ f # bs" "length as = i" "\<forall>y \<in> set as. y \<noteq> f"
      using index_of_Some [OF Some] by auto
    then show ?thesis using Some remove1_first [of f as bs] by (auto simp: Done_def)
  qed
  show "queued (Done f q) = queued q" by (simp add: Done_def split: option.split)
qed

text \<open>The jobs: what is in progress and then what is queued.\<close>

definition jobs :: "jobQueue \<Rightarrow> string list" where
  "jobs q = progress q @ map jname (queued q)"

lemma jobs_ops [simp]:
  "mset (jobs (Push f s m q)) = add_mset f (mset (jobs q))" "jobs (snd (Pop q)) = jobs q"
  "jobs (Reset q) = []"
  by (simp_all add: jobs_def Push_def Pop_def Reset_def Let_def hd_conv_nth [symmetric] drop_Suc flip: map_tl)
     (cases "queued q"; simp)

section \<open>Pages\<close>

lemma make_copy_full [simp]: "make_copy (int (length src)) z src = Ok src"
  by (simp add: make_copy_def)

lemma map_queued_take: "n + m \<le> length xs \<Longrightarrow> map (\<lambda>i. f (xs ! (i + m))) [0..<n] = map f (take n (drop m xs))"
  by (rule nth_equalityI) (simp_all add: add.commute)

text \<open>The pages of the queue, numbered from one, are consecutive parts of the list of all jobs,
  first those in progress and then the queued ones; what is skipped is counted.  A page with a
  positive number and a positive size never panics.\<close>

theorem pages_are_consecutive:
  assumes "1 \<le> page" and "1 \<le> perpage" and "page * perpage < 2 ^ 63" and "int (length (jobs q)) < 2 ^ 63"
  shows "\<exists>p w. Jobs page perpage q = Ok (p, w, min ((page - 1) * perpage) (int (length (jobs q)))) \<and>
    p = take (nat perpage) (drop (nat ((page - 1) * perpage)) (progress q)) \<and>
    p @ w = take (nat perpage) (drop (nat ((page - 1) * perpage)) (jobs q))"
proof -
  define s where "s = (page - 1) * perpage"
  have s0: "0 \<le> s" using assms(1, 2) by (simp add: s_def)
  have sum: "s + perpage = page * perpage" by (simp add: s_def algebra_simps)
  have small: "int64 s = s" "int64 (s + perpage) = s + perpage" using s0 sum assms(2, 3) by (simp_all add: int64_id)
  let ?p = "int (length (progress q))" and ?q = "int (length (queued q))"
  have len: "int (length (jobs q)) = ?p + ?q" by (simp add: jobs_def)
  note defs = Jobs_def Let_def s_def [symmetric] small len
  consider "?p + ?q \<le> s" | "s < ?p + ?q" "s + perpage \<le> ?p" | "s < ?p" "?p < s + perpage" | "?p \<le> s" "s < ?p + ?q" by linarith
  then show ?thesis
  proof cases
    case 1
    then show ?thesis unfolding defs by (simp add: jobs_def min_absorb2)
  next
    case 2
    then have "nat (s + perpage - s) = nat perpage" "nat perpage \<le> length (progress q) - nat s" using s0 assms(2) by linarith+
    then show ?thesis using 2 s0 assms(2) unfolding defs
      by (simp add: go_slice_def jobs_def min_absorb1 make_copy_def)
  next
    case 3
    define rest where "rest = perpage - (?p - s)"
    have rest: "0 < rest" "rest < 2 ^ 63" using 3 s0 sum assms(3) by (simp_all add: rest_def)
    have p63: "?p < 2 ^ 63" using assms(4) len by linarith
    have sl: "go_slice s ?p (progress q) = (Ok (drop (nat s) (progress q)) :: (jobs_error, string list) outcome)"
      using 3 s0 by (simp add: go_slice_def nat_diff_distrib)
    have d: "int64 (?p - s) = ?p - s" "int (length (drop (nat s) (progress q))) = ?p - s" "int64 (perpage - (?p - s)) = rest"
      using 3 s0 rest p63 by (simp_all add: int64_id rest_def)
    have "nat perpage = length (drop (nat s) (progress q)) + nat rest" using rest d(2) by (simp add: rest_def)
    then have pg: "take (nat perpage) (drop (nat s) (jobs q)) = drop (nat s) (progress q) @ take (nat rest) (map jname (queued q))"
        "take (nat perpage) (drop (nat s) (progress q)) = drop (nat s) (progress q)"
      using 3 s0 by (simp_all add: jobs_def)
    have q: "map (\<lambda>i. jname (queued q ! (i + nat 0))) [0..<nat (if ?q - 0 < rest then ?q - 0 else rest)] = take (nat rest) (map jname (queued q))"
      using rest map_queued_take [of "nat (if ?q < rest then ?q else rest)" 0 "queued q" jname] by (auto simp: take_map)
    have mk: "make_copy (?p - s) [] (drop (nat s) (progress q)) = (Ok (drop (nat s) (progress q)) :: (jobs_error, string list) outcome)"
      unfolding d(2) [symmetric] by (rule make_copy_full)
    have "Jobs page perpage q = Ok (drop (nat s) (progress q), take (nat rest) (map jname (queued q)), s)"
      unfolding defs using 3 rest q by (cases "?q < rest") (simp_all add: sl d(1, 3) mk d(2) del: obind_eq_Ok length_drop)
    then show ?thesis using 3 pg by (simp add: len min_absorb1 s_def)
  next
    case 4
    have per: "int64 perpage = perpage" using s0 sum assms(2, 3) by (simp add: int64_id)
    have "take (nat perpage) (drop (nat s) (jobs q)) = take (nat perpage) (map jname (drop (nat s - length (progress q)) (queued q)))"
      using 4 by (simp add: jobs_def drop_map)
    moreover have "map (\<lambda>i. jname (queued q ! (i + nat (s - ?p)))) [0..<nat (if ?q - (s - ?p) < perpage then ?q - (s - ?p) else perpage)] =
        take (nat perpage) (map jname (drop (nat (s - ?p)) (queued q)))"
      using 4 s0 assms(2) map_queued_take [of "nat (if ?q - (s - ?p) < perpage then ?q - (s - ?p) else perpage)" "nat (s - ?p)" "queued q" jname]
      by (auto simp: take_map nat_diff_distrib)
    moreover have "nat (s - ?p) = nat s - length (progress q)" using 4 by (simp add: nat_diff_distrib)
    ultimately show ?thesis using 4 s0 assms(2) per unfolding defs
      by (cases "?q - (s - ?p) < perpage") (simp_all add: min_absorb1)
  qed
qed

theorem pages_are_consecutive_witness:
  "\<exists>p w. Jobs 2 1 (snd (Pop (Push ''b'' 2 0 (Push ''a'' 1 0 newJobQueue)))) = Ok (p, w, 1) \<and> p @ w = [''b'']"
  using pages_are_consecutive [of 2 1 "snd (Pop (Push ''b'' 2 0 (Push ''a'' 1 0 newJobQueue)))"]
  by (auto simp: Push_def Pop_def newJobQueue_def jobs_def Let_def)

end
