(* ===== verification/Semaphore.thy ===== *)
theory Semaphore
  imports Go_Prelude "HOL-Library.Multiset"
begin

text \<open>
  Counting semaphores, \<^verbatim>\<open>lib/semaphore/semaphore.go\<close>.

  The sections under the lock are functions on the semaphore.  A goroutine that takes waits on the
  condition variable and looks again whenever it is woken; these turns, giving back and changes of
  the capacity are the steps of a relation, in which \<open>waiting\<close> has the sizes still wanted and \<open>held\<close>
  the sizes that were granted.  A size that was cut to the maximum while waiting is given back as it was
  asked for, which \<open>Give\<close> cuts in the same way.
\<close>

section \<open>The semaphore\<close>

record semaphore =
  smax :: int
  available :: int

definition New :: "int \<Rightarrow> semaphore" where
  "New m = (let m = (if m < 0 then 0 else m) in \<lparr>smax = m, available = m\<rparr>)"

text \<open>The size after a look at the maximum, and the state when it could be taken.\<close>

definition take_turn :: "int \<Rightarrow> semaphore \<Rightarrow> int \<times> semaphore option" where
  "take_turn sz s =
     (let sz = (if smax s < sz then smax s else sz)
      in (sz, if available s < sz then None else Some (s\<lparr>available := available s - sz\<rparr>)))"

definition Give :: "int \<Rightarrow> semaphore \<Rightarrow> semaphore" where
  "Give sz s =
     (let sz = (if smax s < sz then smax s else sz)
      in if smax s < available s + sz then s\<lparr>available := smax s\<rparr> else s\<lparr>available := available s + sz\<rparr>)"

definition SetCapacity :: "int \<Rightarrow> semaphore \<Rightarrow> semaphore" where
  "SetCapacity capacity s =
     (let capacity = (if capacity < 0 then 0 else capacity);
          diff = capacity - smax s;
          s = s\<lparr>smax := capacity, available := available s + diff\<rparr>
      in if available s < 0 then s\<lparr>available := 0\<rparr>
         else if smax s < available s then s\<lparr>available := smax s\<rparr> else s)"

definition Available :: "semaphore \<Rightarrow> int" where
  "Available s = available s"

text \<open>Several semaphores, some of them nil; taking waits for one after the other.\<close>

fun Multi_Take :: "int \<Rightarrow> semaphore option list \<Rightarrow> semaphore option list option" where
  "Multi_Take sz [] = Some []"
| "Multi_Take sz (None # ls) = map_option ((#) None) (Multi_Take sz ls)"
| "Multi_Take sz (Some s # ls) =
     (case snd (take_turn sz s) of
        None \<Rightarrow> None
      | Some s' \<Rightarrow> map_option ((#) (Some s')) (Multi_Take sz ls))"

definition Multi_Give :: "int \<Rightarrow> semaphore option list \<Rightarrow> semaphore option list" where
  "Multi_Give sz ls = rev (map (map_option (Give sz)) (rev ls))"

section \<open>Takers\<close>

record sem_system =
  sem :: semaphore
  waiting :: "int list"
  held :: "int list"

inductive sem_step :: "sem_system \<Rightarrow> sem_system \<Rightarrow> bool" where
  take_now: "take_turn sz (sem c) = (sz', Some s') \<Longrightarrow> sem_step c (c\<lparr>sem := s', held := sz # held c\<rparr>)"
| wait: "take_turn sz (sem c) = (sz', None) \<Longrightarrow> sem_step c (c\<lparr>waiting := sz' # waiting c\<rparr>)"
| wake_take: "sz \<in> set (waiting c) \<Longrightarrow> take_turn sz (sem c) = (sz', Some s') \<Longrightarrow>
    sem_step c (c\<lparr>sem := s', waiting := remove1 sz (waiting c), held := sz # held c\<rparr>)"
| wake_wait: "sz \<in> set (waiting c) \<Longrightarrow> take_turn sz (sem c) = (sz', None) \<Longrightarrow>
    sem_step c (c\<lparr>waiting := sz' # remove1 sz (waiting c)\<rparr>)"
| cancel: "sz \<in> set (waiting c) \<Longrightarrow> sem_step c (c\<lparr>waiting := remove1 sz (waiting c)\<rparr>)"
| give: "sz \<in> set (held c) \<Longrightarrow> sem_step c (c\<lparr>sem := Give sz (sem c), held := remove1 sz (held c)\<rparr>)"

definition new_system :: "int \<Rightarrow> sem_system" where
  "new_system m = \<lparr>sem = New m, waiting = [], held = []\<rparr>"

text \<open>What a size counts for.\<close>

definition clamp :: "int \<Rightarrow> int \<Rightarrow> int" where
  "clamp m sz = (if m < sz then m else sz)"

section \<open>Bounds\<close>

definition sem_ok :: "semaphore \<Rightarrow> bool" where
  "sem_ok s \<longleftrightarrow> 0 \<le> available s \<and> available s \<le> smax s"

text \<open>The available amount stays between zero and the maximum: for a new semaphore, after taking and
  giving non-negative sizes, and after every change of the capacity.\<close>

theorem available_stays_in_bounds:
  "sem_ok (New m) \<and> sem_ok (SetCapacity k s) \<and>
   (sem_ok s \<longrightarrow> 0 \<le> sz \<longrightarrow> sem_ok (Give sz s) \<and> (\<forall>s'. snd (take_turn sz s) = Some s' \<longrightarrow> sem_ok s' \<and> available s' \<le> available s))"
  by (auto simp: sem_ok_def New_def SetCapacity_def Give_def take_turn_def Let_def)

theorem available_stays_in_bounds_witness:
  "sem_ok (Give 3 (New 5)) \<and> (\<exists>s'. snd (take_turn 9 (New 5)) = Some s' \<and> sem_ok s' \<and> available s' = 0)"
  using available_stays_in_bounds [of 5 0 "New 5" 3] available_stays_in_bounds [of 5 0 "New 5" 9]
  by (simp add: take_turn_def New_def)

section \<open>Nothing is taken twice or lost\<close>

definition sem_inv :: "int \<Rightarrow> sem_system \<Rightarrow> bool" where
  "sem_inv m c \<longleftrightarrow> smax (sem c) = m \<and> 0 \<le> available (sem c) \<and>
     available (sem c) + sum_list (map (clamp m) (held c)) = m \<and>
     (\<forall>x \<in> set (held c) \<union> set (waiting c). 0 \<le> x)"

lemma take_turn_Some:
  "take_turn sz s = (sz', Some s') \<longleftrightarrow> sz' = clamp (smax s) sz \<and> clamp (smax s) sz \<le> available s \<and> s' = s\<lparr>available := available s - clamp (smax s) sz\<rparr>"
  by (auto simp: take_turn_def clamp_def Let_def)

lemma take_turn_None: "take_turn sz s = (sz', None) \<longleftrightarrow> sz' = clamp (smax s) sz \<and> available s < clamp (smax s) sz"
  by (auto simp: take_turn_def clamp_def Let_def)

lemma clamp_nonneg: "0 \<le> m \<Longrightarrow> 0 \<le> x \<Longrightarrow> 0 \<le> clamp m x"
  by (simp add: clamp_def)

lemma sum_clamp_nonneg: "0 \<le> m \<Longrightarrow> \<forall>x \<in> set xs. 0 \<le> x \<Longrightarrow> 0 \<le> sum_list (map (clamp m) xs)"
  by (induction xs) (auto simp: clamp_nonneg)

lemma sum_remove1: "x \<in> set xs \<Longrightarrow> sum_list (map f (remove1 x xs)) = sum_list (map f xs) - (f x :: int)"
  by (induction xs) auto

text \<open>A step in which every new request is for a non-negative size.\<close>

definition sizes_ok :: "sem_system \<Rightarrow> bool" where
  "sizes_ok c \<longleftrightarrow> (\<forall>x \<in> set (held c) \<union> set (waiting c). 0 \<le> x)"

lemma step_inv:
  assumes "sem_step c c'" and "sem_inv m c" and "sizes_ok c'" and "0 \<le> m"
  shows "sem_inv m c'"
  using assms(1)
proof (cases rule: sem_step.cases)
  case (give sz)
  let ?rest = "sum_list (map (clamp m) (remove1 sz (held c)))"
  have sz: "0 \<le> sz" "sum_list (map (clamp m) (held c)) = clamp m sz + ?rest"
    using give assms(2) by (auto simp: sem_inv_def sum_remove1)
  have "0 \<le> ?rest" using assms(2, 4) set_remove1_subset [of sz "held c"] by (intro sum_clamp_nonneg) (auto simp: sem_inv_def)
  then have "\<not> m < available (sem c) + clamp m sz" "0 \<le> clamp m sz" using assms(2, 4) sz by (auto simp: sem_inv_def clamp_nonneg)
  then show ?thesis
    using give assms(2, 3) sz by (auto simp: sem_inv_def Give_def clamp_def sizes_ok_def Let_def)
qed (use assms(2-4) in \<open>auto simp: sem_inv_def take_turn_Some take_turn_None sizes_ok_def clamp_nonneg\<close>)

inductive sem_run :: "int \<Rightarrow> sem_system \<Rightarrow> bool" for m where
  init: "sem_run m (new_system m)"
| step: "sem_run m c \<Longrightarrow> sem_step c c' \<Longrightarrow> sizes_ok c' \<Longrightarrow> sem_run m c'"

lemma run_inv: "sem_run m c \<Longrightarrow> 0 \<le> m \<Longrightarrow> sem_inv m c"
proof (induction rule: sem_run.induct)
  case (step c c')
  then show ?case using step_inv by blast
qed (simp add: sem_inv_def new_system_def New_def)

text \<open>As long as the capacity is not changed, what is available and what is held always add up to the
  capacity, in every interleaving of goroutines that take, wait, are cancelled and give back; so no more
  than the capacity is ever held, and when everything is given back, every waiting goroutine can take
  what it wants, however much it asked for.\<close>

theorem semaphore_adds_up:
  assumes "sem_run m c" and "0 \<le> m"
  shows "available (sem c) + sum_list (map (clamp m) (held c)) = m \<and>
    sum_list (map (clamp m) (held c)) \<le> m \<and>
    (held c = [] \<longrightarrow> (\<forall>sz. \<exists>sz' s'. take_turn sz (sem c) = (sz', Some s')))"
  using run_inv [OF assms] by (auto simp: sem_inv_def take_turn_Some clamp_def)

theorem semaphore_adds_up_witness:
  "\<exists>c. sem_run 5 c \<and> held c = [9] \<and> available (sem c) + sum_list (map (clamp 5) (held c)) = 5"
proof -
  let ?c = "(new_system 5)\<lparr>sem := (New 5)\<lparr>available := 0\<rparr>, held := [9]\<rparr>"
  have "sem_step (new_system 5) ((new_system 5)\<lparr>sem := (New 5)\<lparr>available := 0\<rparr>, held := 9 # held (new_system 5)\<rparr>)"
    by (rule sem_step.take_now [of _ _ 5]) (simp add: take_turn_def new_system_def New_def)
  then have "sem_run 5 ?c"
    using sem_run.step [OF sem_run.init] by (simp add: new_system_def sizes_ok_def)
  then show ?thesis using semaphore_adds_up [of 5 ?c] by (intro exI [of _ ?c]) simp
qed

text \<open>A change of the capacity forgets what is held: when more is held than a lower capacity allows and
  the capacity is raised again, as much as the whole capacity can be taken on top of what is held
  already.\<close>

theorem capacity_change_overcommits:
  assumes "0 \<le> low" and "low < h" and "h \<le> high" and "snd (take_turn h (New high)) = Some s"
  shows "\<exists>s'. snd (take_turn (high - low) (SetCapacity high (SetCapacity low s))) = Some s' \<and> high < h + (high - low)"
  using assms by (auto simp: take_turn_def New_def SetCapacity_def Let_def)

theorem capacity_change_overcommits_witness:
  "\<exists>s s'. snd (take_turn 8 (New 10)) = Some s \<and> snd (take_turn 5 (SetCapacity 10 (SetCapacity 5 s))) = Some s'"
  using capacity_change_overcommits [of 5 8 10 "\<lparr>smax = 10, available = 2\<rparr>"] by (auto simp: take_turn_def New_def)

text \<open>Several semaphores.\<close>

lemma Multi_Give_each: "Multi_Give sz ls = map (map_option (Give sz)) ls"
  by (simp add: Multi_Give_def rev_map)

end
