(* ===== verification/File_Blocks.thy ===== *)
theory File_Blocks
  imports File_Wire
begin

text \<open>
  Hashing the blocks of a file, \<^verbatim>\<open>lib/scanner/blocks.go\<close> and
  \<^verbatim>\<open>lib/scanner/blockqueue.go\<close>.  SHA-256 is an argument.  A reader is the bytes it delivers
  and the error that comes after them, when there is one; the context is given by the number of the
  first turn of the loop that finds it done.
\<close>

section \<open>Hashing (blocks.go)\<close>

definition SHA256OfNothing :: bytes where
  "SHA256OfNothing = [227, 176, 196, 66, 152, 252, 28, 20, 154, 251, 244, 200, 153, 111, 185, 36,
     39, 174, 65, 228, 100, 155, 147, 76, 164, 149, 153, 27, 120, 82, 184, 85]"

datatype hash_error = HashCtxDone | ReadError string | OpenError string | StatError string | FileChanged

record reader =
  content :: bytes
  read_error :: "string option"

definition LimitReader :: "reader \<Rightarrow> int \<Rightarrow> reader" where
  "LimitReader r n =
     \<lparr>content = take (nat n) (content r), read_error = (if n \<le> int (length (content r)) then None else read_error r)\<rparr>"

function blocks_loop ::
  "(bytes \<Rightarrow> bytes) \<Rightarrow> nat option \<Rightarrow> nat \<Rightarrow> nat \<Rightarrow> int \<Rightarrow> bytes \<Rightarrow> string option \<Rightarrow> BlockInfo list \<Rightarrow> (hash_error, BlockInfo list) outcome" where
  "blocks_loop sha ctxDone blocksize turn offset rest err blocks =
     (if (case ctxDone of Some t \<Rightarrow> t \<le> turn | None \<Rightarrow> False) then Err HashCtxDone
      else
        let this = take blocksize rest; n = length this
        in if n < blocksize \<and> err \<noteq> None then Err (ReadError (the err))
           else if n = 0 then Ok blocks
           else blocks_loop sha ctxDone blocksize (turn + 1) (offset + int n) (drop blocksize rest) err
                  (blocks @ [\<lparr>Hash = sha this, Offset = offset, BSize = int n\<rparr>]))"
  by pat_completeness auto
termination by (relation "measure (\<lambda>(sha, ctxDone, blocksize, turn, offset, rest, err, blocks). length rest)") auto

declare blocks_loop.simps [simp del]

text \<open>The block size is positive; dividing the size hint by zero panics.\<close>

definition Blocks_of :: "(bytes \<Rightarrow> bytes) \<Rightarrow> nat option \<Rightarrow> reader \<Rightarrow> nat \<Rightarrow> int \<Rightarrow> (hash_error, BlockInfo list) outcome" where
  "Blocks_of sha ctxDone r blocksize sizehint =
     (if 0 \<le> sizehint \<and> blocksize = 0 then Panic
      else
        let r = (if 0 \<le> sizehint then LimitReader r sizehint else r)
        in obind (blocks_loop sha ctxDone blocksize 0 0 (content r) (read_error r) []) (\<lambda>blocks.
             Ok (if length blocks = 0 then [\<lparr>Hash = SHA256OfNothing, Offset = 0, BSize = 0\<rparr>] else blocks)))"

definition Validate :: "(bytes \<Rightarrow> bytes) \<Rightarrow> bytes \<Rightarrow> bytes \<Rightarrow> bool" where
  "Validate sha buf h = (if 0 < length h then sha buf = h else True)"

section \<open>Files (blockqueue.go)\<close>

text \<open>What the calls on the file return: opening, the size and time before and after.\<close>

record file_access =
  opened :: "string + reader"
  stat_before :: "string + (int \<times> int)"
  stat_after :: "string + (int \<times> int)"

definition HashFile :: "(bytes \<Rightarrow> bytes) \<Rightarrow> nat option \<Rightarrow> file_access \<Rightarrow> nat \<Rightarrow> (hash_error, BlockInfo list) outcome" where
  "HashFile sha ctxDone fa blockSize =
     (case opened fa of
        Inl e \<Rightarrow> Err (OpenError e)
      | Inr fd \<Rightarrow>
          (case stat_before fa of
             Inl e \<Rightarrow> Err (StatError e)
           | Inr (size0, modTime) \<Rightarrow>
               obind (Blocks_of sha ctxDone fd blockSize size0) (\<lambda>blocks.
                 case stat_after fa of
                   Inl e \<Rightarrow> Err (StatError e)
                 | Inr (size1, modTime') \<Rightarrow>
                     if size0 \<noteq> size1 \<or> modTime \<noteq> modTime' then Err FileChanged else Ok blocks)))"

text \<open>One file of \<open>hashFiles\<close>: the file with its blocks, or the error that is reported.\<close>

definition hash_file :: "(bytes \<Rightarrow> bytes) \<Rightarrow> nat option \<Rightarrow> file_access \<Rightarrow> FileInfo \<Rightarrow> (hash_error, FileInfo) outcome" where
  "hash_file sha ctxDone fa f =
     (if IsDirectory f \<or> IsDeleted f then Panic
      else obind (HashFile sha ctxDone fa (nat (FileInfo_BlockSize f))) (\<lambda>blocks.
             Ok (f\<lparr>Blocks := blocks, BlocksHash := BlocksHash_of sha blocks, Size := sum_list (map BSize blocks)\<rparr>)))"

section \<open>What the blocks say\<close>

text \<open>The bytes of a block.\<close>

definition block_bytes :: "BlockInfo \<Rightarrow> bytes \<Rightarrow> bytes" where
  "block_bytes b c = take (nat (BSize b)) (drop (nat (Offset b)) c)"

text \<open>The blocks follow one another from an offset on and add up to a length.\<close>

fun consecutive :: "int \<Rightarrow> BlockInfo list \<Rightarrow> int \<Rightarrow> bool" where
  "consecutive off [] n \<longleftrightarrow> off = n"
| "consecutive off (b # bs) n \<longleftrightarrow> Offset b = off \<and> 0 \<le> BSize b \<and> consecutive (off + BSize b) bs n"

definition describes :: "(bytes \<Rightarrow> bytes) \<Rightarrow> BlockInfo list \<Rightarrow> bytes \<Rightarrow> bool" where
  "describes sha bs c \<longleftrightarrow> consecutive 0 bs (int (length c)) \<and> (\<forall>b \<in> set bs. sha (block_bytes b c) = Hash b)"

lemma consecutive_append [simp]: "consecutive off (as @ bs) n \<longleftrightarrow> (\<exists>m. consecutive off as m \<and> consecutive m bs n)"
  by (induction as arbitrary: off) auto

lemma consecutive_le: "consecutive off bs n \<Longrightarrow> off \<le> n"
  by (induction bs arbitrary: off) fastforce+

lemma consecutive_inside: "consecutive off bs n \<Longrightarrow> b \<in> set bs \<Longrightarrow> off \<le> Offset b \<and> 0 \<le> BSize b \<and> Offset b + BSize b \<le> n"
  by (induction bs arbitrary: off) (fastforce dest: consecutive_le)+

lemma blocks_loop_describes:
  assumes "0 < blocksize" and "c = done' @ rest" and "consecutive 0 blocks (int (length done'))"
    and "\<forall>b \<in> set blocks. sha (block_bytes b c) = Hash b" and "blocks_loop sha ctxDone blocksize turn (int (length done')) rest err blocks = Ok bs"
  shows "consecutive 0 bs (int (length c)) \<and> (\<forall>b \<in> set bs. sha (block_bytes b c) = Hash b) \<and> (rest \<noteq> [] \<longrightarrow> bs \<noteq> []) \<and> (blocks \<noteq> [] \<longrightarrow> bs \<noteq> []) \<and> err = None"
  using assms
proof (induction sha ctxDone blocksize turn "int (length done')" rest err blocks arbitrary: done' rule: blocks_loop.induct)
  case (1 sha ctxDone blocksize turn rest err blocks)
  let ?part = "take blocksize rest"
  let ?b = "\<lparr>Hash = sha ?part, Offset = int (length done'), BSize = int (length ?part)\<rparr>"
  have step: "blocks_loop sha ctxDone blocksize turn (int (length done')) rest err blocks = Ok bs" by (rule "1.prems"(5))
  then have on: "\<not> (case ctxDone of Some t \<Rightarrow> t \<le> turn | None \<Rightarrow> False)" "\<not> (length ?part < blocksize \<and> err \<noteq> None)"
    by (subst (asm) blocks_loop.simps, auto simp: Let_def split: if_splits)+
  show ?case
  proof (cases "rest = []")
    case True
    then show ?thesis using step on "1.prems"(1-4) 
      unfolding blocks_loop.simps [of sha ctxDone blocksize turn _ rest err blocks] by (auto simp: Let_def)
  next
    case False
    then have part: "length ?part \<noteq> 0" using "1.prems"(1) by simp
    have next': "blocks_loop sha ctxDone blocksize (turn + 1) (int (length (done' @ ?part))) (drop blocksize rest) err (blocks @ [?b]) = Ok bs"
      using step on part unfolding blocks_loop.simps [of sha ctxDone blocksize turn _ rest err blocks]
      by (auto simp: Let_def min_def split: if_splits)
    have "block_bytes ?b c = ?part" using "1.prems"(2) by (cases "length rest \<le> blocksize") (simp_all add: block_bytes_def)
    then have "\<forall>b \<in> set (blocks @ [?b]). sha (block_bytes b c) = Hash b" using "1.prems"(4) by simp
    then show ?thesis
      using "1.hyps" [OF on(1) refl refl on(2) part, of "done' @ ?part"] next' "1.prems"(1-3) by simp
  qed
qed

lemma hashed_blocks_describe:
  assumes "0 < blocksize" and "sha [] = SHA256OfNothing" and "sizehint < 0 \<or> sizehint = int (length (content r))"
    and "Blocks_of sha ctxDone r blocksize sizehint = Ok bs"
  shows "describes sha bs (content r) \<and> bs \<noteq> []"
proof -
  define r' where "r' = (if 0 \<le> sizehint then LimitReader r sizehint else r)"
  have c: "content r' = content r" using assms(3) by (auto simp: r'_def LimitReader_def)
  obtain blocks where loop: "blocks_loop sha ctxDone blocksize 0 (int (length ([] :: bytes))) (content r) (read_error r') [] = Ok blocks"
      "bs = (if length blocks = 0 then [\<lparr>Hash = SHA256OfNothing, Offset = 0, BSize = 0\<rparr>] else blocks)"
    using assms(1, 4) c by (auto simp: Blocks_of_def r'_def [symmetric] Let_def)
  note all = blocks_loop_describes [OF assms(1) _ _ _ loop(1), of "content r"]
  then show ?thesis using loop(2) assms(2) by (cases "blocks = []") (auto simp: describes_def block_bytes_def)
qed

text \<open>The blocks of a file describe it: when hashing succeeds, the blocks follow one another, add up to
  the length of the file, and each has the hash of its bytes; there is always at least one block.\<close>

theorem blocks_describe_the_file:
  assumes "0 < blocksize" and "sha [] = SHA256OfNothing" and "sizehint < 0 \<or> sizehint = int (length (content r))"
    and "Blocks_of sha ctxDone r blocksize sizehint = Ok bs"
  shows "describes sha bs (content r) \<and> bs \<noteq> []"
  by (rule hashed_blocks_describe [OF assms])

theorem blocks_describe_the_file_witness:
  "\<exists>bs. Blocks_of (\<lambda>b. if b = [] then SHA256OfNothing else b) None \<lparr>content = [1, 2, 3], read_error = None\<rparr> 2 3 = Ok bs \<and>
     describes (\<lambda>b. if b = [] then SHA256OfNothing else b) bs [1, 2, 3]"
proof -
  have "Blocks_of (\<lambda>b. if b = [] then SHA256OfNothing else b) None \<lparr>content = [1, 2, 3], read_error = None\<rparr> 2 3 =
      Ok [\<lparr>Hash = [1, 2], Offset = 0, BSize = 2\<rparr>, \<lparr>Hash = [3], Offset = 2, BSize = 1\<rparr>]" by code_simp
  then show ?thesis using blocks_describe_the_file [of 2 _ 3 "\<lparr>content = [1, 2, 3], read_error = None\<rparr>"] by fastforce
qed

text \<open>Two files with the same blocks are the same, unless two different byte strings of the same length have the same hash.\<close>

definition collision_free :: "(bytes \<Rightarrow> bytes) \<Rightarrow> BlockInfo list \<Rightarrow> bytes \<Rightarrow> bytes \<Rightarrow> bool" where
  "collision_free sha bs c d \<longleftrightarrow> (\<forall>b \<in> set bs. sha (block_bytes b c) = sha (block_bytes b d) \<longrightarrow> block_bytes b c = block_bytes b d)"

lemma consecutive_bytes:
  assumes "consecutive off bs (int (length c))" and "0 \<le> off"
  shows "concat (map (\<lambda>b. block_bytes b c) bs) = drop (nat off) c"
  using assms
proof (induction bs arbitrary: off)
  case (Cons b bs)
  have "concat (map (\<lambda>b. block_bytes b c) bs) = drop (nat (off + BSize b)) c" using Cons by simp
  moreover have "take (nat (BSize b)) (drop (nat off) c) @ drop (nat (off + BSize b)) c = drop (nat off) c"
    using Cons.prems by (simp add: nat_add_distrib) (metis append_take_drop_id drop_drop add.commute)
  ultimately show ?case using Cons.prems by (simp add: block_bytes_def)
qed simp

lemma describes_unique:
  assumes "describes sha bs c" and "describes sha bs d" and "collision_free sha bs c d"
  shows "c = d"
proof -
  have "map (\<lambda>b. block_bytes b c) bs = map (\<lambda>b. block_bytes b d) bs"
    using assms unfolding describes_def collision_free_def by (intro map_cong refl) metis
  then have "concat (map (\<lambda>b. block_bytes b c) bs) = concat (map (\<lambda>b. block_bytes b d) bs)" by (rule arg_cong)
  moreover have "concat (map (\<lambda>b. block_bytes b c) bs) = c" "concat (map (\<lambda>b. block_bytes b d) bs) = d"
    using consecutive_bytes [of 0] assms(1, 2) by (simp_all add: describes_def)
  ultimately show ?thesis by simp
qed

end
