(* ===== verification/Block_Reorder.thy ===== *)
theory Block_Reorder
  imports Row_Order Device_ID
begin

text \<open>
  The order in which the blocks of a file are pulled,
  \<^verbatim>\<open>lib/model/blockpullreorderer.go\<close>.  By default the file is cut into as many chunks as
  there are devices, each device starts with its own chunk and takes the others in random order.
  Shuffling and sorting are arguments: they permute, and sorting sorts.
\<close>

section \<open>Definitions\<close>

datatype BlockPullOrder = BlockPullOrderStandard | BlockPullOrderRandom | BlockPullOrderInOrder | BlockPullOrderOther int

record standardBlockPullReorderer =
  myIndex :: nat
  bpCount :: nat

datatype blockPullReorderer = InOrder | RandomOrder | Standard standardBlockPullReorderer

text \<open>The parts of \<open>blocks\<close> from \<open>i\<close> on; the size of a chunk is positive when there are blocks.\<close>

function chunk_loop :: "'b list \<Rightarrow> nat \<Rightarrow> nat \<Rightarrow> 'b list list" where
  "chunk_loop blocks chunkSize i =
     (if i < length blocks \<and> 0 < chunkSize
      then let e = (if length blocks < i + chunkSize then length blocks else i + chunkSize)
           in take (e - i) (drop i blocks) # chunk_loop blocks chunkSize (i + chunkSize)
      else [])"
  by pat_completeness auto
termination by (relation "measure (\<lambda>(blocks, chunkSize, i). length blocks - i)") auto

declare chunk_loop.simps [simp del]

definition chunk :: "'b list \<Rightarrow> nat \<Rightarrow> 'b list list" where
  "chunk blocks partCount =
     (if partCount = 0 then [blocks]
      else chunk_loop blocks ((length blocks + partCount - 1) div partCount) 0)"

fun find_device :: "device_id \<Rightarrow> device_id list \<Rightarrow> nat \<Rightarrow> nat option" where
  "find_device d [] i = None"
| "find_device d (dev # devs) i = (if dev = d then Some i else find_device d devs (i + 1))"

definition newStandardBlockPullReorderer ::
  "device_id sorter \<Rightarrow> device_id \<Rightarrow> device_id list \<Rightarrow> ('e, standardBlockPullReorderer) outcome" where
  "newStandardBlockPullReorderer srt d otherDevices =
     (let allDevices = srt DeviceID_Compare (otherDevices @ [d])
      in case find_device d allDevices 0 of
           None \<Rightarrow> Panic
         | Some i \<Rightarrow> Ok \<lparr>myIndex = i, bpCount = length allDevices\<rparr>)"

definition newBlockPullReorderer ::
  "device_id sorter \<Rightarrow> BlockPullOrder \<Rightarrow> device_id \<Rightarrow> device_id list \<Rightarrow> ('e, blockPullReorderer) outcome" where
  "newBlockPullReorderer srt order d otherDevices =
     (case order of
        BlockPullOrderRandom \<Rightarrow> Ok RandomOrder
      | BlockPullOrderInOrder \<Rightarrow> Ok InOrder
      | _ \<Rightarrow> obind (newStandardBlockPullReorderer srt d otherDevices) (\<lambda>p. Ok (Standard p)))"

definition standard_Reorder :: "(nat list \<Rightarrow> nat list) \<Rightarrow> standardBlockPullReorderer \<Rightarrow> 'b list \<Rightarrow> 'b list" where
  "standard_Reorder shuffle p blocks =
     (if length blocks = 0 then blocks
      else
        let chunks = chunk blocks (bpCount p);
            newBlocks = (if myIndex p < length chunks then chunks ! myIndex p else []);
            indexes = shuffle (filter (\<lambda>i. i \<noteq> myIndex p) [0..<length chunks])
        in newBlocks @ concat (map (\<lambda>idx. chunks ! idx) indexes))"

definition Reorder :: "('b list \<Rightarrow> 'b list) \<Rightarrow> (nat list \<Rightarrow> nat list) \<Rightarrow> blockPullReorderer \<Rightarrow> 'b list \<Rightarrow> 'b list" where
  "Reorder shuffleBlocks shuffle r blocks =
     (case r of InOrder \<Rightarrow> blocks | RandomOrder \<Rightarrow> shuffleBlocks blocks | Standard p \<Rightarrow> standard_Reorder shuffle p blocks)"

section \<open>Chunks\<close>

lemma concat_chunk_loop: "0 < chunkSize \<Longrightarrow> concat (chunk_loop blocks chunkSize i) = drop i blocks"
proof (induction blocks chunkSize i rule: chunk_loop.induct)
  case (1 blocks chunkSize i)
  show ?case
  proof (cases "i < length blocks")
    case True
    let ?e = "if length blocks < i + chunkSize then length blocks else i + chunkSize"
    have "take (?e - i) (drop i blocks) @ drop (i + chunkSize) blocks = drop i blocks"
      by (simp add: not_less) (metis append_take_drop_id drop_drop add.commute)
    then show ?thesis using True 1 by (subst chunk_loop.simps) (simp add: Let_def)
  qed (subst chunk_loop.simps, simp)
qed

lemma length_chunk_loop: "0 < chunkSize \<Longrightarrow> length blocks \<le> i + n * chunkSize \<Longrightarrow> length (chunk_loop blocks chunkSize i) \<le> n"
proof (induction n arbitrary: i)
  case 0
  then show ?case by (subst chunk_loop.simps) simp
next
  case (Suc n)
  have "length (chunk_loop blocks chunkSize (i + chunkSize)) \<le> n" by (rule Suc.IH) (use Suc.prems in \<open>simp_all add: algebra_simps\<close>)
  then show ?case by (subst chunk_loop.simps) (simp add: Let_def)
qed

lemma chunk_size:
  fixes len n :: nat
  assumes "0 < len" and "0 < n"
  shows "0 < (len + n - 1) div n" and "len \<le> n * ((len + n - 1) div n)"
proof -
  show "0 < (len + n - 1) div n" using assms by (simp add: div_greater_zero_iff)
  have "n * ((len + n - 1) div n) + (len + n - 1) mod n = len + n - 1" "(len + n - 1) mod n < n" using assms(2) by simp_all
  then show "len \<le> n * ((len + n - 1) div n)" using assms by linarith
qed

lemma chunk_laws:
  assumes "blocks \<noteq> []" and "0 < n"
  shows "concat (chunk blocks n) = blocks" and "length (chunk blocks n) \<le> n"
proof -
  let ?size = "(length blocks + n - 1) div n"
  have size: "0 < ?size" "length blocks \<le> 0 + n * ?size" using chunk_size [of "length blocks" n] assms by simp_all
  show "concat (chunk blocks n) = blocks" using concat_chunk_loop [OF size(1), of blocks 0] assms(2) by (simp add: chunk_def)
  show "length (chunk blocks n) \<le> n" using length_chunk_loop [OF size] assms(2) by (simp add: chunk_def)
qed

section \<open>What is pulled\<close>

lemma concat_others:
  "i < length xs \<Longrightarrow> mset (xs ! i @ concat (map (\<lambda>j. xs ! j) (filter (\<lambda>j. j \<noteq> i) [0..<length xs]))) = mset (concat xs)"
proof -
  assume i: "i < length xs"
  then have all: "[0..<length xs] = [0..<i] @ i # [Suc i..<length xs]" by (metis upt_conv_Cons upt_add_eq_append le_add_diff_inverse less_imp_le zero_le)
  then have "filter (\<lambda>j. j \<noteq> i) [0..<length xs] = [0..<i] @ [Suc i..<length xs]" by simp
  moreover have "concat xs = concat (map (\<lambda>j. xs ! j) ([0..<i] @ i # [Suc i..<length xs]))" unfolding all [symmetric] by (simp add: map_nth)
  ultimately show ?thesis by simp
qed

text \<open>The chunk a device starts with.\<close>

definition own_chunk :: "nat \<Rightarrow> nat \<Rightarrow> 'b list \<Rightarrow> 'b list" where
  "own_chunk n i blocks = (if i < length (chunk blocks n) then chunk blocks n ! i else [])"

lemma own_chunks_cover: "blocks \<noteq> [] \<Longrightarrow> 0 < n \<Longrightarrow> concat (map (\<lambda>i. own_chunk n i blocks) [0..<n]) = blocks"
proof -
  assume ne: "blocks \<noteq> []" "0 < n"
  let ?cs = "chunk blocks n"
  have "[0..<n] = [0..<length ?cs] @ [length ?cs..<n]" using chunk_laws(2) [OF ne] by (metis le_add_diff_inverse upt_add_eq_append zero_le)
  moreover have "concat (map (\<lambda>i. own_chunk n i blocks) [length ?cs..<n]) = []" by (simp add: own_chunk_def)
  moreover have "map (\<lambda>i. own_chunk n i blocks) [0..<length ?cs] = ?cs" by (rule nth_equalityI) (simp_all add: own_chunk_def)
  ultimately show ?thesis using chunk_laws(1) [OF ne] by simp
qed

lemma find_device_nth: "find_device d ds k = Some i \<Longrightarrow> k \<le> i \<and> i - k < length ds \<and> ds ! (i - k) = d"
proof (induction ds arbitrary: k)
  case (Cons a ds)
  show ?case
  proof (cases "a = d")
    case False
    then have "k + 1 \<le> i" "i - (k + 1) < length ds" "ds ! (i - (k + 1)) = d" using Cons.IH [of "k + 1"] Cons.prems by simp_all
    then show ?thesis by (simp add: nth_Cons' )
  qed (use Cons.prems in simp)
qed simp

lemma find_device_found: "d \<in> set ds \<Longrightarrow> \<exists>i. find_device d ds k = Some i"
  by (induction ds arbitrary: k) auto

text \<open>However the blocks of a file are reordered, exactly the blocks of the file are pulled, each as
  often as before; and a device that uses the standard order begins with its own chunk, where the own
  chunks of all devices together, in the order of the devices, are the file.\<close>

theorem reordering_pulls_every_block:
  assumes "sort_ok srt" and "\<And>xs. mset (shuffle xs) = mset xs" and "\<And>bs. mset (shuffleBlocks bs) = mset bs"
    and "newBlockPullReorderer srt order d others = Ok r"
  shows "mset (Reorder shuffleBlocks shuffle r blocks) = mset blocks \<and>
    (\<forall>p. r = Standard p \<and> blocks \<noteq> [] \<longrightarrow> myIndex p < bpCount p \<and>
       (\<exists>rest. Reorder shuffleBlocks shuffle r blocks = own_chunk (bpCount p) (myIndex p) blocks @ rest) \<and>
       concat (map (\<lambda>i. own_chunk (bpCount p) i blocks) [0..<bpCount p]) = blocks)"
proof -
  have standard: "myIndex p < bpCount p \<and> mset (standard_Reorder shuffle p blocks) = mset blocks \<and>
      (\<exists>rest. standard_Reorder shuffle p blocks = own_chunk (bpCount p) (myIndex p) blocks @ rest)"
    if p: "r = Standard p" and ne: "blocks \<noteq> []" for p
  proof -
    let ?ds = "srt DeviceID_Compare (others @ [d])" and ?cs = "chunk blocks (bpCount p)"
    have idx: "find_device d ?ds 0 = Some (myIndex p)" "bpCount p = length ?ds"
      using assms(4) p by (cases order; auto simp: newBlockPullReorderer_def newStandardBlockPullReorderer_def Let_def split: option.splits)+
    have lt: "myIndex p < bpCount p" using find_device_nth [OF idx(1)] idx(2) by simp
    then have n: "0 < bpCount p" by simp
    define ids where "ids = filter (\<lambda>i. i \<noteq> myIndex p) [0..<length ?cs]"
    have split: "standard_Reorder shuffle p blocks = own_chunk (bpCount p) (myIndex p) blocks @ concat (map (\<lambda>i. ?cs ! i) (shuffle ids))"
      using ne by (simp add: standard_Reorder_def own_chunk_def ids_def Let_def)
    have "mset (concat (map (\<lambda>i. ?cs ! i) (shuffle ids))) = mset (concat (map (\<lambda>i. ?cs ! i) ids))"
      using assms(2) [of ids] by (simp add: mset_concat) (metis mset_map sum_mset_sum_list)
    moreover have "mset (own_chunk (bpCount p) (myIndex p) blocks @ concat (map (\<lambda>i. ?cs ! i) ids)) = mset (concat ?cs)"
    proof (cases "myIndex p < length ?cs")
      case True
      then show ?thesis using concat_others [of "myIndex p" ?cs] by (simp add: own_chunk_def ids_def)
    next
      case False
      then have "ids = [0..<length ?cs]" by (auto simp: ids_def filter_id_conv)
      then show ?thesis using False by (simp add: own_chunk_def map_nth)
    qed
    ultimately show ?thesis using lt split chunk_laws(1) [OF ne n] by simp
  qed
  have "mset (Reorder shuffleBlocks shuffle r blocks) = mset blocks"
  proof (cases r)
    case (Standard p)
    then show ?thesis using standard by (cases "blocks = []") (simp_all add: Reorder_def standard_Reorder_def)
  qed (simp_all add: Reorder_def assms(3))
  moreover have "concat (map (\<lambda>i. own_chunk (bpCount p) i blocks) [0..<bpCount p]) = blocks"
    if "r = Standard p" "blocks \<noteq> []" for p
    using standard [OF that] by (intro own_chunks_cover that(2)) linarith
  ultimately show ?thesis using standard by (auto simp: Reorder_def)
qed

theorem reordering_pulls_every_block_witness:
  "\<exists>r. newBlockPullReorderer insertionSort BlockPullOrderStandard [2] [[3], [1]] = (Ok r :: (unit, _) outcome) \<and>
    mset (Reorder rev rev r [1, 2, 3, 4 :: nat]) = mset [1, 2, 3, 4] \<and> (\<exists>rest. Reorder rev rev r [1, 2, 3, 4 :: nat] = [3, 4] @ rest)"
proof -
  have r: "newBlockPullReorderer insertionSort BlockPullOrderStandard [2] [[3], [1]] = (Ok (Standard \<lparr>myIndex = 1, bpCount = 3\<rparr>) :: (unit, _) outcome)"
    by code_simp
  have "own_chunk 3 1 [1, 2, 3, 4 :: nat] = [3, 4]" by code_simp
  then show ?thesis
    using reordering_pulls_every_block [OF insertionSort_ok _ _ r, of rev rev "[1, 2, 3, 4 :: nat]"] r by auto
qed

end
