(* ===== verification/Device_Activity.thy ===== *)
theory Device_Activity
  imports Device_ID
begin

text \<open>
  Which device to ask for a block, \<^verbatim>\<open>lib/model/deviceactivity.go\<close>: the number of
  outstanding requests per device; a device that is not in the map has none.
\<close>

record Availability =
  avID :: device_id
  FromTemporary :: bool

type_synonym deviceActivity = "device_id \<Rightarrow> int"

definition newDeviceActivity :: deviceActivity where
  "newDeviceActivity = (\<lambda>_. 0)"

text \<open>The loop over the devices from index \<open>i\<close> on; no device so far is the index \<open>-1\<close> of the code.\<close>

fun least_busy_loop :: "deviceActivity \<Rightarrow> Availability list \<Rightarrow> nat \<Rightarrow> int \<Rightarrow> nat option \<Rightarrow> nat option" where
  "least_busy_loop act [] i low best = best"
| "least_busy_loop act (a # as) i low best =
     (let usage = act (avID a)
      in if usage < low then least_busy_loop act as (i + 1) usage (Some i)
         else least_busy_loop act as (i + 1) low best)"

definition leastBusy :: "deviceActivity \<Rightarrow> Availability list \<Rightarrow> nat option" where
  "leastBusy act availability = least_busy_loop act availability 0 (2 * 2 ^ 30 - 1) None"

definition using_device :: "Availability \<Rightarrow> deviceActivity \<Rightarrow> deviceActivity" where
  "using_device a act = act(avID a := act (avID a) + 1)"

definition done_device :: "Availability \<Rightarrow> deviceActivity \<Rightarrow> deviceActivity" where
  "done_device a act = act(avID a := act (avID a) - 1)"

lemma done_using [simp]: "done_device a (using_device a act) = act"
  by (simp add: done_device_def using_device_def)

lemma least_busy_loop_spec:
  "case least_busy_loop act as i low best of
     None \<Rightarrow> best = None \<and> (\<forall>a \<in> set as. low \<le> act (avID a))
   | Some j \<Rightarrow> (Some j = best \<and> (\<forall>a \<in> set as. low \<le> act (avID a))) \<or>
       (i \<le> j \<and> j - i < length as \<and> act (avID (as ! (j - i))) < low \<and> (\<forall>a \<in> set as. act (avID (as ! (j - i))) \<le> act (avID a)))"
proof (induction as arbitrary: i low best)
  case (Cons a as)
  show ?case
  proof (cases "act (avID a) < low")
    case True
    have "case least_busy_loop act as (i + 1) (act (avID a)) (Some i) of None \<Rightarrow> Some i = None
      | Some j \<Rightarrow> (j = i \<and> (\<forall>b \<in> set as. act (avID a) \<le> act (avID b))) \<or>
          (i + 1 \<le> j \<and> j - (i + 1) < length as \<and> act (avID (as ! (j - (i + 1)))) < act (avID a) \<and>
             (\<forall>b \<in> set as. act (avID (as ! (j - (i + 1)))) \<le> act (avID b)))"
      using Cons.IH [where i = "i + 1" and low = "act (avID a)" and best = "Some i"] by (auto split: option.splits)
    then show ?thesis using True by (auto simp: Let_def nth_Cons' split: option.splits)
  next
    case False
    then show ?thesis using Cons.IH [where i = "i + 1" and low = low and best = best] by (auto simp: Let_def nth_Cons' split: option.splits)
  qed
qed (simp split: option.split)

lemma leastBusy_less: "leastBusy act as = Some i \<Longrightarrow> i < length as"
  using least_busy_loop_spec [where act = act and as = as and i = 0 and low = "2 * 2 ^ 30 - 1" and best = None] by (auto simp: leastBusy_def)

lemma leastBusy_some: "a \<in> set as \<Longrightarrow> act (avID a) < 2 ^ 31 - 1 \<Longrightarrow> \<exists>i. leastBusy act as = Some i"
  using least_busy_loop_spec [where act = act and as = as and i = 0 and low = "2 * 2 ^ 30 - 1" and best = None]
  by (auto simp: leastBusy_def split: option.splits)

text \<open>\<open>leastBusy\<close> gives a device that has no more outstanding requests than any other one, and
  none exactly when all of them have at least \<open>2\<^sup>3\<^sup>1 - 1\<close>.\<close>

theorem least_busy_is_minimal:
  "case leastBusy act as of
     None \<Rightarrow> \<forall>a \<in> set as. 2 ^ 31 - 1 \<le> act (avID a)
   | Some i \<Rightarrow> i < length as \<and> act (avID (as ! i)) < 2 ^ 31 - 1 \<and> (\<forall>a \<in> set as. act (avID (as ! i)) \<le> act (avID a))"
  using least_busy_loop_spec [where act = act and as = as and i = 0 and low = "2 * 2 ^ 30 - 1" and best = None] by (auto simp: leastBusy_def split: option.splits)

theorem least_busy_is_minimal_witness:
  "leastBusy (\<lambda>d. if d = [1] then 2 else 0) [\<lparr>avID = [1], FromTemporary = False\<rparr>, \<lparr>avID = [2], FromTemporary = False\<rparr>] = Some 1 \<and>
   (1::nat) < 2 \<and> (\<lambda>d. if d = [1] then 2 else (0::int)) [2 :: byte] < 2 ^ 31 - 1"
proof -
  have "leastBusy (\<lambda>d. if d = [1] then 2 else 0) [\<lparr>avID = [1], FromTemporary = False\<rparr>, \<lparr>avID = [2], FromTemporary = False\<rparr>] = Some 1" by code_simp
  then show ?thesis
    using least_busy_is_minimal [where act = "\<lambda>d. if d = [1] then 2 else 0" and as = "[\<lparr>avID = [1], FromTemporary = False\<rparr>, \<lparr>avID = [2], FromTemporary = False\<rparr>]"] by simp
qed

end
