(* ===== verification/Block_Pull.thy ===== *)
theory Block_Pull
  imports File_Blocks Puller_State Block_Reorder Device_Activity
begin

text \<open>
  Getting the blocks of a file, \<^verbatim>\<open>lib/model/folder_sendrecv.go\<close>: reusing an old temporary
  file, copying blocks from other files, and pulling them from other devices.

  The state is the shared puller state together with the bytes of the temporary file.  What the calls
  to the file system, the database and other devices return is given from outside, anew for every
  block.  A failed write leaves bytes that are given from outside, too.
\<close>

section \<open>The temporary file\<close>

record pull_cfg =
  receiveEncrypted :: bool
  DisableSparseFiles :: bool
  BlockIndexing :: bool
  standardCopy :: bool            \<comment> \<open>the copy range method is the standard one\<close>
  ignorePerms :: bool
  trailerSize :: nat              \<comment> \<open>\<open>encryptionTrailerSize\<close> of the file\<close>
  sha256 :: "bytes \<Rightarrow> bytes"

record temp_results =
  chmod_err :: "go_error option"
  tempopen_err :: "go_error option"
  truncate_err :: "go_error option"
  remove_err :: "go_error option"

record pull_state =
  shared :: sharedPullerState
  temp :: "bytes option"

definition truncate_to :: "nat \<Rightarrow> bytes \<Rightarrow> bytes" where
  "truncate_to n c = take n c @ replicate (n - length c) 0"

definition write_at :: "bytes \<Rightarrow> nat \<Rightarrow> bytes \<Rightarrow> bytes" where
  "write_at p off c = take off c @ replicate (off - length c) 0 @ p @ drop (off + length p) c"

definition temp_size :: "pull_cfg \<Rightarrow> FileInfo \<Rightarrow> nat" where
  "temp_size cfg f = nat (Size f) + (if Encrypted f \<noteq> [] then trailerSize cfg else 0)"

text \<open>\<open>tempFileInWritableDir\<close>: the error and the bytes of the file.\<close>

definition tempFileInWritableDir :: "pull_cfg \<Rightarrow> temp_results \<Rightarrow> sharedPullerState \<Rightarrow> bytes option \<Rightarrow> go_error option \<times> bytes option" where
  "tempFileInWritableDir cfg r s c =
     (if reused s \<noteq> 0 \<and> \<not> ignorePerms cfg \<and> chmod_err r \<noteq> None then (chmod_err r, c)
      else if tempopen_err r \<noteq> None then (tempopen_err r, c)
      else if reused s = 0 \<and> c \<noteq> None then (Some ''file exists'', c)
      else if reused s \<noteq> 0 \<and> c = None then (Some ''file does not exist'', c)
      else
        let fd = (case c of None \<Rightarrow> [] | Some b \<Rightarrow> b)
        in if \<not> DisableSparseFiles cfg \<and> \<not> IsSymlink (pfile s) then
             (case truncate_err r of
                None \<Rightarrow> (None, Some (truncate_to (temp_size cfg (pfile s)) fd))
              | Some e \<Rightarrow>
                  if 0 < reused s then (Some e, if remove_err r = None then None else Some fd)
                  else (None, Some fd))
           else (None, Some fd))"

definition open_result_of :: "go_error option \<Rightarrow> fs_results" where
  "open_result_of e = \<lparr>open_result = e, trailer_result = Inr 0, close_result = None\<rparr>"

text \<open>\<open>tempFile\<close> of the shared state, with its effect on the file.\<close>

definition temp_file :: "pull_cfg \<Rightarrow> temp_results \<Rightarrow> pull_state \<Rightarrow> go_error option \<times> pull_state" where
  "temp_file cfg r st =
     (if perr (shared st) \<noteq> None \<or> has_writer (shared st)
      then (case tempFile (open_result_of None) (shared st) of (e, s) \<Rightarrow> (e, st\<lparr>shared := s\<rparr>))
      else
        case tempFileInWritableDir cfg r (shared st) (temp st) of (err, c) \<Rightarrow>
          case tempFile (open_result_of err) (shared st) of (e, s) \<Rightarrow> (e, st\<lparr>shared := s, temp := c\<rparr>))"

section \<open>Reusing blocks\<close>

fun block_diff_loop :: "BlockInfo list \<Rightarrow> BlockInfo list \<Rightarrow> BlockInfo list \<Rightarrow> BlockInfo list \<Rightarrow> BlockInfo list \<times> BlockInfo list" where
  "block_diff_loop src [] have' need = (have', need)"
| "block_diff_loop [] (t # tgt) have' need = (have', need @ t # tgt)"
| "block_diff_loop (s # src) (t # tgt) have' need =
     (if Hash t \<noteq> Hash s then block_diff_loop src tgt have' (need @ [t])
      else block_diff_loop src tgt (have' @ [t]) need)"

definition blockDiff :: "BlockInfo list \<Rightarrow> BlockInfo list \<Rightarrow> BlockInfo list \<times> BlockInfo list" where
  "blockDiff src tgt =
     (if length tgt = 0 then ([], [])
      else if length src = 0 then ([], tgt)
      else block_diff_loop src tgt [] [])"

fun populate_from :: "int \<Rightarrow> BlockInfo list \<Rightarrow> BlockInfo list" where
  "populate_from off [] = []"
| "populate_from off (b # bs) = b\<lparr>Offset := off\<rparr> # populate_from (off + BSize b) bs"

definition populateOffsets :: "BlockInfo list \<Rightarrow> BlockInfo list" where
  "populateOffsets bs = populate_from 0 bs"

text \<open>The text form of a block has its offset, size and hash, so looking it up is looking for the block.\<close>

definition reuseBlocks :: "BlockInfo list option \<Rightarrow> BlockInfo list \<Rightarrow> BlockInfo list \<times> int list" where
  "reuseBlocks tempBlocks fileBlocks =
     (case tempBlocks of
        None \<Rightarrow> (fileBlocks, [])
      | Some tb \<Rightarrow>
          let existing = fst (blockDiff tb fileBlocks)
          in (filter (\<lambda>b. b \<notin> set existing) fileBlocks,
              map int (filter (\<lambda>i. fileBlocks ! i \<in> set existing) [0..<length fileBlocks])))"

text \<open>
  \<open>handleFile\<close>: the file with its offsets, the blocks to get and the state.  \<open>tempBlocks\<close> are the
  blocks of the old temporary file, when it could be hashed; removing it is assumed to work when the file exists.
\<close>

definition handleFile ::
  "pull_cfg \<Rightarrow> (BlockInfo list \<Rightarrow> BlockInfo list) \<Rightarrow> int \<Rightarrow> BlockInfo list option \<Rightarrow> FileInfo \<Rightarrow> bytes option \<Rightarrow> BlockInfo list \<times> pull_state" where
  "handleFile cfg reorder now tempBlocks f old =
     (let f = f\<lparr>Blocks := populateOffsets (Blocks f)\<rparr>;
          (blocks, reused) = (if \<not> receiveEncrypted cfg then reuseBlocks tempBlocks (Blocks f) else (Blocks f, []));
          old = (if length reused = 0 then None else old);
          blocks = reorder blocks
      in (blocks, \<lparr>shared = newSharedPullerState now f blocks reused, temp = old\<rparr>))"

section \<open>Copying\<close>

definition verifyBuffer :: "(bytes \<Rightarrow> bytes) \<Rightarrow> bytes \<Rightarrow> BlockInfo \<Rightarrow> go_error option" where
  "verifyBuffer sha buf b =
     (if int (length buf) \<noteq> BSize b then Some ''length mismatch''
      else if sha buf \<noteq> Hash b then Some ''hash mismatch''
      else None)"

text \<open>
  What the world looks like for one block: files by folder and name when they are read, and again when
  a range is copied; where the databases have blocks with a hash (an error of the query ends the list); the results for the temporary file; whether writing fails, and what it leaves then.
\<close>

record copy_io =
  src_file :: "string \<Rightarrow> string \<Rightarrow> bytes option"
  src_again :: "string \<Rightarrow> string \<Rightarrow> bytes"
  local_blocks :: "string \<Rightarrow> bytes \<Rightarrow> (string \<times> int) list"
  temp_io :: temp_results
  write_err :: "go_error option"
  torn :: bytes
  now_io :: int

definition limitedWriteAt :: "copy_io \<Rightarrow> bytes \<Rightarrow> int \<Rightarrow> pull_state \<Rightarrow> go_error option \<times> pull_state" where
  "limitedWriteAt io data off st =
     (if write_err io \<noteq> None then (write_err io, st\<lparr>temp := Some (torn io)\<rparr>)
      else if off < 0 then (Some ''negative offset'', st)
      else (None, st\<lparr>temp := map_option (write_at data (nat off)) (temp st)\<rparr>))"

definition read_at :: "bytes \<Rightarrow> int \<Rightarrow> int \<Rightarrow> bytes option" where
  "read_at c off n = (if 0 \<le> off \<and> 0 \<le> n \<and> off + n \<le> int (length c) then Some (take (nat n) (drop (nat off) c)) else None)"

definition copyBlockFromFile ::
  "pull_cfg \<Rightarrow> copy_io \<Rightarrow> string \<Rightarrow> string \<Rightarrow> int \<Rightarrow> BlockInfo \<Rightarrow> pull_state \<Rightarrow> bool \<times> pull_state" where
  "copyBlockFromFile cfg io folder srcName srcOffset b st =
     (case src_file io folder srcName of
        None \<Rightarrow> (False, st)
      | Some fd \<Rightarrow>
          (case read_at fd srcOffset (BSize b) of
             None \<Rightarrow> (False, st)
           | Some buf \<Rightarrow>
               if \<not> receiveEncrypted cfg \<and> verifyBuffer (sha256 cfg) buf b \<noteq> None then (False, st)
               else
                 case temp_file cfg (temp_io io) st of (terr, st) \<Rightarrow>
                   if terr \<noteq> None then (False, st)
                   else
                     case (if \<not> standardCopy cfg
                           then (case read_at (src_again io folder srcName) srcOffset (BSize b) of
                                   None \<Rightarrow> (Some ''unexpected EOF'', st\<lparr>temp := Some (torn io)\<rparr>)
                                 | Some part \<Rightarrow> limitedWriteAt io part (Offset b) st)
                           else limitedWriteAt io buf (Offset b) st) of (err, st) \<Rightarrow>
                       if err \<noteq> None then (False, st\<lparr>shared := fail err (shared st)\<rparr>) else (True, st)))"

fun copy_from_entries ::
  "pull_cfg \<Rightarrow> copy_io \<Rightarrow> string \<Rightarrow> BlockInfo \<Rightarrow> (string \<times> int) list \<Rightarrow> pull_state \<Rightarrow> bool \<times> pull_state" where
  "copy_from_entries cfg io folder b [] st = (False, st)"
| "copy_from_entries cfg io folder b ((name, off) # es) st =
     (case copyBlockFromFile cfg io folder name off b st of
        (True, st) \<Rightarrow>
          (True, if name = Name (pfile (shared st)) then st\<lparr>shared := copiedFromOrigin (now_io io) (shared st)\<rparr> else st)
      | (False, st) \<Rightarrow>
          if failed (shared st) \<noteq> None then (False, st) else copy_from_entries cfg io folder b es st)"

definition copyBlockFromFolder :: "pull_cfg \<Rightarrow> copy_io \<Rightarrow> string \<Rightarrow> BlockInfo \<Rightarrow> pull_state \<Rightarrow> bool \<times> pull_state" where
  "copyBlockFromFolder cfg io folder b st = copy_from_entries cfg io folder b (local_blocks io folder (Hash b)) st"

fun copy_from_folders :: "pull_cfg \<Rightarrow> copy_io \<Rightarrow> BlockInfo \<Rightarrow> string list \<Rightarrow> pull_state \<Rightarrow> bool \<times> pull_state" where
  "copy_from_folders cfg io b [] st = (False, st)"
| "copy_from_folders cfg io b (folder # folders) st =
     (case copyBlockFromFolder cfg io folder b st of
        (True, st) \<Rightarrow> (True, st)
      | (False, st) \<Rightarrow>
          if failed (shared st) \<noteq> None then (False, st) else copy_from_folders cfg io b folders st)"

text \<open>The index of a hash in the current file: the last one of its blocks with that hash.\<close>

definition curFileBlocks :: "FileInfo \<Rightarrow> bytes \<Rightarrow> nat option" where
  "curFileBlocks cur h = (case filter (\<lambda>i. Hash (Blocks cur ! i) = h) [0..<length (Blocks cur)] of [] \<Rightarrow> None | is' \<Rightarrow> Some (last is'))"

definition copyBlock ::
  "pull_cfg \<Rightarrow> copy_io \<Rightarrow> FileInfo \<Rightarrow> string \<Rightarrow> string list \<Rightarrow> BlockInfo \<Rightarrow> pull_state \<Rightarrow> bool \<times> pull_state" where
  "copyBlock cfg io cur folder others b st =
     (case (case curFileBlocks cur (Hash b) of
              Some idx \<Rightarrow> copyBlockFromFile cfg io folder (Name cur) (Offset (Blocks cur ! idx)) b st
            | None \<Rightarrow> (False, st)) of
        (True, st) \<Rightarrow> (True, st\<lparr>shared := copiedFromOrigin (now_io io) (shared st)\<rparr>)
      | (False, st) \<Rightarrow>
          if failed (shared st) \<noteq> None then (False, st)
          else copy_from_folders cfg io b ((if BlockIndexing cfg then [folder] else []) @ others) st)"

text \<open>One turn of the copier: whether to go on, and whether the block has to be pulled.\<close>

datatype copier_result = BlockDone | BlockToPull | CopierStops

definition copier_block ::
  "pull_cfg \<Rightarrow> copy_io \<Rightarrow> bool \<Rightarrow> FileInfo \<Rightarrow> string \<Rightarrow> string list \<Rightarrow> BlockInfo \<Rightarrow> pull_state \<Rightarrow> copier_result \<times> pull_state" where
  "copier_block cfg io ctxDone cur folder others b st =
     (if ctxDone then (CopierStops, st\<lparr>shared := fail (Some ''folder stopped'') (shared st)\<rparr>)
      else if BSize b = 0 then (BlockDone, st\<lparr>shared := copyDone (now_io io) b (shared st)\<rparr>)
      else if \<not> DisableSparseFiles cfg \<and> reused (shared st) = 0 \<and> Block_IsEmpty b
      then (BlockDone, st\<lparr>shared := copyDone (now_io io) b (skippedSparseBlock (now_io io) (shared st))\<rparr>)
      else
        case copyBlock cfg io cur folder others b st of
          (True, st) \<Rightarrow> (BlockDone, st\<lparr>shared := copyDone (now_io io) b (shared st)\<rparr>)
        | (False, st) \<Rightarrow>
            if failed (shared st) \<noteq> None then (CopierStops, st)
            else (BlockToPull, st\<lparr>shared := pullStarted (now_io io) (shared st)\<rparr>))"

section \<open>Pulling\<close>

text \<open>What one block sees: the context and the business of the devices at each turn of the loop, and
  what a device answers.\<close>

record pull_io = copy_io +
  ctx_done :: "nat \<Rightarrow> bool"
  busy :: "nat \<Rightarrow> deviceActivity"
  request :: "Availability \<Rightarrow> go_error + bytes"

definition last_to :: "nat \<Rightarrow> 'a list \<Rightarrow> 'a list" where
  "last_to i xs = take (length xs - 1) (xs[i := last xs])"

function pull_loop ::
  "pull_cfg \<Rightarrow> pull_io \<Rightarrow> BlockInfo \<Rightarrow> nat \<Rightarrow> Availability list \<Rightarrow> go_error option \<Rightarrow> pull_state \<Rightarrow> pull_state" where
  "pull_loop cfg io b turn candidates lastError st =
     (if ctx_done io turn then st\<lparr>shared := fail (Some ''folder stopped'') (shared st)\<rparr>
      else
        case leastBusy (busy io turn) candidates of
          None \<Rightarrow> st\<lparr>shared := fail (Some (case lastError of Some e \<Rightarrow> e | None \<Rightarrow> ''no connected device has the required block'')) (shared st)\<rparr>
        | Some found \<Rightarrow>
            let selected = candidates ! found;
                candidates = last_to found candidates
            in case request io selected of
                 Inl e \<Rightarrow> pull_loop cfg io b (turn + 1) candidates (Some e) st
               | Inr buf \<Rightarrow>
                   let lastError = (if \<not> receiveEncrypted cfg then verifyBuffer (sha256 cfg) buf b else None)
                   in if lastError \<noteq> None then pull_loop cfg io b (turn + 1) candidates lastError st
                      else case limitedWriteAt (copy_io.truncate io) buf (Offset b) st of (err, st) \<Rightarrow>
                             if err \<noteq> None then st\<lparr>shared := fail err (shared st)\<rparr>
                             else st\<lparr>shared := pullDone (now_io io) b (shared st)\<rparr>)"
  by pat_completeness auto
termination
proof (relation "measure (\<lambda>(cfg, io, b, turn, candidates, e, st). length candidates)", goal_cases)
  case (2 cfg io b turn candidates lastError st found selected cands e)
  then show ?case using leastBusy_less [OF 2(2)] by (simp add: last_to_def)
next
  case (3 cfg io b turn candidates lastError st found selected cands buf err)
  then show ?case using leastBusy_less [OF 3(2)] by (simp add: last_to_def)
qed simp

declare pull_loop.simps [simp del]

definition pullBlock :: "pull_cfg \<Rightarrow> pull_io \<Rightarrow> Availability list \<Rightarrow> BlockInfo \<Rightarrow> pull_state \<Rightarrow> pull_state" where
  "pullBlock cfg io candidates b st =
     (case temp_file cfg (temp_io io) st of (err, st) \<Rightarrow>
        if err \<noteq> None then st
        else if Block_IsEmpty b then
          (case (if reused (shared st) \<noteq> 0 \<or> DisableSparseFiles cfg
                 then limitedWriteAt (copy_io.truncate io) (replicate (nat (BSize b)) 0) (Offset b) st
                 else (None, st)) of (err, st) \<Rightarrow>
             if err \<noteq> None then st\<lparr>shared := fail err (shared st)\<rparr>
             else st\<lparr>shared := pullDone (now_io io) b (shared st)\<rparr>)
        else pull_loop cfg io b 0 candidates None st)"

text \<open>What \<open>pullerRoutine\<close> does with a block; \<open>limiterErr\<close> is the result of waiting for the request limiter.\<close>

definition puller_block ::
  "pull_cfg \<Rightarrow> pull_io \<Rightarrow> go_error option \<Rightarrow> Availability list \<Rightarrow> BlockInfo \<Rightarrow> pull_state \<Rightarrow> pull_state" where
  "puller_block cfg io limiterErr candidates b st =
     (if failed (shared st) \<noteq> None then st
      else if BSize b = 0 then st\<lparr>shared := pullDone (now_io io) b (shared st)\<rparr>
      else if limiterErr \<noteq> None then st\<lparr>shared := fail limiterErr (shared st)\<rparr>
      else pullBlock cfg io candidates b st)"

section \<open>Closing\<close>

definition final_close :: "pull_cfg \<Rightarrow> temp_results \<Rightarrow> fs_results \<Rightarrow> pull_state \<Rightarrow> bool \<times> go_error option \<times> pull_state" where
  "final_close cfg tr r st =
     (case (if has_writer (shared st) then (None, temp st) else tempFileInWritableDir cfg tr (shared st) (temp st)) of (err, c) \<Rightarrow>
        case finalClose (r\<lparr>open_result := err\<rparr>) (shared st) of (closed, e, s) \<Rightarrow>
          (closed, e, if pclosed (shared st) \<or> pullNeeded (shared st) + copyNeeded (shared st) \<noteq> 0 \<and> perr (shared st) = None
                      then st else st\<lparr>shared := s, temp := c\<rparr>))"

end
