(* ===== verification/Pull_Content.thy ===== *)
theory Pull_Content
  imports Block_Pull
begin

text \<open>
  What is in the temporary file: however copiers and pullers interleave, a file that is finished without
  an error has, at the place of each of its blocks, bytes with the hash of the block.
\<close>

section \<open>Bytes\<close>

lemma length_truncate_to [simp]: "length (truncate_to n c) = n"
  by (simp add: truncate_to_def)

lemma length_write_at [simp]: "length (write_at p off c) = max (length c) (off + length p)"
  by (simp add: write_at_def)

lemma nth_write_at:
  "i < length (write_at p off c) \<Longrightarrow> write_at p off c ! i =
     (if off \<le> i \<and> i < off + length p then p ! (i - off) else if i < length c then c ! i else 0)"
  by (cases "off \<le> length c") (auto simp: write_at_def nth_append not_less min_def)

lemma nth_truncate_to: "i < n \<Longrightarrow> truncate_to n c ! i = (if i < length c then c ! i else 0)"
  by (simp add: truncate_to_def nth_append)

lemma truncate_twice [simp]: "truncate_to n (truncate_to n c) = truncate_to n c"
  by (simp add: truncate_to_def)

definition block_range :: "BlockInfo \<Rightarrow> nat set" where
  "block_range b = {nat (Offset b)..<nat (Offset b) + nat (BSize b)}"

lemma block_bytes_cong:
  assumes "nat (Offset b) + nat (BSize b) \<le> length c" and "nat (Offset b) + nat (BSize b) \<le> length d"
    and "\<And>i. i \<in> block_range b \<Longrightarrow> c ! i = d ! i"
  shows "block_bytes b c = block_bytes b d"
  by (rule nth_equalityI) (use assms in \<open>auto simp: block_bytes_def block_range_def\<close>)

lemma write_block: "int (length p) = BSize b \<Longrightarrow> block_bytes b (write_at p (nat (Offset b)) c) = p"
  by (rule nth_equalityI) (auto simp: block_bytes_def nth_write_at)

text \<open>The blocks of a file do not overlap.\<close>

lemma consecutive_disjoint:
  "consecutive off bs n \<Longrightarrow> 0 \<le> off \<Longrightarrow> b \<in> set bs \<Longrightarrow> b' \<in> set bs \<Longrightarrow> b \<noteq> b' \<Longrightarrow> block_range b \<inter> block_range b' = {}"
proof (induction bs arbitrary: off)
  case (Cons a bs)
  have later: "block_range a \<inter> block_range x = {}" if "x \<in> set bs" for x
    using consecutive_inside [of "off + BSize a" bs n x] Cons.prems that by (auto simp: block_range_def)
  show ?case
  proof (cases "b = a \<or> b' = a")
    case True
    then show ?thesis using later Cons.prems(3-5) by auto
  next
    case False
    then show ?thesis using Cons.IH [of "off + BSize a"] Cons.prems by simp
  qed
qed simp

lemma populate_consecutive:
  "\<forall>b \<in> set bs. 0 \<le> BSize b \<Longrightarrow> consecutive off (populate_from off bs) (off + sum_list (map BSize bs))"
  by (induction bs arbitrary: off) (auto simp: add.assoc [symmetric])

section \<open>The file as it will be\<close>

definition eff :: "pull_cfg \<Rightarrow> pull_state \<Rightarrow> bytes" where
  "eff cfg st =
     (let c = (case temp st of None \<Rightarrow> [] | Some b \<Rightarrow> b)
      in if has_writer (shared st) \<or> DisableSparseFiles cfg then c else truncate_to (temp_size cfg (pfile (shared st))) c)"

definition opened_ok :: "pull_state \<Rightarrow> bool" where
  "opened_ok st \<longleftrightarrow> (has_writer (shared st) \<longrightarrow> temp st \<noteq> None) \<and>
     (\<not> has_writer (shared st) \<longrightarrow> (temp st = None \<longleftrightarrow> reused (shared st) = 0)) \<and> 0 \<le> reused (shared st) \<and> \<not> IsSymlink (pfile (shared st))"

definition same_core :: "pull_state \<Rightarrow> pull_state \<Rightarrow> bool" where
  "same_core st st' \<longleftrightarrow> pfile (shared st') = pfile (shared st) \<and> reused (shared st') = reused (shared st) \<and>
     copyNeeded (shared st') = copyNeeded (shared st) \<and> pullNeeded (shared st') = pullNeeded (shared st) \<and> pclosed (shared st') = pclosed (shared st)"

text \<open>The calls behave: truncating works, and a range that is copied is the range that was read before.\<close>

definition steady :: "pull_cfg \<Rightarrow> copy_io \<Rightarrow> bool" where
  "steady cfg io \<longleftrightarrow> truncate_err (temp_io io) = None \<and>
     (standardCopy cfg \<or> (\<forall>folder name c. src_file io folder name = Some c \<longrightarrow> src_again io folder name = c))"

definition verified :: "pull_cfg \<Rightarrow> BlockInfo \<Rightarrow> bytes \<Rightarrow> bool" where
  "verified cfg b buf \<longleftrightarrow> int (length buf) = BSize b \<and> sha256 cfg buf = Hash b"

lemma verifyBuffer_None: "verifyBuffer (sha256 cfg) buf b = None \<longleftrightarrow> verified cfg b buf"
  by (simp add: verifyBuffer_def verified_def)

text \<open>An operation that may write the block: it fails, or it does nothing, or it writes verified bytes.\<close>

definition may_write :: "pull_cfg \<Rightarrow> BlockInfo \<Rightarrow> pull_state \<Rightarrow> bool \<times> pull_state \<Rightarrow> bool" where
  "may_write cfg b st r \<longleftrightarrow> (case r of (ok, st') \<Rightarrow>
     (perr (shared st') \<noteq> None \<and> \<not> ok) \<or>
     (perr (shared st') = None \<and> same_core st st' \<and> opened_ok st' \<and>
      (if ok then \<exists>buf. verified cfg b buf \<and> eff cfg st' = write_at buf (nat (Offset b)) (eff cfg st) else eff cfg st' = eff cfg st)))"

lemma temp_file_ok:
  assumes "perr (shared st) = None" and "opened_ok st" and "truncate_err r = None" and "temp_file cfg r st = (err, st')"
  shows "(case err of Some e \<Rightarrow> perr (shared st') \<noteq> None
     | None \<Rightarrow> perr (shared st') = None \<and> same_core st st' \<and> opened_ok st' \<and> has_writer (shared st') \<and> eff cfg st' = eff cfg st)"
proof (cases "has_writer (shared st)")
  case True
  then have "err = None" "st' = st" using assms(1, 4) by (auto simp: temp_file_def tempFile_def)
  then show ?thesis using assms(1, 2) True by (simp add: same_core_def)
next
  case False
  obtain e c where open': "tempFileInWritableDir cfg r (shared st) (temp st) = (e, c)" by fastforce
  show ?thesis
  proof (cases e)
    case (Some x)
    then show ?thesis using False open' assms(1, 4)
      by (auto simp: temp_file_def tempFile_def addWriterLocked_def open_result_of_def failLocked_def)
  next
    case None
    then have st': "err = None" "st' = st\<lparr>shared := (shared st)\<lparr>has_writer := True\<rparr>, temp := c\<rparr>"
      using False open' assms(1, 4) by (auto simp: temp_file_def tempFile_def addWriterLocked_def open_result_of_def)
    have "c = Some (eff cfg st)"
      using open' None False assms(2, 3)
      by (auto simp: tempFileInWritableDir_def eff_def opened_ok_def Let_def split: if_splits option.splits)
    then show ?thesis using st' assms(1, 2) by (simp add: same_core_def opened_ok_def eff_def Let_def)
  qed
qed

lemma write_ok:
  assumes "perr (shared st) = None" and "opened_ok st" and "has_writer (shared st)" and "limitedWriteAt io buf (Offset b) st = (err, st')"
  shows "shared st' = shared st \<and> opened_ok st' \<and> (err = None \<longrightarrow> eff cfg st' = write_at buf (nat (Offset b)) (eff cfg st))"
  using assms by (auto simp: limitedWriteAt_def opened_ok_def eff_def Let_def split: if_splits)

lemma fail_perr [simp]: "perr (fail err s) = (case perr s of None \<Rightarrow> err | Some e \<Rightarrow> Some e)"
  by (auto simp: fail_def failLocked_def split: option.split)

lemma may_write_refl: "perr (shared st) = None \<Longrightarrow> opened_ok st \<Longrightarrow> may_write cfg b st (False, st)"
  by (simp add: may_write_def same_core_def)

lemma may_write_failed: "perr (shared st') \<noteq> None \<Longrightarrow> may_write cfg b st (False, st')"
  by (simp add: may_write_def)

text \<open>After an attempt that did nothing, the next one starts from the same file.\<close>

lemma may_write_trans:
  assumes "may_write cfg b st (False, st1)" and "perr (shared st1) = None \<Longrightarrow> opened_ok st1 \<Longrightarrow> may_write cfg b st1 r" and "perr (shared st1) = None"
  shows "may_write cfg b st r"
  using assms by (auto simp: may_write_def same_core_def split: prod.splits if_splits)

lemma may_write_update:
  assumes "may_write cfg b st (ok, st')" and "\<And>s. perr (g s) = perr s \<and> pfile (g s) = pfile s \<and> reused (g s) = reused s \<and>
      copyNeeded (g s) = copyNeeded s \<and> pullNeeded (g s) = pullNeeded s \<and> pclosed (g s) = pclosed s \<and> has_writer (g s) = has_writer s"
  shows "may_write cfg b st (ok, st'\<lparr>shared := g (shared st')\<rparr>)"
proof -
  let ?st = "st'\<lparr>shared := g (shared st')\<rparr>"
  have "eff cfg ?st = eff cfg st'" "opened_ok ?st = opened_ok st'" "same_core st ?st = same_core st st'" "perr (shared ?st) = perr (shared st')"
    using assms(2) [of "shared st'"] by (simp_all add: same_core_def opened_ok_def eff_def Let_def)
  then show ?thesis using assms(1) by (cases ok) (simp_all add: may_write_def)
qed

section \<open>Copying\<close>

lemma copyBlockFromFile_writes:
  assumes "perr (shared st) = None" and "opened_ok st" and "steady cfg io" and "\<not> receiveEncrypted cfg"
  shows "may_write cfg b st (copyBlockFromFile cfg io folder name off b st)"
proof (cases "src_file io folder name")
  case None
  then show ?thesis using may_write_refl [OF assms(1, 2)] by (simp add: copyBlockFromFile_def)
next
  case (Some fd)
  show ?thesis
  proof (cases "read_at fd off (BSize b)")
    case None
    then show ?thesis using may_write_refl [OF assms(1, 2)] Some by (simp add: copyBlockFromFile_def)
  next
    case buf: (Some buf)
    show ?thesis
    proof (cases "verified cfg b buf")
      case False
      then show ?thesis using may_write_refl [OF assms(1, 2)] Some buf assms(4) by (simp add: copyBlockFromFile_def verifyBuffer_None [symmetric])
    next
      case True
      obtain terr st1 where tf: "temp_file cfg (temp_io io) st = (terr, st1)" by fastforce
      have tr: "truncate_err (temp_io io) = None" using assms(3) by (simp add: steady_def)
      note temp = temp_file_ok [OF assms(1, 2) tr tf]
      have ver: "verifyBuffer (sha256 cfg) buf b = None" using True by (simp add: verifyBuffer_None)
      show ?thesis
      proof (cases terr)
        case (Some e)
        then have "perr (shared st1) \<noteq> None" using temp by simp
        then show ?thesis using \<open>src_file io folder name = Some fd\<close> buf ver tf Some
          by (simp add: copyBlockFromFile_def may_write_failed)
      next
        case None
        have st1: "perr (shared st1) = None" "same_core st st1" "opened_ok st1" "has_writer (shared st1)" "eff cfg st1 = eff cfg st"
          using temp None by simp_all
        have same: "standardCopy cfg \<or> read_at (src_again io folder name) off (BSize b) = Some buf"
          using assms(3) \<open>src_file io folder name = Some fd\<close> buf by (auto simp: steady_def)
        obtain err st2 where wr: "limitedWriteAt io buf (Offset b) st1 = (err, st2)" by fastforce
        note w = write_ok [OF st1(1, 3, 4) wr, of cfg]
        have "copyBlockFromFile cfg io folder name off b st =
            (if err \<noteq> None then (False, st2\<lparr>shared := fail err (shared st2)\<rparr>) else (True, st2))"
          using \<open>src_file io folder name = Some fd\<close> buf ver tf None same wr by (auto simp: copyBlockFromFile_def)
        then show ?thesis
          using w st1 True by (cases err) (auto simp: may_write_failed may_write_def same_core_def)
      qed
    qed
  qed
qed

lemma copy_from_entries_writes:
  assumes "perr (shared st) = None" and "opened_ok st" and "steady cfg io" and "\<not> receiveEncrypted cfg"
  shows "may_write cfg b st (copy_from_entries cfg io folder b es st)"
  using assms(1, 2)
proof (induction es arbitrary: st)
  case (Cons e es)
  obtain name off where e: "e = (name, off)" by (cases e)
  obtain ok st1 where c: "copyBlockFromFile cfg io folder name off b st = (ok, st1)" by fastforce
  have w: "may_write cfg b st (ok, st1)" using copyBlockFromFile_writes [OF Cons.prems assms(3, 4), of b folder name off] c by simp
  show ?case
  proof (cases ok)
    case True
    then show ?thesis using w c e may_write_update [of cfg b st True st1 "copiedFromOrigin (now_io io)"] by (simp add: copiedFromOrigin_def)
  next
    case False
    show ?thesis
    proof (cases "perr (shared st1)")
      case None
      then show ?thesis using False w c e may_write_trans [of cfg b st st1] Cons.IH by (simp add: failed_def)
    next
      case (Some x)
      then show ?thesis using False c e by (simp add: failed_def may_write_failed)
    qed
  qed
qed (simp add: may_write_refl)

lemma copy_from_folders_writes:
  assumes "perr (shared st) = None" and "opened_ok st" and "steady cfg io" and "\<not> receiveEncrypted cfg"
  shows "may_write cfg b st (copy_from_folders cfg io b folders st)"
  using assms(1, 2)
proof (induction folders arbitrary: st)
  case (Cons folder folders)
  obtain ok st1 where c: "copyBlockFromFolder cfg io folder b st = (ok, st1)" by fastforce
  have w: "may_write cfg b st (ok, st1)"
    using copy_from_entries_writes [OF Cons.prems assms(3, 4)] c by (metis copyBlockFromFolder_def)
  show ?case
  proof (cases ok)
    case False
    show ?thesis
    proof (cases "perr (shared st1)")
      case None
      then show ?thesis using False w c may_write_trans [of cfg b st st1] Cons.IH by (simp add: failed_def)
    next
      case (Some x)
      then show ?thesis using False c by (simp add: failed_def may_write_failed)
    qed
  qed (use w c in simp)
qed (simp add: may_write_refl)

lemma copyBlock_writes:
  assumes "perr (shared st) = None" and "opened_ok st" and "steady cfg io" and "\<not> receiveEncrypted cfg"
  shows "may_write cfg b st (copyBlock cfg io cur folder others b st)"
proof -
  define first where "first = (case curFileBlocks cur (Hash b) of
      Some idx \<Rightarrow> copyBlockFromFile cfg io folder (Name cur) (Offset (Blocks cur ! idx)) b st | None \<Rightarrow> (False, st))"
  obtain ok st1 where c: "first = (ok, st1)" by fastforce
  have w: "may_write cfg b st (ok, st1)"
  proof (cases "curFileBlocks cur (Hash b)")
    case None
    then show ?thesis using may_write_refl [OF assms(1, 2)] c by (simp add: first_def)
  next
    case (Some idx)
    then show ?thesis using copyBlockFromFile_writes [OF assms, of b folder "Name cur" "Offset (Blocks cur ! idx)"] c by (simp add: first_def)
  qed
  show ?thesis
  proof (cases ok)
    case True
    then show ?thesis using w c may_write_update [of cfg b st True st1 "copiedFromOrigin (now_io io)"]
      by (simp add: copyBlock_def first_def copiedFromOrigin_def)
  next
    case False
    show ?thesis
    proof (cases "perr (shared st1)")
      case None
      then show ?thesis using False w c may_write_trans [of cfg b st st1] copy_from_folders_writes [OF _ _ assms(3, 4)]
        by (simp add: copyBlock_def first_def failed_def)
    next
      case (Some x)
      then show ?thesis using False c by (simp add: copyBlock_def first_def failed_def may_write_failed)
    qed
  qed
qed

section \<open>Steps\<close>

text \<open>
  The copier takes one block after the other, the pullers take blocks that wait in any order; \<open>io\<close> is
  what the outside does, restricted by \<open>P\<close>.
\<close>

type_synonym pull_system = "BlockInfo list \<times> BlockInfo list \<times> pull_state"

inductive pull_step ::
  "pull_cfg \<Rightarrow> (copy_io \<Rightarrow> bool) \<Rightarrow> FileInfo \<Rightarrow> string \<Rightarrow> string list \<Rightarrow> pull_system \<Rightarrow> pull_system \<Rightarrow> bool" for cfg P cur folder others where
  copied: "P io \<Longrightarrow> copier_block cfg io ctxDone cur folder others b st = (BlockDone, st') \<Longrightarrow>
    pull_step cfg P cur folder others (b # todo, pulling, st) (todo, pulling, st')"
| to_pull: "P io \<Longrightarrow> copier_block cfg io ctxDone cur folder others b st = (BlockToPull, st') \<Longrightarrow>
    pull_step cfg P cur folder others (b # todo, pulling, st) (todo, b # pulling, st')"
| stopped: "P io \<Longrightarrow> copier_block cfg io ctxDone cur folder others b st = (CopierStops, st') \<Longrightarrow>
    pull_step cfg P cur folder others (b # todo, pulling, st) ([], pulling, st')"
| no_blocks: "P io \<Longrightarrow> temp_file cfg (temp_io io) st = (err, st') \<Longrightarrow>
    pull_step cfg P cur folder others ([], pulling, st) ([], pulling, st'\<lparr>shared := fail err (shared st')\<rparr>)"
| pulled: "b \<in> set pulling \<Longrightarrow> P (copy_io.truncate io) \<Longrightarrow>
    pull_step cfg P cur folder others (todo, pulling, st) (todo, remove1 b pulling, puller_block cfg io limiterErr candidates b st)"

section \<open>Pulling\<close>

text \<open>A block that is pulled: the state fails, or the block is done with verified bytes.\<close>

definition pulls :: "pull_cfg \<Rightarrow> BlockInfo \<Rightarrow> pull_state \<Rightarrow> pull_state \<Rightarrow> bool" where
  "pulls cfg b st st' \<longleftrightarrow> perr (shared st') \<noteq> None \<or>
     (\<exists>st1 now. may_write cfg b st (True, st1) \<and> perr (shared st1) = None \<and> st' = st1\<lparr>shared := pullDone now b (shared st1)\<rparr>)"

lemma pull_loop_pulls:
  assumes "perr (shared st) = None" and "opened_ok st" and "has_writer (shared st)" and "\<not> receiveEncrypted cfg"
  shows "pulls cfg b st (pull_loop cfg io b turn candidates lastError st)"
  using assms
proof (induction cfg io b turn candidates lastError st rule: pull_loop.induct)
  case (1 cfg io b turn candidates lastError st)
  show ?case
  proof (cases "ctx_done io turn")
    case True
    then show ?thesis using "1.prems"(1) by (subst pull_loop.simps) (simp add: pulls_def)
  next
    case on: False
    show ?thesis
    proof (cases "leastBusy (busy io turn) candidates")
      case None
      then show ?thesis using on "1.prems"(1) by (subst pull_loop.simps) (simp add: pulls_def)
    next
      case found: (Some i)
      note unf = pull_loop.simps [of cfg io b turn candidates lastError st]
      show ?thesis
      proof (cases "request io (candidates ! i)")
        case (Inl e)
        then show ?thesis using "1.IH"(1) [OF on found refl refl Inl "1.prems"] on found by (simp add: unf Let_def)
      next
        case (Inr buf)
        show ?thesis
        proof (cases "verifyBuffer (sha256 cfg) buf b")
          case (Some e)
          then show ?thesis
            using "1.IH"(2) [OF on found refl refl Inr refl _ "1.prems"] on found Inr "1.prems"(4) by (simp add: unf Let_def)
        next
          case None
          obtain err st2 where wr: "limitedWriteAt (copy_io.truncate io) buf (Offset b) st = (err, st2)" by fastforce
          note w = write_ok [OF "1.prems"(1-3) wr, of cfg]
          have loop: "pull_loop cfg io b turn candidates lastError st =
              (if err \<noteq> None then st2\<lparr>shared := fail err (shared st2)\<rparr> else st2\<lparr>shared := pullDone (now_io io) b (shared st2)\<rparr>)"
            using on found Inr None "1.prems"(4) wr by (simp add: unf Let_def)
          have ver: "verified cfg b buf" using None by (simp add: verifyBuffer_None)
          show ?thesis
          proof (cases err)
            case (Some e)
            then show ?thesis using loop w "1.prems"(1) by (simp add: pulls_def)
          next
            case None
            then have "may_write cfg b st (True, st2)" "perr (shared st2) = None"
              using w ver "1.prems"(1) by (auto simp: may_write_def same_core_def)
            then show ?thesis unfolding loop pulls_def using None by auto
          qed
        qed
      qed
    qed
  qed
qed

text \<open>A block of zeros is not asked for: it is written when the file may have something else there.\<close>

definition left_blank :: "pull_cfg \<Rightarrow> BlockInfo \<Rightarrow> pull_state \<Rightarrow> pull_state \<Rightarrow> bool" where
  "left_blank cfg b st st' \<longleftrightarrow> \<not> DisableSparseFiles cfg \<and> reused (shared st) = 0 \<and> Block_IsEmpty b \<and>
     (\<exists>st1 now. may_write cfg b st (False, st1) \<and> perr (shared st1) = None \<and> st' = st1\<lparr>shared := pullDone now b (shared st1)\<rparr>)"

definition zero_table :: "pull_cfg \<Rightarrow> bool" where
  "zero_table cfg \<longleftrightarrow> (\<forall>(n, h) \<in> set sha256OfEmptyBlock. sha256 cfg (replicate (nat n) 0) = h)"

lemma zeros_verified: "zero_table cfg \<Longrightarrow> Block_IsEmpty b \<Longrightarrow> 0 \<le> BSize b \<Longrightarrow> verified cfg b (replicate (nat (BSize b)) 0)"
  by (auto simp: zero_table_def Block_IsEmpty_def verified_def dest!: map_of_SomeD split: option.splits)

lemma may_write_before:
  assumes "same_core st st1" and "eff cfg st1 = eff cfg st" and "may_write cfg b st1 r"
  shows "may_write cfg b st r"
  using assms by (auto simp: may_write_def same_core_def split: prod.splits if_splits)

lemma pullBlock_pulls:
  assumes "perr (shared st) = None" and "opened_ok st" and "\<not> receiveEncrypted cfg" and "zero_table cfg" and "0 \<le> BSize b"
    and "truncate_err (temp_io io) = None"
  shows "pulls cfg b st (pullBlock cfg io candidates b st) \<or> left_blank cfg b st (pullBlock cfg io candidates b st)"
proof -
  obtain terr st1 where tf: "temp_file cfg (temp_io io) st = (terr, st1)" by fastforce
  note temp = temp_file_ok [OF assms(1, 2, 6) tf]
  show ?thesis
  proof (cases terr)
    case (Some e)
    then show ?thesis using temp tf by (simp add: pullBlock_def pulls_def)
  next
    case None
    then have st1: "perr (shared st1) = None" "same_core st st1" "opened_ok st1" "has_writer (shared st1)" "eff cfg st1 = eff cfg st"
      using temp by simp_all
    consider (pull) "\<not> Block_IsEmpty b" | (zeros) "Block_IsEmpty b" "reused (shared st1) \<noteq> 0 \<or> DisableSparseFiles cfg"
      | (sparse) "Block_IsEmpty b" "\<not> (reused (shared st1) \<noteq> 0 \<or> DisableSparseFiles cfg)" by blast
    then show ?thesis
    proof cases
      case pull
      then have "pullBlock cfg io candidates b st = pull_loop cfg io b 0 candidates None st1"
        using tf None by (simp add: pullBlock_def)
      moreover have "pulls cfg b st1 (pull_loop cfg io b 0 candidates None st1)"
        by (rule pull_loop_pulls [OF st1(1, 3, 4) assms(3)])
      ultimately show ?thesis using may_write_before [OF st1(2, 5)] unfolding pulls_def by metis
    next
      case zeros
      obtain err st2 where wr: "limitedWriteAt (copy_io.truncate io) (replicate (nat (BSize b)) 0) (Offset b) st1 = (err, st2)" by fastforce
      note w = write_ok [OF st1(1, 3, 4) wr, of cfg]
      have p: "pullBlock cfg io candidates b st =
          (if err \<noteq> None then st2\<lparr>shared := fail err (shared st2)\<rparr> else st2\<lparr>shared := pullDone (now_io io) b (shared st2)\<rparr>)"
        using tf None zeros wr by (simp add: pullBlock_def)
      show ?thesis
      proof (cases err)
        case (Some e)
        then show ?thesis using p w st1(1) by (simp add: pulls_def)
      next
        case None
        then have "may_write cfg b st (True, st2)" "perr (shared st2) = None"
          using w st1 zeros_verified [OF assms(4) zeros(1) assms(5)] by (auto simp: may_write_def same_core_def)
        then show ?thesis unfolding p pulls_def using None by auto
      qed
    next
      case sparse
      then have "pullBlock cfg io candidates b st = st1\<lparr>shared := pullDone (now_io io) b (shared st1)\<rparr>"
        using tf None by (simp add: pullBlock_def)
      moreover have "may_write cfg b st (False, st1)" using st1 by (simp add: may_write_def)
      ultimately show ?thesis using sparse st1 unfolding left_blank_def same_core_def by metis
    qed
  qed
qed

section \<open>The bytes of the blocks\<close>

text \<open>A block is good when the file has its bytes, and blank while nothing was written to it.\<close>

definition good :: "pull_cfg \<Rightarrow> BlockInfo \<Rightarrow> bytes \<Rightarrow> bool" where
  "good cfg b c \<longleftrightarrow> BSize b = 0 \<or> nat (Offset b) + nat (BSize b) \<le> length c \<and> sha256 cfg (block_bytes b c) = Hash b"

definition blank :: "BlockInfo \<Rightarrow> bytes \<Rightarrow> bool" where
  "blank b c \<longleftrightarrow> (\<forall>i \<in> block_range b. i < length c \<longrightarrow> c ! i = 0)"

text \<open>A file with its offsets that can be pulled.\<close>

definition pullable :: "pull_cfg \<Rightarrow> FileInfo \<Rightarrow> bool" where
  "pullable cfg f \<longleftrightarrow> \<not> receiveEncrypted cfg \<and> Encrypted f = [] \<and> \<not> IsSymlink f \<and> consecutive 0 (Blocks f) (Size f) \<and> zero_table cfg"

text \<open>Every block of the file is good, or it is waiting; when nothing was reused, then it is blank while it waits.\<close>

definition content_ok :: "pull_cfg \<Rightarrow> FileInfo \<Rightarrow> bool \<Rightarrow> BlockInfo set \<Rightarrow> bytes \<Rightarrow> bool" where
  "content_ok cfg f fresh waiting c \<longleftrightarrow> length c \<le> nat (Size f) \<and> (\<not> DisableSparseFiles cfg \<longrightarrow> length c = nat (Size f)) \<and>
     (\<forall>b \<in> set (Blocks f). good cfg b c \<or> b \<in> waiting \<and> (fresh \<longrightarrow> blank b c))"

lemma content_ok_mono: "content_ok cfg f fresh waiting c \<Longrightarrow> waiting \<subseteq> waiting' \<Longrightarrow> content_ok cfg f fresh waiting' c"
  unfolding content_ok_def by blast

lemma block_inside:
  assumes "consecutive 0 bs n" and "b \<in> set bs"
  shows "0 \<le> Offset b" "0 \<le> BSize b" "nat (Offset b) + nat (BSize b) \<le> nat n"
  using consecutive_inside [OF assms] by auto

lemma good_other_write:
  assumes "consecutive 0 bs n" and "b \<in> set bs" and "b' \<in> set bs" and "b' \<noteq> b" and "int (length buf) = BSize b" and "good cfg b' c"
  shows "good cfg b' (write_at buf (nat (Offset b)) c)"
proof (cases "BSize b' = 0")
  case False
  let ?c = "write_at buf (nat (Offset b)) c"
  have disj: "block_range b \<inter> block_range b' = {}" by (rule consecutive_disjoint [OF assms(1) _ assms(2, 3)]) (use assms(4) in simp_all)
  have inside: "nat (Offset b') + nat (BSize b') \<le> length c" "sha256 cfg (block_bytes b' c) = Hash b'"
    using assms(6) False by (simp_all add: good_def)
  have "block_bytes b' ?c = block_bytes b' c"
  proof (rule block_bytes_cong)
    fix i
    assume i: "i \<in> block_range b'"
    then have "i \<notin> block_range b" "i < length c" using disj inside(1) by (auto simp: block_range_def)
    then show "?c ! i = c ! i" using assms(5) by (auto simp: nth_write_at block_range_def)
  qed (use inside(1) in auto)
  then show ?thesis using inside by (auto simp: good_def)
qed (simp add: good_def)

lemma blank_other_write:
  assumes "consecutive 0 bs n" and "b \<in> set bs" and "b' \<in> set bs" and "b' \<noteq> b" and "int (length buf) = BSize b" and "blank b' c"
  shows "blank b' (write_at buf (nat (Offset b)) c)"
proof -
  have disj: "block_range b \<inter> block_range b' = {}" by (rule consecutive_disjoint [OF assms(1) _ assms(2, 3)]) (use assms(4) in simp_all)
  show ?thesis unfolding blank_def
  proof (intro ballI impI)
    fix i
    assume i: "i \<in> block_range b'" "i < length (write_at buf (nat (Offset b)) c)"
    then have "i \<notin> block_range b" using disj by blast
    then show "write_at buf (nat (Offset b)) c ! i = 0"
      using i assms(5, 6) by (auto simp: nth_write_at block_range_def blank_def)
  qed
qed

text \<open>Writing verified bytes to the place of a block.\<close>

lemma content_write:
  assumes "pullable cfg f" and "content_ok cfg f fresh waiting c" and "b \<in> set (Blocks f)" and "verified cfg b buf" and "waiting \<subseteq> insert b waiting'"
  shows "content_ok cfg f fresh waiting' (write_at buf (nat (Offset b)) c)"
proof -
  let ?c = "write_at buf (nat (Offset b)) c"
  have cons: "consecutive 0 (Blocks f) (Size f)" using assms(1) by (simp add: pullable_def)
  note inside = block_inside [OF cons assms(3)]
  have len: "int (length buf) = BSize b" using assms(4) by (simp add: verified_def)
  then have lenn: "length buf = nat (BSize b)" by simp
  have "good cfg b ?c" using assms(4) lenn inside(2) by (simp add: good_def write_block [OF len] verified_def)
  then have "good cfg b' ?c \<or> b' \<in> waiting' \<and> (fresh \<longrightarrow> blank b' ?c)" if "b' \<in> set (Blocks f)" for b'
    using assms(2, 5) that good_other_write [OF cons assms(3) that _ len] blank_other_write [OF cons assms(3) that _ len]
    unfolding content_ok_def by (cases "b' = b") auto
  moreover have "length ?c \<le> nat (Size f)" "\<not> DisableSparseFiles cfg \<longrightarrow> length ?c = nat (Size f)"
    using assms(2) inside(3) lenn by (auto simp: content_ok_def)
  ultimately show ?thesis unfolding content_ok_def by blast
qed

text \<open>Leaving out a block of zeros in a sparse file.\<close>

lemma blank_good:
  assumes "pullable cfg f" and "b \<in> set (Blocks f)" and "length c = nat (Size f)" and "blank b c" and "Block_IsEmpty b"
  shows "good cfg b c"
proof -
  have cons: "consecutive 0 (Blocks f) (Size f)" using assms(1) by (simp add: pullable_def)
  note inside = block_inside [OF cons assms(2)]
  have "block_bytes b c = replicate (nat (BSize b)) 0"
    by (rule nth_equalityI) (use assms(3, 4) inside in \<open>auto simp: block_bytes_def blank_def block_range_def\<close>)
  then show ?thesis
    using zeros_verified [of cfg b] assms(1, 3, 5) inside by (simp add: good_def pullable_def verified_def)
qed

lemma content_blank:
  assumes "pullable cfg f" and "content_ok cfg f True waiting c" and "b \<in> set (Blocks f)" and "\<not> DisableSparseFiles cfg" and "Block_IsEmpty b"
    and "waiting \<subseteq> insert b waiting'"
  shows "content_ok cfg f True waiting' c"
  using assms(2, 4, 6) blank_good [OF assms(1, 3) _ _ assms(5), of c] unfolding content_ok_def by blast

lemma content_empty:
  assumes "content_ok cfg f fresh waiting c" and "BSize b = 0" and "waiting \<subseteq> insert b waiting'"
  shows "content_ok cfg f fresh waiting' c"
  using assms unfolding content_ok_def good_def by blast

section \<open>Invariant\<close>

definition pull_core :: "pull_cfg \<Rightarrow> FileInfo \<Rightarrow> int \<Rightarrow> int \<Rightarrow> BlockInfo set \<Rightarrow> pull_state \<Rightarrow> bool" where
  "pull_core cfg f nc np waiting st \<longleftrightarrow> pfile (shared st) = f \<and> \<not> pclosed (shared st) \<and> opened_ok st \<and>
     copyNeeded (shared st) = nc \<and> pullNeeded (shared st) = np \<and> content_ok cfg f (reused (shared st) = 0) waiting (eff cfg st)"

fun pull_inv :: "pull_cfg \<Rightarrow> FileInfo \<Rightarrow> pull_system \<Rightarrow> bool" where
  "pull_inv cfg f (todo, pulling, st) \<longleftrightarrow> set todo \<union> set pulling \<subseteq> set (Blocks f) \<and>
     (perr (shared st) = None \<longrightarrow> pull_core cfg f (int (length todo)) (int (length pulling)) (set todo \<union> set pulling) st)"

lemma core_write:
  assumes "pullable cfg f" and "pull_core cfg f nc np waiting st" and "b \<in> set (Blocks f)" and "may_write cfg b st (True, st1)"
    and "waiting \<subseteq> insert b waiting'" and "perr (shared st1) = None"
  shows "pull_core cfg f nc np waiting' st1"
  using assms content_write [OF assms(1) _ assms(3)] by (auto simp: pull_core_def may_write_def same_core_def)

lemma core_keep:
  assumes "pull_core cfg f nc np waiting st" and "may_write cfg b st (False, st1)" and "perr (shared st1) = None"
  shows "pull_core cfg f nc np waiting st1"
  using assms by (auto simp: pull_core_def may_write_def same_core_def)

lemma eff_shared:
  "has_writer s = has_writer (shared st) \<Longrightarrow> pfile s = pfile (shared st) \<Longrightarrow> eff cfg (st\<lparr>shared := s\<rparr>) = eff cfg st"
  by (simp add: eff_def Let_def)

lemma core_shared:
  assumes "pull_core cfg f nc np waiting st" and "has_writer s = has_writer (shared st)" and "pfile s = pfile (shared st)"
    and "reused s = reused (shared st)" and "pclosed s = pclosed (shared st)"
  shows "pull_core cfg f (copyNeeded s) (pullNeeded s) waiting (st\<lparr>shared := s\<rparr>)"
  using assms by (auto simp: pull_core_def eff_shared opened_ok_def)

text \<open>A state that failed stays failed.\<close>

lemma temp_file_failed: "perr (shared st) \<noteq> None \<Longrightarrow> temp_file cfg r st = (perr (shared st), st)"
  by (auto simp: temp_file_def tempFile_def)

lemma copyBlockFromFile_failed:
  "perr (shared st) \<noteq> None \<Longrightarrow> copyBlockFromFile cfg io folder name off b st = (False, st)"
  by (auto simp: copyBlockFromFile_def temp_file_failed split: option.splits)

lemma copy_from_entries_failed:
  "perr (shared st) \<noteq> None \<Longrightarrow> copy_from_entries cfg io folder b es st = (False, st)"
  by (cases es) (auto simp: copyBlockFromFile_failed failed_def)

lemma copyBlock_failed: "perr (shared st) \<noteq> None \<Longrightarrow> copyBlock cfg io cur folder others b st = (False, st)"
  by (auto simp: copyBlock_def copyBlockFromFile_failed failed_def split: option.splits)

lemma copier_failed:
  "perr (shared st) \<noteq> None \<Longrightarrow> copier_block cfg io ctxDone cur folder others b st = (res, st') \<Longrightarrow> perr (shared st') \<noteq> None"
  by (auto simp: copier_block_def copyBlock_failed failed_def copyDone_def skippedSparseBlock_def split: if_splits option.splits)

lemma step_failed: "pull_step cfg P cur folder others x y \<Longrightarrow> perr (shared (snd (snd x))) \<noteq> None \<Longrightarrow> perr (shared (snd (snd y))) \<noteq> None"
proof (induction rule: pull_step.induct)
  case (no_blocks io st err st' pulling)
  then show ?case by (auto simp: temp_file_failed split: option.splits)
qed (auto simp: puller_block_def failed_def dest!: copier_failed [rotated])

text \<open>Each step of the copier.\<close>

lemma copier_inv:
  assumes "pullable cfg f" and "steady cfg io" and "b \<in> set (Blocks f)" and "perr (shared st) = None"
    and core: "pull_core cfg f nc np (insert b waiting) st"
    and "copier_block cfg io ctxDone cur folder others b st = (res, st')" and "perr (shared st') = None"
  shows "case res of BlockDone \<Rightarrow> pull_core cfg f (nc - 1) np waiting st'
    | BlockToPull \<Rightarrow> pull_core cfg f (nc - 1) (np + 1) (insert b waiting) st' | CopierStops \<Rightarrow> False"
proof -
  have opened: "opened_ok st" using core by (simp add: pull_core_def)
  have enc: "\<not> receiveEncrypted cfg" using assms(1) by (simp add: pullable_def)
  have run: "\<not> ctxDone" using assms(4, 6, 7) by (auto simp: copier_block_def)
  have done': "pull_core cfg f (nc - 1) np waiting (s\<lparr>shared := copyDone now b (g (shared s))\<rparr>)"
    if "pull_core cfg f nc np waiting s" and "g = id \<or> g = skippedSparseBlock now" for s now g
    using core_shared [OF that(1), of "copyDone now b (g (shared s))"] that by (auto simp: copyDone_def skippedSparseBlock_def pull_core_def)
  consider (zero) "BSize b = 0" | (sparse) "BSize b \<noteq> 0" "\<not> DisableSparseFiles cfg \<and> reused (shared st) = 0 \<and> Block_IsEmpty b"
    | (copy) "BSize b \<noteq> 0" "\<not> (\<not> DisableSparseFiles cfg \<and> reused (shared st) = 0 \<and> Block_IsEmpty b)" by blast
  then show ?thesis
  proof cases
    case zero
    then have "pull_core cfg f nc np waiting st"
      using core content_empty [OF _ zero, of cfg f _ "insert b waiting" _ waiting] by (auto simp: pull_core_def)
    then show ?thesis using done' [of st id] assms(6) run zero by (auto simp: copier_block_def)
  next
    case sparse
    then have "pull_core cfg f nc np waiting st"
      using core content_blank [OF assms(1) _ assms(3), of "insert b waiting" _ waiting] by (auto simp: pull_core_def)
    then show ?thesis using done' [of st "skippedSparseBlock (now_io io)"] assms(6) run sparse by (auto simp: copier_block_def)
  next
    case copy
    obtain ok st1 where c: "copyBlock cfg io cur folder others b st = (ok, st1)" by fastforce
    have w: "may_write cfg b st (ok, st1)" using copyBlock_writes [OF assms(4) opened assms(2) enc] c by metis
    show ?thesis
    proof (cases ok)
      case True
      then have "st' = st1\<lparr>shared := copyDone (now_io io) b (shared st1)\<rparr>" "res = BlockDone"
        using assms(6) run copy c by (simp_all add: copier_block_def split: if_splits)
      moreover have "perr (shared st1) = None" using assms(7) calculation by (simp add: copyDone_def)
      ultimately show ?thesis using core_write [OF assms(1) core assms(3), of st1 waiting] w True done' [of st1 id] by simp
    next
      case False
      then have "perr (shared st1) = None" using assms(6, 7) run copy c by (auto simp: copier_block_def failed_def split: if_splits)
      moreover from this have "st' = st1\<lparr>shared := pullStarted (now_io io) (shared st1)\<rparr>" "res = BlockToPull"
        using assms(6) run copy c False by (auto simp: copier_block_def failed_def split: if_splits)
      moreover have "pull_core cfg f nc np (insert b waiting) st1" using core_keep [OF core] w False calculation(1) by simp
      ultimately show ?thesis
        using core_shared [of cfg f nc np "insert b waiting" st1 "pullStarted (now_io io) (shared st1)"]
        by (auto simp: pullStarted_def pull_core_def)
    qed
  qed
qed

text \<open>A block that was pulled.\<close>

lemma puller_inv':
  assumes "pullable cfg f" and "steady cfg (copy_io.truncate io)" and "b \<in> set (Blocks f)" and "perr (shared st) = None"
    and core: "pull_core cfg f nc np (insert b waiting) st" and "perr (shared (puller_block cfg io limiterErr candidates b st)) = None"
  shows "pull_core cfg f nc (np - 1) waiting (puller_block cfg io limiterErr candidates b st)"
proof -
  have opened: "opened_ok st" using core by (simp add: pull_core_def)
  have cfg: "\<not> receiveEncrypted cfg" "zero_table cfg" "consecutive 0 (Blocks f) (Size f)" using assms(1) by (simp_all add: pullable_def)
  have done': "pull_core cfg f nc (np - 1) waiting (s\<lparr>shared := pullDone now b (shared s)\<rparr>)" if "pull_core cfg f nc np waiting s" for s now
    using core_shared [OF that, of "pullDone now b (shared s)"] that by (auto simp: pullDone_def pull_core_def)
  show ?thesis
  proof (cases "BSize b = 0")
    case True
    then have "pull_core cfg f nc np waiting st"
      using core content_empty [OF _ True, of cfg f _ "insert b waiting" _ waiting] by (auto simp: pull_core_def)
    then show ?thesis using done' True assms(4) by (simp add: puller_block_def failed_def)
  next
    case False
    let ?st = "pullBlock cfg io candidates b st"
    have p: "puller_block cfg io limiterErr candidates b st = ?st"
      using False assms(4, 6) by (auto simp: puller_block_def failed_def split: if_splits option.splits)
    have "truncate_err (temp_io io) = None" using assms(2) by (simp add: steady_def copy_io.defs)
    from pullBlock_pulls [OF assms(4) opened cfg(1, 2) block_inside(2) [OF cfg(3) assms(3)] this]
    show ?thesis
    proof
      assume "pulls cfg b st (pullBlock cfg io candidates b st)"
      then obtain st1 now where "may_write cfg b st (True, st1)" "perr (shared st1) = None" "?st = st1\<lparr>shared := pullDone now b (shared st1)\<rparr>"
        using assms(6) p by (auto simp: pulls_def)
      then show ?thesis using core_write [OF assms(1) core assms(3), of st1 waiting] done' p by auto
    next
      assume "left_blank cfg b st (pullBlock cfg io candidates b st)"
      then obtain st1 now where st1: "may_write cfg b st (False, st1)" "perr (shared st1) = None" "?st = st1\<lparr>shared := pullDone now b (shared st1)\<rparr>"
          and sparse: "\<not> DisableSparseFiles cfg" "reused (shared st) = 0" "Block_IsEmpty b"
        by (auto simp: left_blank_def)
      have "pull_core cfg f nc np (insert b waiting) st1" "reused (shared st1) = 0"
        using core_keep [OF core] st1 sparse(2) by (auto simp: may_write_def same_core_def)
      then have "pull_core cfg f nc np waiting st1"
        using content_blank [OF assms(1) _ assms(3) sparse(1, 3), of "insert b waiting" _ waiting] by (auto simp: pull_core_def)
      then show ?thesis using done' p st1(3) by simp
    qed
  qed
qed

lemma pull_step_inv:
  assumes "pull_step cfg (steady cfg) cur folder others x y" and "pullable cfg f" and "pull_inv cfg f x"
  shows "pull_inv cfg f y"
proof (cases "perr (shared (snd (snd x))) = None \<and> perr (shared (snd (snd y))) = None")
  case True
  show ?thesis
    using assms(1, 3) True
  proof (induction rule: pull_step.induct)
    case (copied io ctxDone b st st' todo pulling)
    then show ?case using copier_inv [OF assms(2) copied.hyps(1) _ _ _ copied.hyps(2), of "1 + int (length todo)" "int (length pulling)" "set todo \<union> set pulling"] by auto
  next
    case (to_pull io ctxDone b st st' todo pulling)
    then show ?case using copier_inv [OF assms(2) to_pull.hyps(1) _ _ _ to_pull.hyps(2), of "1 + int (length todo)" "int (length pulling)" "set todo \<union> set pulling"]
      by (auto simp: add.commute)
  next
    case (stopped io ctxDone b st st' todo pulling)
    then show ?case using copier_inv [OF assms(2) stopped.hyps(1) _ _ _ stopped.hyps(2), of "1 + int (length todo)" "int (length pulling)" "set todo \<union> set pulling"] by auto
  next
    case (no_blocks io st err st' pulling)
    have "truncate_err (temp_io io) = None" using no_blocks.hyps(1) by (simp add: steady_def)
    with no_blocks temp_file_ok [of st "temp_io io" cfg err st'] show ?case
      by (auto simp: pull_core_def same_core_def fail_def failLocked_def split: option.splits)
  next
    case (pulled b pulling io todo st limiterErr candidates)
    have sub: "set todo \<union> set pulling \<subseteq> insert b (set todo \<union> set (remove1 b pulling))" by (auto simp: in_set_remove1)
    have "pull_core cfg f (int (length todo)) (int (length pulling)) (insert b (set todo \<union> set (remove1 b pulling))) st"
      using pulled content_ok_mono [OF _ sub] by (auto simp: pull_core_def)
    from puller_inv' [OF assms(2) pulled.hyps(2) _ _ this] pulled
    show ?case by (auto simp: length_remove1_int dest: set_mp [OF set_remove1_subset])
  qed
next
  case False
  have "perr (shared (snd (snd y))) \<noteq> None" using False step_failed [OF assms(1)] by metis
  moreover have "set (fst y) \<union> set (fst (snd y)) \<subseteq> set (fst x) \<union> set (fst (snd x))"
    using assms(1) by (induction rule: pull_step.induct) (auto dest: set_mp [OF set_remove1_subset])
  ultimately show ?thesis using assms(3) by (cases x; cases y) auto
qed

section \<open>Starting\<close>

text \<open>
  What is known of an old temporary file: its blocks are those of its bytes, and one that has the hash of the
  block of the file at the same place is that block.
\<close>

definition reusable :: "pull_cfg \<Rightarrow> BlockInfo list option \<Rightarrow> BlockInfo list \<Rightarrow> bytes option \<Rightarrow> bool" where
  "reusable cfg tempBlocks bs old \<longleftrightarrow> (case tempBlocks of None \<Rightarrow> True | Some tb \<Rightarrow>
     (case old of None \<Rightarrow> False | Some c \<Rightarrow> describes (sha256 cfg) tb c \<and> (\<forall>(t, b) \<in> set (zip tb bs). Hash t = Hash b \<longrightarrow> t = b)))"

lemma block_diff_loop_have:
  "set (fst (block_diff_loop src tgt have' need)) = set have' \<union> {t. \<exists>s. (s, t) \<in> set (zip src tgt) \<and> Hash t = Hash s}"
  by (induction src tgt have' need rule: block_diff_loop.induct) auto

lemma blockDiff_have: "set (fst (blockDiff src tgt)) = {t. \<exists>s. (s, t) \<in> set (zip src tgt) \<and> Hash t = Hash s}"
  by (auto simp: blockDiff_def block_diff_loop_have)

lemma reused_blocks_good:
  assumes "reusable cfg (Some tb) bs (Some c)" and "b \<in> set (fst (blockDiff tb bs))"
    and "consecutive 0 bs (int m)" and "sparse \<or> length c \<le> m"
  shows "good cfg b (if sparse then truncate_to m c else c)"
proof -
  have t: "(b, b) \<in> set (zip tb bs)" using assms(1, 2) by (fastforce simp: blockDiff_have reusable_def)
  then have b: "b \<in> set tb" "b \<in> set bs" by (auto dest: set_zip_leftD set_zip_rightD)
  have tb: "consecutive 0 tb (int (length c))" "sha256 cfg (block_bytes b c) = Hash b"
    using assms(1) b(1) by (auto simp: reusable_def describes_def)
  have in_c: "nat (Offset b) + nat (BSize b) \<le> length c" using block_inside(3) [OF tb(1) b(1)] by simp
  have in_m: "nat (Offset b) + nat (BSize b) \<le> m" using block_inside(3) [OF assms(3) b(2)] by simp
  have "block_bytes b (truncate_to m c) = block_bytes b c"
    by (rule block_bytes_cong) (use in_c in_m in \<open>auto simp: nth_truncate_to block_range_def\<close>)
  then show ?thesis using in_c in_m tb(2) by (simp add: good_def)
qed

lemma handleFile_inv:
  assumes "\<And>bs. mset (reorder bs) = mset bs" and "g = f\<lparr>Blocks := populateOffsets (Blocks f)\<rparr>" and "pullable cfg g"
    and "reusable cfg tempBlocks (Blocks g) old" and "\<not> DisableSparseFiles cfg \<or> (\<forall>c. old = Some c \<longrightarrow> int (length c) \<le> Size f)"
    and "handleFile cfg reorder now tempBlocks f old = (blocks, st)"
  shows "pull_inv cfg g (blocks, [], st)"
proof -
  obtain need ru where re: "reuseBlocks tempBlocks (Blocks g) = (need, ru)" by fastforce
  define old' where "old' = (if length ru = 0 then None else old)"
  have enc: "\<not> receiveEncrypted cfg" "consecutive 0 (Blocks g) (Size g)" using assms(3) by (simp_all add: pullable_def)
  have blocks: "blocks = reorder need" and st: "st = \<lparr>shared = newSharedPullerState now g blocks ru, temp = old'\<rparr>"
    using assms(6) re enc by (auto simp: handleFile_def Let_def assms(2) old'_def)
  have set_blocks: "set blocks = set need" using assms(1) [of need] blocks by (metis set_mset_mset)
  have size: "0 \<le> Size g" using consecutive_le [OF enc(2)] .
  have same_size: "Size g = Size f" by (simp add: assms(2))
  have need: "set need \<subseteq> set (Blocks g)" using re by (auto simp: reuseBlocks_def Let_def split: option.splits)
  have temp_sz: "temp_size cfg g = nat (Size g)" using assms(3) by (simp add: temp_size_def pullable_def)
  have content: "content_ok cfg g (ru = []) (set need) (eff cfg st)"
  proof (cases "ru = []")
    case True
    then have "eff cfg st = (if DisableSparseFiles cfg then [] else truncate_to (nat (Size g)) [])"
      by (simp add: eff_def st newSharedPullerState_def old'_def temp_sz)
    moreover have "set need = set (Blocks g)"
    proof (cases tempBlocks)
      case (Some tb)
      have "b \<notin> set (fst (blockDiff tb (Blocks g)))" if "b \<in> set (Blocks g)" for b
        using that re True Some by (fastforce simp: reuseBlocks_def Let_def filter_empty_conv in_set_conv_nth)
      then show ?thesis using re Some by (auto simp: reuseBlocks_def Let_def)
    qed (use re in \<open>simp add: reuseBlocks_def\<close>)
    ultimately show ?thesis using True
      by (auto simp: content_ok_def blank_def truncate_to_def)
  next
    case False
    then obtain tb where tb: "tempBlocks = Some tb" using re by (cases tempBlocks) (auto simp: reuseBlocks_def)
    obtain c where c: "old = Some c" using assms(4) tb by (cases old) (auto simp: reusable_def)
    let ?c = "if \<not> DisableSparseFiles cfg then truncate_to (nat (Size g)) c else c"
    have eff: "eff cfg st = ?c" using False c by (simp add: eff_def st newSharedPullerState_def old'_def temp_sz)
    have len: "\<not> DisableSparseFiles cfg \<or> length c \<le> nat (Size g)" using assms(5) c same_size by auto
    have "good cfg b ?c" if "b \<in> set (Blocks g)" "b \<notin> set need" for b
    proof -
      have "b \<in> set (fst (blockDiff tb (Blocks g)))" using re tb that by (auto simp: reuseBlocks_def Let_def)
      then show ?thesis
        using reused_blocks_good [of cfg tb "Blocks g" c b "nat (Size g)" "\<not> DisableSparseFiles cfg"]
          assms(4) enc(2) size tb c len by simp
    qed
    then show ?thesis using False len unfolding eff content_ok_def by auto
  qed
  have "old' = None \<longleftrightarrow> ru = []"
    using assms(4) re by (auto simp: old'_def reuseBlocks_def reusable_def split: option.splits)
  moreover have "\<not> IsSymlink g" using assms(3) by (simp add: pullable_def)
  ultimately have "opened_ok st" by (simp add: opened_ok_def st newSharedPullerState_def)
  then show ?thesis using content need set_blocks by (simp add: pull_core_def st newSharedPullerState_def)
qed

section \<open>The finished file\<close>

lemma content_covers:
  assumes "consecutive off bs n" and "0 \<le> off" and "off \<le> int (length c)" and "\<forall>b \<in> set bs. good cfg b c"
  shows "n \<le> int (length c)"
  using assms
proof (induction bs arbitrary: off)
  case (Cons b bs)
  then have "off + BSize b \<le> int (length c)" by (cases "BSize b = 0") (auto simp: good_def)
  then show ?case using Cons.IH [of "off + BSize b"] Cons.prems by simp
qed simp

lemma content_complete:
  assumes "pullable cfg f" and "content_ok cfg f fresh {} c"
  shows "int (length c) = Size f \<and> (\<forall>b \<in> set (Blocks f). BSize b \<noteq> 0 \<longrightarrow> sha256 cfg (block_bytes b c) = Hash b)"
proof -
  have cons: "consecutive 0 (Blocks f) (Size f)" using assms(1) by (simp add: pullable_def)
  have all: "\<forall>b \<in> set (Blocks f). good cfg b c" using assms(2) by (simp add: content_ok_def)
  have "Size f \<le> int (length c)" using content_covers [OF cons _ _ all] by simp
  moreover have "int (length c) \<le> Size f" using assms(2) consecutive_le [OF cons] by (simp add: content_ok_def le_nat_iff)
  ultimately show ?thesis using all by (auto simp: good_def)
qed

lemma final_close_content:
  assumes "pullable cfg f" and "pull_inv cfg f (todo, pulling, st)" and "truncate_err tr = None"
    and "final_close cfg tr r st = (True, None, st')"
  shows "temp st' = Some (eff cfg st) \<and> content_ok cfg f (reused (shared st) = 0) {} (eff cfg st)"
proof -
  obtain err c where op: "(if has_writer (shared st) then (None, temp st) else tempFileInWritableDir cfg tr (shared st) (temp st)) = (err, c)"
    by fastforce
  obtain s where fc: "finalClose (r\<lparr>open_result := err\<rparr>) (shared st) = (True, None, s)"
      and st': "st' = (if pclosed (shared st) \<or> pullNeeded (shared st) + copyNeeded (shared st) \<noteq> 0 \<and> perr (shared st) = None
                      then st else st\<lparr>shared := s, temp := c\<rparr>)"
    using assms(4) op by (auto simp: final_close_def split: prod.splits)
  have none: "perr (shared st) = None"
    using fc by (cases "perr (shared st)") (auto simp: finalClose_alt close_file_def addWriterLocked_def finalizeEncrypted_def failLocked_def
        Let_def split: if_splits option.splits sum.splits)
  then have core: "pull_core cfg f (int (length todo)) (int (length pulling)) (set todo \<union> set pulling) st" using assms(2) by simp
  have zero: "pullNeeded (shared st) + copyNeeded (shared st) = 0" "\<not> pclosed (shared st)"
    using fc none by (auto simp: finalClose_alt split: if_splits)
  then have "int (length pulling + length todo) = 0" using core by (simp add: pull_core_def)
  then have empty: "todo = []" "pulling = []" by (simp_all only: of_nat_eq_0_iff add_is_0 length_0_conv)
  have "err = None" using fc op none zero by (auto simp: finalClose_alt addWriterLocked_def split: if_splits option.splits)
  then have "c = Some (eff cfg st)"
    using op assms(3) core
    by (auto simp: tempFileInWritableDir_def eff_def opened_ok_def pull_core_def Let_def split: if_splits option.splits)
  then show ?thesis using core st' zero empty by (simp add: pull_core_def)
qed

lemma pull_run_inv:
  assumes "(pull_step cfg (steady cfg) cur folder others)\<^sup>*\<^sup>* x y" and "pullable cfg f" and "pull_inv cfg f x"
  shows "pull_inv cfg f y"
  using assms by (induction rule: rtranclp_induct) (auto intro: pull_step_inv simp del: pull_inv.simps)

lemma FileInfo_BlockSize_code [code]: "FileInfo_BlockSize f = (if RawBlockSize f < 131072 then 131072 else RawBlockSize f)"
  by (simp add: FileInfo_BlockSize_def MinBlockSize_def)

text \<open>An example: of two blocks one is pulled and the other is copied meanwhile.\<close>

definition toy_sha :: "bytes \<Rightarrow> bytes" where
  "toy_sha buf = (case map_of sha256OfEmptyBlock (int (length buf)) of Some h \<Rightarrow> h | None \<Rightarrow> if buf = [] then SHA256OfNothing else buf)"

definition toy_cfg :: pull_cfg where
  "toy_cfg = \<lparr>receiveEncrypted = False, DisableSparseFiles = False, BlockIndexing = True, standardCopy = True, ignorePerms = False,
     trailerSize = 0, sha256 = toy_sha\<rparr>"

definition toy_file :: FileInfo where
  "toy_file = sample_file\<lparr>Size := 3, Blocks := [\<lparr>Hash = [1, 2], Offset = 0, BSize = 2\<rparr>, \<lparr>Hash = [3], Offset = 2, BSize = 1\<rparr>]\<rparr>"

definition toy_temp :: temp_results where
  "toy_temp = \<lparr>chmod_err = None, tempopen_err = None, truncate_err = None, remove_err = None\<rparr>"

definition toy_io :: copy_io where
  "toy_io = \<lparr>src_file = \<lambda>folder name. if name = ''x'' then Some [3, 4] else None, src_again = \<lambda>folder name. [],
     local_blocks = \<lambda>folder h. if h = [3] then [(''x'', 0)] else [], temp_io = toy_temp, write_err = None, torn = [], now_io = 7\<rparr>"

definition toy_pull :: pull_io where
  "toy_pull = copy_io.extend toy_io \<lparr>ctx_done = \<lambda>_. False, busy = \<lambda>_ _. 0, request = \<lambda>_. Inr [1, 2]\<rparr>"

definition toy_0 :: pull_state where
  "toy_0 = snd (handleFile toy_cfg id 5 None toy_file None)"

definition toy_1 :: pull_state where
  "toy_1 = snd (copier_block toy_cfg toy_io False toy_file ''f'' [] (Blocks toy_file ! 0) toy_0)"

definition toy_2 :: pull_state where
  "toy_2 = snd (copier_block toy_cfg toy_io False toy_file ''f'' [] (Blocks toy_file ! 1) toy_1)"

definition toy_3 :: pull_state where
  "toy_3 = puller_block toy_cfg toy_pull None [\<lparr>avID = [], FromTemporary = False\<rparr>] (Blocks toy_file ! 0) toy_2"

lemma toy_zero_table: "zero_table toy_cfg"
  by (simp add: zero_table_def toy_cfg_def toy_sha_def sha256OfEmptyBlock_def)

lemma toy_pullable: "pullable toy_cfg toy_file" "toy_file = toy_file\<lparr>Blocks := populateOffsets (Blocks toy_file)\<rparr>"
  using toy_zero_table by (simp_all add: pullable_def toy_file_def toy_cfg_def sample_file_def IsSymlink_def populateOffsets_def)

lemma toy_start: "handleFile toy_cfg id 5 None toy_file None = (Blocks toy_file, toy_0)"
proof -
  have "fst (handleFile toy_cfg id 5 None toy_file None) = Blocks toy_file" by code_simp
  then show ?thesis by (simp add: toy_0_def prod_eq_iff)
qed

lemma toy_run: "(pull_step toy_cfg (steady toy_cfg) toy_file ''f'' [])\<^sup>*\<^sup>* (Blocks toy_file, [], toy_0) ([], [], toy_3)"
proof -
  let ?a = "Blocks toy_file ! 0" and ?b = "Blocks toy_file ! 1"
  have steady: "steady toy_cfg toy_io" "steady toy_cfg (copy_io.truncate toy_pull)"
    by (simp_all add: steady_def toy_cfg_def toy_io_def toy_temp_def toy_pull_def copy_io.defs)
  have bs: "Blocks toy_file = [?a, ?b]" by (simp add: toy_file_def)
  have "fst (copier_block toy_cfg toy_io False toy_file ''f'' [] ?a toy_0) = BlockToPull" by code_simp
  then have "copier_block toy_cfg toy_io False toy_file ''f'' [] ?a toy_0 = (BlockToPull, toy_1)" by (simp add: toy_1_def prod_eq_iff)
  then have 1: "pull_step toy_cfg (steady toy_cfg) toy_file ''f'' [] ([?a, ?b], [], toy_0) ([?b], [?a], toy_1)"
    by (rule to_pull [where P = "steady toy_cfg", OF steady(1)])
  have "fst (copier_block toy_cfg toy_io False toy_file ''f'' [] ?b toy_1) = BlockDone" by code_simp
  then have "copier_block toy_cfg toy_io False toy_file ''f'' [] ?b toy_1 = (BlockDone, toy_2)" by (simp add: toy_2_def prod_eq_iff)
  then have 2: "pull_step toy_cfg (steady toy_cfg) toy_file ''f'' [] ([?b], [?a], toy_1) ([], [?a], toy_2)"
    by (rule copied [where P = "steady toy_cfg", OF steady(1)])
  have 3: "pull_step toy_cfg (steady toy_cfg) toy_file ''f'' [] ([], [?a], toy_2) ([], [], toy_3)"
    using pulled [where P = "steady toy_cfg", OF _ steady(2), of ?a "[?a]"] by (simp add: toy_3_def)
  show ?thesis
    by (subst bs, rule converse_rtranclp_into_rtranclp, rule 1, rule converse_rtranclp_into_rtranclp, rule 2,
        rule converse_rtranclp_into_rtranclp, rule 3, rule rtranclp.rtrancl_refl)
qed

lemma toy_close: "\<exists>st2. final_close toy_cfg toy_temp quiet_fs toy_3 = (True, None, st2)"
proof -
  have "fst (final_close toy_cfg toy_temp quiet_fs toy_3)" "fst (snd (final_close toy_cfg toy_temp quiet_fs toy_3)) = None" by code_simp+
  then show ?thesis by (cases "final_close toy_cfg toy_temp quiet_fs toy_3") auto
qed

text \<open>However the copier and the pullers interleave and whatever other devices answer, a file that is finished without an error has
  the announced size, and at the place of each of its blocks bytes with the announced hash, also when an old
  temporary file was reused, blocks were copied from other files and zeros were left out.\<close>

theorem pulled_file_is_verified:
  assumes "\<And>bs. mset (reorder bs) = mset bs" and "g = f\<lparr>Blocks := populateOffsets (Blocks f)\<rparr>" and "pullable cfg g"
    and "reusable cfg tempBlocks (Blocks g) old" and "\<not> DisableSparseFiles cfg \<or> (\<forall>c. old = Some c \<longrightarrow> int (length c) \<le> Size f)"
    and "handleFile cfg reorder now tempBlocks f old = (blocks, st)"
    and "(pull_step cfg (steady cfg) cur folder others)\<^sup>*\<^sup>* (blocks, [], st) (todo, pulling, st1)"
    and "truncate_err tr = None" and "final_close cfg tr r st1 = (True, None, st2)"
  shows "\<exists>c. temp st2 = Some c \<and> int (length c) = Size f \<and>
    (\<forall>b \<in> set (Blocks g). BSize b \<noteq> 0 \<longrightarrow> sha256 cfg (block_bytes b c) = Hash b)"
proof -
  have "pull_inv cfg g (blocks, [], st)" by (rule handleFile_inv [OF assms(1-6)])
  then have "pull_inv cfg g (todo, pulling, st1)" by (rule pull_run_inv [OF assms(7, 3)])
  note fin = final_close_content [OF assms(3) this assms(8, 9)]
  moreover have "Size g = Size f" by (simp add: assms(2))
  ultimately show ?thesis using content_complete [OF assms(3), of "reused (shared st1) = 0" "eff cfg st1"] by auto
qed

theorem pulled_file_is_verified_witness:
  "\<exists>st2 c. final_close toy_cfg toy_temp quiet_fs toy_3 = (True, None, st2) \<and> temp st2 = Some c \<and> int (length c) = Size toy_file \<and>
     (\<forall>b \<in> set (Blocks toy_file). BSize b \<noteq> 0 \<longrightarrow> sha256 toy_cfg (block_bytes b c) = Hash b)"
proof -
  obtain st2 where close: "final_close toy_cfg toy_temp quiet_fs toy_3 = (True, None, st2)" using toy_close ..
  have "\<exists>c. temp st2 = Some c \<and> int (length c) = Size toy_file \<and>
     (\<forall>b \<in> set (Blocks toy_file). BSize b \<noteq> 0 \<longrightarrow> sha256 toy_cfg (block_bytes b c) = Hash b)"
    by (rule pulled_file_is_verified [OF _ toy_pullable(2, 1) _ _ toy_start toy_run _ close])
       (simp_all add: reusable_def toy_temp_def toy_cfg_def)
  then show ?thesis using close by blast
qed

lemma populate_id: "consecutive off bs n \<Longrightarrow> populate_from off bs = bs"
  by (induction bs arbitrary: off) auto

text \<open>C2: From device to device: when one device hashed a file and announced its blocks, and another finished pulling it without an
  error, in any interleaving of copier and pullers, then the bytes of the temporary file are those of the file that was hashed, unless
  two different blocks have the same hash.  The folder is not encrypted and the file is no symbolic link; sparse files are enabled, or
  there was no temporary file longer than the file; cutting the temporary file succeeds; the blocks taken as reused are in it; and a
  block copied from another file is hashed, or its source did not change since the database recorded it.\<close>

theorem pulled_file_is_the_hashed_file:
  assumes "0 < blocksize" and "sha256 cfg [] = SHA256OfNothing" and "sizehint < 0 \<or> sizehint = int (length (content rd))"
    and "Blocks_of (sha256 cfg) ctxDone rd blocksize sizehint = Ok (Blocks f)" and "Size f = int (length (content rd))"
    and "\<not> receiveEncrypted cfg" and "Encrypted f = []" and "\<not> IsSymlink f" and "zero_table cfg"
    and "\<And>bs. mset (reorder bs) = mset bs" and "reusable cfg tempBlocks (Blocks f) old"
    and "\<not> DisableSparseFiles cfg \<or> (\<forall>c. old = Some c \<longrightarrow> int (length c) \<le> Size f)"
    and "handleFile cfg reorder now tempBlocks f old = (blocks, st)"
    and "(pull_step cfg (steady cfg) cur folder others)\<^sup>*\<^sup>* (blocks, [], st) (todo, pulling, st1)"
    and "truncate_err tr = None" and "final_close cfg tr r st1 = (True, None, st2)"
  shows "\<exists>c. temp st2 = Some c \<and> (c = content rd \<or> \<not> collision_free (sha256 cfg) (Blocks f) c (content rd))"
proof -
  have desc: "describes (sha256 cfg) (Blocks f) (content rd)" by (rule hashed_blocks_describe [OF assms(1-4), THEN conjunct1])
  then have cons: "consecutive 0 (Blocks f) (Size f)" by (simp add: describes_def assms(5))
  have g: "f = f\<lparr>Blocks := populateOffsets (Blocks f)\<rparr>" using populate_id [OF cons] by (simp add: populateOffsets_def)
  have ok: "pullable cfg f" using assms(6-9) cons by (simp add: pullable_def)
  have "pull_inv cfg f (blocks, [], st)" by (rule handleFile_inv [OF assms(10) g ok assms(11-13)])
  then have "pull_inv cfg f (todo, pulling, st1)" by (rule pull_run_inv [OF assms(14) ok])
  note fin = final_close_content [OF ok this assms(15, 16)]
  let ?c = "eff cfg st1"
  have c: "int (length ?c) = Size f" "\<forall>b \<in> set (Blocks f). BSize b \<noteq> 0 \<longrightarrow> sha256 cfg (block_bytes b ?c) = Hash b"
    using content_complete [OF ok conjunct2 [OF fin]] by auto
  have "sha256 cfg (block_bytes b ?c) = Hash b" if "b \<in> set (Blocks f)" for b
    using c(2) desc that by (cases "BSize b = 0") (auto simp: describes_def block_bytes_def)
  then have "describes (sha256 cfg) (Blocks f) ?c" using cons c(1) by (simp add: describes_def)
  then show ?thesis using fin describes_unique [OF _ desc] by blast
qed

theorem pulled_file_is_the_hashed_file_witness:
  "\<exists>st2 c. final_close toy_cfg toy_temp quiet_fs toy_3 = (True, None, st2) \<and> temp st2 = Some c \<and>
     (c = [1, 2, 3] \<or> \<not> collision_free toy_sha (Blocks toy_file) c [1, 2, 3])"
proof -
  let ?rd = "\<lparr>content = [1, 2, 3], read_error = None\<rparr>"
  obtain st2 where close: "final_close toy_cfg toy_temp quiet_fs toy_3 = (True, None, st2)" using toy_close ..
  have blocks: "Blocks_of (sha256 toy_cfg) None ?rd 2 3 = Ok (Blocks toy_file)" by code_simp
  have sha: "sha256 toy_cfg [] = SHA256OfNothing" by code_simp
  have "\<exists>c. temp st2 = Some c \<and> (c = content ?rd \<or> \<not> collision_free (sha256 toy_cfg) (Blocks toy_file) c (content ?rd))"
    by (rule pulled_file_is_the_hashed_file [OF _ sha _ blocks _ _ _ _ toy_zero_table _ _ _ toy_start toy_run _ close])
       (simp_all add: toy_file_def sample_file_def toy_cfg_def IsSymlink_def reusable_def toy_temp_def)
  then show ?thesis using close by (simp add: toy_cfg_def)
qed

section \<open>Getting a block\<close>

lemma in_last_to: "x \<in> set xs \<Longrightarrow> i < length xs \<Longrightarrow> x \<noteq> xs ! i \<Longrightarrow> x \<in> set (last_to i xs)"
proof -
  assume x: "x \<in> set xs" "i < length xs" "x \<noteq> xs ! i"
  then obtain j where j: "j < length xs" "x = xs ! j" by (auto simp: in_set_conv_nth)
  then have ij: "j \<noteq> i" using x(3) by auto
  let ?k = "if j = length xs - 1 then i else j"
  have "?k < length xs - 1" "xs[i := last xs] ! ?k = x" using j ij x(2) by (auto simp: last_conv_nth [of xs] simp flip: length_greater_0_conv)
  then show ?thesis unfolding last_to_def by (metis (no_types) in_set_conv_nth length_list_update length_take min.absorb2 nth_take diff_le_self)
qed

lemma pull_loop_succeeds:
  assumes "\<And>t. \<not> ctx_done io t" and "write_err io = None" and "0 \<le> Offset b" and "a \<in> set candidates"
    and "request io a = Inr buf" and "\<not> receiveEncrypted cfg" and "verified cfg b buf" and "\<And>t d. busy io t d < 2 ^ 31 - 1"
  shows "\<exists>buf now. verified cfg b buf \<and> pull_loop cfg io b turn candidates lastError st =
    st\<lparr>shared := pullDone now b (shared st), temp := map_option (write_at buf (nat (Offset b))) (temp st)\<rparr>"
  using assms
proof (induction cfg io b turn candidates lastError st rule: pull_loop.induct)
  case (1 cfg io b turn candidates lastError st)
  note unf = pull_loop.simps [of cfg io b turn candidates lastError st]
  have on: "\<not> ctx_done io turn" by (rule "1.prems"(1))
  obtain i where found: "leastBusy (busy io turn) candidates = Some i"
    using leastBusy_some [OF "1.prems"(4)] "1.prems"(8) by blast
  have i: "i < length candidates" by (rule leastBusy_less [OF found])
  show ?case
  proof (cases "request io (candidates ! i)")
    case (Inl e)
    then have "a \<in> set (last_to i candidates)" using in_last_to [OF "1.prems"(4) i] "1.prems"(5) by force
    from "1.IH"(1) [OF on found refl refl Inl "1.prems"(1-3) this "1.prems"(5-8)]
    show ?thesis using on found Inl by (simp add: unf Let_def)
  next
    case (Inr got)
    show ?thesis
    proof (cases "verifyBuffer (sha256 cfg) got b")
      case (Some e)
      then have "candidates ! i \<noteq> a" using Inr "1.prems"(5, 7) by (auto simp: verifyBuffer_None [symmetric])
      then have "a \<in> set (last_to i candidates)" using in_last_to [OF "1.prems"(4) i] by force
      from "1.IH"(2) [OF on found refl refl Inr refl _ "1.prems"(1-3) this "1.prems"(5-8)]
      show ?thesis using Some on found Inr "1.prems"(6) by (simp add: unf Let_def)
    next
      case None
      then have "verified cfg b got" by (simp add: verifyBuffer_None)
      moreover have "pull_loop cfg io b turn candidates lastError st =
          st\<lparr>shared := pullDone (now_io io) b (shared st), temp := map_option (write_at got (nat (Offset b))) (temp st)\<rparr>"
        using on found Inr None "1.prems"(2, 3, 6) by (simp add: unf Let_def limitedWriteAt_def copy_io.defs)
      ultimately show ?thesis by blast
    qed
  qed
qed

text \<open>C24: A block is got when one of the devices that are asked has it: whatever the others answer, and in whichever order
  they are asked, the loop comes to the device that sends the right bytes, unless the folder is stopped or the file cannot be written;
  it asks each device at most once, so it ends.\<close>

theorem block_is_pulled_if_a_device_has_it:
  assumes "\<And>t. \<not> ctx_done io t" and "write_err io = None" and "0 \<le> Offset b" and "a \<in> set candidates"
    and "request io a = Inr buf" and "\<not> receiveEncrypted cfg" and "verified cfg b buf" and "\<And>t d. busy io t d < 2 ^ 31 - 1"
  shows "\<exists>buf now. verified cfg b buf \<and> pull_loop cfg io b 0 candidates None st =
    st\<lparr>shared := pullDone now b (shared st), temp := map_option (write_at buf (nat (Offset b))) (temp st)\<rparr>"
  by (rule pull_loop_succeeds [OF assms])

theorem block_is_pulled_if_a_device_has_it_witness:
  "\<exists>buf now. verified toy_cfg (hd (Blocks toy_file)) buf \<and>
     pull_loop toy_cfg (toy_pull\<lparr>request := \<lambda>a. if FromTemporary a then Inr [3] else Inr [1, 2]\<rparr>) (hd (Blocks toy_file)) 0
       [\<lparr>avID = [1], FromTemporary = True\<rparr>, \<lparr>avID = [2], FromTemporary = False\<rparr>] None toy_2 =
     toy_2\<lparr>shared := pullDone now (hd (Blocks toy_file)) (shared toy_2),
       temp := map_option (write_at buf (nat (Offset (hd (Blocks toy_file))))) (temp toy_2)\<rparr>"
  by (rule block_is_pulled_if_a_device_has_it [where a = "\<lparr>avID = [2], FromTemporary = False\<rparr>" and buf = "[1, 2]"])
     (simp_all add: toy_pull_def toy_io_def toy_cfg_def toy_file_def verified_def toy_sha_def sha256OfEmptyBlock_def copy_io.defs)

section \<open>Without sparse files\<close>

lemma block_diff_all:
  assumes "map Hash tgt = take (length tgt) (map Hash src)"
  shows "fst (block_diff_loop src tgt have' need) = have' @ tgt"
  using assms by (induction src tgt have' need rule: block_diff_loop.induct) auto

lemma reuse_all:
  assumes "map Hash bs = take (length bs) (map Hash tb)"
  shows "reuseBlocks (Some tb) bs = ([], map int [0..<length bs])"
proof -
  have "fst (blockDiff tb bs) = bs" using assms block_diff_all [OF assms, of "[]" "[]"] by (auto simp: blockDiff_def)
  then show ?thesis by (simp add: reuseBlocks_def Let_def filter_empty_conv filter_True)
qed

lemma populate_hashes [simp]: "map Hash (populate_from off bs) = map Hash bs" "length (populate_from off bs) = length bs"
  by (induction bs arbitrary: off) simp_all

text \<open>When sparse files are disabled, an old temporary file that is longer than the file is not cut: if the old one starts with
  all the blocks of the file, then the finished file is the whole old one.\<close>

theorem old_data_lingers:
  assumes "DisableSparseFiles cfg" and "\<not> receiveEncrypted cfg" and "Encrypted f = []" and "Blocks f \<noteq> []"
    and "map Hash (Blocks f) = take (length (Blocks f)) (map Hash tb)" and "reorder [] = []" and "chmod_err tr = None" and "tempopen_err tr = None" and "close_result r = None"
  shows "\<exists>st st'. handleFile cfg reorder now (Some tb) f (Some c) = ([], st) \<and> final_close cfg tr r st = (True, None, st') \<and> temp st' = Some c"
proof -
  let ?g = "f\<lparr>Blocks := populateOffsets (Blocks f)\<rparr>"
  let ?ru = "map int [0..<length (Blocks f)]"
  have "reuseBlocks (Some tb) (populateOffsets (Blocks f)) = ([], ?ru)"
    using reuse_all [of "populateOffsets (Blocks f)" tb] assms(5) by (simp add: populateOffsets_def)
  then have h: "handleFile cfg reorder now (Some tb) f (Some c) = ([], \<lparr>shared = newSharedPullerState now ?g [] ?ru, temp = Some c\<rparr>)"
    using assms(2, 4, 6) by (simp add: handleFile_def)
  show ?thesis unfolding h
    using assms(1, 3, 4, 7-9)
    by (auto simp: final_close_def newSharedPullerState_def tempFileInWritableDir_def finalClose_alt close_file_def
        addWriterLocked_def failLocked_def Let_def)
qed

theorem old_data_lingers_witness:
  "\<exists>st st'. handleFile (toy_cfg\<lparr>DisableSparseFiles := True\<rparr>) id 5 (Some (Blocks toy_file @ Blocks toy_file)) toy_file (Some [1, 2, 3, 1, 2, 3]) = ([], st) \<and>
     final_close (toy_cfg\<lparr>DisableSparseFiles := True\<rparr>) toy_temp quiet_fs st = (True, None, st') \<and> temp st' = Some [1, 2, 3, 1, 2, 3] \<and> Size toy_file = 3"
  using old_data_lingers [of "toy_cfg\<lparr>DisableSparseFiles := True\<rparr>" toy_file "Blocks toy_file @ Blocks toy_file" id toy_temp quiet_fs 5 "[1, 2, 3, 1, 2, 3]"]
  by (simp add: toy_cfg_def toy_file_def sample_file_def toy_temp_def quiet_fs_def)

end
