(* ===== verification/Path_Names.thy ===== *)
theory Path_Names
  imports Wire_Checks
begin

text \<open>
  Names of files, \<^verbatim>\<open>lib/fs/util.go\<close>, \<^verbatim>\<open>lib/fs/tempname.go\<close> and the checks of
  \<^verbatim>\<open>lib/fs/filesystem.go\<close>, on a platform whose path separator is the slash.  There
  \<open>filepath.Clean\<close> is \<open>path.Clean\<close>.
\<close>

section \<open>Paths of the standard library\<close>

definition IsAbs :: "string \<Rightarrow> bool" where
  "IsAbs p = HasPrefix p ''/''"

definition path_Base :: "string \<Rightarrow> string" where
  "path_Base p =
     (if p = [] then ''.''
      else
        let s = rev (dropWhile (\<lambda>c. c = slash) (rev p))
        in if s = [] then ''/'' else rev (takeWhile (\<lambda>c. c \<noteq> slash) (rev s)))"

definition path_Dir :: "string \<Rightarrow> string" where
  "path_Dir p = path_Clean (rev (dropWhile (\<lambda>c. c \<noteq> slash) (rev p)))"

definition path_Join :: "string list \<Rightarrow> string" where
  "path_Join es =
     (case dropWhile (\<lambda>e. e = []) es of [] \<Rightarrow> [] | es' \<Rightarrow> path_Clean (Join es' [slash]))"

definition TrimPrefix :: "string \<Rightarrow> string \<Rightarrow> string" where
  "TrimPrefix s p = (if HasPrefix s p then drop (length p) s else s)"

section \<open>Relations of paths (util.go)\<close>

definition IsParent :: "string \<Rightarrow> string \<Rightarrow> bool" where
  "IsParent path parent =
     (if parent = path then False
      else if IsAbs path \<noteq> IsAbs parent then False
      else if parent = [] \<or> parent = ''.'' then path \<noteq> [] \<and> path \<noteq> ''.''
      else if parent = ''/'' then path \<noteq> ''/''
      else if last parent = slash then HasPrefix path parent
      else if \<not> HasPrefix path parent then False
      else if length path \<le> length parent then False
      else path ! length parent = slash)"

definition PathComponents :: "string \<Rightarrow> string list" where
  "PathComponents path = Split path slash"

fun common_loop :: "string list \<Rightarrow> string list \<Rightarrow> string list" where
  "common_loop (a # as) (b # bs) = (if a \<noteq> b then [] else a # common_loop as bs)"
| "common_loop _ _ = []"

definition CommonPrefix :: "string \<Rightarrow> string \<Rightarrow> string" where
  "CommonPrefix first second =
     (if IsAbs first \<noteq> IsAbs second then []
      else
        let common = common_loop (PathComponents (path_Clean first)) (PathComponents (path_Clean second))
        in if IsAbs first \<and> IsAbs second \<and> length common = 1 then ''/''
           else if length common = 0 then []
           else path_Clean (Join common [slash]))"

section \<open>Names that are not allowed on Windows (util.go)\<close>

definition windowsDisallowedCharacters :: string where
  "windowsDisallowedCharacters = ''<>:'' @ [CHR 0x22] @ ''|?*'' @ map (\<lambda>n. char_of (n::nat)) [0..<32]"

datatype windows_error = ReservedChar char | SpacePeriod | ReservedName string

definition reserved_names :: "string list" where
  "reserved_names = [''CON'', ''PRN'', ''AUX'', ''NUL'',
     ''COM0'', ''COM1'', ''COM2'', ''COM3'', ''COM4'', ''COM5'', ''COM6'', ''COM7'', ''COM8'', ''COM9'',
     ''LPT0'', ''LPT1'', ''LPT2'', ''LPT3'', ''LPT4'', ''LPT5'', ''LPT6'', ''LPT7'', ''LPT8'', ''LPT9'']"

text \<open>No character outside ASCII has one of the letters of these names as its upper case.\<close>

definition windowsReservedNamePart :: "string \<Rightarrow> string" where
  "windowsReservedNamePart part =
     (let part = takeWhile (\<lambda>c. c \<noteq> CHR ''.'') part
      in if length part \<noteq> 3 \<and> length part \<noteq> 4 then []
         else if ToUpper part \<in> set reserved_names then part else [])"

definition backslash :: char where "backslash = CHR 0x5C"

fun windows_parts :: "string list \<Rightarrow> (windows_error, unit) outcome" where
  "windows_parts [] = Ok ()"
| "windows_parts (part # parts) =
     (if part = [] then windows_parts parts
      else if last part = CHR '' '' \<or> last part = CHR ''.'' then Err SpacePeriod
      else if windowsReservedNamePart part \<noteq> [] then Err (ReservedName (windowsReservedNamePart part))
      else windows_parts parts)"

definition WindowsInvalidFilename :: "string \<Rightarrow> (windows_error, unit) outcome" where
  "WindowsInvalidFilename name =
     (case filter (\<lambda>c. c \<in> set windowsDisallowedCharacters) name of
        c # _ \<Rightarrow> Err (ReservedChar c)
      | [] \<Rightarrow> windows_parts (Split name backslash))"

text \<open>
  \<open>SanitizePath\<close> on names of ASCII characters, for which \<open>unicode.IsPrint\<close> says: from the space to
  the tilde.
\<close>

definition IsPrint :: "char \<Rightarrow> bool" where
  "IsPrint c \<longleftrightarrow> 32 \<le> (of_char c :: nat) \<and> (of_char c :: nat) \<le> 126"

definition sanitize_disallowed :: string where
  "sanitize_disallowed = [CHR 0x27] @ ''/'' @ [backslash] @ ''[]{};:!@$%&^#'' @ windowsDisallowedCharacters"

fun sanitize_loop :: "char \<Rightarrow> string \<Rightarrow> string" where
  "sanitize_loop prev [] = []"
| "sanitize_loop prev (c # cs) =
     (let c = (if \<not> IsPrint c \<or> c \<in> set sanitize_disallowed then CHR '' '' else c)
      in (if c = CHR '' '' \<and> prev = CHR '' '' then [] else [c]) @ sanitize_loop c cs)"

definition SanitizePath :: "string \<Rightarrow> string" where
  "SanitizePath path =
     (let path = Trim (sanitize_loop (CHR '' '') path) (CHR '' '')
      in if windowsReservedNamePart path \<noteq> [] then CHR ''-'' # path else path)"

section \<open>Temporary names (tempname.go)\<close>

definition WindowsTempPrefix :: string where "WindowsTempPrefix = ''~syncthing~''"
definition UnixTempPrefix :: string where "UnixTempPrefix = ''.syncthing.''"

definition maxFilenameLength :: nat where
  "maxFilenameLength = 160 - length UnixTempPrefix - length ''.tmp''"

definition IsTemporary :: "string \<Rightarrow> bool" where
  "IsTemporary name = (let name = path_Base name in HasPrefix name WindowsTempPrefix \<or> HasPrefix name UnixTempPrefix)"

definition TempNameWithPrefix :: "(string \<Rightarrow> bytes) \<Rightarrow> string \<Rightarrow> string \<Rightarrow> string" where
  "TempNameWithPrefix sha name prefix =
     (let tdir = path_Dir name; tbase = path_Base name;
          tname = (if maxFilenameLength < length tbase then prefix @ hex_encode (sha tbase) @ ''.tmp''
                   else prefix @ tbase @ ''.tmp'')
      in path_Join [tdir, tname])"

definition TempName :: "(string \<Rightarrow> bytes) \<Rightarrow> string \<Rightarrow> string" where
  "TempName sha name = TempNameWithPrefix sha name UnixTempPrefix"

section \<open>Internal and canonical names (filesystem.go)\<close>

definition internals :: "string list" where
  "internals = [''.stfolder'', ''.stignore'', ''.stversions'']"

definition IsInternal :: "string \<Rightarrow> bool" where
  "IsInternal file = list_ex (\<lambda>internal. file = internal \<or> IsParent file internal) internals"

datatype path_error = errPathInvalid | errPathTraversingUpwards

definition Canonicalize :: "string \<Rightarrow> (path_error, string) outcome" where
  "Canonicalize file =
     (if HasPrefix file ''//'' then Err errPathInvalid
      else
        let file = path_Clean file
        in if file = ''..'' then Err errPathTraversingUpwards
           else if HasPrefix file ''../'' then Err errPathTraversingUpwards
           else if HasPrefix file ''/'' then (if file = ''/'' then Ok ''.'' else Ok (drop 1 file))
           else Ok file)"

section \<open>Components\<close>

lemma Split_append: "Split (a @ sep # b) sep = Split a sep @ Split b sep"
proof (induction a)
  case (Cons c a)
  obtain f fs where "Split a sep = f # fs" by (cases "Split a sep") auto
  then show ?case using Cons by simp
qed simp

lemma Join_append: "as \<noteq> [] \<Longrightarrow> bs \<noteq> [] \<Longrightarrow> Join (as @ bs) [sep] = Join as [sep] @ sep # Join bs [sep]"
proof (induction as "[sep]" rule: Join.induct)
  case (2 f)
  then show ?case by (cases bs) auto
qed auto

lemma HasPrefix_append [simp]: "HasPrefix (p @ s) p"
  by (simp add: HasPrefix_def)

lemma HasPrefix_iff: "HasPrefix s p \<longleftrightarrow> (\<exists>r. s = p @ r)"
  by (metis HasPrefix_append HasPrefix_def append_take_drop_id)

text \<open>For names that passed the checks, being a parent is having a proper part of the components.\<close>

lemma safe_name_not_abs: "safe_name p \<Longrightarrow> \<not> IsAbs p" "safe_name p \<Longrightarrow> p \<noteq> []" "safe_name p \<Longrightarrow> p \<noteq> ''.''"
  "safe_name p \<Longrightarrow> p \<noteq> ''/''" "safe_name p \<Longrightarrow> last p \<noteq> slash"
proof -
  show "safe_name p \<Longrightarrow> \<not> IsAbs p" by (auto simp: safe_name_def IsAbs_def HasPrefix_iff proper_def slash_def)
  show "safe_name p \<Longrightarrow> p \<noteq> []" by (auto simp: safe_name_def proper_def)
  show "safe_name p \<Longrightarrow> p \<noteq> ''.''" by (auto simp: safe_name_def proper_def slash_def)
  show "safe_name p \<Longrightarrow> p \<noteq> ''/''" by (auto simp: safe_name_def proper_def slash_def)
  show "safe_name p \<Longrightarrow> last p \<noteq> slash"
  proof (cases p rule: rev_cases)
    case (snoc q c)
    assume "safe_name p"
    then show ?thesis using snoc Split_append [of q slash "[]"] by (auto simp: safe_name_def proper_def)
  qed (simp add: safe_name_def proper_def)
qed

lemma IsParent_components:
  assumes "safe_name path" and "safe_name parent"
  shows "IsParent path parent \<longleftrightarrow> (\<exists>r. r \<noteq> [] \<and> PathComponents path = PathComponents parent @ r)"
proof -
  note safe = safe_name_not_abs [OF assms(1)] safe_name_not_abs [OF assms(2)]
  have "IsParent path parent \<longleftrightarrow> (\<exists>r. path = parent @ slash # r)"
  proof
    assume p: "IsParent path parent"
    then obtain r where r: "path = parent @ r" "length parent < length path" "path ! length parent = slash"
      using safe by (auto simp: IsParent_def HasPrefix_iff split: if_splits)
    then show "\<exists>r. path = parent @ slash # r" by (cases r) auto
  qed (use safe in \<open>auto simp: IsParent_def\<close>)
  also have "\<dots> \<longleftrightarrow> (\<exists>r. r \<noteq> [] \<and> PathComponents path = PathComponents parent @ r)"
  proof
    assume "\<exists>r. r \<noteq> [] \<and> PathComponents path = PathComponents parent @ r"
    then obtain r where "r \<noteq> []" "Split path slash = Split parent slash @ r" by (auto simp: PathComponents_def)
    then have "path = parent @ slash # Join r [slash]"
      using Join_append [of "Split parent slash" r slash] Join_Split [of path slash] Join_Split [of parent slash] by simp
    then show "\<exists>r. path = parent @ slash # r" by blast
  qed (auto simp: PathComponents_def Split_append)
  finally show ?thesis .
qed

section \<open>Canonical names\<close>

lemma rooted_proper: "list_all proper out \<Longrightarrow> list_all proper (foldl (clean_element True) out es)"
proof (induction es arbitrary: out)
  case (Cons e es)
  have "list_all proper (clean_element True out e)"
    using Cons.prems by (cases out) (auto simp: clean_element_def proper_def list_all_iff)
  then show ?case using Cons.IH by simp
qed simp

lemma clean_no_slash: "\<forall>e \<in> set (foldl (clean_element r) [] (Split p slash)). slash \<notin> set e"
proof -
  have "cleaned (foldl (clean_element r) [] (Split p slash))"
    by (rule cleaned_foldl) (auto simp: cleaned_def Split_fields_no_sep)
  then show ?thesis by (simp add: cleaned_def)
qed

lemma Join_safe: "es \<noteq> [] \<Longrightarrow> list_all proper es \<Longrightarrow> \<forall>e \<in> set es. slash \<notin> set e \<Longrightarrow> safe_name (Join es [slash])"
  by (simp add: safe_name_def Split_Join)

lemma clean_rooted:
  assumes "file \<noteq> []" and "hd file = slash"
  shows "path_Clean file = ''/'' \<or> (\<exists>q. path_Clean file = slash # q \<and> safe_name q)"
proof -
  define out where "out = rev (foldl (clean_element True) [] (Split file slash))"
  have c: "path_Clean file = slash # Join out [slash]" using assms by (simp add: path_Clean_def Let_def out_def)
  have "list_all proper out" "\<forall>e \<in> set out. slash \<notin> set e"
    using rooted_proper [of "[]"] clean_no_slash by (simp_all add: out_def)
  then show ?thesis using c Join_safe [of out] by (cases "out = []") (auto simp: slash_def)
qed

lemma clean_relative:
  assumes "file = [] \<or> hd file \<noteq> slash"
  shows "path_Clean file \<in> {''.'', ''..''} \<or> HasPrefix (path_Clean file) ''../'' \<or> safe_name (path_Clean file)"
proof -
  define out where "out = foldl (clean_element False) [] (Split file slash)"
  have "cleaned out" unfolding out_def by (rule cleaned_foldl) (auto simp: cleaned_def Split_fields_no_sep)
  then obtain es k where out: "out = es @ replicate k ''..''" "list_all proper es" "\<forall>e \<in> set out. slash \<notin> set e" by (auto simp: cleaned_def)
  have c: "path_Clean file = (if out = [] then ''.'' else Join (rev out) [slash])"
    using assms by (auto simp: path_Clean_def Let_def out_def clean_element_def)
  show ?thesis
  proof (cases k)
    case 0
    then show ?thesis using c out Join_safe [of "rev out"] by (cases "out = []") (auto simp: list_all_rev)
  next
    case (Suc n)
    then have "rev out = ''..'' # replicate n ''..'' @ rev es" using out(1) by (simp add: replicate_append_same)
    then show ?thesis using c Join_hd [of "rev out"] Suc by (auto simp: HasPrefix_def slash_def)
  qed
qed

lemma Canonicalize_inside:
  assumes "Canonicalize file = Ok p"
  shows "p = ''.'' \<or> safe_name p"
proof -
  from assms have not_up: "path_Clean file \<noteq> ''..''" "\<not> HasPrefix (path_Clean file) ''../''" by (auto simp: Canonicalize_def Let_def split: if_splits)
  show ?thesis
  proof (cases "file \<noteq> [] \<and> hd file = slash")
    case True
    then show ?thesis using assms clean_rooted [of "file"] by (auto simp: Canonicalize_def HasPrefix_def slash_def Let_def split: if_splits)
  next
    case False
    then have "path_Clean file = ''.'' \<or> safe_name (path_Clean file)" using clean_relative [of "file"] not_up by auto
    then show ?thesis using assms safe_name_not_abs(1) [of "path_Clean file"]
      by (auto simp: Canonicalize_def Let_def IsAbs_def HasPrefix_def split: if_splits)
  qed
qed

lemma Canonicalize_safe:
  assumes "safe_name file"
  shows "Canonicalize file = Ok file"
proof -
  have chk: "checkFilename file = Ok ()" using assms by (simp add: checkFilename_iff)
  have "\<not> HasPrefix file ''//''" using safe_name_not_abs(1) [OF assms] by (auto simp: IsAbs_def HasPrefix_iff)
  then show ?thesis using chk by (auto simp: Canonicalize_def checkFilename_def Let_def split: if_splits)
qed

text \<open>C26: \<open>Canonicalize\<close> never leaves the folder: what it accepts is the root of the folder, or a name whose elements
  are all proper; and it accepts every such name as it is.\<close>

theorem canonical_names_stay_inside:
  "(Canonicalize file = Ok p \<longrightarrow> p = ''.'' \<or> safe_name p) \<and> (safe_name file \<longrightarrow> Canonicalize file = Ok file)"
  using Canonicalize_inside Canonicalize_safe by blast

theorem canonical_names_stay_inside_witness:
  "Canonicalize ''/a/../b/./c'' = Ok ''b/c'' \<and> safe_name ''b/c'' \<and> Canonicalize ''b/c'' = Ok ''b/c''"
proof -
  have "Canonicalize ''/a/../b/./c'' = Ok ''b/c''" by code_simp
  then show ?thesis using canonical_names_stay_inside [of "''/a/../b/./c''" "''b/c''"] canonical_names_stay_inside [of "''b/c''" "''b/c''"] by auto
qed

section \<open>Temporary names\<close>

lemma safe_name_split:
  assumes "safe_name name"
  obtains cs b where "name = Join (cs @ [b]) [slash]" and "list_all proper (cs @ [b])" and "\<forall>e \<in> set (cs @ [b]). slash \<notin> set e"
proof -
  obtain cs b where "Split name slash = cs @ [b]" by (metis Split_not_Nil rev_exhaust)
  then show thesis using that [of cs b] assms Join_Split [of name slash] Split_fields_no_sep [of _ name slash]
    by (metis safe_name_def)
qed

lemma while_stop:
  "\<forall>x \<in> set xs. P x \<Longrightarrow> \<not> P y \<Longrightarrow> takeWhile P (xs @ y # ys) = xs"
  "\<forall>x \<in> set xs. P x \<Longrightarrow> \<not> P y \<Longrightarrow> dropWhile P (xs @ y # ys) = y # ys"
  by (induction xs) auto

lemma hex_no_slash: "slash \<notin> set (hex_encode bs)"
proof -
  have "digit_char d \<noteq> slash" if "d < 16" for d
    using hex_value_digit [OF that] by (auto simp: slash_def hex_value_def)
  from this [symmetric] have "slash \<noteq> digit_char (unat b div 16)" "slash \<noteq> digit_char (unat b mod 16)" for b :: byte
    using unat_byte_less [of b] by (simp_all add: less_mult_imp_div_less)
  then show ?thesis by (induction bs) auto
qed

lemma Base_snoc:
  assumes "proper b" and "slash \<notin> set b"
  shows "path_Base (Join (cs @ [b]) [slash]) = b"
proof -
  let ?p = "Join (cs @ [b]) [slash]"
  have p: "?p = (if cs = [] then b else Join cs [slash] @ slash # b)" using Join_append [of cs "[b]" slash] by simp
  obtain c r where b: "rev b = c # r" "c \<noteq> slash" using assms by (cases "rev b") (auto simp: proper_def)
  have "dropWhile (\<lambda>c. c = slash) (rev ?p) = rev ?p" using p b by auto
  moreover have "takeWhile (\<lambda>c. c \<noteq> slash) (rev ?p) = rev b"
    using p assms(2) while_stop(1) [of "rev b" "\<lambda>c. c \<noteq> slash" slash] by (auto simp: takeWhile_eq_all_conv)
  moreover have "?p \<noteq> []" using p b by auto
  ultimately show ?thesis by (simp add: path_Base_def)
qed

lemma Dir_snoc:
  assumes "list_all proper cs" and "\<forall>e \<in> set cs. slash \<notin> set e" and "slash \<notin> set b"
  shows "path_Dir (Join (cs @ [b]) [slash]) = (if cs = [] then ''.'' else Join cs [slash])"
proof (cases "cs = []")
  case True
  then show ?thesis using assms(3) by (auto simp: path_Dir_def path_Clean_def dropWhile_eq_Nil_conv)
next
  case False
  let ?d = "Join cs [slash]"
  have p: "Join (cs @ [b]) [slash] = ?d @ slash # b" using Join_append [of cs "[b]" slash] False by simp
  have ns: "\<forall>x \<in> set (rev b). x \<noteq> slash" using assms(3) by auto
  have "rev (dropWhile (\<lambda>c. c \<noteq> slash) (rev (Join (cs @ [b]) [slash]))) = ?d @ [slash]"
    unfolding p
    using while_stop(2) [OF ns, of slash] by simp
  then have d: "path_Dir (Join (cs @ [b]) [slash]) = path_Clean (?d @ [slash])" by (simp add: path_Dir_def)
  have safe: "safe_name ?d" by (rule Join_safe [OF False assms(1, 2)])
  have "Split (?d @ [slash]) slash = cs @ [[]]" using Split_append [of ?d slash "[]"] Split_Join [OF False, of slash] assms(2) by simp
  moreover have "hd (?d @ [slash]) \<noteq> slash" using safe_name_not_abs(1, 2) [OF safe] by (cases ?d) (auto simp: IsAbs_def HasPrefix_def slash_def)
  moreover have "foldl (clean_element False) [] (cs @ [[]]) = rev cs" using clean_proper [OF assms(1), of False "[]"] by (simp add: clean_element_def)
  ultimately show ?thesis using False d by (simp add: path_Clean_def Let_def)
qed

lemma path_Join_snoc:
  assumes "list_all proper (cs @ [t])" and "\<forall>e \<in> set (cs @ [t]). slash \<notin> set e"
  shows "path_Join [if cs = [] then ''.'' else Join cs [slash], t] = Join (cs @ [t]) [slash]"
proof (cases "cs = []")
  case True
  have "Split (''./'' @ t) slash = [''.'', t]" using Split_append [of "''.''" slash t] Split_no_sep [of slash t] assms(2) by (simp add: slash_def)
  then show ?thesis using True assms by (simp add: path_Join_def path_Clean_def Let_def clean_element_def proper_def slash_def)
next
  case False
  let ?p = "Join (cs @ [t]) [slash]"
  have p: "?p = Join cs [slash] @ slash # t" using Join_append [of cs "[t]" slash] False by simp
  have safe: "safe_name ?p" by (rule Join_safe [OF _ assms]) simp
  have "checkFilename ?p = Ok ()" using safe by (simp add: checkFilename_iff)
  then have "path_Clean ?p = ?p" by (auto simp: checkFilename_def split: if_splits)
  moreover have "Join cs [slash] \<noteq> []" using safe_name_not_abs(2) [OF Join_safe [OF False]] assms by simp
  ultimately show ?thesis using False p by (simp add: path_Join_def)
qed

text \<open>The temporary name and its last element.\<close>

lemma TempName_parts:
  assumes "safe_name name"
  obtains t cs b where "t = UnixTempPrefix @ (if maxFilenameLength < length b then hex_encode (sha b) else b) @ ''.tmp''"
    and "path_Base (TempName sha name) = t" and "path_Dir (TempName sha name) = path_Dir name" and "safe_name (TempName sha name)"
proof -
  obtain cs b where n: "name = Join (cs @ [b]) [slash]" "list_all proper (cs @ [b])" "\<forall>e \<in> set (cs @ [b]). slash \<notin> set e"
    by (rule safe_name_split [OF assms(1)])
  define t where "t = UnixTempPrefix @ (if maxFilenameLength < length b then hex_encode (sha b) else b) @ ''.tmp''"
  have noslash: "slash \<notin> set t" using n(3) hex_no_slash [of "sha b"] by (auto simp: t_def UnixTempPrefix_def slash_def)
  have proper: "proper t" by (simp add: t_def UnixTempPrefix_def proper_def)
  have base: "path_Base name = b" using Base_snoc [of b cs] n by simp
  have dir: "path_Dir name = (if cs = [] then ''.'' else Join cs [slash])" using Dir_snoc [of cs b] n by simp
  have temp: "TempName sha name = Join (cs @ [t]) [slash]"
    using path_Join_snoc [of cs t] n(2, 3) proper noslash by (auto simp: TempName_def TempNameWithPrefix_def Let_def base dir t_def)
  show thesis
  proof (rule that [OF t_def])
    show "path_Base (TempName sha name) = t" unfolding temp by (rule Base_snoc [OF proper noslash])
    show "path_Dir (TempName sha name) = path_Dir name" unfolding temp dir using Dir_snoc [of cs t] n noslash by simp
    show "safe_name (TempName sha name)" unfolding temp by (rule Join_safe) (use n proper noslash in simp_all)
  qed
qed

lemma TempName_temporary: "safe_name name \<Longrightarrow> IsTemporary (TempName sha name)"
  by (erule TempName_parts [of name sha]) (simp add: IsTemporary_def)

text \<open>The temporary name of a file lies in the directory of the file, is recognised as temporary, passes the checks on
  names, and its last element has at most 160 bytes however long the name of the file is.\<close>

theorem temp_names_are_temporary:
  assumes "safe_name name" and "\<And>s. length (sha s) = 32"
  shows "IsTemporary (TempName sha name) \<and> path_Dir (TempName sha name) = path_Dir name \<and> safe_name (TempName sha name) \<and>
    length (path_Base (TempName sha name)) \<le> 160"
proof (rule TempName_parts [OF assms(1), of sha])
  fix t cs b
  assume t: "t = UnixTempPrefix @ (if maxFilenameLength < length b then hex_encode (sha b) else b) @ ''.tmp''"
    and temp: "path_Base (TempName sha name) = t" "path_Dir (TempName sha name) = path_Dir name" "safe_name (TempName sha name)"
  have "length t \<le> 160" using assms(2) by (simp add: t UnixTempPrefix_def maxFilenameLength_def)
  then show ?thesis using temp TempName_temporary [OF assms(1)] by simp
qed

theorem temp_names_are_temporary_witness:
  "IsTemporary (TempName (\<lambda>s. replicate 32 0) ''a/b'') \<and> path_Dir (TempName (\<lambda>s. replicate 32 0) ''a/b'') = path_Dir ''a/b'' \<and>
   safe_name (TempName (\<lambda>s. replicate 32 0) ''a/b'') \<and> length (path_Base (TempName (\<lambda>s. replicate 32 0) ''a/b'')) \<le> 160"
  by (rule temp_names_are_temporary) (simp_all add: safe_name_def proper_def slash_def)

text \<open>Between names that passed the checks, \<open>IsParent\<close> is the strict prefix order on their components.\<close>

theorem parent_is_prefix_of_components:
  assumes "safe_name path" and "safe_name parent"
  shows "IsParent path parent \<longleftrightarrow> (\<exists>r. r \<noteq> [] \<and> PathComponents path = PathComponents parent @ r)"
  by (rule IsParent_components [OF assms])

theorem parent_is_prefix_of_components_witness: "IsParent ''a/b'' ''a'' \<and> \<not> IsParent ''ab'' ''a''"
  using parent_is_prefix_of_components [of "''a/b''" "''a''"] parent_is_prefix_of_components [of "''ab''" "''a''"]
  by (simp add: safe_name_def proper_def slash_def PathComponents_def)

section \<open>Sanitized names\<close>

lemma sanitize_chars:
  "c \<in> set (sanitize_loop prev s) \<Longrightarrow> c = CHR '' '' \<or> IsPrint c \<and> c \<notin> set sanitize_disallowed"
  by (induction prev s rule: sanitize_loop.induct) (auto simp: Let_def split: if_splits)

lemma Trim_set: "set (Trim s c) \<subseteq> set s"
  unfolding Trim_def TrimLeft_def by (auto dest!: set_dropWhileD)

lemma Trim_last: "Trim s c \<noteq> [] \<Longrightarrow> last (Trim s c) \<noteq> c"
proof -
  assume "Trim s c \<noteq> []"
  then have ne: "dropWhile (\<lambda>x. x = c) (rev (TrimLeft s c)) \<noteq> []" by (simp add: Trim_def)
  then show "last (Trim s c) \<noteq> c" using hd_dropWhile [OF ne] by (simp add: Trim_def last_rev)
qed

lemma space_allowed: "CHR '' '' \<notin> set windowsDisallowedCharacters"
  by code_simp

lemma backslash_disallowed: "backslash \<in> set sanitize_disallowed" "backslash \<noteq> CHR '' ''" "backslash \<noteq> CHR ''-''"
  "CHR ''-'' \<notin> set windowsDisallowedCharacters"
  by code_simp+

lemma hyphen_not_reserved: "windowsReservedNamePart (CHR ''-'' # s) = []"
proof -
  have "ToUpper (CHR ''-'' # x) \<notin> set reserved_names" for x
    by (simp add: ToUpper_def upper_char_def reserved_names_def)
  then show ?thesis by (simp add: windowsReservedNamePart_def Let_def)
qed

text \<open>A sanitized name has no character and no reserved name that Windows refuses; but one that ends in a period stays as it
  is, and Windows refuses it.\<close>

theorem sanitized_name_may_end_in_period:
  "WindowsInvalidFilename (SanitizePath path) =
     (if SanitizePath path \<noteq> [] \<and> last (SanitizePath path) = CHR ''.'' then Err SpacePeriod else Ok ())"
proof -
  let ?t = "Trim (sanitize_loop (CHR '' '') path) (CHR '' '')"
  define q where "q = SanitizePath path"
  have q: "q = (if windowsReservedNamePart ?t \<noteq> [] then CHR ''-'' # ?t else ?t)" by (simp add: q_def SanitizePath_def Let_def)
  have chars: "c = CHR '' '' \<or> IsPrint c \<and> c \<notin> set sanitize_disallowed" if "c \<in> set ?t" for c
    using that Trim_set sanitize_chars by blast
  have "c \<notin> set windowsDisallowedCharacters \<and> c \<noteq> backslash" if "c \<in> set q" for c
    using that chars [of c] space_allowed backslash_disallowed q by (auto simp: sanitize_disallowed_def split: if_splits)
  then have none: "filter (\<lambda>c. c \<in> set windowsDisallowedCharacters) q = []" and part: "Split q backslash = [q]"
    by (auto simp: filter_empty_conv intro!: Split_no_sep)
  have reserved: "windowsReservedNamePart q = []" using q hyphen_not_reserved by (auto split: if_splits)
  have "q \<noteq> [] \<Longrightarrow> last q \<noteq> CHR '' ''"
  proof (cases "?t = []")
    case False
    then show ?thesis using q Trim_last [OF False] by (auto split: if_splits)
  qed (use q in \<open>auto split: if_splits\<close>)
  then show ?thesis
    unfolding q_def [symmetric] WindowsInvalidFilename_def none part using reserved by auto
qed

end
