(* ===== verification/Scan_Cache.thy ===== *)
theory Scan_Cache
  imports Path_Names File_Blocks File_Compare "HOL-Library.List_Lexorder" "HOL-Library.Char_ord" "HOL-Library.Multiset"
begin

text \<open>
  What incremental scans remember, \<^verbatim>\<open>lib/scanner/cache.go\<close> and
  \<^verbatim>\<open>lib/scanner/snapshot.go\<close>: a cache of hashed files and a snapshot of the files seen.
  A map is an association list, in the order in which a loop over it happens to see it.  Times at which
  something is cached are nanoseconds given by the caller.  Cloning makes no difference for values.
\<close>

section \<open>Maps\<close>

definition put :: "'k \<Rightarrow> 'v \<Rightarrow> ('k \<times> 'v) list \<Rightarrow> ('k \<times> 'v) list" where
  "put k v es = (k, v) # filter (\<lambda>e. fst e \<noteq> k) es"

definition del :: "'k \<Rightarrow> ('k \<times> 'v) list \<Rightarrow> ('k \<times> 'v) list" where
  "del k es = filter (\<lambda>e. fst e \<noteq> k) es"

lemma map_of_filter_key: "map_of (filter (\<lambda>e. P (fst e)) es) k = (if P k then map_of es k else None)"
  by (induction es) auto

lemma map_of_put [simp]: "map_of (put k v es) = (map_of es)(k \<mapsto> v)"
  using map_of_filter_key [of "\<lambda>x. x \<noteq> k" es] by (auto simp: put_def fun_eq_iff)

lemma map_of_del [simp]: "map_of (del k es) = (map_of es)(k := None)"
  using map_of_filter_key [of "\<lambda>x. x \<noteq> k" es] by (auto simp: del_def fun_eq_iff)

lemma keys_put [simp]: "fst ` set (put k v es) = insert k (fst ` set es)"
  by (auto simp: put_def image_iff)

lemma keys_del [simp]: "fst ` set (del k es) = fst ` set es - {k}"
  by (auto simp: del_def image_iff)

lemma distinct_filter_keys: "distinct (map fst es) \<Longrightarrow> distinct (map fst (filter P es))"
  by (induction es) auto

lemma distinct_put: "distinct (map fst es) \<Longrightarrow> distinct (map fst (put k v es))"
  by (auto simp: put_def distinct_filter_keys)

lemma filter_key_absent: "k \<notin> fst ` set es \<Longrightarrow> filter (\<lambda>e. fst e \<noteq> k) es = es"
  by (induction es) auto

lemma length_filter_entry:
  "distinct (map fst es) \<Longrightarrow> k \<in> fst ` set es \<Longrightarrow> Suc (length (filter (\<lambda>e. fst e \<noteq> k) es)) = length es"
proof (induction es)
  case (Cons e es)
  then show ?case by (cases "fst e = k") (auto simp: filter_key_absent)
qed simp

section \<open>Paths as keys (cache.go)\<close>

definition cleanCachePath :: "string \<Rightarrow> string" where
  "cleanCachePath p =
     (let cleaned = path_Clean (ReplaceAll1 p backslash slash)
      in if cleaned = ''.'' \<or> cleaned = [] then [] else Trim (TrimPrefix cleaned ''./'') slash)"

definition cleanSnapshotPath :: "string \<Rightarrow> string" where
  "cleanSnapshotPath p =
     (let cleaned = path_Clean (ReplaceAll1 p backslash slash)
      in if cleaned = ''.'' \<or> cleaned = [] then [] else Trim (TrimPrefix cleaned ''./'') slash)"

section \<open>The digest cache (cache.go)\<close>

record DigestEntry =
  File :: FileInfo
  entryModTime :: gotime
  entrySize :: int
  CachedAt :: int

record DigestCache =
  centries :: "(string \<times> DigestEntry) list"
  maxEntries :: int
  ttl :: int

definition NewDigestCache :: "int \<Rightarrow> int \<Rightarrow> DigestCache" where
  "NewDigestCache m t = \<lparr>centries = [], maxEntries = m, ttl = t\<rparr>"

definition cache_Lookup :: "int \<Rightarrow> string \<Rightarrow> gotime \<Rightarrow> int \<Rightarrow> DigestCache \<Rightarrow> FileInfo option" where
  "cache_Lookup now path modTime sz c =
     (case map_of (centries c) (cleanCachePath path) of
        None \<Rightarrow> None
      | Some entry \<Rightarrow>
          if 0 < ttl c \<and> ttl c < now - CachedAt entry then None
          else if entrySize entry \<noteq> sz \<or> entryModTime entry \<noteq> modTime then None
          else Some (File entry))"

text \<open>The loop that looks for the oldest entry: its path and time, once there is a first one.\<close>

fun oldest_loop :: "(string \<times> DigestEntry) list \<Rightarrow> (string \<times> int) option \<Rightarrow> (string \<times> int) option" where
  "oldest_loop [] best = best"
| "oldest_loop ((path, entry) # es) best =
     oldest_loop es
       (case best of
          None \<Rightarrow> Some (path, CachedAt entry)
        | Some (oldestPath, oldestTime) \<Rightarrow>
            if CachedAt entry < oldestTime \<or> CachedAt entry = oldestTime \<and> (oldestPath = [] \<or> path < oldestPath)
            then Some (path, CachedAt entry) else best)"

definition evictOldestLocked :: "DigestCache \<Rightarrow> DigestCache" where
  "evictOldestLocked c =
     c\<lparr>centries := del (case oldest_loop (centries c) None of None \<Rightarrow> [] | Some (p, _) \<Rightarrow> p) (centries c)\<rparr>"

definition cache_Set :: "int \<Rightarrow> string \<Rightarrow> gotime \<Rightarrow> int \<Rightarrow> FileInfo \<Rightarrow> DigestCache \<Rightarrow> DigestCache" where
  "cache_Set now path modTime sz f c =
     (let exists = map_of (centries c) (cleanCachePath path) \<noteq> None;
          c = (if 0 < maxEntries c \<and> \<not> exists \<and> maxEntries c \<le> int (length (centries c)) then evictOldestLocked c else c)
      in c\<lparr>centries := put (cleanCachePath path) \<lparr>File = f, entryModTime = modTime, entrySize = sz, CachedAt = now\<rparr> (centries c)\<rparr>)"

definition cache_Remove :: "string \<Rightarrow> DigestCache \<Rightarrow> DigestCache" where
  "cache_Remove path c = c\<lparr>centries := del (cleanCachePath path) (centries c)\<rparr>"

definition RemovePrefix :: "string \<Rightarrow> DigestCache \<Rightarrow> DigestCache" where
  "RemovePrefix prefix c =
     (let prefix = cleanCachePath prefix
      in c\<lparr>centries := filter (\<lambda>e. \<not> (fst e = prefix \<or> IsParent (fst e) prefix)) (centries c)\<rparr>)"

definition cache_Clear :: "DigestCache \<Rightarrow> DigestCache" where
  "cache_Clear c = c\<lparr>centries := []\<rparr>"

definition cache_Size :: "DigestCache \<Rightarrow> nat" where
  "cache_Size c = length (centries c)"

definition cache_Stats :: "DigestCache \<Rightarrow> nat \<times> int \<times> int" where
  "cache_Stats c = (length (centries c), maxEntries c, ttl c)"

definition IsDirtyOrAncestor :: "string \<Rightarrow> string list \<Rightarrow> bool" where
  "IsDirtyOrAncestor path dirtyPaths =
     (let path = cleanCachePath path
      in path \<in> set dirtyPaths \<or>
         list_ex (\<lambda>dirtyPath.
           let dirtyPath = cleanCachePath dirtyPath
           in path = dirtyPath \<or> IsParent dirtyPath path \<or> IsParent path dirtyPath) dirtyPaths)"

section \<open>The snapshot (snapshot.go)\<close>

type_synonym Snapshot = "(string \<times> FileInfo) list"

definition removeLocked :: "string \<Rightarrow> Snapshot \<Rightarrow> Snapshot" where
  "removeLocked path s = filter (\<lambda>e. \<not> IsParent (fst e) path) (del path s)"

definition Snapshot_Update :: "FileInfo list \<Rightarrow> string list \<Rightarrow> Snapshot \<Rightarrow> Snapshot" where
  "Snapshot_Update files dirtyPaths s =
     fold (\<lambda>f s. put (cleanSnapshotPath (Name f)) f s) files
       (fold (\<lambda>path s. removeLocked (cleanSnapshotPath path) s) dirtyPaths s)"

definition NewSnapshot :: Snapshot where "NewSnapshot = []"

definition NewSnapshotFromFiles :: "FileInfo list \<Rightarrow> Snapshot" where
  "NewSnapshotFromFiles files = Snapshot_Update files [] NewSnapshot"

definition Snapshot_Lookup :: "string \<Rightarrow> Snapshot \<Rightarrow> FileInfo option" where
  "Snapshot_Lookup path s = map_of s (cleanSnapshotPath path)"

definition SubtreeFiles :: "string \<Rightarrow> Snapshot \<Rightarrow> FileInfo list" where
  "SubtreeFiles path s =
     (let path = cleanSnapshotPath path
      in sort_key Name (map snd (filter (\<lambda>e. path = [] \<or> fst e = path \<or> IsParent (fst e) path) s)))"

definition Snapshot_Size :: "Snapshot \<Rightarrow> nat" where
  "Snapshot_Size s = length s"

section \<open>Hashing with the cache (blockqueue.go)\<close>

definition hash_file_cached ::
  "(bytes \<Rightarrow> bytes) \<Rightarrow> nat option \<Rightarrow> file_access \<Rightarrow> int \<Rightarrow> FileInfo \<Rightarrow> DigestCache option \<Rightarrow> (hash_error, FileInfo \<times> DigestCache option) outcome" where
  "hash_file_cached sha ctxDone fa now f cache =
     obind (hash_file sha ctxDone fa f) (\<lambda>f.
       Ok (f, map_option (cache_Set now (Name f) (ModTime f) (Size f) f) cache))"

section \<open>The oldest entry\<close>

definition older :: "string \<times> int \<Rightarrow> string \<times> int \<Rightarrow> bool" where
  "older x y \<longleftrightarrow> snd x < snd y \<or> snd x = snd y \<and> fst x \<le> fst y"

lemma older_trans: "older x y \<Longrightarrow> older y z \<Longrightarrow> older x z"
  by (auto simp: older_def)

lemma older_refl [simp]: "older x x"
  by (simp add: older_def)

lemma oldest_loop_best:
  assumes "[] \<notin> fst ` set es" and "fst b \<noteq> []"
  shows "\<exists>r. oldest_loop es (Some b) = Some r \<and> older r b \<and> (\<forall>(q, e) \<in> set es. older r (q, CachedAt e)) \<and>
    (r = b \<or> r \<in> (\<lambda>(q, e). (q, CachedAt e)) ` set es)"
  using assms
proof (induction es arbitrary: b)
  case (Cons x es)
  obtain q e where x: "x = (q, e)" by (cases x)
  define b' where "b' = (if CachedAt e < snd b \<or> CachedAt e = snd b \<and> q < fst b then (q, CachedAt e) else b)"
  have step: "oldest_loop (x # es) (Some b) = oldest_loop es (Some b')"
    using Cons.prems by (cases b) (auto simp: x b'_def)
  have b': "older b' b" "older b' (q, CachedAt e)" "fst b' \<noteq> []" using Cons.prems by (auto simp: b'_def older_def x)
  obtain r where r: "oldest_loop es (Some b') = Some r" "older r b'" "\<forall>(q, e) \<in> set es. older r (q, CachedAt e)"
      "r = b' \<or> r \<in> (\<lambda>(q, e). (q, CachedAt e)) ` set es"
    using Cons.IH [OF _ b'(3)] Cons.prems(1) unfolding list.set image_insert insert_iff by blast
  have "r = b \<or> r \<in> (\<lambda>(q, e). (q, CachedAt e)) ` set (x # es)" using r(4) by (auto simp: b'_def x)
  then show ?case unfolding step using r b' older_trans [OF r(2)] by (auto simp: x)
qed simp

lemma oldest_found:
  assumes "[] \<notin> fst ` set es" and "es \<noteq> []"
  shows "\<exists>p e. oldest_loop es None = Some (p, CachedAt e) \<and> (p, e) \<in> set es \<and> (\<forall>(q, e') \<in> set es. older (p, CachedAt e) (q, CachedAt e'))"
proof -
  obtain q e es' where es: "es = (q, e) # es'" using assms(2) by (cases es) auto
  have "\<exists>r. oldest_loop es' (Some (q, CachedAt e)) = Some r \<and> older r (q, CachedAt e) \<and> (\<forall>(q, e) \<in> set es'. older r (q, CachedAt e)) \<and>
      (r = (q, CachedAt e) \<or> r \<in> (\<lambda>(q, e). (q, CachedAt e)) ` set es')"
    using oldest_loop_best [of es' "(q, CachedAt e)"] assms(1) es by auto
  then show ?thesis unfolding es by auto
qed

text \<open>When the cache is full, the entry that goes is the one cached first, and the first by name among those; the order in which the
  map is ranged over makes no difference.\<close>

theorem oldest_entry_is_evicted:
  assumes "distinct (map fst es)" and "[] \<notin> fst ` set es" and "mset es = mset es'" and "es \<noteq> []"
  shows "\<exists>p e. (p, e) \<in> set es \<and> (\<forall>(q, e') \<in> set es. CachedAt e < CachedAt e' \<or> CachedAt e = CachedAt e' \<and> p \<le> q) \<and>
    evictOldestLocked (c\<lparr>centries := es\<rparr>) = c\<lparr>centries := del p es\<rparr> \<and> evictOldestLocked (c\<lparr>centries := es'\<rparr>) = c\<lparr>centries := del p es'\<rparr>"
proof -
  have same: "set es = set es'" using assms(3) by (metis set_mset_mset)
  obtain p e where p: "oldest_loop es None = Some (p, CachedAt e)" "(p, e) \<in> set es" "\<forall>(q, e') \<in> set es. older (p, CachedAt e) (q, CachedAt e')"
    using oldest_found [OF assms(2, 4)] by blast
  obtain p' e' where p': "oldest_loop es' None = Some (p', CachedAt e')" "(p', e') \<in> set es'" "\<forall>(q, e'') \<in> set es'. older (p', CachedAt e') (q, CachedAt e'')"
    using oldest_found [of es'] assms(2, 4) same by (cases "es' = []") auto
  have "older (p, CachedAt e) (p', CachedAt e')" "older (p', CachedAt e') (p, CachedAt e)" using p p' same by auto
  then have "p = p'" by (auto simp: older_def)
  then show ?thesis
    using p p' by (intro exI [of _ p] exI [of _ e]) (auto simp: evictOldestLocked_def older_def)
qed

text \<open>The example has two entries of the same time.\<close>

definition sample_entry :: "int \<Rightarrow> DigestEntry" where
  "sample_entry t = \<lparr>File = sample_file, entryModTime = (1, 2), entrySize = 3, CachedAt = t\<rparr>"

theorem oldest_entry_is_evicted_witness:
  "\<exists>p e. (p, e) \<in> {(''a'', sample_entry 5), (''b'', sample_entry 5)} \<and>
    evictOldestLocked ((NewDigestCache 2 0)\<lparr>centries := [(''a'', sample_entry 5), (''b'', sample_entry 5)]\<rparr>) =
      (NewDigestCache 2 0)\<lparr>centries := del p [(''a'', sample_entry 5), (''b'', sample_entry 5)]\<rparr> \<and>
    evictOldestLocked ((NewDigestCache 2 0)\<lparr>centries := [(''b'', sample_entry 5), (''a'', sample_entry 5)]\<rparr>) =
      (NewDigestCache 2 0)\<lparr>centries := del p [(''b'', sample_entry 5), (''a'', sample_entry 5)]\<rparr>"
  using oldest_entry_is_evicted [of "[(''a'', sample_entry 5), (''b'', sample_entry 5)]" "[(''b'', sample_entry 5), (''a'', sample_entry 5)]" "NewDigestCache 2 0"]
  by (auto simp: add_mset_commute)

section \<open>Reachable caches\<close>

text \<open>The states of a cache, with everything that was stored so far.\<close>

inductive cache_reach :: "int \<Rightarrow> int \<Rightarrow> (string \<times> gotime \<times> int \<times> FileInfo) list \<Rightarrow> DigestCache \<Rightarrow> bool" for m t where
  new: "cache_reach m t [] (NewDigestCache m t)"
| set': "cache_reach m t hist c \<Longrightarrow> cache_reach m t ((cleanCachePath path, modTime, sz, f) # hist) (cache_Set now path modTime sz f c)"
| remove: "cache_reach m t hist c \<Longrightarrow> cache_reach m t hist (cache_Remove path c)"
| prefix: "cache_reach m t hist c \<Longrightarrow> cache_reach m t hist (RemovePrefix path c)"
| clear: "cache_reach m t hist c \<Longrightarrow> cache_reach m t hist (cache_Clear c)"

definition cache_inv :: "int \<Rightarrow> int \<Rightarrow> (string \<times> gotime \<times> int \<times> FileInfo) list \<Rightarrow> DigestCache \<Rightarrow> bool" where
  "cache_inv m t hist c \<longleftrightarrow> maxEntries c = m \<and> ttl c = t \<and> distinct (map fst (centries c)) \<and>
     (0 < m \<longrightarrow> int (length (centries c)) \<le> m) \<and>
     (\<forall>(k, e) \<in> set (centries c). (k, entryModTime e, entrySize e, File e) \<in> set hist)"

lemma cache_inv_filter:
  assumes "cache_inv m t hist c"
  shows "cache_inv m t hist (c\<lparr>centries := filter P (centries c)\<rparr>)"
proof -
  have "0 < m \<longrightarrow> int (length (filter P (centries c))) \<le> m"
    using assms length_filter_le [of P "centries c"] unfolding cache_inv_def by linarith
  then show ?thesis using assms unfolding cache_inv_def by (auto simp: distinct_filter_keys)
qed

lemma oldest_in_keys: "oldest_loop es best = Some (p, x) \<Longrightarrow> p \<in> fst ` set es \<or> (\<exists>y. best = Some (p, y))"
  by (induction es best rule: oldest_loop.induct) (auto split: option.splits if_splits)

lemma oldest_some: "es \<noteq> [] \<or> best \<noteq> None \<Longrightarrow> oldest_loop es best \<noteq> None"
  by (induction es best rule: oldest_loop.induct) (auto split: option.splits)

lemma evict_shrinks:
  assumes "distinct (map fst (centries c))" and "centries c \<noteq> []"
  shows "Suc (length (centries (evictOldestLocked c))) = length (centries c)"
proof -
  obtain p x where p: "oldest_loop (centries c) None = Some (p, x)" using oldest_some [of "centries c" None] assms(2) by auto
  then have "p \<in> fst ` set (centries c)" using oldest_in_keys by fastforce
  then show ?thesis using p length_filter_entry [OF assms(1)] by (simp add: evictOldestLocked_def del_def)
qed

lemma cache_inv_Set:
  assumes "cache_inv m t hist c"
  shows "cache_inv m t ((cleanCachePath path, modTime, sz, f) # hist) (cache_Set now path modTime sz f c)"
proof -
  define k where "k = cleanCachePath path"
  define c1 where "c1 = (if 0 < maxEntries c \<and> \<not> map_of (centries c) k \<noteq> None \<and> maxEntries c \<le> int (length (centries c)) then evictOldestLocked c else c)"
  have inv1: "cache_inv m t hist c1"
    using assms cache_inv_filter [OF assms] by (auto simp: c1_def evictOldestLocked_def del_def)
  have room: "int (length (filter (\<lambda>e. fst e \<noteq> k) (centries c1))) < m" if "0 < m"
  proof (cases "k \<in> fst ` set (centries c1)")
    case True
    then show ?thesis using inv1 that length_filter_entry [of "centries c1" k] by (auto simp: cache_inv_def)
  next
    case False
    have "int (length (centries c1)) < m"
      using assms that evict_shrinks [of c] False by (auto simp: c1_def cache_inv_def map_of_eq_None_iff split: if_splits)
    then show ?thesis using length_filter_le [of _ "centries c1"] by (metis order_le_less_trans of_nat_le_iff)
  qed
  have "cache_Set now path modTime sz f c = c1\<lparr>centries := put k \<lparr>File = f, entryModTime = modTime, entrySize = sz, CachedAt = now\<rparr> (centries c1)\<rparr>"
    by (simp add: cache_Set_def c1_def k_def Let_def)
  then show ?thesis
    using inv1 room by (fastforce simp: cache_inv_def distinct_put put_def distinct_filter_keys k_def [symmetric])
qed

lemma cache_reach_inv: "cache_reach m t hist c \<Longrightarrow> cache_inv m t hist c"
proof (induction rule: cache_reach.induct)
  case (clear hist c)
  then show ?case by (simp add: cache_Clear_def cache_inv_def)
qed (auto simp: cache_inv_Set cache_Remove_def del_def RemovePrefix_def Let_def cache_inv_filter NewDigestCache_def cache_inv_def [of _ _ "[]"])

text \<open>However files are stored and dropped, the cache never has more entries than its maximum, and what it answers for a path, time and
  size is a file that was stored for that path with that time and size.\<close>

theorem cache_answers_what_was_stored:
  assumes "cache_reach m t hist c"
  shows "(0 < m \<longrightarrow> int (cache_Size c) \<le> m) \<and>
    (\<forall>f. cache_Lookup now path modTime sz c = Some f \<longrightarrow> (cleanCachePath path, modTime, sz, f) \<in> set hist)"
  using cache_reach_inv [OF assms]
  by (fastforce simp: cache_inv_def cache_Size_def cache_Lookup_def dest!: map_of_SomeD split: option.splits if_splits)

theorem cache_answers_what_was_stored_witness:
  "cache_Lookup 9 ''a'' (1, 2) 3 (cache_Set 7 ''a'' (1, 2) 3 sample_file (NewDigestCache 1 0)) = Some sample_file \<and>
   int (cache_Size (cache_Set 7 ''a'' (1, 2) 3 sample_file (NewDigestCache 1 0))) \<le> 1"
proof -
  have "cache_reach 1 0 [(cleanCachePath ''a'', (1, 2), 3, sample_file)] (cache_Set 7 ''a'' (1, 2) 3 sample_file (NewDigestCache 1 0))"
    by (intro cache_reach.intros)
  from cache_answers_what_was_stored [OF this] show ?thesis
    by (simp add: cache_Lookup_def cache_Set_def NewDigestCache_def Let_def)
qed

text \<open>A backslash in a name counts as a separator for the cache, also where it is an ordinary character: two different files
  share an entry, and one gets the file info of the other.\<close>

theorem backslash_names_share_an_entry:
  "cache_Lookup now ''a/b'' modTime sz (cache_Set now (''a'' @ backslash # ''b'') modTime sz f (NewDigestCache m t)) = Some f"
proof -
  have "cleanCachePath (''a'' @ backslash # ''b'') = ''a/b''" "cleanCachePath ''a/b'' = ''a/b''" by code_simp+
  then show ?thesis by (simp add: cache_Lookup_def cache_Set_def NewDigestCache_def Let_def)
qed

end
