(* ===== verification/Scan_Walk.thy ===== *)
theory Scan_Walk
  imports Scan_Cache
begin

unbundle bit_operations_syntax

text \<open>
  Walking a folder, \<^verbatim>\<open>lib/scanner/walk.go\<close>: which items are reported, and as what.

  The order of the items is that of the walk of the file system; \<open>walk_item\<close> is the function it calls
  for each, with the items that go to the hashers and those that are finished as lists.  The
  configuration has the database (\<open>wCurrentFile\<close>), the patterns (\<open>wMatch\<close>), the normalisation of
  Unicode and the cache of an incremental scan; what the file system answers and the time are given anew
  for every item.
\<close>

section \<open>Configuration and results\<close>

record stat =
  sIsDir :: bool
  sIsRegular :: bool
  sIsSymlink :: bool
  sSize :: int
  sModTime :: gotime
  sMode :: uint32

record match_result =
  mIgnored :: bool
  mCanSkipDir :: bool

record walk_cfg =
  wOs :: goos
  wScanOwnership :: bool
  wScanXattrs :: bool
  wIgnorePerms :: bool
  wAutoNormalize :: bool
  wLocalFlags :: uint32
  wModTimeWindow :: int
  wShortID :: short_id
  wTempLifetime :: int
  wCurrentFile :: "string \<Rightarrow> FileInfo option"
  wMatch :: "string \<Rightarrow> match_result"
  wNormalize :: "string \<Rightarrow> string"
  wValidUtf8 :: "string \<Rightarrow> bool"
  wIncremental :: bool
  wCache :: "DigestCache option"
  wBaseline :: "Snapshot option"

datatype walk_error = CtxErr | ErrSkipDir | PlatformError string | SymlinkError string | RenameError string
  | ErrUTF8Invalid | ErrUTF8Normalization | ErrUTF8Conflict | StatFailed string | NotExist

record walk_env =
  eNow :: uint64                                  \<comment> \<open>the time for version vectors\<close>
  eTime :: int                                    \<comment> \<open>the time for the cache\<close>
  eStart :: gotime                                \<comment> \<open>the time when the walk began\<close>
  ePlatform :: "string \<Rightarrow> string + PlatformData"
  eReadSymlink :: "string \<Rightarrow> string + bytes"
  eLstat :: "string \<Rightarrow> walk_error + stat"
  eRename :: "string \<Rightarrow> string \<Rightarrow> string option"
  eSameFile :: bool
  eSends :: bool                                  \<comment> \<open>somebody takes the result before the context is done\<close>
  eSha :: "string \<Rightarrow> bytes"

datatype ScanResult = Scanned FileInfo | ScanError string walk_error

record walk_state =
  toHash :: "FileInfo list"
  finished :: "ScanResult list"
  ignoredParent :: string
  removedTemps :: "string list"

definition handleError :: "walk_env \<Rightarrow> string \<Rightarrow> walk_error \<Rightarrow> walk_state \<Rightarrow> walk_state" where
  "handleError env path err st = (if eSends env then st\<lparr>finished := finished st @ [ScanError path err]\<rparr> else st)"

definition emit :: "walk_env \<Rightarrow> FileInfo \<Rightarrow> walk_state \<Rightarrow> walk_error option \<times> walk_state" where
  "emit env f st = (if eSends env then (None, st\<lparr>finished := finished st @ [Scanned f]\<rparr>) else (Some CtxErr, st))"

definition to_hashers :: "walk_env \<Rightarrow> FileInfo \<Rightarrow> walk_state \<Rightarrow> walk_error option \<times> walk_state" where
  "to_hashers env f st = (if eSends env then (None, st\<lparr>toHash := toHash st @ [f]\<rparr>) else (Some CtxErr, st))"

section \<open>File infos\<close>

definition zero_file :: "string \<Rightarrow> FileInfo" where
  "zero_file name =
     \<lparr>Name = name, Size = 0, ModifiedS = 0, ModifiedBy = 0, Version = \<lparr>Counters = []\<rparr>, Sequence = 0, Blocks = [],
      SymlinkTarget = [], BlocksHash = [], PreviousBlocksHash = [], Encrypted = [], Platform = empty_platform,
      Type = FileInfoTypeFile, Permissions = 0, ModifiedNs = 0, RawBlockSize = 0, LocalFlags = 0,
      EncryptionTrailerSize = 0, Deleted = False, NoPermissions = False, truncated = False\<rparr>"

definition CreateFileInfo :: "walk_env \<Rightarrow> stat \<Rightarrow> string \<Rightarrow> bool \<Rightarrow> bool \<Rightarrow> walk_error + FileInfo" where
  "CreateFileInfo env fi name scanOwnership scanXattrs =
     (case (if scanOwnership \<or> scanXattrs
            then (case ePlatform env name of Inl e \<Rightarrow> Inl (PlatformError e) | Inr p \<Rightarrow> Inr ((zero_file name)\<lparr>Platform := p\<rparr>))
            else Inr (zero_file name)) of
        Inl e \<Rightarrow> Inl e
      | Inr f \<Rightarrow>
          if sIsSymlink fi then
            (case eReadSymlink env name of
               Inl e \<Rightarrow> Inl (SymlinkError e)
             | Inr target \<Rightarrow> Inr (f\<lparr>Type := FileInfoTypeSymlink, SymlinkTarget := target, NoPermissions := True\<rparr>))
          else
            let f = f\<lparr>Permissions := sMode fi AND 0x1FF, ModifiedS := int64 (fst (sModTime fi) - unixToInternal),
                      ModifiedNs := snd (sModTime fi)\<rparr>
            in if sIsDir fi then Inr (f\<lparr>Type := FileInfoTypeDirectory\<rparr>)
               else Inr (f\<lparr>Size := sSize fi, Type := FileInfoTypeFile\<rparr>))"

definition updateFileInfo :: "walk_cfg \<Rightarrow> walk_env \<Rightarrow> FileInfo \<Rightarrow> FileInfo \<Rightarrow> FileInfo" where
  "updateFileInfo cfg env dst src =
     (let dst = (if Type dst = FileInfoTypeFile \<and> wOs cfg = GoWindows
                 then dst\<lparr>Permissions := Permissions dst OR (Permissions src AND 0x49)\<rparr> else dst)
      in dst\<lparr>Version := updateWithNow (Version src) (wShortID cfg) (eNow env), ModifiedBy := wShortID cfg,
             LocalFlags := wLocalFlags cfg, PreviousBlocksHash := BlocksHash src,
             Platform := MergeWith (Platform dst) (Platform src)\<rparr>)"

text \<open>The comparison with the file in the database: nothing when it is unchanged, else the file to report.\<close>

definition walk_comparison :: "walk_cfg \<Rightarrow> FileInfoComparison" where
  "walk_comparison cfg =
     \<lparr>ModTimeWindow = wModTimeWindow cfg, IgnorePerms = wIgnorePerms cfg, IgnoreBlocks = True, IgnoreFlags = wLocalFlags cfg,
      IgnoreOwnership = \<not> wScanOwnership cfg, IgnoreXattrs = \<not> wScanXattrs cfg\<rparr>"

definition rescan :: "walk_cfg \<Rightarrow> FileInfo option \<Rightarrow> FileInfo \<Rightarrow> FileInfo option" where
  "rescan cfg curFile f =
     (case curFile of
        None \<Rightarrow> Some f
      | Some cur \<Rightarrow>
          if IsEquivalentOptional (wOs cfg) cur f (walk_comparison cfg) then None
          else if ShouldConflict cur \<and> \<not> ShouldConflict f then Some (f\<lparr>Version := DropOthers (Version f) (wShortID cfg)\<rparr>)
          else Some f)"

section \<open>The cache of an incremental scan\<close>

definition incrementalCache :: "walk_cfg \<Rightarrow> DigestCache option" where
  "incrementalCache cfg = (if \<not> wIncremental cfg then None else wCache cfg)"

definition lookupIncrementalCache :: "walk_cfg \<Rightarrow> walk_env \<Rightarrow> string \<Rightarrow> stat \<Rightarrow> FileInfo \<Rightarrow> FileInfo option" where
  "lookupIncrementalCache cfg env relPath info fresh =
     (case incrementalCache cfg of
        None \<Rightarrow> None
      | Some cache \<Rightarrow>
          if (case wBaseline cfg of None \<Rightarrow> True | Some b \<Rightarrow> Snapshot_Size b = 0) then None
          else
            case cache_Lookup (eTime env) relPath (sModTime info) (sSize info) cache of
              None \<Rightarrow> None
            | Some cached \<Rightarrow>
                if FileInfo_BlockSize cached \<noteq> FileInfo_BlockSize fresh then None
                else Some (cached\<lparr>Version := Version fresh, ModifiedBy := ModifiedBy fresh, LocalFlags := LocalFlags fresh,
                       NoPermissions := NoPermissions fresh, PreviousBlocksHash := PreviousBlocksHash fresh,
                       Platform := MergeWith (Platform cached) (Platform fresh)\<rparr>))"

section \<open>Items\<close>

definition retained_block_size :: "int \<Rightarrow> FileInfo option \<Rightarrow> int" where
  "retained_block_size sz curFile =
     (let blockSize = int (BlockSize sz)
      in case curFile of
           None \<Rightarrow> blockSize
         | Some cur \<Rightarrow>
             let curBlockSize = FileInfo_BlockSize cur
             in if curBlockSize < blockSize \<and> blockSize div curBlockSize \<le> 2 then curBlockSize
                else if blockSize < curBlockSize \<and> curBlockSize div blockSize \<le> 2 then curBlockSize
                else blockSize)"

definition cur_or_zero :: "FileInfo option \<Rightarrow> FileInfo" where
  "cur_or_zero curFile = (case curFile of None \<Rightarrow> zero_file [] | Some cur \<Rightarrow> cur)"

definition walkRegular :: "walk_cfg \<Rightarrow> walk_env \<Rightarrow> string \<Rightarrow> stat \<Rightarrow> walk_state \<Rightarrow> walk_error option \<times> walk_state" where
  "walkRegular cfg env relPath info st =
     (let curFile = wCurrentFile cfg relPath;
          blockSize = retained_block_size (sSize info) curFile
      in case CreateFileInfo env info relPath (wScanOwnership cfg) (wScanXattrs cfg) of
           Inl e \<Rightarrow> (Some e, st)
         | Inr f \<Rightarrow>
             let f = (updateFileInfo cfg env f (cur_or_zero curFile))\<lparr>NoPermissions := wIgnorePerms cfg, RawBlockSize := int32 blockSize\<rparr>
             in case rescan cfg curFile f of
                  None \<Rightarrow> (None, st)
                | Some f \<Rightarrow>
                    (case lookupIncrementalCache cfg env relPath info f of
                       Some cached \<Rightarrow> emit env cached st
                     | None \<Rightarrow> to_hashers env f st))"

definition walkDir :: "walk_cfg \<Rightarrow> walk_env \<Rightarrow> string \<Rightarrow> stat \<Rightarrow> walk_state \<Rightarrow> walk_error option \<times> walk_state" where
  "walkDir cfg env relPath info st =
     (let curFile = wCurrentFile cfg relPath
      in case CreateFileInfo env info relPath (wScanOwnership cfg) (wScanXattrs cfg) of
           Inl e \<Rightarrow> (Some e, st)
         | Inr f \<Rightarrow>
             let f = (updateFileInfo cfg env f (cur_or_zero curFile))\<lparr>NoPermissions := wIgnorePerms cfg\<rparr>
             in case rescan cfg curFile f of None \<Rightarrow> (None, st) | Some f \<Rightarrow> emit env f st)"

definition walkSymlink :: "walk_cfg \<Rightarrow> walk_env \<Rightarrow> string \<Rightarrow> stat \<Rightarrow> walk_state \<Rightarrow> walk_error option \<times> walk_state" where
  "walkSymlink cfg env relPath info st =
     (if wOs cfg = GoWindows then (None, st)
      else
        case CreateFileInfo env info relPath (wScanOwnership cfg) (wScanXattrs cfg) of
          Inl e \<Rightarrow> (Some e, st)
        | Inr f \<Rightarrow>
            let curFile = wCurrentFile cfg relPath;
                f = updateFileInfo cfg env f (cur_or_zero curFile)
            in case rescan cfg curFile f of None \<Rightarrow> (None, st) | Some f \<Rightarrow> emit env f st)"

definition handleItem :: "walk_cfg \<Rightarrow> walk_env \<Rightarrow> string \<Rightarrow> stat \<Rightarrow> walk_state \<Rightarrow> walk_error option \<times> walk_state" where
  "handleItem cfg env path info st =
     (if sIsSymlink info then
        (case walkSymlink cfg env path info st of
           (Some e, st) \<Rightarrow> (Some e, st)
         | (None, st) \<Rightarrow> (if sIsDir info then Some ErrSkipDir else None, st))
      else if sIsDir info then walkDir cfg env path info st
      else if sIsRegular info then walkRegular cfg env path info st
      else (None, st))"

definition applyNormalization :: "walk_env \<Rightarrow> string \<Rightarrow> string \<Rightarrow> walk_error + string" where
  "applyNormalization env path normPath =
     (if eLstat env normPath = Inl NotExist then
        (case eRename env path normPath of Some e \<Rightarrow> Inl (RenameError e) | None \<Rightarrow> Inr normPath)
      else if eSameFile env then
        (let tempPath = TempNameWithPrefix (eSha env) normPath []
         in case eRename env path tempPath of
              Some e \<Rightarrow> Inl (RenameError e)
            | None \<Rightarrow> (case eRename env tempPath normPath of Some e \<Rightarrow> Inr tempPath | None \<Rightarrow> Inr normPath))
      else Inl ErrUTF8Conflict)"

section \<open>The function of the walk\<close>

datatype walk_answer = Go_on | Skip_dir | Stop

text \<open>The loop over the elements below the ignored parent; \<open>None\<close> when all were handled.\<close>

fun parents_loop ::
  "walk_cfg \<Rightarrow> walk_env \<Rightarrow> string \<Rightarrow> string list \<Rightarrow> walk_state \<Rightarrow> walk_error option \<times> walk_state" where
  "parents_loop cfg env path [] st = (None, st)"
| "parents_loop cfg env path (name # names) st =
     (let parent = path_Join [ignoredParent st, name];
          st = st\<lparr>ignoredParent := parent\<rparr>
      in case eLstat env parent of
           Inl e \<Rightarrow> (Some e, handleError env parent e st)
         | Inr info \<Rightarrow>
             (case handleItem cfg env parent info st of
                (Some e, st) \<Rightarrow> (Some e, handleError env path e st)
              | (None, st) \<Rightarrow> parents_loop cfg env path names st))"

definition handle_or_report ::
  "walk_cfg \<Rightarrow> walk_env \<Rightarrow> walk_answer \<Rightarrow> string \<Rightarrow> stat \<Rightarrow> walk_state \<Rightarrow> walk_answer \<times> walk_state" where
  "handle_or_report cfg env skip path info st =
     (case handleItem cfg env path info st of
        (Some e, st) \<Rightarrow> (skip, handleError env path e st)
      | (None, st) \<Rightarrow> (Go_on, st))"

definition walk_found ::
  "walk_cfg \<Rightarrow> walk_env \<Rightarrow> walk_answer \<Rightarrow> string \<Rightarrow> stat \<Rightarrow> walk_state \<Rightarrow> walk_answer \<times> walk_state" where
  "walk_found cfg env skip path info st =
     (if ignoredParent st = [] then handle_or_report cfg env skip path info st
      else
        let rel = TrimPrefix path (ignoredParent st @ [slash])
        in if rel = path then handle_or_report cfg env skip path info (st\<lparr>ignoredParent := []\<rparr>)
           else
             case parents_loop cfg env path ([] # PathComponents rel) st of
               (Some e, st) \<Rightarrow> (skip, st)
             | (None, st) \<Rightarrow> (Go_on, st\<lparr>ignoredParent := []\<rparr>))"

definition walk_item ::
  "walk_cfg \<Rightarrow> walk_env \<Rightarrow> bool \<Rightarrow> string \<Rightarrow> walk_error + stat \<Rightarrow> walk_state \<Rightarrow> walk_answer \<times> walk_state" where
  "walk_item cfg env ctxDone path item st =
     (if ctxDone then (Stop, st)
      else
        let skip = (case item of Inr info \<Rightarrow> (if sIsDir info then Skip_dir else Go_on) | Inl _ \<Rightarrow> Go_on)
        in if \<not> wValidUtf8 cfg path then (skip, handleError env path ErrUTF8Invalid st)
           else if IsTemporary path then
             (Go_on,
              case item of
                Inl _ \<Rightarrow> st
              | Inr info \<Rightarrow>
                  if sIsRegular info \<and> nanoseconds (sModTime info) (eStart env) + wTempLifetime cfg < 0
                  then st\<lparr>removedTemps := removedTemps st @ [path]\<rparr> else st)
           else if IsInternal path then (skip, st)
           else
             let nonNormPath = path; path = wNormalize cfg path; m = wMatch cfg path
             in if mIgnored m then
                  (case item of
                     Inl _ \<Rightarrow> (skip, st)
                   | Inr info \<Rightarrow>
                       if mCanSkipDir m \<or> sIsSymlink info then (skip, st)
                       else if sIsDir info \<and> (ignoredParent st = [] \<or> \<not> IsParent path (ignoredParent st))
                       then (Go_on, st\<lparr>ignoredParent := path\<rparr>)
                       else (Go_on, st))
                else
                  case item of
                    Inl e \<Rightarrow> (skip, if e \<noteq> NotExist then handleError env path e st else st)
                  | Inr info \<Rightarrow>
                      if path = ''.'' then (Go_on, st)
                      else if path \<noteq> nonNormPath then
                        (if \<not> wAutoNormalize cfg then (skip, handleError env nonNormPath ErrUTF8Normalization st)
                         else case applyNormalization env nonNormPath path of
                                Inl e \<Rightarrow> (skip, handleError env nonNormPath e st)
                              | Inr path \<Rightarrow> walk_found cfg env skip path info st)
                      else walk_found cfg env skip path info st)"

section \<open>What is reported\<close>

definition scanned_version :: "walk_cfg \<Rightarrow> walk_env \<Rightarrow> FileInfo option \<Rightarrow> vector \<Rightarrow> bool" where
  "scanned_version cfg env curFile v \<longleftrightarrow>
     (let u = updateWithNow (Version (cur_or_zero curFile)) (wShortID cfg) (eNow env)
      in v = u \<or> v = DropOthers u (wShortID cfg) \<and> (\<exists>cur. curFile = Some cur \<and> ShouldConflict cur))"

lemma rescan_version:
  assumes "rescan cfg curFile g = Some f" and "Version g = updateWithNow (Version (cur_or_zero curFile)) (wShortID cfg) (eNow env)"
  shows "scanned_version cfg env curFile (Version f)"
  using assms by (auto simp: rescan_def scanned_version_def Let_def split: option.splits if_splits)

lemma updateFileInfo_simps [simp]:
  "Version (updateFileInfo cfg env dst src) = updateWithNow (Version src) (wShortID cfg) (eNow env)"
  "Name (updateFileInfo cfg env dst src) = Name dst" "Type (updateFileInfo cfg env dst src) = Type dst"
  "NoPermissions (updateFileInfo cfg env dst src) = NoPermissions dst"
  by (simp_all add: updateFileInfo_def Let_def)

lemma rescan_regular_version:
  "rescan cfg curFile ((updateFileInfo cfg env f (cur_or_zero curFile))\<lparr>NoPermissions := a, RawBlockSize := b\<rparr>) = Some g \<Longrightarrow>
   scanned_version cfg env curFile (Version g)"
  by (erule rescan_version) simp

lemma cached_version: "lookupIncrementalCache cfg env relPath info fresh = Some f \<Longrightarrow> Version f = Version fresh"
  by (auto simp: lookupIncrementalCache_def split: option.splits if_splits)

text \<open>At most one item is added to the lists, with a version that goes with the file of the database.\<close>

definition reports :: "walk_cfg \<Rightarrow> walk_env \<Rightarrow> string \<Rightarrow> walk_state \<Rightarrow> walk_state \<Rightarrow> bool" where
  "reports cfg env path st st' \<longleftrightarrow> (\<exists>fs gs. toHash st' = toHash st @ fs \<and> finished st' = finished st @ map Scanned gs \<and> length (fs @ gs) \<le> 1 \<and>
     (\<forall>f \<in> set (fs @ gs). scanned_version cfg env (wCurrentFile cfg path) (Version f)))"

lemma reports_refl [simp]: "reports cfg env path st st"
  by (auto simp: reports_def)

lemma reports_emit:
  "emit env f st = (err, st') \<Longrightarrow> scanned_version cfg env (wCurrentFile cfg path) (Version f) \<Longrightarrow> reports cfg env path st st'"
  unfolding reports_def
  by (cases "eSends env", intro exI [of _ "[]"] exI [of _ "[f]"], simp_all add: emit_def) fastforce

lemma reports_to_hashers:
  "to_hashers env f st = (err, st') \<Longrightarrow> scanned_version cfg env (wCurrentFile cfg path) (Version f) \<Longrightarrow> reports cfg env path st st'"
  unfolding reports_def
  by (cases "eSends env", intro exI [of _ "[f]"] exI [of _ "[]"], simp_all add: to_hashers_def) fastforce

lemma walkDir_reports: "walkDir cfg env path info st = (err, st') \<Longrightarrow> reports cfg env path st st'"
  by (auto simp: walkDir_def Let_def split: sum.splits option.splits elim!: reports_emit intro: rescan_version)

lemma walkSymlink_reports: "walkSymlink cfg env path info st = (err, st') \<Longrightarrow> reports cfg env path st st'"
  by (auto simp: walkSymlink_def Let_def split: sum.splits option.splits if_splits elim!: reports_emit intro: rescan_version)

lemma walkRegular_reports: "walkRegular cfg env path info st = (err, st') \<Longrightarrow> reports cfg env path st st'"
  by (auto simp: walkRegular_def Let_def cached_version split: sum.splits option.splits elim!: reports_emit reports_to_hashers dest: rescan_regular_version)

lemma handleItem_reports: "handleItem cfg env path info st = (err, st') \<Longrightarrow> reports cfg env path st st'"
  by (auto simp: handleItem_def walkDir_reports walkSymlink_reports walkRegular_reports split: if_splits prod.splits option.splits)

text \<open>C27: What a scan reports about an item that is in the database supersedes the database: at most one result per item, whose version is
  greater than the one in the database, unless that one was marked as possibly in conflict.\<close>

theorem scanned_items_are_newer:
  assumes "handleItem cfg env path info st = (err, st')" and "wCurrentFile cfg path = Some cur" and "wf_vector (Version cur)"
    and "Counter (Version cur) (wShortID cfg) < - 1" and "\<not> ShouldConflict cur"
  shows "\<exists>fs gs. toHash st' = toHash st @ fs \<and> finished st' = finished st @ map Scanned gs \<and> length (fs @ gs) \<le> 1 \<and>
    (\<forall>f \<in> set (fs @ gs). Compare (Version f) (Version cur) = Greater)"
proof -
  have "Compare v (Version cur) = Greater" if "scanned_version cfg env (wCurrentFile cfg path) v" for v
    using that assms(2, 5) update_strictly_greater [OF assms(3, 4), of "eNow env"] by (auto simp: scanned_version_def cur_or_zero_def Let_def)
  then show ?thesis using handleItem_reports [OF assms(1)] unfolding reports_def by blast
qed

text \<open>An example: a file whose permissions were changed, with and without a cache.\<close>

definition sample_stat :: stat where
  "sample_stat = \<lparr>sIsDir = False, sIsRegular = True, sIsSymlink = False, sSize = 131072, sModTime = time_Unix 1700000000 5, sMode = 0x180\<rparr>"

definition sample_current :: FileInfo where
  "sample_current = sample_file\<lparr>LocalFlags := 0\<rparr>"

definition sample_walk :: walk_cfg where
  "sample_walk = \<lparr>wOs = GoLinux, wScanOwnership = False, wScanXattrs = False, wIgnorePerms = False, wAutoNormalize = False, wLocalFlags = 0,
     wModTimeWindow = 0, wShortID = 5, wTempLifetime = 0, wCurrentFile = (\<lambda>n. if n = ''a'' then Some sample_current else None),
     wMatch = (\<lambda>_. \<lparr>mIgnored = False, mCanSkipDir = False\<rparr>), wNormalize = id, wValidUtf8 = (\<lambda>_. True), wIncremental = True,
     wCache = Some (cache_Set 7 ''a'' (time_Unix 1700000000 5) 131072 sample_current (NewDigestCache 0 0)), wBaseline = Some [(''a'', sample_current)]\<rparr>"

definition sample_scan_env :: walk_env where
  "sample_scan_env = \<lparr>eNow = 100, eTime = 9, eStart = (0, 0), ePlatform = (\<lambda>_. Inl []), eReadSymlink = (\<lambda>_. Inl []), eLstat = (\<lambda>_. Inl NotExist),
     eRename = (\<lambda>_ _. None), eSameFile = False, eSends = True, eSha = (\<lambda>_. [])\<rparr>"

definition no_results :: walk_state where
  "no_results = \<lparr>toHash = [], finished = [], ignoredParent = [], removedTemps = []\<rparr>"

lemma sample_current_facts:
  "wCurrentFile sample_walk ''a'' = Some sample_current" "wf_vector (Version sample_current)" "Counter (Version sample_current) 5 < - 1"
  "\<not> ShouldConflict sample_current"
proof -
  show "wf_vector (Version sample_current)" by (simp add: sample_current_def sample_file_def)
  show "Counter (Version sample_current) 5 < - 1" by (simp add: sample_current_def sample_file_def Counter_def vec_a_def)
  show "\<not> ShouldConflict sample_current" by code_simp
qed (simp add: sample_walk_def)

theorem scanned_items_are_newer_witness:
  "\<exists>err st' f. handleItem sample_walk sample_scan_env ''a'' (sample_stat\<lparr>sIsDir := True\<rparr>) no_results = (err, st') \<and> finished st' = [Scanned f] \<and>
     Compare (Version f) (Version sample_current) = Greater"
proof -
  let ?item = "handleItem sample_walk sample_scan_env ''a'' (sample_stat\<lparr>sIsDir := True\<rparr>) no_results"
  obtain err st' where h: "?item = (err, st')" by fastforce
  have "length (finished (snd ?item)) = 1" by code_simp
  then have one: "length (finished st') = 1" using h by simp
  have "wShortID sample_walk = 5" by (simp add: sample_walk_def)
  then obtain fs gs where "toHash st' = toHash no_results @ fs" "finished st' = finished no_results @ map Scanned gs"
      "\<forall>f \<in> set (fs @ gs). Compare (Version f) (Version sample_current) = Greater"
    using scanned_items_are_newer [OF h sample_current_facts(1, 2) _ sample_current_facts(4)] sample_current_facts(3) by auto
  then obtain f where "finished st' = [Scanned f]" "Compare (Version f) (Version sample_current) = Greater"
    using one by (auto simp: no_results_def length_Suc_conv)
  then show ?thesis using h by blast
qed

section \<open>Changed permissions\<close>

lemma perms_not_equivalent:
  assumes "\<not> IgnorePerms cmp" and "\<not> NoPermissions f" and "\<not> NoPermissions g" and "\<not> PermsEqual os (Permissions f) (Permissions g)"
  shows "\<not> IsEquivalentOptional os f g cmp"
  using assms by (simp add: IsEquivalentOptional_def isEquivalent_def Let_def)

text \<open>A hit in the cache hides a change of permissions: when only the permissions of a file changed, an incremental scan reports the file
  with the old permissions and a new version, so the change is never announced, and the next scan finds it changed again.\<close>

theorem cache_hides_changed_permissions:
  assumes "wCurrentFile cfg path = Some cur" and "\<not> ShouldConflict cur" and "\<not> wIgnorePerms cfg" and "wOs cfg \<noteq> GoWindows" and "\<not> NoPermissions cur"
    and "CreateFileInfo env info path (wScanOwnership cfg) (wScanXattrs cfg) = Inr f0" and "\<not> sIsSymlink info" and "\<not> sIsDir info"
    and "\<not> PermsEqual (wOs cfg) (Permissions cur) (sMode info AND 0x1FF)"
    and "incrementalCache cfg = Some cache" and "wBaseline cfg = Some base" and "base \<noteq> []"
    and "cache_Lookup (eTime env) path (sModTime info) (sSize info) cache = Some cached"
    and "FileInfo_BlockSize cached = FileInfo_BlockSize (f0\<lparr>RawBlockSize := int32 (retained_block_size (sSize info) (Some cur))\<rparr>)" and "eSends env"
  shows "\<exists>f. walkRegular cfg env path info st = (None, st\<lparr>finished := finished st @ [Scanned f]\<rparr>) \<and> Permissions f = Permissions cached \<and>
    Version f = updateWithNow (Version cur) (wShortID cfg) (eNow env)"
proof -
  let ?f = "(updateFileInfo cfg env f0 cur)\<lparr>NoPermissions := wIgnorePerms cfg, RawBlockSize := int32 (retained_block_size (sSize info) (Some cur))\<rparr>"
  have perms: "Permissions ?f = sMode info AND 0x1FF"
    using assms(4, 6-8) by (auto simp: updateFileInfo_def CreateFileInfo_def Let_def split: if_splits sum.splits)
  have "\<not> IsEquivalentOptional (wOs cfg) cur ?f (walk_comparison cfg)"
    by (rule perms_not_equivalent) (use assms(3, 5, 9) perms in \<open>simp_all add: walk_comparison_def\<close>)
  then have re: "rescan cfg (Some cur) ?f = Some ?f" using assms(2) by (simp add: rescan_def)
  have "FileInfo_BlockSize cached = FileInfo_BlockSize ?f" using assms(14) by (simp add: FileInfo_BlockSize_def)
  then obtain f where f: "lookupIncrementalCache cfg env path info ?f = Some f" "Permissions f = Permissions cached" "Version f = Version ?f"
    using assms(10-13) by (auto simp: lookupIncrementalCache_def Snapshot_Size_def)
  have "walkRegular cfg env path info st = emit env f st"
    using assms(1, 6) re f(1) by (simp add: walkRegular_def Let_def cur_or_zero_def)
  then show ?thesis using f assms(15) by (auto simp: emit_def)
qed

theorem cache_hides_changed_permissions_witness:
  "\<exists>f. walkRegular sample_walk sample_scan_env ''a'' sample_stat no_results = (None, no_results\<lparr>finished := [Scanned f]\<rparr>) \<and>
     Permissions f = 0x1A4 \<and> sMode sample_stat = 0x180"
proof -
  have lookup: "cache_Lookup (eTime sample_scan_env) ''a'' (sModTime sample_stat) (sSize sample_stat)
      (cache_Set 7 ''a'' (time_Unix 1700000000 5) 131072 sample_current (NewDigestCache 0 0)) = Some sample_current"
    by (simp add: cache_Lookup_def cache_Set_def NewDigestCache_def sample_stat_def Let_def)
  obtain f0 where f0: "CreateFileInfo sample_scan_env sample_stat ''a'' (wScanOwnership sample_walk) (wScanXattrs sample_walk) = Inr f0"
    by (auto simp: CreateFileInfo_def sample_walk_def sample_stat_def Let_def)
  have size: "FileInfo_BlockSize (f0\<lparr>RawBlockSize := int32 (retained_block_size (sSize sample_stat) (Some sample_current))\<rparr>) = FileInfo_BlockSize sample_current"
    by (simp add: FileInfo_BlockSize_def retained_block_size_def sample_stat_def sample_current_def sample_file_def BlockSize_def BlockSizes_value
        DesiredPerFileBlocks_def MinBlockSize_def int32_def Let_def)
  show ?thesis
    using cache_hides_changed_permissions [where st = no_results, OF sample_current_facts(1, 4) _ _ _ f0 _ _ _ _ _ _ lookup size [symmetric]]
    by (auto simp: sample_walk_def sample_stat_def sample_scan_env_def sample_current_def sample_file_def incrementalCache_def PermsEqual_def no_results_def)
qed

section \<open>Ignored parents\<close>

text \<open>The paths from the ignored parent down to the item.\<close>

fun paths_down :: "string list \<Rightarrow> string list \<Rightarrow> string list" where
  "paths_down cs [] = []"
| "paths_down cs (d # ds) = Join (cs @ [d]) [slash] # paths_down (cs @ [d]) ds"

definition new_directory :: "walk_cfg \<Rightarrow> walk_env \<Rightarrow> string \<Rightarrow> bool" where
  "new_directory cfg env path \<longleftrightarrow> wCurrentFile cfg path = None \<and> (\<exists>info. eLstat env path = Inr info \<and> sIsDir info \<and> \<not> sIsSymlink info)"

lemma new_directory_reported:
  assumes "new_directory cfg env path" and "eLstat env path = Inr info" and "\<not> wScanOwnership cfg" and "\<not> wScanXattrs cfg" and "eSends env"
  shows "\<exists>f. handleItem cfg env path info st = (None, st\<lparr>finished := finished st @ [Scanned f]\<rparr>) \<and> Name f = path \<and> Type f = FileInfoTypeDirectory"
  using assms by (auto simp: new_directory_def handleItem_def walkDir_def CreateFileInfo_def rescan_def emit_def Let_def zero_file_def)

lemma path_Join_below:
  assumes "list_all proper (cs @ [d])" and "\<forall>e \<in> set (cs @ [d]). slash \<notin> set e" and "cs \<noteq> []"
  shows "path_Join [Join cs [slash], d] = Join (cs @ [d]) [slash]"
  using path_Join_snoc [OF assms(1, 2)] assms(3) by simp

lemma parents_loop_reports:
  assumes "cs \<noteq> []" and "list_all proper (cs @ ds)" and "\<forall>e \<in> set (cs @ ds). slash \<notin> set e"
    and "\<forall>p \<in> set (paths_down cs ds). new_directory cfg env p" and "\<not> wScanOwnership cfg" and "\<not> wScanXattrs cfg" and "eSends env"
    and "ignoredParent st = Join cs [slash]"
  shows "\<exists>gs. parents_loop cfg env path ds st =
      (None, st\<lparr>finished := finished st @ map Scanned gs, ignoredParent := Join (cs @ ds) [slash]\<rparr>) \<and> map Name gs = paths_down cs ds"
  using assms
proof (induction ds arbitrary: cs st)
  case Nil
  then show ?case by simp
next
  case (Cons d ds)
  let ?p = "Join (cs @ [d]) [slash]"
  let ?st = "st\<lparr>ignoredParent := ?p\<rparr>"
  have p: "path_Join [ignoredParent st, d] = ?p" using path_Join_below [of cs d] Cons.prems by simp
  have new: "new_directory cfg env ?p" using Cons.prems(4) by simp
  then obtain info where info: "eLstat env ?p = Inr info" by (auto simp: new_directory_def)
  obtain f where f: "handleItem cfg env ?p info ?st = (None, ?st\<lparr>finished := finished st @ [Scanned f]\<rparr>)" "Name f = ?p"
    using new_directory_reported [OF new info Cons.prems(5-7), of ?st] by auto
  obtain gs where gs: "parents_loop cfg env path ds (?st\<lparr>finished := finished st @ [Scanned f]\<rparr>) =
      (None, ?st\<lparr>finished := (finished st @ [Scanned f]) @ map Scanned gs, ignoredParent := Join ((cs @ [d]) @ ds) [slash]\<rparr>)"
      "map Name gs = paths_down (cs @ [d]) ds"
    using Cons.IH [of "cs @ [d]" "?st\<lparr>finished := finished st @ [Scanned f]\<rparr>"] Cons.prems by auto
  then show ?case using p info f by (intro exI [of _ "f # gs"]) (simp add: Let_def)
qed

lemma path_Join_empty:
  assumes "cs \<noteq> []" and "list_all proper cs" and "\<forall>e \<in> set cs. slash \<notin> set e"
  shows "path_Join [Join cs [slash], []] = Join cs [slash]"
proof -
  have d: "path_Dir (Join (cs @ [''x'']) [slash]) = Join cs [slash]" using Dir_snoc [OF assms(2, 3), of "''x''"] assms(1) by (simp add: slash_def)
  have "Join (cs @ [''x'']) [slash] = Join cs [slash] @ slash # ''x''" using Join_append [of cs "[''x'']" slash] assms(1) by simp
  then have "path_Clean (Join cs [slash] @ [slash]) = Join cs [slash]" using d by (simp add: path_Dir_def slash_def)
  moreover have "Join cs [slash] \<noteq> []" using safe_name_not_abs(2) [OF Join_safe [OF assms]] .
  ultimately show ?thesis by (simp add: path_Join_def)
qed

text \<open>When a directory is ignored but something below it is not, then the directory and everything between are reported before that
  item, each once, from the top down, and the walk goes on as if nothing above were ignored.\<close>

theorem ignored_parents_are_reported:
  assumes "cs \<noteq> []" and "ds \<noteq> []" and "list_all proper (cs @ ds)" and "\<forall>e \<in> set (cs @ ds). slash \<notin> set e"
    and "ignoredParent st = Join cs [slash]" and "path = Join (cs @ ds) [slash]"
    and "\<forall>p \<in> set (Join cs [slash] # paths_down cs ds). new_directory cfg env p" and "\<not> wScanOwnership cfg" and "\<not> wScanXattrs cfg" and "eSends env"
  shows "\<exists>gs. walk_found cfg env skip path info st = (Go_on, st\<lparr>finished := finished st @ map Scanned gs, ignoredParent := []\<rparr>) \<and>
    map Name gs = Join cs [slash] # paths_down cs ds"
proof -
  let ?p = "Join cs [slash]" and ?st = "st\<lparr>ignoredParent := Join cs [slash]\<rparr>"
  have proper: "list_all proper cs" "\<forall>e \<in> set cs. slash \<notin> set e" "\<forall>e \<in> set ds. slash \<notin> set e" using assms(3, 4) by simp_all
  have path: "path = (?p @ [slash]) @ Join ds [slash]" using Join_append [OF assms(1, 2), of slash] assms(6) by simp
  have rel: "TrimPrefix path (?p @ [slash]) = Join ds [slash]" unfolding path by (simp only: TrimPrefix_def HasPrefix_append if_True append_eq_conv_conj [symmetric] append_take_drop_id) simp
  have comps: "PathComponents (Join ds [slash]) = ds" using Split_Join [OF assms(2) proper(3)] by (simp add: PathComponents_def)
  have ne: "?p \<noteq> []" using safe_name_not_abs(2) [OF Join_safe [OF assms(1) proper(1, 2)]] .
  have differs: "Join ds [slash] \<noteq> path" using path by (metis append_self_conv2 append_is_Nil_conv list.distinct(1))
  obtain info' where info': "eLstat env ?p = Inr info'" using assms(7) by (auto simp: new_directory_def)
  obtain f where f: "handleItem cfg env ?p info' ?st = (None, ?st\<lparr>finished := finished st @ [Scanned f]\<rparr>)" "Name f = ?p"
    using new_directory_reported [OF _ info' assms(8-10), of ?st] assms(7) by auto
  obtain gs where gs: "parents_loop cfg env path ds (?st\<lparr>finished := finished st @ [Scanned f]\<rparr>) =
      (None, ?st\<lparr>finished := (finished st @ [Scanned f]) @ map Scanned gs, ignoredParent := Join (cs @ ds) [slash]\<rparr>)" "map Name gs = paths_down cs ds"
    using parents_loop_reports [OF assms(1, 3, 4) _ assms(8-10), where st = "?st\<lparr>finished := finished st @ [Scanned f]\<rparr>"] assms(7) by auto
  have "parents_loop cfg env path ([] # ds) st = (None, st\<lparr>finished := finished st @ map Scanned (f # gs), ignoredParent := Join (cs @ ds) [slash]\<rparr>)"
    using info' f gs path_Join_empty [OF assms(1) proper(1, 2)] by (simp add: assms(5) Let_def)
  then show ?thesis
    using rel comps ne differs f(2) gs(2) by (intro exI [of _ "f # gs"]) (simp add: walk_found_def assms(5) Let_def)
qed

definition sample_tree :: walk_cfg where
  "sample_tree = sample_walk\<lparr>wCurrentFile := \<lambda>_. None\<rparr>"

definition sample_dirs :: walk_env where
  "sample_dirs = sample_scan_env\<lparr>eLstat := \<lambda>_. Inr (sample_stat\<lparr>sIsDir := True\<rparr>)\<rparr>"

theorem ignored_parents_are_reported_witness:
  "\<exists>gs. walk_found sample_tree sample_dirs Go_on ''a/b/c'' sample_stat (no_results\<lparr>ignoredParent := ''a''\<rparr>) =
     (Go_on, no_results\<lparr>finished := map Scanned gs, ignoredParent := []\<rparr>) \<and> map Name gs = [''a'', ''a/b'', ''a/b/c'']"
  using ignored_parents_are_reported [where cs = "[''a'']" and ds = "[''b'', ''c'']" and st = "no_results\<lparr>ignoredParent := ''a''\<rparr>" and path = "''a/b/c''"
      and cfg = sample_tree and env = sample_dirs and skip = Go_on and info = sample_stat]
  by (simp add: proper_def slash_def new_directory_def sample_tree_def sample_walk_def sample_dirs_def sample_scan_env_def sample_stat_def no_results_def)

end
