(* ===== verification/Ignore_Patterns.thy ===== *)
theory Ignore_Patterns
  imports Path_Names
begin

unbundle bit_operations_syntax

text \<open>
  Ignore patterns, \<^verbatim>\<open>lib/ignore\<close>: results as bits, parsing of a pattern file with its
  includes, and matching with a cache.

  Compiling a glob, lower case and Unicode normalisation are fields of \<open>ignore_env\<close>.  A pattern file is
  the list of its lines; \<open>openFile\<close> gives those of included files or an error.  Includes recurse with
  fuel, and it is shown how much is enough.
\<close>

section \<open>Results (ignoreresult.go)\<close>

type_synonym R = byte

definition ignoreBit :: R where "ignoreBit = push_bit 0 1"
definition deletableBit :: R where "deletableBit = push_bit 1 1"
definition foldCaseBit :: R where "foldCaseBit = push_bit 2 1"
definition canSkipDirBit :: R where "canSkipDirBit = push_bit 3 1"

definition NotIgnored :: R where "NotIgnored = 0"

text \<open>On platforms that fold the case of names, ignoring does so, too.\<close>

definition Ignored :: "bool \<Rightarrow> R" where
  "Ignored foldCase = (if foldCase then ignoreBit OR foldCaseBit else ignoreBit)"

definition IgnoreAndSkip :: "bool \<Rightarrow> R" where
  "IgnoreAndSkip foldCase = Ignored foldCase OR canSkipDirBit"

definition R_IsIgnored :: "R \<Rightarrow> bool" where "R_IsIgnored r \<longleftrightarrow> r AND ignoreBit \<noteq> 0"
definition IsDeletable :: "R \<Rightarrow> bool" where "IsDeletable r \<longleftrightarrow> R_IsIgnored r \<and> r AND deletableBit \<noteq> 0"
definition IsCaseFolded :: "R \<Rightarrow> bool" where "IsCaseFolded r \<longleftrightarrow> r AND foldCaseBit \<noteq> 0"
definition CanSkipDir :: "R \<Rightarrow> bool" where "CanSkipDir r \<longleftrightarrow> R_IsIgnored r \<and> r AND canSkipDirBit \<noteq> 0"
definition ToggleIgnored :: "R \<Rightarrow> R" where "ToggleIgnored r = r XOR ignoreBit"
definition WithDeletable :: "R \<Rightarrow> R" where "WithDeletable r = r OR deletableBit"
definition WithFoldCase :: "R \<Rightarrow> R" where "WithFoldCase r = r OR foldCaseBit"
definition WithSkipDir :: "R \<Rightarrow> R" where "WithSkipDir r = r OR canSkipDirBit"

section \<open>Strings\<close>

definition HasSuffix :: "string \<Rightarrow> string \<Rightarrow> bool" where
  "HasSuffix s x \<longleftrightarrow> length x \<le> length s \<and> drop (length s - length x) s = x"

definition TrimSuffix :: "string \<Rightarrow> string \<Rightarrow> string" where
  "TrimSuffix s x = (if HasSuffix s x then take (length s - length x) s else s)"

fun Contains :: "string \<Rightarrow> string \<Rightarrow> bool" where
  "Contains [] x \<longleftrightarrow> x = []"
| "Contains (c # s) x \<longleftrightarrow> HasPrefix (c # s) x \<or> Contains s x"

function ReplaceAll :: "string \<Rightarrow> string \<Rightarrow> string \<Rightarrow> string" where
  "ReplaceAll [] old new = []"
| "ReplaceAll (c # s) old new =
     (if old \<noteq> [] \<and> HasPrefix (c # s) old then new @ ReplaceAll (drop (length old) (c # s)) old new
      else c # ReplaceAll s old new)"
  by pat_completeness auto
termination by (relation "measure (\<lambda>(s, old, new). length s)") (auto simp: not_le)

definition is_space :: "char \<Rightarrow> bool" where
  "is_space c \<longleftrightarrow> (of_char c :: nat) \<in> {9, 10, 11, 12, 13, 32}"

definition TrimSpace :: "string \<Rightarrow> string" where
  "TrimSpace s = rev (dropWhile is_space (rev (dropWhile is_space s)))"

section \<open>Patterns (ignore.go)\<close>

record ignore_env =
  compile :: "string \<Rightarrow> (string \<Rightarrow> bool) option"
  toLower :: "string \<Rightarrow> string"
  uniNorm :: "string \<Rightarrow> string"
  foldCase :: bool
  oneRune :: "string \<Rightarrow> bool"
  openFile :: "string \<Rightarrow> string + string list"
  shaText :: "string \<Rightarrow> string"

record Pattern =
  pattern :: string
  match :: "string \<Rightarrow> bool"
  result :: R

definition Pattern_String :: "Pattern \<Rightarrow> string" where
  "Pattern_String p =
     (let ret = pattern p;
          ret = (if \<not> R_IsIgnored (result p) then ''!'' @ ret else ret);
          ret = (if IsCaseFolded (result p) then ''(?i)'' @ ret else ret)
      in if IsDeletable (result p) then ''(?d)'' @ ret else ret)"

text \<open>A pattern is never empty.\<close>

definition allowsSkippingIgnoredDirs :: "Pattern \<Rightarrow> bool" where
  "allowsSkippingIgnoredDirs p =
     (if R_IsIgnored (result p) then True
      else if hd (pattern p) \<noteq> slash then False
      else
        let pat = TrimSuffix (pattern p) ''/**''
        in if length pat = 0 then True
           else if Contains (drop 1 pat) ''/'' then False
           else \<not> Contains (TrimSuffix pat ''**'') ''**'')"

datatype ignore_error = MissingPattern | BadGlob | MultipleEscape | EscapeAfterPatterns | BadEscape | BadInclude
  | MultipleInclude | IncludeFailed string

text \<open>The prefixes of a line, in any order but each once: the flags already seen, the result and the rest.\<close>

function line_prefixes :: "bool \<Rightarrow> bool \<Rightarrow> bool \<Rightarrow> R \<Rightarrow> string \<Rightarrow> R \<times> string" where
  "line_prefixes s0 s1 s2 r line =
     (if HasPrefix line ''!'' \<and> \<not> s0 then line_prefixes True s1 s2 (ToggleIgnored r) (drop 1 line)
      else if HasPrefix line ''(?i)'' \<and> \<not> s1 then line_prefixes s0 True s2 (WithFoldCase r) (drop 4 line)
      else if HasPrefix line ''(?d)'' \<and> \<not> s2 then line_prefixes s0 s1 True (WithDeletable r) (drop 4 line)
      else (r, line))"
  by pat_completeness auto
termination by (relation "measure (\<lambda>(s0, s1, s2, r, line). length line)") (auto simp: HasPrefix_iff)

declare line_prefixes.simps [simp del]

definition compile_as :: "ignore_env \<Rightarrow> R \<Rightarrow> string \<Rightarrow> string \<Rightarrow> (ignore_error, Pattern) outcome" where
  "compile_as env r text glob =
     (case compile env glob of None \<Rightarrow> Err BadGlob | Some m \<Rightarrow> Ok \<lparr>pattern = text, match = m, result = r\<rparr>)"

definition parseLine :: "ignore_env \<Rightarrow> string \<Rightarrow> (ignore_error, Pattern list) outcome" where
  "parseLine env line =
     (case line_prefixes False False False (Ignored (foldCase env)) (uniNorm env line) of (r, line) \<Rightarrow>
        if line = [] then Err MissingPattern
        else
          let line = (if IsCaseFolded r then toLower env line else line)
          in if HasPrefix line ''/'' then obind (compile_as env r line (drop 1 line)) (\<lambda>p. Ok [p])
             else
               let other = (if HasPrefix line ''**/'' then drop 3 line else ''**/'' @ line)
               in obind (compile_as env r line line) (\<lambda>p0. obind (compile_as env r other other) (\<lambda>p1. Ok [p0, p1])))"

section \<open>Pattern files\<close>

record parse_state =
  patterns :: "Pattern list"
  includedPatterns :: nat
  linesSeen :: "string list"
  filesSeen :: "string list"
  escapeChar :: string
  escapePrefixSeen :: bool

definition escapePrefix :: string where "escapePrefix = ''#escape''"

definition parse_escape :: "ignore_env \<Rightarrow> string \<Rightarrow> parse_state \<Rightarrow> (ignore_error, parse_state) outcome" where
  "parse_escape env line st =
     (if escapePrefixSeen st then Err MultipleEscape
      else if 0 < length (patterns st) - includedPatterns st then Err EscapeAfterPatterns
      else
        case Cut (TrimSpace (TrimPrefix line escapePrefix)) (CHR ''='') of
          None \<Rightarrow> Err BadEscape
        | Some (before, esc) \<Rightarrow>
            if before = [] \<and> oneRune env (TrimSpace esc) then Ok (st\<lparr>escapePrefixSeen := True, escapeChar := TrimSpace esc\<rparr>)
            else Err BadEscape)"

definition escape_line :: "string \<Rightarrow> string \<Rightarrow> string" where
  "escape_line esc line =
     (if esc \<noteq> [backslash]
      then ReplaceAll (ReplaceAll line esc [backslash]) [backslash, backslash] (backslash # esc)
      else line)"

definition add_pattern :: "ignore_env \<Rightarrow> string \<Rightarrow> parse_state \<Rightarrow> (ignore_error, parse_state) outcome" where
  "add_pattern env line st = obind (parseLine env line) (\<lambda>ps. Ok (st\<lparr>patterns := patterns st @ ps\<rparr>))"

definition add_line :: "ignore_env \<Rightarrow> string \<Rightarrow> parse_state \<Rightarrow> (ignore_error, parse_state) outcome" where
  "add_line env line st =
     (if HasSuffix line ''/**'' then add_pattern env line st
      else if HasSuffix line ''/'' then add_pattern env (line @ ''**'') st
      else obind (add_pattern env line st) (add_pattern env (line @ ''/**'')))"

text \<open>The name of the file on an include line, relative to the including file.\<close>

definition include_file :: "string \<Rightarrow> string \<Rightarrow> (ignore_error, string) outcome" where
  "include_file currentFile line =
     (case Cut line (CHR '' '') of
        None \<Rightarrow> Err BadInclude
      | Some (_, rest) \<Rightarrow>
          let includeRel = TrimSpace rest
          in if includeRel = [] then Err BadInclude else Ok (path_Join [path_Dir currentFile, includeRel]))"

definition load_include :: "ignore_env \<Rightarrow> string \<Rightarrow> parse_state \<Rightarrow> (ignore_error, string list) outcome" where
  "load_include env f st =
     (if f \<in> set (filesSeen st) then Err MultipleInclude
      else case openFile env f of Inl e \<Rightarrow> Err (IncludeFailed e) | Inr ls \<Rightarrow> Ok ls)"

definition open_include :: "ignore_env \<Rightarrow> string \<Rightarrow> string \<Rightarrow> parse_state \<Rightarrow> (ignore_error, string \<times> string list) outcome" where
  "open_include env currentFile line st =
     obind (include_file currentFile line) (\<lambda>f. obind (load_include env f st) (\<lambda>ls. Ok (f, map TrimSpace ls)))"

definition enter_include :: "string \<Rightarrow> parse_state \<Rightarrow> parse_state" where
  "enter_include f st =
     st\<lparr>patterns := [], includedPatterns := 0, filesSeen := f # filesSeen st, escapeChar := [backslash], escapePrefixSeen := False\<rparr>"

definition leave_include :: "parse_state \<Rightarrow> parse_state \<Rightarrow> parse_state" where
  "leave_include st st' =
     st\<lparr>patterns := patterns st @ patterns st', includedPatterns := includedPatterns st + length (patterns st'),
        linesSeen := linesSeen st', filesSeen := filesSeen st'\<rparr>"

text \<open>The loop over the lines of a file; \<open>None\<close> when the fuel does not suffice for the includes.\<close>

function parse_lines ::
  "ignore_env \<Rightarrow> nat \<Rightarrow> string \<Rightarrow> string list \<Rightarrow> parse_state \<Rightarrow> (ignore_error, parse_state) outcome option" where
  "parse_lines env n currentFile [] st = Some (Ok st)"
| "parse_lines env n currentFile (line # ls) st =
     (if HasPrefix line escapePrefix then
        (case parse_escape env line st of
           Ok st \<Rightarrow> parse_lines env n currentFile ls st
         | Err e \<Rightarrow> Some (Err e)
         | Panic \<Rightarrow> Some Panic)
      else if line \<in> set (linesSeen st) then parse_lines env n currentFile ls st
      else
        let st = st\<lparr>linesSeen := line # linesSeen st\<rparr>
        in if line = [] \<or> HasPrefix line ''//'' then parse_lines env n currentFile ls st
           else
             let line = escape_line (escapeChar st) line
             in if HasPrefix line ''#include'' then
                  (case open_include env currentFile line st of
                     Err e \<Rightarrow> Some (Err e)
                   | Panic \<Rightarrow> Some Panic
                   | Ok (f, ils) \<Rightarrow>
                       (case n of
                          0 \<Rightarrow> None
                        | Suc m \<Rightarrow>
                            (case parse_lines env m f ils (enter_include f st) of
                               Some (Ok st') \<Rightarrow> parse_lines env n currentFile ls (leave_include st st')
                             | Some (Err e) \<Rightarrow> Some (Err e)
                             | Some Panic \<Rightarrow> Some Panic
                             | None \<Rightarrow> None)))
                else
                  (case add_line env line st of
                     Ok st \<Rightarrow> parse_lines env n currentFile ls st
                   | Err e \<Rightarrow> Some (Err e)
                   | Panic \<Rightarrow> Some Panic))"
  by pat_completeness auto
termination by (relation "measures [\<lambda>(env, n, f, ls, st). n, \<lambda>(env, n, f, ls, st). length ls]") auto

definition new_parse_state :: "string list \<Rightarrow> parse_state" where
  "new_parse_state seen = \<lparr>patterns = [], includedPatterns = 0, linesSeen = [], filesSeen = seen, escapeChar = [backslash], escapePrefixSeen = False\<rparr>"

definition parseIgnoreFile ::
  "ignore_env \<Rightarrow> nat \<Rightarrow> string \<Rightarrow> string list \<Rightarrow> string list \<Rightarrow> (ignore_error, Pattern list) outcome option" where
  "parseIgnoreFile env n currentFile seen ls =
     (case parse_lines env n currentFile (map TrimSpace ls) (new_parse_state seen) of
        None \<Rightarrow> None
      | Some (Ok st) \<Rightarrow> Some (Ok (patterns st))
      | Some (Err e) \<Rightarrow> Some (Err e)
      | Some Panic \<Rightarrow> Some Panic)"

section \<open>The matcher\<close>

record cacheEntry =
  cresult :: R
  access :: int

record Matcher =
  mlines :: "string list"
  mpatterns :: "Pattern list"
  withCache :: bool
  matches :: "(string \<Rightarrow> cacheEntry option) option"
  curHash :: string

definition NewMatcher :: "bool \<Rightarrow> Matcher" where
  "NewMatcher c = \<lparr>mlines = [], mpatterns = [], withCache = c, matches = None, curHash = []\<rparr>"

definition hashPatterns :: "ignore_env \<Rightarrow> Pattern list \<Rightarrow> string" where
  "hashPatterns env ps = shaText env (concat (map (\<lambda>p. Pattern_String p @ [CHR 0x0A]) ps))"

text \<open>Lines are kept when the patterns in them are wrong, but not when the escape line is.\<close>

definition lines_kept :: "string list \<Rightarrow> (ignore_error, Pattern list) outcome \<Rightarrow> string list" where
  "lines_kept ls r = (case r of Err e \<Rightarrow> if e \<in> {MultipleEscape, EscapeAfterPatterns, BadEscape} then [] else map TrimSpace ls | _ \<Rightarrow> map TrimSpace ls)"

definition load_patterns :: "ignore_env \<Rightarrow> string list \<Rightarrow> Pattern list \<Rightarrow> Matcher \<Rightarrow> Matcher" where
  "load_patterns env ls ps m =
     (let m = m\<lparr>mlines := ls\<rparr>; newHash = hashPatterns env ps
      in if newHash = curHash m then m
         else m\<lparr>curHash := newHash, mpatterns := ps, matches := (if withCache m then Some Map.empty else matches m)\<rparr>)"

text \<open>A file that does not parse counts as one without patterns; the error is returned with the matcher.\<close>

definition parseLocked ::
  "ignore_env \<Rightarrow> nat \<Rightarrow> string \<Rightarrow> string list \<Rightarrow> string list \<Rightarrow> Matcher \<Rightarrow> (ignore_error option \<times> Matcher) option" where
  "parseLocked env n f seen ls m =
     map_option (\<lambda>r. case r of
         Ok ps \<Rightarrow> (None, load_patterns env (lines_kept ls r) ps m)
       | Err e \<Rightarrow> (Some e, load_patterns env (lines_kept ls r) [] m)
       | Panic \<Rightarrow> (None, m))
       (parseIgnoreFile env n f seen ls)"

fun match_loop :: "ignore_env \<Rightarrow> string \<Rightarrow> bool \<Rightarrow> Pattern list \<Rightarrow> R" where
  "match_loop env f canSkipDir [] = NotIgnored"
| "match_loop env f canSkipDir (p # ps) =
     (let canSkipDir = (canSkipDir \<and> allowsSkippingIgnoredDirs p);
          res = (if canSkipDir then WithSkipDir (result p) else result p);
          name = (if IsCaseFolded (result p) then toLower env f else f)
      in if match p name then res else match_loop env f canSkipDir ps)"

text \<open>The result and the matcher, whose cache may have changed; the time is the one of the clock.\<close>

definition Match :: "ignore_env \<Rightarrow> int \<Rightarrow> string \<Rightarrow> Matcher \<Rightarrow> R \<times> Matcher" where
  "Match env now f m =
     (if IsTemporary f \<or> IsInternal f then (IgnoreAndSkip (foldCase env), m)
      else if f = ''.'' then (NotIgnored, m)
      else if length (mpatterns m) = 0 then (NotIgnored, m)
      else
        case matches m of
          None \<Rightarrow> (match_loop env f True (mpatterns m), m)
        | Some c \<Rightarrow>
            (case c f of
               Some e \<Rightarrow> (cresult e, m\<lparr>matches := Some (c(f \<mapsto> e\<lparr>access := now\<rparr>))\<rparr>)
             | None \<Rightarrow>
                 let r = match_loop env f True (mpatterns m)
                 in (r, m\<lparr>matches := Some (c(f \<mapsto> \<lparr>cresult = r, access = now\<rparr>))\<rparr>)))"

definition clean_cache :: "int \<Rightarrow> int \<Rightarrow> Matcher \<Rightarrow> Matcher" where
  "clean_cache now d m =
     m\<lparr>matches := map_option (\<lambda>c k. case c k of Some e \<Rightarrow> (if d < now - access e then None else Some e) | None \<Rightarrow> None) (matches m)\<rparr>"

section \<open>Includes\<close>

lemma parse_escape_seen: "parse_escape env line st = Ok st' \<Longrightarrow> linesSeen st' = linesSeen st"
  by (auto simp: parse_escape_def split: if_splits option.splits)

lemma add_line_seen: "add_line env line st = Ok st' \<Longrightarrow> linesSeen st' = linesSeen st"
  by (auto simp: add_line_def add_pattern_def split: if_splits)

text \<open>Lines that were seen stay seen.\<close>

lemma include_seen [simp]:
  "linesSeen (enter_include f st) = linesSeen st" "linesSeen (leave_include st st') = linesSeen st'"
  by (simp_all add: enter_include_def leave_include_def)

lemma parse_lines_seen: "parse_lines env n cur ls st = Some (Ok st') \<Longrightarrow> set (linesSeen st) \<subseteq> set (linesSeen st')"
proof (induction n arbitrary: cur ls st st' rule: less_induct)
  case (less n)
  note inner = less.IH
  show ?case using less.prems
  proof (induction ls arbitrary: st)
    case (Cons line ls)
    show ?case
    proof (cases n)
      case 0
      note IH = Cons.IH [unfolded 0]
      show ?thesis using Cons.prems [unfolded 0]
        by (auto simp: Let_def split: if_splits outcome.splits prod.splits dest!: IH parse_escape_seen add_line_seen)
    next
      case (Suc m)
      note IH = Cons.IH [unfolded Suc]
      have sub: "set (linesSeen st) \<subseteq> set (linesSeen st1)"
        if "parse_lines env m f ils (enter_include f (st\<lparr>linesSeen := line # linesSeen st\<rparr>)) = Some (Ok st1)" for f ils st1
        using inner [OF _ that] Suc by auto
      show ?thesis using Cons.prems [unfolded Suc]
        by (simp add: Let_def split: if_splits outcome.splits prod.splits option.splits)
          (fastforce dest: IH parse_escape_seen add_line_seen sub)+
    qed
  qed simp
qed

text \<open>
  Every include uses up a line that was not seen before, so as many nested includes as there are different
  lines are enough.
\<close>

definition lines_within :: "ignore_env \<Rightarrow> string set \<Rightarrow> bool" where
  "lines_within env L \<longleftrightarrow> finite L \<and> (\<forall>f ls. openFile env f = Inr ls \<longrightarrow> TrimSpace ` set ls \<subseteq> L)"

lemma open_include_within: "lines_within env L \<Longrightarrow> open_include env cur line st = Ok (f, ls) \<Longrightarrow> set ls \<subseteq> L"
  by (auto simp: open_include_def load_include_def lines_within_def image_subset_iff split: if_splits sum.splits)

lemma parse_lines_returns:
  assumes "lines_within env L" and "set ls \<subseteq> L" and "card (L - set (linesSeen st)) \<le> n"
  shows "parse_lines env n cur ls st \<noteq> None"
  using assms(2, 3)
proof (induction n arbitrary: cur ls st rule: less_induct)
  case (less n)
  note inner = less.IH
  have fin: "finite L" using assms(1) by (simp add: lines_within_def)
  show ?case using less.prems
  proof (induction ls arbitrary: st)
    case (Cons line ls)
    have mono: "parse_lines env n cur ls st1 \<noteq> None" if "set (linesSeen st) \<subseteq> set (linesSeen st1)" for st1
    proof -
      have "card (L - set (linesSeen st1)) \<le> card (L - set (linesSeen st))" using that fin by (intro card_mono) auto
      then show ?thesis using Cons by simp
    qed
    let ?st = "st\<lparr>linesSeen := line # linesSeen st\<rparr>"
    let ?line = "escape_line (escapeChar st) line"
    consider (escape) "HasPrefix line escapePrefix" | (seen) "\<not> HasPrefix line escapePrefix" "line \<in> set (linesSeen st)"
      | (skip) "\<not> HasPrefix line escapePrefix" "line \<notin> set (linesSeen st)" "line = [] \<or> HasPrefix line ''//''"
      | (pattern) "\<not> HasPrefix line escapePrefix" "line \<notin> set (linesSeen st)" "\<not> (line = [] \<or> HasPrefix line ''//'')" "\<not> HasPrefix ?line ''#include''"
      | (incl) "\<not> HasPrefix line escapePrefix" "line \<notin> set (linesSeen st)" "\<not> (line = [] \<or> HasPrefix line ''//'')" "HasPrefix ?line ''#include''" by blast
    then show ?case
    proof cases
      case escape
      then show ?thesis using mono by (simp split: outcome.splits) (metis parse_escape_seen subset_refl)
    next
      case seen
      then show ?thesis using mono [of st] by simp
    next
      case skip
      then show ?thesis using mono [of ?st] by (simp add: Let_def subset_insertI)
    next
      case pattern
      have "parse_lines env n cur ls st1 \<noteq> None" if "add_line env ?line ?st = Ok st1" for st1
        using mono [of st1] add_line_seen [OF that] by (simp add: subset_insertI)
      then show ?thesis using pattern by (simp add: Let_def split: outcome.splits)
    next
      case incl
      have "card (L - set (linesSeen ?st)) < card (L - set (linesSeen st))"
        using incl(2) Cons.prems(1) fin by (intro psubset_card_mono) auto
      then obtain m where m: "n = Suc m" "card (L - set (linesSeen ?st)) \<le> m" using Cons.prems(2) by (cases n) auto
      have run: "parse_lines env m f ils (enter_include f ?st) \<noteq> None" if "open_include env cur (escape_line (escapeChar st) line) ?st = Ok (f, ils)" for f ils
        using inner [of m ils "enter_include f ?st" f] open_include_within [OF assms(1) that] m by simp
      have seen: "set (linesSeen st) \<subseteq> set (linesSeen (leave_include ?st st1))" if "parse_lines env m f ils (enter_include f ?st) = Some (Ok st1)" for f ils st1
        using parse_lines_seen [OF that] by auto
      have "parse_lines env (Suc m) cur ls (leave_include ?st st1) \<noteq> None" if "parse_lines env m f ils (enter_include f ?st) = Some (Ok st1)" for f ils st1
        using mono [OF seen [OF that]] m(1) by simp
      then show ?thesis using incl m(1) run by (simp add: Let_def split: outcome.splits prod.splits option.splits) fastforce
    qed
  qed simp
qed

text \<open>C28: Parsing a pattern file ends, however its includes refer to one another: as many nested includes as there are different lines
  in all files are enough.\<close>

theorem includes_terminate:
  assumes "lines_within env L" and "TrimSpace ` set ls \<subseteq> L"
  shows "\<exists>r. parseIgnoreFile env (card L) currentFile seen ls = Some r"
proof -
  have fin: "finite L" using assms(1) by (simp add: lines_within_def)
  have "parse_lines env (card L) currentFile (map TrimSpace ls) (new_parse_state seen) \<noteq> None"
    by (rule parse_lines_returns [OF assms(1)]) (use assms(2) fin in \<open>auto simp: new_parse_state_def\<close>)
  then show ?thesis by (auto simp: parseIgnoreFile_def split: outcome.splits)
qed

text \<open>Two files that include one another.\<close>

definition toy_glob :: "string \<Rightarrow> (string \<Rightarrow> bool) option" where
  "toy_glob g = Some (\<lambda>s. if g = ''x/**'' then HasPrefix s ''x/'' else if g = ''*'' then slash \<notin> set s else s = g)"

definition toy_ignore :: ignore_env where
  "toy_ignore = \<lparr>compile = toy_glob, toLower = id, uniNorm = id, foldCase = False, oneRune = (\<lambda>s. length s = 1),
     openFile = (\<lambda>f. if f = ''a'' then Inr [''#include b''] else if f = ''b'' then Inr [''#include a'', ''x''] else Inl ''no such file''), shaText = id\<rparr>"

theorem includes_terminate_witness: "\<exists>r. parseIgnoreFile toy_ignore 3 ''.stignore'' [] [''#include a''] = Some r"
proof -
  let ?L = "{''#include a'', ''#include b'', ''x''}"
  have "lines_within toy_ignore ?L"
    by (auto simp: lines_within_def toy_ignore_def TrimSpace_def is_space_def split: if_splits)
  then have "\<exists>r. parseIgnoreFile toy_ignore (card ?L) ''.stignore'' [] [''#include a''] = Some r"
    by (rule includes_terminate) (simp add: TrimSpace_def is_space_def)
  then show ?thesis by (simp add: numeral_3_eq_3)
qed

section \<open>The cache\<close>

inductive matcher_reach :: "ignore_env \<Rightarrow> Matcher \<Rightarrow> bool" for env where
  new: "matcher_reach env (NewMatcher c)"
| parse: "matcher_reach env m \<Longrightarrow> parseLocked env n f seen ls m = Some (err, m') \<Longrightarrow> matcher_reach env m'"
| match': "matcher_reach env m \<Longrightarrow> matcher_reach env (snd (Match env now f m))"
| clean: "matcher_reach env m \<Longrightarrow> matcher_reach env (clean_cache now d m)"

definition cache_agrees :: "ignore_env \<Rightarrow> Matcher \<Rightarrow> bool" where
  "cache_agrees env m \<longleftrightarrow> (\<not> withCache m \<longrightarrow> matches m = None) \<and> (\<forall>c f e. matches m = Some c \<longrightarrow> c f = Some e \<longrightarrow> cresult e = match_loop env f True (mpatterns m))"

lemma load_patterns_agrees: "cache_agrees env m \<Longrightarrow> cache_agrees env (load_patterns env ls ps m)"
  by (auto simp: cache_agrees_def load_patterns_def Let_def)

lemma cache_agrees_reach: "matcher_reach env m \<Longrightarrow> cache_agrees env m"
proof (induction rule: matcher_reach.induct)
  case (match' m now f)
  then show ?case by (auto simp: cache_agrees_def Match_def Let_def split: option.splits if_splits)
next
  case (clean m now d)
  then show ?case by (auto simp: cache_agrees_def clean_cache_def split: option.splits if_splits)
next
  case (parse m n f seen ls err m')
  then obtain r where "(case r of Ok ps \<Rightarrow> (None, load_patterns env (lines_kept ls r) ps m) | Err e \<Rightarrow> (Some e, load_patterns env (lines_kept ls r) [] m)
      | Panic \<Rightarrow> (None, m)) = (err, m')" by (auto simp: parseLocked_def)
  then show ?case using parse by (cases r) (auto simp: load_patterns_agrees)
qed (simp add: cache_agrees_def NewMatcher_def)

text \<open>C29: The cache of a matcher changes no answer: after any sequence of loads, matches and cleanings, a name is matched as if there were
  no cache.\<close>

theorem cached_match_is_match:
  assumes "matcher_reach env m"
  shows "fst (Match env now f m) = fst (Match env now f (m\<lparr>matches := None\<rparr>))"
  using cache_agrees_reach [OF assms] by (auto simp: Match_def cache_agrees_def Let_def split: option.splits)

definition toy_matcher :: Matcher where
  "toy_matcher = (case parseLocked toy_ignore 0 ''.stignore'' [] [''/x''] (NewMatcher True) of Some (_, m) \<Rightarrow> m | None \<Rightarrow> NewMatcher True)"

theorem cached_match_is_match_witness:
  "fst (Match toy_ignore 9 ''x'' (snd (Match toy_ignore 5 ''x'' toy_matcher))) = fst (Match toy_ignore 9 ''x'' ((snd (Match toy_ignore 5 ''x'' toy_matcher))\<lparr>matches := None\<rparr>))
     \<and> R_IsIgnored (fst (Match toy_ignore 9 ''x'' (snd (Match toy_ignore 5 ''x'' toy_matcher))))"
proof
  have "matcher_reach toy_ignore toy_matcher"
    unfolding toy_matcher_def by (auto split: option.splits intro: matcher_reach.intros)
  then have "matcher_reach toy_ignore (snd (Match toy_ignore 5 ''x'' toy_matcher))" by (rule matcher_reach.match')
  then show "fst (Match toy_ignore 9 ''x'' (snd (Match toy_ignore 5 ''x'' toy_matcher))) = fst (Match toy_ignore 9 ''x'' ((snd (Match toy_ignore 5 ''x'' toy_matcher))\<lparr>matches := None\<rparr>))"
    by (rule cached_match_is_match)
qed code_simp

section \<open>Skipping directories\<close>

lemma line_prefixes_plain:
  "line = c # cs \<Longrightarrow> c \<noteq> CHR ''!'' \<Longrightarrow> c \<noteq> CHR ''('' \<Longrightarrow> line_prefixes s0 s1 s2 r line = (r, line)"
  by (subst line_prefixes.simps) (simp add: HasPrefix_iff)

text \<open>C38: When the content of a directory is unignored and everything else is ignored, the result for the directory says that it can be
  skipped, although what is below it is not ignored.\<close>

theorem unignored_content_is_skipped:
  assumes "\<not> foldCase env" and "\<And>s. uniNorm env s = s"
    and "compile env ''x/**'' = Some below" "\<not> below ''x''" "below ''x/y''"
    and "compile env ''*'' = Some any" "any ''x''"
    and "compile env ''**/*'' = Some a" "compile env ''*/**'' = Some b" "compile env ''**/*/**'' = Some c"
  shows "\<exists>ps. parseIgnoreFile env n ''.stignore'' seen [''!/x/**'', ''*''] = Some (Ok ps) \<and>
    CanSkipDir (match_loop env ''x'' True ps) \<and> \<not> R_IsIgnored (match_loop env ''x/y'' True ps)"
proof -
  let ?no = "\<lparr>pattern = ''/x/**'', match = below, result = ToggleIgnored (Ignored False)\<rparr>"
  let ?all = "\<lambda>t m. \<lparr>pattern = t, match = m, result = Ignored False\<rparr>"
  let ?ps = "[?no, ?all ''*'' any, ?all ''**/*'' a, ?all ''*/**'' b, ?all ''**/*/**'' c]"
  have plain: "line_prefixes s0 s1 s2 r (CHR ''/'' # cs) = (r, CHR ''/'' # cs)" "line_prefixes s0 s1 s2 r (CHR ''*'' # cs) = (r, CHR ''*'' # cs)" for s0 s1 s2 r cs
    by (simp_all add: line_prefixes_plain)
  have not: "line_prefixes False False False r (CHR ''!'' # CHR ''/'' # cs) = (ToggleIgnored r, CHR ''/'' # cs)" for r cs
    by (subst line_prefixes.simps) (simp add: HasPrefix_iff plain)
  have folded: "\<not> IsCaseFolded (Ignored False)" "\<not> IsCaseFolded (ToggleIgnored (Ignored False))" by code_simp+
  have "parseLine env ''!/x/**'' = Ok [?no]" using assms(1-3)
    by (simp add: parseLine_def not folded compile_as_def HasPrefix_iff slash_def)
  moreover have "parseLine env ''*'' = Ok [?all ''*'' any, ?all ''**/*'' a]" "parseLine env ''*/**'' = Ok [?all ''*/**'' b, ?all ''**/*/**'' c]" using assms
    by (simp_all add: parseLine_def plain folded compile_as_def HasPrefix_iff Let_def)
  ultimately have "parseIgnoreFile env n ''.stignore'' seen [''!/x/**'', ''*''] = Some (Ok ?ps)"
    by (simp add: parseIgnoreFile_def TrimSpace_def is_space_def new_parse_state_def escapePrefix_def HasPrefix_iff escape_line_def add_line_def add_pattern_def HasSuffix_def Let_def)
  moreover have "CanSkipDir (match_loop env ''x'' True ?ps)"
    using assms(4, 7) folded by (simp add: allowsSkippingIgnoredDirs_def) code_simp
  moreover have "\<not> R_IsIgnored (match_loop env ''x/y'' True ?ps)"
    using assms(5) folded by (simp add: Let_def) code_simp
  ultimately show ?thesis by blast
qed

theorem unignored_content_is_skipped_witness:
  "\<exists>ps. parseIgnoreFile toy_ignore 0 ''.stignore'' [] [''!/x/**'', ''*''] = Some (Ok ps) \<and>
     CanSkipDir (match_loop toy_ignore ''x'' True ps) \<and> \<not> R_IsIgnored (match_loop toy_ignore ''x/y'' True ps)"
  by (rule unignored_content_is_skipped [where below = "\<lambda>s. HasPrefix s ''x/''" and any = "\<lambda>s. slash \<notin> set s"])
    (simp_all add: toy_ignore_def toy_glob_def HasPrefix_iff slash_def)

end
