(* ===== verification/Disk.thy ===== *)
theory Disk
  imports Scan_Walk Ignore_Patterns
begin

unbundle bit_operations_syntax

text \<open>
  The file system as the puller uses it: \<^verbatim>\<open>lib/osutil\<close> and \<^verbatim>\<open>lib/model/util.go\<close> over a
  model of the disk.

  The disk maps clean relative paths to what is stored there.  The operations of
  \<^verbatim>\<open>fs.Filesystem\<close> that the program calls have their documented effect on it, or fail: every
  one asks \<open>io_fails\<close> first, which may refuse any operation on any path in any state of the disk.
  That a path does not exist or that a directory is not empty is never made up but read off the disk.
\<close>

section \<open>The disk\<close>

record entry =
  estat :: stat
  edata :: bytes               \<comment> \<open>content of a file or target of a symbolic link\<close>
  eplatform :: PlatformData

type_synonym disk = "(string \<times> entry) list"

datatype fs_error = NotExistErr | PermissionErr | CaseConflictErr string | NotEmptyErr | ExistErr | IOErr string

text \<open>Failures that come from outside the model of the disk.\<close>

datatype io_error = IoPermission | IoCaseConflict string | IoOther string

fun fs_error_of :: "io_error \<Rightarrow> fs_error" where
  "fs_error_of IoPermission = PermissionErr"
| "fs_error_of (IoCaseConflict real) = CaseConflictErr real"
| "fs_error_of (IoOther e) = IOErr e"

datatype fs_op = OpStat | OpLstat | OpRemove | OpRename | OpMkdir | OpMkdirAll | OpSymlink | OpChmod | OpXattr | OpChown
  | OpCopy | OpWalk | OpReadlink | OpPlatform | OpOpen

type_synonym io = "fs_op \<Rightarrow> string \<Rightarrow> disk \<Rightarrow> io_error option"

text \<open>What is refused is refused without effect.\<close>

definition attempt :: "io \<Rightarrow> fs_op \<Rightarrow> string \<Rightarrow> (disk \<Rightarrow> fs_error option \<times> disk) \<Rightarrow> disk \<Rightarrow> fs_error option \<times> disk" where
  "attempt io op p f d = (case io op p d of Some e \<Rightarrow> (Some (fs_error_of e), d) | None \<Rightarrow> f d)"

definition Lstat :: "io \<Rightarrow> string \<Rightarrow> disk \<Rightarrow> fs_error + stat" where
  "Lstat io p d =
     (case io OpLstat p d of
        Some e \<Rightarrow> Inl (fs_error_of e)
      | None \<Rightarrow> (case map_of d p of None \<Rightarrow> Inl NotExistErr | Some e \<Rightarrow> Inr (estat e)))"

text \<open>The folder itself, \<^verbatim>\<open>"."\<close>, is a directory that is not among the entries.\<close>

definition root_stat :: stat where
  "root_stat = \<lparr>sIsDir = True, sIsRegular = False, sIsSymlink = False, sSize = 0, sModTime = (0, 0), sMode = 0x1FF\<rparr>"

definition Stat :: "io \<Rightarrow> string \<Rightarrow> disk \<Rightarrow> fs_error + stat" where
  "Stat io p d =
     (case io OpStat p d of
        Some e \<Rightarrow> Inl (fs_error_of e)
      | None \<Rightarrow> if p = ''.'' then Inr root_stat else case map_of d p of None \<Rightarrow> Inl NotExistErr | Some e \<Rightarrow> Inr (estat e))"

definition is_dir :: "disk \<Rightarrow> string \<Rightarrow> bool" where
  "is_dir d p = (case map_of d p of Some e \<Rightarrow> sIsDir (estat e) | None \<Rightarrow> False)"

definition has_children :: "string \<Rightarrow> disk \<Rightarrow> bool" where
  "has_children p d \<longleftrightarrow> list_ex (\<lambda>e. IsParent (fst e) p) d"

definition fs_Remove :: "io \<Rightarrow> string \<Rightarrow> disk \<Rightarrow> fs_error option \<times> disk" where
  "fs_Remove io p =
     attempt io OpRemove p (\<lambda>d. case map_of d p of
         None \<Rightarrow> (Some NotExistErr, d)
       | Some e \<Rightarrow> if sIsDir (estat e) \<and> has_children p d then (Some NotEmptyErr, d) else (None, del p d))"

text \<open>The program renames files and links only; to rename a directory is refused.  What has the new name is replaced.\<close>

definition fs_Rename :: "io \<Rightarrow> string \<Rightarrow> string \<Rightarrow> disk \<Rightarrow> fs_error option \<times> disk" where
  "fs_Rename io p q =
     attempt io OpRename p (\<lambda>d. case map_of d p of
         None \<Rightarrow> (Some NotExistErr, d)
       | Some e \<Rightarrow>
           if sIsDir (estat e) \<or> is_dir d q then (Some ExistErr, d) else (None, put q e (del p d)))"

definition new_entry :: "stat \<Rightarrow> bytes \<Rightarrow> entry" where
  "new_entry s x = \<lparr>estat = s, edata = x, eplatform = empty_platform\<rparr>"

definition create :: "string \<Rightarrow> entry \<Rightarrow> disk \<Rightarrow> fs_error option \<times> disk" where
  "create p e d = (if map_of d p = None then (None, put p e d) else (Some ExistErr, d))"

definition dir_stat :: "uint32 \<Rightarrow> stat" where
  "dir_stat mode = \<lparr>sIsDir = True, sIsRegular = False, sIsSymlink = False, sSize = 0, sModTime = (0, 0), sMode = mode\<rparr>"

definition link_stat :: stat where
  "link_stat = \<lparr>sIsDir = False, sIsRegular = False, sIsSymlink = True, sSize = 0, sModTime = (0, 0), sMode = 0x1FF\<rparr>"

definition fs_Mkdir :: "io \<Rightarrow> string \<Rightarrow> uint32 \<Rightarrow> disk \<Rightarrow> fs_error option \<times> disk" where
  "fs_Mkdir io p mode = attempt io OpMkdir p (create p (new_entry (dir_stat mode) []))"

definition fs_MkdirAll :: "io \<Rightarrow> string \<Rightarrow> uint32 \<Rightarrow> disk \<Rightarrow> fs_error option \<times> disk" where
  "fs_MkdirAll io p mode =
     attempt io OpMkdirAll p (\<lambda>d.
       (None, fold (\<lambda>q d. snd (create q (new_entry (dir_stat mode) []) d)) (paths_down [] (PathComponents p)) d))"

definition fs_CreateSymlink :: "io \<Rightarrow> bytes \<Rightarrow> string \<Rightarrow> disk \<Rightarrow> fs_error option \<times> disk" where
  "fs_CreateSymlink io target p = attempt io OpSymlink p (create p (new_entry link_stat target))"

definition change :: "string \<Rightarrow> (entry \<Rightarrow> entry) \<Rightarrow> disk \<Rightarrow> fs_error option \<times> disk" where
  "change p f d = (case map_of d p of None \<Rightarrow> (Some NotExistErr, d) | Some e \<Rightarrow> (None, put p (f e) d))"

definition fs_Chmod :: "io \<Rightarrow> string \<Rightarrow> uint32 \<Rightarrow> disk \<Rightarrow> fs_error option \<times> disk" where
  "fs_Chmod io p mode = attempt io OpChmod p (change p (\<lambda>e. e\<lparr>estat := (estat e)\<lparr>sMode := mode\<rparr>\<rparr>))"

definition fs_Chtimes :: "string \<Rightarrow> gotime \<Rightarrow> disk \<Rightarrow> disk" where
  "fs_Chtimes p t d = snd (change p (\<lambda>e. e\<lparr>estat := (estat e)\<lparr>sModTime := t\<rparr>\<rparr>) d)"

text \<open>A walk visits the directory and everything below it.\<close>

definition fs_Walk :: "string \<Rightarrow> disk \<Rightarrow> (string \<times> entry) list" where
  "fs_Walk dir d = filter (\<lambda>e. fst e = dir \<or> IsParent (fst e) dir) d"

section \<open>Symbolic links (traversessymlink.go)\<close>

datatype path_check = PathOk | PathErr fs_error | PathInvalid path_error | TraversesSymlinkError string | NotADirectoryError string

fun traverse :: "io \<Rightarrow> disk \<Rightarrow> string \<Rightarrow> string list \<Rightarrow> path_check" where
  "traverse io d path [] = PathOk"
| "traverse io d path (part # parts) =
     (let path = path_Join [path, part]
      in case Lstat io path d of
           Inl e \<Rightarrow> if e = NotExistErr then PathOk else PathErr e
         | Inr info \<Rightarrow>
             if sIsSymlink info then TraversesSymlinkError path
             else if \<not> sIsDir info then NotADirectoryError path
             else traverse io d path parts)"

definition TraversesSymlink :: "io \<Rightarrow> string \<Rightarrow> disk \<Rightarrow> path_check" where
  "TraversesSymlink io name d =
     (case Canonicalize name of
        Ok name \<Rightarrow> if name = ''.'' then PathOk else traverse io d [] (PathComponents name)
      | Err e \<Rightarrow> PathInvalid e
      | Panic \<Rightarrow> PathOk)"

definition osutil_IsDeleted :: "io \<Rightarrow> string \<Rightarrow> disk \<Rightarrow> bool" where
  "osutil_IsDeleted io name d =
     ((case Lstat io name d of Inl NotExistErr \<Rightarrow> True | Inl (CaseConflictErr _) \<Rightarrow> True | _ \<Rightarrow> False) \<or>
      (case TraversesSymlink io (path_Dir name) d of NotADirectoryError _ \<Rightarrow> True | TraversesSymlinkError _ \<Rightarrow> True | _ \<Rightarrow> False))"

section \<open>Directories made writable (util.go, osutil.go)\<close>

text \<open>The mode is restored on the way out, which may fail without consequence.\<close>

definition inWritableDir ::
  "io \<Rightarrow> (string \<Rightarrow> disk \<Rightarrow> fs_error option \<times> disk) \<Rightarrow> string \<Rightarrow> disk \<Rightarrow> fs_error option \<times> disk" where
  "inWritableDir io fn p d =
     (let dir = path_Dir p
      in case Stat io dir d of
           Inl e \<Rightarrow> (Some e, d)
         | Inr info \<Rightarrow>
             if \<not> sIsDir info then (Some (IOErr ''not a directory''), d)
             else if sMode info AND 0x80 = 0 then
               (case fs_Chmod io dir (sMode info OR 0x1C0) d of
                  (Some _, d) \<Rightarrow> fn p d
                | (None, d) \<Rightarrow> (case fn p d of (err, d) \<Rightarrow> (err, snd (fs_Chmod io dir (sMode info) d))))
             else fn p d)"

definition withPreparedTarget :: "io \<Rightarrow> string \<Rightarrow> (disk \<Rightarrow> fs_error option \<times> disk) \<Rightarrow> disk \<Rightarrow> fs_error option \<times> disk" where
  "withPreparedTarget io q f d =
     (let toDir = path_Dir q
      in case Stat io toDir d of
           Inr info \<Rightarrow>
             if sIsDir info \<and> sMode info AND 0x80 = 0 then
               (case f (snd (fs_Chmod io toDir 0x1ED d)) of (err, d) \<Rightarrow> (err, snd (fs_Chmod io toDir (sMode info) d)))
             else f d
         | Inl _ \<Rightarrow> f d)"

text \<open>Both names are on the file system of the folder, so the file is renamed.\<close>

definition RenameOrCopy :: "io \<Rightarrow> string \<Rightarrow> string \<Rightarrow> disk \<Rightarrow> fs_error option \<times> disk" where
  "RenameOrCopy io p q = withPreparedTarget io q (fs_Rename io p q)"

definition copyFileContents :: "io \<Rightarrow> string \<Rightarrow> string \<Rightarrow> disk \<Rightarrow> fs_error option \<times> disk" where
  "copyFileContents io p q =
     attempt io OpCopy p (\<lambda>d. case map_of d p of
         None \<Rightarrow> (Some NotExistErr, d)
       | Some e \<Rightarrow> if sIsDir (estat e) \<or> is_dir d q then (Some (IOErr ''is a directory''), d)
                   else (None, put q (new_entry (estat e) (edata e)) d))"

definition osutil_Copy :: "io \<Rightarrow> string \<Rightarrow> string \<Rightarrow> disk \<Rightarrow> fs_error option \<times> disk" where
  "osutil_Copy io p q = withPreparedTarget io q (copyFileContents io p q)"

section \<open>Keeping files\<close>

text \<open>
  Between two states of the disk every file or link is where it was and as it was, unless its path may be
  given up.
\<close>

definition files_at :: "disk \<Rightarrow> string \<Rightarrow> entry option" where
  "files_at d p = (if is_dir d p then None else map_of d p)"

definition keeps :: "(string \<Rightarrow> entry \<Rightarrow> bool) \<Rightarrow> disk \<Rightarrow> disk \<Rightarrow> bool" where
  "keeps loss d d' \<longleftrightarrow> (\<forall>p e. files_at d p = Some e \<longrightarrow> files_at d' p = Some e \<or> loss p e)"

lemma keeps_refl [simp]: "keeps loss d d"
  by (simp add: keeps_def)

lemma keeps_trans: "keeps loss d d' \<Longrightarrow> keeps loss d' d'' \<Longrightarrow> keeps loss d d''"
  unfolding keeps_def by blast

lemma keeps_files: "files_at d = files_at d' \<Longrightarrow> keeps loss d d'' = keeps loss d' d''" "files_at d = files_at d' \<Longrightarrow> keeps loss d'' d = keeps loss d'' d'"
  by (simp_all add: keeps_def)

lemma files_del [simp]: "files_at (del p d) = (files_at d)(p := None)"
  by (auto simp: files_at_def is_dir_def fun_eq_iff)

lemma files_put [simp]: "files_at (put p e d) = (files_at d)(p := if sIsDir (estat e) then None else Some e)"
  by (auto simp: files_at_def is_dir_def fun_eq_iff)

lemma is_dir_files [simp]: "is_dir d p \<Longrightarrow> files_at d p = None"
  by (simp add: files_at_def)

text \<open>No directory turns into something else.\<close>

definition tame :: "disk \<Rightarrow> disk \<Rightarrow> bool" where
  "tame d d' \<longleftrightarrow> (\<forall>p. is_dir d p \<longrightarrow> files_at d' p = None)"

lemma tame_refl [simp]: "tame d d"
  by (simp add: tame_def)

text \<open>An operation at a path that may be given up, or where there is no file.\<close>

definition may_lose :: "(string \<Rightarrow> entry \<Rightarrow> bool) \<Rightarrow> disk \<Rightarrow> string \<Rightarrow> bool" where
  "may_lose loss d p \<longleftrightarrow> (\<forall>e. files_at d p = Some e \<longrightarrow> loss p e)"

lemma may_lose_files: "files_at d = files_at d' \<Longrightarrow> may_lose loss d p = may_lose loss d' p"
  by (simp add: may_lose_def)

lemma keeps_update: "files_at d' = (files_at d)(p := x) \<Longrightarrow> may_lose loss d p \<Longrightarrow> keeps loss d d'"
  by (auto simp: keeps_def may_lose_def)

lemma attempt_snd: "snd (attempt io op p f d) = (if io op p d = None then snd (f d) else d)"
  by (simp add: attempt_def split: option.split)

lemma Remove_files: "files_at (snd (fs_Remove io p d)) \<in> {files_at d, (files_at d)(p := None)}"
  by (auto simp: fs_Remove_def attempt_snd split: option.split)

lemma Remove_keeps: "may_lose loss d p \<Longrightarrow> keeps loss d (snd (fs_Remove io p d))"
  using Remove_files [of io p d] by (auto simp: keeps_def may_lose_def)

lemma shrink_tame: "files_at d' \<in> {files_at d, (files_at d)(p := None)} \<Longrightarrow> tame d d'"
  by (auto simp: tame_def)

lemma Remove_tame: "tame d (snd (fs_Remove io p d))"
  using Remove_files by (rule shrink_tame)

lemma change_dir_files: "is_dir d p \<Longrightarrow> (\<And>e. sIsDir (estat (f e)) = sIsDir (estat e)) \<Longrightarrow> files_at (snd (change p f d)) = files_at d"
  by (auto simp: change_def is_dir_def files_at_def fun_eq_iff split: option.splits)

lemma change_files: "(\<And>e. sIsDir (estat (f e)) = sIsDir (estat e)) \<Longrightarrow> files_at (snd (change p f d)) = (files_at d)(p := map_option f (files_at d p))"
  by (auto simp: change_def is_dir_def files_at_def fun_eq_iff split: option.splits)

lemma Chmod_dir_files: "is_dir d p \<Longrightarrow> files_at (snd (fs_Chmod io p m d)) = files_at d"
  by (simp add: fs_Chmod_def attempt_snd change_dir_files)

lemma Chmod_no_file: "files_at d p = None \<Longrightarrow> files_at (snd (fs_Chmod io p m d)) = files_at d"
  by (auto simp: fs_Chmod_def attempt_snd change_files)

lemma is_dir_put: "is_dir (put p e d) q = (if q = p then sIsDir (estat e) else is_dir d q)"
  by (simp add: is_dir_def)

lemma Chmod_is_dir: "is_dir (snd (fs_Chmod io p m d)) q = is_dir d q"
  by (auto simp: fs_Chmod_def attempt_snd change_def is_dir_def split: option.splits)

lemma Stat_dir: "Stat io p d = Inr s \<Longrightarrow> sIsDir s \<Longrightarrow> sMode s AND 0x80 = 0 \<Longrightarrow> is_dir d p"
  by (auto simp: Stat_def is_dir_def root_stat_def split: option.splits if_splits)

text \<open>Making the directory writable for an operation changes nothing about files.\<close>

lemma inWritableDir_files:
  assumes "\<And>d'. files_at d' = files_at d \<Longrightarrow> Q (files_at (snd (fn p d'))) \<and> tame d' (snd (fn p d'))" and "Q (files_at d)"
  shows "Q (files_at (snd (inWritableDir io fn p d)))"
proof -
  have restored: "Q (files_at (snd (fs_Chmod io (path_Dir p) m (snd (fn p d')))))" if "files_at d' = files_at d" "is_dir d' (path_Dir p)" for d' m
  proof -
    have "files_at (snd (fn p d')) (path_Dir p) = None" using assms(1) [OF that(1)] that(2) by (simp add: tame_def)
    from Chmod_no_file [OF this] show ?thesis using assms(1) [OF that(1)] by simp
  qed
  show ?thesis
  proof (cases "Stat io (path_Dir p) d")
    case (Inr info)
    show ?thesis
    proof (cases "sIsDir info \<and> sMode info AND 0x80 = 0")
      case True
      then have dir: "is_dir d (path_Dir p)" using Stat_dir [OF Inr] by simp
      obtain err d1 where ch: "fs_Chmod io (path_Dir p) (sMode info OR 0x1C0) d = (err, d1)" by fastforce
      then have d1: "files_at d1 = files_at d" "is_dir d1 (path_Dir p)"
        using Chmod_dir_files [OF dir, of io "sMode info OR 0x1C0"] Chmod_is_dir [of io "path_Dir p" "sMode info OR 0x1C0" d] dir by simp_all
      show ?thesis using True Inr ch assms(1) [OF d1(1)] restored [OF d1] by (cases err) (auto simp: inWritableDir_def split_beta)
    next
      case False
      then show ?thesis using Inr assms by (auto simp: inWritableDir_def Let_def)
    qed
  qed (simp add: inWritableDir_def assms(2))
qed

lemma withPreparedTarget_files:
  assumes "\<And>d'. files_at d' = files_at d \<Longrightarrow> Q (files_at (snd (f d'))) \<and> tame d' (snd (f d'))"
  shows "Q (files_at (snd (withPreparedTarget io q f d)))"
proof (cases "Stat io (path_Dir q) d")
  case (Inr info)
  show ?thesis
  proof (cases "sIsDir info \<and> sMode info AND 0x80 = 0")
    case True
    then have dir: "is_dir d (path_Dir q)" using Stat_dir [OF Inr] by simp
    let ?d = "snd (fs_Chmod io (path_Dir q) 0x1ED d)"
    have d1: "files_at ?d = files_at d" "is_dir ?d (path_Dir q)" using dir by (simp_all add: Chmod_dir_files Chmod_is_dir)
    then have "files_at (snd (f ?d)) (path_Dir q) = None" using assms [OF d1(1)] by (simp add: tame_def)
    from Chmod_no_file [OF this] show ?thesis using True Inr assms [OF d1(1)] by (simp add: withPreparedTarget_def Let_def split_beta)
  next
    case False
    then show ?thesis using Inr assms by (auto simp: withPreparedTarget_def Let_def)
  qed
qed (use assms in \<open>simp add: withPreparedTarget_def\<close>)

lemma Rename_files:
  "tame d (snd (fs_Rename io p q d)) \<and>
   (files_at (snd (fs_Rename io p q d)) = files_at d \<or> files_at (snd (fs_Rename io p q d)) = (files_at d)(p := None, q := files_at d p))"
proof (cases "map_of d p")
  case (Some e)
  then have "files_at d p = Some e" if "\<not> sIsDir (estat e)" using that by (simp add: files_at_def is_dir_def)
  then show ?thesis using Some by (auto simp: fs_Rename_def attempt_snd tame_def)
qed (simp add: fs_Rename_def attempt_snd)

lemma RenameOrCopy_files:
  "files_at (snd (RenameOrCopy io p q d)) = files_at d \<or> files_at (snd (RenameOrCopy io p q d)) = (files_at d)(p := None, q := files_at d p)"
  unfolding RenameOrCopy_def
  by (rule withPreparedTarget_files [where Q = "\<lambda>F. F = files_at d \<or> F = (files_at d)(p := None, q := files_at d p)"]) (metis Rename_files)

lemma copyFileContents_files:
  "tame d (snd (copyFileContents io p q d)) \<and> (\<forall>r. r \<noteq> q \<longrightarrow> files_at (snd (copyFileContents io p q d)) r = files_at d r)"
  by (auto simp: copyFileContents_def attempt_snd new_entry_def tame_def split: option.splits)

lemma Copy_files: "r \<noteq> q \<Longrightarrow> files_at (snd (osutil_Copy io p q d)) r = files_at d r"
  unfolding osutil_Copy_def
  by (rule withPreparedTarget_files [where Q = "\<lambda>F. F r = files_at d r"]) (metis copyFileContents_files)

end
