(* ===== verification/Conflict_Copies.thy ===== *)
theory Conflict_Copies
  imports Disk Device_ID
begin

text \<open>
  Conflict copies, from \<^verbatim>\<open>lib/model/folder_sendrecv.go\<close>: their names, finding those that exist,
  and moving a file to one.  Finding them uses \<^verbatim>\<open>filepath.Glob\<close>, whose patterns are modelled
  here; a pattern is read into tokens first, and one that cannot be read matches nothing.
\<close>

section \<open>Patterns of file names\<close>

datatype glob_token = GStar | GAny | GClass bool "(char \<times> char) list" | GChar char

definition get_esc :: "string \<Rightarrow> (char \<times> string) option" where
  "get_esc s =
     (case s of
        [] \<Rightarrow> None
      | c # s \<Rightarrow>
          if c = CHR ''-'' \<or> c = CHR '']'' then None
          else
            case (if c = backslash then s else c # s) of
              [] \<Rightarrow> None
            | c # s \<Rightarrow> if s = [] then None else Some (c, s))"

text \<open>The ranges of a class up to the closing bracket; every turn uses a character of the pattern.\<close>

fun glob_class :: "nat \<Rightarrow> (char \<times> char) list \<Rightarrow> string \<Rightarrow> ((char \<times> char) list \<times> string) option" where
  "glob_class 0 rs s = None"
| "glob_class (Suc n) rs s =
     (if HasPrefix s '']'' \<and> rs \<noteq> [] then Some (rs, drop 1 s)
      else
        case get_esc s of
          None \<Rightarrow> None
        | Some (lo, s) \<Rightarrow>
            if HasPrefix s ''-'' then
              (case get_esc (drop 1 s) of None \<Rightarrow> None | Some (hi, s) \<Rightarrow> glob_class n (rs @ [(lo, hi)]) s)
            else glob_class n (rs @ [(lo, lo)]) s)"

fun glob_tokens :: "nat \<Rightarrow> string \<Rightarrow> glob_token list option" where
  "glob_tokens 0 s = None"
| "glob_tokens (Suc n) [] = Some []"
| "glob_tokens (Suc n) (c # s) =
     (if c = CHR ''*'' then map_option (\<lambda>ts. GStar # ts) (glob_tokens n s)
      else if c = CHR ''?'' then map_option (\<lambda>ts. GAny # ts) (glob_tokens n s)
      else if c = CHR ''['' then
        (let neg = HasPrefix s ''^''
         in case glob_class (length s) [] (if neg then drop 1 s else s) of
              None \<Rightarrow> None
            | Some (rs, s) \<Rightarrow> map_option (\<lambda>ts. GClass neg rs # ts) (glob_tokens n s))
      else if c = backslash then
        (case s of [] \<Rightarrow> None | c # s \<Rightarrow> map_option (\<lambda>ts. GChar c # ts) (glob_tokens n s))
      else map_option (\<lambda>ts. GChar c # ts) (glob_tokens n s))"

definition glob_parse :: "string \<Rightarrow> glob_token list option" where
  "glob_parse p = glob_tokens (Suc (length p)) p"

fun glob_match :: "glob_token list \<Rightarrow> string \<Rightarrow> bool" where
  "glob_match [] s \<longleftrightarrow> s = []"
| "glob_match (GStar # ts) [] \<longleftrightarrow> glob_match ts []"
| "glob_match (GStar # ts) (c # s) \<longleftrightarrow> glob_match ts (c # s) \<or> c \<noteq> slash \<and> glob_match (GStar # ts) s"
| "glob_match (GAny # ts) (c # s) \<longleftrightarrow> c \<noteq> slash \<and> glob_match ts s"
| "glob_match (GClass neg rs # ts) (c # s) \<longleftrightarrow> list_ex (\<lambda>(lo, hi). lo \<le> c \<and> c \<le> hi) rs \<noteq> neg \<and> glob_match ts s"
| "glob_match (GChar x # ts) (c # s) \<longleftrightarrow> c = x \<and> glob_match ts s"
| "glob_match (_ # ts) [] \<longleftrightarrow> False"

definition fs_Glob :: "string \<Rightarrow> disk \<Rightarrow> string list" where
  "fs_Glob p d = (case glob_parse p of None \<Rightarrow> [] | Some ts \<Rightarrow> filter (glob_match ts) (map fst d))"

section \<open>Names of conflict copies\<close>

definition path_Ext :: "string \<Rightarrow> string" where
  "path_Ext p =
     (let e = takeWhile (\<lambda>c. c \<noteq> CHR ''.'' \<and> c \<noteq> slash) (rev p)
      in if HasPrefix (drop (length e) (rev p)) ''.'' then CHR ''.'' # rev e else [])"

definition without_ext :: "string \<Rightarrow> string" where
  "without_ext name = take (length name - length (path_Ext name)) name"

text \<open>The time of the conflict as \<^verbatim>\<open>20060102-150405\<close> is given from outside.\<close>

definition conflictName :: "string \<Rightarrow> string \<Rightarrow> string \<Rightarrow> string" where
  "conflictName now name lastModBy = without_ext name @ ''.sync-conflict-'' @ now @ ''-'' @ lastModBy @ path_Ext name"

definition isConflict :: "string \<Rightarrow> bool" where
  "isConflict name = Contains (path_Base name) ''.sync-conflict-''"

definition existingConflicts :: "string \<Rightarrow> disk \<Rightarrow> string list" where
  "existingConflicts name d = fs_Glob (without_ext name @ ''.sync-conflict-????????-??????*'' @ path_Ext name) d"

section \<open>Moving a file away\<close>

definition remove_if_there :: "io \<Rightarrow> string \<Rightarrow> disk \<Rightarrow> fs_error option \<times> disk" where
  "remove_if_there io p d =
     (case fs_Remove io p d of (err, d) \<Rightarrow> (if err = Some NotExistErr then None else err, d))"

definition prune_conflicts :: "io \<Rightarrow> int \<Rightarrow> string \<Rightarrow> disk \<Rightarrow> disk" where
  "prune_conflicts io maxConflicts name d =
     (let matches = existingConflicts name d
      in if maxConflicts < int (length matches)
         then fold (\<lambda>m d. snd (fs_Remove io m d)) (drop (nat maxConflicts) (rev (sort matches))) d
         else d)"

text \<open>The effect on the disk; the name of the copy is scanned afterwards.\<close>

definition move_away :: "io \<Rightarrow> int \<Rightarrow> string \<Rightarrow> string \<Rightarrow> string \<Rightarrow> disk \<Rightarrow> fs_error option \<times> disk" where
  "move_away io maxConflicts now lastModBy name d =
     (if isConflict name \<or> maxConflicts = 0 then remove_if_there io name d
      else
        case fs_Rename io name (conflictName now name lastModBy) d of (err, d) \<Rightarrow>
          (if err = Some NotExistErr then None else err,
           if - 1 < maxConflicts then prune_conflicts io maxConflicts name d else d))"

section \<open>Facts about names\<close>

lemma Contains_append: "Contains (xs @ p @ ys) p"
proof (induction xs)
  case Nil
  show ?case using HasPrefix_append [of p ys] by (cases "p @ ys") simp_all
qed simp

lemma path_Base_suffix:
  assumes "x \<noteq> []" and "slash \<notin> set x"
  shows "\<exists>b. path_Base (a @ x) = b @ x"
proof -
  have "last x \<noteq> slash" using assms last_in_set by metis
  then have keep: "dropWhile (\<lambda>c. c = slash) (rev (a @ x)) = rev (a @ x)"
    using assms(1) by (cases x rule: rev_cases) simp_all
  have "takeWhile (\<lambda>c. c \<noteq> slash) (rev x @ rev a) = rev x @ takeWhile (\<lambda>c. c \<noteq> slash) (rev a)"
    using assms(2) by (intro takeWhile_append2) auto
  then show ?thesis using assms(1) keep by (simp add: path_Base_def Let_def)
qed

lemma isConflict_append: "slash \<notin> set r \<Longrightarrow> isConflict (a @ ''.sync-conflict-'' @ r)"
  using path_Base_suffix [of "''.sync-conflict-'' @ r" a] Contains_append [of _ "''.sync-conflict-''" r]
  by (auto simp: isConflict_def slash_def)

lemma path_Ext_no_slash: "slash \<notin> set (path_Ext name)"
  by (auto simp: path_Ext_def Let_def slash_def dest: set_takeWhileD)

lemma conflictName_isConflict: "slash \<notin> set now \<Longrightarrow> slash \<notin> set lastModBy \<Longrightarrow> isConflict (conflictName now name lastModBy)"
  unfolding conflictName_def using isConflict_append [of "now @ ''-'' @ lastModBy @ path_Ext name" "without_ext name"] path_Ext_no_slash [of name]
  by (simp add: slash_def)

text \<open>Names without the special characters of patterns.\<close>

definition plain_name :: "string \<Rightarrow> bool" where
  "plain_name s \<longleftrightarrow> (\<forall>c \<in> set s. c \<notin> {CHR ''*'', CHR ''?'', CHR ''['', backslash})"

lemma glob_tokens_plain:
  "plain_name s \<Longrightarrow> length s \<le> n \<Longrightarrow> glob_tokens n (s @ t) = map_option (\<lambda>ts. map GChar s @ ts) (glob_tokens (n - length s) t)"
proof (induction s arbitrary: n)
  case (Cons c s)
  then obtain m where "n = Suc m" by (cases n) auto
  with Cons show ?case by (cases "glob_tokens (m - length s) t") (auto simp: plain_name_def)
qed (simp add: option.map_ident_strong)

lemma plain_parts:
  assumes "plain_name name"
  shows "plain_name (without_ext name)" and "plain_name (path_Ext name)"
proof -
  show "plain_name (without_ext name)" using assms by (auto simp: plain_name_def without_ext_def dest: in_set_takeD)
  have "set (path_Ext name) \<subseteq> insert (CHR ''.'') (set name)"
  proof -
    define e where "e = takeWhile (\<lambda>c. c \<noteq> CHR ''.'' \<and> c \<noteq> slash) (rev name)"
    have "set e \<subseteq> set name" unfolding e_def using set_takeWhileD [of _ _ "rev name"] by fastforce
    then show ?thesis by (auto simp: path_Ext_def Let_def e_def [symmetric])
  qed
  then have "c = CHR ''.'' \<or> c \<in> set name" if "c \<in> set (path_Ext name)" for c using that by blast
  then show "plain_name (path_Ext name)" using assms by (simp add: plain_name_def) (auto simp: backslash_def)
qed

lemma glob_match_chars: "glob_match (map GChar xs @ ts) s \<longleftrightarrow> (\<exists>r. s = xs @ r \<and> glob_match ts r)"
proof (induction xs arbitrary: s)
  case (Cons x xs)
  then show ?case by (cases s) auto
qed simp

text \<open>Tokens that do not match a separator.\<close>

fun no_separator :: "glob_token \<Rightarrow> bool" where
  "no_separator GStar \<longleftrightarrow> True"
| "no_separator GAny \<longleftrightarrow> True"
| "no_separator (GChar c) \<longleftrightarrow> c \<noteq> slash"
| "no_separator (GClass neg rs) \<longleftrightarrow> False"

lemma glob_match_no_separator: "glob_match ts s \<Longrightarrow> list_all no_separator ts \<Longrightarrow> slash \<notin> set s"
  by (induction ts s rule: glob_match.induct) auto

lemma glob_parse_conflict:
  assumes "plain_name name"
  shows "glob_parse (without_ext name @ ''.sync-conflict-????????-??????*'' @ path_Ext name) =
    Some (map GChar (without_ext name) @ map GChar ''.sync-conflict-'' @ replicate 8 GAny @ GChar (CHR ''-'') # replicate 6 GAny @ GStar # map GChar (path_Ext name))"
proof -
  have tail: "glob_tokens (Suc (length (path_Ext name))) (path_Ext name) = Some (map GChar (path_Ext name))"
    using glob_tokens_plain [OF plain_parts(2) [OF assms], of "Suc (length (path_Ext name))" "[]"] by simp
  show ?thesis unfolding glob_parse_def
    by (subst glob_tokens_plain [OF plain_parts(1) [OF assms]]) (simp_all add: tail numeral_eq_Suc backslash_def)
qed

lemma existingConflicts_are_conflicts:
  assumes "plain_name name" and "m \<in> set (existingConflicts name d)"
  shows "isConflict m"
proof -
  let ?ts = "replicate 8 GAny @ GChar (CHR ''-'') # replicate 6 GAny @ GStar # map GChar (path_Ext name)"
  have "glob_match (map GChar (without_ext name) @ map GChar ''.sync-conflict-'' @ ?ts) m"
    using assms(2) unfolding existingConflicts_def fs_Glob_def glob_parse_conflict [OF assms(1)] by (simp only: option.case set_filter mem_Collect_eq)
  then obtain r where m: "m = without_ext name @ ''.sync-conflict-'' @ r" and r: "glob_match ?ts r"
    unfolding glob_match_chars by blast
  have "list_all no_separator ?ts" using path_Ext_no_slash [of name] by (auto simp: list_all_iff slash_def)
  from glob_match_no_separator [OF r this] show ?thesis unfolding m by (rule isConflict_append)
qed

section \<open>What moving away loses\<close>

text \<open>Removing some files: others stay, and none appears.\<close>

definition only_removes :: "(string \<Rightarrow> bool) \<Rightarrow> disk \<Rightarrow> disk \<Rightarrow> bool" where
  "only_removes P d d' \<longleftrightarrow> (\<forall>p. files_at d' p = files_at d p \<or> P p \<and> files_at d' p = None)"

lemma Remove_only: "P p \<Longrightarrow> only_removes P d (snd (fs_Remove io p d))"
  using Remove_files [of io p d] by (auto simp: only_removes_def split: if_splits)

lemma only_removes_trans: "only_removes P d d' \<Longrightarrow> only_removes P d' d'' \<Longrightarrow> only_removes P d d''"
  unfolding only_removes_def by metis

lemma prune_only: "\<forall>m \<in> set ms. P m \<Longrightarrow> only_removes P d (fold (\<lambda>m d. snd (fs_Remove io m d)) ms d)"
proof (induction ms arbitrary: d)
  case (Cons m ms)
  then show ?case using only_removes_trans [OF Remove_only Cons.IH] by simp
qed (simp add: only_removes_def)

lemma prune_conflicts_only: "plain_name name \<Longrightarrow> only_removes isConflict d (prune_conflicts io n name d)"
proof -
  assume plain: "plain_name name"
  have "\<forall>m \<in> set (drop (nat n) (rev (sort (existingConflicts name d)))). isConflict m"
    using existingConflicts_are_conflicts [OF plain] by (auto dest: in_set_dropD)
  from prune_only [OF this] show ?thesis by (simp add: prune_conflicts_def Let_def) (simp add: only_removes_def)
qed

lemma only_removes_tame: "tame d d' \<Longrightarrow> only_removes P d' d'' \<Longrightarrow> tame d d''"
  unfolding tame_def only_removes_def by metis

lemma remove_if_there_files: "only_removes (\<lambda>q. q = p) d (snd (remove_if_there io p d))" "tame d (snd (remove_if_there io p d))"
  using Remove_only [of "\<lambda>q. q = p" p d io] Remove_tame [of d io p] by (simp_all add: remove_if_there_def split_beta)

text \<open>Away from conflict copies only the file itself can change, and then it is gone.\<close>

lemma move_away_files:
  assumes "slash \<notin> set now" "slash \<notin> set lastModBy" and "n < 0 \<or> plain_name name"
  shows "tame d (snd (move_away io n now lastModBy name d))" (is ?t)
    and "\<forall>p. isConflict p \<or> files_at (snd (move_away io n now lastModBy name d)) p = files_at d p \<or>
      p = name \<and> files_at (snd (move_away io n now lastModBy name d)) p = None" (is ?f)
proof -
  obtain err d1 where ren: "fs_Rename io name (conflictName now name lastModBy) d = (err, d1)" by fastforce
  have d1: "tame d d1" "files_at d1 = files_at d \<or> files_at d1 = (files_at d)(name := None, conflictName now name lastModBy := files_at d name)"
    using Rename_files [of d io name "conflictName now name lastModBy"] by (simp_all add: ren)
  then have away: "\<forall>p. isConflict p \<or> files_at d1 p = files_at d p \<or> p = name \<and> files_at d1 p = None"
    using conflictName_isConflict [OF assms(1, 2), of name] by (auto split: if_splits)
  have pruned: "tame d (prune_conflicts io n name d1)"
      "\<forall>p. isConflict p \<or> files_at (prune_conflicts io n name d1) p = files_at d p \<or> p = name \<and> files_at (prune_conflicts io n name d1) p = None"
    if "plain_name name"
    subgoal using prune_conflicts_only [OF that] d1(1) by (rule only_removes_tame [rotated])
    subgoal using prune_conflicts_only [OF that, of d1 io n] away unfolding only_removes_def by metis
    done
  show ?t using d1 pruned assms(3) by (auto simp: move_away_def ren remove_if_there_files)
  show ?f using away pruned assms(3) remove_if_there_files(1) [of name d io] by (auto simp: move_away_def ren only_removes_def)
qed

section \<open>Results\<close>

text \<open>When the number of conflict copies is not limited, moving a file away leaves nothing under its name and the file, as it was,
  under the name of the conflict copy; all other files stay as they were.\<close>

theorem conflict_copy_is_kept:
  assumes "n < 0" and "\<not> isConflict name" and "files_at d name = Some e" and "io OpRename name d = None"
    and "\<not> is_dir d (conflictName now name lastModBy)"
  shows "fst (move_away io n now lastModBy name d) = None \<and>
    files_at (snd (move_away io n now lastModBy name d)) = (files_at d)(name := None, conflictName now name lastModBy := Some e)"
proof -
  have e: "map_of d name = Some e" "\<not> sIsDir (estat e)"
    using assms(3) by (auto simp: files_at_def is_dir_def split: if_splits)
  then have "fs_Rename io name (conflictName now name lastModBy) d = (None, put (conflictName now name lastModBy) e (del name d))"
    using assms(4, 5) by (simp add: fs_Rename_def attempt_def)
  then show ?thesis using assms(1, 2) e(2) by (simp add: move_away_def)
qed

definition plain_entry :: entry where
  "plain_entry = \<lparr>estat = \<lparr>sIsDir = False, sIsRegular = True, sIsSymlink = False, sSize = 1, sModTime = (0, 0), sMode = 0x1A4\<rparr>, edata = [7], eplatform = empty_platform\<rparr>"

definition no_failures :: io where
  "no_failures op p d = None"

theorem conflict_copy_is_kept_witness:
  "files_at (snd (move_away no_failures (- 1) ''20240101-000000'' ''AAAAAAA'' ''d/a.txt'' [(''d/a.txt'', plain_entry)])) ''d/a.sync-conflict-20240101-000000-AAAAAAA.txt'' = Some plain_entry"
proof -
  let ?d = "[(''d/a.txt'', plain_entry)]" and ?c = "conflictName ''20240101-000000'' ''d/a.txt'' ''AAAAAAA''"
  have c: "?c = ''d/a.sync-conflict-20240101-000000-AAAAAAA.txt''" by code_simp
  have "files_at ?d ''d/a.txt'' = Some plain_entry" "\<not> isConflict ''d/a.txt''" by code_simp+
  moreover have "\<not> is_dir ?d ?c" unfolding c by (simp add: is_dir_def)
  ultimately have "files_at (snd (move_away no_failures (- 1) ''20240101-000000'' ''AAAAAAA'' ''d/a.txt'' ?d)) = (files_at ?d)(''d/a.txt'' := None, ?c := Some plain_entry)"
    using conflict_copy_is_kept [of "- 1" "''d/a.txt''" ?d plain_entry no_failures "''20240101-000000''" "''AAAAAAA''"] by (simp add: no_failures_def)
  then show ?thesis by (simp add: c)
qed









end
