(* ===== verification/Item_Pull.thy ===== *)
theory Item_Pull
  imports Conflict_Copies Job_Queue BEP_Messages
begin

unbundle bit_operations_syntax

text \<open>
  Pulling items, \<^verbatim>\<open>lib/model/folder_sendrecv.go\<close>: what is done for each item that the
  global state has and the local folder does not, down to the disk.

  Every operation takes the state to the next state.  Effects are collected: jobs for the database, paths
  to scan, errors by path (the first one stays), files handed to the copier.  The database is not written
  while items are pulled, so it is a function from names to files.  Events and logging are left out.  An
  operation is atomic: a change to the disk by somebody else between a check and the action is not in the model.
\<close>

section \<open>Configuration and state\<close>

datatype pull_error = FsErr fs_error | PathCheckErr path_check | ScanErr walk_error | DbErr | errModified | errDirHasToBeScanned
  | errDirHasIgnored | errDirNotEmpty | errNotAvailable | errUnexpectedDirOnFileDel | errIncompatibleSymlink
  | WindowsNameErr | NoSpaceErr | ContextCanceled

datatype dbUpdateType = dbUpdateHandleDir | dbUpdateDeleteDir | dbUpdateHandleFile | dbUpdateDeleteFile
  | dbUpdateShortcutFile | dbUpdateHandleSymlink | dbUpdateInvalidate

record item_cfg =
  cOs :: goos
  cAndroid :: bool
  cType :: FolderType
  cIgnorePerms :: bool
  cIgnoreDelete :: bool
  cSyncOwnership :: bool
  cSyncXattrs :: bool
  cCopyOwnershipFromParent :: bool
  cModTimeWindow :: int
  cUseLWWReconciler :: bool
  cMaxConflicts :: int

text \<open>
  What comes from outside: failures of the disk, the database and whether reading it fails, the ignore
  patterns, the versioner, the time for conflict names, free space, devices that have a file, SHA-256,
  the setting of owners and attributes, and the trailer of encrypted files.
\<close>

record item_env =
  eio :: io
  deviceFile :: "string \<Rightarrow> FileInfo option"
  globalFile :: "string \<Rightarrow> FileInfo option"
  dbFails :: "string \<Rightarrow> bool"
  imatch :: "string \<Rightarrow> R"
  versioner :: "(string \<Rightarrow> disk \<Rightarrow> fs_error option \<times> disk) option"
  stamp :: string
  space :: "int \<Rightarrow> bool"
  hasDevices :: "FileInfo \<Rightarrow> bool"
  nameHash :: "string \<Rightarrow> bytes"
  setXattr :: "Xattr list \<Rightarrow> PlatformData \<Rightarrow> PlatformData"
  setOwner :: "FileInfo \<Rightarrow> PlatformData \<Rightarrow> PlatformData"
  parentOwner :: "PlatformData \<Rightarrow> PlatformData"
  trailer :: "FileInfo \<Rightarrow> entry \<Rightarrow> fs_error + int \<times> entry"

record item_state =
  disk_of :: disk
  jobs :: "(FileInfo \<times> dbUpdateType) list"
  scans :: "string list"
  tempPullErrors :: "(string \<times> pull_error) list"
  queue :: jobQueue
  copies :: "FileInfo list"

definition newPullError :: "string \<Rightarrow> pull_error \<Rightarrow> item_state \<Rightarrow> item_state" where
  "newPullError path err s =
     (if err = ContextCanceled then s
      else if map_of (tempPullErrors s) path \<noteq> None then s
      else s\<lparr>tempPullErrors := (path, err) # tempPullErrors s\<rparr>)"

definition send_job :: "FileInfo \<Rightarrow> dbUpdateType \<Rightarrow> item_state \<Rightarrow> item_state" where
  "send_job f t s = s\<lparr>jobs := jobs s @ [(f, t)]\<rparr>"

definition send_scan :: "string \<Rightarrow> item_state \<Rightarrow> item_state" where
  "send_scan p s = s\<lparr>scans := scans s @ [p]\<rparr>"

definition queue_done :: "string \<Rightarrow> item_state \<Rightarrow> item_state" where
  "queue_done n s = s\<lparr>queue := Done n (queue s)\<rparr>"

definition on_disk :: "(disk \<Rightarrow> fs_error option \<times> disk) \<Rightarrow> item_state \<Rightarrow> pull_error option \<times> item_state" where
  "on_disk f s = (case f (disk_of s) of (e, d) \<Rightarrow> (map_option FsErr e, s\<lparr>disk_of := d\<rparr>))"

text \<open>First one step, then, unless it failed, the other.\<close>

definition and_then :: "('s \<Rightarrow> 'e option \<times> 's) \<Rightarrow> ('s \<Rightarrow> 'e option \<times> 's) \<Rightarrow> 's \<Rightarrow> 'e option \<times> 's" where
  "and_then a b s = (case a s of (None, s) \<Rightarrow> b s | (Some e, s) \<Rightarrow> (Some e, s))"

lemma and_then_eq:
  "and_then a b s = (err, s') \<longleftrightarrow> (\<exists>e. err = Some e \<and> a s = (Some e, s')) \<or> (\<exists>s1. a s = (None, s1) \<and> b s1 = (err, s'))"
  by (auto simp: and_then_def split: prod.splits option.splits)

section \<open>Metadata\<close>

definition retainBits :: uint32 where
  "retainBits = push_bit 22 1 OR push_bit 23 1 OR push_bit 20 1"

definition xattrsNotSupported :: fs_error where
  "xattrsNotSupported = IOErr ''extended attributes are not supported''"

definition set_xattrs :: "item_env \<Rightarrow> item_cfg \<Rightarrow> FileInfo \<Rightarrow> string \<Rightarrow> disk \<Rightarrow> fs_error option \<times> disk" where
  "set_xattrs env cfg f name d =
     (if \<not> cSyncXattrs cfg then (None, d)
      else
        case attempt (eio env) OpXattr name
               (change name (\<lambda>e. e\<lparr>eplatform := setXattr env (PlatformData_Xattrs (cOs cfg) (Platform f)) (eplatform e)\<rparr>)) d of
          (err, d) \<Rightarrow> (if err = Some xattrsNotSupported then None else err, d))"

definition syncOwnership :: "item_env \<Rightarrow> FileInfo \<Rightarrow> string \<Rightarrow> disk \<Rightarrow> fs_error option \<times> disk" where
  "syncOwnership env f name d =
     (if Unix (Platform f) = None then (None, d)
      else attempt (eio env) OpChown name (change name (\<lambda>e. e\<lparr>eplatform := setOwner env f (eplatform e)\<rparr>)) d)"

definition copyOwnershipFromParent :: "item_env \<Rightarrow> item_cfg \<Rightarrow> string \<Rightarrow> disk \<Rightarrow> fs_error option \<times> disk" where
  "copyOwnershipFromParent env cfg path d =
     (if cOs cfg = GoWindows then (None, d)
      else
        case Lstat (eio env) (path_Dir path) d of
          Inl e \<Rightarrow> (Some e, d)
        | Inr info \<Rightarrow> attempt (eio env) OpChown path (change path (\<lambda>e. e\<lparr>eplatform := parentOwner env (eplatform e)\<rparr>)) d)"

definition setPlatformData :: "item_env \<Rightarrow> item_cfg \<Rightarrow> FileInfo \<Rightarrow> string \<Rightarrow> disk \<Rightarrow> fs_error option \<times> disk" where
  "setPlatformData env cfg f name =
     and_then (set_xattrs env cfg f name)
       (\<lambda>d. if cSyncOwnership cfg then syncOwnership env f name d
            else if cCopyOwnershipFromParent cfg then copyOwnershipFromParent env cfg name d
            else (None, d))"

section \<open>Comparing the disk with the database\<close>

text \<open>The file info of what is on the disk; reading links and attributes may fail.\<close>

definition disk_env :: "io \<Rightarrow> disk \<Rightarrow> walk_env" where
  "disk_env io d =
     \<lparr>eNow = 0, eTime = 0, eStart = (0, 0),
      ePlatform = (\<lambda>p. if io OpPlatform p d \<noteq> None then Inl ''platform data''
                       else case map_of d p of None \<Rightarrow> Inl ''not found'' | Some e \<Rightarrow> Inr (eplatform e)),
      eReadSymlink = (\<lambda>p. if io OpReadlink p d \<noteq> None then Inl ''readlink''
                       else case map_of d p of None \<Rightarrow> Inl ''not found'' | Some e \<Rightarrow> Inr (edata e)),
      eLstat = (\<lambda>p. case map_of d p of None \<Rightarrow> Inl NotExist | Some e \<Rightarrow> Inr (estat e)),
      eRename = (\<lambda>p q. None), eSameFile = False, eSends = True, eSha = (\<lambda>s. [])\<rparr>"

definition item_comparison :: "item_cfg \<Rightarrow> bool \<Rightarrow> FileInfoComparison" where
  "item_comparison cfg fromDelete =
     \<lparr>ModTimeWindow = cModTimeWindow cfg, IgnorePerms = cIgnorePerms cfg, IgnoreBlocks = True, IgnoreFlags = LocalAllFlags,
      IgnoreOwnership = fromDelete \<or> \<not> cSyncOwnership cfg, IgnoreXattrs = fromDelete \<or> \<not> cSyncXattrs cfg\<rparr>"

definition item_changed :: "item_env \<Rightarrow> item_cfg \<Rightarrow> disk \<Rightarrow> stat \<Rightarrow> FileInfo \<Rightarrow> bool \<Rightarrow> bool \<Rightarrow> pull_error option" where
  "item_changed env cfg d st item hasItem fromDelete =
     (if \<not> hasItem \<or> Deleted item then Some errModified
      else
        case CreateFileInfo (disk_env (eio env) d) st (Name item) (cSyncOwnership cfg) (cSyncXattrs cfg) of
          Inl e \<Rightarrow> Some (ScanErr e)
        | Inr statItem \<Rightarrow>
            if \<not> IsEquivalentOptional (cOs cfg) statItem item (item_comparison cfg fromDelete) then Some errModified else None)"

definition scanIfItemChanged ::
  "item_env \<Rightarrow> item_cfg \<Rightarrow> string \<Rightarrow> stat \<Rightarrow> FileInfo \<Rightarrow> bool \<Rightarrow> bool \<Rightarrow> item_state \<Rightarrow> pull_error option \<times> item_state" where
  "scanIfItemChanged env cfg name st item hasItem fromDelete s =
     (let err = item_changed env cfg (disk_of s) st item hasItem fromDelete
      in (err, if err = Some errModified then send_scan name s else s))"

fun IsErrCaseConflict :: "fs_error \<Rightarrow> bool" where
  "IsErrCaseConflict (CaseConflictErr real) \<longleftrightarrow> True"
| "IsErrCaseConflict _ \<longleftrightarrow> False"

definition checkToBeDeleted :: "item_env \<Rightarrow> item_cfg \<Rightarrow> FileInfo \<Rightarrow> FileInfo \<Rightarrow> bool \<Rightarrow> item_state \<Rightarrow> pull_error option \<times> item_state" where
  "checkToBeDeleted env cfg f cur hasCur s =
     (if TraversesSymlink (eio env) (path_Dir (Name f)) (disk_of s) \<noteq> PathOk then (Some (FsErr NotExistErr), s)
      else
        case Lstat (eio env) (Name f) (disk_of s) of
          Inr st \<Rightarrow> scanIfItemChanged env cfg (Name f) st cur hasCur True s
        | Inl e \<Rightarrow>
            if e = NotExistErr \<or> IsErrCaseConflict e then
              (if hasCur \<and> \<not> Deleted cur \<and> \<not> IsUnsupported cur then (Some errModified, send_scan (Name f) s)
               else (Some (FsErr e), s))
            else (Some (FsErr e), s))"

section \<open>Removing what is in the way\<close>

definition moveForConflict :: "item_env \<Rightarrow> item_cfg \<Rightarrow> string \<Rightarrow> short_id \<Rightarrow> item_state \<Rightarrow> pull_error option \<times> item_state" where
  "moveForConflict env cfg name lastModBy s =
     (case on_disk (inWritableDir (eio env) (move_away (eio env) (cMaxConflicts cfg) (stamp env) (ShortID_String lastModBy)) name) s of
        (err, s) \<Rightarrow>
          (err, if err = None \<and> \<not> isConflict name \<and> cMaxConflicts cfg \<noteq> 0
                then send_scan (conflictName (stamp env) name (ShortID_String lastModBy)) s else s))"

record child_flags =
  dirsToDelete :: "string list"
  hasIgnored :: bool
  hasKnown :: bool
  hasToBeScanned :: bool
  hasReceiveOnlyChanged :: bool
  delErr :: "fs_error option"

definition no_children :: child_flags where
  "no_children = \<lparr>dirsToDelete = [], hasIgnored = False, hasKnown = False, hasToBeScanned = False, hasReceiveOnlyChanged = False, delErr = None\<rparr>"

definition remove_child :: "item_env \<Rightarrow> string \<Rightarrow> child_flags \<Rightarrow> item_state \<Rightarrow> child_flags \<times> item_state" where
  "remove_child env path fl s =
     (case fs_Remove (eio env) path (disk_of s) of (err, d) \<Rightarrow>
        (if err \<noteq> None \<and> delErr fl = None then fl\<lparr>delErr := err\<rparr> else fl, s\<lparr>disk_of := d\<rparr>))"

text \<open>One path of the walk below a directory; the walk stops at an error.\<close>

definition visit_child :: "item_env \<Rightarrow> item_cfg \<Rightarrow> string \<Rightarrow> stat \<Rightarrow> child_flags \<Rightarrow> item_state \<Rightarrow> pull_error option \<times> child_flags \<times> item_state" where
  "visit_child env cfg path info fl s =
     (let m = imatch env path
      in if IsDeletable m \<and> sIsDir info then (None, fl\<lparr>dirsToDelete := dirsToDelete fl @ [path]\<rparr>, s)
         else if IsDeletable m \<or> IsTemporary path then (None, remove_child env path fl s)
         else if R_IsIgnored m then (None, fl\<lparr>hasIgnored := True\<rparr>, s)
         else if dbFails env path then (Some DbErr, fl, s)
         else
           case deviceFile env path of
             None \<Rightarrow> (None, fl\<lparr>hasToBeScanned := True\<rparr>, send_scan path s)
           | Some cf \<Rightarrow>
               if IsDeleted cf then (None, fl\<lparr>hasToBeScanned := True\<rparr>, send_scan path s)
               else if cType cfg = FolderTypeReceiveOnly \<and> IsReceiveOnlyChanged cf then (None, fl\<lparr>hasReceiveOnlyChanged := True\<rparr>, s)
               else
                 case CreateFileInfo (disk_env (eio env) (disk_of s)) info path (cSyncOwnership cfg) (cSyncXattrs cfg) of
                   Inl _ \<Rightarrow> (None, fl\<lparr>hasToBeScanned := True\<rparr>, send_scan path s)
                 | Inr diskFile \<Rightarrow>
                     if \<not> IsEquivalentOptional (cOs cfg) cf diskFile (item_comparison cfg False)
                     then (None, fl\<lparr>hasToBeScanned := True\<rparr>, send_scan path s)
                     else (None, fl\<lparr>hasKnown := True\<rparr>, s))"

fun visit_children ::
  "item_env \<Rightarrow> item_cfg \<Rightarrow> string \<Rightarrow> (string \<times> entry) list \<Rightarrow> child_flags \<Rightarrow> item_state \<Rightarrow> pull_error option \<times> child_flags \<times> item_state" where
  "visit_children env cfg dir [] fl s = (None, fl, s)"
| "visit_children env cfg dir ((path, e) # es) fl s =
     (if path = dir then visit_children env cfg dir es fl s
      else
        case eio env OpWalk path (disk_of s) of
          Some err \<Rightarrow> (Some (FsErr (fs_error_of err)), fl, s)
        | None \<Rightarrow>
            (case visit_child env cfg path (estat e) fl s of
               (Some err, fl, s) \<Rightarrow> (Some err, fl, s)
             | (None, fl, s) \<Rightarrow> visit_children env cfg dir es fl s))"

fun remove_dirs :: "item_env \<Rightarrow> string list \<Rightarrow> child_flags \<Rightarrow> item_state \<Rightarrow> child_flags \<times> item_state" where
  "remove_dirs env [] fl s = (fl, s)"
| "remove_dirs env (p # ps) fl s = (case remove_child env p fl s of (fl, s) \<Rightarrow> remove_dirs env ps fl s)"

definition deleteDirOnDiskHandleChildren :: "item_env \<Rightarrow> item_cfg \<Rightarrow> string \<Rightarrow> item_state \<Rightarrow> pull_error option \<times> item_state" where
  "deleteDirOnDiskHandleChildren env cfg dir s =
     (case visit_children env cfg dir (fs_Walk dir (disk_of s)) no_children s of
        (Some err, fl, s) \<Rightarrow> (Some err, s)
      | (None, fl, s) \<Rightarrow>
          case remove_dirs env (rev (dirsToDelete fl)) fl s of (fl, s) \<Rightarrow>
            if hasToBeScanned fl then (Some errDirHasToBeScanned, s)
            else if hasIgnored fl then (Some errDirHasIgnored, s)
            else if hasReceiveOnlyChanged fl then (None, send_scan dir s)
            else if hasKnown fl then (Some errDirNotEmpty, s)
            else (map_option FsErr (delErr fl), s))"

text \<open>An error of the removal is forgotten when the item cannot even be looked at, for another reason than permissions.\<close>

definition gone_anyway :: "item_env \<Rightarrow> string \<Rightarrow> item_state \<Rightarrow> bool" where
  "gone_anyway env p s = (case Lstat (eio env) p (disk_of s) of Inl e \<Rightarrow> e \<noteq> PermissionErr | Inr _ \<Rightarrow> False)"

definition deleteDirOnDisk :: "item_env \<Rightarrow> item_cfg \<Rightarrow> string \<Rightarrow> item_state \<Rightarrow> pull_error option \<times> item_state" where
  "deleteDirOnDisk env cfg dir s =
     (case TraversesSymlink (eio env) (path_Dir dir) (disk_of s) of
        PathOk \<Rightarrow>
          and_then (deleteDirOnDiskHandleChildren env cfg dir)
            (\<lambda>s. case on_disk (inWritableDir (eio env) (fs_Remove (eio env)) dir) s of (err, s) \<Rightarrow>
              if err = None \<or> err = Some (FsErr NotExistErr) \<or> gone_anyway env dir s then (None, s) else (err, s)) s
      | c \<Rightarrow> (Some (PathCheckErr c), s))"

definition deleteItemOnDisk :: "item_env \<Rightarrow> item_cfg \<Rightarrow> FileInfo \<Rightarrow> item_state \<Rightarrow> pull_error option \<times> item_state" where
  "deleteItemOnDisk env cfg item s =
     (if IsDirectory item then deleteDirOnDisk env cfg (Name item) s
      else
        case (if IsSymlink item then None else versioner env) of
          Some archive \<Rightarrow> on_disk (inWritableDir (eio env) archive (Name item)) s
        | None \<Rightarrow> on_disk (inWritableDir (eio env) (fs_Remove (eio env)) (Name item)) s)"

text \<open>What is in the way of a new item: a conflict copy, unless conflicts are decided by time, or removal.\<close>

definition make_room :: "item_env \<Rightarrow> item_cfg \<Rightarrow> bool \<Rightarrow> FileInfo \<Rightarrow> FileInfo \<Rightarrow> item_state \<Rightarrow> pull_error option \<times> item_state" where
  "make_room env cfg conflict f curFile s =
     (if conflict then moveForConflict env cfg (Name curFile) (ModifiedBy f) s else deleteItemOnDisk env cfg curFile s)"

section \<open>Directories and links\<close>

definition dir_mode :: "item_cfg \<Rightarrow> FileInfo \<Rightarrow> uint32" where
  "dir_mode cfg f = (if cIgnorePerms cfg \<or> NoPermissions f then 0x1FF else Permissions f AND 0x1FF)"

definition mkdir :: "item_env \<Rightarrow> item_cfg \<Rightarrow> FileInfo \<Rightarrow> string \<Rightarrow> disk \<Rightarrow> fs_error option \<times> disk" where
  "mkdir env cfg f path =
     and_then (fs_Mkdir (eio env) path (dir_mode cfg f))
       (and_then (setPlatformData env cfg f path)
          (\<lambda>d. if cIgnorePerms cfg \<or> NoPermissions f then (None, d)
               else
                 case Lstat (eio env) path d of
                   Inl e \<Rightarrow> (Some e, d)
                 | Inr info \<Rightarrow> fs_Chmod (eio env) path (dir_mode cfg f OR (sMode info AND retainBits)) d))"

definition create_dir :: "item_env \<Rightarrow> item_cfg \<Rightarrow> FileInfo \<Rightarrow> item_state \<Rightarrow> item_state" where
  "create_dir env cfg f s =
     (case on_disk (inWritableDir (eio env) (mkdir env cfg f) (Name f)) s of
        (None, s) \<Rightarrow> send_job f dbUpdateHandleDir s
      | (Some err, s) \<Rightarrow> newPullError (Name f) err s)"

definition update_dir :: "item_env \<Rightarrow> item_cfg \<Rightarrow> FileInfo \<Rightarrow> stat \<Rightarrow> item_state \<Rightarrow> item_state" where
  "update_dir env cfg f info s =
     (if \<not> cIgnorePerms cfg \<and> \<not> NoPermissions f then
        (case on_disk (and_then (fs_Chmod (eio env) (Name f) (dir_mode cfg f OR (sMode info AND retainBits)))
                         (setPlatformData env cfg f (Name f))) s of
           (None, s) \<Rightarrow> send_job f dbUpdateHandleDir s
         | (Some err, s) \<Rightarrow> newPullError (Name f) err s)
      else send_job f dbUpdateHandleDir s)"

definition handleDir :: "item_env \<Rightarrow> item_cfg \<Rightarrow> FileInfo \<Rightarrow> item_state \<Rightarrow> item_state" where
  "handleDir env cfg f s =
     (case Lstat (eio env) (Name f) (disk_of s) of
        Inr info \<Rightarrow>
          if sIsDir info then update_dir env cfg f info s
          else if dbFails env (Name f) then newPullError (Name f) DbErr s
          else
            let cur = deviceFile env (Name f); curFile = cur_or_zero cur
            in (case and_then (scanIfItemChanged env cfg (Name f) info curFile (cur \<noteq> None) False)
                       (make_room env cfg (\<not> cUseLWWReconciler cfg \<and> \<not> IsSymlink curFile \<and> InConflictWith f curFile) f curFile) s of
                  (Some err, s) \<Rightarrow> newPullError (Name f) err s
                | (None, s) \<Rightarrow> create_dir env cfg f s)
      | Inl e \<Rightarrow> if e = NotExistErr then create_dir env cfg f s else newPullError (Name f) (FsErr e) s)"

definition checkParent :: "item_env \<Rightarrow> item_cfg \<Rightarrow> string \<Rightarrow> item_state \<Rightarrow> bool \<times> item_state" where
  "checkParent env cfg name s =
     (let parent = path_Dir name
      in case TraversesSymlink (eio env) parent (disk_of s) of
           PathOk \<Rightarrow>
             if parent = ''.'' \<or> Lstat (eio env) parent (disk_of s) \<noteq> Inl NotExistErr then (True, s)
             else
               (case on_disk (fs_MkdirAll (eio env) parent 0x1FF) s of
                  (Some err, s) \<Rightarrow> (False, newPullError name err s)
                | (None, s) \<Rightarrow> (True, if cType cfg \<noteq> FolderTypeReceiveEncrypted then send_scan parent s else s))
         | c \<Rightarrow> (False, newPullError name (PathCheckErr c) s))"

definition handleSymlinkCheckExisting :: "item_env \<Rightarrow> item_cfg \<Rightarrow> FileInfo \<Rightarrow> item_state \<Rightarrow> pull_error option \<times> item_state" where
  "handleSymlinkCheckExisting env cfg f s =
     (case Lstat (eio env) (Name f) (disk_of s) of
        Inl e \<Rightarrow> (if e = NotExistErr then None else Some (FsErr e), s)
      | Inr info \<Rightarrow>
          if dbFails env (Name f) then (Some DbErr, s)
          else
            let cur = deviceFile env (Name f); curFile = cur_or_zero cur
            in and_then (scanIfItemChanged env cfg (Name f) info curFile (cur \<noteq> None) False)
                 (make_room env cfg (\<not> IsDirectory curFile \<and> \<not> IsSymlink curFile \<and> InConflictWith f curFile) f curFile) s)"

definition createLink :: "item_env \<Rightarrow> item_cfg \<Rightarrow> FileInfo \<Rightarrow> string \<Rightarrow> disk \<Rightarrow> fs_error option \<times> disk" where
  "createLink env cfg f path = and_then (fs_CreateSymlink (eio env) (SymlinkTarget f) path) (setPlatformData env cfg f path)"

definition handleSymlink :: "item_env \<Rightarrow> item_cfg \<Rightarrow> FileInfo \<Rightarrow> item_state \<Rightarrow> item_state" where
  "handleSymlink env cfg f s =
     (if SymlinkTarget f = [] then newPullError (Name f) errIncompatibleSymlink s
      else
        case and_then (handleSymlinkCheckExisting env cfg f) (on_disk (inWritableDir (eio env) (createLink env cfg f) (Name f))) s of
          (None, s) \<Rightarrow> send_job f dbUpdateHandleSymlink s
        | (Some err, s) \<Rightarrow> newPullError (Name f) err s)"

section \<open>Deletions\<close>

text \<open>What happens after the check that the item may be deleted, for directories and files.\<close>

definition already_gone :: "pull_error \<Rightarrow> bool" where
  "already_gone err = (case err of FsErr e \<Rightarrow> e = NotExistErr \<or> IsErrCaseConflict e | _ \<Rightarrow> False)"

definition deleteDir :: "item_env \<Rightarrow> item_cfg \<Rightarrow> FileInfo \<Rightarrow> item_state \<Rightarrow> item_state" where
  "deleteDir env cfg f s =
     (if dbFails env (Name f) then newPullError (Name f) DbErr s
      else
        let cur = deviceFile env (Name f)
        in case checkToBeDeleted env cfg f (cur_or_zero cur) (cur \<noteq> None) s of
             (Some err, s) \<Rightarrow> if already_gone err then send_job f dbUpdateDeleteDir s else newPullError (Name f) err s
           | (None, s) \<Rightarrow>
               (case deleteDirOnDisk env cfg (Name f) s of
                  (None, s) \<Rightarrow> send_job f dbUpdateDeleteDir s
                | (Some err, s) \<Rightarrow> newPullError (Name f) err s))"

definition remove_file :: "item_env \<Rightarrow> item_cfg \<Rightarrow> FileInfo \<Rightarrow> FileInfo \<Rightarrow> item_state \<Rightarrow> pull_error option \<times> item_state" where
  "remove_file env cfg f cur s =
     (if InConflictWith f cur \<and> \<not> IsSymlink cur then moveForConflict env cfg (Name cur) (ModifiedBy f) s
      else
        case (if IsSymlink cur then None else versioner env) of
          Some archive \<Rightarrow> on_disk (inWritableDir (eio env) archive (Name f)) s
        | None \<Rightarrow> on_disk (inWritableDir (eio env) (fs_Remove (eio env)) (Name f)) s)"

definition deleteFileWithCurrent :: "item_env \<Rightarrow> item_cfg \<Rightarrow> FileInfo \<Rightarrow> FileInfo \<Rightarrow> bool \<Rightarrow> item_state \<Rightarrow> item_state" where
  "deleteFileWithCurrent env cfg f cur hasCur s =
     (case checkToBeDeleted env cfg f cur hasCur s of
        (Some err, s) \<Rightarrow> if already_gone err then send_job f dbUpdateDeleteFile s else newPullError (Name f) err s
      | (None, s) \<Rightarrow>
          if IsDirectory cur then newPullError (Name f) errUnexpectedDirOnFileDel s
          else
            case remove_file env cfg f cur s of (err, s) \<Rightarrow>
              if err = None \<or> err = Some (FsErr NotExistErr) \<or> gone_anyway env (Name f) s
              then (let s = send_job f dbUpdateDeleteFile s
                    in if err = Some (FsErr NotExistErr) then newPullError (Name f) (FsErr NotExistErr) s else s)
              else newPullError (Name f) (the err) s)"

definition deleteFile :: "item_env \<Rightarrow> item_cfg \<Rightarrow> FileInfo \<Rightarrow> item_state \<Rightarrow> item_state" where
  "deleteFile env cfg f s =
     (if dbFails env (Name f) then newPullError (Name f) DbErr s
      else let cur = deviceFile env (Name f) in deleteFileWithCurrent env cfg f (cur_or_zero cur) (cur \<noteq> None) s)"

section \<open>Files\<close>

text \<open>Putting a finished temporary file in place.\<close>

definition set_temp_metadata :: "item_env \<Rightarrow> item_cfg \<Rightarrow> FileInfo \<Rightarrow> string \<Rightarrow> disk \<Rightarrow> fs_error option \<times> disk" where
  "set_temp_metadata env cfg f tempName =
     and_then (\<lambda>d. if \<not> cIgnorePerms cfg \<and> \<not> NoPermissions f then fs_Chmod (eio env) tempName (Permissions f AND 0x1FF) d else (None, d))
       (setPlatformData env cfg f tempName)"

definition replace_existing :: "item_env \<Rightarrow> item_cfg \<Rightarrow> FileInfo \<Rightarrow> FileInfo \<Rightarrow> bool \<Rightarrow> item_state \<Rightarrow> pull_error option \<times> item_state" where
  "replace_existing env cfg f curFile hasCurFile s =
     (case Lstat (eio env) (Name f) (disk_of s) of
        Inl e \<Rightarrow> (if e = NotExistErr then None else Some (FsErr e), s)
      | Inr st \<Rightarrow>
          and_then (scanIfItemChanged env cfg (Name f) st curFile hasCurFile False)
            (make_room env cfg
               (\<not> cUseLWWReconciler cfg \<and> \<not> IsDirectory curFile \<and> \<not> IsSymlink curFile \<and> InConflictWith f curFile) f curFile) s)"

definition performFinish :: "item_env \<Rightarrow> item_cfg \<Rightarrow> FileInfo \<Rightarrow> FileInfo \<Rightarrow> bool \<Rightarrow> string \<Rightarrow> item_state \<Rightarrow> pull_error option \<times> item_state" where
  "performFinish env cfg f curFile hasCurFile tempName =
     and_then (on_disk (set_temp_metadata env cfg f tempName))
       (and_then (replace_existing env cfg f curFile hasCurFile)
          (and_then (on_disk (RenameOrCopy (eio env) tempName (Name f)))
             (\<lambda>s. (None, send_job f dbUpdateHandleFile (s\<lparr>disk_of := fs_Chtimes (Name f) (ModTime f) (disk_of s)\<rparr>)))))"

text \<open>The end of a file whose blocks are complete; \<open>err\<close> is the error of closing it.\<close>

definition finish_file :: "item_env \<Rightarrow> item_cfg \<Rightarrow> FileInfo \<Rightarrow> FileInfo \<Rightarrow> bool \<Rightarrow> pull_error option \<Rightarrow> item_state \<Rightarrow> item_state" where
  "finish_file env cfg f curFile hasCurFile err s =
     (let s = queue_done (Name f) s
      in case (case err of Some e \<Rightarrow> (Some e, s) | None \<Rightarrow> performFinish env cfg f curFile hasCurFile (TempName (nameHash env) (Name f)) s) of
           (None, s) \<Rightarrow> s
         | (Some e, s) \<Rightarrow> newPullError (Name f) e s)"

text \<open>Whether the target of a rename is what the database says.\<close>

definition check_target :: "item_env \<Rightarrow> item_cfg \<Rightarrow> FileInfo \<Rightarrow> FileInfo \<Rightarrow> item_state \<Rightarrow> pull_error option \<times> item_state" where
  "check_target env cfg source target s =
     (let cur = deviceFile env (Name target); absent = (case cur of None \<Rightarrow> True | Some c \<Rightarrow> IsDeleted c)
      in case Lstat (eio env) (Name target) (disk_of s) of
           Inl e \<Rightarrow>
             if e = NotExistErr \<or> e = CaseConflictErr (Name source)
             then (if absent then (None, s) else (Some errModified, send_scan (Name target) s))
             else (Some (FsErr e), s)
         | Inr st \<Rightarrow>
             (case cur of
                None \<Rightarrow> (Some errModified, send_scan (Name target) s)
              | Some curTarget \<Rightarrow>
                  (case CreateFileInfo (disk_env (eio env) (disk_of s)) st (Name target) (cSyncOwnership cfg) (cSyncXattrs cfg) of
                     Inl e \<Rightarrow> (Some (ScanErr e), s)
                   | Inr fi \<Rightarrow>
                       if \<not> IsEquivalentOptional (cOs cfg) fi curTarget (item_comparison cfg False)
                       then (Some errModified, send_scan (Name target) s) else (None, s))))"

definition move_to_temp :: "item_env \<Rightarrow> FileInfo \<Rightarrow> string \<Rightarrow> item_state \<Rightarrow> pull_error option \<times> item_state" where
  "move_to_temp env source tempName =
     (case versioner env of
        Some archive \<Rightarrow>
          and_then (\<lambda>s. (if space env (Size source) then None else Some NoSpaceErr, s))
            (and_then (on_disk (osutil_Copy (eio env) (Name source) tempName))
               (on_disk (inWritableDir (eio env) archive (Name source))))
      | None \<Rightarrow> on_disk (RenameOrCopy (eio env) (Name source) tempName))"

definition renameFile :: "item_env \<Rightarrow> item_cfg \<Rightarrow> FileInfo \<Rightarrow> FileInfo \<Rightarrow> FileInfo \<Rightarrow> item_state \<Rightarrow> pull_error option \<times> item_state" where
  "renameFile env cfg cur source target =
     and_then (checkToBeDeleted env cfg source cur True)
       (and_then (\<lambda>s. (if dbFails env (Name target) then Some DbErr else None, s))
          (and_then (check_target env cfg source target)
             (and_then (move_to_temp env source (TempName (nameHash env) (Name target)))
                (and_then (performFinish env cfg target (cur_or_zero (deviceFile env (Name target))) True (TempName (nameHash env) (Name target)))
                   (\<lambda>s. (None, send_job source dbUpdateDeleteFile s))))))"

text \<open>Only metadata changed: the file stays as it is.\<close>

definition write_trailer :: "item_env \<Rightarrow> FileInfo \<Rightarrow> string \<Rightarrow> disk \<Rightarrow> fs_error option \<times> disk" where
  "write_trailer env f p d =
     (case map_of d p of
        None \<Rightarrow> (Some NotExistErr, d)
      | Some e \<Rightarrow> (case trailer env f e of Inl err \<Rightarrow> (Some err, d) | Inr (n, e') \<Rightarrow> (None, put p e' d)))"

definition with_trailer :: "item_env \<Rightarrow> FileInfo \<Rightarrow> disk \<Rightarrow> FileInfo" where
  "with_trailer env f d =
     (case map_of d (Name f) of
        None \<Rightarrow> f
      | Some e \<Rightarrow> (case trailer env f e of Inl err \<Rightarrow> f | Inr (n, e') \<Rightarrow> f\<lparr>EncryptionTrailerSize := n, Size := Size f + n\<rparr>))"

definition shortcutFile :: "item_env \<Rightarrow> item_cfg \<Rightarrow> FileInfo \<Rightarrow> item_state \<Rightarrow> item_state" where
  "shortcutFile env cfg f s =
     (let s = queue_done (Name f) s
      in case on_disk (set_temp_metadata env cfg f (Name f)) s of
           (Some err, s) \<Rightarrow> newPullError (Name f) err s
         | (None, s) \<Rightarrow>
             (let encrypted = (cType cfg = FolderTypeReceiveEncrypted); f' = (if encrypted then with_trailer env f (disk_of s) else f)
              in case (if encrypted then on_disk (inWritableDir (eio env) (write_trailer env f) (Name f)) s else (None, s)) of
                   (Some err, s) \<Rightarrow> newPullError (Name f) err s
                 | (None, s) \<Rightarrow>
                     send_job f' dbUpdateShortcutFile (s\<lparr>disk_of := fs_Chtimes (Name f) (ModTime f) (disk_of s)\<rparr>)))"

section \<open>The needed items\<close>

text \<open>The deletions that are put off, and the files to be deleted by the hash of their blocks.\<close>

record need_tables =
  fileDeletions :: "(string \<times> FileInfo) list"
  dirDeletions :: "FileInfo list"
  buckets :: "(bytes \<times> FileInfo list) list"

definition candidates :: "bytes \<Rightarrow> need_tables \<Rightarrow> FileInfo list" where
  "candidates key t = (case map_of (buckets t) key of None \<Rightarrow> [] | Some cs \<Rightarrow> cs)"

definition popCandidate :: "bytes \<Rightarrow> need_tables \<Rightarrow> FileInfo option \<times> need_tables" where
  "popCandidate key t =
     (case candidates key t of
        [] \<Rightarrow> (None, t)
      | c # cs \<Rightarrow> (Some c, t\<lparr>buckets := put key cs (buckets t)\<rparr>))"

definition need_deletion :: "item_env \<Rightarrow> item_cfg \<Rightarrow> FileInfo \<Rightarrow> need_tables \<Rightarrow> item_state \<Rightarrow> (pull_error, need_tables \<times> item_state) outcome" where
  "need_deletion env cfg f t s =
     (if IsDirectory f then Ok (t\<lparr>dirDeletions := dirDeletions t @ [f]\<rparr>, s)
      else if IsSymlink f then Ok (t, deleteFile env cfg f s)
      else if dbFails env (Name f) then Err DbErr
      else
        case deviceFile env (Name f) of
          Some df \<Rightarrow>
            if \<not> IsDeleted df \<and> \<not> IsSymlink df \<and> \<not> IsDirectory df \<and> \<not> IsInvalid df
            then Ok (t\<lparr>fileDeletions := put (Name f) f (fileDeletions t),
                       buckets := put (BlocksHash df) (candidates (BlocksHash df) t @ [df]) (buckets t)\<rparr>, s)
            else Ok (t, deleteFileWithCurrent env cfg f df True s)
        | None \<Rightarrow> Ok (t, deleteFileWithCurrent env cfg f (zero_file []) False s))"

definition UnixNano :: "gotime \<Rightarrow> int" where
  "UnixNano t = int64 ((fst t - unixToInternal) * 1000000000 + snd t)"

definition need_file :: "item_env \<Rightarrow> item_cfg \<Rightarrow> FileInfo \<Rightarrow> item_state \<Rightarrow> (pull_error, item_state) outcome" where
  "need_file env cfg f s =
     (if dbFails env (Name f) then Err DbErr
      else if (case deviceFile env (Name f) of Some cur \<Rightarrow> BlocksEqual f cur | None \<Rightarrow> False) then Ok (shortcutFile env cfg f s)
      else Ok (s\<lparr>queue := Push (Name f) (Size f) (UnixNano (ModTime f)) (queue s)\<rparr>))"

definition need_item :: "item_env \<Rightarrow> item_cfg \<Rightarrow> FileInfo \<Rightarrow> need_tables \<Rightarrow> item_state \<Rightarrow> (pull_error, need_tables \<times> item_state) outcome" where
  "need_item env cfg f t s =
     (if cIgnoreDelete cfg \<and> IsDeleted f then Ok (t, s)
      else if R_IsIgnored (imatch env (Name f)) then Ok (t, send_job (SetIgnored f) dbUpdateInvalidate s)
      else if cOs cfg = GoWindows \<and> WindowsInvalidFilename (Name f) \<noteq> Ok () then
        Ok (t, if IsDeleted f then send_job f dbUpdateDeleteFile s else newPullError (Name f) WindowsNameErr s)
      else if IsDeleted f then need_deletion env cfg f t s
      else if Type f = FileInfoTypeFile then obind (need_file env cfg f s) (\<lambda>s. Ok (t, s))
      else if (cOs cfg = GoWindows \<or> cAndroid cfg) \<and> IsSymlink f then
        Ok (t, case handleSymlinkCheckExisting env cfg f s of
              (Some err, s) \<Rightarrow> newPullError (Name f) err s
            | (None, s) \<Rightarrow> send_job (SetUnsupported f) dbUpdateInvalidate s)
      else if IsDirectory f \<and> \<not> IsSymlink f then
        Ok (t, case checkParent env cfg (Name f) s of (ok, s) \<Rightarrow> if ok then handleDir env cfg f s else s)
      else if IsSymlink f then
        Ok (t, case checkParent env cfg (Name f) s of (ok, s) \<Rightarrow> if ok then handleSymlink env cfg f s else s)
      else Panic)"

text \<open>The candidates for a rename in turn, until one is renamed; every turn takes one out of the table.\<close>

fun rename_loop :: "item_env \<Rightarrow> item_cfg \<Rightarrow> FileInfo \<Rightarrow> nat \<Rightarrow> need_tables \<Rightarrow> item_state \<Rightarrow> bool \<times> need_tables \<times> item_state" where
  "rename_loop env cfg fi 0 t s = (False, t, s)"
| "rename_loop env cfg fi (Suc n) t s =
     (case popCandidate (BlocksHash fi) t of
        (None, t) \<Rightarrow> (False, t, s)
      | (Some cand, t) \<Rightarrow>
          (case renameFile env cfg cand (cur_or_zero (map_of (fileDeletions t) (Name cand))) fi s of
             (Some err, s) \<Rightarrow> rename_loop env cfg fi n t s
           | (None, s) \<Rightarrow> (True, t\<lparr>fileDeletions := del (Name cand) (fileDeletions t)\<rparr>, s)))"

text \<open>A file from the queue; handing it to the copier is recorded in \<open>copies\<close>.\<close>

definition queued_file :: "item_env \<Rightarrow> item_cfg \<Rightarrow> string \<Rightarrow> need_tables \<Rightarrow> item_state \<Rightarrow> (pull_error, need_tables \<times> item_state) outcome" where
  "queued_file env cfg fileName t s =
     (if dbFails env fileName then Err DbErr
      else
        case globalFile env fileName of
          None \<Rightarrow> Ok (t, queue_done fileName s)
        | Some fi \<Rightarrow>
            if IsDeleted fi \<or> IsInvalid fi \<or> Type fi \<noteq> FileInfoTypeFile then Ok (t, queue_done fileName s)
            else
              case checkParent env cfg (Name fi) s of (ok, s) \<Rightarrow>
                if \<not> ok then Ok (t, queue_done fileName s)
                else
                  case rename_loop env cfg fi (Suc (length (candidates (BlocksHash fi) t))) t s of (renamed, t, s) \<Rightarrow>
                    if renamed then Ok (t, queue_done fileName s)
                    else if \<not> hasDevices env fi then Ok (t, queue_done fileName (newPullError fileName errNotAvailable s))
                    else if \<not> space env (Size fi) then Ok (t, queue_done fileName (newPullError fileName NoSpaceErr s))
                    else Ok (t, s\<lparr>copies := copies s @ [fi]\<rparr>))"

fun need_loop :: "item_env \<Rightarrow> item_cfg \<Rightarrow> FileInfo list \<Rightarrow> need_tables \<Rightarrow> item_state \<Rightarrow> (pull_error, need_tables \<times> item_state) outcome" where
  "need_loop env cfg [] t s = Ok (t, s)"
| "need_loop env cfg (f # fs) t s = obind (need_item env cfg f t s) (\<lambda>(t, s). need_loop env cfg fs t s)"

text \<open>As many turns as files are queued; nothing is queued meanwhile.\<close>

fun queue_loop :: "item_env \<Rightarrow> item_cfg \<Rightarrow> nat \<Rightarrow> need_tables \<Rightarrow> item_state \<Rightarrow> (pull_error, need_tables \<times> item_state) outcome" where
  "queue_loop env cfg 0 t s = Ok (t, s)"
| "queue_loop env cfg (Suc n) t s =
     (case Pop (queue s) of
        (None, q) \<Rightarrow> Ok (t, s\<lparr>queue := q\<rparr>)
      | (Some name, q) \<Rightarrow> obind (queued_file env cfg name t (s\<lparr>queue := q\<rparr>)) (\<lambda>(t, s). queue_loop env cfg n t s))"

definition no_tables :: need_tables where
  "no_tables = \<lparr>fileDeletions = [], dirDeletions = [], buckets = []\<rparr>"

definition processNeeded :: "item_env \<Rightarrow> item_cfg \<Rightarrow> FileInfo list \<Rightarrow> item_state \<Rightarrow> (pull_error, need_tables \<times> item_state) outcome" where
  "processNeeded env cfg needed s =
     obind (need_loop env cfg needed no_tables s) (\<lambda>(t, s). queue_loop env cfg (length (queued (queue s))) t s)"

definition processDeletions :: "item_env \<Rightarrow> item_cfg \<Rightarrow> need_tables \<Rightarrow> item_state \<Rightarrow> item_state" where
  "processDeletions env cfg t s =
     fold (\<lambda>f s. deleteDir env cfg f s) (rev (dirDeletions t))
       (fold (\<lambda>(n, f) s. deleteFile env cfg f s) (fileDeletions t) s)"

section \<open>Updating the database\<close>

text \<open>The constants are numbered in the order of their declaration.\<close>

fun job_number :: "dbUpdateType \<Rightarrow> int" where
  "job_number dbUpdateHandleDir = 0"
| "job_number dbUpdateDeleteDir = 1"
| "job_number dbUpdateHandleFile = 2"
| "job_number dbUpdateDeleteFile = 3"
| "job_number dbUpdateShortcutFile = 4"
| "job_number dbUpdateHandleSymlink = 5"
| "job_number dbUpdateInvalidate = 6"

definition counts_as_received :: "FileInfo \<Rightarrow> dbUpdateType \<Rightarrow> bool" where
  "counts_as_received f t \<longleftrightarrow>
     \<not> IsInvalid f \<and> job_number t AND (job_number dbUpdateHandleFile OR job_number dbUpdateDeleteFile) \<noteq> 0"

definition changed_dir :: "FileInfo \<Rightarrow> dbUpdateType \<Rightarrow> string option" where
  "changed_dir f t =
     (case t of
        dbUpdateHandleFile \<Rightarrow> Some (path_Dir (Name f))
      | dbUpdateShortcutFile \<Rightarrow> Some (path_Dir (Name f))
      | dbUpdateHandleDir \<Rightarrow> Some (Name f)
      | _ \<Rightarrow> None)"

text \<open>What a job adds to the batch, the directories to sync and the file last received.\<close>

definition update_job :: "FileInfo \<times> dbUpdateType \<Rightarrow> FileInfo list \<times> string list \<times> FileInfo option \<Rightarrow> FileInfo list \<times> string list \<times> FileInfo option" where
  "update_job j u =
     (case j of (f, t) \<Rightarrow> case u of (batch, dirs, received) \<Rightarrow>
        (batch @ [f\<lparr>Sequence := 0\<rparr>],
         case changed_dir f t of None \<Rightarrow> dirs | Some d \<Rightarrow> List.insert d dirs,
         if counts_as_received f t then Some f else received))"

end
