(* ===== verification/Item_Safety.thy ===== *)
theory Item_Safety
  imports Item_Pull
begin

text \<open>
  Pulling keeps what was not scanned.  Whatever the puller does to the disk, a file or link is still there
  as it was unless the database knows it just so, or its path belongs to the program or may be deleted by
  the ignore patterns.
\<close>

section \<open>What may be lost\<close>

text \<open>The file info of an entry of the disk.\<close>

definition entry_env :: "entry \<Rightarrow> walk_env" where
  "entry_env e =
     \<lparr>eNow = 0, eTime = 0, eStart = (0, 0), ePlatform = (\<lambda>p. Inr (eplatform e)), eReadSymlink = (\<lambda>p. Inr (edata e)),
      eLstat = (\<lambda>p. Inr (estat e)), eRename = (\<lambda>p q. None), eSameFile = False, eSends = True, eSha = (\<lambda>s. [])\<rparr>"

definition known :: "item_env \<Rightarrow> item_cfg \<Rightarrow> string \<Rightarrow> entry \<Rightarrow> bool" where
  "known env cfg p e \<longleftrightarrow>
     (case deviceFile env p of
        None \<Rightarrow> False
      | Some cur \<Rightarrow>
          \<not> Deleted cur \<and>
          (case CreateFileInfo (entry_env e) (estat e) p (cSyncOwnership cfg) (cSyncXattrs cfg) of
             Inl _ \<Rightarrow> False
           | Inr f \<Rightarrow> IsEquivalentOptional (cOs cfg) f cur (item_comparison cfg True) \<or> IsEquivalentOptional (cOs cfg) f cur (item_comparison cfg False)))"

definition free :: "item_env \<Rightarrow> string \<Rightarrow> bool" where
  "free env p \<longleftrightarrow> p = [] \<or> IsTemporary p \<or> isConflict p \<or> IsInternal p \<or> IsDeletable (imatch env p)"

definition expendable :: "item_env \<Rightarrow> item_cfg \<Rightarrow> string \<Rightarrow> entry \<Rightarrow> bool" where
  "expendable env cfg p e \<longleftrightarrow> free env p \<or> known env cfg p e"

text \<open>
  What is relied on: the database finds a file under its name, a versioner takes away the file it is given
  and touches nothing else but its own archive, a conflict of cases is reported only for a name that
  is not there, writing a trailer does not turn a directory into a file, and the time has no slash.
\<close>

definition archive_law :: "(string \<Rightarrow> disk \<Rightarrow> fs_error option \<times> disk) \<Rightarrow> bool" where
  "archive_law v \<longleftrightarrow> (\<forall>p d. tame d (snd (v p d)) \<and>
     (\<forall>q. IsInternal q \<or> files_at (snd (v p d)) q = files_at d q \<or> q = p \<and> files_at (snd (v p d)) q = None))"

definition env_ok :: "item_env \<Rightarrow> bool" where
  "env_ok env \<longleftrightarrow>
     (\<forall>p f. deviceFile env p = Some f \<longrightarrow> Name f = p) \<and>
     (\<forall>v. versioner env = Some v \<longrightarrow> archive_law v) \<and>
     (\<forall>p d real. eio env OpLstat p d = Some (IoCaseConflict real) \<longrightarrow> map_of d p = None) \<and>
     (\<forall>f e n e'. trailer env f e = Inr (n, e') \<longrightarrow> sIsDir (estat e') = sIsDir (estat e)) \<and>
     slash \<notin> set (stamp env)"

definition name_ok :: "item_cfg \<Rightarrow> string \<Rightarrow> bool" where
  "name_ok cfg p \<longleftrightarrow> safe_name p \<and> (cMaxConflicts cfg < 0 \<or> plain_name p)"

text \<open>Away from free paths, files are the same or gone, and only gone when they may be lost.\<close>

definition clears :: "item_env \<Rightarrow> item_cfg \<Rightarrow> disk \<Rightarrow> disk \<Rightarrow> bool" where
  "clears env cfg d d' \<longleftrightarrow>
     (\<forall>p. free env p \<or> files_at d' p = files_at d p \<or> files_at d' p = None \<and> may_lose (expendable env cfg) d p)"

lemma clears_refl [simp]: "clears env cfg d d"
  by (simp add: clears_def)

lemma clears_trans: "clears env cfg d d' \<Longrightarrow> clears env cfg d' d'' \<Longrightarrow> clears env cfg d d''"
  unfolding clears_def may_lose_def by metis

lemma clears_keeps: "clears env cfg d d' \<Longrightarrow> keeps (expendable env cfg) d d'"
  unfolding clears_def keeps_def may_lose_def expendable_def by metis

lemma free_may_lose: "free env p \<Longrightarrow> may_lose (expendable env cfg) d p"
  by (simp add: may_lose_def expendable_def)

lemma clears_may_lose: "clears env cfg d d' \<Longrightarrow> may_lose (expendable env cfg) d p \<Longrightarrow> may_lose (expendable env cfg) d' p"
  unfolding clears_def may_lose_def expendable_def by (metis option.distinct(1))

lemma clears_none: "clears env cfg d d' \<Longrightarrow> files_at d p = None \<Longrightarrow> files_at d' p = None \<or> free env p"
  unfolding clears_def by metis

lemma only_removes_clears: "only_removes (free env) d d' \<Longrightarrow> clears env cfg d d'"
  unfolding only_removes_def clears_def by metis

text \<open>What an operation on one path does.\<close>

lemma clears_at:
  assumes "may_lose (expendable env cfg) d p" and "\<forall>q. free env q \<or> F q = files_at d q \<or> q = p \<and> F q = None"
  shows "\<forall>q. free env q \<or> F q = files_at d q \<or> F q = None \<and> may_lose (expendable env cfg) d q"
  using assms by metis

lemma inWritableDir_clears:
  assumes "may_lose (expendable env cfg) d p"
    and "\<And>d'. tame d' (snd (fn p d')) \<and> (\<forall>q. free env q \<or> files_at (snd (fn p d')) q = files_at d' q \<or> q = p \<and> files_at (snd (fn p d')) q = None)"
  shows "clears env cfg d (snd (inWritableDir io fn p d))"
  unfolding clears_def
proof (rule inWritableDir_files [where Q = "\<lambda>F. \<forall>q. free env q \<or> F q = files_at d q \<or> F q = None \<and> may_lose (expendable env cfg) d q"])
  fix d'
  assume "files_at d' = files_at d"
  then have "\<forall>q. free env q \<or> files_at (snd (fn p d')) q = files_at d q \<or> q = p \<and> files_at (snd (fn p d')) q = None"
    using assms(2) [of d'] by simp
  from clears_at [OF assms(1) this] assms(2) [of d']
  show "(\<forall>q. free env q \<or> files_at (snd (fn p d')) q = files_at d q \<or> files_at (snd (fn p d')) q = None \<and> may_lose (expendable env cfg) d q) \<and>
      tame d' (snd (fn p d'))" by blast
qed simp

lemma on_disk_state: "on_disk f s = (err, s') \<Longrightarrow> s' = s\<lparr>disk_of := snd (f (disk_of s))\<rparr>"
  by (auto simp: on_disk_def split: prod.splits)

lemma sends_disk [simp]:
  "disk_of (newPullError p e s) = disk_of s" "disk_of (send_job f t s) = disk_of s" "disk_of (send_scan p s) = disk_of s"
  "disk_of (queue_done n s) = disk_of s"
  by (simp_all add: newPullError_def send_job_def send_scan_def queue_done_def)

section \<open>Checks\<close>

lemma CreateFileInfo_disk:
  assumes "CreateFileInfo (disk_env io d) st p own xat = Inr f" and "map_of d p = Some e"
  shows "CreateFileInfo (entry_env e) st p own xat = Inr f"
  using assms by (auto simp: CreateFileInfo_def disk_env_def entry_env_def Let_def split: if_splits sum.splits)

lemma Lstat_entry: "Lstat io p d = Inr st \<Longrightarrow> \<exists>e. map_of d p = Some e \<and> estat e = st"
  by (auto simp: Lstat_def split: option.splits)

lemma Lstat_none: "Lstat io p d = Inl NotExistErr \<Longrightarrow> files_at d p = None"
proof -
  assume "Lstat io p d = Inl NotExistErr"
  then have "map_of d p = None" by (cases "io OpLstat p d") (auto simp: Lstat_def split: option.splits elim: fs_error_of.elims)
  then show ?thesis by (simp add: files_at_def)
qed

text \<open>An item that was compared with its entry in the database may be lost.\<close>

lemma unchanged_may_lose:
  assumes "item_changed env cfg d st item True fromDelete = None" and "Lstat (eio env) p d = Inr st"
    and "deviceFile env p = Some item" "Name item = p"
  shows "may_lose (expendable env cfg) d p"
proof -
  obtain e where e: "map_of d p = Some e" "estat e = st" using Lstat_entry [OF assms(2)] by blast
  obtain f where "CreateFileInfo (disk_env (eio env) d) st p (cSyncOwnership cfg) (cSyncXattrs cfg) = Inr f"
      "IsEquivalentOptional (cOs cfg) f item (item_comparison cfg fromDelete)" "\<not> Deleted item"
    using assms(1, 4) by (auto simp: item_changed_def split: if_splits sum.splits)
  then have "known env cfg p e"
    using CreateFileInfo_disk [OF _ e(1)] assms(3) e(2) by (cases fromDelete) (auto simp: known_def)
  then show ?thesis using e(1) by (auto simp: may_lose_def expendable_def files_at_def split: if_splits)
qed

lemma scanIfItemChanged_passed:
  assumes "scanIfItemChanged env cfg p st (cur_or_zero (deviceFile env p)) (deviceFile env p \<noteq> None) fromDelete s = (None, s')"
    and "Lstat (eio env) p (disk_of s) = Inr st" and "env_ok env"
  shows "s' = s \<and> may_lose (expendable env cfg) (disk_of s) p \<and> Name (cur_or_zero (deviceFile env p)) = p"
proof (cases "deviceFile env p")
  case None
  then show ?thesis using assms(1) by (simp add: scanIfItemChanged_def item_changed_def)
next
  case (Some item)
  then have "Name item = p" using assms(3) by (simp add: env_ok_def)
  then show ?thesis using assms(1, 2) Some unchanged_may_lose [of env cfg "disk_of s" st item fromDelete p]
    by (auto simp: scanIfItemChanged_def cur_or_zero_def Let_def split: if_splits)
qed

lemma scanIfItemChanged_disk: "scanIfItemChanged env cfg p st item has fromDelete s = (err, s') \<Longrightarrow> disk_of s' = disk_of s"
  by (auto simp: scanIfItemChanged_def Let_def split: if_splits)

lemma checkToBeDeleted_disk: "checkToBeDeleted env cfg f cur has s = (err, s') \<Longrightarrow> disk_of s' = disk_of s"
  by (auto simp: checkToBeDeleted_def scanIfItemChanged_disk split: if_splits sum.splits)

lemma checkToBeDeleted_passed:
  assumes "checkToBeDeleted env cfg f cur has s = (None, s')" and "has \<longrightarrow> deviceFile env (Name f) = Some cur" and "env_ok env"
  shows "s' = s \<and> may_lose (expendable env cfg) (disk_of s) (Name f) \<and> has \<and> Name cur = Name f"
proof -
  obtain st where st: "Lstat (eio env) (Name f) (disk_of s) = Inr st" "scanIfItemChanged env cfg (Name f) st cur has True s = (None, s')"
    using assms(1) by (auto simp: checkToBeDeleted_def split: if_splits sum.splits)
  then have has by (auto simp: scanIfItemChanged_def item_changed_def split: if_splits)
  then have db: "deviceFile env (Name f) = Some cur" using assms(2) by simp
  then show ?thesis using scanIfItemChanged_passed [of env cfg "Name f" st True s s'] st assms(3) \<open>has\<close> by (simp add: cur_or_zero_def)
qed

section \<open>Removing\<close>

lemma ShortID_no_slash: "slash \<notin> set (ShortID_String i)"
proof -
  have quantum: "set (encode_quantum bs) \<subseteq> set luhnBase32 \<union> {CHR ''=''}" for bs
  proof -
    have "luhnBase32 ! k \<in> set luhnBase32" if "k \<in> set (take n (to_digits 32 8 v))" for k n v
      using to_digits_less [of 32 k 8 v] in_set_takeD [OF that] by (intro nth_mem) (simp add: luhnBase32_def)
    then show ?thesis by (auto simp: encode_quantum_def Let_def)
  qed
  have "set (base32_encode bs) \<subseteq> set luhnBase32 \<union> {CHR ''=''}" for bs
  proof (induction bs rule: base32_encode.induct)
    case (1 bs)
    then show ?case using quantum [of "take 5 bs"] by (subst base32_encode.simps) auto
  qed
  then have "set (ShortID_String i) \<subseteq> set luhnBase32 \<union> {CHR ''=''}"
    by (auto simp: ShortID_String_def dest!: in_set_takeD)
  moreover have "slash \<notin> set luhnBase32 \<union> {CHR ''=''}" by (simp add: luhnBase32_def slash_def)
  ultimately show ?thesis by blast
qed

lemma Remove_one: "tame d (snd (fs_Remove io p d)) \<and> (\<forall>q. free env q \<or> files_at (snd (fs_Remove io p d)) q = files_at d q \<or> q = p \<and> files_at (snd (fs_Remove io p d)) q = None)"
  using Remove_only [of "\<lambda>q. q = p" p d io] Remove_tame [of d io p] by (auto simp: only_removes_def)

lemma archive_one:
  "env_ok env \<Longrightarrow> versioner env = Some v \<Longrightarrow> tame d (snd (v p d)) \<and> (\<forall>q. free env q \<or> files_at (snd (v p d)) q = files_at d q \<or> q = p \<and> files_at (snd (v p d)) q = None)"
  unfolding env_ok_def archive_law_def free_def by blast

lemma remove_clears: "may_lose (expendable env cfg) d p \<Longrightarrow> clears env cfg d (snd (inWritableDir io (fs_Remove io) p d))"
  by (rule inWritableDir_clears [OF _ Remove_one])

lemma archive_clears:
  "env_ok env \<Longrightarrow> versioner env = Some v \<Longrightarrow> may_lose (expendable env cfg) d p \<Longrightarrow> clears env cfg d (snd (inWritableDir io v p d))"
  by (rule inWritableDir_clears [OF _ archive_one])

lemma moveForConflict_clears:
  assumes "moveForConflict env cfg name by' s = (err, s')" and "may_lose (expendable env cfg) (disk_of s) name"
    and "env_ok env" and "cMaxConflicts cfg < 0 \<or> plain_name name"
  shows "clears env cfg (disk_of s) (disk_of s')"
proof -
  let ?mv = "move_away (eio env) (cMaxConflicts cfg) (stamp env) (ShortID_String by')"
  have "tame d (snd (?mv name d)) \<and> (\<forall>q. free env q \<or> files_at (snd (?mv name d)) q = files_at d q \<or> q = name \<and> files_at (snd (?mv name d)) q = None)" for d
    using move_away_files [where now = "stamp env" and lastModBy = "ShortID_String by'" and n = "cMaxConflicts cfg" and name = name and d = d and io = "eio env"] assms(3, 4) ShortID_no_slash
    by (auto simp: env_ok_def free_def)
  then have "clears env cfg (disk_of s) (snd (inWritableDir (eio env) ?mv name (disk_of s)))"
    by (rule inWritableDir_clears [OF assms(2)])
  then show ?thesis using assms(1) by (auto simp: moveForConflict_def on_disk_def split: prod.splits if_splits)
qed

lemma remove_child_only: "remove_child env p fl s = (fl', s') \<Longrightarrow> free env p \<Longrightarrow> only_removes (free env) (disk_of s) (disk_of s') \<and> dirsToDelete fl' = dirsToDelete fl"
  using Remove_only [of "free env" p "disk_of s" "eio env"] by (auto simp: remove_child_def split: prod.splits if_splits)

lemma visit_child_only:
  "visit_child env cfg p st fl s = (err, fl', s') \<Longrightarrow>
   only_removes (free env) (disk_of s) (disk_of s') \<and> set (dirsToDelete fl') \<subseteq> set (dirsToDelete fl) \<union> Collect (free env)"
proof (cases "IsDeletable (imatch env p) \<or> IsTemporary p")
  case True
  assume "visit_child env cfg p st fl s = (err, fl', s')"
  then show ?thesis using True remove_child_only [of env p fl s fl' s']
    by (auto simp: visit_child_def free_def Let_def only_removes_def split: if_splits)
next
  case False
  assume "visit_child env cfg p st fl s = (err, fl', s')"
  then show ?thesis using False
    by (auto simp: visit_child_def Let_def only_removes_def split: if_splits option.splits sum.splits)
qed

lemma visit_children_only:
  "visit_children env cfg dir es fl s = (err, fl', s') \<Longrightarrow>
   only_removes (free env) (disk_of s) (disk_of s') \<and> set (dirsToDelete fl') \<subseteq> set (dirsToDelete fl) \<union> Collect (free env)"
proof (induction es arbitrary: fl s)
  case (Cons pe es)
  obtain p e where pe: "pe = (p, e)" by fastforce
  show ?case
  proof (cases "p = dir \<or> eio env OpWalk p (disk_of s) \<noteq> None")
    case True
    then show ?thesis using Cons by (auto simp: pe only_removes_def split: if_splits)
  next
    case False
    obtain err1 fl1 s1 where v: "visit_child env cfg p (estat e) fl s = (err1, fl1, s1)" by (metis prod_cases3)
    note one = visit_child_only [OF v]
    show ?thesis
    proof (cases err1)
      case None
      with Cons.prems False v have "visit_children env cfg dir es fl1 s1 = (err, fl', s')" by (simp add: pe)
      from Cons.IH [OF this] one show ?thesis using only_removes_trans [of "free env" "disk_of s" "disk_of s1"] by blast
    next
      case (Some x)
      with Cons.prems False v one show ?thesis by (auto simp: pe)
    qed
  qed
qed (simp add: only_removes_def)

lemma remove_dirs_only:
  "remove_dirs env ps fl s = (fl', s') \<Longrightarrow> \<forall>p \<in> set ps. free env p \<Longrightarrow> only_removes (free env) (disk_of s) (disk_of s')"
proof (induction ps arbitrary: fl s)
  case (Cons p ps)
  obtain fl1 s1 where r: "remove_child env p fl s = (fl1, s1)" by fastforce
  then have "remove_dirs env ps fl1 s1 = (fl', s')" using Cons.prems(1) by simp
  from Cons.IH [OF this] Cons.prems(2) remove_child_only [OF r] show ?case
    using only_removes_trans [of "free env" "disk_of s" "disk_of s1"] by auto
qed (simp add: only_removes_def)

lemma handleChildren_only:
  assumes "deleteDirOnDiskHandleChildren env cfg dir s = (err, s')"
  shows "only_removes (free env) (disk_of s) (disk_of s')"
proof -
  obtain err1 fl1 s1 where v: "visit_children env cfg dir (fs_Walk dir (disk_of s)) no_children s = (err1, fl1, s1)" by (metis prod_cases3)
  note one = visit_children_only [OF v]
  obtain fl2 s2 where r: "remove_dirs env (rev (dirsToDelete fl1)) fl1 s1 = (fl2, s2)" by fastforce
  have "\<forall>p \<in> set (rev (dirsToDelete fl1)). free env p" using one by (auto simp: no_children_def)
  from remove_dirs_only [OF r this] have "only_removes (free env) (disk_of s) (disk_of s2)" using one only_removes_trans by blast
  then show ?thesis using assms v r one by (auto simp: deleteDirOnDiskHandleChildren_def split: option.splits if_splits)
qed

lemma deleteDirOnDisk_clears:
  assumes "deleteDirOnDisk env cfg dir s = (err, s')" and "may_lose (expendable env cfg) (disk_of s) dir"
  shows "clears env cfg (disk_of s) (disk_of s')"
proof (cases "TraversesSymlink (eio env) (path_Dir dir) (disk_of s) = PathOk")
  case True
  obtain err1 s1 where h: "deleteDirOnDiskHandleChildren env cfg dir s = (err1, s1)" by fastforce
  have one: "clears env cfg (disk_of s) (disk_of s1)" using handleChildren_only [OF h] by (rule only_removes_clears)
  obtain err2 s2 where r: "on_disk (inWritableDir (eio env) (fs_Remove (eio env)) dir) s1 = (err2, s2)" by fastforce
  have "clears env cfg (disk_of s1) (disk_of s2)"
    using remove_clears [OF clears_may_lose [OF one assms(2)]] on_disk_state [OF r] by simp
  with one have "clears env cfg (disk_of s) (disk_of s2)" by (rule clears_trans)
  then show ?thesis using assms(1) True h r one by (cases err1) (auto simp: deleteDirOnDisk_def and_then_def split: if_splits)
next
  case False
  then show ?thesis using assms(1) by (auto simp: deleteDirOnDisk_def split: path_check.splits)
qed

lemma deleteItemOnDisk_clears:
  assumes "deleteItemOnDisk env cfg item s = (err, s')" and "may_lose (expendable env cfg) (disk_of s) (Name item)" and "env_ok env"
  shows "clears env cfg (disk_of s) (disk_of s')"
proof (cases "IsDirectory item")
  case True
  then show ?thesis using assms deleteDirOnDisk_clears by (simp add: deleteItemOnDisk_def)
next
  case False
  then show ?thesis using assms remove_clears [OF assms(2)] archive_clears [OF assms(3) _ assms(2)] on_disk_state
    by (auto simp: deleteItemOnDisk_def split: if_splits option.splits dest!: on_disk_state)
qed

lemma make_room_clears:
  assumes "make_room env cfg c f cur s = (err, s')" and "may_lose (expendable env cfg) (disk_of s) (Name cur)" and "env_ok env"
    and "cMaxConflicts cfg < 0 \<or> plain_name (Name cur)"
  shows "clears env cfg (disk_of s) (disk_of s')"
  using assms moveForConflict_clears deleteItemOnDisk_clears by (auto simp: make_room_def split: if_splits)

section \<open>Creating\<close>

text \<open>Only one path changes, and directories stay directories.\<close>

definition same_but :: "string \<Rightarrow> disk \<Rightarrow> disk \<Rightarrow> bool" where
  "same_but p d d' \<longleftrightarrow> (\<forall>q. q \<noteq> p \<longrightarrow> files_at d' q = files_at d q) \<and> (\<forall>q. is_dir d' q = is_dir d q)"

lemma same_but_refl [simp]: "same_but p d d"
  by (simp add: same_but_def)

lemma same_but_trans: "same_but p d d' \<Longrightarrow> same_but p d' d'' \<Longrightarrow> same_but p d d''"
  by (simp add: same_but_def)

lemma same_but_dir: "same_but p d d' \<Longrightarrow> is_dir d p \<Longrightarrow> files_at d' = files_at d"
  by (auto simp: same_but_def fun_eq_iff) (metis is_dir_files)

lemma same_but_tame: "same_but p d d' \<Longrightarrow> tame d d'"
  by (simp add: same_but_def tame_def)

lemma change_same:
  assumes "\<And>e. sIsDir (estat (f e)) = sIsDir (estat e)"
  shows "same_but p d (snd (attempt io op p (change p f) d))"
proof -
  have "is_dir (snd (change p f d)) q = is_dir d q" for q
    using assms by (cases "map_of d p") (simp_all add: change_def is_dir_put, simp add: is_dir_def)
  moreover have "files_at (snd (change p f d)) q = files_at d q" if "q \<noteq> p" for q
    using that by (simp add: change_files [OF assms])
  ultimately show ?thesis by (simp add: same_but_def attempt_snd)
qed

lemma Chmod_same: "same_but p d (snd (fs_Chmod io p m d))"
  unfolding fs_Chmod_def by (rule change_same) simp

lemma and_then_snd: "snd (and_then a b s) = (if fst (a s) = None then snd (b (snd (a s))) else snd (a s))"
  by (auto simp: and_then_def split: prod.split option.split)

lemma and_then_same:
  assumes "\<And>d. same_but p d (snd (a d))" and "\<And>d. same_but p d (snd (b d))"
  shows "same_but p d (snd (and_then a b d))"
  unfolding and_then_snd using assms same_but_trans [OF assms(1) assms(2)] by simp

lemma setPlatformData_same: "same_but p d (snd (setPlatformData env cfg f p d))"
  unfolding setPlatformData_def
  by (rule and_then_same)
    (simp_all add: set_xattrs_def split_beta syncOwnership_def copyOwnershipFromParent_def change_same split: sum.split)

lemma set_temp_metadata_same: "same_but p d (snd (set_temp_metadata env cfg f p d))"
  unfolding set_temp_metadata_def by (rule and_then_same) (simp_all add: Chmod_same setPlatformData_same)

lemma mkdir_files: "files_at (snd (mkdir env cfg f p d)) = files_at d"
proof (cases "fst (fs_Mkdir (eio env) p (dir_mode cfg f) d) = None")
  case True
  let ?d = "snd (fs_Mkdir (eio env) p (dir_mode cfg f) d)"
  have new: "is_dir ?d p" "files_at ?d = files_at d"
    using True by (auto simp: fs_Mkdir_def attempt_def create_def new_entry_def dir_stat_def is_dir_put fun_eq_iff files_at_def split: option.splits if_splits)
  have "same_but p ?d (snd (mkdir env cfg f p d))"
    unfolding mkdir_def and_then_snd [of "fs_Mkdir (eio env) p (dir_mode cfg f)"]
    by (simp add: True and_then_same setPlatformData_same Chmod_same split: sum.split)
  from same_but_dir [OF this new(1)] new(2) show ?thesis by simp
next
  case False
  then have "snd (fs_Mkdir (eio env) p (dir_mode cfg f) d) = d"
    by (auto simp: fs_Mkdir_def attempt_def create_def split: option.splits if_splits)
  then show ?thesis unfolding mkdir_def and_then_snd [of "fs_Mkdir (eio env) p (dir_mode cfg f)"] by (simp only: False if_False)
qed

lemma createLink_files:
  "tame d (snd (createLink env cfg f p d)) \<and> (\<forall>q e. files_at d q = Some e \<longrightarrow> files_at (snd (createLink env cfg f p d)) q = Some e)"
proof (cases "fst (fs_CreateSymlink (eio env) (SymlinkTarget f) p d) = None")
  case True
  let ?d = "snd (fs_CreateSymlink (eio env) (SymlinkTarget f) p d)"
  have new: "map_of d p = None" "\<forall>q. q \<noteq> p \<longrightarrow> files_at ?d q = files_at d q \<and> is_dir ?d q = is_dir d q"
    using True by (auto simp: fs_CreateSymlink_def attempt_def create_def is_dir_put split: option.splits if_splits)
  have "same_but p ?d (snd (createLink env cfg f p d))"
    using True setPlatformData_same unfolding createLink_def and_then_snd by auto
  then have "\<forall>q. q \<noteq> p \<longrightarrow> files_at (snd (createLink env cfg f p d)) q = files_at d q" using new(2) by (simp add: same_but_def)
  moreover have "\<not> is_dir d p" "files_at d p = None" using new(1) by (simp_all add: is_dir_def files_at_def)
  ultimately show ?thesis unfolding tame_def by (metis is_dir_files option.distinct(1))
next
  case False
  then have "snd (fs_CreateSymlink (eio env) (SymlinkTarget f) p d) = d"
    by (auto simp: fs_CreateSymlink_def attempt_def create_def split: option.splits if_splits)
  then show ?thesis unfolding createLink_def and_then_snd by (simp only: False if_False tame_refl simp_thms)
qed

lemma MkdirAll_files: "files_at (snd (fs_MkdirAll io p m d)) = files_at d"
proof -
  have one: "files_at (snd (create q (new_entry (dir_stat m) []) d)) = files_at d" for q d
    by (auto simp: create_def new_entry_def dir_stat_def fun_eq_iff files_at_def is_dir_put is_dir_def)
  have "files_at (fold (\<lambda>q d. snd (create q (new_entry (dir_stat m) []) d)) qs d) = files_at d" for qs d
    by (induction qs arbitrary: d) (simp_all add: one)
  then show ?thesis by (simp add: fs_MkdirAll_def attempt_snd)
qed

section \<open>Items\<close>

lemma keeps_equal: "files_at d' = files_at d \<Longrightarrow> keeps loss d d'"
  by (simp add: keeps_def)

lemma create_dir_keeps: "keeps loss (disk_of s) (disk_of (create_dir env cfg f s))"
proof -
  have "files_at (snd (inWritableDir (eio env) (mkdir env cfg f) (Name f) (disk_of s))) = files_at (disk_of s)"
    by (rule inWritableDir_files [where Q = "\<lambda>F. F = files_at (disk_of s)"]) (simp_all add: mkdir_files tame_def del: not_None_eq, metis is_dir_files)
  then show ?thesis by (auto simp: create_dir_def on_disk_def keeps_equal split: prod.splits option.splits)
qed

lemma update_dir_keeps:
  assumes "is_dir (disk_of s) (Name f)"
  shows "keeps loss (disk_of s) (disk_of (update_dir env cfg f info s))"
proof -
  have "same_but (Name f) d (snd (and_then (fs_Chmod (eio env) (Name f) m) (setPlatformData env cfg f (Name f)) d))" for m d
    by (rule and_then_same) (simp_all add: Chmod_same setPlatformData_same)
  note same = same_but_dir [OF this assms]
  show ?thesis
  proof (cases "cIgnorePerms cfg \<or> NoPermissions f")
    case False
    obtain err s1 where o: "on_disk (and_then (fs_Chmod (eio env) (Name f) (dir_mode cfg f OR (sMode info AND retainBits))) (setPlatformData env cfg f (Name f))) s = (err, s1)"
      by fastforce
    have "keeps loss (disk_of s) (disk_of s1)" using on_disk_state [OF o] same by (simp add: keeps_equal)
    then show ?thesis using False o by (simp add: update_dir_def split: option.split)
  qed (auto simp: update_dir_def)
qed

text \<open>The check of an existing item against the database, followed by making room for the new one.\<close>

lemma checked_room_clears:
  assumes "and_then (scanIfItemChanged env cfg p st (cur_or_zero (deviceFile env p)) (deviceFile env p \<noteq> None) fromDelete) (make_room env cfg c f (cur_or_zero (deviceFile env p))) s = (err, s')"
    and "Lstat (eio env) p (disk_of s) = Inr st" and "env_ok env" and "name_ok cfg p"
  shows "clears env cfg (disk_of s) (disk_of s')" and "err = None \<Longrightarrow> may_lose (expendable env cfg) (disk_of s') p"
proof -
  consider "disk_of s' = disk_of s" "err \<noteq> None"
    | s2 where "scanIfItemChanged env cfg p st (cur_or_zero (deviceFile env p)) (deviceFile env p \<noteq> None) fromDelete s = (None, s2)"
        "make_room env cfg c f (cur_or_zero (deviceFile env p)) s2 = (err, s')"
    using assms(1) unfolding and_then_eq by (metis scanIfItemChanged_disk option.distinct(1))
  then have "clears env cfg (disk_of s) (disk_of s') \<and> (err = None \<longrightarrow> may_lose (expendable env cfg) (disk_of s') p)"
  proof cases
    case 2
    with scanIfItemChanged_passed [OF 2(1) assms(2, 3)] have "may_lose (expendable env cfg) (disk_of s) p" "s2 = s" "Name (cur_or_zero (deviceFile env p)) = p"
      by simp_all
    then show ?thesis using make_room_clears [OF 2(2)] assms(3, 4) clears_may_lose by (auto simp: name_ok_def)
  qed auto
  then show "clears env cfg (disk_of s) (disk_of s')" "err = None \<Longrightarrow> may_lose (expendable env cfg) (disk_of s') p" by blast+
qed

lemma handleDir_keeps:
  assumes "env_ok env" and "name_ok cfg (Name f)"
  shows "keeps (expendable env cfg) (disk_of s) (disk_of (handleDir env cfg f s))"
proof (cases "Lstat (eio env) (Name f) (disk_of s)")
  case (Inr info)
  let ?cur = "cur_or_zero (deviceFile env (Name f))" and ?has = "deviceFile env (Name f) \<noteq> None"
  let ?c = "\<not> cUseLWWReconciler cfg \<and> \<not> IsSymlink ?cur \<and> InConflictWith f ?cur"
  obtain e where e: "map_of (disk_of s) (Name f) = Some e" "estat e = info" using Lstat_entry [OF Inr] by blast
  consider "sIsDir info" | "\<not> sIsDir info" "dbFails env (Name f)" | "\<not> sIsDir info" "\<not> dbFails env (Name f)" by blast
  then show ?thesis
  proof cases
    case 1
    then have "is_dir (disk_of s) (Name f)" using e by (simp add: is_dir_def)
    then show ?thesis using Inr 1 update_dir_keeps by (simp add: handleDir_def)
  next
    case 3
    obtain err s1 where at: "and_then (scanIfItemChanged env cfg (Name f) info ?cur ?has False) (make_room env cfg ?c f ?cur) s = (err, s1)" by fastforce
    have "clears env cfg (disk_of s) (disk_of s1)" by (rule checked_room_clears(1) [OF at Inr assms])
    then have "keeps (expendable env cfg) (disk_of s) (disk_of s1)" by (rule clears_keeps)
    moreover have "keeps (expendable env cfg) (disk_of s) (disk_of (create_dir env cfg f s1))"
      using calculation create_dir_keeps by (rule keeps_trans)
    ultimately show ?thesis using Inr 3 at by (simp add: handleDir_def Let_def split: option.split)
  qed (simp add: Inr handleDir_def)
next
  case (Inl e)
  then show ?thesis using create_dir_keeps by (simp add: handleDir_def)
qed

lemma checkParent_keeps: "checkParent env cfg p s = (ok, s') \<Longrightarrow> files_at (disk_of s') = files_at (disk_of s)"
  by (auto simp: checkParent_def Let_def on_disk_def MkdirAll_files split: path_check.splits if_splits prod.splits option.splits)
    (metis MkdirAll_files snd_conv)+

lemma handleSymlinkCheckExisting_clears:
  assumes "handleSymlinkCheckExisting env cfg f s = (err, s')" and "env_ok env" and "name_ok cfg (Name f)"
  shows "clears env cfg (disk_of s) (disk_of s')"
proof (cases "Lstat (eio env) (Name f) (disk_of s)")
  case (Inr info)
  then show ?thesis using assms checked_room_clears(1) [OF _ Inr assms(2, 3)]
    by (auto simp: handleSymlinkCheckExisting_def Let_def split: if_splits)
qed (use assms(1) in \<open>auto simp: handleSymlinkCheckExisting_def\<close>)

lemma handleSymlink_keeps:
  assumes "env_ok env" and "name_ok cfg (Name f)"
  shows "keeps (expendable env cfg) (disk_of s) (disk_of (handleSymlink env cfg f s))"
proof (cases "SymlinkTarget f = []")
  case False
  let ?link = "on_disk (inWritableDir (eio env) (createLink env cfg f) (Name f))"
  have link: "keeps loss (disk_of s1) (disk_of s2)" if "?link s1 = (err, s2)" for loss s1 err s2
  proof -
    have "\<forall>q e. files_at (disk_of s1) q = Some e \<longrightarrow> files_at (snd (inWritableDir (eio env) (createLink env cfg f) (Name f) (disk_of s1))) q = Some e"
      by (rule inWritableDir_files [where Q = "\<lambda>F. \<forall>q e. files_at (disk_of s1) q = Some e \<longrightarrow> F q = Some e"]) (use createLink_files in simp_all)
    then show ?thesis using on_disk_state [OF that] by (simp add: keeps_def)
  qed
  obtain err s1 where at: "and_then (handleSymlinkCheckExisting env cfg f) ?link s = (err, s1)" by fastforce
  then have "keeps (expendable env cfg) (disk_of s) (disk_of s1)"
    unfolding and_then_eq using handleSymlinkCheckExisting_clears [OF _ assms] clears_keeps keeps_trans link by blast
  then show ?thesis using False at by (simp add: handleSymlink_def split: option.split)
qed (simp add: handleSymlink_def)

lemma deleteDir_clears:
  assumes "env_ok env"
  shows "clears env cfg (disk_of s) (disk_of (deleteDir env cfg f s))"
proof (cases "dbFails env (Name f)")
  case False
  let ?cur = "cur_or_zero (deviceFile env (Name f))" and ?has = "deviceFile env (Name f) \<noteq> None"
  obtain err s1 where c: "checkToBeDeleted env cfg f ?cur ?has s = (err, s1)" by fastforce
  show ?thesis
  proof (cases err)
    case None
    have "?has \<longrightarrow> deviceFile env (Name f) = Some ?cur" by (auto simp: cur_or_zero_def)
    with checkToBeDeleted_passed [OF c [unfolded None] _ assms] have ok: "s1 = s" "may_lose (expendable env cfg) (disk_of s) (Name f)" by simp_all
    obtain err2 s2 where d: "deleteDirOnDisk env cfg (Name f) s = (err2, s2)" by fastforce
    then show ?thesis using deleteDirOnDisk_clears [OF d ok(2)] False c None ok by (simp add: deleteDir_def Let_def split: option.split)
  next
    case (Some e)
    then show ?thesis using checkToBeDeleted_disk [OF c] False c by (simp add: deleteDir_def Let_def)
  qed
qed (simp add: deleteDir_def)

lemma remove_file_clears:
  assumes "remove_file env cfg f cur s = (err, s')" and "may_lose (expendable env cfg) (disk_of s) (Name f)" "Name cur = Name f" and "env_ok env"
    and "cMaxConflicts cfg < 0 \<or> plain_name (Name f)"
  shows "clears env cfg (disk_of s) (disk_of s')"
proof (cases "InConflictWith f cur \<and> \<not> IsSymlink cur")
  case True
  then show ?thesis using assms moveForConflict_clears by (simp add: remove_file_def)
next
  case False
  then have "on_disk (inWritableDir (eio env) (fs_Remove (eio env)) (Name f)) s = (err, s') \<or>
      (\<exists>v. versioner env = Some v \<and> on_disk (inWritableDir (eio env) v (Name f)) s = (err, s'))"
    using assms(1) by (auto simp: remove_file_def split: if_splits option.splits)
  then show ?thesis using remove_clears [OF assms(2)] archive_clears [OF assms(4) _ assms(2)] by (auto dest!: on_disk_state)
qed

lemma deleteFileWithCurrent_clears:
  assumes "env_ok env" and "name_ok cfg (Name f)" and "has \<longrightarrow> deviceFile env (Name f) = Some cur"
  shows "clears env cfg (disk_of s) (disk_of (deleteFileWithCurrent env cfg f cur has s))"
proof -
  obtain err s1 where c: "checkToBeDeleted env cfg f cur has s = (err, s1)" by fastforce
  show ?thesis
  proof (cases err)
    case None
    from checkToBeDeleted_passed [OF c [unfolded None] assms(3, 1)]
    have ok: "s1 = s" "may_lose (expendable env cfg) (disk_of s) (Name f)" "Name cur = Name f" by simp_all
    obtain err2 s2 where d: "remove_file env cfg f cur s = (err2, s2)" by fastforce
    then show ?thesis using remove_file_clears [OF d ok(2, 3) assms(1)] assms(2) c None ok
      by (simp add: deleteFileWithCurrent_def Let_def name_ok_def)
  next
    case (Some e)
    then show ?thesis using checkToBeDeleted_disk [OF c] c by (simp add: deleteFileWithCurrent_def)
  qed
qed

lemma deleteFile_clears: "env_ok env \<Longrightarrow> name_ok cfg (Name f) \<Longrightarrow> clears env cfg (disk_of s) (disk_of (deleteFile env cfg f s))"
  by (auto simp: deleteFile_def Let_def cur_or_zero_def intro!: deleteFileWithCurrent_clears)

section \<open>Files\<close>

lemma free_temp: "name_ok cfg p \<Longrightarrow> free env (TempName h p)"
  using TempName_temporary by (simp add: name_ok_def free_def)

lemma same_but_clears: "same_but p d d' \<Longrightarrow> free env p \<Longrightarrow> clears env cfg d d'"
  by (auto simp: same_but_def clears_def)

lemma replace_existing_clears:
  assumes "replace_existing env cfg f cur has s = (err, s')" and "env_ok env" and "name_ok cfg (Name f)" and "cur = cur_or_zero (deviceFile env (Name f))"
    and "has = (deviceFile env (Name f) \<noteq> None) \<or> files_at (disk_of s) (Name f) = None \<or> free env (Name f)"
  shows "clears env cfg (disk_of s) (disk_of s')" and "err = None \<Longrightarrow> may_lose (expendable env cfg) (disk_of s') (Name f)"
proof -
  have "clears env cfg (disk_of s) (disk_of s') \<and> (err = None \<longrightarrow> may_lose (expendable env cfg) (disk_of s') (Name f))"
  proof (cases "Lstat (eio env) (Name f) (disk_of s)")
    case (Inl e)
    then show ?thesis using assms(1) Lstat_none [of "eio env" "Name f" "disk_of s"]
      by (auto simp: replace_existing_def may_lose_def split: if_splits)
  next
    case (Inr st)
    let ?c = "\<not> cUseLWWReconciler cfg \<and> \<not> IsDirectory cur \<and> \<not> IsSymlink cur \<and> InConflictWith f cur"
    have at: "and_then (scanIfItemChanged env cfg (Name f) st cur has False) (make_room env cfg ?c f cur) s = (err, s')"
      using assms(1) Inr by (simp add: replace_existing_def)
    show ?thesis
    proof (cases "has = (deviceFile env (Name f) \<noteq> None)")
      case True
      with checked_room_clears [OF at [unfolded True assms(4)] Inr assms(2, 3)] show ?thesis by blast
    next
      case False
      have lose: "may_lose (expendable env cfg) d (Name f)" if "clears env cfg (disk_of s) d" for d
        using False assms(5) clears_none [OF that, of "Name f"] free_may_lose [of env "Name f" cfg d] by (auto simp: may_lose_def)
      consider "disk_of s' = disk_of s" | s2 where "disk_of s2 = disk_of s" "make_room env cfg ?c f cur s2 = (err, s')" "scanIfItemChanged env cfg (Name f) st cur has False s = (None, s2)"
        using at unfolding and_then_eq by (metis scanIfItemChanged_disk)
      then have "clears env cfg (disk_of s) (disk_of s')"
      proof cases
        case 2
        then have "has" by (auto simp: scanIfItemChanged_def item_changed_def split: if_splits)
        then have "Name cur = []" using False assms(4) by (auto simp: cur_or_zero_def zero_file_def)
        then show ?thesis using make_room_clears [OF 2(2) _ assms(2)] 2(1) free_may_lose [of env "[]" cfg "disk_of s"]
          by (simp add: free_def plain_name_def)
      qed simp
      then show ?thesis using lose by blast
    qed
  qed
  then show "clears env cfg (disk_of s) (disk_of s')" "err = None \<Longrightarrow> may_lose (expendable env cfg) (disk_of s') (Name f)" by blast+
qed

lemma Chtimes_files: "q \<noteq> p \<Longrightarrow> files_at (fs_Chtimes p t d) q = files_at d q"
  by (simp add: fs_Chtimes_def change_files)

lemma performFinish_keeps:
  assumes "performFinish env cfg f cur has temp s = (err, s')" and "env_ok env" and "name_ok cfg (Name f)" and "cur = cur_or_zero (deviceFile env (Name f))"
    and "has = (deviceFile env (Name f) \<noteq> None) \<or> files_at (disk_of s) (Name f) = None \<or> free env (Name f)" and "free env temp"
  shows "keeps (expendable env cfg) (disk_of s) (disk_of s')"
proof -
  let ?meta = "on_disk (set_temp_metadata env cfg f temp)" and ?room = "replace_existing env cfg f cur has"
  have meta: "clears env cfg (disk_of s) (disk_of s1)" if "?meta s = (err1, s1)" for err1 s1
    using on_disk_state [OF that] same_but_clears [OF set_temp_metadata_same assms(6)] by simp
  have has1: "has = (deviceFile env (Name f) \<noteq> None) \<or> files_at (disk_of s1) (Name f) = None \<or> free env (Name f)" if "?meta s = (err1, s1)" for err1 s1
    using assms(5) clears_none [OF meta [OF that]] by blast
  have room: "clears env cfg (disk_of s) (disk_of s2) \<and> (err2 = None \<longrightarrow> may_lose (expendable env cfg) (disk_of s2) (Name f))"
    if "?meta s = (None, s1)" "?room s1 = (err2, s2)" for s1 s2 err2
    using replace_existing_clears [OF that(2) assms(2-4) has1 [OF that(1)]] clears_trans [OF meta [OF that(1)]] by blast
  have put: "keeps (expendable env cfg) (disk_of s2) d"
    if "may_lose (expendable env cfg) (disk_of s2) (Name f)" "\<forall>q. q \<noteq> temp \<longrightarrow> q \<noteq> Name f \<longrightarrow> files_at d q = files_at (disk_of s2) q" for s2 d
    unfolding keeps_def using that free_may_lose [OF assms(6), of cfg "disk_of s2"] unfolding may_lose_def by metis
  let ?put = "and_then (on_disk (RenameOrCopy (eio env) temp (Name f)))
      (\<lambda>s. (None, send_job f dbUpdateHandleFile (s\<lparr>disk_of := fs_Chtimes (Name f) (ModTime f) (disk_of s)\<rparr>)))"
  have away: "\<forall>q. q \<noteq> temp \<longrightarrow> q \<noteq> Name f \<longrightarrow> files_at (disk_of s3) q = files_at (disk_of s2) q" if "?put s2 = (err, s3)" for s2 s3
    using that RenameOrCopy_files [of "eio env" temp "Name f" "disk_of s2"] unfolding and_then_eq
    by (auto dest!: on_disk_state simp: Chtimes_files)
  have "and_then ?meta (and_then ?room ?put) s = (err, s')" using assms(1) by (simp only: performFinish_def)
  then consider "?meta s = (err, s')" | s1 where "?meta s = (None, s1)" "?room s1 = (err, s')"
    | s1 s2 where "?meta s = (None, s1)" "?room s1 = (None, s2)" "?put s2 = (err, s')"
    unfolding and_then_eq [of ?meta] and_then_eq [of ?room] by blast
  then show ?thesis
  proof cases
    case 1
    then show ?thesis using meta clears_keeps by blast
  next
    case 2
    then show ?thesis using room clears_keeps by blast
  next
    case 3
    then show ?thesis using room [OF 3(1, 2)] put [OF _ away [OF 3(3)]] clears_keeps keeps_trans by blast
  qed
qed

text \<open>Moving a file that may be lost onto a free path.\<close>

lemma move_to_temp_clears:
  assumes "move_to_temp env source temp s = (err, s')" and "env_ok env" and "free env temp"
    and lose: "may_lose (expendable env cfg) (disk_of s) (Name source)"
  shows "clears env cfg (disk_of s) (disk_of s')"
proof (cases "versioner env")
  case None
  then have "disk_of s' = snd (RenameOrCopy (eio env) (Name source) temp (disk_of s))"
    using assms(1) by (auto simp: move_to_temp_def dest!: on_disk_state)
  then show ?thesis using RenameOrCopy_files [of "eio env" "Name source" temp "disk_of s"] lose assms(3)
    by (auto simp: clears_def split: if_splits)
next
  case (Some v)
  let ?copy = "osutil_Copy (eio env) (Name source) temp"
  have copy: "clears env cfg (disk_of s) (snd (?copy (disk_of s)))"
    using Copy_files [of _ temp "eio env" "Name source" "disk_of s"] assms(3) unfolding clears_def by metis
  have "clears env cfg (snd (?copy (disk_of s))) (snd (inWritableDir (eio env) v (Name source) (snd (?copy (disk_of s)))))"
    by (rule archive_clears [OF assms(2) Some clears_may_lose [OF copy lose]])
  then show ?thesis using assms(1) Some copy clears_trans [OF copy]
    by (auto simp: move_to_temp_def and_then_eq dest!: on_disk_state split: if_splits)
qed

lemma check_target_disk: "check_target env cfg source target s = (err, s') \<Longrightarrow> disk_of s' = disk_of s"
  by (auto simp: check_target_def Let_def split: if_splits sum.splits option.splits)

lemma check_target_absent:
  assumes "check_target env cfg source target s = (None, s')" and "deviceFile env (Name target) = None" and "env_ok env"
  shows "files_at (disk_of s) (Name target) = None"
proof -
  from assms(1, 2) consider "Lstat (eio env) (Name target) (disk_of s) = Inl NotExistErr"
    | real where "Lstat (eio env) (Name target) (disk_of s) = Inl (CaseConflictErr real)"
    by (auto simp: check_target_def Let_def split: if_splits sum.splits)
  then show ?thesis
  proof cases
    case 1
    then show ?thesis by (rule Lstat_none)
  next
    case 2
    then obtain e where "eio env OpLstat (Name target) (disk_of s) = Some e" "fs_error_of e = CaseConflictErr real"
      by (auto simp: Lstat_def split: option.splits)
    then have "map_of (disk_of s) (Name target) = None" using assms(3) by (cases e) (auto simp: env_ok_def)
    then show ?thesis by (simp add: files_at_def)
  qed
qed

lemma renameFile_keeps:
  assumes "renameFile env cfg cur source target s = (err, s')" and "env_ok env" and "name_ok cfg (Name target)"
    and source: "Name source = Name cur \<and> deviceFile env (Name cur) = Some cur \<or> Name source = []"
  shows "keeps (expendable env cfg) (disk_of s) (disk_of s')"
proof -
  let ?temp = "TempName (nameHash env) (Name target)" and ?old = "cur_or_zero (deviceFile env (Name target))"
  have free: "free env ?temp" using assms(3) by (rule free_temp)
  have lose: "may_lose (expendable env cfg) (disk_of s) (Name source)" if "checkToBeDeleted env cfg source cur True s = (None, s1)" for s1
  proof (cases "Name source = []")
    case True
    then show ?thesis using free_may_lose by (simp add: free_def)
  next
    case False
    then show ?thesis using source checkToBeDeleted_passed [OF that _ assms(2)] by simp
  qed
  consider "disk_of s' = disk_of s"
    | s1 s2 where "may_lose (expendable env cfg) (disk_of s) (Name source)" "disk_of s1 = disk_of s" "check_target env cfg source target s1 = (None, s2)"
        "move_to_temp env source ?temp s2 = (err, s')"
    | s1 s2 s3 s4 where "may_lose (expendable env cfg) (disk_of s) (Name source)" "disk_of s1 = disk_of s" "check_target env cfg source target s1 = (None, s2)"
        "move_to_temp env source ?temp s2 = (None, s3)" "performFinish env cfg target ?old True ?temp s3 = (err, s4)" "disk_of s' = disk_of s4"
    using assms(1) lose unfolding renameFile_def and_then_eq
    by (smt (verit) checkToBeDeleted_disk check_target_disk prod.inject sends_disk(2))
  then show ?thesis
  proof cases
    case 2
    then show ?thesis using move_to_temp_clears [OF 2(4) assms(2) free] check_target_disk [OF 2(3)] clears_keeps by simp
  next
    case 3
    then have moved: "clears env cfg (disk_of s) (disk_of s3)"
      using move_to_temp_clears [OF 3(4) assms(2) free] check_target_disk [OF 3(3)] by simp
    have "True = (deviceFile env (Name target) \<noteq> None) \<or> files_at (disk_of s3) (Name target) = None \<or> free env (Name target)"
      using check_target_absent [OF 3(3) _ assms(2)] clears_none [OF moved] 3(2) by auto
    from performFinish_keeps [OF 3(5) assms(2, 3) refl this free] 3(6) show ?thesis
      using keeps_trans [OF clears_keeps [OF moved]] by simp
  qed simp
qed

section \<open>A whole pull\<close>

text \<open>
  The items to pull have names that are safe, and the tables hold what the database said: every candidate
  for a rename is the file known under its name, and every deletion stands under its own name.
\<close>

definition pull_ok :: "item_env \<Rightarrow> item_cfg \<Rightarrow> bool" where
  "pull_ok env cfg \<longleftrightarrow> env_ok env \<and> (\<forall>n f. globalFile env n = Some f \<longrightarrow> name_ok cfg (Name f))"

definition tables_ok :: "item_env \<Rightarrow> item_cfg \<Rightarrow> need_tables \<Rightarrow> bool" where
  "tables_ok env cfg t \<longleftrightarrow>
     (\<forall>key. \<forall>c \<in> set (candidates key t). deviceFile env (Name c) = Some c) \<and>
     (\<forall>(n, g) \<in> set (fileDeletions t). Name g = n \<and> name_ok cfg n)"

lemma no_tables_ok [simp]: "tables_ok env cfg no_tables"
  by (simp add: tables_ok_def no_tables_def candidates_def)

lemma candidates_put: "candidates key (t\<lparr>buckets := put k cs (buckets t)\<rparr>) = (if key = k then cs else candidates key t)"
  by (simp add: candidates_def)

lemma candidates_deletions [simp]:
  "candidates key (t\<lparr>fileDeletions := x\<rparr>) = candidates key t" "candidates key (t\<lparr>dirDeletions := y\<rparr>) = candidates key t"
  by (simp_all add: candidates_def)

lemma popCandidate_ok:
  assumes "popCandidate key t = (c, t')" and "tables_ok env cfg t"
  shows "tables_ok env cfg t' \<and> fileDeletions t' = fileDeletions t \<and> (\<forall>x. c = Some x \<longrightarrow> deviceFile env (Name x) = Some x)"
proof (cases "candidates key t")
  case Nil
  then show ?thesis using assms by (simp add: popCandidate_def)
next
  case (Cons x cs)
  then have "t' = t\<lparr>buckets := put key cs (buckets t)\<rparr>" "c = Some x" using assms(1) by (simp_all add: popCandidate_def)
  moreover have "\<forall>c \<in> set (x # cs). deviceFile env (Name c) = Some c" using assms(2) unfolding tables_ok_def Cons [symmetric] by blast
  ultimately show ?thesis using assms(2) by (simp add: tables_ok_def candidates_put)
qed

lemma desired_name:
  "tables_ok env cfg t \<Longrightarrow> Name (cur_or_zero (map_of (fileDeletions t) n)) = n \<or> Name (cur_or_zero (map_of (fileDeletions t) n)) = []"
  by (cases "map_of (fileDeletions t) n") (auto simp: tables_ok_def cur_or_zero_def zero_file_def dest!: map_of_SomeD)

lemma rename_loop_keeps:
  assumes "rename_loop env cfg fi n t s = (renamed, t', s')" and "tables_ok env cfg t" and "env_ok env" and "name_ok cfg (Name fi)"
  shows "tables_ok env cfg t' \<and> keeps (expendable env cfg) (disk_of s) (disk_of s')"
  using assms(1, 2)
proof (induction n arbitrary: t s)
  case (Suc n)
  obtain c t1 where pop: "popCandidate (BlocksHash fi) t = (c, t1)" by fastforce
  note popped = popCandidate_ok [OF pop Suc.prems(2)]
  show ?case
  proof (cases c)
    case None
    then show ?thesis using Suc.prems pop popped by simp
  next
    case (Some x)
    let ?src = "cur_or_zero (map_of (fileDeletions t1) (Name x))"
    obtain err s1 where r: "renameFile env cfg x ?src fi s = (err, s1)" by fastforce
    have "Name ?src = Name x \<and> deviceFile env (Name x) = Some x \<or> Name ?src = []" using desired_name popped Some by blast
    note one = renameFile_keeps [OF r assms(3, 4) this]
    show ?thesis
    proof (cases err)
      case None
      have "tables_ok env cfg (t1\<lparr>fileDeletions := del (Name x) (fileDeletions t1)\<rparr>)" using popped by (auto simp: tables_ok_def del_def)
      then show ?thesis using Suc.prems pop Some r None one by auto
    next
      case (Some e)
      then show ?thesis using Suc.IH [of t1 s1] Suc.prems pop \<open>c = Some x\<close> r one popped keeps_trans by auto
    qed
  qed
qed simp

lemma queued_file_keeps:
  assumes "queued_file env cfg n t s = Ok (t', s')" and "pull_ok env cfg" and "tables_ok env cfg t"
  shows "tables_ok env cfg t' \<and> keeps (expendable env cfg) (disk_of s) (disk_of s')"
proof (cases "globalFile env n")
  case (Some fi)
  have env: "env_ok env" "name_ok cfg (Name fi)" using assms(2) Some by (simp_all add: pull_ok_def)
  obtain ok s1 where p: "checkParent env cfg (Name fi) s = (ok, s1)" by fastforce
  note one = checkParent_keeps [OF p]
  obtain renamed t2 s2 where l: "rename_loop env cfg fi (Suc (length (candidates (BlocksHash fi) t))) t s1 = (renamed, t2, s2)"
    by (metis prod_cases3)
  have two: "tables_ok env cfg t2 \<and> keeps (expendable env cfg) (disk_of s) (disk_of s2)"
    using rename_loop_keeps [OF l assms(3) env] keeps_files(1) [OF one] by blast
  consider "t' = t" "disk_of s' = disk_of s" | "t' = t" "disk_of s' = disk_of s1" | "t' = t2" "disk_of s' = disk_of s2"
    using assms(1) Some p l by (auto simp: queued_file_def simp del: rename_loop.simps split: if_splits)
  then show ?thesis
  proof cases
    case 2
    then show ?thesis using assms(3) keeps_files(2) [OF one] by simp
  next
    case 3
    then show ?thesis using two by simp
  qed (simp add: assms(3))
next
  case None
  then show ?thesis using assms by (auto simp: queued_file_def split: if_splits)
qed

lemma need_deletion_keeps:
  assumes "need_deletion env cfg f t s = Ok (t', s')" and "env_ok env" and "name_ok cfg (Name f)" and "tables_ok env cfg t"
  shows "tables_ok env cfg t' \<and> keeps (expendable env cfg) (disk_of s) (disk_of s')"
proof -
  have whole: "keeps (expendable env cfg) (disk_of s) (disk_of (deleteFile env cfg f s))"
    using deleteFile_clears [OF assms(2, 3)] by (rule clears_keeps)
  have current: "keeps (expendable env cfg) (disk_of s) (disk_of (deleteFileWithCurrent env cfg f cur has s))" if "has \<longrightarrow> deviceFile env (Name f) = Some cur" for cur has
    using deleteFileWithCurrent_clears [OF assms(2, 3) that] by (rule clears_keeps)
  have "tables_ok env cfg (t\<lparr>dirDeletions := dirDeletions t @ [f]\<rparr>)" using assms(4) by (simp add: tables_ok_def)
  moreover have "tables_ok env cfg (t\<lparr>fileDeletions := put (Name f) f (fileDeletions t), buckets := put (BlocksHash df) (candidates (BlocksHash df) t @ [df]) (buckets t)\<rparr>)"
    if "deviceFile env (Name f) = Some df" for df
  proof -
    have "Name df = Name f" using assms(2) that by (simp add: env_ok_def)
    moreover have "candidates key (t\<lparr>fileDeletions := put (Name f) f (fileDeletions t), buckets := put (BlocksHash df) (candidates (BlocksHash df) t @ [df]) (buckets t)\<rparr>) =
        (if key = BlocksHash df then candidates (BlocksHash df) t @ [df] else candidates key t)" for key
      by (simp add: candidates_def)
    ultimately show ?thesis using assms(3, 4) that by (auto simp: tables_ok_def put_def)
  qed
  ultimately show ?thesis using assms(1, 4) whole current
    by (auto simp: need_deletion_def split: if_splits option.splits)
qed

text \<open>Whether only the metadata of a file is taken over, without looking at what is on the disk.\<close>

definition takes_shortcut :: "item_env \<Rightarrow> FileInfo \<Rightarrow> bool" where
  "takes_shortcut env f \<longleftrightarrow> (case deviceFile env (Name f) of Some cur \<Rightarrow> BlocksEqual f cur | None \<Rightarrow> False)"

text \<open>That changes only this path.\<close>

lemma write_trailer_same:
  assumes "env_ok env"
  shows "same_but p d (snd (write_trailer env f p d))"
proof (cases "map_of d p")
  case (Some e)
  show ?thesis
  proof (cases "trailer env f e")
    case (Inr x)
    obtain n e' where x: "x = (n, e')" by fastforce
    have "sIsDir (estat e') = sIsDir (estat e)" using assms Inr x by (simp add: env_ok_def)
    then show ?thesis using Some Inr x by (auto simp: write_trailer_def same_but_def is_dir_put) (simp_all add: is_dir_def)
  qed (simp add: write_trailer_def Some)
qed (simp add: write_trailer_def)

lemma inWritableDir_same:
  assumes "\<And>d. same_but p d (snd (fn p d))" and "q \<noteq> p"
  shows "files_at (snd (inWritableDir io fn p d)) q = files_at d q"
proof (rule inWritableDir_files [where Q = "\<lambda>F. F q = files_at d q"])
  fix d' assume "files_at d' = files_at d"
  then show "files_at (snd (fn p d')) q = files_at d q \<and> tame d' (snd (fn p d'))"
    using assms(1) [of d'] assms(2) same_but_tame [OF assms(1)] by (simp add: same_but_def)
qed simp

lemma shortcutFile_other:
  assumes "env_ok env" and "q \<noteq> Name f"
  shows "files_at (disk_of (shortcutFile env cfg f s)) q = files_at (disk_of s) q"
proof -
  have meta: "files_at (snd (set_temp_metadata env cfg f (Name f) d)) q = files_at d q" for d
    using set_temp_metadata_same assms(2) by (simp add: same_but_def)
  have trail: "files_at (snd (inWritableDir (eio env) (write_trailer env f) (Name f) d)) q = files_at d q" for d
    using inWritableDir_same [of "Name f" "write_trailer env f" q] write_trailer_same [OF assms(1)] assms(2) by blast
  have times: "files_at (fs_Chtimes (Name f) t d) q = files_at d q" for t d
    using assms(2) by (simp add: fs_Chtimes_def change_files)
  show ?thesis
    using meta [of "disk_of s"] trail
    by (auto simp: shortcutFile_def Let_def on_disk_def queue_done_def newPullError_def send_job_def times
        split: prod.splits option.splits) (metis snd_conv)+
qed

text \<open>The files whose metadata alone may be taken over are lost sight of, too.\<close>

definition exempt :: "item_env \<Rightarrow> item_cfg \<Rightarrow> string set \<Rightarrow> string \<Rightarrow> entry \<Rightarrow> bool" where
  "exempt env cfg metadata p e \<longleftrightarrow> expendable env cfg p e \<or> p \<in> metadata"

lemma keeps_exempt: "keeps (expendable env cfg) d d' \<Longrightarrow> keeps (exempt env cfg metadata) d d'"
  unfolding keeps_def exempt_def by blast

lemma shortcutFile_keeps:
  "env_ok env \<Longrightarrow> Name f \<in> metadata \<Longrightarrow> keeps (exempt env cfg metadata) (disk_of s) (disk_of (shortcutFile env cfg f s))"
  unfolding keeps_def exempt_def by (metis shortcutFile_other)

lemma need_item_keeps:
  assumes "need_item env cfg f t s = Ok (t', s')" and "env_ok env" and "name_ok cfg (Name f)" and "tables_ok env cfg t"
    and "Type f = FileInfoTypeFile \<and> takes_shortcut env f \<longrightarrow> Name f \<in> metadata"
  shows "tables_ok env cfg t' \<and> keeps (exempt env cfg metadata) (disk_of s) (disk_of s')"
proof -
  obtain ok s1 where p: "checkParent env cfg (Name f) s = (ok, s1)" by fastforce
  obtain err s2 where l: "handleSymlinkCheckExisting env cfg f s = (err, s2)" by fastforce
  have parent: "keeps (expendable env cfg) (disk_of s) d = keeps (expendable env cfg) (disk_of s1) d" for d
    using keeps_files(1) [OF checkParent_keeps [OF p]] by metis
  have link: "keeps (expendable env cfg) (disk_of s) (disk_of s2)"
    using handleSymlinkCheckExisting_clears [OF l assms(2, 3)] by (rule clears_keeps)
  have short: "t' = t \<and> (disk_of s' = disk_of s \<or> s' = shortcutFile env cfg f s) \<or> need_deletion env cfg f t s = Ok (t', s')"
    if sc: "Type f = FileInfoTypeFile" "takes_shortcut env f"
    using assms(1) sc by (auto simp: need_item_def need_file_def takes_shortcut_def send_job_def newPullError_def split: if_splits option.splits)
  consider "t' = t" "disk_of s' = disk_of s" | "need_deletion env cfg f t s = Ok (t', s')" | "t' = t" "disk_of s' = disk_of s2"
    | "t' = t" "s' = s1" | "t' = t" "s' = handleDir env cfg f s1" | "t' = t" "s' = handleSymlink env cfg f s1"
    | "t' = t" "s' = shortcutFile env cfg f s" "Name f \<in> metadata"
  proof (cases "Type f = FileInfoTypeFile \<and> takes_shortcut env f")
    case True
    then show ?thesis using that(1, 2, 7) short assms(5) by blast
  next
    case False
    then show ?thesis using assms(1) p l that(1-6)
      by (fastforce simp: need_item_def need_file_def takes_shortcut_def split: if_splits option.splits)
  qed
  then show ?thesis
  proof cases
    case 2
    then show ?thesis using need_deletion_keeps assms(2-4) keeps_exempt by blast
  next
    case 5
    then show ?thesis using handleDir_keeps [OF assms(2, 3)] parent keeps_exempt assms(4) by blast
  next
    case 6
    then show ?thesis using handleSymlink_keeps [OF assms(2, 3)] parent keeps_exempt assms(4) by blast
  next
    case 7
    then show ?thesis using shortcutFile_keeps [OF assms(2)] assms(4) by simp
  qed (use assms(4) keeps_exempt [OF link] parent [of "disk_of s1"] keeps_exempt in simp_all)
qed

lemma finish_file_keeps:
  assumes "env_ok env" and "name_ok cfg (Name f)"
  shows "keeps (expendable env cfg) (disk_of s) (disk_of (finish_file env cfg f (cur_or_zero (deviceFile env (Name f))) (deviceFile env (Name f) \<noteq> None) err s))"
proof (cases err)
  case None
  obtain err2 s2 where p: "performFinish env cfg f (cur_or_zero (deviceFile env (Name f))) (deviceFile env (Name f) \<noteq> None) (TempName (nameHash env) (Name f)) (queue_done (Name f) s) = (err2, s2)"
    by fastforce
  from performFinish_keeps [OF p assms refl _ free_temp [OF assms(2)]] have "keeps (expendable env cfg) (disk_of s) (disk_of s2)" by simp
  then show ?thesis using None p by (simp add: finish_file_def Let_def split: option.split)
qed (simp add: finish_file_def Let_def)

text \<open>
  The steps of a pull: an item of the list of needed items, a file from the queue, writing a temporary file,
  a file whose blocks are complete, and the deletions that were put off.  The items to copy are worked on
  concurrently, so steps of different items come in any order.  The parameter \<open>metadata\<close> has the names
  of the files of which only metadata is taken over, because they have the blocks of the database.
\<close>

inductive item_step :: "item_env \<Rightarrow> item_cfg \<Rightarrow> string set \<Rightarrow> need_tables \<times> item_state \<Rightarrow> need_tables \<times> item_state \<Rightarrow> bool"
  for env :: item_env and cfg :: item_cfg and metadata :: "string set" where
  needs: "name_ok cfg (Name f) \<Longrightarrow> Type f = FileInfoTypeFile \<and> takes_shortcut env f \<longrightarrow> Name f \<in> metadata \<Longrightarrow> need_item env cfg f t s = Ok (t', s') \<Longrightarrow>
     item_step env cfg metadata (t, s) (t', s')"
| pops: "item_step env cfg metadata (t, s) (t, s\<lparr>queue := q\<rparr>)"
| queues: "queued_file env cfg n t s = Ok (t', s') \<Longrightarrow> item_step env cfg metadata (t, s) (t', s')"
| writes: "name_ok cfg n \<Longrightarrow> same_but (TempName (nameHash env) n) (disk_of s) d \<Longrightarrow> item_step env cfg metadata (t, s) (t, s\<lparr>disk_of := d\<rparr>)"
| finishes: "name_ok cfg (Name f) \<Longrightarrow>
     item_step env cfg metadata (t, s) (t, finish_file env cfg f (cur_or_zero (deviceFile env (Name f))) (deviceFile env (Name f) \<noteq> None) err s)"
| deletes_file: "(n, f) \<in> set (fileDeletions t) \<Longrightarrow> item_step env cfg metadata (t, s) (t, deleteFile env cfg f s)"
| deletes_dir: "f \<in> set (dirDeletions t) \<Longrightarrow> item_step env cfg metadata (t, s) (t, deleteDir env cfg f s)"

lemma item_step_keeps:
  assumes "item_step env cfg metadata x y" and "pull_ok env cfg" and "tables_ok env cfg (fst x)"
  shows "tables_ok env cfg (fst y) \<and> keeps (exempt env cfg metadata) (disk_of (snd x)) (disk_of (snd y))"
proof -
  have env: "env_ok env" using assms(2) by (simp add: pull_ok_def)
  from assms(1, 3) show ?thesis
  proof (cases rule: item_step.cases)
    case (needs f t s t' s')
    then show ?thesis using need_item_keeps [OF needs(5) env needs(3) _ needs(4)] assms(3) by simp
  next
    case (queues n t s t' s')
    then show ?thesis using queued_file_keeps [OF queues(3) assms(2)] assms(3) keeps_exempt by simp
  next
    case (writes n s d t)
    then show ?thesis using keeps_exempt [OF clears_keeps [OF same_but_clears [OF writes(4) free_temp [OF writes(3)]]]] assms(3) by simp
  next
    case (deletes_file n f t s)
    then have "name_ok cfg (Name f)" using assms(3) by (auto simp: tables_ok_def)
    then show ?thesis using deletes_file assms(3) keeps_exempt [OF clears_keeps [OF deleteFile_clears [OF env]]] by simp
  qed (use assms(3) keeps_exempt [OF finish_file_keeps [OF env]] keeps_exempt [OF clears_keeps [OF deleteDir_clears [OF env]]] in simp_all)
qed

lemma item_steps_keep:
  assumes "(item_step env cfg metadata)\<^sup>*\<^sup>* x y" and "pull_ok env cfg" and "tables_ok env cfg (fst x)"
  shows "tables_ok env cfg (fst y) \<and> keeps (exempt env cfg metadata) (disk_of (snd x)) (disk_of (snd y))"
  using assms(1, 3)
proof (induction rule: rtranclp_induct)
  case (step y z)
  then show ?case using item_step_keeps [OF step(2) assms(2)] keeps_trans by blast
qed simp

text \<open>The loops over the needed items, the queue and the deletions are made of these steps.\<close>

lemma need_loop_steps:
  "need_loop env cfg fs t s = Ok (t', s') \<Longrightarrow> \<forall>f \<in> set fs. name_ok cfg (Name f) \<and> (Type f = FileInfoTypeFile \<and> takes_shortcut env f \<longrightarrow> Name f \<in> metadata) \<Longrightarrow>
   (item_step env cfg metadata)\<^sup>*\<^sup>* (t, s) (t', s')"
proof (induction fs arbitrary: t s)
  case (Cons f fs)
  then obtain t1 s1 where one: "need_item env cfg f t s = Ok (t1, s1)" "need_loop env cfg fs t1 s1 = Ok (t', s')"
    by auto
  have "item_step env cfg metadata (t, s) (t1, s1)" using Cons.prems(2) one(1) by (auto intro: needs)
  then show ?case using Cons.IH [OF one(2)] Cons.prems(2) by (auto intro: converse_rtranclp_into_rtranclp)
qed simp

lemma queue_loop_steps: "queue_loop env cfg n t s = Ok (t', s') \<Longrightarrow> (item_step env cfg metadata)\<^sup>*\<^sup>* (t, s) (t', s')"
proof (induction n arbitrary: t s)
  case (Suc n)
  obtain name q where pop: "Pop (queue s) = (name, q)" by fastforce
  have first: "item_step env cfg metadata (t, s) (t, s\<lparr>queue := q\<rparr>)" by (rule pops)
  show ?case
  proof (cases name)
    case None
    then show ?thesis using Suc.prems pop first by auto
  next
    case (Some nm)
    then obtain t1 s1 where one: "queued_file env cfg nm t (s\<lparr>queue := q\<rparr>) = Ok (t1, s1)" "queue_loop env cfg n t1 s1 = Ok (t', s')"
      using Suc.prems pop by auto
    show ?thesis using first queues [OF one(1)] Suc.IH [OF one(2)] by (meson converse_rtranclp_into_rtranclp)
  qed
qed simp

lemma deletions_steps:
  "set fs \<subseteq> set (fileDeletions t) \<Longrightarrow> (item_step env cfg metadata)\<^sup>*\<^sup>* (t, s) (t, fold (\<lambda>(n, f) s. deleteFile env cfg f s) fs s)"
  "set ds \<subseteq> set (dirDeletions t) \<Longrightarrow> (item_step env cfg metadata)\<^sup>*\<^sup>* (t, s) (t, fold (\<lambda>f s. deleteDir env cfg f s) ds s)"
proof -
  show "set fs \<subseteq> set (fileDeletions t) \<Longrightarrow> (item_step env cfg metadata)\<^sup>*\<^sup>* (t, s) (t, fold (\<lambda>(n, f) s. deleteFile env cfg f s) fs s)"
    by (induction fs arbitrary: s) (auto intro: converse_rtranclp_into_rtranclp deletes_file)
  show "set ds \<subseteq> set (dirDeletions t) \<Longrightarrow> (item_step env cfg metadata)\<^sup>*\<^sup>* (t, s) (t, fold (\<lambda>f s. deleteDir env cfg f s) ds s)"
    by (induction ds arbitrary: s) (auto intro: converse_rtranclp_into_rtranclp deletes_dir)
qed

lemma processNeeded_steps:
  assumes "processNeeded env cfg needed s = Ok (t, s')"
    and "\<forall>f \<in> set needed. name_ok cfg (Name f) \<and> (Type f = FileInfoTypeFile \<and> takes_shortcut env f \<longrightarrow> Name f \<in> metadata)"
  shows "(item_step env cfg metadata)\<^sup>*\<^sup>* (no_tables, s) (t, s')"
proof -
  obtain t1 s1 where "need_loop env cfg needed no_tables s = Ok (t1, s1)" "queue_loop env cfg (length (queued (queue s1))) t1 s1 = Ok (t, s')"
    using assms(1) by (auto simp: processNeeded_def)
  then show ?thesis using need_loop_steps [OF _ assms(2)] queue_loop_steps by (meson rtranclp_trans)
qed

lemma processDeletions_steps: "(item_step env cfg metadata)\<^sup>*\<^sup>* (t, s) (t, processDeletions env cfg t s)"
  unfolding processDeletions_def
  using deletions_steps(1) [of "fileDeletions t" t env cfg metadata s] deletions_steps(2) [of "rev (dirDeletions t)" t env cfg metadata] by (auto intro: rtranclp_trans)

text \<open>
  C3: While items are pulled, in any order of the steps, every file and link on the disk stays as it is
  unless its path is free (a temporary file, a conflict copy, an internal file, deletable by the ignore
  patterns), the database knows the entry just so, or it is one of the files of which only the metadata
  is taken over: these are changed in place without a check.  Any other change that was not scanned is
  never overwritten, renamed or deleted.  The names of the items are safe, and have none of the special
  characters of a glob when the number of conflict copies is limited; the versioner takes away only
  the file it is given.
\<close>

theorem pulling_keeps_unscanned_changes:
  assumes "pull_ok env cfg" and "(item_step env cfg metadata)\<^sup>*\<^sup>* (no_tables, s) (t, s')"
    and "files_at (disk_of s) p = Some e" and "\<not> free env p" and "\<not> known env cfg p e" and "p \<notin> metadata"
  shows "files_at (disk_of s') p = Some e"
  using item_steps_keep [OF assms(2, 1)] assms(3-6) by (auto simp: keeps_def exempt_def expendable_def)

definition sample_item_env :: "FileInfo \<Rightarrow> item_env" where
  "sample_item_env f =
     \<lparr>eio = no_failures, deviceFile = (\<lambda>n. if n = Name f then Some f else None), globalFile = (\<lambda>n. None), dbFails = (\<lambda>n. False), imatch = (\<lambda>n. 0),
      versioner = None, stamp = ''20240101-000000'', space = (\<lambda>n. True), hasDevices = (\<lambda>f. True), nameHash = (\<lambda>s. []), setXattr = (\<lambda>x p. p),
      setOwner = (\<lambda>f p. p), parentOwner = (\<lambda>p. p), trailer = (\<lambda>f e. Inr (0, e))\<rparr>"

definition sample_item_cfg :: item_cfg where
  "sample_item_cfg =
     \<lparr>cOs = GoLinux, cAndroid = False, cType = FolderTypeSendReceive, cIgnorePerms = False, cIgnoreDelete = False, cSyncOwnership = False,
      cSyncXattrs = False, cCopyOwnershipFromParent = False, cModTimeWindow = 0, cUseLWWReconciler = False, cMaxConflicts = 10\<rparr>"

definition sample_item_state :: "disk \<Rightarrow> item_state" where
  "sample_item_state d = \<lparr>disk_of = d, jobs = [], scans = [], tempPullErrors = [], queue = newJobQueue, copies = []\<rparr>"

text \<open>The database has five bytes under the name, the disk one: a new version from elsewhere does not replace it.\<close>

theorem pulling_keeps_unscanned_changes_witness:
  "files_at (disk_of (finish_file (sample_item_env ((zero_file ''a'')\<lparr>Size := 5\<rparr>)) sample_item_cfg ((zero_file ''a'')\<lparr>Size := 9\<rparr>) ((zero_file ''a'')\<lparr>Size := 5\<rparr>) True None
     (sample_item_state [(''a'', plain_entry), (''.syncthing.a.tmp'', plain_entry)]))) ''a'' = Some plain_entry"
proof -
  let ?env = "sample_item_env ((zero_file ''a'')\<lparr>Size := 5\<rparr>)" and ?f = "(zero_file ''a'')\<lparr>Size := 9\<rparr>"
  let ?s = "sample_item_state [(''a'', plain_entry), (''.syncthing.a.tmp'', plain_entry)]"
  have db: "deviceFile ?env (Name ?f) = Some ((zero_file ''a'')\<lparr>Size := 5\<rparr>)" by (simp add: sample_item_env_def zero_file_def)
  have name: "name_ok sample_item_cfg (Name ?f)" by code_simp
  have "item_step ?env sample_item_cfg {} (no_tables, ?s) (no_tables, finish_file ?env sample_item_cfg ?f ((zero_file ''a'')\<lparr>Size := 5\<rparr>) True None ?s)"
    using finishes [OF name, of ?env "{}" no_tables ?s None] unfolding db by (simp add: cur_or_zero_def)
  then have steps: "(item_step ?env sample_item_cfg {})\<^sup>*\<^sup>* (no_tables, ?s) (no_tables, finish_file ?env sample_item_cfg ?f ((zero_file ''a'')\<lparr>Size := 5\<rparr>) True None ?s)"
    by simp
  have ok: "pull_ok ?env sample_item_cfg" by (auto simp: pull_ok_def env_ok_def sample_item_env_def no_failures_def slash_def split: if_splits)
  have "files_at (disk_of ?s) ''a'' = Some plain_entry" by code_simp
  moreover have "\<not> free ?env ''a''" by code_simp
  moreover have "\<not> known ?env sample_item_cfg ''a'' plain_entry" by code_simp
  ultimately show ?thesis using pulling_keeps_unscanned_changes [OF ok steps] by blast
qed

text \<open>
  C36: Taking over metadata hides a local change.  When the remote version of a file has the blocks of the
  database, then whatever bytes and times the file on the disk has, it gets the remote time and keeps
  its bytes, the database is to get the remote version, and neither an error nor a scan is asked
  for; attributes and ownership are not synchronised here, and no operation of the disk fails.
\<close>

theorem shortcut_hides_local_change:
  assumes "\<not> dbFails env (Name f)" and "takes_shortcut env f" and "eio env = no_failures"
    and "cType cfg \<noteq> FolderTypeReceiveEncrypted"
    and "\<not> cSyncXattrs cfg" and "\<not> cSyncOwnership cfg" and "\<not> cCopyOwnershipFromParent cfg"
    and "files_at (disk_of s) (Name f) = Some e"
  shows "\<exists>s' e'. need_file env cfg f s = Ok s' \<and> files_at (disk_of s') (Name f) = Some e' \<and>
    edata e' = edata e \<and> sSize (estat e') = sSize (estat e) \<and> sModTime (estat e') = ModTime f \<and>
    jobs s' = jobs s @ [(f, dbUpdateShortcutFile)] \<and> scans s' = scans s \<and> tempPullErrors s' = tempPullErrors s"
proof -
  have e: "map_of (disk_of s) (Name f) = Some e" using assms(8) by (auto simp: files_at_def split: if_splits)
  have dir: "\<not> sIsDir (estat e)" using assms(8) e by (auto simp: files_at_def is_dir_def split: if_splits)
  let ?chmod = "\<lambda>x. x\<lparr>estat := (estat x)\<lparr>sMode := Permissions f AND 0x1FF\<rparr>\<rparr>"
  define e1 where "e1 = (if \<not> cIgnorePerms cfg \<and> \<not> NoPermissions f then ?chmod e else e)"
  have meta: "fst (set_temp_metadata env cfg f (Name f) (disk_of s)) = None"
      "files_at (snd (set_temp_metadata env cfg f (Name f) (disk_of s))) (Name f) = Some e1"
    using assms(3, 5-8) e dir
    by (auto simp: set_temp_metadata_def and_then_def setPlatformData_def set_xattrs_def fs_Chmod_def attempt_def no_failures_def
        change_def e1_def split: prod.splits)
  let ?d = "snd (set_temp_metadata env cfg f (Name f) (disk_of s))"
  have sc: "shortcutFile env cfg f s = send_job f dbUpdateShortcutFile ((queue_done (Name f) s)\<lparr>disk_of := fs_Chtimes (Name f) (ModTime f) ?d\<rparr>)"
    using meta(1) assms(4)
    by (cases "set_temp_metadata env cfg f (Name f) (disk_of s)") (simp add: shortcutFile_def Let_def on_disk_def queue_done_def)
  have "files_at (fs_Chtimes (Name f) (ModTime f) ?d) (Name f) = Some (e1\<lparr>estat := (estat e1)\<lparr>sModTime := ModTime f\<rparr>\<rparr>)"
    using meta(2) by (simp add: fs_Chtimes_def change_files)
  then show ?thesis
    using assms(1, 2) sc
    by (auto simp: need_file_def takes_shortcut_def send_job_def queue_done_def e1_def split: option.splits)
qed

text \<open>A change that a check against the database would find.\<close>

definition edited_entry :: entry where
  "edited_entry = plain_entry\<lparr>edata := [9], estat := (estat plain_entry)\<lparr>sModTime := time_Unix 150 0\<rparr>\<rparr>"

definition database_file :: FileInfo where
  "database_file = (zero_file ''a'')\<lparr>Size := 1, ModifiedS := 100, BlocksHash := [1], Permissions := 0x1A4\<rparr>"

theorem shortcut_hides_local_change_witness:
  "item_changed (sample_item_env database_file) sample_item_cfg [(''a'', edited_entry)] (estat edited_entry) database_file True False = Some errModified \<and>
   (\<exists>s' e'. need_file (sample_item_env database_file) sample_item_cfg (database_file\<lparr>ModifiedS := 200\<rparr>) (sample_item_state [(''a'', edited_entry)]) = Ok s' \<and>
     files_at (disk_of s') ''a'' = Some e' \<and> edata e' = [9] \<and> scans s' = [] \<and> tempPullErrors s' = [] \<and>
     jobs s' = [(database_file\<lparr>ModifiedS := 200\<rparr>, dbUpdateShortcutFile)])"
proof -
  let ?f = "database_file\<lparr>ModifiedS := 200\<rparr>" and ?s = "sample_item_state [(''a'', edited_entry)]" and ?env = "sample_item_env database_file"
  have changed: "item_changed ?env sample_item_cfg [(''a'', edited_entry)] (estat edited_entry) database_file True False = Some errModified"
    by code_simp
  have simps: "Name ?f = ''a''" "edata edited_entry = [9]" "jobs ?s = []" "scans ?s = []" "tempPullErrors ?s = []"
    by (simp_all add: database_file_def zero_file_def edited_entry_def sample_item_state_def)
  have on: "files_at (disk_of ?s) (Name ?f) = Some edited_entry" by code_simp
  have short: "takes_shortcut ?env ?f" by code_simp
  have "\<exists>s' e'. need_file ?env sample_item_cfg ?f ?s = Ok s' \<and> files_at (disk_of s') (Name ?f) = Some e' \<and>
      edata e' = edata edited_entry \<and> sSize (estat e') = sSize (estat edited_entry) \<and> sModTime (estat e') = ModTime ?f \<and>
      jobs s' = jobs ?s @ [(?f, dbUpdateShortcutFile)] \<and> scans s' = scans ?s \<and> tempPullErrors s' = tempPullErrors ?s"
    by (rule shortcut_hides_local_change [OF _ short _ _ _ _ _ on]) (simp_all add: sample_item_env_def sample_item_cfg_def)
  then show ?thesis using changed unfolding simps by auto
qed

text \<open>
  The file last received is reported for more than files: the test is a bit mask over consecutive numbers, so removed directories and
  symbolic links count too, and only directories and metadata do not.
\<close>

theorem received_mask_is_too_wide:
  "counts_as_received f t \<longleftrightarrow> \<not> IsInvalid f \<and> t \<notin> {dbUpdateHandleDir, dbUpdateShortcutFile}"
  by (cases t) (simp_all add: counts_as_received_def)

end
