(* ===== verification/Folder_State.thy ===== *)
theory Folder_State
  imports BEP_Messages
begin

text \<open>
  The state of a folder, \<^verbatim>\<open>lib/model/folderstate.go\<close>, and the loop of its service in
  \<^verbatim>\<open>lib/model/folder.go\<close>: when it pulls and scans, what it shows meanwhile, and how long it waits after a failure.

  The work itself is an outcome from outside; \<^verbatim>\<open>Scan_Folder\<close> and \<^verbatim>\<open>Item_Pull\<close> model it.
  Durations are integers, in nanoseconds; times of changes, events and logging are left out.
\<close>

section \<open>States\<close>

datatype folderState = FolderIdle | FolderScanning | FolderScanWaiting | FolderSyncWaiting | FolderSyncPreparing | FolderSyncing
  | FolderCleaning | FolderCleanWaiting | FolderError | FolderStarting

fun folderState_String :: "folderState \<Rightarrow> string" where
  "folderState_String FolderIdle = ''idle''"
| "folderState_String FolderStarting = ''starting''"
| "folderState_String FolderScanning = ''scanning''"
| "folderState_String FolderScanWaiting = ''scan-waiting''"
| "folderState_String FolderSyncWaiting = ''sync-waiting''"
| "folderState_String FolderSyncPreparing = ''sync-preparing''"
| "folderState_String FolderSyncing = ''syncing''"
| "folderState_String FolderCleaning = ''cleaning''"
| "folderState_String FolderCleanWaiting = ''clean-waiting''"
| "folderState_String FolderError = ''error''"

datatype remoteFolderState = remoteFolderUnknown | remoteFolderNotSharing | remoteFolderPaused | remoteFolderValid

fun remoteFolderState_String :: "remoteFolderState \<Rightarrow> string" where
  "remoteFolderState_String remoteFolderUnknown = ''unknown''"
| "remoteFolderState_String remoteFolderNotSharing = ''notSharing''"
| "remoteFolderState_String remoteFolderPaused = ''paused''"
| "remoteFolderState_String remoteFolderValid = ''valid''"

record stateTracker =
  current :: folderState
  folderErr :: "string option"

definition newStateTracker :: stateTracker where
  "newStateTracker = \<lparr>current = FolderIdle, folderErr = None\<rparr>"

definition setState :: "folderState \<Rightarrow> stateTracker \<Rightarrow> (string, stateTracker) outcome" where
  "setState new t = (if new = FolderError then Panic else if new = current t then Ok t else Ok (t\<lparr>current := new\<rparr>))"

definition getState :: "stateTracker \<Rightarrow> folderState \<times> string option" where
  "getState t = (current t, folderErr t)"

definition tracker_setError :: "string option \<Rightarrow> stateTracker \<Rightarrow> stateTracker" where
  "tracker_setError err t = t\<lparr>current := (if err \<noteq> None then FolderError else FolderIdle), folderErr := err\<rparr>"

section \<open>The folder\<close>

record folder_service_cfg =
  vSendOnly :: bool
  vFSWatcher :: bool
  vPullerDelay :: bool
  vPullerPauseS :: int

record folder_service =
  tracker :: stateTracker
  pullScheduled :: bool
  watching :: bool
  watchRestart :: bool
  pullPause :: int
  pullFailTimer :: "int option"
  pullErrorsShown :: bool

definition second :: int where "second = 1000000000"
definition defaultPullerPause :: int where "defaultPullerPause = 60 * second"

text \<open>A \<open>time.Duration\<close> is a 64-bit integer: its arithmetic wraps.\<close>

definition pullBasePause :: "folder_service_cfg \<Rightarrow> int" where
  "pullBasePause cfg = (if vPullerPauseS cfg = 0 then defaultPullerPause else int64 (vPullerPauseS cfg * second))"

definition SchedulePull :: "folder_service \<Rightarrow> folder_service" where
  "SchedulePull f = f\<lparr>pullScheduled := True\<rparr>"

text \<open>A state other than the error state.\<close>

definition show_state :: "folderState \<Rightarrow> folder_service \<Rightarrow> folder_service" where
  "show_state st f = (case setState st (tracker f) of Ok t \<Rightarrow> f\<lparr>tracker := t\<rparr> | _ \<Rightarrow> f)"

definition folder_setError :: "folder_service_cfg \<Rightarrow> string option \<Rightarrow> folder_service \<Rightarrow> folder_service" where
  "folder_setError cfg err f =
     (let oldErr = snd (getState (tracker f))
      in if err = oldErr then f
         else
           let f = (if err = None then SchedulePull f else f);
               f = (if vFSWatcher cfg then (if err \<noteq> None then f\<lparr>watching := False\<rparr> else f\<lparr>watchRestart := True\<rparr>) else f)
           in f\<lparr>tracker := tracker_setError err (tracker f)\<rparr>)"

text \<open>The rounds of a pull: it is over when a round changes nothing, after three rounds, or with an error.\<close>

definition maxPullerIterations :: nat where "maxPullerIterations = 3"

fun pull_rounds :: "nat \<Rightarrow> nat \<Rightarrow> (nat \<Rightarrow> string + int) \<Rightarrow> int \<Rightarrow> string + int" where
  "pull_rounds 0 tries rounds made = Inr made"
| "pull_rounds (Suc n) tries rounds made =
     (case rounds tries of
        Inl e \<Rightarrow> Inl e
      | Inr c \<Rightarrow> if c = 0 then Inr 0 else pull_rounds n (Suc tries) rounds c)"

definition sendReceive_pull :: "(nat \<Rightarrow> string + int) \<Rightarrow> nat \<Rightarrow> bool \<times> string option" where
  "sendReceive_pull rounds pullErrNum =
     (case pull_rounds maxPullerIterations 0 rounds 0 of
        Inl e \<Rightarrow> (False, Some e)
      | Inr made \<Rightarrow> (made = 0 \<and> pullErrNum = 0, None))"

text \<open>
  What a pull meets: whether the first scan is over, the needed items, the health of the folder without and with
  its ignore patterns, the limiter, the rounds and the failed items (of a folder that only sends the outcome), whether
  the ignore patterns changed meanwhile, and the time it took.
\<close>

record pull_world =
  scanned_once :: bool
  needed :: "string + int"
  health :: "string option"
  limiter :: "string option"
  healthIgnores :: "string option"
  accepted :: "bool \<times> string option"
  pullRounds :: "nat \<Rightarrow> string + int"
  failedItems :: nat
  newPatterns :: bool
  since :: int

definition ignoresUpdated :: "folder_service_cfg \<Rightarrow> folder_service \<Rightarrow> folder_service" where
  "ignoresUpdated cfg f = (if vFSWatcher cfg then f\<lparr>watchRestart := True\<rparr> else f)"

definition puller_pull :: "folder_service_cfg \<Rightarrow> pull_world \<Rightarrow> folder_service \<Rightarrow> (bool \<times> string option) \<times> folder_service" where
  "puller_pull cfg w f =
     (if vSendOnly cfg then (accepted w, f)
      else
        let r = sendReceive_pull (pullRounds w) (failedItems w)
        in (r, show_state FolderIdle (show_state FolderSyncPreparing (f\<lparr>pullErrorsShown := (snd r = None \<and> 0 < failedItems w)\<rparr>))))"

definition folder_pull :: "folder_service_cfg \<Rightarrow> pull_world \<Rightarrow> folder_service \<Rightarrow> (bool \<times> string option) \<times> folder_service" where
  "folder_pull cfg w f =
     (let f = f\<lparr>pullFailTimer := None\<rparr>; leave = (\<lambda>f. if newPatterns w then ignoresUpdated cfg f else f)
      in if \<not> scanned_once w then ((True, None), f)
         else
           case needed w of
             Inl e \<Rightarrow> ((False, Some e), f)
           | Inr n \<Rightarrow>
               if n = 0 then ((True, None), f\<lparr>pullPause := pullBasePause cfg, pullErrorsShown := False\<rparr>)
               else if health w \<noteq> None then ((False, health w), f)
               else
                 let f = (if vSendOnly cfg then f else show_state FolderSyncWaiting f)
                 in if \<not> vSendOnly cfg \<and> limiter w \<noteq> None then ((True, limiter w), f\<lparr>pullPause := pullBasePause cfg\<rparr>)
                    else if healthIgnores w \<noteq> None then ((False, healthIgnores w), leave f)
                    else
                      case puller_pull cfg w (folder_setError cfg None f) of
                        ((success, err), f) \<Rightarrow>
                          if success \<and> err = None then ((True, None), leave (f\<lparr>pullPause := pullBasePause cfg\<rparr>))
                          else ((False, err), leave (f\<lparr>pullFailTimer := Some (int64 (pullPause f + since w))\<rparr>)))"

text \<open>An error ends the service when it is fatal, else it is shown.\<close>

definition shown :: "folder_service_cfg \<Rightarrow> string option \<Rightarrow> folder_service \<Rightarrow> folder_service" where
  "shown cfg err f = (if err = None then f else folder_setError cfg err f)"

definition back_off :: "folder_service_cfg \<Rightarrow> bool \<times> string option \<Rightarrow> folder_service \<Rightarrow> folder_service" where
  "back_off cfg r f =
     (if (snd r \<noteq> None \<or> \<not> fst r) \<and> pullPause f < int64 (60 * pullBasePause cfg)
      then f\<lparr>pullPause := int64 (pullPause f * 2)\<rparr> else f)"

text \<open>
  A scan: the health check, the limiter, the error of the work, whether it found changes, and whether the ignore
  patterns changed.
\<close>

definition folder_scan ::
  "folder_service_cfg \<Rightarrow> string option \<Rightarrow> string option \<Rightarrow> string option \<Rightarrow> bool \<Rightarrow> bool \<Rightarrow> folder_service \<Rightarrow> string option \<times> folder_service" where
  "folder_scan cfg healthErr limiterErr scanErr changes patterns f =
     (if healthErr \<noteq> None then (healthErr, f)
      else
        let leave = (\<lambda>f. if patterns then SchedulePull (ignoresUpdated cfg f) else f);
            f = show_state FolderScanWaiting (folder_setError cfg None f)
        in if limiterErr \<noteq> None then (limiterErr, leave (show_state FolderIdle f))
           else
             let f = show_state FolderScanning f; f = (if changes then SchedulePull f else f)
             in (scanErr, leave (show_state FolderIdle f)))"

definition version_cleanup :: "bool \<Rightarrow> folder_service \<Rightarrow> folder_service" where
  "version_cleanup limited f =
     (let f = show_state FolderCleanWaiting f in show_state FolderIdle (if limited then f else show_state FolderCleaning f))"

text \<open>
  The service starts, takes turns of its loop, and ends; a failure of the block index ends it at once, which leaves
  the folder idle with an error. It is restarted by its supervisor.
\<close>

definition serve_begin :: "folder_service_cfg \<Rightarrow> string option \<Rightarrow> bool \<Rightarrow> folder_service \<Rightarrow> folder_service" where
  "serve_begin cfg reconcileErr healthy f =
     (let f = show_state FolderStarting f
      in show_state FolderIdle
           (if reconcileErr \<noteq> None then folder_setError cfg reconcileErr f
            else if vFSWatcher cfg \<and> healthy then f\<lparr>watching := True\<rparr> else f))"

inductive serve_step :: "folder_service_cfg \<Rightarrow> folder_service \<Rightarrow> folder_service \<Rightarrow> bool" for cfg :: folder_service_cfg where
  begins: "serve_step cfg f (serve_begin cfg reconcileErr healthy f)"
| ends: "serve_step cfg f (show_state FolderIdle f)"
| pull_delayed: "vPullerDelay cfg \<Longrightarrow> pullScheduled f \<Longrightarrow> serve_step cfg f ((if needs then show_state FolderSyncWaiting f else f)\<lparr>pullScheduled := False\<rparr>)"
| pull_scheduled: "\<not> vPullerDelay cfg \<Longrightarrow> pullScheduled f \<Longrightarrow> folder_pull cfg w (f\<lparr>pullScheduled := False\<rparr>) = ((success, err), f') \<Longrightarrow> serve_step cfg f (shown cfg err f')"
| pull_timer: "folder_pull cfg w (show_state FolderIdle f) = ((success, err), f') \<Longrightarrow> serve_step cfg f (shown cfg err f')"
| pull_first: "folder_pull cfg w f = ((success, err), f') \<Longrightarrow> serve_step cfg f (shown cfg err f')"
| pull_fail_timer: "pullFailTimer f \<noteq> None \<Longrightarrow> folder_pull cfg w f = ((success, err), f') \<Longrightarrow> serve_step cfg f (shown cfg err (back_off cfg (success, err) f'))"
| scan: "folder_scan cfg h l e c n f = (err, f') \<Longrightarrow> serve_step cfg f (shown cfg err f')"
| index_update: "serve_step cfg f (SchedulePull f)"
| cleanup: "serve_step cfg f (version_cleanup limited f)"
| watch_restarted: "watchRestart f \<Longrightarrow> folder_scan cfg h l e c n (f\<lparr>watchRestart := False, watching := True\<rparr>) = (err, f') \<Longrightarrow> serve_step cfg f (shown cfg err f')"

definition start_service :: "folder_service_cfg \<Rightarrow> folder_service" where
  "start_service cfg =
     \<lparr>tracker = newStateTracker, pullScheduled = False, watching = False, watchRestart = False, pullPause = pullBasePause cfg,
      pullFailTimer = None, pullErrorsShown = False\<rparr>"

section \<open>Waiting after failures\<close>

definition pause_ok :: "folder_service_cfg \<Rightarrow> folder_service \<Rightarrow> bool" where
  "pause_ok cfg f \<longleftrightarrow> pullBasePause cfg \<le> pullPause f \<and> pullPause f < 120 * pullBasePause cfg \<and> (current (tracker f) = FolderError \<longrightarrow> folderErr (tracker f) \<noteq> None)"

text \<open>The base pause does not wrap, nor does 120 times of it.\<close>

definition small_base :: "folder_service_cfg \<Rightarrow> bool" where
  "small_base cfg \<longleftrightarrow> 0 < pullBasePause cfg \<and> 120 * pullBasePause cfg < 2 ^ 63"

lemma show_state_ok [simp]:
  "pullPause (show_state st f) = pullPause f" "folderErr (tracker (show_state st f)) = folderErr (tracker f)"
  "current (tracker (show_state st f)) = (if st = FolderError then current (tracker f) else st)"
  by (auto simp: show_state_def setState_def)

lemma setError_ok [simp]:
  "pullPause (folder_setError cfg err f) = pullPause f" "folderErr (tracker (folder_setError cfg err f)) = err"
  "current (tracker (folder_setError cfg err f)) =
     (if err = folderErr (tracker f) then current (tracker f) else if err = None then FolderIdle else FolderError)"
  by (auto simp: folder_setError_def Let_def getState_def tracker_setError_def SchedulePull_def)

lemma pause_ok_shown: "pause_ok cfg f \<Longrightarrow> pause_ok cfg (shown cfg err f)"
  by (auto simp: pause_ok_def shown_def)

lemma ignoresUpdated_ok [simp]: "pullPause (ignoresUpdated cfg f) = pullPause f" "tracker (ignoresUpdated cfg f) = tracker f"
  by (auto simp: ignoresUpdated_def)

lemma pause_ok_puller:
  assumes "puller_pull cfg w f = (r, f')" and "pause_ok cfg f"
  shows "pause_ok cfg f'"
  using assms by (auto simp: puller_pull_def pause_ok_def Let_def split: if_splits)

lemma pause_ok_pull:
  assumes "folder_pull cfg w f = (r, f')" and "pause_ok cfg f" and pos: "small_base cfg"
  shows "pause_ok cfg f'"
proof -
  have err: "pause_ok cfg (folder_setError cfg None g)" if "pause_ok cfg g" for g
    using that by (auto simp: pause_ok_def)
  have waits: "pause_ok cfg (show_state FolderSyncWaiting g)" if "pause_ok cfg g" for g
    using that by (auto simp: pause_ok_def)
  have same: "pause_ok cfg (f\<lparr>pullFailTimer := None\<rparr>)" using assms(2) by (simp add: pause_ok_def)
  have pulled: "pause_ok cfg g'" if "puller_pull cfg w (folder_setError cfg None g) = (r', g')" "pause_ok cfg g" for g g' r'
    using pause_ok_puller [OF that(1)] err [OF that(2)] .
  show ?thesis using assms(1) same waits [OF same] pos
    by (auto simp: folder_pull_def Let_def split: if_splits sum.splits prod.splits dest!: pulled) (auto simp: pause_ok_def)
qed

lemma pause_ok_scan:
  assumes "folder_scan cfg h l e c n f = (err, f')" and "pause_ok cfg f"
  shows "pause_ok cfg f'"
  using assms by (auto simp: folder_scan_def pause_ok_def Let_def SchedulePull_def split: if_splits)

lemma pause_ok_back_off:
  assumes "pause_ok cfg f" and "small_base cfg"
  shows "pause_ok cfg (back_off cfg r f)"
proof -
  have "int64 (60 * pullBasePause cfg) = 60 * pullBasePause cfg" using assms(2) by (intro int64_id) (simp_all add: small_base_def)
  moreover have "int64 (pullPause f * 2) = pullPause f * 2" if "pullPause f < 60 * pullBasePause cfg"
    using that assms by (intro int64_id) (simp_all add: small_base_def pause_ok_def)
  ultimately show ?thesis using assms by (auto simp: pause_ok_def back_off_def small_base_def)
qed

lemma pause_ok_step: "serve_step cfg f f' \<Longrightarrow> pause_ok cfg f \<Longrightarrow> small_base cfg \<Longrightarrow> pause_ok cfg f'"
proof (induction rule: serve_step.induct)
  case (pull_scheduled f w success err f')
  then show ?case using pause_ok_pull [OF pull_scheduled(3)] pause_ok_shown by (simp add: pause_ok_def)
next
  case (pull_timer w f success err f')
  then show ?case using pause_ok_pull [OF pull_timer(1)] pause_ok_shown by (simp add: pause_ok_def)
next
  case (pull_first w f success err f')
  then show ?case using pause_ok_pull [OF pull_first(1)] pause_ok_shown by blast
next
  case (pull_fail_timer f w success err f')
  then show ?case using pause_ok_pull [OF pull_fail_timer(2)] pause_ok_shown pause_ok_back_off by blast
next
  case (scan h l e c n f err f')
  then show ?case using pause_ok_scan [OF scan(1)] pause_ok_shown by blast
next
  case (watch_restarted f h l e c n err f')
  then show ?case using pause_ok_scan [OF watch_restarted(2)] pause_ok_shown by (simp add: pause_ok_def)
qed (auto simp: pause_ok_def SchedulePull_def version_cleanup_def serve_begin_def Let_def)

text \<open>The pause of the configuration: a minute when there is none.\<close>

definition configured_pause :: "folder_service_cfg \<Rightarrow> int" where
  "configured_pause cfg = (if vPullerPauseS cfg = 0 then 60 else vPullerPauseS cfg) * second"

lemma configured_base:
  assumes "0 \<le> vPullerPauseS cfg" and "120 * vPullerPauseS cfg * second < 2 ^ 63"
  shows "pullBasePause cfg = configured_pause cfg" and "small_base cfg"
proof -
  have "int64 (vPullerPauseS cfg * second) = vPullerPauseS cfg * second"
    using assms by (intro int64_id) (simp_all add: second_def)
  then show "pullBasePause cfg = configured_pause cfg"
    by (simp add: pullBasePause_def configured_pause_def defaultPullerPause_def)
  then show "small_base cfg"
    using assms by (simp add: small_base_def configured_pause_def second_def)
qed

text \<open>
  C30: However pulls and scans fail, the value \<open>pullPause\<close>, which a failed pull waits in addition to
  the time it took, stays between the configured pause and 120 times of it, and the error state is
  shown only together with an error.  The configured seconds are not negative, and 120 times of them
  fit into a \<open>time.Duration\<close>.
\<close>

theorem pause_is_bounded:
  assumes "(serve_step cfg)\<^sup>*\<^sup>* (start_service cfg) f"
    and "0 \<le> vPullerPauseS cfg" and "120 * vPullerPauseS cfg * second < 2 ^ 63"
  shows "configured_pause cfg \<le> pullPause f \<and> pullPause f < 120 * configured_pause cfg \<and>
    (fst (getState (tracker f)) = FolderError \<longrightarrow> snd (getState (tracker f)) \<noteq> None)"
proof -
  note conf = configured_base [OF assms(2, 3)]
  from assms(1) have "pause_ok cfg f"
  proof (induction rule: rtranclp_induct)
    case base
    then show ?case using conf(2) by (simp add: pause_ok_def start_service_def newStateTracker_def small_base_def)
  next
    case (step y z)
    then show ?case using pause_ok_step [OF step(2) _ conf(2)] by blast
  qed
  then show ?thesis using conf(1) by (simp add: pause_ok_def getState_def)
qed

definition sample_service_cfg :: folder_service_cfg where
  "sample_service_cfg = \<lparr>vSendOnly = False, vFSWatcher = False, vPullerDelay = False, vPullerPauseS = 10\<rparr>"

text \<open>Two pulls that fail for one item, the second one after the pause.\<close>

definition failing_pull :: pull_world where
  "failing_pull =
     \<lparr>scanned_once = True, needed = Inr 1, health = None, limiter = None, healthIgnores = None, accepted = (True, None),
      pullRounds = (\<lambda>_. Inr 0), failedItems = 1, newPatterns = False, since = 3\<rparr>"

definition failed_once :: folder_service where
  "failed_once = snd (folder_pull sample_service_cfg failing_pull (start_service sample_service_cfg))"

definition failed_twice :: folder_service where
  "failed_twice = back_off sample_service_cfg (False, None) (snd (folder_pull sample_service_cfg failing_pull failed_once))"

lemma failed_samples:
  "folder_pull sample_service_cfg failing_pull (start_service sample_service_cfg) = ((False, None), failed_once)"
  "folder_pull sample_service_cfg failing_pull failed_once = ((False, None), snd (folder_pull sample_service_cfg failing_pull failed_once))"
  "pullFailTimer failed_once = Some (10 * second + 3)" "pullPause failed_twice = 20 * second" "pullFailTimer failed_twice \<noteq> None"
  by code_simp+

theorem pause_is_bounded_witness:
  "pullFailTimer failed_twice \<noteq> None \<and> pullPause failed_twice = 20 * second \<and>
    configured_pause sample_service_cfg \<le> pullPause failed_twice \<and> pullPause failed_twice < 120 * configured_pause sample_service_cfg"
proof -
  have "serve_step sample_service_cfg (start_service sample_service_cfg) failed_once"
    using serve_step.pull_first [OF failed_samples(1)] by (simp add: shown_def)
  moreover have "serve_step sample_service_cfg failed_once failed_twice"
    using serve_step.pull_fail_timer [OF _ failed_samples(2)] failed_samples(3) by (simp add: shown_def failed_twice_def)
  ultimately have "(serve_step sample_service_cfg)\<^sup>*\<^sup>* (start_service sample_service_cfg) failed_twice"
    by (meson rtranclp.rtrancl_into_rtrancl rtranclp.rtrancl_refl)
  from pause_is_bounded [OF this] show ?thesis
    using failed_samples(4, 5) by (simp add: sample_service_cfg_def second_def)
qed

text \<open>
  A configured pause of some years wraps: the doubled pause is negative, and the next tries follow at once.
\<close>

theorem huge_pause_wraps:
  assumes "2 ^ 62 \<le> pullPause f" and "pullPause f < int64 (60 * pullBasePause cfg)" and "pullPause f < 2 ^ 63"
  shows "pullPause (back_off cfg (False, err) f) < 0"
proof -
  have "int64 (pullPause f * 2) = pullPause f * 2 - 2 ^ 64" using assms(1, 3) by (simp add: int64_negative)
  then show ?thesis using assms by (simp add: back_off_def)
qed

theorem huge_pause_wraps_witness:
  "\<exists>f. pullPause (back_off (sample_service_cfg\<lparr>vPullerPauseS := 150000000\<rparr>) (False, None) f) < 0"
proof -
  let ?cfg = "sample_service_cfg\<lparr>vPullerPauseS := 150000000\<rparr>" and ?f = "(start_service sample_service_cfg)\<lparr>pullPause := 4800000000000000000\<rparr>"
  have "pullPause ?f < int64 (60 * pullBasePause ?cfg)" by code_simp
  from huge_pause_wraps [OF _ this, of None] show ?thesis by auto
qed

text \<open>
  A pull that fails again with the error the folder already has takes the folder out of the error state: it is left waiting to sync,
  with the error still set.
\<close>

theorem repeated_error_leaves_waiting_state:
  assumes "scanned_once w" and "needed w = Inr n" and "n \<noteq> 0" and "health w = None" and "limiter w = None" and "healthIgnores w = Some e"
    and "\<not> vSendOnly cfg" and "getState (tracker f) = (FolderError, Some e)"
  shows "\<exists>f'. folder_pull cfg w f = ((False, Some e), f') \<and> getState (tracker (shown cfg (Some e) f')) = (FolderSyncWaiting, Some e)"
  using assms by (auto simp: folder_pull_def Let_def shown_def getState_def)

theorem repeated_error_leaves_waiting_state_witness:
  "\<exists>f'. getState (tracker (shown sample_service_cfg (Some ''loading ignores'') f')) = (FolderSyncWaiting, Some ''loading ignores'')"
  using repeated_error_leaves_waiting_state [of
      "\<lparr>scanned_once = True, needed = Inr 1, health = None, limiter = None, healthIgnores = Some ''loading ignores'',
        accepted = (True, None), pullRounds = (\<lambda>n. Inr 0), failedItems = 0, newPatterns = False, since = 0\<rparr>"
      1 "''loading ignores''" sample_service_cfg
      "(start_service sample_service_cfg)\<lparr>tracker := \<lparr>current = FolderError, folderErr = Some ''loading ignores''\<rparr>\<rparr>"]
  by (auto simp: sample_service_cfg_def getState_def)

end
