(* ===== verification/Scan_Folder.thy ===== *)
theory Scan_Folder
  imports Index_Handler Item_Pull
begin

text \<open>
  Scanning a folder, \<^verbatim>\<open>lib/model/folder.go\<close>: which directories are scanned, how the
  results of the walk and the deletions found in the database are collected in batches, and how files that
  were renamed are recognised.

  Results of the walk come from outside (\<^verbatim>\<open>Scan_Walk\<close> has the walk itself), as do the order in
  which the database gives its rows, failures, and the health of the folder.  A context that is cancelled
  and events are left out.
\<close>

section \<open>The directories to scan\<close>

text \<open>The nearest ancestor that is known; a path has fewer ancestors than characters.\<close>

fun climb :: "nat \<Rightarrow> (string \<Rightarrow> bool) \<Rightarrow> string \<Rightarrow> string" where
  "climb 0 exists dir = dir"
| "climb (Suc n) exists dir =
     (let parent = path_Dir dir
      in if parent \<noteq> ''.'' \<and> parent \<noteq> ''/'' \<and> \<not> exists parent then climb n exists parent else dir)"

fun unify_loop :: "(string \<Rightarrow> bool) \<Rightarrow> string \<Rightarrow> string list \<Rightarrow> string list" where
  "unify_loop exists prev [] = []"
| "unify_loop exists prev (d # ds) =
     (case Canonicalize d of
        Ok dir \<Rightarrow>
          if dir = prev \<or> IsParent dir prev then unify_loop exists prev ds
          else (let dir = climb (length dir) exists dir in dir # unify_loop exists dir ds)
      | _ \<Rightarrow> unify_loop exists prev ds)"

text \<open>An empty list stands for the whole folder.\<close>

definition unifySubs :: "string list \<Rightarrow> (string \<Rightarrow> bool) \<Rightarrow> string list" where
  "unifySubs dirs exists =
     (case sort dirs of
        [] \<Rightarrow> []
      | d # ds \<Rightarrow> if d = [] \<or> d = ''.'' \<or> d = ''/'' then [] else unify_loop exists ''./'' (d # ds))"

definition dirtyPathSet :: "string list \<Rightarrow> string list" where
  "dirtyPathSet subDirs = (if \<exists>s \<in> set subDirs. s = [] \<or> s = ''.'' then [] else remdups subDirs)"

definition covers :: "string \<Rightarrow> string \<Rightarrow> bool" where
  "covers d p \<longleftrightarrow> p = d \<or> IsParent p d"

lemma Dir_safe:
  assumes "safe_name d"
  shows "path_Dir d = ''.'' \<or> safe_name (path_Dir d) \<and> IsParent d (path_Dir d) \<and> length (path_Dir d) < length d"
proof -
  obtain cs b where d: "d = Join (cs @ [b]) [slash]" "list_all proper (cs @ [b])" "\<forall>e \<in> set (cs @ [b]). slash \<notin> set e"
    using safe_name_split [OF assms] by blast
  have dir: "path_Dir d = (if cs = [] then ''.'' else Join cs [slash])" unfolding d(1) by (rule Dir_snoc) (use d in auto)
  show ?thesis
  proof (cases "cs = []")
    case False
    then have safe: "safe_name (path_Dir d)" using dir Join_safe [of cs] d by auto
    have "d = path_Dir d @ slash # b" using d(1) dir False Join_append [of cs "[b]" slash] by simp
    then have "PathComponents d = PathComponents (path_Dir d) @ Split b slash" "length (path_Dir d) < length d"
      by (metis PathComponents_def Split_append, metis length_append less_add_same_cancel1 list.size(4) zero_less_Suc add_Suc_right)
    then show ?thesis using safe IsParent_components [OF assms safe] by auto
  qed (simp add: dir)
qed

lemma IsParent_trans:
  assumes "safe_name a" "safe_name b" "safe_name c" and "IsParent a b" "IsParent b c"
  shows "IsParent a c"
  using assms by (auto simp: IsParent_components)

lemma climb_covers: "safe_name d \<Longrightarrow> safe_name (climb n exists d) \<and> covers (climb n exists d) d"
proof (induction n arbitrary: d)
  case (Suc n)
  show ?case
  proof (cases "path_Dir d \<noteq> ''.'' \<and> path_Dir d \<noteq> ''/'' \<and> \<not> exists (path_Dir d)")
    case True
    then have p: "safe_name (path_Dir d)" "IsParent d (path_Dir d)" using Dir_safe [OF Suc.prems] by auto
    from Suc.IH [OF p(1)] show ?thesis using True IsParent_trans [OF Suc.prems p(1) _ p(2)] p(2)
      by (auto simp: covers_def Let_def)
  next
    case False
    then have "climb (Suc n) exists d = d" by (simp only: climb.simps Let_def if_False)
    then show ?thesis using Suc.prems by (simp only: covers_def simp_thms)
  qed
qed (simp add: covers_def)

lemma climb_known:
  "safe_name d \<Longrightarrow> length d \<le> n \<Longrightarrow> path_Dir (climb n exists d) = ''.'' \<or> exists (path_Dir (climb n exists d))"
proof (induction n arbitrary: d)
  case (Suc n)
  show ?case
  proof (cases "path_Dir d \<noteq> ''.'' \<and> path_Dir d \<noteq> ''/'' \<and> \<not> exists (path_Dir d)")
    case True
    then show ?thesis using Dir_safe [OF Suc.prems(1)] Suc.IH [of "path_Dir d"] Suc.prems(2) by (auto simp: Let_def)
  next
    case False
    then have "climb (Suc n) exists d = d" by (simp only: climb.simps Let_def if_False)
    moreover have "path_Dir d \<noteq> ''/''" using Dir_safe [OF Suc.prems(1)] safe_name_not_abs(4) by auto
    ultimately show ?thesis using False by auto
  qed
qed (auto dest: safe_name_not_abs(2))

lemma climb_root: "climb n exists ''.'' = ''.''"
proof (cases n)
  case (Suc m)
  have "path_Dir ''.'' = ''.''" by code_simp
  then show ?thesis by (simp add: Suc)
qed simp

lemma climb_canonical:
  assumes "Canonicalize d = Ok c"
  shows "covers (climb (length c) exists c) c \<and>
    (climb (length c) exists c = ''.'' \<or> path_Dir (climb (length c) exists c) = ''.'' \<or> exists (path_Dir (climb (length c) exists c)))"
  using Canonicalize_inside [OF assms] climb_covers [of c "length c" "exists"] climb_known [of c "length c" "exists"] climb_root [of "length c" "exists"]
  by (auto simp: covers_def)

lemma unify_loop_covers:
  "d \<in> set ds \<Longrightarrow> Canonicalize d = Ok c \<Longrightarrow> covers prev c \<or> (\<exists>r \<in> set (unify_loop exists prev ds). covers r c)"
proof (induction ds arbitrary: prev)
  case (Cons e es)
  show ?case
  proof (cases "d = e")
    case True
    then show ?thesis using Cons.prems(2) climb_canonical [OF Cons.prems(2)] by (auto simp: covers_def Let_def)
  next
    case False
    then have "d \<in> set es" using Cons.prems(1) by simp
    note IH = Cons.IH [OF this Cons.prems(2)]
    show ?thesis using IH [of prev] IH [of "climb (length (case Canonicalize e of Ok x \<Rightarrow> x)) exists (case Canonicalize e of Ok x \<Rightarrow> x)"]
      by (auto simp: Let_def split: outcome.splits)
  qed
qed simp

lemma unify_loop_known:
  "r \<in> set (unify_loop exists prev ds) \<Longrightarrow> r = ''.'' \<or> path_Dir r = ''.'' \<or> exists (path_Dir r)"
proof (induction ds arbitrary: prev)
  case (Cons e es)
  then show ?case using climb_canonical [of e] by (auto simp: Let_def split: outcome.splits if_splits)
qed simp

text \<open>
  Every path that is asked to be scanned lies in one of the directories that are scanned, unless it is no path of the folder, and the
  directory of each of them is the root or known to the database, so that a scan starts below a known directory.
\<close>

theorem requested_paths_are_scanned:
  assumes "d \<in> set dirs" and "Canonicalize d = Ok c" and "unifySubs dirs exists \<noteq> []"
  shows "(\<exists>r \<in> set (unifySubs dirs exists). covers r c) \<and>
    (\<forall>r \<in> set (unifySubs dirs exists). r = ''.'' \<or> path_Dir r = ''.'' \<or> exists (path_Dir r))"
proof -
  have u: "unifySubs dirs exists = unify_loop exists ''./'' (sort dirs)" using assms(3)
    by (auto simp: unifySubs_def split: list.splits if_splits)
  have "\<not> covers ''./'' c"
  proof -
    have "safe_name (''./'' @ r) \<Longrightarrow> False" for r by (cases r) (auto simp: safe_name_def proper_def slash_def)
    then show ?thesis using Canonicalize_inside [OF assms(2)]
      by (auto simp: covers_def IsParent_def HasPrefix_iff slash_def split: if_splits)
  qed
  then show ?thesis using unify_loop_covers [OF _ assms(2), of "sort dirs" "''./''" "exists"] assms(1) unify_loop_known
    unfolding u by auto
qed

theorem requested_paths_are_scanned_witness:
  "(\<exists>r \<in> set (unifySubs [''a/b/c'', ''a/x''] (\<lambda>d. d = ''a'')). covers r ''a/b/c'')"
proof -
  have "Canonicalize ''a/b/c'' = Ok ''a/b/c''" "unifySubs [''a/b/c'', ''a/x''] (\<lambda>d. d = ''a'') = [''a/b'', ''a/x'']" by code_simp+
  then show ?thesis using requested_paths_are_scanned [of "''a/b/c''" "[''a/b/c'', ''a/x'']" "''a/b/c''" "\<lambda>d. d = ''a''"] by auto
qed

text \<open>
  The root among the requested paths stands for the whole folder only when it sorts first.  Behind a name that starts with a character
  before the dot it stays in the list, as a prefix of which the database later finds no names but those with a leading dot.
\<close>

theorem root_is_one_of_several:
  "unifySubs [''.'', ''-a''] exists = [''-a'', ''.''] \<and> unifySubs [''.'', ''a''] exists = [] \<and>
   unifySubs [''a'', ''a-b'', ''a/c''] (\<lambda>d. True) = [''a'', ''a-b'', ''a/c'']"
  by code_simp

section \<open>Configuration and state\<close>

record scan_cfg =
  fOs :: goos
  fType :: FolderType
  fIgnorePerms :: bool
  fSendOwnership :: bool
  fSyncOwnership :: bool
  fSendXattrs :: bool
  fSyncXattrs :: bool
  fModTimeWindow :: int
  fShortID :: short_id
  fLocalFlags :: uint32
  fIncremental :: bool

text \<open>
  What comes from outside: failures of the disk, the health of the folder when a batch is written, failures of
  the database, the rows of its queries and where they break off, the global file, the ignore patterns, the size of
  a marshalled file and the times for a new version.
\<close>

type_synonym scanned_rows = "(string \<times> FileInfo) list"

record scan_env =
  sIo :: io
  sHealth :: "FileInfo list \<Rightarrow> string option"
  sUpdateFails :: "FileInfo list \<Rightarrow> bool"
  sDropFails :: "string list \<Rightarrow> string option"
  sRows :: "string \<Rightarrow> scanned_rows \<Rightarrow> FileInfo list \<times> string option"
  sHashRows :: "bytes \<Rightarrow> scanned_rows \<Rightarrow> FileMetadata list"
  sGlobal :: "string \<Rightarrow> scanned_rows \<Rightarrow> string + FileInfo option"
  sMatch :: "string \<Rightarrow> R"
  sSizeOf :: "FileInfo \<Rightarrow> int"
  sTimes :: "string \<Rightarrow> uint64 \<times> int"

record scan_state =
  locals :: scanned_rows
  sdisk :: disk
  updates :: "FileInfo list"
  toRemove :: "string list"
  deletedNames :: "string list"
  changed :: int
  icache :: DigestCache
  isnap :: Snapshot
  scanErrors :: "(string \<times> string) list"
  forcedRescanPaths :: "string list"

section \<open>Batches\<close>

definition maxToRemove :: nat where "maxToRemove = 1000"

definition batch_Remove :: "string \<Rightarrow> scan_state \<Rightarrow> scan_state" where
  "batch_Remove item s = s\<lparr>toRemove := toRemove s @ [item]\<rparr>"

definition batch_Add :: "FileInfo \<Rightarrow> scan_state \<Rightarrow> scan_state" where
  "batch_Add f s = s\<lparr>updates := updates s @ [f]\<rparr>"

definition flushToRemove :: "scan_env \<Rightarrow> scan_state \<Rightarrow> string option \<times> scan_state" where
  "flushToRemove env s =
     (if toRemove s = [] then (None, s)
      else
        case sDropFails env (toRemove s) of
          Some e \<Rightarrow> (Some e, s)
        | None \<Rightarrow> (None, s\<lparr>locals := filter (\<lambda>x. fst x \<notin> set (toRemove s)) (locals s), toRemove := []\<rparr>))"

definition put_file :: "FileInfo \<Rightarrow> scanned_rows \<Rightarrow> scanned_rows" where
  "put_file f = put (Name f) f"

text \<open>A file that changed in the database need not be looked at again.\<close>

definition updateLocals :: "scan_env \<Rightarrow> FileInfo list \<Rightarrow> scan_state \<Rightarrow> string option \<times> scan_state" where
  "updateLocals env fs s =
     (if sUpdateFails env fs then (Some ''database'', s)
      else (None, s\<lparr>locals := fold put_file fs (locals s), forcedRescanPaths := filter (\<lambda>p. p \<notin> Name ` set fs) (forcedRescanPaths s)\<rparr>))"

text \<open>The error of the update is dropped.\<close>

definition flushUpdates :: "scan_env \<Rightarrow> scan_state \<Rightarrow> string option \<times> scan_state" where
  "flushUpdates env s =
     (if updates s = [] then (None, s)
      else
        case sHealth env (updates s) of
          Some e \<Rightarrow> (Some e, s)
        | None \<Rightarrow> (None, (snd (updateLocals env (updates s) s))\<lparr>deletedNames := [], updates := []\<rparr>))"

definition batch_Flush :: "scan_env \<Rightarrow> scan_state \<Rightarrow> string option \<times> scan_state" where
  "batch_Flush env = and_then (flushToRemove env) (flushUpdates env)"

definition updates_full :: "scan_env \<Rightarrow> FileInfo list \<Rightarrow> bool" where
  "updates_full env fs \<longleftrightarrow> Full \<lparr>infos = fs, bsize = sum_list (map (sSizeOf env) fs), berror = None\<rparr>"

definition batch_FlushIfFull :: "scan_env \<Rightarrow> scan_state \<Rightarrow> string option \<times> scan_state" where
  "batch_FlushIfFull env =
     and_then (\<lambda>s. if maxToRemove \<le> length (toRemove s) then flushToRemove env s else (None, s))
       (\<lambda>s. if updates_full env (updates s) then flushUpdates env s else (None, s))"

definition batch_markDeleted :: "string \<Rightarrow> scan_state \<Rightarrow> scan_state" where
  "batch_markDeleted name s = s\<lparr>deletedNames := List.insert name (deletedNames s)\<rparr>"

definition batch_hasDeleted :: "string \<Rightarrow> scan_state \<Rightarrow> bool" where
  "batch_hasDeleted name s \<longleftrightarrow> name \<in> set (deletedNames s)"

definition encryptedDirExtension :: string where "encryptedDirExtension = ''.syncthing-enc''"
definition maxPathComponent :: nat where "maxPathComponent = 200"

definition IsEncryptedParent :: "string list \<Rightarrow> bool" where
  "IsEncryptedParent pathComponents =
     (let l = length pathComponents
      in if l = 2 \<and> length (pathComponents ! 1) \<noteq> 2 then False
         else if l = 0 then False
         else if pathComponents ! 0 = [] then False
         else if drop 1 (pathComponents ! 0) \<noteq> encryptedDirExtension then False
         else if l < 2 then True
         else \<forall>comp \<in> set (drop 2 pathComponents). length comp = maxPathComponent)"

definition empty_dir :: "io \<Rightarrow> string \<Rightarrow> disk \<Rightarrow> bool" where
  "empty_dir io name d \<longleftrightarrow> is_dir d name \<and> io OpWalk name d = None \<and> \<not> has_children name d"

definition merge_comparison :: "scan_cfg \<Rightarrow> FileInfoComparison" where
  "merge_comparison cfg =
     \<lparr>ModTimeWindow = fModTimeWindow cfg, IgnorePerms = fIgnorePerms cfg, IgnoreBlocks = True, IgnoreFlags = FlagLocalReceiveOnly,
      IgnoreOwnership = (\<not> fSyncOwnership cfg \<and> \<not> fSendOwnership cfg), IgnoreXattrs = (\<not> fSyncXattrs cfg \<and> \<not> fSendXattrs cfg)\<rparr>"

text \<open>False means that the file is not recorded.\<close>

definition batch_Update :: "scan_env \<Rightarrow> scan_cfg \<Rightarrow> FileInfo \<Rightarrow> scan_state \<Rightarrow> (string + bool) \<times> scan_state" where
  "batch_Update env cfg fi s =
     (if fType cfg = FolderTypeReceiveEncrypted \<and> IsDirectory fi \<and> IsEncryptedParent (PathComponents (Name fi)) then
        (Inr False, if empty_dir (sIo env) (Name fi) (sdisk s) then s\<lparr>sdisk := snd (fs_Remove (sIo env) (Name fi) (sdisk s))\<rparr> else s)
      else
        case sGlobal env (Name fi) (locals s) of
          Inl e \<Rightarrow> (Inl e, s)
        | Inr None \<Rightarrow> (Inr True, batch_Add fi s)
        | Inr (Some gf) \<Rightarrow>
            if IsReceiveOnlyChanged gf then
              (if IsDeleted fi then (Inr True, batch_Remove (Name fi) s) else (Inr True, batch_Add fi s))
            else if fType cfg \<in> {FolderTypeReceiveOnly, FolderTypeReceiveEncrypted} \<and> IsEquivalentOptional (fOs cfg) gf fi (merge_comparison cfg)
            then (Inr True, batch_Add gf s)
            else (Inr True, batch_Add fi s))"

text \<open>Counting what is recorded; after a failure the count is lost.\<close>

definition put_update :: "scan_env \<Rightarrow> scan_cfg \<Rightarrow> FileInfo \<Rightarrow> scan_state \<Rightarrow> string option \<times> scan_state" where
  "put_update env cfg f s =
     (case batch_Update env cfg f s of
        (Inl e, s) \<Rightarrow> (Some e, s\<lparr>changed := 0\<rparr>)
      | (Inr ok, s) \<Rightarrow> (None, if ok then s\<lparr>changed := changed s + 1\<rparr> else s))"

section \<open>Files that were renamed\<close>

text \<open>A file of the same content that is gone from the disk.\<close>

definition rename_source :: "scan_env \<Rightarrow> FileInfo \<Rightarrow> scan_state \<Rightarrow> FileMetadata \<Rightarrow> bool" where
  "rename_source env f s m \<longleftrightarrow>
     mName m \<noteq> Name f \<and> \<not> batch_hasDeleted (mName m) s \<and> mLocalFlags m AND LocalConflictFlags = 0 \<and>
     \<not> R_IsIgnored (sMatch env (mName m)) \<and> Size f = mSize m \<and> osutil_IsDeleted (sIo env) (mName m) (sdisk s)"

definition deleted_file :: "scan_env \<Rightarrow> scan_cfg \<Rightarrow> FileInfo \<Rightarrow> FileInfo" where
  "deleted_file env cfg f =
     (SetDeleted f (fShortID cfg) (fst (sTimes env (Name f))) (snd (sTimes env (Name f))))\<lparr>LocalFlags := fLocalFlags cfg\<rparr>"

definition findRename :: "scan_env \<Rightarrow> scan_cfg \<Rightarrow> FileInfo \<Rightarrow> scan_state \<Rightarrow> FileInfo option" where
  "findRename env cfg f s =
     (if Blocks f = [] \<or> Size f = 0 then None
      else
        map_option (\<lambda>m. deleted_file env cfg (the (map_of (locals s) (mName m))))
          (List.find (\<lambda>m. rename_source env f s m \<and> (case map_of (locals s) (mName m) of None \<Rightarrow> False | Some nf \<Rightarrow> Sequence nf = mSequence m))
             (sHashRows env (BlocksHash f) (locals s))))"

section \<open>Changed and new files\<close>

definition record_rename :: "scan_env \<Rightarrow> scan_cfg \<Rightarrow> FileInfo \<Rightarrow> scan_state \<Rightarrow> string option \<times> scan_state" where
  "record_rename env cfg f s =
     (if fType cfg \<in> {FolderTypeReceiveOnly, FolderTypeReceiveEncrypted} then (None, s)
      else
        case findRename env cfg f s of
          None \<Rightarrow> (None, s)
        | Some nf \<Rightarrow>
            (case batch_Update env cfg nf s of
               (Inl e, s) \<Rightarrow> (Some e, s\<lparr>changed := 0\<rparr>)
             | (Inr ok, s) \<Rightarrow> (None, if ok then batch_markDeleted (Name nf) (s\<lparr>changed := changed s + 1\<rparr>) else s)))"

fun scan_results :: "scan_env \<Rightarrow> scan_cfg \<Rightarrow> (string \<times> string + FileInfo) list \<Rightarrow> scan_state \<Rightarrow> string option \<times> scan_state" where
  "scan_results env cfg [] s = (None, s)"
| "scan_results env cfg (Inl err # rs) s = scan_results env cfg rs (s\<lparr>scanErrors := scanErrors s @ [err]\<rparr>)"
| "scan_results env cfg (Inr f # rs) s =
     and_then (batch_FlushIfFull env)
       (and_then (put_update env cfg f) (and_then (record_rename env cfg f) (scan_results env cfg rs))) s"

definition scanned_files :: "('e + FileInfo) list \<Rightarrow> FileInfo list" where
  "scanned_files rs = concat (map (\<lambda>r. case r of Inl e \<Rightarrow> [] | Inr f \<Rightarrow> [f]) rs)"

definition scanSubdirsChangedAndNew ::
  "scan_env \<Rightarrow> scan_cfg \<Rightarrow> (string \<times> string + FileInfo) list \<Rightarrow> string list \<Rightarrow> scan_state \<Rightarrow> string option \<times> scan_state" where
  "scanSubdirsChangedAndNew env cfg results subDirs =
     and_then (scan_results env cfg results)
       (\<lambda>s. (None, if fIncremental cfg then s\<lparr>isnap := Snapshot_Update (scanned_files results) (dirtyPathSet subDirs) (isnap s)\<rparr> else s))"

section \<open>Deleted and ignored files\<close>

definition dropIncrementalPath :: "scan_cfg \<Rightarrow> string \<Rightarrow> scan_state \<Rightarrow> scan_state" where
  "dropIncrementalPath cfg path s =
     (if fIncremental cfg then s\<lparr>icache := RemovePrefix path (icache s), isnap := Snapshot_Update [] [path] (isnap s)\<rparr> else s)"

text \<open>Flushing inside this loop loses the count too.\<close>

definition flush_or_zero :: "scan_env \<Rightarrow> scan_state \<Rightarrow> string option \<times> scan_state" where
  "flush_or_zero env s = (case batch_FlushIfFull env s of (Some e, s) \<Rightarrow> (Some e, s\<lparr>changed := 0\<rparr>) | (None, s) \<Rightarrow> (None, s))"

text \<open>Directories that may have to be ignored, and the highest of them.\<close>

record ignore_state =
  toIgnore :: "FileInfo list"
  ignoredParent :: string

fun mark_ignored :: "scan_env \<Rightarrow> scan_cfg \<Rightarrow> FileInfo list \<Rightarrow> scan_state \<Rightarrow> string option \<times> scan_state" where
  "mark_ignored env cfg [] s = (None, s)"
| "mark_ignored env cfg (f # fs) s =
     and_then (put_update env cfg (SetIgnored f)) (and_then (flush_or_zero env) (mark_ignored env cfg fs)) s"

definition mark_deleted :: "scan_env \<Rightarrow> scan_cfg \<Rightarrow> FileInfo \<Rightarrow> scan_state \<Rightarrow> string option \<times> scan_state" where
  "mark_deleted env cfg fi s =
     (let nf = deleted_file env cfg fi; nf = (if ShouldConflict fi then nf\<lparr>Version := \<lparr>Counters = []\<rparr>\<rparr> else nf)
      in put_update env cfg nf (dropIncrementalPath cfg (Name nf) s))"

definition forget_flag :: "FileInfo \<Rightarrow> FileInfo" where
  "forget_flag f = f\<lparr>LocalFlags := LocalFlags f AND NOT FlagLocalReceiveOnly\<rparr>"

definition deleted_receive_only :: "scan_env \<Rightarrow> scan_cfg \<Rightarrow> FileInfo \<Rightarrow> scan_state \<Rightarrow> string option \<times> scan_state" where
  "deleted_receive_only env cfg fi s =
     (if fType cfg \<in> {FolderTypeReceiveOnly, FolderTypeReceiveEncrypted} then
        (case sGlobal env (Name fi) (locals s) of
           Inl e \<Rightarrow> (Some e, s\<lparr>changed := 0\<rparr>)
         | Inr None \<Rightarrow> (None, s)
         | Inr (Some gf) \<Rightarrow>
             if IsReceiveOnlyChanged gf then (None, (batch_Remove (Name fi) s)\<lparr>changed := changed s + 1\<rparr>)
             else if IsDeleted gf then put_update env cfg (forget_flag fi) s
             else (None, s))
      else put_update env cfg (forget_flag fi) s)"

text \<open>One row of the database; the result has the state of the ignored directories as well.\<close>

definition keep_ignoring :: "ignore_state \<Rightarrow> string option \<times> scan_state \<Rightarrow> string option \<times> ignore_state \<times> scan_state" where
  "keep_ignoring ig r = (fst r, ig, snd r)"

definition check_row :: "scan_env \<Rightarrow> scan_cfg \<Rightarrow> FileInfo \<Rightarrow> ignore_state \<Rightarrow> scan_state \<Rightarrow> string option \<times> ignore_state \<times> scan_state" where
  "check_row env cfg fi ig s =
     (let ignored = R_IsIgnored (sMatch env (Name fi))
      in if IsIgnored fi \<and> ignored then (None, ig, s)
         else if \<not> IsIgnored fi \<and> ignored then
           (if IsDirectory fi then
              (None, \<lparr>toIgnore = toIgnore ig @ [fi], ignoredParent = (if ignoredParent ig = [] then Name fi else ignoredParent ig)\<rparr>, s)
            else keep_ignoring ig (put_update env cfg (SetIgnored fi) s))
         else if IsIgnored fi \<and> \<not> ignored \<or> \<not> IsIgnored fi \<and> \<not> IsDeleted fi \<and> \<not> IsUnsupported fi then
           (if \<not> osutil_IsDeleted (sIo env) (Name fi) (sdisk s)
            then (None, if ignoredParent ig \<noteq> [] then \<lparr>toIgnore = [], ignoredParent = []\<rparr> else ig, s)
            else keep_ignoring ig (mark_deleted env cfg fi s))
         else if IsDeleted fi \<and> IsReceiveOnlyChanged fi then keep_ignoring ig (deleted_receive_only env cfg fi s)
         else (None, ig, s))"

definition leave_ignored :: "scan_env \<Rightarrow> scan_cfg \<Rightarrow> FileInfo \<Rightarrow> ignore_state \<Rightarrow> scan_state \<Rightarrow> string option \<times> ignore_state \<times> scan_state" where
  "leave_ignored env cfg fi ig s =
     (if ignoredParent ig \<noteq> [] \<and> \<not> IsParent (Name fi) (ignoredParent ig)
      then (case mark_ignored env cfg (toIgnore ig) s of (err, s) \<Rightarrow> (err, if err = None then \<lparr>toIgnore = [], ignoredParent = []\<rparr> else ig, s))
      else (None, ig, s))"

fun check_rows :: "scan_env \<Rightarrow> scan_cfg \<Rightarrow> FileInfo list \<Rightarrow> ignore_state \<Rightarrow> scan_state \<Rightarrow> string option \<times> ignore_state \<times> scan_state" where
  "check_rows env cfg [] ig s = (None, ig, s)"
| "check_rows env cfg (fi # fis) ig s =
     (case flush_or_zero env s of
        (Some e, s) \<Rightarrow> (Some e, ig, s)
      | (None, s) \<Rightarrow>
          (case leave_ignored env cfg fi ig s of
             (Some e, ig, s) \<Rightarrow> (Some e, ig, s)
           | (None, ig, s) \<Rightarrow>
               (case check_row env cfg fi ig s of
                  (Some e, ig, s) \<Rightarrow> (Some e, ig, s)
                | (None, ig, s) \<Rightarrow> check_rows env cfg fis ig s)))"

fun check_subs :: "scan_env \<Rightarrow> scan_cfg \<Rightarrow> string list \<Rightarrow> ignore_state \<Rightarrow> scan_state \<Rightarrow> string option \<times> ignore_state \<times> scan_state" where
  "check_subs env cfg [] ig s = (None, ig, s)"
| "check_subs env cfg (sub # subs) ig s =
     (case sRows env sub (locals s) of (found, broken) \<Rightarrow>
      case check_rows env cfg found ig s of
        (Some e, ig, s) \<Rightarrow> (Some e, ig, s)
      | (None, ig, s) \<Rightarrow>
          (case broken of
             Some e \<Rightarrow> (Some e, ig, s)
           | None \<Rightarrow>
               (case mark_ignored env cfg (toIgnore ig) s of
                  (Some e, s) \<Rightarrow> (Some e, ig, s)
                | (None, s) \<Rightarrow> check_subs env cfg subs (ig\<lparr>toIgnore := []\<rparr>) s)))"

definition scanSubdirsDeletedAndIgnored :: "scan_env \<Rightarrow> scan_cfg \<Rightarrow> string list \<Rightarrow> scan_state \<Rightarrow> string option \<times> scan_state" where
  "scanSubdirsDeletedAndIgnored env cfg subDirs s =
     (case check_subs env cfg subDirs \<lparr>toIgnore = [], ignoredParent = []\<rparr> s of (err, ig, s) \<Rightarrow> (err, s))"

section \<open>A scan\<close>

definition newScanError :: "string \<Rightarrow> string \<Rightarrow> scan_state \<Rightarrow> scan_state" where
  "newScanError path err s = s\<lparr>scanErrors := scanErrors s @ [(path, err)]\<rparr>"

definition clearScanErrors :: "string list \<Rightarrow> scan_state \<Rightarrow> scan_state" where
  "clearScanErrors subDirs s =
     s\<lparr>scanErrors := (if subDirs = [] then []
                      else filter (\<lambda>fe. \<not> (\<exists>sub \<in> set subDirs. fst fe = sub \<or> IsParent (fst fe) sub)) (scanErrors s))\<rparr>"

text \<open>Errors of scanning and pulling together, by path; the order among equal paths is not fixed by the code.\<close>

definition folder_Errors :: "(string \<times> string) list \<Rightarrow> (string \<times> string) list \<Rightarrow> (string \<times> string) list" where
  "folder_Errors pullErrors scanErrs = sort_key fst (scanErrs @ pullErrors)"

text \<open>Adding what one part of the scan changed; the result says whether to pull.\<close>

definition count_part :: "(scan_state \<Rightarrow> string option \<times> scan_state) \<Rightarrow> scan_state \<Rightarrow> string option \<times> scan_state" where
  "count_part part s = (case part (s\<lparr>changed := 0\<rparr>) of (err, s') \<Rightarrow> (err, s'\<lparr>changed := changed s + changed s'\<rparr>))"

definition known_dir :: "scan_state \<Rightarrow> string \<Rightarrow> bool" where
  "known_dir s p \<longleftrightarrow> map_of (locals s) p \<noteq> None"

text \<open>The error is that of the health check when it fails; \<open>walk\<close> gives the results for directories.\<close>

definition scanSubdirs ::
  "scan_env \<Rightarrow> scan_cfg \<Rightarrow> string option \<Rightarrow> (string list \<Rightarrow> (string \<times> string + FileInfo) list) \<Rightarrow> string list \<Rightarrow> scan_state
   \<Rightarrow> string option \<times> bool \<times> scan_state" where
  "scanSubdirs env cfg unhealthy walk subDirs s =
     (case unhealthy of
        Some e \<Rightarrow> (Some e, False, s)
      | None \<Rightarrow>
          let subDirs = (if [] \<in> set subDirs then [] else subDirs);
              subDirs = unifySubs subDirs (known_dir s);
              s = (clearScanErrors subDirs s)\<lparr>updates := [], toRemove := [], deletedNames := [], changed := 0\<rparr>
          in case and_then (count_part (scanSubdirsChangedAndNew env cfg (walk subDirs) subDirs))
                    (and_then (batch_Flush env)
                      (and_then (count_part (scanSubdirsDeletedAndIgnored env cfg (if subDirs = [] then [[]] else subDirs))) (batch_Flush env))) s of
               (err, s) \<Rightarrow> (err, 0 < changed s, s))"

text \<open>Files to be rehashed are marked in the database, then scanned.\<close>

definition force_file :: "scan_state \<Rightarrow> string \<Rightarrow> FileInfo list" where
  "force_file s p = (case map_of (locals s) p of None \<Rightarrow> [] | Some f \<Rightarrow> [SetMustRescan f])"

definition force_update :: "scan_env \<Rightarrow> FileInfo list \<Rightarrow> scan_state \<Rightarrow> string option \<times> scan_state" where
  "force_update env fs s =
     (if fs = [] then (None, s)
      else if sUpdateFails env fs then (Some ''database'', s)
      else (None, s\<lparr>locals := fold put_file fs (locals s)\<rparr>))"

fun force_files :: "scan_env \<Rightarrow> string list \<Rightarrow> FileInfo list \<Rightarrow> scan_state \<Rightarrow> string option \<times> scan_state" where
  "force_files env [] batch s = force_update env batch s"
| "force_files env (p # ps) batch s =
     (if updates_full env batch
      then and_then (force_update env batch) (\<lambda>s. force_files env ps (force_file s p) s) s
      else force_files env ps (batch @ force_file s p) s)"

definition handleForcedRescans ::
  "scan_env \<Rightarrow> scan_cfg \<Rightarrow> string option \<Rightarrow> (string list \<Rightarrow> (string \<times> string + FileInfo) list) \<Rightarrow> scan_state \<Rightarrow> string option \<times> bool \<times> scan_state" where
  "handleForcedRescans env cfg unhealthy walk s =
     (let paths = forcedRescanPaths s; s = s\<lparr>forcedRescanPaths := []\<rparr>
      in if paths = [] then (None, False, s)
         else
           case force_files env paths [] s of
             (Some e, s) \<Rightarrow> (Some e, False, s)
           | (None, s) \<Rightarrow> scanSubdirs env cfg unhealthy walk paths s)"

end
