(* ===== verification/Scan_Result.thy ===== *)
theory Scan_Result
  imports Scan_Folder
begin

text \<open>
  What a scan makes of the database: files that are on the disk keep their entries, files that are gone are
  marked as deleted.
\<close>

section \<open>What a scan leaves alone\<close>

lemma put_files_other: "q \<notin> Name ` set fs \<Longrightarrow> map_of (fold put_file fs l) q = map_of l q"
  by (induction fs arbitrary: l) (simp_all add: put_file_def)

lemma put_files_last: "q \<in> Name ` set fs \<Longrightarrow> \<exists>f \<in> set fs. Name f = q \<and> map_of (fold put_file fs l) q = Some f"
proof (induction fs rule: rev_induct)
  case (snoc f fs)
  then show ?case by (auto simp: put_file_def)
qed simp

lemma check_rows_steps:
  assumes "check_rows env cfg (fi # fis) ig s = (None, ig', s')"
  obtains s1 ig2 s2 ig3 s3 where "flush_or_zero env s = (None, s1)" "leave_ignored env cfg fi ig s1 = (None, ig2, s2)"
    "check_row env cfg fi ig2 s2 = (None, ig3, s3)" "check_rows env cfg fis ig3 s3 = (None, ig', s')"
proof -
  obtain e1 s1 where a: "flush_or_zero env s = (e1, s1)" by fastforce
  then have "e1 = None" using assms by (cases e1) simp_all
  note a = a [unfolded this]
  obtain e2 ig2 s2 where b: "leave_ignored env cfg fi ig s1 = (e2, ig2, s2)" by (metis prod_cases3)
  then have "e2 = None" using assms a by (cases e2) simp_all
  note b = b [unfolded this]
  obtain e3 ig3 s3 where c: "check_row env cfg fi ig2 s2 = (e3, ig3, s3)" by (metis prod_cases3)
  then have "e3 = None" using assms a b by (cases e3) simp_all
  note c = c [unfolded this]
  show thesis using that [OF a b c] assms a b c by simp
qed

text \<open>
  A condition on the state that concerns one name only: writing batches keeps it, and so do updates of other names.
  What a part of the scan does with other names then keeps it too.
\<close>

locale scan_frame =
  fixes env :: scan_env and name :: string and keeping :: "scan_state \<Rightarrow> bool"
  assumes flushed_removals: "flushToRemove env s = (None, s') \<Longrightarrow> keeping s \<Longrightarrow> keeping s'"
    and flushed_updates: "flushUpdates env s = (None, s') \<Longrightarrow> keeping s \<Longrightarrow> keeping s'"
    and added: "Name f \<noteq> name \<Longrightarrow> keeping s \<Longrightarrow> keeping (batch_Add f s)"
    and removed: "q \<noteq> name \<Longrightarrow> keeping s \<Longrightarrow> keeping (batch_Remove q s)"
    and counted: "keeping (s\<lparr>changed := c\<rparr>) = keeping s"
    and on_disk_changed: "keeping (s\<lparr>sdisk := d\<rparr>) = keeping s"
    and cached: "keeping (s\<lparr>icache := x, isnap := y\<rparr>) = keeping s"
begin

lemma flush: "batch_Flush env s = (None, s') \<Longrightarrow> keeping s \<Longrightarrow> keeping s'"
  using flushed_removals flushed_updates by (auto simp: batch_Flush_def and_then_eq)

lemma flush_if_full: "batch_FlushIfFull env s = (None, s') \<Longrightarrow> keeping s \<Longrightarrow> keeping s'"
  using flushed_removals flushed_updates by (auto simp: batch_FlushIfFull_def and_then_eq split: if_splits)

lemma flush_zero: "flush_or_zero env s = (None, s') \<Longrightarrow> keeping s \<Longrightarrow> keeping s'"
  using flush_if_full by (auto simp: flush_or_zero_def split: prod.splits option.splits)

lemma update: "batch_Update env cfg f s = (Inr ok, s') \<Longrightarrow> Name f \<noteq> name \<Longrightarrow> keeping s \<Longrightarrow> keeping s'"
proof -
  have "IsEquivalentOptional os g f cmp \<Longrightarrow> Name g = Name f" for os g cmp
    by (auto simp: IsEquivalentOptional_def isEquivalent_def Let_def split: if_splits)
  then show "batch_Update env cfg f s = (Inr ok, s') \<Longrightarrow> Name f \<noteq> name \<Longrightarrow> keeping s \<Longrightarrow> keeping s'"
    using added [of f s] added [of _ s] removed [of "Name f" s] on_disk_changed
    by (auto simp: batch_Update_def split: if_splits sum.splits option.splits)
qed

lemma put_other: "put_update env cfg f s = (None, s') \<Longrightarrow> Name f \<noteq> name \<Longrightarrow> keeping s \<Longrightarrow> keeping s'"
  using update counted by (auto simp: put_update_def split: prod.splits sum.splits if_splits)

lemma ignore_others: "mark_ignored env cfg fs s = (None, s') \<Longrightarrow> \<forall>f \<in> set fs. Name f \<noteq> name \<Longrightarrow> keeping s \<Longrightarrow> keeping s'"
proof (induction fs arbitrary: s)
  case (Cons f fs)
  have "Name (SetIgnored f) = Name f" by (simp add: SetIgnored_def setLocalFlags_def setNoContent_def)
  with Cons show ?case using put_other [of cfg "SetIgnored f" s] flush_zero by (auto simp: and_then_eq)
qed simp

lemma leave: "leave_ignored env cfg fi ig s = (None, ig', s') \<Longrightarrow> \<forall>f \<in> set (toIgnore ig). Name f \<noteq> name \<Longrightarrow> keeping s \<Longrightarrow>
    keeping s' \<and> (\<forall>f \<in> set (toIgnore ig'). Name f \<noteq> name)"
  using ignore_others [of cfg "toIgnore ig" s] by (auto simp: leave_ignored_def split: if_splits prod.splits)

lemma other_row:
  assumes "check_row env cfg fi ig s = (None, ig', s')" and "Name fi \<noteq> name" and "keeping s"
  shows "keeping s'"
proof -
  have "Name (deleted_file env cfg fi) = Name fi" by (simp add: deleted_file_def SetDeleted_def setNoContent_def)
  then have "mark_deleted env cfg fi s = (None, s2) \<Longrightarrow> keeping s2" for s2
    using assms(2, 3) put_other [of cfg _ "dropIncrementalPath cfg (Name fi) s"] cached
    by (auto simp: mark_deleted_def Let_def dropIncrementalPath_def split: if_splits)
  moreover have "deleted_receive_only env cfg fi s = (None, s2) \<Longrightarrow> keeping s2" for s2
    using assms(2, 3) put_other [of cfg "forget_flag fi" s] removed [of "Name fi" s] counted
    by (auto simp: deleted_receive_only_def forget_flag_def split: if_splits sum.splits option.splits)
  moreover have "put_update env cfg (SetIgnored fi) s = (None, s2) \<Longrightarrow> keeping s2" for s2
    using assms(2, 3) put_other [of cfg "SetIgnored fi" s] by (simp add: SetIgnored_def setLocalFlags_def setNoContent_def)
  ultimately show ?thesis using assms by (auto simp: check_row_def Let_def keep_ignoring_def prod_eq_iff split: if_splits)
qed

lemma row_keeps_ignored:
  "check_row env cfg fi ig s = (None, ig', s') \<Longrightarrow> Name fi \<noteq> name \<or> \<not> R_IsIgnored (sMatch env name) \<Longrightarrow>
   \<forall>f \<in> set (toIgnore ig). Name f \<noteq> name \<Longrightarrow> \<forall>f \<in> set (toIgnore ig'). Name f \<noteq> name"
  by (auto simp: check_row_def Let_def keep_ignoring_def split: if_splits)

lemma other_rows:
  "check_rows env cfg fis ig s = (None, ig', s') \<Longrightarrow> \<forall>f \<in> set fis. Name f \<noteq> name \<Longrightarrow> \<forall>f \<in> set (toIgnore ig). Name f \<noteq> name \<Longrightarrow>
   keeping s \<Longrightarrow> keeping s' \<and> (\<forall>f \<in> set (toIgnore ig'). Name f \<noteq> name)"
proof (induction fis arbitrary: ig s)
  case (Cons fi fis)
  from check_rows_steps [OF Cons.prems(1)] obtain s1 ig2 s2 ig3 s3 where steps: "flush_or_zero env s = (None, s1)"
      "leave_ignored env cfg fi ig s1 = (None, ig2, s2)" "check_row env cfg fi ig2 s2 = (None, ig3, s3)" "check_rows env cfg fis ig3 s3 = (None, ig', s')" .
  have "keeping s1" using flush_zero [OF steps(1)] Cons.prems(4) by simp
  from leave [OF steps(2) Cons.prems(3) this] have two: "keeping s2" "\<forall>f \<in> set (toIgnore ig2). Name f \<noteq> name" by simp_all
  have ne: "Name fi \<noteq> name" "\<forall>f \<in> set fis. Name f \<noteq> name" using Cons.prems(2) by simp_all
  have "keeping s3" using other_row [OF steps(3) ne(1) two(1)] .
  moreover have "\<forall>f \<in> set (toIgnore ig3). Name f \<noteq> name" using row_keeps_ignored [OF steps(3) disjI1 [OF ne(1)] two(2)] .
  ultimately show ?case using Cons.IH [OF steps(4) ne(2)] by blast
qed simp

end

text \<open>Updates of the database that do not fail.\<close>

definition reliable :: "scan_env \<Rightarrow> bool" where
  "reliable env \<longleftrightarrow> (\<forall>fs. \<not> sUpdateFails env fs)"

text \<open>A name that was not touched, and one whose entry meets a condition once the batches are written.\<close>

definition untouched :: "string \<Rightarrow> FileInfo option \<Rightarrow> scan_state \<Rightarrow> bool" where
  "untouched p v s \<longleftrightarrow> p \<notin> Name ` set (updates s) \<and> p \<notin> set (toRemove s) \<and> map_of (locals s) p = v"

definition settled :: "string \<Rightarrow> (FileInfo option \<Rightarrow> bool) \<Rightarrow> scan_state \<Rightarrow> bool" where
  "settled p G s \<longleftrightarrow>
     (\<forall>f \<in> set (updates s). Name f = p \<longrightarrow> G (Some f)) \<and> (p \<in> set (toRemove s) \<longrightarrow> G None) \<and>
     (p \<in> Name ` set (updates s) \<or> p \<in> set (toRemove s) \<or> G (map_of (locals s) p))"

lemma map_of_without: "map_of (filter (\<lambda>x. fst x \<notin> A) l) p = (if p \<in> A then None else map_of l p)"
  by (simp add: map_of_filter_key [of "\<lambda>k. k \<notin> A"])

lemma flushToRemove_cases:
  assumes "flushToRemove env s = (None, s')"
  shows "s' = s \<and> toRemove s = [] \<or> s' = s\<lparr>locals := filter (\<lambda>x. fst x \<notin> set (toRemove s)) (locals s), toRemove := []\<rparr>"
  using assms by (auto simp: flushToRemove_def split: if_splits option.splits)

lemma flushUpdates_cases:
  assumes "flushUpdates env s = (None, s')" and "reliable env"
  shows "updates s' = [] \<and> toRemove s' = toRemove s \<and> locals s' = fold put_file (updates s) (locals s)"
  using assms by (auto simp: flushUpdates_def updateLocals_def reliable_def split: if_splits option.splits)

interpretation untouched: scan_frame env p "\<lambda>s. reliable env \<longrightarrow> untouched p v s" for env p v
proof unfold_locales
  fix s s'
  assume f: "flushToRemove env s = (None, s')" and u: "reliable env \<longrightarrow> untouched p v s"
  show "reliable env \<longrightarrow> untouched p v s'"
    using flushToRemove_cases [OF f] u by (auto simp: untouched_def map_of_without)
next
  fix s s'
  assume f: "flushUpdates env s = (None, s')" and u: "reliable env \<longrightarrow> untouched p v s"
  show "reliable env \<longrightarrow> untouched p v s'"
    using flushUpdates_cases [OF f] u by (auto simp: untouched_def put_files_other)
qed (auto simp: untouched_def batch_Add_def batch_Remove_def)

lemma settled_written:
  assumes "settled p G s" and "updates s' = []" and "toRemove s' = toRemove s" and "locals s' = fold put_file (updates s) (locals s)"
  shows "settled p G s'"
proof (cases "p \<in> Name ` set (updates s)")
  case True
  then obtain f where "f \<in> set (updates s)" "Name f = p" "map_of (locals s') p = Some f"
    using put_files_last [of p "updates s" "locals s"] assms(4) by auto
  then show ?thesis using assms by (auto simp: settled_def)
next
  case False
  then show ?thesis using assms by (auto simp: settled_def put_files_other)
qed

interpretation settled: scan_frame env p "\<lambda>s. reliable env \<longrightarrow> settled p G s" for env p G
proof unfold_locales
  fix s s'
  assume f: "flushToRemove env s = (None, s')" and u: "reliable env \<longrightarrow> settled p G s"
  show "reliable env \<longrightarrow> settled p G s'"
    using flushToRemove_cases [OF f] u by (auto simp: settled_def map_of_without split: if_splits)
next
  fix s s'
  assume f: "flushUpdates env s = (None, s')" and u: "reliable env \<longrightarrow> settled p G s"
  show "reliable env \<longrightarrow> settled p G s'" using flushUpdates_cases [OF f] settled_written u by blast
qed (auto simp: settled_def batch_Add_def batch_Remove_def)

lemma settled_flush:
  assumes "batch_Flush env s = (None, s')" and "reliable env" and "settled p G s"
  shows "G (map_of (locals s') p)"
proof -
  obtain s1 where f: "flushToRemove env s = (None, s1)" "flushUpdates env s1 = (None, s')"
    using assms(1) by (auto simp: batch_Flush_def and_then_eq)
  have "toRemove s1 = []" using flushToRemove_cases [OF f(1)] by auto
  moreover have "settled p G s1" using settled.flushed_removals [OF f(1)] assms(2, 3) by blast
  ultimately have "settled p G s'" "updates s' = []" "toRemove s' = []"
    using flushUpdates_cases [OF f(2) assms(2)] settled.flushed_updates [OF f(2)] assms(2) by auto
  then show ?thesis by (simp add: settled_def)
qed

lemma untouched_settled: "untouched p v s \<Longrightarrow> G v \<Longrightarrow> settled p G s"
  by (auto simp: untouched_def settled_def)

section \<open>The disk\<close>

text \<open>Only in a folder that receives encrypted files the scan removes anything.\<close>

lemma flush_disk: "batch_FlushIfFull env s = (e, s') \<Longrightarrow> sdisk s' = sdisk s"
  by (auto simp: batch_FlushIfFull_def and_then_eq flushToRemove_def flushUpdates_def updateLocals_def split: if_splits option.splits)

lemma flush_zero_disk: "flush_or_zero env s = (e, s') \<Longrightarrow> sdisk s' = sdisk s"
  by (auto simp: flush_or_zero_def flush_disk split: prod.splits option.splits)

lemma update_disk: "batch_Update env cfg f s = (r, s') \<Longrightarrow> fType cfg \<noteq> FolderTypeReceiveEncrypted \<Longrightarrow> sdisk s' = sdisk s"
  by (auto simp: batch_Update_def batch_Add_def batch_Remove_def split: if_splits sum.splits option.splits)

lemma put_disk: "put_update env cfg f s = (e, s') \<Longrightarrow> fType cfg \<noteq> FolderTypeReceiveEncrypted \<Longrightarrow> sdisk s' = sdisk s"
  by (auto simp: put_update_def update_disk split: prod.splits sum.splits if_splits)

lemma ignored_disk: "mark_ignored env cfg fs s = (e, s') \<Longrightarrow> fType cfg \<noteq> FolderTypeReceiveEncrypted \<Longrightarrow> sdisk s' = sdisk s"
proof (induction fs arbitrary: s)
  case (Cons f fs)
  then show ?case using put_disk [of env cfg "SetIgnored f" s] flush_zero_disk [of env] by (fastforce simp: and_then_eq)
qed simp

lemma row_disk:
  assumes "check_row env cfg fi ig s = (e, ig', s')" and "fType cfg \<noteq> FolderTypeReceiveEncrypted"
  shows "sdisk s' = sdisk s"
proof -
  have "sdisk (snd (mark_deleted env cfg fi s)) = sdisk s"
    using put_disk [OF _ assms(2), of env _ "dropIncrementalPath cfg (Name fi) s"]
    by (auto simp: mark_deleted_def Let_def dropIncrementalPath_def deleted_file_def SetDeleted_def setNoContent_def prod_eq_iff split: if_splits)
  moreover have "sdisk (snd (deleted_receive_only env cfg fi s)) = sdisk s"
    using put_disk [OF _ assms(2), of env "forget_flag fi" s]
    by (auto simp: deleted_receive_only_def batch_Remove_def prod_eq_iff split: sum.splits option.splits)
  moreover have "sdisk (snd (put_update env cfg (SetIgnored fi) s)) = sdisk s"
    using put_disk [OF _ assms(2), of env "SetIgnored fi" s] by (metis prod.collapse)
  ultimately show ?thesis using assms(1) by (auto simp: check_row_def Let_def keep_ignoring_def split: if_splits)
qed

lemma rows_disk:
  "check_rows env cfg fis ig s = (None, ig', s') \<Longrightarrow> fType cfg \<noteq> FolderTypeReceiveEncrypted \<Longrightarrow> sdisk s' = sdisk s"
proof (induction fis arbitrary: ig s)
  case (Cons fi fis)
  from check_rows_steps [OF Cons.prems(1)] obtain s1 ig2 s2 ig3 s3 where steps: "flush_or_zero env s = (None, s1)"
      "leave_ignored env cfg fi ig s1 = (None, ig2, s2)" "check_row env cfg fi ig2 s2 = (None, ig3, s3)" "check_rows env cfg fis ig3 s3 = (None, ig', s')" .
  have "sdisk s2 = sdisk s1" using steps(2) ignored_disk [OF _ Cons.prems(2)] by (auto simp: leave_ignored_def split: if_splits prod.splits)
  then show ?case using flush_zero_disk [OF steps(1)] row_disk [OF steps(3) Cons.prems(2)] Cons.IH [OF steps(4) Cons.prems(2)] by simp
qed simp

section \<open>Deletions\<close>

lemma check_rows_append:
  "check_rows env cfg (as @ bs) ig s = (None, ig', s') \<Longrightarrow>
   \<exists>ig1 s1. check_rows env cfg as ig s = (None, ig1, s1) \<and> check_rows env cfg bs ig1 s1 = (None, ig', s')"
proof (induction as arbitrary: ig s)
  case (Cons a as)
  from check_rows_steps [OF Cons.prems [unfolded append_Cons]] obtain s1 ig2 s2 ig3 s3 where steps: "flush_or_zero env s = (None, s1)"
      "leave_ignored env cfg a ig s1 = (None, ig2, s2)" "check_row env cfg a ig2 s2 = (None, ig3, s3)" "check_rows env cfg (as @ bs) ig3 s3 = (None, ig', s')" .
  from Cons.IH [OF steps(4)] show ?case using steps(1-3) by simp
qed simp

definition gone_or_deleted :: "FileInfo option \<Rightarrow> bool" where
  "gone_or_deleted v \<longleftrightarrow> (case v of None \<Rightarrow> True | Some f \<Rightarrow> IsDeleted f)"

lemma settled_added: "untouched p v s \<Longrightarrow> Name f = p \<Longrightarrow> G (Some f) \<Longrightarrow> settled p G (batch_Add f s)"
  by (auto simp: untouched_def settled_def batch_Add_def image_iff)

lemma settled_removed: "untouched p v s \<Longrightarrow> G None \<Longrightarrow> settled p G (batch_Remove p s)"
  by (auto simp: untouched_def settled_def batch_Remove_def image_iff)

lemma settled_counted [simp]: "settled p G (s\<lparr>changed := c\<rparr>) = settled p G s"
  by (simp add: settled_def)

lemma update_deleted:
  assumes "put_update env cfg nf s = (None, s')" and "IsDeleted nf" and "Name nf = p" and "untouched p v s" and "fType cfg \<noteq> FolderTypeReceiveEncrypted"
  shows "settled p gone_or_deleted s'"
proof -
  have "IsEquivalentOptional os g nf cmp \<Longrightarrow> IsDeleted g \<and> Name g = p" for os g cmp
    using assms(2, 3) by (auto simp: IsEquivalentOptional_def isEquivalent_def Let_def IsDeleted_def split: if_splits)
  moreover have "settled p gone_or_deleted (batch_Add f s)" if "IsDeleted f" "Name f = p" for f
    using settled_added [OF assms(4) that(2)] that(1) by (simp add: gone_or_deleted_def)
  moreover have "settled p gone_or_deleted (batch_Remove p s)" using settled_removed [OF assms(4)] by (simp add: gone_or_deleted_def)
  ultimately show ?thesis using assms
    by (auto simp: put_update_def batch_Update_def split: sum.splits option.splits if_splits)
qed

lemma row_present:
  assumes "check_row env cfg fi ig s = (None, ig', s')" and "\<not> R_IsIgnored (sMatch env (Name fi))" and "\<not> osutil_IsDeleted (sIo env) (Name fi) (sdisk s)"
    and "IsIgnored fi \<or> \<not> IsDeleted fi \<or> \<not> IsReceiveOnlyChanged fi"
  shows "s' = s"
  using assms by (auto simp: check_row_def Let_def keep_ignoring_def split: if_splits)

lemma row_gone:
  assumes "check_row env cfg fi ig s = (None, ig', s')" and "\<not> R_IsIgnored (sMatch env (Name fi))" and "osutil_IsDeleted (sIo env) (Name fi) (sdisk s)"
    and "IsIgnored fi \<or> \<not> IsDeleted fi \<and> \<not> IsUnsupported fi" and "untouched (Name fi) v s" and "fType cfg \<noteq> FolderTypeReceiveEncrypted"
  shows "settled (Name fi) gone_or_deleted s'"
proof -
  have m: "mark_deleted env cfg fi s = (None, s')" using assms(1-4) by (auto simp: check_row_def Let_def keep_ignoring_def prod_eq_iff split: if_splits)
  define nf where "nf = (if ShouldConflict fi then (deleted_file env cfg fi)\<lparr>Version := \<lparr>Counters = []\<rparr>\<rparr> else deleted_file env cfg fi)"
  have nf: "IsDeleted nf" "Name nf = Name fi" by (simp_all add: nf_def deleted_file_def SetDeleted_def setNoContent_def IsDeleted_def)
  have put: "put_update env cfg nf (dropIncrementalPath cfg (Name fi) s) = (None, s')" using m nf(2) by (simp add: mark_deleted_def Let_def nf_def)
  have "untouched (Name fi) v (dropIncrementalPath cfg (Name fi) s)" using assms(5) by (simp add: untouched_def dropIncrementalPath_def)
  from update_deleted [OF put nf this assms(6)] show ?thesis .
qed

text \<open>The row of a name in the middle of the rows, and the rest of the scan after it.\<close>

lemma scan_of_row:
  assumes "scanSubdirsDeletedAndIgnored env cfg [sub] s = (None, s')" and "sRows env sub (locals s) = (as @ fi # bs, None)"
    and "distinct (map Name (as @ fi # bs))" and "\<not> R_IsIgnored (sMatch env (Name fi))"
    and "reliable env" and "untouched (Name fi) v s" and "fType cfg \<noteq> FolderTypeReceiveEncrypted"
  obtains ig s1 ig2 s2 where "check_row env cfg fi ig s1 = (None, ig2, s2)" "sdisk s1 = sdisk s" "untouched (Name fi) v s1"
    "\<And>G. settled (Name fi) G s2 \<Longrightarrow> settled (Name fi) G s'"
proof -
  let ?p = "Name fi" and ?ig = "\<lparr>toIgnore = [], ignoredParent = []\<rparr>"
  have others: "\<forall>f \<in> set as. Name f \<noteq> ?p" "\<forall>f \<in> set bs. Name f \<noteq> ?p" using assms(3) by (auto simp: image_iff)
  obtain igz sz where z: "check_rows env cfg (as @ fi # bs) ?ig s = (None, igz, sz)" "mark_ignored env cfg (toIgnore igz) sz = (None, s')"
    using assms(1, 2) by (auto simp: scanSubdirsDeletedAndIgnored_def split: prod.splits option.splits)
  obtain iga sa where a: "check_rows env cfg as ?ig s = (None, iga, sa)" "check_rows env cfg (fi # bs) iga sa = (None, igz, sz)"
    using check_rows_append [OF z(1)] by blast
  from check_rows_steps [OF a(2)] obtain s1 ig2 s2 ig3 s3 where st: "flush_or_zero env sa = (None, s1)"
      "leave_ignored env cfg fi iga s1 = (None, ig2, s2)" "check_row env cfg fi ig2 s2 = (None, ig3, s3)" "check_rows env cfg bs ig3 s3 = (None, igz, sz)" .
  have ua: "untouched ?p v sa" "\<forall>f \<in> set (toIgnore iga). Name f \<noteq> ?p"
    using untouched.other_rows [OF a(1) others(1), of v] assms(5, 6) by simp_all
  have "untouched ?p v s1" using untouched.flush_zero [OF st(1), of ?p v] ua(1) assms(5) by blast
  then have u2: "untouched ?p v s2" "\<forall>f \<in> set (toIgnore ig2). Name f \<noteq> ?p"
    using untouched.leave [OF st(2) ua(2), of v] assms(5) by simp_all
  have "sdisk s2 = sdisk s1" using st(2) ignored_disk [OF _ assms(7)] by (auto simp: leave_ignored_def split: if_splits prod.splits)
  then have disk: "sdisk s2 = sdisk s" using rows_disk [OF a(1) assms(7)] flush_zero_disk [OF st(1)] by simp
  have ig3: "\<forall>f \<in> set (toIgnore ig3). Name f \<noteq> ?p" using untouched.row_keeps_ignored [OF st(3) disjI2 [OF assms(4)] u2(2)] .
  have "settled ?p G s'" if "settled ?p G s3" for G
    using settled.other_rows [OF st(4) others(2) ig3, of G] settled.ignore_others [OF z(2), of ?p G] that assms(5) by blast
  then show thesis using that [OF st(3) disk u2(1)] by blast
qed

text \<open>
  C4: After the scan of the database a file that is gone from the disk is marked as deleted or no longer listed, and a file that
  is there keeps its entry, whatever happens to the other files of the folder, in whatever batches.
\<close>

theorem scan_agrees_with_disk:
  assumes "and_then (scanSubdirsDeletedAndIgnored env cfg [sub]) (batch_Flush env) s = (None, s')"
    and "sRows env sub (locals s) = (found, None)" and "distinct (map Name found)" and "fi \<in> set found" and "map_of (locals s) (Name fi) = Some fi"
    and "updates s = []" and "toRemove s = []" and "reliable env" and "fType cfg \<noteq> FolderTypeReceiveEncrypted" and "\<not> R_IsIgnored (sMatch env (Name fi))"
  shows "(\<not> osutil_IsDeleted (sIo env) (Name fi) (sdisk s) \<and> (IsIgnored fi \<or> \<not> IsDeleted fi \<or> \<not> IsReceiveOnlyChanged fi) \<longrightarrow>
      map_of (locals s') (Name fi) = Some fi) \<and>
    (osutil_IsDeleted (sIo env) (Name fi) (sdisk s) \<and> (IsIgnored fi \<or> \<not> IsDeleted fi \<and> \<not> IsUnsupported fi) \<longrightarrow>
      gone_or_deleted (map_of (locals s') (Name fi)))"
proof -
  obtain s1 where p: "scanSubdirsDeletedAndIgnored env cfg [sub] s = (None, s1)" "batch_Flush env s1 = (None, s')"
    using assms(1) by (auto simp: and_then_eq)
  obtain as bs where found: "found = as @ fi # bs" using assms(4) by (meson split_list)
  have "untouched (Name fi) (Some fi) s" using assms(5-7) by (simp add: untouched_def)
  from scan_of_row [OF p(1) assms(2, 3) [unfolded found] assms(10, 8) this assms(9)]
  obtain ig t ig2 t2 where row: "check_row env cfg fi ig t = (None, ig2, t2)" "sdisk t = sdisk s" "untouched (Name fi) (Some fi) t"
    "\<And>G. settled (Name fi) G t2 \<Longrightarrow> settled (Name fi) G s1" by metis
  note written = settled_flush [OF p(2) assms(8) row(4)]
  show ?thesis
    using written row_present [OF row(1) assms(10)] row_gone [OF row(1) assms(10) _ _ row(3) assms(9)] row(2)
      untouched_settled [OF row(3), of "\<lambda>v. v = Some fi"] by metis
qed

definition sample_result_env :: "string list \<Rightarrow> scan_env" where
  "sample_result_env hidden =
     \<lparr>sIo = no_failures, sHealth = (\<lambda>fs. None), sUpdateFails = (\<lambda>fs. False), sDropFails = (\<lambda>ns. None),
      sRows = (\<lambda>sub l. (map snd l, None)), sHashRows = (\<lambda>h l. []), sGlobal = (\<lambda>n l. Inr (map_of l n)),
      sMatch = (\<lambda>n. if n \<in> set hidden then 1 else 0), sSizeOf = (\<lambda>f. 1), sTimes = (\<lambda>n. (1, 1))\<rparr>"

definition sample_scan_cfg :: scan_cfg where
  "sample_scan_cfg =
     \<lparr>fOs = GoLinux, fType = FolderTypeSendReceive, fIgnorePerms = False, fSendOwnership = False, fSyncOwnership = False, fSendXattrs = False,
      fSyncXattrs = False, fModTimeWindow = 0, fShortID = 1, fLocalFlags = 0, fIncremental = False\<rparr>"

definition sample_scan_state :: "FileInfo list \<Rightarrow> disk \<Rightarrow> scan_state" where
  "sample_scan_state fs d =
     \<lparr>locals = map (\<lambda>f. (Name f, f)) fs, sdisk = d, updates = [], toRemove = [], deletedNames = [], changed = 0,
      icache = NewDigestCache 0 0, isnap = NewSnapshot, scanErrors = [], forcedRescanPaths = []\<rparr>"

theorem scan_agrees_with_disk_witness:
  "\<exists>s'. and_then (scanSubdirsDeletedAndIgnored (sample_result_env []) sample_scan_cfg [[]]) (batch_Flush (sample_result_env []))
        (sample_scan_state [zero_file ''a'', zero_file ''b''] [(''a'', plain_entry)]) = (None, s') \<and>
     map_of (locals s') ''a'' = Some (zero_file ''a'') \<and> gone_or_deleted (map_of (locals s') ''b'')"
proof -
  let ?env = "sample_result_env []" and ?s = "sample_scan_state [zero_file ''a'', zero_file ''b''] [(''a'', plain_entry)]"
  let ?run = "and_then (scanSubdirsDeletedAndIgnored ?env sample_scan_cfg [[]]) (batch_Flush ?env) ?s"
  have "fst ?run = None" by code_simp
  then have run: "?run = (None, snd ?run)" by (metis prod.collapse)
  have rel: "reliable ?env" by (simp add: reliable_def sample_result_env_def)
  have facts: "sRows ?env [] (locals ?s) = ([zero_file ''a'', zero_file ''b''], None)" "distinct (map Name [zero_file ''a'', zero_file ''b''])"
    "updates ?s = []" "toRemove ?s = []" "fType sample_scan_cfg \<noteq> FolderTypeReceiveEncrypted"
    by code_simp+
  have a: "map_of (locals ?s) (Name (zero_file ''a'')) = Some (zero_file ''a'')" "\<not> R_IsIgnored (sMatch ?env (Name (zero_file ''a'')))"
    "\<not> osutil_IsDeleted (sIo ?env) (Name (zero_file ''a'')) (sdisk ?s)" "\<not> IsDeleted (zero_file ''a'')" "Name (zero_file ''a'') = ''a''" by code_simp+
  have b: "map_of (locals ?s) (Name (zero_file ''b'')) = Some (zero_file ''b'')" "\<not> R_IsIgnored (sMatch ?env (Name (zero_file ''b'')))"
    "osutil_IsDeleted (sIo ?env) (Name (zero_file ''b'')) (sdisk ?s)" "\<not> IsDeleted (zero_file ''b'')" "\<not> IsUnsupported (zero_file ''b'')" "Name (zero_file ''b'') = ''b''"
    by code_simp+
  have "map_of (locals (snd ?run)) ''a'' = Some (zero_file ''a'')"
    using scan_agrees_with_disk [OF run facts(1, 2) _ a(1) facts(3, 4) rel facts(5) a(2)] a(3-5) by simp
  moreover have "gone_or_deleted (map_of (locals (snd ?run)) ''b'')"
    using scan_agrees_with_disk [OF run facts(1, 2) _ b(1) facts(3, 4) rel facts(5) b(2)] b(3-6) by simp
  ultimately show ?thesis using run by blast
qed

text \<open>
  A directory that matches an ignore pattern is to be marked as ignored only when nothing in it is unignored.  When a name that sorts between
  the directory and its content comes first, as \<open>a-b\<close> between \<open>a\<close> and \<open>a/c\<close>, the directory is marked nevertheless.
\<close>

theorem sibling_hides_unignored_content:
  "let dir = (zero_file ''a'')\<lparr>Type := FileInfoTypeDirectory\<rparr>; disk = [(''a'', new_entry (dir_stat 0x1ED) []), (''a-b'', plain_entry), (''a/c'', plain_entry)];
       scan = (\<lambda>fs. snd (and_then (scanSubdirsDeletedAndIgnored (sample_result_env [''a'']) sample_scan_cfg [[]]) (batch_Flush (sample_result_env [''a'']))
                 (sample_scan_state fs disk)))
   in map_of (locals (scan [dir, zero_file ''a/c'', zero_file ''a-b''])) ''a'' = Some dir \<and>
      map_of (locals (scan [dir, zero_file ''a-b'', zero_file ''a/c''])) ''a'' = Some (SetIgnored dir)"
  by code_simp

end
