(* ===== verification/Folder_Types.thy ===== *)
theory Folder_Types
  imports Scan_Result
begin

text \<open>
  Folders that only send or only receive, \<^verbatim>\<open>lib/model/folder_sendonly.go\<close>,
  \<^verbatim>\<open>folder_recvonly.go\<close> and \<^verbatim>\<open>folder_recvenc.go\<close>: merging and overriding the
  global state, and reverting local changes.

  State, batches and the world outside are those of \<^verbatim>\<open>Scan_Folder\<close>; removing items from the disk is that of
  \<^verbatim>\<open>Item_Pull\<close>.
\<close>

section \<open>Batches without a health check\<close>

definition no_health :: "scan_env \<Rightarrow> scan_env" where
  "no_health env = env\<lparr>sHealth := (\<lambda>fs. None)\<rparr>"

definition plain_FlushIfFull :: "scan_env \<Rightarrow> scan_state \<Rightarrow> scan_state" where
  "plain_FlushIfFull env s = (if updates_full env (updates s) then snd (flushUpdates (no_health env) s) else s)"

definition plain_Flush :: "scan_env \<Rightarrow> scan_state \<Rightarrow> scan_state" where
  "plain_Flush env s = snd (flushUpdates (no_health env) s)"

text \<open>The needed files, where reading them breaks off, and files that cannot be read.\<close>

record need_world =
  needRows :: "FileInfo list"
  needBroken :: "string option"
  getFails :: "string \<Rightarrow> string option"

section \<open>Folders that only send\<close>

definition send_only_comparison :: "scan_cfg \<Rightarrow> FileInfoComparison" where
  "send_only_comparison cfg =
     \<lparr>ModTimeWindow = fModTimeWindow cfg, IgnorePerms = fIgnorePerms cfg, IgnoreBlocks = False, IgnoreFlags = 0,
      IgnoreOwnership = (\<not> fSyncOwnership cfg), IgnoreXattrs = (\<not> fSyncXattrs cfg)\<rparr>"

text \<open>What is recorded for a needed file, if anything.\<close>

definition send_only_accepts :: "scan_env \<Rightarrow> scan_cfg \<Rightarrow> FileInfo \<Rightarrow> FileInfo option \<Rightarrow> FileInfo option" where
  "send_only_accepts env cfg f cur =
     (if R_IsIgnored (sMatch env (Name f)) then Some (SetIgnored f)
      else
        case cur of
          None \<Rightarrow> if IsInvalid f \<or> IsDeleted f then Some f else None
        | Some c \<Rightarrow> if \<not> IsEquivalentOptional (fOs cfg) f c (send_only_comparison cfg) then None else Some f)"

fun send_only_loop :: "scan_env \<Rightarrow> scan_cfg \<Rightarrow> (string \<Rightarrow> string option) \<Rightarrow> FileInfo list \<Rightarrow> scan_state \<Rightarrow> string option \<times> scan_state" where
  "send_only_loop env cfg fails [] s = (None, s)"
| "send_only_loop env cfg fails (f # fs) s =
     (let s = plain_FlushIfFull env s
      in if \<not> R_IsIgnored (sMatch env (Name f)) \<and> fails (Name f) \<noteq> None then (fails (Name f), s)
         else send_only_loop env cfg fails fs
                (case send_only_accepts env cfg f (map_of (locals s) (Name f)) of None \<Rightarrow> s | Some g \<Rightarrow> batch_Add g s))"

definition send_only_pull :: "scan_env \<Rightarrow> scan_cfg \<Rightarrow> need_world \<Rightarrow> scan_state \<Rightarrow> (bool \<times> string option) \<times> scan_state" where
  "send_only_pull env cfg w s =
     (case send_only_loop env cfg (getFails w) (needRows w) s of
        (Some e, s) \<Rightarrow> ((False, Some e), s)
      | (None, s) \<Rightarrow> (case needBroken w of Some e \<Rightarrow> ((False, Some e), s) | None \<Rightarrow> ((True, None), plain_Flush env s)))"

text \<open>The local version of a file made newer than the global one; a file that is missing becomes a deletion.\<close>

definition overriding :: "scan_env \<Rightarrow> scan_cfg \<Rightarrow> FileInfo \<Rightarrow> FileInfo option \<Rightarrow> FileInfo option" where
  "overriding env cfg need have_file =
     (case have_file of
        Some c \<Rightarrow>
          if IsInvalid c then None
          else if Name c \<noteq> Name need
          then Some ((SetDeleted need (fShortID cfg) (fst (sTimes env (Name need))) (snd (sTimes env (Name need))))\<lparr>Sequence := 0\<rparr>)
          else Some (c\<lparr>Version := updateWithNow (Merge (Version c) (Version need)) (fShortID cfg) (fst (sTimes env (Name need))), Sequence := 0\<rparr>)
      | None \<Rightarrow> Some ((SetDeleted need (fShortID cfg) (fst (sTimes env (Name need))) (snd (sTimes env (Name need))))\<lparr>Sequence := 0\<rparr>))"

fun override_loop :: "scan_env \<Rightarrow> scan_cfg \<Rightarrow> (string \<Rightarrow> string option) \<Rightarrow> FileInfo list \<Rightarrow> scan_state \<Rightarrow> string option \<times> scan_state" where
  "override_loop env cfg fails [] s = (None, s)"
| "override_loop env cfg fails (need # needs) s =
     (let s = plain_FlushIfFull env s
      in if fails (Name need) \<noteq> None then (fails (Name need), s)
         else override_loop env cfg fails needs
                (case overriding env cfg need (map_of (locals s) (Name need)) of None \<Rightarrow> s | Some g \<Rightarrow> batch_Add g s))"

definition override :: "scan_env \<Rightarrow> scan_cfg \<Rightarrow> need_world \<Rightarrow> scan_state \<Rightarrow> string option \<times> scan_state" where
  "override env cfg w s =
     (case override_loop env cfg (getFails w) (needRows w) s of
        (Some e, s) \<Rightarrow> (Some e, s)
      | (None, s) \<Rightarrow> (case needBroken w of Some e \<Rightarrow> (Some e, s) | None \<Rightarrow> (None, plain_Flush env s)))"

section \<open>Folders that only receive\<close>

text \<open>Removing files at once and directories last.\<close>

definition deleteQueue_handle ::
  "item_env \<Rightarrow> item_cfg \<Rightarrow> FileInfo \<Rightarrow> string list \<times> item_state \<Rightarrow> (bool \<times> pull_error option) \<times> string list \<times> item_state" where
  "deleteQueue_handle ienv icfg fi q =
     (let ign = imatch ienv (Name fi)
      in if R_IsIgnored ign \<and> \<not> IsDeletable ign then ((False, None), q)
         else if IsDirectory fi then ((False, None), (fst q @ [Name fi], snd q))
         else case deleteItemOnDisk ienv icfg fi (snd q) of (err, st) \<Rightarrow> ((True, err), (fst q, st)))"

fun delete_dirs :: "item_env \<Rightarrow> item_cfg \<Rightarrow> string list \<Rightarrow> item_state \<Rightarrow> (string list \<times> pull_error option) \<times> item_state" where
  "delete_dirs ienv icfg [] st = (([], None), st)"
| "delete_dirs ienv icfg (d # ds) st =
     (case deleteDirOnDisk ienv icfg d st of (err, st) \<Rightarrow>
      case delete_dirs ienv icfg ds st of ((deleted, firstError), st) \<Rightarrow>
        ((if err = None then d # deleted else deleted, if err \<noteq> None then err else firstError), st))"

definition deleteQueue_flush :: "item_env \<Rightarrow> item_cfg \<Rightarrow> string list \<times> item_state \<Rightarrow> (string list \<times> pull_error option) \<times> item_state" where
  "deleteQueue_flush ienv icfg q = delete_dirs ienv icfg (rev (sort (fst q))) (snd q)"

definition revert_comparison :: "scan_cfg \<Rightarrow> FileInfoComparison" where
  "revert_comparison cfg =
     \<lparr>ModTimeWindow = fModTimeWindow cfg, IgnorePerms = False, IgnoreBlocks = False, IgnoreFlags = FlagLocalReceiveOnly,
      IgnoreOwnership = (\<not> fSyncOwnership cfg), IgnoreXattrs = (\<not> fSyncXattrs cfg)\<rparr>"

definition no_version :: vector where "no_version = \<lparr>Counters = []\<rparr>"

type_synonym revert_state = "scan_state \<times> string list \<times> item_state"

definition revert_put :: "scan_env \<Rightarrow> FileInfo \<Rightarrow> revert_state \<Rightarrow> string option \<times> revert_state" where
  "revert_put env f r = (None, plain_FlushIfFull env (batch_Add f (fst r)), snd r)"

definition revert_row :: "scan_env \<Rightarrow> scan_cfg \<Rightarrow> item_env \<Rightarrow> item_cfg \<Rightarrow> FileInfo \<Rightarrow> revert_state \<Rightarrow> string option \<times> revert_state" where
  "revert_row env cfg ienv icfg fi r =
     (if \<not> IsReceiveOnlyChanged fi then (None, r)
      else
        let fi = forget_flag fi
        in case sGlobal env (Name fi) (locals (fst r)) of
             Inl e \<Rightarrow> (Some e, r)
           | Inr None \<Rightarrow> (None, r)
           | Inr (Some gf) \<Rightarrow>
               if IsReceiveOnlyChanged gf then
                 (if Deleted fi then revert_put env (fi\<lparr>Version := no_version\<rparr>) r
                  else
                    case deleteQueue_handle ienv icfg fi (snd r) of
                      ((handled, err), q) \<Rightarrow>
                        if err \<noteq> None \<or> \<not> handled then (None, fst r, q)
                        else revert_put env
                               ((SetDeleted fi (fShortID cfg) (fst (sTimes env (Name fi))) (snd (sTimes env (Name fi))))\<lparr>Version := no_version\<rparr>) (fst r, q))
               else if IsEquivalentOptional (fOs cfg) gf fi (revert_comparison cfg) then revert_put env gf r
               else revert_put env (fi\<lparr>Version := no_version\<rparr>) r)"

fun revert_rows :: "scan_env \<Rightarrow> scan_cfg \<Rightarrow> item_env \<Rightarrow> item_cfg \<Rightarrow> FileInfo list \<Rightarrow> revert_state \<Rightarrow> string option \<times> revert_state" where
  "revert_rows env cfg ienv icfg [] r = (None, r)"
| "revert_rows env cfg ienv icfg (fi # fis) r =
     and_then (revert_row env cfg ienv icfg fi) (revert_rows env cfg ienv icfg fis) r"

definition deleted_dir :: "scan_env \<Rightarrow> scan_cfg \<Rightarrow> string \<Rightarrow> FileInfo" where
  "deleted_dir env cfg dir =
     (zero_file dir)\<lparr>Type := FileInfoTypeDirectory, ModifiedS := snd (sTimes env dir), ModifiedBy := fShortID cfg, Deleted := True\<rparr>"

definition receive_only_revert ::
  "scan_env \<Rightarrow> scan_cfg \<Rightarrow> item_env \<Rightarrow> item_cfg \<Rightarrow> scan_state \<Rightarrow> item_state \<Rightarrow> string option \<times> scan_state \<times> item_state" where
  "receive_only_revert env cfg ienv icfg s st =
     (case sRows env [] (locals s) of (found, broken) \<Rightarrow>
      case revert_rows env cfg ienv icfg found (s, [], st) of
        (Some e, s, q) \<Rightarrow> (Some e, s, snd q)
      | (None, s, q) \<Rightarrow>
          (case broken of
             Some e \<Rightarrow> (Some e, s, snd q)
           | None \<Rightarrow>
               (case deleteQueue_flush ienv icfg q of
                  ((deleted, err), st) \<Rightarrow>
                    (None, plain_Flush env (fold (\<lambda>d. batch_Add (deleted_dir env cfg d)) deleted (plain_Flush env s)), st))))"

section \<open>Folders that receive encrypted files\<close>

definition encrypted_row :: "scan_env \<Rightarrow> scan_cfg \<Rightarrow> item_env \<Rightarrow> FileInfo \<Rightarrow> revert_state \<Rightarrow> revert_state" where
  "encrypted_row env cfg ienv fi r =
     (let s = plain_FlushIfFull env (fst r)
      in if \<not> IsReceiveOnlyChanged fi \<or> IsDeleted fi then (s, snd r)
         else if IsDirectory fi then (s, fst (snd r) @ [Name fi], snd (snd r))
         else
           case on_disk (inWritableDir (eio ienv) (fs_Remove (eio ienv)) (Name fi)) (snd (snd r)) of
             (err, st) \<Rightarrow>
               (batch_Add ((SetDeleted fi (fShortID cfg) (fst (sTimes env (Name fi))) (snd (sTimes env (Name fi))))\<lparr>Version := no_version\<rparr>)
                  (if err \<noteq> None \<and> err \<noteq> Some (FsErr NotExistErr) then newScanError (Name fi) ''deleting unexpected item'' s else s),
                fst (snd r), st))"

definition revertHandleDirs :: "item_env \<Rightarrow> item_cfg \<Rightarrow> string list \<Rightarrow> scan_state \<times> item_state \<Rightarrow> scan_state \<times> item_state" where
  "revertHandleDirs ienv icfg dirs =
     fold (\<lambda>dir r. case deleteDirOnDisk ienv icfg dir (snd r) of
                     (err, st) \<Rightarrow> (if err \<noteq> None then newScanError dir ''deleting unexpected dir'' (fst r) else fst r, send_scan dir st))
       (rev (sort dirs))"

definition receive_encrypted_revert ::
  "scan_env \<Rightarrow> scan_cfg \<Rightarrow> item_env \<Rightarrow> item_cfg \<Rightarrow> scan_state \<Rightarrow> item_state \<Rightarrow> string option \<times> scan_state \<times> item_state" where
  "receive_encrypted_revert env cfg ienv icfg s st =
     (case sRows env [] (locals s) of (found, broken) \<Rightarrow>
      case fold (encrypted_row env cfg ienv) found (s, [], st) of
        (s, dirs, st) \<Rightarrow>
          case broken of
            Some e \<Rightarrow> (Some e, s, st)
          | None \<Rightarrow> (case revertHandleDirs ienv icfg dirs (s, st) of (s, st) \<Rightarrow> (None, plain_Flush env s, st)))"

section \<open>Overriding\<close>

lemma reliable_no_health [simp]: "reliable (no_health env) = reliable env"
  by (simp add: reliable_def no_health_def)

lemma plain_flush: "flushUpdates (no_health env) s = (None, plain_Flush env s)"
  by (auto simp: plain_Flush_def flushUpdates_def no_health_def)

lemma plain_untouched:
  assumes "reliable env" and "untouched p v s"
  shows "untouched p v (plain_FlushIfFull env s)" and "untouched p v (plain_Flush env s)"
  using untouched.flushed_updates [OF plain_flush, of env p v s] assms by (simp_all add: plain_FlushIfFull_def plain_Flush_def)

lemma plain_settled:
  assumes "reliable env" and "settled p G s"
  shows "settled p G (plain_FlushIfFull env s)" and "settled p G (plain_Flush env s)"
  using settled.flushed_updates [OF plain_flush, of env p G s] assms by (simp_all add: plain_FlushIfFull_def plain_Flush_def)

lemma plain_removals: "toRemove (plain_FlushIfFull env s) = toRemove s" "toRemove (plain_Flush env s) = toRemove s" "updates (plain_Flush env s) = []"
  by (auto simp: plain_FlushIfFull_def plain_Flush_def flushUpdates_def no_health_def updateLocals_def)

lemma settled_result:
  assumes "reliable env" and "settled p G s" and "toRemove s = []"
  shows "G (map_of (locals (plain_Flush env s)) p)"
  using plain_settled(2) [OF assms(1, 2)] plain_removals [of env s] assms(3) by (simp add: settled_def)

lemma overriding_name:
  "overriding env cfg need v = Some g \<Longrightarrow> Name g = Name need"
  by (auto simp: overriding_def SetDeleted_def setNoContent_def split: option.splits if_splits)

text \<open>An update of another name.\<close>

lemma add_other:
  assumes "reliable env" and "Name g \<noteq> p"
  shows "untouched p v s \<Longrightarrow> untouched p v (batch_Add g s)" and "settled p G s \<Longrightarrow> settled p G (batch_Add g s)"
  using assms(2) by (auto simp: untouched_def settled_def batch_Add_def)

lemma override_loop_settled:
  "override_loop env cfg fails needs s = (None, s') \<Longrightarrow> reliable env \<Longrightarrow> p \<notin> Name ` set needs \<Longrightarrow> settled p G s \<Longrightarrow> toRemove s = [] \<Longrightarrow>
   settled p G s' \<and> toRemove s' = []"
proof (induction needs arbitrary: s)
  case (Cons need needs)
  let ?s = "plain_FlushIfFull env s"
  let ?t = "case overriding env cfg need (map_of (locals ?s) (Name need)) of None \<Rightarrow> ?s | Some g \<Rightarrow> batch_Add g ?s"
  have run: "override_loop env cfg fails needs ?t = (None, s')" using Cons.prems(1) by (auto simp: Let_def split: if_splits)
  have "settled p G ?t" using plain_settled(1) [OF Cons.prems(2, 4)] add_other(2) [OF Cons.prems(2)] Cons.prems(3) overriding_name
    by (fastforce split: option.split)
  moreover have "toRemove ?t = []" using Cons.prems(5) by (simp add: plain_removals batch_Add_def split: option.split)
  ultimately show ?case using Cons.IH [OF run Cons.prems(2)] Cons.prems(3) by simp
qed simp

lemma override_loop_entry:
  "override_loop env cfg fails needs s = (None, s') \<Longrightarrow> reliable env \<Longrightarrow> distinct (map Name needs) \<Longrightarrow> need \<in> set needs \<Longrightarrow>
   untouched (Name need) v s \<Longrightarrow> toRemove s = [] \<Longrightarrow>
   settled (Name need) (\<lambda>w. w = (case overriding env cfg need v of None \<Rightarrow> v | Some g \<Rightarrow> Some g)) s' \<and> toRemove s' = []"
proof (induction needs arbitrary: s)
  case (Cons n needs)
  let ?s = "plain_FlushIfFull env s"
  let ?t = "case overriding env cfg n (map_of (locals ?s) (Name n)) of None \<Rightarrow> ?s | Some g \<Rightarrow> batch_Add g ?s"
  have run: "override_loop env cfg fails needs ?t = (None, s')" using Cons.prems(1) by (auto simp: Let_def split: if_splits)
  have u: "untouched (Name need) v ?s" using plain_untouched(1) [OF Cons.prems(2, 5)] .
  have rem: "toRemove ?t = []" using Cons.prems(6) by (simp add: plain_removals batch_Add_def split: option.split)
  show ?case
  proof (cases "need = n")
    case True
    then have v: "map_of (locals ?s) (Name n) = v" using u by (simp add: untouched_def)
    have "settled (Name need) (\<lambda>w. w = (case overriding env cfg need v of None \<Rightarrow> v | Some g \<Rightarrow> Some g)) ?t"
      using u v True untouched_settled [OF u] settled_added [OF u] overriding_name by (fastforce split: option.split)
    moreover have "Name need \<notin> Name ` set needs" using Cons.prems(3) True by simp
    ultimately show ?thesis using override_loop_settled [OF run Cons.prems(2) _ _ rem] by blast
  next
    case False
    then have mem: "need \<in> set needs" "Name n \<noteq> Name need" using Cons.prems(3, 4) by auto
    have "untouched (Name need) v ?t" using u mem(2) add_other(1) [OF Cons.prems(2)] overriding_name by (fastforce split: option.split)
    then show ?thesis using Cons.IH [OF run Cons.prems(2) _ mem(1) _ rem] Cons.prems(3) by simp
  qed
qed simp

lemma merged_is_newer:
  assumes "wf_vector a" and "wf_vector b" and "Counter (Merge a b) i < - 1"
  shows "Compare (updateWithNow (Merge a b) i now) a = Greater" and "Compare (updateWithNow (Merge a b) i now) b = Greater"
proof -
  let ?m = "Merge a b" and ?u = "updateWithNow (Merge a b) i now"
  have wf: "wf_vector ?m" "wf_vector ?u" using assms by (simp_all add: wf_Merge wf_updateWithNow)
  have view: "Counter ?m j = max (Counter a j) (Counter b j)" for j using vv.view_merge [OF assms(1, 2)] .
  have "Compare ?u ?m = Greater" using update_strictly_greater [OF wf(1) assms(3)] by blast
  then have "\<forall>j. Counter ?m j \<le> Counter ?u j" "\<exists>j. Counter ?m j < Counter ?u j" using vv.cmp_Greater_iff [OF wf(2, 1)] by auto
  then show "Compare ?u a = Greater" "Compare ?u b = Greater"
    using vv.cmp_Greater_iff [OF wf(2) assms(1)] vv.cmp_Greater_iff [OF wf(2) assms(2)] view by (metis max.bounded_iff max.strict_boundedE)+
qed

text \<open>
  C31: After overriding, a needed file that the folder has keeps its local content with a version newer than the local and the global one, a
  needed file that it does not have is recorded as deleted with a version newer than the global one, and a file in a bad state is left alone.
\<close>

theorem override_makes_local_state_newer:
  assumes "override env cfg w s = (None, s')" and "need \<in> set (needRows w)" and "distinct (map Name (needRows w))" and "reliable env"
    and "updates s = []" and "toRemove s = []" and "wf_vector (Version need)" and "Counter (Version need) (fShortID cfg) < - 1"
    and "\<And>c. map_of (locals s) (Name need) = Some c \<Longrightarrow> Name c = Name need \<and> wf_vector (Version c) \<and> Counter (Version c) (fShortID cfg) < - 1"
  shows "case map_of (locals s) (Name need) of
      None \<Rightarrow> \<exists>g. map_of (locals s') (Name need) = Some g \<and> IsDeleted g \<and> Compare (Version g) (Version need) = Greater
    | Some c \<Rightarrow>
        if IsInvalid c then map_of (locals s') (Name need) = Some c
        else \<exists>v. map_of (locals s') (Name need) = Some (c\<lparr>Version := v, Sequence := 0\<rparr>) \<and>
               Compare v (Version c) = Greater \<and> Compare v (Version need) = Greater"
proof -
  let ?v = "map_of (locals s) (Name need)" and ?now = "fst (sTimes env (Name need))"
  obtain s1 where loop: "override_loop env cfg (getFails w) (needRows w) s = (None, s1)" and s': "s' = plain_Flush env s1"
    using assms(1) by (auto simp: override_def split: prod.splits option.splits)
  have "untouched (Name need) ?v s" using assms(5, 6) by (simp add: untouched_def)
  from override_loop_entry [OF loop assms(4, 3, 2) this assms(6)] settled_result [OF assms(4)]
  have entry: "map_of (locals s') (Name need) = (case overriding env cfg need ?v of None \<Rightarrow> ?v | Some g \<Rightarrow> Some g)" unfolding s' by blast
  show ?thesis
  proof (cases ?v)
    case None
    have "Compare (updateWithNow (Version need) (fShortID cfg) ?now) (Version need) = Greater" using update_strictly_greater [OF assms(7, 8)] by blast
    then show ?thesis using None entry by (simp add: overriding_def SetDeleted_def setNoContent_def IsDeleted_def)
  next
    case (Some c)
    note c = assms(9) [OF Some]
    have "Counter (Merge (Version c) (Version need)) (fShortID cfg) < - 1"
      using vv.view_merge [of "Version c" "Version need"] c assms(7, 8) by simp
    from merged_is_newer [OF _ assms(7) this, of ?now] c show ?thesis using Some entry by (auto simp: overriding_def)
  qed
qed

theorem override_makes_local_state_newer_witness:
  "\<exists>v. map_of (locals (snd (override (sample_result_env []) sample_scan_cfg \<lparr>needRows = [(zero_file ''a'')\<lparr>Version := vec_a\<rparr>], needBroken = None, getFails = (\<lambda>n. None)\<rparr>
       (sample_scan_state [zero_file ''a''] [])))) ''a'' = Some ((zero_file ''a'')\<lparr>Version := v, Sequence := 0\<rparr>) \<and> Compare v vec_a = Greater"
proof -
  let ?need = "(zero_file ''a'')\<lparr>Version := vec_a\<rparr>" and ?env = "sample_result_env []" and ?s = "sample_scan_state [zero_file ''a''] []"
  let ?w = "\<lparr>needRows = [?need], needBroken = None, getFails = (\<lambda>n. None)\<rparr>"
  have "fst (override ?env sample_scan_cfg ?w ?s) = None" by code_simp
  then have run: "override ?env sample_scan_cfg ?w ?s = (None, snd (override ?env sample_scan_cfg ?w ?s))" by (metis prod.collapse)
  have rel: "reliable ?env" by (simp add: reliable_def sample_result_env_def)
  have loc: "map_of (locals ?s) (Name ?need) = Some (zero_file ''a'')" "updates ?s = []" "toRemove ?s = []" "\<not> IsInvalid (zero_file ''a'')"
    "?need \<in> set (needRows ?w)" "distinct (map Name (needRows ?w))" by code_simp+
  have wf: "wf_vector (Version ?need)" "Counter (Version ?need) (fShortID sample_scan_cfg) < - 1"
    by (simp_all add: sample_scan_cfg_def Counter_def vec_a_def wf_vector_def)
  have cur: "Name (zero_file ''a'') = Name ?need \<and> wf_vector (Version (zero_file ''a'')) \<and> Counter (Version (zero_file ''a'')) (fShortID sample_scan_cfg) < - 1"
    by (simp add: zero_file_def Counter_def wf_vector_def word_gt_0)
  have nm: "Name ?need = ''a''" "Version ?need = vec_a" by (simp_all add: zero_file_def)
  from override_makes_local_state_newer [OF run loc(5, 6) rel loc(2, 3) wf] cur loc(1, 4) show ?thesis unfolding nm by auto
qed

end
