(* ===== verification/Model_Requests.thy ===== *)
theory Model_Requests
  imports File_Blocks Disk BEP_Messages
begin

text \<open>
  Answering the requests of other devices, \<^verbatim>\<open>lib/model/model.go\<close>: \<open>Request\<close> with its checks and
  the recheck of a file whose data does not have the requested hash.

  A buffer comes from a pool and holds what its last user left; the limiters and logging are left out.
\<close>

section \<open>Reading a block\<close>

datatype ReadAt_error = ReadEOF | ReadErr fs_error

text \<open>The number of bytes read, the error, and the buffer with these bytes at its start.\<close>

definition readOffsetIntoBuf :: "io \<Rightarrow> disk \<Rightarrow> string \<Rightarrow> int \<Rightarrow> bytes \<Rightarrow> (nat \<times> ReadAt_error option) \<times> bytes" where
  "readOffsetIntoBuf io d name offset buf =
     (case io OpOpen name d of
        Some e \<Rightarrow> ((0, Some (ReadErr (fs_error_of e))), buf)
      | None \<Rightarrow>
          (case map_of d name of
             None \<Rightarrow> ((0, Some (ReadErr NotExistErr)), buf)
           | Some e \<Rightarrow>
               let part = take (length buf) (drop (nat offset) (edata e)); n = length part
               in ((n, if n < length buf then Some ReadEOF else None), part @ drop n buf)))"

section \<open>Requests\<close>

record served_folder =
  gShared :: "bytes list"
  gPaused :: bool
  gType :: FolderType
  gDisk :: disk
  gMatch :: "string \<Rightarrow> R"
  gLocal :: "string \<Rightarrow> FileInfo option"
  gRunning :: bool

record serve_world =
  wIo :: io
  wSha :: "bytes \<Rightarrow> bytes"
  wNameHash :: "string \<Rightarrow> bytes"
  wPool :: "nat \<Rightarrow> bytes"
  wFolders :: "string \<Rightarrow> served_folder option"

text \<open>The checks before the disk is looked at; the result is the folder and the canonical name.\<close>

definition check_request :: "serve_world \<Rightarrow> bytes \<Rightarrow> Request \<Rightarrow> (request_error, served_folder \<times> string) outcome" where
  "check_request w dev req =
     (if ReqSize req < 0 \<or> ReqOffset req < 0 then Err ErrInvalid
      else
        case wFolders w (ReqFolder req) of
          None \<Rightarrow> Err ErrGeneric
        | Some g \<Rightarrow>
            if dev \<notin> set (gShared g) then Err ErrGeneric
            else if gPaused g then Err ErrGeneric
            else
              case Canonicalize (ReqName req) of
                Ok name \<Rightarrow>
                  if IsInternal name then Err ErrInvalid
                  else if R_IsIgnored (gMatch g name) then Err ErrInvalid
                  else Ok (g, name)
              | _ \<Rightarrow> Err ErrGeneric)"

definition regular_file :: "serve_world \<Rightarrow> served_folder \<Rightarrow> string \<Rightarrow> bool" where
  "regular_file w g name \<longleftrightarrow> (case Lstat (wIo w) name (gDisk g) of Inl e \<Rightarrow> False | Inr st \<Rightarrow> sIsRegular st)"

text \<open>Whether the file is to be rehashed: the database says that the block has the requested hash.\<close>

definition recheckFile :: "served_folder \<Rightarrow> string \<Rightarrow> int \<Rightarrow> bytes \<Rightarrow> bool" where
  "recheckFile g name offset h =
     (case gLocal g name of
        None \<Rightarrow> False
      | Some cf \<Rightarrow>
          if IsDeleted cf \<or> IsInvalid cf \<or> IsSymlink cf \<or> IsDirectory cf then False
          else
            let blockIndex = nat (offset div FileInfo_BlockSize cf)
            in if length (Blocks cf) \<le> blockIndex then False
               else if Hash (Blocks cf ! blockIndex) \<noteq> h then False
               else gRunning g)"

text \<open>The finished part of a temporary file, when it has the requested hash.\<close>

definition read_temporary :: "serve_world \<Rightarrow> served_folder \<Rightarrow> string \<Rightarrow> Request \<Rightarrow> (request_error, bytes option \<times> bytes) outcome" where
  "read_temporary w g name req =
     (let buf = wPool w (nat (ReqSize req)); temp = TempName (wNameHash w) name
      in if \<not> FromTemporary req then Ok (None, buf)
         else if \<not> regular_file w g temp then Err ErrNoSuchFile
         else
           case readOffsetIntoBuf (wIo w) (gDisk g) temp (ReqOffset req) buf of
             ((n, err), buf) \<Rightarrow> Ok (if err = None \<and> Validate (wSha w) buf (ReqHash req) then Some buf else None, buf))"

definition read_file :: "serve_world \<Rightarrow> served_folder \<Rightarrow> string \<Rightarrow> Request \<Rightarrow> bytes \<Rightarrow> (request_error, bytes) outcome \<times> string list" where
  "read_file w g name req buf =
     (if \<not> regular_file w g name then (Err ErrNoSuchFile, [])
      else
        case readOffsetIntoBuf (wIo w) (gDisk g) name (ReqOffset req) buf of
          ((n, err), buf) \<Rightarrow>
            if err = Some (ReadErr NotExistErr) then (Err ErrNoSuchFile, [])
            else if err \<noteq> None \<and> err \<noteq> Some ReadEOF then (Err ErrGeneric, [])
            else if gType g \<noteq> FolderTypeReceiveEncrypted \<and> 0 < length (ReqHash req) \<and> \<not> Validate (wSha w) (take n buf) (ReqHash req)
            then (Err ErrNoSuchFile, if recheckFile g name (ReqOffset req) (ReqHash req) then [name] else [])
            else (Ok buf, []))"

text \<open>The answer, and the files to be rehashed.\<close>

definition model_Request :: "serve_world \<Rightarrow> bytes \<Rightarrow> Request \<Rightarrow> (request_error, bytes) outcome \<times> string list" where
  "model_Request w dev req =
     (case check_request w dev req of
        Ok (g, name) \<Rightarrow>
          if TraversesSymlink (wIo w) (path_Dir name) (gDisk g) \<noteq> PathOk then (Err ErrNoSuchFile, [])
          else
            (case read_temporary w g name req of
               Ok (Some buf, b) \<Rightarrow> (Ok buf, [])
             | Ok (None, buf) \<Rightarrow> read_file w g name req buf
             | Err e \<Rightarrow> (Err e, [])
             | Panic \<Rightarrow> (Panic, []))
      | Err e \<Rightarrow> (Err e, [])
      | Panic \<Rightarrow> (Panic, []))"

section \<open>What is served\<close>

lemma check_request_ok:
  assumes "check_request w dev req = Ok (g, name)"
  shows "0 \<le> ReqSize req" "0 \<le> ReqOffset req" "wFolders w (ReqFolder req) = Some g" "dev \<in> set (gShared g)" "\<not> gPaused g"
    "Canonicalize (ReqName req) = Ok name" "\<not> IsInternal name" "\<not> R_IsIgnored (gMatch g name)"
  using assms by (auto simp: check_request_def split: if_splits option.splits outcome.splits)

text \<open>The part of a file that a request asks for; behind the end of the file it is shorter than the request.\<close>

definition requested_part :: "Request \<Rightarrow> entry \<Rightarrow> bytes" where
  "requested_part req e = take (nat (ReqSize req)) (drop (nat (ReqOffset req)) (edata e))"

lemma readOffset_block:
  assumes "readOffsetIntoBuf io d name off buf = ((n, err), buf')" and "err = None \<or> err = Some ReadEOF"
  shows "\<exists>e. map_of d name = Some e \<and> n = length (take (length buf) (drop (nat off) (edata e))) \<and>
    take n buf' = take (length buf) (drop (nat off) (edata e)) \<and> drop n buf' = drop n buf \<and>
    length buf' = length buf \<and> (err = None \<longrightarrow> n = length buf)"
  using assms by (auto simp: readOffsetIntoBuf_def Let_def split: option.splits if_splits)

lemma regular_file_entry: "regular_file w g p \<Longrightarrow> \<exists>e. map_of (gDisk g) p = Some e \<and> sIsRegular (estat e)"
  by (auto simp: regular_file_def Lstat_def split: sum.splits option.splits)

text \<open>
  C5: A device is served only from a running folder that is shared with it, from a regular file
  inside the folder that is neither internal nor ignored nor behind a symbolic link, or from its
  temporary file.  The answer has the requested size and starts with the requested part of that
  file; when a hash is requested this part has the hash, except that a receive-encrypted folder does
  not check it for the file itself.  From a temporary file the part is complete.  For the file it
  can be short, at the end of the file: the rest of the answer is what the buffer held before.
\<close>

theorem served_data_is_checked:
  assumes "model_Request w dev req = (Ok bs, rechecks)" and "\<And>n. length (wPool w n) = n"
  shows "\<exists>g name p e. wFolders w (ReqFolder req) = Some g \<and> dev \<in> set (gShared g) \<and> \<not> gPaused g \<and>
    Canonicalize (ReqName req) = Ok name \<and> (name = ''.'' \<or> safe_name name) \<and> \<not> IsInternal name \<and> \<not> R_IsIgnored (gMatch g name) \<and>
    TraversesSymlink (wIo w) (path_Dir name) (gDisk g) = PathOk \<and>
    (p = name \<or> FromTemporary req \<and> p = TempName (wNameHash w) name \<and> length (requested_part req e) = nat (ReqSize req)) \<and>
    map_of (gDisk g) p = Some e \<and> sIsRegular (estat e) \<and>
    length bs = nat (ReqSize req) \<and> take (length (requested_part req e)) bs = requested_part req e \<and>
    (ReqHash req \<noteq> [] \<and> (gType g \<noteq> FolderTypeReceiveEncrypted \<or> p \<noteq> name) \<longrightarrow> wSha w (requested_part req e) = ReqHash req) \<and>
    (\<not> FromTemporary req \<longrightarrow>
      drop (length (requested_part req e)) bs = drop (length (requested_part req e)) (wPool w (nat (ReqSize req))))"
proof -
  obtain g name where c: "check_request w dev req = Ok (g, name)" using assms(1) by (auto simp: model_Request_def split: outcome.splits)
  note ok = check_request_ok [OF c]
  have trav: "TraversesSymlink (wIo w) (path_Dir name) (gDisk g) = PathOk" using assms(1) c by (auto simp: model_Request_def split: if_splits)
  let ?temp = "TempName (wNameHash w) name" and ?size = "nat (ReqSize req)" and ?part = "requested_part req"
  have "\<exists>p e. (p = name \<or> FromTemporary req \<and> p = ?temp \<and> length (?part e) = ?size) \<and>
      map_of (gDisk g) p = Some e \<and> sIsRegular (estat e) \<and> length bs = ?size \<and> take (length (?part e)) bs = ?part e \<and>
      (ReqHash req \<noteq> [] \<and> (gType g \<noteq> FolderTypeReceiveEncrypted \<or> p \<noteq> name) \<longrightarrow> wSha w (?part e) = ReqHash req) \<and>
      (\<not> FromTemporary req \<longrightarrow> drop (length (?part e)) bs = drop (length (?part e)) (wPool w ?size))"
  proof (cases "read_temporary w g name req")
    case (Ok tb)
    obtain t buf where tb: "tb = (t, buf)" by fastforce
    have len: "length buf = ?size" using Ok tb assms(2) readOffset_block
      by (auto simp: read_temporary_def Let_def readOffsetIntoBuf_def split: if_splits prod.splits option.splits)
    show ?thesis
    proof (cases t)
      case (Some data)
      then have d: "data = bs" "FromTemporary req" "regular_file w g ?temp" using Ok tb assms(1) c trav
        by (auto simp: model_Request_def read_temporary_def Let_def split: if_splits prod.splits)
      obtain n where r: "readOffsetIntoBuf (wIo w) (gDisk g) ?temp (ReqOffset req) (wPool w ?size) = ((n, None), bs)" "Validate (wSha w) bs (ReqHash req)"
        using Ok tb Some d by (auto simp: read_temporary_def Let_def split: if_splits prod.splits)
      obtain e where e: "map_of (gDisk g) ?temp = Some e" "sIsRegular (estat e)" using regular_file_entry [OF d(3)] by blast
      from readOffset_block [OF r(1)] e(1) assms(2)
      have "take n bs = ?part e" "length bs = ?size" "n = ?size" "length (?part e) = n" by (auto simp: requested_part_def)
      then have "bs = ?part e" "length (?part e) = ?size" "length bs = ?size" by auto
      then show ?thesis using d(2) e r(2) by (intro exI [of _ ?temp] exI [of _ e]) (auto simp: Validate_def)
    next
      case None
      then have rf: "read_file w g name req buf = (Ok bs, rechecks)" using Ok tb assms(1) c trav by (simp add: model_Request_def)
      then obtain n err where r: "readOffsetIntoBuf (wIo w) (gDisk g) name (ReqOffset req) buf = ((n, err), bs)" "err = None \<or> err = Some ReadEOF"
          "gType g \<noteq> FolderTypeReceiveEncrypted \<longrightarrow> 0 < length (ReqHash req) \<longrightarrow> Validate (wSha w) (take n bs) (ReqHash req)" "regular_file w g name"
        by (auto simp: read_file_def split: if_splits prod.splits)
      obtain e where e: "map_of (gDisk g) name = Some e" "sIsRegular (estat e)" using regular_file_entry [OF r(4)] by blast
      from readOffset_block [OF r(1, 2)] e(1) len
      have part: "take n bs = ?part e" "length bs = ?size" "n = length (?part e)" "drop n bs = drop n buf" by (auto simp: requested_part_def)
      moreover have "\<not> FromTemporary req \<Longrightarrow> buf = wPool w ?size" using Ok tb by (simp add: read_temporary_def Let_def)
      moreover have "gType g \<noteq> FolderTypeReceiveEncrypted \<Longrightarrow> ReqHash req \<noteq> [] \<Longrightarrow> wSha w (?part e) = ReqHash req"
        using r(3) part(1) by (auto simp: Validate_def split: if_splits)
      ultimately show ?thesis using e by (intro exI [of _ name] exI [of _ e]) auto
    qed
  qed (use assms(1) c trav in \<open>auto simp: model_Request_def\<close>)
  then show ?thesis using ok Canonicalize_inside [OF ok(6)] trav by blast
qed

definition sample_serve_world :: serve_world where
  "sample_serve_world =
     \<lparr>wIo = (\<lambda>op p d. None), wSha = (\<lambda>bs. bs), wNameHash = (\<lambda>s. []), wPool = (\<lambda>n. replicate n 0x58),
      wFolders = (\<lambda>f. if f = ''f'' then Some \<lparr>gShared = [[1]], gPaused = False, gType = FolderTypeSendReceive,
        gDisk = [(''a'', new_entry \<lparr>sIsDir = False, sIsRegular = True, sIsSymlink = False, sSize = 2, sModTime = (0, 0), sMode = 0x1A4\<rparr> [7, 8])],
        gMatch = (\<lambda>p. 0), gLocal = (\<lambda>p. None), gRunning = True\<rparr> else None)\<rparr>"

definition sample_block_request :: "int \<Rightarrow> int \<Rightarrow> bytes \<Rightarrow> Request" where
  "sample_block_request off sz h =
     \<lparr>ReqID = 1, ReqFolder = ''f'', ReqName = ''a'', ReqOffset = off, ReqSize = sz, ReqHash = h, FromTemporary = False, BlockNo = 0\<rparr>"

theorem served_data_is_checked_witness:
  "\<exists>g e. wFolders sample_serve_world ''f'' = Some g \<and> [1] \<in> set (gShared g) \<and> map_of (gDisk g) ''a'' = Some e \<and>
    take (length (take 3 (edata e))) [7, 8, 0x58] = take 3 (edata e) \<and> wSha sample_serve_world (take 3 (edata e)) = [7, 8]"
proof -
  let ?r = "sample_block_request 0 3 [7, 8]" and ?w = sample_serve_world
  have answer: "model_Request ?w [1] ?r = (Ok [7, 8, 0x58], [])" by code_simp
  have pool: "length (wPool ?w n) = n" for n by (simp add: sample_serve_world_def)
  obtain g name p e where g: "wFolders ?w (ReqFolder ?r) = Some g" "[1] \<in> set (gShared g)" "Canonicalize (ReqName ?r) = Ok name"
      "p = name \<or> FromTemporary ?r \<and> p = TempName (wNameHash ?w) name \<and> length (requested_part ?r e) = nat (ReqSize ?r)"
      "map_of (gDisk g) p = Some e" "take (length (requested_part ?r e)) [7, 8, 0x58] = requested_part ?r e"
      "ReqHash ?r \<noteq> [] \<and> (gType g \<noteq> FolderTypeReceiveEncrypted \<or> p \<noteq> name) \<longrightarrow> wSha ?w (requested_part ?r e) = ReqHash ?r"
    using served_data_is_checked [OF answer pool] by blast
  have req: "ReqFolder ?r = ''f''" "ReqName ?r = ''a''" "ReqHash ?r = [7, 8]" "FromTemporary ?r = False"
      "requested_part ?r e = take 3 (edata e)" for e
    by (simp_all add: sample_block_request_def requested_part_def)
  have "Canonicalize ''a'' = Ok ''a''" by code_simp
  then have "name = ''a''" "p = ''a''" using g(3, 4) by (simp_all add: req)
  moreover have "gType g \<noteq> FolderTypeReceiveEncrypted" using g(1) by (auto simp: req sample_serve_world_def)
  ultimately show ?thesis using g unfolding req by blast
qed

text \<open>
  C39: A request without a hash behind the end of a file is answered with what the buffer held before, and not with an error: data of an earlier
  answer, whatever its folder and receiver.
\<close>

theorem request_behind_end_sends_old_buffer:
  assumes "check_request w dev req = Ok (g, name)" and "TraversesSymlink (wIo w) (path_Dir name) (gDisk g) = PathOk" and "\<not> FromTemporary req"
    and "ReqHash req = []" and "regular_file w g name" and "map_of (gDisk g) name = Some e" and "int (length (edata e)) \<le> ReqOffset req"
    and "wIo w OpOpen name (gDisk g) = None"
  shows "model_Request w dev req = (Ok (wPool w (nat (ReqSize req))), [])"
  using assms by (simp add: model_Request_def read_temporary_def read_file_def readOffsetIntoBuf_def Let_def)

theorem request_behind_end_sends_old_buffer_witness:
  "model_Request sample_serve_world [1] (sample_block_request 2 3 []) = (Ok [0x58, 0x58, 0x58], [])"
proof -
  define g where "g = the (wFolders sample_serve_world ''f'')"
  have "Canonicalize ''a'' = Ok ''a''" "\<not> IsInternal ''a''" "\<not> R_IsIgnored 0" by code_simp+
  then have c: "check_request sample_serve_world [1] (sample_block_request 2 3 []) = Ok (g, ''a'')"
    by (simp add: check_request_def g_def sample_serve_world_def sample_block_request_def)
  have f: "TraversesSymlink (wIo sample_serve_world) (path_Dir ''a'') (gDisk g) = PathOk" "regular_file sample_serve_world g ''a''"
    "\<not> FromTemporary (sample_block_request 2 3 [])" "ReqHash (sample_block_request 2 3 []) = []" "wIo sample_serve_world OpOpen ''a'' (gDisk g) = None"
    "map_of (gDisk g) ''a'' = Some (the (map_of (gDisk g) ''a''))" "int (length (edata (the (map_of (gDisk g) ''a'')))) \<le> ReqOffset (sample_block_request 2 3 [])"
    "wPool sample_serve_world (nat (ReqSize (sample_block_request 2 3 []))) = [0x58, 0x58, 0x58]"
    unfolding g_def by code_simp+
  show ?thesis using request_behind_end_sends_old_buffer [OF c f(1, 3, 4, 2, 6, 7, 5)] unfolding f(8) .
qed

end
