(* ===== verification/Config.thy ===== *)
theory Config
  imports BEP_Messages "HOL-Library.List_Lexorder" "HOL-Library.Char_ord"
begin

text \<open>
  Devices and folders in the configuration, and how a configuration is made consistent before it is used:
  \<^verbatim>\<open>lib/config/config.go\<close>, \<^verbatim>\<open>folderconfiguration.go\<close>, \<^verbatim>\<open>deviceconfiguration.go\<close>.

  Settings of the user interface, of the program and of the templates for new folders and devices are left out,
  as are migrations. The delay of the watcher is in whole nanoseconds. \<open>url.Parse\<close> gives the scheme of an address and is a parameter.
\<close>

section \<open>Devices and folders\<close>

record folder_device =
  fdID :: device_id
  fdIntroducedBy :: device_id
  fdPassword :: string

record observed_folder =
  obID :: string
  obTime :: int

record device_conf =
  dvID :: device_id
  dvName :: string
  dvAddresses :: "string list"
  dvCompression :: Compression
  dvCertName :: string
  dvIntroducer :: bool
  dvSkipRemovals :: bool
  dvIntroducedBy :: device_id
  dvAutoAccept :: bool
  dvUntrusted :: bool
  dvIgnoredFolders :: "observed_folder list"

record folder_conf =
  fcID :: string
  fcLabel :: string
  fcPath :: string
  fcType :: FolderType
  fcPaused :: bool
  fcDevices :: "folder_device list"
  fcRescanIntervalS :: int
  fcWatcher :: bool
  fcWatcherDelay :: int
  fcVersioning :: string
  fcCleanupIntervalS :: int
  fcMarkerName :: string
  fcMaxConcurrentWrites :: int
  fcDigestCacheEntries :: int
  fcIgnorePerms :: bool

record configuration =
  cfDevices :: "device_conf list"
  cfFolders :: "folder_conf list"
  cfIgnoredDevices :: "device_id list"

datatype config_error = errFolderIDEmpty | errFolderPathEmpty | errFolderIDDuplicate

definition folder_Device :: "folder_conf \<Rightarrow> device_id \<Rightarrow> folder_device option" where
  "folder_Device f dev = List.find (\<lambda>d. fdID d = dev) (fcDevices f)"

definition SharedWith :: "folder_conf \<Rightarrow> device_id \<Rightarrow> bool" where
  "SharedWith f dev \<longleftrightarrow> folder_Device f dev \<noteq> None"

definition DeviceIDs :: "folder_conf \<Rightarrow> device_id list" where
  "DeviceIDs f = map fdID (fcDevices f)"

definition config_Device :: "configuration \<Rightarrow> device_id \<Rightarrow> device_conf option" where
  "config_Device cfg dev = List.find (\<lambda>d. dvID d = dev) (cfDevices cfg)"

definition config_Folder :: "configuration \<Rightarrow> string \<Rightarrow> folder_conf option" where
  "config_Folder cfg i = List.find (\<lambda>f. fcID f = i) (cfFolders cfg)"

definition FolderPasswords :: "configuration \<Rightarrow> device_id \<Rightarrow> string \<Rightarrow> string option" where
  "FolderPasswords cfg dev =
     map_of (rev (concat (map (\<lambda>f. case folder_Device f dev of
                                     None \<Rightarrow> [] | Some d \<Rightarrow> if fdPassword d \<noteq> [] then [(fcID f, fdPassword d)] else [])
                            (cfFolders cfg))))"

definition IgnoredFolder :: "device_conf \<Rightarrow> string \<Rightarrow> bool" where
  "IgnoredFolder d folder \<longleftrightarrow> folder \<in> obID ` set (dvIgnoredFolders d)"

definition new_device :: "device_id \<Rightarrow> string \<Rightarrow> device_conf" where
  "new_device i name =
     \<lparr>dvID = i, dvName = name, dvAddresses = [], dvCompression = CompressionMetadata, dvCertName = [], dvIntroducer = False,
      dvSkipRemovals = False, dvIntroducedBy = EmptyDeviceID, dvAutoAccept = False, dvUntrusted = False, dvIgnoredFolders = []\<rparr>"

section \<open>Removing entries\<close>

text \<open>
  An unwanted entry is replaced by the last one of those that count, which is looked at next. The keys of
  the entries that stay are collected.
\<close>

function compact :: "('k list \<Rightarrow> 'a \<Rightarrow> bool) \<Rightarrow> ('a \<Rightarrow> 'k) \<Rightarrow> 'k list \<Rightarrow> 'a list \<Rightarrow> nat \<Rightarrow> nat \<Rightarrow> 'a list" where
  "compact unwanted key seen xs i count =
     (if i < count then
        if unwanted seen (xs ! i) then compact unwanted key seen (xs[i := xs ! (count - 1)]) i (count - 1)
        else compact unwanted key (key (xs ! i) # seen) xs (Suc i) count
      else take count xs)"
  by pat_completeness auto
termination by (relation "measure (\<lambda>(unwanted, key, seen, xs, i, count). count - i)") auto

declare compact.simps [simp del]

definition ensureExistingDevices :: "folder_device list \<Rightarrow> (device_id \<Rightarrow> device_conf option) \<Rightarrow> folder_device list" where
  "ensureExistingDevices ds known = compact (\<lambda>seen d. known (fdID d) = None) fdID [] ds 0 (length ds)"

definition ensureNoDuplicateFolderDevices :: "folder_device list \<Rightarrow> folder_device list" where
  "ensureNoDuplicateFolderDevices ds = compact (\<lambda>seen d. fdID d \<in> set seen) fdID [] ds 0 (length ds)"

definition ensureNoDuplicateOrEmptyIDDevices :: "device_conf list \<Rightarrow> device_conf list" where
  "ensureNoDuplicateOrEmptyIDDevices ds = compact (\<lambda>seen d. dvID d \<in> set seen \<or> dvID d = EmptyDeviceID) dvID [] ds 0 (length ds)"

definition ensureDevicePresent :: "folder_device list \<Rightarrow> device_id \<Rightarrow> folder_device list" where
  "ensureDevicePresent ds me =
     (if me = EmptyDeviceID \<or> me \<in> fdID ` set ds then ds
      else ds @ [\<lparr>fdID = me, fdIntroducedBy = EmptyDeviceID, fdPassword = []\<rparr>])"

text \<open>A device that is not known makes the code panic.\<close>

fun ensureNoUntrustedTrustingSharing ::
  "folder_conf \<Rightarrow> folder_device list \<Rightarrow> (device_id \<Rightarrow> device_conf option) \<Rightarrow> (config_error, folder_device list) outcome" where
  "ensureNoUntrustedTrustingSharing f [] known = Ok []"
| "ensureNoUntrustedTrustingSharing f (d # ds) known =
     (if fdPassword d \<noteq> [] \<or> fcType f = FolderTypeReceiveEncrypted
      then obind (ensureNoUntrustedTrustingSharing f ds known) (\<lambda>ds. Ok (d # ds))
      else
        case known (fdID d) of
          None \<Rightarrow> Panic
        | Some c \<Rightarrow>
            if dvUntrusted c then ensureNoUntrustedTrustingSharing f ds known
            else obind (ensureNoUntrustedTrustingSharing f ds known) (\<lambda>ds. Ok (d # ds)))"

section \<open>Preparing\<close>

definition MaxRescanIntervalS :: int where "MaxRescanIntervalS = 365 * 24 * 60 * 60"
definition DefaultMarkerName :: string where "DefaultMarkerName = ''.stfolder''"
definition maxConcurrentWritesDefault :: int where "maxConcurrentWritesDefault = 16"
definition maxConcurrentWritesLimit :: int where "maxConcurrentWritesLimit = 256"

definition prepare_shares :: "device_id \<Rightarrow> (device_id \<Rightarrow> device_conf option) \<Rightarrow> folder_conf \<Rightarrow> (config_error, folder_device list) outcome" where
  "prepare_shares me known f =
     obind (ensureNoUntrustedTrustingSharing f
              (ensureDevicePresent (ensureNoDuplicateFolderDevices (ensureExistingDevices (fcDevices f) known)) me) known)
       (\<lambda>ds. Ok (sort_key fdID ds))"

definition clamp_interval :: "int \<Rightarrow> int" where
  "clamp_interval n = (if MaxRescanIntervalS < n then MaxRescanIntervalS else if n < 0 then 0 else n)"

definition prepare_settings :: "folder_conf \<Rightarrow> folder_conf" where
  "prepare_settings f =
     f\<lparr>fcRescanIntervalS := clamp_interval (fcRescanIntervalS f),
       fcWatcher := (0 < fcWatcherDelay f \<and> fcWatcher f),
       fcWatcherDelay := (if fcWatcherDelay f \<le> 0 then 10000000000 else if fcWatcherDelay f < 10000000 then 10000000 else fcWatcherDelay f),
       fcCleanupIntervalS := clamp_interval (fcCleanupIntervalS f),
       fcMarkerName := (if fcMarkerName f = [] then DefaultMarkerName else fcMarkerName f),
       fcMaxConcurrentWrites :=
         (if fcMaxConcurrentWrites f \<le> 0 then maxConcurrentWritesDefault
          else if maxConcurrentWritesLimit < fcMaxConcurrentWrites f then maxConcurrentWritesLimit else fcMaxConcurrentWrites f),
       fcDigestCacheEntries := max 0 (fcDigestCacheEntries f),
       fcIgnorePerms := (fcType f = FolderTypeReceiveEncrypted \<or> fcIgnorePerms f)\<rparr>"

definition folder_prepare :: "device_id \<Rightarrow> (device_id \<Rightarrow> device_conf option) \<Rightarrow> folder_conf \<Rightarrow> (config_error, folder_conf) outcome" where
  "folder_prepare me known f = obind (prepare_shares me known f) (\<lambda>ds. Ok (prepare_settings (f\<lparr>fcDevices := ds\<rparr>)))"

text \<open>Of the entries for a folder the last one is kept; the order among entries of the same time is not fixed by the code.\<close>

definition add_observed :: "observed_folder \<Rightarrow> observed_folder list \<Rightarrow> observed_folder list" where
  "add_observed o1 out =
     (case List.find (\<lambda>x. obID x = obID o1) out of
        None \<Rightarrow> out @ [o1]
      | Some old \<Rightarrow> if obTime old < obTime o1 then map (\<lambda>x. if obID x = obID o1 then o1 else x) out else out)"

definition deduplicateObservedFolders :: "observed_folder list \<Rightarrow> observed_folder list" where
  "deduplicateObservedFolders input = fold add_observed input []"

definition device_prepare :: "string list \<Rightarrow> device_conf \<Rightarrow> device_conf" where
  "device_prepare sharedFolders d =
     d\<lparr>dvAddresses := (if dvAddresses d = [] \<or> dvAddresses d = [[]] then [''dynamic''] else dvAddresses d),
       dvIgnoredFolders :=
         sort_key obTime (filter (\<lambda>x. obID x \<notin> set sharedFolders) (deduplicateObservedFolders (dvIgnoredFolders d))),
       dvIntroducer := (dvIntroducer d \<and> \<not> dvUntrusted d),
       dvAutoAccept := (dvAutoAccept d \<and> \<not> dvUntrusted d)\<rparr>"

definition ensureMyDevice :: "device_id \<Rightarrow> string \<Rightarrow> configuration \<Rightarrow> configuration" where
  "ensureMyDevice me hostname cfg =
     (if me = EmptyDeviceID \<or> me \<in> dvID ` set (cfDevices cfg) then cfg
      else cfg\<lparr>cfDevices := cfDevices cfg @ [new_device me hostname]\<rparr>)"

definition device_map :: "device_conf list \<Rightarrow> device_id \<Rightarrow> device_conf option" where
  "device_map ds = map_of (rev (map (\<lambda>d. (dvID d, d)) ds))"

definition prepareDeviceList :: "configuration \<Rightarrow> configuration" where
  "prepareDeviceList cfg = cfg\<lparr>cfDevices := sort_key dvID (ensureNoDuplicateOrEmptyIDDevices (cfDevices cfg))\<rparr>"

fun prepare_each ::
  "device_id \<Rightarrow> (device_id \<Rightarrow> device_conf option) \<Rightarrow> string list \<Rightarrow> folder_conf list \<Rightarrow> (config_error, folder_conf list) outcome" where
  "prepare_each me known seen [] = Ok []"
| "prepare_each me known seen (f # fs) =
     (if fcID f = [] then Err errFolderIDEmpty
      else if fcPath f = [] then Err errFolderPathEmpty
      else if fcID f \<in> set seen then Err errFolderIDDuplicate
      else obind (folder_prepare me known f) (\<lambda>f.
             obind (prepare_each me known (fcID f # seen) fs) (\<lambda>fs. Ok (f # fs))))"

definition shared_folders :: "folder_conf list \<Rightarrow> device_id \<Rightarrow> string list" where
  "shared_folders fs dev = map fcID (filter (\<lambda>f. dev \<in> set (DeviceIDs f)) fs)"

definition prepareFolders ::
  "device_id \<Rightarrow> (device_id \<Rightarrow> device_conf option) \<Rightarrow> configuration \<Rightarrow> (config_error, (device_id \<Rightarrow> string list) \<times> configuration) outcome" where
  "prepareFolders me known cfg =
     obind (prepare_each me known [] (cfFolders cfg)) (\<lambda>fs. Ok (shared_folders fs, cfg\<lparr>cfFolders := sort_key fcID fs\<rparr>))"

definition prepareDevices :: "(device_id \<Rightarrow> string list) \<Rightarrow> configuration \<Rightarrow> configuration" where
  "prepareDevices shared cfg = cfg\<lparr>cfDevices := map (\<lambda>d. device_prepare (shared (dvID d)) d) (cfDevices cfg)\<rparr>"

definition prepareFoldersAndDevices :: "device_id \<Rightarrow> configuration \<Rightarrow> (config_error, configuration) outcome" where
  "prepareFoldersAndDevices me cfg =
     (let cfg = prepareDeviceList cfg
      in obind (prepareFolders me (device_map (cfDevices cfg)) cfg) (\<lambda>r. Ok (prepareDevices (fst r) (snd r))))"

definition prepareIgnoredDevices :: "configuration \<Rightarrow> configuration" where
  "prepareIgnoredDevices cfg =
     cfg\<lparr>cfIgnoredDevices := filter (\<lambda>i. device_map (cfDevices cfg) i = None) (cfIgnoredDevices cfg)\<rparr>"

text \<open>Addresses that do not parse stay.\<close>

definition filterURLSchemePrefix :: "(string \<Rightarrow> string option) \<Rightarrow> string \<Rightarrow> string list \<Rightarrow> string list" where
  "filterURLSchemePrefix scheme prefix addrs =
     filter (\<lambda>a. case scheme a of None \<Rightarrow> True | Some s \<Rightarrow> \<not> HasPrefix s prefix) addrs"

definition removeDeprecatedProtocols :: "(string \<Rightarrow> string option) \<Rightarrow> configuration \<Rightarrow> configuration" where
  "removeDeprecatedProtocols scheme cfg =
     cfg\<lparr>cfDevices := map (\<lambda>d. d\<lparr>dvAddresses := filterURLSchemePrefix scheme ''kcp'' (dvAddresses d)\<rparr>) (cfDevices cfg)\<rparr>"

definition config_prepare ::
  "(string \<Rightarrow> string option) \<Rightarrow> device_id \<Rightarrow> string \<Rightarrow> configuration \<Rightarrow> (config_error, configuration) outcome" where
  "config_prepare scheme me hostname cfg =
     obind (prepareFoldersAndDevices me (ensureMyDevice me hostname cfg))
       (\<lambda>cfg. Ok (removeDeprecatedProtocols scheme (prepareIgnoredDevices cfg)))"

section \<open>What is removed\<close>

text \<open>The same on the entries that are left to look at.\<close>

function compact_list :: "('k list \<Rightarrow> 'a \<Rightarrow> bool) \<Rightarrow> ('a \<Rightarrow> 'k) \<Rightarrow> 'k list \<Rightarrow> 'a list \<Rightarrow> 'a list" where
  "compact_list unwanted key seen [] = []"
| "compact_list unwanted key seen (x # xs) =
     (if unwanted seen x then compact_list unwanted key seen (if xs = [] then [] else last xs # butlast xs)
      else x # compact_list unwanted key (key x # seen) xs)"
  by pat_completeness auto
termination by (relation "measure (\<lambda>(unwanted, key, seen, xs). length xs)") auto

lemma swapped_rest:
  assumes "i < count" and "count \<le> length xs"
  shows "drop i (take (count - 1) (xs[i := xs ! (count - 1)])) =
    (let t = drop (Suc i) (take count xs) in if t = [] then [] else last t # butlast t)"
proof (cases "Suc i < count")
  case True
  let ?t = "drop (Suc i) (take count xs)"
  have "Suc (count - 2) = count - Suc 0" using True by simp
  then have "last ?t = xs ! (count - 1)" using True assms by (simp add: last_conv_nth)
  moreover have "butlast ?t = drop (Suc i) (take (count - 1) xs)"
    using assms by (simp add: butlast_take drop_butlast [symmetric])
  moreover have "drop i (take (count - 1) (xs[i := xs ! (count - 1)])) = xs ! (count - 1) # drop (Suc i) (take (count - 1) xs)"
    using True assms by (subst Cons_nth_drop_Suc [symmetric]) (simp_all add: take_update_swap drop_update_swap)
  ultimately show ?thesis using True assms by (simp add: Let_def)
qed (use assms in simp)

lemma compact_eq:
  assumes "i \<le> count" and "count \<le> length xs"
  shows "compact unwanted key seen xs i count = take i xs @ compact_list unwanted key seen (drop i (take count xs))"
  using assms
proof (induction unwanted key seen xs i count rule: compact.induct)
  case (1 unwanted key seen xs i count)
  consider "i = count" | "i < count" "unwanted seen (xs ! i)" | "i < count" "\<not> unwanted seen (xs ! i)"
    using 1(3) by (auto simp: le_less)
  then show ?case
  proof cases
    case 1
    then show ?thesis by (simp add: compact.simps)
  next
    case 2
    have "drop i (take count xs) = xs ! i # drop (Suc i) (take count xs)"
      using 2 1(4) by (simp add: Cons_nth_drop_Suc [symmetric])
    then show ?thesis using "1.IH"(1) [OF 2] 2 1(4) swapped_rest [OF 2(1) 1(4)]
      by (subst compact.simps) (simp add: Let_def)
  next
    case 3
    have "drop i (take count xs) = xs ! i # drop (Suc i) (take count xs)"
      using 3 1(4) by (simp add: Cons_nth_drop_Suc [symmetric])
    then show ?thesis using "1.IH"(2) [OF 3] 3 1(4) by (subst compact.simps) (simp add: take_Suc_conv_app_nth)
  qed
qed

lemma compact_whole: "compact unwanted key [] xs 0 (length xs) = compact_list unwanted key [] xs"
  by (simp add: compact_eq)

lemma last_butlast_set: "xs \<noteq> [] \<Longrightarrow> insert (last xs) (set (butlast xs)) = set xs"
  by (cases xs rule: rev_cases) auto

lemma compact_by_value: "set (compact_list (\<lambda>seen x. P x) key seen xs) = {x \<in> set xs. \<not> P x}"
proof (induction "length xs" arbitrary: seen xs rule: less_induct)
  case less
  show ?case
  proof (cases xs)
    case (Cons x ys)
    have "set (compact_list (\<lambda>seen x. P x) key seen (last ys # butlast ys)) = {x \<in> set ys. \<not> P x}" if "ys \<noteq> []"
      using less [of "last ys # butlast ys" seen] that last_butlast_set [OF that] Cons by auto
    then show ?thesis using less [of ys] Cons by auto
  qed simp
qed

lemma compact_by_key:
  fixes P :: "'a \<Rightarrow> bool" and key :: "'a \<Rightarrow> 'k"
  defines "r \<equiv> compact_list (\<lambda>seen x. key x \<in> set seen \<or> P x) key"
  shows "distinct (map key (r seen xs)) \<and> set (r seen xs) \<subseteq> {x \<in> set xs. key x \<notin> set seen \<and> \<not> P x} \<and>
    (\<forall>x \<in> set xs. \<not> P x \<longrightarrow> key x \<in> set seen \<or> key x \<in> key ` set (r seen xs))"
proof (induction "length xs" arbitrary: seen xs rule: less_induct)
  case less
  show ?case
  proof (cases xs)
    case (Cons x ys)
    show ?thesis
    proof (cases "key x \<in> set seen \<or> P x")
      case True
      show ?thesis
      proof (cases "ys = []")
        case False
        let ?zs = "last ys # butlast ys"
        have "r seen xs = r seen ?zs" using True False Cons by (simp add: r_def)
        moreover have "set ?zs = set ys" using last_butlast_set [OF False] by simp
        moreover have "length ?zs < length xs" using Cons False by simp
        ultimately show ?thesis using less [of ?zs seen] True Cons by auto
      qed (use True Cons in \<open>auto simp: r_def\<close>)
    next
      case False
      then have "r seen xs = x # r (key x # seen) ys" using Cons by (simp add: r_def)
      then show ?thesis using less [of ys "key x # seen"] False Cons by auto
    qed
  qed (simp add: r_def)
qed

lemma compact_nothing:
  assumes unwanted: "\<And>seen x. unwanted seen x \<Longrightarrow> key x \<in> set seen \<or> x \<notin> good" and "set xs \<subseteq> good" "distinct (map key xs)" "key ` set xs \<inter> set seen = {}"
  shows "compact_list unwanted key seen xs = xs"
  using assms(2-)
proof (induction xs arbitrary: seen)
  case (Cons x xs)
  then have "\<not> unwanted seen x" using unwanted [of seen x] by auto
  moreover have "compact_list unwanted key (key x # seen) xs = xs" by (rule Cons.IH) (use Cons.prems in auto)
  ultimately show ?case by simp
qed simp

lemma existing_devices: "set (ensureExistingDevices ds known) = {d \<in> set ds. known (fdID d) \<noteq> None}"
  by (simp add: ensureExistingDevices_def compact_whole compact_by_value)

lemma no_duplicate_shares:
  "distinct (map fdID (ensureNoDuplicateFolderDevices ds))" "set (ensureNoDuplicateFolderDevices ds) \<subseteq> set ds"
  using compact_by_key [of fdID "\<lambda>d. False" "[]" ds] by (auto simp: ensureNoDuplicateFolderDevices_def compact_whole)

lemma no_duplicate_devices:
  "distinct (map dvID (ensureNoDuplicateOrEmptyIDDevices ds))"
  "dvID ` set (ensureNoDuplicateOrEmptyIDDevices ds) = dvID ` set ds - {EmptyDeviceID}"
  using compact_by_key [of dvID "\<lambda>d. dvID d = EmptyDeviceID" "[]" ds]
  by (auto simp: ensureNoDuplicateOrEmptyIDDevices_def compact_whole image_iff)

lemma device_present:
  "set (ensureDevicePresent ds me) \<subseteq> insert \<lparr>fdID = me, fdIntroducedBy = EmptyDeviceID, fdPassword = []\<rparr> (set ds)"
  "me \<noteq> EmptyDeviceID \<Longrightarrow> me \<in> fdID ` set (ensureDevicePresent ds me)"
  "me = EmptyDeviceID \<Longrightarrow> ensureDevicePresent ds me = ds"
  "distinct (map fdID ds) \<Longrightarrow> distinct (map fdID (ensureDevicePresent ds me))"
  by (auto simp: ensureDevicePresent_def)

section \<open>What a prepared configuration is like\<close>

definition trusted_share :: "(device_id \<Rightarrow> device_conf option) \<Rightarrow> folder_conf \<Rightarrow> folder_device \<Rightarrow> bool" where
  "trusted_share known f d \<longleftrightarrow>
     fdPassword d \<noteq> [] \<or> fcType f = FolderTypeReceiveEncrypted \<or> \<not> dvUntrusted (the (known (fdID d)))"

lemma untrusted_shares:
  "\<forall>d \<in> set ds. known (fdID d) \<noteq> None \<Longrightarrow> ensureNoUntrustedTrustingSharing f ds known = Ok (filter (trusted_share known f) ds)"
  by (induction ds) (auto simp: trusted_share_def)

definition shares_ok :: "device_id \<Rightarrow> (device_id \<Rightarrow> device_conf option) \<Rightarrow> folder_conf \<Rightarrow> bool" where
  "shares_ok me known f \<longleftrightarrow>
     distinct (DeviceIDs f) \<and> sorted (DeviceIDs f) \<and> (\<forall>d \<in> set (fcDevices f). known (fdID d) \<noteq> None \<and> trusted_share known f d) \<and>
     (me = EmptyDeviceID \<or> me \<in> set (DeviceIDs f) \<or> dvUntrusted (the (known me)) \<and> fcType f \<noteq> FolderTypeReceiveEncrypted)"

definition settings_ok :: "folder_conf \<Rightarrow> bool" where
  "settings_ok f \<longleftrightarrow>
     fcRescanIntervalS f \<in> {0..MaxRescanIntervalS} \<and> fcCleanupIntervalS f \<in> {0..MaxRescanIntervalS} \<and> 10000000 \<le> fcWatcherDelay f \<and>
     fcMarkerName f \<noteq> [] \<and> fcMaxConcurrentWrites f \<in> {1..maxConcurrentWritesLimit} \<and> 0 \<le> fcDigestCacheEntries f \<and>
     (fcType f = FolderTypeReceiveEncrypted \<longrightarrow> fcIgnorePerms f)"

definition folder_ok :: "device_id \<Rightarrow> (device_id \<Rightarrow> device_conf option) \<Rightarrow> folder_conf \<Rightarrow> bool" where
  "folder_ok me known f \<longleftrightarrow> fcID f \<noteq> [] \<and> fcPath f \<noteq> [] \<and> shares_ok me known f \<and> settings_ok f"

definition device_ok :: "(string \<Rightarrow> string option) \<Rightarrow> folder_conf list \<Rightarrow> device_conf \<Rightarrow> bool" where
  "device_ok scheme fs d \<longleftrightarrow>
     (dvUntrusted d \<longrightarrow> \<not> dvIntroducer d \<and> \<not> dvAutoAccept d) \<and>
     distinct (map obID (dvIgnoredFolders d)) \<and> sorted (map obTime (dvIgnoredFolders d)) \<and>
     obID ` set (dvIgnoredFolders d) \<inter> set (shared_folders fs (dvID d)) = {} \<and>
     filterURLSchemePrefix scheme ''kcp'' (dvAddresses d) = dvAddresses d"

definition config_ok :: "(string \<Rightarrow> string option) \<Rightarrow> device_id \<Rightarrow> configuration \<Rightarrow> bool" where
  "config_ok scheme me cfg \<longleftrightarrow>
     distinct (map dvID (cfDevices cfg)) \<and> sorted (map dvID (cfDevices cfg)) \<and> EmptyDeviceID \<notin> dvID ` set (cfDevices cfg) \<and>
     (me = EmptyDeviceID \<or> me \<in> dvID ` set (cfDevices cfg)) \<and> (\<forall>d \<in> set (cfDevices cfg). device_ok scheme (cfFolders cfg) d) \<and>
     distinct (map fcID (cfFolders cfg)) \<and> sorted (map fcID (cfFolders cfg)) \<and>
     (\<forall>f \<in> set (cfFolders cfg). folder_ok me (device_map (cfDevices cfg)) f) \<and>
     set (cfIgnoredDevices cfg) \<inter> dvID ` set (cfDevices cfg) = {}"

lemma prepare_settings_keeps [simp]:
  "fcID (prepare_settings f) = fcID f" "fcPath (prepare_settings f) = fcPath f" "fcDevices (prepare_settings f) = fcDevices f"
  "fcType (prepare_settings f) = fcType f" "DeviceIDs (prepare_settings f) = DeviceIDs f"
  "trusted_share known (prepare_settings f) = trusted_share known f" "shares_ok me known (prepare_settings f) = shares_ok me known f"
  by (simp_all add: prepare_settings_def DeviceIDs_def trusted_share_def shares_ok_def fun_eq_iff)

lemma settings_ok_prepared: "settings_ok (prepare_settings f)"
  by (simp add: settings_ok_def prepare_settings_def clamp_interval_def MaxRescanIntervalS_def maxConcurrentWritesDefault_def
      maxConcurrentWritesLimit_def DefaultMarkerName_def)

definition knows_me :: "device_id \<Rightarrow> (device_id \<Rightarrow> device_conf option) \<Rightarrow> bool" where
  "knows_me me known \<longleftrightarrow> me = EmptyDeviceID \<or> known me \<noteq> None"

lemma shares_prepared:
  assumes "knows_me me known"
  shows "\<exists>ds. prepare_shares me known f = Ok ds \<and> shares_ok me known (f\<lparr>fcDevices := ds\<rparr>)"
proof -
  define ds where "ds = ensureDevicePresent (ensureNoDuplicateFolderDevices (ensureExistingDevices (fcDevices f) known)) me"
  have "set (ensureNoDuplicateFolderDevices (ensureExistingDevices (fcDevices f) known)) \<subseteq> {d. known (fdID d) \<noteq> None}"
    using no_duplicate_shares(2) [of "ensureExistingDevices (fcDevices f) known"] by (auto simp: existing_devices)
  then have known: "\<forall>d \<in> set ds. known (fdID d) \<noteq> None"
    using device_present(1) [of "ensureNoDuplicateFolderDevices (ensureExistingDevices (fcDevices f) known)" me] assms
    unfolding ds_def knows_me_def by (metis (mono_tags, lifting) device_present(3) folder_device.select_convs(1) insertE mem_Collect_eq subset_iff)
  have "distinct (map fdID ds)" by (simp add: ds_def device_present(4) no_duplicate_shares(1))
  then have distinct: "distinct (map fdID (sort_key fdID (filter (trusted_share known f) ds)))"
    by (auto simp: distinct_map inj_on_def)
  have me: "dvUntrusted (the (known me)) \<and> fcType f \<noteq> FolderTypeReceiveEncrypted" if "me \<noteq> EmptyDeviceID" "me \<notin> fdID ` set (filter (trusted_share known f) ds)"
    using device_present(2) [OF that(1), of "ensureNoDuplicateFolderDevices (ensureExistingDevices (fcDevices f) known)"] that(2)
    by (auto simp: ds_def [symmetric] trusted_share_def image_iff)
  have "prepare_shares me known f = Ok (sort_key fdID (filter (trusted_share known f) ds))"
    by (simp add: prepare_shares_def ds_def [symmetric] untrusted_shares [OF known])
  moreover have "trusted_share known (f\<lparr>fcDevices := X\<rparr>) = trusted_share known f" for X by (simp add: trusted_share_def fun_eq_iff)
  ultimately show ?thesis using distinct known me
    by (auto simp: shares_ok_def DeviceIDs_def)
qed

lemma folder_prepared:
  assumes "knows_me me known" and "fcID f \<noteq> []" and "fcPath f \<noteq> []"
  shows "\<exists>g. folder_prepare me known f = Ok g \<and> folder_ok me known g \<and> fcID g = fcID f"
  using shares_prepared [OF assms(1), of f] assms(2, 3)
  by (fastforce simp: folder_prepare_def folder_ok_def settings_ok_prepared)

lemma each_prepared:
  assumes "knows_me me known"
  shows "prepare_each me known seen fs \<noteq> Panic \<and>
    (\<forall>gs. prepare_each me known seen fs = Ok gs \<longrightarrow>
       map fcID gs = map fcID fs \<and> distinct (map fcID gs) \<and> fcID ` set gs \<inter> set seen = {} \<and> (\<forall>g \<in> set gs. folder_ok me known g))"
proof (induction fs arbitrary: seen)
  case (Cons f fs)
  show ?case
  proof (cases "fcID f = [] \<or> fcPath f = [] \<or> fcID f \<in> set seen")
    case False
    then obtain g where g: "folder_prepare me known f = Ok g" "folder_ok me known g" "fcID g = fcID f"
      using folder_prepared [OF assms] by blast
    show ?thesis
    proof (cases "prepare_each me known (fcID f # seen) fs")
      case (Ok gs)
      then have "fcID f \<notin> fcID ` set gs" "map fcID gs = map fcID fs" "distinct (map fcID gs)" using Cons.IH [of "fcID f # seen"] by auto
      then have "fcID f \<notin> set (map fcID fs)" "distinct (map fcID fs)" by (metis image_set, simp)
      then show ?thesis using Cons.IH [of "fcID f # seen"] g False Ok by auto
    qed (use Cons.IH [of "fcID f # seen"] g False in auto)
  qed auto
qed simp

lemma device_map_None: "device_map ds i = None \<longleftrightarrow> i \<notin> dvID ` set ds"
  by (simp add: device_map_def map_of_eq_None_iff image_image)

lemma map_of_mapped: "map_of (map (\<lambda>d. (k d, g d)) ds) i = map_option g (map_of (map (\<lambda>d. (k d, d)) ds) i)"
  by (induction ds) auto

lemma device_map_map: "(\<And>d. dvID (g d) = dvID d) \<Longrightarrow> device_map (map g ds) i = map_option g (device_map ds i)"
  using map_of_mapped [of dvID g "rev ds"] by (simp add: device_map_def rev_map o_def)

lemma folder_ok_devices:
  assumes "folder_ok me (device_map ds) f" and "\<And>d. dvID (g d) = dvID d" and "\<And>d. dvUntrusted (g d) = dvUntrusted d" and "me = EmptyDeviceID \<or> me \<in> dvID ` set ds"
  shows "folder_ok me (device_map (map g ds)) f"
proof -
  have dom: "device_map (map g ds) i = None \<longleftrightarrow> device_map ds i = None" for i by (simp add: device_map_map assms(2))
  have same: "dvUntrusted (the (device_map (map g ds) i)) = dvUntrusted (the (device_map ds i))" if "device_map ds i \<noteq> None" for i
    using that by (auto simp: device_map_map assms(2, 3))
  have "device_map ds me \<noteq> None" if "me \<noteq> EmptyDeviceID" using assms(4) that by (simp add: device_map_None)
  with assms(1) same show ?thesis by (auto simp: folder_ok_def shares_ok_def trusted_share_def dom)
qed

lemma add_observed_ids: "distinct (map obID out) \<Longrightarrow> distinct (map obID (add_observed o1 out))"
proof -
  assume d: "distinct (map obID out)"
  have "map obID (map (\<lambda>x. if obID x = obID o1 then o1 else x) out) = map obID out" by simp
  with d show ?thesis by (auto simp: add_observed_def find_None_iff split: option.split simp del: map_map)
qed

lemma deduplicated: "distinct (map obID (deduplicateObservedFolders xs))"
proof -
  have "distinct (map obID (fold add_observed xs out))" if "distinct (map obID out)" for out
    using that by (induction xs arbitrary: out) (auto simp: add_observed_ids)
  then show ?thesis by (simp add: deduplicateObservedFolders_def)
qed

lemma shared_folders_sorted: "set (shared_folders (sort_key fcID fs) i) = set (shared_folders fs i)"
  by (simp add: shared_folders_def)

lemma assembled_ok:
  assumes "\<And>d. dvID (g d) = dvID d" "\<And>d. dvUntrusted (g d) = dvUntrusted d" "\<And>d. device_ok scheme (sort_key fcID fs) (g d)"
    and "distinct (map dvID ds)" "sorted (map dvID ds)" "EmptyDeviceID \<notin> dvID ` set ds" "me = EmptyDeviceID \<or> me \<in> dvID ` set ds"
    and "distinct (map fcID fs)" "\<forall>f \<in> set fs. folder_ok me (device_map ds) f"
  shows "config_ok scheme me \<lparr>cfDevices = map g ds, cfFolders = sort_key fcID fs, cfIgnoredDevices = filter (\<lambda>i. i \<notin> dvID ` set ds) ign\<rparr>"
proof -
  have "distinct (map fcID (sort_key fcID fs))" using assms(8) by (auto simp: distinct_map)
  moreover have "folder_ok me (device_map (map g ds)) f" if "f \<in> set fs" for f
    by (rule folder_ok_devices) (use assms that in auto)
  moreover have "dvID \<circ> g = dvID" using assms(1) by auto
  ultimately show ?thesis using assms(3-7) by (auto simp: config_ok_def image_image assms(1, 2))
qed

lemma my_device_present: "me = EmptyDeviceID \<or> me \<in> dvID ` set (cfDevices (ensureMyDevice me host cfg))"
  by (auto simp: ensureMyDevice_def new_device_def)

text \<open>
  C6: Preparing a configuration never fails on an unknown device, and what it accepts is consistent: devices and folders
  are sorted and without duplicates, folders are shared only with known devices, once with each, and with the own one, folders are
  shared with an untrusted device only encrypted, untrusted devices neither introduce others nor have folders accepted, and all settings are within their bounds.
\<close>

theorem prepared_config_is_consistent:
  "config_prepare scheme me host cfg \<noteq> Panic \<and> (\<forall>cfg'. config_prepare scheme me host cfg = Ok cfg' \<longrightarrow> config_ok scheme me cfg')"
proof -
  define c where "c = prepareDeviceList (ensureMyDevice me host cfg)"
  have ids: "dvID ` set (cfDevices c) = dvID ` set (cfDevices (ensureMyDevice me host cfg)) - {EmptyDeviceID}" "distinct (map dvID (cfDevices c))"
      "sorted (map dvID (cfDevices c))"
    using no_duplicate_devices [of "cfDevices (ensureMyDevice me host cfg)"]
    by (auto simp: c_def prepareDeviceList_def distinct_map)
  have me: "me = EmptyDeviceID \<or> me \<in> dvID ` set (cfDevices c)" using my_device_present [of me host cfg] ids(1) by blast
  then have known: "knows_me me (device_map (cfDevices c))" by (simp add: knows_me_def device_map_None)
  note each = each_prepared [OF known, of "[]" "cfFolders c"]
  show ?thesis
  proof (cases "prepare_each me (device_map (cfDevices c)) [] (cfFolders c)")
    case (Ok fs)
    define g where "g d = (device_prepare (shared_folders fs (dvID d)) d)\<lparr>dvAddresses :=
        filterURLSchemePrefix scheme ''kcp'' (dvAddresses (device_prepare (shared_folders fs (dvID d)) d))\<rparr>" for d
    let ?r = "\<lparr>cfDevices = map g (cfDevices c), cfFolders = sort_key fcID fs, cfIgnoredDevices = filter (\<lambda>i. i \<notin> dvID ` set (cfDevices c)) (cfIgnoredDevices c)\<rparr>"
    have same: "dvID (device_prepare x d) = dvID d" for x d by (simp add: device_prepare_def)
    have "config_prepare scheme me host cfg = Ok ?r"
      using Ok by (simp add: config_prepare_def prepareFoldersAndDevices_def Let_def c_def [symmetric] prepareFolders_def prepareDevices_def
          prepareIgnoredDevices_def removeDeprecatedProtocols_def o_def device_map_None g_def image_image same)
    moreover have "config_ok scheme me ?r"
    proof (rule assembled_ok)
      show "device_ok scheme (sort_key fcID fs) (g d)" for d
        using deduplicated [of "dvIgnoredFolders d"]
        by (auto simp: device_ok_def g_def device_prepare_def shared_folders_sorted distinct_map inj_on_def filterURLSchemePrefix_def)
    qed (use ids me each Ok in \<open>auto simp: g_def device_prepare_def\<close>)
    ultimately show ?thesis by simp
  qed (use each in \<open>auto simp: config_prepare_def prepareFoldersAndDevices_def c_def [symmetric] prepareFolders_def\<close>)
qed

definition sample_device :: "device_id \<Rightarrow> string list \<Rightarrow> device_conf" where
  "sample_device i addrs = (new_device i ''a'')\<lparr>dvAddresses := addrs\<rparr>"

definition sample_folder :: "string \<Rightarrow> folder_device list \<Rightarrow> folder_conf" where
  "sample_folder i ds =
     \<lparr>fcID = i, fcLabel = [], fcPath = ''p'', fcType = FolderTypeSendReceive, fcPaused = False, fcDevices = ds, fcRescanIntervalS = 3600,
      fcWatcher = True, fcWatcherDelay = 10000000000, fcVersioning = [], fcCleanupIntervalS = 0, fcMarkerName = [],
      fcMaxConcurrentWrites = 0, fcDigestCacheEntries = 0, fcIgnorePerms = False\<rparr>"

definition sample_config :: configuration where
  "sample_config =
     \<lparr>cfDevices = [sample_device [2] [''kcp://h''], sample_device [2] []],
      cfFolders = [sample_folder ''f'' [\<lparr>fdID = [9], fdIntroducedBy = [], fdPassword = []\<rparr>, \<lparr>fdID = [2], fdIntroducedBy = [], fdPassword = []\<rparr>]],
      cfIgnoredDevices = [[2], [3]]\<rparr>"

theorem prepared_config_is_consistent_witness:
  "\<exists>cfg. config_prepare (\<lambda>a. Some (take 3 a)) [1] ''h'' sample_config = Ok cfg \<and> config_ok (\<lambda>a. Some (take 3 a)) [1] cfg"
proof -
  have "\<exists>cfg. config_prepare (\<lambda>a. Some (take 3 a)) [1] ''h'' sample_config = Ok cfg"
    by (cases "config_prepare (\<lambda>a. Some (take 3 a)) [1] ''h'' sample_config";
        use prepared_config_is_consistent [of "\<lambda>a. Some (take 3 a)" "[1]" "''h''" sample_config] in simp) code_simp
  then show ?thesis using prepared_config_is_consistent [of "\<lambda>a. Some (take 3 a)" "[1]" "''h''" sample_config] by blast
qed

lemma ignored_stay:
  assumes "distinct (map obID (out @ xs))"
  shows "fold add_observed xs out = out @ xs"
  using assms
proof (induction xs arbitrary: out)
  case (Cons x xs)
  then have "add_observed x out = out @ [x]" by (auto simp: add_observed_def find_None_iff image_iff split: option.splits)
  then show ?case using Cons by simp
qed simp

lemma device_stays:
  assumes "device_ok scheme fs d" and "dvAddresses d \<noteq> []" and "dvAddresses d \<noteq> [[]]"
  shows "(device_prepare (shared_folders fs (dvID d)) d)\<lparr>dvAddresses := filterURLSchemePrefix scheme ''kcp'' (dvAddresses (device_prepare (shared_folders fs (dvID d)) d))\<rparr> = d"
proof -
  have "filter (\<lambda>x. obID x \<notin> set (shared_folders fs (dvID d))) (deduplicateObservedFolders (dvIgnoredFolders d)) = dvIgnoredFolders d"
    using assms(1) ignored_stay [of "[]" "dvIgnoredFolders d"] by (auto simp: device_ok_def deduplicateObservedFolders_def filter_id_conv)
  then show ?thesis using assms by (auto simp: device_prepare_def device_ok_def sort_key_id_if_sorted)
qed

lemma folder_stays:
  assumes "folder_ok me known f" and "knows_me me known"
  shows "folder_prepare me known f = Ok f"
proof -
  have ok: "shares_ok me known f" "settings_ok f" using assms(1) by (simp_all add: folder_ok_def)
  have "ensureExistingDevices (fcDevices f) known = fcDevices f"
    unfolding ensureExistingDevices_def compact_whole
    by (rule compact_nothing [where good = "{d. known (fdID d) \<noteq> None}"]) (use ok(1) in \<open>auto simp: shares_ok_def DeviceIDs_def\<close>)
  moreover have "ensureNoDuplicateFolderDevices (fcDevices f) = fcDevices f"
    unfolding ensureNoDuplicateFolderDevices_def compact_whole
    by (rule compact_nothing [where good = UNIV]) (use ok(1) in \<open>auto simp: shares_ok_def DeviceIDs_def\<close>)
  moreover have "filter (trusted_share known f) (ensureDevicePresent (fcDevices f) me) = fcDevices f"
    using ok(1) by (auto simp: ensureDevicePresent_def shares_ok_def DeviceIDs_def filter_id_conv trusted_share_def)
  moreover have "\<forall>d \<in> set (ensureDevicePresent (fcDevices f) me). known (fdID d) \<noteq> None"
    using ok(1) assms(2) by (auto simp: ensureDevicePresent_def shares_ok_def knows_me_def)
  ultimately have "prepare_shares me known f = Ok (fcDevices f)"
    using ok(1) by (simp add: prepare_shares_def untrusted_shares sort_key_id_if_sorted shares_ok_def DeviceIDs_def)
  moreover have "prepare_settings f = f"
    using ok(2) by (auto simp: prepare_settings_def settings_ok_def clamp_interval_def intro!: folder_conf.equality)
  ultimately show ?thesis by (simp add: folder_prepare_def)
qed

lemma each_stays:
  "\<lbrakk>\<forall>f \<in> set fs. folder_ok me known f; knows_me me known; distinct (map fcID fs); fcID ` set fs \<inter> set seen = {}\<rbrakk> \<Longrightarrow>
   prepare_each me known seen fs = Ok fs"
  by (induction fs arbitrary: seen) (auto simp: folder_stays folder_ok_def)

text \<open>
  C32: A consistent configuration in which every device has an address is not changed by preparing it.
\<close>

theorem consistent_config_is_stable:
  assumes "config_ok scheme me cfg" and "\<forall>d \<in> set (cfDevices cfg). dvAddresses d \<notin> {[], [[]]}"
  shows "config_prepare scheme me host cfg = Ok cfg"
proof -
  note ok = assms(1) [unfolded config_ok_def]
  have mine: "ensureMyDevice me host cfg = cfg" using ok by (auto simp: ensureMyDevice_def)
  have "ensureNoDuplicateOrEmptyIDDevices (cfDevices cfg) = cfDevices cfg"
    unfolding ensureNoDuplicateOrEmptyIDDevices_def compact_whole
    by (rule compact_nothing [where good = "{d. dvID d \<noteq> EmptyDeviceID}"]) (use ok in \<open>auto simp: image_iff\<close>)
  then have list: "prepareDeviceList cfg = cfg" using ok by (simp add: prepareDeviceList_def sort_key_id_if_sorted)
  have "knows_me me (device_map (cfDevices cfg))" using ok by (auto simp: knows_me_def device_map_None)
  then have each: "prepare_each me (device_map (cfDevices cfg)) [] (cfFolders cfg) = Ok (cfFolders cfg)" using ok by (simp add: each_stays)
  have devs: "map (\<lambda>d. (device_prepare (shared_folders (cfFolders cfg) (dvID d)) d)\<lparr>dvAddresses :=
      filterURLSchemePrefix scheme ''kcp'' (dvAddresses (device_prepare (shared_folders (cfFolders cfg) (dvID d)) d))\<rparr>) (cfDevices cfg) = cfDevices cfg"
    using ok assms(2) device_stays by (intro map_idI) auto
  have ids: "dvID (device_prepare x d) = dvID d" for x d by (simp add: device_prepare_def)
  have ign: "filter (\<lambda>i. i \<notin> dvID ` set (cfDevices cfg)) (cfIgnoredDevices cfg) = cfIgnoredDevices cfg" using ok by (auto simp: filter_id_conv)
  show ?thesis using each devs ign ok
    by (simp add: config_prepare_def mine prepareFoldersAndDevices_def Let_def list prepareFolders_def prepareDevices_def
        prepareIgnoredDevices_def removeDeprecatedProtocols_def o_def device_map_None image_image ids sort_key_id_if_sorted)
qed

theorem consistent_config_is_stable_witness:
  "config_prepare Some [1] ''h'' \<lparr>cfDevices = [sample_device [1] [''dynamic'']], cfFolders = [], cfIgnoredDevices = [[2]]\<rparr> =
   Ok \<lparr>cfDevices = [sample_device [1] [''dynamic'']], cfFolders = [], cfIgnoredDevices = [[2]]\<rparr>"
  by (rule consistent_config_is_stable)
    (auto simp: config_ok_def sample_device_def new_device_def device_ok_def EmptyDeviceID_def DeviceIDLength_def shared_folders_def
      filterURLSchemePrefix_def HasPrefix_def dest: arg_cong [where f = length])

text \<open>
  A device with addresses of a removed protocol only is left with no address at all; preparing the configuration again gives
  it the address that devices without one get.
\<close>

theorem removed_addresses_leave_none:
  "\<exists>cfg cfg'. config_prepare (\<lambda>a. Some (take 3 a)) [1] ''h'' sample_config = Ok cfg \<and> config_prepare (\<lambda>a. Some (take 3 a)) [1] ''h'' cfg = Ok cfg' \<and>
     map_option dvAddresses (config_Device cfg [2]) = Some [] \<and> map_option dvAddresses (config_Device cfg' [2]) = Some [''dynamic'']"
proof -
  let ?scheme = "\<lambda>a. Some (take 3 a)"
  let ?f = "\<lambda>g. case g of Ok c \<Rightarrow> config_prepare ?scheme [1] ''h'' c | r \<Rightarrow> r"
  have "(case config_prepare ?scheme [1] ''h'' sample_config of Ok cfg \<Rightarrow>
           map_option dvAddresses (config_Device cfg [2]) = Some [] \<and>
           (case config_prepare ?scheme [1] ''h'' cfg of Ok cfg' \<Rightarrow> map_option dvAddresses (config_Device cfg' [2]) = Some [''dynamic''] | _ \<Rightarrow> False)
         | _ \<Rightarrow> False)"
    by code_simp
  then show ?thesis by (auto split: outcome.splits)
qed

end
