(* ===== verification/Cluster_Config.thy ===== *)
theory Cluster_Config
  imports Config Scan_Cache Index_Registry Folder_State
begin

text \<open>
  What a device announces about its folders when a connection starts, and what it does with the announcement of the other
  side: \<^verbatim>\<open>generateClusterConfig\<close>, \<^verbatim>\<open>ClusterConfig\<close> and what they call in
  \<^verbatim>\<open>lib/model/model.go\<close>. It checks that both sides agree on encryption, accepts folders, starts index handlers,
  and follows introducers.

  Deriving a token from a password, indexes and sequences in the database, files with tokens and the creation of
  directories are outside. Go's maps are lists of pairs; their order is that of insertion here and not fixed by the code.
\<close>

datatype cc_error =
    errDeviceUnknown | errMissingRemoteInClusterConfig | errMissingLocalInClusterConfig
  | errEncryptionInvConfigLocal | errEncryptionInvConfigRemote | errEncryptionNotEncryptedLocal
  | errEncryptionPlainForReceiveEncrypted | errEncryptionPlainForRemoteEncrypted | errEncryptionNotEncryptedUntrusted
  | errEncryptionPassword | errEncryptionTokenRead | errEncryptionTokenWrite

datatype token_file = TokenStored bytes | TokenMissing | TokenUnreadable

type_synonym folder_tokens = "string \<Rightarrow> bytes option"

record cc_env =
  ccMe :: device_id
  ccHost :: string
  ccPasswordToken :: "string \<Rightarrow> string \<Rightarrow> bytes"
  ccIndexID :: "string \<Rightarrow> device_id \<Rightarrow> uint64"
  ccSequence :: "string \<Rightarrow> device_id \<Rightarrow> int"
  ccReadToken :: "string \<Rightarrow> token_file"
  ccWriteFails :: "string \<Rightarrow> bool"
  ccPendingFails :: "string \<Rightarrow> bool"
  ccListFails :: bool

section \<open>The announcement\<close>

text \<open>A device that the configuration does not have is announced with empty fields.\<close>

definition announced_device ::
  "cc_env \<Rightarrow> configuration \<Rightarrow> folder_tokens \<Rightarrow> device_id \<Rightarrow> folder_conf \<Rightarrow> folder_device \<Rightarrow> Device option" where
  "announced_device env cfg toks dev f fd =
     (let c = (case config_Device cfg (fdID fd) of Some c \<Rightarrow> c | None \<Rightarrow> new_device EmptyDeviceID []);
          dbDev = (if dvID c = ccMe env then LocalDeviceID else dvID c);
          announce = (\<lambda>token.
            \<lparr>DevID = dvID c, DevName = dvName c, Addresses = dvAddresses c, DevCompression = dvCompression c, CertName = dvCertName c,
             MaxSequence = ccSequence env (fcID f) dbDev, Introducer = dvIntroducer c, IndexID = ccIndexID env (fcID f) dbDev,
             SkipIntroductionRemovals = False, EncryptionPasswordToken = token\<rparr>)
      in if dvID c = ccMe env \<and> toks (fcID f) \<noteq> None then Some (announce (the (toks (fcID f))))
         else if fdPassword fd \<noteq> [] then
           (if fdID fd = dev then Some (announce (ccPasswordToken env (fcID f) (fdPassword fd))) else None)
         else Some (announce []))"

definition announced_folder :: "cc_env \<Rightarrow> configuration \<Rightarrow> folder_tokens \<Rightarrow> device_id \<Rightarrow> folder_conf \<Rightarrow> Folder" where
  "announced_folder env cfg toks dev f =
     \<lparr>FolderID = fcID f, Label = fcLabel f, FType = FolderTypeSendReceive,
      StopReason = (if fcPaused f then FolderStopReasonPaused else FolderStopReasonRunning),
      Devices = List.map_filter (announced_device env cfg toks dev f) (fcDevices f)\<rparr>"

definition announces :: "folder_tokens \<Rightarrow> device_id \<Rightarrow> folder_conf \<Rightarrow> bool" where
  "announces toks dev f \<longleftrightarrow> SharedWith f dev \<and> \<not> (fcType f = FolderTypeReceiveEncrypted \<and> toks (fcID f) = None)"

text \<open>The passwords are for the connection.\<close>

definition announced_password :: "cc_env \<Rightarrow> configuration \<Rightarrow> folder_tokens \<Rightarrow> device_id \<Rightarrow> folder_conf \<Rightarrow> folder_device \<Rightarrow> (string \<times> string) option" where
  "announced_password env cfg toks dev f fd =
     (let own = (case config_Device cfg (fdID fd) of Some c \<Rightarrow> dvID c | None \<Rightarrow> EmptyDeviceID) = ccMe env
      in if \<not> (own \<and> toks (fcID f) \<noteq> None) \<and> fdPassword fd \<noteq> [] \<and> fdID fd = dev then Some (fcID f, fdPassword fd) else None)"

definition generateClusterConfig ::
  "cc_env \<Rightarrow> configuration \<Rightarrow> folder_tokens \<Rightarrow> device_id \<Rightarrow> ClusterConfig \<times> (string \<times> string) list" where
  "generateClusterConfig env cfg toks dev =
     (let fs = filter (announces toks dev) (cfFolders cfg)
      in (\<lparr>Folders = map (announced_folder env cfg toks dev) fs, Secondary = False\<rparr>,
          fold (\<lambda>(k, v). put k v)
            (concat (map (\<lambda>f. List.map_filter (announced_password env cfg toks dev f) (fcDevices f)) fs)) []))"

section \<open>What the other side says of both\<close>

type_synonym cc_info = "Device \<times> Device"

definition said :: "Device option \<Rightarrow> bool" where
  "said d \<longleftrightarrow> (case d of None \<Rightarrow> False | Some x \<Rightarrow> DevID x \<noteq> EmptyDeviceID)"

text \<open>The entries of the own device and the other one; the search ends when both are found.\<close>

fun find_info :: "device_id \<Rightarrow> device_id \<Rightarrow> Device option \<times> Device option \<Rightarrow> Device list \<Rightarrow> Device option \<times> Device option" where
  "find_info me dev info [] = info"
| "find_info me dev info (d # ds) =
     (let info = (if DevID d = me then (Some d, snd info) else if DevID d = dev then (fst info, Some d) else info)
      in if said (fst info) \<and> said (snd info) then info else find_info me dev info ds)"

fun cc_infos :: "device_id \<Rightarrow> device_id \<Rightarrow> Folder list \<Rightarrow> (string \<times> cc_info) list \<Rightarrow> (cc_error, (string \<times> cc_info) list) outcome" where
  "cc_infos me dev [] tbl = Ok tbl"
| "cc_infos me dev (f # fs) tbl =
     (case find_info me dev (None, None) (Devices f) of
        (l, r) \<Rightarrow>
          if \<not> said r then Err errMissingRemoteInClusterConfig
          else if \<not> said l then Err errMissingLocalInClusterConfig
          else cc_infos me dev fs (put (FolderID f) (the l, the r) tbl))"

section \<open>Encryption\<close>

text \<open>The error, and the tokens of folders that receive encrypted data.\<close>

definition ccCheckEncryption ::
  "cc_env \<Rightarrow> folder_conf \<Rightarrow> folder_device \<Rightarrow> cc_info \<Rightarrow> bool \<Rightarrow> folder_tokens \<Rightarrow> cc_error option \<times> folder_tokens" where
  "ccCheckEncryption env f fd info deviceUntrusted toks =
     (let localToken = EncryptionPasswordToken (fst info); remoteToken = EncryptionPasswordToken (snd info);
          hasTokenRemote = remoteToken \<noteq> []; hasTokenLocal = localToken \<noteq> [];
          isEncryptedRemote = fdPassword fd \<noteq> []; isEncryptedLocal = fcType f = FolderTypeReceiveEncrypted;
          ccToken = (if hasTokenLocal then localToken else remoteToken)
      in if \<not> isEncryptedRemote \<and> \<not> isEncryptedLocal \<and> deviceUntrusted then (Some errEncryptionNotEncryptedUntrusted, toks)
         else if \<not> (hasTokenRemote \<or> hasTokenLocal \<or> isEncryptedRemote \<or> isEncryptedLocal) then (None, toks)
         else if isEncryptedRemote \<and> isEncryptedLocal then (Some errEncryptionInvConfigLocal, toks)
         else if hasTokenRemote \<and> hasTokenLocal then (Some errEncryptionInvConfigRemote, toks)
         else if \<not> (hasTokenRemote \<or> hasTokenLocal)
         then (Some (if isEncryptedRemote then errEncryptionPlainForRemoteEncrypted else errEncryptionPlainForReceiveEncrypted), toks)
         else if \<not> (isEncryptedRemote \<or> isEncryptedLocal) then (Some errEncryptionNotEncryptedLocal, toks)
         else if isEncryptedRemote
         then (if ccPasswordToken env (fcID f) (fdPassword fd) = ccToken then None else Some errEncryptionPassword, toks)
         else
           case toks (fcID f) of
             Some token \<Rightarrow> (if token = ccToken then None else Some errEncryptionPassword, toks)
           | None \<Rightarrow>
               (case ccReadToken env (fcID f) of
                  TokenUnreadable \<Rightarrow> (Some errEncryptionTokenRead, toks)
                | TokenStored token \<Rightarrow> (if token = ccToken then None else Some errEncryptionPassword, toks(fcID f \<mapsto> token))
                | TokenMissing \<Rightarrow>
                    if ccWriteFails env (fcID f) then (Some errEncryptionTokenWrite, toks) else (None, toks(fcID f \<mapsto> ccToken))))"

section \<open>The folders of the other side\<close>

record pending_folder =
  pfLabel :: string
  pfReceiveEncrypted :: bool
  pfRemoteEncrypted :: bool

text \<open>
  What handling changes: the index handlers with the databases of the folders, folders that were offered, those
  of them that are no longer offered, folders for which temporary indexes are sent, the states on the other side, tokens, and failures by folder and device.
\<close>

record ('sup, 'tok) cc_state =
  csHandlers :: "('sup, 'tok) registry"
  csDbs :: "string \<Rightarrow> folder_db"
  csPending :: "(string \<times> pending_folder) list"
  csExpired :: "string list"
  csTemp :: "string list"
  csSeen :: "(string \<times> remoteFolderState) list"
  csTokens :: folder_tokens
  csFailures :: "(string \<times> (device_id \<times> cc_error) list) list"

definition start_info_of :: "cc_info \<Rightarrow> start_info" where
  "start_info_of info = \<lparr>localIndexID = IndexID (fst info), localMaxSequence = MaxSequence (fst info), remoteIndexID = IndexID (snd info)\<rparr>"

definition add_info ::
  "('sup, 'tok, 'e) registry_env \<Rightarrow> Folder \<Rightarrow> cc_info \<Rightarrow> ('sup, 'tok) cc_state \<Rightarrow> ('sup, 'tok) cc_state" where
  "add_info renv f info s =
     (case AddIndexInfo renv (FolderID f) (start_info_of info) (csHandlers s) (csDbs s (FolderID f)) of
        (r, fdb) \<Rightarrow> s\<lparr>csHandlers := r, csDbs := (csDbs s)(FolderID f := fdb)\<rparr>)"

definition remove_info :: "('sup, 'tok, 'e) registry_env \<Rightarrow> Folder \<Rightarrow> ('sup, 'tok) cc_state \<Rightarrow> ('sup, 'tok) cc_state" where
  "remove_info renv f s = s\<lparr>csHandlers := registry_Remove renv (FolderID f) (csHandlers s)\<rparr>"

definition note_failure ::
  "string \<Rightarrow> device_id \<Rightarrow> cc_error \<Rightarrow> (string \<times> (device_id \<times> cc_error) list) list \<Rightarrow> (string \<times> (device_id \<times> cc_error) list) list" where
  "note_failure folder dev e fails = put folder (put dev e (case map_of fails folder of None \<Rightarrow> [] | Some ds \<Rightarrow> ds)) fails"

text \<open>The last failure of a folder is forgotten whatever device it is of.\<close>

definition forget_failure ::
  "string \<Rightarrow> device_id \<Rightarrow> (string \<times> (device_id \<times> cc_error) list) list \<Rightarrow> (string \<times> (device_id \<times> cc_error) list) list" where
  "forget_failure folder dev fails =
     (case map_of fails folder of
        None \<Rightarrow> fails
      | Some ds \<Rightarrow> if length ds = 1 then del folder fails else put folder (del dev ds) fails)"

definition not_shared ::
  "('sup, 'tok, 'e) registry_env \<Rightarrow> cc_env \<Rightarrow> device_conf \<Rightarrow> Folder \<Rightarrow> cc_info \<Rightarrow> ('sup, 'tok) cc_state \<Rightarrow> ('sup, 'tok) cc_state" where
  "not_shared renv env dc f info s =
     (let s = remove_info renv f s
      in if IgnoredFolder dc (FolderID f) then s
         else
           let s = s\<lparr>csExpired := removeAll (FolderID f) (csExpired s),
                     csPending := (if ccPendingFails env (FolderID f) then csPending s
                                   else put (FolderID f)
                                          \<lparr>pfLabel = Label f, pfReceiveEncrypted = (EncryptionPasswordToken (fst info) \<noteq> []),
                                           pfRemoteEncrypted = (EncryptionPasswordToken (snd info) \<noteq> [])\<rparr> (csPending s))\<rparr>
           in if IsRunning f then add_info renv f info s else s)"

definition handle_folder ::
  "('sup, 'tok, 'e) registry_env \<Rightarrow> cc_env \<Rightarrow> configuration \<Rightarrow> device_conf \<Rightarrow> (string \<times> cc_info) list \<Rightarrow> Folder \<Rightarrow> ('sup, 'tok) cc_state
   \<Rightarrow> cc_error option \<times> ('sup, 'tok) cc_state" where
  "handle_folder renv env cfg dc tbl f s =
     (let dev = dvID dc; info = the (map_of tbl (FolderID f)); s = s\<lparr>csSeen := put (FolderID f) remoteFolderValid (csSeen s)\<rparr>
      in case config_Folder cfg (FolderID f) of
           None \<Rightarrow> (None, not_shared renv env dc f info s)
         | Some c \<Rightarrow>
             (case folder_Device c dev of
                None \<Rightarrow> (None, not_shared renv env dc f info s)
              | Some fd \<Rightarrow>
                  if \<not> IsRunning f then (None, (remove_info renv f s)\<lparr>csSeen := put (fcID c) remoteFolderPaused (csSeen s)\<rparr>)
                  else if fcPaused c then (None, add_info renv f info s)
                  else
                    case ccCheckEncryption env c fd info (dvUntrusted dc) (csTokens s) of
                      (Some e, toks) \<Rightarrow> (Some e, s\<lparr>csTokens := toks, csFailures := note_failure (FolderID f) dev e (csFailures s)\<rparr>)
                    | (None, toks) \<Rightarrow>
                        (None, add_info renv f info
                           (s\<lparr>csTokens := toks, csFailures := forget_failure (FolderID f) dev (csFailures s),
                              csTemp := (if FType f \<noteq> FolderTypeReceiveEncrypted then csTemp s @ [FolderID f] else csTemp s)\<rparr>))))"

fun handle_folders ::
  "('sup, 'tok, 'e) registry_env \<Rightarrow> cc_env \<Rightarrow> configuration \<Rightarrow> device_conf \<Rightarrow> (string \<times> cc_info) list \<Rightarrow> Folder list \<Rightarrow> ('sup, 'tok) cc_state
   \<Rightarrow> cc_error option \<times> ('sup, 'tok) cc_state" where
  "handle_folders renv env cfg dc tbl [] s = (None, s)"
| "handle_folders renv env cfg dc tbl (f # fs) s =
     (case handle_folder renv env cfg dc tbl f s of
        (Some e, s) \<Rightarrow> (Some e, s)
      | (None, s) \<Rightarrow> handle_folders renv env cfg dc tbl fs s)"

text \<open>Folders that are offered and were not accepted; \<open>removeFails\<close> are offers the database fails to forget.\<close>

definition not_accepted :: "configuration \<Rightarrow> device_id \<Rightarrow> (string \<times> remoteFolderState) list \<Rightarrow> (string \<times> remoteFolderState) list" where
  "not_accepted cfg dev seen =
     fold (\<lambda>f seen. if map_of seen (fcID f) = None \<and> SharedWith f dev then put (fcID f) remoteFolderNotSharing seen else seen) (cfFolders cfg) seen"

definition ccHandleFolders ::
  "('sup, 'tok, 'e) registry_env \<Rightarrow> cc_env \<Rightarrow> string list \<Rightarrow> (string \<Rightarrow> bool) \<Rightarrow> configuration \<Rightarrow> device_conf \<Rightarrow> (string \<times> cc_info) list
   \<Rightarrow> Folder list \<Rightarrow> ('sup, 'tok) cc_state \<Rightarrow> cc_error option \<times> ('sup, 'tok) cc_state" where
  "ccHandleFolders renv env order removeFails cfg dc tbl fs s =
     (case handle_folders renv env cfg dc tbl fs (s\<lparr>csTemp := [], csSeen := [], csExpired := (if ccListFails env then [] else map fst (csPending s))\<rparr>) of
        (Some e, s) \<Rightarrow> (Some e, s)
      | (None, s) \<Rightarrow>
          (None, s\<lparr>csHandlers := RemoveAllExcept renv order (\<lambda>f. map_of (csSeen s) f \<noteq> None) (csHandlers s),
                   csSeen := not_accepted cfg (dvID dc) (csSeen s),
                   csPending := filter (\<lambda>p. fst p \<notin> set (csExpired s) \<or> removeFails (fst p)) (csPending s)\<rparr>))"

section \<open>Accepting folders\<close>

record accept_env =
  aeDefaultPath :: string
  aeOccupied :: "string \<Rightarrow> bool"
  aeMkdirFails :: "string \<Rightarrow> bool"
  aeNewFolder :: "string \<Rightarrow> string \<Rightarrow> string \<Rightarrow> folder_conf"

definition encrypted_offer :: "cc_info \<Rightarrow> bool" where
  "encrypted_offer info \<longleftrightarrow> EncryptionPasswordToken (snd info) \<noteq> [] \<or> EncryptionPasswordToken (fst info) \<noteq> []"

definition share_with :: "device_id \<Rightarrow> device_id \<Rightarrow> folder_conf \<Rightarrow> folder_conf" where
  "share_with dev introducer f = f\<lparr>fcDevices := fcDevices f @ [\<lparr>fdID = dev, fdIntroducedBy = introducer, fdPassword = []\<rparr>]\<rparr>"

text \<open>A new folder gets the first of its names that is free below the default path.\<close>

definition accepted_folder :: "accept_env \<Rightarrow> device_id \<Rightarrow> Folder \<Rightarrow> cc_info \<Rightarrow> string \<Rightarrow> folder_conf" where
  "accepted_folder aenv dev f info path =
     (let c = share_with dev EmptyDeviceID (aeNewFolder aenv (FolderID f) (Label f) (path_Join [aeDefaultPath aenv, path]))
      in if encrypted_offer info then
           c\<lparr>fcType := FolderTypeReceiveEncrypted, fcWatcher := False,
             fcRescanIntervalS := (if fcRescanIntervalS c \<noteq> 0 \<and> fcRescanIntervalS c < 3600 * 24 then 3600 * 24 else fcRescanIntervalS c),
             fcVersioning := []\<rparr>
         else c)"

definition handleAutoAccepts :: "accept_env \<Rightarrow> device_id \<Rightarrow> Folder \<Rightarrow> cc_info \<Rightarrow> folder_conf option \<Rightarrow> folder_conf option" where
  "handleAutoAccepts aenv dev f info have_cfg =
     (case have_cfg of
        None \<Rightarrow>
          map_option (accepted_folder aenv dev f info)
            (List.find (\<lambda>path. \<not> aeOccupied aenv path \<and> \<not> aeMkdirFails aenv path)
               (filter (\<lambda>alt. alt \<noteq> []) [SanitizePath (Label f), SanitizePath (FolderID f)]))
      | Some c \<Rightarrow>
          if dev \<in> set (DeviceIDs c) then None
          else if (fcType c = FolderTypeReceiveEncrypted) \<noteq> encrypted_offer info then None
          else Some (share_with dev EmptyDeviceID c))"

definition auto_accept ::
  "accept_env \<Rightarrow> device_id \<Rightarrow> (string \<times> cc_info) list \<Rightarrow> Folder list \<Rightarrow> configuration \<Rightarrow> configuration" where
  "auto_accept aenv dev tbl fs cfg =
     (let accepted = fold (\<lambda>f acc. case handleAutoAccepts aenv dev f (the (map_of tbl (FolderID f))) (config_Folder cfg (FolderID f)) of
                                     None \<Rightarrow> acc | Some c \<Rightarrow> put (FolderID f) c acc) fs []
      in cfg\<lparr>cfFolders := map (\<lambda>f. case map_of accepted (fcID f) of None \<Rightarrow> f | Some c \<Rightarrow> c) (cfFolders cfg) @
                          map snd (filter (\<lambda>x. fst x \<notin> fcID ` set (cfFolders cfg)) accepted)\<rparr>)"

section \<open>Introductions\<close>

text \<open>Pairs of a folder and a device that the introducer shares it with.\<close>

type_synonym folder_devices = "(string \<times> device_id) set"

definition fds_set :: "device_id \<Rightarrow> string \<Rightarrow> folder_devices \<Rightarrow> folder_devices" where
  "fds_set dev folder fds = insert (folder, dev) fds"

definition fds_has :: "folder_devices \<Rightarrow> device_id \<Rightarrow> string \<Rightarrow> bool" where
  "fds_has fds dev folder \<longleftrightarrow> (folder, dev) \<in> fds"

definition hasDevice :: "folder_devices \<Rightarrow> device_id \<Rightarrow> bool" where
  "hasDevice fds dev \<longleftrightarrow> dev \<in> snd ` fds"

definition introduceDevice :: "device_conf \<Rightarrow> Device \<Rightarrow> device_conf \<Rightarrow> device_conf" where
  "introduceDevice templ d introducer =
     templ\<lparr>dvID := DevID d, dvName := DevName d, dvCompression := dvCompression introducer,
       dvAddresses := ''dynamic'' # filter (\<lambda>a. a \<noteq> ''dynamic'') (Addresses d), dvCertName := CertName d,
       dvIntroducedBy := dvID introducer,
       dvIntroducer := (Introducer d \<or> dvIntroducer templ),
       dvSkipRemovals := (if Introducer d then SkipIntroductionRemovals d else dvSkipRemovals templ)\<rparr>"

text \<open>
  The devices of one folder: the folder, whether it changed, the devices and the pairs.  A token that
  is empty stands for a missing one: an empty one is not sent, and what is not sent is nil here.
\<close>

fun introduce_to ::
  "device_id \<Rightarrow> device_conf \<Rightarrow> device_conf \<Rightarrow> Device list \<Rightarrow> folder_conf \<times> bool \<times> device_conf list \<times> folder_devices
   \<Rightarrow> folder_conf \<times> bool \<times> device_conf list \<times> folder_devices" where
  "introduce_to me templ introducer [] st = st"
| "introduce_to me templ introducer (d # ds) (f, changed_folder, devs, fds) =
     introduce_to me templ introducer ds
       (if DevID d = me then (f, changed_folder, devs, fds)
        else
          let fds = fds_set (DevID d) (fcID f) fds; unknown = DevID d \<notin> dvID ` set devs;
              devs = (if unknown then devs @ [introduceDevice templ d introducer] else devs)
          in if \<not> unknown \<and> SharedWith f (DevID d) then (f, changed_folder, devs, fds)
             else if fcType f \<noteq> FolderTypeReceiveEncrypted \<and> EncryptionPasswordToken d \<noteq> [] then (f, changed_folder, devs, fds)
             else (share_with (DevID d) (dvID introducer) f, True, devs, fds))"

definition set_folder :: "folder_conf \<Rightarrow> folder_conf list \<Rightarrow> folder_conf list" where
  "set_folder c fs = map (\<lambda>f. if fcID f = fcID c then c else f) fs"

fun handleIntroductions ::
  "device_id \<Rightarrow> device_conf \<Rightarrow> device_conf \<Rightarrow> Folder list \<Rightarrow> folder_conf list \<times> device_conf list \<times> folder_devices \<times> bool
   \<Rightarrow> folder_conf list \<times> device_conf list \<times> folder_devices \<times> bool" where
  "handleIntroductions me templ introducer [] st = st"
| "handleIntroductions me templ introducer (a # offered) (fs, devs, fds, any) =
     handleIntroductions me templ introducer offered
       (case List.find (\<lambda>f. fcID f = FolderID a) fs of
          None \<Rightarrow> (fs, devs, fds, any)
        | Some f \<Rightarrow>
            (case introduce_to me templ introducer (Devices a) (f, False, devs, fds) of
               (f, changed_folder, devs, fds) \<Rightarrow> (if changed_folder then set_folder f fs else fs, devs, fds, any \<or> changed_folder)))"

text \<open>Shares and devices that came from the introducer and that it no longer has.\<close>

definition kept_share :: "device_conf \<Rightarrow> folder_devices \<Rightarrow> folder_conf \<Rightarrow> folder_device \<Rightarrow> bool" where
  "kept_share introducer fds f d \<longleftrightarrow> fdIntroducedBy d \<noteq> dvID introducer \<or> fds_has fds (fdID d) (fcID f)"

definition unshare :: "device_conf \<Rightarrow> folder_devices \<Rightarrow> folder_conf \<Rightarrow> folder_conf" where
  "unshare introducer fds f = f\<lparr>fcDevices := filter (kept_share introducer fds f) (fcDevices f)\<rparr>"

definition kept_device :: "device_conf \<Rightarrow> folder_devices \<Rightarrow> folder_conf list \<Rightarrow> device_conf \<Rightarrow> bool" where
  "kept_device introducer fds fs d \<longleftrightarrow>
     dvIntroducedBy d \<noteq> dvID introducer \<or> hasDevice fds (dvID d) \<or>
     (\<exists>f \<in> set fs. \<exists>x \<in> set (fcDevices f). fdIntroducedBy x \<noteq> dvID introducer \<and> fdID x = dvID d)"

definition handleDeintroductions ::
  "device_conf \<Rightarrow> folder_devices \<Rightarrow> folder_conf list \<Rightarrow> device_conf list \<Rightarrow> folder_conf list \<times> device_conf list \<times> bool" where
  "handleDeintroductions introducer fds fs devs =
     (if dvSkipRemovals introducer then (fs, devs, False)
      else (map (unshare introducer fds) fs, filter (kept_device introducer fds fs) devs,
            (\<exists>f \<in> set fs. \<exists>d \<in> set (fcDevices f). \<not> kept_share introducer fds f d) \<or> (\<exists>d \<in> set devs. \<not> kept_device introducer fds fs d)))"

definition introductions :: "device_id \<Rightarrow> device_conf \<Rightarrow> device_conf \<Rightarrow> Folder list \<Rightarrow> configuration \<Rightarrow> configuration" where
  "introductions me templ introducer offered cfg =
     (case handleIntroductions me templ introducer offered (cfFolders cfg, cfDevices cfg, {}, False) of
        (fs, devs, fds, introduced) \<Rightarrow>
          (case handleDeintroductions introducer fds fs devs of
             (fs, devs, deintroduced) \<Rightarrow>
               if \<not> introduced \<and> \<not> deintroduced then cfg else cfg\<lparr>cfFolders := fs, cfDevices := devs\<rparr>))"

section \<open>The handler\<close>

text \<open>A change of the configuration is prepared; one that cannot be is dropped.\<close>

definition modify :: "(string \<Rightarrow> string option) \<Rightarrow> cc_env \<Rightarrow> (configuration \<Rightarrow> configuration) \<Rightarrow> configuration \<Rightarrow> configuration" where
  "modify scheme env change cfg = (case config_prepare scheme (ccMe env) (ccHost env) (change cfg) of Ok c \<Rightarrow> c | _ \<Rightarrow> cfg)"

definition handle_cluster_config ::
  "('sup, 'tok, 'e) registry_env \<Rightarrow> cc_env \<Rightarrow> accept_env \<Rightarrow> (string \<Rightarrow> string option) \<Rightarrow> string list \<Rightarrow> (string \<Rightarrow> bool) \<Rightarrow> device_conf
   \<Rightarrow> device_id \<Rightarrow> ClusterConfig \<Rightarrow> configuration \<Rightarrow> (device_id \<Rightarrow> (string \<times> remoteFolderState) list option) \<Rightarrow> ('sup, 'tok) cc_state
   \<Rightarrow> cc_error option \<times> configuration \<times> (device_id \<Rightarrow> (string \<times> remoteFolderState) list option) \<times> ('sup, 'tok) cc_state" where
  "handle_cluster_config renv env aenv scheme order removeFails templ dev cm cfg remote s =
     (if Secondary cm then (None, cfg, remote, s)
      else
        case config_Device cfg dev of
          None \<Rightarrow> (Some errDeviceUnknown, cfg, remote, s)
        | Some dc \<Rightarrow>
            (case cc_infos (ccMe env) dev (Folders cm) [] of
               Ok tbl \<Rightarrow>
                 let cfg = (if dvAutoAccept dc then modify scheme env (auto_accept aenv dev tbl (Folders cm)) cfg else cfg)
                 in (case ccHandleFolders renv env order removeFails cfg dc tbl (Folders cm) s of
                       (Some e, s) \<Rightarrow> (Some e, cfg, remote, s)
                     | (None, s) \<Rightarrow>
                         (None, if dvIntroducer dc then modify scheme env (introductions (ccMe env) templ dc (Folders cm)) cfg else cfg,
                          remote(dev \<mapsto> csSeen s), s))
             | Err e \<Rightarrow> (Some e, cfg, remote, s)
             | Panic \<Rightarrow> (None, cfg, remote, s)))"

section \<open>Both sides agree on encryption\<close>

lemma config_Device_known: "config_Device cfg i = Some c \<Longrightarrow> c \<in> set (cfDevices cfg) \<and> dvID c = i"
  by (auto simp: config_Device_def find_Some_iff in_set_conv_nth)

lemma config_Device_None: "config_Device cfg i = None \<longleftrightarrow> i \<notin> dvID ` set (cfDevices cfg)"
  by (auto simp: config_Device_def find_None_iff)

lemma folder_Device_known: "folder_Device f i = Some d \<Longrightarrow> d \<in> set (fcDevices f) \<and> fdID d = i"
  by (auto simp: folder_Device_def find_Some_iff in_set_conv_nth)

lemma SharedWith_iff: "SharedWith f i \<longleftrightarrow> i \<in> set (DeviceIDs f)"
  by (auto simp: SharedWith_def folder_Device_def find_None_iff DeviceIDs_def)

lemma find_info_other:
  assumes "distinct (map DevID ds)" "said (Some l)" "said (Some r)"
  shows "DevID r = dev \<Longrightarrow> r \<in> set ds \<Longrightarrow> me \<notin> DevID ` set ds \<Longrightarrow> find_info me dev (Some l, None) ds = (Some l, Some r)"
    and "DevID l = me \<Longrightarrow> l \<in> set ds \<Longrightarrow> dev \<notin> DevID ` set ds \<Longrightarrow> find_info me dev (None, Some r) ds = (Some l, Some r)"
  using assms by (induction ds) (auto simp: said_def image_iff)

lemma find_info_found:
  assumes "distinct (map DevID ds)" "l \<in> set ds" "r \<in> set ds" "DevID l \<noteq> DevID r" "said (Some l)" "said (Some r)"
  shows "find_info (DevID l) (DevID r) (None, None) ds = (Some l, Some r)"
  using assms
proof (induction ds)
  case (Cons d ds)
  consider "d = l" | "d = r" | "DevID d \<noteq> DevID l" "DevID d \<noteq> DevID r" using Cons.prems by (force simp: image_iff)
  then show ?case
  proof cases
    case 1
    then show ?thesis using Cons.prems find_info_other(1) [of ds l r "DevID r" "DevID l"] by (auto simp: said_def)
  next
    case 2
    then show ?thesis using Cons.prems find_info_other(2) [of ds l r "DevID l" "DevID r"] by (auto simp: said_def)
  next
    case 3
    then show ?thesis using Cons by (auto simp: said_def)
  qed
qed simp

lemma map_filter_in: "x \<in> set xs \<Longrightarrow> g x = Some y \<Longrightarrow> y \<in> set (List.map_filter g xs)"
  by (force simp: List.map_filter_def)

text \<open>A folder of a consistent configuration with its shares.\<close>

definition sharing :: "(string \<Rightarrow> string option) \<Rightarrow> configuration \<Rightarrow> device_id \<Rightarrow> folder_conf \<Rightarrow> device_id \<Rightarrow> string \<Rightarrow> bool" where
  "sharing scheme cfg me f dev password \<longleftrightarrow>
     config_ok scheme me cfg \<and> f \<in> set (cfFolders cfg) \<and> me \<noteq> dev \<and> me \<noteq> EmptyDeviceID \<and>
     map_option fdPassword (folder_Device f me) = Some [] \<and> map_option fdPassword (folder_Device f dev) = Some password"

lemma offered_distinct:
  assumes "config_ok scheme me cfg" and "f \<in> set (cfFolders cfg)"
  shows "distinct (map DevID (Devices (announced_folder env cfg toks dev f)))"
proof -
  have shares: "distinct (map fdID (fcDevices f))" "\<forall>d \<in> set (fcDevices f). fdID d \<in> dvID ` set (cfDevices cfg)"
    using assms by (auto simp: config_ok_def folder_ok_def shares_ok_def DeviceIDs_def device_map_None)
  have id: "DevID x = fdID d" if "announced_device env cfg toks dev f d = Some x" "d \<in> set (fcDevices f)" for d x
    using that shares(2) config_Device_None [of cfg "fdID d"] config_Device_known [of cfg "fdID d"]
    by (auto simp: announced_device_def Let_def split: if_splits option.splits)
  have "distinct (map DevID (List.map_filter (announced_device env cfg toks dev f) ds)) \<and>
      DevID ` set (List.map_filter (announced_device env cfg toks dev f) ds) \<subseteq> fdID ` set ds"
    if "distinct (map fdID ds)" "set ds \<subseteq> set (fcDevices f)" for ds
    using that
  proof (induction ds)
    case (Cons d ds)
    then have IH: "distinct (map DevID (List.map_filter (announced_device env cfg toks dev f) ds))"
        "DevID ` set (List.map_filter (announced_device env cfg toks dev f) ds) \<subseteq> fdID ` set ds" by simp_all
    show ?case
    proof (cases "announced_device env cfg toks dev f d")
      case (Some a)
      then have "DevID a = fdID d" using id Cons.prems(2) by simp
      moreover from this have "DevID a \<notin> DevID ` set (List.map_filter (announced_device env cfg toks dev f) ds)"
        using IH(2) Cons.prems(1) by auto
      ultimately show ?thesis using IH Some by (auto simp: map_filter_simps)
    qed (use IH in \<open>auto simp: map_filter_simps\<close>)
  qed (simp add: map_filter_simps)
  then show ?thesis using shares(1) by (simp add: announced_folder_def)
qed

text \<open>Announcements that both see: the entries and their tokens.\<close>

lemma offered_infos:
  assumes "sharing scheme cfg (ccMe env) f dev password"
    and "password = [] \<or> toks (fcID f) = None"
  shows "\<exists>l r. find_info dev (ccMe env) (None, None) (Devices (announced_folder env cfg toks dev f)) = (Some l, Some r) \<and> said (Some l) \<and> said (Some r) \<and>
    EncryptionPasswordToken l = (if password = [] then [] else ccPasswordToken env (fcID f) password) \<and>
    EncryptionPasswordToken r = (case toks (fcID f) of None \<Rightarrow> [] | Some t \<Rightarrow> t)"
proof -
  define me where "me = ccMe env"
  have ok: "config_ok scheme me cfg" "f \<in> set (cfFolders cfg)" "me \<noteq> dev" "me \<noteq> EmptyDeviceID"
    using assms(1) by (auto simp: sharing_def me_def)
  obtain dm dd where d: "folder_Device f me = Some dm" "fdPassword dm = []" "folder_Device f dev = Some dd" "fdPassword dd = password"
    using assms(1) by (auto simp: sharing_def me_def)
  have known: "fdID d \<in> dvID ` set (cfDevices cfg)" if "d \<in> set (fcDevices f)" for d
    using ok(1, 2) that by (auto simp: config_ok_def folder_ok_def shares_ok_def device_map_None)
  obtain cm where cm: "config_Device cfg me = Some cm" "dvID cm = me"
    using known folder_Device_known [OF d(1)] config_Device_None [of cfg me] config_Device_known by (metis not_Some_eq)
  obtain cd where cd: "config_Device cfg dev = Some cd" "dvID cd = dev"
    using known folder_Device_known [OF d(3)] config_Device_None [of cfg dev] config_Device_known by (metis not_Some_eq)
  have "dev \<noteq> EmptyDeviceID" using cd config_Device_known [OF cd(1)] ok(1) unfolding config_ok_def by (metis image_eqI)
  let ?ds = "Devices (announced_folder env cfg toks dev f)"
  have "\<exists>r. announced_device env cfg toks dev f dm = Some r \<and> DevID r = me \<and> EncryptionPasswordToken r = (case toks (fcID f) of None \<Rightarrow> [] | Some t \<Rightarrow> t)"
    using cm d(2) folder_Device_known [OF d(1)] by (cases "toks (fcID f)") (simp_all add: announced_device_def me_def)
  then obtain r where r: "announced_device env cfg toks dev f dm = Some r" "DevID r = me" "EncryptionPasswordToken r = (case toks (fcID f) of None \<Rightarrow> [] | Some t \<Rightarrow> t)"
    by blast
  have "\<exists>l. announced_device env cfg toks dev f dd = Some l \<and> DevID l = dev \<and>
      EncryptionPasswordToken l = (if password = [] then [] else ccPasswordToken env (fcID f) password)"
    using cd d(4) ok(3) folder_Device_known [OF d(3)] by (simp add: announced_device_def me_def)
  then obtain l where l: "announced_device env cfg toks dev f dd = Some l" "DevID l = dev"
      "EncryptionPasswordToken l = (if password = [] then [] else ccPasswordToken env (fcID f) password)" by blast
  have "r \<in> set ?ds" "l \<in> set ?ds"
    using map_filter_in [where g = "announced_device env cfg toks dev f", OF _ r(1)]
      map_filter_in [where g = "announced_device env cfg toks dev f", OF _ l(1)] folder_Device_known [OF d(1)] folder_Device_known [OF d(3)]
    by (auto simp: announced_folder_def)
  moreover have "said (Some l)" "said (Some r)" using l(2) r(2) ok(4) \<open>dev \<noteq> EmptyDeviceID\<close> by (simp_all add: said_def)
  ultimately have "find_info dev me (None, None) ?ds = (Some l, Some r)"
    using find_info_found [OF offered_distinct [OF ok(1, 2), of env toks dev], of l r] l(2) r(2) ok(3) by simp
  then show ?thesis using l(3) r(3) \<open>said (Some l)\<close> \<open>said (Some r)\<close> by (auto simp: me_def)
qed

text \<open>
  C7: When a device shares a folder with a password and the other one receives it encrypted and has no token for it yet, then the other
  one takes the token from the announcement, and from then on each accepts the announcement of the other.
\<close>

theorem encrypted_peers_agree:
  assumes a: "sharing schemeA cfgA (ccMe envA) fA (ccMe envB) pw" and b: "sharing schemeB cfgB (ccMe envB) fB (ccMe envA) []"
    and same: "fcID fA = fcID fB" "ccPasswordToken envA = ccPasswordToken envB"
    and "pw \<noteq> []" and token: "ccPasswordToken envA (fcID fA) pw \<noteq> []"
    and "fcType fA \<noteq> FolderTypeReceiveEncrypted" and "fcType fB = FolderTypeReceiveEncrypted"
    and toks: "toksA (fcID fA) = None" "toksB (fcID fB) = None" "ccReadToken envB (fcID fB) = TokenMissing" "\<not> ccWriteFails envB (fcID fB)"
    and "folder_Device fA (ccMe envB) = Some toB" "folder_Device fB (ccMe envA) = Some toA"
  shows "\<exists>seenByB seenByA. let toksB' = toksB(fcID fB \<mapsto> ccPasswordToken envA (fcID fA) pw) in
    cc_infos (ccMe envB) (ccMe envA) [announced_folder envA cfgA toksA (ccMe envB) fA] [] = Ok [(fcID fB, seenByB)] \<and>
    ccCheckEncryption envB fB toA seenByB untrustedA toksB = (None, toksB') \<and>
    ccCheckEncryption envB fB toA seenByB untrustedA toksB' = (None, toksB') \<and>
    cc_infos (ccMe envA) (ccMe envB) [announced_folder envB cfgB toksB' (ccMe envA) fB] [] = Ok [(fcID fA, seenByA)] \<and>
    ccCheckEncryption envA fA toB seenByA untrustedB toksA = (None, toksA)"
proof -
  let ?t = "ccPasswordToken envA (fcID fA) pw"
  let ?toksB = "toksB(fcID fB \<mapsto> ?t)"
  obtain l r where lr: "find_info (ccMe envB) (ccMe envA) (None, None) (Devices (announced_folder envA cfgA toksA (ccMe envB) fA)) = (Some l, Some r)"
      "said (Some l)" "said (Some r)" "EncryptionPasswordToken l = ?t" "EncryptionPasswordToken r = []"
    using offered_infos [OF a, of toksA] toks(1) \<open>pw \<noteq> []\<close> by auto
  obtain l' r' where lr': "find_info (ccMe envA) (ccMe envB) (None, None) (Devices (announced_folder envB cfgB ?toksB (ccMe envA) fB)) = (Some l', Some r')"
      "said (Some l')" "said (Some r')" "EncryptionPasswordToken l' = []" "EncryptionPasswordToken r' = ?t"
    using offered_infos [OF b, of ?toksB] by auto
  have pw: "fdPassword toB = pw" "fdPassword toA = []" using a b assms(13, 14) by (auto simp: sharing_def)
  have id: "FolderID (announced_folder envA cfgA toksA (ccMe envB) fA) = fcID fB" "FolderID (announced_folder envB cfgB ?toksB (ccMe envA) fB) = fcID fA"
    using same by (simp_all add: announced_folder_def)
  have "cc_infos (ccMe envB) (ccMe envA) [announced_folder envA cfgA toksA (ccMe envB) fA] [] = Ok [(fcID fB, (l, r))]"
      "cc_infos (ccMe envA) (ccMe envB) [announced_folder envB cfgB ?toksB (ccMe envA) fB] [] = Ok [(fcID fA, (l', r'))]"
    using lr lr' id by (simp_all add: put_def)
  moreover have "ccCheckEncryption envB fB toA (l, r) untrustedA toksB = (None, ?toksB)" "ccCheckEncryption envB fB toA (l, r) untrustedA ?toksB = (None, ?toksB)"
    using lr pw token toks assms(8) by (simp_all add: ccCheckEncryption_def)
  moreover have "ccCheckEncryption envA fA toB (l', r') untrustedB toksA = (None, toksA)"
    using lr' pw token \<open>pw \<noteq> []\<close> assms(7) by (simp add: ccCheckEncryption_def)
  ultimately show ?thesis by (auto simp: Let_def)
qed

definition sample_cc_env :: "device_id \<Rightarrow> cc_env" where
  "sample_cc_env me =
     \<lparr>ccMe = me, ccHost = [], ccPasswordToken = (\<lambda>folder pw. [1]), ccIndexID = (\<lambda>f d. 0), ccSequence = (\<lambda>f d. 0),
      ccReadToken = (\<lambda>f. TokenMissing), ccWriteFails = (\<lambda>f. False), ccPendingFails = (\<lambda>f. False), ccListFails = False\<rparr>"

definition sample_shared :: "FolderType \<Rightarrow> string \<Rightarrow> string \<Rightarrow> folder_conf" where
  "sample_shared t pw1 pw2 =
     prepare_settings ((sample_folder ''f'' [\<lparr>fdID = [1], fdIntroducedBy = [], fdPassword = pw1\<rparr>, \<lparr>fdID = [2], fdIntroducedBy = [], fdPassword = pw2\<rparr>])
       \<lparr>fcType := t\<rparr>)"

definition sample_two :: "folder_conf \<Rightarrow> configuration" where
  "sample_two f = \<lparr>cfDevices = [sample_device [1] [], sample_device [2] []], cfFolders = [f], cfIgnoredDevices = []\<rparr>"

lemma sample_sharing:
  assumes "me = [1] \<and> dev = [2] \<and> pw1 = [] \<and> pw2 = pw \<or> me = [2] \<and> dev = [1] \<and> pw2 = [] \<and> pw1 = pw"
  shows "sharing (\<lambda>a. None) (sample_two (sample_shared t pw1 pw2)) me (sample_shared t pw1 pw2) dev pw"
proof -
  have ne: "EmptyDeviceID \<noteq> [1]" "EmptyDeviceID \<noteq> [2]" "[1] \<noteq> EmptyDeviceID" "[2] \<noteq> EmptyDeviceID"
    by (auto simp: EmptyDeviceID_def DeviceIDLength_def dest: arg_cong [where f = length])
  have devs: "fcDevices (sample_shared t pw1 pw2) = [\<lparr>fdID = [1], fdIntroducedBy = [], fdPassword = pw1\<rparr>, \<lparr>fdID = [2], fdIntroducedBy = [], fdPassword = pw2\<rparr>]"
      "fcID (sample_shared t pw1 pw2) = ''f''" "fcPath (sample_shared t pw1 pw2) = ''p''"
    by (simp_all add: sample_shared_def sample_folder_def)
  have "settings_ok (sample_shared t pw1 pw2)" unfolding sample_shared_def by (rule settings_ok_prepared)
  then show ?thesis using assms
    by (auto simp: sharing_def sample_two_def devs config_ok_def device_ok_def sample_device_def new_device_def ne folder_ok_def shares_ok_def
        DeviceIDs_def device_map_def trusted_share_def filterURLSchemePrefix_def folder_Device_def)
qed

theorem encrypted_peers_agree_witness:
  "\<exists>seenByA. let f = sample_shared FolderTypeSendReceive [] ''x'' in
     ccCheckEncryption (sample_cc_env [1]) f \<lparr>fdID = [2], fdIntroducedBy = [], fdPassword = ''x''\<rparr> seenByA True Map.empty = (None, Map.empty)"
  using encrypted_peers_agree [OF sample_sharing sample_sharing, of "sample_cc_env [1]" "sample_cc_env [2]" "[]" "''x''" "''x''" "[]" "[]" FolderTypeSendReceive
      FolderTypeReceiveEncrypted Map.empty Map.empty "\<lparr>fdID = [2], fdIntroducedBy = [], fdPassword = ''x''\<rparr>" "\<lparr>fdID = [1], fdIntroducedBy = [], fdPassword = []\<rparr>" False True]
  by (auto simp: sample_cc_env_def sample_shared_def sample_folder_def folder_Device_def Let_def)

text \<open>
  C33: When the check of encryption passes, an untrusted device gets only encrypted data, the data is
  not encrypted twice, and either none of the two device entries of the announcement has a token,
  or exactly one of them has: the token of the password that is configured here, or the one that is
  stored here, from now on when there was none.
\<close>

theorem passed_check_means_same_secret:
  assumes "ccCheckEncryption env f fd info untrusted toks = (None, toks')"
  shows "(untrusted \<longrightarrow> fdPassword fd \<noteq> [] \<or> fcType f = FolderTypeReceiveEncrypted) \<and> \<not> (fdPassword fd \<noteq> [] \<and> fcType f = FolderTypeReceiveEncrypted) \<and>
    (if fdPassword fd \<noteq> [] \<or> fcType f = FolderTypeReceiveEncrypted
     then \<exists>t. t \<noteq> [] \<and> {EncryptionPasswordToken (fst info), EncryptionPasswordToken (snd info)} = {[], t} \<and>
              (if fdPassword fd \<noteq> [] then t = ccPasswordToken env (fcID f) (fdPassword fd) \<and> toks' = toks
               else toks' (fcID f) = Some t \<and> (\<forall>s. toks (fcID f) = Some s \<longrightarrow> s = t) \<and>
                    (toks (fcID f) = None \<longrightarrow> ccReadToken env (fcID f) \<in> {TokenStored t, TokenMissing}))
     else EncryptionPasswordToken (fst info) = [] \<and> EncryptionPasswordToken (snd info) = [] \<and> toks' = toks)"
  using assms
  by (cases "fdPassword fd = []"; cases "fcType f = FolderTypeReceiveEncrypted"; cases "EncryptionPasswordToken (fst info) = []";
      cases "EncryptionPasswordToken (snd info) = []")
    (auto simp: ccCheckEncryption_def Let_def doubleton_eq_iff split: if_splits option.splits token_file.splits)

text \<open>The entries of an announcement by a device that receives encrypted data: its own one has the token.\<close>

definition announced_token :: "device_id \<Rightarrow> bytes \<Rightarrow> Device" where
  "announced_token dev t =
     \<lparr>DevID = dev, DevName = [], Addresses = [], DevCompression = CompressionMetadata, CertName = [], MaxSequence = 0, Introducer = False,
      IndexID = 0, SkipIntroductionRemovals = False, EncryptionPasswordToken = t\<rparr>"

theorem passed_check_means_same_secret_witness:
  "ccCheckEncryption (sample_cc_env [1]) (sample_shared FolderTypeSendReceive [] ''x'') \<lparr>fdID = [2], fdIntroducedBy = [], fdPassword = ''x''\<rparr>
     (announced_token [1] [], announced_token [2] [1]) True Map.empty = (None, Map.empty) \<and>
   (\<exists>t. t \<noteq> [] \<and> {EncryptionPasswordToken (announced_token [1] []), EncryptionPasswordToken (announced_token [2] [1])} = {[], t} \<and>
     t = ccPasswordToken (sample_cc_env [1]) ''f'' ''x'')"
proof -
  have check: "ccCheckEncryption (sample_cc_env [1]) (sample_shared FolderTypeSendReceive [] ''x'') \<lparr>fdID = [2], fdIntroducedBy = [], fdPassword = ''x''\<rparr>
      (announced_token [1] [], announced_token [2] [1]) True Map.empty = (None, Map.empty)"
    by (simp add: ccCheckEncryption_def sample_cc_env_def sample_shared_def sample_folder_def announced_token_def)
  have "fcID (sample_shared FolderTypeSendReceive [] ''x'') = ''f''" by (simp add: sample_shared_def sample_folder_def)
  with check passed_check_means_same_secret [OF check] show ?thesis by auto
qed

text \<open>
  C35: A device that gets a folder encrypted is not mentioned to others, only to itself.
\<close>

theorem untrusted_devices_stay_hidden:
  assumes "config_ok scheme (ccMe env) cfg" and "f \<in> set (cfFolders cfg)" and "fd \<in> set (fcDevices f)"
    and "fdPassword fd \<noteq> []" and "fdID fd \<noteq> dev" and "fdID fd \<noteq> ccMe env"
    and "a \<in> set (Folders (fst (generateClusterConfig env cfg toks dev)))" and "FolderID a = fcID f"
  shows "fdID fd \<notin> DevID ` set (Devices a)"
proof
  assume "fdID fd \<in> DevID ` set (Devices a)"
  obtain g where g: "g \<in> set (cfFolders cfg)" "a = announced_folder env cfg toks dev g"
    using assms(7) by (auto simp: generateClusterConfig_def Let_def)
  have "fcID g = fcID f" using g(2) assms(8) by (simp add: announced_folder_def)
  then have "g = f" using g(1) assms(1, 2) by (auto simp: config_ok_def distinct_map inj_on_def)
  then obtain x d where x: "d \<in> set (fcDevices f)" "announced_device env cfg toks dev f d = Some x" "DevID x = fdID fd"
    using g(2) \<open>fdID fd \<in> DevID ` set (Devices a)\<close> by (auto simp: announced_folder_def List.map_filter_def)
  have shares: "distinct (map fdID (fcDevices f))" "fdID d \<in> dvID ` set (cfDevices cfg)"
    using assms(1, 2) x(1) by (auto simp: config_ok_def folder_ok_def shares_ok_def DeviceIDs_def device_map_None)
  have "DevID x = fdID d"
    using x(2) shares(2) config_Device_None [of cfg "fdID d"] config_Device_known [of cfg "fdID d"]
    by (auto simp: announced_device_def Let_def split: if_splits option.splits)
  then have "d = fd" using x(1, 3) assms(3) shares(1) by (auto simp: distinct_map inj_on_def)
  then show False
    using x(2) shares(2) assms(4-6) config_Device_None [of cfg "fdID d"] config_Device_known [of cfg "fdID d"]
    by (auto simp: announced_device_def Let_def split: if_splits option.splits)
qed

theorem untrusted_devices_stay_hidden_witness:
  "let f = sample_shared FolderTypeSendReceive [] ''x''
   in [2] \<notin> DevID ` set (Devices (announced_folder (sample_cc_env [1]) (sample_two f) Map.empty [1] f))"
proof -
  let ?f = "sample_shared FolderTypeSendReceive [] ''x''"
  let ?fd = "\<lparr>fdID = [2], fdIntroducedBy = [], fdPassword = ''x''\<rparr> :: folder_device"
  have "config_ok (\<lambda>a. None) (ccMe (sample_cc_env [1])) (sample_two ?f)"
    using sample_sharing [of "[1]" "[2]" "[]" "''x''" "''x''" FolderTypeSendReceive] by (simp add: sharing_def sample_cc_env_def)
  note hidden = untrusted_devices_stay_hidden [OF this, of ?f ?fd "[1]" "announced_folder (sample_cc_env [1]) (sample_two ?f) Map.empty [1] ?f" Map.empty]
  have devs: "fcDevices ?f = [\<lparr>fdID = [1], fdIntroducedBy = [], fdPassword = []\<rparr>, ?fd]" "fcType ?f = FolderTypeSendReceive"
    by (simp_all add: sample_shared_def sample_folder_def)
  have "fdID ?fd \<notin> DevID ` set (Devices (announced_folder (sample_cc_env [1]) (sample_two ?f) Map.empty [1] ?f))"
  proof (rule hidden)
    show "announced_folder (sample_cc_env [1]) (sample_two ?f) Map.empty [1] ?f
        \<in> set (Folders (fst (generateClusterConfig (sample_cc_env [1]) (sample_two ?f) Map.empty [1])))"
      by (simp add: generateClusterConfig_def Let_def sample_two_def announces_def SharedWith_iff DeviceIDs_def devs)
  qed (simp_all add: sample_two_def devs sample_cc_env_def announced_folder_def)
  then show ?thesis by (simp add: Let_def)
qed

section \<open>What an introducer changes\<close>

definition own_shares :: "device_id \<Rightarrow> folder_conf \<Rightarrow> folder_device list" where
  "own_shares i f = filter (\<lambda>d. fdIntroducedBy d \<noteq> i) (fcDevices f)"

definition may_share :: "folder_conf \<Rightarrow> Device \<Rightarrow> bool" where
  "may_share f d \<longleftrightarrow> fcType f = FolderTypeReceiveEncrypted \<or> EncryptionPasswordToken d = []"

lemma share_with_simps [simp]:
  "fcID (share_with dev i f) = fcID f" "fcType (share_with dev i f) = fcType f" "own_shares i (share_with dev i f) = own_shares i f"
  "set (DeviceIDs (share_with dev i f)) = insert dev (set (DeviceIDs f))" "may_share (share_with dev i f) = may_share f"
  by (simp_all add: share_with_def own_shares_def DeviceIDs_def may_share_def fun_eq_iff)

lemma introduceDevice_simps [simp]:
  "dvID (introduceDevice templ d introducer) = DevID d" "dvIntroducedBy (introduceDevice templ d introducer) = dvID introducer"
  by (simp_all add: introduceDevice_def)

lemma introduce_to_folder:
  assumes "introduce_to me templ introducer ds (f, ch, devs, fds) = (f', ch', devs', fds')"
  shows "fcID f' = fcID f \<and> fcType f' = fcType f \<and> own_shares (dvID introducer) f' = own_shares (dvID introducer) f \<and>
    set (DeviceIDs f) \<subseteq> set (DeviceIDs f') \<and> set (DeviceIDs f') \<subseteq> set (DeviceIDs f) \<union> dvID ` set devs' \<and>
    (\<exists>new. devs' = devs @ new \<and> (\<forall>d \<in> set new. dvIntroducedBy d = dvID introducer)) \<and>
    (\<not> ch' \<longrightarrow> f' = f) \<and> (ch \<longrightarrow> ch')"
  using assms
proof (induction ds arbitrary: f ch devs fds)
  case (Cons d ds)
  consider "DevID d = me" | "DevID d \<noteq> me" "DevID d \<in> dvID ` set devs \<and> SharedWith f (DevID d) \<or> \<not> may_share f d"
    | "DevID d \<noteq> me" "\<not> (DevID d \<in> dvID ` set devs \<and> SharedWith f (DevID d))" "may_share f d" by blast
  then show ?case
  proof cases
    case 1
    then show ?thesis using Cons.IH [of f ch devs fds] Cons.prems by simp
  next
    case 2
    let ?devs = "if DevID d \<notin> dvID ` set devs then devs @ [introduceDevice templ d introducer] else devs"
    have "introduce_to me templ introducer ds (f, ch, ?devs, fds_set (DevID d) (fcID f) fds) = (f', ch', devs', fds')"
      using 2 Cons.prems by (auto simp: Let_def may_share_def split: if_splits)
    from Cons.IH [OF this] show ?thesis by (auto split: if_splits)
  next
    case 3
    let ?devs = "if DevID d \<notin> dvID ` set devs then devs @ [introduceDevice templ d introducer] else devs"
    have "introduce_to me templ introducer ds (share_with (DevID d) (dvID introducer) f, True, ?devs, fds_set (DevID d) (fcID f) fds) = (f', ch', devs', fds')"
      using 3 Cons.prems by (auto simp: Let_def may_share_def split: if_splits)
    from Cons.IH [OF this] show ?thesis by (auto split: if_splits)
  qed
qed simp

lemma introduce_to_pairs:
  assumes "introduce_to me templ introducer ds (f, ch, devs, fds) = (f', ch', devs', fds')"
  shows "fds \<subseteq> fds' \<and> fds' \<subseteq> fds \<union> {fcID f} \<times> DevID ` set ds \<and>
    (\<forall>d \<in> set ds. DevID d \<noteq> me \<longrightarrow> (fcID f, DevID d) \<in> fds' \<and> (may_share f d \<longrightarrow> DevID d \<in> set (DeviceIDs f')))"
  using assms
proof (induction ds arbitrary: f ch devs fds)
  case (Cons d ds)
  consider "DevID d = me" | "DevID d \<noteq> me" "DevID d \<in> dvID ` set devs \<and> SharedWith f (DevID d) \<or> \<not> may_share f d"
    | "DevID d \<noteq> me" "\<not> (DevID d \<in> dvID ` set devs \<and> SharedWith f (DevID d))" "may_share f d" by blast
  then show ?case
  proof cases
    case 1
    then show ?thesis using Cons.IH [of f ch devs fds] Cons.prems by auto
  next
    case 2
    let ?devs = "if DevID d \<notin> dvID ` set devs then devs @ [introduceDevice templ d introducer] else devs"
    have "introduce_to me templ introducer ds (f, ch, ?devs, fds_set (DevID d) (fcID f) fds) = (f', ch', devs', fds')"
      using 2 Cons.prems by (auto simp: Let_def may_share_def split: if_splits)
    from Cons.IH [OF this] introduce_to_folder [OF this] 2(2) show ?thesis by (auto simp: fds_set_def SharedWith_iff)
  next
    case 3
    let ?devs = "if DevID d \<notin> dvID ` set devs then devs @ [introduceDevice templ d introducer] else devs"
    have "introduce_to me templ introducer ds (share_with (DevID d) (dvID introducer) f, True, ?devs, fds_set (DevID d) (fcID f) fds) = (f', ch', devs', fds')"
      using 3 Cons.prems by (auto simp: Let_def may_share_def split: if_splits)
    from Cons.IH [OF this] introduce_to_folder [OF this] show ?thesis by (auto simp: fds_set_def)
  qed
qed simp

text \<open>The announced folders that are configured here, too.\<close>

definition common :: "configuration \<Rightarrow> Folder set \<Rightarrow> Folder set" where
  "common cfg heard = {a \<in> heard. FolderID a \<in> fcID ` set (cfFolders cfg)}"

text \<open>After the folders \<open>heard\<close>.\<close>

definition introduced_inv ::
  "device_id \<Rightarrow> device_id \<Rightarrow> configuration \<Rightarrow> Folder set \<Rightarrow> folder_conf list \<times> device_conf list \<times> folder_devices \<times> bool \<Rightarrow> bool" where
  "introduced_inv i me cfg heard st \<longleftrightarrow>
     (case st of (fs, devs, fds, any) \<Rightarrow>
        map fcID fs = map fcID (cfFolders cfg) \<and> map (own_shares i) fs = map (own_shares i) (cfFolders cfg) \<and>
        (\<forall>f \<in> set fs. set (DeviceIDs f) \<subseteq> dvID ` set devs) \<and>
        (\<exists>new. devs = cfDevices cfg @ new \<and> (\<forall>d \<in> set new. dvIntroducedBy d = i)) \<and> (\<not> any \<longrightarrow> fs = cfFolders cfg) \<and>
        fds \<subseteq> (\<Union>a \<in> common cfg heard. {FolderID a} \<times> DevID ` set (Devices a)) \<and>
        (\<forall>a \<in> heard. \<forall>d \<in> set (Devices a). \<forall>f \<in> set fs. FolderID a = fcID f \<and> DevID d \<noteq> me \<longrightarrow>
           (fcID f, DevID d) \<in> fds \<and> (may_share f d \<longrightarrow> DevID d \<in> set (DeviceIDs f))))"

lemma set_folder_id: "distinct (map fcID fs) \<Longrightarrow> f \<in> set fs \<Longrightarrow> set_folder f fs = fs"
  by (auto simp: set_folder_def distinct_map inj_on_def intro!: map_idI)

lemma set_folder_map:
  assumes "distinct (map fcID fs)" "f \<in> set fs" "fcID g = fcID f" "h g = h f"
  shows "map h (set_folder g fs) = map h fs"
  using assms by (auto simp: set_folder_def distinct_map inj_on_def)

lemma introduced_step:
  assumes inv: "introduced_inv (dvID introducer) me cfg heard (fs, devs, fds, any)" and distinct: "distinct (map fcID (cfFolders cfg))"
    and f: "f \<in> set fs" "fcID f = FolderID a"
    and step: "introduce_to me templ introducer (Devices a) (f, False, devs, fds) = (f', ch', devs', fds')"
  shows "introduced_inv (dvID introducer) me cfg (insert a heard) (if ch' then set_folder f' fs else fs, devs', fds', any \<or> ch')"
proof -
  have I1: "map fcID fs = map fcID (cfFolders cfg)" "map (own_shares (dvID introducer)) fs = map (own_shares (dvID introducer)) (cfFolders cfg)"
    and I2: "\<And>f. f \<in> set fs \<Longrightarrow> set (DeviceIDs f) \<subseteq> dvID ` set devs"
    and I3: "\<exists>new. devs = cfDevices cfg @ new \<and> (\<forall>d \<in> set new. dvIntroducedBy d = dvID introducer)"
    and I4: "\<not> any \<longrightarrow> fs = cfFolders cfg"
    and I5: "fds \<subseteq> (\<Union>a \<in> common cfg heard. {FolderID a} \<times> DevID ` set (Devices a))"
    and I6: "\<And>a d f. \<lbrakk>a \<in> heard; d \<in> set (Devices a); f \<in> set fs; FolderID a = fcID f; DevID d \<noteq> me\<rbrakk> \<Longrightarrow>
      (fcID f, DevID d) \<in> fds \<and> (may_share f d \<longrightarrow> DevID d \<in> set (DeviceIDs f))"
    using inv by (simp_all add: introduced_inv_def)
  note F = introduce_to_folder [OF step] and P = introduce_to_pairs [OF step]
  have ids: "distinct (map fcID fs)" using I1 distinct by simp
  let ?fs = "set_folder f' fs"
  have new: "(if ch' then ?fs else fs) = ?fs" using F set_folder_id [OF ids f(1)] by (cases ch') auto
  have mem: "g = f' \<or> g \<in> set fs \<and> fcID g \<noteq> fcID f" if "g \<in> set ?fs" for g
    using that F by (auto simp: set_folder_def split: if_splits)
  have same: "map fcID ?fs = map fcID fs" "map (own_shares (dvID introducer)) ?fs = map (own_shares (dvID introducer)) fs"
    using F by (simp_all add: set_folder_map [OF ids f(1)])
  have devs: "dvID ` set devs \<subseteq> dvID ` set devs'" using F by auto
  have "set (DeviceIDs f') \<subseteq> set (DeviceIDs f) \<union> dvID ` set devs'" using F by blast
  also have "\<dots> \<subseteq> dvID ` set devs'" using subset_trans [OF I2 [OF f(1)] devs] by (rule Un_least) simp
  finally have "set (DeviceIDs f') \<subseteq> dvID ` set devs'" .
  moreover have "set (DeviceIDs g) \<subseteq> dvID ` set devs'" if "g \<in> set fs" for g using subset_trans [OF I2 [OF that] devs] .
  ultimately have known: "set (DeviceIDs g) \<subseteq> dvID ` set devs'" if "g \<in> set ?fs" for g using mem [OF that] by auto
  have told: "(fcID g, DevID d) \<in> fds' \<and> (may_share g d \<longrightarrow> DevID d \<in> set (DeviceIDs g))"
    if b: "b \<in> insert a heard" "d \<in> set (Devices b)" "g \<in> set ?fs" "FolderID b = fcID g" "DevID d \<noteq> me" for b d g
  proof (cases "g = f'")
    case True
    have share: "may_share f' d = may_share f d" using F by (simp add: may_share_def)
    show ?thesis
    proof (cases "b = a")
      case False
      then have "(fcID f, DevID d) \<in> fds \<and> (may_share f d \<longrightarrow> DevID d \<in> set (DeviceIDs f))"
        using I6 [of b d f] b True F f(1) by simp
      then show ?thesis using True F P share by auto
    qed (use b True F P share in auto)
  next
    case False
    then have g: "g \<in> set fs" "fcID g \<noteq> fcID f" using mem [OF b(3)] by auto
    then have "b \<in> heard" using b(1, 4) f(2) by auto
    then show ?thesis using I6 [of b d g] g(1) b P by blast
  qed
  obtain new1 where new1: "devs = cfDevices cfg @ new1" "\<forall>d \<in> set new1. dvIntroducedBy d = dvID introducer" using I3 by blast
  obtain new2 where new2: "devs' = devs @ new2" "\<forall>d \<in> set new2. dvIntroducedBy d = dvID introducer" using F by blast
  have I3': "\<exists>new. devs' = cfDevices cfg @ new \<and> (\<forall>d \<in> set new. dvIntroducedBy d = dvID introducer)"
    using new1 new2 by (intro exI [of _ "new1 @ new2"]) auto
  have "FolderID a \<in> fcID ` set (cfFolders cfg)" using f I1(1) by (metis image_eqI image_set)
  then have I5': "fds' \<subseteq> (\<Union>a \<in> common cfg (insert a heard). {FolderID a} \<times> DevID ` set (Devices a))"
  proof -
    have a: "a \<in> common cfg (insert a heard)" using \<open>FolderID a \<in> fcID ` set (cfFolders cfg)\<close> by (simp add: common_def)
    have "common cfg heard \<subseteq> common cfg (insert a heard)" by (auto simp: common_def)
    then have "fds \<subseteq> (\<Union>a \<in> common cfg (insert a heard). {FolderID a} \<times> DevID ` set (Devices a))" using I5 by blast
    moreover have "{fcID f} \<times> DevID ` set (Devices a) \<subseteq> (\<Union>a \<in> common cfg (insert a heard). {FolderID a} \<times> DevID ` set (Devices a))"
      unfolding f(2) using a by blast
    ultimately show ?thesis using P by (meson Un_least order_trans)
  qed
  have I4': "\<not> (any \<or> ch') \<longrightarrow> ?fs = cfFolders cfg" using I4 F set_folder_id [OF ids f(1)] by auto
  show ?thesis
    unfolding introduced_inv_def new prod.case
    by (intro conjI) (use same I1 known I3' I4' I5' in \<open>simp_all\<close>, use told in blast)
qed

lemma introduced_all:
  "\<lbrakk>introduced_inv (dvID introducer) me cfg heard st; distinct (map fcID (cfFolders cfg))\<rbrakk> \<Longrightarrow>
   introduced_inv (dvID introducer) me cfg (heard \<union> set offers) (handleIntroductions me templ introducer offers st)"
proof (induction offers arbitrary: st heard)
  case (Cons a offers)
  obtain fs devs fds any where st: "st = (fs, devs, fds, any)" by (cases st)
  let ?st = "case List.find (\<lambda>f. fcID f = FolderID a) fs of
      None \<Rightarrow> (fs, devs, fds, any)
    | Some f \<Rightarrow> (case introduce_to me templ introducer (Devices a) (f, False, devs, fds) of
         (f, ch, devs, fds) \<Rightarrow> (if ch then set_folder f fs else fs, devs, fds, any \<or> ch))"
  have "introduced_inv (dvID introducer) me cfg (insert a heard) ?st"
  proof (cases "List.find (\<lambda>f. fcID f = FolderID a) fs")
    case None
    then have "\<forall>f \<in> set fs. FolderID a \<noteq> fcID f" by (auto simp: find_None_iff)
    moreover have "(\<Union>b \<in> common cfg heard. {FolderID b} \<times> DevID ` set (Devices b)) \<subseteq>
        (\<Union>b \<in> common cfg (insert a heard). {FolderID b} \<times> DevID ` set (Devices b))"
      by (rule UN_mono) (auto simp: common_def)
    ultimately show ?thesis
      using Cons.prems(1) None unfolding introduced_inv_def st by (simp del: UN_subset_iff) (meson order_trans)
  next
    case (Some f)
    then have f: "f \<in> set fs" "fcID f = FolderID a" by (auto simp: find_Some_iff in_set_conv_nth)
    obtain f' ch' devs' fds' where step: "introduce_to me templ introducer (Devices a) (f, False, devs, fds) = (f', ch', devs', fds')"
      by (metis prod_cases4)
    from introduced_step [OF Cons.prems(1) [unfolded st] Cons.prems(2) f step] show ?thesis by (simp add: Some step)
  qed
  from Cons.IH [OF this Cons.prems(2)] show ?case by (simp add: st)
qed simp

lemma unshare_simps [simp]:
  "fcID (unshare introducer fds f) = fcID f" "own_shares (dvID introducer) (unshare introducer fds f) = own_shares (dvID introducer) f"
  "may_share (unshare introducer fds f) = may_share f"
  by (auto simp: unshare_def own_shares_def kept_share_def may_share_def fun_eq_iff intro: filter_cong)

lemma kept_shares_known:
  assumes "f \<in> set fs" and "d \<in> set (fcDevices f)" and "kept_share introducer fds f d" and "set (DeviceIDs f) \<subseteq> dvID ` set devs"
  shows "fdID d \<in> dvID ` set (filter (kept_device introducer fds fs) devs)"
proof -
  obtain c where c: "c \<in> set devs" "dvID c = fdID d" using assms(2, 4) by (force simp: DeviceIDs_def)
  have "kept_device introducer fds fs c"
    using assms(1-3) c(2) by (force simp: kept_device_def kept_share_def fds_has_def hasDevice_def)
  then show ?thesis using c by (force simp: image_iff)
qed

text \<open>What is claimed of the configuration afterwards.\<close>

definition follows_introducer :: "device_id \<Rightarrow> device_conf \<Rightarrow> Folder list \<Rightarrow> configuration \<Rightarrow> configuration \<Rightarrow> bool" where
  "follows_introducer me introducer offers cfg cfg' \<longleftrightarrow>
     map fcID (cfFolders cfg') = map fcID (cfFolders cfg) \<and>
     map (own_shares (dvID introducer)) (cfFolders cfg') = map (own_shares (dvID introducer)) (cfFolders cfg) \<and>
     filter (\<lambda>d. dvIntroducedBy d \<noteq> dvID introducer) (cfDevices cfg') = filter (\<lambda>d. dvIntroducedBy d \<noteq> dvID introducer) (cfDevices cfg) \<and>
     (\<forall>f \<in> set (cfFolders cfg'). set (DeviceIDs f) \<subseteq> dvID ` set (cfDevices cfg')) \<and>
     (\<forall>a \<in> set offers. \<forall>d \<in> set (Devices a). \<forall>f \<in> set (cfFolders cfg'). FolderID a = fcID f \<and> DevID d \<noteq> me \<and> may_share f d \<longrightarrow>
        DevID d \<in> set (DeviceIDs f)) \<and>
     (\<not> dvSkipRemovals introducer \<longrightarrow>
        (\<forall>f \<in> set (cfFolders cfg'). \<forall>d \<in> set (fcDevices f). fdIntroducedBy d = dvID introducer \<longrightarrow>
           (\<exists>a \<in> set offers. FolderID a = fcID f \<and> fdID d \<in> DevID ` set (Devices a))) \<and>
        (\<forall>d \<in> set (cfDevices cfg'). dvIntroducedBy d = dvID introducer \<longrightarrow>
           (\<exists>a \<in> common cfg (set offers). dvID d \<in> DevID ` set (Devices a)) \<or>
           (\<exists>f \<in> set (cfFolders cfg'). \<exists>x \<in> set (fcDevices f). fdID x = dvID d \<and> fdIntroducedBy x \<noteq> dvID introducer)))"

text \<open>
  C34: Following an introducer keeps every share and every device that did not come from it, folders
  stay shared with known devices only, and every device that the introducer announces for a folder
  that is configured here gets the folder, too, unless that needs a password.  Unless the removal
  of introductions is skipped for the introducer, a share that came from it is one that it still
  announces, and a device that came from it is one that it still announces for a folder configured
  here, or that has a share which did not come from it.
\<close>

theorem introductions_follow_the_introducer:
  assumes "config_ok scheme me cfg"
  shows "follows_introducer me introducer offers cfg (introductions me templ introducer offers cfg)"
proof -
  obtain fs devs fds any where st: "handleIntroductions me templ introducer offers (cfFolders cfg, cfDevices cfg, {}, False) = (fs, devs, fds, any)"
    by (metis prod_cases4)
  have distinct: "distinct (map fcID (cfFolders cfg))" and known: "\<forall>f \<in> set (cfFolders cfg). set (DeviceIDs f) \<subseteq> dvID ` set (cfDevices cfg)"
    using assms by (auto simp: config_ok_def folder_ok_def shares_ok_def DeviceIDs_def device_map_None)
  have start: "introduced_inv (dvID introducer) me cfg {} (cfFolders cfg, cfDevices cfg, {}, False)"
    using known by (simp add: introduced_inv_def)
  have I1: "map fcID fs = map fcID (cfFolders cfg)" "map (own_shares (dvID introducer)) fs = map (own_shares (dvID introducer)) (cfFolders cfg)"
    and I2: "\<forall>f \<in> set fs. set (DeviceIDs f) \<subseteq> dvID ` set devs"
    and I3: "\<exists>new. devs = cfDevices cfg @ new \<and> (\<forall>d \<in> set new. dvIntroducedBy d = dvID introducer)"
    and I4: "\<not> any \<longrightarrow> fs = cfFolders cfg"
    and I5: "fds \<subseteq> (\<Union>a \<in> common cfg (set offers). {FolderID a} \<times> DevID ` set (Devices a))"
    and I6: "\<forall>a \<in> set offers. \<forall>d \<in> set (Devices a). \<forall>f \<in> set fs. FolderID a = fcID f \<and> DevID d \<noteq> me \<longrightarrow>
      (fcID f, DevID d) \<in> fds \<and> (may_share f d \<longrightarrow> DevID d \<in> set (DeviceIDs f))"
    using introduced_all [OF start distinct, of offers templ] by (simp_all add: introduced_inv_def st)
  have devs: "filter (\<lambda>d. dvIntroducedBy d \<noteq> dvID introducer) devs = filter (\<lambda>d. dvIntroducedBy d \<noteq> dvID introducer) (cfDevices cfg)"
    using I3 by (auto simp: filter_empty_conv)
  show ?thesis
  proof (cases "dvSkipRemovals introducer")
    case True
    then have "introductions me templ introducer offers cfg = (if any then cfg\<lparr>cfFolders := fs, cfDevices := devs\<rparr> else cfg)"
      by (simp add: introductions_def st handleDeintroductions_def)
    then show ?thesis using True I1 I2 I4 I6 devs known by (cases any) (simp_all add: follows_introducer_def)
  next
    case False
    let ?fs = "map (unshare introducer fds) fs" and ?devs = "filter (kept_device introducer fds fs) devs"
    define removed where "removed \<longleftrightarrow> (\<exists>f \<in> set fs. \<exists>d \<in> set (fcDevices f). \<not> kept_share introducer fds f d) \<or> (\<exists>d \<in> set devs. \<not> kept_device introducer fds fs d)"
    have result: "introductions me templ introducer offers cfg = (if any \<or> removed then cfg\<lparr>cfFolders := ?fs, cfDevices := ?devs\<rparr> else cfg)"
      using False by (simp add: introductions_def st handleDeintroductions_def removed_def)
    have kept: "filter (\<lambda>d. dvIntroducedBy d \<noteq> dvID introducer) ?devs = filter (\<lambda>d. dvIntroducedBy d \<noteq> dvID introducer) devs"
      by (auto simp: kept_device_def intro: filter_cong)
    have safe: "\<forall>f \<in> set ?fs. set (DeviceIDs f) \<subseteq> dvID ` set ?devs"
      using kept_shares_known [of _ fs _ introducer fds devs] I2 by (auto simp: unshare_def DeviceIDs_def)
    have offered: "DevID d \<in> set (DeviceIDs (unshare introducer fds f))"
      if "a \<in> set offers" "d \<in> set (Devices a)" "f \<in> set fs" "FolderID a = fcID f" "DevID d \<noteq> me" "may_share f d" for a d f
      using I6 that by (force simp: unshare_def DeviceIDs_def kept_share_def fds_has_def)
    have told: "\<exists>a \<in> set offers. FolderID a = fcID f \<and> fdID d \<in> DevID ` set (Devices a)"
      if "d \<in> set (fcDevices (unshare introducer fds f))" "fdIntroducedBy d = dvID introducer" for f d
      using that I5 by (force simp: unshare_def kept_share_def fds_has_def common_def)
    have stays: "(\<exists>a \<in> common cfg (set offers). dvID d \<in> DevID ` set (Devices a)) \<or>
        (\<exists>f \<in> set ?fs. \<exists>x \<in> set (fcDevices f). fdID x = dvID d \<and> fdIntroducedBy x \<noteq> dvID introducer)"
      if kept: "kept_device introducer fds fs d" "dvIntroducedBy d = dvID introducer" for d
    proof (cases "hasDevice fds (dvID d)")
      case True
      then obtain n where "(n, dvID d) \<in> fds" by (auto simp: hasDevice_def)
      then show ?thesis using I5 by blast
    next
      case False
      then obtain f x where "f \<in> set fs" "x \<in> set (fcDevices f)" "fdIntroducedBy x \<noteq> dvID introducer" "fdID x = dvID d"
        using kept by (auto simp: kept_device_def)
      moreover from this have "x \<in> set (fcDevices (unshare introducer fds f))" by (simp add: unshare_def kept_share_def)
      ultimately show ?thesis by auto
    qed
    show ?thesis
    proof (cases "any \<or> removed")
      case True
      have "\<forall>d \<in> set ?devs. dvIntroducedBy d = dvID introducer \<longrightarrow>
          (\<exists>a \<in> common cfg (set offers). dvID d \<in> DevID ` set (Devices a)) \<or>
          (\<exists>f \<in> set ?fs. \<exists>x \<in> set (fcDevices f). fdID x = dvID d \<and> fdIntroducedBy x \<noteq> dvID introducer)"
        using stays by simp
      then show ?thesis
        using True I1 I2 devs kept safe offered told unfolding result follows_introducer_def by (simp add: o_def)
    next
      case unchanged: False
      then have "fs = cfFolders cfg" using I4 by simp
      moreover have same: "\<forall>f \<in> set fs. unshare introducer fds f = f"
        using unchanged by (auto simp: removed_def unshare_def filter_id_conv)
      moreover have "introductions me templ introducer offers cfg = cfg" using unchanged result by simp
      moreover have "\<forall>a \<in> set offers. \<forall>d \<in> set (Devices a). \<forall>f \<in> set fs. FolderID a = fcID f \<and> DevID d \<noteq> me \<and> may_share f d \<longrightarrow> DevID d \<in> set (DeviceIDs f)"
        using I6 by blast
      moreover have "\<exists>a \<in> set offers. FolderID a = fcID f \<and> fdID d \<in> DevID ` set (Devices a)"
        if "f \<in> set fs" "d \<in> set (fcDevices f)" "fdIntroducedBy d = dvID introducer" for f d
        using told [of d f] same that by simp
      moreover have "(\<exists>a \<in> common cfg (set offers). dvID d \<in> DevID ` set (Devices a)) \<or>
          (\<exists>f \<in> set fs. \<exists>x \<in> set (fcDevices f). fdID x = dvID d \<and> fdIntroducedBy x \<noteq> dvID introducer)"
        if "d \<in> set (cfDevices cfg)" "dvIntroducedBy d = dvID introducer" for d
      proof -
        have "d \<in> set devs" using that(1) I3 by auto
        then have "kept_device introducer fds fs d" using unchanged by (simp add: removed_def)
        moreover have "map (unshare introducer fds) fs = fs" using same by (simp add: map_idI)
        ultimately show ?thesis using stays that(2) by metis
      qed
      ultimately show ?thesis using known by (simp add: follows_introducer_def)
    qed
  qed
qed

text \<open>The introducer announces the folder with a device that is not known here, and another one comes from it but has no share.\<close>

definition sample_introducing :: configuration where
  "sample_introducing = (sample_two (sample_shared FolderTypeSendReceive [] []))
     \<lparr>cfDevices := [sample_device [1] [], sample_device [2] [], (sample_device [4] [])\<lparr>dvIntroducedBy := [2]\<rparr>]\<rparr>"

definition sample_offer :: Folder where
  "sample_offer = \<lparr>FolderID = ''f'', Label = [], FType = FolderTypeSendReceive, StopReason = FolderStopReasonRunning,
     Devices = [announced_token [1] [], announced_token [2] [], announced_token [3] []]\<rparr>"

lemma sample_introducing_ok: "config_ok (\<lambda>a. None) [1] sample_introducing"
proof -
  have ne: "EmptyDeviceID \<noteq> [1]" "EmptyDeviceID \<noteq> [2]" "EmptyDeviceID \<noteq> [4]" "[1] \<noteq> EmptyDeviceID" "[2] \<noteq> EmptyDeviceID" "[4] \<noteq> EmptyDeviceID"
    by (auto simp: EmptyDeviceID_def DeviceIDLength_def dest: arg_cong [where f = length])
  have devs: "fcDevices (sample_shared t pw1 pw2) = [\<lparr>fdID = [1], fdIntroducedBy = [], fdPassword = pw1\<rparr>, \<lparr>fdID = [2], fdIntroducedBy = [], fdPassword = pw2\<rparr>]"
      "fcID (sample_shared t pw1 pw2) = ''f''" "fcPath (sample_shared t pw1 pw2) = ''p''" for t pw1 pw2
    by (simp_all add: sample_shared_def sample_folder_def)
  have "settings_ok (sample_shared FolderTypeSendReceive [] [])" unfolding sample_shared_def by (rule settings_ok_prepared)
  then show ?thesis
    by (auto simp: sample_introducing_def sample_two_def devs config_ok_def device_ok_def sample_device_def new_device_def ne folder_ok_def
        shares_ok_def DeviceIDs_def device_map_def trusted_share_def filterURLSchemePrefix_def folder_Device_def)
qed

theorem introductions_follow_the_introducer_witness:
  "let cfg' = introductions [1] (new_device [] []) (sample_device [2] []) [sample_offer] sample_introducing in
     map fcID (cfFolders cfg') = [''f''] \<and> [4] \<notin> dvID ` set (cfDevices cfg') \<and>
     (\<forall>f \<in> set (cfFolders cfg'). [3] \<in> set (DeviceIDs f) \<and> [3] \<in> dvID ` set (cfDevices cfg'))"
proof -
  let ?cfg = "introductions [1] (new_device [] []) (sample_device [2] []) [sample_offer] sample_introducing"
  let ?i = "sample_device [2] []"
  have start: "cfFolders sample_introducing = [sample_shared FolderTypeSendReceive [] []]" "dvID ?i = [2]" "\<not> dvSkipRemovals ?i"
      "fcID (sample_shared FolderTypeSendReceive [] []) = ''f''"
      "fcDevices (sample_shared FolderTypeSendReceive [] []) =
         [\<lparr>fdID = [1], fdIntroducedBy = [], fdPassword = []\<rparr>, \<lparr>fdID = [2], fdIntroducedBy = [], fdPassword = []\<rparr>]"
      "cfDevices sample_introducing = [sample_device [1] [], ?i, (sample_device [4] [])\<lparr>dvIntroducedBy := [2]\<rparr>]"
      "DevID ` set (Devices sample_offer) = {[1], [2], [3]}" "FolderID sample_offer = ''f''"
    by (auto simp: sample_introducing_def sample_two_def sample_shared_def sample_folder_def sample_device_def new_device_def sample_offer_def announced_token_def)
  from introductions_follow_the_introducer [OF sample_introducing_ok, of ?i "[sample_offer]" "new_device [] []"]
  have follows: "map fcID (cfFolders ?cfg) = [''f'']" "\<forall>f \<in> set (cfFolders ?cfg). set (DeviceIDs f) \<subseteq> dvID ` set (cfDevices ?cfg)"
      "map (own_shares [2]) (cfFolders ?cfg) = [own_shares [2] (sample_shared FolderTypeSendReceive [] [])]"
      "filter (\<lambda>d. dvIntroducedBy d \<noteq> [2]) (cfDevices ?cfg) = filter (\<lambda>d. dvIntroducedBy d \<noteq> [2]) (cfDevices sample_introducing)"
      "\<forall>d \<in> set (Devices sample_offer). \<forall>f \<in> set (cfFolders ?cfg). FolderID sample_offer = fcID f \<and> DevID d \<noteq> [1] \<and> may_share f d \<longrightarrow>
        DevID d \<in> set (DeviceIDs f)"
      "\<forall>d \<in> set (cfDevices ?cfg). dvIntroducedBy d = [2] \<longrightarrow> (\<exists>a \<in> common sample_introducing {sample_offer}. dvID d \<in> DevID ` set (Devices a)) \<or>
         (\<exists>f \<in> set (cfFolders ?cfg). \<exists>x \<in> set (fcDevices f). fdID x = dvID d \<and> fdIntroducedBy x \<noteq> [2])"
    by (simp_all add: follows_introducer_def start)
  have three: "[3] \<in> set (DeviceIDs f)" if f: "f \<in> set (cfFolders ?cfg)" for f
  proof -
    have "fcID f = ''f''" using f follows(1) by (metis image_eqI image_set list.set(1, 2) singletonD)
    then show ?thesis using follows(5) f by (auto simp: sample_offer_def announced_token_def may_share_def)
  qed
  have four: "dvID d \<noteq> [4]" if d: "d \<in> set (cfDevices ?cfg)" for d
  proof
    assume four: "dvID d = [4]"
    show False
    proof (cases "dvIntroducedBy d = [2]")
      case False
      then have "d \<in> set (filter (\<lambda>d. dvIntroducedBy d \<noteq> [2]) (cfDevices sample_introducing))" using d by (simp flip: follows(4))
      then have "d \<in> set (cfDevices sample_introducing)" by simp
      then show False using four False by (auto simp: start(6)) (simp_all add: sample_device_def new_device_def)
    next
      case True
      then obtain f x where x: "f \<in> set (cfFolders ?cfg)" "x \<in> set (fcDevices f)" "fdID x = [4]" "fdIntroducedBy x \<noteq> [2]"
        using follows(6) d four start(7) by (auto simp: common_def)
      have "own_shares [2] f \<in> set (map (own_shares [2]) (cfFolders ?cfg))" using x(1) by simp
      then have "own_shares [2] f = own_shares [2] (sample_shared FolderTypeSendReceive [] [])" unfolding follows(3) by simp
      moreover have "x \<in> set (own_shares [2] f)" using x by (simp add: own_shares_def)
      ultimately show False using x(3) by (auto simp: own_shares_def start)
    qed
  qed
  have "[4] \<notin> dvID ` set (cfDevices ?cfg)"
  proof
    assume "[4] \<in> dvID ` set (cfDevices ?cfg)"
    then obtain d where d: "[4] = dvID d" "d \<in> set (cfDevices ?cfg)" by (rule imageE)
    from four [OF d(2)] d(1) show False by simp
  qed
  then show ?thesis unfolding Let_def using follows(1, 2) three by blast
qed

lemma removals_not_announced: "announced_device env cfg toks dev f d = Some x \<Longrightarrow> \<not> SkipIntroductionRemovals x"
  by (auto simp: announced_device_def Let_def split: if_splits)

text \<open>
  An announcement never carries the type of a folder nor the wish not to remove what was introduced, although both are read
  on the other side.
\<close>

theorem type_is_never_announced:
  "FType ` set (Folders (fst (generateClusterConfig env cfg toks dev))) \<subseteq> {FolderTypeSendReceive} \<and>
   SkipIntroductionRemovals ` (\<Union>a \<in> set (Folders (fst (generateClusterConfig env cfg toks dev))). set (Devices a)) \<subseteq> {False}"
  by (auto simp: generateClusterConfig_def Let_def announced_folder_def List.map_filter_def removals_not_announced)

end
