(* ===== verification/Spec2Isabelle.thy ===== *)
theory Spec2Isabelle
  imports Vector_Text Rsync_Wire Requests Framing Index_Delivery Index_Registry Job_Queue Semaphore Pull_Content Item_Safety Folder_State Folder_Types Model_Requests Cluster_Config
begin

text \<open>
  Verification of the core of Syncthing (Go), a program that keeps folders equal on several devices.

  \<^bold>\<open>The program.\<close>  A device announces the files of a folder to the others (the index), each with a
  version vector and the hashes of its blocks.  Every device stores all announcements in a database that
  computes for each name the global version and whether it is needed here.  Needed files are pulled block
  by block from devices that have them, into a temporary file that replaces the old file when it is
  complete.  Devices talk over one connection that carries framed messages.

  \<^bold>\<open>Theories and sources\<close> (paths under \<^verbatim>\<open>src/\<close>).

  \<^item> \<^verbatim>\<open>Go_Prelude\<close>, \<^verbatim>\<open>Go_Strings\<close>: what the models use of Go and its library: outcomes
    (\<open>Ok\<close>, \<open>Err\<close>, \<open>Panic\<close>), integers with their width, byte order, base 32, string functions.
  \<^item> \<^verbatim>\<open>Version_Vector\<close>, \<^verbatim>\<open>Vector_Text\<close>: \<^verbatim>\<open>lib/protocol/vector.go\<close>.
  \<^item> \<^verbatim>\<open>Device_ID\<close>: \<^verbatim>\<open>lib/protocol/deviceid.go\<close>, \<^verbatim>\<open>luhn.go\<close>.
  \<^item> \<^verbatim>\<open>Rsync_Hash\<close>, \<^verbatim>\<open>Rsync_Engine\<close>, \<^verbatim>\<open>Rsync_Delta\<close>, \<^verbatim>\<open>Rsync_Wire\<close>: \<^verbatim>\<open>lib/rsync\<close>.
  \<^item> \<^verbatim>\<open>File_Info\<close>, \<^verbatim>\<open>File_Compare\<close>, \<^verbatim>\<open>File_Wire\<close>: \<^verbatim>\<open>lib/protocol/bep_fileinfo.go\<close>.
  \<^item> \<^verbatim>\<open>BEP_Messages\<close>, \<^verbatim>\<open>Wire_Checks\<close>, \<^verbatim>\<open>Connection\<close>, \<^verbatim>\<open>Requests\<close>, \<^verbatim>\<open>Framing\<close>,
    \<^verbatim>\<open>Wire_Format\<close>: messages and connection, \<^verbatim>\<open>lib/protocol/bep_*.go\<close>, \<^verbatim>\<open>protocol.go\<close>,
    \<^verbatim>\<open>wireformat.go\<close>, \<^verbatim>\<open>nativemodel_*.go\<close>.
  \<^item> \<^verbatim>\<open>Row_Order\<close>, \<^verbatim>\<open>Folder_DB\<close>, \<^verbatim>\<open>Folder_Global\<close>, \<^verbatim>\<open>Folder_Counts\<close>, \<^verbatim>\<open>Folder_Queries\<close>:
    the database of a folder, \<^verbatim>\<open>internal/db/sqlite\<close>; tables are lists of records, SQL statements are functions on
    them, and so are the triggers that keep the table of counts.  \<open>db_reach\<close> has the reachable states; beside each it
    has the names that may have lost their global record.
  \<^item> \<^verbatim>\<open>Index_Handler\<close>, \<^verbatim>\<open>Index_Exchange\<close>, \<^verbatim>\<open>Index_Receive\<close>, \<^verbatim>\<open>Index_Delivery\<close>,
    \<^verbatim>\<open>Index_Registry\<close>: \<^verbatim>\<open>lib/model/indexhandler.go\<close>, \<^verbatim>\<open>fileinfobatch.go\<close>.
  \<^item> \<^verbatim>\<open>File_Blocks\<close>: \<^verbatim>\<open>lib/scanner/blocks.go\<close>, \<^verbatim>\<open>blockqueue.go\<close>.
  \<^item> \<^verbatim>\<open>Block_Pull\<close>, \<^verbatim>\<open>Pull_Content\<close>: \<^verbatim>\<open>lib/model/folder_sendrecv.go\<close>; with \<^verbatim>\<open>Puller_State\<close>
    (\<^verbatim>\<open>sharedpullerstate.go\<close>), \<^verbatim>\<open>Block_Reorder\<close>, \<^verbatim>\<open>Device_Activity\<close>, \<^verbatim>\<open>Job_Queue\<close>,
    \<^verbatim>\<open>Download_State\<close>, \<^verbatim>\<open>Service_Map\<close> for the files of those names in \<^verbatim>\<open>lib/model\<close> and
    \<^verbatim>\<open>Semaphore\<close> for \<^verbatim>\<open>lib/semaphore\<close>.
  \<^item> \<^verbatim>\<open>Path_Names\<close>: \<^verbatim>\<open>lib/fs/util.go\<close>, \<^verbatim>\<open>tempname.go\<close>, \<^verbatim>\<open>filesystem.go\<close>.
  \<^item> \<^verbatim>\<open>Scan_Cache\<close>, \<^verbatim>\<open>Scan_Walk\<close>: \<^verbatim>\<open>lib/scanner/cache.go\<close>, \<^verbatim>\<open>snapshot.go\<close>, \<^verbatim>\<open>walk.go\<close>.
  \<^item> \<^verbatim>\<open>Ignore_Patterns\<close>: \<^verbatim>\<open>lib/ignore\<close>.
  \<^item> \<^verbatim>\<open>Disk\<close>: a model of the disk, and the helpers of \<^verbatim>\<open>lib/osutil\<close> and \<^verbatim>\<open>lib/model/util.go\<close> on it.
  \<^item> \<^verbatim>\<open>Conflict_Copies\<close>, \<^verbatim>\<open>Item_Pull\<close>: what \<^verbatim>\<open>lib/model/folder_sendrecv.go\<close> does for each needed item:
    directories, links, files, renames, deletions, conflict copies; \<^verbatim>\<open>Item_Safety\<close> has what is proved of it.
  \<^item> \<^verbatim>\<open>Scan_Folder\<close>: what \<^verbatim>\<open>lib/model/folder.go\<close> does with the results of a scan: batches, renames,
    deleted and ignored items; \<^verbatim>\<open>Scan_Result\<close> has what is proved of it.
  \<^item> \<^verbatim>\<open>Folder_State\<close>: \<^verbatim>\<open>lib/model/folderstate.go\<close> and the loop of the service of a folder.
  \<^item> \<^verbatim>\<open>Folder_Types\<close>: \<^verbatim>\<open>lib/model/folder_sendonly.go\<close>, \<^verbatim>\<open>folder_recvonly.go\<close>,
    \<^verbatim>\<open>folder_recvenc.go\<close>.
  \<^item> \<^verbatim>\<open>Model_Requests\<close>: how \<^verbatim>\<open>lib/model/model.go\<close> answers requests for blocks.
  \<^item> \<^verbatim>\<open>Config\<close>: devices and folders in \<^verbatim>\<open>lib/config\<close>, and how a configuration is made consistent.
  \<^item> \<^verbatim>\<open>Cluster_Config\<close>: announcements of folders in \<^verbatim>\<open>lib/model/model.go\<close>: encryption, accepting folders,
    introductions.

  \<^bold>\<open>How the code is translated.\<close>  Structs are records, operations are functions on them; a method that runs
  under a mutex is one step.  A panic is a value of its own.  Loops are recursive functions with a proof of
  termination; the send loop of the index handler has fuel, and it is shown how much is enough.  Goroutines that
  share a state are step relations, so that a theorem holds for every interleaving.  Hash functions, protocol
  buffer marshalling, compression, Unicode normalisation, the supervisor library, the file system and the
  answers of other devices are arguments, with what the code relies on as named hypotheses.

  \<^bold>\<open>What is shown.\<close>  Version vectors form a join semilattice that \<open>Compare\<close> decides.  Device IDs, messages, frames
  and database rows survive their round trips.  The delta transfer gives back the target.  The dispatcher passes on
  checked data only, and its bookkeeping of requests never panics.  In every reachable state of the database each
  name has one global version, which is the newest valid one, unless the collection of old deletions or a sequence number
  that was reported twice took it away; the table of counts agrees with the files, and the lists of needed files with it.
  An index that is sent while the database changes brings the receiver to the state of the sender.  A file that is pulled without
  an error has the bytes that were hashed on the other device.  Where the code does not do what it says, a theorem
  shows the behaviour as it is.
  Names that were checked stay inside the folder; a scan reports newer versions only; ignore patterns end and are cached soundly.
  Pulling never overwrites, renames or deletes a file that differs from what the database knows, except where only metadata
  is taken over.
  After a scan the database agrees with the disk on what is gone.  Requests are answered only to devices that share the folder, with a part of a regular file
  in it.  A prepared
  configuration is consistent and stays as it is; both ends of an encrypted folder accept each other; introducers
  add and remove only what came from them.

  \<^bold>\<open>Not modelled.\<close>  The user interface and its interface (\<^verbatim>\<open>gui\<close>, \<^verbatim>\<open>lib/api\<close>), connection setup and authentication
  (\<^verbatim>\<open>lib/connections\<close>, \<^verbatim>\<open>lib/dialer\<close>, \<^verbatim>\<open>lib/auth\<close>), the backends of the
  file system (\<^verbatim>\<open>lib/fs\<close>), watching for changes, versioning, encryption itself, reading and migrating the
  configuration (\<^verbatim>\<open>lib/config\<close>), the engine of the
  database, upgrades, statistics and the command line tools: input and output, generated code, or calls of
  libraries without logic of their own.
\<close>

section \<open>Writer and dispatcher\<close>

lemma dispatch_ready:
  assumes "dstate d = stateReady"
  shows "case dispatch model d msg of Ok d' \<Rightarrow> dstate d' = stateReady | Err (e, d') \<Rightarrow> e \<noteq> InvalidState | Panic \<Rightarrow> True"
  using assms
  by (cases msg) (auto simp: dispatch_def Let_def check_def call_model_def lift_wire_def
      split: outcome.splits option.splits)

lemma loop_ready:
  "dstate d = stateReady \<Longrightarrow> dispatcherLoop model d msgs \<noteq> Err (InvalidState, d')"
proof (induction msgs arbitrary: d)
  case (Cons msg msgs)
  then show ?case using dispatch_ready [OF Cons.prems, of model msg] by (cases "dispatch model d msg") auto
qed simp

definition well_behaved :: "offer \<Rightarrow> bool" where
  "well_behaved o' = (case o' of OfferClose m \<Rightarrow> typeOf m = TypeClose | _ \<Rightarrow> True)"

lemma sent_starts:
  assumes "list_all well_behaved offers"
  shows "case sent_messages offers of [] \<Rightarrow> True | m # ms \<Rightarrow> typeOf m = TypeClusterConfig \<or> typeOf m = TypeClose"
proof -
  have "case taken (selected_after waiting offers) of [] \<Rightarrow> True | m # ms \<Rightarrow> typeOf m = TypeClusterConfig \<or> typeOf m = TypeClose"
    for waiting
    using assms
    by (induction waiting offers rule: selected_after.induct)
       (auto simp: offered_def ends_writer_def well_behaved_def typeOf_def)
  then show ?thesis by (simp add: sent_messages_def selected_def)
qed

text \<open>C23: Two devices that run this program never end their connection for messages out of order:
  whatever becomes ready for the writer of one, in any order, the dispatcher of the other never
  fails with the protocol error for a message before the cluster configuration.\<close>

theorem peers_respect_the_handshake:
  assumes "lib_ok L" and "\<forall>sent. \<not> WriteFails L sent" and "list_all (writable L compression) (sent_messages offers)"
    and "list_all well_behaved offers" and "writerLoop L compression offers = Ok bs"
  shows "dispatcherLoop model new_dispatcher (fst (readerLoop L bs)) \<noteq> Err (InvalidState, d)"
proof -
  have sent: "fst (readerLoop L bs) = sent_messages offers"
    using writer_rest_read [OF assms(1, 2), of "selected offers" compression] assms(3, 5)
    by (auto simp: writerLoop_rest sent_messages_def list_all_iff)
  show ?thesis
  proof (cases "sent_messages offers")
    case (Cons m ms)
    then have "typeOf m = TypeClusterConfig \<or> typeOf m = TypeClose" using sent_starts [OF assms(4)] by simp
    then have "case dispatch model new_dispatcher m of
        Ok d' \<Rightarrow> dstate d' = stateReady | Err (e, d') \<Rightarrow> e \<noteq> InvalidState | Panic \<Rightarrow> True"
      by (cases m) (auto simp: typeOf_def dispatch_def new_dispatcher_def call_model_def lift_wire_def Let_def
          split: outcome.splits option.splits)
    then show ?thesis
      using loop_ready by (cases "dispatch model new_dispatcher m") (auto simp: sent Cons)
  qed (simp add: sent)
qed

theorem peers_respect_the_handshake_witness:
  "\<exists>bs. writerLoop toy_lib CompressionAlways toy_offers = Ok bs \<and>
     dispatcherLoop (\<lambda>_. Some ''e'') new_dispatcher (fst (readerLoop toy_lib bs)) \<noteq> Err (InvalidState, new_dispatcher)"
proof -
  have "list_all well_behaved toy_offers" by (simp add: toy_offers_def well_behaved_def typeOf_def)
  moreover obtain bs where "writerLoop toy_lib CompressionAlways toy_offers = Ok bs"
    using writer_rest_read [OF toy_lib_ok toy_no_fail, of "selected toy_offers" CompressionAlways]
      toy_writable by (auto simp: writerLoop_rest sent_messages_def list_all_iff)
  ultimately show ?thesis
    using peers_respect_the_handshake [OF toy_lib_ok toy_no_fail toy_writable] by blast
qed

section \<open>An index exchange from end to end\<close>

lemma wire_no_collisions:
  "no_collisions env (wire_file wireName ` F) db = no_collisions env F db"
  by (simp add: no_collisions_def)

text \<open>C1: An index exchange converges: in every interleaving of changes of the sender's database with
  batches that it sends, everything it sends is marshalled, passes the dispatcher of the receiver and
  is stored there; then the receiver's database has, for every file that the sender's database has now
  and up to the sequence number it has reached, that very file, as it is read back after the
  conversions of the wire and of the database.\<close>

theorem index_exchange_converges:
  assumes "index_sending es proto_Size sdb s ms" and "\<not> folderIsReceiveEncrypted s"
    and "files = concat (map index_files ms)" and "\<forall>f \<in> set files. deliverable wireName f"
    and "inj_on (\<lambda>x. NormalizedFilename er (wireName x)) (Name ` set files)"
    and "receiver_ok er rdb" and "no_collisions er (set files) rdb" and "\<not> paused h" and "device \<noteq> LocalDeviceID" and "dstate d = stateReady" and "calls d = []"
  shows "\<exists>ws d' dl' rdb'. omap (send_message wireName) ms = Ok ws \<and> dispatcherLoop accept d ws = Ok d' \<and>
    receive_messages er device h (index_calls (calls d')) dl rdb = Ok (None, dl', rdb') \<and>
    (\<forall>f \<in> set (local_source es sdb 0 0). Sequence f \<le> localPrevSequence s \<longrightarrow>
       GetDeviceFile er device (wireName (Name f)) rdb' =
         Some (read_back er (prepare_file er (wire_file wireName (prepareFileInfoForIndex f)))))"
proof -
  note sending = index_sending_refines [OF assms(1)]
  have files: "files = local_index.sent_files ms" by (simp add: assms(3) local_index.sent_files_def)
  obtain ws d' where sent: "omap (send_message wireName) ms = Ok ws" "dispatcherLoop accept d ws = Ok d'"
      "index_calls (calls d') = map (wire_index_message wireName) ms"
    using messages_delivered [of ms wireName d] assms(3, 4, 10, 11) by auto
  have "sorted_wrt (<) (map Sequence files)"
    using local_index.sending_holds [OF sending] by (simp add: local_index.sending_inv_def files)
  then have sorted: "sorted_wrt (<) (0 # map Sequence (map (wire_file wireName) files))"
    using local_index.sending_positive [OF sending] by (auto simp: comp_def files)
  have wired: "\<forall>f \<in> set (map (wire_file wireName) files). wire_sized f \<and> \<not> truncated f"
    using assms(4) by (auto simp: deliverable_def)
  have free: "no_collisions er (set (map (wire_file wireName) files)) rdb"
    using assms(7) by (simp add: wire_no_collisions)
  have arrived: "\<exists>dl' rdb'. receive_messages er device h (map (wire_index_message wireName) ms) dl rdb = Ok (None, dl', rdb') \<and>
      (ms \<noteq> [] \<longrightarrow> (\<forall>n. GetDeviceFile er device n rdb' =
         map_option (\<lambda>f. read_back er (prepare_file er f)) (last_named er n (map (wire_file wireName) files))))"
  proof (cases ms)
    case (Cons m us)
    then obtain i where i: "m = IndexMsg i" "list_all is_update us"
      using local_index.sending_full_index [OF sending assms(2)] by (cases m) (auto simp: is_update_def)
    let ?i = "i\<lparr>Files := map (wire_file wireName) (Files i)\<rparr>"
    have "map (wire_file wireName) files = Files ?i @ concat (map index_files (map (wire_index_message wireName) us))"
      by (simp add: assms(3) Cons i(1) map_concat comp_def) (simp add: index_files_def)
    moreover have msgs: "map (wire_index_message wireName) ms = IndexMsg ?i # map (wire_index_message wireName) us"
      by (simp add: Cons i(1)) (simp add: wire_index_message_def)
    moreover have "list_all is_update (map (wire_index_message wireName) us)" using i(2) by (simp add: list_all_iff)
    ultimately show ?thesis
      unfolding msgs using receive_full_index [OF assms(8, 9) _ assms(6) _ sorted free wired] by blast
  qed simp
  then obtain dl' rdb' where rec: "receive_messages er device h (map (wire_index_message wireName) ms) dl rdb = Ok (None, dl', rdb')"
      "ms \<noteq> [] \<longrightarrow> (\<forall>n. GetDeviceFile er device n rdb' =
         map_option (\<lambda>f. read_back er (prepare_file er f)) (last_named er n (map (wire_file wireName) files)))" by blast
  have "GetDeviceFile er device (wireName (Name f)) rdb' =
      Some (read_back er (prepare_file er (wire_file wireName (prepareFileInfoForIndex f))))"
    if f: "f \<in> set (local_source es sdb 0 0)" "Sequence f \<le> localPrevSequence s" for f
  proof -
    obtain as bs where split: "files = as @ prepareFileInfoForIndex f # bs" "\<forall>e \<in> set bs. Name e \<noteq> Name (prepareFileInfoForIndex f)"
      using local_index.last_announcement [OF sending f] assms(2) by (auto simp: announced_file_def files)
    then have "ms \<noteq> []" using assms(3) by auto
    then show ?thesis using last_named_wire [OF split assms(5)] rec(2) by simp
  qed
  then show ?thesis using sent rec(1) by (intro exI [of _ ws] exI [of _ d'] exI [of _ dl'] exI [of _ rdb']) simp
qed

theorem index_exchange_converges_witness:
  "\<exists>ws d' dl' rdb'. omap (send_message (\<lambda>n. n)) [IndexMsg sample_message] = Ok ws \<and>
    dispatcherLoop accept (new_dispatcher\<lparr>dstate := stateReady\<rparr>) ws = Ok d' \<and>
    receive_messages sample_env [1] (sample_handler 0) (index_calls (calls d')) newDeviceDownloadState (new_folder_db False) = Ok (None, dl', rdb') \<and>
    GetDeviceFile sample_env [1] ''a'' rdb' =
      Some (read_back sample_env (prepare_file sample_env (wire_file (\<lambda>n. n) (prepareFileInfoForIndex sample_local_file))))"
proof -
  have files: "[sample_local_file] = concat (map index_files [IndexMsg sample_message])" by code_simp
  have "deliverable (\<lambda>n. n) sample_local_file" "\<not> folderIsReceiveEncrypted (sample_handler 1)" "\<not> paused (sample_handler 0)" "[1] \<noteq> LocalDeviceID"
    by (code_simp+)
  moreover have x: "Name sample_local_file = ''a''" "Sequence sample_local_file \<le> localPrevSequence (sample_handler 1)"
    by (code_simp+)
  moreover have "dstate (new_dispatcher\<lparr>dstate := stateReady\<rparr>) = stateReady" "calls (new_dispatcher\<lparr>dstate := stateReady\<rparr>) = []"
    by (simp_all add: new_dispatcher_def)
  ultimately have "\<exists>ws d' dl' rdb'. omap (send_message (\<lambda>n. n)) [IndexMsg sample_message] = Ok ws \<and>
      dispatcherLoop accept (new_dispatcher\<lparr>dstate := stateReady\<rparr>) ws = Ok d' \<and>
      receive_messages sample_env [1] (sample_handler 0) (index_calls (calls d')) newDeviceDownloadState (new_folder_db False) = Ok (None, dl', rdb') \<and>
      (\<forall>f \<in> set [sample_local_file]. Sequence f \<le> localPrevSequence (sample_handler 1) \<longrightarrow> GetDeviceFile sample_env [1] (Name f) rdb' =
        Some (read_back sample_env (prepare_file sample_env (wire_file (\<lambda>n. n) (prepareFileInfoForIndex f)))))"
    unfolding sample_local_files [symmetric]
    by (intro index_exchange_converges [OF sample_sending _ files _ _ sample_receiver_ok])
       (simp_all add: sample_no_collisions)
  then show ?thesis using x by auto
qed

end
